(* ===== verification/Cesr_Prelude.thy ===== *)
theory Cesr_Prelude
  imports Main "HOL-Library.Word"
begin

text \<open>
  What every theory of the development shares: the names of the machine types
  of the Rust sources, the result type with its question-mark operator, the
  operations of the Rust standard library the sources call on slices, vectors
  and integers (checked arithmetic, \<^verbatim>\<open>get\<close>, \<^verbatim>\<open>position\<close>,
  \<^verbatim>\<open>sort_unstable\<close> followed by \<^verbatim>\<open>dedup\<close>), and the collections of
  rewrite rules the component proofs use.
\<close>

text \<open>Machine integers are words; a usize that indexes memory is a nat.\<close>

type_synonym byte = "8 word"
type_synonym u32 = "32 word"
type_synonym u64 = "64 word"
type_synonym u128 = "128 word"
type_synonym bytes = "byte list"

abbreviation usize_bound :: nat where
  "usize_bound \<equiv> 2 ^ 64"

text \<open>
  \<^verbatim>\<open>res_simps\<close> unfolds the branches of a fallible function,
  \<^verbatim>\<open>res_intros\<close> splits the goals about one.
\<close>

named_theorems res_simps
named_theorems checked_simps

section \<open>Results\<close>

text \<open>A Rust \<^verbatim>\<open>Result<T, E>\<close> is \<^verbatim>\<open>'e + 'a\<close> with Err on the left.\<close>

fun res_bind :: "('e + 'a) \<Rightarrow> ('a \<Rightarrow> ('e + 'b)) \<Rightarrow> ('e + 'b)" where
  "res_bind (Inl e) f = Inl e"
| "res_bind (Inr x) f = f x"

fun map_err :: "('e \<Rightarrow> 'f) \<Rightarrow> ('e + 'a) \<Rightarrow> ('f + 'a)" where
  "map_err g (Inl e) = Inl (g e)"
| "map_err g (Inr x) = Inr x"

fun ok_or :: "'e \<Rightarrow> 'a option \<Rightarrow> ('e + 'a)" where
  "ok_or e None = Inl e"
| "ok_or e (Some x) = Inr x"

definition ensure :: "bool \<Rightarrow> 'e \<Rightarrow> ('e + unit)" where
  "ensure b e = (if b then Inr () else Inl e)"

fun is_ok :: "('e + 'a) \<Rightarrow> bool" where
  "is_ok (Inl _) = False"
| "is_ok (Inr _) = True"

text \<open>Collecting an iterator of results into a result of a vector.\<close>

fun traverse :: "('a \<Rightarrow> ('e + 'b)) \<Rightarrow> 'a list \<Rightarrow> ('e + 'b list)" where
  "traverse f [] = Inr []"
| "traverse f (x # xs) = res_bind (f x) (\<lambda>y. res_bind (traverse f xs) (\<lambda>ys. Inr (y # ys)))"

lemma res_bind_Inr [simp, res_simps]:
  "res_bind m f = Inr y \<longleftrightarrow> (\<exists>x. m = Inr x \<and> f x = Inr y)"
  by (cases m) auto

lemma res_bind_Inl [res_simps]:
  "res_bind m f = Inl e \<longleftrightarrow> m = Inl e \<or> (\<exists>x. m = Inr x \<and> f x = Inl e)"
  by (cases m) auto

lemma res_bind_assoc: "res_bind (res_bind m f) g = res_bind m (\<lambda>x. res_bind (f x) g)"
  by (cases m) auto

lemma res_bind_cong [fundef_cong]:
  "m = m' \<Longrightarrow> (\<And>x. m' = Inr x \<Longrightarrow> f x = f' x) \<Longrightarrow> res_bind m f = res_bind m' f'"
  by (cases m') auto

lemma map_err_Inr [simp, res_simps]: "map_err g m = Inr y \<longleftrightarrow> m = Inr y"
  by (cases m) auto

lemma map_err_Inl [res_simps]: "map_err g m = Inl e \<longleftrightarrow> (\<exists>e'. m = Inl e' \<and> e = g e')"
  by (cases m) auto

lemma ok_or_Inr [simp, res_simps]: "ok_or e m = Inr y \<longleftrightarrow> m = Some y"
  by (cases m) auto

lemma ok_or_Inl [simp, res_simps]: "ok_or e m = Inl e' \<longleftrightarrow> m = None \<and> e' = e"
  by (cases m) auto

lemma ensure_Inr [simp, res_simps]: "ensure b e = Inr u \<longleftrightarrow> b"
  by (simp add: ensure_def)

lemma ensure_Inl [simp, res_simps]: "ensure b e = Inl e' \<longleftrightarrow> \<not> b \<and> e' = e"
  by (auto simp: ensure_def)

lemma ensure_True [simp]: "b \<Longrightarrow> ensure b e = Inr ()"
  by (simp add: ensure_def)

lemma is_ok_iff: "is_ok m \<longleftrightarrow> (\<exists>x. m = Inr x)"
  by (cases m) auto

lemma traverse_Inr_iff:
  "traverse f xs = Inr ys \<longleftrightarrow> list_all2 (\<lambda>x y. f x = Inr y) xs ys"
  by (induction xs arbitrary: ys) (auto simp: list_all2_Cons1)

lemma traverse_length: "traverse f xs = Inr ys \<Longrightarrow> length ys = length xs"
  by (auto simp: traverse_Inr_iff dest: list_all2_lengthD)

lemma traverse_map_Inr: "traverse (\<lambda>x. Inr (g x)) xs = Inr (map g xs)"
  by (induction xs) auto

section \<open>Slices and vectors\<close>

definition slice_get :: "'a list \<Rightarrow> nat \<Rightarrow> 'a option" where
  "slice_get xs i = (if i < length xs then Some (xs ! i) else None)"

lemma slice_get_Some: "slice_get xs i = Some x \<longleftrightarrow> i < length xs \<and> xs ! i = x"
  by (auto simp: slice_get_def)

lemma slice_get_None: "slice_get xs i = None \<longleftrightarrow> length xs \<le> i"
  by (auto simp: slice_get_def)

lemma slice_get_mem: "slice_get xs i = Some x \<Longrightarrow> x \<in> set xs"
  by (auto simp: slice_get_def split: if_splits)

text \<open>\<^verbatim>\<open>xs.get(a..b)\<close>: None when the range leaves the slice.\<close>

definition slice_range :: "'a list \<Rightarrow> nat \<Rightarrow> nat \<Rightarrow> 'a list option" where
  "slice_range xs a b = (if a \<le> b \<and> b \<le> length xs then Some (take (b - a) (drop a xs)) else None)"

lemma slice_range_Some:
  "slice_range xs a b = Some ys \<longleftrightarrow> a \<le> b \<and> b \<le> length xs \<and> ys = take (b - a) (drop a xs)"
  by (auto simp: slice_range_def)

lemma slice_range_length: "slice_range xs a b = Some ys \<Longrightarrow> length ys = b - a"
  by (auto simp: slice_range_Some)

text \<open>\<^verbatim>\<open>iter().position(p)\<close>.\<close>

fun position :: "('a \<Rightarrow> bool) \<Rightarrow> 'a list \<Rightarrow> nat option" where
  "position p [] = None"
| "position p (x # xs) = (if p x then Some 0 else map_option Suc (position p xs))"

lemma position_None: "position p xs = None \<longleftrightarrow> (\<forall>x \<in> set xs. \<not> p x)"
  by (induction xs) auto

lemma position_Some:
  "position p xs = Some i \<longleftrightarrow> i < length xs \<and> p (xs ! i) \<and> (\<forall>j < i. \<not> p (xs ! j))"
proof (induction xs arbitrary: i)
  case (Cons x xs)
  show ?case
  proof (cases i)
    case 0
    then show ?thesis by auto
  next
    case (Suc k)
    then show ?thesis using Cons.IH[of k] by (auto simp: less_Suc_eq_0_disj)
  qed
qed simp

text \<open>\<^verbatim>\<open>sort_unstable()\<close> and then \<^verbatim>\<open>dedup()\<close>.\<close>

definition sort_dedup :: "'a::linorder list \<Rightarrow> 'a list" where
  "sort_dedup xs = remdups_adj (sort xs)"

lemma strict_sorted_remdups_adj: "sorted xs \<Longrightarrow> sorted_wrt (<) (remdups_adj xs)"
proof (induction xs rule: remdups_adj.induct)
  case (3 x y xs)
  then have "\<not> x = y \<Longrightarrow> \<forall>z \<in> set (y # xs). x < z" by fastforce
  with 3 show ?case by auto
qed auto

lemma sort_dedup_eq: "sort_dedup xs = sorted_list_of_set (set xs)"
  by (rule sorted_distinct_set_unique)
     (simp_all add: sort_dedup_def strict_sorted_remdups_adj[THEN strict_sorted_iff[THEN iffD1]])

lemma set_sort_dedup [simp]: "set (sort_dedup xs) = set xs"
  by (simp add: sort_dedup_def)

lemma strict_sorted_sort_dedup [simp]: "sorted_wrt (<) (sort_dedup xs)"
  by (simp add: sort_dedup_def strict_sorted_remdups_adj)

lemma sort_dedup_cong: "set xs = set ys \<Longrightarrow> sort_dedup xs = sort_dedup ys"
  by (simp add: sort_dedup_eq)

section \<open>Integers\<close>

definition checked_add :: "'a::len word \<Rightarrow> 'a word \<Rightarrow> 'a word option" where
  "checked_add a b = (if unat a + unat b < 2 ^ LENGTH('a) then Some (a + b) else None)"

definition checked_mul :: "'a::len word \<Rightarrow> 'a word \<Rightarrow> 'a word option" where
  "checked_mul a b = (if unat a * unat b < 2 ^ LENGTH('a) then Some (a * b) else None)"

definition checked_sub :: "'a::len word \<Rightarrow> 'a word \<Rightarrow> 'a word option" where
  "checked_sub a b = (if unat b \<le> unat a then Some (a - b) else None)"

lemma checked_add_Some [checked_simps]:
  "checked_add a b = Some c \<longleftrightarrow> unat c = unat a + unat b" for a b c :: "'a::len word"
proof
  assume "unat c = unat a + unat b"
  moreover have "unat c < 2 ^ LENGTH('a)" by (rule unsigned_less)
  ultimately have lt: "unat a + unat b < 2 ^ LENGTH('a)" by simp
  have "c = a + b"
    by (rule word_unat_eq_iff[THEN iffD2]) (use \<open>unat c = unat a + unat b\<close> lt in \<open>simp add: unat_word_ariths\<close>)
  with lt show "checked_add a b = Some c" by (simp add: checked_add_def)
qed (auto simp: checked_add_def unat_word_ariths split: if_splits)

lemma checked_mul_Some [checked_simps]:
  "checked_mul a b = Some c \<longleftrightarrow> unat c = unat a * unat b" for a b c :: "'a::len word"
proof
  assume "unat c = unat a * unat b"
  moreover have "unat c < 2 ^ LENGTH('a)" by (rule unsigned_less)
  ultimately have lt: "unat a * unat b < 2 ^ LENGTH('a)" by simp
  have "c = a * b"
    by (rule word_unat_eq_iff[THEN iffD2]) (use \<open>unat c = unat a * unat b\<close> lt in \<open>simp add: unat_word_ariths\<close>)
  with lt show "checked_mul a b = Some c" by (simp add: checked_mul_def)
qed (auto simp: checked_mul_def unat_word_ariths split: if_splits)

lemma checked_add_None [checked_simps]:
  "checked_add a b = None \<longleftrightarrow> 2 ^ LENGTH('a) \<le> unat a + unat b" for a b :: "'a::len word"
  by (auto simp: checked_add_def)

text \<open>\<^verbatim>\<open>leading_zeros()\<close>, through the number of significant bits.\<close>

fun bit_len :: "nat \<Rightarrow> nat" where
  "bit_len n = (if n = 0 then 0 else Suc (bit_len (n div 2)))"

declare bit_len.simps [simp del]

definition leading_zeros :: "'a::len word \<Rightarrow> nat" where
  "leading_zeros w = LENGTH('a) - bit_len (unat w)"

lemma bit_len_le: "bit_len n \<le> k \<longleftrightarrow> n < 2 ^ k"
proof (induction k arbitrary: n)
  case (Suc k)
  then show ?case by (subst bit_len.simps) (auto simp: div_less_iff_less_mult mult.commute)
qed (auto simp: bit_len.simps)

lemma leading_zeros_less:
  assumes "0 < k" "k \<le> LENGTH('a)"
  shows "leading_zeros (w :: 'a::len word) < k \<longleftrightarrow> 2 ^ (LENGTH('a) - k) \<le> unat w"
proof -
  have "leading_zeros w < k \<longleftrightarrow> \<not> bit_len (unat w) \<le> LENGTH('a) - k"
    using assms unfolding leading_zeros_def by linarith
  then show ?thesis by (simp add: bit_len_le not_less)
qed

lemma byte_less: "unat (b :: byte) < 256"
  using unsigned_less[of b] by simp

section \<open>Strings\<close>

text \<open>
  A Rust string at run time is its bytes; a literal of the source is a string
  literal, read through \<^verbatim>\<open>str_bytes\<close>.
\<close>

definition str_bytes :: "string \<Rightarrow> bytes" where
  "str_bytes s = map of_char s"

definition utf8_cont :: "byte \<Rightarrow> bool" where
  "utf8_cont b \<longleftrightarrow> 0x80 \<le> b \<and> b \<le> 0xBF"

text \<open>The validity check of \<^verbatim>\<open>str::from_utf8\<close>.\<close>

fun from_utf8_ok :: "bytes \<Rightarrow> bool" where
  "from_utf8_ok [] = True"
| "from_utf8_ok (b # bs) =
     (if b < 0x80 then from_utf8_ok bs
      else if 0xC2 \<le> b \<and> b \<le> 0xDF then
        (case bs of c1 # r \<Rightarrow> utf8_cont c1 \<and> from_utf8_ok r | _ \<Rightarrow> False)
      else if 0xE0 \<le> b \<and> b \<le> 0xEF then
        (case bs of c1 # c2 # r \<Rightarrow>
             utf8_cont c1 \<and> (b = 0xE0 \<longrightarrow> 0xA0 \<le> c1) \<and> (b = 0xED \<longrightarrow> c1 \<le> 0x9F) \<and>
             utf8_cont c2 \<and> from_utf8_ok r
         | _ \<Rightarrow> False)
      else if 0xF0 \<le> b \<and> b \<le> 0xF4 then
        (case bs of c1 # c2 # c3 # r \<Rightarrow>
             utf8_cont c1 \<and> (b = 0xF0 \<longrightarrow> 0x90 \<le> c1) \<and> (b = 0xF4 \<longrightarrow> c1 \<le> 0x8F) \<and>
             utf8_cont c2 \<and> utf8_cont c3 \<and> from_utf8_ok r
         | _ \<Rightarrow> False)
      else False)"

lemma from_utf8_ok_ascii: "\<forall>b \<in> set bs. b < 0x80 \<Longrightarrow> from_utf8_ok bs"
  by (induction bs) auto

text \<open>Decimal digits, \<^verbatim>\<open>to_string()\<close> of an unsigned integer.\<close>

fun nat_to_string :: "nat \<Rightarrow> bytes" where
  "nat_to_string n =
     (if n < 10 then [word_of_nat (48 + n)] else nat_to_string (n div 10) @ [word_of_nat (48 + n mod 10)])"

declare nat_to_string.simps [simp del]

end
