(* ===== verification/Keri_Threshold.thy ===== *)
theory Keri_Threshold
  imports Complex_Main Cesr_Prelude
begin

text \<open>
  Signing thresholds, \<^verbatim>\<open>crates/keri-events/src/threshold.rs\<close>: simple counts and
  weighted clauses in their flattened form, with the checked fraction
  arithmetic of the source; and the witness threshold of \<^verbatim>\<open>toad.rs\<close>.
\<close>

section \<open>Data\<close>

record WeightedThreshold =
  weights :: "(u64 \<times> u64) list"
  clause_ends :: "u32 list"

datatype SigningThreshold = Simple u64 | Weighted WeightedThreshold

datatype SigningThresholdError =
    BelowMinimum
  | ExceedsKeyCount nat nat
  | EmptyClause
  | EmptyClauseList
  | TooManyWeights nat

datatype ThresholdForm = HexString | Integer

section \<open>Operations\<close>

fun from_nested_loop :: "(u64 \<times> u64) list list \<Rightarrow> WeightedThreshold \<Rightarrow> SigningThresholdError + WeightedThreshold" where
  "from_nested_loop [] w = Inr w"
| "from_nested_loop (clause # clauses) w =
     (let ws = weights w @ clause in
      if length ws < 2 ^ 32
      then from_nested_loop clauses \<lparr>weights = ws, clause_ends = clause_ends w @ [word_of_nat (length ws)]\<rparr>
      else Inl (TooManyWeights (length ws)))"

definition from_nested :: "(u64 \<times> u64) list list \<Rightarrow> SigningThresholdError + WeightedThreshold" where
  "from_nested clauses = from_nested_loop clauses \<lparr>weights = [], clause_ends = []\<rparr>"

text \<open>The iterator: a boundary that does not slice is skipped and leaves the start in place.\<close>

fun clauses_from :: "(u64 \<times> u64) list \<Rightarrow> nat \<Rightarrow> u32 list \<Rightarrow> (u64 \<times> u64) list list" where
  "clauses_from ws start [] = []"
| "clauses_from ws start (end' # ends) =
     (case slice_range ws start (unat end') of
        None \<Rightarrow> clauses_from ws start ends
      | Some clause \<Rightarrow> clause # clauses_from ws (unat end') ends)"

definition clauses :: "WeightedThreshold \<Rightarrow> (u64 \<times> u64) list list" where
  "clauses w = clauses_from (weights w) 0 (clause_ends w)"

text \<open>Exact summation of the signed fractions; None on overflow or a zero denominator.\<close>

fun clause_sum_loop ::
    "bool list \<Rightarrow> nat \<Rightarrow> (u64 \<times> u64) list \<Rightarrow> u64 \<Rightarrow> u64 \<Rightarrow> (u64 \<times> u64) option" where
  "clause_sum_loop flags i [] acc_num acc_den = Some (acc_num, acc_den)"
| "clause_sum_loop flags i ((num, den) # clause) acc_num acc_den =
     (if den = 0 then None
      else if slice_get flags i = Some True then
        Option.bind (checked_mul acc_num den) (\<lambda>lhs.
        Option.bind (checked_mul num acc_den) (\<lambda>rhs.
        Option.bind (checked_add lhs rhs) (\<lambda>acc_num'.
        Option.bind (checked_mul acc_den den) (\<lambda>acc_den'.
        clause_sum_loop flags (Suc i) clause acc_num' acc_den'))))
      else clause_sum_loop flags (Suc i) clause acc_num acc_den)"

definition clause_reaches_one :: "(u64 \<times> u64) list \<Rightarrow> bool list \<Rightarrow> bool option" where
  "clause_reaches_one clause flags =
     Option.bind (clause_sum_loop flags 0 clause 0 1) (\<lambda>(acc_num, acc_den). Some (acc_den \<le> acc_num))"

text \<open>The positions of one clause that are signed.\<close>

definition mark_signed :: "u32 \<Rightarrow> u32 \<Rightarrow> u32 \<Rightarrow> bool list \<Rightarrow> bool list" where
  "mark_signed base end' idx flags =
     (if base \<le> idx \<and> idx < end'
      then (case checked_sub idx base of
              None \<Rightarrow> flags
            | Some o' \<Rightarrow> (if unat o' < length flags then flags[unat o' := True] else flags))
      else flags)"

definition signed_positions :: "u32 \<Rightarrow> u32 \<Rightarrow> nat \<Rightarrow> u32 list \<Rightarrow> bool list" where
  "signed_positions base end' n idxs =
     fold (mark_signed base end') idxs (replicate n False)"

fun clauses_satisfied :: "u32 \<Rightarrow> u32 list \<Rightarrow> (u64 \<times> u64) list list \<Rightarrow> bool" where
  "clauses_satisfied base idxs [] = True"
| "clauses_satisfied base idxs (clause # cs) =
     (if 2 ^ 32 \<le> length clause then False
      else case checked_add base (word_of_nat (length clause)) of
             None \<Rightarrow> False
           | Some end' \<Rightarrow>
               (if clause_reaches_one clause (signed_positions base end' (length clause) idxs) \<noteq> Some True
                then False else clauses_satisfied end' idxs cs))"

definition strictly_ascending :: "u32 list \<Rightarrow> bool" where
  "strictly_ascending xs = list_all (\<lambda>(a, b). a < b) (zip xs (tl xs))"

definition satisfied_by_sorted_unique :: "SigningThreshold \<Rightarrow> u32 list \<Rightarrow> bool" where
  "satisfied_by_sorted_unique t idxs =
     (if \<not> strictly_ascending idxs then False
      else case t of
        Simple threshold \<Rightarrow> unat threshold \<le> length idxs
      | Weighted w \<Rightarrow> (if clause_ends w = [] then False else clauses_satisfied 0 idxs (clauses w)))"

definition satisfied_by :: "SigningThreshold \<Rightarrow> u32 list \<Rightarrow> bool" where
  "satisfied_by t indices = satisfied_by_sorted_unique t (sort_dedup indices)"

definition check_well_formed :: "SigningThreshold \<Rightarrow> nat \<Rightarrow> SigningThresholdError + unit" where
  "check_well_formed t key_count =
     (case t of
        Simple threshold \<Rightarrow>
          (let required = unat threshold in
           if required < 1 then Inl BelowMinimum
           else if key_count < required then Inl (ExceedsKeyCount required key_count)
           else Inr ())
      | Weighted w \<Rightarrow>
          (if clause_ends w = [] then Inl EmptyClauseList
           else if list_ex (\<lambda>c. c = []) (clauses w) then Inl EmptyClause
           else let total = length (weights w) in
                if key_count < total then Inl (ExceedsKeyCount total key_count)
                else Inr ()))"

section \<open>The witness threshold\<close>

datatype ToadError = OutOfRange u32 nat | Overflow nat

text \<open>\<^verbatim>\<open>struct Toad(u32)\<close>.\<close>

type_synonym Toad = u32

definition least_strong_majority :: "nat \<Rightarrow> nat \<Rightarrow> ToadError + nat" where
  "least_strong_majority n f =
     (if n + f + 1 < usize_bound then Inr ((n + f + 1 + 1) div 2) else Inl (Overflow n))"

definition toad_ample :: "nat \<Rightarrow> ToadError + Toad" where
  "toad_ample witness_count =
     (if witness_count = 0 then Inr 0
      else let faultable = witness_count - 1;
               f_floor = max (faultable div 3) 1;
               f_ceil = max ((faultable + 2) div 3) 1
           in res_bind (least_strong_majority witness_count f_floor) (\<lambda>m_floor.
              res_bind (least_strong_majority witness_count f_ceil) (\<lambda>m_ceil.
              let threshold = min (min witness_count m_floor) m_ceil
              in if threshold < 2 ^ 32 then Inr (word_of_nat threshold) else Inl (Overflow witness_count))))"

definition toad_exact :: "u32 \<Rightarrow> nat \<Rightarrow> ToadError + Toad" where
  "toad_exact toad witness_count =
     (let valid = (if witness_count = 0 then toad = 0 else 1 \<le> toad \<and> unat toad \<le> witness_count)
      in if valid then Inr toad else Inl (OutOfRange toad witness_count))"

definition toad_from_wire :: "u32 \<Rightarrow> Toad" where
  "toad_from_wire toad = toad"


section \<open>What a threshold promises\<close>

text \<open>
  The abstract contract: with \<^verbatim>\<open>S\<close> the positions that signed, a simple threshold
  counts them, and a weighted one asks of every clause that the exact rational
  weights of its signed positions sum to one at least.
\<close>

fun clause_weight :: "nat set \<Rightarrow> nat \<Rightarrow> (u64 \<times> u64) list \<Rightarrow> rat" where
  "clause_weight S p [] = 0"
| "clause_weight S p ((num, den) # c) =
     (if p \<in> S then of_nat (unat num) / of_nat (unat den) else 0) + clause_weight S (Suc p) c"

fun clauses_met :: "nat set \<Rightarrow> nat \<Rightarrow> (u64 \<times> u64) list list \<Rightarrow> bool" where
  "clauses_met S base [] = True"
| "clauses_met S base (c # cs) = (1 \<le> clause_weight S base c \<and> clauses_met S (base + length c) cs)"

definition weighted_met :: "nat set \<Rightarrow> (u64 \<times> u64) list list \<Rightarrow> bool" where
  "weighted_met S cs \<longleftrightarrow> cs \<noteq> [] \<and> clauses_met S 0 cs"

text \<open>The flattened form gives the clauses back.\<close>

lemma from_nested_loop_clauses:
  "from_nested_loop cs w = Inr v \<Longrightarrow> length (weights w) < 2 ^ 32 \<Longrightarrow>
   \<exists>ends. clause_ends v = clause_ends w @ ends \<and> weights v = weights w @ concat cs \<and> length (weights v) < 2 ^ 32 \<and>
     length ends = length cs \<and> (\<forall>more. clauses_from (weights v @ more) (length (weights w)) ends = cs)"
proof (induction cs arbitrary: w)
  case (Cons c cs)
  let ?w = "\<lparr>weights = weights w @ c, clause_ends = clause_ends w @ [word_of_nat (length (weights w @ c))]\<rparr>"
  from Cons.prems have lt: "length (weights w @ c) < 2 ^ 32" and "from_nested_loop cs ?w = Inr v"
    by (auto simp: Let_def split: if_splits)
  with Cons.IH[of ?w] obtain ends where e:
    "clause_ends v = clause_ends ?w @ ends" "weights v = weights ?w @ concat cs" "length (weights v) < 2 ^ 32"
    "length ends = length cs" "\<forall>more. clauses_from (weights v @ more) (length (weights ?w)) ends = cs"
    by auto
  have u: "unat (word_of_nat (length (weights w @ c)) :: u32) = length (weights w) + length c"
    using lt by (simp add: unat_of_nat take_bit_eq_mod flip: of_nat_add)
  have "slice_range (weights v @ more) (length (weights w)) (length (weights w) + length c) = Some c" for more
    using e(2) by (simp add: slice_range_def)
  with e u show ?case
    by (intro exI[of _ "word_of_nat (length (weights w @ c)) # ends"]) auto
qed auto

lemma from_nested_clauses:
  assumes "from_nested cs = Inr w"
  shows "clauses w = cs \<and> (clause_ends w = [] \<longleftrightarrow> cs = []) \<and> weights w = concat cs \<and> length (concat cs) < 2 ^ 32"
proof -
  from assms[unfolded from_nested_def, THEN from_nested_loop_clauses] obtain ends where
    "clause_ends w = ends" "weights w = concat cs" "length (weights w) < 2 ^ 32" "length ends = length cs"
    "\<forall>more. clauses_from (weights w @ more) 0 ends = cs" by auto
  then show ?thesis by (auto simp: clauses_def dest: spec[of _ "[]"])
qed

text \<open>The marks of one clause.\<close>

lemma mark_signed_length: "length (mark_signed b e i flags) = length flags"
  by (auto simp: mark_signed_def split: option.splits)

lemma mark_signed_nth:
  assumes "unat e = unat b + length flags" "j < length flags"
  shows "mark_signed b e i flags ! j \<longleftrightarrow> flags ! j \<or> unat i = unat b + j"
  using assms
  by (auto simp: mark_signed_def checked_sub_def word_le_nat_alt word_less_nat_alt unat_sub nth_list_update split: if_splits)

lemma signed_positions_length [simp]: "length (signed_positions b e n is) = n"
proof -
  have "length (fold (mark_signed b e) is fl) = length fl" for fl
    by (induction "is" arbitrary: fl) (auto simp: mark_signed_length)
  then show ?thesis by (simp add: signed_positions_def)
qed

lemma signed_positions_nth:
  assumes "unat e = unat b + n" "j < n"
  shows "signed_positions b e n is ! j \<longleftrightarrow> unat b + j \<in> unat ` set is"
proof -
  have "fold (mark_signed b e) is fl ! j \<longleftrightarrow> fl ! j \<or> unat b + j \<in> unat ` set is" if "length fl = n" for fl
    using that
  proof (induction "is" arbitrary: fl)
    case (Cons i "is")
    then show ?case using assms by (auto simp: mark_signed_length mark_signed_nth)
  qed simp
  then show ?thesis using assms by (simp add: signed_positions_def)
qed

text \<open>The checked loop computes the exact sum, when it returns.\<close>

lemma frac_step:
  "b \<noteq> 0 \<Longrightarrow> d \<noteq> 0 \<Longrightarrow>
   (of_nat (a * d + n * b) :: rat) / of_nat (b * d) = of_nat a / of_nat b + of_nat n / of_nat d"
  by (simp add: field_simps)

lemma clause_sum_loop_sound:
  assumes "clause_sum_loop flags i c a b = Some (a', b')" "b \<noteq> 0"
    and "\<And>j. j < length c \<Longrightarrow> slice_get flags (i + j) = Some True \<longleftrightarrow> p + j \<in> S"
  shows "b' \<noteq> 0 \<and> of_nat (unat a') / of_nat (unat b') =
           of_nat (unat a) / of_nat (unat b) + clause_weight S p c"
  using assms
proof (induction c arbitrary: i a b p)
  case (Cons nd c)
  obtain num den where nd: "nd = (num, den)" by (cases nd)
  have hd: "slice_get flags i = Some True \<longleftrightarrow> p \<in> S" using Cons.prems(3)[of 0] by simp
  have tl: "\<And>j. j < length c \<Longrightarrow> slice_get flags (Suc i + j) = Some True \<longleftrightarrow> Suc p + j \<in> S"
    using Cons.prems(3)[of "Suc j" for j] by simp
  show ?case
  proof (cases "p \<in> S")
    case False
    with Cons.prems(1) hd nd have "clause_sum_loop flags (Suc i) c a b = Some (a', b')"
      by (simp split: if_splits)
    from Cons.IH[OF this Cons.prems(2) tl] False show ?thesis by (simp add: nd)
  next
    case True
    with Cons.prems(1) hd nd obtain l r s d where
      st: "checked_mul a den = Some l" "checked_mul num b = Some r" "checked_add l r = Some s" "checked_mul b den = Some d"
        "clause_sum_loop flags (Suc i) c s d = Some (a', b')" and den: "den \<noteq> 0"
      by (auto simp: bind_eq_Some_conv split: if_splits)
    have u: "unat s = unat a * unat den + unat num * unat b" "unat d = unat b * unat den"
      using st(1-4) by (simp_all add: checked_mul_Some checked_add_Some)
    have nz: "unat b \<noteq> 0" "unat den \<noteq> 0" using den Cons.prems(2) by (simp_all add: unat_eq_0)
    then have "d \<noteq> 0" using u by (metis mult_eq_0_iff unat_0)
    from Cons.IH[OF st(5) this tl] True nz u show ?thesis
      by (simp add: nd frac_step del: of_nat_unat of_nat_add of_nat_mult)
  qed
qed simp

definition pos_flags :: "nat set \<Rightarrow> nat \<Rightarrow> nat \<Rightarrow> bool list \<Rightarrow> bool" where
  "pos_flags S p n flags \<longleftrightarrow> length flags = n \<and> (\<forall>j < n. flags ! j \<longleftrightarrow> p + j \<in> S)"

lemma signed_positions_eq:
  "unat e = unat b + n \<Longrightarrow> signed_positions b e n is = map (\<lambda>j. unat b + j \<in> unat ` set is) [0..<n]"
  by (rule nth_equalityI) (simp_all add: signed_positions_nth)

lemma signed_positions_flags:
  "unat e = unat b + n \<Longrightarrow> pos_flags (unat ` set is) (unat b) n (signed_positions b e n is)"
  by (simp add: pos_flags_def signed_positions_nth)

lemma clause_reaches_one_Some:
  assumes "clause_reaches_one c flags = Some r" "pos_flags S p (length c) flags"
  shows "r \<longleftrightarrow> 1 \<le> clause_weight S p c"
proof -
  from assms(1) obtain a b where l: "clause_sum_loop flags 0 c 0 1 = Some (a, b)" and r: "r \<longleftrightarrow> b \<le> a"
    by (auto simp: clause_reaches_one_def bind_eq_Some_conv)
  have "b \<noteq> 0" and eq: "of_nat (unat a) / of_nat (unat b) = clause_weight S p c"
    using clause_sum_loop_sound[OF l, of p S] assms(2) by (auto simp: pos_flags_def slice_get_Some)
  then have pos: "0 < unat b" by (simp add: unat_gt_0)
  have "unat b \<le> unat a \<longleftrightarrow> 1 \<le> (of_nat (unat a) / of_nat (unat b) :: rat)"
    unfolding le_divide_eq_1_pos[OF of_nat_0_less_iff[THEN iffD2, OF pos]] of_nat_le_iff ..
  then show ?thesis unfolding eq r by (simp add: word_le_nat_alt)
qed

text \<open>
  When every weight is a proper fraction and the denominators of a clause stay
  small, no step of the checked loop overflows.
\<close>

definition den_product :: "(u64 \<times> u64) list \<Rightarrow> nat" where
  "den_product c = prod_list (map (unat \<circ> snd) c)"

definition clause_fits :: "(u64 \<times> u64) list \<Rightarrow> bool" where
  "clause_fits c \<longleftrightarrow> (\<forall>(num, den) \<in> set c. den \<noteq> 0 \<and> num \<le> den) \<and> length c * den_product c < 2 ^ 64"

lemma den_product_pos: "\<forall>(num, den) \<in> set c. den \<noteq> 0 \<Longrightarrow> 0 < den_product c"
  by (induction c) (auto simp: den_product_def unat_gt_0)

lemma sum_step_bound:
  fixes a b d num k l P :: nat
  assumes "a \<le> k * b" "num \<le> d" "(k + Suc l) * (b * (d * P)) < M" "0 < P" "0 < b" "0 < d"
  shows "a * d < M \<and> num * b < M \<and> a * d + num * b < M \<and> b * d < M \<and> a * d + num * b \<le> Suc k * (b * d)"
proof -
  have "a * d + num * b \<le> k * b * d + d * b" using assms(1,2) by (intro add_mono mult_le_mono1)
  also have "\<dots> = Suc k * (b * d)" by (simp add: add_mult_distrib2 ac_simps)
  finally have 1: "a * d + num * b \<le> Suc k * (b * d)" .
  have "b * d \<le> b * (d * P)" using assms by simp
  then have 2: "Suc k * (b * d) \<le> (k + Suc l) * (b * (d * P))" by (rule mult_le_mono[rotated]) simp
  have "b * d \<le> Suc k * (b * d)" by simp
  with 1 2 assms(3) show ?thesis by linarith
qed

lemma clause_sum_loop_complete:
  "\<forall>(num, den) \<in> set c. den \<noteq> 0 \<and> num \<le> den \<Longrightarrow> unat a \<le> k * unat b \<Longrightarrow> b \<noteq> 0 \<Longrightarrow>
   (k + length c) * (unat b * den_product c) < 2 ^ 64 \<Longrightarrow>
   clause_sum_loop flags i c a b \<noteq> None"
proof (induction c arbitrary: i a b k)
  case (Cons nd c)
  obtain num den where nd: "nd = (num, den)" by (cases nd)
  let ?P = "den_product c"
  have den: "den \<noteq> 0" "0 < unat den" "unat num \<le> unat den" "0 < unat b" "0 < ?P"
    using Cons.prems den_product_pos[of c] by (auto simp: nd unat_gt_0 word_le_nat_alt)
  have bnd: "(k + Suc (length c)) * (unat b * (unat den * ?P)) < 2 ^ 64"
    using Cons.prems(4) by (simp add: nd den_product_def)
  show ?case
  proof (cases "slice_get flags i = Some True")
    case True
    note st = sum_step_bound[OF Cons.prems(2) den(3) bnd den(5) den(4) den(2)]
    then obtain l r s d where e: "checked_mul a den = Some l" "checked_mul num b = Some r"
        "checked_add l r = Some s" "checked_mul b den = Some d"
      unfolding checked_mul_def checked_add_def by (simp add: unat_word_ariths)
    then have u: "unat s = unat a * unat den + unat num * unat b" "unat d = unat b * unat den"
      by (simp_all add: checked_mul_Some checked_add_Some)
    have "d \<noteq> 0" using u(2) den by (metis mult_is_0 neq0_conv unat_0)
    moreover have "(Suc k + length c) * (unat d * ?P) < 2 ^ 64" using bnd by (simp add: u ac_simps)
    moreover have "unat s \<le> Suc k * unat d" using st unfolding u by blast
    ultimately have "clause_sum_loop flags (Suc i) c s d \<noteq> None"
      using Cons.IH[of s "Suc k" d "Suc i"] Cons.prems(1) by simp
    then show ?thesis using e den True by (simp add: nd)
  next
    case False
    have "1 * ?P \<le> unat den * ?P" by (rule mult_le_mono1) (use den(2) in simp)
    then have "unat b * ?P \<le> unat b * (unat den * ?P)" by (simp only: mult_1 mult_le_mono2)
    then have "(k + length c) * (unat b * ?P) \<le> (k + Suc (length c)) * (unat b * (unat den * ?P))"
      by (rule mult_le_mono[rotated]) simp
    then have "(k + length c) * (unat b * ?P) < 2 ^ 64" using bnd by linarith
    then show ?thesis using False den Cons.IH[OF _ Cons.prems(2,3)] Cons.prems(1) by (auto simp: nd)
  qed
qed simp

lemma clause_reaches_one_complete:
  assumes "clause_fits c" "pos_flags S p (length c) flags"
  shows "clause_reaches_one c flags = Some True \<longleftrightarrow> 1 \<le> clause_weight S p c"
proof -
  have "clause_sum_loop flags 0 c 0 1 \<noteq> None"
    using assms(1) clause_sum_loop_complete[of c 0 0 1 flags 0] by (auto simp: clause_fits_def)
  then obtain r where "clause_reaches_one c flags = Some r" by (auto simp: clause_reaches_one_def)
  with clause_reaches_one_Some[OF this assms(2)] show ?thesis by simp
qed

lemma clauses_satisfied_sound:
  "clauses_satisfied b is cs \<Longrightarrow> clauses_met (unat ` set is) (unat b) cs"
proof (induction cs arbitrary: b)
  case (Cons c cs)
  then obtain e where lt: "length c < 2 ^ 32" and e: "checked_add b (word_of_nat (length c)) = Some e"
    and one: "clause_reaches_one c (signed_positions b e (length c) is) = Some True"
    and rest: "clauses_satisfied e is cs"
    by (auto split: if_splits option.splits)
  have u: "unat e = unat b + length c"
    using e lt by (simp add: checked_add_Some unat_of_nat take_bit_eq_mod)
  then show ?case
    using Cons.IH[OF rest] clause_reaches_one_Some[OF one signed_positions_flags[OF u]] by simp
qed simp


lemma clauses_satisfied_complete:
  "\<forall>c \<in> set cs. clause_fits c \<Longrightarrow> unat b + length (concat cs) < 2 ^ 32 \<Longrightarrow>
   clauses_met (unat ` set is) (unat b) cs \<Longrightarrow> clauses_satisfied b is cs"
proof (induction cs arbitrary: b)
  case (Cons c cs)
  from Cons.prems(2) have w: "unat (word_of_nat (length c) :: u32) = length c"
    by (simp add: unat_of_nat take_bit_eq_mod)
  with Cons.prems(2) obtain e where e: "checked_add b (word_of_nat (length c)) = Some e"
    by (simp add: checked_add_def)
  then have u: "unat e = unat b + length c" by (simp add: checked_add_Some w)
  have "clause_reaches_one c (signed_positions b e (length c) is) = Some True"
    using clause_reaches_one_complete[OF _ signed_positions_flags[OF u]] Cons.prems by simp
  then show ?case using Cons.IH[of e] Cons.prems e u by simp
qed simp

section \<open>Properties of the thresholds\<close>

lemma strictly_ascending_iff: "strictly_ascending xs \<longleftrightarrow> sorted_wrt (<) xs"
proof (induction xs)
  case (Cons x xs)
  then show ?case by (cases xs) (auto simp: strictly_ascending_def intro: order.strict_trans)
qed (simp add: strictly_ascending_def)

lemma satisfied_by_Simple: "satisfied_by (Simple n) is \<longleftrightarrow> unat n \<le> card (set is)"
proof -
  have "length (sort_dedup is) = card (set is)" by (simp add: sort_dedup_eq)
  then show ?thesis by (simp add: satisfied_by_def satisfied_by_sorted_unique_def strictly_ascending_iff)
qed

lemma satisfied_by_met:
  assumes "from_nested cs = Inr w" and "satisfied_by (Weighted w) is"
  shows "weighted_met (unat ` set is) cs"
  using assms(2) from_nested_clauses[OF assms(1)] clauses_satisfied_sound[of 0 "sort_dedup is" cs]
  by (auto simp: satisfied_by_def satisfied_by_sorted_unique_def weighted_met_def split: if_splits)

text \<open>
  A weighted threshold that reports satisfaction has, in every one of its
  clauses, signed positions whose exact rational weights sum to one or more:
  overflow, truncation and zero denominators never produce a false yes.
\<close>

theorem satisfied_by_sound:
  assumes "from_nested cs = Inr w" and "satisfied_by (Weighted w) is"
  shows "weighted_met (unat ` set is) cs"
  by (rule satisfied_by_met[OF assms])

lemma satisfied_by_complete:
  assumes "from_nested cs = Inr w" and "list_all clause_fits cs" and "weighted_met (unat ` set is) cs"
  shows "satisfied_by (Weighted w) is"
  using from_nested_clauses[OF assms(1)] assms(2,3) clauses_satisfied_complete[of cs 0 "sort_dedup is"]
  by (auto simp: satisfied_by_def satisfied_by_sorted_unique_def weighted_met_def strictly_ascending_iff list_all_iff)

text \<open>
  C26: The weighted threshold is decided exactly: for clauses of proper fractions
  whose denominators multiply within 64 bits, the flattened, checked-integer
  evaluation says yes precisely when the rational specification does.
\<close>

theorem satisfied_by_exact:
  assumes "from_nested cs = Inr w" and "list_all clause_fits cs"
  shows "satisfied_by (Weighted w) is \<longleftrightarrow> weighted_met (unat ` set is) cs"
  using satisfied_by_met[OF assms(1)] satisfied_by_complete[OF assms] by blast

definition half_third_clauses :: "(u64 \<times> u64) list list" where
  "half_third_clauses = [[(1, 2), (1, 2), (1, 3)], [(1, 1)]]"

definition half_third :: WeightedThreshold where
  "half_third = \<lparr>weights = [(1, 2), (1, 2), (1, 3), (1, 1)], clause_ends = [3, 4]\<rparr>"

lemma half_third_nested: "from_nested half_third_clauses = Inr half_third"
  by (simp add: from_nested_def half_third_clauses_def half_third_def Let_def)

lemma half_third_fits: "list_all clause_fits half_third_clauses"
  by (simp add: half_third_clauses_def clause_fits_def den_product_def)

lemma half_third_satisfied: "satisfied_by (Weighted half_third) [3, 0, 1]"
  by (rule satisfied_by_complete[OF half_third_nested half_third_fits])
     (simp add: weighted_met_def half_third_clauses_def)

theorem satisfied_by_sound_witness:
  "satisfied_by (Weighted half_third) [3, 0, 1] \<and> weighted_met (unat ` set [3, 0, 1 :: u32]) half_third_clauses"
  using satisfied_by_sound[OF half_third_nested half_third_satisfied] half_third_satisfied by blast

theorem satisfied_by_exact_witness:
  "satisfied_by (Weighted half_third) [3, 0] \<longleftrightarrow> weighted_met (unat ` set [3, 0 :: u32]) half_third_clauses"
  by (rule satisfied_by_exact[OF half_third_nested half_third_fits])

text \<open>
  Signing more can lose a weighted threshold: with weights 1, 1/2^63 and 1/2^63 the
  first two signers satisfy it, and all three do not, because the common
  denominator leaves 64 bits and the overflow fails closed.
\<close>

theorem satisfied_by_not_monotone:
  "\<exists>w. from_nested [[(1, 1), (1, 2 ^ 63), (1, 2 ^ 63)]] = Inr w \<and>
     satisfied_by (Weighted w) [0, 1] \<and> \<not> satisfied_by (Weighted w) [0, 1, 2]"
proof -
  let ?c = "[(1, 1), (1, 2 ^ 63), (1, 2 ^ 63)] :: (u64 \<times> u64) list"
  let ?w = "\<lparr>weights = ?c, clause_ends = [3]\<rparr>"
  have w: "from_nested [?c] = Inr ?w" by (simp add: from_nested_def Let_def)
  note cs = from_nested_clauses[OF w]
  have "signed_positions 0 3 (Suc (Suc (Suc 0))) [0, 1] = [True, True, False]"
    "signed_positions 0 3 (Suc (Suc (Suc 0))) [0, 1, 2] = [True, True, True]"
    by (simp_all add: signed_positions_eq upt_rec)
  then have "satisfied_by (Weighted ?w) [0, 1]" "\<not> satisfied_by (Weighted ?w) [0, 1, 2]"
    using cs
    by (simp_all add: satisfied_by_def satisfied_by_sorted_unique_def sort_dedup_def strictly_ascending_def
        checked_add_def clause_reaches_one_def slice_get_def checked_mul_def word_le_nat_alt word_less_nat_alt)
  with w show ?thesis by blast
qed

section \<open>Properties of the witness threshold\<close>

lemma toad_exact_Inr:
  "toad_exact t n = Inr u \<longleftrightarrow> u = t \<and> (if n = 0 then t = 0 else 1 \<le> t \<and> unat t \<le> n)"
  by (auto simp: toad_exact_def Let_def split: if_splits)

lemma least_strong_majority_Inr:
  "least_strong_majority n f = Inr m \<longleftrightarrow> n + f + 1 < usize_bound \<and> m = (n + f + 2) div 2"
  by (auto simp: least_strong_majority_def)

lemma toad_ample_Inr:
  assumes "toad_ample n = Inr t" "0 < n"
  shows "unat t = min (min n ((n + max ((n - 1) div 3) 1 + 2) div 2)) ((n + max ((n + 1) div 3) 1 + 2) div 2)"
proof -
  have e: "n - 1 + 2 = n + 1" "(n = 0) = False" using assms(2) by simp_all
  obtain m1 m2 where m: "m1 = (n + max ((n - 1) div 3) 1 + 2) div 2" "m2 = (n + max ((n + 1) div 3) 1 + 2) div 2"
    and t: "(if min (min n m1) m2 < 2 ^ 32 then Inr (word_of_nat (min (min n m1) m2)) else Inl (Overflow n)) = Inr t"
    using assms(1) unfolding toad_ample_def Let_def e if_False res_bind_Inr least_strong_majority_Inr by blast
  have lt: "min (min n m1) m2 < 2 ^ 32" using t by (metis Inl_Inr_False)
  have "t = word_of_nat (min (min n m1) m2)" using t unfolding if_P[OF lt] by (rule sum.inject(2)[THEN iffD1, symmetric])
  then have "unat t = min (min n m1) m2" by (intro of_nat_inverse) (use lt in simp_all)
  then show ?thesis unfolding m .
qed

lemma strong_majority_bounds:
  fixes n f g :: nat
  assumes "n = Suc k" "f = k div 3" "f' = max f 1" "g = max ((n + 1) div 3) 1" "f' \<le> g"
    and "t = min (min n ((n + f' + 2) div 2)) ((n + g + 2) div 2)"
  shows "1 \<le> t" "t \<le> n" "t \<le> n - f" "n + f < 2 * t"
proof -
  have m: "(n + f' + 2) div 2 \<le> (n + g + 2) div 2" using assms(5) by (intro div_le_mono) simp
  have t: "t = min n ((n + f' + 2) div 2)" using m assms(6) by (simp add: min_def)
  have f: "f \<le> f'" "1 \<le> f'" "f' \<le> 1 \<or> f' = f" "3 * f \<le> k" using assms(2,3) by (auto simp: max_def)
  show "1 \<le> t" "t \<le> n" "t \<le> n - f" "n + f < 2 * t"
    using f assms(1) unfolding t min_def by (auto split: if_splits)
qed

lemma toad_ample_bounds:
  assumes "toad_ample n = Inr t" "0 < n"
  shows "1 \<le> unat t \<and> unat t \<le> n \<and> unat t \<le> n - (n - 1) div 3 \<and> n + (n - 1) div 3 < 2 * unat t"
proof -
  obtain k where k: "n = Suc k" using assms(2) gr0_conv_Suc by blast
  have "k div 3 \<le> (n + 1) div 3" unfolding k by (intro div_le_mono) simp
  then have "max (k div 3) 1 \<le> max ((n + 1) div 3) 1" by (rule max.mono) simp
  from strong_majority_bounds[OF k refl refl refl this toad_ample_Inr[OF assms, unfolded k diff_Suc_1, folded k]]
  show ?thesis by (simp add: k)
qed

lemma card_inter_bound:
  "finite W \<Longrightarrow> A \<subseteq> W \<Longrightarrow> B \<subseteq> W \<Longrightarrow> card A + card B \<le> card W + card (A \<inter> B)"
  by (metis Un_least card_Un_Int card_mono finite_subset add_le_mono1)

text \<open>
  C29: The computed witness threshold is a valid one, is reachable when a third of
  the witnesses (rounded down, one excluded) fail, and any two quorums of that
  size share more witnesses than may fail.
\<close>

theorem toad_ample_quorum:
  assumes "toad_ample n = Inr t" "0 < n"
  shows "toad_exact t n = Inr t \<and> unat t \<le> n - (n - 1) div 3 \<and>
    (\<forall>W A B. finite W \<and> card W = n \<and> A \<subseteq> W \<and> B \<subseteq> W \<and> unat t \<le> card A \<and> unat t \<le> card B \<longrightarrow>
       (n - 1) div 3 < card (A \<inter> B))"
proof (intro conjI allI impI)
  note b = toad_ample_bounds[OF assms]
  show "toad_exact t n = Inr t" using b assms(2) by (simp add: toad_exact_Inr word_le_nat_alt)
  show "unat t \<le> n - (n - 1) div 3" using b by blast
  fix W A B :: "'a set"
  assume *: "finite W \<and> card W = n \<and> A \<subseteq> W \<and> B \<subseteq> W \<and> unat t \<le> card A \<and> unat t \<le> card B"
  with card_inter_bound[of W A B] b show "(n - 1) div 3 < card (A \<inter> B)" by linarith
qed

theorem toad_ample_quorum_witness:
  "toad_ample 7 = Inr 5 \<and> toad_exact 5 7 = Inr 5 \<and> 2 < card ({1, 2, 3, 4, 5} \<inter> {3, 4, 5, 6, 7 :: nat})"
proof -
  have t: "toad_ample 7 = Inr 5" by (simp add: toad_ample_def least_strong_majority_def)
  note q = toad_ample_quorum[OF t zero_less_numeral]
  have "(7 - 1) div 3 < card ({1, 2, 3, 4, 5} \<inter> {3, 4, 5, 6, 7 :: nat})"
    by (rule q[THEN conjunct2, THEN conjunct2, rule_format, of "{1, 2, 3, 4, 5, 6, 7}"]) simp
  then show ?thesis using t q[THEN conjunct1] by simp
qed

end
