(* ===== verification/Cesr_B64.thy ===== *)
theory Cesr_B64
  imports Cesr_Prelude
begin

text \<open>
  The base64 layer, \<^verbatim>\<open>crates/cesr/src/b64/\<close>: the alphabet and its reverse
  table, the integer codec (\<^verbatim>\<open>int.rs\<close>), the exact-length binary encoder
  (\<^verbatim>\<open>binary.rs\<close>) and the block-wise conversion between the text and the
  binary domain (\<^verbatim>\<open>transcode.rs\<close>).
\<close>

datatype b64_error =
    IntegerOverflow
  | InvalidBase64Char byte
  | InvalidBase64Value byte
  | ShortBinaryStream
  | Misaligned nat nat

section \<open>Alphabet\<close>

definition B64_ALPHABET :: bytes where
  "B64_ALPHABET = map of_char
     ''ABCDEFGHIJKLMNOPQRSTUVWXYZabcdefghijklmnopqrstuvwxyz0123456789-_''"

text \<open>The reverse table, filled in by the loop of the source.\<close>

definition B64_REVERSE :: bytes where
  "B64_REVERSE = fold (\<lambda>i t. t[unat (B64_ALPHABET ! i) := word_of_nat i]) [0..<64] (replicate 256 255)"

definition b64_byte_to_index :: "byte \<Rightarrow> b64_error + byte" where
  "b64_byte_to_index b =
     (let idx = B64_REVERSE ! unat b
      in if idx = 255 then Inl (InvalidBase64Char b) else Inr idx)"

definition b64_index_to_char :: "byte \<Rightarrow> b64_error + byte" where
  "b64_index_to_char i = ok_or (InvalidBase64Value i) (slice_get B64_ALPHABET (unat i))"

definition is_ascii_alphanumeric :: "byte \<Rightarrow> bool" where
  "is_ascii_alphanumeric b \<longleftrightarrow>
     (48 \<le> b \<and> b \<le> 57) \<or> (65 \<le> b \<and> b \<le> 90) \<or> (97 \<le> b \<and> b \<le> 122)"

definition is_b64_url_safe_charset :: "bytes \<Rightarrow> bool" where
  "is_b64_url_safe_charset bs \<longleftrightarrow>
     list_all (\<lambda>b. is_ascii_alphanumeric b \<or> b = of_char CHR ''-'' \<or> b = of_char CHR ''_'') bs"

text \<open>The two tables are evaluated once; every later fact is read off them.\<close>

lemma B64_ALPHABET_eval:
  "B64_ALPHABET = [
     65, 66, 67, 68, 69, 70, 71, 72, 73, 74, 75, 76, 77, 78, 79, 80, 81, 82, 83, 84, 85,
     86, 87, 88, 89, 90, 97, 98, 99, 100, 101, 102, 103, 104, 105, 106, 107, 108, 109, 110,
     111, 112, 113, 114, 115, 116, 117, 118, 119, 120, 121, 122, 48, 49, 50, 51, 52, 53,
     54, 55, 56, 57, 45, 95]"
  by code_simp

lemma B64_REVERSE_eval:
  "B64_REVERSE = [
     255, 255, 255, 255, 255, 255, 255, 255, 255, 255, 255, 255, 255, 255, 255, 255, 255,
     255, 255, 255, 255, 255, 255, 255, 255, 255, 255, 255, 255, 255, 255, 255, 255, 255,
     255, 255, 255, 255, 255, 255, 255, 255, 255, 255, 255, 62, 255, 255, 52, 53, 54, 55,
     56, 57, 58, 59, 60, 61, 255, 255, 255, 255, 255, 255, 255, 0, 1, 2, 3, 4, 5, 6, 7, 8,
     9, 10, 11, 12, 13, 14, 15, 16, 17, 18, 19, 20, 21, 22, 23, 24, 25, 255, 255, 255, 255,
     63, 255, 26, 27, 28, 29, 30, 31, 32, 33, 34, 35, 36, 37, 38, 39, 40, 41, 42, 43, 44,
     45, 46, 47, 48, 49, 50, 51, 255, 255, 255, 255, 255, 255, 255, 255, 255, 255, 255,
     255, 255, 255, 255, 255, 255, 255, 255, 255, 255, 255, 255, 255, 255, 255, 255, 255,
     255, 255, 255, 255, 255, 255, 255, 255, 255, 255, 255, 255, 255, 255, 255, 255, 255,
     255, 255, 255, 255, 255, 255, 255, 255, 255, 255, 255, 255, 255, 255, 255, 255, 255,
     255, 255, 255, 255, 255, 255, 255, 255, 255, 255, 255, 255, 255, 255, 255, 255, 255,
     255, 255, 255, 255, 255, 255, 255, 255, 255, 255, 255, 255, 255, 255, 255, 255, 255,
     255, 255, 255, 255, 255, 255, 255, 255, 255, 255, 255, 255, 255, 255, 255, 255, 255,
     255, 255, 255, 255, 255, 255, 255, 255, 255, 255, 255, 255, 255, 255, 255, 255, 255,
     255, 255, 255]"
  by code_simp

lemma length_B64_ALPHABET [simp]: "length B64_ALPHABET = 64"
  by (simp add: B64_ALPHABET_def)

lemma length_B64_REVERSE [simp]: "length B64_REVERSE = 256"
  by (simp add: B64_REVERSE_eval)

lemma B64_REVERSE_ALPHABET:
  "map (\<lambda>c. B64_REVERSE ! unat c) B64_ALPHABET = map word_of_nat [0..<64]"
  unfolding B64_ALPHABET_eval B64_REVERSE_eval by code_simp

lemma B64_ALPHABET_REVERSE:
  "list_all (\<lambda>(n, v). v = 255 \<or> (unat v < 64 \<and> B64_ALPHABET ! unat v = word_of_nat n))
     (enumerate 0 B64_REVERSE)"
  unfolding B64_ALPHABET_eval B64_REVERSE_eval by code_simp

lemma byte_to_index_index:
  assumes "i < 64"
  shows "b64_byte_to_index (B64_ALPHABET ! i) = Inr (word_of_nat i)"
proof -
  have eq: "B64_REVERSE ! unat (B64_ALPHABET ! i) = word_of_nat i"
    using arg_cong[OF B64_REVERSE_ALPHABET, of "\<lambda>xs. xs ! i"] assms by simp
  have "(word_of_nat i :: byte) \<noteq> 255"
  proof
    assume "(word_of_nat i :: byte) = 255"
    then have "unat (word_of_nat i :: byte) = unat (255 :: byte)" by simp
    with assms show False by (simp add: unat_of_nat)
  qed
  then show ?thesis by (simp add: b64_byte_to_index_def eq)
qed

lemma byte_to_index_Inr:
  assumes "b64_byte_to_index b = Inr v"
  shows "unat v < 64" "B64_ALPHABET ! unat v = b"
proof -
  have v: "v = B64_REVERSE ! unat b" "v \<noteq> 255"
    using assms by (auto simp: b64_byte_to_index_def Let_def split: if_splits)
  have lt: "unat b < 256" using unsigned_less[of b] by simp
  then have "(unat b, B64_REVERSE ! unat b) \<in> set (enumerate 0 B64_REVERSE)"
    by (simp add: in_set_enumerate_eq)
  with B64_ALPHABET_REVERSE v show "unat v < 64" "B64_ALPHABET ! unat v = b"
    by (auto simp: list_all_iff)
qed

lemma byte_to_index_iff:
  "b64_byte_to_index b = Inr v \<longleftrightarrow> unat v < 64 \<and> b = B64_ALPHABET ! unat v"
  using byte_to_index_Inr[of b v] byte_to_index_index[of "unat v"] by auto

lemma byte_to_index_Inl: "b64_byte_to_index b = Inl e \<Longrightarrow> e = InvalidBase64Char b"
  by (auto simp: b64_byte_to_index_def Let_def split: if_splits)

lemma index_to_char_iff: "b64_index_to_char i = Inr c \<longleftrightarrow> unat i < 64 \<and> c = B64_ALPHABET ! unat i"
  by (auto simp: b64_index_to_char_def slice_get_Some)

lemma B64_ALPHABET_inj: "i < 64 \<Longrightarrow> j < 64 \<Longrightarrow> B64_ALPHABET ! i = B64_ALPHABET ! j \<longleftrightarrow> i = j"
proof
  assume "i < 64" "j < 64" "B64_ALPHABET ! i = B64_ALPHABET ! j"
  then have "word_of_nat i = (word_of_nat j :: byte)"
    using byte_to_index_index[of i] byte_to_index_index[of j] by simp
  then have "unat (word_of_nat i :: byte) = unat (word_of_nat j :: byte)" by simp
  then show "i = j" using \<open>i < 64\<close> \<open>j < 64\<close> by (simp add: unat_of_nat)
qed simp

lemma charset_table:
  "map (\<lambda>n. is_b64_url_safe_charset [word_of_nat n]) [0..<256] = map (\<lambda>v. v \<noteq> 255) B64_REVERSE"
  unfolding B64_REVERSE_eval by code_simp

lemma charset_iff: "is_b64_url_safe_charset bs \<longleftrightarrow> (\<forall>b \<in> set bs. is_ok (b64_byte_to_index b))"
proof -
  have "is_b64_url_safe_charset [b] \<longleftrightarrow> is_ok (b64_byte_to_index b)" for b
  proof -
    have "unat b < 256" using unsigned_less[of b] by simp
    then have "is_b64_url_safe_charset [b] \<longleftrightarrow> B64_REVERSE ! unat b \<noteq> 255"
      using arg_cong[OF charset_table, of "\<lambda>xs. xs ! unat b"] by simp
    then show ?thesis by (simp add: b64_byte_to_index_def Let_def)
  qed
  then show ?thesis by (auto simp: is_b64_url_safe_charset_def list_all_iff)
qed

section \<open>Integers\<close>

text \<open>\<^verbatim>\<open>val.ilog(64)\<close> for a non-zero value.\<close>

fun ilog64 :: "nat \<Rightarrow> nat" where
  "ilog64 n = (if n < 64 then 0 else Suc (ilog64 (n div 64)))"

declare ilog64.simps [simp del]

text \<open>The two loops of \<^verbatim>\<open>encode_int\<close>: the padding and the digits.\<close>

fun encode_int_pad :: "nat \<Rightarrow> nat \<Rightarrow> bytes \<Rightarrow> bytes" where
  "encode_int_pad required_len 0 out = out"
| "encode_int_pad required_len (Suc pad) out =
     (if required_len < Suc pad
      then encode_int_pad required_len pad (out @ [of_char CHR ''A'']) else out)"

fun encode_int_digits :: "u64 \<Rightarrow> nat \<Rightarrow> bytes \<Rightarrow> bytes" where
  "encode_int_digits val 0 out = out"
| "encode_int_digits val (Suc pos) out =
     encode_int_digits val pos (out @ [B64_ALPHABET ! unat ((drop_bit (6 * pos) val) mod 64)])"

definition encode_int_len :: "u64 \<Rightarrow> nat" where
  "encode_int_len val = (if val = 0 then 1 else ilog64 (unat val) + 1)"

definition encode_int :: "u64 \<Rightarrow> nat \<Rightarrow> bytes" where
  "encode_int val min_len =
     (let required_len = encode_int_len val;
          final_length = max required_len min_len
      in encode_int_digits val required_len (encode_int_pad required_len final_length []))"

text \<open>\<^verbatim>\<open>N::from(b)\<close> and \<^verbatim>\<open>checked_shl\<close> of the numeric traits.\<close>

definition num_from :: "byte \<Rightarrow> 'a::len word option" where
  "num_from b = (if unat b < 2 ^ LENGTH('a) then Some (word_of_nat (unat b)) else None)"

definition checked_shl :: "'a::len word \<Rightarrow> nat \<Rightarrow> 'a word option" where
  "checked_shl w k = (if k < LENGTH('a) then Some (push_bit k w) else None)"

fun decode_int_loop :: "'a::len word \<Rightarrow> bytes \<Rightarrow> b64_error + 'a word" where
  "decode_int_loop out [] = Inr out"
| "decode_int_loop out (b # bs) =
     res_bind (b64_byte_to_index b) (\<lambda>b64_val.
     res_bind (ok_or IntegerOverflow (num_from b64_val)) (\<lambda>wide_val.
     if leading_zeros out < 6 then Inl IntegerOverflow
     else res_bind (ok_or IntegerOverflow
            (Option.bind (checked_shl out 6) (\<lambda>shifted. checked_add shifted wide_val)))
            (\<lambda>out'. decode_int_loop out' bs)))"

definition decode_int :: "bytes \<Rightarrow> b64_error + 'a::len word" where
  "decode_int stream = decode_int_loop 0 stream"

text \<open>The value a base64 string denotes, most significant digit first.\<close>

definition b64_digit :: "byte \<Rightarrow> nat" where
  "b64_digit b = (case b64_byte_to_index b of Inl _ \<Rightarrow> 0 | Inr v \<Rightarrow> unat v)"

definition b64_value_from :: "nat \<Rightarrow> bytes \<Rightarrow> nat" where
  "b64_value_from a s = foldl (\<lambda>a b. a * 64 + b64_digit b) a s"

abbreviation b64_value :: "bytes \<Rightarrow> nat" where
  "b64_value s \<equiv> b64_value_from 0 s"

lemma b64_value_simps [simp]:
  "b64_value_from a [] = a"
  "b64_value_from a (b # s) = b64_value_from (a * 64 + b64_digit b) s"
  "b64_value_from a (s @ t) = b64_value_from (b64_value_from a s) t"
  by (simp_all add: b64_value_from_def)

lemma b64_value_ge: "a \<le> b64_value_from a s"
proof (induction s arbitrary: a)
  case (Cons b s)
  have "a \<le> a * 64 + b64_digit b" by simp
  also have "\<dots> \<le> b64_value_from (a * 64 + b64_digit b) s" by (rule Cons.IH)
  finally show ?case by simp
qed simp

lemma b64_digit_index [simp]: "i < 64 \<Longrightarrow> b64_digit (B64_ALPHABET ! i) = i"
  by (simp add: b64_digit_def byte_to_index_index unat_of_nat)

lemma b64_digit_less: "b64_digit b < 64"
  by (auto simp: b64_digit_def byte_to_index_iff split: sum.splits)

lemma pow_split6: "8 \<le> n \<Longrightarrow> (2::nat) ^ n = 2 ^ (n - 6) * 64"
  using power_add[of "2::nat" "n - 6" 6] by simp

lemma decode_int_step:
  fixes out :: "'a::len word"
  assumes len: "8 \<le> LENGTH('a)" and b: "b64_byte_to_index b = Inr v"
  shows "decode_int_loop out (b # bs) =
    (if 2 ^ LENGTH('a) \<le> unat out * 64 then Inl IntegerOverflow
     else decode_int_loop (word_of_nat (unat out * 64 + b64_digit b)) bs)"
proof -
  have d: "unat v < 64" "b64_digit b = unat v"
    using b byte_to_index_iff[of b v] by (auto simp: b64_digit_def)
  have p8: "(2::nat) ^ 8 \<le> 2 ^ LENGTH('a)" using len by (rule power_increasing) simp
  then have nf: "num_from v = Some (word_of_nat (unat v) :: 'a word)"
    using d by (auto simp: num_from_def)
  have split: "(2::nat) ^ LENGTH('a) = 2 ^ (LENGTH('a) - 6) * 64"
    using len by (rule pow_split6)
  then have lz: "leading_zeros out < 6 \<longleftrightarrow> 2 ^ LENGTH('a) \<le> unat out * 64"
    using len by (simp add: leading_zeros_less)
  show ?thesis
  proof (cases "2 ^ LENGTH('a) \<le> unat out * 64")
    case True
    then show ?thesis using b lz nf by simp
  next
    case False
    have "unat out < 2 ^ (LENGTH('a) - 6)" using False split by simp
    then have "(unat out + 1) * 64 \<le> 2 ^ (LENGTH('a) - 6) * 64" by (intro mult_right_mono) auto
    then have lt: "unat out * 64 + unat v < 2 ^ LENGTH('a)" using d split by simp
    have shl: "checked_shl out 6 = Some (push_bit 6 out)" using len by (simp add: checked_shl_def)
    have us: "unat (push_bit 6 out) = unat out * 64"
    proof -
      have "unat (64 :: 'a word) = 64" using unat_of_nat[of 64, where 'a = 'a] p8 by simp
      then show ?thesis using lt unat_word_ariths(2)[of out 64] by (simp add: push_bit_eq_mult)
    qed
    have uv: "unat (word_of_nat (unat v) :: 'a word) = unat v"
      using lt by (simp only: unat_of_nat) simp
    have "unat (word_of_nat (unat out * 64 + unat v) :: 'a word) = unat out * 64 + unat v"
      using lt by (simp only: unat_of_nat) simp
    then have "checked_add (push_bit 6 out) (word_of_nat (unat v)) =
        Some (word_of_nat (unat out * 64 + unat v))"
      using us uv by (simp only: checked_add_Some)
    then show ?thesis using b lz nf False shl d by simp
  qed
qed

lemma decode_int_loop_Inr:
  fixes out :: "'a::len word"
  assumes len: "8 \<le> LENGTH('a)"
  shows "decode_int_loop out s = Inr w \<longleftrightarrow>
    is_b64_url_safe_charset s \<and> b64_value_from (unat out) s = unat w"
proof (induction s arbitrary: out)
  case Nil
  then show ?case by (auto simp: is_b64_url_safe_charset_def word_unat_eq_iff)
next
  case (Cons b s)
  show ?case
  proof (cases "b64_byte_to_index b")
    case (Inl e)
    then show ?thesis by (simp add: charset_iff)
  next
    case (Inr v)
    show ?thesis
    proof (cases "2 ^ LENGTH('a) \<le> unat out * 64")
      case True
      have "unat out * 64 \<le> b64_value_from (unat out * 64 + b64_digit b) s"
        by (rule order_trans[OF _ b64_value_ge]) simp
      then have "b64_value_from (unat out) (b # s) \<noteq> unat w"
        using True unsigned_less[of w] by (metis b64_value_simps(2) leD le_trans)
      then show ?thesis using True decode_int_step[OF len Inr, of out s] by simp
    next
      case False
      have "(2::nat) ^ LENGTH('a) = 2 ^ (LENGTH('a) - 6) * 64"
        using len by (rule pow_split6)
      then have "unat out * 64 + b64_digit b < 2 ^ LENGTH('a)"
        using False b64_digit_less[of b] by simp
      then have "unat (word_of_nat (unat out * 64 + b64_digit b) :: 'a word) = unat out * 64 + b64_digit b"
        by (simp only: unat_of_nat mod_less)
      then show ?thesis
        using False Inr decode_int_step[OF len Inr, of out s] Cons.IH by (simp add: charset_iff)
    qed
  qed
qed

lemma decode_int_Inr:
  "8 \<le> LENGTH('a) \<Longrightarrow> decode_int s = Inr (w :: 'a::len word) \<longleftrightarrow>
     is_b64_url_safe_charset s \<and> b64_value s = unat w"
  by (simp add: decode_int_def decode_int_loop_Inr)

lemma encode_int_pad_eq:
  "encode_int_pad r p out = out @ replicate (p - r) (of_char CHR ''A'')"
proof (induction p arbitrary: out)
  case (Suc p)
  then show ?case
    by (cases "r \<le> p") (auto simp: Suc_diff_le replicate_append_same[symmetric] simp flip: replicate_app_Cons_same)
qed simp

lemma encode_int_digits_eq:
  "encode_int_digits v n out = out @ map (\<lambda>p. B64_ALPHABET ! (unat v div 64 ^ p mod 64)) (rev [0..<n])"
proof (induction n arbitrary: out)
  case (Suc n)
  have "unat (drop_bit (6 * n) v mod 64) = unat v div 64 ^ n mod 64"
    unfolding unat_mod unat_drop_bit_eq by (simp add: drop_bit_eq_div power_mult)
  then show ?case using Suc by simp
qed simp

lemma ilog64_bound: "n < 64 ^ Suc (ilog64 n)"
proof (induction n rule: ilog64.induct)
  case (1 n)
  show ?case
  proof (cases "n < 64")
    case False
    then have "n div 64 < 64 ^ Suc (ilog64 (n div 64))" using 1 by blast
    then have "n < 64 ^ Suc (ilog64 (n div 64)) * 64" by (simp add: div_less_iff_less_mult)
    then show ?thesis using False by (subst ilog64.simps) simp
  qed (simp add: ilog64.simps)
qed

lemma digits_value:
  "b64_value_from a (map (\<lambda>p. B64_ALPHABET ! (v div 64 ^ p mod 64)) (rev [0..<n])) = a * 64 ^ n + v mod 64 ^ n"
proof (induction n arbitrary: a)
  case (Suc n)
  have "v mod 64 ^ Suc n = 64 ^ n * (v div 64 ^ n mod 64) + v mod 64 ^ n"
    using mod_mult2_eq[of v "64 ^ n" 64] by (simp add: mult.commute)
  then show ?case using Suc by (simp add: algebra_simps)
qed simp

lemma pad_value: "b64_value_from 0 (replicate n 65) = 0"
proof (induction n)
  case (Suc n)
  have "b64_digit 65 = 0" by code_simp
  with Suc show ?case by simp
qed simp

lemma encode_int_value: "b64_value (encode_int v m) = unat v"
proof -
  have "unat v < 64 ^ encode_int_len v"
    using ilog64_bound[of "unat v"] by (auto simp: encode_int_len_def)
  then show ?thesis
    by (simp add: encode_int_def Let_def encode_int_pad_eq encode_int_digits_eq digits_value pad_value)
qed

lemma encode_int_length: "length (encode_int v m) = max (encode_int_len v) m"
  by (simp add: encode_int_def Let_def encode_int_pad_eq encode_int_digits_eq)

lemma charset_index: "i < 64 \<Longrightarrow> is_ok (b64_byte_to_index (B64_ALPHABET ! i))"
  by (simp add: byte_to_index_index)

lemma encode_int_charset: "is_b64_url_safe_charset (encode_int v m)"
proof -
  have "is_ok (b64_byte_to_index (of_char CHR ''A''))" by code_simp
  then show ?thesis
    by (auto simp: charset_iff encode_int_def Let_def encode_int_pad_eq encode_int_digits_eq charset_index)
qed

end
