(* ===== verification/Cesr_Transcode.thy ===== *)
theory Cesr_Transcode
  imports Cesr_B64
begin

unbundle bit_operations_syntax

text \<open>
  The conversions between qb64 text and qb2 binary:
  \<^verbatim>\<open>b64/transcode.rs\<close> (whole blobs, four characters to three bytes) and
  \<^verbatim>\<open>b64/binary.rs\<close> (an exact number of characters, and a virtual run of
  zero lead bytes). The locale \<^verbatim>\<open>b64_engine\<close> states what the sources rely
  on from the base64 crate; the in-repository routines satisfy it.
\<close>

section \<open>Blocks\<close>

fun chunks_exact :: "nat \<Rightarrow> 'a list \<Rightarrow> 'a list list" where
  "chunks_exact n xs =
     (if n = 0 \<or> length xs < n then [] else take n xs # chunks_exact n (drop n xs))"

declare chunks_exact.simps [simp del]

definition truncate_u32_to_u8 :: "u32 \<Rightarrow> byte" where
  "truncate_u32_to_u8 v = ucast (v AND 0xFF)"

definition decode_block :: "bytes \<Rightarrow> bytes \<Rightarrow> b64_error + bytes" where
  "decode_block chunk out =
     res_bind (b64_byte_to_index (chunk ! 0)) (\<lambda>v0.
     res_bind (b64_byte_to_index (chunk ! 1)) (\<lambda>v1.
     res_bind (b64_byte_to_index (chunk ! 2)) (\<lambda>v2.
     res_bind (b64_byte_to_index (chunk ! 3)) (\<lambda>v3.
     let bits = push_bit 18 (ucast v0) OR push_bit 12 (ucast v1) OR push_bit 6 (ucast v2) OR (ucast v3 :: u32)
     in Inr (out @ [truncate_u32_to_u8 (drop_bit 16 bits),
                    truncate_u32_to_u8 (drop_bit 8 bits),
                    truncate_u32_to_u8 bits])))))"

definition encode_block :: "bytes \<Rightarrow> bytes \<Rightarrow> bytes" where
  "encode_block chunk out =
     (let bits = push_bit 16 (ucast (chunk ! 0)) OR push_bit 8 (ucast (chunk ! 1)) OR (ucast (chunk ! 2) :: u32)
      in out @ [B64_ALPHABET ! unat (drop_bit 18 bits AND 0x3F),
                B64_ALPHABET ! unat (drop_bit 12 bits AND 0x3F),
                B64_ALPHABET ! unat (drop_bit 6 bits AND 0x3F),
                B64_ALPHABET ! unat (bits AND 0x3F)])"

section \<open>Whole blobs\<close>

text \<open>
  \<^verbatim>\<open>decode_into\<close> appends to the caller's buffer: an error part of the way
  through leaves the blocks before it in the buffer, so the buffer is returned
  with either outcome.
\<close>

fun decode_blocks :: "bytes list \<Rightarrow> bytes \<Rightarrow> (b64_error + unit) \<times> bytes" where
  "decode_blocks [] out = (Inr (), out)"
| "decode_blocks (chunk # chunks) out =
     (case decode_block chunk out of
        Inl e \<Rightarrow> (Inl e, out)
      | Inr out' \<Rightarrow> decode_blocks chunks out')"

definition qb64_decode_into :: "bytes \<Rightarrow> bytes \<Rightarrow> (b64_error + unit) \<times> bytes" where
  "qb64_decode_into qb64 out =
     (if length qb64 mod 4 \<noteq> 0 then (Inl (Misaligned (length qb64) 4), out)
      else decode_blocks (chunks_exact 4 qb64) out)"

definition qb64_decode :: "bytes \<Rightarrow> b64_error + bytes" where
  "qb64_decode qb64 =
     (let (r, out) = qb64_decode_into qb64 [] in res_bind r (\<lambda>_. Inr out))"

definition qb2_encode_into :: "bytes \<Rightarrow> bytes \<Rightarrow> (b64_error + unit) \<times> bytes" where
  "qb2_encode_into qb2 out =
     (if length qb2 mod 3 \<noteq> 0 then (Inl (Misaligned (length qb2) 3), out)
      else (Inr (), fold encode_block (chunks_exact 3 qb2) out))"

definition qb2_encode :: "bytes \<Rightarrow> b64_error + bytes" where
  "qb2_encode qb2 =
     (let (r, out) = qb2_encode_into qb2 [] in res_bind r (\<lambda>_. Inr out))"

section \<open>One block is a bijection\<close>

lemma chunks_exact_4: "chunks_exact 4 (a # b # c # d # xs) = [a, b, c, d] # chunks_exact 4 xs"
  by (subst chunks_exact.simps) (simp add: numeral_eq_Suc)

lemma chunks_exact_3: "chunks_exact 3 (a # b # c # xs) = [a, b, c] # chunks_exact 3 xs"
  by (subst chunks_exact.simps) (simp add: numeral_eq_Suc)

lemma chunks_exact_Nil: "chunks_exact n [] = []"
  by (subst chunks_exact.simps) auto

lemma and_masks:
  "x AND 0x3F = take_bit 6 x" "x AND 0xFF = take_bit 8 x" for x :: u32
  by (simp_all add: take_bit_eq_mask mask_numeral)

lemma sextet_less: "unat (take_bit 6 x :: u32) < 64"
  by (simp add: unsigned_take_bit_eq take_bit_nat_less_exp[of 6, simplified])

lemma byte_to_index_sextet:
  "b64_byte_to_index (B64_ALPHABET ! unat (take_bit 6 x :: u32)) = Inr (ucast (take_bit 6 x))"
  using byte_to_index_index[OF sextet_less, of x] by simp

lemma ucast_sextet: "ucast (ucast (take_bit 6 x :: u32) :: byte) = (take_bit 6 x :: u32)"
  by (rule bit_word_eqI) (auto simp: bit_simps)

lemma sextets_join:
  "push_bit 18 (take_bit 6 (drop_bit 18 x)) OR push_bit 12 (take_bit 6 (drop_bit 12 x)) OR
   push_bit 6 (take_bit 6 (drop_bit 6 x)) OR (take_bit 6 x) = (take_bit 24 x :: u32)"
proof (rule bit_word_eqI)
  fix n assume "n < LENGTH(32)"
  consider "n < 6" | "6 \<le> n" "n < 12" | "12 \<le> n" "n < 18" | "18 \<le> n" by linarith
  then show "bit (push_bit 18 (take_bit 6 (drop_bit 18 x)) OR push_bit 12 (take_bit 6 (drop_bit 12 x)) OR
      push_bit 6 (take_bit 6 (drop_bit 6 x)) OR (take_bit 6 x)) n = bit (take_bit 24 x :: u32) n"
    by cases (auto simp: bit_simps)
qed

lemma octets_split:
  fixes b0 b1 b2 :: byte
  shows "truncate_u32_to_u8 (drop_bit 16 (take_bit 24 (push_bit 16 (ucast b0) OR push_bit 8 (ucast b1) OR ucast b2))) = b0"
    and "truncate_u32_to_u8 (drop_bit 8 (take_bit 24 (push_bit 16 (ucast b0) OR push_bit 8 (ucast b1) OR ucast b2))) = b1"
    and "truncate_u32_to_u8 (take_bit 24 (push_bit 16 (ucast b0) OR push_bit 8 (ucast b1) OR ucast b2)) = b2"
  unfolding truncate_u32_to_u8_def and_masks 
  by (rule bit_word_eqI; auto simp: bit_simps dest: bit_imp_le_length)+

lemma decode_encode_block: "decode_block (encode_block [b0, b1, b2] []) out = Inr (out @ [b0, b1, b2])"
  unfolding decode_block_def encode_block_def Let_def and_masks
  by (simp add: byte_to_index_sextet ucast_sextet Let_def sextets_join octets_split
      del: push_bit_or drop_bit_or take_bit_or)

lemma octets_join:
  "push_bit 16 (ucast (truncate_u32_to_u8 (drop_bit 16 x))) OR
   push_bit 8 (ucast (truncate_u32_to_u8 (drop_bit 8 x))) OR
   ucast (truncate_u32_to_u8 x) = (take_bit 24 x :: u32)"
proof (rule bit_word_eqI)
  fix n assume "n < LENGTH(32)"
  consider "n < 8" | "8 \<le> n" "n < 16" | "16 \<le> n" by linarith
  then show "bit (push_bit 16 (ucast (truncate_u32_to_u8 (drop_bit 16 x))) OR
      push_bit 8 (ucast (truncate_u32_to_u8 (drop_bit 8 x))) OR
      ucast (truncate_u32_to_u8 x) :: u32) n =
      bit (take_bit 24 x :: u32) n"
    unfolding truncate_u32_to_u8_def and_masks by cases (auto simp: bit_simps)
qed

lemma sextet_bit: "take_bit 6 v = v \<Longrightarrow> bit v n \<Longrightarrow> n < 6" for v :: byte
  by (metis bit_take_bit_iff)

lemma sextets_split:
  fixes v0 v1 v2 v3 :: byte
  assumes "take_bit 6 v0 = v0" "take_bit 6 v1 = v1" "take_bit 6 v2 = v2" "take_bit 6 v3 = v3"
  shows "take_bit 6 (drop_bit 18 (take_bit 24 (push_bit 18 (ucast v0) OR push_bit 12 (ucast v1) OR push_bit 6 (ucast v2) OR ucast v3))) = (ucast v0 :: u32)"
    and "take_bit 6 (drop_bit 12 (take_bit 24 (push_bit 18 (ucast v0) OR push_bit 12 (ucast v1) OR push_bit 6 (ucast v2) OR ucast v3))) = (ucast v1 :: u32)"
    and "take_bit 6 (drop_bit 6 (take_bit 24 (push_bit 18 (ucast v0) OR push_bit 12 (ucast v1) OR push_bit 6 (ucast v2) OR ucast v3))) = (ucast v2 :: u32)"
    and "take_bit 6 (push_bit 18 (ucast v0) OR push_bit 12 (ucast v1) OR push_bit 6 (ucast v2) OR ucast v3) = (ucast v3 :: u32)"
  by (rule bit_word_eqI;
      auto simp: bit_simps dest: sextet_bit[OF assms(1)] sextet_bit[OF assms(2)]
        sextet_bit[OF assms(3)] sextet_bit[OF assms(4)])+

lemma sextet_take: "b64_byte_to_index c = Inr v \<Longrightarrow> take_bit 6 v = v"
  by (auto simp: byte_to_index_iff word_unat_eq_iff unsigned_take_bit_eq take_bit_nat_eq_self)

lemma encode_decode_block:
  assumes "decode_block [c0, c1, c2, c3] out = Inr out'"
  obtains b0 b1 b2 where "out' = out @ [b0, b1, b2]" "encode_block [b0, b1, b2] acc = acc @ [c0, c1, c2, c3]"
proof -
  obtain v0 v1 v2 v3 where v:
    "b64_byte_to_index c0 = Inr v0" "b64_byte_to_index c1 = Inr v1"
    "b64_byte_to_index c2 = Inr v2" "b64_byte_to_index c3 = Inr v3"
    using assms by (auto simp: decode_block_def)
  define x :: u32 where "x = push_bit 18 (ucast v0) OR push_bit 12 (ucast v1) OR push_bit 6 (ucast v2) OR ucast v3"
  have out: "out' = out @ [truncate_u32_to_u8 (drop_bit 16 x), truncate_u32_to_u8 (drop_bit 8 x), truncate_u32_to_u8 x]"
    using assms v by (simp add: decode_block_def Let_def x_def)
  have c: "unat (ucast v :: u32) = unat v" for v :: byte
    by (simp add: unsigned_ucast_eq take_bit_nat_eq_self order_less_le_trans[OF unsigned_less])
  have "encode_block [truncate_u32_to_u8 (drop_bit 16 x), truncate_u32_to_u8 (drop_bit 8 x), truncate_u32_to_u8 x] acc
      = acc @ [c0, c1, c2, c3]"
    unfolding encode_block_def and_masks using v[THEN byte_to_index_Inr(2)]
    by (simp add: octets_join Let_def x_def sextets_split v[THEN sextet_take] c
        del: push_bit_or drop_bit_or take_bit_or)
  with out that show thesis by blast
qed

section \<open>Whole blobs: the two directions invert each other\<close>

fun triples :: "bytes \<Rightarrow> bool" where
  "triples [] = True"
| "triples (a # b # c # xs) = triples xs"
| "triples xs = False"

lemma encode_block_acc: "encode_block chunk out = out @ encode_block chunk []"
  by (simp add: encode_block_def Let_def)

lemma encode_blocks_acc: "fold encode_block cs out = out @ fold encode_block cs []"
proof (induction cs arbitrary: out)
  case (Cons c cs)
  have "fold encode_block (c # cs) out = (out @ encode_block c []) @ fold encode_block cs []"
    using Cons.IH[of "encode_block c out"] encode_block_acc[of c out] by simp
  also have "\<dots> = out @ fold encode_block (c # cs) []"
    using Cons.IH[of "encode_block c []"] by simp
  finally show ?case .
qed simp

definition qb2_chars :: "bytes \<Rightarrow> bytes" where
  "qb2_chars bs = fold encode_block (chunks_exact 3 bs) []"

lemma qb2_chars_Nil [simp]: "qb2_chars [] = []"
  by (simp add: qb2_chars_def chunks_exact_Nil)

lemma qb2_chars_step: "qb2_chars (a # b # c # bs) = encode_block [a, b, c] [] @ qb2_chars bs"
  using encode_blocks_acc[of "chunks_exact 3 bs" "encode_block [a, b, c] []"]
  by (simp add: qb2_chars_def chunks_exact_3)

lemma length_encode_block [simp]: "length (encode_block chunk out) = length out + 4"
  by (simp add: encode_block_def Let_def)

lemma qb2_encode_iff: "qb2_encode bs = Inr t \<longleftrightarrow> length bs mod 3 = 0 \<and> t = qb2_chars bs"
  by (auto simp: qb2_encode_def qb2_encode_into_def qb2_chars_def split: if_splits)

lemma triples_cases [case_names Nil Step, consumes 1]:
  assumes "length (bs :: bytes) mod 3 = 0"
  obtains "bs = []" | a b c xs where "bs = a # b # c # xs" "length xs mod 3 = 0"
proof (cases bs rule: triples.cases)
  case (2 a b c xs)
  moreover have "length xs mod 3 = 0" using assms 2 by simp
  ultimately show ?thesis by (rule that(2))
qed (use that(1) assms in simp_all)

lemma triples_induct [case_names Nil Step, consumes 1]:
  assumes "length (bs :: bytes) mod 3 = 0" "P []"
    "\<And>a b c xs. length xs mod 3 = 0 \<Longrightarrow> P xs \<Longrightarrow> P (a # b # c # xs)"
  shows "P bs"
  using assms(1)
proof (induction bs rule: length_induct)
  case (1 bs)
  from 1(2) show ?case by (cases bs rule: triples_cases) (use 1 assms in auto)
qed

lemma quads_induct [case_names Nil Step, consumes 1]:
  assumes "length (cs :: bytes) mod 4 = 0" "P []"
    "\<And>a b c d xs. length xs mod 4 = 0 \<Longrightarrow> P xs \<Longrightarrow> P (a # b # c # d # xs)"
  shows "P cs"
  using assms(1)
proof (induction cs rule: length_induct)
  case (1 cs)
  show ?case
  proof (cases "cs = []")
    case False
    then have "4 \<le> length cs" using 1(2) by (cases "length cs < 4") auto
    then obtain a b c d xs where cs: "cs = a # b # c # d # xs"
      by (auto simp: numeral_eq_Suc Suc_le_length_iff)
    with 1(2) have "length xs mod 4 = 0" by simp
    with 1 cs assms(3) show ?thesis by simp
  qed (use assms(2) in simp)
qed

lemma length_qb2_chars: "length bs mod 3 = 0 \<Longrightarrow> length (qb2_chars bs) = length bs div 3 * 4"
  by (induction bs rule: triples_induct) (auto simp: qb2_chars_step)

lemma qb2_chars_append:
  "length xs mod 3 = 0 \<Longrightarrow> qb2_chars (xs @ ys) = qb2_chars xs @ qb2_chars ys"
  by (induction xs rule: triples_induct) (auto simp: qb2_chars_step)

lemma encode_block_chars: "\<exists>c0 c1 c2 c3. encode_block chunk [] = [c0, c1, c2, c3]"
  by (simp add: encode_block_def Let_def)

lemma decode_blocks_encode:
  "length bs mod 3 = 0 \<Longrightarrow> decode_blocks (chunks_exact 4 (qb2_chars bs)) out = (Inr (), out @ bs)"
proof (induction bs arbitrary: out rule: triples_induct)
  case (Step a b c xs)
  obtain c0 c1 c2 c3 where e: "encode_block [a, b, c] [] = [c0, c1, c2, c3]"
    using encode_block_chars by blast
  then show ?case
    using Step decode_encode_block[of a b c out] by (simp add: qb2_chars_step chunks_exact_4)
qed (simp add: chunks_exact_Nil)

lemma encode_decode_blocks:
  "length cs mod 4 = 0 \<Longrightarrow> decode_blocks (chunks_exact 4 cs) out = (Inr (), out') \<Longrightarrow>
   \<exists>bs. out' = out @ bs \<and> length bs mod 3 = 0 \<and> qb2_chars bs = cs"
proof (induction cs arbitrary: out rule: quads_induct)
  case (Step c0 c1 c2 c3 cs)
  obtain o1 where o1: "decode_block [c0, c1, c2, c3] out = Inr o1"
    "decode_blocks (chunks_exact 4 cs) o1 = (Inr (), out')"
    using Step.prems by (simp add: chunks_exact_4 split: sum.splits)
  obtain b0 b1 b2 where b: "o1 = out @ [b0, b1, b2]" "encode_block [b0, b1, b2] [] = [c0, c1, c2, c3]"
    by (rule encode_decode_block[OF o1(1), of "[]"]) auto
  obtain bs where bs: "out' = o1 @ bs" "length bs mod 3 = 0" "qb2_chars bs = cs"
    using Step.IH[OF o1(2)] by (elim exE conjE)
  have "out' = out @ (b0 # b1 # b2 # bs)" "length (b0 # b1 # b2 # bs) mod 3 = 0"
    "qb2_chars (b0 # b1 # b2 # bs) = c0 # c1 # c2 # c3 # cs"
    using bs b by (simp_all add: qb2_chars_step)
  then show ?case by (intro exI conjI)
qed (auto simp: chunks_exact_Nil)

lemma qb64_decode_iff: "qb64_decode t = Inr bs \<longleftrightarrow> length bs mod 3 = 0 \<and> qb2_chars bs = t"
proof
  assume *: "qb64_decode t = Inr bs"
  then have al: "length t mod 4 = 0" and d: "decode_blocks (chunks_exact 4 t) [] = (Inr (), bs)"
    by (auto simp: qb64_decode_def qb64_decode_into_def split: if_splits prod.splits)
  from encode_decode_blocks[OF al d] show "length bs mod 3 = 0 \<and> qb2_chars bs = t" by auto
next
  assume *: "length bs mod 3 = 0 \<and> qb2_chars bs = t"
  then have "length t mod 4 = 0" using length_qb2_chars[of bs] by auto
  with * show "qb64_decode t = Inr bs"
    using decode_blocks_encode[of bs "[]"] by (auto simp: qb64_decode_def qb64_decode_into_def)
qed

section \<open>An exact number of characters\<close>

text \<open>The inner loop of \<^verbatim>\<open>encode_binary\<close>, which drains the accumulator.\<close>

function encode_binary_drain :: "u32 \<Rightarrow> nat \<Rightarrow> bytes \<Rightarrow> nat \<Rightarrow> b64_error + (u32 \<times> nat \<times> bytes)" where
  "encode_binary_drain acc bits out len =
     (if 6 \<le> bits \<and> length out < len
      then let shift = bits - 6; sextet = (ucast (drop_bit shift acc) :: byte)
           in res_bind (b64_index_to_char sextet) (\<lambda>ch.
              encode_binary_drain (acc AND (push_bit (bits - 6) 1 - 1)) (bits - 6) (out @ [ch]) len)
      else Inr (acc, bits, out))"
  by pat_completeness auto
termination
  by (relation "measure (\<lambda>(acc, bits, out, len). bits)") auto

declare encode_binary_drain.simps [simp del]

fun encode_binary_loop :: "bytes \<Rightarrow> u32 \<Rightarrow> nat \<Rightarrow> bytes \<Rightarrow> nat \<Rightarrow> b64_error + bytes" where
  "encode_binary_loop [] acc bits out len = Inr out"
| "encode_binary_loop (b # bs) acc bits out len =
     res_bind (encode_binary_drain (push_bit 8 acc OR ucast b) (bits + 8) out len)
       (\<lambda>(acc', bits', out'). encode_binary_loop bs acc' bits' out' len)"

definition encode_binary :: "bytes \<Rightarrow> nat \<Rightarrow> b64_error + bytes" where
  "encode_binary stream len =
     (let n = (len * 3 + 3) div 4
      in if length stream < n then Inl ShortBinaryStream
         else encode_binary_loop (take n stream) 0 0 [] len)"

definition be_value_from :: "nat \<Rightarrow> bytes \<Rightarrow> nat" where
  "be_value_from a bs = foldl (\<lambda>a b. a * 256 + unat b) a bs"

abbreviation be_value :: "bytes \<Rightarrow> nat" where
  "be_value bs \<equiv> be_value_from 0 bs"

lemma be_value_simps [simp]:
  "be_value_from a [] = a"
  "be_value_from a (b # s) = be_value_from (a * 256 + unat b) s"
  "be_value_from a (s @ t) = be_value_from (be_value_from a s) t"
  by (simp_all add: be_value_from_def)

lemma mask_accumulator: "unat (acc AND (push_bit k 1 - 1) :: u32) = unat acc mod 2 ^ k"
proof -
  have "acc AND (push_bit k 1 - 1) = take_bit k acc"
    by (simp add: take_bit_eq_mask mask_eq_decr_exp push_bit_eq_mult)
  then show ?thesis by (simp add: unsigned_take_bit_eq flip: take_bit_eq_mod)
qed

lemma shift_in_byte:
  assumes "unat (acc :: u32) < 2 ^ k" "k + 8 \<le> 32"
  shows "unat (push_bit 8 acc OR ucast b) = unat acc * 256 + unat (b :: byte)"
proof -
  have dis: "push_bit 8 acc AND ucast b = 0"
    by (rule bit_word_eqI) (auto simp: bit_simps dest: bit_imp_le_length)
  have "unat acc * 256 + unat b < 2 ^ (k + 8)"
  proof -
    have "(unat acc + 1) * 256 \<le> 2 ^ k * 256" using assms by (intro mult_right_mono) auto
    moreover have "unat b < 256" using unsigned_less[of b] by simp
    ultimately show ?thesis by (simp add: power_add)
  qed
  also have "\<dots> \<le> 2 ^ 32" using assms by (intro power_increasing) auto
  finally have lt: "unat acc * 256 + unat b < 2 ^ 32" .
  have "push_bit 8 acc OR ucast b = push_bit 8 acc + ucast b"
    using disjunctive_add_eq_or[OF dis] by simp
  also have "\<dots> = word_of_nat (unat acc * 256 + unat b)"
    by (simp add: push_bit_eq_mult)
  finally show ?thesis using lt by (simp only: unat_of_nat) simp
qed

text \<open>What the drain keeps: the value of the characters written and the bits still held.\<close>

lemma drain_correct:
  assumes "bits \<le> 13" "unat acc < 2 ^ bits" "length out \<le> len"
    "is_b64_url_safe_charset out"
  shows "\<exists>acc' bits' out'. encode_binary_drain acc bits out len = Inr (acc', bits', out') \<and>
    bits' \<le> bits \<and> unat acc' < 2 ^ bits' \<and> length out' \<le> len \<and>
    b64_value out' * 2 ^ bits' + unat acc' = b64_value out * 2 ^ bits + unat acc \<and>
    bits' + 6 * length out' = bits + 6 * length out \<and>
    (bits' < 6 \<or> length out' = len) \<and> is_b64_url_safe_charset out'"
  using assms
proof (induction acc bits out len rule: encode_binary_drain.induct)
  case (1 acc bits out len)
  show ?case
  proof (cases "6 \<le> bits \<and> length out < len")
    case False
    then show ?thesis using 1 by (subst encode_binary_drain.simps) auto
  next
    case True
    define d where "d = unat acc div 2 ^ (bits - 6)"
    have pow: "(2::nat) ^ bits = 2 ^ (bits - 6) * 64"
      using True power_add[of "2::nat" "bits - 6" 6] by simp
    have d: "d < 64" using 1(3) pow by (simp add: d_def div_less_iff_less_mult mult.commute)
    have sx: "unat (ucast (drop_bit (bits - 6) acc) :: byte) = d"
      using d unfolding unsigned_ucast_eq unat_drop_bit_eq
      by (simp add: d_def drop_bit_eq_div take_bit_nat_eq_self)
    then have ch: "b64_index_to_char (ucast (drop_bit (bits - 6) acc)) = Inr (B64_ALPHABET ! d)"
      using d by (simp add: index_to_char_iff)
    let ?acc = "acc AND (push_bit (bits - 6) 1 - 1)"
    have a: "unat ?acc = unat acc mod 2 ^ (bits - 6)" by (rule mask_accumulator)
    have cs: "is_b64_url_safe_charset (out @ [B64_ALPHABET ! d])"
      using 1(5) d by (simp add: charset_iff byte_to_index_index)
    have step: "encode_binary_drain acc bits out len =
        encode_binary_drain ?acc (bits - 6) (out @ [B64_ALPHABET ! d]) len"
      using True ch by (subst encode_binary_drain.simps) (simp add: Let_def)
    have eq: "b64_value (out @ [B64_ALPHABET ! d]) * 2 ^ (bits - 6) + unat ?acc =
        b64_value out * 2 ^ bits + unat acc"
    proof -
      have "unat acc = d * 2 ^ (bits - 6) + unat acc mod 2 ^ (bits - 6)"
        unfolding d_def by (rule div_mult_mod_eq[symmetric])
      then show ?thesis using d a pow by (simp add: algebra_simps)
    qed
    have "\<exists>acc' bits' out'.
       encode_binary_drain ?acc (bits - 6) (out @ [B64_ALPHABET ! d]) len = Inr (acc', bits', out') \<and>
       bits' \<le> bits - 6 \<and> unat acc' < 2 ^ bits' \<and> length out' \<le> len \<and>
       b64_value out' * 2 ^ bits' + unat acc' =
         b64_value (out @ [B64_ALPHABET ! d]) * 2 ^ (bits - 6) + unat ?acc \<and>
       bits' + 6 * length out' = bits - 6 + 6 * length (out @ [B64_ALPHABET ! d]) \<and>
       (bits' < 6 \<or> length out' = len) \<and> is_b64_url_safe_charset out'"
      by (rule "1.IH"[OF True refl refl, of "B64_ALPHABET ! d"]) (use 1 True cs a ch in auto)
    then obtain acc' bits' out' where r:
      "encode_binary_drain ?acc (bits - 6) (out @ [B64_ALPHABET ! d]) len = Inr (acc', bits', out')"
      "bits' \<le> bits - 6" "unat acc' < 2 ^ bits'" "length out' \<le> len"
      "b64_value out' * 2 ^ bits' + unat acc' = b64_value out * 2 ^ bits + unat acc"
      "bits' + 6 * length out' = bits - 6 + 6 * length (out @ [B64_ALPHABET ! d])"
      "bits' < 6 \<or> length out' = len" "is_b64_url_safe_charset out'"
      using eq by (elim exE conjE) simp
    moreover have "bits' \<le> bits" "bits' + 6 * length out' = bits + 6 * length out"
      using r True by auto
    ultimately show ?thesis using step by (intro exI[of _ acc'] exI[of _ bits'] exI[of _ out']) simp
  qed
qed

lemma encode_binary_loop_correct:
  assumes "unat acc < 2 ^ bits" "bits < 6 \<or> length out = len" "length out \<le> len"
    "is_b64_url_safe_charset out"
    "6 * len \<le> bits + 6 * length out + 8 * length bs"
    "bits + 6 * length out + 8 * length bs < 6 * len + 8"
  shows "\<exists>r. encode_binary_loop bs acc bits out len = Inr r \<and> length r = len \<and>
    is_b64_url_safe_charset r \<and>
    b64_value r = be_value_from (b64_value out * 2 ^ bits + unat acc) bs
                  div 2 ^ (bits + 6 * length out + 8 * length bs - 6 * len)"
  using assms
proof (induction bs arbitrary: acc bits out)
  case Nil
  then have "length out = len" by auto
  with Nil show ?case by simp
next
  case (Cons b bs)
  have bits: "bits < 6" using Cons.prems by auto
  let ?acc = "push_bit 8 acc OR ucast b"
  have acc: "unat ?acc = unat acc * 256 + unat b"
    using shift_in_byte[of acc bits b] Cons.prems bits by simp
  have "(unat acc + 1) * 256 \<le> 2 ^ bits * 256" using Cons.prems by (intro mult_right_mono) auto
  moreover have "unat b < 256" using unsigned_less[of b] by simp
  ultimately have lt: "unat ?acc < 2 ^ (bits + 8)" using acc by (simp add: power_add)
  have b13: "bits + 8 \<le> 13" using bits by simp
  obtain acc' bits' out' where r:
    "encode_binary_drain ?acc (bits + 8) out len = Inr (acc', bits', out')"
    "unat acc' < 2 ^ bits'" "length out' \<le> len"
    "b64_value out' * 2 ^ bits' + unat acc' = b64_value out * 2 ^ (bits + 8) + unat ?acc"
    "bits' + 6 * length out' = bits + 8 + 6 * length out"
    "bits' < 6 \<or> length out' = len" "is_b64_url_safe_charset out'"
    using drain_correct[OF b13 lt Cons.prems(3,4)] by (elim exE conjE)
  have val: "b64_value out' * 2 ^ bits' + unat acc' = (b64_value out * 2 ^ bits + unat acc) * 256 + unat b"
    using r(4) acc by (simp add: power_add algebra_simps)
  have "\<exists>r. encode_binary_loop bs acc' bits' out' len = Inr r \<and> length r = len \<and>
    is_b64_url_safe_charset r \<and>
    b64_value r = be_value_from (b64_value out' * 2 ^ bits' + unat acc') bs
                  div 2 ^ (bits' + 6 * length out' + 8 * length bs - 6 * len)"
    by (rule Cons.IH) (use r Cons.prems in auto)
  moreover have "bits' + 6 * length out' + 8 * length bs - 6 * len =
      bits + 6 * length out + 8 * length (b # bs) - 6 * len"
    using r(5) by simp
  ultimately show ?case using r(1) unfolding val by (simp add: mult.commute)
qed

lemma encode_binary_Inr:
  assumes "(len * 3 + 3) div 4 \<le> length stream"
  shows "\<exists>r. encode_binary stream len = Inr r \<and> length r = len \<and> is_b64_url_safe_charset r \<and>
    b64_value r = be_value (take ((len * 3 + 3) div 4) stream)
                  div 2 ^ (8 * ((len * 3 + 3) div 4) - 6 * len)"
  using assms encode_binary_loop_correct[of 0 0 "[]" len "take ((len * 3 + 3) div 4) stream"]
  by (simp add: encode_binary_def Let_def charset_iff del: take_all)

lemma octets_value:
  "unat (push_bit 16 (ucast a) OR push_bit 8 (ucast b) OR ucast c :: u32) = (unat a * 256 + unat b) * 256 + unat c"
  for a b c :: byte
proof -
  have ua: "unat (ucast a :: u32) = unat a"
    by (simp add: unsigned_ucast_eq take_bit_nat_eq_self order_less_le_trans[OF unsigned_less])
  have l: "unat a < 256" "unat b < 256" using unsigned_less[of a] unsigned_less[of b] by simp_all
  have s1: "unat (push_bit 8 (ucast a) OR ucast b :: u32) = unat a * 256 + unat b"
    using shift_in_byte[of "ucast a" 8 b] l ua by simp
  then have s2: "unat (push_bit 8 (push_bit 8 (ucast a) OR ucast b) OR ucast c :: u32) =
      (unat a * 256 + unat b) * 256 + unat c"
    using shift_in_byte[of "push_bit 8 (ucast a) OR ucast b" 16 c] l by simp
  have "push_bit 16 (ucast a) OR push_bit 8 (ucast b) OR ucast c =
      (push_bit 8 (push_bit 8 (ucast a) OR ucast b) OR ucast c :: u32)"
    by (rule bit_word_eqI) (auto simp: bit_simps)
  then show ?thesis using s2 by simp
qed

lemma mod_quad: "(r :: nat) < n \<Longrightarrow> (q * n + r) mod (n * k) = q mod k * n + r"
  using mod_mult2_eq[of "q * n + r" n k] by (simp add: mult.commute)

section \<open>The base64 engine\<close>

text \<open>
  What the sources rely on from the \<^verbatim>\<open>URL_SAFE\<close> engines of the base64
  crate, on the aligned inputs they use: three bytes become the four
  characters of RFC 4648, a text is the concatenation of its blocks, decoding
  inverts encoding, and a whole number of quads without the padding character (61)
  decodes only to bytes that encode back to it. Decoding fails with None: the
  crate's error value is not modelled.
\<close>

definition b64_quad :: "byte \<Rightarrow> byte \<Rightarrow> byte \<Rightarrow> bytes" where
  "b64_quad a b c = map ((!) B64_ALPHABET)
     [unat a div 4, unat a mod 4 * 16 + unat b div 16, unat b mod 16 * 4 + unat c div 64, unat c mod 64]"

lemma length_b64_quad [simp]: "length (b64_quad a b c) = 4"
  by (simp add: b64_quad_def)

locale b64_engine =
  fixes enc :: "bytes \<Rightarrow> bytes" and dec :: "bytes \<Rightarrow> bytes option"
  assumes enc_Nil: "enc [] = []"
    and enc_step: "length ys mod 3 = 0 \<Longrightarrow> enc (a # b # c # ys) = b64_quad a b c @ enc ys"
    and dec_enc: "length xs mod 3 = 0 \<Longrightarrow> dec (enc xs) = Some xs"
    and enc_dec: "dec t = Some xs \<Longrightarrow> length t mod 4 = 0 \<Longrightarrow> 61 \<notin> set t \<Longrightarrow>
      length xs mod 3 = 0 \<and> enc xs = t"

text \<open>The block of the sources is the block of the RFC.\<close>

lemma encode_block_quad: "encode_block [a, b, c] [] = b64_quad a b c"
proof -
  let ?x = "push_bit 16 (ucast a) OR push_bit 8 (ucast b) OR ucast c :: u32"
  have l: "unat a < 256" "unat b < 256" "unat c < 256"
    using unsigned_less[of a] unsigned_less[of b] unsigned_less[of c] by simp_all
  have d: "unat (take_bit 6 (drop_bit k ?x)) = unat ?x div 2 ^ k mod 64" for k
    unfolding unsigned_take_bit_eq unat_drop_bit_eq by (simp add: take_bit_eq_mod drop_bit_eq_div)
  have d0: "unat (take_bit 6 ?x) = unat ?x mod 64"
    using d[of 0] by (simp del: take_bit_or)
  have X: "unat ?x = (unat a * 256 + unat b) * 256 + unat c" by (rule octets_value)
  have X8: "unat ?x div 256 = unat a * 256 + unat b" using X l by simp
  have "unat ?x div 2 ^ 18 = unat ?x div 256 div 256 div 4" by (simp add: div_mult2_eq[symmetric])
  then have q0: "unat ?x div 2 ^ 18 mod 64 = unat a div 4" using X8 l by (simp add: div_less_iff_less_mult)
  have "unat ?x div 2 ^ 12 = unat ?x div 256 div 16" by (simp add: div_mult2_eq[symmetric])
  also have "\<dots> = unat a * 16 + unat b div 16" using X8 by simp
  finally have q1: "unat ?x div 2 ^ 12 mod 64 = unat a mod 4 * 16 + unat b div 16"
    using l mod_quad[of "unat b div 16" 16 "unat a" 4] by (simp add: div_less_iff_less_mult)
  have "unat ?x div 2 ^ 6 = (unat a * 16 * 16 + unat b) * 4 + unat c div 64" using X l by simp
  moreover have "(256 * unat a + unat b) mod 16 = unat b mod 16"
    using mod_mult_self4[of 16 "16 * unat a" "unat b"] by simp
  ultimately have q2: "unat ?x div 2 ^ 6 mod 64 = unat b mod 16 * 4 + unat c div 64"
    using l mod_quad[of "unat c div 64" 4 "unat a * 16 * 16 + unat b" 16] by (simp add: div_less_iff_less_mult)
  have q3: "unat ?x mod 64 = unat c mod 64"
  proof -
    have "unat ?x = 64 * ((unat a * 256 + unat b) * 4) + unat c" using X by simp
    then show ?thesis by (simp only: mod_mult_self4 mult.commute)
  qed
  show ?thesis
    unfolding encode_block_def Let_def and_masks b64_quad_def
    by (simp add: d d0 q0[simplified] q1[simplified] q2[simplified] q3 del: drop_bit_or take_bit_or)
qed

context b64_engine
begin

text \<open>On aligned input the engine computes what the in-repository routine computes.\<close>

lemma enc_eq: "length bs mod 3 = 0 \<Longrightarrow> enc bs = qb2_chars bs"
  by (induction bs rule: triples_induct) (simp_all add: enc_Nil enc_step qb2_chars_step encode_block_quad)

end

lemma b64_quad_lead1: "take 1 (b64_quad 0 b c) = [65]"
proof -
  have A: "B64_ALPHABET ! 0 = 65" by (simp add: B64_ALPHABET_eval)
  then show ?thesis by (simp add: b64_quad_def)
qed

lemma b64_quad_lead2: "take 2 (b64_quad 0 0 c) = [65, 65]"
proof -
  have A: "B64_ALPHABET ! 0 = 65" by (simp add: B64_ALPHABET_eval)
  then show ?thesis by (simp add: b64_quad_def)
qed

lemma B64_ALPHABET_A: "i < 64 \<Longrightarrow> B64_ALPHABET ! i = 65 \<longleftrightarrow> i = 0"
  using B64_ALPHABET_inj[of i 0] by (simp add: B64_ALPHABET_eval)

lemma b64_quad_lead1D:
  assumes "take 1 (b64_quad a b c) = [65]" shows "unat a < 4"
proof -
  have "unat a div 4 < 64" using byte_less[of a] by simp
  with assms show ?thesis using B64_ALPHABET_A[of "unat a div 4"] by (simp add: b64_quad_def)
qed

lemma b64_quad_lead2D:
  assumes "take 2 (b64_quad a b c) = [65, 65]" shows "a = 0 \<and> unat b < 16"
proof -
  have l: "unat a div 4 < 64" "unat b div 16 < 16"
    using byte_less[of a] byte_less[of b] by simp_all
  then have "unat a div 4 = 0"
    using assms B64_ALPHABET_A[of "unat a div 4"] by (simp add: b64_quad_def)
  moreover have "unat a mod 4 * 16 + unat b div 16 < 64" using l by simp
  then have "unat a mod 4 * 16 + unat b div 16 = 0"
    using assms B64_ALPHABET_A[of "unat a mod 4 * 16 + unat b div 16"] by (simp add: b64_quad_def)
  ultimately have "unat a = 0" "unat b < 16" by (simp_all, presburger+)
  then show ?thesis by (simp add: unat_eq_0)
qed

text \<open>\<^verbatim>\<open>ZeroLead::encode_into\<close>: the characters written for lead zeros and the raw value.\<close>

definition zero_lead_encode :: "(bytes \<Rightarrow> bytes) \<Rightarrow> bytes \<Rightarrow> nat \<Rightarrow> bytes" where
  "zero_lead_encode enc raw lead =
     (let full_zero_groups = lead div 3; prefix = lead mod 3;
          out = replicate (full_zero_groups * 4) 65
      in if prefix \<noteq> 0
         then let k = min (3 - prefix) (length raw)
              in out @ enc (replicate prefix 0 @ take k raw) @ enc (drop k raw)
         else out @ enc raw)"

lemma qb2_chars_zeros: "qb2_chars (replicate (3 * n) 0) = replicate (4 * n) 65"
proof (induction n)
  case (Suc n)
  have z: "qb2_chars [0, 0, 0] = replicate 4 65" by code_simp
  have "replicate (3 * Suc n) (0 :: byte) = replicate 3 0 @ replicate (3 * n) 0"
    unfolding replicate_add[symmetric] by simp
  also have "replicate 3 (0 :: byte) = [0, 0, 0]" by (simp add: eval_nat_numeral)
  finally have "qb2_chars (replicate (3 * Suc n) 0) = replicate 4 65 @ replicate (4 * n) 65"
    using Suc qb2_chars_append[of "[0, 0, 0]" "replicate (3 * n) 0"] z by simp
  then show ?case unfolding replicate_add[symmetric] by simp
qed simp

context b64_engine
begin

lemma zero_lead_encode_eq:
  assumes "(lead + length raw) mod 3 = 0"
  shows "zero_lead_encode enc raw lead = enc (replicate lead 0 @ raw)"
proof -
  define q where "q = lead div 3"
  define p where "p = lead mod 3"
  have lead: "lead = 3 * q + p" "p < 3" by (auto simp: q_def p_def)
  have al: "(p + length raw) mod 3 = 0" using assms lead by presburger
  have "replicate lead (0 :: byte) @ raw = replicate (3 * q) 0 @ (replicate p 0 @ raw)"
    by (simp add: lead(1) replicate_add)
  then have whole: "qb2_chars (replicate lead 0 @ raw) = replicate (4 * q) 65 @ qb2_chars (replicate p 0 @ raw)"
    by (simp add: qb2_chars_append qb2_chars_zeros)
  have out: "enc (replicate lead 0 @ raw) = qb2_chars (replicate lead 0 @ raw)"
    using assms by (simp add: enc_eq)
  show ?thesis
  proof (cases "p = 0")
    case True
    then show ?thesis
      using whole out al
      by (simp add: zero_lead_encode_def q_def[symmetric] p_def[symmetric] mult.commute enc_eq)
  next
    case False
    have len: "3 - p \<le> length raw" using False al lead(2) by presburger
    have a1: "length (replicate p (0 :: byte) @ take (3 - p) raw) mod 3 = 0" using len lead(2) by simp
    have a2: "length (drop (3 - p) raw) mod 3 = 0" using len al lead(2) by simp presburger
    have "replicate p (0 :: byte) @ raw = (replicate p 0 @ take (3 - p) raw) @ drop (3 - p) raw" by simp
    then have "qb2_chars (replicate p 0 @ raw) =
        enc (replicate p 0 @ take (3 - p) raw) @ enc (drop (3 - p) raw)"
      using qb2_chars_append[OF a1, of "drop (3 - p) raw"] enc_eq[OF a1] enc_eq[OF a2] by metis
    then show ?thesis
      using whole out False len
      by (simp add: zero_lead_encode_def q_def[symmetric] p_def[symmetric] mult.commute Let_def min_def)
  qed
qed

end

text \<open>The in-repository routines are such an engine.\<close>

definition own_b64_decode :: "bytes \<Rightarrow> bytes option" where
  "own_b64_decode t = (case qb64_decode t of Inl _ \<Rightarrow> None | Inr bs \<Rightarrow> Some bs)"

lemma own_b64_decode_iff: "own_b64_decode t = Some bs \<longleftrightarrow> length bs mod 3 = 0 \<and> qb2_chars bs = t"
  using qb64_decode_iff[of t bs] by (auto simp: own_b64_decode_def split: sum.splits)

interpretation own_b64: b64_engine qb2_chars own_b64_decode
  by unfold_locales (simp_all add: qb2_chars_step encode_block_quad own_b64_decode_iff)

text \<open>The lead characters of a text say which bytes are zero, and the other way around.\<close>

lemma qb2_lead:
  assumes "k \<le> 2" "(k + length raw) mod 3 = 0"
  shows "take k (qb2_chars (replicate k 0 @ raw)) = replicate k 65"
proof -
  have rep2: "replicate 2 x = [x, x]" for x :: byte by (simp add: numeral_2_eq_2)
  consider (zero) "k = 0" | (one) b c ys where "k = 1" "raw = b # c # ys" | (two) c ys where "k = 2" "raw = c # ys"
  proof -
    have "k = 0 \<or> k = 1 \<or> k = 2" using assms(1) by linarith
    then show thesis
    proof (elim disjE)
      assume "k = 1"
      then have "2 \<le> length raw" using assms(2) by presburger
      then obtain b c ys where "raw = b # c # ys" by (auto simp: numeral_2_eq_2 Suc_le_length_iff)
      with \<open>k = 1\<close> show thesis by (rule that(2))
    next
      assume "k = 2"
      then have "raw \<noteq> []" using assms(2) by (intro notI) simp
      then obtain c ys where "raw = c # ys" by (cases raw) auto
      with \<open>k = 2\<close> show thesis by (rule that(3))
    qed (rule that(1))
  qed
  then show ?thesis
  proof cases
    case (one b c ys)
    then show ?thesis using b64_quad_lead1[of b c] by (simp add: qb2_chars_step encode_block_quad)
  next
    case (two c ys)
    then show ?thesis using b64_quad_lead2[of c]
      by (simp add: qb2_chars_step encode_block_quad rep2)
  qed simp
qed

lemma qb2_charset: "length xs mod 3 = 0 \<Longrightarrow> is_b64_url_safe_charset (qb2_chars xs)"
proof (induction xs rule: triples_induct)
  case (Step a b c xs)
  have "unat a < 256" "unat b < 256" "unat c < 256"
    using unsigned_less[of a] unsigned_less[of b] unsigned_less[of c] by simp_all
  then have "unat a div 4 < 64" "unat b div 16 < 16" "unat c div 64 < 4" by simp_all
  then show ?case using Step
    by (simp add: qb2_chars_step charset_iff encode_block_quad b64_quad_def charset_index)
qed (simp add: charset_iff)

text \<open>Both encoders write the digits of the big-endian value of the bytes.\<close>

lemma sextets_value:
  fixes x :: nat assumes "x < 2 ^ 24"
  shows "((x div 2 ^ 18 mod 64 * 64 + x div 2 ^ 12 mod 64) * 64 + x div 2 ^ 6 mod 64) * 64 + x mod 64 = x"
proof -
  have "x div 2 ^ 18 mod 64 = x div 2 ^ 18" using assms by (simp add: div_less_iff_less_mult)
  moreover have "x div 2 ^ 18 = x div 2 ^ 12 div 64" "x div 2 ^ 12 = x div 2 ^ 6 div 64" "x div 2 ^ 6 = x div 64"
    by (simp_all add: div_mult2_eq[symmetric])
  ultimately show ?thesis by simp
qed

lemma encode_block_value: "b64_value_from v (encode_block [a, b, c] []) = be_value_from v [a, b, c]"
proof -
  let ?x = "push_bit 16 (ucast a) OR push_bit 8 (ucast b) OR ucast c :: u32"
  have X: "unat ?x = (unat a * 256 + unat b) * 256 + unat c" by (rule octets_value)
  have "unat a < 256" "unat b < 256" "unat c < 256"
    using unsigned_less[of a] unsigned_less[of b] unsigned_less[of c] by simp_all
  then have lt: "unat ?x < 2 ^ 24" using X by simp
  have d: "unat (take_bit 6 (drop_bit k ?x)) = unat ?x div 2 ^ k mod 64" for k
    unfolding unsigned_take_bit_eq unat_drop_bit_eq by (simp add: take_bit_eq_mod drop_bit_eq_div)
  have d0: "unat (take_bit 6 ?x) = unat ?x mod 64"
    using d[of 0] by (simp del: take_bit_or)
  have "b64_value_from v (encode_block [a, b, c] []) =
      (((v * 64 + unat ?x div 2 ^ 18 mod 64) * 64 + unat ?x div 2 ^ 12 mod 64) * 64 + unat ?x div 2 ^ 6 mod 64) * 64
      + unat ?x mod 64"
    unfolding encode_block_def Let_def and_masks
    by (simp add: d d0 sextet_less del: drop_bit_or take_bit_or)
  also have "\<dots> = v * 64 * 64 * 64 * 64 + unat ?x"
  proof -
    have "(((v * 64 + p) * 64 + q) * 64 + r) * 64 + s = v * 64 * 64 * 64 * 64 + (((p * 64 + q) * 64 + r) * 64 + s)"
      for p q r s :: nat by (simp add: algebra_simps)
    then show ?thesis by (simp only: sextets_value[OF lt])
  qed
  also have "\<dots> = be_value_from v [a, b, c]" using X by simp
  finally show ?thesis .
qed

lemma qb2_chars_value: "length bs mod 3 = 0 \<Longrightarrow> b64_value_from v (qb2_chars bs) = be_value_from v bs"
proof (induction bs arbitrary: v rule: triples_induct)
  case (Step a b c xs)
  then show ?case using encode_block_value[of v a b c] by (simp add: qb2_chars_step)
qed simp

lemma b64_value_bound: "b64_value_from v t < (v + 1) * 64 ^ length t"
proof (induction t arbitrary: v)
  case (Cons b t)
  have "(v * 64 + b64_digit b + 1) * 64 ^ length t \<le> ((v + 1) * 64) * 64 ^ length t"
    using b64_digit_less[of b] by (intro mult_right_mono) auto
  also have "\<dots> = (v + 1) * 64 ^ length (b # t)" by (simp add: algebra_simps)
  finally have "(v * 64 + b64_digit b + 1) * 64 ^ length t \<le> (v + 1) * 64 ^ length (b # t)" .
  with Cons[of "v * 64 + b64_digit b"] show ?case unfolding b64_value_simps by (rule order_less_le_trans)
qed simp

lemma b64_value_split: "b64_value_from v t = v * 64 ^ length t + b64_value t"
proof (induction t arbitrary: v)
  case (Cons b t)
  show ?case using Cons[of "v * 64 + b64_digit b"] Cons[of "b64_digit b"] by (simp add: algebra_simps)
qed simp

lemma b64_value_take: "n \<le> length t \<Longrightarrow> b64_value (take n t) = b64_value t div 64 ^ (length t - n)"
proof -
  assume n: "n \<le> length t"
  have "b64_value t = b64_value_from (b64_value (take n t)) (drop n t)"
    using b64_value_simps(3)[of 0 "take n t" "drop n t"] by simp
  also have "\<dots> = b64_value (take n t) * 64 ^ (length t - n) + b64_value (drop n t)"
    using b64_value_split[of "b64_value (take n t)" "drop n t"] n by simp
  finally show ?thesis using b64_value_bound[of 0 "drop n t"] n by simp
qed

lemma be_value_split: "be_value_from v t = v * 256 ^ length t + be_value t"
proof (induction t arbitrary: v)
  case (Cons b t)
  show ?case using Cons[of "v * 256 + unat b"] Cons[of "unat b"] by (simp add: algebra_simps)
qed simp

lemma be_value_bound: "be_value_from v t < (v + 1) * 256 ^ length t"
proof (induction t arbitrary: v)
  case (Cons b t)
  have "unat b < 256" using unsigned_less[of b] by simp
  then have "(v * 256 + unat b + 1) * 256 ^ length t \<le> ((v + 1) * 256) * 256 ^ length t"
    by (intro mult_right_mono) auto
  also have "\<dots> = (v + 1) * 256 ^ length (b # t)" by (simp add: algebra_simps)
  finally have "(v * 256 + unat b + 1) * 256 ^ length t \<le> (v + 1) * 256 ^ length (b # t)" .
  with Cons[of "v * 256 + unat b"] show ?case unfolding be_value_simps by (rule order_less_le_trans)
qed simp

lemma be_value_take: "n \<le> length t \<Longrightarrow> be_value (take n t) = be_value t div 256 ^ (length t - n)"
proof -
  assume n: "n \<le> length t"
  have "be_value t = be_value_from (be_value (take n t)) (drop n t)"
    using be_value_simps(3)[of 0 "take n t" "drop n t"] by simp
  also have "\<dots> = be_value (take n t) * 256 ^ (length t - n) + be_value (drop n t)"
    using be_value_split[of "be_value (take n t)" "drop n t"] n by simp
  finally show ?thesis using be_value_bound[of 0 "drop n t"] n by simp
qed

lemma b64_value_eq_iff:
  assumes "is_b64_url_safe_charset s" "is_b64_url_safe_charset t" "length s = length t" "b64_value s = b64_value t"
  shows "s = t"
  using assms(3,1,2,4)
proof (induction s t rule: rev_induct2)
  case (4 x xs y ys)
  then have "b64_value xs * 64 + b64_digit x = b64_value ys * 64 + b64_digit y" by simp
  then have "(b64_value xs * 64 + b64_digit x) div 64 = (b64_value ys * 64 + b64_digit y) div 64"
    "(b64_value xs * 64 + b64_digit x) mod 64 = (b64_value ys * 64 + b64_digit y) mod 64" by simp_all
  then have "b64_value xs = b64_value ys" "b64_digit x = b64_digit y"
    using b64_digit_less[of x] b64_digit_less[of y] by simp_all
  moreover have "x = y"
  proof -
    obtain i j where "b64_byte_to_index x = Inr i" "b64_byte_to_index y = Inr j"
      using 4 by (auto simp: charset_iff is_ok_iff)
    then show ?thesis using \<open>b64_digit x = b64_digit y\<close>
      using byte_to_index_Inr[of x i] byte_to_index_Inr[of y j] by (auto simp: b64_digit_def)
  qed
  ultimately show ?case using 4 by (simp add: charset_iff)
qed auto

lemma encode_binary_prefix:
  assumes al: "length bs mod 3 = 0" and n: "n \<le> length bs div 3 * 4"
  shows "encode_binary bs n = Inr (take n (qb2_chars bs))"
proof -
  let ?k = "(n * 3 + 3) div 4"
  obtain q where q: "length bs = 3 * q" using al by (auto simp: mod_eq_0_iff_dvd)
  have k: "?k \<le> length bs" using q n by simp
  obtain r where r: "encode_binary bs n = Inr r" "length r = n" "is_b64_url_safe_charset r"
    "b64_value r = be_value (take ?k bs) div 2 ^ (8 * ?k - 6 * n)"
    using encode_binary_Inr[OF k] by (elim exE conjE)
  have len: "length (qb2_chars bs) = length bs div 3 * 4" by (rule length_qb2_chars[OF al])
  have e: "8 * (length bs - ?k) + (8 * ?k - 6 * n) = 6 * (length bs div 3 * 4 - n)"
  proof -
    have "6 * n \<le> 8 * ?k" "length bs div 3 = q" using q by simp_all
    then show ?thesis using k q n by (simp add: diff_mult_distrib2)
  qed
  have "b64_value r = be_value bs div (256 ^ (length bs - ?k) * 2 ^ (8 * ?k - 6 * n))"
    using r(4) be_value_take[OF k] by (simp add: div_mult2_eq)
  also have "(256 :: nat) ^ (length bs - ?k) * 2 ^ (8 * ?k - 6 * n) = 2 ^ (6 * (length bs div 3 * 4 - n))"
    unfolding e[symmetric] power_add power_mult by simp
  also have "\<dots> = 64 ^ (length bs div 3 * 4 - n)" by (simp add: power_mult)
  also have "be_value bs div \<dots> = b64_value (take n (qb2_chars bs))"
    using b64_value_take[of n "qb2_chars bs"] n len qb2_chars_value[OF al, of 0] by simp
  finally have "b64_value r = b64_value (take n (qb2_chars bs))" .
  moreover have "is_b64_url_safe_charset (take n (qb2_chars bs))"
    using qb2_charset[OF al] by (auto simp: charset_iff dest: in_set_takeD)
  ultimately have "r = take n (qb2_chars bs)"
    using b64_value_eq_iff[of r "take n (qb2_chars bs)"] r n len by simp
  then show ?thesis using r by simp
qed

end
