(* ===== verification/Cesr_Matter_Code.thy ===== *)
theory Cesr_Matter_Code
  imports Cesr_Transcode
begin

text \<open>
  The CESR code table, \<^verbatim>\<open>core/matter/code/matter_code.rs\<close> with
  \<^verbatim>\<open>hard.rs\<close> and \<^verbatim>\<open>sizage.rs\<close>: the 110 codes of the enum with the
  strings of their strum attributes, the size descriptor of every code and the
  codex predicates. Recognition of a code at the head of a stream and promotion
  are in the theory \<^verbatim>\<open>Cesr_Code_Stream\<close>.
\<close>

section \<open>Errors\<close>

text \<open>\<^verbatim>\<open>core/matter/error.rs\<close>; the payload of a UTF-8 or a base64 error is not modelled.\<close>

datatype MatterPart = Head | Soft | Xtra | PadBits | LeadBytes | Raw

datatype ParsingError =
    EmptyStream
  | StreamTooShort MatterPart
  | UnknownMatterCode bytes
  | MalformedCode MatterPart bytes
  | InvalidVariableSizeLead byte
  | MismatchedSizingLogic bytes
  | Conversion b64_error
  | InvalidUtf8
  | Base64

datatype ValidationError =
    UnknownCode bytes
  | MalformedComponent MatterPart bytes
  | MissingSoft bytes
  | IncorrectSoftLength bytes nat nat
  | InvalidSoftFormat bytes
  | MissingRaw bytes
  | UnexpectedRaw bytes
  | IncorrectRawSize bytes nat nat
  | IncompatiblePromotion bytes
  | InvalidPromotionTarget bytes nat
  | InvalidPromotionResult bytes bytes
  | InvalidSizingOperation bytes
  | NonCanonicalEncoding MatterPart
  | StructuralIntegrityError
  | SizeOverflow

datatype MatterBuildError = Parsing ParsingError | Validation ValidationError

section \<open>Sizes\<close>

datatype SizeType = Fixed nat | Small | Large

record Sizage =
  sz_hs :: nat
  sz_ss :: nat
  sz_xs :: nat
  sz_fs :: SizeType
  sz_ls :: nat

definition Sizage_new :: "nat \<Rightarrow> nat \<Rightarrow> nat \<Rightarrow> SizeType \<Rightarrow> nat \<Rightarrow> Sizage" where
  "Sizage_new h s x f l = \<lparr>sz_hs = h, sz_ss = s, sz_xs = x, sz_fs = f, sz_ls = l\<rparr>"

section \<open>The codes\<close>

datatype (plugins only:) MatterCode =
    Ed25519Seed | Ed25519N | X25519 | Ed25519 | Blake3_256 | Blake2b_256 | Blake2s_256 |
    SHA3_256 | SHA2_256 | ECDSA256k1Seed | Ed448Seed | X448 | Short | Big | X25519Private |
    X25519CipherSeed | ECDSA256r1Seed | Tall | Large | Great | Vast | Label1 | Label2 | Tag3 |
    Tag7 | Tag11 | Salt256 | Salt128 | Ed25519Sig | ECDSA256k1Sig | Blake3_512 | Blake2b_512 |
    SHA3_512 | SHA2_512 | Long | ECDSA256r1Sig | Tag1 | Tag2 | Tag5 | Tag6 | Tag9 | Tag10 |
    GramHeadNeck | GramHead | GramHeadAIDNeck | GramHeadAID | ECDSA256k1N | ECDSA256k1 |
    Ed448N | Ed448 | Ed448Sig | Tag4 | DateTime | X25519CipherSalt | ECDSA256r1N | ECDSA256r1 |
    Null | No | Yes | Tag8 | Escape | Empty | TBD0S | TBD0 | TBD1S | TBD1 | TBD2S | TBD2 |
    StrB64_L0 | StrB64_L1 | StrB64_L2 | StrB64Big_L0 | StrB64Big_L1 | StrB64Big_L2 | Bytes_L0 |
    Bytes_L1 | Bytes_L2 | BytesBig_L0 | BytesBig_L1 | BytesBig_L2 | X25519Cipher_L0 |
    X25519Cipher_L1 | X25519Cipher_L2 | X25519CipherBig_L0 | X25519CipherBig_L1 |
    X25519CipherBig_L2 | X25519CipherQB64_L0 | X25519CipherQB64_L1 | X25519CipherQB64_L2 |
    X25519CipherQB64Big_L0 | X25519CipherQB64Big_L1 | X25519CipherQB64Big_L2 |
    X25519CipherQB2_L0 | X25519CipherQB2_L1 | X25519CipherQB2_L2 | X25519CipherQB2Big_L0 |
    X25519CipherQB2Big_L1 | X25519CipherQB2Big_L2 | HPKEBaseCipher_L0 | HPKEBaseCipher_L1 |
    HPKEBaseCipher_L2 | HPKEBaseCipherBig_L0 | HPKEBaseCipherBig_L1 | HPKEBaseCipherBig_L2 |
    Decimal_L0 | Decimal_L1 | Decimal_L2 | DecimalBig_L0 | DecimalBig_L1 | DecimalBig_L2

text \<open>The string of a code, its strum attribute.\<close>

primrec MatterCode_as_ref :: "MatterCode \<Rightarrow> string" where
  "MatterCode_as_ref Ed25519Seed = ''A''"
| "MatterCode_as_ref Ed25519N = ''B''"
| "MatterCode_as_ref X25519 = ''C''"
| "MatterCode_as_ref Ed25519 = ''D''"
| "MatterCode_as_ref Blake3_256 = ''E''"
| "MatterCode_as_ref Blake2b_256 = ''F''"
| "MatterCode_as_ref Blake2s_256 = ''G''"
| "MatterCode_as_ref SHA3_256 = ''H''"
| "MatterCode_as_ref SHA2_256 = ''I''"
| "MatterCode_as_ref ECDSA256k1Seed = ''J''"
| "MatterCode_as_ref Ed448Seed = ''K''"
| "MatterCode_as_ref X448 = ''L''"
| "MatterCode_as_ref Short = ''M''"
| "MatterCode_as_ref Big = ''N''"
| "MatterCode_as_ref X25519Private = ''O''"
| "MatterCode_as_ref X25519CipherSeed = ''P''"
| "MatterCode_as_ref ECDSA256r1Seed = ''Q''"
| "MatterCode_as_ref Tall = ''R''"
| "MatterCode_as_ref Large = ''S''"
| "MatterCode_as_ref Great = ''T''"
| "MatterCode_as_ref Vast = ''U''"
| "MatterCode_as_ref Label1 = ''V''"
| "MatterCode_as_ref Label2 = ''W''"
| "MatterCode_as_ref Tag3 = ''X''"
| "MatterCode_as_ref Tag7 = ''Y''"
| "MatterCode_as_ref Tag11 = ''Z''"
| "MatterCode_as_ref Salt256 = ''a''"
| "MatterCode_as_ref Salt128 = ''0A''"
| "MatterCode_as_ref Ed25519Sig = ''0B''"
| "MatterCode_as_ref ECDSA256k1Sig = ''0C''"
| "MatterCode_as_ref Blake3_512 = ''0D''"
| "MatterCode_as_ref Blake2b_512 = ''0E''"
| "MatterCode_as_ref SHA3_512 = ''0F''"
| "MatterCode_as_ref SHA2_512 = ''0G''"
| "MatterCode_as_ref Long = ''0H''"
| "MatterCode_as_ref ECDSA256r1Sig = ''0I''"
| "MatterCode_as_ref Tag1 = ''0J''"
| "MatterCode_as_ref Tag2 = ''0K''"
| "MatterCode_as_ref Tag5 = ''0L''"
| "MatterCode_as_ref Tag6 = ''0M''"
| "MatterCode_as_ref Tag9 = ''0N''"
| "MatterCode_as_ref Tag10 = ''0O''"
| "MatterCode_as_ref GramHeadNeck = ''0P''"
| "MatterCode_as_ref GramHead = ''0Q''"
| "MatterCode_as_ref GramHeadAIDNeck = ''0R''"
| "MatterCode_as_ref GramHeadAID = ''0S''"
| "MatterCode_as_ref ECDSA256k1N = ''1AAA''"
| "MatterCode_as_ref ECDSA256k1 = ''1AAB''"
| "MatterCode_as_ref Ed448N = ''1AAC''"
| "MatterCode_as_ref Ed448 = ''1AAD''"
| "MatterCode_as_ref Ed448Sig = ''1AAE''"
| "MatterCode_as_ref Tag4 = ''1AAF''"
| "MatterCode_as_ref DateTime = ''1AAG''"
| "MatterCode_as_ref X25519CipherSalt = ''1AAH''"
| "MatterCode_as_ref ECDSA256r1N = ''1AAI''"
| "MatterCode_as_ref ECDSA256r1 = ''1AAJ''"
| "MatterCode_as_ref Null = ''1AAK''"
| "MatterCode_as_ref No = ''1AAL''"
| "MatterCode_as_ref Yes = ''1AAM''"
| "MatterCode_as_ref Tag8 = ''1AAN''"
| "MatterCode_as_ref Escape = ''1AAO''"
| "MatterCode_as_ref Empty = ''1AAP''"
| "MatterCode_as_ref TBD0S = ''1__-''"
| "MatterCode_as_ref TBD0 = ''1___''"
| "MatterCode_as_ref TBD1S = ''2__-''"
| "MatterCode_as_ref TBD1 = ''2___''"
| "MatterCode_as_ref TBD2S = ''3__-''"
| "MatterCode_as_ref TBD2 = ''3___''"
| "MatterCode_as_ref StrB64_L0 = ''4A''"
| "MatterCode_as_ref StrB64_L1 = ''5A''"
| "MatterCode_as_ref StrB64_L2 = ''6A''"
| "MatterCode_as_ref StrB64Big_L0 = ''7AAA''"
| "MatterCode_as_ref StrB64Big_L1 = ''8AAA''"
| "MatterCode_as_ref StrB64Big_L2 = ''9AAA''"
| "MatterCode_as_ref Bytes_L0 = ''4B''"
| "MatterCode_as_ref Bytes_L1 = ''5B''"
| "MatterCode_as_ref Bytes_L2 = ''6B''"
| "MatterCode_as_ref BytesBig_L0 = ''7AAB''"
| "MatterCode_as_ref BytesBig_L1 = ''8AAB''"
| "MatterCode_as_ref BytesBig_L2 = ''9AAB''"
| "MatterCode_as_ref X25519Cipher_L0 = ''4C''"
| "MatterCode_as_ref X25519Cipher_L1 = ''5C''"
| "MatterCode_as_ref X25519Cipher_L2 = ''6C''"
| "MatterCode_as_ref X25519CipherBig_L0 = ''7AAC''"
| "MatterCode_as_ref X25519CipherBig_L1 = ''8AAC''"
| "MatterCode_as_ref X25519CipherBig_L2 = ''9AAC''"
| "MatterCode_as_ref X25519CipherQB64_L0 = ''4D''"
| "MatterCode_as_ref X25519CipherQB64_L1 = ''5D''"
| "MatterCode_as_ref X25519CipherQB64_L2 = ''6D''"
| "MatterCode_as_ref X25519CipherQB64Big_L0 = ''7AAD''"
| "MatterCode_as_ref X25519CipherQB64Big_L1 = ''8AAD''"
| "MatterCode_as_ref X25519CipherQB64Big_L2 = ''9AAD''"
| "MatterCode_as_ref X25519CipherQB2_L0 = ''4E''"
| "MatterCode_as_ref X25519CipherQB2_L1 = ''5E''"
| "MatterCode_as_ref X25519CipherQB2_L2 = ''6E''"
| "MatterCode_as_ref X25519CipherQB2Big_L0 = ''7AAE''"
| "MatterCode_as_ref X25519CipherQB2Big_L1 = ''8AAE''"
| "MatterCode_as_ref X25519CipherQB2Big_L2 = ''9AAE''"
| "MatterCode_as_ref HPKEBaseCipher_L0 = ''4F''"
| "MatterCode_as_ref HPKEBaseCipher_L1 = ''5F''"
| "MatterCode_as_ref HPKEBaseCipher_L2 = ''6F''"
| "MatterCode_as_ref HPKEBaseCipherBig_L0 = ''7AAF''"
| "MatterCode_as_ref HPKEBaseCipherBig_L1 = ''8AAF''"
| "MatterCode_as_ref HPKEBaseCipherBig_L2 = ''9AAF''"
| "MatterCode_as_ref Decimal_L0 = ''4H''"
| "MatterCode_as_ref Decimal_L1 = ''5H''"
| "MatterCode_as_ref Decimal_L2 = ''6H''"
| "MatterCode_as_ref DecimalBig_L0 = ''7AAH''"
| "MatterCode_as_ref DecimalBig_L1 = ''8AAH''"
| "MatterCode_as_ref DecimalBig_L2 = ''9AAH''"

text \<open>The variants in declaration order, the arms of the derived \<^verbatim>\<open>from_str\<close>.\<close>

definition MatterCode_variants :: "MatterCode list" where
  "MatterCode_variants = [
     Ed25519Seed, Ed25519N, X25519, Ed25519, Blake3_256, Blake2b_256, Blake2s_256, SHA3_256,
     SHA2_256, ECDSA256k1Seed, Ed448Seed, X448, Short, Big, X25519Private, X25519CipherSeed,
     ECDSA256r1Seed, Tall, Large, Great, Vast, Label1, Label2, Tag3, Tag7, Tag11, Salt256,
     Salt128, Ed25519Sig, ECDSA256k1Sig, Blake3_512, Blake2b_512, SHA3_512, SHA2_512, Long,
     ECDSA256r1Sig, Tag1, Tag2, Tag5, Tag6, Tag9, Tag10, GramHeadNeck, GramHead,
     GramHeadAIDNeck, GramHeadAID, ECDSA256k1N, ECDSA256k1, Ed448N, Ed448, Ed448Sig, Tag4,
     DateTime, X25519CipherSalt, ECDSA256r1N, ECDSA256r1, Null, No, Yes, Tag8, Escape, Empty,
     TBD0S, TBD0, TBD1S, TBD1, TBD2S, TBD2, StrB64_L0, StrB64_L1, StrB64_L2, StrB64Big_L0,
     StrB64Big_L1, StrB64Big_L2, Bytes_L0, Bytes_L1, Bytes_L2, BytesBig_L0, BytesBig_L1,
     BytesBig_L2, X25519Cipher_L0, X25519Cipher_L1, X25519Cipher_L2, X25519CipherBig_L0,
     X25519CipherBig_L1, X25519CipherBig_L2, X25519CipherQB64_L0, X25519CipherQB64_L1,
     X25519CipherQB64_L2, X25519CipherQB64Big_L0, X25519CipherQB64Big_L1,
     X25519CipherQB64Big_L2, X25519CipherQB2_L0, X25519CipherQB2_L1, X25519CipherQB2_L2,
     X25519CipherQB2Big_L0, X25519CipherQB2Big_L1, X25519CipherQB2Big_L2, HPKEBaseCipher_L0,
     HPKEBaseCipher_L1, HPKEBaseCipher_L2, HPKEBaseCipherBig_L0, HPKEBaseCipherBig_L1,
     HPKEBaseCipherBig_L2, Decimal_L0, Decimal_L1, Decimal_L2, DecimalBig_L0, DecimalBig_L1,
     DecimalBig_L2]"

definition MatterCode_to_string :: "MatterCode \<Rightarrow> bytes" where
  "MatterCode_to_string c = str_bytes (MatterCode_as_ref c)"

definition MatterCode_from_str :: "bytes \<Rightarrow> MatterCode option" where
  "MatterCode_from_str s = find (\<lambda>c. MatterCode_to_string c = s) MatterCode_variants"


primrec get_sizage :: "MatterCode \<Rightarrow> Sizage" where
  "get_sizage Ed25519Seed = Sizage_new 1 0 0 (Fixed 44) 0"
| "get_sizage Ed25519N = Sizage_new 1 0 0 (Fixed 44) 0"
| "get_sizage X25519 = Sizage_new 1 0 0 (Fixed 44) 0"
| "get_sizage Ed25519 = Sizage_new 1 0 0 (Fixed 44) 0"
| "get_sizage Blake3_256 = Sizage_new 1 0 0 (Fixed 44) 0"
| "get_sizage Blake2b_256 = Sizage_new 1 0 0 (Fixed 44) 0"
| "get_sizage Blake2s_256 = Sizage_new 1 0 0 (Fixed 44) 0"
| "get_sizage SHA3_256 = Sizage_new 1 0 0 (Fixed 44) 0"
| "get_sizage SHA2_256 = Sizage_new 1 0 0 (Fixed 44) 0"
| "get_sizage ECDSA256k1Seed = Sizage_new 1 0 0 (Fixed 44) 0"
| "get_sizage Ed448Seed = Sizage_new 1 0 0 (Fixed 76) 0"
| "get_sizage X448 = Sizage_new 1 0 0 (Fixed 76) 0"
| "get_sizage Short = Sizage_new 1 0 0 (Fixed 4) 0"
| "get_sizage Big = Sizage_new 1 0 0 (Fixed 12) 0"
| "get_sizage X25519Private = Sizage_new 1 0 0 (Fixed 44) 0"
| "get_sizage X25519CipherSeed = Sizage_new 1 0 0 (Fixed 124) 0"
| "get_sizage ECDSA256r1Seed = Sizage_new 1 0 0 (Fixed 44) 0"
| "get_sizage Tall = Sizage_new 1 0 0 (Fixed 8) 0"
| "get_sizage Large = Sizage_new 1 0 0 (Fixed 16) 0"
| "get_sizage Great = Sizage_new 1 0 0 (Fixed 20) 0"
| "get_sizage Vast = Sizage_new 1 0 0 (Fixed 24) 0"
| "get_sizage Label1 = Sizage_new 1 0 0 (Fixed 4) 1"
| "get_sizage Label2 = Sizage_new 1 0 0 (Fixed 4) 0"
| "get_sizage Tag3 = Sizage_new 1 3 0 (Fixed 4) 0"
| "get_sizage Tag7 = Sizage_new 1 7 0 (Fixed 8) 0"
| "get_sizage Tag11 = Sizage_new 1 11 0 (Fixed 12) 0"
| "get_sizage Salt256 = Sizage_new 1 0 0 (Fixed 44) 0"
| "get_sizage Salt128 = Sizage_new 2 0 0 (Fixed 24) 0"
| "get_sizage Ed25519Sig = Sizage_new 2 0 0 (Fixed 88) 0"
| "get_sizage ECDSA256k1Sig = Sizage_new 2 0 0 (Fixed 88) 0"
| "get_sizage Blake3_512 = Sizage_new 2 0 0 (Fixed 88) 0"
| "get_sizage Blake2b_512 = Sizage_new 2 0 0 (Fixed 88) 0"
| "get_sizage SHA3_512 = Sizage_new 2 0 0 (Fixed 88) 0"
| "get_sizage SHA2_512 = Sizage_new 2 0 0 (Fixed 88) 0"
| "get_sizage Long = Sizage_new 2 0 0 (Fixed 8) 0"
| "get_sizage ECDSA256r1Sig = Sizage_new 2 0 0 (Fixed 88) 0"
| "get_sizage Tag1 = Sizage_new 2 2 1 (Fixed 4) 0"
| "get_sizage Tag2 = Sizage_new 2 2 0 (Fixed 4) 0"
| "get_sizage Tag5 = Sizage_new 2 6 1 (Fixed 8) 0"
| "get_sizage Tag6 = Sizage_new 2 6 0 (Fixed 8) 0"
| "get_sizage Tag9 = Sizage_new 2 10 1 (Fixed 12) 0"
| "get_sizage Tag10 = Sizage_new 2 10 0 (Fixed 12) 0"
| "get_sizage GramHeadNeck = Sizage_new 2 22 0 (Fixed 32) 0"
| "get_sizage GramHead = Sizage_new 2 22 0 (Fixed 28) 0"
| "get_sizage GramHeadAIDNeck = Sizage_new 2 22 0 (Fixed 76) 0"
| "get_sizage GramHeadAID = Sizage_new 2 22 0 (Fixed 72) 0"
| "get_sizage ECDSA256k1N = Sizage_new 4 0 0 (Fixed 48) 0"
| "get_sizage ECDSA256k1 = Sizage_new 4 0 0 (Fixed 48) 0"
| "get_sizage Ed448N = Sizage_new 4 0 0 (Fixed 80) 0"
| "get_sizage Ed448 = Sizage_new 4 0 0 (Fixed 80) 0"
| "get_sizage Ed448Sig = Sizage_new 4 0 0 (Fixed 156) 0"
| "get_sizage Tag4 = Sizage_new 4 4 0 (Fixed 8) 0"
| "get_sizage DateTime = Sizage_new 4 0 0 (Fixed 36) 0"
| "get_sizage X25519CipherSalt = Sizage_new 4 0 0 (Fixed 100) 0"
| "get_sizage ECDSA256r1N = Sizage_new 4 0 0 (Fixed 48) 0"
| "get_sizage ECDSA256r1 = Sizage_new 4 0 0 (Fixed 48) 0"
| "get_sizage Null = Sizage_new 4 0 0 (Fixed 4) 0"
| "get_sizage No = Sizage_new 4 0 0 (Fixed 4) 0"
| "get_sizage Yes = Sizage_new 4 0 0 (Fixed 4) 0"
| "get_sizage Tag8 = Sizage_new 4 8 0 (Fixed 12) 0"
| "get_sizage Escape = Sizage_new 4 0 0 (Fixed 4) 0"
| "get_sizage Empty = Sizage_new 4 0 0 (Fixed 4) 0"
| "get_sizage TBD0S = Sizage_new 4 2 0 (Fixed 12) 0"
| "get_sizage TBD0 = Sizage_new 4 0 0 (Fixed 8) 0"
| "get_sizage TBD1S = Sizage_new 4 2 1 (Fixed 12) 1"
| "get_sizage TBD1 = Sizage_new 4 0 0 (Fixed 8) 1"
| "get_sizage TBD2S = Sizage_new 4 2 0 (Fixed 12) 2"
| "get_sizage TBD2 = Sizage_new 4 0 0 (Fixed 8) 2"
| "get_sizage StrB64_L0 = Sizage_new 2 2 0 SizeType.Small 0"
| "get_sizage StrB64_L1 = Sizage_new 2 2 0 SizeType.Small 1"
| "get_sizage StrB64_L2 = Sizage_new 2 2 0 SizeType.Small 2"
| "get_sizage StrB64Big_L0 = Sizage_new 4 4 0 SizeType.Large 0"
| "get_sizage StrB64Big_L1 = Sizage_new 4 4 0 SizeType.Large 1"
| "get_sizage StrB64Big_L2 = Sizage_new 4 4 0 SizeType.Large 2"
| "get_sizage Bytes_L0 = Sizage_new 2 2 0 SizeType.Small 0"
| "get_sizage Bytes_L1 = Sizage_new 2 2 0 SizeType.Small 1"
| "get_sizage Bytes_L2 = Sizage_new 2 2 0 SizeType.Small 2"
| "get_sizage BytesBig_L0 = Sizage_new 4 4 0 SizeType.Large 0"
| "get_sizage BytesBig_L1 = Sizage_new 4 4 0 SizeType.Large 1"
| "get_sizage BytesBig_L2 = Sizage_new 4 4 0 SizeType.Large 2"
| "get_sizage X25519Cipher_L0 = Sizage_new 2 2 0 SizeType.Small 0"
| "get_sizage X25519Cipher_L1 = Sizage_new 2 2 0 SizeType.Small 1"
| "get_sizage X25519Cipher_L2 = Sizage_new 2 2 0 SizeType.Small 2"
| "get_sizage X25519CipherBig_L0 = Sizage_new 4 4 0 SizeType.Large 0"
| "get_sizage X25519CipherBig_L1 = Sizage_new 4 4 0 SizeType.Large 1"
| "get_sizage X25519CipherBig_L2 = Sizage_new 4 4 0 SizeType.Large 2"
| "get_sizage X25519CipherQB64_L0 = Sizage_new 2 2 0 SizeType.Small 0"
| "get_sizage X25519CipherQB64_L1 = Sizage_new 2 2 0 SizeType.Small 1"
| "get_sizage X25519CipherQB64_L2 = Sizage_new 2 2 0 SizeType.Small 2"
| "get_sizage X25519CipherQB64Big_L0 = Sizage_new 4 4 0 SizeType.Large 0"
| "get_sizage X25519CipherQB64Big_L1 = Sizage_new 4 4 0 SizeType.Large 1"
| "get_sizage X25519CipherQB64Big_L2 = Sizage_new 4 4 0 SizeType.Large 2"
| "get_sizage X25519CipherQB2_L0 = Sizage_new 2 2 0 SizeType.Small 0"
| "get_sizage X25519CipherQB2_L1 = Sizage_new 2 2 0 SizeType.Small 1"
| "get_sizage X25519CipherQB2_L2 = Sizage_new 2 2 0 SizeType.Small 2"
| "get_sizage X25519CipherQB2Big_L0 = Sizage_new 4 4 0 SizeType.Large 0"
| "get_sizage X25519CipherQB2Big_L1 = Sizage_new 4 4 0 SizeType.Large 1"
| "get_sizage X25519CipherQB2Big_L2 = Sizage_new 4 4 0 SizeType.Large 2"
| "get_sizage HPKEBaseCipher_L0 = Sizage_new 2 2 0 SizeType.Small 0"
| "get_sizage HPKEBaseCipher_L1 = Sizage_new 2 2 0 SizeType.Small 1"
| "get_sizage HPKEBaseCipher_L2 = Sizage_new 2 2 0 SizeType.Small 2"
| "get_sizage HPKEBaseCipherBig_L0 = Sizage_new 4 4 0 SizeType.Large 0"
| "get_sizage HPKEBaseCipherBig_L1 = Sizage_new 4 4 0 SizeType.Large 1"
| "get_sizage HPKEBaseCipherBig_L2 = Sizage_new 4 4 0 SizeType.Large 2"
| "get_sizage Decimal_L0 = Sizage_new 2 2 0 SizeType.Small 0"
| "get_sizage Decimal_L1 = Sizage_new 2 2 0 SizeType.Small 1"
| "get_sizage Decimal_L2 = Sizage_new 2 2 0 SizeType.Small 2"
| "get_sizage DecimalBig_L0 = Sizage_new 4 4 0 SizeType.Large 0"
| "get_sizage DecimalBig_L1 = Sizage_new 4 4 0 SizeType.Large 1"
| "get_sizage DecimalBig_L2 = Sizage_new 4 4 0 SizeType.Large 2"

section \<open>Codex predicates\<close>

definition is_base64_text_code :: "MatterCode \<Rightarrow> bool" where
  "is_base64_text_code c \<longleftrightarrow> c \<in> set [
     StrB64_L0, StrB64_L1, StrB64_L2, StrB64Big_L0, StrB64Big_L1, StrB64Big_L2]"

definition is_text_code :: "MatterCode \<Rightarrow> bool" where
  "is_text_code c \<longleftrightarrow> c \<in> set [
     Bytes_L0, Bytes_L1, Bytes_L2, BytesBig_L0, BytesBig_L1, BytesBig_L2]"

definition is_base_64_decimal :: "MatterCode \<Rightarrow> bool" where
  "is_base_64_decimal c \<longleftrightarrow> c \<in> set [
     Decimal_L0, Decimal_L1, Decimal_L2, DecimalBig_L0, DecimalBig_L1, DecimalBig_L2]"

definition is_digest :: "MatterCode \<Rightarrow> bool" where
  "is_digest c \<longleftrightarrow> c \<in> set [
     Blake3_256, Blake2b_256, Blake2s_256, SHA3_256, SHA2_256, Blake3_512, Blake2b_512,
     SHA3_512, SHA2_512]"

definition is_nonce :: "MatterCode \<Rightarrow> bool" where
  "is_nonce c \<longleftrightarrow> c \<in> set [
     Empty, Salt128, Salt256, Blake3_256, Blake2b_256, Blake2s_256, SHA3_256, SHA2_256,
     Blake3_512, Blake2b_512, SHA3_512, SHA2_512]"

definition is_base64_num :: "MatterCode \<Rightarrow> bool" where
  "is_base64_num c \<longleftrightarrow> c \<in> set [
     Short, Long, Tall, Big, Large, Great, Vast, Salt128]"

definition is_base64_tag :: "MatterCode \<Rightarrow> bool" where
  "is_base64_tag c \<longleftrightarrow> c \<in> set [
     Tag1, Tag2, Tag3, Tag4, Tag5, Tag6, Tag7, Tag8, Tag9, Tag10, Tag11]"

definition is_label :: "MatterCode \<Rightarrow> bool" where
  "is_label c \<longleftrightarrow> c \<in> set [
     Empty, Tag1, Tag2, Tag3, Tag4, Tag5, Tag6, Tag7, Tag8, Tag9, Tag10, Tag11, StrB64_L0,
     StrB64_L1, StrB64_L2, StrB64Big_L0, StrB64Big_L1, StrB64Big_L2, Label1, Label2, Bytes_L0,
     Bytes_L1, Bytes_L2, BytesBig_L0, BytesBig_L1, BytesBig_L2]"

definition is_prefix_derivation :: "MatterCode \<Rightarrow> bool" where
  "is_prefix_derivation c \<longleftrightarrow> c \<in> set [
     Ed25519N, Ed25519, Blake3_256, Blake2b_256, Blake2s_256, SHA3_256, SHA2_256, Blake3_512,
     Blake2b_512, SHA3_512, SHA2_512, ECDSA256k1N, ECDSA256k1, Ed448N, Ed448, Ed448Sig,
     ECDSA256r1N, ECDSA256r1]"

definition is_non_transferable :: "MatterCode \<Rightarrow> bool" where
  "is_non_transferable c \<longleftrightarrow> c \<in> set [
     Ed25519N, ECDSA256k1N, Ed448N, ECDSA256r1N]"

definition is_prefix_non_digestive :: "MatterCode \<Rightarrow> bool" where
  "is_prefix_non_digestive c \<longleftrightarrow> c \<in> set [
     Ed25519N, Ed25519, ECDSA256k1N, ECDSA256k1, Ed448N, Ed448, ECDSA256r1N, ECDSA256r1]"

end
