(* ===== verification/Cesr_Code_Stream.thy ===== *)
theory Cesr_Code_Stream
  imports Cesr_Matter_Code
begin

text \<open>
  What is done with the code table: recognition of a code at the head of a
  text or a binary stream (\<^verbatim>\<open>matter_code.rs\<close>, \<^verbatim>\<open>hard.rs\<close>), raw
  sizes, and promotion of a variable-size code to a size and a lead.
\<close>

section \<open>Recognition at the head of a stream\<close>

definition get_hard_size_from_byte :: "byte \<Rightarrow> nat option" where
  "get_hard_size_from_byte b =
     (if (65 \<le> b \<and> b \<le> 90) \<or> (97 \<le> b \<and> b \<le> 122) then Some 1
      else if b \<in> set (str_bytes ''0456'') then Some 2
      else if b \<in> set (str_bytes ''123789'') then Some 4
      else None)"

definition get_hard_size_from_sextet :: "byte \<Rightarrow> nat option" where
  "get_hard_size_from_sextet b =
     (if b \<le> 51 then Some 1
      else if b \<in> {52, 56, 57, 58} then Some 2
      else if b \<in> {53, 54, 55, 59, 60, 61} then Some 4
      else None)"

definition from_base64_stream :: "bytes \<Rightarrow> ParsingError + MatterCode" where
  "from_base64_stream stream =
     res_bind (ok_or EmptyStream (slice_get stream 0)) (\<lambda>b.
     res_bind (ok_or (MalformedCode Head (nat_to_string (unat b))) (get_hard_size_from_byte b)) (\<lambda>hs.
     res_bind (ensure (hs \<le> length stream) (StreamTooShort Head)) (\<lambda>_.
     let code_str = take hs stream in
     res_bind (ensure (from_utf8_ok code_str) InvalidUtf8) (\<lambda>_.
     ok_or (UnknownMatterCode code_str) (MatterCode_from_str code_str)))))"

definition from_stream :: "bytes \<Rightarrow> ParsingError + MatterCode" where
  "from_stream stream =
     res_bind (ok_or EmptyStream (slice_get stream 0)) (\<lambda>b0.
     let b = drop_bit 2 b0 in
     res_bind (ok_or (MalformedCode Head (nat_to_string (unat b))) (get_hard_size_from_sextet b)) (\<lambda>hard_size.
     res_bind (ensure (hard_size \<noteq> 0) EmptyStream) (\<lambda>_.
     let bhs = (hard_size * 3 + 3) div 4 in
     res_bind (ensure (bhs \<le> length stream) (StreamTooShort Head)) (\<lambda>_.
     res_bind (map_err Conversion (encode_binary stream hard_size)) (\<lambda>code_str.
     ok_or (UnknownMatterCode code_str) (MatterCode_from_str code_str))))))"

section \<open>Raw size, special codes and promotion\<close>

definition MatterCode_raw_size :: "MatterCode \<Rightarrow> ValidationError + nat" where
  "MatterCode_raw_size c =
     (let sz = get_sizage c in
      case sz_fs sz of
        Fixed v \<Rightarrow> Inr ((v - (sz_hs sz + sz_ss sz)) * 3 div 4 - sz_ls sz)
      | _ \<Rightarrow> Inl (InvalidSizingOperation (MatterCode_to_string c)))"

definition is_special :: "MatterCode \<Rightarrow> bool" where
  "is_special c \<longleftrightarrow> (case sz_fs (get_sizage c) of Fixed _ \<Rightarrow> True | _ \<Rightarrow> False) \<and> sz_ss (get_sizage c) > 0"

definition SMALL_VAR_SIZES :: "string" where
  "SMALL_VAR_SIZES = ''456''"

definition LARGE_VAR_SIZES :: "string" where
  "LARGE_VAR_SIZES = ''789''"

definition promote_same_size :: "MatterCode \<Rightarrow> string \<Rightarrow> nat \<Rightarrow> nat \<Rightarrow> ValidationError + MatterCode" where
  "promote_same_size matter_code code_map lead hs =
     res_bind (ok_or (InvalidPromotionTarget (MatterCode_to_string matter_code) lead)
        (slice_get code_map lead)) (\<lambda>s.
     let code_str = MatterCode_to_string matter_code;
         code = of_char s # take (hs - 1) (drop 1 code_str)
     in ok_or (InvalidPromotionResult code_str code) (MatterCode_from_str code))"

definition promote_small_to_large :: "MatterCode \<Rightarrow> string \<Rightarrow> nat \<Rightarrow> nat \<Rightarrow> ValidationError + MatterCode" where
  "promote_small_to_large matter_code code_map lead hs =
     res_bind (ok_or (InvalidPromotionTarget (MatterCode_to_string matter_code) lead)
        (slice_get code_map lead)) (\<lambda>s.
     let code_str = MatterCode_to_string matter_code;
         code = of_char s # take (hs - 2) (str_bytes ''AAAA'') @ take 1 (drop 1 code_str)
     in ok_or (InvalidPromotionResult code_str code) (MatterCode_from_str code))"

definition promote :: "MatterCode \<Rightarrow> nat \<Rightarrow> nat \<Rightarrow> ValidationError + MatterCode" where
  "promote c sz lead =
     (if sz_fs (get_sizage c) = SizeType.Small \<and> sz < 64 ^ 2 then promote_same_size c SMALL_VAR_SIZES lead 2
      else if sz_fs (get_sizage c) = SizeType.Small \<and> sz < 64 ^ 4 then promote_small_to_large c LARGE_VAR_SIZES lead 4
      else if sz_fs (get_sizage c) = SizeType.Large \<and> sz < 64 ^ 4 - 1 then promote_same_size c LARGE_VAR_SIZES lead 4
      else Inl (IncompatiblePromotion (MatterCode_to_string c)))"

section \<open>Table lemmas\<close>

lemma MatterCode_variants_all: "c \<in> set MatterCode_variants"
  by (cases c) (simp_all add: MatterCode_variants_def)

definition code_strings :: "string list" where
  "code_strings = map MatterCode_as_ref MatterCode_variants"

lemma code_strings_distinct: "distinct code_strings"
  unfolding code_strings_def MatterCode_variants_def list.map MatterCode_as_ref.simps by code_simp

lemma of_char_inj: "of_char c = (of_char d :: byte) \<longleftrightarrow> c = d"
proof
  assume "of_char c = (of_char d :: byte)"
  moreover have "unat (of_char x :: byte) = of_char x" for x
    using unat_of_nat[of "of_char x", where 'a = 8] by (simp add: of_nat_of_char)
  ultimately have "(of_char c :: nat) = of_char d" by metis
  then show "c = d" by simp
qed simp

lemma str_bytes_inj: "str_bytes s = str_bytes t \<longleftrightarrow> s = t"
  by (auto simp: str_bytes_def inj_map_eq_map inj_def of_char_inj)

lemma MatterCode_as_ref_inj: "MatterCode_as_ref c = MatterCode_as_ref d \<longleftrightarrow> c = d"
  using code_strings_distinct MatterCode_variants_all
  by (auto simp: code_strings_def distinct_map inj_on_def)

lemma find_unique: "y \<in> set zs \<Longrightarrow> (\<And>z. P z \<longleftrightarrow> z = y) \<Longrightarrow> find P zs = Some y"
  by (induction zs) auto

lemma MatterCode_to_string_inj [simp]: "MatterCode_to_string c = MatterCode_to_string d \<longleftrightarrow> c = d"
  by (simp add: MatterCode_to_string_def str_bytes_inj MatterCode_as_ref_inj)

lemma MatterCode_from_str_iff: "MatterCode_from_str s = Some c \<longleftrightarrow> s = MatterCode_to_string c"
proof
  assume "MatterCode_from_str s = Some c"
  then show "s = MatterCode_to_string c" by (auto simp: MatterCode_from_str_def find_Some_iff)
next
  assume "s = MatterCode_to_string c"
  then show "MatterCode_from_str s = Some c"
    unfolding MatterCode_from_str_def by (intro find_unique MatterCode_variants_all) simp
qed

text \<open>What the parsers rely on, for every row of the table.\<close>

definition sizage_ok :: "MatterCode \<Rightarrow> bool" where
  "sizage_ok c \<longleftrightarrow> (let sz = get_sizage c; cs = sz_hs sz + sz_ss sz; ps = cs mod 4 in
     sz_xs sz \<le> sz_ss sz \<and> sz_ls sz \<le> 2 \<and> ps \<le> 2 \<and>
     (case sz_fs sz of
        Fixed v \<Rightarrow> cs \<le> v \<and> v mod 4 = 0 \<and>
          (\<exists>raw. MatterCode_raw_size c = Inr raw \<and> (sz_ls sz + ps + raw) mod 3 = 0 \<and>
             (sz_ls sz + ps + raw) div 3 * 4 + (cs - ps) = v)
      | SizeType.Small \<Rightarrow> sz_ss sz = 2 \<and> sz_xs sz = 0 \<and> ps = 0
      | SizeType.Large \<Rightarrow> sz_ss sz = 4 \<and> sz_xs sz = 0 \<and> ps = 0))"

lemma sizage_ok: "sizage_ok c"
  by (cases c) (simp_all add: sizage_ok_def Sizage_new_def MatterCode_raw_size_def Let_def)

lemma as_ref_hard:
  "length (MatterCode_as_ref c) = sz_hs (get_sizage c) \<and>
   get_hard_size_from_byte (hd (MatterCode_to_string c)) = Some (sz_hs (get_sizage c)) \<and>
   list_all (\<lambda>x. x \<in> set ''ABCDEFGHIJKLMNOPQRSTUVWXYZabcdefghijklmnopqrstuvwxyz0123456789-_'') (MatterCode_as_ref c)"
  by (cases c)
     (simp_all add: Sizage_new_def MatterCode_to_string_def str_bytes_def get_hard_size_from_byte_def)

lemma alphabet_ascii: "list_all (\<lambda>b. b < 0x80) B64_ALPHABET"
  unfolding B64_ALPHABET_eval by simp

lemma alphabet_ok: "b \<in> set B64_ALPHABET \<Longrightarrow> is_ok (b64_byte_to_index b)"
  by (auto simp: in_set_conv_nth charset_index)

lemma code_charset:
  "is_b64_url_safe_charset (MatterCode_to_string c)" "from_utf8_ok (MatterCode_to_string c)"
proof -
  have *: "is_ok (b64_byte_to_index b) \<and> b < 0x80" if "b \<in> set (MatterCode_to_string c)" for b
  proof -
    have "b \<in> set B64_ALPHABET"
      using that as_ref_hard[of c]
      unfolding MatterCode_to_string_def str_bytes_def B64_ALPHABET_def list_all_iff set_map by blast
    then show ?thesis using alphabet_ascii alphabet_ok by (auto simp: list_all_iff)
  qed
  then show "is_b64_url_safe_charset (MatterCode_to_string c)" by (auto simp: charset_iff)
  from * show "from_utf8_ok (MatterCode_to_string c)" by (intro from_utf8_ok_ascii) auto
qed

lemma length_to_string: "length (MatterCode_to_string c) = sz_hs (get_sizage c)"
  using as_ref_hard[of c] by (simp add: MatterCode_to_string_def str_bytes_def)

lemma hard_size_pos: "get_hard_size_from_byte b = Some n \<Longrightarrow> 0 < n"
  by (auto simp: get_hard_size_from_byte_def split: if_splits)

lemma hs_pos: "0 < sz_hs (get_sizage c)"
  using as_ref_hard[of c] hard_size_pos by blast

text \<open>The code at the head of a text stream is recognised exactly when its string is a prefix.\<close>

lemma from_base64_stream_iff:
  "from_base64_stream stream = Inr c \<longleftrightarrow> (\<exists>rest. stream = MatterCode_to_string c @ rest)"
proof
  assume *: "from_base64_stream stream = Inr c"
  then obtain n where "n \<le> length stream" "MatterCode_from_str (take n stream) = Some c"
    by (auto simp: from_base64_stream_def Let_def)
  then have "stream = MatterCode_to_string c @ drop n stream"
    using append_take_drop_id[of n stream] by (simp add: MatterCode_from_str_iff)
  then show "\<exists>rest. stream = MatterCode_to_string c @ rest" by blast
next
  assume "\<exists>rest. stream = MatterCode_to_string c @ rest"
  then obtain rest where s: "stream = MatterCode_to_string c @ rest" by blast
  let ?n = "sz_hs (get_sizage c)"
  have "MatterCode_to_string c \<noteq> []" using length_to_string[of c] hs_pos[of c] by auto
  then have "slice_get stream 0 = Some (hd (MatterCode_to_string c))"
    using s by (cases "MatterCode_to_string c") (auto simp: slice_get_def)
  moreover have "take ?n stream = MatterCode_to_string c"
    using s length_to_string[of c] by simp
  ultimately show "from_base64_stream stream = Inr c"
    using as_ref_hard[of c] s length_to_string[of c] code_charset[of c]
    by (simp add: from_base64_stream_def Let_def MatterCode_from_str_iff)
qed

end
