(* ===== verification/Cesr_Matter.thy ===== *)
theory Cesr_Matter
  imports Cesr_Code_Stream
begin

unbundle bit_operations_syntax

text \<open>
  CESR primitives, \<^verbatim>\<open>core/matter/matter.rs\<close> and
  \<^verbatim>\<open>core/matter/builder.rs\<close>: a code, a raw value and a soft part; the
  writer \<^verbatim>\<open>append_qb64\<close>, the two parsers \<^verbatim>\<open>from_qualified_base64\<close> and
  \<^verbatim>\<open>from_qualified_base2\<close>, the validating builders and the frame size.
  The base64 crate is the pair of parameters \<^verbatim>\<open>enc\<close> and \<^verbatim>\<open>dec\<close>.
\<close>

record 'c Matter =
  m_code :: 'c
  m_raw :: bytes
  m_soft :: bytes

definition Matter_new :: "'c \<Rightarrow> bytes \<Rightarrow> bytes \<Rightarrow> 'c Matter" where
  "Matter_new c r s = \<lparr>m_code = c, m_raw = r, m_soft = s\<rparr>"

section \<open>Writing\<close>

text \<open>A slice assignment \<^verbatim>\<open>out[i..i + ys.len()].copy_from_slice(ys)\<close>.\<close>

definition overwrite :: "nat \<Rightarrow> 'a list \<Rightarrow> 'a list \<Rightarrow> 'a list" where
  "overwrite i ys zs = take i zs @ ys @ drop (i + length ys) zs"

definition full_size :: "MatterCode \<Rightarrow> nat \<Rightarrow> nat" where
  "full_size c raw_len =
     (let sz = get_sizage c; cs = sz_hs sz + sz_ss sz in
      case sz_fs sz of
        Fixed fixed \<Rightarrow> fixed
      | _ \<Rightarrow> (let raw_with_lead = raw_len + sz_ls sz; quadlets = (raw_with_lead + 2) div 3
             in quadlets * 4 + cs))"

text \<open>
  \<^verbatim>\<open>append_qb64\<close> into a buffer. None is a panic: the writer's length
  assertion, or a soft part that does not fill its slice. The typed code
  \<^verbatim>\<open>c\<close> is read through its matter code.
\<close>

definition append_qb64 :: "(bytes \<Rightarrow> bytes) \<Rightarrow> ('c \<Rightarrow> MatterCode) \<Rightarrow> 'c Matter \<Rightarrow> bytes \<Rightarrow> bytes option" where
  "append_qb64 enc to_matter_code m out =
     (let c = to_matter_code (m_code m); sz = get_sizage c;
          hs = sz_hs sz; ss = sz_ss sz; xs = sz_xs sz; ls = sz_ls sz;
          cs = hs + ss; ps = cs mod 4;
          code_str = MatterCode_to_string c; raw = m_raw m;
          fs = full_size c (length raw);
          b64_start = cs - ps;
          written = zero_lead_encode enc raw (ls + ps)
      in if b64_start + length written \<noteq> fs then None
         else let frame = overwrite b64_start written (replicate fs 0);
                  frame = overwrite 0 code_str frame
              in if ss > 0 then
                   (if length (m_soft m) \<noteq> ss - xs then None
                    else let frame = overwrite hs (replicate xs (of_char CHR ''_'')) frame
                         in Some (out @ overwrite (hs + xs) (m_soft m) frame))
                 else Some (out @ frame))"

definition to_qb64b :: "(bytes \<Rightarrow> bytes) \<Rightarrow> ('c \<Rightarrow> MatterCode) \<Rightarrow> 'c Matter \<Rightarrow> bytes option" where
  "to_qb64b enc to_matter_code m = append_qb64 enc to_matter_code m []"

section \<open>Sizes computed from the input\<close>

definition compute_full_size :: "u64 \<Rightarrow> nat \<Rightarrow> ValidationError + nat" where
  "compute_full_size size' cs =
     (if unat size' * 4 < usize_bound \<and> unat size' * 4 + cs < usize_bound
      then Inr (unat size' * 4 + cs) else Inl SizeOverflow)"

definition compute_qb2_byte_size :: "nat \<Rightarrow> ValidationError + nat" where
  "compute_qb2_byte_size fs' =
     (if fs' * 3 < usize_bound then Inr ((fs' * 3 + 3) div 4) else Inl SizeOverflow)"

definition frame_size_of :: "MatterCode \<Rightarrow> bytes \<Rightarrow> MatterBuildError + nat" where
  "frame_size_of c stream =
     (let sz = get_sizage c in
      case sz_fs sz of
        Fixed fixed \<Rightarrow> Inr fixed
      | _ \<Rightarrow>
        (let hs = sz_hs sz; cs = hs + sz_ss sz; xs = sz_xs sz in
         res_bind (ensure (cs \<le> length stream) (Parsing (StreamTooShort Soft))) (\<lambda>_.
         let soft_tail = take (cs - (hs + xs)) (drop (hs + xs) stream) in
         res_bind (ensure (from_utf8_ok soft_tail) (Parsing InvalidUtf8)) (\<lambda>_.
         res_bind (map_err (\<lambda>e. Parsing (Conversion e)) (decode_int soft_tail)) (\<lambda>size'.
         map_err Validation (compute_full_size size' cs))))))"

definition frame_size :: "bytes \<Rightarrow> MatterBuildError + nat" where
  "frame_size stream =
     res_bind (map_err Parsing (from_base64_stream stream)) (\<lambda>c. frame_size_of c stream)"

section \<open>Parsing text\<close>

definition PAD :: byte where
  "PAD = of_char CHR ''_''"

text \<open>The mid-pad bits: the low \<^verbatim>\<open>2 * ps\<close> bits of the first \<^verbatim>\<open>ps\<close> decoded bytes.\<close>

definition pad_bits :: "nat \<Rightarrow> bytes \<Rightarrow> u32" where
  "pad_bits ps buf =
     (let pbs = 2 * ps; mask = push_bit pbs 1 - 1;
          pi = fold (\<lambda>b pi. push_bit 8 pi OR ucast b) (take ps buf) 0
      in pi AND mask)"

definition strip_pad :: "nat \<Rightarrow> nat \<Rightarrow> bytes \<Rightarrow> MatterBuildError + bytes" where
  "strip_pad ps ls buf =
     (if ps \<noteq> 0 then
        res_bind (ensure (pad_bits ps buf = 0) (Validation (NonCanonicalEncoding PadBits))) (\<lambda>_.
        res_bind (ok_or (Validation StructuralIntegrityError) (slice_range buf ps (ps + ls))) (\<lambda>lead_bytes.
        res_bind (ensure (\<not> (ls > 0 \<and> list_ex (\<lambda>b. b \<noteq> 0) lead_bytes))
                   (Validation (NonCanonicalEncoding LeadBytes))) (\<lambda>_.
        Inr (drop (ps + ls) buf))))
      else if ls > 0 then
        res_bind (ok_or (Validation StructuralIntegrityError) (slice_range buf 0 ls)) (\<lambda>lead_bytes.
        res_bind (ensure (\<not> list_ex (\<lambda>b. b \<noteq> 0) lead_bytes)
                   (Validation (NonCanonicalEncoding LeadBytes))) (\<lambda>_.
        Inr (drop ls buf)))
      else Inr buf)"

definition from_qualified_base64 ::
    "(bytes \<Rightarrow> bytes option) \<Rightarrow> bytes \<Rightarrow> MatterBuildError + MatterCode Matter" where
  "from_qualified_base64 dec stream =
     (if stream = [] then Inl (Parsing EmptyStream) else
      res_bind (map_err Parsing (from_base64_stream stream)) (\<lambda>c.
      let sz = get_sizage c; hs = sz_hs sz; ss = sz_ss sz; cs = hs + ss in
      res_bind (ensure (cs \<le> length stream) (Parsing (StreamTooShort Soft))) (\<lambda>_.
      let soft_full = take (cs - hs) (drop hs stream);
          xs = sz_xs sz; xtra = take xs soft_full; soft_tail = drop xs soft_full in
      res_bind (ensure (list_all (\<lambda>b. b = PAD) xtra) (Parsing (MalformedCode Xtra (replicate xs PAD)))) (\<lambda>_.
      res_bind (ensure (from_utf8_ok soft_tail) (Parsing InvalidUtf8)) (\<lambda>_.
      res_bind (case sz_fs sz of
          Fixed fixed \<Rightarrow> Inr fixed
        | _ \<Rightarrow> res_bind (map_err (\<lambda>e. Parsing (Conversion e)) (decode_int soft_tail)) (\<lambda>size'.
               map_err Validation (compute_full_size size' cs))) (\<lambda>fs.
      res_bind (ensure (fs \<le> length stream)
          (Validation (IncorrectRawSize (MatterCode_to_string c) fs (length stream)))) (\<lambda>_.
      let trim = take fs stream; ps = cs mod 4; paw = drop cs trim;
          temp = replicate ps (of_char CHR ''A'') @ paw in
      res_bind (ok_or (Parsing Base64) (dec temp)) (\<lambda>buf.
      res_bind (strip_pad ps (sz_ls sz) buf) (\<lambda>raw.
      let soft_start = hs + xs; soft = take (cs - soft_start) (drop soft_start stream) in
      res_bind (ensure (from_utf8_ok soft) (Parsing InvalidUtf8)) (\<lambda>_.
      Inr (Matter_new c raw soft)))))))))))"

section \<open>Parsing binary\<close>

definition from_qualified_base2 :: "bytes \<Rightarrow> MatterBuildError + MatterCode Matter" where
  "from_qualified_base2 stream =
     (if stream = [] then Inl (Parsing EmptyStream) else
      res_bind (map_err Parsing (from_stream stream)) (\<lambda>c.
      let sz = get_sizage c; hs = sz_hs sz; ss = sz_ss sz; cs = hs + ss; bcs = (cs * 3 + 3) div 4 in
      res_bind (ensure (bcs \<le> length stream) (Parsing (StreamTooShort Soft))) (\<lambda>_.
      res_bind (ensure (cs \<noteq> 0) (Parsing EmptyStream)) (\<lambda>_.
      res_bind (map_err (\<lambda>e. Parsing (Conversion e)) (encode_binary (take bcs stream) cs)) (\<lambda>both.
      let soft_full = take (cs - hs) (drop hs both);
          xs = sz_xs sz; xtra = take xs soft_full; soft_tail = drop xs soft_full in
      res_bind (ensure (xtra = replicate xs PAD) (Parsing (MalformedCode Xtra (replicate xs PAD)))) (\<lambda>_.
      res_bind (case sz_fs sz of
          Fixed fixed \<Rightarrow> Inr fixed
        | _ \<Rightarrow> res_bind (map_err (\<lambda>e. Parsing (Conversion e)) (decode_int soft_tail)) (\<lambda>size'.
               map_err Validation (compute_full_size size' cs))) (\<lambda>fs.
      res_bind (map_err Validation (compute_qb2_byte_size fs)) (\<lambda>bfs.
      res_bind (ensure (bfs \<le> length stream)
          (Validation (IncorrectRawSize (MatterCode_to_string c) bfs (length stream)))) (\<lambda>_.
      let trimmed = take bfs stream; ls = sz_ls sz; lead_end = bcs + ls in
      res_bind (ensure (lead_end < usize_bound) (Validation StructuralIntegrityError)) (\<lambda>_.
      res_bind (ensure (lead_end \<le> length trimmed)
          (Validation (IncorrectRawSize (MatterCode_to_string c) lead_end (length trimmed)))) (\<lambda>_.
      let ps = cs mod 4 in
      res_bind (ensure (ps \<noteq> 0 \<longrightarrow> trimmed ! (bcs - 1) AND (push_bit (2 * ps) 1 - 1) = 0)
          (Validation (NonCanonicalEncoding PadBits))) (\<lambda>_.
      let li = take (lead_end - bcs) (drop bcs trimmed) in
      res_bind (ensure (\<not> (ls > 0 \<and> list_ex (\<lambda>b. b \<noteq> 0) li))
          (Validation (NonCanonicalEncoding LeadBytes))) (\<lambda>_.
      let raw = drop lead_end trimmed in
      res_bind (ensure (length raw = length trimmed - lead_end) (Validation StructuralIntegrityError)) (\<lambda>_.
      Inr (Matter_new c raw soft_tail)))))))))))))))"

section \<open>Builders\<close>

text \<open>
  The type states of the builder are the four records of its setters; a
  typed code is read through its matter code \<^verbatim>\<open>mc\<close>.
\<close>

definition extract_soft :: "MatterCode \<Rightarrow> nat \<Rightarrow> nat \<Rightarrow> bytes \<Rightarrow> ValidationError + bytes" where
  "extract_soft c ss xs soft =
     (let expected_len = ss - xs in
      res_bind (ensure (expected_len \<le> length soft)
        (IncorrectSoftLength (MatterCode_to_string c) expected_len (length soft))) (\<lambda>_.
      let final_soft = take expected_len soft in
      res_bind (ensure (is_b64_url_safe_charset final_soft) (InvalidSoftFormat (MatterCode_to_string c))) (\<lambda>_.
      Inr final_soft)))"

definition validate_and_trim_raw :: "MatterCode \<Rightarrow> bytes \<Rightarrow> nat \<Rightarrow> ValidationError + bytes" where
  "validate_and_trim_raw c raw raw_size =
     (if length raw < raw_size then Inl (IncorrectRawSize (MatterCode_to_string c) raw_size (length raw))
      else if length raw = raw_size then Inr raw
      else Inr (take raw_size raw))"

definition with_raw :: "('c \<Rightarrow> MatterCode) \<Rightarrow> 'c \<Rightarrow> bytes \<Rightarrow> ParsingError + ('c \<times> bytes)" where
  "with_raw mc c raw =
     (if raw = [] \<and> MatterCode_raw_size (mc c) \<noteq> Inr 0 then Inl EmptyStream else Inr (c, raw))"

definition with_soft :: "'s \<Rightarrow> bytes \<Rightarrow> ParsingError + ('s \<times> bytes)" where
  "with_soft state soft = (if soft = [] then Inl EmptyStream else Inr (state, soft))"

definition build_raw :: "('c \<Rightarrow> MatterCode) \<Rightarrow> 'c \<times> bytes \<Rightarrow> MatterBuildError + 'c Matter" where
  "build_raw mc state =
     (let (c, raw_val) = state; sz = get_sizage (mc c) in
      case sz_fs sz of
        Fixed _ \<Rightarrow>
          (if sz_ss sz > 0 then Inl (Validation (MissingSoft (MatterCode_to_string (mc c))))
           else res_bind (map_err Validation (MatterCode_raw_size (mc c))) (\<lambda>raw_size.
                res_bind (map_err Validation (validate_and_trim_raw (mc c) raw_val raw_size)) (\<lambda>trimmed.
                Inr (Matter_new c trimmed []))))
      | _ \<Rightarrow> Inl (Validation (InvalidSizingOperation (MatterCode_to_string (mc c)))))"

definition build_raw_soft :: "('c \<Rightarrow> MatterCode) \<Rightarrow> ('c \<times> bytes) \<times> bytes \<Rightarrow> MatterBuildError + 'c Matter" where
  "build_raw_soft mc state =
     (let ((c, raw_val), soft) = state; sz = get_sizage (mc c) in
      case sz_fs sz of
        Fixed _ \<Rightarrow>
          (if sz_ss sz = 0 then
             res_bind (map_err Validation (MatterCode_raw_size (mc c))) (\<lambda>raw_size.
             res_bind (map_err Validation (validate_and_trim_raw (mc c) raw_val raw_size)) (\<lambda>trimmed.
             Inr (Matter_new c trimmed [])))
           else
             res_bind (map_err Validation (extract_soft (mc c) (sz_ss sz) (sz_xs sz) soft)) (\<lambda>final_soft.
             res_bind (map_err Validation (MatterCode_raw_size (mc c))) (\<lambda>raw_size.
             res_bind (map_err Validation (validate_and_trim_raw (mc c) raw_val raw_size)) (\<lambda>trimmed.
             Inr (Matter_new c trimmed final_soft)))))
      | _ \<Rightarrow> Inl (Validation (InvalidSizingOperation (MatterCode_to_string (mc c)))))"

definition build_soft :: "('c \<Rightarrow> MatterCode) \<Rightarrow> 'c \<times> bytes \<Rightarrow> ValidationError + 'c Matter" where
  "build_soft mc state =
     (let (c, soft) = state; sz = get_sizage (mc c) in
      case sz_fs sz of
        Fixed fixed_size \<Rightarrow>
          (if sz_ss sz > 0 \<and> fixed_size = sz_hs sz + sz_ss sz then
             res_bind (extract_soft (mc c) (sz_ss sz) (sz_xs sz) soft) (\<lambda>final_soft.
             Inr (Matter_new c [] final_soft))
           else Inl (InvalidSoftFormat (MatterCode_to_string (mc c))))
      | _ \<Rightarrow> Inl (UnknownCode (MatterCode_to_string (mc c))))"

lemma if_Inl: "(if b then Inl e else r) = Inr y \<longleftrightarrow> \<not> b \<and> r = Inr y"
  by simp

section \<open>The shape of a frame\<close>

lemma overwrite_append: "length pre = i \<Longrightarrow> overwrite i ys (pre @ zs) = pre @ ys @ drop (length ys) zs"
  by (simp add: overwrite_def)

text \<open>The length field of the frame, read off its soft part or the table.\<close>

definition size_field_ok :: "MatterCode \<Rightarrow> bytes \<Rightarrow> nat \<Rightarrow> bool" where
  "size_field_ok c soft body_len =
     (let sz = get_sizage c; cs = sz_hs sz + sz_ss sz in
      case sz_fs sz of
        Fixed v \<Rightarrow> v = cs + body_len
      | _ \<Rightarrow> is_b64_url_safe_charset soft \<and> body_len = 4 * b64_value soft)"

definition code_ps :: "MatterCode \<Rightarrow> nat" where
  "code_ps c = (sz_hs (get_sizage c) + sz_ss (get_sizage c)) mod 4"

lemma code_ps_le: "code_ps c \<le> 2"
  using sizage_ok[of c] by (simp add: sizage_ok_def code_ps_def Let_def)

lemma sizage_bounds:
  "sz_xs (get_sizage c) \<le> sz_ss (get_sizage c)" "sz_ls (get_sizage c) \<le> 2"
  "sz_hs (get_sizage c) + sz_ss (get_sizage c) < 256" "sz_ss (get_sizage c) \<le> 22"
proof -
  show "sz_xs (get_sizage c) \<le> sz_ss (get_sizage c)" "sz_ls (get_sizage c) \<le> 2"
    using sizage_ok[of c] by (simp_all add: sizage_ok_def Let_def)
  show "sz_hs (get_sizage c) + sz_ss (get_sizage c) < 256" "sz_ss (get_sizage c) \<le> 22"
    by (cases c; simp add: Sizage_new_def)+
qed

lemma from_base64_stream_code:
  "from_base64_stream stream = Inr c \<Longrightarrow>
     stream = MatterCode_to_string c @ drop (sz_hs (get_sizage c)) stream"
  using from_base64_stream_iff[of stream c] length_to_string[of c] by auto

lemma full_size_of_soft:
  assumes "length soft \<le> 4" "cs < 256"
  shows "res_bind (map_err f (decode_int soft)) (\<lambda>size'. map_err Validation (compute_full_size size' cs)) = Inr fs \<longleftrightarrow>
    is_b64_url_safe_charset soft \<and> fs = cs + 4 * b64_value soft"
proof -
  have "b64_value soft < 64 ^ length soft" using b64_value_bound[of 0 soft] by simp
  also have "(64 :: nat) ^ length soft \<le> 64 ^ 4" using assms(1) by (intro power_increasing) auto
  finally have v: "b64_value soft < 64 ^ 4" .
  show ?thesis
  proof
    assume "res_bind (map_err f (decode_int soft)) (\<lambda>size'. map_err Validation (compute_full_size size' cs)) = Inr fs"
    then obtain w where "decode_int soft = Inr w" "compute_full_size w cs = Inr fs" by auto
    then show "is_b64_url_safe_charset soft \<and> fs = cs + 4 * b64_value soft"
      by (auto simp: decode_int_Inr compute_full_size_def split: if_splits)
  next
    assume *: "is_b64_url_safe_charset soft \<and> fs = cs + 4 * b64_value soft"
    have u: "unat (word_of_nat (b64_value soft) :: u64) = b64_value soft"
      using v by (simp only: unat_of_nat) simp
    then have "decode_int soft = Inr (word_of_nat (b64_value soft) :: u64)"
      using * by (simp add: decode_int_Inr)
    moreover have "compute_full_size (word_of_nat (b64_value soft)) cs = Inr fs"
      using v u assms(2) * by (simp add: compute_full_size_def)
    ultimately show "res_bind (map_err f (decode_int soft)) (\<lambda>size'. map_err Validation (compute_full_size size' cs)) = Inr fs"
      by simp
  qed
qed

lemma variable_soft: "(\<forall>v. sz_fs (get_sizage c) \<noteq> Fixed v) \<Longrightarrow>
   sz_xs (get_sizage c) = 0 \<and> sz_ss (get_sizage c) \<le> 4 \<and> code_ps c = 0"
  using sizage_ok[of c] by (cases "sz_fs (get_sizage c)") (auto simp: sizage_ok_def Let_def code_ps_def)

lemma frame_len_iff:
  assumes "length soft = sz_ss (get_sizage c) - sz_xs (get_sizage c)"
  shows "(case sz_fs (get_sizage c) of
          Fixed fixed \<Rightarrow> Inr fixed
        | _ \<Rightarrow> res_bind (map_err f (decode_int soft)) (\<lambda>size'.
               map_err Validation (compute_full_size size' (sz_hs (get_sizage c) + sz_ss (get_sizage c))))) = Inr fs \<longleftrightarrow>
     sz_hs (get_sizage c) + sz_ss (get_sizage c) \<le> fs \<and>
     size_field_ok c soft (fs - (sz_hs (get_sizage c) + sz_ss (get_sizage c)))"
proof -
  let ?cs = "sz_hs (get_sizage c) + sz_ss (get_sizage c)"
  have fixed: "?cs \<le> v" if "sz_fs (get_sizage c) = Fixed v" for v
    using sizage_ok[of c] that by (simp add: sizage_ok_def Let_def)
  have var: "length soft \<le> 4" if "\<forall>v. sz_fs (get_sizage c) \<noteq> Fixed v"
    using variable_soft[OF that] assms by simp
  show ?thesis
  proof (cases "sz_fs (get_sizage c)")
    case (Fixed v)
    then show ?thesis using fixed by (auto simp: size_field_ok_def Let_def)
  next
    case Small
    then have "length soft \<le> 4" using var by simp
    then show ?thesis
      using Small full_size_of_soft[OF _ sizage_bounds(3)[of c]] by (auto simp: size_field_ok_def Let_def)
  next
    case Large
    then have "length soft \<le> 4" using var by simp
    then show ?thesis
      using Large full_size_of_soft[OF _ sizage_bounds(3)[of c]] by (auto simp: size_field_ok_def Let_def)
  qed
qed

definition frame_bytes :: "MatterCode \<Rightarrow> bytes \<Rightarrow> bytes \<Rightarrow> bytes" where
  "frame_bytes c soft body = MatterCode_to_string c @ replicate (sz_xs (get_sizage c)) PAD @ soft @ body"

lemma list_all_replicate_iff: "list_all (\<lambda>b. b = x) zs \<longleftrightarrow> zs = replicate (length zs) x"
  by (induction zs) auto

text \<open>What the text parser accepts, as one equation between the input and the result.\<close>

lemma from_qualified_base64_iff:
  "from_qualified_base64 dec stream = Inr m \<longleftrightarrow>
     (\<exists>body rest buf. stream = frame_bytes (m_code m) (m_soft m) body @ rest \<and>
        length (m_soft m) = sz_ss (get_sizage (m_code m)) - sz_xs (get_sizage (m_code m)) \<and>
        from_utf8_ok (m_soft m) \<and> size_field_ok (m_code m) (m_soft m) (length body) \<and>
        dec (replicate (code_ps (m_code m)) 65 @ body) = Some buf \<and>
        strip_pad (code_ps (m_code m)) (sz_ls (get_sizage (m_code m))) buf = Inr (m_raw m))"
  (is "_ \<longleftrightarrow> (\<exists>body rest buf. ?ok body rest buf)")
proof
  assume parsed: "from_qualified_base64 dec stream = Inr m"
  obtain c fs buf raw where
    code: "from_base64_stream stream = Inr c" and
    cs0: "sz_hs (get_sizage c) + sz_ss (get_sizage c) \<le> length stream" and
    xtra0: "list_all (\<lambda>b. b = PAD) (take (sz_xs (get_sizage c))
        (take (sz_hs (get_sizage c) + sz_ss (get_sizage c) - sz_hs (get_sizage c)) (drop (sz_hs (get_sizage c)) stream)))" and
    utf0: "from_utf8_ok (drop (sz_xs (get_sizage c))
        (take (sz_hs (get_sizage c) + sz_ss (get_sizage c) - sz_hs (get_sizage c)) (drop (sz_hs (get_sizage c)) stream)))" and
    fs0: "(case sz_fs (get_sizage c) of
          Fixed fixed \<Rightarrow> Inr fixed
        | _ \<Rightarrow> res_bind (map_err (\<lambda>e. Parsing (Conversion e)) (decode_int (drop (sz_xs (get_sizage c))
            (take (sz_hs (get_sizage c) + sz_ss (get_sizage c) - sz_hs (get_sizage c)) (drop (sz_hs (get_sizage c)) stream)))))
               (\<lambda>size'. map_err Validation
                 (compute_full_size size' (sz_hs (get_sizage c) + sz_ss (get_sizage c))))) = Inr fs" and
    len: "fs \<le> length stream" and
    dec0: "dec (replicate ((sz_hs (get_sizage c) + sz_ss (get_sizage c)) mod 4) (of_char CHR ''A'') @
        drop (sz_hs (get_sizage c) + sz_ss (get_sizage c)) (take fs stream)) = Some buf" and
    strip0: "strip_pad ((sz_hs (get_sizage c) + sz_ss (get_sizage c)) mod 4) (sz_ls (get_sizage c)) buf = Inr raw" and
    m0: "m = Matter_new c raw (take (sz_hs (get_sizage c) + sz_ss (get_sizage c) - (sz_hs (get_sizage c) + sz_xs (get_sizage c)))
           (drop (sz_hs (get_sizage c) + sz_xs (get_sizage c)) stream))"
    using parsed
    unfolding from_qualified_base64_def Let_def if_Inl res_bind_Inr map_err_Inr ensure_Inr ok_or_Inr sum.inject
    by (elim exE conjE) (rule that, (assumption | rule sym, assumption)+)
  define hs where "hs = sz_hs (get_sizage c)"
  define ss where "ss = sz_ss (get_sizage c)"
  define xs where "xs = sz_xs (get_sizage c)"
  define soft where "soft = drop xs (take (hs + ss - hs) (drop hs stream))"
  note [simp] = hs_def[symmetric] ss_def[symmetric] xs_def[symmetric]
  have xs_le: "xs \<le> ss" using sizage_bounds(1)[of c] by simp
  have cs: "hs + ss \<le> length stream" using cs0 by simp
  have xtra: "list_all (\<lambda>b. b = PAD) (take xs (take (hs + ss - hs) (drop hs stream)))" using xtra0 by simp
  have utf: "from_utf8_ok soft" using utf0 by (simp add: soft_def)
  have dec: "dec (replicate ((hs + ss) mod 4) 65 @ drop (hs + ss) (take fs stream)) = Some buf"
    using dec0 by simp
  have strip: "strip_pad ((hs + ss) mod 4) (sz_ls (get_sizage c)) buf = Inr raw" using strip0 by simp
  have m: "m = Matter_new c raw (take (hs + ss - (hs + xs)) (drop (hs + xs) stream))" using m0 by simp
  have soft_eq: "take (hs + ss - (hs + xs)) (drop (hs + xs) stream) = soft"
    by (simp add: soft_def drop_take add.commute)
  have len_soft: "length soft = ss - xs" using cs by (simp add: soft_def)
  have pads: "take xs (take (hs + ss - hs) (drop hs stream)) = replicate xs PAD"
  proof -
    have "length (take xs (take (hs + ss - hs) (drop hs stream))) = xs" using cs xs_le by simp
    with list_all_replicate_iff[THEN iffD1, OF xtra] show ?thesis by metis
  qed
  have fs_ok: "hs + ss \<le> fs" "size_field_ok c soft (fs - (hs + ss))"
    using frame_len_iff[of soft c] fs0 len_soft
    unfolding hs_def[symmetric] ss_def[symmetric] xs_def[symmetric] soft_def[symmetric] by blast+
  define body where "body = drop (hs + ss) (take fs stream)"
  have "stream = take fs stream @ drop fs stream" by simp
  also have "take fs stream = take hs stream @ take xs (take (hs + ss - hs) (drop hs stream)) @ soft @ body"
  proof -
    have "take fs stream = take (hs + ss) stream @ body"
      using fs_ok(1) by (simp add: body_def) (metis append_take_drop_id min.absorb1 take_take)
    also have "take (hs + ss) stream = take hs stream @ take ss (drop hs stream)"
      by (simp add: take_add)
    also have "take ss (drop hs stream) = take xs (take ss (drop hs stream)) @ drop xs (take ss (drop hs stream))"
      by (rule append_take_drop_id[symmetric])
    finally show ?thesis by (simp add: soft_def)
  qed
  also have "take hs stream = MatterCode_to_string c"
    using from_base64_stream_code[OF code] length_to_string[of c] unfolding hs_def[symmetric]
    by (metis append_eq_conv_conj)
  finally have st: "stream = frame_bytes c soft body @ drop fs stream"
    by (simp only: pads frame_bytes_def xs_def[symmetric] append_assoc)
  have "length body = fs - (hs + ss)" using len fs_ok by (simp add: body_def)
  then have "?ok body (drop fs stream) buf"
    using st len_soft utf fs_ok dec strip m soft_eq
    by (simp add: Matter_new_def body_def code_ps_def)
  then show "\<exists>body rest buf. ?ok body rest buf" by blast
next
  assume "\<exists>body rest buf. ?ok body rest buf"
  then obtain body rest buf where ok: "?ok body rest buf" by blast
  define c where "c = m_code m"
  define soft where "soft = m_soft m"
  define hs where "hs = sz_hs (get_sizage c)"
  define ss where "ss = sz_ss (get_sizage c)"
  define xs where "xs = sz_xs (get_sizage c)"
  have st: "stream = MatterCode_to_string c @ replicate xs PAD @ soft @ body @ rest"
    using ok by (simp add: frame_bytes_def c_def soft_def xs_def)
  have lens: "length (MatterCode_to_string c) = hs" "length soft = ss - xs" "xs \<le> ss"
    using ok length_to_string[of c] sizage_bounds(1)[of c] by (simp_all add: c_def soft_def hs_def ss_def xs_def)
  have ne: "stream \<noteq> []" using lens(1) hs_pos[of c] st by (auto simp: hs_def)
  have code: "from_base64_stream stream = Inr c" using from_base64_stream_iff st by blast
  have dr: "drop hs stream = replicate xs PAD @ soft @ body @ rest" using st lens by simp
  have full: "take (hs + ss - hs) (drop hs stream) = replicate xs PAD @ soft" using dr lens by simp
  have fs: "(case sz_fs (get_sizage c) of
          Fixed fixed \<Rightarrow> Inr fixed
        | _ \<Rightarrow> res_bind (map_err (\<lambda>e. Parsing (Conversion e)) (decode_int soft)) (\<lambda>size'.
               map_err Validation (compute_full_size size' (sz_hs (get_sizage c) + sz_ss (get_sizage c)))))
      = Inr (hs + ss + length body)"
    using frame_len_iff[of soft c] ok lens by (simp add: hs_def ss_def xs_def c_def soft_def)
  have bd: "drop (hs + ss) (take (hs + ss + length body) stream) = body"
    using st lens by (simp add: drop_take)
  have sf: "take (hs + ss - (hs + xs)) (drop (hs + xs) stream) = soft" using st lens by simp
  have le: "hs + ss + length body \<le> length stream" "hs + ss \<le> length stream" using st lens by simp_all
  have tk: "take xs (replicate xs PAD @ soft) = replicate xs PAD" "drop xs (replicate xs PAD @ soft) = soft"
    by simp_all
  have ps: "(hs + ss) mod 4 = code_ps c" by (simp add: code_ps_def hs_def ss_def)
  have rest: "from_utf8_ok soft" "dec (replicate (code_ps c) 65 @ body) = Some buf"
    "strip_pad (code_ps c) (sz_ls (get_sizage c)) buf = Inr (m_raw m)"
    using ok by (simp_all add: c_def soft_def)
  have m: "Matter_new c (m_raw m) soft = m" by (simp add: Matter_new_def c_def soft_def)
  show "from_qualified_base64 dec stream = Inr m"
    unfolding from_qualified_base64_def if_not_P[OF ne] code map_err.simps res_bind.simps Let_def
      hs_def[symmetric] ss_def[symmetric] xs_def[symmetric] full tk fs[folded hs_def ss_def] sf bd ps
    using le rest m by (simp add: list_all_iff)
qed

text \<open>The pad check accepts exactly zero pad bits, then zero lead bytes.\<close>

lemma pad_bits_1: "unat (pad_bits 1 (b # buf)) = unat b mod 4"
proof -
  have "pad_bits 1 (b # buf) = take_bit 2 (ucast b)"
    by (simp add: pad_bits_def Let_def take_bit_eq_mask mask_eq_decr_exp push_bit_eq_mult)
  then show ?thesis by (simp add: unsigned_take_bit_eq unsigned_ucast_eq) (simp add: take_bit_eq_mod)
qed

lemma pad_bits_2: "unat (pad_bits 2 (a # b # buf)) = unat b mod 16"
proof -
  have "pad_bits 2 (a # b # buf) = take_bit 4 (push_bit 8 (ucast a) OR ucast b)"
    by (simp add: pad_bits_def Let_def take_bit_eq_mask mask_eq_decr_exp push_bit_eq_mult)
  also have "\<dots> = take_bit 4 (ucast b)"
    by (rule bit_word_eqI) (auto simp: bit_simps)
  finally show ?thesis by (simp add: unsigned_take_bit_eq unsigned_ucast_eq) (simp add: take_bit_eq_mod)
qed

lemma strip_pad_iff:
  "strip_pad ps ls buf = Inr raw \<longleftrightarrow>
     (ps \<noteq> 0 \<longrightarrow> pad_bits ps buf = 0) \<and> (\<exists>pre. length pre = ps \<and> buf = pre @ replicate ls 0 @ raw)"
proof -
  have z: "\<not> list_ex (\<lambda>b. b \<noteq> 0) zs \<longleftrightarrow> zs = replicate (length zs) 0" for zs :: bytes
    by (induction zs) auto
  have split: "ps + ls \<le> length buf \<and> take ls (drop ps buf) = replicate ls 0 \<and> raw = drop (ps + ls) buf \<longleftrightarrow>
      (\<exists>pre. length pre = ps \<and> buf = pre @ replicate ls 0 @ raw)"
  proof
    assume *: "ps + ls \<le> length buf \<and> take ls (drop ps buf) = replicate ls 0 \<and> raw = drop (ps + ls) buf"
    have "buf = take ps buf @ take ls (drop ps buf) @ drop (ps + ls) buf"
      by (metis add.commute append_take_drop_id drop_drop)
    then show "\<exists>pre. length pre = ps \<and> buf = pre @ replicate ls 0 @ raw"
      using * by (intro exI[of _ "take ps buf"]) simp
  qed auto
  show ?thesis
  proof (cases "ps = 0")
    case True
    then show ?thesis
      using split
      by (cases "ls = 0") (auto simp: strip_pad_def slice_range_Some z min_def split: if_splits)
  next
    case False
    then show ?thesis
      unfolding split[symmetric]
      by (cases "ls = 0") (auto simp: strip_pad_def slice_range_Some z min_def)
  qed
qed

section \<open>Round trips\<close>

text \<open>A primitive whose raw and soft parts fit its code, as the builders make them.\<close>

definition matter_ok :: "MatterCode Matter \<Rightarrow> bool" where
  "matter_ok m =
     (let c = m_code m; sz = get_sizage c in
      length (m_soft m) = sz_ss sz - sz_xs sz \<and> from_utf8_ok (m_soft m) \<and>
      (case sz_fs sz of
         Fixed v \<Rightarrow> MatterCode_raw_size c = Inr (length (m_raw m))
       | _ \<Rightarrow> (sz_ls sz + length (m_raw m)) mod 3 = 0 \<and> is_b64_url_safe_charset (m_soft m) \<and>
              b64_value (m_soft m) = (sz_ls sz + length (m_raw m)) div 3))"

text \<open>The characters of the raw value, without the lead characters the code replaces.\<close>

definition raw_chars :: "MatterCode \<Rightarrow> bytes \<Rightarrow> bytes" where
  "raw_chars c raw =
     drop (code_ps c) (qb2_chars (replicate (code_ps c) 0 @ replicate (sz_ls (get_sizage c)) 0 @ raw))"

lemma matter_ok_sizes:
  assumes "matter_ok m"
  defines "c \<equiv> m_code m" and "n \<equiv> length (m_raw m)"
  defines "sz \<equiv> get_sizage c"
  shows "(sz_ls sz + code_ps c + n) mod 3 = 0"
    "full_size c n = (sz_hs sz + sz_ss sz - code_ps c) + (sz_ls sz + code_ps c + n) div 3 * 4"
    "size_field_ok c (m_soft m) ((sz_ls sz + code_ps c + n) div 3 * 4 - code_ps c)"
proof -
  have ok: "sizage_ok c" by (rule sizage_ok)
  have ps: "code_ps c = (sz_hs sz + sz_ss sz) mod 4" by (simp add: code_ps_def sz_def)
  have "(sz_ls sz + code_ps c + n) mod 3 = 0 \<and>
    full_size c n = (sz_hs sz + sz_ss sz - code_ps c) + (sz_ls sz + code_ps c + n) div 3 * 4 \<and>
    size_field_ok c (m_soft m) ((sz_ls sz + code_ps c + n) div 3 * 4 - code_ps c)"
  proof (cases "sz_fs sz")
    case (Fixed v)
    then have r: "MatterCode_raw_size c = Inr n"
      using assms(1) by (simp add: matter_ok_def Let_def c_def sz_def n_def)
    have s: "sz_hs sz + sz_ss sz \<le> v" "(sz_ls sz + code_ps c + n) mod 3 = 0"
      "(sz_ls sz + code_ps c + n) div 3 * 4 + (sz_hs sz + sz_ss sz - code_ps c) = v"
      using ok Fixed r unfolding sizage_ok_def Let_def sz_def[symmetric] ps by simp_all
    have "code_ps c \<le> sz_hs sz + sz_ss sz" unfolding ps by simp
    then have "sz_hs sz + sz_ss sz + ((sz_ls sz + code_ps c + n) div 3 * 4 - code_ps c) = v"
      using s by linarith
    then show ?thesis
      using s Fixed by (simp add: full_size_def size_field_ok_def Let_def sz_def[symmetric])
  next
    case Small
    then have "(sz_ls sz + n) mod 3 = 0" "is_b64_url_safe_charset (m_soft m)"
      "b64_value (m_soft m) = (sz_ls sz + n) div 3" "code_ps c = 0"
      using assms(1) variable_soft[of c] by (simp_all add: matter_ok_def Let_def c_def sz_def n_def)
    then show ?thesis
      using Small by (simp add: full_size_def size_field_ok_def Let_def sz_def[symmetric] add.commute) presburger
  next
    case Large
    then have "(sz_ls sz + n) mod 3 = 0" "is_b64_url_safe_charset (m_soft m)"
      "b64_value (m_soft m) = (sz_ls sz + n) div 3" "code_ps c = 0"
      using assms(1) variable_soft[of c] by (simp_all add: matter_ok_def Let_def c_def sz_def n_def)
    then show ?thesis
      using Large by (simp add: full_size_def size_field_ok_def Let_def sz_def[symmetric] add.commute) presburger
  qed
  then show "(sz_ls sz + code_ps c + n) mod 3 = 0"
    "full_size c n = (sz_hs sz + sz_ss sz - code_ps c) + (sz_ls sz + code_ps c + n) div 3 * 4"
    "size_field_ok c (m_soft m) ((sz_ls sz + code_ps c + n) div 3 * 4 - code_ps c)"
    by blast+
qed

lemma raw_chars_props:
  assumes "(sz_ls (get_sizage c) + code_ps c + length raw) mod 3 = 0"
  shows "qb2_chars (replicate (sz_ls (get_sizage c) + code_ps c) 0 @ raw) = replicate (code_ps c) 65 @ raw_chars c raw"
    "length (raw_chars c raw) = (sz_ls (get_sizage c) + code_ps c + length raw) div 3 * 4 - code_ps c"
proof -
  let ?z = "replicate (code_ps c) 0 @ replicate (sz_ls (get_sizage c)) 0 @ raw"
  have z: "replicate (sz_ls (get_sizage c) + code_ps c) 0 @ raw = ?z"
    by (simp add: replicate_add[symmetric] add.commute flip: append_assoc)
  have len: "length (qb2_chars ?z) = (sz_ls (get_sizage c) + code_ps c + length raw) div 3 * 4"
    using assms length_qb2_chars[of ?z] by (simp add: ac_simps)
  have "take (code_ps c) (qb2_chars ?z) = replicate (code_ps c) 65"
    using qb2_lead[OF code_ps_le[of c], of "replicate (sz_ls (get_sizage c)) 0 @ raw"] assms
    by (simp add: ac_simps)
  then show "qb2_chars (replicate (sz_ls (get_sizage c) + code_ps c) 0 @ raw) = replicate (code_ps c) 65 @ raw_chars c raw"
    unfolding z raw_chars_def by (metis append_take_drop_id)
  show "length (raw_chars c raw) = (sz_ls (get_sizage c) + code_ps c + length raw) div 3 * 4 - code_ps c"
    unfolding raw_chars_def using len by simp
qed

lemma append_qb64_frame:
  assumes eng: "b64_engine enc dec" and ok: "matter_ok m" 
  shows "append_qb64 enc (\<lambda>c. c) m out = Some (out @ frame_bytes (m_code m) (m_soft m) (raw_chars (m_code m) (m_raw m)))"
proof -
  define c where "c = m_code m"
  define hs where "hs = sz_hs (get_sizage c)"
  define ss where "ss = sz_ss (get_sizage c)"
  define xs where "xs = sz_xs (get_sizage c)"
  define ls where "ls = sz_ls (get_sizage c)"
  define ps where "ps = code_ps c"
  define body where "body = raw_chars c (m_raw m)"
  define fs where "fs = full_size c (length (m_raw m))"
  have al: "(ls + ps + length (m_raw m)) mod 3 = 0"
    using matter_ok_sizes(1)[OF ok] by (simp add: c_def ls_def ps_def)
  have psd: "(hs + ss) mod 4 = ps" by (simp add: ps_def code_ps_def hs_def ss_def)
  have w: "zero_lead_encode enc (m_raw m) (ls + ps) = replicate ps 65 @ body"
    using al raw_chars_props(1)[of c "m_raw m"] b64_engine.zero_lead_encode_eq[OF eng]
      b64_engine.enc_eq[OF eng, of "replicate (ls + ps) 0 @ m_raw m"]
    by (simp add: ls_def ps_def body_def)
  have "length (replicate ps (65 :: byte) @ body) = (ls + ps + length (m_raw m)) div 3 * 4"
  proof -
    have "length (qb2_chars (replicate (ls + ps) 0 @ m_raw m)) = (ls + ps + length (m_raw m)) div 3 * 4"
      using al by (simp add: length_qb2_chars)
    then show ?thesis using raw_chars_props(1)[of c "m_raw m"] al by (simp add: ls_def ps_def body_def)
  qed
  then have fs: "fs = hs + ss - ps + (ps + length body)"
    using matter_ok_sizes(2)[OF ok] by (simp add: fs_def c_def hs_def ss_def ls_def ps_def)
  have lens: "length (MatterCode_to_string c) = hs" "length (m_soft m) = ss - xs" "xs \<le> ss" "ps \<le> hs + ss"
    using length_to_string[of c] ok sizage_bounds(1)[of c] psd[symmetric]
    by (simp_all add: hs_def ss_def xs_def matter_ok_def Let_def c_def)
  let ?f0 = "overwrite (hs + ss - ps) (replicate ps 65 @ body) (replicate fs 0)"
  have f0: "?f0 = replicate (hs + ss - ps) 0 @ replicate ps 65 @ body"
    using fs by (simp add: overwrite_def)
  have d0: "\<exists>g. length g = hs + ss \<and> ?f0 = g @ body"
    using f0 lens by (intro exI[of _ "replicate (hs + ss - ps) 0 @ replicate ps 65"]) simp
  then obtain g where g: "length g = hs + ss" "?f0 = g @ body" by blast
  have f1: "overwrite 0 (MatterCode_to_string c) ?f0 = MatterCode_to_string c @ drop hs g @ body"
    using g lens by (simp add: overwrite_def)
  have f2: "overwrite hs (replicate xs PAD) (MatterCode_to_string c @ drop hs g @ body) =
      (MatterCode_to_string c @ replicate xs PAD) @ drop (hs + xs) g @ body"
    using g lens overwrite_append[of "MatterCode_to_string c" hs "replicate xs PAD" "drop hs g @ body"]
    by (simp add: add.commute)
  have f3: "overwrite (hs + xs) (m_soft m) ((MatterCode_to_string c @ replicate xs PAD) @ drop (hs + xs) g @ body) =
      frame_bytes c (m_soft m) body"
    using g lens overwrite_append[of "MatterCode_to_string c @ replicate xs PAD" "hs + xs" "m_soft m" "drop (hs + xs) g @ body"]
    by (simp add: frame_bytes_def xs_def[symmetric])
  have nossoft: "MatterCode_to_string c @ drop hs g @ body = frame_bytes c (m_soft m) body" if "ss = 0"
    using g lens that by (simp add: frame_bytes_def xs_def[symmetric])
  have P: "(of_char CHR ''_'' :: byte) = PAD" by (simp add: PAD_def)
  have len: "hs + ss - ps + length (replicate ps (65 :: byte) @ body) = fs" using fs by simp
  show ?thesis
    unfolding append_qb64_def c_def[symmetric] Let_def
    unfolding hs_def[symmetric] ss_def[symmetric] xs_def[symmetric] ls_def[symmetric] psd
      fs_def[symmetric] w body_def[symmetric] P
    unfolding f1 f2 f3
    using len lens nossoft by simp
qed

lemma pad_bits_zero: "ps \<le> 2 \<Longrightarrow> ps \<noteq> 0 \<Longrightarrow> pad_bits ps (replicate ps 0 @ buf) = 0"
proof -
  assume "ps \<le> 2" "ps \<noteq> 0"
  then consider "ps = 1" | "ps = 2" by linarith
  then show ?thesis
  proof cases
    case 1
    then show ?thesis using pad_bits_1[of 0 buf] by (simp add: unat_eq_0)
  next
    case 2
    have "replicate 2 (0 :: byte) = [0, 0]" by (simp add: numeral_2_eq_2)
    then show ?thesis using 2 pad_bits_2[of 0 0 buf] by (simp add: unat_eq_0)
  qed
qed

text \<open>Lead characters that are all A, with zero pad bits, come from zero bytes.\<close>

lemma lead_zero:
  assumes al: "length buf mod 3 = 0" and ps: "ps \<le> 2" "ps \<le> length buf"
    and pad: "ps \<noteq> 0 \<longrightarrow> pad_bits ps buf = 0" and lead: "take ps (qb2_chars buf) = replicate ps 65"
  shows "take ps buf = replicate ps 0"
proof (cases "ps = 0")
  case False
  then have "buf \<noteq> []" using ps by auto
  with al have "\<exists>a b c ys. buf = a # b # c # ys"
    by (cases buf rule: triples_cases) auto
  then obtain a b c ys where buf: "buf = a # b # c # ys" by (elim exE)
  have two: "replicate 2 x = [x, x]" for x :: byte by (simp add: numeral_2_eq_2)
  consider "ps = 1" | "ps = 2" using False ps by linarith
  then show ?thesis
  proof cases
    case 1
    have "unat a < 4" using lead 1 b64_quad_lead1D[of a b c] by (simp add: buf qb2_chars_step encode_block_quad)
    moreover have "unat a mod 4 = 0" using pad 1 pad_bits_1[of a "b # c # ys"] by (simp add: buf)
    ultimately have "a = 0" by (simp add: unat_eq_0)
    then show ?thesis using 1 buf by simp
  next
    case 2
    have "a = 0 \<and> unat b < 16"
      using lead 2 b64_quad_lead2D[of a b c] by (simp add: buf qb2_chars_step encode_block_quad two)
    moreover have "unat b mod 16 = 0" using pad 2 pad_bits_2[of a b "c # ys"] by (simp add: buf)
    ultimately have "a = 0" "b = 0" by (simp_all add: unat_eq_0)
    then show ?thesis using 2 buf two by simp
  qed
qed simp

lemma parse_frame:
  assumes eng: "b64_engine enc dec" and ok: "matter_ok m"
  shows "from_qualified_base64 dec (frame_bytes (m_code m) (m_soft m) (raw_chars (m_code m) (m_raw m)) @ rest) = Inr m"
proof -
  define c where "c = m_code m"
  define ls where "ls = sz_ls (get_sizage c)"
  define buf where "buf = replicate (ls + code_ps c) 0 @ m_raw m"
  have al: "(ls + code_ps c + length (m_raw m)) mod 3 = 0"
    using matter_ok_sizes(1)[OF ok] by (simp add: c_def ls_def)
  have "replicate (code_ps c) 65 @ raw_chars c (m_raw m) = enc buf"
    using raw_chars_props(1)[of c "m_raw m"] al b64_engine.enc_eq[OF eng, of buf] by (simp add: buf_def ls_def)
  then have dec: "dec (replicate (code_ps c) 65 @ raw_chars c (m_raw m)) = Some buf"
    using b64_engine.dec_enc[OF eng, of buf] al by (simp add: buf_def)
  have "buf = replicate (code_ps c) 0 @ replicate ls 0 @ m_raw m"
    by (simp add: buf_def replicate_add[symmetric] add.commute flip: append_assoc)
  then have "strip_pad (code_ps c) ls buf = Inr (m_raw m)"
    unfolding strip_pad_iff
    using pad_bits_zero[OF code_ps_le[of c], of "replicate ls 0 @ m_raw m"] by auto
  moreover have "size_field_ok c (m_soft m) (length (raw_chars c (m_raw m)))"
    using matter_ok_sizes(3)[OF ok] raw_chars_props(2)[of c "m_raw m"] al by (simp add: c_def ls_def)
  moreover have "length (m_soft m) = sz_ss (get_sizage c) - sz_xs (get_sizage c)" "from_utf8_ok (m_soft m)"
    using ok by (simp_all add: matter_ok_def Let_def c_def)
  ultimately show ?thesis
    unfolding from_qualified_base64_iff using dec by (auto simp: c_def ls_def)
qed

lemma frame_of_parse:
  assumes eng: "b64_engine enc dec" and p: "from_qualified_base64 dec stream = Inr m" and pad: "61 \<notin> set stream"
  shows "matter_ok m \<and> (\<exists>rest. stream = frame_bytes (m_code m) (m_soft m) (raw_chars (m_code m) (m_raw m)) @ rest)"
proof -
  define c where "c = m_code m"
  define ls where "ls = sz_ls (get_sizage c)"
  define ps where "ps = code_ps c"
  define sz where "sz = get_sizage c"
  obtain body rest buf where st: "stream = frame_bytes c (m_soft m) body @ rest"
    and soft: "length (m_soft m) = sz_ss (get_sizage c) - sz_xs (get_sizage c)" "from_utf8_ok (m_soft m)"
    and sf: "size_field_ok c (m_soft m) (length body)"
    and dec: "dec (replicate ps 65 @ body) = Some buf" and strip: "strip_pad ps ls buf = Inr (m_raw m)"
    using p unfolding from_qualified_base64_iff c_def ls_def ps_def by (elim exE conjE)
  have psd: "ps = (sz_hs sz + sz_ss sz) mod 4" by (simp add: ps_def code_ps_def sz_def)
  have mod4: "(ps + length body) mod 4 = 0"
  proof (cases "sz_fs sz")
    case (Fixed v)
    then have "v = sz_hs sz + sz_ss sz + length body" using sf by (simp add: size_field_ok_def Let_def sz_def)
    moreover have "v mod 4 = 0" using sizage_ok[of c] Fixed by (simp add: sizage_ok_def Let_def sz_def)
    ultimately show ?thesis unfolding psd by (simp add: mod_simps)
  qed (use sf variable_soft[of c] in \<open>auto simp: size_field_ok_def Let_def sz_def ps_def\<close>)
  have no61: "61 \<notin> set (replicate ps 65 @ body)" using pad st by (auto simp: frame_bytes_def)
  have buf: "length buf mod 3 = 0" "enc buf = replicate ps 65 @ body"
    using b64_engine.enc_dec[OF eng dec _ no61] mod4 by simp_all
  obtain pre where pre: "length pre = ps" "buf = pre @ replicate ls 0 @ m_raw m" "ps \<noteq> 0 \<longrightarrow> pad_bits ps buf = 0"
    using strip unfolding strip_pad_iff by blast
  have q: "qb2_chars buf = replicate ps 65 @ body" using b64_engine.enc_eq[OF eng buf(1)] buf(2) by simp
  have "take ps buf = replicate ps 0"
    by (rule lead_zero) (use buf(1) pre q code_ps_le[of c] in \<open>simp_all add: ps_def\<close>)
  then have "pre = replicate ps 0" using pre by simp
  then have b: "buf = replicate (ls + ps) 0 @ m_raw m"
    using pre(2) by (simp add: replicate_add[symmetric] add.commute flip: append_assoc)
  have al: "(ls + ps + length (m_raw m)) mod 3 = 0" using buf(1) b by simp
  have body: "body = raw_chars c (m_raw m)"
    using q raw_chars_props(1)[of c "m_raw m"] al b by (simp add: ls_def ps_def)
  then have lb: "length body = (ls + ps + length (m_raw m)) div 3 * 4 - ps"
    using raw_chars_props(2)[of c "m_raw m"] al by (simp add: ls_def ps_def)
  have "matter_ok m"
  proof (cases "sz_fs sz")
    case (Fixed v)
    then obtain r where r: "MatterCode_raw_size c = Inr r" "(ls + ps + r) mod 3 = 0"
      "(ls + ps + r) div 3 * 4 + (sz_hs sz + sz_ss sz - ps) = v"
      using sizage_ok[of c] unfolding sizage_ok_def Let_def sz_def[symmetric] psd ls_def by auto
    have v: "v = sz_hs sz + sz_ss sz + length body" using Fixed sf by (simp add: size_field_ok_def Let_def sz_def)
    have le: "ps \<le> sz_hs sz + sz_ss sz" unfolding psd by simp
    have "ps + length body = (ls + ps + length (m_raw m)) div 3 * 4"
    proof -
      have "length (replicate ps (65 :: byte) @ body) = length buf div 3 * 4"
        using length_qb2_chars[OF buf(1)] q by simp
      then show ?thesis using b by simp
    qed
    then have "(ls + ps + r) div 3 = (ls + ps + length (m_raw m)) div 3" using r(3) v le by simp
    then have "ls + ps + r = ls + ps + length (m_raw m)"
      using r(2) al by (metis mod_div_decomp)
    then show ?thesis using soft r(1) Fixed by (simp add: matter_ok_def Let_def c_def sz_def)
  next
    case Small
    then have "ps = 0" "length body = 4 * b64_value (m_soft m)" "is_b64_url_safe_charset (m_soft m)"
      using variable_soft[of c] sf by (simp_all add: sz_def ps_def size_field_ok_def Let_def)
    then show ?thesis using soft Small al lb by (simp add: matter_ok_def Let_def c_def sz_def ls_def)
  next
    case Large
    then have "ps = 0" "length body = 4 * b64_value (m_soft m)" "is_b64_url_safe_charset (m_soft m)"
      using variable_soft[of c] sf by (simp_all add: sz_def ps_def size_field_ok_def Let_def)
    then show ?thesis using soft Large al lb by (simp add: matter_ok_def Let_def c_def sz_def ls_def)
  qed
  then show ?thesis using st body by (auto simp: c_def)
qed

section \<open>Properties\<close>

text \<open>
  C39: Parsing what was written gives the primitive back, whatever follows it in
  the stream: for every code of the table and every raw and soft part that fit
  it, the writer does not panic and the text parser returns the primitive.
\<close>

theorem matter_parse_write:
  assumes "b64_engine enc dec" "matter_ok m"
  shows "\<exists>frame. to_qb64b enc (\<lambda>c. c) m = Some frame \<and> from_qualified_base64 dec (frame @ rest) = Inr m"
  using append_qb64_frame[OF assms, of "[]"] parse_frame[OF assms, of rest] by (simp add: to_qb64b_def)

lemma matter_parse_write_witness:
  "\<exists>frame. to_qb64b qb2_chars (\<lambda>c. c) (Matter_new Short [1, 44] []) = Some frame \<and>
     from_qualified_base64 own_b64_decode (frame @ [65, 66]) = Inr (Matter_new Short [1, 44] [])"
  by (rule matter_parse_write[OF own_b64.b64_engine_axioms])
     (simp add: matter_ok_def Matter_new_def Sizage_new_def MatterCode_raw_size_def)

text \<open>
  Text is canonical up to base64 padding: a frame the parser accepts and that
  has no padding character is the frame the writer produces for the result, and
  the result fits its code.
\<close>

theorem matter_write_parse:
  assumes "b64_engine enc dec" "from_qualified_base64 dec stream = Inr m" "61 \<notin> set stream"
  shows "matter_ok m \<and> (\<exists>frame rest. to_qb64b enc (\<lambda>c. c) m = Some frame \<and> stream = frame @ rest)"
  using frame_of_parse[OF assms] append_qb64_frame[OF assms(1), of m "[]"] by (auto simp: to_qb64b_def)

lemma matter_write_parse_witness:
  "matter_ok (Matter_new Short [1, 44] []) \<and>
   (\<exists>frame rest. to_qb64b qb2_chars (\<lambda>c. c) (Matter_new Short [1, 44] []) = Some frame \<and>
      str_bytes ''MAEsXY'' = frame @ rest)"
proof -
  have "frame_bytes Short [] (raw_chars Short [1, 44]) = str_bytes ''MAEs''"
    by (simp add: frame_bytes_def raw_chars_def code_ps_def Sizage_new_def MatterCode_to_string_def
        str_bytes_def qb2_chars_step encode_block_quad b64_quad_def B64_ALPHABET_eval)
  moreover have "matter_ok (Matter_new Short [1, 44] [])"
    by (simp add: matter_ok_def Matter_new_def Sizage_new_def MatterCode_raw_size_def)
  ultimately have "from_qualified_base64 own_b64_decode (str_bytes ''MAEsXY'') = Inr (Matter_new Short [1, 44] [])"
    using parse_frame[OF own_b64.b64_engine_axioms, of "Matter_new Short [1, 44] []" "str_bytes ''XY''"]
    by (simp add: Matter_new_def str_bytes_def)
  then show ?thesis
    by (rule matter_write_parse[OF own_b64.b64_engine_axioms]) (simp add: str_bytes_def)
qed

end
