(* ===== verification/Cesr_Typed_Codes.thy ===== *)
theory Cesr_Typed_Codes
  imports Cesr_Matter
begin

text \<open>
  The narrowed code enums of \<^verbatim>\<open>core/matter/code/\<close> and the contract they share
  as instances of the trait \<^verbatim>\<open>CesrCode\<close>: each is a copy of a part of the matter
  code table. The locale \<^verbatim>\<open>cesr_code\<close> is the trait with its laws, interpreted on
  every enum; narrowing a parsed primitive (\<^verbatim>\<open>Matter::narrow\<close>) is proved correct in
  it once. Numbers (\<^verbatim>\<open>primitives/number.rs\<close>) close the theory.
\<close>

section \<open>The trait\<close>

text \<open>The arms of a \<^verbatim>\<open>try_from\<close>, with its catch-all.\<close>

definition try_from_table :: "(MatterCode \<times> 'c) list \<Rightarrow> MatterCode \<Rightarrow> ValidationError + 'c" where
  "try_from_table arms c =
     (case map_of arms c of
        Some t \<Rightarrow> Inr t
      | None \<Rightarrow> Inl (UnknownCode (MatterCode_to_string c)))"

lemma try_from_table_Inr:
  assumes "try_from_table arms m = Inr c" "\<And>p. p \<in> set arms \<Longrightarrow> fst p = f (snd p)"
  shows "m = f c"
  using assms by (auto simp: try_from_table_def split: option.splits dest!: map_of_SomeD)

definition narrow :: "(MatterCode \<Rightarrow> ValidationError + 'c) \<Rightarrow> MatterCode Matter \<Rightarrow> ValidationError + 'c Matter" where
  "narrow try_from m = res_bind (try_from (m_code m)) (\<lambda>c. Inr (Matter_new c (m_raw m) (m_soft m)))"

definition widen :: "('c \<Rightarrow> MatterCode) \<Rightarrow> 'c Matter \<Rightarrow> MatterCode Matter" where
  "widen to_mc m = Matter_new (to_mc (m_code m)) (m_raw m) (m_soft m)"

definition DUMMY_CHAR :: byte where
  "DUMMY_CHAR = of_char CHR ''#''"

definition placeholder :: "('c \<Rightarrow> MatterCode) \<Rightarrow> 'c \<Rightarrow> ValidationError + bytes" where
  "placeholder to_mc c =
     (case sz_fs (get_sizage (to_mc c)) of
        Fixed n \<Rightarrow> Inr (replicate n DUMMY_CHAR)
      | _ \<Rightarrow> Inl (InvalidSizingOperation (MatterCode_to_string (to_mc c))))"

lemma append_qb64_widen: "append_qb64 enc to_mc m out = append_qb64 enc (\<lambda>c. c) (widen to_mc m) out"
  by (simp only: append_qb64_def widen_def Matter_new_def Matter.select_convs)

locale cesr_code =
  fixes to_matter_code :: "'c \<Rightarrow> MatterCode"
    and as_str :: "'c \<Rightarrow> string"
    and try_from :: "MatterCode \<Rightarrow> ValidationError + 'c"
  assumes as_str_ref: "as_str c = MatterCode_as_ref (to_matter_code c)"
    and try_from_to: "try_from (to_matter_code c) = Inr c"
    and try_from_only: "try_from m = Inr c \<Longrightarrow> m = to_matter_code c"
begin

lemma to_matter_code_inj: "to_matter_code c = to_matter_code d \<longleftrightarrow> c = d"
  using try_from_to by (metis sum.inject(2))

lemma as_str_inj: "as_str c = as_str d \<longleftrightarrow> c = d"
  by (simp add: as_str_ref MatterCode_as_ref_inj to_matter_code_inj)

lemma narrow_iff: "narrow try_from m = Inr t \<longleftrightarrow> m = widen to_matter_code t"
  using try_from_only try_from_to by (auto simp: narrow_def widen_def Matter_new_def)

text \<open>Narrowing changes no byte of the encoding.\<close>

lemma narrow_encoding:
  "narrow try_from m = Inr t \<Longrightarrow> append_qb64 enc to_matter_code t out = append_qb64 enc (\<lambda>c. c) m out"
  by (simp add: narrow_iff append_qb64_widen[of enc to_matter_code])

lemma typed_roundtrip:
  assumes "b64_engine enc dec" "matter_ok (widen to_matter_code t)"
  shows "\<exists>frame. to_qb64b enc to_matter_code t = Some frame \<and>
     (\<exists>m. from_qualified_base64 dec (frame @ rest) = Inr m \<and> narrow try_from m = Inr t)"
  using append_qb64_frame[OF assms, of "[]"] parse_frame[OF assms, of rest]
  by (auto simp: to_qb64b_def append_qb64_widen[of enc to_matter_code] narrow_iff)

lemma as_str_length: "length (as_str c) = sz_hs (get_sizage (to_matter_code c))"
  using as_ref_hard[of "to_matter_code c"] by (simp add: as_str_ref)

end

section \<open>The enums\<close>

subsection \<open>DigestCode\<close>

datatype (plugins only: code size) DigestCode =
    Blake3_256 | Blake2b_256 | Blake2s_256 | SHA3_256 | SHA2_256 | Blake3_512 | Blake2b_512 |
    SHA3_512 | SHA2_512

primrec DigestCode_to_matter_code :: "DigestCode \<Rightarrow> MatterCode" where
  "DigestCode_to_matter_code DigestCode.Blake3_256 = MatterCode.Blake3_256"
| "DigestCode_to_matter_code DigestCode.Blake2b_256 = MatterCode.Blake2b_256"
| "DigestCode_to_matter_code DigestCode.Blake2s_256 = MatterCode.Blake2s_256"
| "DigestCode_to_matter_code DigestCode.SHA3_256 = MatterCode.SHA3_256"
| "DigestCode_to_matter_code DigestCode.SHA2_256 = MatterCode.SHA2_256"
| "DigestCode_to_matter_code DigestCode.Blake3_512 = MatterCode.Blake3_512"
| "DigestCode_to_matter_code DigestCode.Blake2b_512 = MatterCode.Blake2b_512"
| "DigestCode_to_matter_code DigestCode.SHA3_512 = MatterCode.SHA3_512"
| "DigestCode_to_matter_code DigestCode.SHA2_512 = MatterCode.SHA2_512"

primrec DigestCode_as_str :: "DigestCode \<Rightarrow> string" where
  "DigestCode_as_str DigestCode.Blake3_256 = ''E''"
| "DigestCode_as_str DigestCode.Blake2b_256 = ''F''"
| "DigestCode_as_str DigestCode.Blake2s_256 = ''G''"
| "DigestCode_as_str DigestCode.SHA3_256 = ''H''"
| "DigestCode_as_str DigestCode.SHA2_256 = ''I''"
| "DigestCode_as_str DigestCode.Blake3_512 = ''0D''"
| "DigestCode_as_str DigestCode.Blake2b_512 = ''0E''"
| "DigestCode_as_str DigestCode.SHA3_512 = ''0F''"
| "DigestCode_as_str DigestCode.SHA2_512 = ''0G''"

definition DigestCode_try_from :: "MatterCode \<Rightarrow> ValidationError + DigestCode" where
  "DigestCode_try_from c = try_from_table [
     (MatterCode.Blake3_256, DigestCode.Blake3_256),
     (MatterCode.Blake2b_256, DigestCode.Blake2b_256),
     (MatterCode.Blake2s_256, DigestCode.Blake2s_256),
     (MatterCode.SHA3_256, DigestCode.SHA3_256), (MatterCode.SHA2_256, DigestCode.SHA2_256),
     (MatterCode.Blake3_512, DigestCode.Blake3_512),
     (MatterCode.Blake2b_512, DigestCode.Blake2b_512),
     (MatterCode.SHA3_512, DigestCode.SHA3_512), (MatterCode.SHA2_512, DigestCode.SHA2_512)] c"

interpretation digest_code: cesr_code DigestCode_to_matter_code DigestCode_as_str DigestCode_try_from
proof
  fix c :: DigestCode
  show "DigestCode_as_str c = MatterCode_as_ref (DigestCode_to_matter_code c)" by (cases c) simp_all
  show "DigestCode_try_from (DigestCode_to_matter_code c) = Inr c" by (cases c) (simp_all add: DigestCode_try_from_def try_from_table_def)
  fix m
  show "m = DigestCode_to_matter_code c" if "DigestCode_try_from m = Inr c"
    using that unfolding DigestCode_try_from_def by (rule try_from_table_Inr) auto
qed

subsection \<open>VerKeyCode\<close>

datatype (plugins only: code size) VerKeyCode =
    Ed25519 | Ed25519N | ECDSA256k1 | ECDSA256k1N | Ed448 | Ed448N | ECDSA256r1 | ECDSA256r1N

primrec VerKeyCode_to_matter_code :: "VerKeyCode \<Rightarrow> MatterCode" where
  "VerKeyCode_to_matter_code VerKeyCode.Ed25519 = MatterCode.Ed25519"
| "VerKeyCode_to_matter_code VerKeyCode.Ed25519N = MatterCode.Ed25519N"
| "VerKeyCode_to_matter_code VerKeyCode.ECDSA256k1 = MatterCode.ECDSA256k1"
| "VerKeyCode_to_matter_code VerKeyCode.ECDSA256k1N = MatterCode.ECDSA256k1N"
| "VerKeyCode_to_matter_code VerKeyCode.Ed448 = MatterCode.Ed448"
| "VerKeyCode_to_matter_code VerKeyCode.Ed448N = MatterCode.Ed448N"
| "VerKeyCode_to_matter_code VerKeyCode.ECDSA256r1 = MatterCode.ECDSA256r1"
| "VerKeyCode_to_matter_code VerKeyCode.ECDSA256r1N = MatterCode.ECDSA256r1N"

primrec VerKeyCode_as_str :: "VerKeyCode \<Rightarrow> string" where
  "VerKeyCode_as_str VerKeyCode.Ed25519 = ''D''"
| "VerKeyCode_as_str VerKeyCode.Ed25519N = ''B''"
| "VerKeyCode_as_str VerKeyCode.ECDSA256k1 = ''1AAB''"
| "VerKeyCode_as_str VerKeyCode.ECDSA256k1N = ''1AAA''"
| "VerKeyCode_as_str VerKeyCode.Ed448 = ''1AAD''"
| "VerKeyCode_as_str VerKeyCode.Ed448N = ''1AAC''"
| "VerKeyCode_as_str VerKeyCode.ECDSA256r1 = ''1AAJ''"
| "VerKeyCode_as_str VerKeyCode.ECDSA256r1N = ''1AAI''"

definition VerKeyCode_try_from :: "MatterCode \<Rightarrow> ValidationError + VerKeyCode" where
  "VerKeyCode_try_from c = try_from_table [
     (MatterCode.Ed25519, VerKeyCode.Ed25519), (MatterCode.Ed25519N, VerKeyCode.Ed25519N),
     (MatterCode.ECDSA256k1, VerKeyCode.ECDSA256k1),
     (MatterCode.ECDSA256k1N, VerKeyCode.ECDSA256k1N), (MatterCode.Ed448, VerKeyCode.Ed448),
     (MatterCode.Ed448N, VerKeyCode.Ed448N), (MatterCode.ECDSA256r1, VerKeyCode.ECDSA256r1),
     (MatterCode.ECDSA256r1N, VerKeyCode.ECDSA256r1N)] c"

interpretation verkey_code: cesr_code VerKeyCode_to_matter_code VerKeyCode_as_str VerKeyCode_try_from
proof
  fix c :: VerKeyCode
  show "VerKeyCode_as_str c = MatterCode_as_ref (VerKeyCode_to_matter_code c)" by (cases c) simp_all
  show "VerKeyCode_try_from (VerKeyCode_to_matter_code c) = Inr c" by (cases c) (simp_all add: VerKeyCode_try_from_def try_from_table_def)
  fix m
  show "m = VerKeyCode_to_matter_code c" if "VerKeyCode_try_from m = Inr c"
    using that unfolding VerKeyCode_try_from_def by (rule try_from_table_Inr) auto
qed

subsection \<open>SignatureCode\<close>

datatype (plugins only: code size) SignatureCode =
    Ed25519Sig | ECDSA256k1Sig | ECDSA256r1Sig | Ed448Sig

primrec SignatureCode_to_matter_code :: "SignatureCode \<Rightarrow> MatterCode" where
  "SignatureCode_to_matter_code SignatureCode.Ed25519Sig = MatterCode.Ed25519Sig"
| "SignatureCode_to_matter_code SignatureCode.ECDSA256k1Sig = MatterCode.ECDSA256k1Sig"
| "SignatureCode_to_matter_code SignatureCode.ECDSA256r1Sig = MatterCode.ECDSA256r1Sig"
| "SignatureCode_to_matter_code SignatureCode.Ed448Sig = MatterCode.Ed448Sig"

primrec SignatureCode_as_str :: "SignatureCode \<Rightarrow> string" where
  "SignatureCode_as_str SignatureCode.Ed25519Sig = ''0B''"
| "SignatureCode_as_str SignatureCode.ECDSA256k1Sig = ''0C''"
| "SignatureCode_as_str SignatureCode.ECDSA256r1Sig = ''0I''"
| "SignatureCode_as_str SignatureCode.Ed448Sig = ''1AAE''"

definition SignatureCode_try_from :: "MatterCode \<Rightarrow> ValidationError + SignatureCode" where
  "SignatureCode_try_from c = try_from_table [
     (MatterCode.Ed25519Sig, SignatureCode.Ed25519Sig),
     (MatterCode.ECDSA256k1Sig, SignatureCode.ECDSA256k1Sig),
     (MatterCode.ECDSA256r1Sig, SignatureCode.ECDSA256r1Sig),
     (MatterCode.Ed448Sig, SignatureCode.Ed448Sig)] c"

interpretation signature_code: cesr_code SignatureCode_to_matter_code SignatureCode_as_str SignatureCode_try_from
proof
  fix c :: SignatureCode
  show "SignatureCode_as_str c = MatterCode_as_ref (SignatureCode_to_matter_code c)" by (cases c) simp_all
  show "SignatureCode_try_from (SignatureCode_to_matter_code c) = Inr c" by (cases c) (simp_all add: SignatureCode_try_from_def try_from_table_def)
  fix m
  show "m = SignatureCode_to_matter_code c" if "SignatureCode_try_from m = Inr c"
    using that unfolding SignatureCode_try_from_def by (rule try_from_table_Inr) auto
qed

subsection \<open>NumberCode\<close>

datatype (plugins only: code size) NumberCode =
    Short | Long | Tall | Big | Large | Great | Vast

primrec NumberCode_to_matter_code :: "NumberCode \<Rightarrow> MatterCode" where
  "NumberCode_to_matter_code NumberCode.Short = MatterCode.Short"
| "NumberCode_to_matter_code NumberCode.Long = MatterCode.Long"
| "NumberCode_to_matter_code NumberCode.Tall = MatterCode.Tall"
| "NumberCode_to_matter_code NumberCode.Big = MatterCode.Big"
| "NumberCode_to_matter_code NumberCode.Large = MatterCode.Large"
| "NumberCode_to_matter_code NumberCode.Great = MatterCode.Great"
| "NumberCode_to_matter_code NumberCode.Vast = MatterCode.Vast"

primrec NumberCode_as_str :: "NumberCode \<Rightarrow> string" where
  "NumberCode_as_str NumberCode.Short = ''M''"
| "NumberCode_as_str NumberCode.Long = ''0H''"
| "NumberCode_as_str NumberCode.Tall = ''R''"
| "NumberCode_as_str NumberCode.Big = ''N''"
| "NumberCode_as_str NumberCode.Large = ''S''"
| "NumberCode_as_str NumberCode.Great = ''T''"
| "NumberCode_as_str NumberCode.Vast = ''U''"

definition NumberCode_try_from :: "MatterCode \<Rightarrow> ValidationError + NumberCode" where
  "NumberCode_try_from c = try_from_table [
     (MatterCode.Short, NumberCode.Short), (MatterCode.Long, NumberCode.Long),
     (MatterCode.Tall, NumberCode.Tall), (MatterCode.Big, NumberCode.Big),
     (MatterCode.Large, NumberCode.Large), (MatterCode.Great, NumberCode.Great),
     (MatterCode.Vast, NumberCode.Vast)] c"

interpretation number_code: cesr_code NumberCode_to_matter_code NumberCode_as_str NumberCode_try_from
proof
  fix c :: NumberCode
  show "NumberCode_as_str c = MatterCode_as_ref (NumberCode_to_matter_code c)" by (cases c) simp_all
  show "NumberCode_try_from (NumberCode_to_matter_code c) = Inr c" by (cases c) (simp_all add: NumberCode_try_from_def try_from_table_def)
  fix m
  show "m = NumberCode_to_matter_code c" if "NumberCode_try_from m = Inr c"
    using that unfolding NumberCode_try_from_def by (rule try_from_table_Inr) auto
qed

subsection \<open>SeedCode\<close>

datatype (plugins only: code size) SeedCode =
    Ed25519Seed | ECDSA256k1Seed | Ed448Seed | ECDSA256r1Seed

primrec SeedCode_to_matter_code :: "SeedCode \<Rightarrow> MatterCode" where
  "SeedCode_to_matter_code SeedCode.Ed25519Seed = MatterCode.Ed25519Seed"
| "SeedCode_to_matter_code SeedCode.ECDSA256k1Seed = MatterCode.ECDSA256k1Seed"
| "SeedCode_to_matter_code SeedCode.Ed448Seed = MatterCode.Ed448Seed"
| "SeedCode_to_matter_code SeedCode.ECDSA256r1Seed = MatterCode.ECDSA256r1Seed"

primrec SeedCode_as_str :: "SeedCode \<Rightarrow> string" where
  "SeedCode_as_str SeedCode.Ed25519Seed = ''A''"
| "SeedCode_as_str SeedCode.ECDSA256k1Seed = ''J''"
| "SeedCode_as_str SeedCode.Ed448Seed = ''K''"
| "SeedCode_as_str SeedCode.ECDSA256r1Seed = ''Q''"

definition SeedCode_try_from :: "MatterCode \<Rightarrow> ValidationError + SeedCode" where
  "SeedCode_try_from c = try_from_table [
     (MatterCode.Ed25519Seed, SeedCode.Ed25519Seed),
     (MatterCode.ECDSA256k1Seed, SeedCode.ECDSA256k1Seed),
     (MatterCode.Ed448Seed, SeedCode.Ed448Seed),
     (MatterCode.ECDSA256r1Seed, SeedCode.ECDSA256r1Seed)] c"

interpretation seed_code: cesr_code SeedCode_to_matter_code SeedCode_as_str SeedCode_try_from
proof
  fix c :: SeedCode
  show "SeedCode_as_str c = MatterCode_as_ref (SeedCode_to_matter_code c)" by (cases c) simp_all
  show "SeedCode_try_from (SeedCode_to_matter_code c) = Inr c" by (cases c) (simp_all add: SeedCode_try_from_def try_from_table_def)
  fix m
  show "m = SeedCode_to_matter_code c" if "SeedCode_try_from m = Inr c"
    using that unfolding SeedCode_try_from_def by (rule try_from_table_Inr) auto
qed

subsection \<open>VerserCode\<close>

datatype (plugins only: code size) VerserCode =
    Tag7 | Tag10

primrec VerserCode_to_matter_code :: "VerserCode \<Rightarrow> MatterCode" where
  "VerserCode_to_matter_code VerserCode.Tag7 = MatterCode.Tag7"
| "VerserCode_to_matter_code VerserCode.Tag10 = MatterCode.Tag10"

primrec VerserCode_as_str :: "VerserCode \<Rightarrow> string" where
  "VerserCode_as_str VerserCode.Tag7 = ''Y''"
| "VerserCode_as_str VerserCode.Tag10 = ''0O''"

definition VerserCode_try_from :: "MatterCode \<Rightarrow> ValidationError + VerserCode" where
  "VerserCode_try_from c = try_from_table [
     (MatterCode.Tag7, VerserCode.Tag7), (MatterCode.Tag10, VerserCode.Tag10)] c"

interpretation verser_code: cesr_code VerserCode_to_matter_code VerserCode_as_str VerserCode_try_from
proof
  fix c :: VerserCode
  show "VerserCode_as_str c = MatterCode_as_ref (VerserCode_to_matter_code c)" by (cases c) simp_all
  show "VerserCode_try_from (VerserCode_to_matter_code c) = Inr c" by (cases c) (simp_all add: VerserCode_try_from_def try_from_table_def)
  fix m
  show "m = VerserCode_to_matter_code c" if "VerserCode_try_from m = Inr c"
    using that unfolding VerserCode_try_from_def by (rule try_from_table_Inr) auto
qed

subsection \<open>NoncerCode\<close>

datatype (plugins only: code size) NoncerCode =
    Empty | Salt128 | Salt256 | Blake3_256 | Blake2b_256 | Blake2s_256 | SHA3_256 | SHA2_256 |
    Blake3_512 | Blake2b_512 | SHA3_512 | SHA2_512

primrec NoncerCode_to_matter_code :: "NoncerCode \<Rightarrow> MatterCode" where
  "NoncerCode_to_matter_code NoncerCode.Empty = MatterCode.Empty"
| "NoncerCode_to_matter_code NoncerCode.Salt128 = MatterCode.Salt128"
| "NoncerCode_to_matter_code NoncerCode.Salt256 = MatterCode.Salt256"
| "NoncerCode_to_matter_code NoncerCode.Blake3_256 = MatterCode.Blake3_256"
| "NoncerCode_to_matter_code NoncerCode.Blake2b_256 = MatterCode.Blake2b_256"
| "NoncerCode_to_matter_code NoncerCode.Blake2s_256 = MatterCode.Blake2s_256"
| "NoncerCode_to_matter_code NoncerCode.SHA3_256 = MatterCode.SHA3_256"
| "NoncerCode_to_matter_code NoncerCode.SHA2_256 = MatterCode.SHA2_256"
| "NoncerCode_to_matter_code NoncerCode.Blake3_512 = MatterCode.Blake3_512"
| "NoncerCode_to_matter_code NoncerCode.Blake2b_512 = MatterCode.Blake2b_512"
| "NoncerCode_to_matter_code NoncerCode.SHA3_512 = MatterCode.SHA3_512"
| "NoncerCode_to_matter_code NoncerCode.SHA2_512 = MatterCode.SHA2_512"

primrec NoncerCode_as_str :: "NoncerCode \<Rightarrow> string" where
  "NoncerCode_as_str NoncerCode.Empty = ''1AAP''"
| "NoncerCode_as_str NoncerCode.Salt128 = ''0A''"
| "NoncerCode_as_str NoncerCode.Salt256 = ''a''"
| "NoncerCode_as_str NoncerCode.Blake3_256 = ''E''"
| "NoncerCode_as_str NoncerCode.Blake2b_256 = ''F''"
| "NoncerCode_as_str NoncerCode.Blake2s_256 = ''G''"
| "NoncerCode_as_str NoncerCode.SHA3_256 = ''H''"
| "NoncerCode_as_str NoncerCode.SHA2_256 = ''I''"
| "NoncerCode_as_str NoncerCode.Blake3_512 = ''0D''"
| "NoncerCode_as_str NoncerCode.Blake2b_512 = ''0E''"
| "NoncerCode_as_str NoncerCode.SHA3_512 = ''0F''"
| "NoncerCode_as_str NoncerCode.SHA2_512 = ''0G''"

definition NoncerCode_try_from :: "MatterCode \<Rightarrow> ValidationError + NoncerCode" where
  "NoncerCode_try_from c = try_from_table [
     (MatterCode.Empty, NoncerCode.Empty), (MatterCode.Salt128, NoncerCode.Salt128),
     (MatterCode.Salt256, NoncerCode.Salt256), (MatterCode.Blake3_256, NoncerCode.Blake3_256),
     (MatterCode.Blake2b_256, NoncerCode.Blake2b_256),
     (MatterCode.Blake2s_256, NoncerCode.Blake2s_256),
     (MatterCode.SHA3_256, NoncerCode.SHA3_256), (MatterCode.SHA2_256, NoncerCode.SHA2_256),
     (MatterCode.Blake3_512, NoncerCode.Blake3_512),
     (MatterCode.Blake2b_512, NoncerCode.Blake2b_512),
     (MatterCode.SHA3_512, NoncerCode.SHA3_512), (MatterCode.SHA2_512, NoncerCode.SHA2_512)] c"

interpretation noncer_code: cesr_code NoncerCode_to_matter_code NoncerCode_as_str NoncerCode_try_from
proof
  fix c :: NoncerCode
  show "NoncerCode_as_str c = MatterCode_as_ref (NoncerCode_to_matter_code c)" by (cases c) simp_all
  show "NoncerCode_try_from (NoncerCode_to_matter_code c) = Inr c" by (cases c) (simp_all add: NoncerCode_try_from_def try_from_table_def)
  fix m
  show "m = NoncerCode_to_matter_code c" if "NoncerCode_try_from m = Inr c"
    using that unfolding NoncerCode_try_from_def by (rule try_from_table_Inr) auto
qed

subsection \<open>LabelerCode\<close>

datatype (plugins only: code size) LabelerCode =
    Empty | Tag1 | Tag2 | Tag3 | Tag4 | Tag5 | Tag6 | Tag7 | Tag8 | Tag9 | Tag10 | Tag11 |
    Label1 | Label2 | StrB64_L0 | StrB64_L1 | StrB64_L2 | StrB64Big_L0 | StrB64Big_L1 |
    StrB64Big_L2 | Bytes_L0 | Bytes_L1 | Bytes_L2 | BytesBig_L0 | BytesBig_L1 | BytesBig_L2

primrec LabelerCode_to_matter_code :: "LabelerCode \<Rightarrow> MatterCode" where
  "LabelerCode_to_matter_code LabelerCode.Empty = MatterCode.Empty"
| "LabelerCode_to_matter_code LabelerCode.Tag1 = MatterCode.Tag1"
| "LabelerCode_to_matter_code LabelerCode.Tag2 = MatterCode.Tag2"
| "LabelerCode_to_matter_code LabelerCode.Tag3 = MatterCode.Tag3"
| "LabelerCode_to_matter_code LabelerCode.Tag4 = MatterCode.Tag4"
| "LabelerCode_to_matter_code LabelerCode.Tag5 = MatterCode.Tag5"
| "LabelerCode_to_matter_code LabelerCode.Tag6 = MatterCode.Tag6"
| "LabelerCode_to_matter_code LabelerCode.Tag7 = MatterCode.Tag7"
| "LabelerCode_to_matter_code LabelerCode.Tag8 = MatterCode.Tag8"
| "LabelerCode_to_matter_code LabelerCode.Tag9 = MatterCode.Tag9"
| "LabelerCode_to_matter_code LabelerCode.Tag10 = MatterCode.Tag10"
| "LabelerCode_to_matter_code LabelerCode.Tag11 = MatterCode.Tag11"
| "LabelerCode_to_matter_code LabelerCode.Label1 = MatterCode.Label1"
| "LabelerCode_to_matter_code LabelerCode.Label2 = MatterCode.Label2"
| "LabelerCode_to_matter_code LabelerCode.StrB64_L0 = MatterCode.StrB64_L0"
| "LabelerCode_to_matter_code LabelerCode.StrB64_L1 = MatterCode.StrB64_L1"
| "LabelerCode_to_matter_code LabelerCode.StrB64_L2 = MatterCode.StrB64_L2"
| "LabelerCode_to_matter_code LabelerCode.StrB64Big_L0 = MatterCode.StrB64Big_L0"
| "LabelerCode_to_matter_code LabelerCode.StrB64Big_L1 = MatterCode.StrB64Big_L1"
| "LabelerCode_to_matter_code LabelerCode.StrB64Big_L2 = MatterCode.StrB64Big_L2"
| "LabelerCode_to_matter_code LabelerCode.Bytes_L0 = MatterCode.Bytes_L0"
| "LabelerCode_to_matter_code LabelerCode.Bytes_L1 = MatterCode.Bytes_L1"
| "LabelerCode_to_matter_code LabelerCode.Bytes_L2 = MatterCode.Bytes_L2"
| "LabelerCode_to_matter_code LabelerCode.BytesBig_L0 = MatterCode.BytesBig_L0"
| "LabelerCode_to_matter_code LabelerCode.BytesBig_L1 = MatterCode.BytesBig_L1"
| "LabelerCode_to_matter_code LabelerCode.BytesBig_L2 = MatterCode.BytesBig_L2"

primrec LabelerCode_as_str :: "LabelerCode \<Rightarrow> string" where
  "LabelerCode_as_str LabelerCode.Empty = ''1AAP''"
| "LabelerCode_as_str LabelerCode.Tag1 = ''0J''"
| "LabelerCode_as_str LabelerCode.Tag2 = ''0K''"
| "LabelerCode_as_str LabelerCode.Tag3 = ''X''"
| "LabelerCode_as_str LabelerCode.Tag4 = ''1AAF''"
| "LabelerCode_as_str LabelerCode.Tag5 = ''0L''"
| "LabelerCode_as_str LabelerCode.Tag6 = ''0M''"
| "LabelerCode_as_str LabelerCode.Tag7 = ''Y''"
| "LabelerCode_as_str LabelerCode.Tag8 = ''1AAN''"
| "LabelerCode_as_str LabelerCode.Tag9 = ''0N''"
| "LabelerCode_as_str LabelerCode.Tag10 = ''0O''"
| "LabelerCode_as_str LabelerCode.Tag11 = ''Z''"
| "LabelerCode_as_str LabelerCode.Label1 = ''V''"
| "LabelerCode_as_str LabelerCode.Label2 = ''W''"
| "LabelerCode_as_str LabelerCode.StrB64_L0 = ''4A''"
| "LabelerCode_as_str LabelerCode.StrB64_L1 = ''5A''"
| "LabelerCode_as_str LabelerCode.StrB64_L2 = ''6A''"
| "LabelerCode_as_str LabelerCode.StrB64Big_L0 = ''7AAA''"
| "LabelerCode_as_str LabelerCode.StrB64Big_L1 = ''8AAA''"
| "LabelerCode_as_str LabelerCode.StrB64Big_L2 = ''9AAA''"
| "LabelerCode_as_str LabelerCode.Bytes_L0 = ''4B''"
| "LabelerCode_as_str LabelerCode.Bytes_L1 = ''5B''"
| "LabelerCode_as_str LabelerCode.Bytes_L2 = ''6B''"
| "LabelerCode_as_str LabelerCode.BytesBig_L0 = ''7AAB''"
| "LabelerCode_as_str LabelerCode.BytesBig_L1 = ''8AAB''"
| "LabelerCode_as_str LabelerCode.BytesBig_L2 = ''9AAB''"

definition LabelerCode_try_from :: "MatterCode \<Rightarrow> ValidationError + LabelerCode" where
  "LabelerCode_try_from c = try_from_table [
     (MatterCode.Empty, LabelerCode.Empty), (MatterCode.Tag1, LabelerCode.Tag1),
     (MatterCode.Tag2, LabelerCode.Tag2), (MatterCode.Tag3, LabelerCode.Tag3),
     (MatterCode.Tag4, LabelerCode.Tag4), (MatterCode.Tag5, LabelerCode.Tag5),
     (MatterCode.Tag6, LabelerCode.Tag6), (MatterCode.Tag7, LabelerCode.Tag7),
     (MatterCode.Tag8, LabelerCode.Tag8), (MatterCode.Tag9, LabelerCode.Tag9),
     (MatterCode.Tag10, LabelerCode.Tag10), (MatterCode.Tag11, LabelerCode.Tag11),
     (MatterCode.Label1, LabelerCode.Label1), (MatterCode.Label2, LabelerCode.Label2),
     (MatterCode.StrB64_L0, LabelerCode.StrB64_L0),
     (MatterCode.StrB64_L1, LabelerCode.StrB64_L1),
     (MatterCode.StrB64_L2, LabelerCode.StrB64_L2),
     (MatterCode.StrB64Big_L0, LabelerCode.StrB64Big_L0),
     (MatterCode.StrB64Big_L1, LabelerCode.StrB64Big_L1),
     (MatterCode.StrB64Big_L2, LabelerCode.StrB64Big_L2),
     (MatterCode.Bytes_L0, LabelerCode.Bytes_L0), (MatterCode.Bytes_L1, LabelerCode.Bytes_L1),
     (MatterCode.Bytes_L2, LabelerCode.Bytes_L2),
     (MatterCode.BytesBig_L0, LabelerCode.BytesBig_L0),
     (MatterCode.BytesBig_L1, LabelerCode.BytesBig_L1),
     (MatterCode.BytesBig_L2, LabelerCode.BytesBig_L2)] c"

interpretation labeler_code: cesr_code LabelerCode_to_matter_code LabelerCode_as_str LabelerCode_try_from
proof
  fix c :: LabelerCode
  show "LabelerCode_as_str c = MatterCode_as_ref (LabelerCode_to_matter_code c)" by (cases c) simp_all
  show "LabelerCode_try_from (LabelerCode_to_matter_code c) = Inr c" by (cases c) (simp_all add: LabelerCode_try_from_def try_from_table_def)
  fix m
  show "m = LabelerCode_to_matter_code c" if "LabelerCode_try_from m = Inr c"
    using that unfolding LabelerCode_try_from_def by (rule try_from_table_Inr) auto
qed

subsection \<open>TexterCode\<close>

datatype (plugins only: code size) TexterCode =
    Bytes_L0 | Bytes_L1 | Bytes_L2 | BytesBig_L0 | BytesBig_L1 | BytesBig_L2

primrec TexterCode_to_matter_code :: "TexterCode \<Rightarrow> MatterCode" where
  "TexterCode_to_matter_code TexterCode.Bytes_L0 = MatterCode.Bytes_L0"
| "TexterCode_to_matter_code TexterCode.Bytes_L1 = MatterCode.Bytes_L1"
| "TexterCode_to_matter_code TexterCode.Bytes_L2 = MatterCode.Bytes_L2"
| "TexterCode_to_matter_code TexterCode.BytesBig_L0 = MatterCode.BytesBig_L0"
| "TexterCode_to_matter_code TexterCode.BytesBig_L1 = MatterCode.BytesBig_L1"
| "TexterCode_to_matter_code TexterCode.BytesBig_L2 = MatterCode.BytesBig_L2"

primrec TexterCode_as_str :: "TexterCode \<Rightarrow> string" where
  "TexterCode_as_str TexterCode.Bytes_L0 = ''4B''"
| "TexterCode_as_str TexterCode.Bytes_L1 = ''5B''"
| "TexterCode_as_str TexterCode.Bytes_L2 = ''6B''"
| "TexterCode_as_str TexterCode.BytesBig_L0 = ''7AAB''"
| "TexterCode_as_str TexterCode.BytesBig_L1 = ''8AAB''"
| "TexterCode_as_str TexterCode.BytesBig_L2 = ''9AAB''"

definition TexterCode_try_from :: "MatterCode \<Rightarrow> ValidationError + TexterCode" where
  "TexterCode_try_from c = try_from_table [
     (MatterCode.Bytes_L0, TexterCode.Bytes_L0), (MatterCode.Bytes_L1, TexterCode.Bytes_L1),
     (MatterCode.Bytes_L2, TexterCode.Bytes_L2),
     (MatterCode.BytesBig_L0, TexterCode.BytesBig_L0),
     (MatterCode.BytesBig_L1, TexterCode.BytesBig_L1),
     (MatterCode.BytesBig_L2, TexterCode.BytesBig_L2)] c"

interpretation texter_code: cesr_code TexterCode_to_matter_code TexterCode_as_str TexterCode_try_from
proof
  fix c :: TexterCode
  show "TexterCode_as_str c = MatterCode_as_ref (TexterCode_to_matter_code c)" by (cases c) simp_all
  show "TexterCode_try_from (TexterCode_to_matter_code c) = Inr c" by (cases c) (simp_all add: TexterCode_try_from_def try_from_table_def)
  fix m
  show "m = TexterCode_to_matter_code c" if "TexterCode_try_from m = Inr c"
    using that unfolding TexterCode_try_from_def by (rule try_from_table_Inr) auto
qed

primrec VerKeyCode_is_transferable :: "VerKeyCode \<Rightarrow> bool" where
  "VerKeyCode_is_transferable VerKeyCode.Ed25519 = True"
| "VerKeyCode_is_transferable VerKeyCode.Ed25519N = False"
| "VerKeyCode_is_transferable VerKeyCode.ECDSA256k1 = True"
| "VerKeyCode_is_transferable VerKeyCode.ECDSA256k1N = False"
| "VerKeyCode_is_transferable VerKeyCode.Ed448 = True"
| "VerKeyCode_is_transferable VerKeyCode.Ed448N = False"
| "VerKeyCode_is_transferable VerKeyCode.ECDSA256r1 = True"
| "VerKeyCode_is_transferable VerKeyCode.ECDSA256r1N = False"

definition VerKeyCode_is_non_transferable :: "VerKeyCode \<Rightarrow> bool" where
  "VerKeyCode_is_non_transferable c \<longleftrightarrow> \<not> VerKeyCode_is_transferable c"

text \<open>The two notions of a non-transferable key code agree.\<close>

lemma non_transferable_agree:
  "VerKeyCode_is_non_transferable c = is_non_transferable (VerKeyCode_to_matter_code c)"
  by (cases c) (simp_all add: VerKeyCode_is_non_transferable_def is_non_transferable_def)

lemma digest_codes_are_digests: "is_digest (DigestCode_to_matter_code c)"
  by (cases c) (simp_all add: is_digest_def)

primrec SeedCode_verkey_code :: "SeedCode \<Rightarrow> VerKeyCode" where
  "SeedCode_verkey_code SeedCode.Ed25519Seed = VerKeyCode.Ed25519"
| "SeedCode_verkey_code SeedCode.ECDSA256k1Seed = VerKeyCode.ECDSA256k1"
| "SeedCode_verkey_code SeedCode.Ed448Seed = VerKeyCode.Ed448"
| "SeedCode_verkey_code SeedCode.ECDSA256r1Seed = VerKeyCode.ECDSA256r1"

section \<open>Numbers\<close>

definition NumberCode_max_value :: "NumberCode \<Rightarrow> ValidationError + u128" where
  "NumberCode_max_value c =
     res_bind (MatterCode_raw_size (NumberCode_to_matter_code c)) (\<lambda>raw_size.
     if raw_size \<ge> 16 then Inr (- 1) else Inr (push_bit (raw_size * 8) 1 - 1))"

definition NumberCode_for_value :: "u128 \<Rightarrow> NumberCode" where
  "NumberCode_for_value value =
     (if value \<le> 0xFFFF then NumberCode.Short
      else if value \<le> 0xFFFFFFFF then NumberCode.Long
      else if value \<le> 0xFFFFFFFFFF then NumberCode.Tall
      else if value \<le> 0xFFFFFFFFFFFFFFFF then NumberCode.Big
      else NumberCode.Vast)"

datatype Number = Number (num_code: NumberCode) (num_value: u128)

definition Number_new :: "u128 \<Rightarrow> Number" where
  "Number_new value = Number (NumberCode_for_value value) value"

definition Number_with_code :: "NumberCode \<Rightarrow> u128 \<Rightarrow> Number" where
  "Number_with_code c value = Number c value"

text \<open>The derived orders: declaration order of the codes, then lexicographic.\<close>

primrec NumberCode_rank :: "NumberCode \<Rightarrow> nat" where
  "NumberCode_rank NumberCode.Short = 0"
| "NumberCode_rank NumberCode.Long = 1"
| "NumberCode_rank NumberCode.Tall = 2"
| "NumberCode_rank NumberCode.Big = 3"
| "NumberCode_rank NumberCode.Large = 4"
| "NumberCode_rank NumberCode.Great = 5"
| "NumberCode_rank NumberCode.Vast = 6"

lemma NumberCode_rank_inj: "NumberCode_rank c = NumberCode_rank d \<longleftrightarrow> c = d"
  by (cases c; cases d) simp_all

instantiation NumberCode :: linorder
begin

definition "c \<le> d \<longleftrightarrow> NumberCode_rank c \<le> NumberCode_rank d"
definition "c < d \<longleftrightarrow> NumberCode_rank c < NumberCode_rank d"

instance
  by intro_classes (auto simp: less_eq_NumberCode_def less_NumberCode_def NumberCode_rank_inj)

end

instantiation Number :: linorder
begin

definition "m \<le> n \<longleftrightarrow> num_code m < num_code n \<or> num_code m = num_code n \<and> num_value m \<le> num_value n"
definition "m < n \<longleftrightarrow> num_code m < num_code n \<or> num_code m = num_code n \<and> num_value m < num_value n"

instance
proof
  fix x y z :: Number
  show "x < y \<longleftrightarrow> x \<le> y \<and> \<not> y \<le> x" "x \<le> x"
    by (auto simp: less_eq_Number_def less_Number_def)
  show "x \<le> y \<Longrightarrow> y \<le> z \<Longrightarrow> x \<le> z" "x \<le> y \<Longrightarrow> y \<le> x \<Longrightarrow> x = y" "x \<le> y \<or> y \<le> x"
    by (cases x; cases y; cases z; force simp: less_eq_Number_def)+
qed

end

lemma NumberCode_for_value_mono:
  "a \<le> b \<Longrightarrow> NumberCode_for_value a \<le> NumberCode_for_value b"
  unfolding NumberCode_for_value_def less_eq_NumberCode_def
  by (auto dest: order_trans)

lemma Number_new_le: "Number_new a \<le> Number_new b \<longleftrightarrow> a \<le> b"
proof
  assume "a \<le> b"
  then show "Number_new a \<le> Number_new b"
    using NumberCode_for_value_mono[of a b] by (auto simp: Number_new_def less_eq_Number_def)
next
  assume le: "Number_new a \<le> Number_new b"
  show "a \<le> b"
  proof (rule ccontr)
    assume "\<not> a \<le> b"
    then have "b < a" by simp
    then have "NumberCode_for_value b \<le> NumberCode_for_value a"
      by (intro NumberCode_for_value_mono) simp
    with le \<open>b < a\<close> show False by (auto simp: Number_new_def less_eq_Number_def)
  qed
qed

lemma NumberCode_for_value_fits: "\<exists>m. NumberCode_max_value (NumberCode_for_value v) = Inr m \<and> v \<le> m"
  by (auto simp: NumberCode_for_value_def NumberCode_max_value_def MatterCode_raw_size_def Sizage_new_def Let_def
      push_bit_eq_mult)

end
