(* ===== verification/Keri_Events.thy ===== *)
theory Keri_Events
  imports Keri_Threshold Cesr_Typed_Codes
begin

text \<open>
  The event vocabulary, \<^verbatim>\<open>crates/keri-events/src/\<close>: identifiers, seals,
  configuration traits, message types, roles, the key events and the registry
  events, with the static laws the event types own (identity of an inception,
  membership of witness lists, the position of an anchoring seal). Ownership
  of buffers (\<^verbatim>\<open>into_static\<close>) has no counterpart.
\<close>

section \<open>Primitives and identifiers\<close>

text \<open>The four roles wrap a Matter of a fixed code family.\<close>

type_synonym VerifyingKey = "VerKeyCode Matter"
type_synonym BasicPrefix = "VerKeyCode Matter"
type_synonym Digest = "DigestCode Matter"
type_synonym Said = "DigestCode Matter"
type_synonym Verser = "VerserCode Matter"
type_synonym Noncer = "NoncerCode Matter"

datatype Identifier = Basic BasicPrefix | SelfAddressing Said

primrec as_prefixer :: "Identifier \<Rightarrow> BasicPrefix option" where
  "as_prefixer (Basic p) = Some p"
| "as_prefixer (SelfAddressing s) = None"

primrec as_saider :: "Identifier \<Rightarrow> Said option" where
  "as_saider (SelfAddressing s) = Some s"
| "as_saider (Basic p) = None"

primrec Identifier_is_transferable :: "Identifier \<Rightarrow> bool" where
  "Identifier_is_transferable (Basic p) = VerKeyCode_is_transferable (m_code p)"
| "Identifier_is_transferable (SelfAddressing s) = True"

section \<open>Seals\<close>

datatype Seal =
    DigestSeal Said
  | RootSeal Said
  | SourceSeal Number Said
  | EventSeal Identifier Number Said
  | LastSeal Identifier
  | BackSeal BasicPrefix Said
  | KindSeal Verser Said
  | OpaqueSeal bytes

section \<open>Codes\<close>

datatype KeriError = UnknownMessageType bytes | UnknownConfigTrait bytes | UnknownRole bytes

datatype ConfigTrait =
  EstOnly | DoNotDelegate | NoBackers | RegistrarBackers | NoRegistrarBackers | DelegateIsDelegator

primrec ConfigTrait_code :: "ConfigTrait \<Rightarrow> bytes" where
  "ConfigTrait_code EstOnly = str_bytes ''EO''"
| "ConfigTrait_code DoNotDelegate = str_bytes ''DND''"
| "ConfigTrait_code NoBackers = str_bytes ''NB''"
| "ConfigTrait_code RegistrarBackers = str_bytes ''RB''"
| "ConfigTrait_code NoRegistrarBackers = str_bytes ''NRB''"
| "ConfigTrait_code DelegateIsDelegator = str_bytes ''DID''"

text \<open>A string match is a lookup in the table of its arms, first arm first.\<close>

definition ConfigTrait_from_code :: "bytes \<Rightarrow> KeriError + ConfigTrait" where
  "ConfigTrait_from_code code =
     ok_or (UnknownConfigTrait code)
       (map_of [(str_bytes ''EO'', EstOnly), (str_bytes ''DND'', DoNotDelegate), (str_bytes ''NB'', NoBackers),
          (str_bytes ''RB'', RegistrarBackers), (str_bytes ''NRB'', NoRegistrarBackers),
          (str_bytes ''DID'', DelegateIsDelegator)] code)"

datatype MessageType =
  Icp | Rot | Ixn | Dip | Drt | Rct | Vcp | Vrt | Iss | Rev | Bis | Brv | Qry | Rpy | Exn

primrec MessageType_code :: "MessageType \<Rightarrow> bytes" where
  "MessageType_code Icp = str_bytes ''icp''"
| "MessageType_code Rot = str_bytes ''rot''"
| "MessageType_code Ixn = str_bytes ''ixn''"
| "MessageType_code Dip = str_bytes ''dip''"
| "MessageType_code Drt = str_bytes ''drt''"
| "MessageType_code Rct = str_bytes ''rct''"
| "MessageType_code Vcp = str_bytes ''vcp''"
| "MessageType_code Vrt = str_bytes ''vrt''"
| "MessageType_code Iss = str_bytes ''iss''"
| "MessageType_code Rev = str_bytes ''rev''"
| "MessageType_code Bis = str_bytes ''bis''"
| "MessageType_code Brv = str_bytes ''brv''"
| "MessageType_code Qry = str_bytes ''qry''"
| "MessageType_code Rpy = str_bytes ''rpy''"
| "MessageType_code Exn = str_bytes ''exn''"

definition MessageType_from_code :: "bytes \<Rightarrow> KeriError + MessageType" where
  "MessageType_from_code code =
     ok_or (UnknownMessageType code)
       (map_of [(str_bytes ''icp'', Icp), (str_bytes ''rot'', Rot), (str_bytes ''ixn'', Ixn), (str_bytes ''dip'', Dip),
          (str_bytes ''drt'', Drt), (str_bytes ''rct'', Rct), (str_bytes ''vcp'', Vcp), (str_bytes ''vrt'', Vrt),
          (str_bytes ''iss'', Iss), (str_bytes ''rev'', Rev), (str_bytes ''bis'', Bis), (str_bytes ''brv'', Brv),
          (str_bytes ''qry'', Qry), (str_bytes ''rpy'', Rpy), (str_bytes ''exn'', Exn)] code)"

definition is_establishment :: "MessageType \<Rightarrow> bool" where
  "is_establishment t \<longleftrightarrow> t \<in> set [Icp, Rot, Dip, Drt]"

datatype Role =
    RoleController | RoleWitness | RoleWatcher | RoleRegistrar | RoleJudge | RolePeer | RoleGateway | RoleJuror
  | RoleMailbox | RoleAgent | RoleIndexer

primrec Role_code :: "Role \<Rightarrow> bytes" where
  "Role_code RoleController = str_bytes ''controller''"
| "Role_code RoleWitness = str_bytes ''witness''"
| "Role_code RoleWatcher = str_bytes ''watcher''"
| "Role_code RoleRegistrar = str_bytes ''registrar''"
| "Role_code RoleJudge = str_bytes ''judge''"
| "Role_code RolePeer = str_bytes ''peer''"
| "Role_code RoleGateway = str_bytes ''gateway''"
| "Role_code RoleJuror = str_bytes ''juror''"
| "Role_code RoleMailbox = str_bytes ''mailbox''"
| "Role_code RoleAgent = str_bytes ''agent''"
| "Role_code RoleIndexer = str_bytes ''indexer''"

definition Role_from_code :: "bytes \<Rightarrow> KeriError + Role" where
  "Role_from_code code =
     ok_or (UnknownRole code)
       (map_of [(str_bytes ''controller'', RoleController), (str_bytes ''witness'', RoleWitness),
          (str_bytes ''watcher'', RoleWatcher), (str_bytes ''registrar'', RoleRegistrar),
          (str_bytes ''judge'', RoleJudge), (str_bytes ''peer'', RolePeer), (str_bytes ''gateway'', RoleGateway),
          (str_bytes ''juror'', RoleJuror), (str_bytes ''mailbox'', RoleMailbox), (str_bytes ''agent'', RoleAgent),
          (str_bytes ''indexer'', RoleIndexer)] code)"

text \<open>
  The contract the three code enums share: every value's code parses back, and
  only codes parse.
\<close>

locale named_codes =
  fixes code :: "'a \<Rightarrow> bytes" and from_code :: "bytes \<Rightarrow> KeriError + 'a"
  assumes from_code_code: "from_code (code x) = Inr x"
    and code_from_code: "from_code bs = Inr x \<Longrightarrow> code x = bs"
begin

lemma code_inj: "code x = code y \<longleftrightarrow> x = y"
  by (metis from_code_code sum.inject(2))

lemma from_code_iff: "from_code bs = Inr x \<longleftrightarrow> bs = code x"
  using from_code_code code_from_code by blast

end

interpretation config_trait: named_codes ConfigTrait_code ConfigTrait_from_code
proof
  show "ConfigTrait_from_code (ConfigTrait_code x) = Inr x" for x
    by (cases x) (simp_all add: ConfigTrait_from_code_def str_bytes_def)
  show "ConfigTrait_from_code bs = Inr x \<Longrightarrow> ConfigTrait_code x = bs" for bs x
    by (auto simp: ConfigTrait_from_code_def split: if_splits)
qed

interpretation message_type: named_codes MessageType_code MessageType_from_code
proof
  show "MessageType_from_code (MessageType_code x) = Inr x" for x
    by (cases x) (simp_all add: MessageType_from_code_def str_bytes_def)
  show "MessageType_from_code bs = Inr x \<Longrightarrow> MessageType_code x = bs" for bs x
    by (auto simp: MessageType_from_code_def split: if_splits)
qed

interpretation role: named_codes Role_code Role_from_code
proof
  show "Role_from_code (Role_code x) = Inr x" for x
    by (cases x) (simp_all add: Role_from_code_def str_bytes_def)
  show "Role_from_code bs = Inr x \<Longrightarrow> Role_code x = bs" for bs x
    by (auto simp: Role_from_code_def split: if_splits)
qed

end
