(* ===== verification/Keri_Key_Events.thy ===== *)
theory Keri_Key_Events
  imports Keri_Events
begin

text \<open>
  The key events of \<^verbatim>\<open>crates/keri-events/src/event/\<close> and \<^verbatim>\<open>receipt.rs\<close>, the identity
  law of an inception, the membership laws of \<^verbatim>\<open>member_set.rs\<close>, and the position
  at which one event anchors another.
\<close>

section \<open>Events\<close>

record InceptionEvent =
  icp_prefix :: Identifier
  icp_sn :: Number
  icp_said :: Said
  icp_keys :: "VerifyingKey list"
  icp_threshold :: SigningThreshold
  icp_next_keys :: "Digest list"
  icp_next_threshold :: SigningThreshold
  icp_witnesses :: "BasicPrefix list"
  icp_witness_threshold :: Toad
  icp_config :: "ConfigTrait list"
  icp_anchors :: "Seal list"
  icp_threshold_form :: ThresholdForm

record RotationEvent =
  rot_prefix :: Identifier
  rot_sn :: Number
  rot_said :: Said
  rot_prior :: Said
  rot_keys :: "VerifyingKey list"
  rot_threshold :: SigningThreshold
  rot_next_keys :: "Digest list"
  rot_next_threshold :: SigningThreshold
  rot_witness_additions :: "BasicPrefix list"
  rot_witness_removals :: "BasicPrefix list"
  rot_witness_threshold :: Toad
  rot_anchors :: "Seal list"
  rot_threshold_form :: ThresholdForm

record InteractionEvent =
  ixn_prefix :: Identifier
  ixn_sn :: Number
  ixn_said :: Said
  ixn_prior :: Said
  ixn_anchors :: "Seal list"

record DelegatedInceptionEvent =
  dip_inception :: InceptionEvent
  dip_delegator :: Identifier

record DelegatedRotationEvent =
  drt_rotation :: RotationEvent

datatype KeriEvent =
    Inception InceptionEvent
  | Rotation RotationEvent
  | Interaction InteractionEvent
  | DelegatedInception DelegatedInceptionEvent
  | DelegatedRotation DelegatedRotationEvent

primrec ev_message_type :: "KeriEvent \<Rightarrow> MessageType" where
  "ev_message_type (Inception e) = Icp"
| "ev_message_type (Rotation e) = Rot"
| "ev_message_type (Interaction e) = Ixn"
| "ev_message_type (DelegatedInception e) = Dip"
| "ev_message_type (DelegatedRotation e) = Drt"

primrec ev_sn :: "KeriEvent \<Rightarrow> Number" where
  "ev_sn (Inception e) = icp_sn e"
| "ev_sn (Rotation e) = rot_sn e"
| "ev_sn (Interaction e) = ixn_sn e"
| "ev_sn (DelegatedInception e) = icp_sn (dip_inception e)"
| "ev_sn (DelegatedRotation e) = rot_sn (drt_rotation e)"

primrec ev_said :: "KeriEvent \<Rightarrow> Said" where
  "ev_said (Inception e) = icp_said e"
| "ev_said (Rotation e) = rot_said e"
| "ev_said (Interaction e) = ixn_said e"
| "ev_said (DelegatedInception e) = icp_said (dip_inception e)"
| "ev_said (DelegatedRotation e) = rot_said (drt_rotation e)"

primrec ev_prefix :: "KeriEvent \<Rightarrow> Identifier" where
  "ev_prefix (Inception e) = icp_prefix e"
| "ev_prefix (Rotation e) = rot_prefix e"
| "ev_prefix (Interaction e) = ixn_prefix e"
| "ev_prefix (DelegatedInception e) = icp_prefix (dip_inception e)"
| "ev_prefix (DelegatedRotation e) = rot_prefix (drt_rotation e)"

primrec ev_anchors :: "KeriEvent \<Rightarrow> Seal list" where
  "ev_anchors (Inception e) = icp_anchors e"
| "ev_anchors (Rotation e) = rot_anchors e"
| "ev_anchors (Interaction e) = ixn_anchors e"
| "ev_anchors (DelegatedInception e) = icp_anchors (dip_inception e)"
| "ev_anchors (DelegatedRotation e) = rot_anchors (drt_rotation e)"

text \<open>The event seals of a list, in order, by their coordinate.\<close>

fun event_seal :: "Seal \<Rightarrow> (Identifier \<times> u128 \<times> Said) option" where
  "event_seal (EventSeal i s d) = Some (i, num_value s, d)"
| "event_seal _ = None"

definition anchor_position :: "KeriEvent \<Rightarrow> KeriEvent \<Rightarrow> nat option" where
  "anchor_position e delegated =
     position (\<lambda>(i, s, d). i = ev_prefix delegated \<and> s = num_value (ev_sn delegated) \<and> d = ev_said delegated)
       (List.map_filter event_seal (ev_anchors e))"

text \<open>\<^verbatim>\<open>struct Receipt\<close>: the coordinate of the receipted event.\<close>

record Receipt =
  rct_prefix :: Identifier
  rct_sn :: Number
  rct_said :: Said

section \<open>The identity law of an inception\<close>

datatype InceptionIdentityError =
    BasicKeyCount nat
  | BasicThreshold
  | BasicKeyMismatch
  | NonTransferableNextKeys
  | NonTransferableWitnesses
  | NonTransferableAnchors

definition check_identity :: "InceptionEvent \<Rightarrow> InceptionIdentityError + unit" where
  "check_identity e =
     (case icp_prefix e of
        SelfAddressing _ \<Rightarrow> Inr ()
      | Basic prefix \<Rightarrow>
          if length (icp_keys e) \<noteq> 1 then Inl (BasicKeyCount (length (icp_keys e)))
          else if icp_threshold e \<noteq> Simple 1 then Inl BasicThreshold
          else if prefix \<noteq> icp_keys e ! 0 then Inl BasicKeyMismatch
          else if \<not> VerKeyCode_is_transferable (m_code prefix) then
            (if icp_next_keys e \<noteq> [] then Inl NonTransferableNextKeys
             else if icp_witnesses e \<noteq> [] then Inl NonTransferableWitnesses
             else if icp_anchors e \<noteq> [] then Inl NonTransferableAnchors
             else Inr ())
          else Inr ())"

section \<open>Membership laws\<close>

datatype MemberSetError =
    Duplicate string
  | TransferableWitness string
  | CutAddOverlap string string

text \<open>The scan compares every member with those before it.\<close>

fun check_members_loop :: "BasicPrefix list \<Rightarrow> BasicPrefix list \<Rightarrow> string \<Rightarrow> MemberSetError + unit" where
  "check_members_loop seen [] label = Inr ()"
| "check_members_loop seen (m # ms) label =
     (if m \<in> set seen then Inl (Duplicate label) else check_members_loop (seen @ [m]) ms label)"

definition check_members :: "BasicPrefix list \<Rightarrow> string \<Rightarrow> MemberSetError + unit" where
  "check_members members label = check_members_loop [] members label"

definition check_witnesses :: "BasicPrefix list \<Rightarrow> string \<Rightarrow> MemberSetError + unit" where
  "check_witnesses witnesses label =
     res_bind (check_members witnesses label) (\<lambda>_.
     if list_ex (\<lambda>w. VerKeyCode_is_transferable (m_code w)) witnesses then Inl (TransferableWitness label)
     else Inr ())"

definition check_deltas :: "BasicPrefix list \<Rightarrow> BasicPrefix list \<Rightarrow> string \<Rightarrow> string \<Rightarrow> MemberSetError + unit" where
  "check_deltas cuts additions cut_label addition_label =
     res_bind (check_members cuts cut_label) (\<lambda>_.
     res_bind (check_members additions addition_label) (\<lambda>_.
     if list_ex (\<lambda>c. c \<in> set additions) cuts then Inl (CutAddOverlap cut_label addition_label)
     else Inr ()))"

definition check_witness_deltas ::
    "BasicPrefix list \<Rightarrow> BasicPrefix list \<Rightarrow> string \<Rightarrow> string \<Rightarrow> MemberSetError + unit" where
  "check_witness_deltas cuts additions cut_label addition_label =
     res_bind (check_deltas cuts additions cut_label addition_label) (\<lambda>_.
     res_bind (check_witnesses cuts cut_label) (\<lambda>_.
     check_witnesses additions addition_label))"

section \<open>Lemmas\<close>

text \<open>The witness laws as predicates on lists.\<close>

definition members_ok :: "BasicPrefix list \<Rightarrow> bool" where
  "members_ok ms \<longleftrightarrow> distinct ms"

definition witnesses_ok :: "BasicPrefix list \<Rightarrow> bool" where
  "witnesses_ok ws \<longleftrightarrow> distinct ws \<and> list_all (\<lambda>w. \<not> VerKeyCode_is_transferable (m_code w)) ws"

lemma check_members_loop_Inr:
  "check_members_loop seen ms l = Inr () \<longleftrightarrow> distinct ms \<and> set seen \<inter> set ms = {}"
  by (induction ms arbitrary: seen) auto

lemma check_members_Inr [simp]: "check_members ms l = Inr () \<longleftrightarrow> distinct ms"
  by (simp add: check_members_def check_members_loop_Inr)

lemma check_witnesses_Inr [simp]: "check_witnesses ws l = Inr () \<longleftrightarrow> witnesses_ok ws"
  by (auto simp: check_witnesses_def witnesses_ok_def list_all_iff list_ex_iff)

lemma check_deltas_Inr [simp]:
  "check_deltas cuts adds l l' = Inr () \<longleftrightarrow> distinct cuts \<and> distinct adds \<and> set cuts \<inter> set adds = {}"
  by (auto simp: check_deltas_def list_ex_iff)

lemma check_witness_deltas_Inr [simp]:
  "check_witness_deltas cuts adds l l' = Inr () \<longleftrightarrow>
     witnesses_ok cuts \<and> witnesses_ok adds \<and> set cuts \<inter> set adds = {}"
  by (auto simp: check_witness_deltas_def witnesses_ok_def)

text \<open>Every failure of the membership scan names a duplicate.\<close>

lemma check_members_Inl: "check_members ms l = Inl e \<longleftrightarrow> \<not> distinct ms \<and> e = Duplicate l"
proof (cases "check_members ms l")
  case (Inl e')
  have "check_members_loop seen ms l = Inl e' \<longrightarrow> e' = Duplicate l" for seen
    by (induction ms arbitrary: seen) auto
  then have "e' = Duplicate l" using Inl by (simp add: check_members_def)
  moreover have "\<not> distinct ms" using Inl check_members_Inr[of ms l] by simp
  ultimately show ?thesis using Inl by auto
next
  case (Inr u)
  then have "distinct ms" by simp
  then show ?thesis unfolding Inr by simp
qed

lemma check_identity_basic:
  assumes "check_identity e = Inr ()" "icp_prefix e = Basic p"
  shows "icp_keys e = [p] \<and> icp_threshold e = Simple 1"
  using assms by (auto simp: check_identity_def length_Suc_conv split: if_splits)

lemma check_identity_nontrans:
  assumes "check_identity e = Inr ()" "\<not> Identifier_is_transferable (icp_prefix e)"
  shows "icp_next_keys e = [] \<and> icp_witnesses e = [] \<and> icp_anchors e = []"
  using assms by (cases "icp_prefix e") (auto simp: check_identity_def split: if_splits)

lemma anchor_position_Some:
  assumes "anchor_position e d = Some k"
  shows "\<exists>s. EventSeal (ev_prefix d) s (ev_said d) \<in> set (ev_anchors e) \<and> num_value s = num_value (ev_sn d)"
proof -
  have "(ev_prefix d, num_value (ev_sn d), ev_said d) \<in> set (List.map_filter event_seal (ev_anchors e))"
    using assms unfolding anchor_position_def position_Some by (auto dest: nth_mem)
  then show ?thesis by (auto simp: List.map_filter_def elim!: event_seal.elims)
qed

lemma anchor_position_None:
  "anchor_position e d = None \<longleftrightarrow>
     (\<forall>s. num_value s = num_value (ev_sn d) \<longrightarrow> EventSeal (ev_prefix d) s (ev_said d) \<notin> set (ev_anchors e))"
  by (auto simp: anchor_position_def position_None List.map_filter_def elim!: event_seal.elims)

end
