(* ===== verification/Keri_Tel.thy ===== *)
theory Keri_Tel
  imports Keri_Key_Events
begin

text \<open>
  The registry events of \<^verbatim>\<open>crates/keri-events/src/tel.rs\<close>: the transaction event
  log of a credential registry. Inception, issue and backed issue are pinned to
  sequence number 0, the revokes to 1, and a rotation carries its own.
\<close>

record RegistryInception =
  vcp_said :: Said
  vcp_issuer :: Identifier
  vcp_config :: "ConfigTrait list"
  vcp_backer_threshold :: Toad
  vcp_backers :: "BasicPrefix list"
  vcp_nonce :: Noncer

record RegistryRotation =
  vrt_said :: Said
  vrt_registry :: Said
  vrt_prior :: Said
  vrt_sn :: Number
  vrt_backer_threshold :: Toad
  vrt_backer_cuts :: "BasicPrefix list"
  vrt_backer_additions :: "BasicPrefix list"

record IssueEvent =
  iss_said :: Said
  iss_credential_said :: Said
  iss_registry_said :: Said
  iss_datetime :: bytes

record RevokeEvent =
  rev_said :: Said
  rev_credential_said :: Said
  rev_registry_said :: Said
  rev_prior :: Said
  rev_datetime :: bytes

record BackedIssueEvent =
  bis_said :: Said
  bis_credential_said :: Said
  bis_registry_said :: Said
  bis_anchor :: Seal
  bis_datetime :: bytes

record BackedRevokeEvent =
  brv_said :: Said
  brv_credential_said :: Said
  brv_prior :: Said
  brv_anchor :: Seal
  brv_datetime :: bytes

datatype TelEvent =
    TelRegistryInception RegistryInception
  | TelRegistryRotation RegistryRotation
  | TelIssue IssueEvent
  | TelRevoke RevokeEvent
  | TelBackedIssue BackedIssueEvent
  | TelBackedRevoke BackedRevokeEvent

primrec tel_message_type :: "TelEvent \<Rightarrow> MessageType" where
  "tel_message_type (TelRegistryInception e) = Vcp"
| "tel_message_type (TelRegistryRotation e) = Vrt"
| "tel_message_type (TelIssue e) = Iss"
| "tel_message_type (TelRevoke e) = Rev"
| "tel_message_type (TelBackedIssue e) = Bis"
| "tel_message_type (TelBackedRevoke e) = Brv"

primrec tel_sn :: "TelEvent \<Rightarrow> Number" where
  "tel_sn (TelRegistryInception e) = Number_new 0"
| "tel_sn (TelRegistryRotation e) = vrt_sn e"
| "tel_sn (TelIssue e) = Number_new 0"
| "tel_sn (TelRevoke e) = Number_new 1"
| "tel_sn (TelBackedIssue e) = Number_new 0"
| "tel_sn (TelBackedRevoke e) = Number_new 1"

primrec tel_said :: "TelEvent \<Rightarrow> Said" where
  "tel_said (TelRegistryInception e) = vcp_said e"
| "tel_said (TelRegistryRotation e) = vrt_said e"
| "tel_said (TelIssue e) = iss_said e"
| "tel_said (TelRevoke e) = rev_said e"
| "tel_said (TelBackedIssue e) = bis_said e"
| "tel_said (TelBackedRevoke e) = brv_said e"

end
