(* ===== verification/Keri_Error.thy ===== *)
theory Keri_Error
  imports Keri_Tel
begin

text \<open>
  The verdicts of the folds, \<^verbatim>\<open>crates/keri/src/error.rs\<close>: why an event is
  rejected, and what a host should do with it. Error messages are left out.
\<close>

section \<open>Sub-errors\<close>

datatype WitnessSetError =
    Membership MemberSetError
  | RemovalNotCurrent
  | AdditionAlreadyPresent

datatype DelegationError =
    PlainRotationOnDelegatedState
  | EvidenceRequired
  | SealNotFound
  | DelegatorMismatch
  | DelegatorUnknown
  | Denied

datatype TransferabilityError = NonTransferableCommitsNextKeys

datatype StructuralError =
    IdentifierMismatch
  | DelegatedPrefixNotDigestive
  | NotInception
  | NotDelegatedInception
  | NotDelegatedRotation
  | NonZeroGenesisSn u128
  | DuplicateInception
  | InteractionOnEstablishmentOnly
  | SequenceNumberOverflow
  | WitnessCountOverflow

section \<open>Rejections of the key-state fold\<close>

datatype Rejection =
    InceptionIdentity InceptionIdentityError
  | OutOfOrder u128 u128
  | PriorDigestMismatch
  | MissingSignatures nat
  | MalformedThreshold SigningThresholdError
  | PriorNextThresholdUnsatisfied nat
  | WitnessSet WitnessSetError
  | WitnessThresholdExceeded u32 nat
  | WitnessThresholdZeroWithWitnesses nat
  | InsufficientWitnessReceipts nat u32
  | TransferabilityRej TransferabilityError
  | Delegation DelegationError
  | NonTransferableState
  | Structural StructuralError

datatype EvidenceKind =
    CredentialSchema
  | CredentialTelState
  | CredentialChain
  | IpexPrior
  | IpexSenderState
  | IpexCredential
  | IpexPathedProof
  | IpexAnchorState
  | DiscoverySignerState
  | DiscoverySubjectState
  | RegistryStateEvidence
  | IssuerState
  | KelAnchor
  | PriorEvents u128
  | Signatures
  | WitnessReceipts nat u32
  | BackerReceipts nat u32
  | DelegationEvidenceKind
  | ReceiptorEstablishment
  | TelAnchor u128

datatype Disposition = Terminal | Contested | Awaiting EvidenceKind

text \<open>The arms of \<^verbatim>\<open>Rejection::disposition\<close>, in order.\<close>

fun disposition :: "Rejection \<Rightarrow> Disposition" where
  "disposition (Structural e) = (if e = DuplicateInception then Contested else Terminal)"
| "disposition PriorDigestMismatch = Terminal"
| "disposition (InceptionIdentity e) = Terminal"
| "disposition (MalformedThreshold e) = Terminal"
| "disposition (WitnessSet e) = Terminal"
| "disposition (WitnessThresholdExceeded t c) = Terminal"
| "disposition (WitnessThresholdZeroWithWitnesses c) = Terminal"
| "disposition (TransferabilityRej e) = Terminal"
| "disposition NonTransferableState = Terminal"
| "disposition (MissingSignatures verified) = (if verified = 0 then Terminal else Awaiting Signatures)"
| "disposition (Delegation e) =
     (if e \<in> set [Denied, DelegatorUnknown, PlainRotationOnDelegatedState] then Terminal
      else Awaiting DelegationEvidenceKind)"
| "disposition (PriorNextThresholdUnsatisfied n) = Awaiting Signatures"
| "disposition (OutOfOrder expected actual) =
     (if expected < actual then Awaiting (PriorEvents expected) else Contested)"
| "disposition (InsufficientWitnessReceipts valid required) = Awaiting (WitnessReceipts valid required)"

section \<open>Rejections of the registry fold\<close>

datatype RegistryStructuralError =
    NotRegistryInception
  | NotCredentialInception
  | NotCredentialTransition
  | NotManagementRotation
  | NoBackersWithBackers
  | SimpleEventOnBackerRegistry
  | BackedEventOnBackerlessRegistry
  | RotationOnBackerlessRegistry
  | RegSequenceNumberOverflow

datatype RegistryRejection =
    InconsistentRegistry
  | InconsistentCredential
  | InconsistentIssuer
  | InconsistentAnchor
  | InconsistentManagement
  | MissingBackerReceipts nat u32
  | RegDuplicateInception
  | MissingRegistry
  | MissingIssuer
  | MissingAnchor
  | RegOutOfOrder u128 u128
  | RegPriorDigestMismatch
  | UnresolvedAnchor u128
  | BackerSet WitnessSetError
  | BackerThreshold ToadError
  | RegSignatures Rejection
  | RegStructural RegistryStructuralError

fun registry_disposition :: "RegistryRejection \<Rightarrow> Disposition" where
  "registry_disposition RegDuplicateInception = Contested"
| "registry_disposition InconsistentRegistry = Terminal"
| "registry_disposition InconsistentCredential = Terminal"
| "registry_disposition InconsistentIssuer = Terminal"
| "registry_disposition InconsistentAnchor = Terminal"
| "registry_disposition InconsistentManagement = Terminal"
| "registry_disposition RegPriorDigestMismatch = Terminal"
| "registry_disposition (BackerSet e) = Terminal"
| "registry_disposition (BackerThreshold e) = Terminal"
| "registry_disposition (RegStructural e) = Terminal"
| "registry_disposition MissingRegistry = Awaiting RegistryStateEvidence"
| "registry_disposition MissingIssuer = Awaiting IssuerState"
| "registry_disposition MissingAnchor = Awaiting KelAnchor"
| "registry_disposition (MissingBackerReceipts valid required) = Awaiting (BackerReceipts valid required)"
| "registry_disposition (RegOutOfOrder expected actual) =
     (if expected < actual then Awaiting (PriorEvents expected) else Contested)"
| "registry_disposition (UnresolvedAnchor sn) = Awaiting (TelAnchor sn)"
| "registry_disposition (RegSignatures inner) = disposition inner"

datatype ExchangeError = SenderMismatch | ExchangeSignatures Rejection

end
