(* ===== verification/Cesr_Indexer.thy ===== *)
theory Cesr_Indexer
  imports Cesr_Typed_Codes
begin

unbundle bit_operations_syntax

text \<open>
  Indexed signatures, \<^verbatim>\<open>core/indexer/\<close>: the sixteen codes with their size
  table (\<^verbatim>\<open>code.rs\<close>, \<^verbatim>\<open>xizage.rs\<close>), the writer (\<^verbatim>\<open>indexer.rs\<close>), the text and
  binary parsers, the frame size and the validating builder (\<^verbatim>\<open>builder.rs\<close>).
  The base64 crate's unpadded engine is the pair of parameters \<^verbatim>\<open>enc\<close>, \<^verbatim>\<open>dec\<close>.
\<close>

section \<open>Codes\<close>

datatype IndexMode = Both | CurrentOnly

datatype (plugins only: code size) IndexedSigCode =
    Ed25519 | Ed25519Crt | ECDSA256k1 | ECDSA256k1Crt | ECDSA256r1 | ECDSA256r1Crt
  | Ed448 | Ed448Crt | Ed25519Big | Ed25519BigCrt | ECDSA256k1Big | ECDSA256k1BigCrt
  | ECDSA256r1Big | ECDSA256r1BigCrt | Ed448Big | Ed448BigCrt

primrec IndexedSigCode_as_str :: "IndexedSigCode \<Rightarrow> string" where
  "IndexedSigCode_as_str Ed25519 = ''A''"
| "IndexedSigCode_as_str Ed25519Crt = ''B''"
| "IndexedSigCode_as_str ECDSA256k1 = ''C''"
| "IndexedSigCode_as_str ECDSA256k1Crt = ''D''"
| "IndexedSigCode_as_str ECDSA256r1 = ''E''"
| "IndexedSigCode_as_str ECDSA256r1Crt = ''F''"
| "IndexedSigCode_as_str Ed448 = ''0A''"
| "IndexedSigCode_as_str Ed448Crt = ''0B''"
| "IndexedSigCode_as_str Ed25519Big = ''2A''"
| "IndexedSigCode_as_str Ed25519BigCrt = ''2B''"
| "IndexedSigCode_as_str ECDSA256k1Big = ''2C''"
| "IndexedSigCode_as_str ECDSA256k1BigCrt = ''2D''"
| "IndexedSigCode_as_str ECDSA256r1Big = ''2E''"
| "IndexedSigCode_as_str ECDSA256r1BigCrt = ''2F''"
| "IndexedSigCode_as_str Ed448Big = ''3A''"
| "IndexedSigCode_as_str Ed448BigCrt = ''3B''"

definition IndexedSigCode_arms :: "(string \<times> IndexedSigCode) list" where
  "IndexedSigCode_arms =
     [(''A'', Ed25519), (''B'', Ed25519Crt), (''C'', ECDSA256k1), (''D'', ECDSA256k1Crt),
      (''E'', ECDSA256r1), (''F'', ECDSA256r1Crt), (''0A'', Ed448), (''0B'', Ed448Crt),
      (''2A'', Ed25519Big), (''2B'', Ed25519BigCrt), (''2C'', ECDSA256k1Big),
      (''2D'', ECDSA256k1BigCrt), (''2E'', ECDSA256r1Big), (''2F'', ECDSA256r1BigCrt),
      (''3A'', Ed448Big), (''3B'', Ed448BigCrt)]"

text \<open>An unknown hard code is returned as the error \<^verbatim>\<open>CodeError::UnknownCode\<close>.\<close>

definition IndexedSigCode_from_hard :: "bytes \<Rightarrow> bytes + IndexedSigCode" where
  "IndexedSigCode_from_hard hard =
     (case map_of (map (\<lambda>(s, c). (str_bytes s, c)) IndexedSigCode_arms) hard of
        Some c \<Rightarrow> Inr c
      | None \<Rightarrow> Inl hard)"

datatype XizageSize = Fixed nat | Variable

record Xizage =
  xz_hs :: nat
  xz_ss :: nat
  xz_os :: nat
  xz_fs :: XizageSize
  xz_ls :: nat

definition Xizage_new :: "nat \<Rightarrow> nat \<Rightarrow> nat \<Rightarrow> XizageSize \<Rightarrow> nat \<Rightarrow> Xizage" where
  "Xizage_new h s oo f l = \<lparr>xz_hs = h, xz_ss = s, xz_os = oo, xz_fs = f, xz_ls = l\<rparr>"

definition get_xizage :: "IndexedSigCode \<Rightarrow> Xizage" where
  "get_xizage c =
     (if c \<in> set [Ed25519, Ed25519Crt, ECDSA256k1, ECDSA256k1Crt, ECDSA256r1, ECDSA256r1Crt]
        then Xizage_new 1 1 0 (XizageSize.Fixed 88) 0
      else if c \<in> set [Ed448, Ed448Crt] then Xizage_new 2 2 1 (XizageSize.Fixed 156) 0
      else if c \<in> set [Ed25519Big, Ed25519BigCrt, ECDSA256k1Big, ECDSA256k1BigCrt, ECDSA256r1Big, ECDSA256r1BigCrt]
        then Xizage_new 2 4 2 (XizageSize.Fixed 92) 0
      else Xizage_new 2 6 3 (XizageSize.Fixed 160) 0)"

definition IndexedSigCode_mode :: "IndexedSigCode \<Rightarrow> IndexMode" where
  "IndexedSigCode_mode c =
     (if c \<in> set [Ed25519, ECDSA256k1, ECDSA256r1, Ed448, Ed25519Big, ECDSA256k1Big, ECDSA256r1Big, Ed448Big]
      then Both else CurrentOnly)"

definition is_big :: "IndexedSigCode \<Rightarrow> bool" where
  "is_big c \<longleftrightarrow> c \<notin> set [Ed25519, Ed25519Crt, ECDSA256k1, ECDSA256k1Crt, ECDSA256r1, ECDSA256r1Crt, Ed448, Ed448Crt]"

definition IndexedSigCode_raw_size :: "IndexedSigCode \<Rightarrow> nat" where
  "IndexedSigCode_raw_size c = (if c \<in> set [Ed448, Ed448Crt, Ed448Big, Ed448BigCrt] then 114 else 64)"

definition max_index :: "IndexedSigCode \<Rightarrow> u32" where
  "max_index c = (let xz = get_xizage c in 64 ^ (xz_ss xz - xz_os xz) - 1)"

definition max_ondex :: "IndexedSigCode \<Rightarrow> u32 option" where
  "max_ondex c =
     (case IndexedSigCode_mode c of
        CurrentOnly \<Rightarrow> None
      | Both \<Rightarrow> (let os = xz_os (get_xizage c) in
                if os = 0 then Some (max_index c) else Some (64 ^ os - 1)))"

definition for_index :: "IndexedSigCode \<Rightarrow> u32 \<Rightarrow> IndexedSigCode" where
  "for_index c index =
     (if is_big c \<or> index \<le> max_index c then c
      else case map_of [(Ed25519, Ed25519Big), (Ed25519Crt, Ed25519BigCrt), (ECDSA256k1, ECDSA256k1Big),
               (ECDSA256k1Crt, ECDSA256k1BigCrt), (ECDSA256r1, ECDSA256r1Big), (ECDSA256r1Crt, ECDSA256r1BigCrt),
               (Ed448, Ed448Big), (Ed448Crt, Ed448BigCrt)] c of
             Some b \<Rightarrow> b
           | None \<Rightarrow> c)"

definition hardage :: "byte \<Rightarrow> nat option" where
  "hardage c =
     (if (65 \<le> c \<and> c \<le> 90) \<or> (97 \<le> c \<and> c \<le> 122) then Some 1
      else if 48 \<le> c \<and> c \<le> 52 then Some 2
      else None)"

section \<open>Errors\<close>

datatype IndexerParseError =
    EmptyStream
  | StreamTooShort nat nat
  | UnknownCode bytes
  | InvalidBase64
  | NonCanonical
  | OndexNotZeroForCurrentOnly u32
  | SizeOverflow

datatype IndexerValidationError =
    IndexTooLarge IndexedSigCode u32 u32
  | OndexTooLarge IndexedSigCode u32 u32
  | OndexOnCurrentOnly IndexedSigCode
  | OndexMustEqualIndex IndexedSigCode u32 u32
  | UnexpectedRawSize IndexedSigCode nat nat

fun parse_error_of_b64 :: "b64_error \<Rightarrow> IndexerParseError" where
  "parse_error_of_b64 ShortBinaryStream = IndexerParseError.StreamTooShort 0 0"
| "parse_error_of_b64 _ = InvalidBase64"

text \<open>\<^verbatim>\<open>char::from(b)\<close> formatted into a string, and two lowercase hex digits.\<close>

definition char_string :: "byte \<Rightarrow> bytes" where
  "char_string b = (if b < 0x80 then [b] else [0xC0 OR drop_bit 6 b, 0x80 OR (b AND 0x3F)])"

definition hex_digit :: "nat \<Rightarrow> byte" where
  "hex_digit n = (if n < 10 then word_of_nat (48 + n) else word_of_nat (87 + n))"

definition hex2 :: "byte \<Rightarrow> bytes" where
  "hex2 b = [hex_digit (unat b div 16), hex_digit (unat b mod 16)]"

section \<open>The primitive and its writer\<close>

record Indexer =
  ix_code :: IndexedSigCode
  ix_index :: u32
  ix_ondex :: "u32 option"
  ix_raw :: bytes

definition Indexer_new :: "IndexedSigCode \<Rightarrow> u32 \<Rightarrow> u32 option \<Rightarrow> bytes \<Rightarrow> Indexer" where
  "Indexer_new c i oo r = \<lparr>ix_code = c, ix_index = i, ix_ondex = oo, ix_raw = r\<rparr>"

text \<open>\<^verbatim>\<open>full_size\<close>; no code has the variable size, whose arm is unreachable.\<close>

definition Indexer_full_size :: "Indexer \<Rightarrow> nat option" where
  "Indexer_full_size ix =
     (case xz_fs (get_xizage (ix_code ix)) of XizageSize.Fixed n \<Rightarrow> Some n | Variable \<Rightarrow> None)"

definition write_index :: "u32 \<Rightarrow> nat \<Rightarrow> bytes" where
  "write_index value width =
     map (\<lambda>position. let shift = (width - position - 1) * 6
                     in B64_ALPHABET ! unat (drop_bit shift value AND 63)) [0..<width]"

definition Indexer_append_qb64 :: "(bytes \<Rightarrow> bytes) \<Rightarrow> Indexer \<Rightarrow> bytes \<Rightarrow> bytes option" where
  "Indexer_append_qb64 enc ix out =
     Option.bind (Indexer_full_size ix) (\<lambda>fs.
     let xz = get_xizage (ix_code ix);
         hs = xz_hs xz; ss = xz_ss xz; os = xz_os xz; ls = xz_ls xz;
         ms = ss - os;
         ps = (3 - length (ix_raw ix) mod 3) mod 3;
         code_str = str_bytes (IndexedSigCode_as_str (ix_code ix));
         cs = hs + ss;
         strip = ps - ls;
         b64_start = cs - strip;
         written = zero_lead_encode enc (ix_raw ix) ps
     in if ps < ls \<or> cs < strip \<or> b64_start + length written \<noteq> fs then None
        else let frame = overwrite b64_start written (replicate fs 0);
                 frame = overwrite 0 code_str frame;
                 frame = overwrite hs (write_index (ix_index ix) ms) frame;
                 frame = overwrite (hs + ms) (write_index (case ix_ondex ix of None \<Rightarrow> 0 | Some v \<Rightarrow> v) os) frame
             in Some (out @ frame))"

definition Indexer_to_qb64 :: "(bytes \<Rightarrow> bytes) \<Rightarrow> Indexer \<Rightarrow> bytes option" where
  "Indexer_to_qb64 enc ix = Indexer_append_qb64 enc ix []"

definition Indexer_to_qb2 :: "(bytes \<Rightarrow> bytes) \<Rightarrow> (bytes \<Rightarrow> bytes option) \<Rightarrow> Indexer \<Rightarrow> bytes option" where
  "Indexer_to_qb2 enc dec ix =
     map_option (\<lambda>qb64. case dec qb64 of Some bs \<Rightarrow> bs | None \<Rightarrow> []) (Indexer_to_qb64 enc ix)"

section \<open>Parsers\<close>

definition Indexer_compute_full_size :: "nat \<Rightarrow> nat \<Rightarrow> IndexerParseError + nat" where
  "Indexer_compute_full_size index cs =
     (if index * 4 < usize_bound \<and> index * 4 + cs < usize_bound then Inr (index * 4 + cs)
      else Inl IndexerParseError.SizeOverflow)"

definition parse_sub_index :: "bytes \<Rightarrow> IndexerParseError + u32" where
  "parse_sub_index s =
     res_bind (ensure (from_utf8_ok s) InvalidBase64) (\<lambda>_. map_err parse_error_of_b64 (decode_int s))"

definition Indexer_read_code :: "bytes \<Rightarrow> IndexerParseError + IndexedSigCode" where
  "Indexer_read_code stream =
     res_bind (ok_or IndexerParseError.EmptyStream (slice_get stream 0)) (\<lambda>first_byte.
     res_bind (ok_or (IndexerParseError.UnknownCode (char_string first_byte)) (hardage first_byte)) (\<lambda>hard_size.
     res_bind (ensure (hard_size \<le> length stream) (IndexerParseError.StreamTooShort hard_size (length stream))) (\<lambda>_.
     let hard = take hard_size stream in
     res_bind (ensure (from_utf8_ok hard) InvalidBase64) (\<lambda>_.
     map_err IndexerParseError.UnknownCode (IndexedSigCode_from_hard hard)))))"

definition Indexer_from_qb64 :: "(bytes \<Rightarrow> bytes option) \<Rightarrow> bytes \<Rightarrow> IndexerParseError + (Indexer \<times> nat)" where
  "Indexer_from_qb64 dec stream =
     res_bind (Indexer_read_code stream) (\<lambda>c.
     let xz = get_xizage c; hs = xz_hs xz; ss = xz_ss xz; os = xz_os xz; ls = xz_ls xz;
         cs = hs + ss; ms = ss - os in
     res_bind (ensure (cs \<le> length stream) (IndexerParseError.StreamTooShort cs (length stream))) (\<lambda>_.
     res_bind (parse_sub_index (take ms (drop hs stream))) (\<lambda>index.
     res_bind (case IndexedSigCode_mode c of
         CurrentOnly \<Rightarrow>
           (if os > 0 then
              res_bind (parse_sub_index (take os (drop (hs + ms) stream))) (\<lambda>ondex_val.
              if ondex_val \<noteq> 0 then Inl (OndexNotZeroForCurrentOnly ondex_val) else Inr None)
            else Inr None)
       | Both \<Rightarrow>
           (if os > 0 then
              res_bind (parse_sub_index (take os (drop (hs + ms) stream))) (\<lambda>ondex_val. Inr (Some ondex_val))
            else Inr (Some index))) (\<lambda>ondex.
     res_bind (case xz_fs xz of
         XizageSize.Fixed n \<Rightarrow> Inr n
       | Variable \<Rightarrow> Indexer_compute_full_size (unat index) cs) (\<lambda>fs.
     res_bind (ensure (fs \<le> length stream) (IndexerParseError.StreamTooShort fs (length stream))) (\<lambda>_.
     let ps = cs mod 4; payload = take (fs - cs) (drop cs stream); temp = replicate ps (of_char CHR ''A'') @ payload in
     res_bind (ok_or InvalidBase64 (dec temp)) (\<lambda>decoded.
     let skip = (if ps \<noteq> 0 then ps else ls); raw = drop skip decoded in
     Inr (Indexer_new c index ondex raw, fs))))))))"

definition Indexer_from_qb2 ::
    "(bytes \<Rightarrow> bytes) \<Rightarrow> (bytes \<Rightarrow> bytes option) \<Rightarrow> bytes \<Rightarrow> IndexerParseError + (Indexer \<times> nat)" where
  "Indexer_from_qb2 enc dec stream =
     res_bind (ok_or IndexerParseError.EmptyStream (slice_get stream 0)) (\<lambda>first_byte.
     let first_sextet = drop_bit 2 first_byte in
     res_bind (if first_sextet \<le> 51 then Inr 1
               else if first_sextet \<le> 56 then Inr 2
               else Inl (IndexerParseError.UnknownCode (str_bytes ''binary lead byte 0x'' @ hex2 first_byte))) (\<lambda>hs.
     let bhs = (hs * 3 + 3) div 4 in
     res_bind (ensure (bhs \<le> length stream) (IndexerParseError.StreamTooShort bhs (length stream))) (\<lambda>_.
     res_bind (map_err parse_error_of_b64 (encode_binary (take bhs stream) hs)) (\<lambda>hard_b64.
     res_bind (map_err IndexerParseError.UnknownCode (IndexedSigCode_from_hard (take hs hard_b64))) (\<lambda>c.
     let xz = get_xizage c; ss = xz_ss xz; cs = hs + ss; bcs = (cs * 3 + 3) div 4 in
     res_bind (ensure (bcs \<le> length stream) (IndexerParseError.StreamTooShort bcs (length stream))) (\<lambda>_.
     res_bind (map_err parse_error_of_b64 (encode_binary (take bcs stream) cs)) (\<lambda>both_b64.
     let soft = take (cs - hs) (drop hs both_b64); ms = ss - xz_os xz in
     res_bind (map_err parse_error_of_b64 (decode_int (take ms soft))) (\<lambda>index :: u32.
     res_bind (case xz_fs xz of
         XizageSize.Fixed n \<Rightarrow> Inr n
       | Variable \<Rightarrow> Indexer_compute_full_size (unat index) cs) (\<lambda>fs.
     let bfs = fs * 3 div 4 in
     res_bind (ensure (bfs \<le> length stream) (IndexerParseError.StreamTooShort bfs (length stream))) (\<lambda>_.
     res_bind (Indexer_from_qb64 dec (enc (take bfs stream))) (\<lambda>(indexer, _).
     Inr (indexer, bfs))))))))))))"

definition IndexedSigCode_frame_size_of :: "IndexedSigCode \<Rightarrow> bytes \<Rightarrow> IndexerParseError + nat" where
  "IndexedSigCode_frame_size_of c stream =
     (let xz = get_xizage c; hs = xz_hs xz; ss = xz_ss xz; os = xz_os xz; cs = hs + ss; ms = ss - os in
      case xz_fs xz of
        XizageSize.Fixed n \<Rightarrow> Inr n
      | Variable \<Rightarrow>
          res_bind (ensure (cs \<le> length stream) (IndexerParseError.StreamTooShort cs (length stream))) (\<lambda>_.
          let index_str = take ms (drop hs stream) in
          res_bind (ensure (from_utf8_ok index_str) InvalidBase64) (\<lambda>_.
          res_bind (map_err parse_error_of_b64 (decode_int index_str)) (\<lambda>index :: u64.
          Indexer_compute_full_size (unat index) cs))))"

definition IndexedSigCode_frame_size :: "bytes \<Rightarrow> IndexerParseError + nat" where
  "IndexedSigCode_frame_size stream =
     res_bind (Indexer_read_code stream) (\<lambda>c. IndexedSigCode_frame_size_of c stream)"

section \<open>Builder\<close>

definition Indexer_with_index :: "IndexedSigCode \<Rightarrow> u32 \<Rightarrow> IndexerValidationError + (IndexedSigCode \<times> u32 \<times> u32 option)" where
  "Indexer_with_index c index =
     (if max_index c < index then Inl (IndexTooLarge c index (max_index c))
      else Inr (c, index, case IndexedSigCode_mode c of Both \<Rightarrow> Some index | CurrentOnly \<Rightarrow> None))"

definition Indexer_with_indices ::
    "IndexedSigCode \<Rightarrow> u32 \<Rightarrow> u32 \<Rightarrow> IndexerValidationError + (IndexedSigCode \<times> u32 \<times> u32 option)" where
  "Indexer_with_indices c index ondex =
     (if IndexedSigCode_mode c = CurrentOnly then Inl (OndexOnCurrentOnly c)
      else if max_index c < index then Inl (IndexTooLarge c index (max_index c))
      else case max_ondex c of
             Some m \<Rightarrow>
               (if m < ondex then Inl (OndexTooLarge c ondex m)
                else if xz_os (get_xizage c) = 0 \<and> ondex \<noteq> index then Inl (OndexMustEqualIndex c index ondex)
                else Inr (c, index, Some ondex))
           | None \<Rightarrow>
               (if xz_os (get_xizage c) = 0 \<and> ondex \<noteq> index then Inl (OndexMustEqualIndex c index ondex)
                else Inr (c, index, Some ondex)))"

definition Indexer_with_raw ::
    "IndexedSigCode \<times> u32 \<times> u32 option \<Rightarrow> bytes \<Rightarrow> IndexerValidationError + Indexer" where
  "Indexer_with_raw state raw =
     (let (c, index, ondex) = state; expected = IndexedSigCode_raw_size c in
      if length raw \<noteq> expected then Inl (UnexpectedRawSize c expected (length raw))
      else Inr (Indexer_new c index ondex raw))"

section \<open>Table lemmas\<close>

definition xz_cs :: "IndexedSigCode \<Rightarrow> nat" where
  "xz_cs c = xz_hs (get_xizage c) + xz_ss (get_xizage c)"

lemma xizage_ok:
  "length (IndexedSigCode_as_str c) = xz_hs (get_xizage c) \<and>
   hardage (hd (str_bytes (IndexedSigCode_as_str c))) = Some (xz_hs (get_xizage c)) \<and>
   xz_os (get_xizage c) \<le> xz_ss (get_xizage c) \<and> xz_ls (get_xizage c) = 0 \<and>
   xz_ss (get_xizage c) - xz_os (get_xizage c) \<le> 3 \<and> xz_os (get_xizage c) \<le> 3 \<and>
   0 < xz_hs (get_xizage c) \<and> xz_cs c mod 4 \<le> 2 \<and>
   (3 - IndexedSigCode_raw_size c mod 3) mod 3 = xz_cs c mod 4 \<and>
   (xz_cs c mod 4 + IndexedSigCode_raw_size c) mod 3 = 0 \<and>
   xz_fs (get_xizage c) = XizageSize.Fixed (xz_cs c - xz_cs c mod 4 + (xz_cs c mod 4 + IndexedSigCode_raw_size c) div 3 * 4) \<and>
   from_utf8_ok (str_bytes (IndexedSigCode_as_str c))"
  by (cases c)
     (simp_all add: get_xizage_def Xizage_new_def xz_cs_def IndexedSigCode_raw_size_def str_bytes_def hardage_def)

lemma from_hard_as_str: "IndexedSigCode_from_hard (str_bytes (IndexedSigCode_as_str c)) = Inr c"
  by (cases c) (simp_all add: IndexedSigCode_from_hard_def IndexedSigCode_arms_def str_bytes_def)

lemma from_hard_Inr: "IndexedSigCode_from_hard s = Inr c \<Longrightarrow> s = str_bytes (IndexedSigCode_as_str c)"
proof -
  assume "IndexedSigCode_from_hard s = Inr c"
  then have "(s, c) \<in> set (map (\<lambda>(s, c). (str_bytes s, c)) IndexedSigCode_arms)"
    by (auto simp: IndexedSigCode_from_hard_def split: option.splits dest!: map_of_SomeD)
  then obtain t where t: "(t, c) \<in> set IndexedSigCode_arms" "s = str_bytes t" by auto
  have "list_all (\<lambda>(t, c). t = IndexedSigCode_as_str c) IndexedSigCode_arms"
    by (simp add: IndexedSigCode_arms_def)
  with t show ?thesis by (auto simp: list_all_iff)
qed

lemma IndexedSigCode_as_str_inj: "IndexedSigCode_as_str c = IndexedSigCode_as_str d \<longleftrightarrow> c = d"
  by (metis from_hard_as_str sum.inject(2))

lemma write_index_digits:
  "write_index v w = map (\<lambda>p. B64_ALPHABET ! (unat v div 64 ^ p mod 64)) (rev [0..<w])"
proof (rule nth_equalityI)
  fix i assume "i < length (write_index v w)"
  then have i: "i < w" by (simp add: write_index_def)
  have "63 = (0x3F :: u32)" by simp
  then have "unat (drop_bit ((w - i - 1) * 6) v AND 63) = unat v div 64 ^ (w - i - 1) mod 64"
    unfolding and_masks unsigned_take_bit_eq unat_drop_bit_eq
    by (simp add: take_bit_eq_mod drop_bit_eq_div power_mult mult.commute[of _ 6])
  then show "write_index v w ! i = map (\<lambda>p. B64_ALPHABET ! (unat v div 64 ^ p mod 64)) (rev [0..<w]) ! i"
    using i by (simp add: write_index_def rev_nth)
qed (simp add: write_index_def)

lemma length_write_index [simp]: "length (write_index v w) = w"
  by (simp add: write_index_def)

lemma parse_write_index:
  assumes "unat v < 64 ^ w"
  shows "parse_sub_index (write_index v w) = Inr v"
proof -
  have "set (write_index v w) \<subseteq> set B64_ALPHABET" by (auto simp: write_index_digits)
  then have "\<forall>b \<in> set (write_index v w). b < 0x80"
    using alphabet_ascii by (auto simp: list_all_iff)
  then have "from_utf8_ok (write_index v w)" by (rule from_utf8_ok_ascii)
  moreover have "is_b64_url_safe_charset (write_index v w)"
    by (auto simp: charset_iff write_index_digits charset_index)
  moreover have "b64_value (write_index v w) = unat v"
    using assms by (simp add: write_index_digits digits_value)
  ultimately show ?thesis by (simp add: parse_sub_index_def decode_int_Inr)
qed

lemma read_code: "Indexer_read_code (str_bytes (IndexedSigCode_as_str c) @ rest) = Inr c"
proof -
  let ?s = "str_bytes (IndexedSigCode_as_str c)"
  have l: "length ?s = xz_hs (get_xizage c)" using xizage_ok[of c] by (simp add: str_bytes_def)
  then have "?s \<noteq> []" using xizage_ok[of c] by auto
  then have "slice_get (?s @ rest) 0 = Some (hd ?s)" by (cases ?s) (auto simp: slice_get_def)
  then show ?thesis
    using xizage_ok[of c] l from_hard_as_str[of c] by (simp add: Indexer_read_code_def Let_def)
qed

section \<open>Round trip\<close>

text \<open>What the builder guarantees of an indexer.\<close>

definition ondex_ok :: "IndexedSigCode \<Rightarrow> u32 \<Rightarrow> u32 option \<Rightarrow> bool" where
  "ondex_ok c index ondex \<longleftrightarrow>
     (case IndexedSigCode_mode c of
        CurrentOnly \<Rightarrow> ondex = None
      | Both \<Rightarrow> (if xz_os (get_xizage c) = 0 then ondex = Some index
                else \<exists>v. ondex = Some v \<and> unat v < 64 ^ xz_os (get_xizage c)))"

definition indexer_ok :: "Indexer \<Rightarrow> bool" where
  "indexer_ok ix \<longleftrightarrow>
     length (ix_raw ix) = IndexedSigCode_raw_size (ix_code ix) \<and>
     unat (ix_index ix) < 64 ^ (xz_ss (get_xizage (ix_code ix)) - xz_os (get_xizage (ix_code ix))) \<and>
     ondex_ok (ix_code ix) (ix_index ix) (ix_ondex ix)"

definition indexer_frame :: "Indexer \<Rightarrow> bytes" where
  "indexer_frame ix =
     (let c = ix_code ix; xz = get_xizage c; ps = xz_cs c mod 4 in
      str_bytes (IndexedSigCode_as_str c) @ write_index (ix_index ix) (xz_ss xz - xz_os xz) @
      write_index (case ix_ondex ix of None \<Rightarrow> 0 | Some v \<Rightarrow> v) (xz_os xz) @
      drop ps (qb2_chars (replicate ps 0 @ ix_raw ix)))"

lemma indexer_append_frame:
  assumes eng: "b64_engine enc dec" and ok: "indexer_ok ix"
  shows "Indexer_append_qb64 enc ix out = Some (out @ indexer_frame ix)"
proof -
  define c where "c = ix_code ix"
  define hs where "hs = xz_hs (get_xizage c)"
  define ss where "ss = xz_ss (get_xizage c)"
  define os where "os = xz_os (get_xizage c)"
  define ps where "ps = xz_cs c mod 4"
  define n where "n = IndexedSigCode_raw_size c"
  define w where "w = qb2_chars (replicate ps 0 @ ix_raw ix)"
  define body where "body = drop ps w"
  define ov where "ov = (case ix_ondex ix of None \<Rightarrow> 0 | Some v \<Rightarrow> v)"
  have raw: "length (ix_raw ix) = n" using ok by (simp add: indexer_ok_def c_def n_def)
  have t: "length (str_bytes (IndexedSigCode_as_str c)) = hs" "os \<le> ss" "xz_ls (get_xizage c) = 0"
    "(3 - n mod 3) mod 3 = ps" "(ps + n) mod 3 = 0" "ps \<le> hs + ss" "ps \<le> 2"
    "xz_fs (get_xizage c) = XizageSize.Fixed (hs + ss - ps + (ps + n) div 3 * 4)"
    using xizage_ok[of c] mod_less_eq_dividend[of "xz_cs c" 4]
    by (simp_all add: hs_def ss_def os_def ps_def n_def str_bytes_def xz_cs_def)
  have lw: "length w = (ps + n) div 3 * 4"
    using t(5) raw by (simp add: w_def length_qb2_chars)
  have wl: "w = replicate ps 65 @ body"
  proof -
    have "take ps w = replicate ps 65" unfolding w_def by (rule qb2_lead) (use t raw in simp_all)
    then show ?thesis unfolding body_def by (metis append_take_drop_id)
  qed
  have z: "zero_lead_encode enc (ix_raw ix) ps = w"
    using b64_engine.zero_lead_encode_eq[OF eng, of ps "ix_raw ix"]
      b64_engine.enc_eq[OF eng, of "replicate ps 0 @ ix_raw ix"] t(5) raw by (simp add: w_def)
  define fs where "fs = hs + ss - ps + length w"
  have fs: "Indexer_full_size ix = Some fs" using t(8) lw by (simp add: Indexer_full_size_def c_def[symmetric] fs_def)
  let ?f0 = "overwrite (hs + ss - ps) w (replicate fs 0)"
  obtain g where g: "length g = hs + ss" "?f0 = g @ body"
  proof
    show "length (replicate (hs + ss - ps) 0 @ replicate ps (65 :: byte)) = hs + ss" using t by simp
    show "?f0 = (replicate (hs + ss - ps) 0 @ replicate ps (65 :: byte)) @ body"
      using wl by (simp add: overwrite_def fs_def)
  qed
  let ?code = "str_bytes (IndexedSigCode_as_str c)"
  have f1: "overwrite 0 ?code ?f0 = ?code @ drop hs g @ body" using g t by (simp add: overwrite_def)
  have f2: "overwrite hs (write_index (ix_index ix) (ss - os)) (?code @ drop hs g @ body) =
      (?code @ write_index (ix_index ix) (ss - os)) @ drop (hs + (ss - os)) g @ body"
    using g t overwrite_append[of ?code hs _ "drop hs g @ body"] by (simp add: add.commute)
  have f3: "overwrite (hs + (ss - os)) (write_index ov os)
      ((?code @ write_index (ix_index ix) (ss - os)) @ drop (hs + (ss - os)) g @ body) = indexer_frame ix"
    using g t overwrite_append[of "?code @ write_index (ix_index ix) (ss - os)" "hs + (ss - os)" _ "drop (hs + (ss - os)) g @ body"]
    by (simp add: indexer_frame_def Let_def c_def[symmetric] ss_def[symmetric] os_def[symmetric] ps_def[symmetric]
        ov_def[symmetric] body_def w_def)
  have len: "hs + ss - ps + length w = fs" by (simp add: fs_def)
  show ?thesis
    unfolding Indexer_append_qb64_def fs Option.bind.simps c_def[symmetric] Let_def raw
    unfolding hs_def[symmetric] ss_def[symmetric] os_def[symmetric] t(3,4) diff_zero z ov_def[symmetric]
    unfolding f1 f2 f3
    using len t by simp
qed

lemma indexer_parse_frame:
  assumes eng: "b64_engine enc dec" and ok: "indexer_ok ix"
  shows "Indexer_from_qb64 dec (indexer_frame ix @ rest) = Inr (ix, length (indexer_frame ix))"
proof -
  define c where "c = ix_code ix"
  define hs where "hs = xz_hs (get_xizage c)"
  define ss where "ss = xz_ss (get_xizage c)"
  define os where "os = xz_os (get_xizage c)"
  define ps where "ps = xz_cs c mod 4"
  define n where "n = IndexedSigCode_raw_size c"
  define buf where "buf = replicate ps 0 @ ix_raw ix"
  define body where "body = drop ps (qb2_chars buf)"
  define ov where "ov = (case ix_ondex ix of None \<Rightarrow> 0 | Some v \<Rightarrow> v)"
  define code where "code = str_bytes (IndexedSigCode_as_str c)"
  define st where "st = indexer_frame ix @ rest"
  have raw: "length (ix_raw ix) = n" using ok by (simp add: indexer_ok_def c_def n_def)
  have t: "length code = hs" "os \<le> ss" "xz_ls (get_xizage c) = 0"
    "(ps + n) mod 3 = 0" "ps \<le> hs + ss" "ps \<le> 2"
    "xz_fs (get_xizage c) = XizageSize.Fixed (hs + ss - ps + (ps + n) div 3 * 4)"
    using xizage_ok[of c] mod_less_eq_dividend[of "xz_cs c" 4]
    by (simp_all add: code_def hs_def ss_def os_def ps_def n_def str_bytes_def xz_cs_def)
  have lq: "length (qb2_chars buf) = (ps + n) div 3 * 4" using t raw by (simp add: buf_def length_qb2_chars)
  have q: "qb2_chars buf = replicate ps 65 @ body"
  proof -
    have "take ps (qb2_chars buf) = replicate ps 65" unfolding buf_def by (rule qb2_lead) (use t raw in simp_all)
    then show ?thesis unfolding body_def by (metis append_take_drop_id)
  qed
  have lb: "ps + length body = (ps + n) div 3 * 4" using lq unfolding q by simp
  have frame: "indexer_frame ix = code @ write_index (ix_index ix) (ss - os) @ write_index ov os @ body"
    by (simp add: indexer_frame_def Let_def c_def[symmetric] ss_def[symmetric] os_def[symmetric] ps_def[symmetric]
        ov_def[symmetric] body_def buf_def code_def)
  have fs: "hs + ss - ps + (ps + n) div 3 * 4 = length (indexer_frame ix)"
    using lb t unfolding frame by simp
  have cs: "hs + ss \<le> length (indexer_frame ix)" using t unfolding frame by simp
  have s1: "take (ss - os) (drop hs st) = write_index (ix_index ix) (ss - os)"
    using t unfolding st_def frame by simp
  have s2: "take os (drop (hs + (ss - os)) st) = write_index ov os"
    using t unfolding st_def frame by simp
  have s3: "take (length (indexer_frame ix) - (hs + ss)) (drop (hs + ss) st) = body"
    using t unfolding st_def frame by simp
  have i: "parse_sub_index (write_index (ix_index ix) (ss - os)) = Inr (ix_index ix)"
    by (rule parse_write_index) (use ok in \<open>simp add: indexer_ok_def ss_def os_def c_def\<close>)
  have od: "(case IndexedSigCode_mode c of
         CurrentOnly \<Rightarrow>
           (if os > 0 then
              res_bind (parse_sub_index (write_index ov os)) (\<lambda>ondex_val.
              if ondex_val \<noteq> 0 then Inl (OndexNotZeroForCurrentOnly ondex_val) else Inr None)
            else Inr None)
       | Both \<Rightarrow>
           (if os > 0 then
              res_bind (parse_sub_index (write_index ov os)) (\<lambda>ondex_val. Inr (Some ondex_val))
            else Inr (Some (ix_index ix)))) = Inr (ix_ondex ix)"
  proof (cases "IndexedSigCode_mode c")
    case Both
    then have o1: "if os = 0 then ix_ondex ix = Some (ix_index ix) else \<exists>v. ix_ondex ix = Some v \<and> unat v < 64 ^ os"
      using ok by (simp add: indexer_ok_def ondex_ok_def c_def os_def)
    show ?thesis
    proof (cases "os = 0")
      case False
      then obtain v where v: "ix_ondex ix = Some v" "unat v < 64 ^ os" using o1 by auto
      then show ?thesis using Both False parse_write_index[OF v(2)] by (simp add: ov_def)
    qed (use Both o1 in simp)
  next
    case CurrentOnly
    then have "ix_ondex ix = None" using ok by (simp add: indexer_ok_def ondex_ok_def c_def)
    then show ?thesis using CurrentOnly parse_write_index[of 0 os] by (simp add: ov_def)
  qed
  have "dec (replicate ps 65 @ body) = Some buf"
    using b64_engine.dec_enc[OF eng, of buf] b64_engine.enc_eq[OF eng, of buf] q t raw by (simp add: buf_def)
  moreover have dr: "drop (if ps \<noteq> 0 then ps else 0) buf = ix_raw ix" by (simp add: buf_def)
  moreover have "Indexer_new c (ix_index ix) (ix_ondex ix) (ix_raw ix) = ix" by (simp add: Indexer_new_def c_def)
  moreover have rd: "Indexer_read_code st = Inr c" unfolding st_def frame code_def by (simp add: read_code)
  moreover have psd: "(hs + ss) mod 4 = ps" by (simp add: ps_def xz_cs_def hs_def ss_def)
  ultimately show ?thesis
    unfolding st_def[symmetric] Indexer_from_qb64_def rd res_bind.simps Let_def
      hs_def[symmetric] ss_def[symmetric] os_def[symmetric] s1 s2 i od t(3,7) psd XizageSize.case fs s3
    using cs by (simp add: st_def)
qed

text \<open>The builder makes exactly the indexers that fit their code.\<close>

lemma unat_pow64: "k \<le> 3 \<Longrightarrow> unat (64 ^ k - 1 :: u32) = 64 ^ k - 1"
proof -
  assume "k \<le> 3"
  then have "k = 0 \<or> k = 1 \<or> k = 2 \<or> k = 3" by linarith
  then show ?thesis by (elim disjE) simp_all
qed

lemma max_index_unat: "unat (max_index c) = 64 ^ (xz_ss (get_xizage c) - xz_os (get_xizage c)) - 1"
  using xizage_ok[of c] by (simp add: max_index_def Let_def unat_pow64)

lemma max_index_less: "i \<le> max_index c \<longleftrightarrow> unat i < 64 ^ (xz_ss (get_xizage c) - xz_os (get_xizage c))"
  unfolding word_le_nat_alt max_index_unat
  using zero_less_power[of "64::nat" "xz_ss (get_xizage c) - xz_os (get_xizage c)"] by linarith

lemma builder_ok:
  assumes "Indexer_with_index c index = Inr st \<or> Indexer_with_indices c index ondex = Inr st"
    "Indexer_with_raw st raw = Inr ix"
  shows "indexer_ok ix"
proof -
  have os: "i \<le> 64 ^ xz_os (get_xizage c) - 1 \<longleftrightarrow> unat i < 64 ^ xz_os (get_xizage c)" for i :: u32
  proof -
    have "unat (64 ^ xz_os (get_xizage c) - 1 :: u32) = 64 ^ xz_os (get_xizage c) - 1"
      using xizage_ok[of c] by (simp add: unat_pow64)
    then show ?thesis
      unfolding word_le_nat_alt using zero_less_power[of "64::nat" "xz_os (get_xizage c)"] by linarith
  qed
  obtain i' o' where st: "st = (c, i', o')" "unat i' < 64 ^ (xz_ss (get_xizage c) - xz_os (get_xizage c))"
    "ondex_ok c i' o'"
  proof -
    from assms(1) have "\<exists>i' o'. st = (c, i', o') \<and> unat i' < 64 ^ (xz_ss (get_xizage c) - xz_os (get_xizage c)) \<and> ondex_ok c i' o'"
    proof
      assume w: "Indexer_with_index c index = Inr st"
      then have le: "index \<le> max_index c" by (auto simp: Indexer_with_index_def split: if_splits)
      have "unat index < 64 ^ xz_os (get_xizage c)" if "IndexedSigCode_mode c = Both" "xz_os (get_xizage c) \<noteq> 0"
      proof -
        have "xz_ss (get_xizage c) - xz_os (get_xizage c) = xz_os (get_xizage c)"
          using that(2) by (cases c) (simp_all add: get_xizage_def Xizage_new_def)
        then show ?thesis using le by (simp add: max_index_less)
      qed
      moreover have "st = (c, index, case IndexedSigCode_mode c of Both \<Rightarrow> Some index | CurrentOnly \<Rightarrow> None)"
        using w by (auto simp: Indexer_with_index_def split: if_splits)
      moreover have "ondex_ok c index (case IndexedSigCode_mode c of Both \<Rightarrow> Some index | CurrentOnly \<Rightarrow> None)"
        using calculation(1) by (auto simp: ondex_ok_def split: IndexMode.splits)
      ultimately show ?thesis using le unfolding max_index_less by blast
    next
      assume w: "Indexer_with_indices c index ondex = Inr st"
      then have "st = (c, index, Some ondex)" "index \<le> max_index c"
        by (auto simp: Indexer_with_indices_def not_less split: if_splits option.splits)
      moreover have "ondex_ok c index (Some ondex)"
        using w os
        by (cases "IndexedSigCode_mode c")
           (auto simp: Indexer_with_indices_def max_ondex_def Let_def ondex_ok_def not_less split: if_splits)
      ultimately show ?thesis unfolding max_index_less by blast
    qed
    then show thesis using that by blast
  qed
  then show ?thesis
    using assms(2) by (auto simp: Indexer_with_raw_def Let_def indexer_ok_def Indexer_new_def split: if_splits)
qed

section \<open>Properties\<close>

text \<open>
  C40: Every indexed signature the builder makes is written without a panic and read
  back exactly by the text parser, which also reports the number of characters
  written, whatever follows in the stream.
\<close>

theorem indexer_parse_write:
  assumes "b64_engine enc dec"
    and "Indexer_with_index c index = Inr st \<or> Indexer_with_indices c index ondex = Inr st"
    and "Indexer_with_raw st raw = Inr ix"
  shows "\<exists>frame. Indexer_to_qb64 enc ix = Some frame \<and>
    Indexer_from_qb64 dec (frame @ rest) = Inr (ix, length frame)"
  using indexer_append_frame[OF assms(1) builder_ok[OF assms(2,3)], of "[]"]
    indexer_parse_frame[OF assms(1) builder_ok[OF assms(2,3)], of rest]
  by (simp add: Indexer_to_qb64_def)

lemma indexer_parse_write_witness:
  "\<exists>frame. Indexer_to_qb64 qb2_chars (Indexer_new Ed448Big 5 (Some 70) (replicate 114 7)) = Some frame \<and>
    Indexer_from_qb64 own_b64_decode (frame @ [65]) = Inr (Indexer_new Ed448Big 5 (Some 70) (replicate 114 7), length frame)"
  by (rule indexer_parse_write[OF own_b64.b64_engine_axioms, of Ed448Big 5 "(Ed448Big, 5, Some 70)" 70 "replicate 114 7"])
     (simp_all add: Indexer_with_indices_def IndexedSigCode_mode_def max_index_def max_ondex_def get_xizage_def
       Xizage_new_def Indexer_with_raw_def IndexedSigCode_raw_size_def)

text \<open>
  The text parser for indexed signatures does not check the pad bits: two
  different frames of the same length, one of them not what the writer produces,
  are read as the same signature.
\<close>

theorem indexer_not_canonical:
  "\<exists>s t ix. s \<noteq> t \<and> length s = length t \<and>
     Indexer_from_qb64 own_b64_decode s = Inr (ix, 88) \<and> Indexer_from_qb64 own_b64_decode t = Inr (ix, 88)"
proof -
  have quad: "b64_quad 0 b 0 = [65, 65, B64_ALPHABET ! (unat b mod 16 * 4), 65]" if "unat b < 16" for b
    using that by (simp add: b64_quad_def B64_ALPHABET_eval)
  have z: "qb2_chars (replicate 63 0) = replicate 84 65" using qb2_chars_zeros[of 21] by simp
  have dec: "own_b64_decode (65 # 65 # B64_ALPHABET ! (unat b mod 16 * 4) # 65 # replicate 84 65)
      = Some (0 # b # 0 # replicate 63 0)" if "unat b < 16" for b
    using quad[OF that] z by (simp add: own_b64_decode_iff qb2_chars_step encode_block_quad)
  have parse: "Indexer_from_qb64 own_b64_decode (65 # 65 # p) = Inr (Indexer_new Ed25519 0 (Some 0) (drop 2 d), 88)"
    if "length p = 86" "own_b64_decode (65 # 65 # p) = Some d" for p d
  proof -
    have r: "Indexer_read_code (65 # 65 # p) = Inr Ed25519"
      using read_code[of Ed25519 "65 # p"] by (simp add: str_bytes_def)
    have i: "parse_sub_index [65] = Inr 0"
      using parse_write_index[of 0 1] by (simp add: write_index_def B64_ALPHABET_eval)
    have two: "replicate 2 x = [x, x]" for x :: byte by (simp add: numeral_2_eq_2)
    have x: "get_xizage Ed25519 = \<lparr>xz_hs = 1, xz_ss = 1, xz_os = 0, xz_fs = XizageSize.Fixed 88, xz_ls = 0\<rparr>"
      by (simp add: get_xizage_def Xizage_new_def)
    have m: "IndexedSigCode_mode Ed25519 = Both" by (simp add: IndexedSigCode_mode_def)
    have arith: "(1 :: nat) - 0 = 1" "(1 + 1 :: nat) = 2" "(2 :: nat) mod 4 = 2" "0 < (0 :: nat) \<longleftrightarrow> False"
      "(2 :: nat) \<noteq> 0 \<longleftrightarrow> True" "(88 :: nat) - 2 = 86" by simp_all
    have t: "take 1 (drop 1 (65 # 65 # p)) = [65]" "take 86 (drop 2 (65 # 65 # p)) = p"
      "2 \<le> length (65 # 65 # p) \<longleftrightarrow> True" "88 \<le> length (65 # 65 # p) \<longleftrightarrow> True"
      "replicate 2 (of_char CHR ''A'') @ p = 65 # 65 # p"
      using that(1) by (simp_all add: two)
    show ?thesis
      unfolding Indexer_from_qb64_def r res_bind.simps Let_def x Xizage.select_convs m IndexMode.case
        XizageSize.case arith t i if_True if_False ensure_def that(2) ok_or.simps by (rule refl)
  qed
  have A: "B64_ALPHABET ! 0 = 65" "B64_ALPHABET ! 4 = 69" by (simp_all add: B64_ALPHABET_eval)
  let ?s = "65 # 65 # 65 # 65 # replicate 84 65" and ?t = "65 # 65 # 69 # 65 # replicate 84 65"
  let ?ix = "Indexer_new Ed25519 0 (Some 0) (0 # replicate 63 0)"
  have "Indexer_from_qb64 own_b64_decode ?s = Inr (?ix, 88)"
    using parse[of "65 # 65 # replicate 84 65" "0 # 0 # 0 # replicate 63 0"] dec[of 0] A by simp
  moreover have "Indexer_from_qb64 own_b64_decode ?t = Inr (?ix, 88)"
    using parse[of "69 # 65 # replicate 84 65" "0 # 1 # 0 # replicate 63 0"] dec[of 1] A by simp
  ultimately show ?thesis by (intro exI[of _ ?s] exI[of _ ?t] exI[of _ ?ix]) simp
qed

end
