(* ===== verification/Cesr_Crypto.thy ===== *)
theory Cesr_Crypto
  imports Cesr_Indexer
begin

text \<open>
  Verification and digests, \<^verbatim>\<open>crates/cesr/src/crypto/\<close>: which algorithm a key
  code selects, which signature codes an algorithm owns, and the typed digest.
  The curve and hash crates are the fields of the record \<^verbatim>\<open>crypto\<close>, a parameter
  of every definition; messages in errors are not modelled.
\<close>

type_synonym Verfer = "VerKeyCode Matter"
type_synonym Diger = "DigestCode Matter"
type_synonym Cigar = "SignatureCode Matter"
type_synonym Saider = "DigestCode Matter"

record Siger =
  sg_indexer :: Indexer
  sg_verfer :: "Verfer option"

text \<open>
  The third-party functions at the calls of \<^verbatim>\<open>verify.rs\<close> and \<^verbatim>\<open>digest.rs\<close>:
  whether key bytes and signature bytes parse, whether a signature verifies,
  and the hash of each digest code; with the URL-safe engine that writes a key
  in text form before it is hashed.
\<close>

record crypto =
  ed25519_key_ok :: "bytes \<Rightarrow> bool"
  ed25519_verify_strict :: "bytes \<Rightarrow> bytes \<Rightarrow> bytes \<Rightarrow> bool"
  k256_key_ok :: "bytes \<Rightarrow> bool"
  k256_sig_ok :: "bytes \<Rightarrow> bool"
  k256_verify :: "bytes \<Rightarrow> bytes \<Rightarrow> bytes \<Rightarrow> bool"
  p256_key_ok :: "bytes \<Rightarrow> bool"
  p256_sig_ok :: "bytes \<Rightarrow> bool"
  p256_verify :: "bytes \<Rightarrow> bytes \<Rightarrow> bytes \<Rightarrow> bool"
  raw_digest :: "DigestCode \<Rightarrow> bytes \<Rightarrow> bytes"
  b64_encode :: "bytes \<Rightarrow> bytes"

section \<open>Errors\<close>

datatype SignatureError =
    SigningFailed
  | InvalidSignatureLength nat nat
  | Invalid
  | VerificationFailed
  | SignatureCodeMismatch

datatype CodeMismatchError = IncompatibleCodes

datatype VerificationError =
    SignatureFailure SignatureError
  | CodeMismatch CodeMismatchError
  | UnsupportedAlgorithm VerKeyCode

datatype IndexedVerifyError =
    IndexOutOfRange u32 nat
  | Verification VerificationError

datatype DigestError = BuildFailed

section \<open>Algorithms\<close>

datatype Algo = AlgoEd25519 | AlgoSecp256k1 | AlgoSecp256r1

primrec algo_signature_code :: "Algo \<Rightarrow> SignatureCode" where
  "algo_signature_code AlgoEd25519 = SignatureCode.Ed25519Sig"
| "algo_signature_code AlgoSecp256k1 = SignatureCode.ECDSA256k1Sig"
| "algo_signature_code AlgoSecp256r1 = SignatureCode.ECDSA256r1Sig"

text \<open>The four indexed codes of an algorithm: both, current, and their big variants.\<close>

primrec algo_indexed_codes :: "Algo \<Rightarrow> IndexedSigCode list" where
  "algo_indexed_codes AlgoEd25519 =
     [IndexedSigCode.Ed25519, IndexedSigCode.Ed25519Crt, IndexedSigCode.Ed25519Big, IndexedSigCode.Ed25519BigCrt]"
| "algo_indexed_codes AlgoSecp256k1 =
     [IndexedSigCode.ECDSA256k1, IndexedSigCode.ECDSA256k1Crt, IndexedSigCode.ECDSA256k1Big, IndexedSigCode.ECDSA256k1BigCrt]"
| "algo_indexed_codes AlgoSecp256r1 =
     [IndexedSigCode.ECDSA256r1, IndexedSigCode.ECDSA256r1Crt, IndexedSigCode.ECDSA256r1Big, IndexedSigCode.ECDSA256r1BigCrt]"

definition owns_indexed :: "Algo \<Rightarrow> IndexedSigCode \<Rightarrow> bool" where
  "owns_indexed a c \<longleftrightarrow> c \<in> set (algo_indexed_codes a)"

definition verify_ed25519 :: "crypto \<Rightarrow> bytes \<Rightarrow> bytes \<Rightarrow> bytes \<Rightarrow> SignatureError + unit" where
  "verify_ed25519 cr key data sig =
     res_bind (ensure (length key = 32) VerificationFailed) (\<lambda>_.
     res_bind (ensure (ed25519_key_ok cr key) VerificationFailed) (\<lambda>_.
     res_bind (ensure (length sig = 64) (InvalidSignatureLength 64 (length sig))) (\<lambda>_.
     ensure (ed25519_verify_strict cr key data sig) Invalid)))"

definition verify_secp256k1 :: "crypto \<Rightarrow> bytes \<Rightarrow> bytes \<Rightarrow> bytes \<Rightarrow> SignatureError + unit" where
  "verify_secp256k1 cr key data sig =
     res_bind (ensure (k256_key_ok cr key) VerificationFailed) (\<lambda>_.
     res_bind (ensure (length sig = 64) (InvalidSignatureLength 64 (length sig))) (\<lambda>_.
     res_bind (ensure (k256_sig_ok cr sig) VerificationFailed) (\<lambda>_.
     ensure (k256_verify cr key data sig) Invalid)))"

definition verify_secp256r1 :: "crypto \<Rightarrow> bytes \<Rightarrow> bytes \<Rightarrow> bytes \<Rightarrow> SignatureError + unit" where
  "verify_secp256r1 cr key data sig =
     res_bind (ensure (p256_key_ok cr key) VerificationFailed) (\<lambda>_.
     res_bind (ensure (length sig = 64) (InvalidSignatureLength 64 (length sig))) (\<lambda>_.
     res_bind (ensure (p256_sig_ok cr sig) VerificationFailed) (\<lambda>_.
     ensure (p256_verify cr key data sig) Invalid)))"

primrec verify_bytes :: "Algo \<Rightarrow> crypto \<Rightarrow> bytes \<Rightarrow> bytes \<Rightarrow> bytes \<Rightarrow> SignatureError + unit" where
  "verify_bytes AlgoEd25519 = verify_ed25519"
| "verify_bytes AlgoSecp256k1 = verify_secp256k1"
| "verify_bytes AlgoSecp256r1 = verify_secp256r1"

section \<open>Signatures and verification\<close>

text \<open>
  The trait \<^verbatim>\<open>Signature\<close> as the two values \<^verbatim>\<open>verify\<close> reads: the raw bytes and
  which algorithm owns the code.
\<close>

definition siger_belongs_to :: "Siger \<Rightarrow> Algo \<Rightarrow> bool" where
  "siger_belongs_to s a = owns_indexed a (ix_code (sg_indexer s))"

definition cigar_belongs_to :: "Cigar \<Rightarrow> Algo \<Rightarrow> bool" where
  "cigar_belongs_to s a \<longleftrightarrow> m_code s = algo_signature_code a"

definition verify_as ::
    "Algo \<Rightarrow> crypto \<Rightarrow> Verfer \<Rightarrow> bytes \<Rightarrow> bytes \<Rightarrow> (Algo \<Rightarrow> bool) \<Rightarrow> VerificationError + unit" where
  "verify_as a cr verfer data sig_raw belongs_to =
     res_bind (ensure (belongs_to a) (CodeMismatch IncompatibleCodes)) (\<lambda>_.
     map_err SignatureFailure (verify_bytes a cr (m_raw verfer) data sig_raw))"

definition verify :: "crypto \<Rightarrow> Verfer \<Rightarrow> bytes \<Rightarrow> bytes \<Rightarrow> (Algo \<Rightarrow> bool) \<Rightarrow> VerificationError + unit" where
  "verify cr verfer data sig_raw belongs_to =
     (let c = m_code verfer in
      if c \<in> set [VerKeyCode.Ed25519, VerKeyCode.Ed25519N] then verify_as AlgoEd25519 cr verfer data sig_raw belongs_to
      else if c \<in> set [VerKeyCode.ECDSA256k1, VerKeyCode.ECDSA256k1N]
        then verify_as AlgoSecp256k1 cr verfer data sig_raw belongs_to
      else if c \<in> set [VerKeyCode.ECDSA256r1, VerKeyCode.ECDSA256r1N]
        then verify_as AlgoSecp256r1 cr verfer data sig_raw belongs_to
      else Inl (UnsupportedAlgorithm c))"

definition verify_siger :: "crypto \<Rightarrow> Verfer \<Rightarrow> bytes \<Rightarrow> Siger \<Rightarrow> VerificationError + unit" where
  "verify_siger cr verfer data s = verify cr verfer data (ix_raw (sg_indexer s)) (siger_belongs_to s)"

definition verify_cigar :: "crypto \<Rightarrow> Verfer \<Rightarrow> bytes \<Rightarrow> Cigar \<Rightarrow> VerificationError + unit" where
  "verify_cigar cr verfer data s = verify cr verfer data (m_raw s) (cigar_belongs_to s)"

definition verify_indexed_one :: "crypto \<Rightarrow> Verfer list \<Rightarrow> bytes \<Rightarrow> Siger \<Rightarrow> IndexedVerifyError + u32" where
  "verify_indexed_one cr keys data s =
     (let index = ix_index (sg_indexer s) in
      res_bind (ok_or (IndexOutOfRange index (length keys)) (slice_get keys (unat index))) (\<lambda>key.
      res_bind (map_err Verification (verify_siger cr key data s)) (\<lambda>_.
      Inr index)))"

definition verify_indexed :: "crypto \<Rightarrow> Verfer list \<Rightarrow> bytes \<Rightarrow> Siger list \<Rightarrow> (IndexedVerifyError + u32) list" where
  "verify_indexed cr keys data sigs = map (verify_indexed_one cr keys data) sigs"

section \<open>Digests\<close>

definition diger_digest :: "crypto \<Rightarrow> DigestCode \<Rightarrow> bytes \<Rightarrow> DigestError + Diger" where
  "diger_digest cr c data =
     (let raw = raw_digest cr c data in
      res_bind (map_err (\<lambda>_. BuildFailed) (with_raw DigestCode_to_matter_code c raw)) (\<lambda>st.
      map_err (\<lambda>_. BuildFailed) (build_raw DigestCode_to_matter_code st)))"

definition diger_verify :: "crypto \<Rightarrow> Diger \<Rightarrow> bytes \<Rightarrow> bool" where
  "diger_verify cr d data =
     (case diger_digest cr (m_code d) data of
        Inl _ \<Rightarrow> False
      | Inr computed \<Rightarrow> m_raw computed = m_raw d)"

text \<open>The documented output lengths of the hash functions.\<close>

definition digest_size :: "DigestCode \<Rightarrow> nat" where
  "digest_size c =
     (if c \<in> set [DigestCode.Blake3_512, DigestCode.Blake2b_512, DigestCode.SHA3_512, DigestCode.SHA2_512] then 64 else 32)"

definition hash_lengths_ok :: "crypto \<Rightarrow> bool" where
  "hash_lengths_ok cr \<longleftrightarrow> (\<forall>c data. length (raw_digest cr c data) = digest_size c)"

lemma digest_code_raw_size:
  "MatterCode_raw_size (DigestCode_to_matter_code c) = Inr (digest_size c) \<and>
   sz_ss (get_sizage (DigestCode_to_matter_code c)) = 0 \<and>
   (\<exists>v. sz_fs (get_sizage (DigestCode_to_matter_code c)) = SizeType.Fixed v)"
  by (cases c) (simp_all add: MatterCode_raw_size_def Sizage_new_def digest_size_def)

lemma diger_digest_ok:
  assumes "hash_lengths_ok cr"
  shows "diger_digest cr c data = Inr (Matter_new c (raw_digest cr c data) [])"
proof -
  have l: "length (raw_digest cr c data) = digest_size c" using assms by (simp add: hash_lengths_ok_def)
  then have "raw_digest cr c data \<noteq> []" by (auto simp: digest_size_def split: if_splits)
  then show ?thesis
    using digest_code_raw_size[of c] l
    by (auto simp: diger_digest_def with_raw_def build_raw_def validate_and_trim_raw_def Let_def)
qed

text \<open>A digest commits to exactly the data that hash to it.\<close>

lemma diger_verify_iff: "hash_lengths_ok cr \<Longrightarrow> diger_verify cr d data \<longleftrightarrow> raw_digest cr (m_code d) data = m_raw d"
  by (simp add: diger_verify_def diger_digest_ok Matter_new_def)

text \<open>Verification succeeds only through the curve the key code names, with a signature code of that curve.\<close>

lemma verify_ok_algo:
  assumes "verify cr verfer data raw belongs_to = Inr ()"
  shows "\<exists>a. belongs_to a \<and> verify_bytes a cr (m_raw verfer) data raw = Inr ()"
  using assms by (auto simp: verify_def verify_as_def Let_def split: if_splits)

lemma owns_indexed_disjoint: "owns_indexed a c \<Longrightarrow> owns_indexed b c \<Longrightarrow> a = b"
  by (cases a; cases b) (auto simp: owns_indexed_def)

lemma verify_indexed_one_Inr:
  "verify_indexed_one cr keys data s = Inr i \<longleftrightarrow>
     i = ix_index (sg_indexer s) \<and> unat i < length keys \<and> verify_siger cr (keys ! unat i) data s = Inr ()"
  by (auto simp: verify_indexed_one_def Let_def slice_get_Some)

end
