(* ===== verification/Keri_Authority.thy ===== *)
theory Keri_Authority
  imports Keri_Error Cesr_Crypto
begin

text \<open>
  The domain vocabulary of the fold, \<^verbatim>\<open>crates/keri/src/authority.rs\<close> and
  \<^verbatim>\<open>verification.rs\<close>: the authority an event is authenticated against, the
  pre-rotation commitment a rotation opens, and the witnessing its receipts
  satisfy. Signatures are filtered, never an error; only the threshold fails.
\<close>

section \<open>Wire signatures\<close>

text \<open>What two signatures must share to be the same wire value: the verifier attached to one is ignored.\<close>

type_synonym WireSignature = "string \<times> u32 \<times> u32 option \<times> bytes"

definition wire_signature :: "Siger \<Rightarrow> WireSignature" where
  "wire_signature s =
     (let ix = sg_indexer s in (IndexedSigCode_as_str (ix_code ix), ix_index ix, ix_ondex ix, ix_raw ix))"

record SeenWireSignatures =
  seen_first :: "WireSignature option"
  seen_rest :: "WireSignature set option"

definition seen_default :: SeenWireSignatures where
  "seen_default = \<lparr>seen_first = None, seen_rest = None\<rparr>"

definition seen_insert :: "SeenWireSignatures \<Rightarrow> Siger \<Rightarrow> bool \<times> SeenWireSignatures" where
  "seen_insert seen s =
     (let wire = wire_signature s in
      if seen_first seen = Some wire then (False, seen)
      else if seen_first seen = None then (True, seen\<lparr>seen_first := Some wire\<rparr>)
      else let rest = (case seen_rest seen of None \<Rightarrow> {} | Some r \<Rightarrow> r)
           in (wire \<notin> rest, seen\<lparr>seen_rest := Some (insert wire rest)\<rparr>))"

text \<open>The contents of the two-stage set.\<close>

definition seen_set :: "SeenWireSignatures \<Rightarrow> WireSignature set" where
  "seen_set seen = set_option (seen_first seen) \<union> (case seen_rest seen of None \<Rightarrow> {} | Some r \<Rightarrow> r)"

section \<open>Filtering signatures\<close>

text \<open>
  The loop shared by the controller, backer and witness checks: skip repeats of
  the same wire value, skip an index that addresses no key, skip a signature
  that does not verify; keep the others, in order.
\<close>

fun filter_valid :: "crypto \<Rightarrow> Verfer list \<Rightarrow> bytes \<Rightarrow> SeenWireSignatures \<Rightarrow> Siger list \<Rightarrow> Siger list" where
  "filter_valid cr keys data seen [] = []"
| "filter_valid cr keys data seen (s # sigs) =
     (let (fresh, seen') = seen_insert seen s in
      if \<not> fresh then filter_valid cr keys data seen' sigs
      else case slice_get keys (unat (ix_index (sg_indexer s))) of
             None \<Rightarrow> filter_valid cr keys data seen' sigs
           | Some key \<Rightarrow>
               if is_ok (verify_siger cr key data s) then s # filter_valid cr keys data seen' sigs
               else filter_valid cr keys data seen' sigs)"

definition sig_indices :: "Siger list \<Rightarrow> u32 list" where
  "sig_indices sigs = sort_dedup (map (\<lambda>s. ix_index (sg_indexer s)) sigs)"

definition with_keys ::
    "crypto \<Rightarrow> Verfer list \<Rightarrow> SigningThreshold \<Rightarrow> bytes \<Rightarrow> Siger list \<Rightarrow> Rejection + Siger list" where
  "with_keys cr keys threshold data sigs =
     (let valid = filter_valid cr keys data seen_default sigs;
          indices = sig_indices valid
      in if satisfied_by_sorted_unique threshold indices then Inr valid
         else Inl (MissingSignatures (length indices)))"

section \<open>Authority\<close>

record Authority =
  au_keys :: "VerifyingKey list"
  au_threshold :: SigningThreshold

definition well_formed :: "Authority \<Rightarrow> SigningThresholdError + unit" where
  "well_formed a = check_well_formed (au_threshold a) (length (au_keys a))"

text \<open>\<^verbatim>\<open>Verified\<close> is the list of valid signatures.\<close>

definition authority_verify :: "crypto \<Rightarrow> Authority \<Rightarrow> bytes \<Rightarrow> Siger list \<Rightarrow> Rejection + Siger list" where
  "authority_verify cr a data sigs = with_keys cr (au_keys a) (au_threshold a) data sigs"

definition icp_authority :: "InceptionEvent \<Rightarrow> Authority" where
  "icp_authority e = \<lparr>au_keys = icp_keys e, au_threshold = icp_threshold e\<rparr>"

definition rot_authority :: "RotationEvent \<Rightarrow> Authority" where
  "rot_authority e = \<lparr>au_keys = rot_keys e, au_threshold = rot_threshold e\<rparr>"

section \<open>Commitment\<close>

record Commitment =
  cm_next_digests :: "Digest list"
  cm_next_threshold :: SigningThreshold

text \<open>
  A digest commits to a key when it verifies over the key's text form. Writing
  a key that a builder or parser made does not panic; for a value no builder
  makes, where the source would panic, the answer here is no.
\<close>

definition commits_to :: "crypto \<Rightarrow> Digest \<Rightarrow> VerifyingKey \<Rightarrow> bool" where
  "commits_to cr d key =
     (case to_qb64b (b64_encode cr) VerKeyCode_to_matter_code key of
        None \<Rightarrow> False
      | Some qb64 \<Rightarrow> diger_verify cr d qb64)"

definition exposed_ondex :: "crypto \<Rightarrow> Commitment \<Rightarrow> Authority \<Rightarrow> Siger \<Rightarrow> u32 option" where
  "exposed_ondex cr c revealed s =
     Option.bind (ix_ondex (sg_indexer s)) (\<lambda>ondex.
     Option.bind (slice_get (cm_next_digests c) (unat ondex)) (\<lambda>digest.
     Option.bind (slice_get (au_keys revealed) (unat (ix_index (sg_indexer s)))) (\<lambda>key.
     if commits_to cr digest key then Some ondex else None)))"

definition opened_by :: "crypto \<Rightarrow> Commitment \<Rightarrow> Authority \<Rightarrow> Siger list \<Rightarrow> Rejection + unit" where
  "opened_by cr c revealed verified =
     (let exposed = sort_dedup (List.map_filter (exposed_ondex cr c revealed) verified)
      in if satisfied_by_sorted_unique (cm_next_threshold c) exposed then Inr ()
         else Inl (PriorNextThresholdUnsatisfied (length exposed)))"

definition verify_opening ::
    "crypto \<Rightarrow> Commitment \<Rightarrow> Authority \<Rightarrow> bytes \<Rightarrow> Siger list \<Rightarrow> Rejection + unit" where
  "verify_opening cr c revealed data sigs =
     res_bind (authority_verify cr revealed data sigs) (\<lambda>verified. opened_by cr c revealed verified)"

section \<open>Witnessing\<close>

record Witnessing =
  wi_witnesses :: "BasicPrefix list"
  wi_toad :: Toad

definition receipted_by :: "crypto \<Rightarrow> Witnessing \<Rightarrow> bytes \<Rightarrow> Siger list \<Rightarrow> Rejection + unit" where
  "receipted_by cr w data wigs =
     (let required = wi_toad w in
      if required = 0 then Inr ()
      else let receipted = sig_indices (filter_valid cr (wi_witnesses w) data seen_default wigs);
               valid = length receipted
           in if unat required \<le> valid then Inr ()
              else Inl (InsufficientWitnessReceipts valid required))"

section \<open>What the filter keeps\<close>

definition valid_sig :: "crypto \<Rightarrow> Verfer list \<Rightarrow> bytes \<Rightarrow> Siger \<Rightarrow> bool" where
  "valid_sig cr keys data s \<longleftrightarrow>
     (let i = unat (ix_index (sg_indexer s)) in i < length keys \<and> verify_siger cr (keys ! i) data s = Inr ())"

definition seen_wf :: "SeenWireSignatures \<Rightarrow> bool" where
  "seen_wf seen \<longleftrightarrow> (seen_first seen = None \<longrightarrow> seen_rest seen = None)"

lemma seen_default_wf [simp]: "seen_wf seen_default" "seen_set seen_default = {}"
  by (simp_all add: seen_wf_def seen_default_def seen_set_def)

text \<open>The two-stage set is a set of wire signatures.\<close>

lemma seen_insert_set:
  assumes "seen_wf seen" "seen_insert seen s = (fresh, seen')"
  shows "seen_wf seen' \<and> seen_set seen' = insert (wire_signature s) (seen_set seen) \<and>
    (fresh \<longleftrightarrow> wire_signature s \<notin> seen_set seen)"
  using assms
  by (cases "seen_first seen"; cases "seen_rest seen")
     (auto simp: seen_insert_def seen_wf_def seen_set_def Let_def split: if_splits)

lemma wire_signature_eq:
  "wire_signature s = wire_signature t \<longleftrightarrow>
     ix_code (sg_indexer s) = ix_code (sg_indexer t) \<and> ix_index (sg_indexer s) = ix_index (sg_indexer t) \<and>
     ix_ondex (sg_indexer s) = ix_ondex (sg_indexer t) \<and> ix_raw (sg_indexer s) = ix_raw (sg_indexer t)"
  by (auto simp: wire_signature_def Let_def IndexedSigCode_as_str_inj)

lemma valid_sig_wire: "wire_signature s = wire_signature t \<Longrightarrow> valid_sig cr keys data s = valid_sig cr keys data t"
  by (simp add: wire_signature_eq valid_sig_def verify_siger_def siger_belongs_to_def[abs_def])

lemma filter_valid_step:
  assumes "seen_insert seen s = (fresh, seen')"
  shows "filter_valid cr keys data seen (s # sigs) =
    (if fresh \<and> valid_sig cr keys data s then s # filter_valid cr keys data seen' sigs
     else filter_valid cr keys data seen' sigs)"
  using assms
  by (auto simp: valid_sig_def Let_def is_ok_iff slice_get_def split: option.splits)

lemma filter_valid_sub: "set (filter_valid cr keys data seen sigs) \<subseteq> {s \<in> set sigs. valid_sig cr keys data s}"
proof (induction sigs arbitrary: seen)
  case (Cons s sigs)
  obtain fresh seen' where ins: "seen_insert seen s = (fresh, seen')" by (cases "seen_insert seen s")
  have "set (filter_valid cr keys data seen (s # sigs)) \<subseteq>
      (if valid_sig cr keys data s then {s} else {}) \<union> set (filter_valid cr keys data seen' sigs)"
    unfolding filter_valid_step[OF ins] by auto
  with Cons.IH[of seen'] show ?case by (auto split: if_splits)
qed simp

lemma filter_valid_wires:
  "seen_wf seen \<Longrightarrow>
   wire_signature ` set (filter_valid cr keys data seen sigs) =
   wire_signature ` {s \<in> set sigs. valid_sig cr keys data s} - seen_set seen"
proof (induction sigs arbitrary: seen)
  case (Cons s sigs)
  obtain fresh seen' where ins: "seen_insert seen s = (fresh, seen')" by (cases "seen_insert seen s")
  note sp = seen_insert_set[OF Cons.prems ins]
  have ih: "wire_signature ` set (filter_valid cr keys data seen' sigs) =
      wire_signature ` {s \<in> set sigs. valid_sig cr keys data s} - insert (wire_signature s) (seen_set seen)"
    using Cons.IH[of seen'] sp by simp
  show ?case
  proof (cases "valid_sig cr keys data s")
    case True
    then have "{t \<in> set (s # sigs). valid_sig cr keys data t} = insert s {t \<in> set sigs. valid_sig cr keys data t}"
      by auto
    then show ?thesis
      unfolding filter_valid_step[OF ins] using sp ih True by (cases fresh) auto
  next
    case False
    then have eq: "{t \<in> set (s # sigs). valid_sig cr keys data t} = {t \<in> set sigs. valid_sig cr keys data t}"
      by auto
    have "wire_signature s \<notin> wire_signature ` {t \<in> set sigs. valid_sig cr keys data t}"
      using False valid_sig_wire[of s] by blast
    with ih show ?thesis
      unfolding eq filter_valid_step[OF ins] using False by auto
  qed
qed simp

text \<open>Whatever depends on the wire value alone, the filter keeps exactly the values of the valid signatures.\<close>

lemma image_through:
  assumes "\<And>s t. g s = g t \<Longrightarrow> f s = f t" "g ` A \<subseteq> g ` B"
  shows "f ` A \<subseteq> f ` B"
proof (rule image_subsetI)
  fix s assume "s \<in> A"
  with assms(2) obtain t where "t \<in> B" "g s = g t" by blast
  with assms(1)[of s t] show "f s \<in> f ` B" by simp
qed

lemma filter_valid_image:
  assumes "\<And>s t. wire_signature s = wire_signature t \<Longrightarrow> f s = f t"
  shows "f ` set (filter_valid cr keys data seen_default sigs) = f ` {s \<in> set sigs. valid_sig cr keys data s}"
proof -
  have w: "wire_signature ` set (filter_valid cr keys data seen_default sigs) =
      wire_signature ` {s \<in> set sigs. valid_sig cr keys data s}"
    using filter_valid_wires[of seen_default cr keys data sigs] by simp
  show ?thesis
    by (rule equalityI; rule image_through[where g = wire_signature, OF assms]) (simp_all add: w)
qed

text \<open>The indices at which a list of signatures is valid, and the abstract judgments over them.\<close>

definition signers :: "crypto \<Rightarrow> Verfer list \<Rightarrow> bytes \<Rightarrow> Siger list \<Rightarrow> u32 set" where
  "signers cr keys data sigs = (\<lambda>s. ix_index (sg_indexer s)) ` {s \<in> set sigs. valid_sig cr keys data s}"

definition exposers :: "crypto \<Rightarrow> Commitment \<Rightarrow> Authority \<Rightarrow> bytes \<Rightarrow> Siger list \<Rightarrow> u32 set" where
  "exposers cr c a data sigs =
     {i. \<exists>s \<in> set sigs. valid_sig cr (au_keys a) data s \<and> exposed_ondex cr c a s = Some i}"

definition meets :: "SigningThreshold \<Rightarrow> u32 set \<Rightarrow> bool" where
  "meets t S = satisfied_by t (sorted_list_of_set S)"

lemma signers_finite [simp]: "finite (signers cr keys data sigs)"
  by (simp add: signers_def)

lemma exposers_finite [simp]: "finite (exposers cr c a data sigs)"
proof -
  have "exposers cr c a data sigs \<subseteq> the ` exposed_ondex cr c a ` set sigs"
    by (force simp: exposers_def)
  then show ?thesis by (rule finite_subset) simp
qed

lemma signers_bound: "i \<in> signers cr keys data sigs \<Longrightarrow> unat i < length keys"
  by (auto simp: signers_def valid_sig_def Let_def)

lemma signers_mono: "set sigs \<subseteq> set sigs' \<Longrightarrow> signers cr keys data sigs \<subseteq> signers cr keys data sigs'"
  by (auto simp: signers_def)

lemma sort_dedup_meets: "finite S \<Longrightarrow> set xs = S \<Longrightarrow> satisfied_by_sorted_unique t (sort_dedup xs) = meets t S"
  by (simp add: meets_def satisfied_by_def sort_dedup_eq)

lemma sig_indices_filter:
  "sig_indices (filter_valid cr keys data seen_default sigs) = sorted_list_of_set (signers cr keys data sigs)"
  unfolding sig_indices_def sort_dedup_eq set_map signers_def
  by (subst filter_valid_image) (auto simp: wire_signature_eq)

lemma meets_sorted: "finite S \<Longrightarrow> satisfied_by_sorted_unique t (sorted_list_of_set S) = meets t S"
  by (simp add: meets_def satisfied_by_def sort_dedup_eq)

lemma with_keys_eq:
  "with_keys cr keys t data sigs =
     (if meets t (signers cr keys data sigs) then Inr (filter_valid cr keys data seen_default sigs)
      else Inl (MissingSignatures (card (signers cr keys data sigs))))"
  by (simp add: with_keys_def Let_def sig_indices_filter meets_sorted)

lemma authority_verify_Inr:
  "authority_verify cr a data sigs = Inr v \<longleftrightarrow>
     meets (au_threshold a) (signers cr (au_keys a) data sigs) \<and>
     v = filter_valid cr (au_keys a) data seen_default sigs"
  by (auto simp: authority_verify_def with_keys_eq)

lemma authority_verify_Inl:
  "authority_verify cr a data sigs = Inl e \<longleftrightarrow>
     \<not> meets (au_threshold a) (signers cr (au_keys a) data sigs) \<and>
     e = MissingSignatures (card (signers cr (au_keys a) data sigs))"
  by (auto simp: authority_verify_def with_keys_eq)

lemma exposed_ondex_wire: "wire_signature s = wire_signature t \<Longrightarrow> exposed_ondex cr c a s = exposed_ondex cr c a t"
  by (simp add: wire_signature_eq exposed_ondex_def)

lemma opened_by_filter:
  "opened_by cr c a (filter_valid cr (au_keys a) data seen_default sigs) =
     (if meets (cm_next_threshold c) (exposers cr c a data sigs) then Inr ()
      else Inl (PriorNextThresholdUnsatisfied (card (exposers cr c a data sigs))))"
proof -
  let ?v = "filter_valid cr (au_keys a) data seen_default sigs"
  have "exposed_ondex cr c a ` set ?v = exposed_ondex cr c a ` {s \<in> set sigs. valid_sig cr (au_keys a) data s}"
    by (rule filter_valid_image) (rule exposed_ondex_wire)
  then have "Some i \<in> exposed_ondex cr c a ` set ?v \<longleftrightarrow> i \<in> exposers cr c a data sigs" for i
    by (auto simp: exposers_def image_iff)
  then have "set (List.map_filter (exposed_ondex cr c a) ?v) = exposers cr c a data sigs"
    by (auto simp: List.map_filter_def image_iff) (metis option.sel)+
  then have "sort_dedup (List.map_filter (exposed_ondex cr c a) ?v) = sorted_list_of_set (exposers cr c a data sigs)"
    by (simp add: sort_dedup_eq)
  then show ?thesis by (simp add: opened_by_def Let_def meets_sorted)
qed

lemma verify_opening_Inr:
  "verify_opening cr c a data sigs = Inr () \<longleftrightarrow>
     meets (au_threshold a) (signers cr (au_keys a) data sigs) \<and>
     meets (cm_next_threshold c) (exposers cr c a data sigs)"
  by (auto simp: verify_opening_def authority_verify_Inr opened_by_filter)

lemma verify_opening_Inl:
  "verify_opening cr c a data sigs = Inl e \<Longrightarrow>
     (\<exists>n. e = MissingSignatures n) \<or> (\<exists>n. e = PriorNextThresholdUnsatisfied n)"
  by (auto simp: verify_opening_def res_bind_Inl authority_verify_Inr authority_verify_Inl opened_by_filter split: if_splits)

lemma receipted_by_Inr:
  "receipted_by cr w data wigs = Inr () \<longleftrightarrow> unat (wi_toad w) \<le> card (signers cr (wi_witnesses w) data wigs)"
  by (auto simp: receipted_by_def Let_def sig_indices_filter unat_eq_0)

lemma receipted_by_Inl:
  "receipted_by cr w data wigs = Inl e \<Longrightarrow>
     e = InsufficientWitnessReceipts (card (signers cr (wi_witnesses w) data wigs)) (wi_toad w)"
  by (auto simp: receipted_by_def Let_def sig_indices_filter split: if_splits)

text \<open>A simple threshold counts the signers.\<close>

lemma meets_Simple: "finite S \<Longrightarrow> meets (Simple n) S \<longleftrightarrow> unat n \<le> card S"
  by (simp add: meets_def satisfied_by_Simple)

lemma exposers_digest:
  assumes "i \<in> exposers cr c a data sigs"
  shows "\<exists>s \<in> set sigs. valid_sig cr (au_keys a) data s \<and> ix_ondex (sg_indexer s) = Some i \<and>
    unat i < length (cm_next_digests c) \<and>
    commits_to cr (cm_next_digests c ! unat i) (au_keys a ! unat (ix_index (sg_indexer s)))"
  using assms
  by (auto simp: exposers_def exposed_ondex_def bind_eq_Some_conv slice_get_Some split: if_splits)

end
