(* ===== verification/Keri_State.thy ===== *)
theory Keri_State
  imports Keri_Authority
begin

text \<open>
  The key-state fold, \<^verbatim>\<open>crates/keri/src/state.rs\<close> and \<^verbatim>\<open>delegation.rs\<close>: the state an
  identifier's accepted events compute, the validating operations that create
  and advance it, and the owned snapshot with its trusted fold. A method on
  \<^verbatim>\<open>&mut self\<close> returns the state it leaves behind with its result.
\<close>

section \<open>State\<close>

datatype Transferability = Transferable | NonTransferable

record EstablishmentRef =
  est_sn :: Number
  est_said :: Said

record Signed =
  sg_event :: KeriEvent
  sg_body :: bytes
  sg_sigs :: "Siger list"
  sg_wigs :: "Siger list"

definition from_host_asserted_parts :: "KeriEvent \<Rightarrow> bytes \<Rightarrow> Siger list \<Rightarrow> Siger list \<Rightarrow> Signed" where
  "from_host_asserted_parts event signed_bytes sigs wigs =
     \<lparr>sg_event = event, sg_body = signed_bytes, sg_sigs = sigs, sg_wigs = wigs\<rparr>"

record KeyState =
  ks_prefix :: Identifier
  ks_sn :: Number
  ks_latest_said :: Said
  ks_latest_message_type :: MessageType
  ks_keys :: "VerifyingKey list"
  ks_threshold :: SigningThreshold
  ks_next_keys :: "Digest list"
  ks_next_threshold :: SigningThreshold
  ks_witnesses :: "BasicPrefix list"
  ks_witness_threshold :: Toad
  ks_config :: "ConfigTrait list"
  ks_delegator :: "Identifier option"
  ks_transferability :: Transferability
  ks_last_est :: EstablishmentRef

definition is_transferable :: "KeyState \<Rightarrow> bool" where
  "is_transferable s \<longleftrightarrow> ks_transferability s = Transferable"

definition is_establishment_only :: "KeyState \<Rightarrow> bool" where
  "is_establishment_only s = list_ex (\<lambda>c. c = EstOnly) (ks_config s)"

definition ks_authority :: "KeyState \<Rightarrow> Authority" where
  "ks_authority s = \<lparr>au_keys = ks_keys s, au_threshold = ks_threshold s\<rparr>"

definition ks_commitment :: "KeyState \<Rightarrow> Commitment" where
  "ks_commitment s = \<lparr>cm_next_digests = ks_next_keys s, cm_next_threshold = ks_next_threshold s\<rparr>"

section \<open>Delegation evidence\<close>

record AnchoredDelegation =
  ad_delegator :: KeyState
  ad_delegating_event :: KeriEvent

datatype DelegationEvidence = Anchored AnchoredDelegation | HostAccepted

primrec authorizes :: "DelegationEvidence \<Rightarrow> KeriEvent \<Rightarrow> Identifier \<Rightarrow> DelegationError + unit" where
  "authorizes HostAccepted delegated expected_delegator = Inr ()"
| "authorizes (Anchored anchor) delegated expected_delegator =
     (if ks_prefix (ad_delegator anchor) \<noteq> expected_delegator
         \<or> ev_prefix (ad_delegating_event anchor) \<noteq> ks_prefix (ad_delegator anchor)
      then Inl DelegatorMismatch
      else if list_ex (\<lambda>c. c = DoNotDelegate) (ks_config (ad_delegator anchor)) then Inl Denied
      else if anchor_position (ad_delegating_event anchor) delegated = None then Inl SealNotFound
      else Inr ())"

section \<open>Validation rules\<close>

definition check_next_sn :: "u128 \<Rightarrow> u128 \<Rightarrow> Rejection + unit" where
  "check_next_sn prior_sn actual =
     (case checked_add prior_sn 1 of
        None \<Rightarrow> Inl (Structural SequenceNumberOverflow)
      | Some expected \<Rightarrow> if actual \<noteq> expected then Inl (OutOfOrder expected actual) else Inr ())"

definition decide_transferability :: "InceptionEvent \<Rightarrow> TransferabilityError + Transferability" where
  "decide_transferability icp =
     (let transferable = Identifier_is_transferable (icp_prefix icp);
          next_empty = (icp_next_keys icp = [])
      in if \<not> transferable \<and> \<not> next_empty then Inl NonTransferableCommitsNextKeys
         else Inr (if transferable \<and> \<not> next_empty then Transferable else NonTransferable))"

definition check_next_threshold :: "SigningThreshold \<Rightarrow> nat \<Rightarrow> Rejection + unit" where
  "check_next_threshold threshold key_count =
     (if key_count \<noteq> 0 then map_err MalformedThreshold (check_well_formed threshold key_count) else Inr ())"

text \<open>A usize always fits a u128, so the count never overflows.\<close>

definition check_witness_threshold :: "nat \<Rightarrow> u32 \<Rightarrow> Rejection + unit" where
  "check_witness_threshold witness_count toad =
     (case toad_exact toad witness_count of
        Inl _ \<Rightarrow>
          if toad = 0 \<and> witness_count \<noteq> 0 then Inl (WitnessThresholdZeroWithWitnesses witness_count)
          else Inl (WitnessThresholdExceeded toad witness_count)
      | Inr _ \<Rightarrow> Inr ())"

text \<open>The members an update keeps, in order, then the new ones at their first occurrence.\<close>

fun new_members :: "BasicPrefix list \<Rightarrow> BasicPrefix list \<Rightarrow> BasicPrefix list \<Rightarrow> BasicPrefix list" where
  "new_members kept seen [] = []"
| "new_members kept seen (m # ms) =
     (if m \<notin> set kept \<and> m \<notin> set seen then m # new_members kept (seen @ [m]) ms
      else new_members kept (seen @ [m]) ms)"

definition updated_members :: "BasicPrefix list \<Rightarrow> BasicPrefix list \<Rightarrow> BasicPrefix list \<Rightarrow> BasicPrefix list" where
  "updated_members current cuts additions =
     (let kept = filter (\<lambda>m. m \<notin> set cuts) current in kept @ new_members kept [] additions)"

definition resolve_witnesses :: "KeyState \<Rightarrow> RotationEvent \<Rightarrow> WitnessSetError + BasicPrefix list" where
  "resolve_witnesses prior rot =
     (let removals = rot_witness_removals rot; additions = rot_witness_additions rot in
      res_bind (map_err Membership
         (check_witness_deltas removals additions ''witness removals'' ''witness additions'')) (\<lambda>_.
      if list_ex (\<lambda>r. r \<notin> set (ks_witnesses prior)) removals then Inl RemovalNotCurrent
      else if list_ex (\<lambda>a. a \<in> set (ks_witnesses prior)) additions then Inl AdditionAlreadyPresent
      else Inr (updated_members (ks_witnesses prior) removals additions)))"

definition check_chains_onto :: "KeyState \<Rightarrow> Identifier \<Rightarrow> u128 \<Rightarrow> Said \<Rightarrow> Rejection + unit" where
  "check_chains_onto s prefix sn prior_said =
     (if prefix \<noteq> ks_prefix s then Inl (Structural IdentifierMismatch)
      else res_bind (check_next_sn (num_value (ks_sn s)) sn) (\<lambda>_.
      if prior_said \<noteq> ks_latest_said s then Inl PriorDigestMismatch else Inr ()))"

definition reject_establishment_only :: "KeyState \<Rightarrow> Rejection + unit" where
  "reject_establishment_only s =
     (if is_establishment_only s then Inl (Structural InteractionOnEstablishmentOnly) else Inr ())"

section \<open>Inception\<close>

definition validate_inception :: "crypto \<Rightarrow> InceptionEvent \<Rightarrow> Signed \<Rightarrow> Rejection + Transferability" where
  "validate_inception cr icp sd =
     (let sn = num_value (icp_sn icp) in
      if sn \<noteq> 0 then Inl (Structural (NonZeroGenesisSn sn))
      else
      res_bind (map_err InceptionIdentity (check_identity icp)) (\<lambda>_.
      res_bind (map_err (WitnessSet \<circ> Membership) (check_witnesses (icp_witnesses icp) ''witnesses'')) (\<lambda>_.
      res_bind (map_err MalformedThreshold (well_formed (icp_authority icp))) (\<lambda>_.
      res_bind (authority_verify cr (icp_authority icp) (sg_body sd) (sg_sigs sd)) (\<lambda>_.
      res_bind (check_next_threshold (icp_next_threshold icp) (length (icp_next_keys icp))) (\<lambda>_.
      res_bind (map_err TransferabilityRej (decide_transferability icp)) (\<lambda>transferability.
      res_bind (check_witness_threshold (length (icp_witnesses icp)) (icp_witness_threshold icp)) (\<lambda>_.
      res_bind (receipted_by cr \<lparr>wi_witnesses = icp_witnesses icp, wi_toad = icp_witness_threshold icp\<rparr>
          (sg_body sd) (sg_wigs sd)) (\<lambda>_.
      Inr transferability)))))))))"

definition seed :: "InceptionEvent \<Rightarrow> Transferability \<Rightarrow> KeyState" where
  "seed icp transferability =
     \<lparr>ks_prefix = icp_prefix icp, ks_sn = Number_new 0, ks_latest_said = icp_said icp,
      ks_latest_message_type = Icp, ks_keys = icp_keys icp, ks_threshold = icp_threshold icp,
      ks_next_keys = icp_next_keys icp, ks_next_threshold = icp_next_threshold icp,
      ks_witnesses = icp_witnesses icp, ks_witness_threshold = icp_witness_threshold icp,
      ks_config = icp_config icp, ks_delegator = None, ks_transferability = transferability,
      ks_last_est = \<lparr>est_sn = Number_new 0, est_said = icp_said icp\<rparr>\<rparr>"

definition incept :: "crypto \<Rightarrow> Signed \<Rightarrow> Rejection + KeyState" where
  "incept cr sd =
     (case sg_event sd of
        Inception icp \<Rightarrow>
          res_bind (validate_inception cr icp sd) (\<lambda>transferability. Inr (seed icp transferability))
      | DelegatedInception _ \<Rightarrow> Inl (Delegation EvidenceRequired)
      | _ \<Rightarrow> Inl (Structural NotInception))"

definition incept_delegated :: "crypto \<Rightarrow> Signed \<Rightarrow> DelegationEvidence \<Rightarrow> Rejection + KeyState" where
  "incept_delegated cr sd evidence =
     (case sg_event sd of
        DelegatedInception dip \<Rightarrow>
          (if as_saider (icp_prefix (dip_inception dip)) = None then Inl (Structural DelegatedPrefixNotDigestive)
           else
           res_bind (validate_inception cr (dip_inception dip) sd) (\<lambda>transferability.
           res_bind (map_err Delegation (authorizes evidence (sg_event sd) (dip_delegator dip))) (\<lambda>_.
           Inr ((seed (dip_inception dip) transferability)
             \<lparr>ks_latest_message_type := Dip, ks_delegator := Some (dip_delegator dip)\<rparr>))))
      | _ \<Rightarrow> Inl (Structural NotDelegatedInception))"

section \<open>Rotation and interaction\<close>

definition validate_rotation :: "crypto \<Rightarrow> KeyState \<Rightarrow> RotationEvent \<Rightarrow> Signed \<Rightarrow> Rejection + BasicPrefix list" where
  "validate_rotation cr s rot sd =
     res_bind (check_chains_onto s (rot_prefix rot) (num_value (rot_sn rot)) (rot_prior rot)) (\<lambda>_.
     res_bind (map_err MalformedThreshold (well_formed (rot_authority rot))) (\<lambda>_.
     res_bind (check_next_threshold (rot_next_threshold rot) (length (rot_next_keys rot))) (\<lambda>_.
     res_bind (verify_opening cr (ks_commitment s) (rot_authority rot) (sg_body sd) (sg_sigs sd)) (\<lambda>_.
     res_bind (map_err WitnessSet (resolve_witnesses s rot)) (\<lambda>witnesses.
     res_bind (check_witness_threshold (length witnesses) (rot_witness_threshold rot)) (\<lambda>_.
     res_bind (receipted_by cr \<lparr>wi_witnesses = witnesses, wi_toad = rot_witness_threshold rot\<rparr>
         (sg_body sd) (sg_wigs sd)) (\<lambda>_.
     Inr witnesses)))))))"

definition apply_rotation :: "KeyState \<Rightarrow> RotationEvent \<Rightarrow> BasicPrefix list \<Rightarrow> MessageType \<Rightarrow> KeyState" where
  "apply_rotation s rot witnesses message_type =
     (let sn = num_value (rot_sn rot);
          s' = s\<lparr>ks_sn := Number_new sn,
                 ks_latest_said := rot_said rot,
                 ks_latest_message_type := message_type,
                 ks_keys := rot_keys rot,
                 ks_threshold := rot_threshold rot,
                 ks_next_keys := rot_next_keys rot,
                 ks_next_threshold := rot_next_threshold rot,
                 ks_witnesses := witnesses,
                 ks_witness_threshold := rot_witness_threshold rot,
                 ks_last_est := \<lparr>est_sn = Number_new sn, est_said = rot_said rot\<rparr>\<rparr>
      in if rot_next_keys rot = [] then s'\<lparr>ks_transferability := NonTransferable\<rparr> else s')"

definition rotate_mut :: "crypto \<Rightarrow> KeyState \<Rightarrow> RotationEvent \<Rightarrow> Signed \<Rightarrow> KeyState \<times> (Rejection + unit)" where
  "rotate_mut cr s rot sd =
     (case validate_rotation cr s rot sd of
        Inl e \<Rightarrow> (s, Inl e)
      | Inr witnesses \<Rightarrow> (apply_rotation s rot witnesses Rot, Inr ()))"

definition interact_mut :: "crypto \<Rightarrow> KeyState \<Rightarrow> InteractionEvent \<Rightarrow> Signed \<Rightarrow> KeyState \<times> (Rejection + unit)" where
  "interact_mut cr s ixn sd =
     (case
        res_bind (reject_establishment_only s) (\<lambda>_.
        res_bind (check_chains_onto s (ixn_prefix ixn) (num_value (ixn_sn ixn)) (ixn_prior ixn)) (\<lambda>_.
        res_bind (authority_verify cr (ks_authority s) (sg_body sd) (sg_sigs sd)) (\<lambda>_.
        receipted_by cr \<lparr>wi_witnesses = ks_witnesses s, wi_toad = ks_witness_threshold s\<rparr>
          (sg_body sd) (sg_wigs sd))))
      of
        Inl e \<Rightarrow> (s, Inl e)
      | Inr _ \<Rightarrow>
          (s\<lparr>ks_sn := Number_new (num_value (ixn_sn ixn)),
             ks_latest_said := ixn_said ixn,
             ks_latest_message_type := Ixn\<rparr>, Inr ()))"

definition ingest_mut :: "crypto \<Rightarrow> KeyState \<Rightarrow> Signed \<Rightarrow> KeyState \<times> (Rejection + unit)" where
  "ingest_mut cr s sd =
     (if \<not> is_transferable s then (s, Inl NonTransferableState)
      else case sg_event sd of
        DelegatedRotation _ \<Rightarrow>
          if ks_delegator s = None then (s, Inl (Delegation DelegatorUnknown))
          else (s, Inl (Delegation EvidenceRequired))
      | DelegatedInception _ \<Rightarrow> (s, Inl (Delegation EvidenceRequired))
      | Inception _ \<Rightarrow> (s, Inl (Structural DuplicateInception))
      | Rotation rot \<Rightarrow>
          if ks_delegator s \<noteq> None then (s, Inl (Delegation PlainRotationOnDelegatedState))
          else rotate_mut cr s rot sd
      | Interaction ixn \<Rightarrow> interact_mut cr s ixn sd)"

definition ingest :: "crypto \<Rightarrow> KeyState \<Rightarrow> Signed \<Rightarrow> Rejection + KeyState" where
  "ingest cr s sd = (let (s', r) = ingest_mut cr s sd in res_bind r (\<lambda>_. Inr s'))"

definition ingest_delegated_mut ::
    "crypto \<Rightarrow> KeyState \<Rightarrow> Signed \<Rightarrow> DelegationEvidence \<Rightarrow> KeyState \<times> (Rejection + unit)" where
  "ingest_delegated_mut cr s sd evidence =
     (if \<not> is_transferable s then (s, Inl NonTransferableState)
      else case sg_event sd of
        DelegatedRotation drt \<Rightarrow>
          if as_saider (rot_prefix (drt_rotation drt)) = None then (s, Inl (Structural DelegatedPrefixNotDigestive))
          else (case ks_delegator s of
            None \<Rightarrow> (s, Inl (Delegation DelegatorUnknown))
          | Some delegator \<Rightarrow>
              (case
                 res_bind (validate_rotation cr s (drt_rotation drt) sd) (\<lambda>witnesses.
                 res_bind (map_err Delegation (authorizes evidence (sg_event sd) delegator)) (\<lambda>_.
                 Inr witnesses))
               of
                 Inl e \<Rightarrow> (s, Inl e)
               | Inr witnesses \<Rightarrow> (apply_rotation s (drt_rotation drt) witnesses Drt, Inr ())))
      | _ \<Rightarrow> (s, Inl (Structural NotDelegatedRotation)))"

definition ingest_delegated ::
    "crypto \<Rightarrow> KeyState \<Rightarrow> Signed \<Rightarrow> DelegationEvidence \<Rightarrow> Rejection + KeyState" where
  "ingest_delegated cr s sd evidence =
     (let (s', r) = ingest_delegated_mut cr s sd evidence in res_bind r (\<lambda>_. Inr s'))"

section \<open>The snapshot and the trusted fold\<close>

record KeyStateSnapshot =
  sp_prefix :: Identifier
  sp_sn :: Number
  sp_latest_said :: Said
  sp_latest_message_type :: MessageType
  sp_keys :: "VerifyingKey list"
  sp_threshold :: SigningThreshold
  sp_next_keys :: "Digest list"
  sp_next_threshold :: SigningThreshold
  sp_witnesses :: "BasicPrefix list"
  sp_witness_threshold :: Toad
  sp_config :: "ConfigTrait list"
  sp_delegator :: "Identifier option"
  sp_transferability :: Transferability
  sp_last_est_sn :: Number
  sp_last_est_said :: Said

definition snapshot_view :: "KeyStateSnapshot \<Rightarrow> KeyState" where
  "snapshot_view p =
     \<lparr>ks_prefix = sp_prefix p, ks_sn = sp_sn p, ks_latest_said = sp_latest_said p,
      ks_latest_message_type = sp_latest_message_type p, ks_keys = sp_keys p, ks_threshold = sp_threshold p,
      ks_next_keys = sp_next_keys p, ks_next_threshold = sp_next_threshold p,
      ks_witnesses = sp_witnesses p, ks_witness_threshold = sp_witness_threshold p,
      ks_config = sp_config p, ks_delegator = sp_delegator p, ks_transferability = sp_transferability p,
      ks_last_est = \<lparr>est_sn = sp_last_est_sn p, est_said = sp_last_est_said p\<rparr>\<rparr>"

definition snapshot_of :: "KeyState \<Rightarrow> KeyStateSnapshot" where
  "snapshot_of s =
     \<lparr>sp_prefix = ks_prefix s, sp_sn = ks_sn s, sp_latest_said = ks_latest_said s,
      sp_latest_message_type = ks_latest_message_type s, sp_keys = ks_keys s, sp_threshold = ks_threshold s,
      sp_next_keys = ks_next_keys s, sp_next_threshold = ks_next_threshold s,
      sp_witnesses = ks_witnesses s, sp_witness_threshold = ks_witness_threshold s,
      sp_config = ks_config s, sp_delegator = ks_delegator s, sp_transferability = ks_transferability s,
      sp_last_est_sn = est_sn (ks_last_est s), sp_last_est_said = est_said (ks_last_est s)\<rparr>"

definition genesis :: "InceptionEvent \<Rightarrow> KeyStateSnapshot" where
  "genesis icp =
     (let transferability =
            (if Identifier_is_transferable (icp_prefix icp) \<and> icp_next_keys icp \<noteq> []
             then Transferable else NonTransferable)
      in \<lparr>sp_prefix = icp_prefix icp, sp_sn = icp_sn icp, sp_latest_said = icp_said icp,
          sp_latest_message_type = Icp, sp_keys = icp_keys icp, sp_threshold = icp_threshold icp,
          sp_next_keys = icp_next_keys icp, sp_next_threshold = icp_next_threshold icp,
          sp_witnesses = icp_witnesses icp, sp_witness_threshold = icp_witness_threshold icp,
          sp_config = icp_config icp, sp_delegator = None, sp_transferability = transferability,
          sp_last_est_sn = icp_sn icp, sp_last_est_said = icp_said icp\<rparr>)"

definition rolled :: "KeyStateSnapshot \<Rightarrow> RotationEvent \<Rightarrow> MessageType \<Rightarrow> KeyStateSnapshot" where
  "rolled p rot message_type =
     p\<lparr>sp_sn := rot_sn rot,
       sp_latest_said := rot_said rot,
       sp_latest_message_type := message_type,
       sp_keys := rot_keys rot,
       sp_threshold := rot_threshold rot,
       sp_next_keys := rot_next_keys rot,
       sp_next_threshold := rot_next_threshold rot,
       sp_witnesses := updated_members (sp_witnesses p) (rot_witness_removals rot) (rot_witness_additions rot),
       sp_witness_threshold := rot_witness_threshold rot,
       sp_last_est_sn := rot_sn rot,
       sp_last_est_said := rot_said rot,
       sp_transferability := (if rot_next_keys rot = [] then NonTransferable else sp_transferability p)\<rparr>"

definition stepped :: "KeyStateSnapshot \<Rightarrow> InteractionEvent \<Rightarrow> KeyStateSnapshot" where
  "stepped p ixn =
     p\<lparr>sp_sn := ixn_sn ixn, sp_latest_said := ixn_said ixn, sp_latest_message_type := Ixn\<rparr>"

primrec advance :: "KeyStateSnapshot \<Rightarrow> KeriEvent \<Rightarrow> KeyStateSnapshot" where
  "advance p (Inception icp) = genesis icp"
| "advance p (DelegatedInception dip) =
     (genesis (dip_inception dip))\<lparr>sp_latest_message_type := Dip, sp_delegator := Some (dip_delegator dip)\<rparr>"
| "advance p (Rotation rot) = rolled p rot Rot"
| "advance p (DelegatedRotation drt) = rolled p (drt_rotation drt) Drt"
| "advance p (Interaction ixn) = stepped p ixn"

end
