(* ===== verification/Keri_State_Lemmas.thy ===== *)
theory Keri_State_Lemmas
  imports Keri_State
begin

text \<open>
  What each operation of the key-state fold accepts, as an equivalence over the
  abstract judgments of \<^verbatim>\<open>Keri_Authority\<close>, and the relation between the
  validating and the trusted fold one event at a time.
\<close>

section \<open>The validation rules\<close>

named_theorems fold_simps

lemma check_next_sn_Inr [fold_simps]: "check_next_sn p a = Inr () \<longleftrightarrow> unat a = unat p + 1"
proof (cases "checked_add p 1")
  case None
  then have "2 ^ 128 \<le> unat p + 1" by (simp add: checked_add_None)
  moreover have "unat a < 2 ^ 128" using unsigned_less[of a] by simp
  ultimately show ?thesis using None by (simp add: check_next_sn_def)
next
  case (Some e)
  then have "unat e = unat p + 1" by (simp add: checked_add_Some)
  with Some show ?thesis by (auto simp: check_next_sn_def word_unat_eq_iff)
qed

lemma check_chains_onto_Inr [fold_simps]:
  "check_chains_onto s i sn d = Inr () \<longleftrightarrow>
     i = ks_prefix s \<and> unat sn = unat (num_value (ks_sn s)) + 1 \<and> d = ks_latest_said s"
  by (auto simp: check_chains_onto_def check_next_sn_Inr)

lemma decide_transferability_Inr [fold_simps]:
  "decide_transferability icp = Inr t \<longleftrightarrow>
     (icp_next_keys icp \<noteq> [] \<longrightarrow> Identifier_is_transferable (icp_prefix icp)) \<and>
     t = (if Identifier_is_transferable (icp_prefix icp) \<and> icp_next_keys icp \<noteq> [] then Transferable else NonTransferable)"
  by (auto simp: decide_transferability_def Let_def)

lemma check_next_threshold_Inr [fold_simps]:
  "check_next_threshold t n = Inr () \<longleftrightarrow> (n \<noteq> 0 \<longrightarrow> check_well_formed t n = Inr ())"
  by (auto simp: check_next_threshold_def)

definition toad_law :: "Toad \<Rightarrow> nat \<Rightarrow> bool" where
  "toad_law t n \<longleftrightarrow> (if n = 0 then t = 0 else 1 \<le> t \<and> unat t \<le> n)"

lemma check_witness_threshold_Inr [fold_simps]: "check_witness_threshold n t = Inr () \<longleftrightarrow> toad_law t n"
  by (auto simp: check_witness_threshold_def toad_law_def toad_exact_def Let_def split: sum.splits if_splits)

text \<open>The resolved witness set.\<close>

lemma new_members_set: "set (new_members kept seen ms) = set ms - set kept - set seen"
  by (induction ms arbitrary: seen) auto

lemma new_members_distinct: "distinct (new_members kept seen ms)"
  by (induction ms arbitrary: seen) (auto simp: new_members_set)

lemma new_members_id: "distinct ms \<Longrightarrow> set ms \<inter> (set kept \<union> set seen) = {} \<Longrightarrow> new_members kept seen ms = ms"
  by (induction ms arbitrary: seen) auto

lemma updated_members_set: "set (updated_members cur cuts adds) = (set cur - set cuts) \<union> set adds"
  by (auto simp: updated_members_def Let_def new_members_set)

lemma updated_members_distinct: "distinct cur \<Longrightarrow> distinct (updated_members cur cuts adds)"
  by (auto simp: updated_members_def Let_def new_members_set new_members_distinct)

lemma updated_members_append:
  "distinct adds \<Longrightarrow> set adds \<inter> set cur = {} \<Longrightarrow>
   updated_members cur cuts adds = filter (\<lambda>m. m \<notin> set cuts) cur @ adds"
  by (subst updated_members_def) (auto simp: Let_def intro!: new_members_id)

definition deltas_ok :: "BasicPrefix list \<Rightarrow> RotationEvent \<Rightarrow> bool" where
  "deltas_ok cur rot \<longleftrightarrow>
     witnesses_ok (rot_witness_removals rot) \<and> witnesses_ok (rot_witness_additions rot) \<and>
     set (rot_witness_removals rot) \<inter> set (rot_witness_additions rot) = {} \<and>
     set (rot_witness_removals rot) \<subseteq> set cur \<and> set (rot_witness_additions rot) \<inter> set cur = {}"

definition next_witnesses :: "BasicPrefix list \<Rightarrow> RotationEvent \<Rightarrow> BasicPrefix list" where
  "next_witnesses cur rot = updated_members cur (rot_witness_removals rot) (rot_witness_additions rot)"

lemma resolve_witnesses_Inr [fold_simps]:
  "resolve_witnesses s rot = Inr ws \<longleftrightarrow> deltas_ok (ks_witnesses s) rot \<and> ws = next_witnesses (ks_witnesses s) rot"
  by (auto simp: resolve_witnesses_def deltas_ok_def next_witnesses_def Let_def list_ex_iff)

lemma next_witnesses_ok: "witnesses_ok cur \<Longrightarrow> deltas_ok cur rot \<Longrightarrow> witnesses_ok (next_witnesses cur rot)"
  by (auto simp: witnesses_ok_def deltas_ok_def next_witnesses_def updated_members_distinct list_all_iff updated_members_set)

section \<open>What the operations accept\<close>

text \<open>Enough witnesses have a valid receipt.\<close>

definition receipted :: "crypto \<Rightarrow> BasicPrefix list \<Rightarrow> Toad \<Rightarrow> Signed \<Rightarrow> bool" where
  "receipted cr ws t sd \<longleftrightarrow> unat t \<le> card (signers cr ws (sg_body sd) (sg_wigs sd))"

text \<open>The controllers' valid signatures meet a threshold.\<close>

definition authenticated :: "crypto \<Rightarrow> Authority \<Rightarrow> Signed \<Rightarrow> bool" where
  "authenticated cr a sd \<longleftrightarrow> meets (au_threshold a) (signers cr (au_keys a) (sg_body sd) (sg_sigs sd))"

text \<open>The next-key commitment of a state is opened.\<close>

definition opened :: "crypto \<Rightarrow> KeyState \<Rightarrow> RotationEvent \<Rightarrow> Signed \<Rightarrow> bool" where
  "opened cr s rot sd \<longleftrightarrow>
     meets (ks_next_threshold s) (exposers cr (ks_commitment s) (rot_authority rot) (sg_body sd) (sg_sigs sd))"

definition inception_ok :: "crypto \<Rightarrow> InceptionEvent \<Rightarrow> Signed \<Rightarrow> bool" where
  "inception_ok cr icp sd \<longleftrightarrow>
     num_value (icp_sn icp) = 0 \<and> check_identity icp = Inr () \<and> witnesses_ok (icp_witnesses icp) \<and>
     check_well_formed (icp_threshold icp) (length (icp_keys icp)) = Inr () \<and>
     authenticated cr (icp_authority icp) sd \<and>
     (icp_next_keys icp \<noteq> [] \<longrightarrow>
        check_well_formed (icp_next_threshold icp) (length (icp_next_keys icp)) = Inr () \<and>
        Identifier_is_transferable (icp_prefix icp)) \<and>
     toad_law (icp_witness_threshold icp) (length (icp_witnesses icp)) \<and>
     receipted cr (icp_witnesses icp) (icp_witness_threshold icp) sd"

definition genesis_transferability :: "InceptionEvent \<Rightarrow> Transferability" where
  "genesis_transferability icp =
     (if Identifier_is_transferable (icp_prefix icp) \<and> icp_next_keys icp \<noteq> [] then Transferable else NonTransferable)"

definition rotation_ok :: "crypto \<Rightarrow> KeyState \<Rightarrow> RotationEvent \<Rightarrow> Signed \<Rightarrow> bool" where
  "rotation_ok cr s rot sd \<longleftrightarrow>
     rot_prefix rot = ks_prefix s \<and> unat (num_value (rot_sn rot)) = unat (num_value (ks_sn s)) + 1 \<and>
     rot_prior rot = ks_latest_said s \<and>
     check_well_formed (rot_threshold rot) (length (rot_keys rot)) = Inr () \<and>
     (rot_next_keys rot \<noteq> [] \<longrightarrow> check_well_formed (rot_next_threshold rot) (length (rot_next_keys rot)) = Inr ()) \<and>
     authenticated cr (rot_authority rot) sd \<and> opened cr s rot sd \<and>
     deltas_ok (ks_witnesses s) rot \<and>
     toad_law (rot_witness_threshold rot) (length (next_witnesses (ks_witnesses s) rot)) \<and>
     receipted cr (next_witnesses (ks_witnesses s) rot) (rot_witness_threshold rot) sd"

definition interaction_ok :: "crypto \<Rightarrow> KeyState \<Rightarrow> InteractionEvent \<Rightarrow> Signed \<Rightarrow> bool" where
  "interaction_ok cr s ixn sd \<longleftrightarrow>
     EstOnly \<notin> set (ks_config s) \<and>
     ixn_prefix ixn = ks_prefix s \<and> unat (num_value (ixn_sn ixn)) = unat (num_value (ks_sn s)) + 1 \<and>
     ixn_prior ixn = ks_latest_said s \<and>
     authenticated cr (ks_authority s) sd \<and>
     receipted cr (ks_witnesses s) (ks_witness_threshold s) sd"

definition interacted :: "KeyState \<Rightarrow> InteractionEvent \<Rightarrow> KeyState" where
  "interacted s ixn =
     s\<lparr>ks_sn := Number_new (num_value (ixn_sn ixn)), ks_latest_said := ixn_said ixn, ks_latest_message_type := Ixn\<rparr>"

definition authorized :: "DelegationEvidence \<Rightarrow> KeriEvent \<Rightarrow> Identifier \<Rightarrow> bool" where
  "authorized evidence e delegator \<longleftrightarrow>
     (case evidence of
        HostAccepted \<Rightarrow> True
      | Anchored a \<Rightarrow>
          ks_prefix (ad_delegator a) = delegator \<and> ev_prefix (ad_delegating_event a) = delegator \<and>
          DoNotDelegate \<notin> set (ks_config (ad_delegator a)) \<and>
          anchor_position (ad_delegating_event a) e \<noteq> None)"

lemma authorizes_Inr [fold_simps]: "authorizes ev e d = Inr () \<longleftrightarrow> authorized ev e d"
  by (cases ev) (auto simp: authorized_def list_ex_iff)

lemma validate_inception_Inr:
  "validate_inception cr icp sd = Inr t \<longleftrightarrow> inception_ok cr icp sd \<and> t = genesis_transferability icp"
  by (auto simp: validate_inception_def inception_ok_def genesis_transferability_def Let_def fold_simps
      well_formed_def icp_authority_def authenticated_def authority_verify_Inr receipted_by_Inr receipted_def)

lemma validate_rotation_Inr:
  "validate_rotation cr s rot sd = Inr ws \<longleftrightarrow> rotation_ok cr s rot sd \<and> ws = next_witnesses (ks_witnesses s) rot"
  by (auto simp: validate_rotation_def rotation_ok_def fold_simps well_formed_def rot_authority_def
      authenticated_def opened_def ks_commitment_def verify_opening_Inr receipted_by_Inr receipted_def)

lemma incept_Inr:
  "incept cr sd = Inr s \<longleftrightarrow>
     (\<exists>icp. sg_event sd = Inception icp \<and> inception_ok cr icp sd \<and> s = seed icp (genesis_transferability icp))"
  by (cases "sg_event sd") (auto simp: incept_def validate_inception_Inr)

definition seed_delegated :: "DelegatedInceptionEvent \<Rightarrow> KeyState" where
  "seed_delegated dip =
     (seed (dip_inception dip) (genesis_transferability (dip_inception dip)))
       \<lparr>ks_latest_message_type := Dip, ks_delegator := Some (dip_delegator dip)\<rparr>"

lemma incept_delegated_Inr:
  "incept_delegated cr sd ev = Inr s \<longleftrightarrow>
     (\<exists>dip. sg_event sd = DelegatedInception dip \<and> as_saider (icp_prefix (dip_inception dip)) \<noteq> None \<and>
        inception_ok cr (dip_inception dip) sd \<and> authorized ev (sg_event sd) (dip_delegator dip) \<and>
        s = seed_delegated dip)"
  by (cases "sg_event sd") (auto simp: incept_delegated_def validate_inception_Inr fold_simps seed_delegated_def)

text \<open>Validate, then change the state: the shape of every mutating method.\<close>

lemma validate_then_apply:
  "(case m of Inl e \<Rightarrow> (s, Inl e) | Inr x \<Rightarrow> (g x, Inr ())) = (s', Inr ()) \<longleftrightarrow> (\<exists>x. m = Inr x \<and> s' = g x)"
  by (auto split: sum.splits)

lemma rotate_mut_eq:
  "rotate_mut cr s rot sd = (s', Inr ()) \<longleftrightarrow>
     rotation_ok cr s rot sd \<and> s' = apply_rotation s rot (next_witnesses (ks_witnesses s) rot) Rot"
  by (auto simp: rotate_mut_def validate_then_apply validate_rotation_Inr)

lemma interact_mut_eq:
  "interact_mut cr s ixn sd = (s', Inr ()) \<longleftrightarrow> interaction_ok cr s ixn sd \<and> s' = interacted s ixn"
proof -
  have "res_bind (reject_establishment_only s) (\<lambda>_.
      res_bind (check_chains_onto s (ixn_prefix ixn) (num_value (ixn_sn ixn)) (ixn_prior ixn)) (\<lambda>_.
      res_bind (authority_verify cr (ks_authority s) (sg_body sd) (sg_sigs sd)) (\<lambda>_.
      receipted_by cr \<lparr>wi_witnesses = ks_witnesses s, wi_toad = ks_witness_threshold s\<rparr> (sg_body sd) (sg_wigs sd)))) = Inr ()
    \<longleftrightarrow> interaction_ok cr s ixn sd"
    by (auto simp: interaction_ok_def fold_simps authority_verify_Inr receipted_by_Inr authenticated_def receipted_def
        reject_establishment_only_def is_establishment_only_def list_ex_iff)
  then show ?thesis by (simp add: interact_mut_def interacted_def validate_then_apply)
qed

lemma ingest_Inr:
  "ingest cr s sd = Inr s' \<longleftrightarrow>
     ks_transferability s = Transferable \<and>
     ((\<exists>rot. sg_event sd = Rotation rot \<and> ks_delegator s = None \<and> rotation_ok cr s rot sd \<and>
         s' = apply_rotation s rot (next_witnesses (ks_witnesses s) rot) Rot) \<or>
      (\<exists>ixn. sg_event sd = Interaction ixn \<and> interaction_ok cr s ixn sd \<and> s' = interacted s ixn))"
proof -
  have "ingest cr s sd = Inr s' \<longleftrightarrow> ingest_mut cr s sd = (s', Inr ())"
    by (auto simp: ingest_def split: prod.splits)
  then show ?thesis
    by (cases "sg_event sd")
       (auto simp: ingest_mut_def is_transferable_def rotate_mut_eq interact_mut_eq)
qed

lemma ingest_delegated_Inr:
  "ingest_delegated cr s sd ev = Inr s' \<longleftrightarrow>
     ks_transferability s = Transferable \<and>
     (\<exists>drt delegator. sg_event sd = DelegatedRotation drt \<and> as_saider (rot_prefix (drt_rotation drt)) \<noteq> None \<and>
        ks_delegator s = Some delegator \<and> rotation_ok cr s (drt_rotation drt) sd \<and>
        authorized ev (sg_event sd) delegator \<and>
        s' = apply_rotation s (drt_rotation drt) (next_witnesses (ks_witnesses s) (drt_rotation drt)) Drt)"
proof -
  have "ingest_delegated cr s sd ev = Inr s' \<longleftrightarrow> ingest_delegated_mut cr s sd ev = (s', Inr ())"
    by (auto simp: ingest_delegated_def split: prod.splits)
  then show ?thesis
    by (cases "sg_event sd"; cases "ks_delegator s")
       (auto simp: ingest_delegated_mut_def is_transferable_def validate_rotation_Inr fold_simps validate_then_apply)
qed

end
