(* ===== verification/Keri_Kel.thy ===== *)
theory Keri_Kel
  imports Keri_State_Lemmas
begin

text \<open>
  Key event logs: the logs the fold accepts, as an inductive relation between a
  list of signed events and the state they compute, and what holds of every
  accepted log: a state invariant, the hash chain, what never changes, and the
  agreement of the trusted snapshot fold with the validating one.
\<close>

section \<open>Accepted logs\<close>

inductive accepted :: "crypto \<Rightarrow> Signed list \<Rightarrow> KeyState \<Rightarrow> bool" for cr where
  genesis_plain: "incept cr sd = Inr s \<Longrightarrow> accepted cr [sd] s"
| genesis_delegated: "incept_delegated cr sd ev = Inr s \<Longrightarrow> accepted cr [sd] s"
| next_plain: "accepted cr kel s \<Longrightarrow> ingest cr s sd = Inr s' \<Longrightarrow> accepted cr (kel @ [sd]) s'"
| next_delegated: "accepted cr kel s \<Longrightarrow> ingest_delegated cr s sd ev = Inr s' \<Longrightarrow> accepted cr (kel @ [sd]) s'"

inductive_cases accepted_NilE: "accepted cr [] s"

text \<open>One step of a log, either entry.\<close>

inductive kel_step :: "crypto \<Rightarrow> KeyState \<Rightarrow> Signed \<Rightarrow> KeyState \<Rightarrow> bool" for cr where
  rotated: "sg_event sd = Rotation rot \<Longrightarrow> ks_transferability s = Transferable \<Longrightarrow> ks_delegator s = None \<Longrightarrow>
     rotation_ok cr s rot sd \<Longrightarrow>
     kel_step cr s sd (apply_rotation s rot (next_witnesses (ks_witnesses s) rot) Rot)"
| delegated_rotated: "sg_event sd = DelegatedRotation drt \<Longrightarrow> ks_transferability s = Transferable \<Longrightarrow>
     ks_delegator s = Some delegator \<Longrightarrow> as_saider (rot_prefix (drt_rotation drt)) \<noteq> None \<Longrightarrow>
     rotation_ok cr s (drt_rotation drt) sd \<Longrightarrow> authorized ev (sg_event sd) delegator \<Longrightarrow>
     kel_step cr s sd (apply_rotation s (drt_rotation drt) (next_witnesses (ks_witnesses s) (drt_rotation drt)) Drt)"
| anchored: "sg_event sd = Interaction ixn \<Longrightarrow> ks_transferability s = Transferable \<Longrightarrow> interaction_ok cr s ixn sd \<Longrightarrow>
     kel_step cr s sd (interacted s ixn)"

inductive_cases kel_stepE: "kel_step cr s sd s'"

lemma kel_step_plain: "ingest cr s sd = Inr s' \<Longrightarrow> kel_step cr s sd s'"
  unfolding ingest_Inr by (elim conjE disjE exE) (simp_all add: kel_step.intros)

lemma kel_step_delegated: "ingest_delegated cr s sd ev = Inr s' \<Longrightarrow> kel_step cr s sd s'"
  unfolding ingest_delegated_Inr by (elim conjE exE) (simp add: delegated_rotated)

text \<open>The genesis states.\<close>

inductive kel_genesis :: "crypto \<Rightarrow> Signed \<Rightarrow> KeyState \<Rightarrow> bool" for cr where
  born: "sg_event sd = Inception icp \<Longrightarrow> inception_ok cr icp sd \<Longrightarrow>
     kel_genesis cr sd (seed icp (genesis_transferability icp))"
| born_delegated: "sg_event sd = DelegatedInception dip \<Longrightarrow> as_saider (icp_prefix (dip_inception dip)) \<noteq> None \<Longrightarrow>
     inception_ok cr (dip_inception dip) sd \<Longrightarrow> authorized ev (sg_event sd) (dip_delegator dip) \<Longrightarrow>
     kel_genesis cr sd (seed_delegated dip)"

lemma kel_genesis_plain: "incept cr sd = Inr s \<Longrightarrow> kel_genesis cr sd s"
  unfolding incept_Inr by (elim conjE exE) (simp add: born)

lemma kel_genesis_delegated: "incept_delegated cr sd ev = Inr s \<Longrightarrow> kel_genesis cr sd s"
  unfolding incept_delegated_Inr by (elim conjE exE) (simp add: born_delegated)

text \<open>Induction over an accepted log needs only the two relations.\<close>

lemma accepted_induct [consumes 1, case_names genesis step]:
  assumes "accepted cr kel s"
    and "\<And>sd s. kel_genesis cr sd s \<Longrightarrow> P [sd] s"
    and "\<And>kel s sd s'. accepted cr kel s \<Longrightarrow> P kel s \<Longrightarrow> kel_step cr s sd s' \<Longrightarrow> P (kel @ [sd]) s'"
  shows "P kel s"
  using assms(1)
  by induction (blast intro: assms(2,3) kel_genesis_plain kel_genesis_delegated kel_step_plain kel_step_delegated)+

lemma accepted_nonempty: "accepted cr kel s \<Longrightarrow> kel \<noteq> []"
  by (erule accepted.cases) simp_all

section \<open>The state invariant\<close>

definition number_canonical :: "Number \<Rightarrow> bool" where
  "number_canonical n \<longleftrightarrow> n = Number_new (num_value n)"

definition key_state_ok :: "KeyState \<Rightarrow> bool" where
  "key_state_ok s \<longleftrightarrow>
     check_well_formed (ks_threshold s) (length (ks_keys s)) = Inr () \<and>
     (ks_next_keys s \<noteq> [] \<longrightarrow> check_well_formed (ks_next_threshold s) (length (ks_next_keys s)) = Inr ()) \<and>
     witnesses_ok (ks_witnesses s) \<and>
     toad_law (ks_witness_threshold s) (length (ks_witnesses s)) \<and>
     (ks_transferability s = Transferable \<longleftrightarrow>
        Identifier_is_transferable (ks_prefix s) \<and> ks_next_keys s \<noteq> []) \<and>
     number_canonical (ks_sn s) \<and> number_canonical (est_sn (ks_last_est s)) \<and>
     num_value (est_sn (ks_last_est s)) \<le> num_value (ks_sn s) \<and>
     (ks_delegator s \<noteq> None \<longrightarrow> as_saider (ks_prefix s) \<noteq> None) \<and>
     (ks_latest_message_type s = Ixn \<or> ks_last_est s = \<lparr>est_sn = ks_sn s, est_said = ks_latest_said s\<rparr>) \<and>
     ks_latest_message_type s \<in> set (if ks_delegator s = None then [Icp, Rot, Ixn] else [Dip, Drt, Ixn])"

lemma number_canonical_new [simp]: "number_canonical (Number_new v)" "num_value (Number_new v) = v"
  by (simp_all add: number_canonical_def Number_new_def)

lemmas state_simps = seed_def seed_delegated_def apply_rotation_def interacted_def Let_def

lemma kel_genesis_ok: "kel_genesis cr sd s \<Longrightarrow> key_state_ok s"
  by (erule kel_genesis.cases)
     (auto simp: key_state_ok_def state_simps inception_ok_def genesis_transferability_def)

lemma rotation_step_ok:
  assumes "key_state_ok s" "ks_transferability s = Transferable" "rotation_ok cr s rot sd"
    and "t = (if ks_delegator s = None then Rot else Drt)"
  shows "key_state_ok (apply_rotation s rot (next_witnesses (ks_witnesses s) rot) t)"
proof -
  have "witnesses_ok (next_witnesses (ks_witnesses s) rot)"
    using assms(1,3) by (intro next_witnesses_ok) (auto simp: key_state_ok_def rotation_ok_def)
  with assms show ?thesis
    by (auto simp: key_state_ok_def rotation_ok_def state_simps)
qed

lemma kel_step_ok: "kel_step cr s sd s' \<Longrightarrow> key_state_ok s \<Longrightarrow> key_state_ok s'"
proof (erule kel_step.cases)
  fix sd' ixn t
  assume "key_state_ok s" "s = t" "s' = interacted t ixn" "interaction_ok cr t ixn sd'"
  then show ?thesis
    by (auto simp: key_state_ok_def interaction_ok_def state_simps word_le_nat_alt)
qed (auto intro!: rotation_step_ok)

lemma accepted_ok: "accepted cr kel s \<Longrightarrow> key_state_ok s"
  by (induction rule: accepted_induct) (auto intro: kel_genesis_ok kel_step_ok)

section \<open>What one step does to the coordinates\<close>

primrec ev_prior :: "KeriEvent \<Rightarrow> Said option" where
  "ev_prior (Inception e) = None"
| "ev_prior (DelegatedInception e) = None"
| "ev_prior (Rotation e) = Some (rot_prior e)"
| "ev_prior (DelegatedRotation e) = Some (rot_prior (drt_rotation e))"
| "ev_prior (Interaction e) = Some (ixn_prior e)"

lemma kel_step_coordinates:
  assumes "kel_step cr s sd s'"
  shows "ev_prefix (sg_event sd) = ks_prefix s \<and> ev_prior (sg_event sd) = Some (ks_latest_said s) \<and>
    unat (num_value (ev_sn (sg_event sd))) = unat (num_value (ks_sn s)) + 1 \<and>
    num_value (ks_sn s') = num_value (ev_sn (sg_event sd)) \<and> ks_latest_said s' = ev_said (sg_event sd) \<and>
    ks_latest_message_type s' = ev_message_type (sg_event sd)"
  using assms
  by (cases rule: kel_step.cases) (auto simp: rotation_ok_def interaction_ok_def state_simps)

lemma kel_step_frame:
  assumes "kel_step cr s sd s'"
  shows "ks_prefix s' = ks_prefix s \<and> ks_config s' = ks_config s \<and> ks_delegator s' = ks_delegator s \<and>
    ks_transferability s = Transferable"
  using assms by (cases rule: kel_step.cases) (auto simp: state_simps)

lemma kel_genesis_coordinates:
  assumes "kel_genesis cr sd s"
  shows "ev_prior (sg_event sd) = None \<and> num_value (ev_sn (sg_event sd)) = 0 \<and> num_value (ks_sn s) = 0 \<and>
    ks_prefix s = ev_prefix (sg_event sd) \<and> ks_latest_said s = ev_said (sg_event sd) \<and>
    ks_latest_message_type s = ev_message_type (sg_event sd)"
  using assms by (cases rule: kel_genesis.cases) (auto simp: inception_ok_def state_simps)

end
