(* ===== verification/Keri_Kel_Props.thy ===== *)
theory Keri_Kel_Props
  imports Keri_Kel
begin

text \<open>
  The properties of accepted key event logs and of single folds, stated over the
  operations of \<^verbatim>\<open>Keri_State\<close>.
\<close>

section \<open>The log is a hash chain\<close>

definition hash_chain :: "KeriEvent list \<Rightarrow> bool" where
  "hash_chain es \<longleftrightarrow>
     (\<forall>i < length es. unat (num_value (ev_sn (es ! i))) = i \<and> ev_prefix (es ! i) = ev_prefix (hd es) \<and>
        ev_prior (es ! i) = (if i = 0 then None else Some (ev_said (es ! (i - 1)))))"

lemma hash_chain_single: "ev_prior e = None \<Longrightarrow> num_value (ev_sn e) = 0 \<Longrightarrow> hash_chain [e]"
  by (simp add: hash_chain_def)

lemma hash_chain_append:
  assumes "hash_chain es" "es \<noteq> []" "unat (num_value (ev_sn e)) = length es" "ev_prefix e = ev_prefix (hd es)"
    and "ev_prior e = Some (ev_said (last es))"
  shows "hash_chain (es @ [e])"
  using assms by (auto simp: hash_chain_def nth_append last_conv_nth less_Suc_eq)

lemma accepted_chain_aux:
  "accepted cr kel s \<Longrightarrow>
     hash_chain (map sg_event kel) \<and> length kel = unat (num_value (ks_sn s)) + 1 \<and>
     ks_prefix s = ev_prefix (sg_event (hd kel)) \<and> ks_latest_said s = ev_said (sg_event (last kel)) \<and>
     ks_latest_message_type s = ev_message_type (sg_event (last kel))"
proof (induction rule: accepted_induct)
  case (genesis sd s)
  from kel_genesis_coordinates[OF genesis] show ?case by (simp add: hash_chain_single)
next
  case (step kel s sd s')
  note c = kel_step_coordinates[OF step.hyps(2)] and f = kel_step_frame[OF step.hyps(2)] and ih = step.IH
  have ne: "kel \<noteq> []" using step.hyps(1) by (rule accepted_nonempty)
  have "hash_chain (map sg_event kel @ [sg_event sd])"
    using ih c ne by (intro hash_chain_append) (auto simp: hd_map last_map)
  with ih c f ne show ?case by simp
qed

text \<open>
  C2: An accepted key event log is a gap-free hash chain of one identifier: the
  event at position i has sequence number i, the same prefix as the first, and
  names the digest of the event before it; and the computed state points at its
  last event.
\<close>

theorem accepted_chain:
  assumes "accepted cr kel s"
  shows "hash_chain (map sg_event kel) \<and> length kel = unat (num_value (ks_sn s)) + 1 \<and>
    ks_prefix s = ev_prefix (sg_event (hd kel)) \<and> ks_latest_said s = ev_said (sg_event (last kel))"
  using accepted_chain_aux[OF assms] by blast

section \<open>The state invariant\<close>

text \<open>
  Every state the fold computes is well formed: its thresholds fit its key
  lists, its witnesses are distinct and non-transferable with a legal witness
  threshold, it is transferable exactly when its prefix is and it commits to
  next keys, and its last-establishment pointer lies at or before its head.
\<close>

theorem accepted_invariant:
  assumes "accepted cr kel s"
  shows "key_state_ok s"
  by (rule accepted_ok[OF assms])

section \<open>The trusted fold refines the validating one\<close>

text \<open>
  The validating fold stores sequence numbers under their canonical code, the
  trusted one keeps the event's own code; \<^verbatim>\<open>canon\<close> forgets the difference.
\<close>

definition canon :: "KeyStateSnapshot \<Rightarrow> KeyStateSnapshot" where
  "canon p = p\<lparr>sp_sn := Number_new (num_value (sp_sn p)), sp_last_est_sn := Number_new (num_value (sp_last_est_sn p))\<rparr>"

text \<open>
  The interface of a trusted replay: accepting steps of a validating machine are
  matched, up to an equivalence, by a total function that checks nothing.
\<close>

locale trusted_replay =
  fixes genesis_of :: "'e \<Rightarrow> 's \<Rightarrow> bool" and step_of :: "'s \<Rightarrow> 'e \<Rightarrow> 's \<Rightarrow> bool"
    and abs_of :: "'s \<Rightarrow> 't" and replay1 :: "'t \<Rightarrow> 'e \<Rightarrow> 't" and norm :: "'t \<Rightarrow> 't"
  assumes genesis_match: "genesis_of e s \<Longrightarrow> norm (replay1 p e) = norm (abs_of s)"
    and step_match: "step_of s e s' \<Longrightarrow> norm p = norm (abs_of s) \<Longrightarrow> norm (replay1 p e) = norm (abs_of s')"
begin

inductive run :: "'e list \<Rightarrow> 's \<Rightarrow> bool" where
  run_genesis: "genesis_of e s \<Longrightarrow> run [e] s"
| run_step: "run es s \<Longrightarrow> step_of s e s' \<Longrightarrow> run (es @ [e]) s'"

lemma replay_run: "run es s \<Longrightarrow> norm (foldl replay1 p es) = norm (abs_of s)"
  by (induction rule: run.induct) (auto intro: genesis_match step_match)

end

definition snapshot_step :: "KeyStateSnapshot \<Rightarrow> Signed \<Rightarrow> KeyStateSnapshot" where
  "snapshot_step p sd = advance p (sg_event sd)"

lemmas snapshot_simps = snapshot_step_def snapshot_of_def canon_def genesis_def rolled_def stepped_def

lemma genesis_replays: "kel_genesis cr sd s \<Longrightarrow> canon (snapshot_step p sd) = canon (snapshot_of s)"
  by (erule kel_genesis.cases)
     (auto simp: snapshot_simps state_simps inception_ok_def genesis_transferability_def)

lemma step_replays:
  assumes "kel_step cr s sd s'" "canon p = canon (snapshot_of s)"
  shows "canon (snapshot_step p sd) = canon (snapshot_of s')"
  using assms
  by (cases rule: kel_step.cases; cases p)
     (auto simp: snapshot_simps state_simps next_witnesses_def)

interpretation kel_replay: trusted_replay "\<lambda>sd s. kel_genesis cr sd s" "\<lambda>s sd s'. kel_step cr s sd s'"
    snapshot_of snapshot_step canon for cr
  by unfold_locales (simp_all add: genesis_replays step_replays)

lemma accepted_run: "accepted cr kel s \<Longrightarrow> kel_replay.run cr kel s"
  by (induction rule: accepted_induct) (auto intro: kel_replay.run_genesis kel_replay.run_step)

lemma canon_canonical: "key_state_ok s \<Longrightarrow> canon (snapshot_of s) = snapshot_of s"
  by (simp add: canon_def snapshot_of_def key_state_ok_def number_canonical_def)

text \<open>
  C1: Replaying an accepted log through the trusted, crypto-free snapshot fold,
  from any starting snapshot, gives the snapshot of the state the validating
  fold computed (sequence numbers compared by value), and its view is that state.
\<close>

theorem trusted_fold_refines:
  assumes "accepted cr kel s"
  shows "canon (foldl snapshot_step p kel) = snapshot_of s \<and> snapshot_view (canon (foldl snapshot_step p kel)) = s"
proof -
  have "canon (foldl snapshot_step p kel) = canon (snapshot_of s)"
    by (rule kel_replay.replay_run[OF accepted_run[OF assms]])
  then have "canon (foldl snapshot_step p kel) = snapshot_of s"
    by (simp add: canon_canonical accepted_ok[OF assms])
  moreover have "snapshot_view (snapshot_of s) = s" by (simp add: snapshot_view_def snapshot_of_def)
  ultimately show ?thesis by simp
qed

end
