(* ===== verification/Keri_Kel_Safety.thy ===== *)
theory Keri_Kel_Safety
  imports Keri_Kel_Props
begin

text \<open>
  Safety of the key-state fold: pre-rotation, who must have signed, what can
  never happen after an identifier is abandoned, what a host may conclude from
  a rejection, and delegated acceptance.
\<close>

section \<open>Exact acceptance\<close>

text \<open>
  C3: The fold accepts exactly what the specification asks. The state must be
  transferable; a rotation must not be of a delegated identifier and must
  satisfy the rules of rotation, an interaction those of interaction, over the
  sets of valid signers; nothing else is accepted, and the next state is the
  one the event describes.
\<close>

theorem ingest_exact:
  "ingest cr s sd = Inr s' \<longleftrightarrow>
     ks_transferability s = Transferable \<and>
     ((\<exists>rot. sg_event sd = Rotation rot \<and> ks_delegator s = None \<and> rotation_ok cr s rot sd \<and>
         s' = apply_rotation s rot (next_witnesses (ks_witnesses s) rot) Rot) \<or>
      (\<exists>ixn. sg_event sd = Interaction ixn \<and> interaction_ok cr s ixn sd \<and> s' = interacted s ixn))"
  by (rule ingest_Inr)

section \<open>Pre-rotation\<close>

fun rotation_of :: "KeriEvent \<Rightarrow> RotationEvent option" where
  "rotation_of (Rotation rot) = Some rot"
| "rotation_of (DelegatedRotation drt) = Some (drt_rotation drt)"
| "rotation_of _ = None"

text \<open>A signature that exposes the committed digest at position i: its key's text form hashes to the digest.\<close>

definition exposes :: "crypto \<Rightarrow> Digest list \<Rightarrow> VerifyingKey list \<Rightarrow> bytes \<Rightarrow> u32 \<Rightarrow> Siger \<Rightarrow> bool" where
  "exposes cr digests keys body i sg \<longleftrightarrow>
     ix_ondex (sg_indexer sg) = Some i \<and> unat i < length digests \<and>
     unat (ix_index (sg_indexer sg)) < length keys \<and>
     (let key = keys ! unat (ix_index (sg_indexer sg)); d = digests ! unat i in
      verify_siger cr key body sg = Inr () \<and>
      (\<exists>qb64. to_qb64b (b64_encode cr) VerKeyCode_to_matter_code key = Some qb64 \<and>
         raw_digest cr (m_code d) qb64 = m_raw d))"

lemma exposers_exposes:
  assumes "hash_lengths_ok cr" "i \<in> exposers cr (ks_commitment s) (rot_authority rot) body sigs"
  shows "\<exists>sg \<in> set sigs. exposes cr (ks_next_keys s) (rot_keys rot) body i sg"
proof -
  from exposers_digest[OF assms(2)] obtain sg where sg: "sg \<in> set sigs" "valid_sig cr (rot_keys rot) body sg"
      "ix_ondex (sg_indexer sg) = Some i" "unat i < length (ks_next_keys s)"
      "commits_to cr (ks_next_keys s ! unat i) (rot_keys rot ! unat (ix_index (sg_indexer sg)))"
    by (auto simp: ks_commitment_def rot_authority_def)
  then show ?thesis
    by (intro bexI[of _ sg])
       (auto simp: exposes_def valid_sig_def commits_to_def Let_def diger_verify_iff[OF assms(1)] split: option.splits)
qed

lemma kel_step_rotation:
  "kel_step cr s sd s' \<Longrightarrow> rotation_of (sg_event sd) = Some rot \<Longrightarrow> rotation_ok cr s rot sd"
  by (erule kel_step.cases) auto

text \<open>
  C4: Pre-rotation. A rotation is accepted, plain or delegated, only if a set of
  positions meeting the threshold committed for the next keys is exposed: for
  each, some attached signature verifies over the body under one of the new
  keys, and that key's text form hashes to the digest committed there before.
\<close>

theorem rotation_opens_commitment:
  assumes "hash_lengths_ok cr"
    and "ingest cr s sd = Inr s' \<or> ingest_delegated cr s sd ev = Inr s'"
    and "rotation_of (sg_event sd) = Some rot"
  shows "\<exists>E. meets (ks_next_threshold s) E \<and>
    (\<forall>i \<in> E. \<exists>sg \<in> set (sg_sigs sd). exposes cr (ks_next_keys s) (rot_keys rot) (sg_body sd) i sg)"
proof -
  have "kel_step cr s sd s'" using assms(2) kel_step_plain kel_step_delegated by blast
  then have "opened cr s rot sd" using kel_step_rotation[OF _ assms(3)] by (simp add: rotation_ok_def)
  then show ?thesis
    unfolding opened_def using exposers_exposes[OF assms(1)] by blast
qed

section \<open>Who must have signed\<close>

text \<open>
  The authority an event answers to: its own if it establishes keys, the
  state's otherwise. For a first event the state plays no part.
\<close>

fun inception_of :: "KeriEvent \<Rightarrow> InceptionEvent option" where
  "inception_of (Inception icp) = Some icp"
| "inception_of (DelegatedInception dip) = Some (dip_inception dip)"
| "inception_of _ = None"

definition governing_authority :: "KeyState \<Rightarrow> KeriEvent \<Rightarrow> Authority" where
  "governing_authority s e =
     (case inception_of e of
        Some icp \<Rightarrow> icp_authority icp
      | None \<Rightarrow> (case rotation_of e of Some rot \<Rightarrow> rot_authority rot | None \<Rightarrow> ks_authority s))"

definition governing_witnesses :: "KeyState \<Rightarrow> KeriEvent \<Rightarrow> BasicPrefix list \<times> Toad" where
  "governing_witnesses s e =
     (case inception_of e of
        Some icp \<Rightarrow> (icp_witnesses icp, icp_witness_threshold icp)
      | None \<Rightarrow>
          (case rotation_of e of
             Some rot \<Rightarrow> (next_witnesses (ks_witnesses s) rot, rot_witness_threshold rot)
           | None \<Rightarrow> (ks_witnesses s, ks_witness_threshold s)))"

lemmas governing_simps = governing_authority_def governing_witnesses_def authenticated_def receipted_def Let_def

text \<open>What it is to be signed and receipted as the event requires.\<close>

definition vouched :: "crypto \<Rightarrow> Authority \<Rightarrow> BasicPrefix list \<times> Toad \<Rightarrow> Signed \<Rightarrow> bool" where
  "vouched cr a wt sd \<longleftrightarrow>
     meets (au_threshold a) (signers cr (au_keys a) (sg_body sd) (sg_sigs sd)) \<and>
     unat (snd wt) \<le> card (signers cr (fst wt) (sg_body sd) (sg_wigs sd))"

lemma genesis_vouched:
  "kel_genesis cr sd s' \<Longrightarrow> vouched cr (governing_authority s (sg_event sd)) (governing_witnesses s (sg_event sd)) sd"
  by (erule kel_genesis.cases) (auto simp: vouched_def governing_simps inception_ok_def)

lemma step_vouched:
  "kel_step cr s sd s' \<Longrightarrow> vouched cr (governing_authority s (sg_event sd)) (governing_witnesses s (sg_event sd)) sd"
  by (erule kel_step.cases) (auto simp: vouched_def governing_simps rotation_ok_def interaction_ok_def)

text \<open>
  C10: Every accepted event, the first included and delegated or not, carries
  valid signatures of a set of its governing keys that meets their threshold,
  and valid receipts of at least the threshold number of distinct governing
  witnesses.
\<close>

theorem accepted_event_authenticated:
  assumes "incept cr sd = Inr s' \<or> incept_delegated cr sd ev = Inr s' \<or>
    ingest cr s sd = Inr s' \<or> ingest_delegated cr s sd ev = Inr s'"
  shows "(let a = governing_authority s (sg_event sd); (ws, t) = governing_witnesses s (sg_event sd) in
    meets (au_threshold a) (signers cr (au_keys a) (sg_body sd) (sg_sigs sd)) \<and>
    unat t \<le> card (signers cr ws (sg_body sd) (sg_wigs sd)))"
proof -
  have "kel_genesis cr sd s' \<or> kel_step cr s sd s'"
    using assms kel_genesis_plain kel_genesis_delegated kel_step_plain kel_step_delegated by blast
  then have "vouched cr (governing_authority s (sg_event sd)) (governing_witnesses s (sg_event sd)) sd"
    using genesis_vouched step_vouched by blast
  then show ?thesis by (simp add: vouched_def Let_def case_prod_beta)
qed

section \<open>Finality\<close>

lemma ingest_closed:
  "ks_transferability s = NonTransferable \<Longrightarrow>
     ingest cr s sd = Inl NonTransferableState \<and> ingest_delegated cr s sd ev = Inl NonTransferableState"
  by (simp add: ingest_def ingest_mut_def ingest_delegated_def ingest_delegated_mut_def is_transferable_def)

fun closes :: "KeriEvent \<Rightarrow> bool" where
  "closes (Inception e) = (icp_next_keys e = [])"
| "closes (DelegatedInception e) = (icp_next_keys (dip_inception e) = [])"
| "closes (Rotation e) = (rot_next_keys e = [])"
| "closes (DelegatedRotation e) = (rot_next_keys (drt_rotation e) = [])"
| "closes (Interaction e) = False"

lemma genesis_closes: "kel_genesis cr sd s \<Longrightarrow> closes (sg_event sd) \<Longrightarrow> ks_transferability s = NonTransferable"
  by (erule kel_genesis.cases) (auto simp: state_simps genesis_transferability_def)

lemma step_closes: "kel_step cr s sd s' \<Longrightarrow> closes (sg_event sd) \<Longrightarrow> ks_transferability s' = NonTransferable"
  by (erule kel_step.cases) (auto simp: state_simps)

lemma accepted_closes_aux:
  "accepted cr kel s \<Longrightarrow> (\<forall>sd \<in> set (butlast kel). \<not> closes (sg_event sd)) \<and>
     (closes (sg_event (last kel)) \<longrightarrow> ks_transferability s = NonTransferable)"
proof (induction rule: accepted_induct)
  case (step kel s sd s')
  note f = kel_step_frame[OF step.hyps(2)]
  have "\<not> closes (sg_event (last kel))" using step.IH f by auto
  moreover have "kel \<noteq> []" using step.hyps(1) by (rule accepted_nonempty)
  then have "set kel = insert (last kel) (set (butlast kel))"
    by (metis append_butlast_last_id list.simps(15) rotate1.simps(2) set_rotate1)
  ultimately show ?case using step.IH step_closes[OF step.hyps(2)] by auto
qed (auto dest: genesis_closes)

text \<open>
  C11: An establishment event that commits to no next keys ends its log: in an
  accepted log it can only be the last event, and from the state it leaves both
  entries reject every event whatsoever.
\<close>

theorem abandoned_is_final:
  assumes "accepted cr kel s" and "sd \<in> set kel" and "closes (sg_event sd)"
  shows "sd = last kel \<and> ingest cr s sd' = Inl NonTransferableState \<and>
    ingest_delegated cr s sd' ev = Inl NonTransferableState"
proof -
  note a = accepted_closes_aux[OF assms(1)]
  have "kel \<noteq> []" using assms(1) by (rule accepted_nonempty)
  then have "sd \<in> set (butlast kel) \<or> sd = last kel"
    using assms(2) by (metis append_butlast_last_id in_set_conv_decomp_last rotate1.simps(2) set_ConsD set_rotate1)
  with a assms(3) have "sd = last kel" by blast
  with a assms(3) show ?thesis using ingest_closed by blast
qed

section \<open>Rejections\<close>

text \<open>
  A mutating fold never leaves a half-applied state: what it leaves behind is
  the offered state when it rejects and the accepted one when it accepts,
  through either entry, so a host can retry when more evidence arrives.
\<close>

theorem rejection_keeps_state:
  "fst (ingest_mut cr s sd) = (case ingest cr s sd of Inl e \<Rightarrow> s | Inr s' \<Rightarrow> s') \<and>
   fst (ingest_delegated_mut cr s sd ev) = (case ingest_delegated cr s sd ev of Inl e \<Rightarrow> s | Inr s' \<Rightarrow> s')"
proof
  show "fst (ingest_mut cr s sd) = (case ingest cr s sd of Inl e \<Rightarrow> s | Inr s' \<Rightarrow> s')"
    by (auto simp: ingest_def ingest_mut_def rotate_mut_def interact_mut_def split: KeriEvent.splits sum.splits)
  show "fst (ingest_delegated_mut cr s sd ev) = (case ingest_delegated cr s sd ev of Inl e \<Rightarrow> s | Inr s' \<Rightarrow> s')"
    by (auto simp: ingest_delegated_def ingest_delegated_mut_def split: KeriEvent.splits sum.splits option.splits)
qed

text \<open>What an event and a state decide without the signatures.\<close>

definition rotation_content_ok :: "KeyState \<Rightarrow> RotationEvent \<Rightarrow> bool" where
  "rotation_content_ok s rot \<longleftrightarrow>
     rot_prefix rot = ks_prefix s \<and> unat (num_value (rot_sn rot)) = unat (num_value (ks_sn s)) + 1 \<and>
     rot_prior rot = ks_latest_said s \<and>
     check_well_formed (rot_threshold rot) (length (rot_keys rot)) = Inr () \<and>
     (rot_next_keys rot \<noteq> [] \<longrightarrow> check_well_formed (rot_next_threshold rot) (length (rot_next_keys rot)) = Inr ()) \<and>
     deltas_ok (ks_witnesses s) rot \<and>
     toad_law (rot_witness_threshold rot) (length (next_witnesses (ks_witnesses s) rot))"

definition inception_content_ok :: "InceptionEvent \<Rightarrow> bool" where
  "inception_content_ok icp \<longleftrightarrow>
     num_value (icp_sn icp) = 0 \<and> check_identity icp = Inr () \<and> witnesses_ok (icp_witnesses icp) \<and>
     check_well_formed (icp_threshold icp) (length (icp_keys icp)) = Inr () \<and>
     (icp_next_keys icp \<noteq> [] \<longrightarrow>
        check_well_formed (icp_next_threshold icp) (length (icp_next_keys icp)) = Inr () \<and>
        Identifier_is_transferable (icp_prefix icp)) \<and>
     toad_law (icp_witness_threshold icp) (length (icp_witnesses icp))"

definition signature_verdict :: "Rejection \<Rightarrow> bool" where
  "signature_verdict e \<longleftrightarrow>
     (\<exists>n. e = MissingSignatures n) \<or> (\<exists>n. e = PriorNextThresholdUnsatisfied n) \<or>
     (\<exists>n t. e = InsufficientWitnessReceipts n t)"

lemma rotation_ok_content: "rotation_ok cr s rot sd \<Longrightarrow> rotation_content_ok s rot"
  by (simp add: rotation_ok_def rotation_content_ok_def)

lemma inception_ok_content: "inception_ok cr icp sd \<Longrightarrow> inception_content_ok icp"
  by (auto simp: inception_ok_def inception_content_ok_def)

lemma validate_rotation_verdict:
  assumes "rotation_content_ok s rot" "validate_rotation cr s rot sd = Inl e"
  shows "signature_verdict e"
proof -
  have c: "check_chains_onto s (rot_prefix rot) (num_value (rot_sn rot)) (rot_prior rot) = Inr ()"
    "well_formed (rot_authority rot) = Inr ()"
    "check_next_threshold (rot_next_threshold rot) (length (rot_next_keys rot)) = Inr ()"
    "resolve_witnesses s rot = Inr (next_witnesses (ks_witnesses s) rot)"
    "check_witness_threshold (length (next_witnesses (ks_witnesses s) rot)) (rot_witness_threshold rot) = Inr ()"
    using assms(1) by (auto simp: rotation_content_ok_def fold_simps well_formed_def rot_authority_def)
  show ?thesis
    using assms(2) unfolding validate_rotation_def c
    by (auto simp: res_bind_Inl signature_verdict_def c(5) dest!: verify_opening_Inl receipted_by_Inl)
qed

lemma validate_inception_verdict:
  assumes "inception_content_ok icp" "validate_inception cr icp sd = Inl e"
  shows "signature_verdict e"
proof -
  have c: "check_identity icp = Inr ()" "check_witnesses (icp_witnesses icp) ''witnesses'' = Inr ()"
    "well_formed (icp_authority icp) = Inr ()"
    "check_next_threshold (icp_next_threshold icp) (length (icp_next_keys icp)) = Inr ()"
    "decide_transferability icp = Inr (genesis_transferability icp)"
    "check_witness_threshold (length (icp_witnesses icp)) (icp_witness_threshold icp) = Inr ()"
    "num_value (icp_sn icp) = 0"
    using assms(1)
    by (auto simp: inception_content_ok_def fold_simps well_formed_def icp_authority_def genesis_transferability_def)
  show ?thesis
    using assms(2) unfolding validate_inception_def c
    by (auto simp: res_bind_Inl signature_verdict_def authority_verify_Inl dest!: receipted_by_Inl)
qed

lemma interact_verdict:
  assumes "interaction_ok cr s ixn sd'" "interact_mut cr s ixn sd = (s', Inl e)"
  shows "signature_verdict e"
proof -
  have c: "reject_establishment_only s = Inr ()"
    "check_chains_onto s (ixn_prefix ixn) (num_value (ixn_sn ixn)) (ixn_prior ixn) = Inr ()"
    using assms(1)
    by (auto simp: interaction_ok_def fold_simps reject_establishment_only_def is_establishment_only_def list_ex_iff)
  show ?thesis
    using assms(2) unfolding interact_mut_def c
    by (auto simp: res_bind_Inl signature_verdict_def authority_verify_Inl dest!: receipted_by_Inl split: sum.splits)
qed

lemma ingest_Inl: "ingest cr s sd = Inl e \<longleftrightarrow> (\<exists>s'. ingest_mut cr s sd = (s', Inl e))"
  by (auto simp: ingest_def res_bind_Inl split: prod.splits)

lemma ingest_verdict:
  assumes "ingest cr s sd = Inl e" "ingest cr s sd' = Inr s'" "sg_event sd' = sg_event sd"
  shows "signature_verdict e"
proof -
  obtain t where t: "ingest_mut cr s sd = (t, Inl e)" using assms(1) ingest_Inl by blast
  from assms(2)[unfolded ingest_Inr assms(3)] show ?thesis
  proof (elim conjE disjE exE)
    fix rot
    assume "ks_transferability s = Transferable" "sg_event sd = Rotation rot" "ks_delegator s = None"
      and r: "rotation_ok cr s rot sd'"
    then have "validate_rotation cr s rot sd = Inl e"
      using t by (auto simp: ingest_mut_def is_transferable_def rotate_mut_def split: sum.splits)
    with r show ?thesis using validate_rotation_verdict rotation_ok_content by blast
  next
    fix ixn
    assume "ks_transferability s = Transferable" "sg_event sd = Interaction ixn" and i: "interaction_ok cr s ixn sd'"
    then have "interact_mut cr s ixn sd = (t, Inl e)"
      using t by (auto simp: ingest_mut_def is_transferable_def)
    with i show ?thesis by (rule interact_verdict)
  qed
qed

lemma incept_verdict:
  assumes "incept cr sd = Inl e" "incept cr sd' = Inr s'" "sg_event sd' = sg_event sd"
  shows "signature_verdict e"
proof -
  from assms(2)[unfolded incept_Inr assms(3)] obtain icp where
    icp: "sg_event sd = Inception icp" "inception_ok cr icp sd'" by blast
  then have "validate_inception cr icp sd = Inl e" using assms(1) by (simp add: incept_def res_bind_Inl)
  with icp show ?thesis using validate_inception_verdict inception_ok_content by blast
qed

text \<open>
  C14: A terminal verdict is final. When an inception, rotation or interaction is
  rejected terminally for any reason but the absence of every verifiable
  signature, no other signatures or receipts attached to the same event make
  the same state accept it.
\<close>

theorem terminal_is_final:
  assumes "disposition e = Terminal" and "e \<noteq> MissingSignatures 0" and "sg_event sd' = sg_event sd"
  shows "(ingest cr s sd = Inl e \<longrightarrow> \<not> is_ok (ingest cr s sd')) \<and> (incept cr sd = Inl e \<longrightarrow> \<not> is_ok (incept cr sd'))"
proof -
  have "\<not> signature_verdict e" using assms(1,2) by (auto simp: signature_verdict_def split: if_splits)
  then show ?thesis
    using ingest_verdict[OF _ _ assms(3)] incept_verdict[OF _ _ assms(3)] by (auto simp: is_ok_iff)
qed

section \<open>What configuration and delegation fix\<close>

lemma accepted_frame_aux:
  "accepted cr kel s \<Longrightarrow> \<exists>s0. kel_genesis cr (hd kel) s0 \<and>
     ks_config s = ks_config s0 \<and> ks_delegator s = ks_delegator s0 \<and> ks_prefix s = ks_prefix s0"
proof (induction rule: accepted_induct)
  case (step kel s sd s')
  have "kel \<noteq> []" using step.hyps(1) by (rule accepted_nonempty)
  with step.IH kel_step_frame[OF step.hyps(2)] show ?case by auto
qed auto

primrec ev_config :: "KeriEvent \<Rightarrow> ConfigTrait list" where
  "ev_config (Inception e) = icp_config e"
| "ev_config (DelegatedInception e) = icp_config (dip_inception e)"
| "ev_config (Rotation e) = []"
| "ev_config (DelegatedRotation e) = []"
| "ev_config (Interaction e) = []"

primrec ev_delegator :: "KeriEvent \<Rightarrow> Identifier option" where
  "ev_delegator (DelegatedInception e) = Some (dip_delegator e)"
| "ev_delegator (Inception e) = None"
| "ev_delegator (Rotation e) = None"
| "ev_delegator (DelegatedRotation e) = None"
| "ev_delegator (Interaction e) = None"

lemma genesis_frame:
  "kel_genesis cr sd s \<Longrightarrow> ks_config s = ev_config (sg_event sd) \<and> ks_delegator s = ev_delegator (sg_event sd)"
  by (erule kel_genesis.cases) (auto simp: state_simps)

definition allowed_after :: "KeyState \<Rightarrow> MessageType \<Rightarrow> bool" where
  "allowed_after s t \<longleftrightarrow>
     (t = Ixn \<and> EstOnly \<notin> set (ks_config s)) \<or> (t = (if ks_delegator s = None then Rot else Drt))"

lemma step_allowed: "kel_step cr s sd s' \<Longrightarrow> allowed_after s (ev_message_type (sg_event sd))"
  by (erule kel_step.cases) (auto simp: allowed_after_def interaction_ok_def)

lemma accepted_types_aux:
  "accepted cr kel s \<Longrightarrow> \<forall>sd \<in> set (tl kel). allowed_after s (ev_message_type (sg_event sd))"
proof (induction rule: accepted_induct)
  case (step kel s sd s')
  have "kel \<noteq> []" using step.hyps(1) by (rule accepted_nonempty)
  moreover have "allowed_after s' = allowed_after s"
    using kel_step_frame[OF step.hyps(2)] by (simp add: allowed_after_def fun_eq_iff)
  ultimately show ?case using step.IH step_allowed[OF step.hyps(2)] by auto
qed simp

text \<open>
  C12: The genesis fixes the configuration and the delegator for the whole log.
  After it there are only rotations, delegated exactly when the genesis was, and
  interactions, which an establishment-only identifier never has.
\<close>

theorem genesis_governs_log:
  assumes "accepted cr kel s" and "g = sg_event (hd kel)"
  shows "ks_config s = ev_config g \<and> ks_delegator s = ev_delegator g \<and> ks_prefix s = ev_prefix g \<and>
    (\<forall>sd \<in> set (tl kel). let t = ev_message_type (sg_event sd) in
       t = (if ev_delegator g = None then Rot else Drt) \<or> (t = Ixn \<and> EstOnly \<notin> set (ev_config g)))"
proof -
  obtain s0 where "kel_genesis cr (hd kel) s0" and
    f: "ks_config s = ks_config s0" "ks_delegator s = ks_delegator s0" "ks_prefix s = ks_prefix s0"
    using accepted_frame_aux[OF assms(1)] by blast
  then have "ks_config s = ev_config g" "ks_delegator s = ev_delegator g" "ks_prefix s = ev_prefix g"
    using genesis_frame[of cr "hd kel" s0] kel_genesis_coordinates[of cr "hd kel" s0] assms(2) by auto
  with accepted_types_aux[OF assms(1)] show ?thesis by (auto simp: allowed_after_def Let_def)
qed

text \<open>
  C13: Delegation soundness. A delegated inception or rotation accepted on
  anchored evidence is sealed, by prefix, sequence number and digest, in an
  event of the delegator the genesis names, whose configuration allows
  delegation.
\<close>

theorem delegation_anchored:
  assumes "incept_delegated cr sd (Anchored a) = Inr s' \<or> ingest_delegated cr s sd (Anchored a) = Inr s'"
  shows "ks_delegator s' = Some (ks_prefix (ad_delegator a)) \<and>
    ev_prefix (ad_delegating_event a) = ks_prefix (ad_delegator a) \<and>
    DoNotDelegate \<notin> set (ks_config (ad_delegator a)) \<and>
    (\<exists>n. EventSeal (ev_prefix (sg_event sd)) n (ev_said (sg_event sd)) \<in> set (ev_anchors (ad_delegating_event a)) \<and>
       num_value n = num_value (ev_sn (sg_event sd)))"
  using assms
  by (auto simp: incept_delegated_Inr ingest_delegated_Inr authorized_def state_simps dest: anchor_position_Some)

end
