(* ===== verification/Keri_Example.thy ===== *)
theory Keri_Example
  imports Keri_Kel_Safety
begin

text \<open>
  A concrete identifier with its log, for the witnesses: a toy signature scheme
  in which a signature repeats the first byte of its key, a constant hash, and
  an inception, an interaction, and a rotation that abandons the identifier.
\<close>

definition ex_crypto :: crypto where
  "ex_crypto = \<lparr>
     ed25519_key_ok = (\<lambda>key. True),
     ed25519_verify_strict = (\<lambda>key data sg. sg = replicate 64 (hd key)),
     k256_key_ok = (\<lambda>key. False), k256_sig_ok = (\<lambda>sg. False), k256_verify = (\<lambda>key data sg. False),
     p256_key_ok = (\<lambda>key. False), p256_sig_ok = (\<lambda>sg. False), p256_verify = (\<lambda>key data sg. False),
     raw_digest = (\<lambda>c data. replicate (digest_size c) 7),
     b64_encode = qb2_chars\<rparr>"

definition ex_key :: "byte \<Rightarrow> VerifyingKey" where
  "ex_key n = Matter_new VerKeyCode.Ed25519 (replicate 32 n) []"

definition ex_witness :: "byte \<Rightarrow> BasicPrefix" where
  "ex_witness n = Matter_new VerKeyCode.Ed25519N (replicate 32 n) []"

definition ex_said :: "byte \<Rightarrow> Said" where
  "ex_said n = Matter_new DigestCode.Blake3_256 (replicate 32 n) []"

definition ex_sig :: "u32 \<Rightarrow> byte \<Rightarrow> Siger" where
  "ex_sig i n = \<lparr>sg_indexer = \<lparr>ix_code = IndexedSigCode.Ed25519, ix_index = i, ix_ondex = Some i, ix_raw = replicate 64 n\<rparr>,
     sg_verfer = None\<rparr>"

definition ex_icp :: InceptionEvent where
  "ex_icp = \<lparr>icp_prefix = SelfAddressing (ex_said 10), icp_sn = Number_new 0, icp_said = ex_said 10,
     icp_keys = [ex_key 1], icp_threshold = Simple 1, icp_next_keys = [ex_said 7], icp_next_threshold = Simple 1,
     icp_witnesses = [ex_witness 3], icp_witness_threshold = 1, icp_config = [], icp_anchors = [],
     icp_threshold_form = HexString\<rparr>"

definition ex_ixn :: InteractionEvent where
  "ex_ixn = \<lparr>ixn_prefix = SelfAddressing (ex_said 10), ixn_sn = Number_new 1, ixn_said = ex_said 11,
     ixn_prior = ex_said 10, ixn_anchors = []\<rparr>"

definition ex_rot :: RotationEvent where
  "ex_rot = \<lparr>rot_prefix = SelfAddressing (ex_said 10), rot_sn = Number_new 2, rot_said = ex_said 12,
     rot_prior = ex_said 11, rot_keys = [ex_key 2], rot_threshold = Simple 1, rot_next_keys = [],
     rot_next_threshold = Simple 0, rot_witness_additions = [], rot_witness_removals = [ex_witness 3],
     rot_witness_threshold = 0, rot_anchors = [], rot_threshold_form = HexString\<rparr>"

definition ex_signed :: "KeriEvent \<Rightarrow> byte \<Rightarrow> Signed" where
  "ex_signed e n = from_host_asserted_parts e [] [ex_sig 0 n] [ex_sig 0 3]"

definition ex_s0 :: KeyState where
  "ex_s0 = seed ex_icp Transferable"

definition ex_s1 :: KeyState where
  "ex_s1 = interacted ex_s0 ex_ixn"

definition ex_s2 :: KeyState where
  "ex_s2 = apply_rotation ex_s1 ex_rot [] Rot"

lemma ex_crypto_lengths: "hash_lengths_ok ex_crypto"
  by (simp add: hash_lengths_ok_def ex_crypto_def)

lemma ex_verify: "verify_siger ex_crypto (Matter_new c (replicate 32 n) []) data (ex_sig i n) = Inr ()"
  if "c \<in> {VerKeyCode.Ed25519, VerKeyCode.Ed25519N}" for c
  using that
  by (auto simp: verify_siger_def verify_def verify_as_def verify_ed25519_def siger_belongs_to_def owns_indexed_def
      ex_crypto_def ex_sig_def Matter_new_def numeral_eq_Suc[of "num.Bit0 num.One"])

lemma ex_signers:
  assumes "c \<in> {VerKeyCode.Ed25519, VerKeyCode.Ed25519N}"
  shows "signers ex_crypto [Matter_new c (replicate 32 n) []] data [ex_sig 0 n] = {0}"
proof -
  have "valid_sig ex_crypto [Matter_new c (replicate 32 n) []] data (ex_sig 0 n)"
    using ex_verify[OF assms, of n data 0] by (simp add: valid_sig_def ex_sig_def)
  then show ?thesis by (auto simp: signers_def ex_sig_def)
qed

lemma ex_commits: "commits_to ex_crypto (ex_said 7) (ex_key n)"
proof -
  have "matter_ok (widen VerKeyCode_to_matter_code (ex_key n))"
    by (simp add: matter_ok_def widen_def ex_key_def Matter_new_def Sizage_new_def MatterCode_raw_size_def)
  from append_qb64_frame[OF own_b64.b64_engine_axioms this, of "[]"]
  obtain q where "to_qb64b (b64_encode ex_crypto) VerKeyCode_to_matter_code (ex_key n) = Some q"
    by (simp add: to_qb64b_def ex_crypto_def append_qb64_widen[of _ VerKeyCode_to_matter_code])
  then show ?thesis
    by (simp add: commits_to_def diger_verify_iff[OF ex_crypto_lengths])
       (simp add: ex_crypto_def ex_said_def Matter_new_def digest_size_def)
qed

lemma ex_exposers:
  "exposers ex_crypto \<lparr>cm_next_digests = [ex_said 7], cm_next_threshold = t\<rparr>
     \<lparr>au_keys = [ex_key n], au_threshold = t'\<rparr> data [ex_sig 0 n] = {0}"
proof -
  have "valid_sig ex_crypto [ex_key n] data (ex_sig 0 n)"
    using ex_verify[of VerKeyCode.Ed25519 n data 0] by (simp add: valid_sig_def ex_sig_def ex_key_def)
  moreover have "exposed_ondex ex_crypto \<lparr>cm_next_digests = [ex_said 7], cm_next_threshold = t\<rparr>
     \<lparr>au_keys = [ex_key n], au_threshold = t'\<rparr> (ex_sig 0 n) = Some 0"
    using ex_commits[of n] by (simp add: exposed_ondex_def ex_sig_def slice_get_def)
  ultimately show ?thesis by (auto simp: exposers_def)
qed

lemmas ex_signers_key = ex_signers[of VerKeyCode.Ed25519, simplified, folded ex_key_def]
lemmas ex_signers_witness = ex_signers[of VerKeyCode.Ed25519N, simplified, folded ex_witness_def]

lemma ex_codes [simp]: "m_code (ex_key n) = VerKeyCode.Ed25519" "m_code (ex_witness n) = VerKeyCode.Ed25519N"
  by (simp_all add: ex_key_def ex_witness_def Matter_new_def)

lemma ex_said_eq [simp]: "ex_said m = ex_said n \<longleftrightarrow> m = n"
  by (simp add: ex_said_def Matter_new_def)

lemmas ex_ok_simps = ex_signed_def from_host_asserted_parts_def authenticated_def receipted_def check_well_formed_def
  toad_law_def meets_Simple ex_signers_key ex_signers_witness witnesses_ok_def

lemma ex_inception_ok: "inception_ok ex_crypto ex_icp (ex_signed (Inception ex_icp) 1)"
  unfolding inception_ok_def
  by (simp add: icp_authority_def ex_icp_def check_identity_def VerKeyCode_is_transferable_def ex_ok_simps)

lemma ex_incept: "incept ex_crypto (ex_signed (Inception ex_icp) 1) = Inr ex_s0"
  unfolding incept_Inr
  by (intro exI[of _ ex_icp] conjI; (rule ex_inception_ok)?)
     (simp_all add: ex_s0_def ex_signed_def from_host_asserted_parts_def genesis_transferability_def ex_icp_def)

lemma ex_interact: "ingest ex_crypto ex_s0 (ex_signed (Interaction ex_ixn) 1) = Inr ex_s1"
proof -
  have "interaction_ok ex_crypto ex_s0 ex_ixn (ex_signed (Interaction ex_ixn) 1)"
    unfolding interaction_ok_def
    by (simp add: ex_s0_def seed_def ex_icp_def ex_ixn_def ks_authority_def ex_ok_simps)
  then show ?thesis
    by (simp add: ingest_Inr ex_s1_def ex_signed_def from_host_asserted_parts_def)
       (simp add: ex_s0_def seed_def)
qed

lemma ex_rotate: "ingest ex_crypto ex_s1 (ex_signed (Rotation ex_rot) 2) = Inr ex_s2"
proof -
  have w: "ks_witnesses ex_s1 = [ex_witness 3]" "next_witnesses [ex_witness 3] ex_rot = []"
    by (simp_all add: ex_s1_def interacted_def ex_s0_def seed_def ex_icp_def next_witnesses_def updated_members_def ex_rot_def)
  have o: "opened ex_crypto ex_s1 ex_rot (ex_signed (Rotation ex_rot) 2)"
    unfolding opened_def
    by (simp add: ks_commitment_def rot_authority_def ex_rot_def ex_s1_def interacted_def ex_s0_def seed_def
        ex_icp_def ex_exposers ex_ok_simps)
  have "rotation_ok ex_crypto ex_s1 ex_rot (ex_signed (Rotation ex_rot) 2)"
    unfolding rotation_ok_def w
    by (intro conjI; (rule o)?)
       (simp_all add: rot_authority_def ex_rot_def ex_s1_def interacted_def ex_s0_def seed_def
        ex_icp_def ex_ixn_def deltas_ok_def VerKeyCode_is_transferable_def ex_ok_simps)
  then show ?thesis
    by (simp add: ingest_Inr ex_s2_def w ex_signed_def from_host_asserted_parts_def)
       (simp add: ex_s1_def interacted_def ex_s0_def seed_def)
qed

definition ex_kel :: "Signed list" where
  "ex_kel = [ex_signed (Inception ex_icp) 1, ex_signed (Interaction ex_ixn) 1, ex_signed (Rotation ex_rot) 2]"

lemma ex_accepted1:
  "accepted ex_crypto [ex_signed (Inception ex_icp) 1, ex_signed (Interaction ex_ixn) 1] ex_s1"
  using accepted.next_plain[OF accepted.genesis_plain[OF ex_incept] ex_interact] by simp

lemma ex_accepted: "accepted ex_crypto ex_kel ex_s2"
  using accepted.next_plain[OF ex_accepted1 ex_rotate] by (simp add: ex_kel_def)

section \<open>A delegated identifier\<close>

definition ex_dip :: DelegatedInceptionEvent where
  "ex_dip = \<lparr>dip_inception = ex_icp\<lparr>icp_prefix := SelfAddressing (ex_said 20), icp_said := ex_said 20\<rparr>,
     dip_delegator = SelfAddressing (ex_said 10)\<rparr>"

definition ex_anchor :: AnchoredDelegation where
  "ex_anchor = \<lparr>ad_delegator = ex_s0,
     ad_delegating_event = Interaction (ex_ixn\<lparr>ixn_anchors := [EventSeal (SelfAddressing (ex_said 20)) (Number_new 0) (ex_said 20)]\<rparr>)\<rparr>"

lemma ex_delegated:
  "incept_delegated ex_crypto (ex_signed (DelegatedInception ex_dip) 1) (Anchored ex_anchor) = Inr (seed_delegated ex_dip)"
proof -
  have "inception_ok ex_crypto (dip_inception ex_dip) (ex_signed (DelegatedInception ex_dip) 1)"
    unfolding inception_ok_def
    by (simp add: icp_authority_def ex_dip_def ex_icp_def check_identity_def VerKeyCode_is_transferable_def ex_ok_simps)
  moreover have "authorized (Anchored ex_anchor) (DelegatedInception ex_dip) (dip_delegator ex_dip)"
    by (simp add: authorized_def ex_anchor_def ex_s0_def seed_def ex_icp_def ex_dip_def ex_ixn_def
        anchor_position_def List.map_filter_def)
  moreover have "as_saider (icp_prefix (dip_inception ex_dip)) \<noteq> None" by (simp add: ex_dip_def)
  ultimately show ?thesis
    by (auto simp: incept_delegated_Inr ex_signed_def from_host_asserted_parts_def)
qed

section \<open>Witnesses\<close>

lemma ex_kel_props: "hd ex_kel = ex_signed (Inception ex_icp) 1" "last ex_kel = ex_signed (Rotation ex_rot) 2"
    "ex_signed (Rotation ex_rot) 2 \<in> set ex_kel" "sg_event (ex_signed e n) = e"
  by (simp_all add: ex_kel_def ex_signed_def from_host_asserted_parts_def)

lemma ex_rot_closes: "closes (sg_event (ex_signed (Rotation ex_rot) 2))"
  by (simp add: ex_kel_props ex_rot_def)

lemma ex_closed: "ingest ex_crypto ex_s2 sd = Inl NonTransferableState"
  by (rule ingest_closed[THEN conjunct1]) (simp add: ex_s2_def apply_rotation_def Let_def ex_rot_def)

theorem accepted_chain_witness:
  "hash_chain (map sg_event ex_kel) \<and> length ex_kel = unat (num_value (ks_sn ex_s2)) + 1 \<and>
   ks_prefix ex_s2 = ev_prefix (sg_event (hd ex_kel)) \<and> ks_latest_said ex_s2 = ev_said (sg_event (last ex_kel))"
  by (rule accepted_chain[OF ex_accepted])

theorem accepted_invariant_witness: "accepted ex_crypto ex_kel ex_s2 \<and> key_state_ok ex_s2"
  using ex_accepted accepted_invariant[OF ex_accepted] by blast

theorem trusted_fold_refines_witness:
  "canon (foldl snapshot_step (genesis ex_icp) ex_kel) = snapshot_of ex_s2 \<and>
   snapshot_view (canon (foldl snapshot_step (genesis ex_icp) ex_kel)) = ex_s2"
  by (rule trusted_fold_refines[OF ex_accepted])

theorem rotation_opens_commitment_witness:
  "\<exists>E. meets (ks_next_threshold ex_s1) E \<and>
     (\<forall>i \<in> E. \<exists>sg \<in> set (sg_sigs (ex_signed (Rotation ex_rot) 2)).
        exposes ex_crypto (ks_next_keys ex_s1) (rot_keys ex_rot) (sg_body (ex_signed (Rotation ex_rot) 2)) i sg)"
  by (rule rotation_opens_commitment[OF ex_crypto_lengths disjI1[OF ex_rotate]]) (simp add: ex_kel_props)

theorem accepted_event_authenticated_witness:
  "(let a = icp_authority ex_icp in
    meets (au_threshold a) (signers ex_crypto (au_keys a) [] [ex_sig 0 1]) \<and>
    1 \<le> card (signers ex_crypto [ex_witness 3] [] [ex_sig 0 3])) \<and>
   (let a = governing_authority ex_s1 (Rotation ex_rot); (ws, t) = governing_witnesses ex_s1 (Rotation ex_rot) in
    meets (au_threshold a) (signers ex_crypto (au_keys a) [] [ex_sig 0 2]) \<and>
    unat t \<le> card (signers ex_crypto ws [] [ex_sig 0 3]))"
  using accepted_event_authenticated[OF disjI1[OF ex_incept]]
    accepted_event_authenticated[OF disjI2[OF disjI2[OF disjI1[OF ex_rotate]]]]
  by (simp add: ex_signed_def from_host_asserted_parts_def governing_simps)
     (simp add: ex_icp_def)

theorem abandoned_is_final_witness:
  "ex_signed (Rotation ex_rot) 2 = last ex_kel \<and>
   ingest ex_crypto ex_s2 (ex_signed (Interaction ex_ixn) 2) = Inl NonTransferableState \<and>
   ingest_delegated ex_crypto ex_s2 (ex_signed (Interaction ex_ixn) 2) HostAccepted = Inl NonTransferableState"
  by (rule abandoned_is_final[OF ex_accepted ex_kel_props(3) ex_rot_closes])

theorem terminal_is_final_witness:
  "ingest ex_crypto ex_s2 (ex_signed (Interaction ex_ixn) 1) = Inl NonTransferableState \<and>
   \<not> is_ok (ingest ex_crypto ex_s2 (ex_signed (Interaction ex_ixn) 2))"
proof -
  have "sg_event (ex_signed (Interaction ex_ixn) 2) = sg_event (ex_signed (Interaction ex_ixn) 1)"
    by (simp add: ex_kel_props)
  from terminal_is_final[OF _ _ this, of NonTransferableState ex_crypto ex_s2]
  have "\<not> is_ok (ingest ex_crypto ex_s2 (ex_signed (Interaction ex_ixn) 2))" using ex_closed by simp
  then show ?thesis using ex_closed by blast
qed

theorem genesis_governs_log_witness:
  "ks_config ex_s2 = [] \<and> ks_delegator ex_s2 = None \<and>
   list_all (\<lambda>sd. ev_message_type (sg_event sd) = Rot \<or> ev_message_type (sg_event sd) = Ixn) (tl ex_kel)"
proof -
  have g: "ev_config (Inception ex_icp) = []" "ev_delegator (Inception ex_icp) = None" by (simp_all add: ex_icp_def)
  show ?thesis
    using genesis_governs_log[OF ex_accepted refl, unfolded ex_kel_props g] by (auto simp: Let_def list_all_iff)
qed

theorem delegation_anchored_witness:
  "ks_delegator (seed_delegated ex_dip) = Some (SelfAddressing (ex_said 10)) \<and>
   (\<exists>n. EventSeal (SelfAddressing (ex_said 20)) n (ex_said 20) \<in> set (ev_anchors (ad_delegating_event ex_anchor)))"
proof -
  have "ks_prefix (ad_delegator ex_anchor) = SelfAddressing (ex_said 10)"
    by (simp add: ex_anchor_def ex_s0_def seed_def ex_icp_def)
  moreover have "ev_prefix (DelegatedInception ex_dip) = SelfAddressing (ex_said 20)" "ev_said (DelegatedInception ex_dip) = ex_said 20"
    by (simp_all add: ex_dip_def)
  ultimately show ?thesis
    using delegation_anchored[OF disjI1[OF ex_delegated]] by (auto simp: ex_kel_props)
qed

text \<open>
  The documented rule for a terminal verdict, that it depends on the event and
  the accepted state alone, does not hold of one variant: an inception offered
  with no signature is rejected terminally, and accepted with its signature.
\<close>

theorem unsigned_is_terminal_but_curable:
  "\<exists>cr sd sd' e. sg_event sd = sg_event sd' \<and> incept cr sd = Inl e \<and> disposition e = Terminal \<and> is_ok (incept cr sd')"
proof -
  let ?sd = "from_host_asserted_parts (Inception ex_icp) [] [] [ex_sig 0 3]"
  have c: "well_formed (icp_authority ex_icp) = Inr ()" "check_identity ex_icp = Inr ()" "num_value (icp_sn ex_icp) = 0"
    "check_witnesses (icp_witnesses ex_icp) ''witnesses'' = Inr ()"
    using ex_inception_ok by (simp_all add: inception_ok_def well_formed_def icp_authority_def)
  have a: "authority_verify ex_crypto (icp_authority ex_icp) (sg_body ?sd) (sg_sigs ?sd) = Inl (MissingSignatures 0)"
    by (simp add: authority_verify_Inl from_host_asserted_parts_def signers_def icp_authority_def ex_icp_def meets_Simple)
  have "validate_inception ex_crypto ex_icp ?sd = Inl (MissingSignatures 0)"
    unfolding validate_inception_def Let_def c a by simp
  then have "incept ex_crypto ?sd = Inl (MissingSignatures 0)"
    by (simp add: incept_def from_host_asserted_parts_def)
  moreover have "sg_event ?sd = sg_event (ex_signed (Inception ex_icp) 1)"
    by (simp add: ex_signed_def from_host_asserted_parts_def)
  ultimately show ?thesis using ex_incept by (metis disposition.simps(10) is_ok.simps(2))
qed

end
