(* ===== verification/Keri_Duplicity.thy ===== *)
theory Keri_Duplicity
  imports Keri_Example
begin

text \<open>
  The same-sequence-number judge, \<^verbatim>\<open>crates/keri/src/duplicity.rs\<close>: what an event
  that contests an occupied sequence number may do, and the climb through the
  delegating events when two delegated rotations contest.
\<close>

datatype SameSnVerdict = VerdictDuplicate | Supersedes | Duplicitous Said | Yields | Undecided

record DelegationContest =
  dc_incumbent :: KeriEvent
  dc_challenger :: KeriEvent

datatype EvidenceError =
    IncomingIdentifierMismatch
  | RecordedIdentifierMismatch
  | RecordedHeadMismatch
  | RecordedEstablishmentMismatch
  | RecordedPostEstablishmentKind
  | DelegatingIdentifierMismatch nat
  | IncompatibleEventKind MessageType bool
  | IncomingNotStale u128 u128
  | RecordedSnMismatch u128 u128
  | ContestSealNotFound nat

definition said_verdict :: "KeriEvent \<Rightarrow> KeriEvent \<Rightarrow> SameSnVerdict" where
  "said_verdict incoming recorded =
     (if ev_said incoming = ev_said recorded then VerdictDuplicate else Duplicitous (ev_said recorded))"

fun cascade_loop ::
    "nat \<Rightarrow> KeriEvent \<Rightarrow> KeriEvent \<Rightarrow> DelegationContest list \<Rightarrow> Identifier \<Rightarrow> EvidenceError + SameSnVerdict" where
  "cascade_loop level delegated_new delegated_old [] expected_delegator = Inr Undecided"
| "cascade_loop level delegated_new delegated_old (contest # chain) expected_delegator =
     (if ev_prefix (dc_incumbent contest) \<noteq> ev_prefix (dc_challenger contest)
         \<or> (level = 0 \<and> ev_prefix (dc_incumbent contest) \<noteq> expected_delegator)
      then Inl (DelegatingIdentifierMismatch level)
      else
      res_bind (ok_or (ContestSealNotFound level) (anchor_position (dc_challenger contest) delegated_new)) (\<lambda>challenger_pos.
      res_bind (ok_or (ContestSealNotFound level) (anchor_position (dc_incumbent contest) delegated_old)) (\<lambda>incumbent_pos.
      if num_value (ev_sn (dc_incumbent contest)) < num_value (ev_sn (dc_challenger contest)) then Inr Supersedes
      else if ev_message_type (dc_challenger contest) = Drt \<and> ev_message_type (dc_incumbent contest) = Ixn
        then Inr Supersedes
      else if ev_said (dc_challenger contest) = ev_said (dc_incumbent contest)
        then Inr (if incumbent_pos < challenger_pos then Supersedes else Yields)
      else cascade_loop (Suc level) (dc_challenger contest) (dc_incumbent contest) chain expected_delegator)))"

definition cascade ::
    "KeriEvent \<Rightarrow> KeriEvent \<Rightarrow> DelegationContest list \<Rightarrow> Identifier \<Rightarrow> EvidenceError + SameSnVerdict" where
  "cascade incoming recorded chain expected_delegator = cascade_loop 0 incoming recorded chain expected_delegator"

definition check_recorded_history :: "KeyState \<Rightarrow> KeriEvent \<Rightarrow> u128 \<Rightarrow> bool \<Rightarrow> EvidenceError + unit" where
  "check_recorded_history s recorded recorded_sn delegated =
     (let last_est = ks_last_est s in
      if recorded_sn = num_value (est_sn last_est) then
        (let expected_kind =
               (if \<not> delegated then (if recorded_sn = 0 then Icp else Rot)
                else (if recorded_sn = 0 then Dip else Drt))
         in if ev_said recorded \<noteq> est_said last_est \<or> ev_message_type recorded \<noteq> expected_kind
            then Inl RecordedEstablishmentMismatch else Inr ())
      else if num_value (est_sn last_est) < recorded_sn \<and> ev_message_type recorded \<noteq> Ixn
        then Inl RecordedPostEstablishmentKind
      else Inr ())"

definition judge_recovery :: "KeyState \<Rightarrow> KeriEvent \<Rightarrow> KeriEvent \<Rightarrow> DelegationContest list \<Rightarrow> EvidenceError + SameSnVerdict" where
  "judge_recovery s incoming recorded delegation_chain =
     (let last_est_sn = num_value (est_sn (ks_last_est s)); incoming_sn = num_value (ev_sn incoming) in
      case incoming of
        Inception _ \<Rightarrow> Inr (said_verdict incoming recorded)
      | DelegatedInception _ \<Rightarrow> Inr (said_verdict incoming recorded)
      | Interaction _ \<Rightarrow> Inr (said_verdict incoming recorded)
      | Rotation _ \<Rightarrow> (if last_est_sn < incoming_sn then Inr Supersedes else Inr (said_verdict incoming recorded))
      | DelegatedRotation _ \<Rightarrow>
          (if last_est_sn \<le> incoming_sn then
             (case recorded of
                Interaction _ \<Rightarrow> Inr Supersedes
              | DelegatedRotation _ \<Rightarrow>
                  res_bind (ok_or (IncompatibleEventKind (ev_message_type incoming) False) (ks_delegator s)) (\<lambda>delegator.
                  cascade incoming recorded delegation_chain delegator)
              | _ \<Rightarrow> Inr (said_verdict incoming recorded))
           else Inr (said_verdict incoming recorded)))"

definition judge_same_sn :: "KeyState \<Rightarrow> KeriEvent \<Rightarrow> KeriEvent \<Rightarrow> DelegationContest list \<Rightarrow> EvidenceError + SameSnVerdict" where
  "judge_same_sn s incoming recorded delegation_chain =
     (let incoming_sn = num_value (ev_sn incoming); state_sn = num_value (ks_sn s);
          recorded_sn = num_value (ev_sn recorded); delegated = (ks_delegator s \<noteq> None) in
      if state_sn < incoming_sn then Inl (IncomingNotStale incoming_sn state_sn)
      else if recorded_sn \<noteq> incoming_sn then Inl (RecordedSnMismatch incoming_sn recorded_sn)
      else if ev_prefix incoming \<noteq> ks_prefix s then Inl IncomingIdentifierMismatch
      else if ev_prefix recorded \<noteq> ks_prefix s then Inl RecordedIdentifierMismatch
      else if recorded_sn = state_sn \<and>
          (ev_said recorded \<noteq> ks_latest_said s \<or> ev_message_type recorded \<noteq> ks_latest_message_type s)
        then Inl RecordedHeadMismatch
      else
      res_bind (check_recorded_history s recorded recorded_sn delegated) (\<lambda>_.
      if (ev_message_type incoming = Rot \<and> delegated) \<or> (ev_message_type incoming = Drt \<and> \<not> delegated)
        then Inl (IncompatibleEventKind (ev_message_type incoming) delegated)
      else judge_recovery s incoming recorded delegation_chain))"

section \<open>The cascade\<close>

text \<open>A level that decides for the challenger, one that decides against it, one that ties.\<close>

definition linked :: "DelegationContest \<Rightarrow> KeriEvent \<Rightarrow> KeriEvent \<Rightarrow> bool" where
  "linked c new old \<longleftrightarrow>
     ev_prefix (dc_incumbent c) = ev_prefix (dc_challenger c) \<and>
     anchor_position (dc_challenger c) new \<noteq> None \<and> anchor_position (dc_incumbent c) old \<noteq> None"

definition wins :: "DelegationContest \<Rightarrow> KeriEvent \<Rightarrow> KeriEvent \<Rightarrow> bool" where
  "wins c new old \<longleftrightarrow>
     num_value (ev_sn (dc_incumbent c)) < num_value (ev_sn (dc_challenger c)) \<or>
     (ev_message_type (dc_challenger c) = Drt \<and> ev_message_type (dc_incumbent c) = Ixn) \<or>
     (ev_said (dc_challenger c) = ev_said (dc_incumbent c) \<and>
      the (anchor_position (dc_incumbent c) old) < the (anchor_position (dc_challenger c) new))"

definition ties :: "DelegationContest \<Rightarrow> KeriEvent \<Rightarrow> KeriEvent \<Rightarrow> bool" where
  "ties c new old \<longleftrightarrow> \<not> wins c new old \<and> ev_said (dc_challenger c) \<noteq> ev_said (dc_incumbent c)"

text \<open>The delegated pair below level k: the contest itself, or the pair of the level before.\<close>

fun below :: "KeriEvent \<times> KeriEvent \<Rightarrow> DelegationContest list \<Rightarrow> nat \<Rightarrow> KeriEvent \<times> KeriEvent" where
  "below p chain 0 = p"
| "below p chain (Suc k) = (dc_challenger (chain ! k), dc_incumbent (chain ! k))"

lemma below_Cons: "below p (c # chain) (Suc k) = below (dc_challenger c, dc_incumbent c) chain k"
  by (cases k) auto

lemma cascade_step:
  "cascade_loop l new old (c # chain) d = Inr v \<longleftrightarrow>
     linked c new old \<and> (l = 0 \<longrightarrow> ev_prefix (dc_incumbent c) = d) \<and>
     (if wins c new old then v = Supersedes
      else if ties c new old then cascade_loop (Suc l) (dc_challenger c) (dc_incumbent c) chain d = Inr v
      else v = Yields)"
proof (cases "anchor_position (dc_challenger c) new")
  case None
  then show ?thesis by (simp add: linked_def)
next
  case (Some np)
  note n = Some
  show ?thesis
  proof (cases "anchor_position (dc_incumbent c) old")
    case None
    then show ?thesis by (simp add: linked_def n)
  next
    case (Some op)
    show ?thesis
      unfolding cascade_loop.simps linked_def wins_def ties_def n Some ok_or.simps res_bind.simps option.sel
      by (cases "ev_prefix (dc_incumbent c) = ev_prefix (dc_challenger c)"; cases "l = 0"; simp; blast)
  qed
qed

definition decides_at :: "KeriEvent \<times> KeriEvent \<Rightarrow> DelegationContest list \<Rightarrow> nat \<Rightarrow> bool" where
  "decides_at p chain k \<longleftrightarrow>
     k < length chain \<and>
     (\<forall>j \<le> k. linked (chain ! j) (fst (below p chain j)) (snd (below p chain j))) \<and>
     (\<forall>j < k. ties (chain ! j) (fst (below p chain j)) (snd (below p chain j)))"

lemma decides_at_Cons:
  "decides_at (new, old) (c # chain) (Suc k) \<longleftrightarrow>
     linked c new old \<and> ties c new old \<and> decides_at (dc_challenger c, dc_incumbent c) chain k"
proof -
  have le: "(\<forall>j \<le> Suc k. P j) \<longleftrightarrow> P 0 \<and> (\<forall>j \<le> k. P (Suc j))" and lt: "(\<forall>j < Suc k. P j) \<longleftrightarrow> P 0 \<and> (\<forall>j < k. P (Suc j))" for P
    by (metis Suc_le_mono le0 not0_implies_Suc, metis Suc_less_eq not0_implies_Suc zero_less_Suc)
  show ?thesis unfolding decides_at_def le lt below_Cons by (simp add: conj_ac)
qed

lemma decides_at_0: "decides_at (new, old) (c # chain) 0 \<longleftrightarrow> linked c new old"
  by (simp add: decides_at_def)

lemma decides_at_Nil: "\<not> decides_at p [] k"
  by (simp add: decides_at_def)

lemma cascade_loop_supersedes:
  "cascade_loop l new old chain d = Inr Supersedes \<longleftrightarrow>
     (\<exists>k. decides_at (new, old) chain k \<and> (l = 0 \<longrightarrow> ev_prefix (dc_incumbent (hd chain)) = d) \<and>
        wins (chain ! k) (fst (below (new, old) chain k)) (snd (below (new, old) chain k)))"
proof (induction chain arbitrary: l new old)
  case Nil
  then show ?case by (simp add: decides_at_Nil)
next
  case (Cons c chain)
  let ?w = "\<lambda>k. decides_at (new, old) (c # chain) k \<and> (l = 0 \<longrightarrow> ev_prefix (dc_incumbent c) = d) \<and>
        wins ((c # chain) ! k) (fst (below (new, old) (c # chain) k)) (snd (below (new, old) (c # chain) k))"
  have "(\<exists>k. ?w k) \<longleftrightarrow> ?w 0 \<or> (\<exists>k. ?w (Suc k))" by (metis not0_implies_Suc)
  moreover have "?w 0 \<longleftrightarrow> linked c new old \<and> (l = 0 \<longrightarrow> ev_prefix (dc_incumbent c) = d) \<and> wins c new old"
    by (auto simp: decides_at_0)
  moreover have "(\<exists>k. ?w (Suc k)) \<longleftrightarrow> linked c new old \<and> ties c new old \<and> (l = 0 \<longrightarrow> ev_prefix (dc_incumbent c) = d) \<and>
      cascade_loop (Suc l) (dc_challenger c) (dc_incumbent c) chain d = Inr Supersedes"
    unfolding Cons.IH decides_at_Cons below_Cons by auto
  ultimately show ?case
    unfolding cascade_step by (auto simp: ties_def)
qed

section \<open>What may supersede what\<close>

lemma judge_Inr:
  "judge_same_sn s incoming recorded chain = Inr v \<longleftrightarrow>
     num_value (ev_sn incoming) \<le> num_value (ks_sn s) \<and> num_value (ev_sn recorded) = num_value (ev_sn incoming) \<and>
     ev_prefix incoming = ks_prefix s \<and> ev_prefix recorded = ks_prefix s \<and>
     \<not> (num_value (ev_sn recorded) = num_value (ks_sn s) \<and>
        (ev_said recorded \<noteq> ks_latest_said s \<or> ev_message_type recorded \<noteq> ks_latest_message_type s)) \<and>
     check_recorded_history s recorded (num_value (ev_sn recorded)) (ks_delegator s \<noteq> None) = Inr () \<and>
     \<not> (ev_message_type incoming = Rot \<and> ks_delegator s \<noteq> None) \<and>
     \<not> (ev_message_type incoming = Drt \<and> ks_delegator s = None) \<and>
     judge_recovery s incoming recorded chain = Inr v"
  unfolding judge_same_sn_def Let_def not_less[symmetric] by (simp split: if_split) metis

text \<open>
  The rule of superseding recovery, over a contest whose evidence is in order.
  The incoming event must lie after the last establishment event, or on it when
  one delegated rotation contests another.
\<close>

definition recovery_rule :: "KeyState \<Rightarrow> KeriEvent \<Rightarrow> KeriEvent \<Rightarrow> DelegationContest list \<Rightarrow> bool" where
  "recovery_rule s incoming recorded chain \<longleftrightarrow>
     (let last_est_sn = num_value (est_sn (ks_last_est s)); incoming_sn = num_value (ev_sn incoming) in
      ev_message_type incoming = Rot \<and> ks_delegator s = None \<and> ev_message_type recorded = Ixn \<and>
        last_est_sn < incoming_sn
      \<or> ev_message_type incoming = Drt \<and> ks_delegator s \<noteq> None \<and> ev_message_type recorded = Ixn \<and>
        last_est_sn < incoming_sn
      \<or> ev_message_type incoming = Drt \<and> ev_message_type recorded = Drt \<and> last_est_sn \<le> incoming_sn \<and>
        ks_delegator s = Some (ev_prefix (dc_incumbent (hd chain))) \<and>
        (\<exists>k. decides_at (incoming, recorded) chain k \<and>
           wins (chain ! k) (fst (below (incoming, recorded) chain k)) (snd (below (incoming, recorded) chain k))))"

lemma recorded_interaction:
  assumes "check_recorded_history s recorded sn delegated = Inr ()"
  shows "num_value (est_sn (ks_last_est s)) < sn \<Longrightarrow> ev_message_type recorded = Ixn"
    and "ev_message_type recorded = Ixn \<Longrightarrow> num_value (est_sn (ks_last_est s)) \<le> sn \<Longrightarrow> num_value (est_sn (ks_last_est s)) < sn"
  using assms by (auto simp: check_recorded_history_def Let_def split: if_splits)

lemma recovery_supersedes:
  assumes "check_recorded_history s recorded (num_value (ev_sn incoming)) delegated = Inr ()"
    and "\<not> (ev_message_type incoming = Rot \<and> ks_delegator s \<noteq> None)"
    and "\<not> (ev_message_type incoming = Drt \<and> ks_delegator s = None)"
  shows "judge_recovery s incoming recorded chain = Inr Supersedes \<longleftrightarrow> recovery_rule s incoming recorded chain"
proof (cases incoming)
  case (Rotation rot)
  then show ?thesis
    using assms recorded_interaction(1)[OF assms(1)]
    by (auto simp: judge_recovery_def recovery_rule_def Let_def said_verdict_def)
next
  case drt: (DelegatedRotation drt)
  then obtain d where d: "ks_delegator s = Some d" using assms(3) by auto
  show ?thesis
  proof (cases recorded)
    case (Interaction ixn)
    then show ?thesis
      using drt d recorded_interaction(2)[OF assms(1)]
      by (auto simp: judge_recovery_def recovery_rule_def Let_def said_verdict_def)
  next
    case (DelegatedRotation old)
    then show ?thesis
      using drt d
      by (auto simp: judge_recovery_def recovery_rule_def Let_def said_verdict_def cascade_def cascade_loop_supersedes)
  qed (use drt in \<open>auto simp: judge_recovery_def recovery_rule_def Let_def said_verdict_def\<close>)
qed (auto simp: judge_recovery_def recovery_rule_def Let_def said_verdict_def)

text \<open>
  C15: Superseding recovery. The judge lets an event supersede the one recorded at
  its sequence number exactly by the rule, and only for one identifier. A plain
  rotation supersedes an interaction after the last establishment event of an
  identifier that is not delegated; a delegated one supersedes an interaction
  after it, or another delegated rotation no earlier than it when, at the first
  level of the delegating chain that does not tie and with every level up to it
  sealed, its side wins by a later sequence number, by rotation over
  interaction, or by a later seal of one event.
\<close>

theorem supersedes_only_by_rule:
  assumes "judge_same_sn s incoming recorded chain = Inr v"
  shows "ev_prefix recorded = ev_prefix incoming \<and> num_value (ev_sn recorded) = num_value (ev_sn incoming) \<and>
    (v = Supersedes \<longleftrightarrow> recovery_rule s incoming recorded chain)"
proof -
  note j = assms[unfolded judge_Inr]
  then have "judge_recovery s incoming recorded chain = Inr Supersedes \<longleftrightarrow> recovery_rule s incoming recorded chain"
    by (intro recovery_supersedes[of _ _ _ "ks_delegator s \<noteq> None"]) auto
  with j show ?thesis by auto
qed

section \<open>Against an accepted log\<close>

definition last_est_at :: "Signed list \<Rightarrow> KeyState \<Rightarrow> bool" where
  "last_est_at kel s \<longleftrightarrow>
     (let k = unat (num_value (est_sn (ks_last_est s))) in
      k < length kel \<and> ev_said (sg_event (kel ! k)) = est_said (ks_last_est s) \<and>
      ev_message_type (sg_event (kel ! k)) =
        (if ks_delegator s = None then (if k = 0 then Icp else Rot) else (if k = 0 then Dip else Drt)) \<and>
      (\<forall>i. k < i \<and> i < length kel \<longrightarrow> ev_message_type (sg_event (kel ! i)) = Ixn))"

lemma last_est_genesis: "kel_genesis cr sd s \<Longrightarrow> last_est_at [sd] s"
  by (erule kel_genesis.cases) (auto simp: last_est_at_def state_simps)

lemma last_est_step:
  assumes "last_est_at kel s" "kel_step cr s sd s'" "length kel = unat (num_value (ks_sn s)) + 1"
  shows "last_est_at (kel @ [sd]) s'"
proof -
  note c = kel_step_coordinates[OF assms(2)]
  have n: "unat (num_value (ev_sn (sg_event sd))) = length kel" "kel \<noteq> []" using c assms(3) by auto
  from assms(2) show ?thesis
  proof cases
    case (rotated rot)
    with n show ?thesis by (auto simp: last_est_at_def state_simps)
  next
    case (delegated_rotated drt d ev)
    with n show ?thesis by (auto simp: last_est_at_def state_simps)
  next
    case (anchored ixn)
    with assms(1) n show ?thesis by (auto simp: last_est_at_def state_simps nth_append less_Suc_eq)
  qed
qed

lemma accepted_last_est: "accepted cr kel s \<Longrightarrow> last_est_at kel s"
proof (induction rule: accepted_induct)
  case (step kel s sd s')
  then show ?case using last_est_step accepted_chain_aux[OF step.hyps(1)] by blast
qed (rule last_est_genesis)

text \<open>
  C16: Recovery rewinds interactions only. When a plain rotation is judged to
  supersede an event of an accepted log, every event from its sequence number
  on is an interaction, so no establishment event is lost.
\<close>

theorem recovery_keeps_establishment:
  assumes "accepted cr kel s" and "judge_same_sn s (Rotation rot) recorded chain = Inr Supersedes"
    and "unat (num_value (rot_sn rot)) \<le> i" and "i < length kel"
  shows "ev_message_type (sg_event (kel ! i)) = Ixn"
proof -
  have "judge_recovery s (Rotation rot) recorded chain = Inr Supersedes" using assms(2) judge_Inr by blast
  then have "num_value (est_sn (ks_last_est s)) < num_value (rot_sn rot)"
    by (auto simp: judge_recovery_def Let_def said_verdict_def split: if_splits)
  then show ?thesis
    using accepted_last_est[OF assms(1)] assms(3,4) by (auto simp: last_est_at_def Let_def word_less_nat_alt)
qed

text \<open>
  An event of a kind the identifier can have, and, when one delegated rotation
  contests another, a delegating chain that is what it claims to be: the first
  level is of the delegator, and every level seals, in one delegator's log, the
  two events of the level below. Other contests do not consult the chain.
\<close>

definition kind_compatible :: "KeyState \<Rightarrow> KeriEvent \<Rightarrow> bool" where
  "kind_compatible s e \<longleftrightarrow>
     (ev_message_type e = Rot \<longrightarrow> ks_delegator s = None) \<and> (ev_message_type e = Drt \<longrightarrow> ks_delegator s \<noteq> None)"

definition honest_chain :: "KeyState \<Rightarrow> KeriEvent \<Rightarrow> KeriEvent \<Rightarrow> DelegationContest list \<Rightarrow> bool" where
  "honest_chain s incoming recorded chain \<longleftrightarrow>
     (ev_message_type incoming = Drt \<and> ev_message_type recorded = Drt \<longrightarrow>
        (chain \<noteq> [] \<longrightarrow> ks_delegator s = Some (ev_prefix (dc_incumbent (hd chain)))) \<and>
        (\<forall>j < length chain.
           linked (chain ! j) (fst (below (incoming, recorded) chain j)) (snd (below (incoming, recorded) chain j))))"

lemma cascade_loop_decided:
  assumes "\<forall>j < length chain. linked (chain ! j) (fst (below (new, old) chain j)) (snd (below (new, old) chain j))"
    and "l = 0 \<longrightarrow> chain \<noteq> [] \<longrightarrow> ev_prefix (dc_incumbent (hd chain)) = d"
  shows "\<exists>v. cascade_loop l new old chain d = Inr v"
  using assms
proof (induction chain arbitrary: l new old)
  case (Cons c chain)
  have all: "(\<forall>j < length (c # chain). P j) \<longleftrightarrow> P 0 \<and> (\<forall>j < length chain. P (Suc j))" for P
    by (metis One_nat_def length_Cons less_Suc_eq_0_disj)
  have l: "linked c new old"
    and r: "\<forall>j < length chain. linked (chain ! j) (fst (below (dc_challenger c, dc_incumbent c) chain j))
      (snd (below (dc_challenger c, dc_incumbent c) chain j))"
    using Cons.prems(1) unfolding all below_Cons by simp_all
  obtain v where "cascade_loop (Suc l) (dc_challenger c) (dc_incumbent c) chain d = Inr v"
    using Cons.IH[OF r, of "Suc l"] by auto
  with l Cons.prems(2) show ?case unfolding cascade_step by auto
qed simp

lemma judge_recovery_decided:
  assumes "kind_compatible s incoming" and "honest_chain s incoming recorded chain"
  shows "\<exists>v. judge_recovery s incoming recorded chain = Inr v"
proof (cases incoming)
  case (DelegatedRotation drt)
  then obtain d where d: "ks_delegator s = Some d" using assms(1) by (auto simp: kind_compatible_def)
  have "\<exists>v. cascade incoming recorded chain d = Inr v" if "ev_message_type recorded = Drt"
    unfolding cascade_def using assms(2) that d DelegatedRotation
    by (intro cascade_loop_decided) (auto simp: honest_chain_def)
  then show ?thesis using DelegatedRotation d by (cases recorded) (auto simp: judge_recovery_def Let_def)
qed (auto simp: judge_recovery_def Let_def)

text \<open>
  C25: Honest evidence gets a verdict. Offered the event its own accepted log
  holds at the contested sequence number, an incoming event of the identifier
  and of a kind it can have, and, for two delegated rotations, a delegating
  chain that is what it claims to be, the judge raises no evidence error: it
  returns the verdict of the recovery rule.
\<close>

theorem honest_evidence_judged:
  assumes "accepted cr kel s" and "unat (num_value (ev_sn incoming)) = i" and "i < length kel"
    and "ev_prefix incoming = ks_prefix s" and "kind_compatible s incoming"
    and "honest_chain s incoming (sg_event (kel ! i)) chain"
  shows "\<exists>v. judge_same_sn s incoming (sg_event (kel ! i)) chain = Inr v \<and>
    judge_recovery s incoming (sg_event (kel ! i)) chain = Inr v"
proof -
  let ?r = "sg_event (kel ! i)"
  note a = accepted_chain_aux[OF assms(1)] and le = accepted_last_est[OF assms(1)]
  have ne: "kel \<noteq> []" using assms(3) by auto
  have sn: "num_value (ev_sn ?r) = num_value (ev_sn incoming)" and pre: "ev_prefix ?r = ks_prefix s"
    using a assms(2,3) ne by (auto simp: hash_chain_def word_unat_eq_iff hd_map)
  have stale: "\<not> num_value (ks_sn s) < num_value (ev_sn incoming)"
    using a assms(2,3) by (simp add: word_less_nat_alt)
  have head: "?r = sg_event (last kel)" if "num_value (ev_sn incoming) = num_value (ks_sn s)"
    using that a assms(2) ne by (auto simp: last_conv_nth)
  have hist: "check_recorded_history s ?r (num_value (ev_sn ?r)) (ks_delegator s \<noteq> None) = Inr ()"
    using le assms(2,3) unfolding sn
    by (auto simp: check_recorded_history_def last_est_at_def Let_def word_less_nat_alt unat_eq_0)
  obtain v where "judge_recovery s incoming ?r chain = Inr v"
    using judge_recovery_decided[OF assms(5,6)] by blast
  with stale sn pre assms(4,5) head hist a show ?thesis
    by (auto simp: judge_same_sn_def kind_compatible_def Let_def)
qed

section \<open>Witnesses\<close>

definition ex_recovery :: RotationEvent where
  "ex_recovery = ex_rot\<lparr>rot_sn := Number_new 1, rot_prior := ex_said 10\<rparr>"

lemma ex_judged: "judge_same_sn ex_s1 (Rotation ex_recovery) (Interaction ex_ixn) [] = Inr Supersedes"
  by (simp add: judge_same_sn_def judge_recovery_def check_recorded_history_def Let_def ex_recovery_def ex_rot_def
      ex_ixn_def ex_s1_def interacted_def ex_s0_def seed_def ex_icp_def)

theorem supersedes_only_by_rule_witness:
  "recovery_rule ex_s1 (Rotation ex_recovery) (Interaction ex_ixn) []"
  using supersedes_only_by_rule[OF ex_judged] by simp

theorem recovery_keeps_establishment_witness:
  "ev_message_type (sg_event ([ex_signed (Inception ex_icp) 1, ex_signed (Interaction ex_ixn) 1] ! 1)) = Ixn"
  by (rule recovery_keeps_establishment[OF ex_accepted1 ex_judged]) (simp_all add: ex_recovery_def)

theorem honest_evidence_judged_witness:
  "\<exists>v. judge_same_sn ex_s1 (Rotation ex_recovery) (Interaction ex_ixn) [] = Inr v \<and>
     judge_recovery ex_s1 (Rotation ex_recovery) (Interaction ex_ixn) [] = Inr v"
proof -
  have "kind_compatible ex_s1 (Rotation ex_recovery)"
    by (simp add: kind_compatible_def ex_s1_def interacted_def ex_s0_def seed_def)
  moreover have "honest_chain ex_s1 (Rotation ex_recovery) (Interaction ex_ixn) []" by (simp add: honest_chain_def)
  moreover have "ev_prefix (Rotation ex_recovery) = ks_prefix ex_s1"
    by (simp add: ex_recovery_def ex_rot_def ex_s1_def interacted_def ex_s0_def seed_def ex_icp_def)
  moreover have "unat (num_value (ev_sn (Rotation ex_recovery))) = 1" by (simp add: ex_recovery_def)
  ultimately show ?thesis
    using honest_evidence_judged[OF ex_accepted1, of "Rotation ex_recovery" 1 "[]"] by (simp add: ex_kel_props)
qed

end
