(* ===== verification/Keri_Receipt.thy ===== *)
theory Keri_Receipt
  imports Keri_Duplicity
begin

text \<open>
  Receipts judged outside the fold, \<^verbatim>\<open>crates/keri/src/receipt.rs\<close>: whether a receipt
  names an accepted event, whether a transferable endorsement vouches for it,
  and the accounting of witness receipts one at a time.
\<close>

record ReceiptedEvent =
  re_prefix :: Identifier
  re_sn :: Number
  re_said :: Said
  re_signed_bytes :: bytes

record TransferableEndorsement =
  te_receiptor :: Identifier
  te_sn :: Number
  te_said :: Said
  te_sigs :: "Siger list"

record ReceiptorEst =
  ro_said :: Said
  ro_keys :: "VerifyingKey list"

text \<open>\<^verbatim>\<open>struct WitnessIndex(u32)\<close>.\<close>

type_synonym WitnessIndex = u32

datatype ReceiptError =
    Stale u128 u128
  | ReceiptSignature IndexedVerifyError
  | ReceiptEvidenceRequired
  | EstablishmentMismatch
  | NoAuthorityKeys
  | EndorsementIndexOutOfRange u32 nat
  | NoVerifiedSignatures
  | InsufficientReceipts nat u32

fun receipt_disposition :: "ReceiptError \<Rightarrow> Disposition" where
  "receipt_disposition (Stale n a) = Terminal"
| "receipt_disposition (ReceiptSignature e) = Terminal"
| "receipt_disposition EstablishmentMismatch = Terminal"
| "receipt_disposition NoAuthorityKeys = Terminal"
| "receipt_disposition (EndorsementIndexOutOfRange i c) = Terminal"
| "receipt_disposition NoVerifiedSignatures = Terminal"
| "receipt_disposition ReceiptEvidenceRequired = Awaiting EvidenceKind.ReceiptorEstablishment"
| "receipt_disposition (InsufficientReceipts valid required) = Awaiting (WitnessReceipts valid required)"

definition named_by :: "ReceiptedEvent \<Rightarrow> Receipt \<Rightarrow> ReceiptError + unit" where
  "named_by e receipt =
     (if rct_prefix receipt \<noteq> re_prefix e \<or> num_value (rct_sn receipt) \<noteq> num_value (re_sn e)
         \<or> rct_said receipt \<noteq> re_said e
      then Inl (Stale (num_value (rct_sn receipt)) (num_value (re_sn e)))
      else Inr ())"

fun indices_in_range :: "nat \<Rightarrow> Siger list \<Rightarrow> ReceiptError + unit" where
  "indices_in_range count [] = Inr ()"
| "indices_in_range count (s # sigs) =
     (let index = ix_index (sg_indexer s) in
      if unat index < count then indices_in_range count sigs
      else Inl (EndorsementIndexOutOfRange index count))"

text \<open>\<^verbatim>\<open>any\<close> stops at the first signature that is new and verifies.\<close>

fun any_verified :: "crypto \<Rightarrow> VerifyingKey list \<Rightarrow> bytes \<Rightarrow> SeenWireSignatures \<Rightarrow> Siger list \<Rightarrow> bool" where
  "any_verified cr keys data seen [] = False"
| "any_verified cr keys data seen (s # sigs) =
     (let (fresh, seen') = seen_insert seen s in
      if fresh \<and> (case slice_get keys (unat (ix_index (sg_indexer s))) of
                    None \<Rightarrow> False
                  | Some key \<Rightarrow> is_ok (verify_siger cr key data s))
      then True else any_verified cr keys data seen' sigs)"

definition endorsed_by ::
    "crypto \<Rightarrow> ReceiptedEvent \<Rightarrow> TransferableEndorsement \<Rightarrow> ReceiptorEst option \<Rightarrow> ReceiptError + unit" where
  "endorsed_by cr e endorsement receiptor =
     res_bind (ok_or ReceiptEvidenceRequired receiptor) (\<lambda>establishment.
     if ro_said establishment \<noteq> te_said endorsement then Inl EstablishmentMismatch
     else if ro_keys establishment = [] then Inl NoAuthorityKeys
     else
     res_bind (indices_in_range (length (ro_keys establishment)) (te_sigs endorsement)) (\<lambda>_.
     if \<not> any_verified cr (ro_keys establishment) (re_signed_bytes e) seen_default (te_sigs endorsement)
     then Inl NoVerifiedSignatures else Inr ()))"

definition witness_receipt :: "crypto \<Rightarrow> Witnessing \<Rightarrow> bytes \<Rightarrow> Siger \<Rightarrow> ReceiptError + WitnessIndex" where
  "witness_receipt cr w data wig =
     (let index = ix_index (sg_indexer wig) in
      res_bind (ok_or (ReceiptSignature (IndexOutOfRange index (length (wi_witnesses w))))
        (slice_get (wi_witnesses w) (unat index))) (\<lambda>witness.
      res_bind (map_err (ReceiptSignature \<circ> Verification) (verify_siger cr witness data wig)) (\<lambda>_.
      Inr index)))"

definition witness_index :: "Witnessing \<Rightarrow> BasicPrefix \<Rightarrow> WitnessIndex option" where
  "witness_index w prefix =
     Option.bind (position (\<lambda>x. x = prefix) (wi_witnesses w)) (\<lambda>p.
     if p < 2 ^ 32 then Some (word_of_nat p) else None)"

definition accounted_by :: "Witnessing \<Rightarrow> WitnessIndex list \<Rightarrow> ReceiptError + unit" where
  "accounted_by w indices =
     (let required = wi_toad w in
      if required = 0 then Inr ()
      else let positions = sort_dedup (filter (\<lambda>p. unat p < length (wi_witnesses w)) indices);
               valid = length positions
           in if unat required \<le> valid then Inr () else Inl (InsufficientReceipts valid required))"

section \<open>Lemmas\<close>

lemma any_verified_iff:
  "seen_wf seen \<Longrightarrow> any_verified cr keys data seen sigs \<longleftrightarrow>
     (\<exists>s \<in> set sigs. valid_sig cr keys data s \<and> wire_signature s \<notin> seen_set seen)"
proof (induction sigs arbitrary: seen)
  case (Cons s sigs)
  obtain fresh seen' where ins: "seen_insert seen s = (fresh, seen')" by (cases "seen_insert seen s")
  note sp = seen_insert_set[OF Cons.prems ins]
  have v: "(case slice_get keys (unat (ix_index (sg_indexer s))) of None \<Rightarrow> False
      | Some key \<Rightarrow> is_ok (verify_siger cr key data s)) \<longleftrightarrow> valid_sig cr keys data s"
    by (auto simp: valid_sig_def Let_def is_ok_iff slice_get_def)
  have "any_verified cr keys data seen (s # sigs) \<longleftrightarrow>
      (fresh \<and> valid_sig cr keys data s) \<or> any_verified cr keys data seen' sigs"
    unfolding any_verified.simps ins Let_def prod.case v by (cases fresh; cases "valid_sig cr keys data s") simp_all
  moreover have "any_verified cr keys data seen' sigs \<longleftrightarrow>
      (\<exists>t \<in> set sigs. valid_sig cr keys data t \<and> wire_signature t \<notin> insert (wire_signature s) (seen_set seen))"
    using Cons.IH[of seen'] sp by simp
  ultimately show ?case using sp valid_sig_wire by (smt (verit) insert_iff list.set(2))
qed simp

lemma indices_in_range_Inr: "indices_in_range n sigs = Inr () \<longleftrightarrow> (\<forall>s \<in> set sigs. unat (ix_index (sg_indexer s)) < n)"
  by (induction sigs) (auto simp: Let_def)

lemma witness_receipt_Inr:
  "witness_receipt cr w data wig = Inr i \<longleftrightarrow> i = ix_index (sg_indexer wig) \<and> valid_sig cr (wi_witnesses w) data wig"
  by (auto simp: witness_receipt_def valid_sig_def Let_def slice_get_Some)

lemma accounted_by_Inr:
  "accounted_by w is = Inr () \<longleftrightarrow> unat (wi_toad w) \<le> card {i \<in> set is. unat i < length (wi_witnesses w)}"
proof -
  have "length (sort_dedup (filter (\<lambda>p. unat p < length (wi_witnesses w)) is)) =
      card {i \<in> set is. unat i < length (wi_witnesses w)}"
    by (simp add: sort_dedup_eq)
  then show ?thesis by (auto simp: accounted_by_def Let_def unat_eq_0)
qed

section \<open>Properties\<close>

text \<open>The indices a host collects by judging receipts one by one.\<close>

definition collected :: "crypto \<Rightarrow> Witnessing \<Rightarrow> bytes \<Rightarrow> Siger list \<Rightarrow> WitnessIndex list" where
  "collected cr w data wigs =
     List.map_filter (\<lambda>wig. case witness_receipt cr w data wig of Inl _ \<Rightarrow> None | Inr i \<Rightarrow> Some i) wigs"

lemma collected_set: "set (collected cr w data wigs) = signers cr (wi_witnesses w) data wigs"
  by (auto simp: collected_def List.map_filter_def signers_def witness_receipt_Inr image_iff split: sum.splits) 
     (metis old.sum.exhaust sum.disc(2) witness_receipt_Inr sum.simps(4) Inr_inject)+

text \<open>
  Judging witness receipts one at a time and accounting for the collected
  indices gives exactly the verdict of the fold's batch check of the same
  receipts, whatever their order and repetitions.
\<close>

theorem receipts_one_by_one:
  "accounted_by w (collected cr w data wigs) = Inr () \<longleftrightarrow> receipted_by cr w data wigs = Inr ()"
proof -
  have "{i \<in> signers cr (wi_witnesses w) data wigs. unat i < length (wi_witnesses w)} = signers cr (wi_witnesses w) data wigs"
    using signers_bound by blast
  then show ?thesis by (simp add: accounted_by_Inr collected_set receipted_by_Inr)
qed

text \<open>
  C24: An endorsement is accepted exactly when the receiptor's establishment event
  is supplied, is the one the endorsement names and has keys, every signature
  addresses a key, and at least one verifies over the receipted bytes.
\<close>

theorem endorsed_by_exact:
  "endorsed_by cr e endorsement receiptor = Inr () \<longleftrightarrow>
     (\<exists>est. receiptor = Some est \<and> ro_said est = te_said endorsement \<and> ro_keys est \<noteq> [] \<and>
        (\<forall>s \<in> set (te_sigs endorsement). unat (ix_index (sg_indexer s)) < length (ro_keys est)) \<and>
        (\<exists>s \<in> set (te_sigs endorsement).
           verify_siger cr (ro_keys est ! unat (ix_index (sg_indexer s))) (re_signed_bytes e) s = Inr ()))"
proof -
  have "any_verified cr (ro_keys est) (re_signed_bytes e) seen_default (te_sigs endorsement) \<longleftrightarrow>
      (\<exists>s \<in> set (te_sigs endorsement). valid_sig cr (ro_keys est) (re_signed_bytes e) s)" for est
    by (simp add: any_verified_iff)
  then show ?thesis
    by (auto simp: endorsed_by_def indices_in_range_Inr valid_sig_def Let_def)
qed

lemma witness_index_Some:
  "witness_index w p = Some i \<Longrightarrow> unat i < length (wi_witnesses w) \<and> wi_witnesses w ! unat i = p"
  by (auto simp: witness_index_def bind_eq_Some_conv position_Some unat_of_nat take_bit_eq_mod split: if_splits)

definition ex_receipted :: ReceiptedEvent where
  "ex_receipted = \<lparr>re_prefix = SelfAddressing (ex_said 10), re_sn = Number_new 0, re_said = ex_said 10, re_signed_bytes = []\<rparr>"

definition ex_endorsement :: TransferableEndorsement where
  "ex_endorsement = \<lparr>te_receiptor = SelfAddressing (ex_said 60), te_sn = Number_new 0, te_said = ex_said 60,
     te_sigs = [ex_sig 0 1]\<rparr>"

theorem endorsed_by_exact_witness:
  "endorsed_by ex_crypto ex_receipted ex_endorsement (Some \<lparr>ro_said = ex_said 60, ro_keys = [ex_key 1]\<rparr>) = Inr ()"
  by (rule endorsed_by_exact[THEN iffD2])
     (use ex_verify[of VerKeyCode.Ed25519 1 "[]" 0] in
       \<open>simp add: ex_receipted_def ex_endorsement_def ex_key_def, simp add: ex_sig_def\<close>)

end
