(* ===== verification/Keri_Registry.thy ===== *)
theory Keri_Registry
  imports Keri_Receipt
begin

text \<open>
  The registry fold, \<^verbatim>\<open>crates/keri/src/registry.rs\<close>: the management log of a
  credential registry and the two-event log of each credential under it, both
  anchored in the issuer's key event log and, for a backed registry, receipted
  by its backers.
\<close>

section \<open>Evidence\<close>

record AcceptedTelAnchor =
  ta_prefix :: Identifier
  ta_sn :: Number
  ta_said :: Said
  ta_seals :: "Seal list"

definition from_host_accepted_event :: "KeriEvent \<Rightarrow> AcceptedTelAnchor" where
  "from_host_accepted_event e =
     \<lparr>ta_prefix = ev_prefix e, ta_sn = ev_sn e, ta_said = ev_said e, ta_seals = ev_anchors e\<rparr>"

record TelAnchorCoordinate =
  tc_sn :: Number
  tc_said :: Said

record SignedTel =
  st_event :: TelEvent
  st_signed_bytes :: bytes
  st_sigs :: "Siger list"
  st_source :: "TelAnchorCoordinate option"
  st_backer_sigs :: "Siger list"
  st_accepted_anchor :: "AcceptedTelAnchor option"

definition tel_from_host_asserted_parts :: "TelEvent \<Rightarrow> bytes \<Rightarrow> Siger list \<Rightarrow> SignedTel" where
  "tel_from_host_asserted_parts event signed_bytes sigs =
     \<lparr>st_event = event, st_signed_bytes = signed_bytes, st_sigs = sigs, st_source = None,
      st_backer_sigs = [], st_accepted_anchor = None\<rparr>"

definition with_source :: "SignedTel \<Rightarrow> TelAnchorCoordinate \<Rightarrow> SignedTel" where
  "with_source st source = st\<lparr>st_source := Some source\<rparr>"

definition with_backer_sigs :: "SignedTel \<Rightarrow> Siger list \<Rightarrow> SignedTel" where
  "with_backer_sigs st sigs = st\<lparr>st_backer_sigs := sigs\<rparr>"

definition with_host_accepted_anchor :: "SignedTel \<Rightarrow> KeriEvent \<Rightarrow> SignedTel" where
  "with_host_accepted_anchor st e = st\<lparr>st_accepted_anchor := Some (from_host_accepted_event e)\<rparr>"

section \<open>State\<close>

record RegistryState =
  rs_id :: Said
  rs_issuer :: Identifier
  rs_sn :: Number
  rs_latest :: Said
  rs_config :: "ConfigTrait list"
  rs_backer_threshold :: Toad
  rs_backers :: "BasicPrefix list"

datatype TelEvidence =
    EvMissing
  | EvIssuer KeyState "KeriEvent option"
  | EvBacker
  | EvBackerAt RegistryState

datatype CredentialStatus = Issued | RevokedStatus | UnknownStatus

record CredentialState =
  cs_registry :: Said
  cs_credential :: Said
  cs_sn :: Number
  cs_head :: Said

definition is_backerless :: "RegistryState \<Rightarrow> bool" where
  "is_backerless r \<longleftrightarrow> NoBackers \<in> set (rs_config r)"

definition credential_status :: "CredentialState \<Rightarrow> CredentialStatus" where
  "credential_status c = (if num_value (cs_sn c) = 0 then Issued else RevokedStatus)"

section \<open>Checks\<close>

primrec tel_event_id :: "TelEvent \<Rightarrow> Said" where
  "tel_event_id (TelRegistryInception e) = vcp_said e"
| "tel_event_id (TelRegistryRotation e) = vrt_registry e"
| "tel_event_id (TelIssue e) = iss_credential_said e"
| "tel_event_id (TelRevoke e) = rev_credential_said e"
| "tel_event_id (TelBackedIssue e) = bis_credential_said e"
| "tel_event_id (TelBackedRevoke e) = brv_credential_said e"

text \<open>The slice pattern: one seal, an event seal with a self-addressing identifier.\<close>

fun sole_tel_seal :: "Seal list \<Rightarrow> Said \<Rightarrow> Number \<Rightarrow> Said \<Rightarrow> bool" where
  "sole_tel_seal [EventSeal (SelfAddressing i) s d] event_id sn said = (i = event_id \<and> s = sn \<and> d = said)"
| "sole_tel_seal _ event_id sn said = False"

definition verify_kel_anchor :: "SignedTel \<Rightarrow> Identifier \<Rightarrow> AcceptedTelAnchor option \<Rightarrow> RegistryRejection + unit" where
  "verify_kel_anchor st issuer candidate =
     res_bind (ok_or MissingAnchor (st_source st)) (\<lambda>source.
     res_bind (ok_or MissingAnchor candidate) (\<lambda>anchor.
     let event = st_event st in
     if ta_prefix anchor \<noteq> issuer \<or> ta_sn anchor \<noteq> tc_sn source \<or> ta_said anchor \<noteq> tc_said source
        \<or> \<not> sole_tel_seal (ta_seals anchor) (tel_event_id event) (tel_sn event) (tel_said event)
     then Inl InconsistentAnchor else Inr ()))"

definition check_backer_threshold :: "nat \<Rightarrow> Toad \<Rightarrow> RegistryRejection + unit" where
  "check_backer_threshold count toad = map_err BackerThreshold (res_bind (toad_exact toad count) (\<lambda>_. Inr ()))"

definition authenticate_backer :: "crypto \<Rightarrow> SignedTel \<Rightarrow> BasicPrefix list \<Rightarrow> Toad \<Rightarrow> RegistryRejection + unit" where
  "authenticate_backer cr st backers toad =
     (let threshold = Simple (ucast toad) in
      case with_keys cr backers threshold (st_signed_bytes st) (st_backer_sigs st) of
        Inr _ \<Rightarrow> Inr ()
      | Inl (MissingSignatures verified) \<Rightarrow> Inl (MissingBackerReceipts verified toad)
      | Inl err \<Rightarrow> Inl (RegSignatures err))"

definition seal_names_registry :: "Identifier \<Rightarrow> Said \<Rightarrow> bool" where
  "seal_names_registry i rid = (case i of SelfAddressing said \<Rightarrow> said = rid | Basic _ \<Rightarrow> False)"

fun anchor_names_registry :: "Seal \<Rightarrow> Said \<Rightarrow> bool" where
  "anchor_names_registry (EventSeal i s d) rid = seal_names_registry i rid"
| "anchor_names_registry _ rid = False"

text \<open>The issuer's state and optional anchor out of the evidence.\<close>

fun issuer_evidence :: "TelEvidence \<Rightarrow> RegistryRejection + (KeyState \<times> KeriEvent option)" where
  "issuer_evidence (EvIssuer state anchor) = Inr (state, anchor)"
| "issuer_evidence EvMissing = Inl MissingIssuer"
| "issuer_evidence EvBacker = Inl InconsistentIssuer"
| "issuer_evidence (EvBackerAt m) = Inl InconsistentIssuer"

definition authenticate_issuer :: "RegistryState \<Rightarrow> SignedTel \<Rightarrow> TelEvidence \<Rightarrow> RegistryRejection + unit" where
  "authenticate_issuer r st evidence =
     res_bind (issuer_evidence evidence) (\<lambda>(state, anchor).
     if ks_prefix state \<noteq> rs_issuer r then Inl InconsistentIssuer
     else case anchor of
       None \<Rightarrow> verify_kel_anchor st (rs_issuer r) (st_accepted_anchor st)
     | Some event \<Rightarrow> verify_kel_anchor st (rs_issuer r) (Some (from_host_accepted_event event)))"

fun resolve_backer_authority :: "RegistryState \<Rightarrow> Seal \<Rightarrow> TelEvidence \<Rightarrow> RegistryRejection + (BasicPrefix list \<times> Toad)" where
  "resolve_backer_authority r (EventSeal i s d) evidence =
     (if \<not> seal_names_registry i (rs_id r) then Inl InconsistentRegistry
      else
      res_bind
        (case evidence of
           EvBackerAt management \<Rightarrow>
             (if rs_id management \<noteq> rs_id r \<or> rs_issuer management \<noteq> rs_issuer r
                 \<or> rs_config management \<noteq> rs_config r \<or> rs_sn management \<noteq> s \<or> rs_latest management \<noteq> d
              then Inl InconsistentManagement
              else Inr (rs_backers management, rs_backer_threshold management))
         | EvBacker \<Rightarrow>
             (if num_value s \<noteq> num_value (rs_sn r) \<or> d \<noteq> rs_latest r then Inl (UnresolvedAnchor (num_value s))
              else Inr (rs_backers r, rs_backer_threshold r))
         | EvMissing \<Rightarrow> Inl (UnresolvedAnchor (num_value s))
         | EvIssuer _ _ \<Rightarrow> Inl InconsistentIssuer) (\<lambda>(backers, toad).
      res_bind (map_err (BackerSet \<circ> Membership) (check_members backers ''backers'')) (\<lambda>_.
      res_bind (check_backer_threshold (length backers) toad) (\<lambda>_.
      Inr (backers, toad)))))"
| "resolve_backer_authority r anchor evidence = Inl InconsistentManagement"

definition resolve_backers :: "RegistryState \<Rightarrow> RegistryRotation \<Rightarrow> WitnessSetError + BasicPrefix list" where
  "resolve_backers prior vrt =
     (let removals = vrt_backer_cuts vrt; additions = vrt_backer_additions vrt in
      res_bind (map_err Membership (check_deltas removals additions ''backer cuts'' ''backer additions'')) (\<lambda>_.
      if list_ex (\<lambda>r. r \<notin> set (rs_backers prior)) removals then Inl RemovalNotCurrent
      else if list_ex (\<lambda>a. a \<in> set (rs_backers prior)) additions then Inl AdditionAlreadyPresent
      else Inr (updated_members (rs_backers prior) removals additions)))"

section \<open>The management log\<close>

definition registry_incept :: "crypto \<Rightarrow> SignedTel \<Rightarrow> KeyState \<Rightarrow> RegistryRejection + RegistryState" where
  "registry_incept cr st issuer =
     (case st_event st of
        TelRegistryInception vcp \<Rightarrow>
          (if ks_prefix issuer \<noteq> vcp_issuer vcp then Inl InconsistentIssuer
           else if NoBackers \<in> set (vcp_config vcp) \<and> vcp_backers vcp \<noteq> [] then Inl (RegStructural NoBackersWithBackers)
           else
           res_bind (map_err (BackerSet \<circ> Membership) (check_members (vcp_backers vcp) ''backers'')) (\<lambda>_.
           res_bind (check_backer_threshold (length (vcp_backers vcp)) (vcp_backer_threshold vcp)) (\<lambda>_.
           res_bind (verify_kel_anchor st (vcp_issuer vcp) (st_accepted_anchor st)) (\<lambda>_.
           res_bind (if vcp_backers vcp \<noteq> [] then authenticate_backer cr st (vcp_backers vcp) (vcp_backer_threshold vcp)
                     else Inr ()) (\<lambda>_.
           Inr \<lparr>rs_id = vcp_said vcp, rs_issuer = vcp_issuer vcp, rs_sn = Number_new 0, rs_latest = vcp_said vcp,
                rs_config = vcp_config vcp, rs_backer_threshold = vcp_backer_threshold vcp,
                rs_backers = vcp_backers vcp\<rparr>)))))
      | _ \<Rightarrow> Inl (RegStructural NotRegistryInception))"

fun incept_with_evidence :: "crypto \<Rightarrow> SignedTel \<Rightarrow> TelEvidence \<Rightarrow> RegistryRejection + RegistryState" where
  "incept_with_evidence cr st (EvIssuer state anchor) = registry_incept cr st state"
| "incept_with_evidence cr st EvMissing = Inl MissingIssuer"
| "incept_with_evidence cr st EvBacker = Inl InconsistentIssuer"
| "incept_with_evidence cr st (EvBackerAt m) = Inl InconsistentIssuer"

text \<open>The checks of \<^verbatim>\<open>rotate_mut\<close>, ending in the resolved backers.\<close>

definition validate_registry_rotation ::
    "crypto \<Rightarrow> RegistryState \<Rightarrow> RegistryRotation \<Rightarrow> SignedTel \<Rightarrow> TelEvidence \<Rightarrow> RegistryRejection + BasicPrefix list" where
  "validate_registry_rotation cr r vrt st evidence =
     (if vrt_registry vrt \<noteq> rs_id r then Inl InconsistentRegistry
      else if is_backerless r then Inl (RegStructural RotationOnBackerlessRegistry)
      else
      res_bind (ok_or (RegStructural RegSequenceNumberOverflow) (checked_add (num_value (rs_sn r)) 1)) (\<lambda>expected.
      if num_value (vrt_sn vrt) \<noteq> expected then Inl (RegOutOfOrder expected (num_value (vrt_sn vrt)))
      else if vrt_prior vrt \<noteq> rs_latest r then Inl RegPriorDigestMismatch
      else
      res_bind (authenticate_issuer r st evidence) (\<lambda>_.
      res_bind (map_err BackerSet (resolve_backers r vrt)) (\<lambda>backers.
      res_bind (check_backer_threshold (length backers) (vrt_backer_threshold vrt)) (\<lambda>_.
      res_bind (if backers \<noteq> [] then authenticate_backer cr st backers (vrt_backer_threshold vrt) else Inr ()) (\<lambda>_.
      Inr backers))))))"

definition registry_rotate_mut ::
    "crypto \<Rightarrow> RegistryState \<Rightarrow> RegistryRotation \<Rightarrow> SignedTel \<Rightarrow> TelEvidence \<Rightarrow> RegistryState \<times> (RegistryRejection + unit)" where
  "registry_rotate_mut cr r vrt st evidence =
     (case validate_registry_rotation cr r vrt st evidence of
        Inl e \<Rightarrow> (r, Inl e)
      | Inr backers \<Rightarrow>
          (r\<lparr>rs_sn := vrt_sn vrt, rs_latest := vrt_said vrt, rs_backers := backers,
             rs_backer_threshold := vrt_backer_threshold vrt\<rparr>, Inr ()))"

definition registry_ingest_mut ::
    "crypto \<Rightarrow> RegistryState \<Rightarrow> SignedTel \<Rightarrow> TelEvidence \<Rightarrow> RegistryState \<times> (RegistryRejection + unit)" where
  "registry_ingest_mut cr r st evidence =
     (case st_event st of
        TelRegistryInception _ \<Rightarrow> (r, Inl RegDuplicateInception)
      | TelRegistryRotation vrt \<Rightarrow> registry_rotate_mut cr r vrt st evidence
      | _ \<Rightarrow> (r, Inl (RegStructural NotManagementRotation)))"

section \<open>The credential log\<close>

definition authenticate_backed ::
    "crypto \<Rightarrow> RegistryState \<Rightarrow> SignedTel \<Rightarrow> Seal \<Rightarrow> TelEvidence \<Rightarrow> RegistryRejection + unit" where
  "authenticate_backed cr registry st anchor evidence =
     res_bind (verify_kel_anchor st (rs_issuer registry) (st_accepted_anchor st)) (\<lambda>_.
     res_bind (resolve_backer_authority registry anchor evidence) (\<lambda>(backers, toad).
     authenticate_backer cr st backers toad))"

definition credential_incept ::
    "crypto \<Rightarrow> RegistryState \<Rightarrow> SignedTel \<Rightarrow> TelEvidence \<Rightarrow> RegistryRejection + CredentialState" where
  "credential_incept cr registry st evidence =
     res_bind
       (case st_event st of
          TelIssue iss \<Rightarrow>
            (if iss_registry_said iss \<noteq> rs_id registry then Inl InconsistentRegistry
             else if \<not> is_backerless registry then Inl (RegStructural SimpleEventOnBackerRegistry)
             else res_bind (authenticate_issuer registry st evidence) (\<lambda>_.
               Inr (iss_credential_said iss, Number_new 0, iss_said iss)))
        | TelBackedIssue bis \<Rightarrow>
            (if bis_registry_said bis \<noteq> rs_id registry then Inl InconsistentRegistry
             else if is_backerless registry then Inl (RegStructural BackedEventOnBackerlessRegistry)
             else res_bind (authenticate_backed cr registry st (bis_anchor bis) evidence) (\<lambda>_.
               Inr (bis_credential_said bis, Number_new 0, bis_said bis)))
        | _ \<Rightarrow> Inl (RegStructural NotCredentialInception)) (\<lambda>(credential, sn, head).
     if num_value sn \<noteq> 0 then Inl (RegOutOfOrder 0 (num_value sn))
     else Inr \<lparr>cs_registry = rs_id registry, cs_credential = credential, cs_sn = sn, cs_head = head\<rparr>)"

definition validate_credential ::
    "crypto \<Rightarrow> CredentialState \<Rightarrow> RegistryState \<Rightarrow> SignedTel \<Rightarrow> TelEvidence \<Rightarrow> RegistryRejection + (Number \<times> Said)" where
  "validate_credential cr c registry st evidence =
     (if cs_registry c \<noteq> rs_id registry then Inl InconsistentRegistry
      else
      res_bind
        (case st_event st of
           TelRevoke rev' \<Rightarrow>
             (if rev_registry_said rev' \<noteq> rs_id registry then Inl InconsistentRegistry
              else if \<not> is_backerless registry then Inl (RegStructural SimpleEventOnBackerRegistry)
              else res_bind (authenticate_issuer registry st evidence) (\<lambda>_.
                Inr (rev_credential_said rev', Number_new 1, rev_said rev', rev_prior rev')))
         | TelBackedRevoke brv \<Rightarrow>
             (if \<not> anchor_names_registry (brv_anchor brv) (rs_id registry) then Inl InconsistentRegistry
              else if is_backerless registry then Inl (RegStructural BackedEventOnBackerlessRegistry)
              else res_bind (authenticate_backed cr registry st (brv_anchor brv) evidence) (\<lambda>_.
                Inr (brv_credential_said brv, Number_new 1, brv_said brv, brv_prior brv)))
         | _ \<Rightarrow> Inl (RegStructural NotCredentialTransition)) (\<lambda>(credential, sn, head, prior).
      if credential \<noteq> cs_credential c then Inl InconsistentCredential
      else
      res_bind (ok_or (RegStructural RegSequenceNumberOverflow) (checked_add (num_value (cs_sn c)) 1)) (\<lambda>expected.
      if num_value sn \<noteq> expected then Inl (RegOutOfOrder expected (num_value sn))
      else if prior \<noteq> cs_head c then Inl RegPriorDigestMismatch
      else Inr (sn, head))))"

definition credential_ingest_mut ::
    "crypto \<Rightarrow> CredentialState \<Rightarrow> RegistryState \<Rightarrow> SignedTel \<Rightarrow> TelEvidence \<Rightarrow>
       CredentialState \<times> (RegistryRejection + unit)" where
  "credential_ingest_mut cr c registry st evidence =
     (case validate_credential cr c registry st evidence of
        Inl e \<Rightarrow> (c, Inl e)
      | Inr (sn, head) \<Rightarrow> (c\<lparr>cs_sn := sn, cs_head := head\<rparr>, Inr ()))"

end
