(* ===== verification/Keri_Registry_Props.thy ===== *)
theory Keri_Registry_Props
  imports Keri_Registry
begin

text \<open>
  What the registry fold guarantees: exact acceptance, the invariant and the
  chain of a management log, the life cycle of a credential, who must have
  anchored and receipted what, and that a refusal changes nothing.
\<close>

section \<open>The checks\<close>

named_theorems tel_simps

lemma sole_tel_seal_iff [tel_simps]: "sole_tel_seal seals i s d \<longleftrightarrow> seals = [EventSeal (SelfAddressing i) s d]"
  by (cases "(seals, i, s, d)" rule: sole_tel_seal.cases) auto

text \<open>The event is the only seal of the accepted issuer event its source names.\<close>

definition tel_anchored :: "SignedTel \<Rightarrow> Identifier \<Rightarrow> AcceptedTelAnchor option \<Rightarrow> bool" where
  "tel_anchored st issuer candidate \<longleftrightarrow>
     (\<exists>source anchor. st_source st = Some source \<and> candidate = Some anchor \<and> ta_prefix anchor = issuer \<and>
        ta_sn anchor = tc_sn source \<and> ta_said anchor = tc_said source \<and>
        ta_seals anchor =
          [EventSeal (SelfAddressing (tel_event_id (st_event st))) (tel_sn (st_event st)) (tel_said (st_event st))])"

lemma verify_kel_anchor_Inr [tel_simps]: "verify_kel_anchor st issuer candidate = Inr () \<longleftrightarrow> tel_anchored st issuer candidate"
  by (auto simp: verify_kel_anchor_def tel_anchored_def Let_def sole_tel_seal_iff)

lemma check_backer_threshold_Inr [tel_simps]: "check_backer_threshold n t = Inr () \<longleftrightarrow> toad_law t n"
  by (auto simp: check_backer_threshold_def toad_law_def toad_exact_def Let_def split: if_splits)

text \<open>Enough backers have a valid receipt.\<close>

definition backed_by :: "crypto \<Rightarrow> SignedTel \<Rightarrow> BasicPrefix list \<Rightarrow> Toad \<Rightarrow> bool" where
  "backed_by cr st backers toad \<longleftrightarrow> unat toad \<le> card (signers cr backers (st_signed_bytes st) (st_backer_sigs st))"

lemma unat_toad_u64: "unat (ucast (t :: u32) :: u64) = unat t"
proof -
  have "unat t < 2 ^ 64" by (rule less_trans[OF unsigned_less]) simp
  then show ?thesis by (simp add: unsigned_ucast_eq take_bit_nat_eq_self)
qed

lemma authenticate_backer_Inr [tel_simps]: "authenticate_backer cr st backers toad = Inr () \<longleftrightarrow> backed_by cr st backers toad"
  by (auto simp: authenticate_backer_def with_keys_eq Let_def meets_Simple backed_by_def unat_toad_u64
      split: sum.splits Rejection.splits if_splits)

lemma authenticate_issuer_Inr [tel_simps]:
  "authenticate_issuer r st evidence = Inr () \<longleftrightarrow>
     (\<exists>state anchor. evidence = EvIssuer state anchor \<and> ks_prefix state = rs_issuer r \<and>
        tel_anchored st (rs_issuer r)
          (case anchor of None \<Rightarrow> st_accepted_anchor st | Some e \<Rightarrow> Some (from_host_accepted_event e)))"
  by (cases evidence) (auto simp: authenticate_issuer_def tel_simps split: option.splits)

definition backer_deltas_ok :: "RegistryState \<Rightarrow> RegistryRotation \<Rightarrow> bool" where
  "backer_deltas_ok r vrt \<longleftrightarrow>
     distinct (vrt_backer_cuts vrt) \<and> distinct (vrt_backer_additions vrt) \<and>
     set (vrt_backer_cuts vrt) \<subseteq> set (rs_backers r) \<and>
     set (vrt_backer_additions vrt) \<inter> set (rs_backers r) = {}"

definition next_backers :: "RegistryState \<Rightarrow> RegistryRotation \<Rightarrow> BasicPrefix list" where
  "next_backers r vrt = updated_members (rs_backers r) (vrt_backer_cuts vrt) (vrt_backer_additions vrt)"

lemma resolve_backers_Inr [tel_simps]:
  "resolve_backers r vrt = Inr bs \<longleftrightarrow> backer_deltas_ok r vrt \<and> bs = next_backers r vrt"
  by (auto simp: resolve_backers_def backer_deltas_ok_def next_backers_def Let_def list_ex_iff)

text \<open>The backers an event's registry coordinate resolves to.\<close>

definition resolved_backers :: "RegistryState \<Rightarrow> Seal \<Rightarrow> TelEvidence \<Rightarrow> BasicPrefix list \<Rightarrow> Toad \<Rightarrow> bool" where
  "resolved_backers r anchor evidence backers toad \<longleftrightarrow>
     (\<exists>s d m. anchor = EventSeal (SelfAddressing (rs_id r)) s d \<and>
        ((evidence = EvBackerAt m \<and> rs_id m = rs_id r \<and> rs_issuer m = rs_issuer r \<and> rs_config m = rs_config r \<and>
            rs_sn m = s \<and> rs_latest m = d) \<or>
         (evidence = EvBacker \<and> m = r \<and> num_value s = num_value (rs_sn r) \<and> d = rs_latest r)) \<and>
        backers = rs_backers m \<and> toad = rs_backer_threshold m \<and> distinct backers \<and> toad_law toad (length backers))"

lemma resolve_backer_authority_Inr [tel_simps]:
  "resolve_backer_authority r anchor evidence = Inr (bs, t) \<longleftrightarrow> resolved_backers r anchor evidence bs t"
  by (cases "(r, anchor, evidence)" rule: resolve_backer_authority.cases)
     (auto simp: resolved_backers_def tel_simps seal_names_registry_def split: TelEvidence.splits Identifier.splits if_splits)

lemma authenticate_backed_Inr [tel_simps]:
  "authenticate_backed cr r st anchor evidence = Inr () \<longleftrightarrow>
     tel_anchored st (rs_issuer r) (st_accepted_anchor st) \<and>
     (\<exists>bs t. resolved_backers r anchor evidence bs t \<and> backed_by cr st bs t)"
  by (auto simp: authenticate_backed_def tel_simps)

section \<open>The management log\<close>

definition vcp_ok :: "crypto \<Rightarrow> SignedTel \<Rightarrow> RegistryInception \<Rightarrow> bool" where
  "vcp_ok cr st vcp \<longleftrightarrow>
     (NoBackers \<in> set (vcp_config vcp) \<longrightarrow> vcp_backers vcp = []) \<and>
     distinct (vcp_backers vcp) \<and> toad_law (vcp_backer_threshold vcp) (length (vcp_backers vcp)) \<and>
     tel_anchored st (vcp_issuer vcp) (st_accepted_anchor st) \<and>
     backed_by cr st (vcp_backers vcp) (vcp_backer_threshold vcp)"

definition registry_seed :: "RegistryInception \<Rightarrow> RegistryState" where
  "registry_seed vcp =
     \<lparr>rs_id = vcp_said vcp, rs_issuer = vcp_issuer vcp, rs_sn = Number_new 0, rs_latest = vcp_said vcp,
      rs_config = vcp_config vcp, rs_backer_threshold = vcp_backer_threshold vcp, rs_backers = vcp_backers vcp\<rparr>"

lemma backed_by_none: "toad_law t 0 \<Longrightarrow> backed_by cr st [] t"
  by (simp add: backed_by_def toad_law_def)

lemma registry_incept_Inr [tel_simps]:
  "registry_incept cr st issuer = Inr r \<longleftrightarrow>
     (\<exists>vcp. st_event st = TelRegistryInception vcp \<and> ks_prefix issuer = vcp_issuer vcp \<and> vcp_ok cr st vcp \<and>
        r = registry_seed vcp)"
  by (cases "st_event st")
     (auto simp: registry_incept_def tel_simps vcp_ok_def registry_seed_def backed_by_none split: if_splits)

definition vrt_ok :: "crypto \<Rightarrow> RegistryState \<Rightarrow> SignedTel \<Rightarrow> TelEvidence \<Rightarrow> RegistryRotation \<Rightarrow> bool" where
  "vrt_ok cr r st evidence vrt \<longleftrightarrow>
     NoBackers \<notin> set (rs_config r) \<and> vrt_registry vrt = rs_id r \<and>
     unat (num_value (vrt_sn vrt)) = unat (num_value (rs_sn r)) + 1 \<and> vrt_prior vrt = rs_latest r \<and>
     authenticate_issuer r st evidence = Inr () \<and> backer_deltas_ok r vrt \<and>
     toad_law (vrt_backer_threshold vrt) (length (next_backers r vrt)) \<and>
     backed_by cr st (next_backers r vrt) (vrt_backer_threshold vrt)"

definition registry_rotated :: "RegistryState \<Rightarrow> RegistryRotation \<Rightarrow> RegistryState" where
  "registry_rotated r vrt =
     r\<lparr>rs_sn := vrt_sn vrt, rs_latest := vrt_said vrt, rs_backers := next_backers r vrt,
       rs_backer_threshold := vrt_backer_threshold vrt\<rparr>"

lemma next_sn_Some: "checked_add (n :: u128) 1 = Some a \<longleftrightarrow> unat a = unat n + 1"
  using check_next_sn_Inr[of n a] by (cases "checked_add n 1") (auto simp: check_next_sn_def split: if_splits)

lemma validate_registry_rotation_Inr [tel_simps]:
  "validate_registry_rotation cr r vrt st evidence = Inr bs \<longleftrightarrow> vrt_ok cr r st evidence vrt \<and> bs = next_backers r vrt"
  by (auto simp: validate_registry_rotation_def next_sn_Some vrt_ok_def is_backerless_def resolve_backers_Inr
      check_backer_threshold_Inr authenticate_backer_Inr backed_by_none split: if_splits)

lemma registry_rotate_mut_Inr:
  "registry_rotate_mut cr r vrt st evidence = (r', Inr ()) \<longleftrightarrow> vrt_ok cr r st evidence vrt \<and> r' = registry_rotated r vrt"
proof (cases "validate_registry_rotation cr r vrt st evidence")
  case (Inl e)
  then have "\<not> vrt_ok cr r st evidence vrt"
    using validate_registry_rotation_Inr[of cr r vrt st evidence "next_backers r vrt"] by simp
  then show ?thesis by (simp add: registry_rotate_mut_def Inl)
next
  case (Inr bs)
  then show ?thesis
    using validate_registry_rotation_Inr[of cr r vrt st evidence bs]
    by (auto simp: registry_rotate_mut_def registry_rotated_def)
qed

lemma registry_ingest_mut_Inr [tel_simps]:
  "registry_ingest_mut cr r st evidence = (r', Inr ()) \<longleftrightarrow>
     (\<exists>vrt. st_event st = TelRegistryRotation vrt \<and> vrt_ok cr r st evidence vrt \<and> r' = registry_rotated r vrt)"
  by (cases "st_event st") (auto simp: registry_ingest_mut_def registry_rotate_mut_Inr)

text \<open>The accepted management logs.\<close>

inductive management_log :: "crypto \<Rightarrow> TelEvent list \<Rightarrow> RegistryState \<Rightarrow> bool" for cr where
  opened: "incept_with_evidence cr st evidence = Inr r \<Longrightarrow> management_log cr [st_event st] r"
| rotated: "management_log cr tel r \<Longrightarrow> registry_ingest_mut cr r st evidence = (r', Inr ()) \<Longrightarrow>
     management_log cr (tel @ [st_event st]) r'"

lemma incept_with_evidence_Inr [tel_simps]:
  "incept_with_evidence cr st evidence = Inr r \<longleftrightarrow>
     (\<exists>state anchor. evidence = EvIssuer state anchor \<and> registry_incept cr st state = Inr r)"
  by (cases evidence) auto

primrec tel_prior :: "TelEvent \<Rightarrow> Said option" where
  "tel_prior (TelRegistryInception e) = None"
| "tel_prior (TelRegistryRotation e) = Some (vrt_prior e)"
| "tel_prior (TelIssue e) = None"
| "tel_prior (TelRevoke e) = Some (rev_prior e)"
| "tel_prior (TelBackedIssue e) = None"
| "tel_prior (TelBackedRevoke e) = Some (brv_prior e)"

text \<open>Each event names the one before it, and sequence numbers count from zero.\<close>

definition tel_chain :: "TelEvent list \<Rightarrow> bool" where
  "tel_chain tel \<longleftrightarrow>
     (\<forall>i < length tel. unat (num_value (tel_sn (tel ! i))) = i \<and>
        tel_prior (tel ! i) = (if i = 0 then None else Some (tel_said (tel ! (i - 1)))))"

lemma tel_chain_snoc:
  assumes "tel_chain tel" "tel \<noteq> []" "unat (num_value (tel_sn e)) = length tel" "tel_prior e = Some (tel_said (last tel))"
  shows "tel_chain (tel @ [e])"
  using assms by (auto simp: tel_chain_def nth_append last_conv_nth less_Suc_eq)

definition registry_ok :: "RegistryState \<Rightarrow> bool" where
  "registry_ok r \<longleftrightarrow>
     distinct (rs_backers r) \<and> toad_law (rs_backer_threshold r) (length (rs_backers r)) \<and>
     (is_backerless r \<longrightarrow> rs_backers r = [] \<and> num_value (rs_sn r) = 0 \<and> rs_latest r = rs_id r)"

lemma management_log_chain:
  "management_log cr tel r \<Longrightarrow> tel \<noteq> [] \<and> tel_chain tel \<and> rs_latest r = tel_said (last tel) \<and>
     unat (num_value (rs_sn r)) + 1 = length tel \<and> rs_id r = tel_said (hd tel)"
proof (induction rule: management_log.induct)
  case (opened st evidence r)
  then show ?case
    by (auto simp: incept_with_evidence_Inr registry_incept_Inr registry_seed_def tel_chain_def)
next
  case (rotated tel r st evidence r')
  from rotated.hyps(2) obtain vrt where v: "st_event st = TelRegistryRotation vrt" "vrt_ok cr r st evidence vrt"
      "r' = registry_rotated r vrt" by (auto simp: registry_ingest_mut_Inr)
  then show ?case using rotated.IH
    by (auto simp: registry_rotated_def vrt_ok_def intro!: tel_chain_snoc)
qed

lemma management_log_ok: "management_log cr tel r \<Longrightarrow> registry_ok r"
proof (induction rule: management_log.induct)
  case (opened st evidence r)
  then show ?case
    by (auto simp: incept_with_evidence_Inr registry_incept_Inr registry_seed_def vcp_ok_def registry_ok_def is_backerless_def)
next
  case (rotated tel r st evidence r')
  from rotated.hyps(2) obtain vrt where v: "vrt_ok cr r st evidence vrt"
      "r' = registry_rotated r vrt" by (auto simp: registry_ingest_mut_Inr)
  then show ?case using rotated.IH
    by (auto simp: registry_rotated_def vrt_ok_def registry_ok_def is_backerless_def next_backers_def
        updated_members_distinct)
qed

section \<open>The credential log\<close>

text \<open>The registry an event is filed under, where it carries one in its own right or in its anchor.\<close>

definition tel_registry_ok :: "RegistryState \<Rightarrow> TelEvent \<Rightarrow> bool" where
  "tel_registry_ok r e \<longleftrightarrow>
     (case e of
        TelIssue iss \<Rightarrow> iss_registry_said iss = rs_id r
      | TelRevoke rev' \<Rightarrow> rev_registry_said rev' = rs_id r
      | TelBackedIssue bis \<Rightarrow> bis_registry_said bis = rs_id r
      | TelBackedRevoke brv \<Rightarrow> anchor_names_registry (brv_anchor brv) (rs_id r)
      | _ \<Rightarrow> False)"

text \<open>
  The authority behind a credential event: in a backerless registry the issuer's
  key event log; in a backed one that log and the backers the event's anchor
  resolves to.
\<close>

definition tel_authorized :: "crypto \<Rightarrow> RegistryState \<Rightarrow> SignedTel \<Rightarrow> TelEvidence \<Rightarrow> bool" where
  "tel_authorized cr r st evidence \<longleftrightarrow>
     (let backed = (\<lambda>anchor. tel_anchored st (rs_issuer r) (st_accepted_anchor st) \<and>
                       (\<exists>bs t. resolved_backers r anchor evidence bs t \<and> backed_by cr st bs t)) in
      case st_event st of
        TelBackedIssue bis \<Rightarrow> \<not> is_backerless r \<and> backed (bis_anchor bis)
      | TelBackedRevoke brv \<Rightarrow> \<not> is_backerless r \<and> backed (brv_anchor brv)
      | _ \<Rightarrow> is_backerless r \<and> authenticate_issuer r st evidence = Inr ())"

primrec is_issue :: "TelEvent \<Rightarrow> bool" where
  "is_issue (TelRegistryInception e) = False"
| "is_issue (TelRegistryRotation e) = False"
| "is_issue (TelIssue e) = True"
| "is_issue (TelRevoke e) = False"
| "is_issue (TelBackedIssue e) = True"
| "is_issue (TelBackedRevoke e) = False"

primrec is_revoke :: "TelEvent \<Rightarrow> bool" where
  "is_revoke (TelRegistryInception e) = False"
| "is_revoke (TelRegistryRotation e) = False"
| "is_revoke (TelIssue e) = False"
| "is_revoke (TelRevoke e) = True"
| "is_revoke (TelBackedIssue e) = False"
| "is_revoke (TelBackedRevoke e) = True"

definition credential_seed :: "RegistryState \<Rightarrow> TelEvent \<Rightarrow> CredentialState" where
  "credential_seed r e =
     \<lparr>cs_registry = rs_id r, cs_credential = tel_event_id e, cs_sn = Number_new 0, cs_head = tel_said e\<rparr>"

lemma credential_incept_Inr [tel_simps]:
  "credential_incept cr r st evidence = Inr c \<longleftrightarrow>
     is_issue (st_event st) \<and> tel_registry_ok r (st_event st) \<and> tel_authorized cr r st evidence \<and>
     c = credential_seed r (st_event st)"
  by (cases "st_event st")
     (auto simp: credential_incept_def tel_registry_ok_def tel_authorized_def credential_seed_def
       authenticate_backed_Inr)

definition credential_revoked :: "CredentialState \<Rightarrow> TelEvent \<Rightarrow> CredentialState" where
  "credential_revoked c e = c\<lparr>cs_sn := Number_new 1, cs_head := tel_said e\<rparr>"

definition revoke_ok :: "crypto \<Rightarrow> CredentialState \<Rightarrow> RegistryState \<Rightarrow> SignedTel \<Rightarrow> TelEvidence \<Rightarrow> bool" where
  "revoke_ok cr c r st evidence \<longleftrightarrow>
     cs_registry c = rs_id r \<and> is_revoke (st_event st) \<and> tel_registry_ok r (st_event st) \<and>
     tel_authorized cr r st evidence \<and> tel_event_id (st_event st) = cs_credential c \<and>
     num_value (cs_sn c) = 0 \<and> tel_prior (st_event st) = Some (cs_head c)"

lemma next_sn_one: "checked_add (n :: u128) 1 = Some 1 \<longleftrightarrow> n = 0"
  by (simp add: next_sn_Some unat_eq_0)

lemma validate_credential_Inr:
  "validate_credential cr c r st evidence = Inr nd \<longleftrightarrow>
     revoke_ok cr c r st evidence \<and> nd = (Number_new 1, tel_said (st_event st))"
  by (cases "st_event st")
     (auto simp: validate_credential_def revoke_ok_def tel_registry_ok_def tel_authorized_def
       authenticate_backed_Inr next_sn_one)

lemma credential_ingest_mut_Inr [tel_simps]:
  "credential_ingest_mut cr c r st evidence = (c', Inr ()) \<longleftrightarrow>
     revoke_ok cr c r st evidence \<and> c' = credential_revoked c (st_event st)"
proof (cases "validate_credential cr c r st evidence")
  case (Inl e)
  then have "\<not> revoke_ok cr c r st evidence"
    using validate_credential_Inr[of cr c r st evidence "(Number_new 1, tel_said (st_event st))"] by simp
  then show ?thesis by (simp add: credential_ingest_mut_def Inl)
next
  case (Inr nd)
  then show ?thesis
    using validate_credential_Inr[of cr c r st evidence nd]
    by (auto simp: credential_ingest_mut_def credential_revoked_def)
qed

text \<open>The accepted logs of a credential; its registry may rotate between the events.\<close>

inductive credential_log :: "crypto \<Rightarrow> TelEvent list \<Rightarrow> CredentialState \<Rightarrow> bool" for cr where
  issued: "credential_incept cr r st evidence = Inr c \<Longrightarrow> credential_log cr [st_event st] c"
| moved: "credential_log cr tel c \<Longrightarrow> credential_ingest_mut cr c r st evidence = (c', Inr ()) \<Longrightarrow>
     credential_log cr (tel @ [st_event st]) c'"

lemma credential_log_shape:
  "credential_log cr tel c \<Longrightarrow>
     (\<exists>iss. is_issue iss \<and> cs_credential c = tel_event_id iss \<and>
        (tel = [iss] \<and> num_value (cs_sn c) = 0 \<and> cs_head c = tel_said iss \<or>
         (\<exists>rev'. tel = [iss, rev'] \<and> num_value (cs_sn c) = 1 \<and> is_revoke rev' \<and>
            tel_event_id rev' = tel_event_id iss \<and> tel_prior rev' = Some (tel_said iss))))"
proof (induction rule: credential_log.induct)
  case (issued r st evidence c)
  then show ?case by (auto simp: credential_incept_Inr credential_seed_def)
next
  case (moved tel c r st evidence c')
  from moved.hyps(2) have "revoke_ok cr c r st evidence" "c' = credential_revoked c (st_event st)"
    by (auto simp: credential_ingest_mut_Inr)
  then show ?case using moved.IH by (auto simp: revoke_ok_def credential_revoked_def)
qed

section \<open>Properties\<close>

text \<open>
  What the events of a management log say on their own: the inception sets the
  state up, and each rotation moves the sequence number, the latest digest, the
  threshold and the backers, cuts leaving and additions joining at the end.
\<close>

fun replay_event :: "RegistryState \<Rightarrow> TelEvent \<Rightarrow> RegistryState" where
  "replay_event r (TelRegistryRotation vrt) =
     r\<lparr>rs_sn := vrt_sn vrt, rs_latest := vrt_said vrt, rs_backer_threshold := vrt_backer_threshold vrt,
       rs_backers := filter (\<lambda>b. b \<notin> set (vrt_backer_cuts vrt)) (rs_backers r) @ vrt_backer_additions vrt\<rparr>"
| "replay_event r _ = r"

fun management_replay :: "TelEvent list \<Rightarrow> RegistryState option" where
  "management_replay (TelRegistryInception vcp # tel) = Some (foldl replay_event (registry_seed vcp) tel)"
| "management_replay _ = None"

fun rotates :: "Said \<Rightarrow> TelEvent \<Rightarrow> bool" where
  "rotates rid (TelRegistryRotation vrt) = (vrt_registry vrt = rid)"
| "rotates rid _ = False"

lemma registry_rotated_replay:
  "backer_deltas_ok r vrt \<Longrightarrow> registry_rotated r vrt = replay_event r (TelRegistryRotation vrt)"
  by (simp add: registry_rotated_def next_backers_def backer_deltas_ok_def updated_members_append)

lemma management_replay_snoc: "management_replay tel = Some r \<Longrightarrow> management_replay (tel @ [e]) = Some (replay_event r e)"
  by (cases tel rule: management_replay.cases) auto

lemma management_log_replay:
  "management_log cr tel r \<Longrightarrow> management_replay tel = Some r \<and> list_all (rotates (rs_id r)) (tl tel)"
proof (induction rule: management_log.induct)
  case (opened st evidence r)
  then show ?case by (auto simp: incept_with_evidence_Inr registry_incept_Inr)
next
  case (rotated tel r st evidence r')
  from rotated.hyps(2) obtain vrt where v: "st_event st = TelRegistryRotation vrt" "vrt_ok cr r st evidence vrt"
      "r' = registry_rotated r vrt" by (auto simp: registry_ingest_mut_Inr)
  have "rs_id r' = rs_id r" "vrt_registry vrt = rs_id r" "backer_deltas_ok r vrt"
    using v(2,3) by (simp_all add: registry_rotated_def vrt_ok_def)
  moreover have "tel \<noteq> []" using rotated.IH by auto
  ultimately show ?case
    using rotated.IH management_replay_snoc[of tel r "st_event st"] v by (simp add: registry_rotated_replay)
qed

text \<open>
  C18: A registry's state is the one its management log determines. Every log
  the fold accepts is an inception followed by rotations of that registry;
  sequence numbers count up from zero, each event names its predecessor's
  digest, and the state is the one obtained by replaying the events alone: the
  last number and digest, the last threshold, and the backers after every cut
  and addition. They are distinct, the threshold is reachable, and a backerless
  registry has no backers and never moves.
\<close>

theorem management_log_sound:
  assumes "management_log cr tel r"
  shows "management_replay tel = Some r \<and> list_all (rotates (rs_id r)) (tl tel) \<and>
    tel_chain tel \<and> unat (num_value (rs_sn r)) + 1 = length tel \<and> rs_latest r = tel_said (last tel) \<and>
    rs_id r = tel_said (hd tel) \<and> registry_ok r"
  using management_log_replay[OF assms] management_log_chain[OF assms] management_log_ok[OF assms] by blast

text \<open>
  A registry rotates exactly when the registry has backers to rotate, the event is
  the next one of its log, the issuer's accepted key event log seals it and
  nothing else, the cuts and additions fit the current backers, the new threshold
  is reachable, and that many of the new backers have validly signed it.
\<close>

theorem registry_rotation_exact:
  "registry_ingest_mut cr r st evidence = (r', Inr ()) \<longleftrightarrow>
     (\<exists>vrt. st_event st = TelRegistryRotation vrt \<and> vrt_ok cr r st evidence vrt \<and> r' = registry_rotated r vrt)"
  by (rule registry_ingest_mut_Inr)

text \<open>
  C19: The life of a credential. Every accepted log is an issue, or an issue and one
  revocation that names the issue's digest and the same credential; the status is
  issued in the first case and revoked in the second.
\<close>

theorem credential_lifecycle:
  assumes "credential_log cr tel c"
  shows "\<exists>iss. is_issue iss \<and> tel_event_id iss = cs_credential c \<and>
    ((tel = [iss] \<and> credential_status c = Issued) \<or>
     (\<exists>rev'. tel = [iss, rev'] \<and> is_revoke rev' \<and> tel_prior rev' = Some (tel_said iss) \<and>
        tel_event_id rev' = cs_credential c \<and> credential_status c = RevokedStatus))"
  using credential_log_shape[OF assms] by (auto simp: credential_status_def)

text \<open>
  C20: Revocation is final: whatever is offered next, against whatever state of the
  registry and with whatever evidence, is refused and leaves the credential revoked.
\<close>

theorem revocation_is_final:
  assumes "credential_log cr tel c" "credential_status c = RevokedStatus"
  shows "\<exists>e. credential_ingest_mut cr c r st evidence = (c, Inl e)"
proof (cases "validate_credential cr c r st evidence")
  case (Inl e)
  then show ?thesis by (simp add: credential_ingest_mut_def)
next
  case (Inr nd)
  then have "num_value (cs_sn c) = 0" by (simp add: validate_credential_Inr revoke_ok_def)
  then show ?thesis using assms(2) by (simp add: credential_status_def)
qed

text \<open>
  The event of the issuer's log the submission rests on: the one the evidence
  supplies, or else the one the host attached. The seal by which a backed event
  names its registry, and the management state whose backers it had to satisfy.
\<close>

definition sealing_event :: "SignedTel \<Rightarrow> TelEvidence \<Rightarrow> AcceptedTelAnchor option" where
  "sealing_event st evidence =
     (case evidence of
        EvIssuer state (Some e) \<Rightarrow> Some \<lparr>ta_prefix = ev_prefix e, ta_sn = ev_sn e, ta_said = ev_said e, ta_seals = ev_anchors e\<rparr>
      | _ \<Rightarrow> st_accepted_anchor st)"

fun backer_coordinate :: "TelEvent \<Rightarrow> Seal option" where
  "backer_coordinate (TelBackedIssue bis) = Some (bis_anchor bis)"
| "backer_coordinate (TelBackedRevoke brv) = Some (brv_anchor brv)"
| "backer_coordinate _ = None"

definition governing_management :: "RegistryState \<Rightarrow> TelEvidence \<Rightarrow> RegistryState" where
  "governing_management r evidence = (case evidence of EvBackerAt m \<Rightarrow> m | _ \<Rightarrow> r)"

lemma tel_authorized_sealed:
  assumes "tel_authorized cr r st evidence"
  shows "tel_anchored st (rs_issuer r) (sealing_event st evidence)"
  using assms
  by (auto simp: tel_authorized_def authenticate_issuer_Inr resolved_backers_def Let_def sealing_event_def
      from_host_accepted_event_def split: TelEvent.splits option.splits)

lemma tel_authorized_backed:
  assumes "tel_authorized cr r st evidence" and "\<not> is_backerless r"
  shows "\<exists>s d. backer_coordinate (st_event st) = Some (EventSeal (SelfAddressing (rs_id r)) s d) \<and>
     (let m = governing_management r evidence in
      rs_id m = rs_id r \<and> rs_issuer m = rs_issuer r \<and> rs_config m = rs_config r \<and>
      num_value (rs_sn m) = num_value s \<and> rs_latest m = d \<and>
      unat (rs_backer_threshold m) \<le> card (signers cr (rs_backers m) (st_signed_bytes st) (st_backer_sigs st)))"
  using assms
  by (auto simp: tel_authorized_def resolved_backers_def backed_by_def Let_def governing_management_def
      split: TelEvent.splits)

text \<open>
  C17: Who stands behind a credential event. An accepted issue or revocation is
  filed under the registry, and is the only seal, by credential, sequence number
  and digest, of the very event of the issuer's log that the evidence supplies
  or the host attached, found at the coordinates the submission names. In a
  registry without backers the evidence is a state of that issuer; in one with
  backers the event names a management state by sequence number and digest, the
  state resolved from the evidence is that one, and at least its threshold of
  its backers have validly signed the event.
\<close>

theorem credential_event_authorized:
  assumes "credential_incept cr r st evidence = Inr c \<or> credential_ingest_mut cr c0 r st evidence = (c, Inr ())"
  shows "tel_registry_ok r (st_event st) \<and> tel_anchored st (rs_issuer r) (sealing_event st evidence) \<and>
    (if is_backerless r then \<exists>state anchor. evidence = EvIssuer state anchor \<and> ks_prefix state = rs_issuer r
     else \<exists>s d. backer_coordinate (st_event st) = Some (EventSeal (SelfAddressing (rs_id r)) s d) \<and>
       (let m = governing_management r evidence in
        rs_id m = rs_id r \<and> rs_issuer m = rs_issuer r \<and> rs_config m = rs_config r \<and>
        num_value (rs_sn m) = num_value s \<and> rs_latest m = d \<and>
        unat (rs_backer_threshold m) \<le> card (signers cr (rs_backers m) (st_signed_bytes st) (st_backer_sigs st))))"
proof -
  have a: "tel_authorized cr r st evidence" and "tel_registry_ok r (st_event st)"
    using assms by (auto simp: credential_incept_Inr credential_ingest_mut_Inr revoke_ok_def)
  moreover have "\<exists>state anchor. evidence = EvIssuer state anchor \<and> ks_prefix state = rs_issuer r" if "is_backerless r"
    using a that by (auto simp: tel_authorized_def Let_def authenticate_issuer_Inr split: TelEvent.splits)
  ultimately show ?thesis
    using tel_authorized_sealed[OF a] tel_authorized_backed[OF a] by simp
qed

text \<open>A refused management or credential event changes nothing.\<close>

theorem registry_rejection_keeps_state:
  assumes "registry_ingest_mut cr r st evidence = (r', Inl e)" "credential_ingest_mut cr c r st evidence = (c', Inl e')"
  shows "r' = r \<and> c' = c"
  using assms
  by (auto simp: registry_ingest_mut_def registry_rotate_mut_def credential_ingest_mut_def
      split: TelEvent.splits sum.splits)

end
