(* ===== verification/Keri_Registry_Example.thy ===== *)
theory Keri_Registry_Example
  imports Keri_Registry_Props
begin

text \<open>
  A concrete registry with a backer, its rotation to another backer, and a
  credential issued and revoked under it: the witnesses of the registry's
  properties.
\<close>

definition ex_vcp :: RegistryInception where
  "ex_vcp = \<lparr>vcp_said = ex_said 30, vcp_issuer = SelfAddressing (ex_said 10), vcp_config = [],
     vcp_backer_threshold = 1, vcp_backers = [ex_witness 3], vcp_nonce = Matter_new NoncerCode.Salt128 (replicate 16 0) []\<rparr>"

definition ex_vrt :: RegistryRotation where
  "ex_vrt = \<lparr>vrt_said = ex_said 31, vrt_registry = ex_said 30, vrt_prior = ex_said 30, vrt_sn = Number_new 1,
     vrt_backer_threshold = 1, vrt_backer_cuts = [ex_witness 3], vrt_backer_additions = [ex_witness 4]\<rparr>"

definition ex_bis :: BackedIssueEvent where
  "ex_bis = \<lparr>bis_said = ex_said 41, bis_credential_said = ex_said 40, bis_registry_said = ex_said 30,
     bis_anchor = EventSeal (SelfAddressing (ex_said 30)) (Number_new 0) (ex_said 30), bis_datetime = []\<rparr>"

definition ex_brv :: BackedRevokeEvent where
  "ex_brv = \<lparr>brv_said = ex_said 42, brv_credential_said = ex_said 40, brv_prior = ex_said 41,
     brv_anchor = EventSeal (SelfAddressing (ex_said 30)) (Number_new 1) (ex_said 31), brv_datetime = []\<rparr>"

text \<open>A submission whose event an interaction of the issuer seals, receipted by one backer.\<close>

definition ex_tel :: "TelEvent \<Rightarrow> byte \<Rightarrow> SignedTel" where
  "ex_tel e n =
     with_host_accepted_anchor
       (with_backer_sigs (with_source (tel_from_host_asserted_parts e [] []) \<lparr>tc_sn = Number_new 1, tc_said = ex_said 11\<rparr>)
          [ex_sig 0 n])
       (Interaction (ex_ixn\<lparr>ixn_anchors := [EventSeal (SelfAddressing (tel_event_id e)) (tel_sn e) (tel_said e)]\<rparr>))"

definition ex_r0 :: RegistryState where
  "ex_r0 = registry_seed ex_vcp"

definition ex_r1 :: RegistryState where
  "ex_r1 = registry_rotated ex_r0 ex_vrt"

definition ex_c0 :: CredentialState where
  "ex_c0 = credential_seed ex_r0 (TelBackedIssue ex_bis)"

definition ex_c1 :: CredentialState where
  "ex_c1 = credential_revoked ex_c0 (TelBackedRevoke ex_brv)"

lemma ex_tel_event [simp]: "st_event (ex_tel e n) = e"
  by (simp add: ex_tel_def tel_from_host_asserted_parts_def with_source_def with_backer_sigs_def with_host_accepted_anchor_def)

lemma ex_tel_anchored: "tel_anchored (ex_tel e n) (SelfAddressing (ex_said 10)) (st_accepted_anchor (ex_tel e n))"
  by (simp add: tel_anchored_def ex_tel_def tel_from_host_asserted_parts_def with_source_def with_backer_sigs_def
      with_host_accepted_anchor_def from_host_accepted_event_def ex_ixn_def)

lemma ex_tel_backed: "backed_by ex_crypto (ex_tel e n) [ex_witness n] 1"
  by (simp add: backed_by_def ex_tel_def tel_from_host_asserted_parts_def with_source_def with_backer_sigs_def
      with_host_accepted_anchor_def ex_signers_witness)

lemma ex_prefix: "ks_prefix ex_s0 = SelfAddressing (ex_said 10)"
  by (simp add: ex_s0_def seed_def ex_icp_def)

lemma ex_witness_eq [simp]: "ex_witness m = ex_witness n \<longleftrightarrow> m = n"
  by (simp add: ex_witness_def Matter_new_def)

lemma ex_r0_sel:
  "rs_id ex_r0 = ex_said 30" "rs_issuer ex_r0 = SelfAddressing (ex_said 10)" "rs_config ex_r0 = []"
  "rs_backers ex_r0 = [ex_witness 3]" "rs_backer_threshold ex_r0 = 1" "rs_sn ex_r0 = Number_new 0"
  "rs_latest ex_r0 = ex_said 30"
  by (simp_all add: ex_r0_def registry_seed_def ex_vcp_def)

lemma ex_next_backers: "next_backers ex_r0 ex_vrt = [ex_witness 4]"
  by (simp add: next_backers_def ex_r0_sel ex_vrt_def updated_members_def)

lemma ex_r1_sel:
  "rs_id ex_r1 = ex_said 30" "rs_issuer ex_r1 = SelfAddressing (ex_said 10)" "rs_config ex_r1 = []"
  "rs_backers ex_r1 = [ex_witness 4]" "rs_backer_threshold ex_r1 = 1" "rs_sn ex_r1 = Number_new 1"
  "rs_latest ex_r1 = ex_said 31"
  by (simp_all add: ex_r1_def registry_rotated_def ex_r0_sel ex_next_backers) (simp_all add: ex_vrt_def)

lemma ex_registry_incept:
  "incept_with_evidence ex_crypto (ex_tel (TelRegistryInception ex_vcp) 3) (EvIssuer ex_s0 None) = Inr ex_r0"
proof -
  have i: "vcp_issuer ex_vcp = SelfAddressing (ex_said 10)" "vcp_backers ex_vcp = [ex_witness 3]"
    "vcp_backer_threshold ex_vcp = 1" "vcp_config ex_vcp = []"
    by (simp_all add: ex_vcp_def)
  have "vcp_ok ex_crypto (ex_tel (TelRegistryInception ex_vcp) 3) ex_vcp"
    unfolding vcp_ok_def i using ex_tel_anchored ex_tel_backed by (simp add: toad_law_def)
  then show ?thesis by (simp add: incept_with_evidence_Inr registry_incept_Inr ex_r0_def i ex_prefix)
qed

lemma ex_registry_rotate:
  "registry_ingest_mut ex_crypto ex_r0 (ex_tel (TelRegistryRotation ex_vrt) 4) (EvIssuer ex_s0 None) = (ex_r1, Inr ())"
proof -
  have "vrt_ok ex_crypto ex_r0 (ex_tel (TelRegistryRotation ex_vrt) 4) (EvIssuer ex_s0 None) ex_vrt"
    unfolding vrt_ok_def authenticate_issuer_Inr ex_next_backers ex_r0_sel
    using ex_tel_anchored ex_tel_backed[of _ 4]
    by (simp add: ex_prefix backer_deltas_ok_def ex_r0_sel) (simp add: ex_vrt_def toad_law_def)
  then show ?thesis by (simp add: registry_ingest_mut_Inr ex_r1_def)
qed

lemma ex_credential_issue:
  "credential_incept ex_crypto ex_r0 (ex_tel (TelBackedIssue ex_bis) 3) EvBacker = Inr ex_c0"
proof -
  have "tel_authorized ex_crypto ex_r0 (ex_tel (TelBackedIssue ex_bis) 3) EvBacker"
    using ex_tel_anchored ex_tel_backed[of _ 3]
    by (simp add: tel_authorized_def Let_def is_backerless_def ex_r0_sel resolved_backers_def)
       (simp add: ex_bis_def toad_law_def)
  then show ?thesis by (simp add: credential_incept_Inr ex_c0_def tel_registry_ok_def) (simp add: ex_bis_def ex_r0_sel)
qed

lemma ex_credential_revoke:
  "credential_ingest_mut ex_crypto ex_c0 ex_r1 (ex_tel (TelBackedRevoke ex_brv) 4) EvBacker = (ex_c1, Inr ())"
proof -
  have "tel_authorized ex_crypto ex_r1 (ex_tel (TelBackedRevoke ex_brv) 4) EvBacker"
    using ex_tel_anchored ex_tel_backed[of _ 4]
    by (simp add: tel_authorized_def Let_def is_backerless_def ex_r1_sel resolved_backers_def)
       (simp add: ex_brv_def toad_law_def)
  then have "revoke_ok ex_crypto ex_c0 ex_r1 (ex_tel (TelBackedRevoke ex_brv) 4) EvBacker"
    by (simp add: revoke_ok_def tel_registry_ok_def ex_c0_def credential_seed_def ex_r1_sel ex_r0_sel)
       (simp add: ex_bis_def ex_brv_def seal_names_registry_def)
  then show ?thesis by (simp add: credential_ingest_mut_Inr ex_c1_def)
qed

lemma ex_management_log:
  "management_log ex_crypto [TelRegistryInception ex_vcp, TelRegistryRotation ex_vrt] ex_r1"
  using management_log.rotated[OF management_log.opened[OF ex_registry_incept] ex_registry_rotate] by simp

lemma ex_credential_log: "credential_log ex_crypto [TelBackedIssue ex_bis, TelBackedRevoke ex_brv] ex_c1"
  using credential_log.moved[OF credential_log.issued[OF ex_credential_issue] ex_credential_revoke] by simp

lemma ex_revoked: "credential_status ex_c1 = RevokedStatus"
  by (simp add: credential_status_def ex_c1_def credential_revoked_def)

section \<open>Witnesses\<close>

theorem management_log_sound_witness:
  "management_replay [TelRegistryInception ex_vcp, TelRegistryRotation ex_vrt] = Some ex_r1 \<and>
   tel_chain [TelRegistryInception ex_vcp, TelRegistryRotation ex_vrt] \<and> registry_ok ex_r1"
  using management_log_sound[OF ex_management_log] by blast

theorem credential_lifecycle_witness: "credential_status ex_c1 = RevokedStatus \<and> cs_credential ex_c1 = ex_said 40"
  using credential_lifecycle[OF ex_credential_log] by (auto simp: ex_bis_def)

theorem revocation_is_final_witness:
  "\<exists>e. credential_ingest_mut ex_crypto ex_c1 ex_r1 (ex_tel (TelBackedRevoke ex_brv) 4) EvBacker = (ex_c1, Inl e)"
  by (rule revocation_is_final[OF ex_credential_log ex_revoked])

theorem credential_event_authorized_witness:
  "\<not> is_backerless ex_r0 \<and>
   tel_anchored (ex_tel (TelBackedIssue ex_bis) 3) (SelfAddressing (ex_said 10))
     (st_accepted_anchor (ex_tel (TelBackedIssue ex_bis) 3)) \<and>
   1 \<le> card (signers ex_crypto [ex_witness 3] [] (st_backer_sigs (ex_tel (TelBackedIssue ex_bis) 3)))"
proof -
  have b: "\<not> is_backerless ex_r0" by (simp add: is_backerless_def ex_r0_sel)
  have "st_signed_bytes (ex_tel (TelBackedIssue ex_bis) 3) = []"
    by (simp add: ex_tel_def tel_from_host_asserted_parts_def with_source_def with_backer_sigs_def with_host_accepted_anchor_def)
  then show ?thesis
    using credential_event_authorized[OF disjI1[OF ex_credential_issue]] b
    by (auto simp: Let_def governing_management_def sealing_event_def ex_r0_sel)
qed

theorem registry_rejection_keeps_state_witness:
  "fst (registry_ingest_mut ex_crypto ex_r1 (ex_tel (TelBackedRevoke ex_brv) 4) EvBacker) = ex_r1 \<and>
   fst (credential_ingest_mut ex_crypto ex_c0 ex_r1 (ex_tel (TelBackedIssue ex_bis) 4) EvBacker) = ex_c0"
proof -
  let ?st = "ex_tel (TelRegistryInception ex_vcp) 4"
  have a: "registry_ingest_mut ex_crypto ex_r1 ?st EvBacker = (ex_r1, Inl RegDuplicateInception)"
    by (simp add: registry_ingest_mut_def)
  have "validate_credential ex_crypto ex_c0 ex_r1 ?st EvBacker = Inl (RegStructural NotCredentialTransition)"
    by (simp add: validate_credential_def ex_c0_def credential_seed_def ex_r0_sel ex_r1_sel)
  then have b: "credential_ingest_mut ex_crypto ex_c0 ex_r1 ?st EvBacker =
      (ex_c0, Inl (RegStructural NotCredentialTransition))"
    by (simp add: credential_ingest_mut_def)
  have s: "fst (registry_ingest_mut ex_crypto ex_r1 (ex_tel (TelBackedRevoke ex_brv) 4) EvBacker) = ex_r1"
    by (simp add: registry_ingest_mut_def)
  have "validate_credential ex_crypto ex_c0 ex_r1 (ex_tel (TelBackedIssue ex_bis) 4) EvBacker =
      Inl (RegStructural NotCredentialTransition)"
    by (simp add: validate_credential_def ex_c0_def credential_seed_def ex_r0_sel ex_r1_sel)
  then show ?thesis
    using s registry_rejection_keeps_state[OF a b] by (simp add: credential_ingest_mut_def)
qed

end
