(* ===== verification/Keri_Credential.thy ===== *)
theory Keri_Credential
  imports Keri_Registry_Example
begin

text \<open>
  Credentials: the data of \<^verbatim>\<open>crates/keri-events/src/acdc.rs\<close> and the status judgment
  of \<^verbatim>\<open>crates/keri/src/credential.rs\<close>, which combines a credential with the states
  the registry and key-state folds computed.
\<close>

text \<open>A block is its verbatim JSON text.\<close>

type_synonym SadBlock = string

datatype AcdcField = SaidField Said | BlockField SadBlock

record Acdc =
  ac_said :: Said
  ac_nonce :: "Noncer option"
  ac_issuer :: Identifier
  ac_registry :: "AcdcField option"
  ac_schema :: AcdcField
  ac_attributes :: "AcdcField option"
  ac_aggregate_attributes :: "Digest option"
  ac_edges :: "AcdcField option"
  ac_rules :: "AcdcField option"

definition acdc_new_unchecked ::
    "Said \<Rightarrow> Noncer option \<Rightarrow> Identifier \<Rightarrow> AcdcField option \<Rightarrow> AcdcField \<Rightarrow> AcdcField option \<Rightarrow> Digest option \<Rightarrow>
       AcdcField option \<Rightarrow> AcdcField option \<Rightarrow> Acdc" where
  "acdc_new_unchecked said nonce issuer registry schema attributes aggregate_attributes edges rules =
     \<lparr>ac_said = said, ac_nonce = nonce, ac_issuer = issuer, ac_registry = registry, ac_schema = schema,
      ac_attributes = attributes, ac_aggregate_attributes = aggregate_attributes, ac_edges = edges, ac_rules = rules\<rparr>"

datatype CredentialError =
    MissingRegistry
  | MissingCredentialState
  | MissingIssuerState
  | MissingRegistryReference
  | RegistryMismatch
  | CredentialIssuerMismatch
  | IssuerStateMismatch
  | CredentialStateMismatch
  | Revoked

fun credential_disposition :: "CredentialError \<Rightarrow> Disposition" where
  "credential_disposition MissingRegistry = Awaiting RegistryStateEvidence"
| "credential_disposition MissingCredentialState = Awaiting EvidenceKind.CredentialTelState"
| "credential_disposition MissingIssuerState = Awaiting EvidenceKind.IssuerState"
| "credential_disposition MissingRegistryReference = Terminal"
| "credential_disposition RegistryMismatch = Terminal"
| "credential_disposition CredentialIssuerMismatch = Terminal"
| "credential_disposition IssuerStateMismatch = Terminal"
| "credential_disposition CredentialStateMismatch = Terminal"
| "credential_disposition Revoked = Terminal"

definition verify_status ::
    "Acdc \<Rightarrow> RegistryState option \<Rightarrow> CredentialState option \<Rightarrow> KeyState option \<Rightarrow> CredentialError + unit" where
  "verify_status credential registry credential_state issuer_state =
     res_bind (ok_or MissingRegistry registry) (\<lambda>reg.
     res_bind (ok_or MissingCredentialState credential_state) (\<lambda>state.
     res_bind (ok_or MissingIssuerState issuer_state) (\<lambda>issuer.
     case ac_registry credential of
       Some (SaidField registry_said) \<Rightarrow>
         (if registry_said \<noteq> rs_id reg then Inl RegistryMismatch
          else if ac_issuer credential \<noteq> rs_issuer reg then Inl CredentialIssuerMismatch
          else if ks_prefix issuer \<noteq> ac_issuer credential then Inl IssuerStateMismatch
          else if cs_registry state \<noteq> rs_id reg \<or> cs_credential state \<noteq> ac_said credential
            then Inl CredentialStateMismatch
          else if credential_status state = RevokedStatus then Inl Revoked
          else Inr ())
     | _ \<Rightarrow> Inl MissingRegistryReference)))"

section \<open>Properties\<close>

lemma verify_status_Inr:
  "verify_status credential registry credential_state issuer_state = Inr () \<longleftrightarrow>
     (\<exists>reg state issuer. registry = Some reg \<and> credential_state = Some state \<and> issuer_state = Some issuer \<and>
        ac_registry credential = Some (SaidField (rs_id reg)) \<and> ac_issuer credential = rs_issuer reg \<and>
        ks_prefix issuer = rs_issuer reg \<and> cs_registry state = rs_id reg \<and> cs_credential state = ac_said credential \<and>
        credential_status state \<noteq> RevokedStatus)"
  by (cases registry; cases credential_state; cases issuer_state; cases "ac_registry credential")
     (auto simp: verify_status_def split: AcdcField.splits)

text \<open>The registry an issue event files its credential under.\<close>

fun issue_registry :: "TelEvent \<Rightarrow> Said option" where
  "issue_registry (TelIssue iss) = Some (iss_registry_said iss)"
| "issue_registry (TelBackedIssue bis) = Some (bis_registry_said bis)"
| "issue_registry _ = None"

lemma issue_registry_ok: "is_issue e \<Longrightarrow> tel_registry_ok r e \<Longrightarrow> issue_registry e = Some (rs_id r)"
  by (cases e) (simp_all add: tel_registry_ok_def)

lemma credential_log_registry: "credential_log cr tel c \<Longrightarrow> tel \<noteq> [] \<and> issue_registry (hd tel) = Some (cs_registry c)"
proof (induction rule: credential_log.induct)
  case (issued r st evidence c)
  then show ?case by (simp add: credential_incept_Inr credential_seed_def issue_registry_ok)
next
  case (moved tel c r st evidence c')
  then show ?case by (auto simp: credential_ingest_mut_Inr credential_revoked_def)
qed

text \<open>
  C21: A credential is live only if it was issued under its registry and never
  revoked: when the judgment accepts a credential against states the folds
  computed from logs, its log is one issue event; that event names the
  credential, and the registry it is filed under is the one the credential names
  and the one the management log's inception opened; and the issuer the
  credential names is the issuer of that registry and of the key state.
\<close>

theorem live_credential_issued:
  assumes "verify_status credential (Some reg) (Some c) (Some issuer) = Inr ()"
    and "management_log cr mgmt reg" "credential_log cr tel c"
  shows "\<exists>iss. tel = [iss] \<and> is_issue iss \<and> tel_event_id iss = ac_said credential \<and>
    issue_registry iss = Some (tel_said (hd mgmt)) \<and> cs_registry c = rs_id reg \<and>
    ac_registry credential = Some (SaidField (tel_said (hd mgmt))) \<and>
    ac_issuer credential = rs_issuer reg \<and> ks_prefix issuer = rs_issuer reg"
proof -
  from assms(1) have v: "ac_registry credential = Some (SaidField (rs_id reg))" "ac_issuer credential = rs_issuer reg"
    "ks_prefix issuer = rs_issuer reg" "cs_credential c = ac_said credential" "credential_status c \<noteq> RevokedStatus"
    "cs_registry c = rs_id reg"
    by (auto simp: verify_status_Inr)
  from credential_log_shape[OF assms(3)] v(5) obtain iss where "tel = [iss]" "is_issue iss" "cs_credential c = tel_event_id iss"
    by (auto simp: credential_status_def)
  with v management_log_chain[OF assms(2)] credential_log_registry[OF assms(3)] show ?thesis by auto
qed

text \<open>
  Waiting for evidence never hides a contradiction that is already final: once
  every state is supplied, the verdict is acceptance or terminal, and it is a
  retryable one exactly when some state is absent.
\<close>

theorem credential_awaits_only_evidence:
  "(\<exists>e k. verify_status credential registry credential_state issuer_state = Inl e \<and> credential_disposition e = Awaiting k) \<longleftrightarrow>
     registry = None \<or> credential_state = None \<or> issuer_state = None"
  by (cases registry; cases credential_state; cases issuer_state; cases "ac_registry credential")
     (auto simp: verify_status_def split: AcdcField.splits if_splits)

definition ex_acdc :: Acdc where
  "ex_acdc = acdc_new_unchecked (ex_said 40) None (SelfAddressing (ex_said 10)) (Some (SaidField (ex_said 30)))
     (SaidField (ex_said 50)) None None None None"

theorem live_credential_issued_witness:
  "credential_log ex_crypto [TelBackedIssue ex_bis] ex_c0 \<and>
   issue_registry (TelBackedIssue ex_bis) = Some (ex_said 30) \<and> ac_issuer ex_acdc = rs_issuer ex_r1"
proof -
  have v: "verify_status ex_acdc (Some ex_r1) (Some ex_c0) (Some ex_s0) = Inr ()"
    by (simp add: verify_status_Inr ex_r1_sel ex_acdc_def acdc_new_unchecked_def ex_prefix ex_c0_def credential_seed_def
        ex_r0_sel credential_status_def) (simp add: ex_bis_def)
  have l: "credential_log ex_crypto [TelBackedIssue ex_bis] ex_c0"
    using credential_log.issued[OF ex_credential_issue] by simp
  show ?thesis using live_credential_issued[OF v ex_management_log l] l by (auto simp: ex_vcp_def)
qed

end
