(* ===== verification/Cesr_Keypair.thy ===== *)
theory Cesr_Keypair
  imports Cesr_Crypto Cesr_Typed_Codes
begin

text \<open>
  Key pairs and salts, \<^verbatim>\<open>crates/cesr/src/crypto/keypair.rs\<close> and \<^verbatim>\<open>salt.rs\<close>: a pair from
  a seed, plain and indexed signatures, and the deterministic derivation of a
  pair from a salt and a path. The curve crates and argon2 are the fields of the
  record \<^verbatim>\<open>keygen\<close>; random generation draws from the operating system and is not
  modelled.
\<close>

text \<open>
  The third-party functions: the Ed25519 public key and signature of a 32-byte
  seed; for each ECDSA curve the scalar a byte string denotes (its canonical 32
  bytes), its compressed public point and its r || s signature; argon2id of a
  path under a salt with a time and a memory cost, None where argon2 fails.
\<close>

record keygen =
  ed25519_public :: "bytes \<Rightarrow> bytes"
  ed25519_sign :: "bytes \<Rightarrow> bytes \<Rightarrow> bytes"
  k256_from_slice :: "bytes \<Rightarrow> bytes option"
  k256_public :: "bytes \<Rightarrow> bytes"
  k256_sign :: "bytes \<Rightarrow> bytes \<Rightarrow> bytes"
  p256_from_slice :: "bytes \<Rightarrow> bytes option"
  p256_public :: "bytes \<Rightarrow> bytes"
  p256_sign :: "bytes \<Rightarrow> bytes \<Rightarrow> bytes"
  argon2id :: "bytes \<Rightarrow> bytes \<Rightarrow> u32 \<Rightarrow> u32 \<Rightarrow> bytes option"

datatype KeyError =
    InvalidSeedLength nat nat
  | InvalidSeedBytes
  | InvalidSeedCode SeedCode SeedCode
  | KeyBuildFailed

datatype SaltError =
    InvalidLength nat
  | InvalidCode NoncerCode
  | SaltParse MatterBuildError
  | SaltValidation ValidationError
  | Stretch

type_synonym Signer = "SeedCode Matter"

primrec algo_seed_code :: "Algo \<Rightarrow> SeedCode" where
  "algo_seed_code AlgoEd25519 = SeedCode.Ed25519Seed"
| "algo_seed_code AlgoSecp256k1 = SeedCode.ECDSA256k1Seed"
| "algo_seed_code AlgoSecp256r1 = SeedCode.ECDSA256r1Seed"

primrec algo_verkey_code :: "Algo \<Rightarrow> VerKeyCode" where
  "algo_verkey_code AlgoEd25519 = VerKeyCode.Ed25519"
| "algo_verkey_code AlgoSecp256k1 = VerKeyCode.ECDSA256k1"
| "algo_verkey_code AlgoSecp256r1 = VerKeyCode.ECDSA256r1"

primrec algo_idx_both :: "Algo \<Rightarrow> IndexedSigCode" where
  "algo_idx_both AlgoEd25519 = IndexedSigCode.Ed25519"
| "algo_idx_both AlgoSecp256k1 = IndexedSigCode.ECDSA256k1"
| "algo_idx_both AlgoSecp256r1 = IndexedSigCode.ECDSA256r1"

primrec algo_idx_crt :: "Algo \<Rightarrow> IndexedSigCode" where
  "algo_idx_crt AlgoEd25519 = IndexedSigCode.Ed25519Crt"
| "algo_idx_crt AlgoSecp256k1 = IndexedSigCode.ECDSA256k1Crt"
| "algo_idx_crt AlgoSecp256r1 = IndexedSigCode.ECDSA256r1Crt"

section \<open>Key pairs\<close>

record KeyPair =
  kp_algo :: Algo
  kp_secret :: bytes
  kp_public :: bytes

text \<open>A primitive built from a code and raw bytes, the way every method here builds one.\<close>

definition built :: "('c \<Rightarrow> MatterCode) \<Rightarrow> 'c \<Rightarrow> bytes \<Rightarrow> 'e \<Rightarrow> 'e + 'c Matter" where
  "built mc c raw err =
     res_bind (map_err (\<lambda>_. err) (with_raw mc c raw)) (\<lambda>st. map_err (\<lambda>_. err) (build_raw mc st))"

definition kp_verfer :: "KeyPair \<Rightarrow> VerKeyCode \<Rightarrow> KeyError + Verfer" where
  "kp_verfer kp c = built VerKeyCode_to_matter_code c (kp_public kp) KeyBuildFailed"

definition kp_signer :: "KeyPair \<Rightarrow> KeyError + Signer" where
  "kp_signer kp = built SeedCode_to_matter_code (algo_seed_code (kp_algo kp)) (kp_secret kp) KeyBuildFailed"

definition kp_verify_siger :: "crypto \<Rightarrow> KeyPair \<Rightarrow> bytes \<Rightarrow> Siger \<Rightarrow> SignatureError + unit" where
  "kp_verify_siger cr kp data s =
     (if \<not> siger_belongs_to s (kp_algo kp) then Inl SignatureCodeMismatch
      else verify_bytes (kp_algo kp) cr (kp_public kp) data (ix_raw (sg_indexer s)))"

definition kp_verify_cigar :: "crypto \<Rightarrow> KeyPair \<Rightarrow> bytes \<Rightarrow> Cigar \<Rightarrow> SignatureError + unit" where
  "kp_verify_cigar cr kp data s =
     (if \<not> cigar_belongs_to s (kp_algo kp) then Inl SignatureCodeMismatch
      else verify_bytes (kp_algo kp) cr (kp_public kp) data (m_raw s))"

definition from_seed_bytes :: "keygen \<Rightarrow> bytes \<Rightarrow> KeyPair" where
  "from_seed_bytes kg seed = \<lparr>kp_algo = AlgoEd25519, kp_secret = seed, kp_public = ed25519_public kg seed\<rparr>"

definition from_seed_ed25519 :: "keygen \<Rightarrow> Signer \<Rightarrow> KeyError + KeyPair" where
  "from_seed_ed25519 kg seed =
     (if m_code seed \<noteq> SeedCode.Ed25519Seed then Inl (InvalidSeedCode SeedCode.Ed25519Seed (m_code seed))
      else if length (m_raw seed) \<noteq> 32 then Inl (InvalidSeedLength 32 (length (m_raw seed)))
      else Inr \<lparr>kp_algo = AlgoEd25519, kp_secret = m_raw seed, kp_public = ed25519_public kg (m_raw seed)\<rparr>)"

definition from_seed_secp256k1 :: "keygen \<Rightarrow> Signer \<Rightarrow> KeyError + KeyPair" where
  "from_seed_secp256k1 kg seed =
     (if m_code seed \<noteq> SeedCode.ECDSA256k1Seed then Inl (InvalidSeedCode SeedCode.ECDSA256k1Seed (m_code seed))
      else
      res_bind (ok_or InvalidSeedBytes (k256_from_slice kg (m_raw seed))) (\<lambda>signing_key.
      Inr \<lparr>kp_algo = AlgoSecp256k1, kp_secret = signing_key, kp_public = k256_public kg signing_key\<rparr>))"

definition from_seed_secp256r1 :: "keygen \<Rightarrow> Signer \<Rightarrow> KeyError + KeyPair" where
  "from_seed_secp256r1 kg seed =
     (if m_code seed \<noteq> SeedCode.ECDSA256r1Seed then Inl (InvalidSeedCode SeedCode.ECDSA256r1Seed (m_code seed))
      else
      res_bind (ok_or InvalidSeedBytes (p256_from_slice kg (m_raw seed))) (\<lambda>signing_key.
      Inr \<lparr>kp_algo = AlgoSecp256r1, kp_secret = signing_key, kp_public = p256_public kg signing_key\<rparr>))"

text \<open>The raw signature bytes of each curve.\<close>

definition sign_bytes_ed25519 :: "keygen \<Rightarrow> KeyPair \<Rightarrow> bytes \<Rightarrow> SignatureError + bytes" where
  "sign_bytes_ed25519 kg kp data =
     (if length (kp_secret kp) \<noteq> 32 then Inl SigningFailed else Inr (ed25519_sign kg (kp_secret kp) data))"

definition sign_bytes_secp256k1 :: "keygen \<Rightarrow> KeyPair \<Rightarrow> bytes \<Rightarrow> SignatureError + bytes" where
  "sign_bytes_secp256k1 kg kp data =
     res_bind (ok_or SigningFailed (k256_from_slice kg (kp_secret kp))) (\<lambda>signing_key.
     Inr (k256_sign kg signing_key data))"

definition sign_bytes_secp256r1 :: "keygen \<Rightarrow> KeyPair \<Rightarrow> bytes \<Rightarrow> SignatureError + bytes" where
  "sign_bytes_secp256r1 kg kp data =
     res_bind (ok_or SigningFailed (p256_from_slice kg (kp_secret kp))) (\<lambda>signing_key.
     Inr (p256_sign kg signing_key data))"

definition sign_bytes :: "keygen \<Rightarrow> KeyPair \<Rightarrow> bytes \<Rightarrow> SignatureError + bytes" where
  "sign_bytes kg kp data =
     (case kp_algo kp of
        AlgoEd25519 \<Rightarrow> sign_bytes_ed25519 kg kp data
      | AlgoSecp256k1 \<Rightarrow> sign_bytes_secp256k1 kg kp data
      | AlgoSecp256r1 \<Rightarrow> sign_bytes_secp256r1 kg kp data)"

definition kp_sign :: "keygen \<Rightarrow> KeyPair \<Rightarrow> bytes \<Rightarrow> SignatureError + Cigar" where
  "kp_sign kg kp data =
     res_bind (sign_bytes kg kp data) (\<lambda>sig.
     built SignatureCode_to_matter_code (algo_signature_code (kp_algo kp)) sig SigningFailed)"

definition kp_sign_indexed :: "keygen \<Rightarrow> KeyPair \<Rightarrow> bytes \<Rightarrow> u32 \<Rightarrow> IndexMode \<Rightarrow> SignatureError + Siger" where
  "kp_sign_indexed kg kp data index mode =
     (let small_code = (case mode of Both \<Rightarrow> algo_idx_both (kp_algo kp) | CurrentOnly \<Rightarrow> algo_idx_crt (kp_algo kp));
          c = for_index small_code index
      in
      res_bind (sign_bytes kg kp data) (\<lambda>sig_bytes.
      res_bind (map_err (\<lambda>_. SigningFailed) (Indexer_with_index c index)) (\<lambda>st.
      res_bind (map_err (\<lambda>_. SigningFailed) (Indexer_with_raw st sig_bytes)) (\<lambda>indexer.
      res_bind (built VerKeyCode_to_matter_code (algo_verkey_code (kp_algo kp)) (kp_public kp) SigningFailed) (\<lambda>verfer.
      Inr \<lparr>sg_indexer = indexer, sg_verfer = Some verfer\<rparr>)))))"

section \<open>Salts\<close>

datatype Tier = Low | Medium | High

primrec tier_costs :: "Tier \<Rightarrow> u32 \<times> u32" where
  "tier_costs Low = (2, 65536)"
| "tier_costs Medium = (3, 262144)"
| "tier_costs High = (4, 1048576)"

definition salt_from_raw :: "bytes \<Rightarrow> SaltError + bytes" where
  "salt_from_raw raw = (if length raw \<noteq> 16 then Inl (InvalidLength (length raw)) else Inr raw)"

definition salt_primitive :: "bytes \<Rightarrow> SaltError + NoncerCode Matter" where
  "salt_primitive salt =
     res_bind (map_err (\<lambda>e. SaltParse (Parsing e)) (with_raw NoncerCode_to_matter_code NoncerCode.Salt128 salt)) (\<lambda>st.
     map_err SaltParse (build_raw NoncerCode_to_matter_code st))"

definition stretch_with :: "keygen \<Rightarrow> bytes \<Rightarrow> string \<Rightarrow> u32 \<Rightarrow> u32 \<Rightarrow> SaltError + bytes" where
  "stretch_with kg salt path t_cost m_cost = ok_or Stretch (argon2id kg (str_bytes path) salt t_cost m_cost)"

definition stretch :: "keygen \<Rightarrow> bytes \<Rightarrow> string \<Rightarrow> Tier \<Rightarrow> SaltError + bytes" where
  "stretch kg salt path tier = (let (t_cost, m_cost) = tier_costs tier in stretch_with kg salt path t_cost m_cost)"

definition salt_key_pair :: "keygen \<Rightarrow> bytes \<Rightarrow> string \<Rightarrow> Tier \<Rightarrow> SaltError + KeyPair" where
  "salt_key_pair kg salt path tier = res_bind (stretch kg salt path tier) (\<lambda>seed. Inr (from_seed_bytes kg seed))"

section \<open>What the curve crates promise\<close>

definition ed25519_sound :: "keygen \<Rightarrow> crypto \<Rightarrow> bool" where
  "ed25519_sound kg cr \<longleftrightarrow>
     (\<forall>seed. length seed = 32 \<longrightarrow> length (ed25519_public kg seed) = 32 \<and> ed25519_key_ok cr (ed25519_public kg seed) \<and>
        (\<forall>data. length (ed25519_sign kg seed data) = 64 \<and>
           ed25519_verify_strict cr (ed25519_public kg seed) data (ed25519_sign kg seed data)))"

definition k256_sound :: "keygen \<Rightarrow> crypto \<Rightarrow> bool" where
  "k256_sound kg cr \<longleftrightarrow>
     (\<forall>b k. k256_from_slice kg b = Some k \<longrightarrow> length k = 32 \<and> k256_from_slice kg k = Some k \<and>
        length (k256_public kg k) = 33 \<and> k256_key_ok cr (k256_public kg k) \<and>
        (\<forall>data. length (k256_sign kg k data) = 64 \<and> k256_sig_ok cr (k256_sign kg k data) \<and>
           k256_verify cr (k256_public kg k) data (k256_sign kg k data)))"

definition p256_sound :: "keygen \<Rightarrow> crypto \<Rightarrow> bool" where
  "p256_sound kg cr \<longleftrightarrow>
     (\<forall>b k. p256_from_slice kg b = Some k \<longrightarrow> length k = 32 \<and> p256_from_slice kg k = Some k \<and>
        length (p256_public kg k) = 33 \<and> p256_key_ok cr (p256_public kg k) \<and>
        (\<forall>data. length (p256_sign kg k data) = 64 \<and> p256_sig_ok cr (p256_sign kg k data) \<and>
           p256_verify cr (p256_public kg k) data (p256_sign kg k data)))"

definition curves_sound :: "keygen \<Rightarrow> crypto \<Rightarrow> bool" where
  "curves_sound kg cr \<longleftrightarrow> ed25519_sound kg cr \<and> k256_sound kg cr \<and> p256_sound kg cr"

text \<open>A pair as every constructor leaves it.\<close>

definition kp_ok :: "keygen \<Rightarrow> KeyPair \<Rightarrow> bool" where
  "kp_ok kg kp \<longleftrightarrow>
     (case kp_algo kp of
        AlgoEd25519 \<Rightarrow> length (kp_secret kp) = 32 \<and> kp_public kp = ed25519_public kg (kp_secret kp)
      | AlgoSecp256k1 \<Rightarrow> k256_from_slice kg (kp_secret kp) = Some (kp_secret kp) \<and> kp_public kp = k256_public kg (kp_secret kp)
      | AlgoSecp256r1 \<Rightarrow> p256_from_slice kg (kp_secret kp) = Some (kp_secret kp) \<and> kp_public kp = p256_public kg (kp_secret kp))"

lemma from_seed_ok:
  assumes "curves_sound kg cr"
  shows "from_seed_ed25519 kg seed = Inr kp \<Longrightarrow> kp_ok kg kp"
    "from_seed_secp256k1 kg seed = Inr kp \<Longrightarrow> kp_ok kg kp"
    "from_seed_secp256r1 kg seed = Inr kp \<Longrightarrow> kp_ok kg kp"
    "length raw = 32 \<Longrightarrow> kp_ok kg (from_seed_bytes kg raw)"
  using assms
  by (auto simp: from_seed_ed25519_def from_seed_secp256k1_def from_seed_secp256r1_def from_seed_bytes_def kp_ok_def
      curves_sound_def k256_sound_def p256_sound_def split: if_splits)

primrec public_size :: "Algo \<Rightarrow> nat" where
  "public_size AlgoEd25519 = 32"
| "public_size AlgoSecp256k1 = 33"
| "public_size AlgoSecp256r1 = 33"

lemma sign_bytes_sound:
  assumes "curves_sound kg cr" "kp_ok kg kp"
  shows "\<exists>sg. sign_bytes kg kp data = Inr sg \<and> length sg = 64 \<and> length (kp_public kp) = public_size (kp_algo kp) \<and>
    verify_bytes (kp_algo kp) cr (kp_public kp) data sg = Inr ()"
  using assms
  by (auto simp: sign_bytes_def sign_bytes_ed25519_def sign_bytes_secp256k1_def sign_bytes_secp256r1_def kp_ok_def
      curves_sound_def ed25519_sound_def k256_sound_def p256_sound_def verify_ed25519_def verify_secp256k1_def
      verify_secp256r1_def split: Algo.splits)

lemma built_fixed:
  assumes "MatterCode_raw_size (mc c) = Inr (length raw)" "sz_ss (get_sizage (mc c)) = 0"
    and "\<exists>v. sz_fs (get_sizage (mc c)) = SizeType.Fixed v"
  shows "built mc c raw err = Inr (Matter_new c raw [])"
  using assms by (auto simp: built_def with_raw_def build_raw_def validate_and_trim_raw_def)

definition algo_verkey_codes :: "Algo \<Rightarrow> VerKeyCode set" where
  "algo_verkey_codes a =
     (case a of
        AlgoEd25519 \<Rightarrow> {VerKeyCode.Ed25519, VerKeyCode.Ed25519N}
      | AlgoSecp256k1 \<Rightarrow> {VerKeyCode.ECDSA256k1, VerKeyCode.ECDSA256k1N}
      | AlgoSecp256r1 \<Rightarrow> {VerKeyCode.ECDSA256r1, VerKeyCode.ECDSA256r1N})"

lemma built_verfer:
  assumes "c \<in> algo_verkey_codes a" "length raw = public_size a"
  shows "built VerKeyCode_to_matter_code c raw err = Inr (Matter_new c raw [])"
  by (rule built_fixed)
     (use assms in \<open>auto simp: algo_verkey_codes_def MatterCode_raw_size_def Sizage_new_def split: Algo.splits\<close>)

lemma built_cigar:
  assumes "length raw = 64"
  shows "built SignatureCode_to_matter_code (algo_signature_code a) raw err = Inr (Matter_new (algo_signature_code a) raw [])"
  by (cases a; rule built_fixed) (use assms in \<open>auto simp: MatterCode_raw_size_def Sizage_new_def\<close>)

text \<open>The indexed code a mode and an index select.\<close>

definition indexed_code :: "Algo \<Rightarrow> u32 \<Rightarrow> IndexMode \<Rightarrow> IndexedSigCode" where
  "indexed_code a index mode =
     for_index (case mode of Both \<Rightarrow> algo_idx_both a | CurrentOnly \<Rightarrow> algo_idx_crt a) index"

lemma small_max_index: "max_index (algo_idx_both a) = 63" "max_index (algo_idx_crt a) = 63"
  by (cases a; simp add: max_index_def get_xizage_def Xizage_new_def)+

lemma indexed_code_eq:
  "indexed_code a i mode =
     (if i \<le> 63 then (case mode of Both \<Rightarrow> algo_idx_both a | CurrentOnly \<Rightarrow> algo_idx_crt a)
      else algo_indexed_codes a ! (case mode of Both \<Rightarrow> 2 | CurrentOnly \<Rightarrow> 3))"
  by (cases mode; simp add: indexed_code_def for_index_def small_max_index;
      cases a; simp add: is_big_def numeral_nat)

lemma indexed_code_props:
  "IndexedSigCode_mode (indexed_code a i mode) = mode" "owns_indexed a (indexed_code a i mode)"
  "IndexedSigCode_raw_size (indexed_code a i mode) = 64"
  unfolding indexed_code_eq
  by (cases a; cases mode; simp add: IndexedSigCode_mode_def owns_indexed_def IndexedSigCode_raw_size_def numeral_nat)+

lemma indexed_code_max: "max_index (indexed_code a i mode) = (if i \<le> 63 then 63 else 4095)"
proof -
  have "max_index (algo_indexed_codes a ! 2) = 4095" "max_index (algo_indexed_codes a ! 3) = 4095"
    by (cases a; simp add: max_index_def get_xizage_def Xizage_new_def numeral_nat)+
  then show ?thesis unfolding indexed_code_eq by (cases mode) (simp_all add: small_max_index)
qed

lemma indexed_code_fits: "max_index (indexed_code a i mode) < i \<longleftrightarrow> \<not> i \<le> 4095"
proof -
  have "i \<le> 63 \<Longrightarrow> i \<le> (4095::u32)" by (simp add: word_le_nat_alt)
  then show ?thesis by (auto simp: indexed_code_max not_le)
qed

lemma kp_sign_indexed_Inr:
  assumes "curves_sound kg cr" "kp_ok kg kp"
  shows "kp_sign_indexed kg kp data i mode = Inr s \<longleftrightarrow>
    i \<le> 4095 \<and> (\<exists>sg. sign_bytes kg kp data = Inr sg \<and>
      s = \<lparr>sg_indexer = Indexer_new (indexed_code (kp_algo kp) i mode) i (case mode of Both \<Rightarrow> Some i | CurrentOnly \<Rightarrow> None) sg,
           sg_verfer = Some (Matter_new (algo_verkey_code (kp_algo kp)) (kp_public kp) [])\<rparr>)"
proof -
  from sign_bytes_sound[OF assms] obtain sg where sg: "sign_bytes kg kp data = Inr sg" "length sg = 64"
    "length (kp_public kp) = public_size (kp_algo kp)" by blast
  have "algo_verkey_code (kp_algo kp) \<in> algo_verkey_codes (kp_algo kp)"
    by (cases "kp_algo kp") (simp_all add: algo_verkey_codes_def)
  note v = built_verfer[OF this sg(3)]
  show ?thesis
    unfolding kp_sign_indexed_def Let_def indexed_code_def[symmetric] sg(1) v
    by (auto simp: Indexer_with_index_def Indexer_with_raw_def indexed_code_props indexed_code_fits sg(2) Let_def)
qed

lemma verify_of_algo:
  assumes "m_code vk \<in> algo_verkey_codes a" "belongs_to a"
  shows "verify cr vk data raw belongs_to = map_err SignatureFailure (verify_bytes a cr (m_raw vk) data raw)"
  using assms by (cases a) (auto simp: algo_verkey_codes_def verify_def verify_as_def Let_def)

section \<open>Signing and verifying\<close>

lemma kp_verfer_Inr:
  assumes "curves_sound kg cr" "kp_ok kg kp" "c \<in> algo_verkey_codes (kp_algo kp)"
  shows "kp_verfer kp c = Inr (Matter_new c (kp_public kp) [])"
  using sign_bytes_sound[OF assms(1,2)] by (auto simp: kp_verfer_def intro: built_verfer[OF assms(3)])

lemma kp_sign_indexed_verifies:
  assumes "curves_sound kg cr" "kp_ok kg kp" "c \<in> algo_verkey_codes (kp_algo kp)"
    and "kp_sign_indexed kg kp data i mode = Inr s"
  shows "verify_siger cr (Matter_new c (kp_public kp) []) data s = Inr () \<and> ix_index (sg_indexer s) = i \<and>
    ix_ondex (sg_indexer s) = (case mode of Both \<Rightarrow> Some i | CurrentOnly \<Rightarrow> None)"
proof -
  from assms(4) obtain sg where sg: "sign_bytes kg kp data = Inr sg"
    and s: "sg_indexer s = Indexer_new (indexed_code (kp_algo kp) i mode) i (case mode of Both \<Rightarrow> Some i | CurrentOnly \<Rightarrow> None) sg"
    unfolding kp_sign_indexed_Inr[OF assms(1,2)] by auto
  have v: "verify_bytes (kp_algo kp) cr (kp_public kp) data sg = Inr ()"
    using sign_bytes_sound[OF assms(1,2), of data] sg by simp
  have b: "siger_belongs_to s (kp_algo kp)" by (simp add: siger_belongs_to_def s Indexer_new_def indexed_code_props)
  have "m_code (Matter_new c (kp_public kp) []) \<in> algo_verkey_codes (kp_algo kp)" using assms(3) by (simp add: Matter_new_def)
  from verify_of_algo[of _ _ "siger_belongs_to s", OF this b] v
  show ?thesis by (simp add: verify_siger_def s Indexer_new_def Matter_new_def)
qed

lemma kp_sign_verifies:
  assumes "curves_sound kg cr" "kp_ok kg kp" "c \<in> algo_verkey_codes (kp_algo kp)"
  shows "\<exists>s. kp_sign kg kp data = Inr s \<and> verify_cigar cr (Matter_new c (kp_public kp) []) data s = Inr ()"
proof -
  from sign_bytes_sound[OF assms(1,2)] obtain sg where sg: "sign_bytes kg kp data = Inr sg" "length sg = 64"
    "verify_bytes (kp_algo kp) cr (kp_public kp) data sg = Inr ()" by blast
  let ?s = "Matter_new (algo_signature_code (kp_algo kp)) sg []"
  have "kp_sign kg kp data = Inr ?s" by (simp add: kp_sign_def sg(1) built_cigar[OF sg(2)])
  moreover have "m_code (Matter_new c (kp_public kp) []) \<in> algo_verkey_codes (kp_algo kp)" "cigar_belongs_to ?s (kp_algo kp)"
    using assms(3) by (simp_all add: Matter_new_def cigar_belongs_to_def)
  from verify_of_algo[of _ _ "cigar_belongs_to ?s", OF this] sg(3)
  have "verify_cigar cr (Matter_new c (kp_public kp) []) data ?s = Inr ()"
    by (simp add: verify_cigar_def Matter_new_def)
  ultimately show ?thesis by blast
qed

text \<open>
  What a key pair signs verifies under its verification key, in the transferable
  and the non-transferable code: the plain signature always exists and verifies;
  the indexed signature exists exactly for an index of at most 4095, and it
  verifies and carries that index.
\<close>

theorem sign_then_verify:
  assumes "curves_sound kg cr" "kp_ok kg kp" "c \<in> algo_verkey_codes (kp_algo kp)"
  shows "\<exists>vk. kp_verfer kp c = Inr vk \<and>
    (\<exists>s. kp_sign kg kp data = Inr s \<and> verify_cigar cr vk data s = Inr ()) \<and>
    (is_ok (kp_sign_indexed kg kp data i mode) \<longleftrightarrow> i \<le> 4095) \<and>
    (\<forall>s. kp_sign_indexed kg kp data i mode = Inr s \<longrightarrow>
       verify_siger cr vk data s = Inr () \<and> ix_index (sg_indexer s) = i)"
proof (intro exI[of _ "Matter_new c (kp_public kp) []"] conjI allI impI)
  show "is_ok (kp_sign_indexed kg kp data i mode) \<longleftrightarrow> i \<le> 4095"
    using sign_bytes_sound[OF assms(1,2), of data] by (auto simp: is_ok_iff kp_sign_indexed_Inr[OF assms(1,2)])
qed (use kp_verfer_Inr[OF assms] kp_sign_verifies[OF assms] kp_sign_indexed_verifies[OF assms] in blast)+

text \<open>A toy scheme in which a signature repeats the first byte of its key.\<close>

definition ex_keygen :: keygen where
  "ex_keygen = \<lparr>
     ed25519_public = (\<lambda>seed. seed), ed25519_sign = (\<lambda>seed data. replicate 64 (hd seed)),
     k256_from_slice = (\<lambda>b. None), k256_public = (\<lambda>k. k), k256_sign = (\<lambda>k data. k),
     p256_from_slice = (\<lambda>b. None), p256_public = (\<lambda>k. k), p256_sign = (\<lambda>k data. k),
     argon2id = (\<lambda>path salt t m. Some (replicate 32 (word_of_nat (length path) + hd salt)))\<rparr>"

definition ex_verifier :: crypto where
  "ex_verifier = \<lparr>
     ed25519_key_ok = (\<lambda>key. True), ed25519_verify_strict = (\<lambda>key data sg. sg = replicate 64 (hd key)),
     k256_key_ok = (\<lambda>key. False), k256_sig_ok = (\<lambda>sg. False), k256_verify = (\<lambda>key data sg. False),
     p256_key_ok = (\<lambda>key. False), p256_sig_ok = (\<lambda>sg. False), p256_verify = (\<lambda>key data sg. False),
     raw_digest = (\<lambda>c data. replicate (digest_size c) 7),
     b64_encode = qb2_chars\<rparr>"

lemma ex_curves_sound: "curves_sound ex_keygen ex_verifier"
  by (simp add: curves_sound_def ed25519_sound_def k256_sound_def p256_sound_def ex_keygen_def ex_verifier_def)

theorem sign_then_verify_witness:
  "\<exists>vk s. kp_verfer (from_seed_bytes ex_keygen (replicate 32 5)) VerKeyCode.Ed25519N = Inr vk \<and>
     kp_sign_indexed ex_keygen (from_seed_bytes ex_keygen (replicate 32 5)) [1, 2] 70 Both = Inr s \<and>
     verify_siger ex_verifier vk [1, 2] s = Inr () \<and> ix_index (sg_indexer s) = 70"
proof -
  have "kp_ok ex_keygen (from_seed_bytes ex_keygen (replicate 32 5))"
    by (simp add: from_seed_ok(4)[OF ex_curves_sound])
  moreover have "VerKeyCode.Ed25519N \<in> algo_verkey_codes (kp_algo (from_seed_bytes ex_keygen (replicate 32 5)))"
    by (simp add: from_seed_bytes_def algo_verkey_codes_def)
  ultimately show ?thesis
    using sign_then_verify[OF ex_curves_sound, of "from_seed_bytes ex_keygen (replicate 32 5)" VerKeyCode.Ed25519N "[1, 2]" 70 Both]
    by (auto simp: is_ok_iff)
qed

end
