(* ===== verification/Keri_Custody.thy ===== *)
theory Keri_Custody
  imports Keri_Kel_Safety Cesr_Keypair
begin

text \<open>
  Key custody, \<^verbatim>\<open>crates/keri/src/custody.rs\<close>: the deterministic custodian that
  derives every key from a root salt and a path, its bookkeeping of key indices
  across rotations, and what it signs. Counts are \<^verbatim>\<open>usize\<close>, indices \<^verbatim>\<open>u64\<close>.
\<close>

record KeySpec =
  kp_count :: nat
  kp_ncount :: nat
  kp_transferable :: bool

record KeyCommitment =
  kc_verkeys :: "VerifyingKey list"
  kc_next_digests :: "Digest list"

datatype CustodyError =
    AlreadyIncepted
  | NotIncepted
  | EmptyCurrentKeys
  | NonTransferableNextKeys nat
  | NotRotatable
  | RotationCountMismatch nat nat
  | IndicesLengthMismatch nat nat
  | IndexOverflow
  | CustodySalt SaltError
  | CustodyKey KeyError
  | CustodySignature SignatureError
  | CustodyDigest DigestError

datatype PathConvention = Keripy | Signify | Custom string

record SaltyCustodian =
  sc_salt :: bytes
  sc_tier :: Tier
  sc_convention :: PathConvention
  sc_pidx :: u64
  sc_ridx :: u64
  sc_kidx :: u64
  sc_count :: nat
  sc_ncount :: nat
  sc_transferable :: bool
  sc_incepted :: bool

definition custodian_new :: "bytes \<Rightarrow> Tier \<Rightarrow> PathConvention \<Rightarrow> SaltyCustodian" where
  "custodian_new salt tier convention =
     \<lparr>sc_salt = salt, sc_tier = tier, sc_convention = convention, sc_pidx = 0, sc_ridx = 0, sc_kidx = 0,
      sc_count = 0, sc_ncount = 0, sc_transferable = True, sc_incepted = False\<rparr>"

section \<open>Paths\<close>

text \<open>The format \<^verbatim>\<open>{:x}\<close>: lowercase hex without leading zeros.\<close>

definition hex_char :: "nat \<Rightarrow> char" where
  "hex_char n = ''0123456789abcdef'' ! n"

fun lower_hex :: "nat \<Rightarrow> string" where
  "lower_hex n = (if n < 16 then [hex_char n] else lower_hex (n div 16) @ [hex_char (n mod 16)])"

declare lower_hex.simps [simp del]

definition path_stem :: "SaltyCustodian \<Rightarrow> string" where
  "path_stem c =
     (case sc_convention c of
        Keripy \<Rightarrow> lower_hex (unat (sc_pidx c))
      | Signify \<Rightarrow> ''signify:aid''
      | Custom stem \<Rightarrow> stem)"

definition derivation_path :: "SaltyCustodian \<Rightarrow> u64 \<Rightarrow> u64 \<Rightarrow> string" where
  "derivation_path c ridx kidx = path_stem c @ lower_hex (unat ridx) @ lower_hex (unat kidx)"

section \<open>Operations\<close>

definition u64_try_from :: "nat \<Rightarrow> CustodyError + u64" where
  "u64_try_from n = (if n < 2 ^ 64 then Inr (word_of_nat n) else Inl IndexOverflow)"

definition u32_try_from :: "nat \<Rightarrow> CustodyError + u32" where
  "u32_try_from n = (if n < 2 ^ 32 then Inr (word_of_nat n) else Inl IndexOverflow)"

definition key_pair_at :: "keygen \<Rightarrow> SaltyCustodian \<Rightarrow> u64 \<Rightarrow> u64 \<Rightarrow> nat \<Rightarrow> CustodyError + KeyPair" where
  "key_pair_at kg c ridx kidx i =
     res_bind (u64_try_from i) (\<lambda>offset.
     res_bind (ok_or IndexOverflow (checked_add kidx offset)) (\<lambda>key_index.
     map_err CustodySalt (salt_key_pair kg (sc_salt c) (derivation_path c ridx key_index) (sc_tier c))))"

definition derive_set ::
    "keygen \<Rightarrow> SaltyCustodian \<Rightarrow> u64 \<Rightarrow> u64 \<Rightarrow> nat \<Rightarrow> VerKeyCode \<Rightarrow> CustodyError + VerifyingKey list" where
  "derive_set kg c ridx kidx count code =
     traverse (\<lambda>i.
       res_bind (key_pair_at kg c ridx kidx i) (\<lambda>kp.
       map_err CustodyKey (kp_verfer kp code))) [0..<count]"

text \<open>
  Writing a key that was just built does not panic; for a key no builder makes,
  where the source would panic, the result here is a failed digest.
\<close>

definition commit_set :: "crypto \<Rightarrow> VerifyingKey list \<Rightarrow> CustodyError + Digest list" where
  "commit_set cr verkeys =
     traverse (\<lambda>vk.
       res_bind (ok_or (CustodyDigest BuildFailed) (to_qb64b (b64_encode cr) VerKeyCode_to_matter_code vk)) (\<lambda>qb64.
       map_err CustodyDigest (diger_digest cr DigestCode.Blake3_256 qb64))) verkeys"

definition rung_up :: "u64 \<Rightarrow> u64 \<Rightarrow> nat \<Rightarrow> CustodyError + (u64 \<times> u64)" where
  "rung_up ridx kidx count =
     res_bind (u64_try_from count) (\<lambda>count64.
     res_bind (ok_or IndexOverflow (checked_add ridx 1)) (\<lambda>up_r.
     res_bind (ok_or IndexOverflow (checked_add kidx count64)) (\<lambda>up_k.
     Inr (up_r, up_k))))"

text \<open>The two key sets of an establishment: the current one, and the digests of the one a rung up.\<close>

definition establish ::
    "keygen \<Rightarrow> crypto \<Rightarrow> SaltyCustodian \<Rightarrow> u64 \<Rightarrow> u64 \<Rightarrow> KeySpec \<Rightarrow> VerKeyCode \<Rightarrow> CustodyError + KeyCommitment" where
  "establish kg cr c ridx kidx spec code =
     res_bind (derive_set kg c ridx kidx (kp_count spec) code) (\<lambda>verkeys.
     res_bind (rung_up ridx kidx (kp_count spec)) (\<lambda>(up_r, up_k).
     res_bind (derive_set kg c up_r up_k (kp_ncount spec) VerKeyCode.Ed25519) (\<lambda>next.
     res_bind (commit_set cr next) (\<lambda>next_digests.
     Inr \<lparr>kc_verkeys = verkeys, kc_next_digests = next_digests\<rparr>))))"

definition custodian_incept ::
    "keygen \<Rightarrow> crypto \<Rightarrow> SaltyCustodian \<Rightarrow> KeySpec \<Rightarrow> SaltyCustodian \<times> (CustodyError + KeyCommitment)" where
  "custodian_incept kg cr c spec =
     (if sc_incepted c then (c, Inl AlreadyIncepted)
      else if kp_count spec = 0 then (c, Inl EmptyCurrentKeys)
      else if \<not> kp_transferable spec \<and> kp_ncount spec \<noteq> 0 then (c, Inl (NonTransferableNextKeys (kp_ncount spec)))
      else
        let code = (if kp_transferable spec then VerKeyCode.Ed25519 else VerKeyCode.Ed25519N) in
        case establish kg cr c (sc_ridx c) (sc_kidx c) spec code of
          Inl e \<Rightarrow> (c, Inl e)
        | Inr commitment \<Rightarrow>
            (c\<lparr>sc_count := kp_count spec, sc_ncount := kp_ncount spec,
               sc_transferable := kp_transferable spec, sc_incepted := True\<rparr>, Inr commitment))"

definition custodian_rotate ::
    "keygen \<Rightarrow> crypto \<Rightarrow> SaltyCustodian \<Rightarrow> KeySpec \<Rightarrow> SaltyCustodian \<times> (CustodyError + KeyCommitment)" where
  "custodian_rotate kg cr c spec =
     (if \<not> sc_incepted c then (c, Inl NotIncepted)
      else if \<not> sc_transferable c \<or> sc_ncount c = 0 then (c, Inl NotRotatable)
      else if kp_count spec \<noteq> sc_ncount c then (c, Inl (RotationCountMismatch (sc_ncount c) (kp_count spec)))
      else
        case rung_up (sc_ridx c) (sc_kidx c) (sc_count c) of
          Inl e \<Rightarrow> (c, Inl e)
        | Inr (cur_r, cur_k) \<Rightarrow>
            (case establish kg cr c cur_r cur_k spec VerKeyCode.Ed25519 of
               Inl e \<Rightarrow> (c, Inl e)
             | Inr commitment \<Rightarrow>
                 (c\<lparr>sc_ridx := cur_r, sc_kidx := cur_k, sc_count := kp_count spec, sc_ncount := kp_ncount spec\<rparr>,
                  Inr commitment)))"

definition custodian_sign ::
    "keygen \<Rightarrow> SaltyCustodian \<Rightarrow> bytes \<Rightarrow> u32 list option \<Rightarrow> CustodyError + Siger list" where
  "custodian_sign kg c ser indices =
     (if \<not> sc_incepted c then Inl NotIncepted
      else case indices of
        Some idx \<Rightarrow>
          (if length idx \<noteq> sc_count c then Inl (IndicesLengthMismatch (sc_count c) (length idx))
           else traverse (\<lambda>i.
             res_bind (key_pair_at kg c (sc_ridx c) (sc_kidx c) i) (\<lambda>kp.
             map_err CustodySignature (kp_sign_indexed kg kp ser (idx ! i) Both))) [0..<sc_count c])
      | None \<Rightarrow>
          traverse (\<lambda>i.
            res_bind (key_pair_at kg c (sc_ridx c) (sc_kidx c) i) (\<lambda>kp.
            res_bind (u32_try_from i) (\<lambda>index.
            map_err CustodySignature (kp_sign_indexed kg kp ser index Both)))) [0..<sc_count c])"

section \<open>Persistence\<close>

record SaltyParams =
  sp_convention :: PathConvention
  sp_tier :: Tier
  sp_pidx :: u64
  sp_ridx :: u64
  sp_kidx :: u64
  sp_count :: nat
  sp_ncount :: nat
  sp_transferable :: bool
  sp_incepted :: bool

definition custodian_params :: "SaltyCustodian \<Rightarrow> SaltyParams" where
  "custodian_params c =
     \<lparr>sp_convention = sc_convention c, sp_tier = sc_tier c, sp_pidx = sc_pidx c, sp_ridx = sc_ridx c,
      sp_kidx = sc_kidx c, sp_count = sc_count c, sp_ncount = sc_ncount c,
      sp_transferable = sc_transferable c, sp_incepted = sc_incepted c\<rparr>"

definition resume :: "bytes \<Rightarrow> SaltyParams \<Rightarrow> SaltyCustodian" where
  "resume salt params =
     \<lparr>sc_salt = salt, sc_tier = sp_tier params, sc_convention = sp_convention params, sc_pidx = sp_pidx params,
      sc_ridx = sp_ridx params, sc_kidx = sp_kidx params, sc_count = sp_count params, sc_ncount = sp_ncount params,
      sc_transferable = sp_transferable params, sc_incepted = sp_incepted params\<rparr>"

lemma resume_params [simp]: "resume (sc_salt c) (custodian_params c) = c"
  by (simp add: resume_def custodian_params_def)

section \<open>Hex\<close>

lemma lower_hex_Nil [simp]: "lower_hex n \<noteq> []"
  by (subst lower_hex.simps) simp

lemma hex_char_inj: "m < 16 \<Longrightarrow> n < 16 \<Longrightarrow> hex_char m = hex_char n \<Longrightarrow> m = n"
proof -
  have "distinct ''0123456789abcdef''" "length ''0123456789abcdef'' = 16" by simp_all
  then show "m < 16 \<Longrightarrow> n < 16 \<Longrightarrow> hex_char m = hex_char n \<Longrightarrow> m = n"
    unfolding hex_char_def by (metis nth_eq_iff_index_eq)
qed

lemma lower_hex_small: "length (lower_hex n) = 1 \<longleftrightarrow> n < 16"
  by (subst lower_hex.simps) simp

lemma lower_hex_inj: "lower_hex m = lower_hex n \<Longrightarrow> m = n"
proof (induction m arbitrary: n rule: less_induct)
  case (less m)
  have l: "m < 16 \<longleftrightarrow> n < 16" using less.prems lower_hex_small by metis
  show ?case
  proof (cases "m < 16")
    case True
    then show ?thesis using l less.prems by (simp add: lower_hex.simps[of m] lower_hex.simps[of n] hex_char_inj)
  next
    case False
    then have "lower_hex (m div 16) = lower_hex (n div 16)" "hex_char (m mod 16) = hex_char (n mod 16)"
      using l less.prems by (simp_all add: lower_hex.simps[of m] lower_hex.simps[of n])
    then have "m div 16 = n div 16" "m mod 16 = n mod 16"
      using less.IH[of "m div 16"] False hex_char_inj by simp_all
    then show ?thesis by (metis div_mult_mod_eq)
  qed
qed

lemma lower_hex_mono: "m \<le> n \<Longrightarrow> length (lower_hex m) \<le> length (lower_hex n)"
proof (induction n arbitrary: m rule: less_induct)
  case (less n)
  show ?case
  proof (cases "m < 16")
    case True
    then show ?thesis by (cases "lower_hex n") (simp_all add: lower_hex.simps[of m] Suc_le_eq)
  next
    case False
    then have "length (lower_hex (m div 16)) \<le> length (lower_hex (n div 16))"
      using less.prems less.IH[of "n div 16" "m div 16"] by (simp add: div_le_mono)
    then show ?thesis using False less.prems by (simp add: lower_hex.simps[of m] lower_hex.simps[of n])
  qed
qed

text \<open>Two concatenated numbers can be read back when neither pair grows in one number and shrinks in the other.\<close>

lemma hex_pair_inj:
  assumes "lower_hex r @ lower_hex k = lower_hex r' @ lower_hex k'" "r \<le> r'" "k \<le> k'"
  shows "r = r' \<and> k = k'"
proof -
  have "length (lower_hex r) + length (lower_hex k) = length (lower_hex r') + length (lower_hex k')"
    using arg_cong[OF assms(1), of length] by simp
  then have "length (lower_hex r) = length (lower_hex r')"
    using lower_hex_mono[OF assms(2)] lower_hex_mono[OF assms(3)] by linarith
  then show ?thesis using assms(1) lower_hex_inj by (metis append_eq_append_conv)
qed

end
