(* ===== verification/Keri_Custody_Props.thy ===== *)
theory Keri_Custody_Props
  imports Keri_Custody Keri_Example
begin

text \<open>
  What custody guarantees: no key is derived twice in the life of a custodian,
  what it signs verifies under the keys it exposed, and every rotation opens
  the commitment made before it, so that the key-state fold accepts it.
\<close>

section \<open>Key indices\<close>

lemma u64_less: "unat (w :: u64) < 2 ^ 64"
proof -
  have "unat w < 2 ^ LENGTH(64)" by (rule unsigned_less)
  then show ?thesis by simp
qed

lemma u32_less: "unat (w :: u32) < 2 ^ 32"
proof -
  have "unat w < 2 ^ LENGTH(32)" by (rule unsigned_less)
  then show ?thesis by simp
qed

lemma u64_of_nat: "n < 2 ^ 64 \<Longrightarrow> unat (word_of_nat n :: u64) = n"
  by (rule of_nat_inverse) simp_all

lemma u32_of_nat: "n < 2 ^ 32 \<Longrightarrow> unat (word_of_nat n :: u32) = n"
  by (rule of_nat_inverse) simp_all

lemma u64_try_from_Inr: "u64_try_from n = Inr w \<longleftrightarrow> unat w = n"
  using u64_less[of w] by (auto simp: u64_try_from_def u64_of_nat simp del: unsigned_of_nat)

lemma u32_try_from_Inr: "u32_try_from n = Inr w \<longleftrightarrow> unat w = n"
  using u32_less[of w] by (auto simp: u32_try_from_def u32_of_nat simp del: unsigned_of_nat)

lemma rung_up_Inr: "rung_up r k n = Inr (r', k') \<longleftrightarrow> unat r' = unat r + 1 \<and> unat k' = unat k + n"
proof -
  have "n < 2 ^ 64" if "unat k' = unat k + n" using u64_less[of k'] that by simp
  then show ?thesis by (auto simp: rung_up_def u64_try_from_Inr checked_add_Some u64_of_nat intro!: exI[of _ "word_of_nat n"] simp del: unsigned_of_nat)
qed

text \<open>The key at position i of the set at (r, k): its seed and its path exist together.\<close>

definition key_index :: "u64 \<Rightarrow> nat \<Rightarrow> u64" where
  "key_index k i = k + word_of_nat i"

lemma key_pair_at_Inr:
  "key_pair_at kg c r k i = Inr kp \<longleftrightarrow>
     unat k + i < 2 ^ 64 \<and> salt_key_pair kg (sc_salt c) (derivation_path c r (key_index k i)) (sc_tier c) = Inr kp"
proof -
  have "checked_add k w = Some (key_index k i)" "unat k + i < 2 ^ 64" if "unat w = i" "checked_add k w = Some k'" for w k'
    using that u64_less[of k'] by (auto simp: key_index_def checked_add_def split: if_splits)
  moreover have "checked_add k (word_of_nat i) = Some (key_index k i)" "unat (word_of_nat i :: u64) = i" if "unat k + i < 2 ^ 64"
    using that by (simp_all add: key_index_def checked_add_def u64_of_nat del: unsigned_of_nat)
  ultimately show ?thesis
    unfolding key_pair_at_def by (auto simp: u64_try_from_Inr simp del: unsigned_of_nat)
qed

lemma key_index_unat: "unat k + i < 2 ^ 64 \<Longrightarrow> unat (key_index k i) = unat k + i"
  by (simp add: key_index_def unat_word_ariths u64_of_nat del: unsigned_of_nat)

section \<open>Derived keys\<close>

text \<open>argon2id fills the 32-byte seed it is given.\<close>

definition seeds_sound :: "keygen \<Rightarrow> bool" where
  "seeds_sound kg \<longleftrightarrow> (\<forall>path salt t m seed. argon2id kg path salt t m = Some seed \<longrightarrow> length seed = 32)"

lemma salt_key_pair_ok:
  assumes "curves_sound kg cr" "seeds_sound kg" "salt_key_pair kg salt path tier = Inr kp"
  shows "kp_ok kg kp \<and> kp_algo kp = AlgoEd25519"
  using assms(2,3) from_seed_ok(4)[OF assms(1)]
  by (cases tier) (auto simp: salt_key_pair_def stretch_def stretch_with_def seeds_sound_def from_seed_bytes_def)

lemma traverse_upt:
  "traverse f [0..<n] = Inr ys \<longleftrightarrow> length ys = n \<and> (\<forall>i<n. f i = Inr (ys ! i))"
  by (auto simp: traverse_Inr_iff list_all2_conv_all_nth)

definition ed25519_code :: "VerKeyCode \<Rightarrow> bool" where
  "ed25519_code code \<longleftrightarrow> code \<in> {VerKeyCode.Ed25519, VerKeyCode.Ed25519N}"

lemma derived_key:
  assumes "curves_sound kg cr" "seeds_sound kg" "ed25519_code code" "derive_set kg c r k n code = Inr vks" "i < n"
  shows "length vks = n \<and> (\<exists>kp. key_pair_at kg c r k i = Inr kp \<and> kp_ok kg kp \<and> kp_algo kp = AlgoEd25519 \<and>
    vks ! i = Matter_new code (kp_public kp) [])"
proof -
  from assms(4,5) obtain kp where kp: "length vks = n" "key_pair_at kg c r k i = Inr kp" "kp_verfer kp code = Inr (vks ! i)"
    by (auto simp: derive_set_def traverse_upt)
  then have "kp_ok kg kp \<and> kp_algo kp = AlgoEd25519"
    using salt_key_pair_ok[OF assms(1,2)] by (auto simp: key_pair_at_Inr)
  moreover from this have "kp_verfer kp code = Inr (Matter_new code (kp_public kp) [])"
    using kp_verfer_Inr[OF assms(1)] assms(3) by (simp add: algo_verkey_codes_def ed25519_code_def)
  ultimately show ?thesis using kp by simp
qed

lemma commits_to_own:
  assumes "hash_lengths_ok cr" "to_qb64b (b64_encode cr) VerKeyCode_to_matter_code vk = Some qb64"
    "diger_digest cr c qb64 = Inr d"
  shows "commits_to cr d vk"
  using assms by (auto simp: diger_digest_ok commits_to_def diger_verify_iff Matter_new_def)

lemma commit_set_commits:
  assumes "hash_lengths_ok cr" "commit_set cr vks = Inr ds"
  shows "length ds = length vks \<and> (\<forall>i < length vks. commits_to cr (ds ! i) (vks ! i))"
  using assms(2) commits_to_own[OF assms(1)]
  by (auto simp: commit_set_def traverse_Inr_iff list_all2_conv_all_nth)

lemma sign_nth:
  assumes "custodian_sign kg c ser None = Inr sigs" "i < sc_count c"
  shows "length sigs = sc_count c \<and> i < 2 ^ 32 \<and> (\<exists>kp. key_pair_at kg c (sc_ridx c) (sc_kidx c) i = Inr kp \<and>
    kp_sign_indexed kg kp ser (word_of_nat i) Both = Inr (sigs ! i))"
proof -
  from assms have "length sigs = sc_count c" "\<exists>kp w. key_pair_at kg c (sc_ridx c) (sc_kidx c) i = Inr kp \<and>
      u32_try_from i = Inr w \<and> kp_sign_indexed kg kp ser w Both = Inr (sigs ! i)"
    by (auto simp: custodian_sign_def traverse_upt split: if_splits)
  moreover have "i < 2 ^ 32 \<and> w = word_of_nat i" if "u32_try_from i = Inr w" for w
    using that by (auto simp: u32_try_from_def split: if_splits)
  ultimately show ?thesis by blast
qed

text \<open>Every signature verifies under the key exposed at its position, which its two indices name.\<close>

lemma signed_key:
  assumes "curves_sound kg cr" "seeds_sound kg" "ed25519_code code"
    and "derive_set kg c (sc_ridx c) (sc_kidx c) (sc_count c) code = Inr vks"
    and "custodian_sign kg c ser None = Inr sigs" "i < sc_count c"
  shows "length sigs = sc_count c \<and> length vks = sc_count c \<and> i < 2 ^ 32 \<and>
    verify_siger cr (vks ! i) ser (sigs ! i) = Inr () \<and>
    ix_index (sg_indexer (sigs ! i)) = word_of_nat i \<and> ix_ondex (sg_indexer (sigs ! i)) = Some (word_of_nat i)"
proof -
  from sign_nth[OF assms(5,6)] obtain kp where s: "length sigs = sc_count c" "i < 2 ^ 32"
    "key_pair_at kg c (sc_ridx c) (sc_kidx c) i = Inr kp" "kp_sign_indexed kg kp ser (word_of_nat i) Both = Inr (sigs ! i)"
    by blast
  from derived_key[OF assms(1-4,6)] s(3) have k: "length vks = sc_count c" "kp_ok kg kp" "kp_algo kp = AlgoEd25519"
    "vks ! i = Matter_new code (kp_public kp) []" by auto
  have "code \<in> algo_verkey_codes (kp_algo kp)" using assms(3) k(3) by (simp add: algo_verkey_codes_def ed25519_code_def)
  from kp_sign_indexed_verifies[OF assms(1) k(2) this s(4)] show ?thesis
    unfolding k(4) using s(1,2) k(1) by simp
qed

lemma signed_all:
  assumes "curves_sound kg cr" "seeds_sound kg" "ed25519_code code"
    and "derive_set kg c (sc_ridx c) (sc_kidx c) (sc_count c) code = Inr vks"
    and "custodian_sign kg c ser None = Inr sigs"
  shows "signers cr vks ser sigs = word_of_nat ` {..<sc_count c}"
    and "length ds = sc_count c \<Longrightarrow> (\<forall>i < sc_count c. commits_to cr (ds ! i) (vks ! i)) \<Longrightarrow>
      exposers cr \<lparr>cm_next_digests = ds, cm_next_threshold = t\<rparr> \<lparr>au_keys = vks, au_threshold = t'\<rparr> ser sigs =
        word_of_nat ` {..<sc_count c}"
proof -
  have len: "length sigs = sc_count c" using assms(5) by (auto simp: custodian_sign_def traverse_upt split: if_splits)
  have k: "i < 2 ^ 32 \<and> valid_sig cr vks ser (sigs ! i) \<and> ix_index (sg_indexer (sigs ! i)) = word_of_nat i \<and>
      ix_ondex (sg_indexer (sigs ! i)) = Some (word_of_nat i) \<and> length vks = sc_count c" if "i < sc_count c" for i
    using signed_key[OF assms that] that by (auto simp: valid_sig_def Let_def u32_of_nat simp del: unsigned_of_nat)
  have set: "set sigs = (\<lambda>i. sigs ! i) ` {..<sc_count c}" by (auto simp: set_conv_nth len)
  show "signers cr vks ser sigs = word_of_nat ` {..<sc_count c}"
    unfolding signers_def set using k by (force simp: image_iff)
  assume ds: "length ds = sc_count c" "\<forall>i < sc_count c. commits_to cr (ds ! i) (vks ! i)"
  let ?c = "\<lparr>cm_next_digests = ds, cm_next_threshold = t\<rparr>" and ?a = "\<lparr>au_keys = vks, au_threshold = t'\<rparr>"
  have e: "exposed_ondex cr ?c ?a (sigs ! i) = Some (word_of_nat i)" if "i < sc_count c" for i
  proof -
    have "unat (word_of_nat i :: u32) = i" using k[OF that] by (simp add: u32_of_nat del: unsigned_of_nat)
    then show ?thesis using k[OF that] ds that by (simp add: exposed_ondex_def slice_get_def del: unsigned_of_nat)
  qed
  show "exposers cr ?c ?a ser sigs = word_of_nat ` {..<sc_count c}"
    unfolding exposers_def set using k e by (force simp: image_iff)
qed

lemma card_indices:
  assumes "\<forall>i<n. i < 2 ^ 32"
  shows "card ((word_of_nat :: nat \<Rightarrow> u32) ` {..<n}) = n"
proof -
  have "inj_on (word_of_nat :: nat \<Rightarrow> u32) {..<n}"
    by (rule inj_onI) (metis assms lessThan_iff u32_of_nat)
  then show ?thesis by (simp add: card_image)
qed

section \<open>The bookkeeping\<close>

text \<open>A custodian holds its last establishment: its keys, and the digests of the keys one rung up.\<close>

definition same_root :: "SaltyCustodian \<Rightarrow> SaltyCustodian \<Rightarrow> bool" where
  "same_root c c' \<longleftrightarrow>
     sc_salt c' = sc_salt c \<and> sc_tier c' = sc_tier c \<and> sc_convention c' = sc_convention c \<and> sc_pidx c' = sc_pidx c"

lemma derive_set_root: "same_root c c' \<Longrightarrow> derive_set kg c' r k n code = derive_set kg c r k n code"
  by (simp add: same_root_def derive_set_def key_pair_at_def derivation_path_def path_stem_def cong: PathConvention.case_cong)

definition current_code :: "SaltyCustodian \<Rightarrow> VerKeyCode" where
  "current_code c = (if sc_transferable c then VerKeyCode.Ed25519 else VerKeyCode.Ed25519N)"

definition holds :: "keygen \<Rightarrow> crypto \<Rightarrow> SaltyCustodian \<Rightarrow> KeyCommitment \<Rightarrow> bool" where
  "holds kg cr c kc \<longleftrightarrow>
     sc_incepted c \<and> derive_set kg c (sc_ridx c) (sc_kidx c) (sc_count c) (current_code c) = Inr (kc_verkeys kc) \<and>
     (\<exists>r k next. rung_up (sc_ridx c) (sc_kidx c) (sc_count c) = Inr (r, k) \<and>
        derive_set kg c r k (sc_ncount c) VerKeyCode.Ed25519 = Inr next \<and> commit_set cr next = Inr (kc_next_digests kc))"

definition established ::
    "keygen \<Rightarrow> crypto \<Rightarrow> SaltyCustodian \<Rightarrow> KeySpec \<Rightarrow> SaltyCustodian \<Rightarrow> KeyCommitment \<Rightarrow> bool" where
  "established kg cr c spec c' kc \<longleftrightarrow>
     custodian_incept kg cr c spec = (c', Inr kc) \<or> custodian_rotate kg cr c spec = (c', Inr kc)"

lemma establish_Inr:
  "establish kg cr c r k spec code = Inr kc \<longleftrightarrow>
     derive_set kg c r k (kp_count spec) code = Inr (kc_verkeys kc) \<and>
     (\<exists>up_r up_k next. rung_up r k (kp_count spec) = Inr (up_r, up_k) \<and>
        derive_set kg c up_r up_k (kp_ncount spec) VerKeyCode.Ed25519 = Inr next \<and>
        commit_set cr next = Inr (kc_next_digests kc))"
  by (cases kc) (auto simp: establish_def)

lemma custodian_incept_Inr:
  "custodian_incept kg cr c spec = (c', Inr kc) \<longleftrightarrow>
     \<not> sc_incepted c \<and> kp_count spec \<noteq> 0 \<and> (kp_transferable spec \<or> kp_ncount spec = 0) \<and>
     establish kg cr c (sc_ridx c) (sc_kidx c) spec
       (if kp_transferable spec then VerKeyCode.Ed25519 else VerKeyCode.Ed25519N) = Inr kc \<and>
     c' = c\<lparr>sc_count := kp_count spec, sc_ncount := kp_ncount spec, sc_transferable := kp_transferable spec,
            sc_incepted := True\<rparr>"
  by (auto simp: custodian_incept_def Let_def split: sum.splits)

lemma custodian_rotate_Inr:
  "custodian_rotate kg cr c spec = (c', Inr kc) \<longleftrightarrow>
     sc_incepted c \<and> sc_transferable c \<and> sc_ncount c \<noteq> 0 \<and> kp_count spec = sc_ncount c \<and>
     (\<exists>r k. rung_up (sc_ridx c) (sc_kidx c) (sc_count c) = Inr (r, k) \<and>
        establish kg cr c r k spec VerKeyCode.Ed25519 = Inr kc \<and>
        c' = c\<lparr>sc_ridx := r, sc_kidx := k, sc_count := kp_count spec, sc_ncount := kp_ncount spec\<rparr>)"
  by (auto simp: custodian_rotate_def split: sum.splits prod.splits)

lemma established_root: "established kg cr c spec c' kc \<Longrightarrow> same_root c c'"
  by (auto simp: established_def custodian_incept_Inr custodian_rotate_Inr same_root_def)

lemma established_holds:
  assumes "established kg cr c spec c' kc"
  shows "holds kg cr c' kc"
  using assms derive_set_root[OF established_root[OF assms]]
  by (auto simp: established_def custodian_incept_Inr custodian_rotate_Inr establish_Inr holds_def current_code_def
      split: if_splits)

section \<open>Rotation opens the commitment\<close>

text \<open>
  C22: Custody and the key-state fold fit together. Whatever establishment came
  before, the keys a custodian rotates to are the ones it had committed to, so
  its own signatures over any bytes authenticate the rotation and open the
  earlier commitment, under every pair of simple thresholds the key counts
  can reach, and only under those.
\<close>

theorem custody_rotation_opens:
  assumes "hash_lengths_ok cr" "curves_sound kg cr" "seeds_sound kg"
    and "established kg cr c0 spec c kc" "custodian_rotate kg cr c spec' = (c', Inr kc')"
    and "custodian_sign kg c' ser None = Inr sigs"
  shows "verify_opening cr \<lparr>cm_next_digests = kc_next_digests kc, cm_next_threshold = Simple t\<rparr>
      \<lparr>au_keys = kc_verkeys kc', au_threshold = Simple t'\<rparr> ser sigs = Inr () \<longleftrightarrow>
    unat t' \<le> length (kc_verkeys kc') \<and> unat t \<le> length (kc_next_digests kc)"
proof -
  have h: "holds kg cr c kc" "holds kg cr c' kc'" using assms(4,5) established_holds established_def by blast+
  from assms(5) obtain r k where rot: "rung_up (sc_ridx c) (sc_kidx c) (sc_count c) = Inr (r, k)"
    "c' = c\<lparr>sc_ridx := r, sc_kidx := k, sc_count := sc_ncount c, sc_ncount := kp_ncount spec'\<rparr>" "sc_transferable c"
    by (auto simp: custodian_rotate_Inr)
  have code: "current_code c' = VerKeyCode.Ed25519" "ed25519_code VerKeyCode.Ed25519"
    using rot(2,3) by (simp_all add: current_code_def ed25519_code_def)
  from h(1) rot(1) obtain next' where n: "derive_set kg c r k (sc_ncount c) VerKeyCode.Ed25519 = Inr next'"
    "commit_set cr next' = Inr (kc_next_digests kc)" by (auto simp: holds_def)
  have d: "derive_set kg c' (sc_ridx c') (sc_kidx c') (sc_count c') VerKeyCode.Ed25519 = Inr (kc_verkeys kc')"
    using h(2) code(1) by (simp add: holds_def)
  moreover have "same_root c c'" by (simp add: rot(2) same_root_def)
  ultimately have "next' = kc_verkeys kc'" using n(1) by (simp add: derive_set_root) (simp add: rot(2))
  then have com: "length (kc_next_digests kc) = length (kc_verkeys kc')"
    "\<forall>i < length (kc_verkeys kc'). commits_to cr (kc_next_digests kc ! i) (kc_verkeys kc' ! i)"
    using commit_set_commits[OF assms(1) n(2)] by simp_all
  have len: "length (kc_verkeys kc') = sc_count c'" using d by (simp add: derive_set_def traverse_upt)
  note all = signed_all[OF assms(2,3) code(2) d assms(6)]
  have "card (word_of_nat ` {..<sc_count c'} :: u32 set) = sc_count c'"
    by (rule card_indices) (use sign_nth[OF assms(6)] in blast)
  then show ?thesis
    using com len all(1) all(2)[of "kc_next_digests kc"]
    by (simp add: verify_opening_Inr meets_Simple)
qed

text \<open>
  What a custodian signs authenticates the keys of its last establishment,
  under every simple threshold they can reach.
\<close>

theorem custody_signs_for_keys:
  assumes "curves_sound kg cr" "seeds_sound kg"
    and "established kg cr c0 spec c kc" "custodian_sign kg c ser None = Inr sigs"
    and "unat t \<le> length (kc_verkeys kc)"
  shows "is_ok (authority_verify cr \<lparr>au_keys = kc_verkeys kc, au_threshold = Simple t\<rparr> ser sigs)"
proof -
  have d: "derive_set kg c (sc_ridx c) (sc_kidx c) (sc_count c) (current_code c) = Inr (kc_verkeys kc)"
    using established_holds[OF assms(3)] by (simp add: holds_def)
  have "ed25519_code (current_code c)" by (simp add: ed25519_code_def current_code_def)
  note all = signed_all(1)[OF assms(1,2) this d assms(4)]
  have "card (word_of_nat ` {..<sc_count c} :: u32 set) = sc_count c"
    by (rule card_indices) (use sign_nth[OF assms(4)] in blast)
  moreover have "length (kc_verkeys kc) = sc_count c" using d by (simp add: derive_set_def traverse_upt)
  ultimately show ?thesis using all assms(5) by (simp add: is_ok_iff authority_verify_Inr meets_Simple)
qed

section \<open>No key twice\<close>

text \<open>A custodian's life: the paths of each key set it has been current with.\<close>

definition current_paths :: "SaltyCustodian \<Rightarrow> string list" where
  "current_paths c = map (\<lambda>i. derivation_path c (sc_ridx c) (key_index (sc_kidx c) i)) [0..<sc_count c]"

inductive custody_log :: "keygen \<Rightarrow> crypto \<Rightarrow> string list \<Rightarrow> SaltyCustodian \<Rightarrow> bool" for kg cr where
  incepted: "custodian_incept kg cr c spec = (c', Inr kc) \<Longrightarrow> custody_log kg cr (current_paths c') c'"
| rotated: "custody_log kg cr paths c \<Longrightarrow> custodian_rotate kg cr c spec = (c', Inr kc) \<Longrightarrow>
     custody_log kg cr (paths @ current_paths c') c'"

text \<open>All paths of a life lie below the current rung: smaller rotation index and smaller key index.\<close>

definition below :: "SaltyCustodian \<Rightarrow> string \<Rightarrow> bool" where
  "below c path \<longleftrightarrow>
     (\<exists>r k. path = path_stem c @ lower_hex r @ lower_hex k \<and> r \<le> unat (sc_ridx c) \<and> k < unat (sc_kidx c) + sc_count c)"

lemma holds_indices:
  assumes "holds kg cr c kc"
  shows "unat (sc_kidx c) + sc_count c < 2 ^ 64" "unat (sc_ridx c) < 2 ^ 64 - 1"
proof -
  from assms obtain r k where "rung_up (sc_ridx c) (sc_kidx c) (sc_count c) = Inr (r, k)" by (auto simp: holds_def)
  then show "unat (sc_kidx c) + sc_count c < 2 ^ 64" "unat (sc_ridx c) < 2 ^ 64 - 1"
    using u64_less[of r] u64_less[of k] by (auto simp: rung_up_Inr)
qed

lemma current_paths_nat:
  assumes "unat (sc_kidx c) + sc_count c < 2 ^ 64"
  shows "current_paths c = map (\<lambda>k. path_stem c @ lower_hex (unat (sc_ridx c)) @ lower_hex k)
    [unat (sc_kidx c)..<unat (sc_kidx c) + sc_count c]"
  using assms by (auto simp: current_paths_def derivation_path_def key_index_unat intro!: nth_equalityI)

lemma current_paths_distinct:
  assumes "unat (sc_kidx c) + sc_count c < 2 ^ 64"
  shows "distinct (current_paths c)"
  unfolding current_paths_nat[OF assms] by (auto simp: distinct_map inj_on_def dest: lower_hex_inj)

lemma current_paths_below:
  assumes "unat (sc_kidx c) + sc_count c < 2 ^ 64"
  shows "list_all (below c) (current_paths c)"
  unfolding current_paths_nat[OF assms] by (force simp: list_all_iff below_def)

lemma custody_log_below:
  "custody_log kg cr paths c \<Longrightarrow>
     distinct paths \<and> list_all (below c) paths \<and> unat (sc_kidx c) + sc_count c < 2 ^ 64"
proof (induction rule: custody_log.induct)
  case (incepted c spec c' kc)
  then have "unat (sc_kidx c') + sc_count c' < 2 ^ 64"
    using established_holds holds_indices by (metis established_def)
  then show ?case using current_paths_distinct current_paths_below by blast
next
  case (rotated paths c spec c' kc)
  have e: "established kg cr c spec c' kc" using rotated.hyps(2) by (simp add: established_def)
  note lt = holds_indices(1)[OF established_holds[OF e]]
  have stem: "path_stem c' = path_stem c" using established_root[OF e]
    by (simp add: same_root_def path_stem_def cong: PathConvention.case_cong)
  have up: "unat (sc_ridx c') = unat (sc_ridx c) + 1" "unat (sc_kidx c') = unat (sc_kidx c) + sc_count c"
    using rotated.hyps(2) by (auto simp: custodian_rotate_Inr rung_up_Inr)
  have "path \<notin> set (current_paths c')" if path: "path \<in> set paths" for path
  proof
    assume "path \<in> set (current_paths c')"
    then obtain k' where k': "path = path_stem c @ lower_hex (unat (sc_ridx c')) @ lower_hex k'" "unat (sc_kidx c') \<le> k'"
      by (auto simp: current_paths_nat[OF lt] stem)
    from path rotated.IH obtain r k where rk: "path = path_stem c @ lower_hex r @ lower_hex k" "r \<le> unat (sc_ridx c)"
      "k < unat (sc_kidx c) + sc_count c" by (auto simp: list_all_iff below_def)
    have "lower_hex r @ lower_hex k = lower_hex (unat (sc_ridx c')) @ lower_hex k'" using k'(1) rk(1) by simp
    then have "r = unat (sc_ridx c') \<and> k = k'" by (rule hex_pair_inj) (use rk(2,3) k'(2) up in simp_all)
    then show False using rk(2) up by simp
  qed
  moreover have "list_all (below c') paths"
    using rotated.IH up by (fastforce simp: list_all_iff below_def stem)
  ultimately show ?case using rotated.IH lt current_paths_distinct[OF lt] current_paths_below[OF lt] by auto
qed

text \<open>
  C23: No derivation path is used twice in the life of a custodian, although the
  concatenation of two hexadecimal indices cannot in general be read back: both
  indices only grow from one rotation to the next.
\<close>

theorem custody_paths_distinct:
  assumes "custody_log kg cr paths c"
  shows "distinct paths"
  using custody_log_below[OF assms] by blast

text \<open>
  Across accounts under one salt the same convention does reuse keys: the
  account and the two indices run together in the path, so that the key 18 of
  account 1 after one rotation is the key 2 of account 17 after one rotation.
\<close>

theorem accounts_share_paths:
  "\<exists>c c'. sc_salt c = sc_salt c' \<and> sc_tier c = sc_tier c' \<and> sc_convention c = Keripy \<and> sc_convention c' = Keripy \<and>
     sc_pidx c \<noteq> sc_pidx c' \<and> derivation_path c 1 18 = derivation_path c' 1 2"
proof -
  let ?c = "custodian_new [] Low Keripy"
  have "lower_hex 1 = ''1''" "lower_hex 2 = ''2''" "lower_hex 17 = ''11''" "lower_hex 18 = ''12''"
    by (simp_all add: lower_hex.simps hex_char_def)
  then have "derivation_path (?c\<lparr>sc_pidx := 1\<rparr>) 1 18 = derivation_path (?c\<lparr>sc_pidx := 17\<rparr>) 1 2"
    by (simp add: derivation_path_def path_stem_def custodian_new_def)
  then show ?thesis
    by (intro exI[of _ "?c\<lparr>sc_pidx := 1\<rparr>"] exI[of _ "?c\<lparr>sc_pidx := 17\<rparr>"]) (simp add: custodian_new_def)
qed

section \<open>A custodian can always go on\<close>

text \<open>argon2id fails only for parameters outside its range, which the tiers are not.\<close>

definition stretch_total :: "keygen \<Rightarrow> bool" where
  "stretch_total kg \<longleftrightarrow> (\<forall>path salt tier. argon2id kg path salt (fst (tier_costs tier)) (snd (tier_costs tier)) \<noteq> None)"

lemma salt_key_pair_total: "stretch_total kg \<Longrightarrow> \<exists>kp. salt_key_pair kg salt path tier = Inr kp"
proof -
  assume "stretch_total kg"
  then have "argon2id kg (str_bytes path) salt (fst (tier_costs tier)) (snd (tier_costs tier)) \<noteq> None"
    unfolding stretch_total_def by blast
  then show ?thesis by (auto simp: salt_key_pair_def stretch_def stretch_with_def split: prod.splits)
qed

lemma derive_set_total:
  assumes "curves_sound kg cr" "seeds_sound kg" "stretch_total kg" "ed25519_code code" "unat k + n \<le> 2 ^ 64"
  shows "\<exists>vks. derive_set kg c r k n code = Inr vks"
proof -
  have "\<exists>vk. res_bind (key_pair_at kg c r k i) (\<lambda>kp. map_err CustodyKey (kp_verfer kp code)) = Inr vk" if "i < n" for i
  proof -
    obtain kp where "salt_key_pair kg (sc_salt c) (derivation_path c r (key_index k i)) (sc_tier c) = Inr kp"
      using salt_key_pair_total[OF assms(3)] by blast
    then have "key_pair_at kg c r k i = Inr kp" "kp_ok kg kp \<and> kp_algo kp = AlgoEd25519"
      using that assms(5) salt_key_pair_ok[OF assms(1,2)] by (simp_all add: key_pair_at_Inr)
    then show ?thesis
      using kp_verfer_Inr[OF assms(1)] assms(4) by (simp add: algo_verkey_codes_def ed25519_code_def)
  qed
  then obtain f where "\<forall>i<n. res_bind (key_pair_at kg c r k i) (\<lambda>kp. map_err CustodyKey (kp_verfer kp code)) = Inr (f i)"
    by metis
  then have "derive_set kg c r k n code = Inr (map f [0..<n])" by (simp add: derive_set_def traverse_upt)
  then show ?thesis by blast
qed

lemma verkey_text:
  assumes "b64_encode cr = qb2_chars" "length raw = 32" "ed25519_code code"
  shows "\<exists>q. to_qb64b (b64_encode cr) VerKeyCode_to_matter_code (Matter_new code raw []) = Some q"
proof -
  have "matter_ok (widen VerKeyCode_to_matter_code (Matter_new code raw []))"
    using assms(2,3)
    by (auto simp: matter_ok_def widen_def Matter_new_def Sizage_new_def MatterCode_raw_size_def ed25519_code_def)
  from append_qb64_frame[OF own_b64.b64_engine_axioms this, of "[]"]
  show ?thesis by (auto simp: to_qb64b_def assms(1) append_qb64_widen[of _ VerKeyCode_to_matter_code])
qed

lemma commit_set_total:
  assumes "curves_sound kg cr" "seeds_sound kg" "hash_lengths_ok cr" "b64_encode cr = qb2_chars"
    and "derive_set kg c r k n VerKeyCode.Ed25519 = Inr vks"
  shows "\<exists>ds. commit_set cr vks = Inr ds"
proof -
  have "\<exists>d. res_bind (ok_or (CustodyDigest BuildFailed) (to_qb64b (b64_encode cr) VerKeyCode_to_matter_code vk))
      (\<lambda>qb64. map_err CustodyDigest (diger_digest cr DigestCode.Blake3_256 qb64)) = Inr d" if "vk \<in> set vks" for vk
  proof -
    have len: "length vks = n" using assms(5) by (simp add: derive_set_def traverse_upt)
    with that obtain i where "i < n" "vk = vks ! i" by (auto simp: in_set_conv_nth)
    then obtain kp where kp: "kp_ok kg kp" "kp_algo kp = AlgoEd25519" "vk = Matter_new VerKeyCode.Ed25519 (kp_public kp) []"
      using derived_key[OF assms(1,2) _ assms(5)] by (auto simp: ed25519_code_def)
    then have "length (kp_public kp) = 32" using sign_bytes_sound[OF assms(1) kp(1), of "[]"] by auto
    from verkey_text[OF assms(4) this, of VerKeyCode.Ed25519] kp(3) show ?thesis
      by (auto simp: ed25519_code_def diger_digest_ok[OF assms(3)])
  qed
  then have "list_all2 (\<lambda>vk d. res_bind (ok_or (CustodyDigest BuildFailed) (to_qb64b (b64_encode cr) VerKeyCode_to_matter_code vk))
      (\<lambda>qb64. map_err CustodyDigest (diger_digest cr DigestCode.Blake3_256 qb64)) = Inr d) vks (map (\<lambda>vk. SOME d.
      res_bind (ok_or (CustodyDigest BuildFailed) (to_qb64b (b64_encode cr) VerKeyCode_to_matter_code vk))
      (\<lambda>qb64. map_err CustodyDigest (diger_digest cr DigestCode.Blake3_256 qb64)) = Inr d) vks)"
    by (auto simp: list_all2_conv_all_nth intro: someI_ex)
  then show ?thesis by (auto simp: commit_set_def traverse_Inr_iff)
qed

definition custody_sound :: "keygen \<Rightarrow> crypto \<Rightarrow> bool" where
  "custody_sound kg cr \<longleftrightarrow>
     curves_sound kg cr \<and> seeds_sound kg \<and> stretch_total kg \<and> hash_lengths_ok cr \<and> b64_encode cr = qb2_chars"

lemma establish_total:
  assumes "custody_sound kg cr" "ed25519_code code" "unat r + 1 < 2 ^ 64"
    and "unat k + kp_count spec < 2 ^ 64" "unat k + kp_count spec + kp_ncount spec \<le> 2 ^ 64"
  shows "\<exists>kc. establish kg cr c r k spec code = Inr kc"
proof -
  note s = assms(1)[unfolded custody_sound_def]
  obtain vks where v: "derive_set kg c r k (kp_count spec) code = Inr vks"
    using derive_set_total[of kg cr code k "kp_count spec"] s assms(2,4) by auto
  let ?r = "word_of_nat (unat r + 1) :: u64" and ?k = "word_of_nat (unat k + kp_count spec) :: u64"
  have up: "rung_up r k (kp_count spec) = Inr (?r, ?k)" "unat ?k = unat k + kp_count spec"
    unfolding rung_up_Inr using assms(3,4) by (simp_all only: u64_of_nat)
  obtain next' where n: "derive_set kg c ?r ?k (kp_ncount spec) VerKeyCode.Ed25519 = Inr next'"
    using derive_set_total[of kg cr VerKeyCode.Ed25519 ?k "kp_ncount spec"] s assms(5) up(2) by (auto simp: ed25519_code_def)
  obtain ds where "commit_set cr next' = Inr ds" using commit_set_total[OF _ _ _ _ n] s by blast
  then have "establish kg cr c r k spec code = Inr \<lparr>kc_verkeys = vks, kc_next_digests = ds\<rparr>"
    using v up(1) n unfolding establish_def by simp
  then show ?thesis by blast
qed

lemma custodian_sign_total:
  assumes "custody_sound kg cr" "sc_incepted c" "unat (sc_kidx c) + sc_count c \<le> 2 ^ 64" "sc_count c \<le> 4096"
  shows "\<exists>sigs. custodian_sign kg c ser None = Inr sigs"
proof -
  note s = assms(1)[unfolded custody_sound_def]
  let ?f = "\<lambda>i. res_bind (key_pair_at kg c (sc_ridx c) (sc_kidx c) i) (\<lambda>kp.
            res_bind (u32_try_from i) (\<lambda>index. map_err CustodySignature (kp_sign_indexed kg kp ser index Both)))"
  have "\<exists>sg. ?f i = Inr sg" if "i < sc_count c" for i
  proof -
    obtain kp where "salt_key_pair kg (sc_salt c) (derivation_path c (sc_ridx c) (key_index (sc_kidx c) i)) (sc_tier c) = Inr kp"
      using salt_key_pair_total s by blast
    then have kp: "key_pair_at kg c (sc_ridx c) (sc_kidx c) i = Inr kp" "kp_ok kg kp"
      using that assms(3) salt_key_pair_ok s by (auto simp: key_pair_at_Inr)
    have i: "i \<le> 4095" using that assms(4) by simp
    then have u: "unat (word_of_nat i :: u32) = i" by (intro u32_of_nat) simp
    then have le: "(word_of_nat i :: u32) \<le> 4095" using i unfolding word_le_nat_alt u by simp
    obtain sg where "sign_bytes kg kp ser = Inr sg" using sign_bytes_sound[OF _ kp(2)] s by blast
    then have "\<exists>y. kp_sign_indexed kg kp ser (word_of_nat i) Both = Inr y"
      using kp_sign_indexed_Inr[OF _ kp(2)] s le by blast
    then show ?thesis using kp(1) i by (auto simp: u32_try_from_def)
  qed
  then obtain f where "\<forall>i < sc_count c. ?f i = Inr (f i)" by metis
  then have "custodian_sign kg c ser None = Inr (map f [0..<sc_count c])"
    using assms(2) by (simp add: custodian_sign_def traverse_upt)
  then show ?thesis by blast
qed

text \<open>
  A custodian never gets stuck short of its counters. After an establishment
  that committed to some next keys, a rotation that exposes exactly those
  succeeds while the key indices fit 64 bits, and its new state signs any bytes
  with up to 4096 keys.
\<close>

theorem custody_can_rotate:
  assumes "custody_sound kg cr" "established kg cr c0 spec c kc" "kp_ncount spec \<noteq> 0"
    and "kp_count spec' = kp_ncount spec" "unat (sc_ridx c) + 2 < 2 ^ 64"
    and "unat (sc_kidx c) + sc_count c + kp_count spec' < 2 ^ 64"
    and "unat (sc_kidx c) + sc_count c + kp_count spec' + kp_ncount spec' \<le> 2 ^ 64"
    and "kp_count spec' \<le> 4096"
  shows "\<exists>c' kc' sigs. custodian_rotate kg cr c spec' = (c', Inr kc') \<and> custodian_sign kg c' ser None = Inr sigs"
proof -
  have c: "sc_incepted c" "sc_transferable c" "sc_ncount c = kp_ncount spec"
    using assms(2,3) by (auto simp: established_def custodian_incept_Inr custodian_rotate_Inr)
  let ?r = "word_of_nat (unat (sc_ridx c) + 1) :: u64" and ?k = "word_of_nat (unat (sc_kidx c) + sc_count c) :: u64"
  have u: "unat ?r = unat (sc_ridx c) + 1" "unat ?k = unat (sc_kidx c) + sc_count c"
    using assms(5,6) by (simp_all only: u64_of_nat)
  then have up: "rung_up (sc_ridx c) (sc_kidx c) (sc_count c) = Inr (?r, ?k)"
    unfolding rung_up_Inr by blast
  obtain kc' where kc': "establish kg cr c ?r ?k spec' VerKeyCode.Ed25519 = Inr kc'"
    using establish_total[OF assms(1), of VerKeyCode.Ed25519 ?r ?k spec' c] assms(5-7) u
    by (auto simp: ed25519_code_def simp del: unsigned_of_nat)
  let ?c = "c\<lparr>sc_ridx := ?r, sc_kidx := ?k, sc_count := kp_count spec', sc_ncount := kp_ncount spec'\<rparr>"
  have "custodian_rotate kg cr c spec' = (?c, Inr kc')"
    unfolding custodian_rotate_Inr using c assms(3,4) up kc' by simp
  moreover have "\<exists>sigs. custodian_sign kg ?c ser None = Inr sigs"
    by (rule custodian_sign_total[OF assms(1)]) (use c assms(6,8) u in \<open>simp_all del: unsigned_of_nat\<close>)
  ultimately show ?thesis by blast
qed

section \<open>Witnesses\<close>

lemma ex_crypto_same: "ex_crypto = ex_verifier"
  by (simp add: ex_crypto_def ex_verifier_def)

lemma ex_custody_sound: "custody_sound ex_keygen ex_crypto"
  using ex_crypto_lengths ex_curves_sound
  by (simp add: custody_sound_def ex_crypto_same seeds_sound_def stretch_total_def)
     (simp add: ex_keygen_def ex_verifier_def)

definition ex_spec :: KeySpec where
  "ex_spec = \<lparr>kp_count = 2, kp_ncount = 2, kp_transferable = True\<rparr>"

lemma ex_custodian:
  "\<exists>c0 c kc. custodian_incept ex_keygen ex_crypto c0 ex_spec = (c, Inr kc) \<and> length (kc_verkeys kc) = 2 \<and>
     length (kc_next_digests kc) = 2 \<and> sc_ridx c = 0 \<and> sc_kidx c = 0 \<and> sc_count c = 2"
proof -
  let ?fresh = "custodian_new (replicate 16 3) Low Keripy"
  obtain kc where kc: "establish ex_keygen ex_crypto ?fresh 0 0 ex_spec VerKeyCode.Ed25519 = Inr kc"
    using establish_total[OF ex_custody_sound, of VerKeyCode.Ed25519 0 0 ex_spec ?fresh]
    by (auto simp: ed25519_code_def ex_spec_def)
  let ?c = "?fresh\<lparr>sc_count := 2, sc_ncount := 2, sc_transferable := True, sc_incepted := True\<rparr>"
  have "custodian_incept ex_keygen ex_crypto ?fresh ex_spec = (?c, Inr kc)"
    unfolding custodian_incept_Inr using kc by (simp add: custodian_new_def ex_spec_def)
  moreover have "length (kc_verkeys kc) = 2 \<and> length (kc_next_digests kc) = 2"
    using kc commit_set_commits[OF ex_crypto_lengths]
    by (auto simp: establish_Inr derive_set_def traverse_upt ex_spec_def)
  ultimately show ?thesis by (intro exI[of _ ?fresh] exI[of _ ?c] exI[of _ kc]) (simp add: custodian_new_def)
qed

lemma ex_rotation:
  "\<exists>c0 c kc c' kc' sigs. established ex_keygen ex_crypto c0 ex_spec c kc \<and> length (kc_next_digests kc) = 2 \<and>
     custodian_rotate ex_keygen ex_crypto c ex_spec = (c', Inr kc') \<and> length (kc_verkeys kc') = 2 \<and>
     custodian_sign ex_keygen c' [1] None = Inr sigs \<and> custody_log ex_keygen ex_crypto (current_paths c @ current_paths c') c'"
proof -
  from ex_custodian obtain c0 c kc where c: "custodian_incept ex_keygen ex_crypto c0 ex_spec = (c, Inr kc)"
    "length (kc_next_digests kc) = 2" "sc_ridx c = 0" "sc_kidx c = 0" "sc_count c = 2" by blast
  then have e: "established ex_keygen ex_crypto c0 ex_spec c kc" by (simp add: established_def)
  have t: "sc_incepted c" "sc_transferable c" "sc_ncount c = 2"
    using c(1) by (auto simp: custodian_incept_Inr ex_spec_def)
  have up: "rung_up 0 0 2 = Inr (1, 2)" by (simp add: rung_up_Inr)
  obtain kc' where kc': "establish ex_keygen ex_crypto c 1 2 ex_spec VerKeyCode.Ed25519 = Inr kc'"
    using establish_total[OF ex_custody_sound, of VerKeyCode.Ed25519 1 2 ex_spec c]
    by (auto simp: ed25519_code_def ex_spec_def)
  let ?c = "c\<lparr>sc_ridx := 1, sc_kidx := 2, sc_count := 2, sc_ncount := 2\<rparr>"
  have r: "custodian_rotate ex_keygen ex_crypto c ex_spec = (?c, Inr kc')"
    unfolding custodian_rotate_Inr c t using up kc' t by (simp add: ex_spec_def)
  have len: "length (kc_verkeys kc') = 2"
    using kc' by (auto simp: establish_Inr derive_set_def traverse_upt ex_spec_def)
  obtain sigs where "custodian_sign ex_keygen ?c [1] None = Inr sigs"
    using custodian_sign_total[OF ex_custody_sound, of ?c "[1]"] t by auto
  then show ?thesis
    using e c(2) r len custody_log.rotated[OF custody_log.incepted[OF c(1)] r] by blast
qed

theorem custody_rotation_opens_witness:
  "\<exists>(c :: SaltyCustodian) (kc :: KeyCommitment) c' (kc' :: KeyCommitment) sigs.
     custodian_rotate ex_keygen ex_crypto c ex_spec = (c', Inr kc') \<and>
     custodian_sign ex_keygen c' [1] None = Inr sigs \<and>
     verify_opening ex_crypto \<lparr>cm_next_digests = kc_next_digests kc, cm_next_threshold = Simple 2\<rparr>
       \<lparr>au_keys = kc_verkeys kc', au_threshold = Simple 2\<rparr> [1] sigs = Inr ()"
proof -
  from ex_rotation obtain c0 c kc c' kc' sigs where e: "established ex_keygen ex_crypto c0 ex_spec c kc"
    "length (kc_next_digests kc) = 2" "custodian_rotate ex_keygen ex_crypto c ex_spec = (c', Inr kc')"
    "length (kc_verkeys kc') = 2" "custodian_sign ex_keygen c' [1] None = Inr sigs" by blast
  have "curves_sound ex_keygen ex_crypto" "seeds_sound ex_keygen"
    using ex_custody_sound by (simp_all add: custody_sound_def)
  from custody_rotation_opens[OF ex_crypto_lengths this e(1,3,5), of 2 2] e(2,4)
  have "verify_opening ex_crypto \<lparr>cm_next_digests = kc_next_digests kc, cm_next_threshold = Simple 2\<rparr>
       \<lparr>au_keys = kc_verkeys kc', au_threshold = Simple 2\<rparr> [1] sigs = Inr ()" by simp
  then show ?thesis using e(3,5) by blast
qed

theorem custody_signs_for_keys_witness:
  "\<exists>(kc :: KeyCommitment) sigs. length (kc_verkeys kc) = 2 \<and>
     is_ok (authority_verify ex_crypto \<lparr>au_keys = kc_verkeys kc, au_threshold = Simple 2\<rparr> [1] sigs)"
proof -
  from ex_rotation obtain c kc' c' sigs where e: "custodian_rotate ex_keygen ex_crypto c ex_spec = (c', Inr kc')"
    "length (kc_verkeys kc') = 2" "custodian_sign ex_keygen c' [1] None = Inr sigs" by blast
  have "curves_sound ex_keygen ex_crypto" "seeds_sound ex_keygen" "established ex_keygen ex_crypto c ex_spec c' kc'"
    using ex_custody_sound e(1) by (simp_all add: custody_sound_def established_def)
  from custody_signs_for_keys[OF this e(3), of 2] e(2)
  have "is_ok (authority_verify ex_crypto \<lparr>au_keys = kc_verkeys kc', au_threshold = Simple 2\<rparr> [1] sigs)" by simp
  then show ?thesis using e(2) by blast
qed

theorem custody_paths_distinct_witness:
  "\<exists>paths c. custody_log ex_keygen ex_crypto paths c \<and> distinct paths"
  using ex_rotation custody_paths_distinct by blast

theorem custody_can_rotate_witness:
  "\<exists>c c' kc' sigs. custodian_rotate ex_keygen ex_crypto c ex_spec = (c', Inr kc') \<and>
     custodian_sign ex_keygen c' [1, 2, 3] None = Inr sigs"
proof -
  from ex_custodian obtain c0 c kc where c: "custodian_incept ex_keygen ex_crypto c0 ex_spec = (c, Inr kc)"
    "sc_ridx c = 0" "sc_kidx c = 0" "sc_count c = 2" by blast
  then have "established ex_keygen ex_crypto c0 ex_spec c kc" by (simp add: established_def)
  from custody_can_rotate[OF ex_custody_sound this, of ex_spec "[1, 2, 3]"] show ?thesis
    by (simp add: c(2-4)) (simp add: ex_spec_def, blast)
qed

end
