(* ===== verification/Cesr_Counter.thy ===== *)
theory Cesr_Counter
  imports Cesr_Indexer
begin

text \<open>
  The counter (group) codes of \<^verbatim>\<open>crates/cesr/src/core/counter/\<close>: the version 1 table
  (\<^verbatim>\<open>code.rs\<close>) and the version 2 table (\<^verbatim>\<open>v2.rs\<close>), with their sizes, their big
  variants and recognition at the head of a stream. The locale \<^verbatim>\<open>counter_table\<close>
  states what a table promises; both tables interpret it.
\<close>

text \<open>The lossy text in an unknown-code error is represented by the bytes themselves.\<close>

datatype CounterCodeError =
    UnknownCode bytes
  | NotACounter
  | StreamTooShort nat

definition from_hard_table :: "(string \<times> 'c) list \<Rightarrow> bytes \<Rightarrow> CounterCodeError + 'c" where
  "from_hard_table arms hard =
     ok_or (UnknownCode hard) (map_of (map (\<lambda>(s, c). (str_bytes s, c)) arms) hard)"

text \<open>The hard size from the two lead bytes: two hyphens, hyphen and underscore, or hyphen and a letter.\<close>

definition stream_hard_size :: "bytes \<Rightarrow> CounterCodeError + nat" where
  "stream_hard_size stream =
     (case stream of
        [] \<Rightarrow> Inl (StreamTooShort 1)
      | [b] \<Rightarrow> if b = of_char CHR ''-'' then Inl (StreamTooShort 1) else Inl NotACounter
      | b # b' # _ \<Rightarrow>
          if b \<noteq> of_char CHR ''-'' then Inl NotACounter
          else if b' = of_char CHR ''-'' then Inr 3
          else if b' = of_char CHR ''_'' then Inr 5
          else Inr 2)"

definition counter_from_base64_stream :: "(bytes \<Rightarrow> CounterCodeError + 'c) \<Rightarrow> bytes \<Rightarrow> CounterCodeError + 'c" where
  "counter_from_base64_stream from_hard stream =
     res_bind (stream_hard_size stream) (\<lambda>h.
     if length stream < h then Inl (StreamTooShort (h - length stream))
     else let hard = take h stream in
       if from_utf8_ok hard then from_hard hard else Inl (UnknownCode hard))"

section \<open>Version 1\<close>

datatype (plugins only: code size) CounterCodeV1 =
    ControllerIdxSigs | WitnessIdxSigs | NonTransReceiptCouples | TransReceiptQuadruples |
    FirstSeenReplayCouples | TransIdxSigGroups | SealSourceCouples | TransLastIdxSigGroups |
    SealSourceTriples | PathedMaterialCouples | BigPathedMaterialCouples | GenericGroup |
    BigGenericGroup | BodyWithAttachmentGroup | BigBodyWithAttachmentGroup | AttachmentGroup |
    BigAttachmentGroup | NonNativeBodyGroup | BigNonNativeBodyGroup | ESSRPayloadGroup |
    BigESSRPayloadGroup | KERIACDCGenusVersion

primrec CounterCodeV1_as_str :: "CounterCodeV1 \<Rightarrow> string" where
  "CounterCodeV1_as_str CounterCodeV1.ControllerIdxSigs = ''-A''"
| "CounterCodeV1_as_str CounterCodeV1.WitnessIdxSigs = ''-B''"
| "CounterCodeV1_as_str CounterCodeV1.NonTransReceiptCouples = ''-C''"
| "CounterCodeV1_as_str CounterCodeV1.TransReceiptQuadruples = ''-D''"
| "CounterCodeV1_as_str CounterCodeV1.FirstSeenReplayCouples = ''-E''"
| "CounterCodeV1_as_str CounterCodeV1.TransIdxSigGroups = ''-F''"
| "CounterCodeV1_as_str CounterCodeV1.SealSourceCouples = ''-G''"
| "CounterCodeV1_as_str CounterCodeV1.TransLastIdxSigGroups = ''-H''"
| "CounterCodeV1_as_str CounterCodeV1.SealSourceTriples = ''-I''"
| "CounterCodeV1_as_str CounterCodeV1.PathedMaterialCouples = ''-L''"
| "CounterCodeV1_as_str CounterCodeV1.BigPathedMaterialCouples = ''--L''"
| "CounterCodeV1_as_str CounterCodeV1.GenericGroup = ''-T''"
| "CounterCodeV1_as_str CounterCodeV1.BigGenericGroup = ''--T''"
| "CounterCodeV1_as_str CounterCodeV1.BodyWithAttachmentGroup = ''-U''"
| "CounterCodeV1_as_str CounterCodeV1.BigBodyWithAttachmentGroup = ''--U''"
| "CounterCodeV1_as_str CounterCodeV1.AttachmentGroup = ''-V''"
| "CounterCodeV1_as_str CounterCodeV1.BigAttachmentGroup = ''--V''"
| "CounterCodeV1_as_str CounterCodeV1.NonNativeBodyGroup = ''-W''"
| "CounterCodeV1_as_str CounterCodeV1.BigNonNativeBodyGroup = ''--W''"
| "CounterCodeV1_as_str CounterCodeV1.ESSRPayloadGroup = ''-Z''"
| "CounterCodeV1_as_str CounterCodeV1.BigESSRPayloadGroup = ''--Z''"
| "CounterCodeV1_as_str CounterCodeV1.KERIACDCGenusVersion = ''-_AAA''"

definition CounterCodeV1_arms :: "(string \<times> CounterCodeV1) list" where
  "CounterCodeV1_arms =
     [(''-A'', CounterCodeV1.ControllerIdxSigs), (''-B'', CounterCodeV1.WitnessIdxSigs),
      (''-C'', CounterCodeV1.NonTransReceiptCouples),
      (''-D'', CounterCodeV1.TransReceiptQuadruples),
      (''-E'', CounterCodeV1.FirstSeenReplayCouples), (''-F'', CounterCodeV1.TransIdxSigGroups),
      (''-G'', CounterCodeV1.SealSourceCouples), (''-H'', CounterCodeV1.TransLastIdxSigGroups),
      (''-I'', CounterCodeV1.SealSourceTriples), (''-L'', CounterCodeV1.PathedMaterialCouples),
      (''--L'', CounterCodeV1.BigPathedMaterialCouples), (''-T'', CounterCodeV1.GenericGroup),
      (''--T'', CounterCodeV1.BigGenericGroup), (''-U'', CounterCodeV1.BodyWithAttachmentGroup),
      (''--U'', CounterCodeV1.BigBodyWithAttachmentGroup),
      (''-V'', CounterCodeV1.AttachmentGroup), (''--V'', CounterCodeV1.BigAttachmentGroup),
      (''-W'', CounterCodeV1.NonNativeBodyGroup), (''--W'', CounterCodeV1.BigNonNativeBodyGroup),
      (''-Z'', CounterCodeV1.ESSRPayloadGroup), (''--Z'', CounterCodeV1.BigESSRPayloadGroup),
      (''-_AAA'', CounterCodeV1.KERIACDCGenusVersion)]"

definition CounterCodeV1_from_hard :: "bytes \<Rightarrow> CounterCodeError + CounterCodeV1" where
  "CounterCodeV1_from_hard hard = from_hard_table CounterCodeV1_arms hard"

definition CounterCodeV1_bigs :: "CounterCodeV1 list" where
  "CounterCodeV1_bigs =
     [CounterCodeV1.BigPathedMaterialCouples, CounterCodeV1.BigGenericGroup,
      CounterCodeV1.BigBodyWithAttachmentGroup, CounterCodeV1.BigAttachmentGroup,
      CounterCodeV1.BigNonNativeBodyGroup, CounterCodeV1.BigESSRPayloadGroup]"

definition CounterCodeV1_hard_size :: "CounterCodeV1 \<Rightarrow> nat" where
  "CounterCodeV1_hard_size c = (if c \<in> set CounterCodeV1_bigs then 3 else if c = CounterCodeV1.KERIACDCGenusVersion then 5 else 2)"

definition CounterCodeV1_soft_size :: "CounterCodeV1 \<Rightarrow> nat" where
  "CounterCodeV1_soft_size c = (if c \<in> set CounterCodeV1_bigs then 5 else if c = CounterCodeV1.KERIACDCGenusVersion then 3 else 2)"

definition CounterCodeV1_full_size :: "CounterCodeV1 \<Rightarrow> nat" where
  "CounterCodeV1_full_size c = (if c \<in> set CounterCodeV1_bigs \<or> c = CounterCodeV1.KERIACDCGenusVersion then 8 else 4)"

definition CounterCodeV1_to_big :: "CounterCodeV1 \<Rightarrow> CounterCodeV1 option" where
  "CounterCodeV1_to_big c = map_of
     [(CounterCodeV1.PathedMaterialCouples, CounterCodeV1.BigPathedMaterialCouples),
      (CounterCodeV1.GenericGroup, CounterCodeV1.BigGenericGroup),
      (CounterCodeV1.BodyWithAttachmentGroup, CounterCodeV1.BigBodyWithAttachmentGroup),
      (CounterCodeV1.AttachmentGroup, CounterCodeV1.BigAttachmentGroup),
      (CounterCodeV1.NonNativeBodyGroup, CounterCodeV1.BigNonNativeBodyGroup),
      (CounterCodeV1.ESSRPayloadGroup, CounterCodeV1.BigESSRPayloadGroup)] c"

definition CounterCodeV1_is_big :: "CounterCodeV1 \<Rightarrow> bool" where
  "CounterCodeV1_is_big c \<longleftrightarrow> CounterCodeV1_hard_size c = 3"

definition CounterCodeV1_from_base64_stream :: "bytes \<Rightarrow> CounterCodeError + CounterCodeV1" where
  "CounterCodeV1_from_base64_stream stream = counter_from_base64_stream CounterCodeV1_from_hard stream"

section \<open>Version 2\<close>

datatype (plugins only: code size) CounterCodeV2 =
    GenericGroup | BigGenericGroup | BodyWithAttachmentGroup | BigBodyWithAttachmentGroup |
    AttachmentGroup | BigAttachmentGroup | DatagramSegmentGroup | BigDatagramSegmentGroup |
    ESSRWrapperGroup | BigESSRWrapperGroup | FixBodyGroup | BigFixBodyGroup | MapBodyGroup |
    BigMapBodyGroup | NonNativeBodyGroup | BigNonNativeBodyGroup | GenericMapGroup |
    BigGenericMapGroup | GenericListGroup | BigGenericListGroup | ControllerIdxSigs |
    BigControllerIdxSigs | WitnessIdxSigs | BigWitnessIdxSigs | NonTransReceiptCouples |
    BigNonTransReceiptCouples | TransReceiptQuadruples | BigTransReceiptQuadruples |
    FirstSeenReplayCouples | BigFirstSeenReplayCouples | PathedMaterialCouples |
    BigPathedMaterialCouples | DigestSealSingles | BigDigestSealSingles | MerkleRootSealSingles |
    BigMerkleRootSealSingles | SealSourceCouples | BigSealSourceCouples | SealSourceTriples |
    BigSealSourceTriples | SealSourceLastSingles | BigSealSourceLastSingles |
    BackerRegistrarSealCouples | BigBackerRegistrarSealCouples | TypedDigestSealCouples |
    BigTypedDigestSealCouples | TransIdxSigGroups | BigTransIdxSigGroups |
    TransLastIdxSigGroups | BigTransLastIdxSigGroups | ESSRPayloadGroup | BigESSRPayloadGroup |
    BlindedStateQuadruples | BigBlindedStateQuadruples | BoundStateSextuples |
    BigBoundStateSextuples | TypedMediaQuadruples | BigTypedMediaQuadruples | KERIACDCGenusVersion

primrec CounterCodeV2_as_str :: "CounterCodeV2 \<Rightarrow> string" where
  "CounterCodeV2_as_str CounterCodeV2.GenericGroup = ''-A''"
| "CounterCodeV2_as_str CounterCodeV2.BigGenericGroup = ''--A''"
| "CounterCodeV2_as_str CounterCodeV2.BodyWithAttachmentGroup = ''-B''"
| "CounterCodeV2_as_str CounterCodeV2.BigBodyWithAttachmentGroup = ''--B''"
| "CounterCodeV2_as_str CounterCodeV2.AttachmentGroup = ''-C''"
| "CounterCodeV2_as_str CounterCodeV2.BigAttachmentGroup = ''--C''"
| "CounterCodeV2_as_str CounterCodeV2.DatagramSegmentGroup = ''-D''"
| "CounterCodeV2_as_str CounterCodeV2.BigDatagramSegmentGroup = ''--D''"
| "CounterCodeV2_as_str CounterCodeV2.ESSRWrapperGroup = ''-E''"
| "CounterCodeV2_as_str CounterCodeV2.BigESSRWrapperGroup = ''--E''"
| "CounterCodeV2_as_str CounterCodeV2.FixBodyGroup = ''-F''"
| "CounterCodeV2_as_str CounterCodeV2.BigFixBodyGroup = ''--F''"
| "CounterCodeV2_as_str CounterCodeV2.MapBodyGroup = ''-G''"
| "CounterCodeV2_as_str CounterCodeV2.BigMapBodyGroup = ''--G''"
| "CounterCodeV2_as_str CounterCodeV2.NonNativeBodyGroup = ''-H''"
| "CounterCodeV2_as_str CounterCodeV2.BigNonNativeBodyGroup = ''--H''"
| "CounterCodeV2_as_str CounterCodeV2.GenericMapGroup = ''-I''"
| "CounterCodeV2_as_str CounterCodeV2.BigGenericMapGroup = ''--I''"
| "CounterCodeV2_as_str CounterCodeV2.GenericListGroup = ''-J''"
| "CounterCodeV2_as_str CounterCodeV2.BigGenericListGroup = ''--J''"
| "CounterCodeV2_as_str CounterCodeV2.ControllerIdxSigs = ''-K''"
| "CounterCodeV2_as_str CounterCodeV2.BigControllerIdxSigs = ''--K''"
| "CounterCodeV2_as_str CounterCodeV2.WitnessIdxSigs = ''-L''"
| "CounterCodeV2_as_str CounterCodeV2.BigWitnessIdxSigs = ''--L''"
| "CounterCodeV2_as_str CounterCodeV2.NonTransReceiptCouples = ''-M''"
| "CounterCodeV2_as_str CounterCodeV2.BigNonTransReceiptCouples = ''--M''"
| "CounterCodeV2_as_str CounterCodeV2.TransReceiptQuadruples = ''-N''"
| "CounterCodeV2_as_str CounterCodeV2.BigTransReceiptQuadruples = ''--N''"
| "CounterCodeV2_as_str CounterCodeV2.FirstSeenReplayCouples = ''-O''"
| "CounterCodeV2_as_str CounterCodeV2.BigFirstSeenReplayCouples = ''--O''"
| "CounterCodeV2_as_str CounterCodeV2.PathedMaterialCouples = ''-P''"
| "CounterCodeV2_as_str CounterCodeV2.BigPathedMaterialCouples = ''--P''"
| "CounterCodeV2_as_str CounterCodeV2.DigestSealSingles = ''-Q''"
| "CounterCodeV2_as_str CounterCodeV2.BigDigestSealSingles = ''--Q''"
| "CounterCodeV2_as_str CounterCodeV2.MerkleRootSealSingles = ''-R''"
| "CounterCodeV2_as_str CounterCodeV2.BigMerkleRootSealSingles = ''--R''"
| "CounterCodeV2_as_str CounterCodeV2.SealSourceCouples = ''-S''"
| "CounterCodeV2_as_str CounterCodeV2.BigSealSourceCouples = ''--S''"
| "CounterCodeV2_as_str CounterCodeV2.SealSourceTriples = ''-T''"
| "CounterCodeV2_as_str CounterCodeV2.BigSealSourceTriples = ''--T''"
| "CounterCodeV2_as_str CounterCodeV2.SealSourceLastSingles = ''-U''"
| "CounterCodeV2_as_str CounterCodeV2.BigSealSourceLastSingles = ''--U''"
| "CounterCodeV2_as_str CounterCodeV2.BackerRegistrarSealCouples = ''-V''"
| "CounterCodeV2_as_str CounterCodeV2.BigBackerRegistrarSealCouples = ''--V''"
| "CounterCodeV2_as_str CounterCodeV2.TypedDigestSealCouples = ''-W''"
| "CounterCodeV2_as_str CounterCodeV2.BigTypedDigestSealCouples = ''--W''"
| "CounterCodeV2_as_str CounterCodeV2.TransIdxSigGroups = ''-X''"
| "CounterCodeV2_as_str CounterCodeV2.BigTransIdxSigGroups = ''--X''"
| "CounterCodeV2_as_str CounterCodeV2.TransLastIdxSigGroups = ''-Y''"
| "CounterCodeV2_as_str CounterCodeV2.BigTransLastIdxSigGroups = ''--Y''"
| "CounterCodeV2_as_str CounterCodeV2.ESSRPayloadGroup = ''-Z''"
| "CounterCodeV2_as_str CounterCodeV2.BigESSRPayloadGroup = ''--Z''"
| "CounterCodeV2_as_str CounterCodeV2.BlindedStateQuadruples = ''-a''"
| "CounterCodeV2_as_str CounterCodeV2.BigBlindedStateQuadruples = ''--a''"
| "CounterCodeV2_as_str CounterCodeV2.BoundStateSextuples = ''-b''"
| "CounterCodeV2_as_str CounterCodeV2.BigBoundStateSextuples = ''--b''"
| "CounterCodeV2_as_str CounterCodeV2.TypedMediaQuadruples = ''-c''"
| "CounterCodeV2_as_str CounterCodeV2.BigTypedMediaQuadruples = ''--c''"
| "CounterCodeV2_as_str CounterCodeV2.KERIACDCGenusVersion = ''-_AAA''"

definition CounterCodeV2_arms :: "(string \<times> CounterCodeV2) list" where
  "CounterCodeV2_arms =
     [(''-A'', CounterCodeV2.GenericGroup), (''--A'', CounterCodeV2.BigGenericGroup),
      (''-B'', CounterCodeV2.BodyWithAttachmentGroup),
      (''--B'', CounterCodeV2.BigBodyWithAttachmentGroup),
      (''-C'', CounterCodeV2.AttachmentGroup), (''--C'', CounterCodeV2.BigAttachmentGroup),
      (''-D'', CounterCodeV2.DatagramSegmentGroup),
      (''--D'', CounterCodeV2.BigDatagramSegmentGroup), (''-E'', CounterCodeV2.ESSRWrapperGroup),
      (''--E'', CounterCodeV2.BigESSRWrapperGroup), (''-F'', CounterCodeV2.FixBodyGroup),
      (''--F'', CounterCodeV2.BigFixBodyGroup), (''-G'', CounterCodeV2.MapBodyGroup),
      (''--G'', CounterCodeV2.BigMapBodyGroup), (''-H'', CounterCodeV2.NonNativeBodyGroup),
      (''--H'', CounterCodeV2.BigNonNativeBodyGroup), (''-I'', CounterCodeV2.GenericMapGroup),
      (''--I'', CounterCodeV2.BigGenericMapGroup), (''-J'', CounterCodeV2.GenericListGroup),
      (''--J'', CounterCodeV2.BigGenericListGroup), (''-K'', CounterCodeV2.ControllerIdxSigs),
      (''--K'', CounterCodeV2.BigControllerIdxSigs), (''-L'', CounterCodeV2.WitnessIdxSigs),
      (''--L'', CounterCodeV2.BigWitnessIdxSigs), (''-M'', CounterCodeV2.NonTransReceiptCouples),
      (''--M'', CounterCodeV2.BigNonTransReceiptCouples),
      (''-N'', CounterCodeV2.TransReceiptQuadruples),
      (''--N'', CounterCodeV2.BigTransReceiptQuadruples),
      (''-O'', CounterCodeV2.FirstSeenReplayCouples),
      (''--O'', CounterCodeV2.BigFirstSeenReplayCouples),
      (''-P'', CounterCodeV2.PathedMaterialCouples),
      (''--P'', CounterCodeV2.BigPathedMaterialCouples),
      (''-Q'', CounterCodeV2.DigestSealSingles), (''--Q'', CounterCodeV2.BigDigestSealSingles),
      (''-R'', CounterCodeV2.MerkleRootSealSingles),
      (''--R'', CounterCodeV2.BigMerkleRootSealSingles),
      (''-S'', CounterCodeV2.SealSourceCouples), (''--S'', CounterCodeV2.BigSealSourceCouples),
      (''-T'', CounterCodeV2.SealSourceTriples), (''--T'', CounterCodeV2.BigSealSourceTriples),
      (''-U'', CounterCodeV2.SealSourceLastSingles),
      (''--U'', CounterCodeV2.BigSealSourceLastSingles),
      (''-V'', CounterCodeV2.BackerRegistrarSealCouples),
      (''--V'', CounterCodeV2.BigBackerRegistrarSealCouples),
      (''-W'', CounterCodeV2.TypedDigestSealCouples),
      (''--W'', CounterCodeV2.BigTypedDigestSealCouples),
      (''-X'', CounterCodeV2.TransIdxSigGroups), (''--X'', CounterCodeV2.BigTransIdxSigGroups),
      (''-Y'', CounterCodeV2.TransLastIdxSigGroups),
      (''--Y'', CounterCodeV2.BigTransLastIdxSigGroups),
      (''-Z'', CounterCodeV2.ESSRPayloadGroup), (''--Z'', CounterCodeV2.BigESSRPayloadGroup),
      (''-a'', CounterCodeV2.BlindedStateQuadruples),
      (''--a'', CounterCodeV2.BigBlindedStateQuadruples),
      (''-b'', CounterCodeV2.BoundStateSextuples),
      (''--b'', CounterCodeV2.BigBoundStateSextuples),
      (''-c'', CounterCodeV2.TypedMediaQuadruples),
      (''--c'', CounterCodeV2.BigTypedMediaQuadruples),
      (''-_AAA'', CounterCodeV2.KERIACDCGenusVersion)]"

definition CounterCodeV2_from_hard :: "bytes \<Rightarrow> CounterCodeError + CounterCodeV2" where
  "CounterCodeV2_from_hard hard = from_hard_table CounterCodeV2_arms hard"

definition CounterCodeV2_bigs :: "CounterCodeV2 list" where
  "CounterCodeV2_bigs =
     [CounterCodeV2.BigGenericGroup, CounterCodeV2.BigBodyWithAttachmentGroup,
      CounterCodeV2.BigAttachmentGroup, CounterCodeV2.BigDatagramSegmentGroup,
      CounterCodeV2.BigESSRWrapperGroup, CounterCodeV2.BigFixBodyGroup,
      CounterCodeV2.BigMapBodyGroup, CounterCodeV2.BigNonNativeBodyGroup,
      CounterCodeV2.BigGenericMapGroup, CounterCodeV2.BigGenericListGroup,
      CounterCodeV2.BigControllerIdxSigs, CounterCodeV2.BigWitnessIdxSigs,
      CounterCodeV2.BigNonTransReceiptCouples, CounterCodeV2.BigTransReceiptQuadruples,
      CounterCodeV2.BigFirstSeenReplayCouples, CounterCodeV2.BigPathedMaterialCouples,
      CounterCodeV2.BigDigestSealSingles, CounterCodeV2.BigMerkleRootSealSingles,
      CounterCodeV2.BigSealSourceCouples, CounterCodeV2.BigSealSourceTriples,
      CounterCodeV2.BigSealSourceLastSingles, CounterCodeV2.BigBackerRegistrarSealCouples,
      CounterCodeV2.BigTypedDigestSealCouples, CounterCodeV2.BigTransIdxSigGroups,
      CounterCodeV2.BigTransLastIdxSigGroups, CounterCodeV2.BigESSRPayloadGroup,
      CounterCodeV2.BigBlindedStateQuadruples, CounterCodeV2.BigBoundStateSextuples,
      CounterCodeV2.BigTypedMediaQuadruples]"

definition CounterCodeV2_hard_size :: "CounterCodeV2 \<Rightarrow> nat" where
  "CounterCodeV2_hard_size c = (if c \<in> set CounterCodeV2_bigs then 3 else if c = CounterCodeV2.KERIACDCGenusVersion then 5 else 2)"

definition CounterCodeV2_soft_size :: "CounterCodeV2 \<Rightarrow> nat" where
  "CounterCodeV2_soft_size c = (if c \<in> set CounterCodeV2_bigs then 5 else if c = CounterCodeV2.KERIACDCGenusVersion then 3 else 2)"

definition CounterCodeV2_full_size :: "CounterCodeV2 \<Rightarrow> nat" where
  "CounterCodeV2_full_size c = (if c \<in> set CounterCodeV2_bigs \<or> c = CounterCodeV2.KERIACDCGenusVersion then 8 else 4)"

definition CounterCodeV2_to_big :: "CounterCodeV2 \<Rightarrow> CounterCodeV2 option" where
  "CounterCodeV2_to_big c = map_of
     [(CounterCodeV2.GenericGroup, CounterCodeV2.BigGenericGroup),
      (CounterCodeV2.BodyWithAttachmentGroup, CounterCodeV2.BigBodyWithAttachmentGroup),
      (CounterCodeV2.AttachmentGroup, CounterCodeV2.BigAttachmentGroup),
      (CounterCodeV2.DatagramSegmentGroup, CounterCodeV2.BigDatagramSegmentGroup),
      (CounterCodeV2.ESSRWrapperGroup, CounterCodeV2.BigESSRWrapperGroup),
      (CounterCodeV2.FixBodyGroup, CounterCodeV2.BigFixBodyGroup),
      (CounterCodeV2.MapBodyGroup, CounterCodeV2.BigMapBodyGroup),
      (CounterCodeV2.NonNativeBodyGroup, CounterCodeV2.BigNonNativeBodyGroup),
      (CounterCodeV2.GenericMapGroup, CounterCodeV2.BigGenericMapGroup),
      (CounterCodeV2.GenericListGroup, CounterCodeV2.BigGenericListGroup),
      (CounterCodeV2.ControllerIdxSigs, CounterCodeV2.BigControllerIdxSigs),
      (CounterCodeV2.WitnessIdxSigs, CounterCodeV2.BigWitnessIdxSigs),
      (CounterCodeV2.NonTransReceiptCouples, CounterCodeV2.BigNonTransReceiptCouples),
      (CounterCodeV2.TransReceiptQuadruples, CounterCodeV2.BigTransReceiptQuadruples),
      (CounterCodeV2.FirstSeenReplayCouples, CounterCodeV2.BigFirstSeenReplayCouples),
      (CounterCodeV2.PathedMaterialCouples, CounterCodeV2.BigPathedMaterialCouples),
      (CounterCodeV2.DigestSealSingles, CounterCodeV2.BigDigestSealSingles),
      (CounterCodeV2.MerkleRootSealSingles, CounterCodeV2.BigMerkleRootSealSingles),
      (CounterCodeV2.SealSourceCouples, CounterCodeV2.BigSealSourceCouples),
      (CounterCodeV2.SealSourceTriples, CounterCodeV2.BigSealSourceTriples),
      (CounterCodeV2.SealSourceLastSingles, CounterCodeV2.BigSealSourceLastSingles),
      (CounterCodeV2.BackerRegistrarSealCouples, CounterCodeV2.BigBackerRegistrarSealCouples),
      (CounterCodeV2.TypedDigestSealCouples, CounterCodeV2.BigTypedDigestSealCouples),
      (CounterCodeV2.TransIdxSigGroups, CounterCodeV2.BigTransIdxSigGroups),
      (CounterCodeV2.TransLastIdxSigGroups, CounterCodeV2.BigTransLastIdxSigGroups),
      (CounterCodeV2.ESSRPayloadGroup, CounterCodeV2.BigESSRPayloadGroup),
      (CounterCodeV2.BlindedStateQuadruples, CounterCodeV2.BigBlindedStateQuadruples),
      (CounterCodeV2.BoundStateSextuples, CounterCodeV2.BigBoundStateSextuples),
      (CounterCodeV2.TypedMediaQuadruples, CounterCodeV2.BigTypedMediaQuadruples)] c"

definition CounterCodeV2_is_big :: "CounterCodeV2 \<Rightarrow> bool" where
  "CounterCodeV2_is_big c \<longleftrightarrow> CounterCodeV2_hard_size c = 3"

definition CounterCodeV2_from_base64_stream :: "bytes \<Rightarrow> CounterCodeError + CounterCodeV2" where
  "CounterCodeV2_from_base64_stream stream = counter_from_base64_stream CounterCodeV2_from_hard stream"

section \<open>The contract of a table\<close>

lemma from_hard_table_Inr:
  assumes "from_hard_table arms s = Inr c" "list_all (\<lambda>(t, c). t = as_str c) arms"
  shows "s = str_bytes (as_str c)"
proof -
  from assms(1) have "(s, c) \<in> set (map (\<lambda>(s, c). (str_bytes s, c)) arms)"
    by (auto simp: from_hard_table_def dest!: map_of_SomeD)
  with assms(2) show ?thesis by (auto simp: list_all_iff)
qed

lemma hyphens: "(of_char CHR ''-'' :: byte) = 45" "(of_char CHR ''_'' :: byte) = 95"
  by code_simp+

locale counter_table =
  fixes as_str :: "'c \<Rightarrow> string" and from_hard :: "bytes \<Rightarrow> CounterCodeError + 'c"
    and hard_size soft_size full_size :: "'c \<Rightarrow> nat" and to_big :: "'c \<Rightarrow> 'c option"
  assumes from_hard_str: "from_hard (str_bytes (as_str c)) = Inr c"
    and from_hard_only: "from_hard s = Inr c \<Longrightarrow> s = str_bytes (as_str c)"
    and str_size: "length (as_str c) = hard_size c"
    and str_head: "stream_hard_size (str_bytes (as_str c)) = Inr (hard_size c)"
    and str_ascii: "from_utf8_ok (str_bytes (as_str c))"
    and sizes: "(hard_size c, soft_size c) \<in> {(2, 2), (3, 5), (5, 3)}"
    and full: "full_size c = hard_size c + soft_size c"
    and big: "to_big c = Some b \<Longrightarrow> hard_size c = 2 \<and> hard_size b = 3"
begin

lemma code_inj: "as_str c = as_str d \<Longrightarrow> c = d"
  by (metis from_hard_str sum.inject(2))

lemma stream_head_append:
  "stream_hard_size (str_bytes (as_str c) @ rest) = Inr (hard_size c)"
  using str_head[of c] str_size[of c] sizes[of c]
  by (auto simp: stream_hard_size_def str_bytes_def split: list.splits if_splits)

text \<open>A code is recognised at the head of a stream exactly where its text stands.\<close>

lemma stream_code_iff:
  "counter_from_base64_stream from_hard stream = Inr c \<longleftrightarrow> (\<exists>rest. stream = str_bytes (as_str c) @ rest)"
proof
  assume "counter_from_base64_stream from_hard stream = Inr c"
  then obtain h where "from_hard (take h stream) = Inr c" by (auto simp: counter_from_base64_stream_def Let_def split: if_splits)
  then have "take h stream = str_bytes (as_str c)" by (rule from_hard_only)
  then show "\<exists>rest. stream = str_bytes (as_str c) @ rest" by (metis append_take_drop_id)
next
  assume "\<exists>rest. stream = str_bytes (as_str c) @ rest"
  then obtain rest where s: "stream = str_bytes (as_str c) @ rest" by blast
  have l: "length (str_bytes (as_str c)) = hard_size c" by (simp add: str_bytes_def str_size)
  show "counter_from_base64_stream from_hard stream = Inr c"
    by (simp add: s counter_from_base64_stream_def stream_head_append from_hard_str str_ascii Let_def l)
qed

end

interpretation v1: counter_table CounterCodeV1_as_str CounterCodeV1_from_hard CounterCodeV1_hard_size CounterCodeV1_soft_size CounterCodeV1_full_size CounterCodeV1_to_big
proof
  fix c b :: CounterCodeV1 and s :: bytes
  show "CounterCodeV1_from_hard (str_bytes (CounterCodeV1_as_str c)) = Inr c"
    by (cases c) (simp_all add: CounterCodeV1_from_hard_def from_hard_table_def CounterCodeV1_arms_def str_bytes_def)
  have "list_all (\<lambda>(t, c). t = CounterCodeV1_as_str c) CounterCodeV1_arms" by (simp add: CounterCodeV1_arms_def)
  then show "CounterCodeV1_from_hard s = Inr c \<Longrightarrow> s = str_bytes (CounterCodeV1_as_str c)"
    unfolding CounterCodeV1_from_hard_def by (rule from_hard_table_Inr[rotated])
  show "length (CounterCodeV1_as_str c) = CounterCodeV1_hard_size c"
    by (cases c) (simp_all add: CounterCodeV1_hard_size_def CounterCodeV1_bigs_def)
  show "stream_hard_size (str_bytes (CounterCodeV1_as_str c)) = Inr (CounterCodeV1_hard_size c)"
    by (cases c) (simp_all add: CounterCodeV1_hard_size_def CounterCodeV1_bigs_def stream_hard_size_def str_bytes_def)
  show "from_utf8_ok (str_bytes (CounterCodeV1_as_str c))"
    by (rule from_utf8_ok_ascii, cases c) (simp_all add: str_bytes_def)
  show "(CounterCodeV1_hard_size c, CounterCodeV1_soft_size c) \<in> {(2, 2), (3, 5), (5, 3)}"
    by (simp add: CounterCodeV1_hard_size_def CounterCodeV1_soft_size_def)
  show "CounterCodeV1_full_size c = CounterCodeV1_hard_size c + CounterCodeV1_soft_size c"
    by (simp add: CounterCodeV1_hard_size_def CounterCodeV1_soft_size_def CounterCodeV1_full_size_def)
  show "CounterCodeV1_to_big c = Some b \<Longrightarrow> CounterCodeV1_hard_size c = 2 \<and> CounterCodeV1_hard_size b = 3"
    by (cases c) (auto simp: CounterCodeV1_to_big_def CounterCodeV1_hard_size_def CounterCodeV1_bigs_def)
qed

interpretation v2: counter_table CounterCodeV2_as_str CounterCodeV2_from_hard CounterCodeV2_hard_size CounterCodeV2_soft_size CounterCodeV2_full_size CounterCodeV2_to_big
proof
  fix c b :: CounterCodeV2 and s :: bytes
  show "CounterCodeV2_from_hard (str_bytes (CounterCodeV2_as_str c)) = Inr c"
    by (cases c) (simp_all add: CounterCodeV2_from_hard_def from_hard_table_def CounterCodeV2_arms_def str_bytes_def)
  have "list_all (\<lambda>(t, c). t = CounterCodeV2_as_str c) CounterCodeV2_arms" by (simp add: CounterCodeV2_arms_def)
  then show "CounterCodeV2_from_hard s = Inr c \<Longrightarrow> s = str_bytes (CounterCodeV2_as_str c)"
    unfolding CounterCodeV2_from_hard_def by (rule from_hard_table_Inr[rotated])
  show "length (CounterCodeV2_as_str c) = CounterCodeV2_hard_size c"
    by (cases c) (simp_all add: CounterCodeV2_hard_size_def CounterCodeV2_bigs_def)
  show "stream_hard_size (str_bytes (CounterCodeV2_as_str c)) = Inr (CounterCodeV2_hard_size c)"
    by (cases c) (simp_all add: CounterCodeV2_hard_size_def CounterCodeV2_bigs_def stream_hard_size_def str_bytes_def)
  show "from_utf8_ok (str_bytes (CounterCodeV2_as_str c))"
    by (rule from_utf8_ok_ascii, cases c) (simp_all add: str_bytes_def)
  show "(CounterCodeV2_hard_size c, CounterCodeV2_soft_size c) \<in> {(2, 2), (3, 5), (5, 3)}"
    by (simp add: CounterCodeV2_hard_size_def CounterCodeV2_soft_size_def)
  show "CounterCodeV2_full_size c = CounterCodeV2_hard_size c + CounterCodeV2_soft_size c"
    by (simp add: CounterCodeV2_hard_size_def CounterCodeV2_soft_size_def CounterCodeV2_full_size_def)
  show "CounterCodeV2_to_big c = Some b \<Longrightarrow> CounterCodeV2_hard_size c = 2 \<and> CounterCodeV2_hard_size b = 3"
    by (cases c) (auto simp: CounterCodeV2_to_big_def CounterCodeV2_hard_size_def CounterCodeV2_bigs_def)
qed

end
