(* ===== verification/Cesr_Version.thy ===== *)
theory Cesr_Version
  imports Cesr_Indexer
begin

text \<open>
  Version strings, \<^verbatim>\<open>crates/cesr/src/core/version.rs\<close>: the protocol and
  serialization-kind tables, the 17-byte version 1 frame with hexadecimal fields
  and the 19-byte version 2 frame with base64 fields, each with its validating
  constructor, its renderer and its parser.
\<close>

type_synonym u16 = "16 word"

section \<open>Tables\<close>

definition VERSION_STRING_LEN :: nat where
  "VERSION_STRING_LEN = 17"

definition VERSION_STRING_V2_LEN :: nat where
  "VERSION_STRING_V2_LEN = 19"

definition VERSION_SIZE_MAX :: u32 where
  "VERSION_SIZE_MAX = 0x00FFFFFF"

definition VERSION_DIGIT_MAX :: byte where
  "VERSION_DIGIT_MAX = 0xF"

definition V2_MAJOR :: byte where
  "V2_MAJOR = 2"

definition V2_MINOR_MAX :: u16 where
  "V2_MINOR_MAX = 4095"

definition VERSION_V2_SIZE_MAX :: u32 where
  "VERSION_V2_SIZE_MAX = 16777215"

definition V1_TERMINATOR :: byte where
  "V1_TERMINATOR = of_char CHR ''_''"

definition V2_TERMINATOR :: byte where
  "V2_TERMINATOR = of_char CHR ''.''"

datatype CesrVersion = V1 | V2

datatype VersionError =
    VersionTruncated nat
  | UnknownProtocol bytes
  | InvalidVersionDigit string byte
  | UnknownKind bytes
  | InvalidSizeHex bytes
  | MissingTerminator char byte
  | FieldOverflow string u32
  | UnsupportedMajor string byte
  | VersionBase64 string b64_error

datatype SerializationKind = Json | Cbor | Mgpk | Cesr

primrec SerializationKind_as_str :: "SerializationKind \<Rightarrow> string" where
  "SerializationKind_as_str Json = ''JSON''"
| "SerializationKind_as_str Cbor = ''CBOR''"
| "SerializationKind_as_str Mgpk = ''MGPK''"
| "SerializationKind_as_str Cesr = ''CESR''"

definition SerializationKind_from_wire :: "bytes \<Rightarrow> VersionError + SerializationKind" where
  "SerializationKind_from_wire wire =
     (if wire = str_bytes ''JSON'' then Inr Json
      else if wire = str_bytes ''CBOR'' then Inr Cbor
      else if wire = str_bytes ''MGPK'' then Inr Mgpk
      else if wire = str_bytes ''CESR'' then Inr Cesr
      else Inl (UnknownKind wire))"

definition first4 :: "bytes \<Rightarrow> bytes" where
  "first4 bs = take 4 bs @ replicate (4 - length bs) (of_char CHR '' '')"

definition SerializationKind_from_repr :: "bytes \<Rightarrow> VersionError + SerializationKind" where
  "SerializationKind_from_repr repr =
     (if length repr = 4 then SerializationKind_from_wire repr else Inl (UnknownKind (first4 repr)))"

datatype Protocol = ProtoKeri | ProtoAcdc

primrec Protocol_as_str :: "Protocol \<Rightarrow> string" where
  "Protocol_as_str ProtoKeri = ''KERI''"
| "Protocol_as_str ProtoAcdc = ''ACDC''"

definition Protocol_from_wire :: "bytes \<Rightarrow> VersionError + Protocol" where
  "Protocol_from_wire wire =
     (if wire = str_bytes ''KERI'' then Inr ProtoKeri
      else if wire = str_bytes ''ACDC'' then Inr ProtoAcdc
      else Inl (UnknownProtocol wire))"

definition Protocol_from_repr :: "bytes \<Rightarrow> VersionError + Protocol" where
  "Protocol_from_repr repr =
     (if length repr = 4 then Protocol_from_wire repr else Inl (UnknownProtocol (first4 repr)))"

section \<open>Fields\<close>

definition split_frame :: "bytes \<Rightarrow> nat \<Rightarrow> VersionError + (bytes \<times> bytes)" where
  "split_frame input frame_len =
     (if length input < frame_len then Inl (VersionTruncated (frame_len - length input))
      else Inr (take frame_len input, drop frame_len input))"

definition decode_hex_digit :: "byte \<Rightarrow> byte option" where
  "decode_hex_digit b =
     (if of_char CHR ''0'' \<le> b \<and> b \<le> of_char CHR ''9'' then Some (b - of_char CHR ''0'')
      else if of_char CHR ''a'' \<le> b \<and> b \<le> of_char CHR ''f'' then Some (b - of_char CHR ''a'' + 10)
      else if of_char CHR ''A'' \<le> b \<and> b \<le> of_char CHR ''F'' then Some (b - of_char CHR ''A'' + 10)
      else None)"

fun decode_hex_fold :: "bytes \<Rightarrow> bytes \<Rightarrow> u32 \<Rightarrow> VersionError + u32" where
  "decode_hex_fold found [] acc = Inr acc"
| "decode_hex_fold found (b # bs) acc =
     res_bind (ok_or (InvalidSizeHex found) (decode_hex_digit b)) (\<lambda>digit.
     res_bind (ok_or (FieldOverflow ''size'' VERSION_SIZE_MAX)
         (Option.bind (checked_mul acc 16) (\<lambda>shifted. checked_add shifted (ucast digit)))) (\<lambda>acc'.
     decode_hex_fold found bs acc'))"

definition decode_hex_size :: "bytes \<Rightarrow> VersionError + u32" where
  "decode_hex_size bs = decode_hex_fold bs bs 0"

definition decode_b64_field :: "bytes \<Rightarrow> string \<Rightarrow> VersionError + 'a::len word" where
  "decode_b64_field bs field = map_err (VersionBase64 field) (decode_int bs)"

definition push_b64_fixed :: "bytes \<Rightarrow> u32 \<Rightarrow> nat \<Rightarrow> bytes" where
  "push_b64_fixed out v width =
     (let digits = encode_int (ucast v) 1
      in out @ replicate (width - length digits) (of_char CHR ''A'') @ digits)"

text \<open>The lower-case hexadecimal formats of \<^verbatim>\<open>{:x}\<close> and \<^verbatim>\<open>{:06x}\<close>.\<close>

fun hex_digits :: "nat \<Rightarrow> bytes" where
  "hex_digits n = (if n < 16 then [hex_digit n] else hex_digits (n div 16) @ [hex_digit (n mod 16)])"

declare hex_digits.simps [simp del]

definition hex_pad :: "nat \<Rightarrow> nat \<Rightarrow> bytes" where
  "hex_pad width n = (let ds = hex_digits n in replicate (width - length ds) (of_char CHR ''0'') @ ds)"

section \<open>Version 1\<close>

record VersionString =
  vs_proto :: Protocol
  vs_major :: byte
  vs_minor :: byte
  vs_kind :: SerializationKind
  vs_size :: u32

definition VersionString_new :: "Protocol \<Rightarrow> byte \<Rightarrow> byte \<Rightarrow> SerializationKind \<Rightarrow> u32 \<Rightarrow> VersionError + VersionString" where
  "VersionString_new proto major minor kind sz =
     (if VERSION_DIGIT_MAX < major then Inl (FieldOverflow ''major'' (ucast VERSION_DIGIT_MAX))
      else if VERSION_DIGIT_MAX < minor then Inl (FieldOverflow ''minor'' (ucast VERSION_DIGIT_MAX))
      else if VERSION_SIZE_MAX < sz then Inl (FieldOverflow ''size'' VERSION_SIZE_MAX)
      else Inr \<lparr>vs_proto = proto, vs_major = major, vs_minor = minor, vs_kind = kind, vs_size = sz\<rparr>)"

definition keri_json_v1 :: VersionString where
  "keri_json_v1 = \<lparr>vs_proto = ProtoKeri, vs_major = 1, vs_minor = 0, vs_kind = Json, vs_size = 0\<rparr>"

definition VersionString_with_size :: "VersionString \<Rightarrow> u32 \<Rightarrow> VersionError + VersionString" where
  "VersionString_with_size vs sz = VersionString_new (vs_proto vs) (vs_major vs) (vs_minor vs) (vs_kind vs) sz"

definition VersionString_to_str :: "VersionString \<Rightarrow> bytes" where
  "VersionString_to_str vs =
     str_bytes (Protocol_as_str (vs_proto vs)) @ hex_digits (unat (vs_major vs)) @ hex_digits (unat (vs_minor vs)) @
     str_bytes (SerializationKind_as_str (vs_kind vs)) @ hex_pad 6 (unat (vs_size vs)) @ [V1_TERMINATOR]"

definition VersionString_parse :: "bytes \<Rightarrow> VersionError + (VersionString \<times> bytes)" where
  "VersionString_parse input =
     res_bind (split_frame input VERSION_STRING_LEN) (\<lambda>(frame, rest).
     let major_b = frame ! 4; minor_b = frame ! 5; term = frame ! 16 in
     res_bind (Protocol_from_wire (take 4 frame)) (\<lambda>proto.
     res_bind (ok_or (InvalidVersionDigit ''major'' major_b) (decode_hex_digit major_b)) (\<lambda>major.
     res_bind (ok_or (InvalidVersionDigit ''minor'' minor_b) (decode_hex_digit minor_b)) (\<lambda>minor.
     res_bind (SerializationKind_from_wire (take 4 (drop 6 frame))) (\<lambda>kind.
     res_bind (decode_hex_size (take 6 (drop 10 frame))) (\<lambda>sz.
     res_bind (ensure (term = V1_TERMINATOR) (MissingTerminator CHR ''_'' term)) (\<lambda>_.
     Inr (\<lparr>vs_proto = proto, vs_major = major, vs_minor = minor, vs_kind = kind, vs_size = sz\<rparr>, rest))))))))"

section \<open>Version 2\<close>

record VersionStringV2 =
  v2_proto :: Protocol
  v2_proto_minor :: u16
  v2_genus_minor :: u16
  v2_kind :: SerializationKind
  v2_size :: u32

definition VersionStringV2_new :: "Protocol \<Rightarrow> u16 \<Rightarrow> u16 \<Rightarrow> SerializationKind \<Rightarrow> u32 \<Rightarrow> VersionError + VersionStringV2" where
  "VersionStringV2_new proto proto_minor genus_minor kind sz =
     (if V2_MINOR_MAX < proto_minor then Inl (FieldOverflow ''proto_minor'' (ucast V2_MINOR_MAX))
      else if V2_MINOR_MAX < genus_minor then Inl (FieldOverflow ''genus_minor'' (ucast V2_MINOR_MAX))
      else if VERSION_V2_SIZE_MAX < sz then Inl (FieldOverflow ''size'' VERSION_V2_SIZE_MAX)
      else Inr \<lparr>v2_proto = proto, v2_proto_minor = proto_minor, v2_genus_minor = genus_minor, v2_kind = kind, v2_size = sz\<rparr>)"

definition VersionStringV2_to_str :: "VersionStringV2 \<Rightarrow> bytes" where
  "VersionStringV2_to_str vs =
     (let out = str_bytes (Protocol_as_str (v2_proto vs));
          out = push_b64_fixed out (ucast V2_MAJOR) 1;
          out = push_b64_fixed out (ucast (v2_proto_minor vs)) 2;
          out = push_b64_fixed out (ucast V2_MAJOR) 1;
          out = push_b64_fixed out (ucast (v2_genus_minor vs)) 2;
          out = out @ str_bytes (SerializationKind_as_str (v2_kind vs));
          out = push_b64_fixed out (v2_size vs) 4
      in out @ [V2_TERMINATOR])"

definition VersionStringV2_parse :: "bytes \<Rightarrow> VersionError + (VersionStringV2 \<times> bytes)" where
  "VersionStringV2_parse input =
     res_bind (split_frame input VERSION_STRING_V2_LEN) (\<lambda>(frame, rest).
     let term = frame ! 18 in
     res_bind (Protocol_from_wire (take 4 frame)) (\<lambda>proto.
     res_bind (decode_b64_field (take 1 (drop 4 frame)) ''proto_major'') (\<lambda>proto_major :: byte.
     res_bind (ensure (proto_major = V2_MAJOR) (UnsupportedMajor ''proto_major'' proto_major)) (\<lambda>_.
     res_bind (decode_b64_field (take 2 (drop 5 frame)) ''proto_minor'') (\<lambda>proto_minor :: u16.
     res_bind (decode_b64_field (take 1 (drop 7 frame)) ''genus_major'') (\<lambda>genus_major :: byte.
     res_bind (ensure (genus_major = V2_MAJOR) (UnsupportedMajor ''genus_major'' genus_major)) (\<lambda>_.
     res_bind (decode_b64_field (take 2 (drop 8 frame)) ''genus_minor'') (\<lambda>genus_minor :: u16.
     res_bind (SerializationKind_from_wire (take 4 (drop 10 frame))) (\<lambda>kind.
     res_bind (decode_b64_field (take 4 (drop 14 frame)) ''size'') (\<lambda>sz :: u32.
     res_bind (ensure (term = V2_TERMINATOR) (MissingTerminator CHR ''.'' term)) (\<lambda>_.
     Inr (\<lparr>v2_proto = proto, v2_proto_minor = proto_minor, v2_genus_minor = genus_minor, v2_kind = kind, v2_size = sz\<rparr>,
       rest))))))))))))"

section \<open>Fixed-width base64 fields\<close>

text \<open>The \<^verbatim>\<open>w\<close> base64 digits of a number; every fixed-width writer of the code produces them.\<close>

definition b64_digits :: "nat \<Rightarrow> nat \<Rightarrow> bytes" where
  "b64_digits w v = map (\<lambda>p. B64_ALPHABET ! (v div 64 ^ p mod 64)) (rev [0..<w])"

lemma b64_digits_props [simp]:
  "length (b64_digits w v) = w" "is_b64_url_safe_charset (b64_digits w v)"
  "b64_value (b64_digits w v) = v mod 64 ^ w" "from_utf8_ok (b64_digits w v)"
proof -
  show "length (b64_digits w v) = w" by (simp add: b64_digits_def)
  show "is_b64_url_safe_charset (b64_digits w v)" by (auto simp: charset_iff b64_digits_def charset_index)
  show "b64_value (b64_digits w v) = v mod 64 ^ w" by (simp add: b64_digits_def digits_value)
  have "set (b64_digits w v) \<subseteq> set B64_ALPHABET" by (auto simp: b64_digits_def)
  then have "\<forall>b \<in> set (b64_digits w v). b < 0x80" using alphabet_ascii by (auto simp: list_all_iff)
  then show "from_utf8_ok (b64_digits w v)" by (rule from_utf8_ok_ascii)
qed

lemma b64_digits_unique:
  assumes "is_b64_url_safe_charset s" "length s = w"
  shows "s = b64_digits w (b64_value s)"
proof (rule b64_value_eq_iff)
  show "b64_value s = b64_value (b64_digits w (b64_value s))"
    using b64_value_bound[of 0 s] assms by simp
qed (use assms in simp_all)

lemma decode_b64_digits:
  assumes "8 \<le> LENGTH('a)"
  shows "decode_int s = Inr (v :: 'a::len word) \<and> length s = w \<longleftrightarrow> s = b64_digits w (unat v) \<and> unat v < 64 ^ w"
proof
  assume *: "decode_int s = Inr v \<and> length s = w"
  then have v: "is_b64_url_safe_charset s" "b64_value s = unat v" using assms by (simp_all add: decode_int_Inr)
  then have "unat v < 64 ^ w" using * b64_value_bound[of 0 s] by simp
  then show "s = b64_digits w (unat v) \<and> unat v < 64 ^ w" using * v b64_digits_unique[of s w] by simp
next
  assume "s = b64_digits w (unat v) \<and> unat v < 64 ^ w"
  then show "decode_int s = Inr v \<and> length s = w" using assms by (simp add: decode_int_Inr)
qed

lemma ilog64_less: "n < 64 ^ Suc k \<Longrightarrow> ilog64 n \<le> k"
proof (induction k arbitrary: n)
  case (Suc k)
  show ?case
  proof (cases "n < 64")
    case False
    have "n div 64 < 64 ^ Suc k" using Suc.prems by (simp add: div_less_iff_less_mult mult.commute)
    then show ?thesis using Suc.IH False by (subst ilog64.simps) simp
  qed (simp add: ilog64.simps)
qed (simp add: ilog64.simps)

lemma b64_value_append: "b64_value_from a (s @ t) = b64_value_from (b64_value_from a s) t"
  by (simp add: b64_value_from_def)

lemma push_b64_fixed_digits:
  assumes "unat v < 64 ^ w" "0 < w"
  shows "push_b64_fixed out v w = out @ b64_digits w (unat v)"
proof -
  let ?d = "encode_int (ucast v) 1" and ?s = "replicate (w - length (encode_int (ucast v) 1)) (of_char CHR ''A'') @ encode_int (ucast v) 1"
  have u: "unat (ucast v :: u64) = unat v" by (simp add: unsigned_ucast_eq take_bit_nat_eq_self unsigned_less less_trans[OF unsigned_less])
  have "ilog64 (unat v) \<le> w - 1" using ilog64_less[of "unat v" "w - 1"] assms by simp
  then have "encode_int_len (ucast v) \<le> w" using assms(2) by (auto simp: encode_int_len_def u)
  then have l: "length ?d \<le> w" using assms(2) by (simp add: encode_int_length)
  have a: "is_ok (b64_byte_to_index (of_char CHR ''A''))" by code_simp
  have "is_b64_url_safe_charset ?s"
    using encode_int_charset[of "ucast v" 1] a by (auto simp: charset_iff)
  moreover have "b64_value ?s = unat v"
    by (simp add: b64_value_append pad_value encode_int_value u)
  ultimately have "?s = b64_digits w (unat v)" using b64_digits_unique[of ?s w] l by simp
  then show ?thesis by (simp add: push_b64_fixed_def Let_def)
qed

section \<open>Round trips\<close>

lemma Protocol_from_wire_iff: "Protocol_from_wire s = Inr p \<longleftrightarrow> s = str_bytes (Protocol_as_str p)"
  by (cases p) (auto simp: Protocol_from_wire_def str_bytes_inj)

lemma SerializationKind_from_wire_iff:
  "SerializationKind_from_wire s = Inr k \<longleftrightarrow> s = str_bytes (SerializationKind_as_str k)"
  by (cases k) (auto simp: SerializationKind_from_wire_def str_bytes_inj)

lemma wire_lengths [simp]:
  "length (str_bytes (Protocol_as_str p)) = 4" "length (str_bytes (SerializationKind_as_str k)) = 4"
  by (cases p; simp add: str_bytes_def) (cases k; simp add: str_bytes_def)

lemma split_frame_Inr: "split_frame input n = Inr (f, r) \<longleftrightarrow> length f = n \<and> input = f @ r"
  by (auto simp: split_frame_def)

text \<open>A frame of fixed-width fields is the concatenation of its slices.\<close>

lemma slice_step: "drop i f = take n (drop i f) @ drop (i + n) f"
  by (metis append_take_drop_id drop_drop add.commute)

lemma decode_b64_field_Inr:
  assumes "8 \<le> LENGTH('a)" "length s = w"
  shows "decode_b64_field s field = Inr (v :: 'a::len word) \<longleftrightarrow> s = b64_digits w (unat v) \<and> unat v < 64 ^ w"
  using decode_b64_digits[OF assms(1), of s v w] assms(2) by (simp add: decode_b64_field_def)

definition v2_ok :: "VersionStringV2 \<Rightarrow> bool" where
  "v2_ok vs \<longleftrightarrow> v2_proto_minor vs \<le> V2_MINOR_MAX \<and> v2_genus_minor vs \<le> V2_MINOR_MAX \<and> v2_size vs \<le> VERSION_V2_SIZE_MAX"

lemma v2_ok_bounds:
  "v2_ok vs \<longleftrightarrow> unat (v2_proto_minor vs) < 64 ^ 2 \<and> unat (v2_genus_minor vs) < 64 ^ 2 \<and> unat (v2_size vs) < 64 ^ 4"
  unfolding v2_ok_def word_le_nat_alt V2_MINOR_MAX_def VERSION_V2_SIZE_MAX_def by auto

lemma VersionStringV2_new_ok: "VersionStringV2_new p pm gm k s = Inr vs \<Longrightarrow> v2_ok vs"
  by (auto simp: VersionStringV2_new_def v2_ok_def split: if_splits)

lemma v2_to_str:
  assumes "v2_ok vs"
  shows "VersionStringV2_to_str vs =
    str_bytes (Protocol_as_str (v2_proto vs)) @ b64_digits 1 2 @ b64_digits 2 (unat (v2_proto_minor vs)) @
    b64_digits 1 2 @ b64_digits 2 (unat (v2_genus_minor vs)) @ str_bytes (SerializationKind_as_str (v2_kind vs)) @
    b64_digits 4 (unat (v2_size vs)) @ [V2_TERMINATOR]"
proof -
  have u: "unat (ucast w :: u32) = unat w" for w :: u16
    by (simp add: unsigned_ucast_eq take_bit_nat_eq_self less_trans[OF unsigned_less])
  have m: "unat (ucast V2_MAJOR :: u32) = 2" by (simp add: V2_MAJOR_def)
  show ?thesis
    using assms unfolding v2_ok_bounds
    by (simp add: VersionStringV2_to_str_def Let_def push_b64_fixed_digits u m)
qed

lemma v2_slices:
  assumes "length f = 19"
  shows "f = take 4 f @ take 1 (drop 4 f) @ take 2 (drop 5 f) @ take 1 (drop 7 f) @ take 2 (drop 8 f) @
    take 4 (drop 10 f) @ take 4 (drop 14 f) @ [f ! 18]"
proof -
  have "drop 18 f = [f ! 18]" using assms by (simp add: Cons_nth_drop_Suc[symmetric])
  then have "drop 14 f = take 4 (drop 14 f) @ [f ! 18]" using slice_step[of 14 f 4] by simp
  then have "drop 10 f = take 4 (drop 10 f) @ take 4 (drop 14 f) @ [f ! 18]" using slice_step[of 10 f 4] by simp
  then have "drop 8 f = take 2 (drop 8 f) @ take 4 (drop 10 f) @ take 4 (drop 14 f) @ [f ! 18]"
    using slice_step[of 8 f 2] by simp
  then have "drop 7 f = take 1 (drop 7 f) @ take 2 (drop 8 f) @ take 4 (drop 10 f) @ take 4 (drop 14 f) @ [f ! 18]"
    using slice_step[of 7 f 1] by simp
  then have "drop 5 f = take 2 (drop 5 f) @ take 1 (drop 7 f) @ take 2 (drop 8 f) @ take 4 (drop 10 f) @
      take 4 (drop 14 f) @ [f ! 18]"
    using slice_step[of 5 f 2] by simp
  then have "drop 4 f = take 1 (drop 4 f) @ take 2 (drop 5 f) @ take 1 (drop 7 f) @ take 2 (drop 8 f) @
      take 4 (drop 10 f) @ take 4 (drop 14 f) @ [f ! 18]"
    using slice_step[of 4 f 1] by simp
  then show ?thesis using slice_step[of 0 f 4] by simp
qed

lemma v2_slices_of:
  assumes "f = p @ a @ b @ c @ d @ k @ e @ [t]" "length p = 4" "length a = 1" "length b = 2" "length c = 1"
    "length d = 2" "length k = 4" "length e = 4"
  shows "take 4 f = p" "take 1 (drop 4 f) = a" "take 2 (drop 5 f) = b" "take 1 (drop 7 f) = c"
    "take 2 (drop 8 f) = d" "take 4 (drop 10 f) = k" "take 4 (drop 14 f) = e" "f ! 18 = t" "length f = 19"
  using assms by (simp_all add: nth_append)

text \<open>
  The version 2 string is canonical: parsing returns a version string and a rest exactly
  when the input is the string's own spelling followed by the rest, with fields in range.
\<close>

theorem version2_parse_exact:
  "VersionStringV2_parse input = Inr (vs, rest) \<longleftrightarrow> v2_ok vs \<and> input = VersionStringV2_to_str vs @ rest"
proof
  assume "VersionStringV2_parse input = Inr (vs, rest)"
  then obtain f proto pj pmin gj gmin k sz where p: "length f = 19" "input = f @ rest"
    "take 4 f = str_bytes (Protocol_as_str proto)"
    "decode_b64_field (take 1 (drop 4 f)) ''proto_major'' = Inr pj" "pj = V2_MAJOR"
    "decode_b64_field (take 2 (drop 5 f)) ''proto_minor'' = Inr (pmin :: u16)"
    "decode_b64_field (take 1 (drop 7 f)) ''genus_major'' = Inr gj" "gj = V2_MAJOR"
    "decode_b64_field (take 2 (drop 8 f)) ''genus_minor'' = Inr (gmin :: u16)"
    "take 4 (drop 10 f) = str_bytes (SerializationKind_as_str k)"
    "decode_b64_field (take 4 (drop 14 f)) ''size'' = Inr (sz :: u32)" "f ! 18 = V2_TERMINATOR"
    "vs = \<lparr>v2_proto = proto, v2_proto_minor = pmin, v2_genus_minor = gmin, v2_kind = k, v2_size = sz\<rparr>"
    by (auto simp: VersionStringV2_parse_def Let_def split_frame_Inr Protocol_from_wire_iff
      SerializationKind_from_wire_iff VERSION_STRING_V2_LEN_def split: prod.splits)
  have d: "take 1 (drop 4 f) = b64_digits 1 2" "take 2 (drop 5 f) = b64_digits 2 (unat pmin)" "unat pmin < 64 ^ 2"
    "take 1 (drop 7 f) = b64_digits 1 2" "take 2 (drop 8 f) = b64_digits 2 (unat gmin)" "unat gmin < 64 ^ 2"
    "take 4 (drop 14 f) = b64_digits 4 (unat sz)" "unat sz < 64 ^ 4"
    using p(1,4-9,11) by (simp_all add: decode_b64_field_Inr V2_MAJOR_def)
  have ok: "v2_ok vs" using d p(13) by (simp add: v2_ok_bounds)
  show "v2_ok vs \<and> input = VersionStringV2_to_str vs @ rest"
    using v2_slices[OF p(1)] d p ok by (simp add: v2_to_str)
next
  assume *: "v2_ok vs \<and> input = VersionStringV2_to_str vs @ rest"
  then have "VersionStringV2_to_str vs = str_bytes (Protocol_as_str (v2_proto vs)) @ b64_digits 1 2 @
    b64_digits 2 (unat (v2_proto_minor vs)) @ b64_digits 1 2 @ b64_digits 2 (unat (v2_genus_minor vs)) @
    str_bytes (SerializationKind_as_str (v2_kind vs)) @ b64_digits 4 (unat (v2_size vs)) @ [V2_TERMINATOR]"
    by (simp only: v2_to_str)
  note s = v2_slices_of[OF this, simplified]
  have sf: "split_frame input VERSION_STRING_V2_LEN = Inr (VersionStringV2_to_str vs, rest)"
    using * s(9) by (simp add: split_frame_Inr VERSION_STRING_V2_LEN_def)
  have m: "decode_b64_field (b64_digits (Suc 0) 2) field = Inr V2_MAJOR" for field
    using decode_b64_field_Inr[of "b64_digits 1 2" 1 field V2_MAJOR] by (simp add: V2_MAJOR_def)
  have d: "decode_b64_field (b64_digits 2 (unat (v2_proto_minor vs))) ''proto_minor'' = Inr (v2_proto_minor vs)"
    "decode_b64_field (b64_digits 2 (unat (v2_genus_minor vs))) ''genus_minor'' = Inr (v2_genus_minor vs)"
    "decode_b64_field (b64_digits 4 (unat (v2_size vs))) ''size'' = Inr (v2_size vs)"
    using * by (simp_all add: decode_b64_field_Inr v2_ok_bounds)
  have k: "Protocol_from_wire (str_bytes (Protocol_as_str p)) = Inr p"
    "SerializationKind_from_wire (str_bytes (SerializationKind_as_str k)) = Inr k" for p k
    by (simp_all add: Protocol_from_wire_iff SerializationKind_from_wire_iff)
  show "VersionStringV2_parse input = Inr (vs, rest)"
    by (simp add: VersionStringV2_parse_def sf Let_def s m d k)
qed

text \<open>Version 1: the renderer writes lower-case digits of the exact width, the parser reads either case.\<close>

definition hex_value_from :: "nat \<Rightarrow> bytes \<Rightarrow> nat" where
  "hex_value_from a s = foldl (\<lambda>a b. a * 16 + (case decode_hex_digit b of Some d \<Rightarrow> unat d | None \<Rightarrow> 0)) a s"

lemma hex_value_ge: "a \<le> hex_value_from a s"
proof (induction s arbitrary: a)
  case (Cons b s)
  let ?a = "a * 16 + (case decode_hex_digit b of Some d \<Rightarrow> unat d | None \<Rightarrow> 0)"
  have "a \<le> ?a" by simp
  also have "?a \<le> hex_value_from ?a s" by (rule Cons)
  finally show ?case by (simp add: hex_value_from_def)
qed (simp add: hex_value_from_def)

lemma decode_hex_digit_hex: "n < 16 \<Longrightarrow> decode_hex_digit (hex_digit n) = Some (word_of_nat n)"
proof -
  have "list_all (\<lambda>n. decode_hex_digit (hex_digit n) = Some (word_of_nat n)) [0..<16]" by code_simp
  then show "n < 16 \<Longrightarrow> ?thesis" by (simp add: list_all_iff)
qed

lemma hex_digits_props:
  "\<forall>b \<in> set (hex_digits n). decode_hex_digit b \<noteq> None"
  "hex_value_from 0 (hex_digits n) = n"
  "n < 16 ^ Suc k \<Longrightarrow> length (hex_digits n) \<le> Suc k"
proof (induction n arbitrary: k rule: hex_digits.induct)
  case (1 n)
  have u: "m < 16 \<Longrightarrow> unat (word_of_nat m :: byte) = m" for m by (simp add: unat_of_nat)
  { case 1 show ?case using "1.IH"(1) by (subst hex_digits.simps) (auto simp: decode_hex_digit_hex) }
  { case 2 show ?case
      using "1.IH"(2) by (subst hex_digits.simps) (simp add: decode_hex_digit_hex hex_value_from_def u del: unsigned_of_nat) }
  { case 3 show ?case
    proof (cases "n < 16")
      case False
      then obtain j where k: "k = Suc j" using 3 by (cases k) auto
      have "n div 16 < 16 ^ Suc j" using 3 k by (simp add: div_less_iff_less_mult mult.commute)
      then show ?thesis using "1.IH"(3)[OF False, of j] False k by (subst hex_digits.simps) simp
    qed (simp add: hex_digits.simps) }
qed

lemma decode_hex_fold_value:
  "\<forall>b \<in> set s. decode_hex_digit b \<noteq> None \<Longrightarrow> hex_value_from (unat acc) s = unat v \<Longrightarrow>
   decode_hex_fold found s acc = Inr v"
proof (induction s arbitrary: acc)
  case (Cons b s)
  then obtain d where d: "decode_hex_digit b = Some d" by auto
  let ?a = "unat acc * 16 + unat d"
  have e: "hex_value_from ?a s = unat v" using Cons.prems d by (simp add: hex_value_from_def)
  then have "?a \<le> unat v" using hex_value_ge[of ?a s] by simp
  moreover have "unat v < 2 ^ 32" using unsigned_less[of v, where 'a = nat] by simp
  ultimately have lt: "?a < 2 ^ 32" by simp
  have m: "checked_mul acc 16 = Some (acc * 16)"
    using lt by (simp add: checked_mul_def)
  have u: "unat (acc * 16) = unat acc * 16" using lt by (simp add: unat_word_ariths)
  have ud: "unat (ucast d :: u32) = unat d"
    by (simp add: unsigned_ucast_eq take_bit_nat_eq_self less_trans[OF unsigned_less])
  have a: "checked_add (acc * 16) (ucast d) = Some (acc * 16 + ucast d)"
    using lt by (simp add: checked_add_def u ud)
  have ua: "unat (acc * 16 + ucast d) = ?a" using lt by (simp add: unat_word_ariths u ud)
  show ?case using Cons.IH[of "acc * 16 + ucast d"] Cons.prems e by (simp add: d m a ua)
qed (simp add: hex_value_from_def word_unat_eq_iff)

definition vs_ok :: "VersionString \<Rightarrow> bool" where
  "vs_ok vs \<longleftrightarrow> vs_major vs \<le> VERSION_DIGIT_MAX \<and> vs_minor vs \<le> VERSION_DIGIT_MAX \<and> vs_size vs \<le> VERSION_SIZE_MAX"

lemma vs_ok_bounds: "vs_ok vs \<longleftrightarrow> unat (vs_major vs) < 16 \<and> unat (vs_minor vs) < 16 \<and> unat (vs_size vs) < 16 ^ 6"
  unfolding vs_ok_def word_le_nat_alt VERSION_DIGIT_MAX_def VERSION_SIZE_MAX_def by auto

lemma VersionString_new_ok: "VersionString_new p major minor k s = Inr vs \<Longrightarrow> vs_ok vs"
  by (auto simp: VersionString_new_def vs_ok_def split: if_splits)

lemma hex_pad_6:
  assumes "unat v < 16 ^ 6"
  shows "length (hex_pad 6 (unat v)) = 6" "decode_hex_size (hex_pad 6 (unat v)) = Inr v"
proof -
  have l: "length (hex_digits (unat v)) \<le> 6" using hex_digits_props(3)[of "unat v" 5] assms by simp
  then show "length (hex_pad 6 (unat v)) = 6" by (simp add: hex_pad_def Let_def)
  have z: "decode_hex_digit (of_char CHR ''0'') = Some 0" by code_simp
  have f: "foldl (\<lambda>a b. a * 16 + (case decode_hex_digit b of Some d \<Rightarrow> unat d | None \<Rightarrow> 0)) 0
      (replicate k (of_char CHR ''0'')) = 0" for k
    by (induction k) (use z in simp_all)
  have "hex_value_from 0 (hex_pad 6 (unat v)) = unat v"
    using hex_digits_props(2)[of "unat v"] f by (simp add: hex_pad_def Let_def hex_value_from_def)
  moreover have "\<forall>b \<in> set (hex_pad 6 (unat v)). decode_hex_digit b \<noteq> None"
    using hex_digits_props(1)[of "unat v"] z by (auto simp: hex_pad_def Let_def)
  ultimately show "decode_hex_size (hex_pad 6 (unat v)) = Inr v"
    by (simp add: decode_hex_size_def decode_hex_fold_value)
qed

lemma version1_parse_write:
  assumes "vs_ok vs"
  shows "VersionString_parse (VersionString_to_str vs @ rest) = Inr (vs, rest)"
proof -
  let ?p = "str_bytes (Protocol_as_str (vs_proto vs))" and ?k = "str_bytes (SerializationKind_as_str (vs_kind vs))"
  let ?f = "?p @ [hex_digit (unat (vs_major vs))] @ [hex_digit (unat (vs_minor vs))] @ ?k @
    hex_pad 6 (unat (vs_size vs)) @ [V1_TERMINATOR]"
  have b: "unat (vs_major vs) < 16" "unat (vs_minor vs) < 16" "unat (vs_size vs) < 16 ^ 6"
    using assms by (simp_all add: vs_ok_bounds)
  have s: "VersionString_to_str vs = ?f"
    using b hex_digits.simps[of "unat (vs_major vs)"] hex_digits.simps[of "unat (vs_minor vs)"]
    by (simp add: VersionString_to_str_def)
  have l: "length ?f = 17" using hex_pad_6(1)[OF b(3)] by simp
  have "split_frame (VersionString_to_str vs @ rest) VERSION_STRING_LEN = Inr (?f, rest)"
    unfolding s split_frame_Inr VERSION_STRING_LEN_def using l by simp
  moreover have "take 4 ?f = ?p" "?f ! 4 = hex_digit (unat (vs_major vs))" "?f ! 5 = hex_digit (unat (vs_minor vs))"
    "take 4 (drop 6 ?f) = ?k" "take 6 (drop 10 ?f) = hex_pad 6 (unat (vs_size vs))" "?f ! 16 = V1_TERMINATOR"
    using hex_pad_6(1)[OF b(3)] by (simp_all add: nth_append)
  moreover have "Protocol_from_wire ?p = Inr (vs_proto vs)" "SerializationKind_from_wire ?k = Inr (vs_kind vs)"
    by (simp_all add: Protocol_from_wire_iff SerializationKind_from_wire_iff)
  ultimately show ?thesis
    unfolding VersionString_parse_def
    by (simp only: res_bind.simps Let_def prod.case ok_or.simps decode_hex_digit_hex[OF b(1)] decode_hex_digit_hex[OF b(2)]
        hex_pad_6(2)[OF b(3)] ensure_True of_nat_unat ucast_id) simp
qed

end
