(* ===== verification/Stream_Error.thy ===== *)
theory Stream_Error
  imports Cesr_Counter Cesr_Version
begin

unbundle bit_operations_syntax

text \<open>
  The vocabulary of the stream layer (\<^verbatim>\<open>crates/cesr-stream/src/\<close>): its error type with
  the conversions from the errors of the layers below (\<^verbatim>\<open>error.rs\<close>) and the cold-start
  classification of a first byte (\<^verbatim>\<open>cold.rs\<close>).
\<close>

section \<open>Cold start\<close>

datatype ColdCode = CesrBase64 | CesrBinary | Json | Cbor | MessagePack

datatype Tritet = AnB64 | CtB64 | OpB64 | TritetJson | Mgpk1 | TritetCbor | Mgpk2 | CtOpB2

definition Tritet_detect :: "byte \<Rightarrow> Tritet" where
  "Tritet_detect b =
     (let t = drop_bit 5 b in
      if t = 0 then AnB64 else if t = 1 then CtB64 else if t = 2 then OpB64 else if t = 3 then TritetJson
      else if t = 4 then Mgpk1 else if t = 5 then TritetCbor else if t = 6 then Mgpk2 else CtOpB2)"

primrec cold_of_tritet :: "Tritet \<Rightarrow> ColdCode" where
  "cold_of_tritet AnB64 = CesrBase64"
| "cold_of_tritet CtB64 = CesrBase64"
| "cold_of_tritet OpB64 = CesrBase64"
| "cold_of_tritet TritetJson = Json"
| "cold_of_tritet Mgpk1 = MessagePack"
| "cold_of_tritet Mgpk2 = MessagePack"
| "cold_of_tritet TritetCbor = Cbor"
| "cold_of_tritet CtOpB2 = CesrBinary"

section \<open>Errors\<close>

datatype SpanKind =
    GroupStart | GroupSpan | GroupOffset | QuadletCount | QuadletSpan | ElementSpan | ElementCount
  | CursorPosition | EventSize | CounterSoftSize

datatype LimitKind =
    BodyBytes | AttachmentBytes | AttachmentGroups | GroupElements | Signatures | NestedGroups | NestingDepth

text \<open>The text of a UTF-8 failure is not kept; lengths and limits are naturals.\<close>

datatype ParseError =
    NeedBytes nat
  | Truncated nat
  | LimitExceeded LimitKind nat nat
  | UnsupportedColdStart ColdCode
  | UnsupportedVersion CesrVersion
  | VersionKindMismatch ColdCode SerializationKind
  | UnknownMatterCode bytes
  | UnknownCounterCode bytes
  | UnexpectedCodeType string ValidationError
  | NotAnAttachmentGroup string
  | Overflow SpanKind
  | NotACounter "byte option"
  | NestedCounterMismatch string string string
  | GenusVersionNotAGroup
  | Misaligned nat nat
  | InvalidUtf8 string
  | CountExceedsCapacity u64 u64
  | DepthExceeded nat
  | UnknownColdStart byte
  | UnsupportedGenusVersion u32
  | VersionMismatch string CesrVersion
  | MissingVersionString
  | InvalidEventSize nat nat
  | MatterParse ParsingError
  | MatterValidation ValidationError
  | IndexerParse IndexerParseError
  | IndexerValidation IndexerValidationError
  | Base64 b64_error
  | Io string
  | VersionFailed VersionError

fun parse_error_of_version :: "VersionError \<Rightarrow> ParseError" where
  "parse_error_of_version (VersionTruncated needed) = NeedBytes needed"
| "parse_error_of_version e = VersionFailed e"

fun parse_error_of_parsing :: "ParsingError \<Rightarrow> ParseError" where
  "parse_error_of_parsing ParsingError.EmptyStream = NeedBytes 1"
| "parse_error_of_parsing (ParsingError.StreamTooShort _) = NeedBytes 1"
| "parse_error_of_parsing (ParsingError.UnknownMatterCode s) = UnknownMatterCode s"
| "parse_error_of_parsing e = MatterParse e"

fun parse_error_of_build :: "MatterBuildError \<Rightarrow> ParseError" where
  "parse_error_of_build (Parsing e) = parse_error_of_parsing e"
| "parse_error_of_build (Validation e) = MatterValidation e"

fun parse_error_of_counter :: "CounterCodeError \<Rightarrow> ParseError" where
  "parse_error_of_counter (CounterCodeError.StreamTooShort need) = NeedBytes need"
| "parse_error_of_counter CounterCodeError.NotACounter = NotACounter None"
| "parse_error_of_counter (CounterCodeError.UnknownCode s) = UnknownCounterCode s"

fun parse_error_of_indexer :: "IndexerParseError \<Rightarrow> ParseError" where
  "parse_error_of_indexer IndexerParseError.EmptyStream = NeedBytes 1"
| "parse_error_of_indexer (IndexerParseError.StreamTooShort need _) = NeedBytes need"
| "parse_error_of_indexer e = IndexerParse e"

fun parse_error_of_base64 :: "b64_error \<Rightarrow> ParseError" where
  "parse_error_of_base64 (b64_error.Misaligned len unit) = Misaligned len unit"
| "parse_error_of_base64 e = Base64 e"

definition ColdCode_detect :: "byte \<Rightarrow> ParseError + ColdCode" where
  "ColdCode_detect b =
     (if b = of_char CHR ''{'' then Inr Json
      else if 0xa0 \<le> b \<and> b \<le> 0xbf then Inr Cbor
      else if 0x80 \<le> b \<and> b \<le> 0x8f \<or> b = 0xde \<or> b = 0xdf then Inr MessagePack
      else if b AND 0x80 \<noteq> 0 then Inr CesrBinary
      else if is_ascii_alphanumeric b \<or> b = of_char CHR ''-'' \<or> b = of_char CHR ''_'' then Inr CesrBase64
      else Inl (UnknownColdStart b))"

section \<open>Checked arithmetic of indices\<close>

text \<open>\<^verbatim>\<open>checked_add\<close> and \<^verbatim>\<open>checked_mul\<close> on usize, with the error of the caller.\<close>

definition usize_add :: "ParseError \<Rightarrow> nat \<Rightarrow> nat \<Rightarrow> ParseError + nat" where
  "usize_add e a b = (if a + b < usize_bound then Inr (a + b) else Inl e)"

definition usize_mul :: "ParseError \<Rightarrow> nat \<Rightarrow> nat \<Rightarrow> ParseError + nat" where
  "usize_mul e a b = (if a * b < usize_bound then Inr (a * b) else Inl e)"

definition saturating_add :: "nat \<Rightarrow> nat \<Rightarrow> nat" where
  "saturating_add a b = min (a + b) (usize_bound - 1)"

definition saturating_mul :: "nat \<Rightarrow> nat \<Rightarrow> nat" where
  "saturating_mul a b = min (a * b) (usize_bound - 1)"

definition usize_max :: nat where
  "usize_max = usize_bound - 1"

lemma usize_add_Inr [simp, res_simps]: "usize_add e a b = Inr c \<longleftrightarrow> c = a + b \<and> a + b < usize_bound"
  by (auto simp: usize_add_def)

lemma usize_mul_Inr [simp, res_simps]: "usize_mul e a b = Inr c \<longleftrightarrow> c = a * b \<and> a * b < usize_bound"
  by (auto simp: usize_mul_def)

text \<open>\<^verbatim>\<open>input.get(start..)\<close>.\<close>

definition slice_from :: "'a list \<Rightarrow> nat \<Rightarrow> 'a list option" where
  "slice_from xs a = (if a \<le> length xs then Some (drop a xs) else None)"

lemma slice_from_Some [simp]: "slice_from xs a = Some ys \<longleftrightarrow> a \<le> length xs \<and> ys = drop a xs"
  by (auto simp: slice_from_def)

text \<open>The text domain and the bodies are told apart: a cold start that is not an error is one class.\<close>

lemma cold_counter: "ColdCode_detect (of_char CHR ''-'') = Inr CesrBase64"
  by code_simp

end
