(* ===== verification/Stream_Text.thy ===== *)
theory Stream_Text
  imports Stream_Error
begin

text \<open>
  \<^verbatim>\<open>parse.rs\<close>: the checked cursor \<^verbatim>\<open>TextStream\<close> over text-domain bytes. Every advance
  goes through \<^verbatim>\<open>take_span\<close>. A typed read decodes and narrows a primitive, a lenient skip
  sizes it by its code only. The base64 crate is the parameter \<^verbatim>\<open>dec\<close>; a failed
  read drops the cursor, as every caller does.
\<close>

record TextStream =
  ts_input :: bytes
  ts_pos :: nat

definition map_counter_err :: "bytes \<Rightarrow> CounterCodeError \<Rightarrow> ParseError" where
  "map_counter_err input e =
     (case e of
        CounterCodeError.NotACounter \<Rightarrow> NotACounter (slice_get input 0)
      | other \<Rightarrow> parse_error_of_counter other)"

definition TextStream_new :: "bytes \<Rightarrow> TextStream" where
  "TextStream_new input = \<lparr>ts_input = input, ts_pos = 0\<rparr>"

definition remaining :: "TextStream \<Rightarrow> bytes" where
  "remaining ts = drop (ts_pos ts) (ts_input ts)"

definition take_span :: "TextStream \<Rightarrow> nat \<Rightarrow> ParseError + (bytes \<times> TextStream)" where
  "take_span ts n =
     (let rem = remaining ts in
      if length rem < n then Inl (NeedBytes (n - length rem))
      else res_bind (usize_add (Overflow CursorPosition) (ts_pos ts) n) (\<lambda>pos.
           Inr (take n rem, ts\<lparr>ts_pos := pos\<rparr>)))"

section \<open>Typed reads\<close>

definition read_matter :: "(bytes \<Rightarrow> bytes option) \<Rightarrow> TextStream \<Rightarrow> ParseError + (MatterCode Matter \<times> TextStream)" where
  "read_matter dec ts =
     res_bind (map_err parse_error_of_build (frame_size (remaining ts))) (\<lambda>fs.
     res_bind (take_span ts fs) (\<lambda>(span, ts).
     res_bind (map_err parse_error_of_build (from_qualified_base64 dec span)) (\<lambda>matter.
     Inr (matter, ts))))"

definition read_indexer :: "(bytes \<Rightarrow> bytes option) \<Rightarrow> TextStream \<Rightarrow> ParseError + (Indexer \<times> TextStream)" where
  "read_indexer dec ts =
     (if remaining ts = [] then Inl (NeedBytes 1) else
      res_bind (map_err parse_error_of_indexer (Indexer_from_qb64 dec (remaining ts))) (\<lambda>(indexer, consumed).
      res_bind (take_span ts consumed) (\<lambda>(_, ts).
      Inr (indexer, ts))))"

text \<open>
  \<^verbatim>\<open>read_counter_v1\<close> and \<^verbatim>\<open>read_counter_v2\<close> are one text over the two tables.
\<close>

definition read_counter ::
    "(bytes \<Rightarrow> CounterCodeError + 'c) \<Rightarrow> ('c \<Rightarrow> nat) \<Rightarrow> ('c \<Rightarrow> nat) \<Rightarrow> TextStream \<Rightarrow> ParseError + (('c \<times> u32) \<times> TextStream)" where
  "read_counter from_b64 hard full ts =
     (let input = remaining ts in
      res_bind (map_err (map_counter_err input) (from_b64 input)) (\<lambda>c.
      let hs = hard c; fs = full c in
      res_bind (ensure (fs \<le> length input) (NeedBytes (fs - length input))) (\<lambda>_.
      let count_str = take (fs - hs) (drop hs input) in
      res_bind (ensure (from_utf8_ok count_str) (InvalidUtf8 ''counter soft field'')) (\<lambda>_.
      res_bind (map_err parse_error_of_base64 (decode_int count_str)) (\<lambda>count.
      res_bind (take_span ts fs) (\<lambda>(_, ts).
      Inr ((c, count), ts)))))))"

definition read_counter_v1 :: "TextStream \<Rightarrow> ParseError + ((CounterCodeV1 \<times> u32) \<times> TextStream)" where
  "read_counter_v1 ts = read_counter CounterCodeV1_from_base64_stream CounterCodeV1_hard_size CounterCodeV1_full_size ts"

definition read_counter_v2 :: "TextStream \<Rightarrow> ParseError + ((CounterCodeV2 \<times> u32) \<times> TextStream)" where
  "read_counter_v2 ts = read_counter CounterCodeV2_from_base64_stream CounterCodeV2_hard_size CounterCodeV2_full_size ts"

definition read_narrow ::
    "(bytes \<Rightarrow> bytes option) \<Rightarrow> (MatterCode \<Rightarrow> ValidationError + 'c) \<Rightarrow> string \<Rightarrow> TextStream \<Rightarrow>
     ParseError + ('c Matter \<times> TextStream)" where
  "read_narrow dec try_from expected ts =
     res_bind (read_matter dec ts) (\<lambda>(matter, ts).
     res_bind (map_err (UnexpectedCodeType expected) (narrow try_from matter)) (\<lambda>m. Inr (m, ts)))"

definition read_verfer :: "(bytes \<Rightarrow> bytes option) \<Rightarrow> TextStream \<Rightarrow> ParseError + (VerKeyCode Matter \<times> TextStream)" where
  "read_verfer dec = read_narrow dec VerKeyCode_try_from ''VerKeyCode''"

definition read_prefixer :: "(bytes \<Rightarrow> bytes option) \<Rightarrow> TextStream \<Rightarrow> ParseError + (VerKeyCode Matter \<times> TextStream)" where
  "read_prefixer dec = read_verfer dec"

definition read_identifier_prefix ::
    "(bytes \<Rightarrow> bytes option) \<Rightarrow> TextStream \<Rightarrow> ParseError + (MatterCode Matter \<times> TextStream)" where
  "read_identifier_prefix dec ts =
     res_bind (read_matter dec ts) (\<lambda>(matter, ts).
     if is_ok (VerKeyCode_try_from (m_code matter)) then Inr (matter, ts)
     else case DigestCode_try_from (m_code matter) of
            Inr _ \<Rightarrow> Inr (matter, ts)
          | Inl e \<Rightarrow> Inl (UnexpectedCodeType ''VerKeyCode or DigestCode'' e))"

definition read_diger :: "(bytes \<Rightarrow> bytes option) \<Rightarrow> TextStream \<Rightarrow> ParseError + (DigestCode Matter \<times> TextStream)" where
  "read_diger dec = read_narrow dec DigestCode_try_from ''DigestCode''"

definition read_saider :: "(bytes \<Rightarrow> bytes option) \<Rightarrow> TextStream \<Rightarrow> ParseError + (DigestCode Matter \<times> TextStream)" where
  "read_saider dec = read_diger dec"

definition read_cigar :: "(bytes \<Rightarrow> bytes option) \<Rightarrow> TextStream \<Rightarrow> ParseError + (SignatureCode Matter \<times> TextStream)" where
  "read_cigar dec = read_narrow dec SignatureCode_try_from ''SignatureCode''"

definition read_siger :: "(bytes \<Rightarrow> bytes option) \<Rightarrow> TextStream \<Rightarrow> ParseError + (Indexer \<times> TextStream)" where
  "read_siger dec ts = read_indexer dec ts"

definition read_verser :: "(bytes \<Rightarrow> bytes option) \<Rightarrow> TextStream \<Rightarrow> ParseError + (VerserCode Matter \<times> TextStream)" where
  "read_verser dec = read_narrow dec VerserCode_try_from ''VerserCode''"

definition read_noncer :: "(bytes \<Rightarrow> bytes option) \<Rightarrow> TextStream \<Rightarrow> ParseError + (NoncerCode Matter \<times> TextStream)" where
  "read_noncer dec = read_narrow dec NoncerCode_try_from ''NoncerCode''"

definition read_labeler :: "(bytes \<Rightarrow> bytes option) \<Rightarrow> TextStream \<Rightarrow> ParseError + (LabelerCode Matter \<times> TextStream)" where
  "read_labeler dec = read_narrow dec LabelerCode_try_from ''LabelerCode''"

definition read_texter :: "(bytes \<Rightarrow> bytes option) \<Rightarrow> TextStream \<Rightarrow> ParseError + (TexterCode Matter \<times> TextStream)" where
  "read_texter dec = read_narrow dec TexterCode_try_from ''TexterCode''"

text \<open>The big-endian value of the raw bytes; a u128 keeps the last sixteen.\<close>

definition read_number :: "(bytes \<Rightarrow> bytes option) \<Rightarrow> TextStream \<Rightarrow> ParseError + (Number \<times> TextStream)" where
  "read_number dec ts =
     res_bind (read_narrow dec NumberCode_try_from ''NumberCode'' ts) (\<lambda>(narrowed, ts).
     let v = foldl (\<lambda>v b. push_bit 8 v OR ucast b) (0 :: u128) (m_raw narrowed)
     in Inr (Number_with_code (m_code narrowed) v, ts))"

section \<open>Lenient skips\<close>

definition skip_matter :: "TextStream \<Rightarrow> ParseError + TextStream" where
  "skip_matter ts =
     res_bind (map_err parse_error_of_build (frame_size (remaining ts))) (\<lambda>fs.
     res_bind (take_span ts fs) (\<lambda>(_, ts). Inr ts))"

fun skip_matters :: "nat \<Rightarrow> TextStream \<Rightarrow> ParseError + TextStream" where
  "skip_matters 0 ts = Inr ts"
| "skip_matters (Suc n) ts = res_bind (skip_matter ts) (\<lambda>ts. skip_matters n ts)"

definition skip_indexer :: "TextStream \<Rightarrow> ParseError + TextStream" where
  "skip_indexer ts =
     res_bind (map_err parse_error_of_indexer (IndexedSigCode_frame_size (remaining ts))) (\<lambda>fs.
     res_bind (take_span ts fs) (\<lambda>(_, ts). Inr ts))"

definition skip_counter :: "TextStream \<Rightarrow> ParseError + TextStream" where
  "skip_counter ts =
     (let input = remaining ts in
      res_bind (case CounterCodeV1_from_base64_stream input of
          Inr c \<Rightarrow> Inr (CounterCodeV1_full_size c)
        | Inl (CounterCodeError.UnknownCode _) \<Rightarrow>
            (case CounterCodeV2_from_base64_stream input of
               Inr c \<Rightarrow> Inr (CounterCodeV2_full_size c)
             | Inl e \<Rightarrow> Inl (map_counter_err input e))
        | Inl e \<Rightarrow> Inl (map_counter_err input e)) (\<lambda>fs.
      res_bind (take_span ts fs) (\<lambda>(_, ts). Inr ts)))"

end
