(* ===== verification/Stream_Scan.thy ===== *)
theory Stream_Scan
  imports Stream_Text
begin

text \<open>
  What the framing layer needs of the cursor. A lenient skip at a position is a
  \<^emph>\<open>sizer\<close> of the bytes that remain there, and every sizer the cursor has is
  \<^emph>\<open>settled\<close>: a size it gives does not change when more bytes arrive, and neither does a
  refusal, unless it asked for more bytes. This is what makes framing of a growing buffer
  possible. The standing hypothesis is that of every Rust slice: its length is a usize.
\<close>

fun needs_bytes :: "ParseError \<Rightarrow> bool" where
  "needs_bytes (NeedBytes _) = True"
| "needs_bytes _ = False"

definition settled :: "(bytes \<Rightarrow> ParseError + 'a) \<Rightarrow> bool" where
  "settled f \<longleftrightarrow> (\<forall>xs ys. length (xs @ ys) < usize_bound \<longrightarrow>
     (\<forall>r. f xs = Inr r \<longrightarrow> f (xs @ ys) = Inr r) \<and>
     (\<forall>e. f xs = Inl e \<longrightarrow> needs_bytes e \<or> f (xs @ ys) = Inl e))"

lemma settled_Inr: "settled f \<Longrightarrow> length (xs @ ys) < usize_bound \<Longrightarrow> f xs = Inr r \<Longrightarrow> f (xs @ ys) = Inr r"
  by (simp add: settled_def)

lemma settled_Inl:
  "settled f \<Longrightarrow> length (xs @ ys) < usize_bound \<Longrightarrow> f xs = Inl e \<Longrightarrow> \<not> needs_bytes e \<Longrightarrow> f (xs @ ys) = Inl e"
  unfolding settled_def by blast

lemma settledI:
  assumes "\<And>xs ys r. length (xs @ ys) < usize_bound \<Longrightarrow> f xs = Inr r \<Longrightarrow> f (xs @ ys) = Inr r"
    and "\<And>xs ys e. length (xs @ ys) < usize_bound \<Longrightarrow> f xs = Inl e \<Longrightarrow> \<not> needs_bytes e \<Longrightarrow> f (xs @ ys) = Inl e"
  shows "settled f"
  using assms unfolding settled_def by blast

lemma settled_cong:
  assumes "\<And>xs :: bytes. length xs < usize_bound \<Longrightarrow> f xs = g xs" "settled g"
  shows "settled f"
proof (rule settledI)
  fix xs ys :: bytes and r assume l: "length (xs @ ys) < usize_bound"
  then have "f xs = g xs" "f (xs @ ys) = g (xs @ ys)" using assms(1)[of xs] assms(1)[of "xs @ ys"] by simp_all
  then show "f xs = Inr r \<Longrightarrow> f (xs @ ys) = Inr r" using settled_Inr[OF assms(2) l] by simp
next
  fix xs ys :: bytes and e assume l: "length (xs @ ys) < usize_bound"
  then have "f xs = g xs" "f (xs @ ys) = g (xs @ ys)" using assms(1)[of xs] assms(1)[of "xs @ ys"] by simp_all
  then show "f xs = Inl e \<Longrightarrow> \<not> needs_bytes e \<Longrightarrow> f (xs @ ys) = Inl e" using settled_Inl[OF assms(2) l] by simp
qed

text \<open>Sequencing: the second reader starts where the first one stopped.\<close>

lemma settled_bind:
  assumes f: "settled f" and g: "\<And>r. settled (g r)"
    and n: "\<And>xs r. f xs = Inr r \<Longrightarrow> size_of r \<le> length xs"
  shows "settled (\<lambda>xs. res_bind (f xs) (\<lambda>r. g r (drop (size_of r) xs)))"
proof (rule settledI)
  fix xs ys y assume l: "length (xs @ ys) < usize_bound" and "res_bind (f xs) (\<lambda>r. g r (drop (size_of r) xs)) = Inr y"
  then obtain r where r: "f xs = Inr r" "g r (drop (size_of r) xs) = Inr y" by auto
  have "g r (drop (size_of r) xs @ ys) = Inr y" using settled_Inr[OF g _ r(2)] l by simp
  then show "res_bind (f (xs @ ys)) (\<lambda>r. g r (drop (size_of r) (xs @ ys))) = Inr y"
    using settled_Inr[OF f l r(1)] n[OF r(1)] by simp
next
  fix xs ys e assume l: "length (xs @ ys) < usize_bound" "\<not> needs_bytes e"
    and *: "res_bind (f xs) (\<lambda>r. g r (drop (size_of r) xs)) = Inl e"
  show "res_bind (f (xs @ ys)) (\<lambda>r. g r (drop (size_of r) (xs @ ys))) = Inl e"
  proof (cases "f xs")
    case (Inl e')
    then show ?thesis using settled_Inl[OF f l(1) Inl] * l(2) by simp
  next
    case (Inr r)
    then have "g r (drop (size_of r) xs) = Inl e" using * by simp
    then have "g r (drop (size_of r) xs @ ys) = Inl e" using settled_Inl[OF g] l by simp
    then show ?thesis using settled_Inr[OF f l(1) Inr] n[OF Inr] by simp
  qed
qed

lemma settled_then:
  assumes f: "settled f"
  shows "settled (\<lambda>xs. res_bind (f xs) g)"
proof (rule settledI)
  fix xs ys y assume "length (xs @ ys) < usize_bound" "res_bind (f xs) g = Inr y"
  then show "res_bind (f (xs @ ys)) g = Inr y" using settled_Inr[OF f] by auto
next
  fix xs ys e assume l: "length (xs @ ys) < usize_bound" "res_bind (f xs) g = Inl e" "\<not> needs_bytes e"
  show "res_bind (f (xs @ ys)) g = Inl e"
  proof (cases "f xs")
    case (Inl e')
    then show ?thesis using settled_Inl[OF f l(1) Inl] l by simp
  next
    case (Inr r)
    then show ?thesis using settled_Inr[OF f l(1) Inr] l by simp
  qed
qed

section \<open>The sizers\<close>

definition within :: "(bytes \<Rightarrow> ParseError + nat) \<Rightarrow> bytes \<Rightarrow> ParseError + nat" where
  "within f xs = res_bind (f xs) (\<lambda>n. if length xs < n then Inl (NeedBytes (n - length xs)) else Inr n)"

definition matter_size :: "bytes \<Rightarrow> ParseError + nat" where
  "matter_size = within (\<lambda>xs. map_err parse_error_of_build (frame_size xs))"

definition indexer_size :: "bytes \<Rightarrow> ParseError + nat" where
  "indexer_size = within (\<lambda>xs. map_err parse_error_of_indexer (IndexedSigCode_frame_size xs))"

lemma within_simps:
  "f xs = Inl e \<Longrightarrow> within f xs = Inl e"
  "f xs = Inr n \<Longrightarrow> within f xs = (if length xs < n then Inl (NeedBytes (n - length xs)) else Inr n)"
  by (simp_all add: within_def)

lemma within_Inr: "within f xs = Inr n \<longleftrightarrow> f xs = Inr n \<and> n \<le> length xs"
  by (cases "f xs") (auto simp: within_simps)

lemma settled_within:
  assumes f: "settled f"
  shows "settled (within f)"
proof (rule settledI)
  fix xs ys n assume l: "length (xs @ ys) < usize_bound" and "within f xs = Inr n"
  then show "within f (xs @ ys) = Inr n" using settled_Inr[OF f l] by (auto simp: within_Inr)
next
  fix xs ys e assume l: "length (xs @ ys) < usize_bound" and e: "within f xs = Inl e" "\<not> needs_bytes e"
  show "within f (xs @ ys) = Inl e"
  proof (cases "f xs")
    case (Inl e')
    then show ?thesis using settled_Inl[OF f l Inl] e by (simp add: within_simps)
  next
    case (Inr n)
    then show ?thesis using e by (auto simp: within_simps split: if_splits)
  qed
qed

text \<open>A head that is recognised, or refused, within its first bytes.\<close>

lemma from_base64_stream_append:
  "from_base64_stream xs = Inr c \<Longrightarrow> from_base64_stream (xs @ ys) = Inr c"
  by (auto simp: from_base64_stream_iff)

lemma slice_get_0_append: "slice_get xs 0 = Some b \<Longrightarrow> slice_get (xs @ ys) 0 = Some b"
  by (auto simp: slice_get_def nth_append)

lemma from_base64_stream_refuse:
  assumes "from_base64_stream xs = Inl e" "\<not> needs_bytes (parse_error_of_parsing e)"
  shows "from_base64_stream (xs @ ys) = Inl e"
proof (cases "slice_get xs 0")
  case None
  then show ?thesis using assms by (auto simp: from_base64_stream_def)
next
  case (Some b)
  note b = this slice_get_0_append[OF this, of ys]
  show ?thesis
  proof (cases "get_hard_size_from_byte b")
    case None
    then show ?thesis using assms b by (simp add: from_base64_stream_def)
  next
    case (Some hs)
    show ?thesis
    proof (cases "hs \<le> length xs")
      case True
      then show ?thesis using assms b Some by (simp add: from_base64_stream_def)
    next
      case False
      then show ?thesis using assms b Some by (auto simp: from_base64_stream_def ensure_def)
    qed
  qed
qed

lemma take_drop_append: "i + k \<le> length xs \<Longrightarrow> take k (drop i (xs @ ys)) = take k (drop i xs)"
  by simp

lemma frame_size_of_append:
  assumes "frame_size_of c xs = r" "r \<noteq> Inl (Parsing (ParsingError.StreamTooShort Soft))"
  shows "frame_size_of c (xs @ ys) = r"
proof (cases "\<exists>v. sz_fs (get_sizage c) = SizeType.Fixed v")
  case True
  then show ?thesis using assms by (auto simp: frame_size_of_def)
next
  case False
  let ?hs = "sz_hs (get_sizage c)" and ?cs = "sz_hs (get_sizage c) + sz_ss (get_sizage c)"
  have xs: "sz_xs (get_sizage c) = 0" using variable_soft False by blast
  show ?thesis
  proof (cases "?cs \<le> length xs")
    case True
    have "take (?cs - ?hs) (drop ?hs (xs @ ys)) = take (?cs - ?hs) (drop ?hs xs)"
      using True by (intro take_drop_append) simp
    then show ?thesis using assms False True xs
      by (cases "sz_fs (get_sizage c)") (simp_all add: frame_size_of_def Let_def)
  next
    case no: False
    then have "frame_size_of c xs = Inl (Parsing (ParsingError.StreamTooShort Soft))"
      using False by (cases "sz_fs (get_sizage c)") (auto simp: frame_size_of_def Let_def ensure_def)
    then show ?thesis using assms by simp
  qed
qed

lemma settled_frame_size: "settled (\<lambda>xs. map_err parse_error_of_build (frame_size xs))"
proof (rule settledI)
  fix xs ys r assume "map_err parse_error_of_build (frame_size xs) = Inr r"
  then obtain c where c: "from_base64_stream xs = Inr c" "frame_size_of c xs = Inr r" by (auto simp: frame_size_def)
  then show "map_err parse_error_of_build (frame_size (xs @ ys)) = Inr r"
    using from_base64_stream_append[OF c(1)] frame_size_of_append[OF c(2), of ys] by (simp add: frame_size_def)
next
  fix xs ys e assume e: "map_err parse_error_of_build (frame_size xs) = Inl e" "\<not> needs_bytes e"
  show "map_err parse_error_of_build (frame_size (xs @ ys)) = Inl e"
  proof (cases "from_base64_stream xs")
    case (Inl e')
    then show ?thesis using e from_base64_stream_refuse[OF Inl, of ys] by (simp add: frame_size_def)
  next
    case (Inr c)
    then obtain e' where e': "frame_size_of c xs = Inl e'" "e = parse_error_of_build e'"
      using e by (auto simp: frame_size_def map_err_Inl)
    then have "frame_size_of c (xs @ ys) = Inl e'" using e(2) by (intro frame_size_of_append) auto
    then show ?thesis using e' from_base64_stream_append[OF Inr, of ys] by (simp add: frame_size_def)
  qed
qed

lemma Indexer_read_code_append:
  assumes "Indexer_read_code xs = r"
    "\<not> (\<exists>e. r = Inl e \<and> needs_bytes (parse_error_of_indexer e))"
  shows "Indexer_read_code (xs @ ys) = r"
proof (cases "slice_get xs 0")
  case None
  then show ?thesis using assms by (auto simp: Indexer_read_code_def)
next
  case (Some b)
  note b = this slice_get_0_append[OF this, of ys]
  show ?thesis
  proof (cases "hardage b")
    case None
    then show ?thesis using assms b by (simp add: Indexer_read_code_def)
  next
    case (Some hs)
    show ?thesis
    proof (cases "hs \<le> length xs")
      case True
      then show ?thesis using assms b Some by (simp add: Indexer_read_code_def)
    next
      case False
      then show ?thesis using assms b Some by (auto simp: Indexer_read_code_def ensure_def)
    qed
  qed
qed

lemma Indexer_frame_size_of_append:
  assumes "IndexedSigCode_frame_size_of c xs = r"
    "\<not> (\<exists>e. r = Inl e \<and> needs_bytes (parse_error_of_indexer e))"
  shows "IndexedSigCode_frame_size_of c (xs @ ys) = r"
proof (cases "xz_fs (get_xizage c)")
  case (Fixed n)
  then show ?thesis using assms by (simp add: IndexedSigCode_frame_size_of_def Let_def)
next
  case Variable
  let ?xz = "get_xizage c"
  show ?thesis
  proof (cases "xz_hs ?xz + xz_ss ?xz \<le> length xs")
    case True
    then have "take (xz_ss ?xz - xz_os ?xz) (drop (xz_hs ?xz) (xs @ ys)) = take (xz_ss ?xz - xz_os ?xz) (drop (xz_hs ?xz) xs)"
      by (intro take_drop_append) simp
    then show ?thesis using assms Variable True by (simp add: IndexedSigCode_frame_size_of_def Let_def)
  next
    case False
    then show ?thesis using assms Variable by (auto simp: IndexedSigCode_frame_size_of_def Let_def ensure_def)
  qed
qed

lemma settled_indexer_frame_size: "settled (\<lambda>xs. map_err parse_error_of_indexer (IndexedSigCode_frame_size xs))"
proof (rule settledI)
  fix xs ys r assume "map_err parse_error_of_indexer (IndexedSigCode_frame_size xs) = Inr r"
  then obtain c where c: "Indexer_read_code xs = Inr c" "IndexedSigCode_frame_size_of c xs = Inr r"
    by (auto simp: IndexedSigCode_frame_size_def)
  then show "map_err parse_error_of_indexer (IndexedSigCode_frame_size (xs @ ys)) = Inr r"
    using Indexer_read_code_append[OF c(1), of ys] Indexer_frame_size_of_append[OF c(2), of ys]
    by (simp add: IndexedSigCode_frame_size_def)
next
  fix xs ys e assume e: "map_err parse_error_of_indexer (IndexedSigCode_frame_size xs) = Inl e" "\<not> needs_bytes e"
  show "map_err parse_error_of_indexer (IndexedSigCode_frame_size (xs @ ys)) = Inl e"
  proof (cases "Indexer_read_code xs")
    case (Inl e')
    then show ?thesis using e Indexer_read_code_append[OF Inl, of ys] by (simp add: IndexedSigCode_frame_size_def)
  next
    case (Inr c)
    then have "\<exists>e'. IndexedSigCode_frame_size_of c xs = Inl e' \<and> e = parse_error_of_indexer e'"
      using e by (auto simp: IndexedSigCode_frame_size_def map_err_Inl)
    then obtain e' where e': "IndexedSigCode_frame_size_of c xs = Inl e'" "e = parse_error_of_indexer e'" by blast
    then have "IndexedSigCode_frame_size_of c (xs @ ys) = Inl e'"
      using e(2) by (intro Indexer_frame_size_of_append) auto
    then show ?thesis using e' Indexer_read_code_append[OF Inr, of ys] by (simp add: IndexedSigCode_frame_size_def)
  qed
qed

lemma settled_sizes [simp, intro]: "settled matter_size" "settled indexer_size"
  unfolding matter_size_def indexer_size_def
  by (rule settled_within settled_frame_size settled_indexer_frame_size)+

section \<open>The cursor over its sizers\<close>

definition ts_ok :: "TextStream \<Rightarrow> bool" where
  "ts_ok ts \<longleftrightarrow> ts_pos ts \<le> length (ts_input ts) \<and> length (ts_input ts) < usize_bound"

definition after :: "TextStream \<Rightarrow> nat \<Rightarrow> TextStream" where
  "after ts n = ts\<lparr>ts_pos := ts_pos ts + n\<rparr>"

lemma ts_simps [simp]:
  "ts_pos (after ts n) = ts_pos ts + n" "ts_input (after ts n) = ts_input ts" "after (after ts n) m = after ts (n + m)"
  "after ts 0 = ts" "ts_pos (TextStream_new xs) = 0" "ts_input (TextStream_new xs) = xs" "remaining (TextStream_new xs) = xs"
  "remaining (after ts n) = drop n (remaining ts)"
  by (simp_all add: after_def TextStream_new_def remaining_def add.commute)

lemma ts_ok_new [simp]: "ts_ok (TextStream_new xs) \<longleftrightarrow> length xs < usize_bound"
  by (simp add: ts_ok_def)

lemma ts_ok_remaining: "ts_ok ts \<Longrightarrow> length (remaining ts) < usize_bound"
  by (auto simp: ts_ok_def remaining_def)

lemma ts_ok_after: "ts_ok ts \<Longrightarrow> n \<le> length (remaining ts) \<Longrightarrow> ts_ok (after ts n)"
  by (auto simp: ts_ok_def remaining_def)

lemma take_span_eq:
  "ts_ok ts \<Longrightarrow> take_span ts n =
     (if length (remaining ts) < n then Inl (NeedBytes (n - length (remaining ts)))
      else Inr (take n (remaining ts), after ts n))"
  by (auto simp: take_span_def Let_def ts_ok_def remaining_def usize_add_def after_def)

lemma skip_matter_eq: "ts_ok ts \<Longrightarrow> skip_matter ts = res_bind (matter_size (remaining ts)) (\<lambda>n. Inr (after ts n))"
  by (cases "map_err parse_error_of_build (frame_size (remaining ts))")
     (simp_all add: skip_matter_def matter_size_def within_def take_span_eq)

lemma skip_indexer_eq: "ts_ok ts \<Longrightarrow> skip_indexer ts = res_bind (indexer_size (remaining ts)) (\<lambda>n. Inr (after ts n))"
  by (cases "map_err parse_error_of_indexer (IndexedSigCode_frame_size (remaining ts))")
     (simp_all add: skip_indexer_def indexer_size_def within_def take_span_eq)

text \<open>A run of skips is one sizer.\<close>

fun sizes :: "(bytes \<Rightarrow> ParseError + nat) list \<Rightarrow> bytes \<Rightarrow> ParseError + nat" where
  "sizes [] xs = Inr 0"
| "sizes (f # fs) xs = res_bind (f xs) (\<lambda>n. res_bind (sizes fs (drop n xs)) (\<lambda>m. Inr (n + m)))"

definition sizer :: "(bytes \<Rightarrow> ParseError + nat) \<Rightarrow> bool" where
  "sizer f \<longleftrightarrow> settled f \<and> (\<forall>xs n. f xs = Inr n \<longrightarrow> 0 < n \<and> n \<le> length xs)"

lemma sizer_bound: "sizer f \<Longrightarrow> f xs = Inr n \<Longrightarrow> 0 < n \<and> n \<le> length xs"
  by (simp add: sizer_def)

lemma sizer_settled: "sizer f \<Longrightarrow> settled f"
  by (simp add: sizer_def)

lemma sizes_bound: "\<forall>f \<in> set fs. sizer f \<Longrightarrow> sizes fs xs = Inr n \<Longrightarrow> n \<le> length xs \<and> (fs \<noteq> [] \<longrightarrow> 0 < n)"
proof (induction fs arbitrary: xs n)
  case (Cons f fs)
  then obtain k m where k: "f xs = Inr k" "sizes fs (drop k xs) = Inr m" "n = k + m" by auto
  then show ?case using Cons.IH[of "drop k xs" m] sizer_bound[of f xs k] Cons.prems(1) by auto
qed simp

lemma settled_map: "settled f \<Longrightarrow> settled (\<lambda>xs. res_bind (f xs) (\<lambda>r. Inr (g r)))"
  by (rule settled_then)

lemma settled_sizes_list: "\<forall>f \<in> set fs. sizer f \<Longrightarrow> settled (sizes fs)"
proof (induction fs)
  case Nil
  show ?case by (rule settledI) simp_all
next
  case (Cons f fs)
  have e: "sizes (f # fs) = (\<lambda>xs. res_bind (f xs) (\<lambda>n. (\<lambda>xs. res_bind (sizes fs xs) (\<lambda>m. Inr (n + m))) (drop n xs)))"
    by (rule ext) simp
  show ?case unfolding e
    using Cons by (intro settled_bind settled_map) (auto dest: sizer_bound simp: sizer_settled)
qed

lemma frame_size_pos: "frame_size xs = Inr n \<Longrightarrow> 0 < n"
proof -
  assume "frame_size xs = Inr n"
  then obtain c where "frame_size_of c xs = Inr n" by (auto simp: frame_size_def)
  moreover have "v = 0 \<Longrightarrow> sz_fs (get_sizage c) \<noteq> SizeType.Fixed v" for v
    using sizage_ok[of c] hs_pos[of c] by (auto simp: sizage_ok_def Let_def)
  ultimately show "0 < n"
    using hs_pos[of c]
    by (auto simp: frame_size_of_def Let_def compute_full_size_def split: SizeType.splits if_splits intro: gr0I)
qed

lemma xz_hs_pos: "0 < xz_hs (get_xizage c)"
  by (cases c) (simp_all add: get_xizage_def Xizage_new_def)

lemma indexer_frame_size_pos: "IndexedSigCode_frame_size xs = Inr n \<Longrightarrow> 0 < n"
proof -
  assume "IndexedSigCode_frame_size xs = Inr n"
  then obtain c where "IndexedSigCode_frame_size_of c xs = Inr n" by (auto simp: IndexedSigCode_frame_size_def)
  moreover have "xz_fs (get_xizage c) \<noteq> XizageSize.Fixed 0"
    by (cases c) (simp_all add: get_xizage_def Xizage_new_def)
  ultimately show "0 < n"
    using xz_hs_pos[of c]
    by (auto simp: IndexedSigCode_frame_size_of_def Let_def Indexer_compute_full_size_def split: XizageSize.splits if_splits intro: gr0I)
qed

lemma sizer_sizes [simp, intro]: "sizer matter_size" "sizer indexer_size"
  by (auto simp: sizer_def matter_size_def[THEN fun_cong] indexer_size_def[THEN fun_cong] within_Inr
    dest: frame_size_pos indexer_frame_size_pos)

lemma skip_matters_eq:
  "ts_ok ts \<Longrightarrow> skip_matters k ts = res_bind (sizes (replicate k matter_size) (remaining ts)) (\<lambda>n. Inr (after ts n))"
proof (induction k arbitrary: ts)
  case (Suc k)
  show ?case
  proof (cases "matter_size (remaining ts)")
    case (Inr n)
    then have "ts_ok (after ts n)" using Suc.prems sizer_bound[OF sizer_sizes(1)] by (blast intro: ts_ok_after)
    then show ?thesis
      using Suc.IH[of "after ts n"] Suc.prems Inr
      by (simp add: skip_matter_eq res_bind_assoc add.commute)
  qed (use Suc.prems in \<open>simp add: skip_matter_eq\<close>)
qed simp

end
