(* ===== verification/Stream_Count.thy ===== *)
theory Stream_Count
  imports Stream_Scan
begin

text \<open>
  \<^verbatim>\<open>encode.rs\<close>: writing a counter code with its count, with and without promotion to the
  big code. The lemmas make writing and reading a counter exact inverses, once for any
  counter table.
\<close>

section \<open>The encoder\<close>

definition check_counter_capacity :: "nat \<Rightarrow> u32 \<Rightarrow> ParseError + nat" where
  "check_counter_capacity ss count =
     res_bind (ensure (ss \<noteq> 0) (Overflow CounterSoftSize)) (\<lambda>_.
     res_bind (ok_or (Overflow CounterSoftSize)
        (if ss < 2 ^ 32 \<and> (64 :: nat) ^ ss < 2 ^ 64 then Some (word_of_nat (64 ^ ss) - 1 :: u64) else None)) (\<lambda>capacity.
     if capacity < ucast count then Inl (CountExceedsCapacity (ucast count) capacity) else Inr ss))"

definition encode_soft_into :: "u32 \<Rightarrow> nat \<Rightarrow> bytes \<Rightarrow> bytes" where
  "encode_soft_into count width out =
     out @ map (\<lambda>pos. let shift = 6 * pos;
                         digit = (if 32 \<le> shift then 0 else drop_bit shift count AND 0x3F)
                     in B64_ALPHABET ! unat digit) (rev [0..<width])"

definition encode_count_into ::
    "('c \<Rightarrow> string) \<Rightarrow> ('c \<Rightarrow> nat) \<Rightarrow> 'c \<Rightarrow> u32 \<Rightarrow> bytes \<Rightarrow> ParseError + bytes" where
  "encode_count_into str soft c count dst =
     res_bind (check_counter_capacity (soft c) count) (\<lambda>ss.
     Inr (encode_soft_into count ss (dst @ str_bytes (str c))))"

definition encode_count_auto_into ::
    "('c \<Rightarrow> string) \<Rightarrow> ('c \<Rightarrow> nat) \<Rightarrow> ('c \<Rightarrow> 'c option) \<Rightarrow> 'c \<Rightarrow> u32 \<Rightarrow> bytes \<Rightarrow> ParseError + bytes" where
  "encode_count_auto_into str soft big_of c count dst =
     (case encode_count_into str soft c count dst of
        Inl (CountExceedsCapacity n cap) \<Rightarrow>
          (case big_of c of
             None \<Rightarrow> Inl (CountExceedsCapacity n cap)
           | Some big \<Rightarrow> encode_count_into str soft big count dst)
      | other \<Rightarrow> other)"

definition CounterCodeV1_encode_count_into :: "CounterCodeV1 \<Rightarrow> u32 \<Rightarrow> bytes \<Rightarrow> ParseError + bytes" where
  "CounterCodeV1_encode_count_into = encode_count_into CounterCodeV1_as_str CounterCodeV1_soft_size"

definition CounterCodeV1_encode_count :: "CounterCodeV1 \<Rightarrow> u32 \<Rightarrow> ParseError + bytes" where
  "CounterCodeV1_encode_count c count = CounterCodeV1_encode_count_into c count []"

definition CounterCodeV1_encode_count_auto_into :: "CounterCodeV1 \<Rightarrow> u32 \<Rightarrow> bytes \<Rightarrow> ParseError + bytes" where
  "CounterCodeV1_encode_count_auto_into =
     encode_count_auto_into CounterCodeV1_as_str CounterCodeV1_soft_size CounterCodeV1_to_big"

definition CounterCodeV1_encode_count_auto :: "CounterCodeV1 \<Rightarrow> u32 \<Rightarrow> ParseError + bytes" where
  "CounterCodeV1_encode_count_auto c count = CounterCodeV1_encode_count_auto_into c count []"

definition CounterCodeV2_encode_count_into :: "CounterCodeV2 \<Rightarrow> u32 \<Rightarrow> bytes \<Rightarrow> ParseError + bytes" where
  "CounterCodeV2_encode_count_into = encode_count_into CounterCodeV2_as_str CounterCodeV2_soft_size"

definition CounterCodeV2_encode_count :: "CounterCodeV2 \<Rightarrow> u32 \<Rightarrow> ParseError + bytes" where
  "CounterCodeV2_encode_count c count = CounterCodeV2_encode_count_into c count []"

definition CounterCodeV2_encode_count_auto_into :: "CounterCodeV2 \<Rightarrow> u32 \<Rightarrow> bytes \<Rightarrow> ParseError + bytes" where
  "CounterCodeV2_encode_count_auto_into =
     encode_count_auto_into CounterCodeV2_as_str CounterCodeV2_soft_size CounterCodeV2_to_big"

definition CounterCodeV2_encode_count_auto :: "CounterCodeV2 \<Rightarrow> u32 \<Rightarrow> ParseError + bytes" where
  "CounterCodeV2_encode_count_auto c count = CounterCodeV2_encode_count_auto_into c count []"

section \<open>The encoder writes the fixed-width digits\<close>

lemma encode_soft_digits: "encode_soft_into v w out = out @ b64_digits w (unat v)"
proof -
  have "unat (if 32 \<le> 6 * p then 0 else drop_bit (6 * p) v AND 0x3F :: u32) = unat v div 64 ^ p mod 64" for p
  proof (cases "32 \<le> 6 * p")
    case True
    have "unat v < 2 ^ 32" using unsigned_less[of v, where 'a = nat] by simp
    also have "(2 :: nat) ^ 32 \<le> 2 ^ (6 * p)" using True by (intro power_increasing) auto
    finally have "unat v div 64 ^ p = 0" by (simp add: power_mult)
    then show ?thesis using True by simp
  next
    case False
    have "63 = (0x3F :: u32)" by simp
    then have "unat (drop_bit (6 * p) v AND 63) = unat v div 64 ^ p mod 64"
      unfolding and_masks unsigned_take_bit_eq unat_drop_bit_eq
      by (simp add: take_bit_eq_mod drop_bit_eq_div power_mult)
    then show ?thesis using False by simp
  qed
  then show ?thesis by (simp add: encode_soft_into_def b64_digits_def Let_def)
qed

lemma check_counter_capacity_eq:
  assumes "0 < ss" "ss \<le> 5"
  shows "check_counter_capacity ss n =
    (if unat n < 64 ^ ss then Inr ss else Inl (CountExceedsCapacity (ucast n) (word_of_nat (64 ^ ss) - 1)))"
proof -
  have p: "(64 :: nat) ^ ss \<le> 64 ^ 5" "1 \<le> (64 :: nat) ^ ss" using assms by (intro power_increasing) auto
  have u: "unat (ucast n :: u64) = unat n"
    by (simp add: unsigned_ucast_eq take_bit_nat_eq_self less_trans[OF unsigned_less])
  have w: "unat (word_of_nat (64 ^ ss) :: u64) = 64 ^ ss" using p by (simp only: unat_of_nat) simp
  have "1 \<le> (word_of_nat (64 ^ ss) :: u64)" unfolding word_le_nat_alt w using p by simp
  then have "unat (word_of_nat (64 ^ ss) - 1 :: u64) = 64 ^ ss - 1" by (simp only: unat_sub w) simp
  moreover have "64 ^ ss - 1 < unat n \<longleftrightarrow> \<not> unat n < 64 ^ ss" using p(2) by linarith
  ultimately have "(word_of_nat (64 ^ ss) - 1 :: u64) < ucast n \<longleftrightarrow> \<not> unat n < 64 ^ ss"
    unfolding word_less_nat_alt u by simp
  moreover have "(64 :: nat) ^ ss < 2 ^ 64" using p by simp
  ultimately show ?thesis using assms by (simp add: check_counter_capacity_def del: of_nat_power)
qed

definition counter_wire :: "('c \<Rightarrow> string) \<Rightarrow> ('c \<Rightarrow> nat) \<Rightarrow> 'c \<Rightarrow> u32 \<Rightarrow> bytes" where
  "counter_wire str soft c n = str_bytes (str c) @ b64_digits (soft c) (unat n)"

context counter_table
begin

lemma soft_bounds: "0 < soft_size c \<and> soft_size c \<le> 5"
  using sizes[of c] by auto

lemma encode_count_eq:
  "encode_count_into as_str soft_size c n dst =
    (if unat n < 64 ^ soft_size c then Inr (dst @ counter_wire as_str soft_size c n)
     else Inl (CountExceedsCapacity (ucast n) (word_of_nat (64 ^ soft_size c) - 1)))"
  using soft_bounds[of c]
  by (simp add: encode_count_into_def check_counter_capacity_eq encode_soft_digits counter_wire_def)

lemma length_counter_wire: "length (counter_wire as_str soft_size c n) = full_size c"
  by (simp add: counter_wire_def full str_bytes_def str_size)

lemma full_bounds: "4 \<le> full_size c \<and> full_size c \<le> 8"
  using sizes[of c] full[of c] by auto

text \<open>Reading is the exact inverse of writing, with whatever follows.\<close>

lemma read_counter_iff:
  assumes "ts_ok ts"
  shows "read_counter (counter_from_base64_stream from_hard) hard_size full_size ts = Inr ((c, n), ts') \<longleftrightarrow>
    unat n < 64 ^ soft_size c \<and> ts' = after ts (full_size c) \<and>
    (\<exists>rest. remaining ts = counter_wire as_str soft_size c n @ rest)"
proof -
  let ?r = "remaining ts" and ?s = "str_bytes (as_str c)"
  have ls: "length ?s = hard_size c" by (simp add: str_bytes_def str_size)
  show ?thesis
  proof
    assume "read_counter (counter_from_base64_stream from_hard) hard_size full_size ts = Inr ((c, n), ts')"
    then have *: "counter_from_base64_stream from_hard ?r = Inr c" "full_size c \<le> length ?r"
      "decode_int (take (full_size c - hard_size c) (drop (hard_size c) ?r)) = Inr n" "ts' = after ts (full_size c)"
      by (auto simp: read_counter_def Let_def take_span_eq[OF assms] split: if_splits)
    then obtain rest where r: "?r = ?s @ rest" by (auto simp: stream_code_iff)
    have k: "full_size c - hard_size c = soft_size c" "soft_size c \<le> length rest"
      using *(2) r full[of c] ls by simp_all
    then have "decode_int (take (soft_size c) rest) = Inr n \<and> length (take (soft_size c) rest) = soft_size c"
      using *(3) r ls by simp
    then have d: "take (soft_size c) rest = b64_digits (soft_size c) (unat n)" "unat n < 64 ^ soft_size c"
      using decode_b64_digits[of "take (soft_size c) rest" n "soft_size c"] by simp_all
    have "?r = counter_wire as_str soft_size c n @ drop (soft_size c) rest"
      using r d(1) by (simp add: counter_wire_def flip: d(1))
    then show "unat n < 64 ^ soft_size c \<and> ts' = after ts (full_size c) \<and>
        (\<exists>rest. ?r = counter_wire as_str soft_size c n @ rest)"
      using d(2) *(4) by blast
  next
    assume *: "unat n < 64 ^ soft_size c \<and> ts' = after ts (full_size c) \<and>
        (\<exists>rest. ?r = counter_wire as_str soft_size c n @ rest)"
    then obtain rest where r: "?r = ?s @ b64_digits (soft_size c) (unat n) @ rest" by (auto simp: counter_wire_def)
    have f: "counter_from_base64_stream from_hard ?r = Inr c" using r by (auto simp: stream_code_iff)
    have t: "take (full_size c - hard_size c) (drop (hard_size c) ?r) = b64_digits (soft_size c) (unat n)"
      using r ls full[of c] by simp
    have d: "decode_int (b64_digits (soft_size c) (unat n)) = Inr n"
      using decode_b64_digits[of "b64_digits (soft_size c) (unat n)" n "soft_size c"] * by simp
    have l: "full_size c \<le> length ?r" using r ls full[of c] by simp
    show "read_counter (counter_from_base64_stream from_hard) hard_size full_size ts = Inr ((c, n), ts')"
      using * l by (simp add: read_counter_def f t d Let_def take_span_eq[OF assms])
  qed
qed

lemma stream_hard_size_append:
  "stream_hard_size xs = r \<Longrightarrow> \<not> (\<exists>k. r = Inl (CounterCodeError.StreamTooShort k)) \<Longrightarrow> stream_hard_size (xs @ ys) = r"
  by (auto simp: stream_hard_size_def split: list.splits if_splits)

lemma stream_code_refuse:
  assumes e: "counter_from_base64_stream from_hard xs = Inl e" "\<not> (\<exists>k. e = CounterCodeError.StreamTooShort k)"
  shows "counter_from_base64_stream from_hard (xs @ ys) = Inl e"
proof (cases "stream_hard_size xs")
  case (Inl e')
  then have "stream_hard_size (xs @ ys) = Inl e'" "e' = e"
    using e stream_hard_size_append[OF Inl, of ys] by (auto simp: counter_from_base64_stream_def)
  then show ?thesis by (simp add: counter_from_base64_stream_def)
next
  case (Inr h)
  then have "stream_hard_size (xs @ ys) = Inr h" using stream_hard_size_append[OF Inr, of ys] by simp
  then show ?thesis using e Inr by (auto simp: counter_from_base64_stream_def Let_def split: if_splits)
qed

lemma not_a_counter_head:
  "counter_from_base64_stream from_hard xs = Inl CounterCodeError.NotACounter \<Longrightarrow> xs \<noteq> [] "
  by (auto simp: counter_from_base64_stream_def stream_hard_size_def)

definition counter_head :: "bytes \<Rightarrow> ParseError + (('c \<times> u32) \<times> nat)" where
  "counter_head xs =
     res_bind (read_counter (counter_from_base64_stream from_hard) hard_size full_size (TextStream_new xs))
       (\<lambda>(cn, ts). Inr (cn, ts_pos ts))"

lemma counter_head_iff:
  "length xs < usize_bound \<Longrightarrow> counter_head xs = Inr ((c, n), k) \<longleftrightarrow>
     unat n < 64 ^ soft_size c \<and> k = full_size c \<and> (\<exists>rest. xs = counter_wire as_str soft_size c n @ rest)"
  using read_counter_iff[of "TextStream_new xs" c n] by (auto simp: counter_head_def)

lemma read_counter_refuse:
  assumes l: "length (xs @ ys) < usize_bound"
    and e: "read_counter (counter_from_base64_stream from_hard) hard_size full_size (TextStream_new xs) = Inl e" "\<not> needs_bytes e"
  shows "read_counter (counter_from_base64_stream from_hard) hard_size full_size (TextStream_new (xs @ ys)) = Inl e"
proof (cases "counter_from_base64_stream from_hard xs")
  case (Inl e')
  then have m: "map_counter_err xs e' = e" using e by (simp add: read_counter_def Let_def)
  then have n: "\<not> (\<exists>k. e' = CounterCodeError.StreamTooShort k)" using e(2) by (auto simp: map_counter_err_def)
  then have "map_counter_err (xs @ ys) e' = e"
    using m not_a_counter_head Inl
    by (cases e') (auto simp: map_counter_err_def slice_get_def nth_append)
  then show ?thesis using stream_code_refuse[OF Inl n, of ys] by (simp add: read_counter_def Let_def)
next
  case (Inr c)
  then have r: "counter_from_base64_stream from_hard (xs @ ys) = Inr c" by (auto simp: stream_code_iff)
  show ?thesis
  proof (cases "full_size c \<le> length xs")
    case True
    have "take (full_size c - hard_size c) (drop (hard_size c) (xs @ ys)) = take (full_size c - hard_size c) (drop (hard_size c) xs)"
      using True full[of c] by (intro take_drop_append) simp
    then show ?thesis
      using e Inr r True l by (auto simp: read_counter_def Let_def take_span_eq res_bind_Inl map_err_Inl)
  next
    case False
    then show ?thesis using e Inr by (auto simp: read_counter_def Let_def ensure_def)
  qed
qed

lemma settled_counter_head: "settled counter_head"
proof (rule settledI)
  fix xs ys r assume l: "length (xs @ ys) < usize_bound" and r: "counter_head xs = Inr r"
  obtain c n k where "r = ((c, n), k)" by (cases r) auto
  then show "counter_head (xs @ ys) = Inr r" using r l counter_head_iff[of xs c n k] counter_head_iff[of "xs @ ys" c n k] by auto
next
  fix xs ys e assume l: "length (xs @ ys) < usize_bound" and e: "counter_head xs = Inl e" "\<not> needs_bytes e"
  then have "read_counter (counter_from_base64_stream from_hard) hard_size full_size (TextStream_new xs) = Inl e"
    by (auto simp: counter_head_def res_bind_Inl split: prod.splits)
  from read_counter_refuse[OF l this e(2)] show "counter_head (xs @ ys) = Inl e" by (simp add: counter_head_def)
qed

lemma counter_head_size: "length xs < usize_bound \<Longrightarrow> counter_head xs = Inr (cn, k) \<Longrightarrow> 4 \<le> k \<and> k \<le> length xs"
  using full_bounds length_counter_wire by (cases cn) (fastforce simp: counter_head_iff)

end

text \<open>
  C38: A counter is read exactly where it was written: the reader returns code, count and
  position if and only if the encoder accepts the count and the input continues with the
  bytes it writes. It holds of both tables.
\<close>

theorem counter_roundtrip:
  assumes "length xs < usize_bound"
  shows "(read_counter_v1 (TextStream_new xs) = Inr ((c, n), ts) \<longleftrightarrow>
      (\<exists>w rest. CounterCodeV1_encode_count c n = Inr w \<and> xs = w @ rest \<and> ts = after (TextStream_new xs) (length w))) \<and>
    (read_counter_v2 (TextStream_new xs) = Inr ((d, n), ts) \<longleftrightarrow>
      (\<exists>w rest. CounterCodeV2_encode_count d n = Inr w \<and> xs = w @ rest \<and> ts = after (TextStream_new xs) (length w)))"
proof (intro conjI)
  have ok: "ts_ok (TextStream_new xs)" using assms by simp
  show "read_counter_v1 (TextStream_new xs) = Inr ((c, n), ts) \<longleftrightarrow>
      (\<exists>w rest. CounterCodeV1_encode_count c n = Inr w \<and> xs = w @ rest \<and> ts = after (TextStream_new xs) (length w))"
    using v1.read_counter_iff[OF ok, of c n ts]
    by (auto simp: read_counter_v1_def CounterCodeV1_from_base64_stream_def[abs_def] CounterCodeV1_encode_count_def
      CounterCodeV1_encode_count_into_def v1.encode_count_eq v1.length_counter_wire)
  show "read_counter_v2 (TextStream_new xs) = Inr ((d, n), ts) \<longleftrightarrow>
      (\<exists>w rest. CounterCodeV2_encode_count d n = Inr w \<and> xs = w @ rest \<and> ts = after (TextStream_new xs) (length w))"
    using v2.read_counter_iff[OF ok, of d n ts]
    by (auto simp: read_counter_v2_def CounterCodeV2_from_base64_stream_def[abs_def] CounterCodeV2_encode_count_def
      CounterCodeV2_encode_count_into_def v2.encode_count_eq v2.length_counter_wire)
qed

lemma counter_roundtrip_witness:
  "read_counter_v1 (TextStream_new (str_bytes ''-AACxyz'')) =
     Inr ((CounterCodeV1.ControllerIdxSigs, 2), after (TextStream_new (str_bytes ''-AACxyz'')) 4)"
proof -
  have d: "b64_digits 2 2 = str_bytes ''AC''"
    by (simp add: b64_digits_def B64_ALPHABET_eval str_bytes_def upt_rec)
  have w: "CounterCodeV1_encode_count CounterCodeV1.ControllerIdxSigs 2 = Inr (str_bytes ''-AAC'')"
    by (simp add: CounterCodeV1_encode_count_def CounterCodeV1_encode_count_into_def v1.encode_count_eq counter_wire_def d
      CounterCodeV1_soft_size_def CounterCodeV1_bigs_def) (simp add: str_bytes_def)
  have x: "str_bytes ''-AACxyz'' = str_bytes ''-AAC'' @ str_bytes ''xyz''" "length (str_bytes ''-AAC'') = 4"
    by (simp_all add: str_bytes_def)
  have l: "length (str_bytes ''-AACxyz'') < usize_bound" by (simp add: str_bytes_def)
  show ?thesis
    by (rule counter_roundtrip[OF l, THEN conjunct1, THEN iffD2]) (use w x in auto)
qed

end
