(* ===== verification/Stream_Nested.thy ===== *)
theory Stream_Nested
  imports Stream_Count
begin

text \<open>
  \<^verbatim>\<open>NestedSigCursor\<close> of \<^verbatim>\<open>group/mod.rs\<close>: the resumable position inside one \<^verbatim>\<open>-F\<close> or
  \<^verbatim>\<open>-H\<close> element, some primitives followed by a counted list of indexed signatures.
  A call returns its result with the state it leaves, also when it fails. Counts that
  only go down to zero are naturals.
\<close>

record NestedSigCursor =
  ns_pos :: nat
  ns_initial_matters :: nat
  ns_matters_left :: nat
  ns_sigs_left :: "nat option"
  ns_declared_sigs :: "nat option"
  ns_outer_v1 :: string
  ns_outer_v2 :: string

definition NestedSigCursor_new :: "nat \<Rightarrow> string \<Rightarrow> string \<Rightarrow> NestedSigCursor" where
  "NestedSigCursor_new matters outer_v1 outer_v2 =
     \<lparr>ns_pos = 0, ns_initial_matters = matters, ns_matters_left = matters, ns_sigs_left = None,
      ns_declared_sigs = None, ns_outer_v1 = outer_v1, ns_outer_v2 = outer_v2\<rparr>"

definition nested_reset :: "NestedSigCursor \<Rightarrow> NestedSigCursor" where
  "nested_reset c =
     c\<lparr>ns_pos := 0, ns_matters_left := ns_initial_matters c, ns_sigs_left := None, ns_declared_sigs := None\<rparr>"

text \<open>One skip at the cursor's position: the new position, if the skip succeeds.\<close>

definition nested_skip :: "(TextStream \<Rightarrow> ParseError + TextStream) \<Rightarrow> nat \<Rightarrow> bytes \<Rightarrow> ParseError + nat" where
  "nested_skip skip pos input =
     (case slice_from input pos of
        None \<Rightarrow> Inl (NeedBytes (pos - length input))
      | Some tail \<Rightarrow>
          res_bind (skip (TextStream_new tail)) (\<lambda>ts. usize_add (Overflow ElementSpan) pos (ts_pos ts)))"

function nested_matters :: "NestedSigCursor \<Rightarrow> bytes \<Rightarrow> (ParseError + unit) \<times> NestedSigCursor" where
  "nested_matters c input =
     (if ns_matters_left c = 0 then (Inr (), c)
      else case nested_skip skip_matter (ns_pos c) input of
             Inl e \<Rightarrow> (Inl e, c)
           | Inr pos \<Rightarrow> nested_matters (c\<lparr>ns_pos := pos, ns_matters_left := ns_matters_left c - 1\<rparr>) input)"
  by pat_completeness auto
termination by (relation "measure (\<lambda>(c, _). ns_matters_left c)") auto

definition nested_read_count :: "NestedSigCursor \<Rightarrow> CesrVersion \<Rightarrow> TextStream \<Rightarrow> ParseError + (u32 \<times> TextStream)" where
  "nested_read_count c version ts =
     (case version of
        V1 \<Rightarrow> res_bind (read_counter_v1 ts) (\<lambda>((code, count), ts).
          if code \<noteq> CounterCodeV1.ControllerIdxSigs
          then Inl (NestedCounterMismatch (ns_outer_v1 c) ''-A'' (CounterCodeV1_as_str code)) else Inr (count, ts))
      | V2 \<Rightarrow> res_bind (read_counter_v2 ts) (\<lambda>((code, count), ts).
          if code \<noteq> CounterCodeV2.ControllerIdxSigs
          then Inl (NestedCounterMismatch (ns_outer_v2 c) ''-K'' (CounterCodeV2_as_str code)) else Inr (count, ts)))"

definition nested_counter ::
    "NestedSigCursor \<Rightarrow> bytes \<Rightarrow> CesrVersion \<Rightarrow> nat \<Rightarrow> nat \<Rightarrow> (ParseError + unit) \<times> NestedSigCursor" where
  "nested_counter c input version max_group_elements max_signatures =
     (if ns_sigs_left c \<noteq> None then (Inr (), c)
      else case res_bind (ok_or (NeedBytes (ns_pos c - length input)) (slice_from input (ns_pos c))) (\<lambda>tail.
             res_bind (nested_read_count c version (TextStream_new tail)) (\<lambda>(count, ts).
             let actual = unat count in
             res_bind (ensure (actual \<le> max_group_elements) (LimitExceeded GroupElements max_group_elements actual)) (\<lambda>_.
             res_bind (ensure (actual \<le> max_signatures) (LimitExceeded Signatures max_signatures actual)) (\<lambda>_.
             res_bind (usize_add (Overflow ElementSpan) (ns_pos c) (ts_pos ts)) (\<lambda>pos. Inr (pos, actual)))))) of
             Inl e \<Rightarrow> (Inl e, c)
           | Inr (pos, count) \<Rightarrow>
               (Inr (), c\<lparr>ns_pos := pos, ns_sigs_left := Some count, ns_declared_sigs := Some count\<rparr>))"

function nested_sigs :: "NestedSigCursor \<Rightarrow> bytes \<Rightarrow> (ParseError + unit) \<times> NestedSigCursor" where
  "nested_sigs c input =
     (case ns_sigs_left c of
        Some (Suc left) \<Rightarrow>
          (case nested_skip skip_indexer (ns_pos c) input of
             Inl e \<Rightarrow> (Inl e, c)
           | Inr pos \<Rightarrow> nested_sigs (c\<lparr>ns_pos := pos, ns_sigs_left := Some left\<rparr>) input)
      | _ \<Rightarrow> (Inr (), c))"
  by pat_completeness auto
termination by (relation "measure (\<lambda>(c, _). case ns_sigs_left c of None \<Rightarrow> 0 | Some k \<Rightarrow> k)") auto

definition nested_advance_bounded ::
    "NestedSigCursor \<Rightarrow> bytes \<Rightarrow> CesrVersion \<Rightarrow> nat \<Rightarrow> nat \<Rightarrow> (ParseError + nat) \<times> NestedSigCursor" where
  "nested_advance_bounded c input version max_group_elements max_signatures =
     (case nested_matters c input of
        (Inl e, c) \<Rightarrow> (Inl e, c)
      | (Inr _, c) \<Rightarrow>
          (case nested_counter c input version max_group_elements max_signatures of
             (Inl e, c) \<Rightarrow> (Inl e, c)
           | (Inr _, c) \<Rightarrow>
               (case nested_sigs c input of
                  (Inl e, c) \<Rightarrow> (Inl e, c)
                | (Inr _, c) \<Rightarrow> (Inr (ns_pos c), c))))"

definition nested_advance :: "NestedSigCursor \<Rightarrow> bytes \<Rightarrow> CesrVersion \<Rightarrow> (ParseError + nat) \<times> NestedSigCursor" where
  "nested_advance c input version = nested_advance_bounded c input version usize_max usize_max"

declare nested_matters.simps [simp del] nested_sigs.simps [simp del]

section \<open>Resuming on a longer input\<close>

definition skip_of :: "(bytes \<Rightarrow> ParseError + nat) \<Rightarrow> (TextStream \<Rightarrow> ParseError + TextStream) \<Rightarrow> bool" where
  "skip_of f sk \<longleftrightarrow> sizer f \<and> (\<forall>ts. ts_ok ts \<longrightarrow> sk ts = res_bind (f (remaining ts)) (\<lambda>n. Inr (after ts n)))"

lemma skip_of_sizes [simp, intro]: "skip_of matter_size skip_matter" "skip_of indexer_size skip_indexer"
  by (simp_all add: skip_of_def skip_matter_eq skip_indexer_eq)

lemma nested_skip_eq:
  assumes "skip_of f sk" "length input < usize_bound" "pos \<le> length input"
  shows "nested_skip sk pos input = res_bind (f (drop pos input)) (\<lambda>n. Inr (pos + n))"
proof (cases "f (drop pos input)")
  case (Inl e)
  have "sk (TextStream_new (drop pos input)) = Inl e"
    using assms Inl by (simp add: skip_of_def)
  then show ?thesis using assms(3) Inl by (simp add: nested_skip_def slice_from_def)
next
  case (Inr n)
  then have "n \<le> length (drop pos input)" using assms(1) by (auto simp: skip_of_def dest: sizer_bound)
  then have "pos + n < usize_bound" using assms by auto
  moreover have "sk (TextStream_new (drop pos input)) = Inr (after (TextStream_new (drop pos input)) n)"
    using assms Inr by (simp add: skip_of_def)
  ultimately show ?thesis using assms(3) Inr by (simp add: nested_skip_def slice_from_def usize_add_def)
qed

lemma nested_skip_append:
  assumes "skip_of f sk" "length (xs @ ys) < usize_bound" "pos \<le> length xs" "nested_skip sk pos xs = Inr p"
  shows "nested_skip sk pos (xs @ ys) = Inr p" "pos < p" "p \<le> length xs"
proof -
  obtain n where n: "f (drop pos xs) = Inr n" "p = pos + n"
    using assms nested_skip_eq[of f sk xs pos] by auto
  have s: "sizer f" using assms(1) by (simp add: skip_of_def)
  have "f (drop pos xs @ ys) = Inr n" using settled_Inr[OF sizer_settled[OF s] _ n(1)] assms(2) by simp
  then show "nested_skip sk pos (xs @ ys) = Inr p"
    using assms(2,3) n(2) nested_skip_eq[OF assms(1), of "xs @ ys" pos] by simp
  show "pos < p" "p \<le> length xs" using sizer_bound[OF s n(1)] n(2) assms(3) by auto
qed

text \<open>What a phase leaves: a position inside the input, from which it continues on more input.\<close>

lemma nested_matters_resume:
  "length (xs @ ys) < usize_bound \<Longrightarrow> ns_pos c \<le> length xs \<Longrightarrow> nested_matters c xs = (r, c') \<Longrightarrow>
     ns_pos c \<le> ns_pos c' \<and> ns_pos c' \<le> length xs \<and> nested_matters c' (xs @ ys) = nested_matters c (xs @ ys) \<and>
     (r = Inr () \<longrightarrow> ns_matters_left c' = 0) \<and> ns_sigs_left c' = ns_sigs_left c \<and>
     ns_declared_sigs c' = ns_declared_sigs c \<and> ns_initial_matters c' = ns_initial_matters c"
proof (induction c xs rule: nested_matters.induct)
  case (1 c xs)
  note l = "1.prems"(1) and p = "1.prems"(2) and n = "1.prems"(3)
  show ?case
  proof (cases "ns_matters_left c = 0")
    case True
    then show ?thesis using n p by (auto simp: nested_matters.simps[of c xs])
  next
    case left: False
    show ?thesis
    proof (cases "nested_skip skip_matter (ns_pos c) xs")
      case (Inl e)
      then show ?thesis using n p left by (auto simp: nested_matters.simps[of c xs])
    next
      case (Inr pos)
      note s = nested_skip_append[OF skip_of_sizes(1) l p Inr]
      let ?c = "c\<lparr>ns_pos := pos, ns_matters_left := ns_matters_left c - 1\<rparr>"
      have "nested_matters ?c xs = (r, c')" using n left Inr by (simp add: nested_matters.simps[of c xs])
      moreover have "nested_matters c (xs @ ys) = nested_matters ?c (xs @ ys)"
        using left s(1) by (simp add: nested_matters.simps[of c])
      ultimately show ?thesis using "1.IH"[OF left Inr] l s by simp
    qed
  qed
qed

lemma nested_matters_done: "ns_matters_left c = 0 \<Longrightarrow> nested_matters c xs = (Inr (), c)"
  by (simp add: nested_matters.simps)

lemma nested_matters_append:
  assumes "length (xs @ ys) < usize_bound" "ns_pos c \<le> length xs" "nested_matters c xs = (Inr (), c')"
  shows "nested_matters c (xs @ ys) = (Inr (), c')"
  using nested_matters_resume[OF assms] nested_matters_done[of c' "xs @ ys"] by simp

lemma nested_sigs_resume:
  "length (xs @ ys) < usize_bound \<Longrightarrow> ns_pos c \<le> length xs \<Longrightarrow> nested_sigs c xs = (r, c') \<Longrightarrow>
     ns_sigs_left c \<noteq> None \<Longrightarrow>
     ns_pos c \<le> ns_pos c' \<and> ns_pos c' \<le> length xs \<and> nested_sigs c' (xs @ ys) = nested_sigs c (xs @ ys) \<and>
     ns_sigs_left c' \<noteq> None \<and> (r = Inr () \<longrightarrow> ns_sigs_left c' = Some 0) \<and> ns_matters_left c' = ns_matters_left c \<and>
     ns_declared_sigs c' = ns_declared_sigs c \<and> ns_initial_matters c' = ns_initial_matters c"
proof (induction c xs rule: nested_sigs.induct)
  case (1 c xs)
  note l = "1.prems"(1) and p = "1.prems"(2) and n = "1.prems"(3)
  obtain k where k: "ns_sigs_left c = Some k" using "1.prems"(4) by blast
  show ?case
  proof (cases k)
    case 0
    then show ?thesis using n p k by (auto simp: nested_sigs.simps[of c xs])
  next
    case left: (Suc j)
    show ?thesis
    proof (cases "nested_skip skip_indexer (ns_pos c) xs")
      case (Inl e)
      then show ?thesis using n p left k by (auto simp: nested_sigs.simps[of c xs])
    next
      case (Inr pos)
      note s = nested_skip_append[OF skip_of_sizes(2) l p Inr]
      let ?c = "c\<lparr>ns_pos := pos, ns_sigs_left := Some j\<rparr>"
      have "nested_sigs ?c xs = (r, c')" using n left k Inr by (simp add: nested_sigs.simps[of c xs])
      moreover have "nested_sigs c (xs @ ys) = nested_sigs ?c (xs @ ys)"
        using left k s(1) by (simp add: nested_sigs.simps[of c])
      ultimately show ?thesis using "1.IH"[OF k left Inr] l s by simp
    qed
  qed
qed

lemma nested_sigs_done: "ns_sigs_left c = Some 0 \<Longrightarrow> nested_sigs c xs = (Inr (), c)"
  by (simp add: nested_sigs.simps)

text \<open>The counter in the middle, as a reader of the remaining bytes.\<close>

definition count_head :: "NestedSigCursor \<Rightarrow> CesrVersion \<Rightarrow> bytes \<Rightarrow> ParseError + (u32 \<times> nat)" where
  "count_head c version xs =
     res_bind (nested_read_count c version (TextStream_new xs)) (\<lambda>(count, ts). Inr (count, ts_pos ts))"

lemma count_head_V1:
  "count_head c V1 xs = res_bind (v1.counter_head xs) (\<lambda>((code, count), k).
     if code \<noteq> CounterCodeV1.ControllerIdxSigs
     then Inl (NestedCounterMismatch (ns_outer_v1 c) ''-A'' (CounterCodeV1_as_str code)) else Inr (count, k))"
  by (cases "read_counter_v1 (TextStream_new xs)")
     (auto simp: count_head_def nested_read_count_def v1.counter_head_def read_counter_v1_def
       CounterCodeV1_from_base64_stream_def[abs_def] split: prod.splits)

lemma count_head_V2:
  "count_head c V2 xs = res_bind (v2.counter_head xs) (\<lambda>((code, count), k).
     if code \<noteq> CounterCodeV2.ControllerIdxSigs
     then Inl (NestedCounterMismatch (ns_outer_v2 c) ''-K'' (CounterCodeV2_as_str code)) else Inr (count, k))"
  by (cases "read_counter_v2 (TextStream_new xs)")
     (auto simp: count_head_def nested_read_count_def v2.counter_head_def read_counter_v2_def
       CounterCodeV2_from_base64_stream_def[abs_def] split: prod.splits)

lemma settled_count_head: "settled (count_head c version)"
proof (cases version)
  case V1
  have e: "count_head c V1 = (\<lambda>xs. count_head c V1 xs)" by (rule refl)
  show ?thesis unfolding V1 by (subst e, unfold count_head_V1) (rule settled_then[OF v1.settled_counter_head])
next
  case V2
  have e: "count_head c V2 = (\<lambda>xs. count_head c V2 xs)" by (rule refl)
  show ?thesis unfolding V2 by (subst e, unfold count_head_V2) (rule settled_then[OF v2.settled_counter_head])
qed

lemma count_head_size: "length xs < usize_bound \<Longrightarrow> count_head c version xs = Inr (n, k) \<Longrightarrow> 4 \<le> k \<and> k \<le> length xs"
  using v1.counter_head_size[of xs "(CounterCodeV1.ControllerIdxSigs, n)" k]
    v2.counter_head_size[of xs "(CounterCodeV2.ControllerIdxSigs, n)" k]
  by (cases version) (auto simp: count_head_V1 count_head_V2 split: if_splits)

lemma nested_counter_eq:
  assumes "ns_sigs_left c = None" "ns_pos c \<le> length input" "length input < usize_bound"
  shows "nested_counter c input version me ms =
    (case count_head c version (drop (ns_pos c) input) of
       Inl e \<Rightarrow> (Inl e, c)
     | Inr (count, k) \<Rightarrow>
         if me < unat count then (Inl (LimitExceeded GroupElements me (unat count)), c)
         else if ms < unat count then (Inl (LimitExceeded Signatures ms (unat count)), c)
         else (Inr (), c\<lparr>ns_pos := ns_pos c + k, ns_sigs_left := Some (unat count), ns_declared_sigs := Some (unat count)\<rparr>))"
proof (cases "nested_read_count c version (TextStream_new (drop (ns_pos c) input))")
  case (Inl e)
  then show ?thesis using assms by (simp add: nested_counter_def count_head_def slice_from_def)
next
  case (Inr r)
  obtain n ts where r: "r = (n, ts)" by (cases r)
  then have h: "count_head c version (drop (ns_pos c) input) = Inr (n, ts_pos ts)" using Inr by (simp add: count_head_def)
  have "length (drop (ns_pos c) input) < usize_bound" using assms(3) by (simp add: less_imp_diff_less)
  from count_head_size[OF this h] have "ns_pos c + ts_pos ts < usize_bound" using assms by auto
  then show ?thesis
    using assms Inr r h by (simp add: nested_counter_def slice_from_def Let_def ensure_def usize_add_def not_less)
qed

lemma nested_counter_append:
  assumes "length (xs @ ys) < usize_bound" "ns_pos c \<le> length xs" "nested_counter c xs version me ms = (Inr (), c')"
  shows "nested_counter c (xs @ ys) version me ms = (Inr (), c')" "ns_pos c' \<le> length xs" "ns_sigs_left c' \<noteq> None"
    "ns_matters_left c' = ns_matters_left c" "ns_initial_matters c' = ns_initial_matters c" "ns_pos c \<le> ns_pos c'"
    "ns_sigs_left c = None \<Longrightarrow> \<exists>k. ns_declared_sigs c' = Some k \<and> k \<le> me \<and> k \<le> ms"
    "ns_sigs_left c \<noteq> None \<Longrightarrow> c' = c"
proof -
  have *: "nested_counter c (xs @ ys) version me ms = (Inr (), c') \<and> ns_pos c' \<le> length xs \<and> ns_sigs_left c' \<noteq> None \<and>
    ns_matters_left c' = ns_matters_left c \<and> ns_initial_matters c' = ns_initial_matters c \<and> ns_pos c \<le> ns_pos c' \<and>
    (ns_sigs_left c = None \<longrightarrow> (\<exists>k. ns_declared_sigs c' = Some k \<and> k \<le> me \<and> k \<le> ms)) \<and> (ns_sigs_left c \<noteq> None \<longrightarrow> c' = c)"
  proof (cases "ns_sigs_left c")
    case (Some k)
    then show ?thesis using assms by (simp add: nested_counter_def)
  next
    case None
    have l: "length xs < usize_bound" "length (drop (ns_pos c) xs) < usize_bound" "length (drop (ns_pos c) xs @ ys) < usize_bound"
      using assms(1) by auto
    note eq = nested_counter_eq[OF None assms(2) l(1), of version me ms]
    obtain n k where h: "count_head c version (drop (ns_pos c) xs) = Inr (n, k)" "unat n \<le> me" "unat n \<le> ms"
      "c' = c\<lparr>ns_pos := ns_pos c + k, ns_sigs_left := Some (unat n), ns_declared_sigs := Some (unat n)\<rparr>"
      using assms(3) unfolding eq by (auto split: sum.splits if_splits)
    have k: "4 \<le> k \<and> k \<le> length (drop (ns_pos c) xs)" by (rule count_head_size[OF l(2) h(1)])
    have "count_head c version (drop (ns_pos c) xs @ ys) = Inr (n, k)"
      by (rule settled_Inr[OF settled_count_head l(3) h(1)])
    moreover have "ns_pos c \<le> length (xs @ ys)" using assms(2) by simp
    ultimately have "nested_counter c (xs @ ys) version me ms = (Inr (), c')"
      using h assms(2) nested_counter_eq[OF None _ assms(1), of version me ms] by simp
    then show ?thesis using h k assms(2) None by auto
  qed
  then show "nested_counter c (xs @ ys) version me ms = (Inr (), c')" "ns_pos c' \<le> length xs" "ns_sigs_left c' \<noteq> None"
    "ns_matters_left c' = ns_matters_left c" "ns_initial_matters c' = ns_initial_matters c" "ns_pos c \<le> ns_pos c'"
    "ns_sigs_left c = None \<Longrightarrow> \<exists>k. ns_declared_sigs c' = Some k \<and> k \<le> me \<and> k \<le> ms"
    "ns_sigs_left c \<noteq> None \<Longrightarrow> c' = c" by blast+
qed

lemma nested_counter_Inl: "nested_counter c xs version me ms = (Inl e, c') \<Longrightarrow> c' = c"
  by (auto simp: nested_counter_def split: if_splits sum.splits)

definition nested_ok :: "NestedSigCursor \<Rightarrow> bytes \<Rightarrow> bool" where
  "nested_ok c xs \<longleftrightarrow> ns_pos c \<le> length xs \<and> (ns_sigs_left c = None \<longleftrightarrow> ns_declared_sigs c = None)"

lemma nested_ok_new [simp]: "nested_ok (NestedSigCursor_new m a b) xs"
  by (simp add: nested_ok_def NestedSigCursor_new_def)

lemma nested_ok_reset [simp]: "nested_ok (nested_reset c) xs"
  by (simp add: nested_ok_def nested_reset_def)

lemma nested_matters_sigs: "nested_matters c xs = (r, c1) \<Longrightarrow> ns_sigs_left c1 = ns_sigs_left c"
proof (induction c xs rule: nested_matters.induct)
  case (1 c xs)
  then show ?case by (auto simp: nested_matters.simps[of c xs] split: if_splits sum.splits)
qed

lemma nested_counted_limit:
  assumes "ns_sigs_left c \<noteq> None"
  shows "nested_advance_bounded c xs version me ms = nested_advance_bounded c xs version me' ms'"
proof (cases "nested_matters c xs")
  case (Pair r c1)
  then have "nested_counter c1 xs version me ms = nested_counter c1 xs version me' ms'"
    using assms nested_matters_sigs[OF Pair] by (simp add: nested_counter_def)
  then show ?thesis by (simp add: nested_advance_bounded_def Pair split: sum.splits)
qed

lemma nested_advance_cases [consumes 1, case_names Matters Counter Sigs]:
  assumes "nested_advance_bounded c xs version me ms = (r, c')"
  obtains e where "nested_matters c xs = (Inl e, c')" "r = Inl e"
  | e c1 where "nested_matters c xs = (Inr (), c1)" "nested_counter c1 xs version me ms = (Inl e, c')" "r = Inl e"
  | c1 c2 s where "nested_matters c xs = (Inr (), c1)" "nested_counter c1 xs version me ms = (Inr (), c2)"
      "nested_sigs c2 xs = (s, c')" "r = res_bind s (\<lambda>_. Inr (ns_pos c'))"
  using assms by (auto simp: nested_advance_bounded_def split: prod.splits sum.splits)

lemma nested_resume:
  assumes l: "length (xs @ ys) < usize_bound" and ok: "nested_ok c xs"
    and a: "nested_advance_bounded c xs version me ms = (r, c')"
    and ms': "ns_sigs_left c' = None \<Longrightarrow> ms' = ms"
  shows "nested_advance_bounded c' (xs @ ys) version me ms' = nested_advance_bounded c (xs @ ys) version me ms \<and>
    nested_ok c' xs \<and> ns_initial_matters c' = ns_initial_matters c \<and> ns_pos c \<le> ns_pos c' \<and>
    (ns_declared_sigs c' = ns_declared_sigs c \<or>
      ns_declared_sigs c = None \<and> (\<exists>k. ns_declared_sigs c' = Some k \<and> k \<le> me \<and> k \<le> ms))"
  using a
proof (cases rule: nested_advance_cases)
  case (Matters e)
  have p: "ns_pos c \<le> length xs" using ok by (simp add: nested_ok_def)
  note m = nested_matters_resume[OF l p Matters(1)]
  have "nested_advance_bounded c' (xs @ ys) version me ms' = nested_advance_bounded c' (xs @ ys) version me ms"
    using nested_counted_limit[of c' "xs @ ys" version me ms' me ms] ms' by blast
  also have "\<dots> = nested_advance_bounded c (xs @ ys) version me ms"
    using m by (simp add: nested_advance_bounded_def)
  finally show ?thesis using m ok by (simp add: nested_ok_def)
next
  case (Counter e c1)
  have p: "ns_pos c \<le> length xs" using ok by (simp add: nested_ok_def)
  note m = nested_matters_resume[OF l p Counter(1)] and c = nested_counter_Inl[OF Counter(2)]
  have n: "ns_sigs_left c1 = None" using Counter(2) by (auto simp: nested_counter_def split: if_splits)
  then have "ms' = ms" using ms' c by simp
  then have "nested_advance_bounded c' (xs @ ys) version me ms' = nested_advance_bounded c (xs @ ys) version me ms"
    using m c by (simp add: nested_advance_bounded_def)
  then show ?thesis using m c ok n by (simp add: nested_ok_def)
next
  case (Sigs c1 c2 s)
  have p: "ns_pos c \<le> length xs" using ok by (simp add: nested_ok_def)
  note m = nested_matters_resume[OF l p Sigs(1)]
  have p1: "ns_pos c1 \<le> length xs" using m by simp
  note k = nested_counter_append[OF l p1 Sigs(2)]
  note g = nested_sigs_resume[OF l k(2) Sigs(3) k(3)]
  have done': "ns_matters_left c' = 0" "ns_sigs_left c' \<noteq> None" using m k g by simp_all
  have "nested_advance_bounded c' (xs @ ys) version me ms' =
      (case nested_sigs c' (xs @ ys) of (Inl e, c) \<Rightarrow> (Inl e, c) | (Inr _, c) \<Rightarrow> (Inr (ns_pos c), c))"
    using done' by (simp add: nested_advance_bounded_def nested_matters_done nested_counter_def)
  moreover have "nested_advance_bounded c (xs @ ys) version me ms =
      (case nested_sigs c2 (xs @ ys) of (Inl e, c) \<Rightarrow> (Inl e, c) | (Inr _, c) \<Rightarrow> (Inr (ns_pos c), c))"
    using nested_matters_append[OF l p Sigs(1)] k(1) by (simp add: nested_advance_bounded_def)
  moreover have "nested_ok c' xs"
  proof -
    have "ns_declared_sigs c2 \<noteq> None"
    proof (cases "ns_sigs_left c1")
      case None
      then show ?thesis using k(7) by auto
    next
      case (Some j)
      then show ?thesis using k(8) m ok by (auto simp: nested_ok_def)
    qed
    then show ?thesis using g by (auto simp: nested_ok_def)
  qed
  moreover have "ns_declared_sigs c' = ns_declared_sigs c \<or>
      ns_declared_sigs c = None \<and> (\<exists>k. ns_declared_sigs c' = Some k \<and> k \<le> me \<and> k \<le> ms)"
  proof (cases "ns_sigs_left c1")
    case None
    then show ?thesis using k(7) m g ok by (auto simp: nested_ok_def)
  next
    case (Some j)
    then show ?thesis using k(8) m g by simp
  qed
  ultimately show ?thesis using m k g by simp
qed

lemma nested_success:
  assumes l: "length (xs @ ys) < usize_bound" and ok: "nested_ok c xs"
    and a: "nested_advance_bounded c xs version me ms = (Inr n, c')"
  shows "nested_advance_bounded c (xs @ ys) version me ms = (Inr n, c')" "n = ns_pos c'" "n \<le> length xs"
    "ns_pos c \<le> n" "ns_declared_sigs c' \<noteq> None"
proof -
  have *: "nested_advance_bounded c (xs @ ys) version me ms = (Inr n, c') \<and> n = ns_pos c' \<and> n \<le> length xs \<and>
      ns_pos c \<le> n \<and> ns_declared_sigs c' \<noteq> None"
    using a
  proof (cases rule: nested_advance_cases)
    case (Sigs c1 c2 s)
    have p: "ns_pos c \<le> length xs" using ok by (simp add: nested_ok_def)
    note m = nested_matters_resume[OF l p Sigs(1)]
    have p1: "ns_pos c1 \<le> length xs" using m by simp
    note k = nested_counter_append[OF l p1 Sigs(2)]
    note g = nested_sigs_resume[OF l k(2) Sigs(3) k(3)]
    have s: "s = Inr ()" "n = ns_pos c'" using Sigs(4) by (cases s; auto)+
    then have "nested_sigs c2 (xs @ ys) = (Inr (), c')" using g nested_sigs_done[of c' "xs @ ys"] by simp
    then have "nested_advance_bounded c (xs @ ys) version me ms = (Inr n, c')"
      using nested_matters_append[OF l p Sigs(1)] k(1) s by (simp add: nested_advance_bounded_def)
    moreover have "ns_sigs_left c' \<noteq> None" using g by blast
    moreover have "nested_ok c' xs" using nested_resume[OF l ok a, of ms] by blast
    ultimately show ?thesis using m k g s by (auto simp: nested_ok_def)
  qed auto
  then show "nested_advance_bounded c (xs @ ys) version me ms = (Inr n, c')" "n = ns_pos c'" "n \<le> length xs"
    "ns_pos c \<le> n" "ns_declared_sigs c' \<noteq> None" by blast+
qed

section \<open>A whole element\<close>

text \<open>Without limits a fresh cursor is a sizer: the primitives, the counter, the signatures.\<close>

definition nested_size :: "NestedSigCursor \<Rightarrow> CesrVersion \<Rightarrow> bytes \<Rightarrow> ParseError + nat" where
  "nested_size c version xs =
     res_bind (sizes (replicate (ns_matters_left c) matter_size) xs) (\<lambda>n.
     res_bind (count_head c version (drop n xs)) (\<lambda>(count, k).
     res_bind (sizes (replicate (unat count) indexer_size) (drop k (drop n xs))) (\<lambda>m. Inr (n + (k + m)))))"

lemma nested_matters_size:
  "length xs < usize_bound \<Longrightarrow> ns_pos c \<le> length xs \<Longrightarrow>
     (case sizes (replicate (ns_matters_left c) matter_size) (drop (ns_pos c) xs) of
        Inl e \<Rightarrow> fst (nested_matters c xs) = Inl e
      | Inr n \<Rightarrow> nested_matters c xs = (Inr (), c\<lparr>ns_pos := ns_pos c + n, ns_matters_left := 0\<rparr>))"
proof (induction c xs rule: nested_matters.induct)
  case (1 c xs)
  note l = "1.prems"(1) and p = "1.prems"(2)
  show ?case
  proof (cases "ns_matters_left c")
    case 0
    then show ?thesis by (simp add: nested_matters.simps[of c])
  next
    case (Suc j)
    note eq = nested_skip_eq[OF skip_of_sizes(1) l p]
    show ?thesis
    proof (cases "matter_size (drop (ns_pos c) xs)")
      case (Inl e)
      then show ?thesis using Suc eq by (simp add: nested_matters.simps[of c])
    next
      case (Inr n)
      let ?c = "c\<lparr>ns_pos := ns_pos c + n, ns_matters_left := j\<rparr>"
      have b: "ns_pos c + n \<le> length xs" using sizer_bound[OF sizer_sizes(1) Inr] p by auto
      have s: "nested_matters c xs = nested_matters ?c xs" using Suc eq Inr by (simp add: nested_matters.simps[of c])
      have c: "c\<lparr>ns_pos := ns_pos c + n, ns_matters_left := ns_matters_left c - 1\<rparr> = ?c" using Suc by simp
      have d: "ns_pos c + n = n + ns_pos c" by simp
      note ih = "1.IH"[of "ns_pos c + n", unfolded c]
      show ?thesis
      proof (cases "sizes (replicate j matter_size) (drop (ns_pos c + n) xs)")
        case (Inl e)
        then show ?thesis using ih Suc eq Inr b l s \<open>matter_size (drop (ns_pos c) xs) = Inr n\<close> by (simp add: d)
      next
        case (Inr m)
        then show ?thesis
          using ih Suc eq b l s \<open>matter_size (drop (ns_pos c) xs) = Inr n\<close> by (simp add: d ac_simps)
      qed
    qed
  qed
qed

lemma nested_sigs_size:
  "length xs < usize_bound \<Longrightarrow> ns_pos c \<le> length xs \<Longrightarrow> ns_sigs_left c = Some k \<Longrightarrow>
     (case sizes (replicate k indexer_size) (drop (ns_pos c) xs) of
        Inl e \<Rightarrow> fst (nested_sigs c xs) = Inl e
      | Inr n \<Rightarrow> nested_sigs c xs = (Inr (), c\<lparr>ns_pos := ns_pos c + n, ns_sigs_left := Some 0\<rparr>))"
proof (induction k arbitrary: c)
  case 0
  then show ?case by (simp add: nested_sigs.simps[of c])
next
  case (Suc k)
  note eq = nested_skip_eq[OF skip_of_sizes(2) Suc.prems(1,2)]
  show ?case
  proof (cases "indexer_size (drop (ns_pos c) xs)")
    case (Inl e)
    then show ?thesis using Suc.prems eq by (simp add: nested_sigs.simps[of c])
  next
    case (Inr n)
    let ?c = "c\<lparr>ns_pos := ns_pos c + n, ns_sigs_left := Some k\<rparr>"
    have b: "ns_pos c + n \<le> length xs" using sizer_bound[OF sizer_sizes(2) Inr] Suc.prems(2) by auto
    have s: "nested_sigs c xs = nested_sigs ?c xs" using Suc.prems eq Inr by (simp add: nested_sigs.simps[of c])
    have d: "ns_pos c + n = n + ns_pos c" by simp
    note ih = Suc.IH[of ?c]
    show ?thesis
    proof (cases "sizes (replicate k indexer_size) (drop (ns_pos c + n) xs)")
      case (Inl e)
      then show ?thesis using ih b s Suc.prems(1) \<open>indexer_size (drop (ns_pos c) xs) = Inr n\<close> by (simp add: d)
    next
      case (Inr m)
      then show ?thesis using ih b s Suc.prems(1) \<open>indexer_size (drop (ns_pos c) xs) = Inr n\<close> by (simp add: d ac_simps)
    qed
  qed
qed

lemma count_head_cong: "ns_outer_v1 c = ns_outer_v1 d \<Longrightarrow> ns_outer_v2 c = ns_outer_v2 d \<Longrightarrow> count_head c = count_head d"
  by (rule ext)+ (simp only: count_head_def nested_read_count_def)

lemma nested_advance_size:
  assumes "length xs < usize_bound" "ns_pos c = 0" "ns_sigs_left c = None"
  shows "fst (nested_advance c xs version) = nested_size c version xs"
proof -
  have u: "unat (n :: u32) \<le> usize_max" for n
    using unsigned_less[of n, where 'a = nat] by (simp add: usize_max_def)
  show ?thesis
  proof (cases "sizes (replicate (ns_matters_left c) matter_size) xs")
    case (Inl e)
    then show ?thesis using nested_matters_size[OF assms(1), of c] assms
      by (auto simp: nested_advance_def nested_advance_bounded_def nested_size_def split: prod.splits)
  next
    case (Inr n)
    let ?c = "c\<lparr>ns_pos := n, ns_matters_left := 0\<rparr>"
    have m: "nested_matters c xs = (Inr (), ?c)" using nested_matters_size[OF assms(1), of c] assms Inr by simp
    have n: "n \<le> length xs" using sizes_bound[OF _ Inr] by auto
    have h: "count_head ?c = count_head c" by (rule count_head_cong) simp_all
    note k = nested_counter_eq[of ?c xs version usize_max usize_max]
    show ?thesis
    proof (cases "count_head c version (drop n xs)")
      case (Inl e)
      then show ?thesis using m k n h assms Inr by (simp add: nested_advance_def nested_advance_bounded_def nested_size_def)
    next
      case head: (Inr r)
      obtain count j where r: "r = (count, j)" by (cases r)
      let ?d = "?c\<lparr>ns_pos := n + j, ns_sigs_left := Some (unat count), ns_declared_sigs := Some (unat count)\<rparr>"
      have "length (drop n xs) < usize_bound" using assms(1) by auto
      from count_head_size[OF this, of c version count j] have j: "n + j \<le> length xs" using head r n by auto
      have d: "nested_counter ?c xs version usize_max usize_max = (Inr (), ?d)"
        using k n h head r assms u[of count] by (simp add: not_less[symmetric])
      show ?thesis
        using nested_sigs_size[OF assms(1), of ?d "unat count"] j m d Inr head r
        by (cases "sizes (replicate (unat count) indexer_size) (drop (n + j) xs)")
           (auto simp: nested_advance_def nested_advance_bounded_def nested_size_def add.commute[of j n] add.assoc split: prod.splits)
    qed
  qed
qed

lemma settled_nested_size: "settled (nested_size c version)"
proof -
  let ?sigs = "\<lambda>r xs. res_bind (sizes (replicate (unat (fst r :: u32)) indexer_size) xs) (\<lambda>m. Inr (snd r + m :: nat))"
  let ?head = "\<lambda>xs. if length xs < usize_bound then count_head c version xs else Inl (NeedBytes 0)"
  have s: "settled (?sigs r)" for r :: "u32 \<times> nat"
    by (intro settled_then settled_sizes_list) auto
  have h: "settled ?head"
    using settled_count_head[of c version] unfolding settled_def by auto
  have b: "?head xs = Inr r \<Longrightarrow> snd r \<le> length xs" for xs r
    using count_head_size[of xs c version "fst r" "snd r"] by (auto split: if_splits)
  have t: "settled (\<lambda>xs. res_bind (?head xs) (\<lambda>r. ?sigs r (drop (snd r) xs)))"
    by (rule settled_bind[OF h s b])
  have m: "settled (sizes (replicate (ns_matters_left c) matter_size))" by (rule settled_sizes_list) auto
  have bm: "sizes (replicate (ns_matters_left c) matter_size) xs = Inr n \<Longrightarrow> n \<le> length xs" for xs n
    using sizes_bound[of "replicate (ns_matters_left c) matter_size" xs n] by auto
  have *: "settled (\<lambda>xs. res_bind (sizes (replicate (ns_matters_left c) matter_size) xs) (\<lambda>n.
      (\<lambda>xs. res_bind (res_bind (?head xs) (\<lambda>r. ?sigs r (drop (snd r) xs))) (\<lambda>m. Inr (n + m))) (drop n xs)))"
    by (rule settled_bind[OF m settled_then[OF t] bm])
  have "length xs < usize_bound \<Longrightarrow> nested_size c version xs = res_bind (sizes (replicate (ns_matters_left c) matter_size) xs) (\<lambda>n.
      (\<lambda>xs. res_bind (res_bind (?head xs) (\<lambda>r. ?sigs r (drop (snd r) xs))) (\<lambda>m. Inr (n + m))) (drop n xs))" for xs
    by (auto simp: nested_size_def res_bind_assoc less_imp_diff_less split: prod.splits intro!: res_bind_cong)
  then show ?thesis by (rule settled_cong[OF _ *])
qed

end
