(* ===== verification/Stream_Kinds.thy ===== *)
theory Stream_Kinds
  imports Stream_Nested
begin

text \<open>
  The group families of \<^verbatim>\<open>group/kinds.rs\<close>. The sealed trait \<^verbatim>\<open>GroupKind\<close> is the
  enumeration of its implementors, with one function per trait item: the typed element, the
  lenient skip, the counter codes. \<^verbatim>\<open>Group\<close> carries its kind as a field. The
  constructors of the write side close the theory. The parameters \<^verbatim>\<open>enc\<close> and
  \<^verbatim>\<open>dec\<close> are the base64 crate.
\<close>

section \<open>Kinds and carriers\<close>

datatype (plugins only: code size) GroupKind =
    ControllerIdxSig | WitnessIdxSig | NonTransReceiptCouple | TransReceiptQuadruple | FirstSeenReplayCouple
  | TransIdxSigGroup | SealSourceCouple | TransLastIdxSigGroup | SealSourceTriple | DigestSealSingle
  | MerkleRootSealSingle | SealSourceLastSingle | BackerRegistrarSealCouple | TypedDigestSealCouple
  | BlindedStateQuadruple | BoundStateSextuple | TypedMediaQuadruple

datatype (plugins only: code size) FrameKind =
    PathedMaterial | Attachment | Generic | BodyWithAttachment | NonNativeBody | ESSRPayload
  | DatagramSegment | ESSRWrapper | FixBody | MapBody | GenericMap | GenericList

record Group =
  gr_kind :: GroupKind
  gr_raw :: bytes
  gr_count :: u32
  gr_version :: CesrVersion

definition Group_new :: "GroupKind \<Rightarrow> bytes \<Rightarrow> u32 \<Rightarrow> CesrVersion \<Rightarrow> Group" where
  "Group_new kind raw count version = \<lparr>gr_kind = kind, gr_raw = raw, gr_count = count, gr_version = version\<rparr>"

datatype Element =
    SigerElement Indexer
  | ReceiptCouple "VerKeyCode Matter" "SignatureCode Matter"
  | ReceiptQuadruple "MatterCode Matter" "MatterCode Matter" "DigestCode Matter" Indexer
  | ReplayCouple "MatterCode Matter" "MatterCode Matter"
  | SigGroup "MatterCode Matter" "MatterCode Matter" "DigestCode Matter" Group
  | SealCouple "MatterCode Matter" "DigestCode Matter"
  | LastSigGroup "MatterCode Matter" Group
  | SealTriple "VerKeyCode Matter" "MatterCode Matter" "DigestCode Matter"
  | DigestElement "DigestCode Matter"
  | PrefixElement "VerKeyCode Matter"
  | BackerCouple "VerKeyCode Matter" "DigestCode Matter"
  | TypedDigest "VerserCode Matter" "DigestCode Matter"
  | BlindedState "DigestCode Matter" "NoncerCode Matter" "NoncerCode Matter" "LabelerCode Matter"
  | BoundState "DigestCode Matter" "NoncerCode Matter" "NoncerCode Matter" "LabelerCode Matter" Number "NoncerCode Matter"
  | TypedMedia "DigestCode Matter" "NoncerCode Matter" "LabelerCode Matter" "TexterCode Matter"

primrec GroupKind_CODE_V2 :: "GroupKind \<Rightarrow> CounterCodeV2" where
  "GroupKind_CODE_V2 ControllerIdxSig = CounterCodeV2.ControllerIdxSigs"
| "GroupKind_CODE_V2 WitnessIdxSig = CounterCodeV2.WitnessIdxSigs"
| "GroupKind_CODE_V2 NonTransReceiptCouple = CounterCodeV2.NonTransReceiptCouples"
| "GroupKind_CODE_V2 TransReceiptQuadruple = CounterCodeV2.TransReceiptQuadruples"
| "GroupKind_CODE_V2 FirstSeenReplayCouple = CounterCodeV2.FirstSeenReplayCouples"
| "GroupKind_CODE_V2 TransIdxSigGroup = CounterCodeV2.TransIdxSigGroups"
| "GroupKind_CODE_V2 SealSourceCouple = CounterCodeV2.SealSourceCouples"
| "GroupKind_CODE_V2 TransLastIdxSigGroup = CounterCodeV2.TransLastIdxSigGroups"
| "GroupKind_CODE_V2 SealSourceTriple = CounterCodeV2.SealSourceTriples"
| "GroupKind_CODE_V2 DigestSealSingle = CounterCodeV2.DigestSealSingles"
| "GroupKind_CODE_V2 MerkleRootSealSingle = CounterCodeV2.MerkleRootSealSingles"
| "GroupKind_CODE_V2 SealSourceLastSingle = CounterCodeV2.SealSourceLastSingles"
| "GroupKind_CODE_V2 BackerRegistrarSealCouple = CounterCodeV2.BackerRegistrarSealCouples"
| "GroupKind_CODE_V2 TypedDigestSealCouple = CounterCodeV2.TypedDigestSealCouples"
| "GroupKind_CODE_V2 BlindedStateQuadruple = CounterCodeV2.BlindedStateQuadruples"
| "GroupKind_CODE_V2 BoundStateSextuple = CounterCodeV2.BoundStateSextuples"
| "GroupKind_CODE_V2 TypedMediaQuadruple = CounterCodeV2.TypedMediaQuadruples"

text \<open>\<^verbatim>\<open>V1GroupKind::CODE_V1\<close>, None for the families version 1 does not have.\<close>

fun GroupKind_CODE_V1 :: "GroupKind \<Rightarrow> CounterCodeV1 option" where
  "GroupKind_CODE_V1 ControllerIdxSig = Some CounterCodeV1.ControllerIdxSigs"
| "GroupKind_CODE_V1 WitnessIdxSig = Some CounterCodeV1.WitnessIdxSigs"
| "GroupKind_CODE_V1 NonTransReceiptCouple = Some CounterCodeV1.NonTransReceiptCouples"
| "GroupKind_CODE_V1 TransReceiptQuadruple = Some CounterCodeV1.TransReceiptQuadruples"
| "GroupKind_CODE_V1 FirstSeenReplayCouple = Some CounterCodeV1.FirstSeenReplayCouples"
| "GroupKind_CODE_V1 TransIdxSigGroup = Some CounterCodeV1.TransIdxSigGroups"
| "GroupKind_CODE_V1 SealSourceCouple = Some CounterCodeV1.SealSourceCouples"
| "GroupKind_CODE_V1 TransLastIdxSigGroup = Some CounterCodeV1.TransLastIdxSigGroups"
| "GroupKind_CODE_V1 SealSourceTriple = Some CounterCodeV1.SealSourceTriples"
| "GroupKind_CODE_V1 _ = None"

primrec FrameKind_CODE_V2 :: "FrameKind \<Rightarrow> CounterCodeV2" where
  "FrameKind_CODE_V2 PathedMaterial = CounterCodeV2.PathedMaterialCouples"
| "FrameKind_CODE_V2 Attachment = CounterCodeV2.AttachmentGroup"
| "FrameKind_CODE_V2 Generic = CounterCodeV2.GenericGroup"
| "FrameKind_CODE_V2 BodyWithAttachment = CounterCodeV2.BodyWithAttachmentGroup"
| "FrameKind_CODE_V2 NonNativeBody = CounterCodeV2.NonNativeBodyGroup"
| "FrameKind_CODE_V2 ESSRPayload = CounterCodeV2.ESSRPayloadGroup"
| "FrameKind_CODE_V2 DatagramSegment = CounterCodeV2.DatagramSegmentGroup"
| "FrameKind_CODE_V2 ESSRWrapper = CounterCodeV2.ESSRWrapperGroup"
| "FrameKind_CODE_V2 FixBody = CounterCodeV2.FixBodyGroup"
| "FrameKind_CODE_V2 MapBody = CounterCodeV2.MapBodyGroup"
| "FrameKind_CODE_V2 GenericMap = CounterCodeV2.GenericMapGroup"
| "FrameKind_CODE_V2 GenericList = CounterCodeV2.GenericListGroup"

fun FrameKind_CODE_V1 :: "FrameKind \<Rightarrow> CounterCodeV1 option" where
  "FrameKind_CODE_V1 PathedMaterial = Some CounterCodeV1.PathedMaterialCouples"
| "FrameKind_CODE_V1 Attachment = Some CounterCodeV1.AttachmentGroup"
| "FrameKind_CODE_V1 Generic = Some CounterCodeV1.GenericGroup"
| "FrameKind_CODE_V1 BodyWithAttachment = Some CounterCodeV1.BodyWithAttachmentGroup"
| "FrameKind_CODE_V1 NonNativeBody = Some CounterCodeV1.NonNativeBodyGroup"
| "FrameKind_CODE_V1 ESSRPayload = Some CounterCodeV1.ESSRPayloadGroup"
| "FrameKind_CODE_V1 _ = None"

fun signatures_per_element :: "GroupKind \<Rightarrow> nat" where
  "signatures_per_element ControllerIdxSig = 1"
| "signatures_per_element WitnessIdxSig = 1"
| "signatures_per_element NonTransReceiptCouple = 1"
| "signatures_per_element TransReceiptQuadruple = 1"
| "signatures_per_element _ = 0"

fun nested_sig_grammar :: "GroupKind \<Rightarrow> (nat \<times> string \<times> string) option" where
  "nested_sig_grammar TransIdxSigGroup = Some (3, ''-F'', ''-X'')"
| "nested_sig_grammar TransLastIdxSigGroup = Some (1, ''-H'', ''-Y'')"
| "nested_sig_grammar _ = None"

section \<open>Typed elements\<close>

fun skip_indexers :: "nat \<Rightarrow> TextStream \<Rightarrow> ParseError + TextStream" where
  "skip_indexers 0 ts = Inr ts"
| "skip_indexers (Suc n) ts = res_bind (skip_indexer ts) (\<lambda>ts. skip_indexers n ts)"

definition nested_controller_sigs :: "bytes \<Rightarrow> CesrVersion \<Rightarrow> ParseError + (Group \<times> nat)" where
  "nested_controller_sigs input version =
     res_bind (skip_counter (TextStream_new input)) (\<lambda>ts.
     let counter_size = ts_pos ts in
     res_bind (case version of
         V1 \<Rightarrow> res_bind (read_counter_v1 (TextStream_new input)) (\<lambda>((_, n), _). Inr n)
       | V2 \<Rightarrow> res_bind (read_counter_v2 (TextStream_new input)) (\<lambda>((_, n), _). Inr n)) (\<lambda>sub_count.
     res_bind (skip_indexers (unat sub_count) ts) (\<lambda>ts.
     let end = ts_pos ts; raw = take (end - counter_size) (drop counter_size input) in
     Inr (Group_new ControllerIdxSig raw sub_count version, end))))"

text \<open>One function per implementor; each starts from a stream over the element's input.\<close>

definition ControllerIdxSig_element :: "(bytes \<Rightarrow> bytes option) \<Rightarrow> TextStream \<Rightarrow> ParseError + (Element \<times> nat)" where
  "ControllerIdxSig_element dec ts =
     res_bind (read_siger dec ts) (\<lambda>(siger, ts). Inr (SigerElement siger, ts_pos ts))"

definition WitnessIdxSig_element :: "(bytes \<Rightarrow> bytes option) \<Rightarrow> TextStream \<Rightarrow> ParseError + (Element \<times> nat)" where
  "WitnessIdxSig_element dec ts =
     res_bind (read_siger dec ts) (\<lambda>(siger, ts). Inr (SigerElement siger, ts_pos ts))"

definition NonTransReceiptCouple_element :: "(bytes \<Rightarrow> bytes option) \<Rightarrow> TextStream \<Rightarrow> ParseError + (Element \<times> nat)" where
  "NonTransReceiptCouple_element dec ts =
     res_bind (read_prefixer dec ts) (\<lambda>(prefixer, ts).
     res_bind (read_cigar dec ts) (\<lambda>(cigar, ts). Inr (ReceiptCouple prefixer cigar, ts_pos ts)))"

definition TransReceiptQuadruple_element :: "(bytes \<Rightarrow> bytes option) \<Rightarrow> TextStream \<Rightarrow> ParseError + (Element \<times> nat)" where
  "TransReceiptQuadruple_element dec ts =
     res_bind (read_identifier_prefix dec ts) (\<lambda>(prefixer, ts).
     res_bind (read_matter dec ts) (\<lambda>(seqner, ts).
     res_bind (read_saider dec ts) (\<lambda>(saider, ts).
     res_bind (read_siger dec ts) (\<lambda>(siger, ts). Inr (ReceiptQuadruple prefixer seqner saider siger, ts_pos ts)))))"

definition FirstSeenReplayCouple_element :: "(bytes \<Rightarrow> bytes option) \<Rightarrow> TextStream \<Rightarrow> ParseError + (Element \<times> nat)" where
  "FirstSeenReplayCouple_element dec ts =
     res_bind (read_matter dec ts) (\<lambda>(seqner, ts).
     res_bind (read_matter dec ts) (\<lambda>(dater, ts). Inr (ReplayCouple seqner dater, ts_pos ts)))"

definition TransIdxSigGroup_element :: "(bytes \<Rightarrow> bytes option) \<Rightarrow> TextStream \<Rightarrow> CesrVersion \<Rightarrow> ParseError + (Element \<times> nat)" where
  "TransIdxSigGroup_element dec ts version =
     res_bind (read_identifier_prefix dec ts) (\<lambda>(prefixer, ts).
     res_bind (read_matter dec ts) (\<lambda>(seqner, ts).
     res_bind (read_saider dec ts) (\<lambda>(saider, ts).
     res_bind (nested_controller_sigs (remaining ts) version) (\<lambda>(sigs, nested).
     res_bind (usize_add (Overflow ElementSpan) (ts_pos ts) nested) (\<lambda>consumed.
     Inr (SigGroup prefixer seqner saider sigs, consumed))))))"

definition SealSourceCouple_element :: "(bytes \<Rightarrow> bytes option) \<Rightarrow> TextStream \<Rightarrow> ParseError + (Element \<times> nat)" where
  "SealSourceCouple_element dec ts =
     res_bind (read_matter dec ts) (\<lambda>(seqner, ts).
     res_bind (read_saider dec ts) (\<lambda>(saider, ts). Inr (SealCouple seqner saider, ts_pos ts)))"

definition TransLastIdxSigGroup_element :: "(bytes \<Rightarrow> bytes option) \<Rightarrow> TextStream \<Rightarrow> CesrVersion \<Rightarrow> ParseError + (Element \<times> nat)" where
  "TransLastIdxSigGroup_element dec ts version =
     res_bind (read_identifier_prefix dec ts) (\<lambda>(prefixer, ts).
     res_bind (nested_controller_sigs (remaining ts) version) (\<lambda>(sigs, nested).
     res_bind (usize_add (Overflow ElementSpan) (ts_pos ts) nested) (\<lambda>consumed.
     Inr (LastSigGroup prefixer sigs, consumed))))"

definition SealSourceTriple_element :: "(bytes \<Rightarrow> bytes option) \<Rightarrow> TextStream \<Rightarrow> ParseError + (Element \<times> nat)" where
  "SealSourceTriple_element dec ts =
     res_bind (read_prefixer dec ts) (\<lambda>(prefixer, ts).
     res_bind (read_matter dec ts) (\<lambda>(seqner, ts).
     res_bind (read_saider dec ts) (\<lambda>(saider, ts). Inr (SealTriple prefixer seqner saider, ts_pos ts))))"

definition DigestSealSingle_element :: "(bytes \<Rightarrow> bytes option) \<Rightarrow> TextStream \<Rightarrow> ParseError + (Element \<times> nat)" where
  "DigestSealSingle_element dec ts =
     res_bind (read_diger dec ts) (\<lambda>(diger, ts). Inr (DigestElement diger, ts_pos ts))"

definition MerkleRootSealSingle_element :: "(bytes \<Rightarrow> bytes option) \<Rightarrow> TextStream \<Rightarrow> ParseError + (Element \<times> nat)" where
  "MerkleRootSealSingle_element dec ts =
     res_bind (read_diger dec ts) (\<lambda>(diger, ts). Inr (DigestElement diger, ts_pos ts))"

definition SealSourceLastSingle_element :: "(bytes \<Rightarrow> bytes option) \<Rightarrow> TextStream \<Rightarrow> ParseError + (Element \<times> nat)" where
  "SealSourceLastSingle_element dec ts =
     res_bind (read_prefixer dec ts) (\<lambda>(prefixer, ts). Inr (PrefixElement prefixer, ts_pos ts))"

definition BackerRegistrarSealCouple_element :: "(bytes \<Rightarrow> bytes option) \<Rightarrow> TextStream \<Rightarrow> ParseError + (Element \<times> nat)" where
  "BackerRegistrarSealCouple_element dec ts =
     res_bind (read_prefixer dec ts) (\<lambda>(prefixer, ts).
     res_bind (read_diger dec ts) (\<lambda>(diger, ts). Inr (BackerCouple prefixer diger, ts_pos ts)))"

definition TypedDigestSealCouple_element :: "(bytes \<Rightarrow> bytes option) \<Rightarrow> TextStream \<Rightarrow> ParseError + (Element \<times> nat)" where
  "TypedDigestSealCouple_element dec ts =
     res_bind (read_verser dec ts) (\<lambda>(verser, ts).
     res_bind (read_diger dec ts) (\<lambda>(diger, ts). Inr (TypedDigest verser diger, ts_pos ts)))"

definition BlindedStateQuadruple_element :: "(bytes \<Rightarrow> bytes option) \<Rightarrow> TextStream \<Rightarrow> ParseError + (Element \<times> nat)" where
  "BlindedStateQuadruple_element dec ts =
     res_bind (read_diger dec ts) (\<lambda>(diger, ts).
     res_bind (read_noncer dec ts) (\<lambda>(noncer1, ts).
     res_bind (read_noncer dec ts) (\<lambda>(noncer2, ts).
     res_bind (read_labeler dec ts) (\<lambda>(labeler, ts). Inr (BlindedState diger noncer1 noncer2 labeler, ts_pos ts)))))"

definition BoundStateSextuple_element :: "(bytes \<Rightarrow> bytes option) \<Rightarrow> TextStream \<Rightarrow> ParseError + (Element \<times> nat)" where
  "BoundStateSextuple_element dec ts =
     res_bind (read_diger dec ts) (\<lambda>(diger, ts).
     res_bind (read_noncer dec ts) (\<lambda>(noncer1, ts).
     res_bind (read_noncer dec ts) (\<lambda>(noncer2, ts).
     res_bind (read_labeler dec ts) (\<lambda>(labeler, ts).
     res_bind (read_number dec ts) (\<lambda>(number, ts).
     res_bind (read_noncer dec ts) (\<lambda>(noncer3, ts).
     Inr (BoundState diger noncer1 noncer2 labeler number noncer3, ts_pos ts)))))))"

definition TypedMediaQuadruple_element :: "(bytes \<Rightarrow> bytes option) \<Rightarrow> TextStream \<Rightarrow> ParseError + (Element \<times> nat)" where
  "TypedMediaQuadruple_element dec ts =
     res_bind (read_diger dec ts) (\<lambda>(diger, ts).
     res_bind (read_noncer dec ts) (\<lambda>(noncer, ts).
     res_bind (read_labeler dec ts) (\<lambda>(labeler, ts).
     res_bind (read_texter dec ts) (\<lambda>(texter, ts). Inr (TypedMedia diger noncer labeler texter, ts_pos ts)))))"

definition GroupKind_element ::
    "(bytes \<Rightarrow> bytes option) \<Rightarrow> GroupKind \<Rightarrow> bytes \<Rightarrow> CesrVersion \<Rightarrow> ParseError + (Element \<times> nat)" where
  "GroupKind_element dec kind input version =
     (let ts = TextStream_new input in
      case kind of
        ControllerIdxSig \<Rightarrow> ControllerIdxSig_element dec ts
      | WitnessIdxSig \<Rightarrow> WitnessIdxSig_element dec ts
      | NonTransReceiptCouple \<Rightarrow> NonTransReceiptCouple_element dec ts
      | TransReceiptQuadruple \<Rightarrow> TransReceiptQuadruple_element dec ts
      | FirstSeenReplayCouple \<Rightarrow> FirstSeenReplayCouple_element dec ts
      | TransIdxSigGroup \<Rightarrow> TransIdxSigGroup_element dec ts version
      | SealSourceCouple \<Rightarrow> SealSourceCouple_element dec ts
      | TransLastIdxSigGroup \<Rightarrow> TransLastIdxSigGroup_element dec ts version
      | SealSourceTriple \<Rightarrow> SealSourceTriple_element dec ts
      | DigestSealSingle \<Rightarrow> DigestSealSingle_element dec ts
      | MerkleRootSealSingle \<Rightarrow> MerkleRootSealSingle_element dec ts
      | SealSourceLastSingle \<Rightarrow> SealSourceLastSingle_element dec ts
      | BackerRegistrarSealCouple \<Rightarrow> BackerRegistrarSealCouple_element dec ts
      | TypedDigestSealCouple \<Rightarrow> TypedDigestSealCouple_element dec ts
      | BlindedStateQuadruple \<Rightarrow> BlindedStateQuadruple_element dec ts
      | BoundStateSextuple \<Rightarrow> BoundStateSextuple_element dec ts
      | TypedMediaQuadruple \<Rightarrow> TypedMediaQuadruple_element dec ts)"

lemmas element_defs = GroupKind_element_def
  ControllerIdxSig_element_def WitnessIdxSig_element_def NonTransReceiptCouple_element_def TransReceiptQuadruple_element_def
  FirstSeenReplayCouple_element_def TransIdxSigGroup_element_def SealSourceCouple_element_def TransLastIdxSigGroup_element_def
  SealSourceTriple_element_def DigestSealSingle_element_def MerkleRootSealSingle_element_def SealSourceLastSingle_element_def
  BackerRegistrarSealCouple_element_def TypedDigestSealCouple_element_def BlindedStateQuadruple_element_def BoundStateSextuple_element_def
  TypedMediaQuadruple_element_def

section \<open>Lenient skips\<close>

definition GroupKind_skip :: "GroupKind \<Rightarrow> bytes \<Rightarrow> CesrVersion \<Rightarrow> ParseError + nat" where
  "GroupKind_skip kind input version =
     (let ts = TextStream_new input;
          indexer = res_bind (skip_indexer ts) (\<lambda>ts. Inr (ts_pos ts));
          matters = (\<lambda>n. res_bind (skip_matters n ts) (\<lambda>ts. Inr (ts_pos ts)))
      in case kind of
        ControllerIdxSig \<Rightarrow> indexer
      | WitnessIdxSig \<Rightarrow> indexer
      | NonTransReceiptCouple \<Rightarrow> matters 2
      | TransReceiptQuadruple \<Rightarrow>
          res_bind (skip_matters 3 ts) (\<lambda>ts. res_bind (skip_indexer ts) (\<lambda>ts. Inr (ts_pos ts)))
      | FirstSeenReplayCouple \<Rightarrow> matters 2
      | TransIdxSigGroup \<Rightarrow> fst (nested_advance (NestedSigCursor_new 3 ''-F'' ''-X'') input version)
      | SealSourceCouple \<Rightarrow> matters 2
      | TransLastIdxSigGroup \<Rightarrow> fst (nested_advance (NestedSigCursor_new 1 ''-H'' ''-Y'') input version)
      | SealSourceTriple \<Rightarrow> matters 3
      | DigestSealSingle \<Rightarrow> matters 1
      | MerkleRootSealSingle \<Rightarrow> matters 1
      | SealSourceLastSingle \<Rightarrow> matters 1
      | BackerRegistrarSealCouple \<Rightarrow> matters 2
      | TypedDigestSealCouple \<Rightarrow> matters 2
      | BlindedStateQuadruple \<Rightarrow> matters 4
      | BoundStateSextuple \<Rightarrow> matters 6
      | TypedMediaQuadruple \<Rightarrow> matters 4)"

section \<open>The write side\<close>

text \<open>
  The constructors of the four families that are written. None is a panic of a primitive's
  writer, which a primitive from its builder does not raise.
\<close>

fun concat_all :: "('a \<Rightarrow> bytes option) \<Rightarrow> 'a list \<Rightarrow> bytes option" where
  "concat_all f [] = Some []"
| "concat_all f (x # xs) = Option.bind (f x) (\<lambda>b. map_option (\<lambda>bs. b @ bs) (concat_all f xs))"

definition u32_of_len :: "'a list \<Rightarrow> ParseError + u32" where
  "u32_of_len xs = (if length xs < 2 ^ 32 then Inr (word_of_nat (length xs)) else Inl (Overflow ElementCount))"

definition encode_sigers :: "(bytes \<Rightarrow> bytes) \<Rightarrow> Indexer list \<Rightarrow> (ParseError + (bytes \<times> u32)) option" where
  "encode_sigers enc sigers =
     (case u32_of_len sigers of
        Inl e \<Rightarrow> Some (Inl e)
      | Inr count \<Rightarrow> map_option (\<lambda>raw. Inr (raw, count)) (concat_all (Indexer_to_qb64 enc) sigers))"

definition from_indexed_signatures :: "(bytes \<Rightarrow> bytes) \<Rightarrow> GroupKind \<Rightarrow> Indexer list \<Rightarrow> (ParseError + Group) option" where
  "from_indexed_signatures enc kind sigers =
     map_option (\<lambda>r. res_bind r (\<lambda>(raw, count). Inr (Group_new kind raw count V1))) (encode_sigers enc sigers)"

definition ControllerIdxSigs_from_indexed_signatures :: "(bytes \<Rightarrow> bytes) \<Rightarrow> Indexer list \<Rightarrow> (ParseError + Group) option" where
  "ControllerIdxSigs_from_indexed_signatures enc sigers = from_indexed_signatures enc ControllerIdxSig sigers"

definition WitnessIdxSigs_from_indexed_signatures :: "(bytes \<Rightarrow> bytes) \<Rightarrow> Indexer list \<Rightarrow> (ParseError + Group) option" where
  "WitnessIdxSigs_from_indexed_signatures enc sigers = from_indexed_signatures enc WitnessIdxSig sigers"

definition from_couples ::
    "(bytes \<Rightarrow> bytes) \<Rightarrow> (VerKeyCode Matter \<times> SignatureCode Matter) list \<Rightarrow> (ParseError + Group) option" where
  "from_couples enc couples =
     (case u32_of_len couples of
        Inl e \<Rightarrow> Some (Inl e)
      | Inr count \<Rightarrow> map_option (\<lambda>raw. Inr (Group_new NonTransReceiptCouple raw count V1))
          (concat_all (\<lambda>(prefixer, cigar).
             Option.bind (append_qb64 enc VerKeyCode_to_matter_code prefixer []) (\<lambda>p.
             map_option (\<lambda>s. p @ s) (append_qb64 enc SignatureCode_to_matter_code cigar []))) couples))"

text \<open>\<^verbatim>\<open>Group::encode_cesr\<close>, in either version: the counter, then the elements.\<close>

definition Group_encode_V1 :: "Group \<Rightarrow> bytes \<Rightarrow> ParseError + bytes" where
  "Group_encode_V1 g dst =
     (case GroupKind_CODE_V1 (gr_kind g) of
        None \<Rightarrow> Inl (VersionMismatch ''V2-only group type'' V1)
      | Some c \<Rightarrow> res_bind (CounterCodeV1_encode_count_into c (gr_count g) dst) (\<lambda>dst. Inr (dst @ gr_raw g)))"

definition Group_encode_V2 :: "Group \<Rightarrow> bytes \<Rightarrow> ParseError + bytes" where
  "Group_encode_V2 g dst =
     res_bind (CounterCodeV2_encode_count_into (GroupKind_CODE_V2 (gr_kind g)) (gr_count g) dst) (\<lambda>dst. Inr (dst @ gr_raw g))"

fun from_groups_raw ::
    "(bytes \<Rightarrow> bytes) \<Rightarrow> (MatterCode Matter \<times> MatterCode Matter \<times> DigestCode Matter \<times> Group) list \<Rightarrow> bytes \<Rightarrow>
     (ParseError + bytes) option" where
  "from_groups_raw enc [] raw = Some (Inr raw)"
| "from_groups_raw enc ((prefixer, seqner, saider, sigs) # gs) raw =
     Option.bind (append_qb64 enc (\<lambda>c. c) prefixer []) (\<lambda>p.
     Option.bind (append_qb64 enc (\<lambda>c. c) seqner []) (\<lambda>s.
     Option.bind (append_qb64 enc DigestCode_to_matter_code saider []) (\<lambda>d.
     case Group_encode_V1 sigs (raw @ p @ s @ d) of
       Inl e \<Rightarrow> Some (Inl e)
     | Inr raw \<Rightarrow> from_groups_raw enc gs raw)))"

definition from_groups ::
    "(bytes \<Rightarrow> bytes) \<Rightarrow> (MatterCode Matter \<times> MatterCode Matter \<times> DigestCode Matter \<times> Group) list \<Rightarrow>
     (ParseError + Group) option" where
  "from_groups enc groups =
     (case u32_of_len groups of
        Inl e \<Rightarrow> Some (Inl e)
      | Inr count \<Rightarrow>
          map_option (\<lambda>r. res_bind r (\<lambda>raw. Inr (Group_new TransIdxSigGroup raw count V1))) (from_groups_raw enc groups []))"

end
