(* ===== verification/Stream_Kinds_Laws.thy ===== *)
theory Stream_Kinds_Laws
  imports Stream_Kinds
begin

text \<open>
  The contract of the trait \<^verbatim>\<open>GroupKind\<close> as a locale, and its interpretation on every
  kind: the lenient skip of an element is settled on the bytes it has seen, makes progress
  within them, and agrees with the typed read wherever both succeed.
\<close>

locale group_grammar =
  fixes skip :: "bytes \<Rightarrow> CesrVersion \<Rightarrow> ParseError + nat"
    and element :: "bytes \<Rightarrow> CesrVersion \<Rightarrow> ParseError + ('e \<times> nat)"
  assumes skip_settled: "settled (\<lambda>xs. skip xs v)"
    and skip_bound: "length xs < usize_bound \<Longrightarrow> skip xs v = Inr n \<Longrightarrow> 0 < n \<and> n \<le> length xs"
    and element_span: "length xs < usize_bound \<Longrightarrow> skip xs v = Inr n \<Longrightarrow> element xs v = Inr (x, m) \<Longrightarrow> m = n"
begin

lemma skip_append:
  "length (xs @ ys) < usize_bound \<Longrightarrow> skip xs v = Inr n \<Longrightarrow> skip (xs @ ys) v = Inr n"
  by (rule settled_Inr[OF skip_settled])

text \<open>\<^verbatim>\<open>count\<close> elements in a row, as a group is framed and as it is iterated.\<close>

primrec span :: "nat \<Rightarrow> bytes \<Rightarrow> CesrVersion \<Rightarrow> ParseError + nat" where
  "span 0 xs v = Inr 0"
| "span (Suc k) xs v = res_bind (skip xs v) (\<lambda>n. res_bind (span k (drop n xs) v) (\<lambda>m. Inr (n + m)))"

lemma span_bound: "length xs < usize_bound \<Longrightarrow> span k xs v = Inr n \<Longrightarrow> n \<le> length xs"
proof (induction k arbitrary: xs n)
  case (Suc k)
  then obtain a m where a: "skip xs v = Inr a" "span k (drop a xs) v = Inr m" "n = a + m" by auto
  have "length (drop a xs) < usize_bound" using Suc.prems(1) by auto
  then have "m \<le> length xs - a" using Suc.IH[of "drop a xs" m] a by simp
  then show ?case using skip_bound[OF Suc.prems(1) a(1)] a(3) by auto
qed simp

lemma span_append: "length (xs @ ys) < usize_bound \<Longrightarrow> span k xs v = Inr n \<Longrightarrow> span k (xs @ ys) v = Inr n"
proof (induction k arbitrary: xs n)
  case (Suc k)
  then obtain a m where a: "skip xs v = Inr a" "span k (drop a xs) v = Inr m" "n = a + m" by auto
  have l: "length xs < usize_bound" "length (drop a xs @ ys) < usize_bound" using Suc.prems(1) by auto
  have "a \<le> length xs" using skip_bound[OF l(1) a(1)] by simp
  then show ?case using Suc.IH[OF l(2) a(2)] skip_append[OF Suc.prems(1) a(1)] a(3) by simp
qed simp

end

section \<open>Reads and their sizers\<close>

definition reads :: "(bytes \<Rightarrow> ParseError + nat) \<Rightarrow> (TextStream \<Rightarrow> ParseError + ('a \<times> TextStream)) \<Rightarrow> bool" where
  "reads f rd \<longleftrightarrow> sizer f \<and> (\<forall>ts x ts'. ts_ok ts \<longrightarrow> rd ts = Inr (x, ts') \<longrightarrow>
     (\<exists>n. f (remaining ts) = Inr n \<and> ts' = after ts n))"

lemma readsD: "reads f rd \<Longrightarrow> ts_ok ts \<Longrightarrow> rd ts = Inr (x, ts') \<Longrightarrow>
   \<exists>n. f (remaining ts) = Inr n \<and> ts' = after ts n \<and> ts_ok ts'"
  unfolding reads_def by (metis sizer_bound ts_ok_after)

lemma matter_size_Inr:
  "matter_size xs = Inr n \<longleftrightarrow> map_err parse_error_of_build (frame_size xs) = Inr n \<and> n \<le> length xs"
  by (simp add: matter_size_def within_Inr)

lemma indexer_size_Inr:
  "indexer_size xs = Inr n \<longleftrightarrow> map_err parse_error_of_indexer (IndexedSigCode_frame_size xs) = Inr n \<and> n \<le> length xs"
  by (simp add: indexer_size_def within_Inr)

lemma reads_matter: "reads matter_size (read_matter dec)"
  by (auto simp: reads_def read_matter_def take_span_eq matter_size_Inr split: if_splits)

lemma decode_u32_u64: "decode_int s = Inr (w :: u32) \<Longrightarrow> decode_int s = Inr (word_of_nat (unat w) :: u64)"
  by (simp add: decode_int_Inr unat_of_nat less_trans[OF unsigned_less] del: unsigned_of_nat of_nat_unat)

lemma Indexer_from_qb64_size:
  assumes "Indexer_from_qb64 dec xs = Inr (i, fs)"
  shows "IndexedSigCode_frame_size xs = Inr fs" "fs \<le> length xs"
proof -
  obtain c where c: "Indexer_read_code xs = Inr c" using assms by (auto simp: Indexer_from_qb64_def)
  show "fs \<le> length xs" using assms by (auto simp: Indexer_from_qb64_def Let_def)
  show "IndexedSigCode_frame_size xs = Inr fs"
  proof (cases "xz_fs (get_xizage c)")
    case (Fixed n)
    then show ?thesis using assms c
      by (auto simp: Indexer_from_qb64_def Let_def IndexedSigCode_frame_size_def IndexedSigCode_frame_size_of_def)
  next
    case Variable
    let ?xz = "get_xizage c"
    let ?s = "take (xz_ss ?xz - xz_os ?xz) (drop (xz_hs ?xz) xs)"
    obtain index where i: "parse_sub_index ?s = Inr index" "xz_hs ?xz + xz_ss ?xz \<le> length xs"
      "Indexer_compute_full_size (unat index) (xz_hs ?xz + xz_ss ?xz) = Inr fs"
      using assms c Variable by (auto simp: Indexer_from_qb64_def Let_def)
    then have "from_utf8_ok ?s" "decode_int ?s = Inr (word_of_nat (unat index) :: u64)"
      by (auto simp: parse_sub_index_def dest: decode_u32_u64)
    moreover have "unat (word_of_nat (unat index) :: u64) = unat index"
      by (simp add: unat_of_nat less_trans[OF unsigned_less] del: unsigned_of_nat of_nat_unat)
    ultimately show ?thesis using i c Variable
      by (simp add: IndexedSigCode_frame_size_def IndexedSigCode_frame_size_of_def Let_def del: of_nat_unat)
  qed
qed

lemma reads_indexer: "reads indexer_size (read_indexer dec)"
  unfolding reads_def
  by (auto simp: read_indexer_def take_span_eq indexer_size_Inr split: if_splits prod.splits
    dest: Indexer_from_qb64_size)

lemma reads_narrow: "reads matter_size (read_narrow dec try_from e)"
  using reads_matter[of dec] by (auto simp: reads_def read_narrow_def split: prod.splits)

lemma reads_all [simp, intro]:
  "reads matter_size (read_matter dec)" "reads indexer_size (read_siger dec)" "reads matter_size (read_prefixer dec)"
  "reads matter_size (read_diger dec)" "reads matter_size (read_saider dec)" "reads matter_size (read_cigar dec)"
  "reads matter_size (read_verser dec)" "reads matter_size (read_noncer dec)" "reads matter_size (read_labeler dec)"
  "reads matter_size (read_texter dec)" "reads matter_size (read_number dec)" "reads matter_size (read_identifier_prefix dec)"
proof -
  show "reads matter_size (read_matter dec)" by (rule reads_matter)
  have "read_siger dec = read_indexer dec" by (rule ext) (simp add: read_siger_def)
  then show "reads indexer_size (read_siger dec)" using reads_indexer by simp
  show "reads matter_size (read_prefixer dec)" "reads matter_size (read_diger dec)" "reads matter_size (read_saider dec)"
    "reads matter_size (read_cigar dec)" "reads matter_size (read_verser dec)" "reads matter_size (read_noncer dec)"
    "reads matter_size (read_labeler dec)" "reads matter_size (read_texter dec)"
    unfolding read_prefixer_def read_verfer_def read_diger_def read_saider_def read_cigar_def read_verser_def
      read_noncer_def read_labeler_def read_texter_def by (rule reads_narrow)+
  show "reads matter_size (read_number dec)"
    using reads_narrow[of dec NumberCode_try_from "''NumberCode''"] by (auto simp: reads_def read_number_def Let_def)
  show "reads matter_size (read_identifier_prefix dec)"
    using reads_matter[of dec]
    by (auto simp: reads_def read_identifier_prefix_def split: if_splits sum.splits)
      (metis sum.exhaust)
qed

section \<open>Every kind\<close>

text \<open>The primitives of a plain kind.\<close>

fun kind_sizers :: "GroupKind \<Rightarrow> (bytes \<Rightarrow> ParseError + nat) list" where
  "kind_sizers ControllerIdxSig = [indexer_size]"
| "kind_sizers WitnessIdxSig = [indexer_size]"
| "kind_sizers NonTransReceiptCouple = replicate 2 matter_size"
| "kind_sizers TransReceiptQuadruple = replicate 3 matter_size @ [indexer_size]"
| "kind_sizers FirstSeenReplayCouple = replicate 2 matter_size"
| "kind_sizers SealSourceCouple = replicate 2 matter_size"
| "kind_sizers SealSourceTriple = replicate 3 matter_size"
| "kind_sizers DigestSealSingle = [matter_size]"
| "kind_sizers MerkleRootSealSingle = [matter_size]"
| "kind_sizers SealSourceLastSingle = [matter_size]"
| "kind_sizers BackerRegistrarSealCouple = replicate 2 matter_size"
| "kind_sizers TypedDigestSealCouple = replicate 2 matter_size"
| "kind_sizers BlindedStateQuadruple = replicate 4 matter_size"
| "kind_sizers BoundStateSextuple = replicate 6 matter_size"
| "kind_sizers TypedMediaQuadruple = replicate 4 matter_size"
| "kind_sizers _ = []"

definition kind_cursor :: "GroupKind \<Rightarrow> NestedSigCursor option" where
  "kind_cursor kind = map_option (\<lambda>(m, o1, o2). NestedSigCursor_new m o1 o2) (nested_sig_grammar kind)"

lemma kind_sizers_ok: "\<forall>f \<in> set (kind_sizers kind). sizer f"
  by (cases kind) auto

lemma kind_sizers_Nil: "kind_sizers kind = [] \<longleftrightarrow> kind_cursor kind \<noteq> None"
  by (cases kind) (simp_all add: kind_cursor_def)

lemma sizes_append:
  "sizes (fs @ gs) xs = res_bind (sizes fs xs) (\<lambda>n. res_bind (sizes gs (drop n xs)) (\<lambda>m. Inr (n + m)))"
proof (induction fs arbitrary: xs)
  case Nil
  show ?case by (cases "sizes gs xs") simp_all
next
  case (Cons f fs)
  show ?case
    by (cases "f xs") (auto simp: Cons res_bind_assoc add.commute add.assoc intro!: res_bind_cong)
qed

lemma GroupKind_skip_plain:
  assumes "length xs < usize_bound" "kind_cursor kind = None"
  shows "GroupKind_skip kind xs v = sizes (kind_sizers kind) xs"
proof -
  have ok: "ts_ok (TextStream_new xs)" using assms(1) by simp
  have m: "res_bind (skip_matters n (TextStream_new xs)) (\<lambda>ts. Inr (ts_pos ts)) = sizes (replicate n matter_size) xs" for n
    by (cases "sizes (replicate n matter_size) xs") (simp_all add: skip_matters_eq[OF ok])
  have i: "res_bind (skip_indexer (TextStream_new xs)) (\<lambda>ts. Inr (ts_pos ts)) = sizes [indexer_size] xs"
    by (cases "indexer_size xs") (simp_all add: skip_indexer_eq[OF ok])
  have q: "res_bind (skip_matters 3 (TextStream_new xs)) (\<lambda>ts. res_bind (skip_indexer ts) (\<lambda>ts. Inr (ts_pos ts))) =
      sizes (replicate 3 matter_size @ [indexer_size]) xs"
  proof (cases "sizes (replicate 3 matter_size) xs")
    case (Inl e)
    then show ?thesis unfolding sizes_append skip_matters_eq[OF ok] by simp
  next
    case (Inr n)
    then have "n \<le> length xs" using sizes_bound[OF _ Inr] by auto
    then have "ts_ok (after (TextStream_new xs) n)" using ok by (intro ts_ok_after) simp_all
    then show ?thesis unfolding sizes_append skip_matters_eq[OF ok] using Inr
      by (cases "indexer_size (drop n xs)") (simp_all add: skip_indexer_eq)
  qed
  show ?thesis
    using assms(2) m[of 1] m[of 2] m[of 3] m[of 4] m[of 6] i q
    by (cases kind) (simp_all only: GroupKind_skip_def Let_def GroupKind.case kind_sizers.simps kind_cursor_def
      nested_sig_grammar.simps option.map option.distinct One_nat_def replicate.simps)
qed

lemma GroupKind_skip_nested:
  assumes "length xs < usize_bound" "kind_cursor kind = Some c"
  shows "GroupKind_skip kind xs v = nested_size c v xs"
  using assms nested_advance_size[OF assms(1), of c v]
  by (cases kind) (auto simp: GroupKind_skip_def kind_cursor_def NestedSigCursor_new_def)

section \<open>Elements\<close>

definition spans :: "(bytes \<Rightarrow> ParseError + nat) list \<Rightarrow> (TextStream \<Rightarrow> ParseError + ('a \<times> nat)) \<Rightarrow> bool" where
  "spans fs rd \<longleftrightarrow> (\<forall>ts x m. ts_ok ts \<longrightarrow> rd ts = Inr (x, m) \<longrightarrow>
     (\<exists>n. sizes fs (remaining ts) = Inr n \<and> m = ts_pos ts + n))"

lemma spans_done: "spans [] (\<lambda>ts. Inr (x, ts_pos ts))"
  by (simp add: spans_def)

lemma spans_step:
  assumes "reads f rd" "\<And>x. spans fs (k x)"
  shows "spans (f # fs) (\<lambda>ts. res_bind (rd ts) (\<lambda>(x, ts). k x ts))"
  unfolding spans_def
proof (intro allI impI)
  fix ts y m assume ts: "ts_ok ts" and "res_bind (rd ts) (\<lambda>(x, ts). k x ts) = Inr (y, m)"
  then obtain x ts' where r: "rd ts = Inr (x, ts')" "k x ts' = Inr (y, m)" by auto
  from readsD[OF assms(1) ts r(1)] obtain n where n: "f (remaining ts) = Inr n" "ts' = after ts n" "ts_ok ts'" by blast
  then obtain j where "sizes fs (remaining ts') = Inr j" "m = ts_pos ts' + j"
    using assms(2)[of x] r(2) unfolding spans_def by blast
  then show "\<exists>n. sizes (f # fs) (remaining ts) = Inr n \<and> m = ts_pos ts + n" using n by simp
qed

lemmas spans_intros = spans_step[OF reads_all(1)] spans_step[OF reads_all(2)] spans_step[OF reads_all(3)]
  spans_step[OF reads_all(4)] spans_step[OF reads_all(5)] spans_step[OF reads_all(6)] spans_step[OF reads_all(7)]
  spans_step[OF reads_all(8)] spans_step[OF reads_all(9)] spans_step[OF reads_all(10)] spans_step[OF reads_all(11)]
  spans_step[OF reads_all(12)] spans_done

lemma plain_element_spans:
  assumes "kind_cursor kind = None"
  shows "\<exists>rd. spans (kind_sizers kind) rd \<and> GroupKind_element dec kind xs v = rd (TextStream_new xs)"
  using assms
  by (cases kind)
     (simp_all add: element_defs kind_cursor_def numeral_eq_Suc,
      (rule exI, rule conjI, (rule spans_intros)+, rule refl)+)

lemma spans_new: "spans fs rd \<Longrightarrow> length xs < usize_bound \<Longrightarrow> rd (TextStream_new xs) = Inr (x, m) \<Longrightarrow> sizes fs xs = Inr m"
proof -
  assume s: "spans fs rd" "length xs < usize_bound" "rd (TextStream_new xs) = Inr (x, m)"
  have "ts_ok (TextStream_new xs)" using s(2) by simp
  then show "sizes fs xs = Inr m" using s(1,3) unfolding spans_def by fastforce
qed

text \<open>The nested list, read a second time without its code being checked.\<close>

lemma skip_indexers_eq:
  "ts_ok ts \<Longrightarrow> skip_indexers k ts = res_bind (sizes (replicate k indexer_size) (remaining ts)) (\<lambda>n. Inr (after ts n))"
proof (induction k arbitrary: ts)
  case (Suc k)
  show ?case
  proof (cases "indexer_size (remaining ts)")
    case (Inr n)
    then have "ts_ok (after ts n)" using Suc.prems sizer_bound[OF sizer_sizes(2)] by (blast intro: ts_ok_after)
    then show ?thesis using Suc.IH[of "after ts n"] Suc.prems Inr
      by (simp add: skip_indexer_eq res_bind_assoc add.commute)
  qed (use Suc.prems in \<open>simp add: skip_indexer_eq\<close>)
qed simp

lemma count_head_read:
  assumes "length xs < usize_bound" "count_head c v xs = Inr (n, k)"
  shows "(case v of V1 \<Rightarrow> res_bind (read_counter_v1 (TextStream_new xs)) (\<lambda>((_, n), _). Inr n)
       | V2 \<Rightarrow> res_bind (read_counter_v2 (TextStream_new xs)) (\<lambda>((_, n), _). Inr n)) = Inr n"
  using assms(2) by (cases v) (auto simp: count_head_def nested_read_count_def split: if_splits)

lemma hard_decides:
  "CounterCodeV1_from_base64_stream xs = Inr c \<Longrightarrow> stream_hard_size xs = Inr (CounterCodeV1_hard_size c)"
  "CounterCodeV2_from_base64_stream xs = Inr d \<Longrightarrow> stream_hard_size xs = Inr (CounterCodeV2_hard_size d)"
  by (auto simp: CounterCodeV1_from_base64_stream_def CounterCodeV2_from_base64_stream_def v1.stream_code_iff
    v2.stream_code_iff v1.stream_head_append v2.stream_head_append)

lemma skip_counter_V1:
  assumes "length xs < usize_bound" "v1.counter_head xs = Inr ((c, n), k)"
  shows "skip_counter (TextStream_new xs) = Inr (after (TextStream_new xs) k)"
proof -
  have "CounterCodeV1_from_base64_stream xs = Inr c" "k = CounterCodeV1_full_size c" "k \<le> length xs"
    using assms v1.counter_head_size[OF assms]
    by (auto simp: v1.counter_head_iff counter_wire_def CounterCodeV1_from_base64_stream_def v1.stream_code_iff)
  then show ?thesis using assms(1) by (simp add: skip_counter_def take_span_eq)
qed

lemma skip_counter_V2:
  assumes "length xs < usize_bound" "v2.counter_head xs = Inr ((d, n), k)"
  shows "skip_counter (TextStream_new xs) = Inr (after (TextStream_new xs) k)"
proof -
  have d: "CounterCodeV2_from_base64_stream xs = Inr d" "k = CounterCodeV2_full_size d" "k \<le> length xs"
    using assms v2.counter_head_size[OF assms]
    by (auto simp: v2.counter_head_iff counter_wire_def CounterCodeV2_from_base64_stream_def v2.stream_code_iff)
  have h: "stream_hard_size xs = Inr (CounterCodeV2_hard_size d)" by (rule hard_decides(2)[OF d(1)])
  show ?thesis
  proof (cases "CounterCodeV1_from_base64_stream xs")
    case (Inr c)
    then have "CounterCodeV1_hard_size c = CounterCodeV2_hard_size d" using h hard_decides(1)[OF Inr] by simp
    then have "CounterCodeV1_full_size c = k"
      using v1.sizes[of c] v2.sizes[of d] v1.full[of c] v2.full[of d] d(2) by auto
    then show ?thesis using Inr d assms(1) by (simp add: skip_counter_def take_span_eq)
  next
    case (Inl e)
    have l: "\<not> length xs < CounterCodeV2_hard_size d" using d v2.full[of d] by simp
    have "\<exists>s. e = CounterCodeError.UnknownCode s"
    proof (cases "from_utf8_ok (take (CounterCodeV2_hard_size d) xs)")
      case True
      have "CounterCodeV1_from_hard (take (CounterCodeV2_hard_size d) xs) = Inl e"
        using Inl h l True by (simp add: CounterCodeV1_from_base64_stream_def counter_from_base64_stream_def Let_def)
      then show ?thesis by (simp add: CounterCodeV1_from_hard_def from_hard_table_def)
    next
      case False
      then show ?thesis
        using Inl h l by (auto simp add: CounterCodeV1_from_base64_stream_def counter_from_base64_stream_def Let_def)
    qed
    then obtain s where "CounterCodeV1_from_base64_stream xs = Inl (CounterCodeError.UnknownCode s)" using Inl by blast
    then show ?thesis using d assms(1) by (simp add: skip_counter_def take_span_eq)
  qed
qed

lemma skip_counter_head:
  assumes "length xs < usize_bound" "count_head c v xs = Inr (n, k)"
  shows "skip_counter (TextStream_new xs) = Inr (after (TextStream_new xs) k)"
  using assms(2) skip_counter_V1[OF assms(1)] skip_counter_V2[OF assms(1)]
  by (cases v) (auto simp: count_head_V1 count_head_V2 split: if_splits)

lemma nested_controller_sigs_span:
  assumes "length xs < usize_bound" "count_head c v xs = Inr (n, k)" "sizes (replicate (unat n) indexer_size) (drop k xs) = Inr m"
  shows "nested_controller_sigs xs v =
    Inr (Group_new ControllerIdxSig (take m (drop k xs)) n v, k + m)"
proof -
  have k: "k \<le> length xs" using count_head_size[OF assms(1,2)] by simp
  have "ts_ok (after (TextStream_new xs) k)" using assms(1) k by (intro ts_ok_after) simp_all
  then have "skip_indexers (unat n) (after (TextStream_new xs) k) = Inr (after (TextStream_new xs) (k + m))"
    using assms(3) by (simp add: skip_indexers_eq)
  then show ?thesis
    by (simp add: nested_controller_sigs_def skip_counter_head[OF assms(1,2)] count_head_read[OF assms(1,2)] Let_def)
qed

lemma nested_size_split:
  assumes "nested_size c v xs = Inr N"
  obtains n count k m where "sizes (replicate (ns_matters_left c) matter_size) xs = Inr n"
    "count_head c v (drop n xs) = Inr (count, k)"
    "sizes (replicate (unat count) indexer_size) (drop k (drop n xs)) = Inr m" "N = n + (k + m)"
  using assms by (auto simp: nested_size_def)

text \<open>The typed element of a nested kind: some reads, then the nested list.\<close>

definition nested_reads :: "nat \<Rightarrow> (TextStream \<Rightarrow> ParseError + ('a \<times> TextStream)) \<Rightarrow> bool" where
  "nested_reads j rd \<longleftrightarrow> (\<forall>ts x ts'. ts_ok ts \<longrightarrow> rd ts = Inr (x, ts') \<longrightarrow>
     (\<exists>n. sizes (replicate j matter_size) (remaining ts) = Inr n \<and> ts' = after ts n))"

lemma nested_element_span:
  assumes l: "length xs < usize_bound" and s: "nested_size c v xs = Inr N" and j: "ns_matters_left c = j"
    and rd: "nested_reads j rd"
    and e: "res_bind (rd (TextStream_new xs)) (\<lambda>(x, ts). res_bind (nested_controller_sigs (remaining ts) v) (\<lambda>(sigs, nested).
      res_bind (usize_add (Overflow ElementSpan) (ts_pos ts) nested) (\<lambda>consumed. Inr (f x sigs, consumed)))) = Inr (y, m)"
  shows "m = N"
proof -
  obtain n count k i where n: "sizes (replicate j matter_size) xs = Inr n"
    "count_head c v (drop n xs) = Inr (count, k)"
    "sizes (replicate (unat count) indexer_size) (drop k (drop n xs)) = Inr i" "N = n + (k + i)"
    using nested_size_split[OF s] j by metis
  obtain x ts where r: "rd (TextStream_new xs) = Inr (x, ts)" using e by auto
  have "ts_ok (TextStream_new xs)" using l by simp
  with rd r n(1) have ts: "ts = after (TextStream_new xs) n" unfolding nested_reads_def by fastforce
  have "length (drop n xs) < usize_bound" using l by auto
  from nested_controller_sigs_span[OF this n(2,3)] show ?thesis using e r ts n(4) by auto
qed

lemma nested_reads_3:
  assumes "reads matter_size a" "\<And>x. reads matter_size b" "\<And>x. reads matter_size d"
  shows "nested_reads 3 (\<lambda>ts. res_bind (a ts) (\<lambda>(x, ts). res_bind (b ts) (\<lambda>(y, ts). res_bind (d ts) (\<lambda>(z, ts). Inr ((x, y, z), ts)))))"
  unfolding nested_reads_def
proof (intro allI impI)
  fix ts r ts' assume ok: "ts_ok ts"
    and "res_bind (a ts) (\<lambda>(x, ts). res_bind (b ts) (\<lambda>(y, ts). res_bind (d ts) (\<lambda>(z, ts). Inr ((x, y, z), ts)))) = Inr (r, ts')"
  then obtain x t1 y t2 z where 1: "a ts = Inr (x, t1)" "b t1 = Inr (y, t2)" "d t2 = Inr (z, ts')" by auto
  from readsD[OF assms(1) ok 1(1)] obtain n where n: "matter_size (remaining ts) = Inr n" "t1 = after ts n" "ts_ok t1" by blast
  from readsD[OF assms(2) n(3) 1(2)] obtain m where m: "matter_size (remaining t1) = Inr m" "t2 = after t1 m" "ts_ok t2" by blast
  from readsD[OF assms(3) m(3) 1(3)] obtain k where "matter_size (remaining t2) = Inr k" "ts' = after t2 k" by blast
  then show "\<exists>n. sizes (replicate 3 matter_size) (remaining ts) = Inr n \<and> ts' = after ts n"
    using n m by (simp add: numeral_eq_Suc ac_simps)
qed

lemma nested_reads_1:
  assumes "reads matter_size a"
  shows "nested_reads 1 a"
  using readsD[OF assms] by (fastforce simp: nested_reads_def)

interpretation kind: group_grammar "GroupKind_skip k" "GroupKind_element dec k" for k dec
proof
  fix v
  show "settled (\<lambda>xs. GroupKind_skip k xs v)"
  proof (cases "kind_cursor k")
    case None
    show ?thesis by (rule settled_cong[OF GroupKind_skip_plain[OF _ None] settled_sizes_list[OF kind_sizers_ok]])
  next
    case (Some c)
    show ?thesis by (rule settled_cong[OF GroupKind_skip_nested[OF _ Some] settled_nested_size])
  qed
next
  fix xs :: bytes and v n assume l: "length xs < usize_bound" and s: "GroupKind_skip k xs v = Inr n"
  show "0 < n \<and> n \<le> length xs"
  proof (cases "kind_cursor k")
    case None
    then show ?thesis
      using s sizes_bound[OF kind_sizers_ok, of k xs n] kind_sizers_Nil[of k] by (simp add: GroupKind_skip_plain[OF l])
  next
    case (Some c)
    then have "nested_size c v xs = Inr n" using s by (simp add: GroupKind_skip_nested[OF l])
    then obtain a count h m where a: "sizes (replicate (ns_matters_left c) matter_size) xs = Inr a"
      "count_head c v (drop a xs) = Inr (count, h)"
      "sizes (replicate (unat count) indexer_size) (drop h (drop a xs)) = Inr m" "n = a + (h + m)"
      by (rule nested_size_split)
    have "a \<le> length xs" using sizes_bound[OF _ a(1)] by auto
    moreover have "4 \<le> h \<and> h \<le> length (drop a xs)" using l by (intro count_head_size[OF _ a(2)]) auto
    moreover have "m \<le> length (drop h (drop a xs))" using sizes_bound[OF _ a(3)] by auto
    ultimately show ?thesis using a(4) by auto
  qed
next
  fix xs :: bytes and v n x m
  assume l: "length xs < usize_bound" and s: "GroupKind_skip k xs v = Inr n" and e: "GroupKind_element dec k xs v = Inr (x, m)"
  show "m = n"
  proof (cases "kind_cursor k")
    case None
    obtain rd where "spans (kind_sizers k) rd" "GroupKind_element dec k xs v = rd (TextStream_new xs)"
      using plain_element_spans[OF None] by metis
    then have "sizes (kind_sizers k) xs = Inr m" using spans_new l e by metis
    then show ?thesis using s None by (simp add: GroupKind_skip_plain[OF l])
  next
    case (Some c)
    then have z: "nested_size c v xs = Inr n" using s by (simp add: GroupKind_skip_nested[OF l])
    consider "k = TransIdxSigGroup" "ns_matters_left c = 3" | "k = TransLastIdxSigGroup" "ns_matters_left c = 1"
      using Some by (cases k) (auto simp: kind_cursor_def NestedSigCursor_new_def)
    then show ?thesis
    proof cases
      case 1
      show ?thesis
        by (rule nested_element_span[OF l z 1(2) nested_reads_3[OF reads_all(12,1,5), of dec dec dec],
              where f = "\<lambda>(a, b, c) g. SigGroup a b c g" and y = x])
           (use e 1 in \<open>auto simp: element_defs\<close>)
    next
      case 2
      show ?thesis
        by (rule nested_element_span[OF l z 2(2) nested_reads_1[OF reads_all(12), of dec], where f = LastSigGroup and y = x])
           (use e 2 in \<open>auto simp: element_defs\<close>)
    qed
  qed
qed

end
