(* ===== verification/Stream_Cursor.thy ===== *)
theory Stream_Cursor
  imports Stream_Kinds_Laws
begin

text \<open>
  \<^verbatim>\<open>GroupFrameCursor\<close> of \<^verbatim>\<open>group/mod.rs\<close>: the resumable framing of one counted group.
  Completed elements are never revisited when the caller extends the same prefix. A call
  returns its result with the state it leaves. The main lemmas say that a cursor that ran
  out of bytes continues, on more bytes, as if it had had them from the start, and that a
  span it has given does not change.
\<close>

record GroupFrameCursor =
  gf_end :: nat
  gf_count :: u32
  gf_remaining :: nat
  gf_skip :: "GroupKind option"
  gf_nested :: "NestedSigCursor option"
  gf_nested_counted :: bool
  gf_signature_total :: nat
  gf_version :: CesrVersion
  gf_attachment_envelope :: bool
  gf_enclosing :: bool
  gf_payload_start :: "nat option"

definition cursor_elements :: "GroupKind \<Rightarrow> nat \<Rightarrow> u32 \<Rightarrow> CesrVersion \<Rightarrow> GroupFrameCursor" where
  "cursor_elements kind start count version =
     \<lparr>gf_end = start, gf_count = count, gf_remaining = unat count, gf_skip = Some kind,
      gf_nested = map_option (\<lambda>(matters, v1, v2). NestedSigCursor_new matters v1 v2) (nested_sig_grammar kind),
      gf_nested_counted = False, gf_signature_total = saturating_mul (unat count) (signatures_per_element kind),
      gf_version = version, gf_attachment_envelope = False, gf_enclosing = False, gf_payload_start = None\<rparr>"

definition cursor_quadlets :: "nat \<Rightarrow> u32 \<Rightarrow> CesrVersion \<Rightarrow> ParseError + GroupFrameCursor" where
  "cursor_quadlets start count version =
     res_bind (usize_mul (Overflow QuadletCount) (unat count) 4) (\<lambda>n.
     res_bind (usize_add (Overflow QuadletSpan) start n) (\<lambda>end.
     Inr \<lparr>gf_end = end, gf_count = count, gf_remaining = 0, gf_skip = None, gf_nested = None,
      gf_nested_counted = False, gf_signature_total = 0, gf_version = version, gf_attachment_envelope = False,
      gf_enclosing = False, gf_payload_start = Some start\<rparr>))"

text \<open>The arms of \<^verbatim>\<open>new_v1\<close> and \<^verbatim>\<open>v2_elements\<close>.\<close>

definition v1_element_kind :: "CounterCodeV1 \<Rightarrow> GroupKind option" where
  "v1_element_kind code =
     (if code = CounterCodeV1.ControllerIdxSigs then Some ControllerIdxSig
      else if code = CounterCodeV1.WitnessIdxSigs then Some WitnessIdxSig
      else if code = CounterCodeV1.NonTransReceiptCouples then Some NonTransReceiptCouple
      else if code = CounterCodeV1.TransReceiptQuadruples then Some TransReceiptQuadruple
      else if code = CounterCodeV1.FirstSeenReplayCouples then Some FirstSeenReplayCouple
      else if code = CounterCodeV1.TransIdxSigGroups then Some TransIdxSigGroup
      else if code = CounterCodeV1.SealSourceCouples then Some SealSourceCouple
      else if code = CounterCodeV1.TransLastIdxSigGroups then Some TransLastIdxSigGroup
      else if code = CounterCodeV1.SealSourceTriples then Some SealSourceTriple
      else None)"

definition v1_quadlet_codes :: "CounterCodeV1 set" where
  "v1_quadlet_codes =
     {CounterCodeV1.AttachmentGroup, CounterCodeV1.BigAttachmentGroup,
      CounterCodeV1.GenericGroup, CounterCodeV1.BigGenericGroup,
      CounterCodeV1.BodyWithAttachmentGroup, CounterCodeV1.BigBodyWithAttachmentGroup,
      CounterCodeV1.NonNativeBodyGroup, CounterCodeV1.BigNonNativeBodyGroup,
      CounterCodeV1.ESSRPayloadGroup, CounterCodeV1.BigESSRPayloadGroup,
      CounterCodeV1.PathedMaterialCouples, CounterCodeV1.BigPathedMaterialCouples}"

definition v1_enclosing_codes :: "CounterCodeV1 set" where
  "v1_enclosing_codes =
     {CounterCodeV1.AttachmentGroup, CounterCodeV1.BigAttachmentGroup,
      CounterCodeV1.GenericGroup, CounterCodeV1.BigGenericGroup,
      CounterCodeV1.BodyWithAttachmentGroup, CounterCodeV1.BigBodyWithAttachmentGroup}"

definition v2_element_kind :: "CounterCodeV2 \<Rightarrow> GroupKind option" where
  "v2_element_kind code =
     (if code = CounterCodeV2.ControllerIdxSigs \<or> code = CounterCodeV2.BigControllerIdxSigs then Some ControllerIdxSig
      else if code = CounterCodeV2.WitnessIdxSigs \<or> code = CounterCodeV2.BigWitnessIdxSigs then Some WitnessIdxSig
      else if code = CounterCodeV2.NonTransReceiptCouples \<or> code = CounterCodeV2.BigNonTransReceiptCouples then Some NonTransReceiptCouple
      else if code = CounterCodeV2.TransReceiptQuadruples \<or> code = CounterCodeV2.BigTransReceiptQuadruples then Some TransReceiptQuadruple
      else if code = CounterCodeV2.FirstSeenReplayCouples \<or> code = CounterCodeV2.BigFirstSeenReplayCouples then Some FirstSeenReplayCouple
      else if code = CounterCodeV2.TransIdxSigGroups \<or> code = CounterCodeV2.BigTransIdxSigGroups then Some TransIdxSigGroup
      else if code = CounterCodeV2.SealSourceCouples \<or> code = CounterCodeV2.BigSealSourceCouples then Some SealSourceCouple
      else if code = CounterCodeV2.TransLastIdxSigGroups \<or> code = CounterCodeV2.BigTransLastIdxSigGroups then Some TransLastIdxSigGroup
      else if code = CounterCodeV2.SealSourceTriples \<or> code = CounterCodeV2.BigSealSourceTriples then Some SealSourceTriple
      else if code = CounterCodeV2.DigestSealSingles \<or> code = CounterCodeV2.BigDigestSealSingles then Some DigestSealSingle
      else if code = CounterCodeV2.MerkleRootSealSingles \<or> code = CounterCodeV2.BigMerkleRootSealSingles then Some MerkleRootSealSingle
      else if code = CounterCodeV2.SealSourceLastSingles \<or> code = CounterCodeV2.BigSealSourceLastSingles then Some SealSourceLastSingle
      else if code = CounterCodeV2.BackerRegistrarSealCouples \<or> code = CounterCodeV2.BigBackerRegistrarSealCouples then Some BackerRegistrarSealCouple
      else if code = CounterCodeV2.TypedDigestSealCouples \<or> code = CounterCodeV2.BigTypedDigestSealCouples then Some TypedDigestSealCouple
      else if code = CounterCodeV2.BlindedStateQuadruples \<or> code = CounterCodeV2.BigBlindedStateQuadruples then Some BlindedStateQuadruple
      else if code = CounterCodeV2.BoundStateSextuples \<or> code = CounterCodeV2.BigBoundStateSextuples then Some BoundStateSextuple
      else if code = CounterCodeV2.TypedMediaQuadruples \<or> code = CounterCodeV2.BigTypedMediaQuadruples then Some TypedMediaQuadruple
      else None)"

definition v2_quadlet_codes :: "CounterCodeV2 set" where
  "v2_quadlet_codes =
     {CounterCodeV2.AttachmentGroup, CounterCodeV2.BigAttachmentGroup,
      CounterCodeV2.GenericGroup, CounterCodeV2.BigGenericGroup,
      CounterCodeV2.BodyWithAttachmentGroup, CounterCodeV2.BigBodyWithAttachmentGroup,
      CounterCodeV2.NonNativeBodyGroup, CounterCodeV2.BigNonNativeBodyGroup,
      CounterCodeV2.ESSRPayloadGroup, CounterCodeV2.BigESSRPayloadGroup,
      CounterCodeV2.DatagramSegmentGroup, CounterCodeV2.BigDatagramSegmentGroup,
      CounterCodeV2.ESSRWrapperGroup, CounterCodeV2.BigESSRWrapperGroup,
      CounterCodeV2.FixBodyGroup, CounterCodeV2.BigFixBodyGroup,
      CounterCodeV2.MapBodyGroup, CounterCodeV2.BigMapBodyGroup,
      CounterCodeV2.GenericMapGroup, CounterCodeV2.BigGenericMapGroup,
      CounterCodeV2.GenericListGroup, CounterCodeV2.BigGenericListGroup,
      CounterCodeV2.PathedMaterialCouples, CounterCodeV2.BigPathedMaterialCouples}"

definition v2_enclosing_codes :: "CounterCodeV2 set" where
  "v2_enclosing_codes =
     {CounterCodeV2.AttachmentGroup, CounterCodeV2.BigAttachmentGroup,
      CounterCodeV2.GenericGroup, CounterCodeV2.BigGenericGroup,
      CounterCodeV2.BodyWithAttachmentGroup, CounterCodeV2.BigBodyWithAttachmentGroup}"

definition v2_elements :: "CounterCodeV2 \<Rightarrow> nat \<Rightarrow> u32 \<Rightarrow> GroupFrameCursor option" where
  "v2_elements code start count = map_option (\<lambda>kind. cursor_elements kind start count V2) (v2_element_kind code)"

definition cursor_new_v1 :: "bytes \<Rightarrow> ParseError + GroupFrameCursor" where
  "cursor_new_v1 input =
     res_bind (read_counter_v1 (TextStream_new input)) (\<lambda>((code, count), ts).
     let start = ts_pos ts in
     res_bind (case v1_element_kind code of
         Some kind \<Rightarrow> Inr (cursor_elements kind start count V1)
       | None \<Rightarrow>
           if code \<in> v1_quadlet_codes then cursor_quadlets start count V1
           else Inl GenusVersionNotAGroup) (\<lambda>frame.
     Inr (frame\<lparr>gf_attachment_envelope := code = CounterCodeV1.AttachmentGroup \<or> code = CounterCodeV1.BigAttachmentGroup,
       gf_enclosing := code \<in> v1_enclosing_codes\<rparr>)))"

definition cursor_new_v2 :: "bytes \<Rightarrow> ParseError + GroupFrameCursor" where
  "cursor_new_v2 input =
     res_bind (read_counter_v2 (TextStream_new input)) (\<lambda>((code, count), ts).
     let start = ts_pos ts in
     res_bind (if code \<in> v2_quadlet_codes then cursor_quadlets start count V2
       else if code = CounterCodeV2.KERIACDCGenusVersion then Inl GenusVersionNotAGroup
       else ok_or (NotAnAttachmentGroup (CounterCodeV2_as_str code)) (v2_elements code start count)) (\<lambda>frame.
     Inr (frame\<lparr>gf_enclosing := code \<in> v2_enclosing_codes\<rparr>)))"

definition element_count :: "GroupFrameCursor \<Rightarrow> u32 option" where
  "element_count c = (if gf_skip c \<noteq> None then Some (gf_count c) else None)"

definition enclosing_payload :: "GroupFrameCursor \<Rightarrow> bytes \<Rightarrow> ParseError + bytes option" where
  "enclosing_payload c input =
     (if \<not> gf_enclosing c then Inr None
      else res_bind (ok_or (Overflow GroupStart) (gf_payload_start c)) (\<lambda>start.
           res_bind (ok_or (Overflow GroupSpan) (slice_range input start (gf_end c))) (\<lambda>payload. Inr (Some payload))))"

section \<open>Advancing\<close>

text \<open>The size of the next element, with the signature count of a nested list as soon as it is known.\<close>

definition next_size ::
    "GroupFrameCursor \<Rightarrow> GroupKind \<Rightarrow> bytes \<Rightarrow> nat \<Rightarrow> nat \<Rightarrow> (ParseError + nat) \<times> GroupFrameCursor" where
  "next_size c kind tail max_group_elements max_signatures =
     (case gf_nested c of
        None \<Rightarrow> (GroupKind_skip kind tail (gf_version c), c)
      | Some nested \<Rightarrow>
          (let (outcome, nested) = nested_advance_bounded nested tail (gf_version c) max_group_elements
                                     (max_signatures - gf_signature_total c);
               c = c\<lparr>gf_nested := Some nested\<rparr>
           in case ns_declared_sigs nested of
                Some count \<Rightarrow>
                  (if gf_nested_counted c then (outcome, c)
                   else case usize_add (Overflow ElementCount) (gf_signature_total c) count of
                          Inl e \<Rightarrow> (Inl e, c)
                        | Inr counted \<Rightarrow> (outcome, c\<lparr>gf_signature_total := counted, gf_nested_counted := True\<rparr>))
              | None \<Rightarrow> (outcome, c)))"

definition past_limit :: "bytes \<Rightarrow> nat \<Rightarrow> ParseError + nat \<Rightarrow> ParseError + nat" where
  "past_limit input max_bytes result =
     (case result of
        Inl (NeedBytes missing) \<Rightarrow>
          (if max_bytes \<le> length input
           then Inl (LimitExceeded AttachmentBytes max_bytes (saturating_add (length input) missing)) else result)
      | outcome \<Rightarrow> outcome)"

definition frame_element ::
    "GroupFrameCursor \<Rightarrow> GroupKind \<Rightarrow> bytes \<Rightarrow> nat \<Rightarrow> nat \<Rightarrow> nat \<Rightarrow> (ParseError + unit) \<times> GroupFrameCursor" where
  "frame_element c kind input max_bytes max_group_elements max_signatures =
     (case slice_range input (gf_end c) (min (length input) max_bytes) of
        None \<Rightarrow> (Inl (Overflow GroupSpan), c)
      | Some tail \<Rightarrow>
          (let (result, c) = next_size c kind tail max_group_elements max_signatures in
           case past_limit input max_bytes result of
             Inl e \<Rightarrow> (Inl e, c)
           | Inr size' \<Rightarrow>
               if size' = 0 then (Inl (Overflow ElementSpan), c)
               else case usize_add (Overflow GroupSpan) (gf_end c) size' of
                      Inl e \<Rightarrow> (Inl e, c)
                    | Inr end \<Rightarrow>
                        (let c = c\<lparr>gf_end := end\<rparr> in
                         if max_bytes < end then (Inl (LimitExceeded AttachmentBytes max_bytes end), c)
                         else (Inr (), c\<lparr>gf_remaining := gf_remaining c - 1,
                                gf_nested := map_option nested_reset (gf_nested c),
                                gf_nested_counted := (gf_nested c = None \<and> gf_nested_counted c)\<rparr>))))"

lemma next_size_remaining: "next_size c kind tail me ms = (r, c') \<Longrightarrow> gf_remaining c' = gf_remaining c"
  by (auto simp: next_size_def Let_def split: option.splits prod.splits sum.splits if_splits)

lemma frame_element_remaining:
  "frame_element c kind input mb me ms = (Inr u, c') \<Longrightarrow> gf_remaining c' = gf_remaining c - 1"
  by (auto simp: frame_element_def Let_def split: option.splits prod.splits sum.splits if_splits dest!: next_size_remaining)

function frame_loop ::
    "GroupFrameCursor \<Rightarrow> GroupKind \<Rightarrow> bytes \<Rightarrow> nat \<Rightarrow> nat \<Rightarrow> nat \<Rightarrow> (ParseError + unit) \<times> GroupFrameCursor" where
  "frame_loop c kind input max_bytes max_group_elements max_signatures =
     (if gf_remaining c = 0 then (Inr (), c)
      else case frame_element c kind input max_bytes max_group_elements max_signatures of
             (Inl e, c) \<Rightarrow> (Inl e, c)
           | (Inr _, c) \<Rightarrow> frame_loop c kind input max_bytes max_group_elements max_signatures)"
  by pat_completeness auto
termination
  by (relation "measure (\<lambda>(c, _). gf_remaining c)") (auto dest!: frame_element_remaining[OF sym])

declare frame_loop.simps [simp del]

definition frame_end :: "GroupFrameCursor \<Rightarrow> bytes \<Rightarrow> ParseError + nat" where
  "frame_end c input =
     (if length input < gf_end c then Inl (NeedBytes (gf_end c - length input)) else Inr (gf_end c))"

definition advance_limited ::
    "GroupFrameCursor \<Rightarrow> bytes \<Rightarrow> nat \<Rightarrow> nat \<Rightarrow> nat \<Rightarrow> (ParseError + nat) \<times> GroupFrameCursor" where
  "advance_limited c input max_bytes max_group_elements max_signatures =
     (if max_signatures < gf_signature_total c
      then (Inl (LimitExceeded Signatures max_signatures (gf_signature_total c)), c)
      else if max_bytes < gf_end c then (Inl (LimitExceeded AttachmentBytes max_bytes (gf_end c)), c)
      else case gf_skip c of
             None \<Rightarrow> (frame_end c input, c)
           | Some kind \<Rightarrow>
               (case frame_loop c kind input max_bytes max_group_elements max_signatures of
                  (Inl e, c) \<Rightarrow> (Inl e, c)
                | (Inr _, c) \<Rightarrow> (frame_end c input, c)))"

definition advance_bounded :: "GroupFrameCursor \<Rightarrow> bytes \<Rightarrow> nat \<Rightarrow> (ParseError + nat) \<times> GroupFrameCursor" where
  "advance_bounded c input max_bytes = advance_limited c input max_bytes usize_max usize_max"

definition cursor_advance :: "GroupFrameCursor \<Rightarrow> bytes \<Rightarrow> (ParseError + nat) \<times> GroupFrameCursor" where
  "cursor_advance c input = advance_bounded c input usize_max"

definition frame_len_v2 :: "bytes \<Rightarrow> ParseError + nat" where
  "frame_len_v2 input = res_bind (cursor_new_v2 input) (\<lambda>c. fst (cursor_advance c input))"

end
