(* ===== verification/Stream_Cursor_Laws.thy ===== *)
theory Stream_Cursor_Laws
  imports Stream_Cursor
begin

text \<open>
  The laws of the group cursor: resumption on a longer buffer, stability of a span once
  given, and the limits every span respects.
\<close>

section \<open>The tail an element is read from\<close>

definition window :: "GroupFrameCursor \<Rightarrow> bytes \<Rightarrow> nat \<Rightarrow> bytes" where
  "window c xs mb = take (min (length xs) mb - gf_end c) (drop (gf_end c) xs)"

definition cursor_ok :: "GroupFrameCursor \<Rightarrow> bytes \<Rightarrow> nat \<Rightarrow> bool" where
  "cursor_ok c xs mb \<longleftrightarrow>
     (gf_skip c \<noteq> None \<longrightarrow> gf_end c \<le> length xs \<and> gf_end c \<le> mb) \<and>
     (\<forall>n. gf_nested c = Some n \<longrightarrow> nested_ok n (window c xs mb) \<and>
        (gf_nested_counted c \<longleftrightarrow> ns_declared_sigs n \<noteq> None))"

lemma window_append:
  assumes "gf_end c \<le> length xs"
  shows "\<exists>zs. window c (xs @ ys) mb = window c xs mb @ zs \<and> length (window c xs mb @ zs) \<le> length (xs @ ys)"
proof -
  let ?a = "min (length xs) mb - gf_end c" and ?b = "min (length (xs @ ys)) mb - gf_end c"
  let ?D = "drop (gf_end c) (xs @ ys)"
  have "?a \<le> ?b" by auto
  then have "take ?a (take ?b ?D) = take ?a ?D" by (simp only: take_take min.absorb1)
  moreover have "take ?a ?D = window c xs mb" using assms by (simp add: window_def)
  ultimately have "window c (xs @ ys) mb = window c xs mb @ drop ?a (take ?b ?D)"
    using append_take_drop_id[of ?a "take ?b ?D"] by (simp only: window_def[of c "xs @ ys"])
  moreover have "length (window c (xs @ ys) mb) \<le> length (xs @ ys)" by (simp add: window_def)
  ultimately show ?thesis by (intro exI[of _ "drop ?a (take ?b ?D)"] conjI) simp_all
qed

lemma nested_ok_append: "nested_ok n xs \<Longrightarrow> nested_ok n (xs @ ys)"
  by (simp add: nested_ok_def)

lemma cursor_ok_append: "cursor_ok c xs mb \<Longrightarrow> gf_skip c \<noteq> None \<Longrightarrow> cursor_ok c (xs @ ys) mb"
  using window_append[of c xs ys mb] nested_ok_append unfolding cursor_ok_def by force

lemma frame_element_window:
  assumes "gf_end c \<le> length xs" "gf_end c \<le> mb"
  shows "slice_range xs (gf_end c) (min (length xs) mb) = Some (window c xs mb)"
  using assms by (simp add: slice_range_def window_def)

lemma nested_reset_declared [simp]: "ns_declared_sigs (nested_reset n) = None"
  by (simp add: nested_reset_def)

section \<open>One element\<close>

text \<open>A size that was found is found again, with the same state.\<close>

lemma next_size_frame:
  "next_size c kind w me ms = (r, d) \<Longrightarrow> gf_end d = gf_end c \<and> gf_skip d = gf_skip c \<and> gf_remaining d = gf_remaining c \<and>
     gf_version d = gf_version c \<and> gf_count d = gf_count c \<and> gf_enclosing d = gf_enclosing c \<and>
     gf_attachment_envelope d = gf_attachment_envelope c \<and> gf_payload_start d = gf_payload_start c \<and>
     (gf_nested d = None \<longleftrightarrow> gf_nested c = None)"
  by (auto simp: next_size_def Let_def split: option.splits prod.splits sum.splits if_splits)

lemma next_size_append:
  assumes l: "length (w @ zs) < usize_bound" and n: "\<And>n. gf_nested c = Some n \<Longrightarrow> nested_ok n w"
    and s: "next_size c kind w me ms = (Inr k, c')"
  shows "next_size c kind (w @ zs) me ms = (Inr k, c') \<and> k \<le> length w"
proof (cases "gf_nested c")
  case None
  have lw: "length w < usize_bound" using l by simp
  have g: "GroupKind_skip kind w (gf_version c) = Inr k" "c' = c" using None s by (auto simp: next_size_def Let_def)
  have "next_size c kind (w @ zs) me ms = (Inr k, c)"
    using kind.skip_append[OF l g(1)] None by (simp add: next_size_def Let_def)
  then show ?thesis using kind.skip_bound[OF lw g(1)] g(2) by simp
next
  case (Some m)
  obtain out m' where a: "nested_advance_bounded m w (gf_version c) me (ms - gf_signature_total c) = (out, m')"
    by (cases "nested_advance_bounded m w (gf_version c) me (ms - gf_signature_total c)")
  then have "out = Inr k" using s Some
    by (auto simp: next_size_def Let_def split: option.splits if_splits sum.splits)
  with a have a: "nested_advance_bounded m w (gf_version c) me (ms - gf_signature_total c) = (Inr k, m')" by simp
  note b = nested_success[OF l n[OF Some] a]
  have "next_size c kind (w @ zs) me ms = (Inr k, c')"
    using s Some a b(1) by (simp add: next_size_def Let_def)
  then show ?thesis using b by simp
qed

lemma frame_element_append:
  assumes l: "length (xs @ ys) < usize_bound" and ok: "cursor_ok c xs mb" "gf_skip c \<noteq> None"
    and s: "frame_element c kind xs mb me ms = (Inr (), c')"
  shows "frame_element c kind (xs @ ys) mb me ms = (Inr (), c') \<and> cursor_ok c' xs mb \<and> gf_skip c' = gf_skip c \<and>
    gf_end c < gf_end c'"
proof -
  have e: "gf_end c \<le> length xs" "gf_end c \<le> mb" using ok by (auto simp: cursor_ok_def)
  obtain zs where w: "window c (xs @ ys) mb = window c xs mb @ zs" "length (window c xs mb @ zs) \<le> length (xs @ ys)"
    using window_append[OF e(1)] by blast
  have lw: "length (window c xs mb @ zs) < usize_bound" using w(2) l by (rule le_less_trans)
  have e': "gf_end c \<le> length (xs @ ys)" using e by simp
  obtain r d where n: "next_size c kind (window c xs mb) me ms = (r, d)"
    by (cases "next_size c kind (window c xs mb) me ms")
  then obtain k where k: "r = Inr k" using s frame_element_window[OF e]
    by (cases r) (auto simp: frame_element_def past_limit_def Let_def split: ParseError.splits if_splits)
  have nk: "\<And>n. gf_nested c = Some n \<Longrightarrow> nested_ok n (window c xs mb)" using ok by (simp add: cursor_ok_def)
  note a = next_size_append[OF lw nk n[unfolded k]]
  have d: "gf_end d = gf_end c" "gf_skip d = gf_skip c" "gf_remaining d = gf_remaining c"
    using next_size_frame[OF n] by simp_all
  have c': "k \<noteq> 0" "gf_end c + k < usize_bound" "gf_end c + k \<le> mb"
    "c' = d\<lparr>gf_end := gf_end c + k, gf_remaining := gf_remaining d - 1, gf_nested := map_option nested_reset (gf_nested d),
       gf_nested_counted := (gf_nested d = None \<and> gf_nested_counted d)\<rparr>"
    using s n k frame_element_window[OF e] d
    by (auto simp: frame_element_def past_limit_def Let_def not_less usize_add_def split: if_splits)
  have "k \<le> length xs - gf_end c" using a by (auto simp: window_def)
  then have "cursor_ok c' xs mb" using c' e d by (auto simp: cursor_ok_def)
  moreover have "frame_element c kind (xs @ ys) mb me ms = (Inr (), c')"
    using a c' frame_element_window[OF e' e(2)] w d
    by (simp add: frame_element_def past_limit_def Let_def usize_add_def)
  ultimately show ?thesis using c' d by simp
qed

text \<open>Running out of bytes inside an element: the state left resumes it.\<close>

lemma next_size_resume:
  assumes l: "length (w @ zs) < usize_bound"
    and n: "\<And>n. gf_nested c = Some n \<Longrightarrow> nested_ok n w \<and> (gf_nested_counted c \<longleftrightarrow> ns_declared_sigs n \<noteq> None)"
    and s: "next_size c kind w me ms = (Inl (NeedBytes k), c')"
  shows "next_size c' kind (w @ zs) me ms = next_size c kind (w @ zs) me ms \<and>
    (gf_signature_total c \<le> ms \<longrightarrow> gf_signature_total c' \<le> ms) \<and>
    (\<forall>n. gf_nested c' = Some n \<longrightarrow> nested_ok n w \<and> (gf_nested_counted c' \<longleftrightarrow> ns_declared_sigs n \<noteq> None))"
proof (cases "gf_nested c")
  case None
  then have "c' = c" using s by (auto simp: next_size_def Let_def)
  then show ?thesis using None by simp
next
  case (Some m)
  let ?v = "gf_version c" and ?t = "gf_signature_total c"
  obtain out m' where a: "nested_advance_bounded m w ?v me (ms - ?t) = (out, m')"
    by (cases "nested_advance_bounded m w ?v me (ms - ?t)")
  have ok: "nested_ok m w" "gf_nested_counted c \<longleftrightarrow> ns_declared_sigs m \<noteq> None" using n[OF Some] by simp_all
  have out: "out = Inl (NeedBytes k)" using s Some a
    by (auto simp: next_size_def Let_def usize_add_def split: option.splits if_splits sum.splits)
  let ?t' = "gf_signature_total c'"
  note r = nested_resume[OF l ok(1) a, of "ms - ?t'"]
  obtain out2 m2 where b: "nested_advance_bounded m (w @ zs) ?v me (ms - ?t) = (out2, m2)"
    by (cases "nested_advance_bounded m (w @ zs) ?v me (ms - ?t)")
  show ?thesis
  proof (cases "ns_declared_sigs m'")
    case none: None
    then have c': "c' = c\<lparr>gf_nested := Some m'\<rparr>" using s Some a by (auto simp: next_size_def Let_def)
    then have t: "?t' = ?t" by simp
    have r: "nested_advance_bounded m' (w @ zs) ?v me (ms - ?t) = (out2, m2)" "nested_ok m' w"
      using r t b by simp_all
    have "ns_declared_sigs m = None" using nested_resume[OF l ok(1) a, of "ms - ?t'"] none t by auto
    then show ?thesis using c' r b Some none ok by (simp add: next_size_def Let_def)
  next
    case (Some count)
    have nn: "gf_nested c = Some m" by (rule \<open>gf_nested c = Some m\<close>)
    have sl: "ns_sigs_left m' \<noteq> None"
    proof
      assume none: "ns_sigs_left m' = None"
      have "nested_ok m' w" using nested_resume[OF l ok(1) a refl] by blast
      then show False using none Some by (simp add: nested_ok_def)
    qed
    have r: "nested_advance_bounded m' (w @ zs) ?v me x = (out2, m2)" "nested_ok m' w" for x
      using nested_resume[OF l ok(1) a, of x] sl b by simp_all
    have d2: "ns_declared_sigs m2 = Some count"
    proof -
      have "nested_ok m' (w @ zs)" using r(2) nested_ok_append by blast
      moreover have "length ((w @ zs) @ []) < usize_bound" using l by simp
      ultimately show ?thesis using nested_resume[of "w @ zs" "[]" m' ?v me 0 out2 m2 0] r(1) Some by auto
    qed
    show ?thesis
    proof (cases "gf_nested_counted c")
      case True
      then have "c' = c\<lparr>gf_nested := Some m'\<rparr>" using s nn a Some by (simp add: next_size_def Let_def)
      then show ?thesis using r b d2 nn Some ok True by (simp add: next_size_def Let_def)
    next
      case False
      then have m: "ns_declared_sigs m = None" using ok by simp
      then have c: "count \<le> ms - ?t" using nested_resume[OF l ok(1) a refl] Some by auto
      have c': "?t + count < usize_bound" "c' = c\<lparr>gf_nested := Some m', gf_signature_total := ?t + count, gf_nested_counted := True\<rparr>"
        using s nn a Some False out by (auto simp: next_size_def Let_def usize_add_def split: if_splits)
      then show ?thesis using r b d2 nn Some c False by (auto simp: next_size_def Let_def usize_add_def)
    qed
  qed
qed

lemma frame_element_resume:
  assumes l: "length (xs @ ys) < usize_bound" and ok: "cursor_ok c xs mb" "gf_skip c \<noteq> None"
    and s: "frame_element c kind xs mb me ms = (Inl (NeedBytes k), c')"
  shows "frame_element c' kind (xs @ ys) mb me ms = frame_element c kind (xs @ ys) mb me ms \<and>
    cursor_ok c' xs mb \<and> gf_skip c' = gf_skip c \<and> gf_remaining c' = gf_remaining c \<and> gf_end c' = gf_end c \<and>
    (gf_signature_total c \<le> ms \<longrightarrow> gf_signature_total c' \<le> ms)"
proof -
  have e: "gf_end c \<le> length xs" "gf_end c \<le> mb" using ok by (auto simp: cursor_ok_def)
  obtain zs where w: "window c (xs @ ys) mb = window c xs mb @ zs" "length (window c xs mb @ zs) \<le> length (xs @ ys)"
    using window_append[OF e(1)] by blast
  have lw: "length (window c xs mb @ zs) < usize_bound" using w(2) l by (rule le_less_trans)
  have e': "gf_end c \<le> length (xs @ ys)" using e by simp
  obtain r d where n: "next_size c kind (window c xs mb) me ms = (r, d)"
    by (cases "next_size c kind (window c xs mb) me ms")
  have k: "r = Inl (NeedBytes k)" "c' = d" using s frame_element_window[OF e] n
    by (auto simp: frame_element_def past_limit_def Let_def usize_add_def split: sum.splits ParseError.splits if_splits)
  have nk: "\<And>n. gf_nested c = Some n \<Longrightarrow> nested_ok n (window c xs mb) \<and> (gf_nested_counted c \<longleftrightarrow> ns_declared_sigs n \<noteq> None)"
    using ok by (simp add: cursor_ok_def)
  note a = next_size_resume[OF lw nk n[unfolded k]] and f = next_size_frame[OF n[unfolded k]]
  have wc: "window c' zs' mb = window c zs' mb" for zs' using f k(2) by (simp add: window_def)
  have "frame_element c' kind (xs @ ys) mb me ms = frame_element c kind (xs @ ys) mb me ms"
    using a f k(2) e' e(2) frame_element_window[OF e' e(2)] w(1) by (simp add: frame_element_def)
  moreover have "cursor_ok c' xs mb" using a f k(2) ok wc e by (auto simp: cursor_ok_def)
  ultimately show ?thesis using a f k(2) by simp
qed

lemma next_size_signatures:
  assumes l: "length w < usize_bound"
    and n: "\<And>n. gf_nested c = Some n \<Longrightarrow> nested_ok n w \<and> (gf_nested_counted c \<longleftrightarrow> ns_declared_sigs n \<noteq> None)"
    and s: "next_size c kind w me ms = (r, c')" and t: "gf_signature_total c \<le> ms"
  shows "gf_signature_total c \<le> gf_signature_total c' \<and> gf_signature_total c' \<le> ms"
proof (cases "gf_nested c")
  case None
  then show ?thesis using s t by (simp add: next_size_def)
next
  case (Some m)
  obtain out m' where a: "nested_advance_bounded m w (gf_version c) me (ms - gf_signature_total c) = (out, m')"
    by (cases "nested_advance_bounded m w (gf_version c) me (ms - gf_signature_total c)")
  have ok: "nested_ok m w" "gf_nested_counted c \<longleftrightarrow> ns_declared_sigs m \<noteq> None" using n[OF Some] by simp_all
  have l': "length (w @ []) < usize_bound" using l by simp
  have "ns_declared_sigs m = None \<Longrightarrow> ns_declared_sigs m' = Some k \<Longrightarrow> k \<le> ms - gf_signature_total c" for k
    using nested_resume[OF l' ok(1) a refl] by auto
  then show ?thesis using s Some a t ok(2)
    by (auto simp: next_size_def Let_def usize_add_def split: option.splits if_splits sum.splits)
qed

lemma frame_element_signatures:
  assumes l: "length xs < usize_bound" and ok: "cursor_ok c xs mb"
    and s: "frame_element c kind xs mb me ms = (r, c')" and t: "gf_signature_total c \<le> ms"
  shows "gf_signature_total c \<le> gf_signature_total c' \<and> gf_signature_total c' \<le> ms"
proof (cases "slice_range xs (gf_end c) (min (length xs) mb)")
  case None
  then show ?thesis using s t by (simp add: frame_element_def)
next
  case (Some w)
  then have w: "w = window c xs mb" by (simp add: slice_range_Some window_def)
  obtain r' d where n: "next_size c kind w me ms = (r', d)" by (cases "next_size c kind w me ms")
  have "length w < usize_bound" using l w by (auto simp: window_def)
  then have "gf_signature_total c \<le> gf_signature_total d \<and> gf_signature_total d \<le> ms"
    using next_size_signatures[OF _ _ n t] ok w by (simp add: cursor_ok_def)
  moreover have "gf_signature_total c' = gf_signature_total d"
    using s Some n by (auto simp: frame_element_def Let_def split: sum.splits if_splits)
  ultimately show ?thesis by simp
qed

section \<open>All elements\<close>

lemma frame_loop_append:
  "length (xs @ ys) < usize_bound \<Longrightarrow> cursor_ok c xs mb \<Longrightarrow> gf_skip c \<noteq> None \<Longrightarrow> gf_signature_total c \<le> ms \<Longrightarrow>
   frame_loop c kind xs mb me ms = (Inr (), c') \<Longrightarrow>
   frame_loop c kind (xs @ ys) mb me ms = (Inr (), c') \<and> cursor_ok c' xs mb \<and> gf_skip c' = gf_skip c \<and>
     gf_remaining c' = 0 \<and> gf_end c \<le> gf_end c' \<and> gf_signature_total c' \<le> ms"
proof (induction c kind xs mb me ms rule: frame_loop.induct)
  case (1 c kind xs mb me ms)
  show ?case
  proof (cases "gf_remaining c = 0")
    case True
    have all: "frame_loop c kind zs mb me ms = (Inr (), c)" for zs by (simp add: frame_loop.simps[of c] True)
    then have "c' = c" using "1.prems"(5) by simp
    then show ?thesis using all True "1.prems"(2,4) by simp
  next
    case False
    obtain r d where f: "frame_element c kind xs mb me ms = (r, d)" by (cases "frame_element c kind xs mb me ms")
    then have r: "r = Inr ()" and d: "frame_loop d kind xs mb me ms = (Inr (), c')"
      using "1.prems"(5) False by (cases r; simp add: frame_loop.simps[of c])+
    note a = frame_element_append[OF "1.prems"(1,2,3) f[unfolded r]]
    have "gf_signature_total d \<le> ms"
      using frame_element_signatures[OF _ "1.prems"(2) f "1.prems"(4)] "1.prems"(1) by simp
    then have "frame_loop d kind (xs @ ys) mb me ms = (Inr (), c') \<and> cursor_ok c' xs mb \<and> gf_skip c' = gf_skip d \<and>
        gf_remaining c' = 0 \<and> gf_end d \<le> gf_end c' \<and> gf_signature_total c' \<le> ms"
      using "1.IH"[OF False f[symmetric] r] a "1.prems" d by simp
    then show ?thesis using a False by (simp add: frame_loop.simps[of c])
  qed
qed

lemma frame_loop_resume:
  "length (xs @ ys) < usize_bound \<Longrightarrow> cursor_ok c xs mb \<Longrightarrow> gf_skip c \<noteq> None \<Longrightarrow> gf_signature_total c \<le> ms \<Longrightarrow>
   frame_loop c kind xs mb me ms = (Inl (NeedBytes k), c') \<Longrightarrow>
   frame_loop c' kind (xs @ ys) mb me ms = frame_loop c kind (xs @ ys) mb me ms \<and> cursor_ok c' xs mb \<and>
     gf_skip c' = gf_skip c \<and> gf_end c \<le> gf_end c' \<and> gf_signature_total c' \<le> ms"
proof (induction c kind xs mb me ms rule: frame_loop.induct)
  case (1 c kind xs mb me ms)
  have left: "gf_remaining c \<noteq> 0" using "1.prems"(5) by (cases "gf_remaining c = 0") (simp_all add: frame_loop.simps[of c])
  obtain r d where f: "frame_element c kind xs mb me ms = (r, d)" by (cases "frame_element c kind xs mb me ms")
  have t: "gf_signature_total d \<le> ms"
    using frame_element_signatures[OF _ "1.prems"(2) f "1.prems"(4)] "1.prems"(1) by simp
  show ?case
  proof (cases r)
    case (Inl e)
    then have e: "e = NeedBytes k" "d = c'" using "1.prems"(5) left f by (simp_all add: frame_loop.simps[of c])
    note a = frame_element_resume[OF "1.prems"(1,2,3) f[unfolded Inl e]]
    then show ?thesis using left t e by (simp add: frame_loop.simps[of c] frame_loop.simps[of c'])
  next
    case (Inr u)
    then have r: "r = Inr ()" by simp
    then have d: "frame_loop d kind xs mb me ms = (Inl (NeedBytes k), c')"
      using "1.prems"(5) left f by (simp add: frame_loop.simps[of c])
    note a = frame_element_append[OF "1.prems"(1,2,3) f[unfolded r]]
    have "frame_loop c' kind (xs @ ys) mb me ms = frame_loop d kind (xs @ ys) mb me ms \<and> cursor_ok c' xs mb \<and>
        gf_skip c' = gf_skip d \<and> gf_end d \<le> gf_end c' \<and> gf_signature_total c' \<le> ms"
      using "1.IH"[OF left f[symmetric] r] a t "1.prems" d by simp
    then show ?thesis using a left by (simp add: frame_loop.simps[of c])
  qed
qed

section \<open>The cursor\<close>

lemma advance_resume:
  assumes l: "length (xs @ ys) < usize_bound" and ok: "cursor_ok c xs mb"
    and s: "advance_limited c xs mb me ms = (Inl (NeedBytes k), c')"
  shows "advance_limited c' (xs @ ys) mb me ms = advance_limited c (xs @ ys) mb me ms \<and> cursor_ok c' xs mb \<and>
    gf_skip c' = gf_skip c"
proof -
  have b: "gf_signature_total c \<le> ms" "gf_end c \<le> mb" using s by (auto simp: advance_limited_def split: if_splits)
  show ?thesis
  proof (cases "gf_skip c")
    case None
    then have "c' = c" using s b by (simp add: advance_limited_def not_less)
    then show ?thesis using ok by simp
  next
    case (Some kind)
    then have sk: "gf_skip c \<noteq> None" by simp
    obtain r d where f: "frame_loop c kind xs mb me ms = (r, d)" by (cases "frame_loop c kind xs mb me ms")
    show ?thesis
    proof (cases r)
      case (Inl e)
      then have e: "e = NeedBytes k" "d = c'" using s b Some f by (simp_all add: advance_limited_def not_less)
      note a = frame_loop_resume[OF l ok sk b(1) f[unfolded Inl e]]
      have "gf_end c' \<le> mb" using a Some by (simp add: cursor_ok_def)
      then show ?thesis using a b Some by (simp add: advance_limited_def not_less)
    next
      case (Inr u)
      then have r: "r = Inr ()" by simp
      note a = frame_loop_append[OF l ok sk b(1) f[unfolded r]]
      have "gf_end d \<le> length xs" using a Some by (simp add: cursor_ok_def)
      then show ?thesis using s b Some f r by (simp add: advance_limited_def not_less frame_end_def)
    qed
  qed
qed

lemma advance_append:
  assumes l: "length (xs @ ys) < usize_bound" and ok: "cursor_ok c xs mb"
    and s: "advance_limited c xs mb me ms = (Inr n, c')"
  shows "advance_limited c (xs @ ys) mb me ms = (Inr n, c')" "n = gf_end c'" "n \<le> length xs" "n \<le> mb" "gf_end c \<le> n"
    "gf_signature_total c' \<le> ms" "gf_skip c' = gf_skip c"
proof -
  have b: "gf_signature_total c \<le> ms" "gf_end c \<le> mb" using s by (auto simp: advance_limited_def split: if_splits)
  have "advance_limited c (xs @ ys) mb me ms = (Inr n, c') \<and> n = gf_end c' \<and> n \<le> length xs \<and> n \<le> mb \<and> gf_end c \<le> n \<and>
      gf_signature_total c' \<le> ms \<and> gf_skip c' = gf_skip c"
  proof (cases "gf_skip c")
    case None
    then show ?thesis using s b by (auto simp: advance_limited_def not_less frame_end_def split: if_splits)
  next
    case (Some kind)
    then have sk: "gf_skip c \<noteq> None" by simp
    obtain r d where f: "frame_loop c kind xs mb me ms = (r, d)" by (cases "frame_loop c kind xs mb me ms")
    then have r: "r = Inr ()" "frame_end d xs = Inr n" "c' = d"
      using s b Some by (cases r; simp add: advance_limited_def not_less)+
    note a = frame_loop_append[OF l ok sk b(1) f[unfolded r(1)]]
    then show ?thesis using r b Some by (auto simp: advance_limited_def not_less frame_end_def cursor_ok_def split: if_splits)
  qed
  then show "advance_limited c (xs @ ys) mb me ms = (Inr n, c')" "n = gf_end c'" "n \<le> length xs" "n \<le> mb" "gf_end c \<le> n"
    "gf_signature_total c' \<le> ms" "gf_skip c' = gf_skip c" by blast+
qed

end
