(* ===== verification/Stream_Group.thy ===== *)
theory Stream_Group
  imports Stream_Cursor_Laws
begin

text \<open>
  The carriers and entry points of \<^verbatim>\<open>group/mod.rs\<close>: element groups and their lazy
  iterator, quadlet-counted frames, the sum \<^verbatim>\<open>CesrGroup\<close>, its two parsers, the iterator
  over a stream of groups, and the encoders. None is a panic: an index out of range where
  the code slices without a check.
\<close>

definition pan_bind :: "('e + 'a) option \<Rightarrow> ('a \<Rightarrow> ('e + 'b) option) \<Rightarrow> ('e + 'b) option" where
  "pan_bind r k = Option.bind r (\<lambda>x. case x of Inl e \<Rightarrow> Some (Inl e) | Inr a \<Rightarrow> k a)"

lemma pan_bind_simps [simp]:
  "pan_bind None k = None" "pan_bind (Some (Inl e)) k = Some (Inl e)" "pan_bind (Some (Inr a)) k = k a"
  by (simp_all add: pan_bind_def)

lemma pan_bind_Inr: "pan_bind r k = Some (Inr b) \<longleftrightarrow> (\<exists>a. r = Some (Inr a) \<and> k a = Some (Inr b))"
proof (cases r)
  case (Some x)
  then show ?thesis by (cases x) simp_all
qed simp

text \<open>A slice that panics out of range.\<close>

definition index_from :: "'a list \<Rightarrow> nat \<Rightarrow> ('e + 'a list) option" where
  "index_from xs a = map_option Inr (slice_from xs a)"

definition index_range :: "'a list \<Rightarrow> nat \<Rightarrow> nat \<Rightarrow> ('e + 'a list) option" where
  "index_range xs a b = map_option Inr (slice_range xs a b)"

lemma index_ok [simp]:
  "a \<le> length xs \<Longrightarrow> index_from xs a = Some (Inr (drop a xs))"
  "a \<le> b \<Longrightarrow> b \<le> length xs \<Longrightarrow> index_range xs a b = Some (Inr (take (b - a) (drop a xs)))"
  by (simp_all add: index_from_def index_range_def slice_from_def slice_range_def)

section \<open>Element groups\<close>

fun frame_elements :: "GroupKind \<Rightarrow> bytes \<Rightarrow> CesrVersion \<Rightarrow> nat \<Rightarrow> nat \<Rightarrow> (ParseError + nat) option" where
  "frame_elements kind base version 0 offset = Some (Inr offset)"
| "frame_elements kind base version (Suc left) offset =
     pan_bind (index_from base offset) (\<lambda>tail.
     pan_bind (Some (GroupKind_skip kind tail version)) (\<lambda>n.
     pan_bind (Some (usize_add (Overflow GroupSpan) offset n)) (\<lambda>offset.
     frame_elements kind base version left offset)))"

definition Group_parse ::
    "GroupKind \<Rightarrow> bytes \<Rightarrow> nat \<Rightarrow> u32 \<Rightarrow> CesrVersion \<Rightarrow> (ParseError + (Group \<times> bytes)) option" where
  "Group_parse kind buf start count version =
     pan_bind (Some (ok_or (Overflow GroupStart) (slice_from buf start))) (\<lambda>base.
     pan_bind (frame_elements kind base version (unat count) 0) (\<lambda>offset.
     pan_bind (Some (usize_add (Overflow GroupSpan) start offset)) (\<lambda>end.
     pan_bind (index_range buf start end) (\<lambda>raw.
     pan_bind (index_from buf end) (\<lambda>rest.
     Some (Inr (Group_new kind raw count version, rest)))))))"

record Elements =
  es_kind :: GroupKind
  es_raw :: bytes
  es_cursor :: nat
  es_remaining :: nat
  es_version :: CesrVersion
  es_errored :: bool

definition Group_iter :: "Group \<Rightarrow> Elements" where
  "Group_iter g =
     \<lparr>es_kind = gr_kind g, es_raw = gr_raw g, es_cursor = 0, es_remaining = unat (gr_count g),
      es_version = gr_version g, es_errored = False\<rparr>"

text \<open>\<^verbatim>\<open>Elements::next\<close>: the item, if there is one, with the state it leaves.\<close>

definition Elements_next ::
    "(bytes \<Rightarrow> bytes option) \<Rightarrow> Elements \<Rightarrow> ((ParseError + Element) option \<times> Elements) option" where
  "Elements_next dec it =
     (if es_remaining it = 0 \<or> es_errored it then Some (None, it)
      else let it = it\<lparr>es_remaining := es_remaining it - 1\<rparr> in
        Option.bind (slice_from (es_raw it) (es_cursor it)) (\<lambda>tail.
        case GroupKind_element dec (es_kind it) tail (es_version it) of
          Inr (element, consumed) \<Rightarrow>
            (case usize_add (Overflow ElementSpan) (es_cursor it) consumed of
               Inr cursor \<Rightarrow> Some (Some (Inr element), it\<lparr>es_cursor := cursor\<rparr>)
             | Inl e \<Rightarrow> Some (Some (Inl e), it\<lparr>es_errored := True\<rparr>))
        | Inl e \<Rightarrow> Some (Some (Inl e), it\<lparr>es_errored := True\<rparr>)))"

definition Elements_size_hint :: "Elements \<Rightarrow> nat \<times> nat option" where
  "Elements_size_hint it = (0, Some (es_remaining it))"

lemma Elements_next_remaining:
  "Elements_next dec it = Some (Some r, it') \<Longrightarrow> es_remaining it' < es_remaining it"
  by (auto simp: Elements_next_def Let_def Option.bind_eq_Some_conv split: if_splits sum.splits)

text \<open>\<^verbatim>\<open>into_vec\<close> collects up to the first error.\<close>

function collect_elements ::
    "(bytes \<Rightarrow> bytes option) \<Rightarrow> Elements \<Rightarrow> (ParseError + Element list) option" where
  "collect_elements dec it =
     (case Elements_next dec it of
        None \<Rightarrow> None
      | Some (None, _) \<Rightarrow> Some (Inr [])
      | Some (Some (Inl e), _) \<Rightarrow> Some (Inl e)
      | Some (Some (Inr x), it) \<Rightarrow> pan_bind (collect_elements dec it) (\<lambda>xs. Some (Inr (x # xs))))"
  by pat_completeness auto
termination by (relation "measure (\<lambda>(_, it). es_remaining it)") (auto dest: Elements_next_remaining)

declare collect_elements.simps [simp del]

definition Group_into_vec :: "(bytes \<Rightarrow> bytes option) \<Rightarrow> Group \<Rightarrow> (ParseError + Element list) option" where
  "Group_into_vec dec g = collect_elements dec (Group_iter g)"

section \<open>Frames\<close>

text \<open>
  The parser a \<^verbatim>\<open>QuadletGroup\<close> holds is one of the two functions
  \<^verbatim>\<open>CesrGroup::parse_bytes\<close> and \<^verbatim>\<open>parse_bytes_v2\<close>; its version names it.
\<close>

record QuadletGroup =
  q_input :: bytes
  q_cursor :: nat
  q_errored :: bool
  q_parser :: CesrVersion

definition QuadletGroup_new :: "bytes \<Rightarrow> CesrVersion \<Rightarrow> QuadletGroup" where
  "QuadletGroup_new input parser = \<lparr>q_input = input, q_cursor = 0, q_errored = False, q_parser = parser\<rparr>"

definition quadlet_count :: "QuadletGroup \<Rightarrow> nat" where
  "quadlet_count q = length (q_input q) div 4"

definition quadlet_slice ::
    "CesrVersion \<Rightarrow> bytes \<Rightarrow> nat \<Rightarrow> u32 \<Rightarrow> (ParseError + (QuadletGroup \<times> bytes)) option" where
  "quadlet_slice parser buf start count =
     pan_bind (Some (usize_mul (Overflow QuadletCount) (unat count) 4)) (\<lambda>total_bytes.
     pan_bind (Some (if start \<le> length buf then Inr (length buf - start) else Inl (Overflow GroupStart))) (\<lambda>avail.
     if avail < total_bytes then Some (Inl (NeedBytes (total_bytes - avail)))
     else
       pan_bind (Some (usize_add (Overflow QuadletSpan) start total_bytes)) (\<lambda>end.
       pan_bind (index_range buf start end) (\<lambda>group_bytes.
       pan_bind (index_from buf end) (\<lambda>rest.
       Some (Inr (QuadletGroup_new group_bytes parser, rest)))))))"

definition parse_quadlets :: "bytes \<Rightarrow> nat \<Rightarrow> u32 \<Rightarrow> (ParseError + (QuadletGroup \<times> bytes)) option" where
  "parse_quadlets = quadlet_slice V1"

definition parse_quadlets_v2 :: "bytes \<Rightarrow> nat \<Rightarrow> u32 \<Rightarrow> (ParseError + (QuadletGroup \<times> bytes)) option" where
  "parse_quadlets_v2 = quadlet_slice V2"

section \<open>The sum of the groups\<close>

text \<open>
  \<^verbatim>\<open>CesrGroup\<close> has one variant per kind, each holding the carrier of its own kind; here the
  kind in the carrier is the variant.
\<close>

datatype CesrGroup = ElementGroup Group | FrameGroup FrameKind QuadletGroup

definition parse_kind ::
    "bytes \<Rightarrow> nat \<Rightarrow> u32 \<Rightarrow> CesrVersion \<Rightarrow> GroupKind \<Rightarrow> (ParseError + (CesrGroup \<times> bytes)) option" where
  "parse_kind buf start count version kind =
     pan_bind (Group_parse kind buf start count version) (\<lambda>(g, rest). Some (Inr (ElementGroup g, rest)))"

definition parse_frame :: "bytes \<Rightarrow> nat \<Rightarrow> u32 \<Rightarrow> FrameKind \<Rightarrow> (ParseError + (CesrGroup \<times> bytes)) option" where
  "parse_frame buf start count kind =
     pan_bind (parse_quadlets buf start count) (\<lambda>(quadlets, rest). Some (Inr (FrameGroup kind quadlets, rest)))"

definition parse_frame_v2 :: "bytes \<Rightarrow> nat \<Rightarrow> u32 \<Rightarrow> FrameKind \<Rightarrow> (ParseError + (CesrGroup \<times> bytes)) option" where
  "parse_frame_v2 buf start count kind =
     pan_bind (parse_quadlets_v2 buf start count) (\<lambda>(quadlets, rest). Some (Inr (FrameGroup kind quadlets, rest)))"

definition dispatch_v1 ::
    "bytes \<Rightarrow> nat \<Rightarrow> CounterCodeV1 \<Rightarrow> u32 \<Rightarrow> (ParseError + (CesrGroup \<times> bytes)) option" where
  "dispatch_v1 buf start code count =
     (if code = CounterCodeV1.ControllerIdxSigs then parse_kind buf start count V1 ControllerIdxSig
      else if code = CounterCodeV1.WitnessIdxSigs then parse_kind buf start count V1 WitnessIdxSig
      else if code = CounterCodeV1.NonTransReceiptCouples then parse_kind buf start count V1 NonTransReceiptCouple
      else if code = CounterCodeV1.TransReceiptQuadruples then parse_kind buf start count V1 TransReceiptQuadruple
      else if code = CounterCodeV1.FirstSeenReplayCouples then parse_kind buf start count V1 FirstSeenReplayCouple
      else if code = CounterCodeV1.TransIdxSigGroups then parse_kind buf start count V1 TransIdxSigGroup
      else if code = CounterCodeV1.SealSourceCouples then parse_kind buf start count V1 SealSourceCouple
      else if code = CounterCodeV1.TransLastIdxSigGroups then parse_kind buf start count V1 TransLastIdxSigGroup
      else if code = CounterCodeV1.SealSourceTriples then parse_kind buf start count V1 SealSourceTriple
      else if code = CounterCodeV1.AttachmentGroup \<or> code = CounterCodeV1.BigAttachmentGroup then parse_frame buf start count Attachment
      else if code = CounterCodeV1.GenericGroup \<or> code = CounterCodeV1.BigGenericGroup then parse_frame buf start count Generic
      else if code = CounterCodeV1.BodyWithAttachmentGroup \<or> code = CounterCodeV1.BigBodyWithAttachmentGroup then parse_frame buf start count BodyWithAttachment
      else if code = CounterCodeV1.NonNativeBodyGroup \<or> code = CounterCodeV1.BigNonNativeBodyGroup then parse_frame buf start count NonNativeBody
      else if code = CounterCodeV1.ESSRPayloadGroup \<or> code = CounterCodeV1.BigESSRPayloadGroup then parse_frame buf start count ESSRPayload
      else if code = CounterCodeV1.PathedMaterialCouples \<or> code = CounterCodeV1.BigPathedMaterialCouples then parse_frame buf start count PathedMaterial
      else Some (Inl GenusVersionNotAGroup))"

definition dispatch_v2_seals ::
    "bytes \<Rightarrow> nat \<Rightarrow> CounterCodeV2 \<Rightarrow> u32 \<Rightarrow> (ParseError + (CesrGroup \<times> bytes)) option" where
  "dispatch_v2_seals buf start code count =
     (if code = CounterCodeV2.DigestSealSingles \<or> code = CounterCodeV2.BigDigestSealSingles then parse_kind buf start count V2 DigestSealSingle
      else if code = CounterCodeV2.MerkleRootSealSingles \<or> code = CounterCodeV2.BigMerkleRootSealSingles then parse_kind buf start count V2 MerkleRootSealSingle
      else if code = CounterCodeV2.SealSourceLastSingles \<or> code = CounterCodeV2.BigSealSourceLastSingles then parse_kind buf start count V2 SealSourceLastSingle
      else if code = CounterCodeV2.BackerRegistrarSealCouples \<or> code = CounterCodeV2.BigBackerRegistrarSealCouples then parse_kind buf start count V2 BackerRegistrarSealCouple
      else if code = CounterCodeV2.TypedDigestSealCouples \<or> code = CounterCodeV2.BigTypedDigestSealCouples then parse_kind buf start count V2 TypedDigestSealCouple
      else if code = CounterCodeV2.BlindedStateQuadruples \<or> code = CounterCodeV2.BigBlindedStateQuadruples then parse_kind buf start count V2 BlindedStateQuadruple
      else if code = CounterCodeV2.BoundStateSextuples \<or> code = CounterCodeV2.BigBoundStateSextuples then parse_kind buf start count V2 BoundStateSextuple
      else if code = CounterCodeV2.TypedMediaQuadruples \<or> code = CounterCodeV2.BigTypedMediaQuadruples then parse_kind buf start count V2 TypedMediaQuadruple
      else if code = CounterCodeV2.KERIACDCGenusVersion then Some (Inl GenusVersionNotAGroup)
      else Some (Inl (NotAnAttachmentGroup (CounterCodeV2_as_str code))))"

definition dispatch_v2_frames ::
    "bytes \<Rightarrow> nat \<Rightarrow> CounterCodeV2 \<Rightarrow> u32 \<Rightarrow> (ParseError + (CesrGroup \<times> bytes)) option" where
  "dispatch_v2_frames buf start code count =
     (if code = CounterCodeV2.AttachmentGroup \<or> code = CounterCodeV2.BigAttachmentGroup then parse_frame_v2 buf start count Attachment
      else if code = CounterCodeV2.GenericGroup \<or> code = CounterCodeV2.BigGenericGroup then parse_frame_v2 buf start count Generic
      else if code = CounterCodeV2.BodyWithAttachmentGroup \<or> code = CounterCodeV2.BigBodyWithAttachmentGroup then parse_frame_v2 buf start count BodyWithAttachment
      else if code = CounterCodeV2.NonNativeBodyGroup \<or> code = CounterCodeV2.BigNonNativeBodyGroup then parse_frame_v2 buf start count NonNativeBody
      else if code = CounterCodeV2.ESSRPayloadGroup \<or> code = CounterCodeV2.BigESSRPayloadGroup then parse_frame_v2 buf start count ESSRPayload
      else if code = CounterCodeV2.DatagramSegmentGroup \<or> code = CounterCodeV2.BigDatagramSegmentGroup then parse_frame_v2 buf start count DatagramSegment
      else if code = CounterCodeV2.ESSRWrapperGroup \<or> code = CounterCodeV2.BigESSRWrapperGroup then parse_frame_v2 buf start count ESSRWrapper
      else if code = CounterCodeV2.FixBodyGroup \<or> code = CounterCodeV2.BigFixBodyGroup then parse_frame_v2 buf start count FixBody
      else if code = CounterCodeV2.MapBodyGroup \<or> code = CounterCodeV2.BigMapBodyGroup then parse_frame_v2 buf start count MapBody
      else if code = CounterCodeV2.GenericMapGroup \<or> code = CounterCodeV2.BigGenericMapGroup then parse_frame_v2 buf start count GenericMap
      else if code = CounterCodeV2.GenericListGroup \<or> code = CounterCodeV2.BigGenericListGroup then parse_frame_v2 buf start count GenericList
      else if code = CounterCodeV2.PathedMaterialCouples \<or> code = CounterCodeV2.BigPathedMaterialCouples then parse_frame_v2 buf start count PathedMaterial
      else dispatch_v2_seals buf start code count)"

definition dispatch_v2 ::
    "bytes \<Rightarrow> nat \<Rightarrow> CounterCodeV2 \<Rightarrow> u32 \<Rightarrow> (ParseError + (CesrGroup \<times> bytes)) option" where
  "dispatch_v2 buf start code count =
     (if code = CounterCodeV2.ControllerIdxSigs \<or> code = CounterCodeV2.BigControllerIdxSigs then parse_kind buf start count V2 ControllerIdxSig
      else if code = CounterCodeV2.WitnessIdxSigs \<or> code = CounterCodeV2.BigWitnessIdxSigs then parse_kind buf start count V2 WitnessIdxSig
      else if code = CounterCodeV2.NonTransReceiptCouples \<or> code = CounterCodeV2.BigNonTransReceiptCouples then parse_kind buf start count V2 NonTransReceiptCouple
      else if code = CounterCodeV2.TransReceiptQuadruples \<or> code = CounterCodeV2.BigTransReceiptQuadruples then parse_kind buf start count V2 TransReceiptQuadruple
      else if code = CounterCodeV2.FirstSeenReplayCouples \<or> code = CounterCodeV2.BigFirstSeenReplayCouples then parse_kind buf start count V2 FirstSeenReplayCouple
      else if code = CounterCodeV2.SealSourceCouples \<or> code = CounterCodeV2.BigSealSourceCouples then parse_kind buf start count V2 SealSourceCouple
      else if code = CounterCodeV2.SealSourceTriples \<or> code = CounterCodeV2.BigSealSourceTriples then parse_kind buf start count V2 SealSourceTriple
      else if code = CounterCodeV2.TransIdxSigGroups \<or> code = CounterCodeV2.BigTransIdxSigGroups then parse_kind buf start count V2 TransIdxSigGroup
      else if code = CounterCodeV2.TransLastIdxSigGroups \<or> code = CounterCodeV2.BigTransLastIdxSigGroups then parse_kind buf start count V2 TransLastIdxSigGroup
      else dispatch_v2_frames buf start code count)"

definition parse_bytes_at :: "bytes \<Rightarrow> nat \<Rightarrow> (ParseError + (CesrGroup \<times> bytes)) option" where
  "parse_bytes_at buf start =
     pan_bind (Some (ok_or (Overflow GroupStart) (slice_from buf start))) (\<lambda>head.
     pan_bind (Some (read_counter_v1 (TextStream_new head))) (\<lambda>((code, count), ts).
     pan_bind (Some (usize_add (Overflow GroupOffset) start (ts_pos ts))) (\<lambda>body.
     dispatch_v1 buf body code count)))"

definition parse_bytes :: "bytes \<Rightarrow> (ParseError + (CesrGroup \<times> bytes)) option" where
  "parse_bytes buf = parse_bytes_at buf 0"

definition parse_bytes_v2_at :: "bytes \<Rightarrow> nat \<Rightarrow> (ParseError + (CesrGroup \<times> bytes)) option" where
  "parse_bytes_v2_at buf start =
     pan_bind (Some (ok_or (Overflow GroupStart) (slice_from buf start))) (\<lambda>head.
     pan_bind (Some (read_counter_v2 (TextStream_new head))) (\<lambda>((code, count), ts).
     pan_bind (Some (usize_add (Overflow GroupOffset) start (ts_pos ts))) (\<lambda>body.
     dispatch_v2 buf body code count)))"

definition parse_bytes_v2 :: "bytes \<Rightarrow> (ParseError + (CesrGroup \<times> bytes)) option" where
  "parse_bytes_v2 buf = parse_bytes_v2_at buf 0"

text \<open>\<^verbatim>\<open>CesrGroup::parse\<close>: frame first, then build the group from the framed bytes alone.\<close>

definition CesrGroup_parse :: "bytes \<Rightarrow> (ParseError + (CesrGroup \<times> bytes)) option" where
  "CesrGroup_parse input =
     pan_bind (Some (cursor_new_v1 input)) (\<lambda>cursor.
     let payload_start = gf_end cursor; count = gf_count cursor in
     pan_bind (Some (fst (cursor_advance cursor input))) (\<lambda>len.
     pan_bind
       (if take 2 input = str_bytes ''-A'' then
          pan_bind (index_range input payload_start len) (\<lambda>raw.
          Some (Inr (ElementGroup (Group_new ControllerIdxSig raw count V1))))
        else if take 2 input = str_bytes ''-B'' then
          pan_bind (index_range input payload_start len) (\<lambda>raw.
          Some (Inr (ElementGroup (Group_new WitnessIdxSig raw count V1))))
        else
          pan_bind (index_range input 0 len) (\<lambda>buf.
          pan_bind (parse_bytes buf) (\<lambda>(g, _). Some (Inr g)))) (\<lambda>g.
     pan_bind (index_from input len) (\<lambda>rest. Some (Inr (g, rest))))))"

definition CesrGroup_parse_v2 :: "bytes \<Rightarrow> (ParseError + (CesrGroup \<times> bytes)) option" where
  "CesrGroup_parse_v2 input =
     pan_bind (Some (frame_len_v2 input)) (\<lambda>len.
     pan_bind (index_range input 0 len) (\<lambda>buf.
     pan_bind (parse_bytes_v2 buf) (\<lambda>(g, _).
     pan_bind (index_from input len) (\<lambda>rest. Some (Inr (g, rest))))))"

section \<open>Iterating groups\<close>

text \<open>\<^verbatim>\<open>QuadletGroup::next\<close> over the payload of a frame.\<close>

definition QuadletGroup_next :: "QuadletGroup \<Rightarrow> ((ParseError + CesrGroup) option \<times> QuadletGroup) option" where
  "QuadletGroup_next q =
     (if length (q_input q) \<le> q_cursor q \<or> q_errored q then Some (None, q)
      else Option.bind (slice_from (q_input q) (q_cursor q)) (\<lambda>remaining.
        Option.bind (case q_parser q of V1 \<Rightarrow> parse_bytes remaining | V2 \<Rightarrow> parse_bytes_v2 remaining) (\<lambda>r.
        case r of
          Inr (g, rest) \<Rightarrow> Some (Some (Inr g), q\<lparr>q_cursor := length (q_input q) - length rest\<rparr>)
        | Inl e \<Rightarrow> Some (Some (Inl e), q\<lparr>q_errored := True\<rparr>))))"

record Groups =
  gs_input :: bytes
  gs_cursor :: nat
  gs_version :: CesrVersion

definition Groups_over :: "CesrVersion \<Rightarrow> bytes \<Rightarrow> Groups" where
  "Groups_over version input = \<lparr>gs_input = input, gs_cursor = 0, gs_version = version\<rparr>"

definition Groups_next :: "Groups \<Rightarrow> ((ParseError + CesrGroup) option \<times> Groups) option" where
  "Groups_next gs =
     (if length (gs_input gs) \<le> gs_cursor gs then Some (None, gs)
      else Option.bind (slice_from (gs_input gs) (gs_cursor gs)) (\<lambda>tail.
        Option.bind (case gs_version gs of V1 \<Rightarrow> CesrGroup_parse tail | V2 \<Rightarrow> CesrGroup_parse_v2 tail) (\<lambda>parsed.
        case parsed of
          Inr (g, rest) \<Rightarrow> Some (Some (Inr g), gs\<lparr>gs_cursor := gs_cursor gs + (length tail - length rest)\<rparr>)
        | Inl e \<Rightarrow> Some (Some (Inl e), gs\<lparr>gs_cursor := length (gs_input gs)\<rparr>))))"

section \<open>Encoding\<close>

definition frame_quadlet_count :: "bytes \<Rightarrow> ParseError + u32" where
  "frame_quadlet_count payload =
     (if length payload mod 4 \<noteq> 0 then Inl (Misaligned (length payload) 4)
      else if length payload div 4 < 2 ^ 32 then Inr (word_of_nat (length payload div 4)) else Inl (Overflow QuadletCount))"

definition Frame_encode_V1 :: "FrameKind \<Rightarrow> QuadletGroup \<Rightarrow> bytes \<Rightarrow> ParseError + bytes" where
  "Frame_encode_V1 kind q dst =
     (case FrameKind_CODE_V1 kind of
        None \<Rightarrow> Inl (VersionMismatch ''V2-only group type'' V1)
      | Some code \<Rightarrow>
          res_bind (frame_quadlet_count (q_input q)) (\<lambda>count.
          res_bind (CounterCodeV1_encode_count_into code count dst) (\<lambda>dst. Inr (dst @ q_input q))))"

definition Frame_encode_V2 :: "FrameKind \<Rightarrow> QuadletGroup \<Rightarrow> bytes \<Rightarrow> ParseError + bytes" where
  "Frame_encode_V2 kind q dst =
     res_bind (frame_quadlet_count (q_input q)) (\<lambda>count.
     res_bind (CounterCodeV2_encode_count_into (FrameKind_CODE_V2 kind) count dst) (\<lambda>dst. Inr (dst @ q_input q)))"

primrec CesrGroup_encode_V1 :: "CesrGroup \<Rightarrow> bytes \<Rightarrow> ParseError + bytes" where
  "CesrGroup_encode_V1 (ElementGroup g) dst = Group_encode_V1 g dst"
| "CesrGroup_encode_V1 (FrameGroup kind q) dst = Frame_encode_V1 kind q dst"

primrec CesrGroup_encode_V2 :: "CesrGroup \<Rightarrow> bytes \<Rightarrow> ParseError + bytes" where
  "CesrGroup_encode_V2 (ElementGroup g) dst = Group_encode_V2 g dst"
| "CesrGroup_encode_V2 (FrameGroup kind q) dst = Frame_encode_V2 kind q dst"

end
