(* ===== verification/Stream_Cursor_Span.thy ===== *)
theory Stream_Cursor_Span
  imports Stream_Cursor_Laws
begin

text \<open>
  What an unbounded group cursor computes: the span of \<^verbatim>\<open>count\<close> elements of its kind, each
  sized by the kind's own skip, or the quadlets its counter declares.
\<close>

section \<open>One element\<close>

lemma nested_advance_outers:
  assumes "nested_advance_bounded c xs version me ms = (r, c')"
  shows "nested_reset c' = nested_reset c"
proof -
  have m: "nested_matters d xs = (s, d') \<Longrightarrow> nested_reset d' = nested_reset d" for d s d'
  proof (induction d xs rule: nested_matters.induct)
    case (1 d xs)
    then show ?case
      by (force simp: nested_reset_def nested_matters.simps[of d xs] split: if_splits sum.splits)
  qed
  have s: "nested_sigs d xs = (s, d') \<Longrightarrow> nested_reset d' = nested_reset d" for d s d'
  proof (induction d xs rule: nested_sigs.induct)
    case (1 d xs)
    then show ?case
      by (force simp: nested_reset_def nested_sigs.simps[of d xs] split: option.splits nat.splits sum.splits)
  qed
  have k: "nested_counter d xs version me ms = (s, d') \<Longrightarrow> nested_reset d' = nested_reset d" for d s d'
    by (auto simp: nested_reset_def nested_counter_def split: if_splits sum.splits)
  from assms show ?thesis by (cases rule: nested_advance_cases) (auto dest!: m s k)
qed

lemma nested_reset_new [simp]: "nested_reset (NestedSigCursor_new m a b) = NestedSigCursor_new m a b"
  by (simp add: nested_reset_def NestedSigCursor_new_def)

text \<open>A limit no count can reach is no limit.\<close>

lemma nested_counter_unbounded:
  assumes "2 ^ 32 - 1 \<le> me" "2 ^ 32 - 1 \<le> ms"
  shows "nested_counter c xs version me ms = nested_counter c xs version usize_max usize_max"
proof -
  have u: "unat (n :: u32) \<le> 2 ^ 32 - 1" for n using unsigned_less[of n, where 'a = nat] by simp
  have b: "unat (n :: u32) \<le> me" "unat n \<le> ms" "unat n \<le> usize_max" for n
    using order_trans[OF u[of n] assms(1)] order_trans[OF u[of n] assms(2)] u[of n] by (simp_all add: usize_max_def)
  show ?thesis unfolding nested_counter_def by (simp add: b Let_def)
qed

lemma nested_advance_unbounded:
  "2 ^ 32 - 1 \<le> me \<Longrightarrow> 2 ^ 32 - 1 \<le> ms \<Longrightarrow>
   nested_advance_bounded c xs version me ms = nested_advance c xs version"
  unfolding nested_advance_def nested_advance_bounded_def by (simp only: nested_counter_unbounded[of me ms])

lemma nested_declared_bound:
  assumes "nested_advance c xs version = (r, c')" "ns_declared_sigs c = None" "ns_declared_sigs c' = Some k"
  shows "k < 2 ^ 32"
proof -
  have m: "nested_matters d xs = (s, d') \<Longrightarrow> ns_declared_sigs d' = ns_declared_sigs d" for d s d'
  proof (induction d xs rule: nested_matters.induct)
    case (1 d xs)
    then show ?case by (force simp: nested_matters.simps[of d xs] split: if_splits sum.splits)
  qed
  have s: "nested_sigs d xs = (s, d') \<Longrightarrow> ns_declared_sigs d' = ns_declared_sigs d" for d s d'
  proof (induction d xs rule: nested_sigs.induct)
    case (1 d xs)
    then show ?case by (force simp: nested_sigs.simps[of d xs] split: option.splits nat.splits sum.splits)
  qed
  have u: "unat (n :: u32) < 2 ^ 32" for n using unsigned_less[of n, where 'a = nat] by simp
  have k: "nested_counter d xs version me ms = (s, d') \<Longrightarrow> ns_declared_sigs d' = ns_declared_sigs d \<or>
      (\<exists>k. ns_declared_sigs d' = Some k \<and> k < 2 ^ 32)" for d s d' me ms
    using u by (auto simp: nested_counter_def Let_def split: if_splits sum.splits)
  from assms(1)[unfolded nested_advance_def] show ?thesis
  proof (cases rule: nested_advance_cases)
    case (Matters e)
    then show ?thesis using m[OF Matters(1)] assms by auto
  next
    case (Counter e c1)
    then show ?thesis using m[OF Counter(1)] k[OF Counter(2)] assms by auto
  next
    case (Sigs c1 c2 z)
    then show ?thesis using m[OF Sigs(1)] k[OF Sigs(2)] s[OF Sigs(3)] assms by auto
  qed
qed

definition fresh_cursor :: "GroupFrameCursor \<Rightarrow> GroupKind \<Rightarrow> bool" where
  "fresh_cursor c kind \<longleftrightarrow> gf_nested c = kind_cursor kind \<and> \<not> gf_nested_counted c \<and>
     (kind_cursor kind \<noteq> None \<longrightarrow> gf_signature_total c + gf_remaining c * 2 ^ 32 \<le> usize_bound - 2 ^ 32)"

lemma kind_cursor_new: "kind_cursor kind = Some n \<Longrightarrow> nested_reset n = n \<and> ns_declared_sigs n = None \<and> nested_ok n xs \<and>
   (\<exists>m a b. n = NestedSigCursor_new m a b)"
  by (auto simp: kind_cursor_def) (simp_all add: NestedSigCursor_new_def)

lemma kind_skip_nested: "kind_cursor kind = Some n \<Longrightarrow> GroupKind_skip kind xs v = fst (nested_advance n xs v)"
  by (cases kind) (auto simp: kind_cursor_def GroupKind_skip_def)

lemma next_size_unbounded:
  assumes f: "fresh_cursor c kind" and r: "gf_remaining c \<noteq> 0"
  obtains c' t where "next_size c kind w usize_max usize_max = (GroupKind_skip kind w (gf_version c), c')"
    "\<And>e k. c'\<lparr>gf_end := e, gf_remaining := k, gf_nested := map_option nested_reset (gf_nested c'),
       gf_nested_counted := (gf_nested c' = None \<and> gf_nested_counted c')\<rparr> =
     c\<lparr>gf_end := e, gf_remaining := k, gf_signature_total := t\<rparr>"
    "kind_cursor kind \<noteq> None \<Longrightarrow> t < gf_signature_total c + 2 ^ 32"
    "gf_end c' = gf_end c" "gf_remaining c' = gf_remaining c"
proof (cases "kind_cursor kind")
  case None
  then have n: "gf_nested c = None" "\<not> gf_nested_counted c" using f by (simp_all add: fresh_cursor_def)
  then show ?thesis by (intro that[of c "gf_signature_total c"]) (simp_all add: next_size_def None)
next
  case (Some n)
  let ?t = "gf_signature_total c" and ?v = "gf_version c"
  have n: "gf_nested c = Some n" "\<not> gf_nested_counted c" "?t + gf_remaining c * 2 ^ 32 \<le> usize_bound - 2 ^ 32"
    using f Some by (simp_all add: fresh_cursor_def)
  have "1 * 2 ^ 32 \<le> gf_remaining c * 2 ^ 32" using r by (intro mult_right_mono) auto
  then have t: "?t + 2 ^ 32 \<le> usize_bound - 2 ^ 32" using n(3) by linarith
  then have b: "2 ^ 32 - 1 \<le> usize_max - ?t" "2 ^ 32 - 1 \<le> usize_max" by (simp_all add: usize_max_def)
  obtain r' n' where a: "nested_advance n w ?v = (r', n')" by (cases "nested_advance n w ?v")
  have re: "nested_reset n' = n"
    using nested_advance_outers[of n w ?v usize_max usize_max r' n'] a kind_cursor_new[OF Some] by (simp add: nested_advance_def)
  have sk: "GroupKind_skip kind w ?v = r'" using kind_skip_nested[OF Some] a by simp
  note simps = next_size_def n nested_advance_unbounded[OF b(2,1)] a Let_def sk
  show ?thesis
  proof (cases "ns_declared_sigs n'")
    case None
    then show ?thesis using re n by (intro that[of "c\<lparr>gf_nested := Some n'\<rparr>" ?t]) (simp_all add: simps)
  next
    case (Some k)
    then have k: "k < 2 ^ 32" using nested_declared_bound[OF a] kind_cursor_new[OF \<open>kind_cursor kind = Some n\<close>] by blast
    then have "?t + k < usize_bound" using t by linarith
    then show ?thesis using re n Some k
      by (intro that[of "c\<lparr>gf_nested := Some n', gf_signature_total := ?t + k, gf_nested_counted := True\<rparr>" "?t + k"])
        (simp_all add: simps usize_add_def)
  qed
qed

lemma frame_element_unbounded:
  assumes l: "length xs < usize_bound" and e: "gf_end c \<le> length xs"
    and f: "fresh_cursor c kind" and r: "gf_remaining c \<noteq> 0"
  shows "case GroupKind_skip kind (drop (gf_end c) xs) (gf_version c) of
      Inr n \<Rightarrow> \<exists>t. frame_element c kind xs usize_max usize_max usize_max =
          (Inr (), c\<lparr>gf_end := gf_end c + n, gf_remaining := gf_remaining c - 1, gf_signature_total := t\<rparr>) \<and>
        fresh_cursor (c\<lparr>gf_end := gf_end c + n, gf_remaining := gf_remaining c - 1, gf_signature_total := t\<rparr>) kind
    | Inl _ \<Rightarrow> \<exists>e' c'. frame_element c kind xs usize_max usize_max usize_max = (Inl e', c')"
proof -
  let ?w = "drop (gf_end c) xs"
  have m: "min (length xs) usize_max = length xs" using l by (simp add: usize_max_def)
  have w: "slice_range xs (gf_end c) (min (length xs) usize_max) = Some ?w" using e by (simp add: m slice_range_def)
  have lw: "length ?w < usize_bound" using l by simp
  obtain c' t where n: "next_size c kind ?w usize_max usize_max = (GroupKind_skip kind ?w (gf_version c), c')"
    "\<And>e k. c'\<lparr>gf_end := e, gf_remaining := k, gf_nested := map_option nested_reset (gf_nested c'),
       gf_nested_counted := (gf_nested c' = None \<and> gf_nested_counted c')\<rparr> =
     c\<lparr>gf_end := e, gf_remaining := k, gf_signature_total := t\<rparr>"
    "kind_cursor kind \<noteq> None \<Longrightarrow> t < gf_signature_total c + 2 ^ 32" "gf_end c' = gf_end c" "gf_remaining c' = gf_remaining c"
    using next_size_unbounded[OF f r] by metis
  show ?thesis
  proof (cases "GroupKind_skip kind ?w (gf_version c)")
    case (Inl e')
    then show ?thesis using n(1) w by (auto simp: frame_element_def past_limit_def split: ParseError.splits)
  next
    case (Inr k)
    have k: "0 < k" "gf_end c + k \<le> length xs" using kind.skip_bound[OF lw Inr] e by auto
    then have u: "gf_end c + k < usize_bound" "\<not> usize_max < gf_end c + k" using l by (simp_all add: usize_max_def)
    let ?c = "c\<lparr>gf_end := gf_end c + k, gf_remaining := gf_remaining c - 1, gf_signature_total := t\<rparr>"
    have "frame_element c kind xs usize_max usize_max usize_max = (Inr (), ?c)"
      using n(1,4,5) k u w n(2)[where e = "gf_end c + k" and k = "gf_remaining c - 1"] Inr
      by (simp add: frame_element_def past_limit_def usize_add_def Let_def)
    moreover have "fresh_cursor ?c kind"
    proof -
      have "gf_remaining c = Suc (gf_remaining c - 1)" using r by simp
      then have "gf_remaining c * 2 ^ 32 = (gf_remaining c - 1) * 2 ^ 32 + 2 ^ 32"
        by (metis add.commute mult_Suc)
      then show ?thesis using f n(3) unfolding fresh_cursor_def by auto
    qed
    ultimately show ?thesis using Inr by auto
  qed
qed

section \<open>The whole group\<close>

lemma frame_loop_unbounded:
  "length xs < usize_bound \<Longrightarrow> gf_end c \<le> length xs \<Longrightarrow> fresh_cursor c kind \<Longrightarrow>
   (case kind.span kind (gf_remaining c) (drop (gf_end c) xs) (gf_version c) of
      Inr n \<Rightarrow> \<exists>c'. frame_loop c kind xs usize_max usize_max usize_max = (Inr (), c') \<and> gf_end c' = gf_end c + n
    | Inl _ \<Rightarrow> \<exists>e c'. frame_loop c kind xs usize_max usize_max usize_max = (Inl e, c'))"
proof (induction "gf_remaining c" arbitrary: c)
  case 0
  then show ?case by (simp add: frame_loop.simps[of c] flip: 0(1))
next
  case (Suc n)
  let ?w = "drop (gf_end c) xs"
  have r: "gf_remaining c \<noteq> 0" using Suc(2) by simp
  have lw: "length ?w < usize_bound" using Suc(3) by simp
  note f = frame_element_unbounded[OF Suc(3-5) r]
  show ?case
  proof (cases "GroupKind_skip kind ?w (gf_version c)")
    case (Inl e)
    then show ?thesis using f r by (auto simp: frame_loop.simps[of c] simp flip: Suc(2))
  next
    case (Inr k)
    then obtain t where t: "frame_element c kind xs usize_max usize_max usize_max =
        (Inr (), c\<lparr>gf_end := gf_end c + k, gf_remaining := gf_remaining c - 1, gf_signature_total := t\<rparr>)"
      "fresh_cursor (c\<lparr>gf_end := gf_end c + k, gf_remaining := gf_remaining c - 1, gf_signature_total := t\<rparr>) kind"
      (is "fresh_cursor ?c kind") using f by auto
    have k: "gf_end c + k \<le> length xs" using kind.skip_bound[OF lw Inr] Suc(4) by auto
    have d: "n = gf_remaining ?c" using Suc(2) by simp
    have "gf_end ?c \<le> length xs" using k by simp
    note I = Suc(1)[OF d Suc(3) this t(2), folded d]
    have dd: "drop k ?w = drop (gf_end c + k) xs" by (simp add: add.commute)
    have fl: "frame_loop c kind xs usize_max usize_max usize_max = frame_loop ?c kind xs usize_max usize_max usize_max"
      using r t(1) by (simp add: frame_loop.simps[of c])
    show ?thesis unfolding fl Suc(2)[symmetric] group_grammar.span.simps
      using I Inr by (cases "kind.span kind n (drop (gf_end c + k) xs) (gf_version c)") (auto simp: dd Suc(2)[symmetric] simp del: drop_drop)
  qed
qed

end
