(* ===== verification/Stream_Exact.thy ===== *)
theory Stream_Exact
  imports Stream_Kinds_Laws
begin

text \<open>
  Sizing looks at nothing past what it sizes: a primitive, an element and a run of elements
  have the same size on their own bytes alone. The locale of the group families is extended
  by this law.
\<close>

definition exact :: "(bytes \<Rightarrow> ParseError + nat) \<Rightarrow> bool" where
  "exact f \<longleftrightarrow> (\<forall>xs n. length xs < usize_bound \<longrightarrow> f xs = Inr n \<longrightarrow> f (take n xs) = Inr n)"

lemma exactD: "exact f \<Longrightarrow> length xs < usize_bound \<Longrightarrow> f xs = Inr n \<Longrightarrow> f (take n xs) = Inr n"
  by (simp add: exact_def)

lemma exact_take:
  assumes "exact f" "settled f" "length xs < usize_bound" "f xs = Inr n" "n \<le> m"
  shows "f (take m xs) = Inr n"
proof -
  have t: "take m xs = take n xs @ drop n (take m xs)"
    using append_take_drop_id[of n "take m xs"] assms(5) by (simp add: min_absorb1 del: append_take_drop_id)
  have "length (take n xs @ drop n (take m xs)) < usize_bound" unfolding t[symmetric] using assms(3) by auto
  then show ?thesis using settled_Inr[OF assms(2) _ exactD[OF assms(1,3,4)]] t by metis
qed

lemma matter_code_within: "frame_size_of c xs = Inr n \<Longrightarrow> sz_hs (get_sizage c) + sz_ss (get_sizage c) \<le> n"
  using sizage_ok[of c]
  by (auto simp: frame_size_of_def sizage_ok_def Let_def compute_full_size_def split: SizeType.splits if_splits)

lemma exact_matter_size: "exact matter_size"
  unfolding exact_def
proof (intro allI impI)
  fix xs n assume "matter_size xs = Inr n"
  then obtain c where c: "from_base64_stream xs = Inr c" "frame_size_of c xs = Inr n" "n \<le> length xs"
    by (auto simp: matter_size_Inr frame_size_def)
  let ?hs = "sz_hs (get_sizage c)" and ?ss = "sz_ss (get_sizage c)"
  obtain rest where r: "xs = MatterCode_to_string c @ rest" using c(1) from_base64_stream_iff by blast
  have w: "?hs + ?ss \<le> n" by (rule matter_code_within[OF c(2)])
  then have "take n xs = MatterCode_to_string c @ take (n - ?hs) rest" using r by (simp add: length_to_string)
  then have code: "from_base64_stream (take n xs) = Inr c" using from_base64_stream_iff by blast
  have l: "length (take n xs) = n" using c(3) by simp
  have s: "take (?hs + ?ss - (?hs + x)) (drop (?hs + x) (take n xs)) = take (?hs + ?ss - (?hs + x)) (drop (?hs + x) xs)" for x
  proof -
    have "min (?hs + ?ss - (?hs + x)) (n - (?hs + x)) = ?hs + ?ss - (?hs + x)" using w by (intro min_absorb1) simp
    then show ?thesis by (simp add: drop_take del: diff_add_inverse)
  qed
  have "frame_size_of c (take n xs) = frame_size_of c xs"
    using w l c(3) unfolding frame_size_of_def Let_def s by (cases "sz_fs (get_sizage c)") simp_all
  then show "matter_size (take n xs) = Inr n" using code c(2) l by (simp add: matter_size_Inr frame_size_def)
qed

lemma exact_indexer_size: "exact indexer_size"
  unfolding exact_def
proof (intro allI impI)
  fix xs n assume "indexer_size xs = Inr n"
  then obtain c where c: "Indexer_read_code xs = Inr c" "IndexedSigCode_frame_size_of c xs = Inr n" "n \<le> length xs"
    by (auto simp: indexer_size_Inr IndexedSigCode_frame_size_def)
  obtain b h where h: "slice_get xs 0 = Some b" "hardage b = Some h" "h \<le> length xs" "from_utf8_ok (take h xs)"
    "IndexedSigCode_from_hard (take h xs) = Inr c"
    using c(1) by (auto simp: Indexer_read_code_def Let_def)
  have "length (take h xs) = xz_hs (get_xizage c)"
    using from_hard_Inr[OF h(5)] xizage_ok[of c] by (simp add: str_bytes_def)
  then have hs: "h = xz_hs (get_xizage c)" using h(3) by simp
  have n1: "xz_fs (get_xizage c) = XizageSize.Fixed n"
    using c(2) xizage_ok[of c] by (auto simp: IndexedSigCode_frame_size_of_def Let_def)
  then have "xz_hs (get_xizage c) \<le> n" by (cases c) (auto simp: get_xizage_def Xizage_new_def)
  then have n: "xz_fs (get_xizage c) = XizageSize.Fixed n" "h \<le> n" "0 < n"
    using n1 hs xz_hs_pos[of c] by auto
  have "take h (take n xs) = take h xs" using n(2) by (simp add: min_absorb1)
  moreover have "slice_get (take n xs) 0 = Some b" using h(1) n(3) by (cases xs) (auto simp: slice_get_def)
  ultimately have "Indexer_read_code (take n xs) = Inr c" using h n(2) by (simp add: Indexer_read_code_def Let_def)
  then show "indexer_size (take n xs) = Inr n"
    using c(3) n(1) by (simp add: indexer_size_Inr IndexedSigCode_frame_size_def IndexedSigCode_frame_size_of_def Let_def)
qed

lemma exact_sizes: "\<forall>f \<in> set fs. sizer f \<and> exact f \<Longrightarrow> exact (sizes fs)"
proof (induction fs)
  case Nil
  show ?case by (simp add: exact_def)
next
  case (Cons f fs)
  then have f: "sizer f" "exact f" and fs: "exact (sizes fs)" by auto
  show ?case unfolding exact_def
  proof (intro allI impI)
    fix xs n assume l: "length xs < usize_bound" and "sizes (f # fs) xs = Inr n"
    then obtain k m where k: "f xs = Inr k" "sizes fs (drop k xs) = Inr m" "n = k + m" by auto
    have "f (take n xs) = Inr k" using exact_take[OF f(2) sizer_settled[OF f(1)] l k(1)] k(3) by simp
    moreover have "sizes fs (take m (drop k xs)) = Inr m" using exactD[OF fs _ k(2)] l by simp
    ultimately show "sizes (f # fs) (take n xs) = Inr n" using k(3) by (simp add: drop_take)
  qed
qed

context counter_table
begin

lemma counter_head_take:
  assumes "length xs < usize_bound" "counter_head xs = Inr ((c, n), k)" "k \<le> m"
  shows "counter_head (take m xs) = Inr ((c, n), k)"
proof -
  obtain rest where r: "unat n < 64 ^ soft_size c" "k = full_size c" "xs = counter_wire as_str soft_size c n @ rest"
    using assms counter_head_iff by blast
  then have "take m xs = counter_wire as_str soft_size c n @ take (m - k) rest"
    using assms(3) by (simp add: length_counter_wire)
  moreover have "length (take m xs) < usize_bound" using assms(1) by auto
  ultimately show ?thesis using r(1,2) counter_head_iff by blast
qed

end

lemma count_head_take:
  assumes l: "length xs < usize_bound" and h: "count_head c v xs = Inr (n, k)" and k: "k \<le> m"
  shows "count_head c v (take m xs) = Inr (n, k)"
proof (cases v)
  case V1
  then have "v1.counter_head xs = Inr ((CounterCodeV1.ControllerIdxSigs, n), k)"
    using h by (auto simp: count_head_V1 split: if_splits)
  from v1.counter_head_take[OF l this k] show ?thesis using V1 by (simp add: count_head_V1)
next
  case V2
  then have "v2.counter_head xs = Inr ((CounterCodeV2.ControllerIdxSigs, n), k)"
    using h by (auto simp: count_head_V2 split: if_splits)
  from v2.counter_head_take[OF l this k] show ?thesis using V2 by (simp add: count_head_V2)
qed

lemma exact_nested_size: "exact (nested_size c v)"
  unfolding exact_def
proof (intro allI impI)
  fix xs N assume l: "length xs < usize_bound" and "nested_size c v xs = Inr N"
  then obtain n count k m where n: "sizes (replicate (ns_matters_left c) matter_size) xs = Inr n"
    "count_head c v (drop n xs) = Inr (count, k)"
    "sizes (replicate (unat count) indexer_size) (drop k (drop n xs)) = Inr m" "N = n + (k + m)"
    by (auto elim: nested_size_split)
  have ok: "exact (sizes (replicate i matter_size))" "exact (sizes (replicate i indexer_size))"
    "settled (sizes (replicate i matter_size))" for i
    by (auto intro!: exact_sizes settled_sizes_list simp: exact_matter_size exact_indexer_size)
  have t: "drop n (take N xs) = take (k + m) (drop n xs)" "drop k (take (k + m) (drop n xs)) = take m (drop k (drop n xs))"
    using n(4) by (simp_all add: drop_take)
  have f1: "sizes (replicate (ns_matters_left c) matter_size) (take N xs) = Inr n"
    by (rule exact_take[OF ok(1,3) l n(1)]) (simp add: n(4))
  have f2: "count_head c v (take (k + m) (drop n xs)) = Inr (count, k)"
    by (rule count_head_take[OF _ n(2)]) (use l in simp_all)
  have f3: "sizes (replicate (unat count) indexer_size) (take m (drop k (drop n xs))) = Inr m"
    by (rule exactD[OF ok(2) _ n(3)]) (use l in simp)
  have "nested_size c v (take N xs) = Inr (n + (k + m))"
    unfolding nested_size_def by (simp add: t f1 f2 f3 del: drop_drop)
  then show "nested_size c v (take N xs) = Inr N" using n(4) by simp
qed

locale exact_grammar = group_grammar +
  assumes skip_exact: "exact (\<lambda>xs. skip xs v)"
begin

lemma span_settled: "settled (\<lambda>xs. span k xs v)"
proof (induction k)
  case 0
  show ?case by (rule settledI) simp_all
next
  case (Suc k)
  let ?f = "\<lambda>xs. if length xs < usize_bound then skip xs v else Inl (NeedBytes 0)"
  have f: "settled ?f" using skip_settled[of v] unfolding settled_def by auto
  have g: "settled (\<lambda>ys. res_bind (span k ys v) (\<lambda>m. Inr (n + m)))" for n by (rule settled_map[OF Suc])
  have b: "?f xs = Inr n \<Longrightarrow> n \<le> length xs" for xs n using skip_bound by (auto split: if_splits)
  show ?case by (rule settled_cong[OF _ settled_bind[OF f g b]]) simp
qed

lemma span_exact: "exact (\<lambda>xs. span k xs v)"
proof (induction k)
  case 0
  show ?case by (simp add: exact_def)
next
  case (Suc k)
  show ?case unfolding exact_def
  proof (intro allI impI)
    fix xs n assume l: "length xs < usize_bound" and "span (Suc k) xs v = Inr n"
    then obtain a m where a: "skip xs v = Inr a" "span k (drop a xs) v = Inr m" "n = a + m" by auto
    have "skip (take n xs) v = Inr a" using exact_take[OF skip_exact skip_settled l a(1)] a(3) by simp
    moreover have "span k (take m (drop a xs)) v = Inr m" using exactD[OF Suc _ a(2)] l by simp
    ultimately show "span (Suc k) (take n xs) v = Inr n" using a(3) by (simp add: drop_take)
  qed
qed

end

interpretation kind: exact_grammar "GroupKind_skip k" "GroupKind_element dec k" for k dec
proof
  fix v
  show "exact (\<lambda>xs. GroupKind_skip k xs v)" unfolding exact_def
  proof (intro allI impI)
    fix xs n assume l: "length xs < usize_bound" and s: "GroupKind_skip k xs v = Inr n"
    have l': "length (take n xs) < usize_bound" using l by auto
    show "GroupKind_skip k (take n xs) v = Inr n"
    proof (cases "kind_cursor k")
      case None
      have ok: "\<forall>f \<in> set (kind_sizers k). sizer f \<and> exact f"
        using exact_matter_size exact_indexer_size by (cases k) auto
      note e = GroupKind_skip_plain[OF l None] GroupKind_skip_plain[OF l' None]
      show ?thesis unfolding e(2) by (rule exactD[OF exact_sizes[OF ok] l s[unfolded e(1)]])
    next
      case (Some c)
      note e = GroupKind_skip_nested[OF l Some] GroupKind_skip_nested[OF l' Some]
      show ?thesis unfolding e(2) by (rule exactD[OF exact_nested_size l s[unfolded e(1)]])
    qed
  qed
qed

end
