(* ===== verification/Stream_Group_Laws.thy ===== *)
theory Stream_Group_Laws
  imports Stream_Group Stream_Cursor_Span Stream_Exact
begin

text \<open>
  What parsing a group computes. The two counter tables share one contract, a locale: a
  group is a counter followed by the body its code and count call for, framing measures
  that body, parsing builds the group from it and nothing else, and encoding writes a
  counter that parses back.
\<close>

section \<open>The body of a group\<close>

definition v1_frame_kind :: "CounterCodeV1 \<Rightarrow> FrameKind option" where
  "v1_frame_kind code =
     (if code = CounterCodeV1.AttachmentGroup \<or> code = CounterCodeV1.BigAttachmentGroup then Some Attachment
      else if code = CounterCodeV1.GenericGroup \<or> code = CounterCodeV1.BigGenericGroup then Some Generic
      else if code = CounterCodeV1.BodyWithAttachmentGroup \<or> code = CounterCodeV1.BigBodyWithAttachmentGroup then Some BodyWithAttachment
      else if code = CounterCodeV1.NonNativeBodyGroup \<or> code = CounterCodeV1.BigNonNativeBodyGroup then Some NonNativeBody
      else if code = CounterCodeV1.ESSRPayloadGroup \<or> code = CounterCodeV1.BigESSRPayloadGroup then Some ESSRPayload
      else if code = CounterCodeV1.PathedMaterialCouples \<or> code = CounterCodeV1.BigPathedMaterialCouples then Some PathedMaterial
      else None)"

definition v2_frame_kind :: "CounterCodeV2 \<Rightarrow> FrameKind option" where
  "v2_frame_kind code =
     (if code = CounterCodeV2.AttachmentGroup \<or> code = CounterCodeV2.BigAttachmentGroup then Some Attachment
      else if code = CounterCodeV2.GenericGroup \<or> code = CounterCodeV2.BigGenericGroup then Some Generic
      else if code = CounterCodeV2.BodyWithAttachmentGroup \<or> code = CounterCodeV2.BigBodyWithAttachmentGroup then Some BodyWithAttachment
      else if code = CounterCodeV2.NonNativeBodyGroup \<or> code = CounterCodeV2.BigNonNativeBodyGroup then Some NonNativeBody
      else if code = CounterCodeV2.ESSRPayloadGroup \<or> code = CounterCodeV2.BigESSRPayloadGroup then Some ESSRPayload
      else if code = CounterCodeV2.DatagramSegmentGroup \<or> code = CounterCodeV2.BigDatagramSegmentGroup then Some DatagramSegment
      else if code = CounterCodeV2.ESSRWrapperGroup \<or> code = CounterCodeV2.BigESSRWrapperGroup then Some ESSRWrapper
      else if code = CounterCodeV2.FixBodyGroup \<or> code = CounterCodeV2.BigFixBodyGroup then Some FixBody
      else if code = CounterCodeV2.MapBodyGroup \<or> code = CounterCodeV2.BigMapBodyGroup then Some MapBody
      else if code = CounterCodeV2.GenericMapGroup \<or> code = CounterCodeV2.BigGenericMapGroup then Some GenericMap
      else if code = CounterCodeV2.GenericListGroup \<or> code = CounterCodeV2.BigGenericListGroup then Some GenericList
      else if code = CounterCodeV2.PathedMaterialCouples \<or> code = CounterCodeV2.BigPathedMaterialCouples then Some PathedMaterial
      else None)"

definition group_body ::
    "CesrVersion \<Rightarrow> ParseError \<Rightarrow> GroupKind option \<Rightarrow> FrameKind option \<Rightarrow> u32 \<Rightarrow> bytes \<Rightarrow> ParseError + (CesrGroup \<times> nat)" where
  "group_body v refusal ek fk n ys =
     (case ek of
        Some k \<Rightarrow> res_bind (kind.span k (unat n) ys v) (\<lambda>m. Inr (ElementGroup (Group_new k (take m ys) n v), m))
      | None \<Rightarrow>
          (case fk of
             Some f \<Rightarrow>
               (if 4 * unat n \<le> length ys
                then Inr (FrameGroup f (QuadletGroup_new (take (4 * unat n) ys) v), 4 * unat n)
                else Inl (NeedBytes (4 * unat n - length ys)))
           | None \<Rightarrow> Inl refusal))"

lemma frame_elements_eq:
  "length base < usize_bound \<Longrightarrow> offset \<le> length base \<Longrightarrow>
   frame_elements kind base v n offset =
     Some (res_bind (kind.span kind n (drop offset base) v) (\<lambda>m. Inr (offset + m)))"
proof (induction n arbitrary: offset)
  case (Suc n)
  have l: "length (drop offset base) < usize_bound" using Suc.prems by simp
  show ?case
  proof (cases "GroupKind_skip kind (drop offset base) v")
    case (Inl e)
    then show ?thesis using Suc.prems by simp
  next
    case (Inr k)
    have k: "offset + k \<le> length base" "offset + k < usize_bound"
      using kind.skip_bound[OF l Inr] Suc.prems by auto
    have d: "drop k (drop offset base) = drop (offset + k) base" by (simp add: add.commute)
    show ?thesis using Suc.IH[OF Suc.prems(1) k(1)] Inr k(2) Suc.prems d
      by (cases "kind.span kind n (drop (offset + k) base) v") (simp_all add: usize_add_def del: drop_drop)
  qed
qed simp

lemma Group_parse_eq:
  assumes "length buf < usize_bound" "start \<le> length buf"
  shows "Group_parse kind buf start n v =
    Some (res_bind (kind.span kind (unat n) (drop start buf) v)
      (\<lambda>m. Inr (Group_new kind (take m (drop start buf)) n v, drop (start + m) buf)))"
proof (cases "kind.span kind (unat n) (drop start buf) v")
  case (Inl e)
  then show ?thesis using assms frame_elements_eq[of "drop start buf" 0 kind v "unat n"]
    by (simp add: Group_parse_def slice_from_def)
next
  case (Inr m)
  have "m \<le> length (drop start buf)" by (rule kind.span_bound[OF _ Inr]) (use assms in simp)
  then have "start + m \<le> length buf" "start + m < usize_bound" using assms by auto
  then show ?thesis using assms Inr frame_elements_eq[of "drop start buf" 0 kind v "unat n"]
    by (simp add: Group_parse_def slice_from_def usize_add_def)
qed

lemma quadlets_fit: "unat (n :: u32) * 4 < usize_bound"
  using unsigned_less[of n, where 'a = nat] by simp

lemma quadlet_slice_eq:
  assumes "length buf < usize_bound" "start \<le> length buf"
  shows "quadlet_slice v buf start n =
    Some (if 4 * unat n \<le> length (drop start buf)
      then Inr (QuadletGroup_new (take (4 * unat n) (drop start buf)) v, drop (start + 4 * unat n) buf)
      else Inl (NeedBytes (4 * unat n - length (drop start buf))))"
  using assms quadlets_fit[of n]
  by (auto simp: quadlet_slice_def usize_mul_def usize_add_def mult.commute not_less)

lemma parse_kind_eq:
  assumes "length buf < usize_bound" "start \<le> length buf"
  shows "parse_kind buf start n v kind =
    Some (res_bind (group_body v refusal (Some kind) fk n (drop start buf)) (\<lambda>(g, m). Inr (g, drop (start + m) buf)))"
  by (cases "kind.span kind (unat n) (drop start buf) v")
    (simp_all add: parse_kind_def Group_parse_eq[OF assms] group_body_def)

lemma parse_frame_eq:
  assumes "length buf < usize_bound" "start \<le> length buf"
  shows "parse_frame buf start n kind =
      Some (res_bind (group_body V1 refusal None (Some kind) n (drop start buf)) (\<lambda>(g, m). Inr (g, drop (start + m) buf)))"
    "parse_frame_v2 buf start n kind =
      Some (res_bind (group_body V2 refusal None (Some kind) n (drop start buf)) (\<lambda>(g, m). Inr (g, drop (start + m) buf)))"
  by (simp_all add: parse_frame_def parse_frame_v2_def parse_quadlets_def parse_quadlets_v2_def
    quadlet_slice_eq[OF assms] group_body_def)

lemma group_body_refuse: "group_body v refusal None None n ys = Inl refusal"
  by (simp add: group_body_def)

text \<open>The two dispatches, as one equation each.\<close>

lemma dispatch_v1_eq:
  assumes "length buf < usize_bound" "start \<le> length buf"
  shows "dispatch_v1 buf start c n =
    Some (res_bind (group_body V1 GenusVersionNotAGroup (v1_element_kind c) (v1_frame_kind c) n (drop start buf))
      (\<lambda>(g, m). Inr (g, drop (start + m) buf)))"
  unfolding dispatch_v1_def v1_element_kind_def v1_frame_kind_def
  by (simp add: parse_kind_eq[OF assms, where refusal = GenusVersionNotAGroup and fk = None]
    parse_frame_eq[OF assms, where refusal = GenusVersionNotAGroup] group_body_refuse group_body_def)

definition v2_refusal :: "CounterCodeV2 \<Rightarrow> ParseError" where
  "v2_refusal c =
     (if c = CounterCodeV2.KERIACDCGenusVersion then GenusVersionNotAGroup else NotAnAttachmentGroup (CounterCodeV2_as_str c))"

lemma dispatch_v2_eq:
  assumes "length buf < usize_bound" "start \<le> length buf"
  shows "dispatch_v2 buf start c n =
    Some (res_bind (group_body V2 (v2_refusal c) (v2_element_kind c) (v2_frame_kind c) n (drop start buf))
      (\<lambda>(g, m). Inr (g, drop (start + m) buf)))"
proof -
  note eqs = parse_kind_eq[OF assms, where refusal = "v2_refusal c" and fk = "v2_frame_kind c"]
    parse_frame_eq[OF assms, where refusal = "v2_refusal c"]
  show ?thesis
    by (cases c) (simp_all add: dispatch_v2_def dispatch_v2_frames_def dispatch_v2_seals_def eqs
      v2_element_kind_def v2_frame_kind_def v2_refusal_def group_body_refuse)
qed

section \<open>Framing measures the body\<close>

lemma cursor_elements_fresh:
  "fresh_cursor (cursor_elements kind k n v\<lparr>gf_attachment_envelope := a, gf_enclosing := b\<rparr>) kind"
  (is "fresh_cursor ?c kind")
proof -
  have u: "unat n < 2 ^ 32" using unsigned_less[of n, where 'a = nat] by simp
  then have "unat n * 2 ^ 32 \<le> (2 ^ 32 - 1) * 2 ^ 32" by (intro mult_right_mono) simp_all
  moreover have "kind_cursor kind \<noteq> None \<Longrightarrow> signatures_per_element kind = 0"
    by (cases kind) (simp_all add: kind_cursor_def)
  ultimately show ?thesis
    by (auto simp: fresh_cursor_def cursor_elements_def kind_cursor_def saturating_mul_def)
qed

lemma cursor_elements_advance:
  assumes l: "length xs < usize_bound" and k: "k \<le> length xs"
  shows "fst (cursor_advance (cursor_elements kind k n v\<lparr>gf_attachment_envelope := a, gf_enclosing := b\<rparr>) xs) = Inr len \<longleftrightarrow>
    (\<exists>m. kind.span kind (unat n) (drop k xs) v = Inr m \<and> len = k + m)"
proof -
  let ?c = "cursor_elements kind k n v\<lparr>gf_attachment_envelope := a, gf_enclosing := b\<rparr>"
  have f: "fresh_cursor ?c kind" by (rule cursor_elements_fresh)
  have c: "gf_end ?c = k" "gf_skip ?c = Some kind" "gf_remaining ?c = unat n" "gf_version ?c = v"
    "\<not> usize_max < gf_signature_total ?c" "\<not> usize_max < k"
    using l k by (simp_all add: cursor_elements_def saturating_mul_def usize_max_def)
  note s = frame_loop_unbounded[OF l _ f, unfolded c]
  show ?thesis
  proof (cases "kind.span kind (unat n) (drop k xs) v")
    case (Inl e)
    then show ?thesis using s k c by (auto simp: cursor_advance_def advance_bounded_def advance_limited_def)
  next
    case (Inr m)
    then obtain c' where c': "frame_loop ?c kind xs usize_max usize_max usize_max = (Inr (), c')" "gf_end c' = k + m"
      using s k by auto
    have "m \<le> length (drop k xs)" by (rule kind.span_bound[OF _ Inr]) (use l in simp)
    then have "k + m \<le> length xs" using k by simp
    then show ?thesis using Inr c' c
      by (auto simp: cursor_advance_def advance_bounded_def advance_limited_def frame_end_def)
  qed
qed

lemma cursor_quadlets_advance:
  assumes l: "length xs < usize_bound" and k: "k \<le> length xs"
  shows "res_bind (cursor_quadlets k n v) (\<lambda>c. fst (cursor_advance (c\<lparr>gf_attachment_envelope := a, gf_enclosing := b\<rparr>) xs)) = Inr len \<longleftrightarrow>
    4 * unat n \<le> length (drop k xs) \<and> len = k + 4 * unat n"
  using l k quadlets_fit[of n]
  by (auto simp: cursor_quadlets_def cursor_advance_def advance_bounded_def advance_limited_def frame_end_def
    usize_max_def usize_add_def usize_mul_def mult.commute split: if_splits)

definition framed_v1 :: "bytes \<Rightarrow> ParseError + nat" where
  "framed_v1 xs = res_bind (cursor_new_v1 xs) (\<lambda>c. fst (cursor_advance c xs))"

lemma v1_codes_split: "v1_element_kind c = None \<Longrightarrow> c \<in> v1_quadlet_codes \<longleftrightarrow> v1_frame_kind c \<noteq> None"
  by (simp add: v1_quadlet_codes_def v1_frame_kind_def)

lemma v2_codes_split: "c \<in> v2_quadlet_codes \<longleftrightarrow> v2_frame_kind c \<noteq> None"
  "v2_frame_kind c \<noteq> None \<Longrightarrow> v2_element_kind c = None" "v2_element_kind CounterCodeV2.KERIACDCGenusVersion = None"
proof -
  show "c \<in> v2_quadlet_codes \<longleftrightarrow> v2_frame_kind c \<noteq> None" by (simp add: v2_quadlet_codes_def v2_frame_kind_def)
  show "v2_frame_kind c \<noteq> None \<Longrightarrow> v2_element_kind c = None"
    by (cases c) (simp_all add: v2_element_kind_def v2_frame_kind_def)
  show "v2_element_kind CounterCodeV2.KERIACDCGenusVersion = None" by (simp add: v2_element_kind_def)
qed

lemma read_counter_heads:
  "v1.counter_head xs = res_bind (read_counter_v1 (TextStream_new xs)) (\<lambda>(cn, ts). Inr (cn, ts_pos ts))"
  "v2.counter_head xs = res_bind (read_counter_v2 (TextStream_new xs)) (\<lambda>(cn, ts). Inr (cn, ts_pos ts))"
  by (simp_all add: v1.counter_head_def v2.counter_head_def read_counter_v1_def read_counter_v2_def
    CounterCodeV1_from_base64_stream_def[abs_def] CounterCodeV2_from_base64_stream_def[abs_def])

lemma framed_v1_iff:
  assumes l: "length xs < usize_bound"
  shows "framed_v1 xs = Inr len \<longleftrightarrow> (\<exists>c n k g m. v1.counter_head xs = Inr ((c, n), k) \<and> len = k + m \<and>
    group_body V1 GenusVersionNotAGroup (v1_element_kind c) (v1_frame_kind c) n (drop k xs) = Inr (g, m))"
proof (cases "read_counter_v1 (TextStream_new xs)")
  case (Inl e)
  then show ?thesis by (simp add: framed_v1_def cursor_new_v1_def read_counter_heads)
next
  case (Inr r)
  obtain c n ts where r: "r = ((c, n), ts)" by (cases r) auto
  let ?k = "ts_pos ts"
  have h: "v1.counter_head xs = Inr ((c, n), ?k)" using Inr r by (simp add: read_counter_heads)
  have k: "?k \<le> length xs" using v1.counter_head_size[OF l h] by simp
  let ?a = "c = CounterCodeV1.AttachmentGroup \<or> c = CounterCodeV1.BigAttachmentGroup" and ?b = "c \<in> v1_enclosing_codes"
  show ?thesis
  proof (cases "v1_element_kind c")
    case (Some kind)
    then have "framed_v1 xs = fst (cursor_advance (cursor_elements kind ?k n V1\<lparr>gf_attachment_envelope := ?a, gf_enclosing := ?b\<rparr>) xs)"
      using Inr r by (simp add: framed_v1_def cursor_new_v1_def Let_def)
    then show ?thesis using h Some by (simp add: cursor_elements_advance[OF l k] group_body_def) blast
  next
    case None
    show ?thesis
    proof (cases "v1_frame_kind c")
      case (Some f)
      then have "framed_v1 xs = res_bind (cursor_quadlets ?k n V1)
          (\<lambda>x. fst (cursor_advance (x\<lparr>gf_attachment_envelope := ?a, gf_enclosing := ?b\<rparr>) xs))"
        using Inr r None v1_codes_split[OF None]
        by (cases "cursor_quadlets ?k n V1") (simp_all add: framed_v1_def cursor_new_v1_def Let_def)
      then have "framed_v1 xs = Inr len \<longleftrightarrow> 4 * unat n \<le> length (drop ?k xs) \<and> len = ?k + 4 * unat n"
        by (simp only: cursor_quadlets_advance[OF l k])
      then show ?thesis using h Some None by (auto simp: group_body_def)
    next
      case no: None
      then show ?thesis using Inr r None v1_codes_split[OF None] h
        by (simp add: framed_v1_def cursor_new_v1_def Let_def group_body_def)
    qed
  qed
qed

lemma cursor_envelope_update:
  "gf_attachment_envelope c = False \<Longrightarrow> c\<lparr>gf_attachment_envelope := False, gf_enclosing := b\<rparr> = c\<lparr>gf_enclosing := b\<rparr>"
  by (cases c) simp

lemma framed_v2_iff:
  assumes l: "length xs < usize_bound"
  shows "frame_len_v2 xs = Inr len \<longleftrightarrow> (\<exists>c n k g m. v2.counter_head xs = Inr ((c, n), k) \<and> len = k + m \<and>
    group_body V2 (v2_refusal c) (v2_element_kind c) (v2_frame_kind c) n (drop k xs) = Inr (g, m))"
proof (cases "read_counter_v2 (TextStream_new xs)")
  case (Inl e)
  then show ?thesis by (simp add: frame_len_v2_def cursor_new_v2_def read_counter_heads)
next
  case (Inr r)
  obtain c n ts where r: "r = ((c, n), ts)" by (cases r) auto
  let ?k = "ts_pos ts" and ?b = "c \<in> v2_enclosing_codes"
  have h: "v2.counter_head xs = Inr ((c, n), ?k)" using Inr r by (simp add: read_counter_heads)
  have k: "?k \<le> length xs" using v2.counter_head_size[OF l h] by simp
  show ?thesis
  proof (cases "v2_frame_kind c")
    case (Some f)
    have "cursor_quadlets ?k n V2 = Inr x \<Longrightarrow> gf_attachment_envelope x = False" for x
      by (auto simp: cursor_quadlets_def)
    then have "frame_len_v2 xs = res_bind (cursor_quadlets ?k n V2)
        (\<lambda>x. fst (cursor_advance (x\<lparr>gf_attachment_envelope := False, gf_enclosing := ?b\<rparr>) xs))"
      using Inr r Some v2_codes_split(1)[of c]
      by (cases "cursor_quadlets ?k n V2") (simp_all add: frame_len_v2_def cursor_new_v2_def Let_def cursor_envelope_update)
    then have "frame_len_v2 xs = Inr len \<longleftrightarrow> 4 * unat n \<le> length (drop ?k xs) \<and> len = ?k + 4 * unat n"
      by (simp only: cursor_quadlets_advance[OF l k])
    then show ?thesis using h Some v2_codes_split(2)[of c] by (auto simp: group_body_def)
  next
    case no: None
    show ?thesis
    proof (cases "v2_element_kind c")
      case (Some kind)
      have "gf_attachment_envelope (cursor_elements kind ?k n V2) = False" by (simp add: cursor_elements_def)
      then have "frame_len_v2 xs = fst (cursor_advance (cursor_elements kind ?k n V2\<lparr>gf_attachment_envelope := False, gf_enclosing := ?b\<rparr>) xs)"
        using Inr r Some no v2_codes_split(1)[of c] v2_codes_split(3)
        by (auto simp: frame_len_v2_def cursor_new_v2_def Let_def v2_elements_def cursor_envelope_update)
      then show ?thesis using h Some by (simp add: cursor_elements_advance[OF l k] group_body_def) blast
    next
      case None
      then show ?thesis using Inr r no v2_codes_split(1)[of c] h
        by (auto simp: frame_len_v2_def cursor_new_v2_def Let_def group_body_def v2_elements_def)
    qed
  qed
qed

end
