(* ===== verification/Stream_Group_Table.thy ===== *)
theory Stream_Group_Table
  imports Stream_Group_Laws
begin

text \<open>
  The contract of a counter table with its groups, as a locale over \<^verbatim>\<open>counter_table\<close>:
  parsing never panics, is stable under more input and local to its own bytes, and writing a
  group gives bytes that parse back to it. The tables of both versions are interpretations.
\<close>

section \<open>The body\<close>

lemma body_bound:
  assumes "group_body v e ek fk n ys = Inr (g, m)" "length ys < usize_bound"
  shows "m \<le> length ys"
  using assms kind.span_bound[OF assms(2)]
  by (auto simp: group_body_def split: option.splits if_splits)

lemma body_append:
  assumes l: "length (ys @ zs) < usize_bound" and b: "group_body v e ek fk n ys = Inr (g, m)"
  shows "group_body v e ek fk n (ys @ zs) = Inr (g, m)"
proof (cases ek)
  case None
  then show ?thesis using b by (auto simp: group_body_def split: option.splits if_splits)
next
  case (Some k)
  then obtain g: "kind.span k (unat n) ys v = Inr m" "g = ElementGroup (Group_new k (take m ys) n v)"
    using b by (auto simp: group_body_def)
  have "m \<le> length ys" by (rule body_bound[OF b]) (use l in simp)
  then show ?thesis using Some g kind.span_append[OF l g(1)] by (simp add: group_body_def)
qed

lemma body_take:
  assumes l: "length ys < usize_bound" and b: "group_body v e ek fk n ys = Inr (g, m)" and j: "m \<le> j"
  shows "group_body v e ek fk n (take j ys) = Inr (g, m)"
proof (cases ek)
  case None
  then show ?thesis using b j by (auto simp: group_body_def min_absorb1 split: option.splits if_splits)
next
  case (Some k)
  then obtain g: "kind.span k (unat n) ys v = Inr m" "g = ElementGroup (Group_new k (take m ys) n v)"
    using b by (auto simp: group_body_def)
  have "kind.span k (unat n) (take j ys) v = Inr m"
    by (rule exact_take[OF kind.span_exact kind.span_settled l g(1) j])
  then show ?thesis using Some g j by (simp add: group_body_def min_absorb1)
qed

text \<open>A group that is its own body: what parsing gives and writing takes.\<close>

primrec group_raw :: "CesrGroup \<Rightarrow> bytes" where
  "group_raw (ElementGroup g) = gr_raw g"
| "group_raw (FrameGroup k q) = q_input q"

primrec group_count :: "CesrGroup \<Rightarrow> nat" where
  "group_count (ElementGroup g) = unat (gr_count g)"
| "group_count (FrameGroup k q) = length (q_input q) div 4"

primrec group_ok :: "CesrVersion \<Rightarrow> CesrGroup \<Rightarrow> bool" where
  "group_ok v (ElementGroup g) \<longleftrightarrow> gr_version g = v \<and>
     kind.span (gr_kind g) (unat (gr_count g)) (gr_raw g) v = Inr (length (gr_raw g))"
| "group_ok v (FrameGroup k q) \<longleftrightarrow>
     (\<exists>n :: u32. length (q_input q) = 4 * unat n) \<and> q = QuadletGroup_new (q_input q) v"

lemma body_group:
  assumes "length ys < usize_bound" "group_body v e ek fk n ys = Inr (g, m)"
  shows "group_raw g = take m ys" "group_ok v g" "group_count g = unat n" "m \<le> length ys"
proof -
  show m: "m \<le> length ys" by (rule body_bound[OF assms(2,1)])
  have "group_raw g = take m ys \<and> group_ok v g \<and> group_count g = unat n"
  proof (cases ek)
    case None
    then show ?thesis using assms
      by (auto simp: group_body_def QuadletGroup_new_def min_absorb1 split: option.splits if_splits)
  next
    case (Some k)
    then obtain g: "kind.span k (unat n) ys v = Inr m" "g = ElementGroup (Group_new k (take m ys) n v)"
      using assms by (auto simp: group_body_def)
    have "kind.span k (unat n) (take m ys) v = Inr m" by (rule exactD[OF kind.span_exact assms(1) g(1)])
    then show ?thesis using g m by (simp add: Group_new_def)
  qed
  then show "group_raw g = take m ys" "group_ok v g" "group_count g = unat n" by simp_all
qed

section \<open>The contract\<close>

locale group_table = counter_table +
  fixes version :: CesrVersion and element_kind :: "'a \<Rightarrow> GroupKind option" and frame_kind :: "'a \<Rightarrow> FrameKind option"
    and kind_code :: "GroupKind \<Rightarrow> 'a option" and frame_code :: "FrameKind \<Rightarrow> 'a option"
    and refusal :: "'a \<Rightarrow> ParseError"
    and parse :: "bytes \<Rightarrow> (ParseError + (CesrGroup \<times> bytes)) option"
    and encode :: "CesrGroup \<Rightarrow> bytes \<Rightarrow> ParseError + bytes"
  assumes parse_total: "length xs < usize_bound \<Longrightarrow> parse xs \<noteq> None"
    and parse_iff: "length xs < usize_bound \<Longrightarrow> parse xs = Some (Inr (g, rest)) \<longleftrightarrow>
      (\<exists>c n k m. counter_head xs = Inr ((c, n), k) \<and> rest = drop (k + m) xs \<and>
        group_body version (refusal c) (element_kind c) (frame_kind c) n (drop k xs) = Inr (g, m))"
    and encode_element: "kind_code (gr_kind e) = Some c \<Longrightarrow> encode (ElementGroup e) dst =
      res_bind (encode_count_into as_str soft_size c (gr_count e) dst) (\<lambda>dst. Inr (dst @ gr_raw e))"
    and encode_frame: "frame_code f = Some c \<Longrightarrow> encode (FrameGroup f q) dst =
      res_bind (frame_quadlet_count (q_input q)) (\<lambda>n.
      res_bind (encode_count_into as_str soft_size c n dst) (\<lambda>dst. Inr (dst @ q_input q)))"
    and kind_code_sound: "kind_code k = Some c \<Longrightarrow> element_kind c = Some k \<and> soft_size c = 2"
    and frame_code_sound: "frame_code f = Some c \<Longrightarrow> element_kind c = None \<and> frame_kind c = Some f \<and> soft_size c = 2"
    and kind_code_total: "element_kind c = Some k \<Longrightarrow> kind_code k \<noteq> None"
    and frame_code_total: "frame_kind c = Some f \<Longrightarrow> frame_code f \<noteq> None"
begin

text \<open>A group stands at the head of the input, with the raw bytes it keeps.\<close>

lemma parse_shape:
  assumes l: "length xs < usize_bound" and p: "parse xs = Some (Inr (g, rest))"
  obtains h where "xs = h @ group_raw g @ rest" "4 \<le> length h" "group_ok version g"
proof -
  obtain c n k m where c: "counter_head xs = Inr ((c, n), k)" "rest = drop (k + m) xs"
    "group_body version (refusal c) (element_kind c) (frame_kind c) n (drop k xs) = Inr (g, m)"
    using p parse_iff[OF l] by blast
  have k: "4 \<le> k \<and> k \<le> length xs" by (rule counter_head_size[OF l c(1)])
  have l': "length (drop k xs) < usize_bound" using l by simp
  note b = body_group[OF l' c(3)]
  have "drop k xs = group_raw g @ rest" using b(1) c(2) append_take_drop_id[of m "drop k xs"] by (simp add: add.commute)
  then have "xs = take k xs @ group_raw g @ rest" by (metis append_take_drop_id)
  then show ?thesis using that[of "take k xs"] k b(2) by simp
qed

lemma parse_append:
  assumes l: "length (xs @ ys) < usize_bound" and p: "parse xs = Some (Inr (g, rest))"
  shows "parse (xs @ ys) = Some (Inr (g, rest @ ys))"
proof -
  have lx: "length xs < usize_bound" using l by simp
  obtain c n k m where c: "counter_head xs = Inr ((c, n), k)" "rest = drop (k + m) xs"
    "group_body version (refusal c) (element_kind c) (frame_kind c) n (drop k xs) = Inr (g, m)"
    using p parse_iff[OF lx] by blast
  have k: "k \<le> length xs" using counter_head_size[OF lx c(1)] by simp
  have "m \<le> length (drop k xs)" by (rule body_bound[OF c(3)]) (use lx in simp)
  then have m: "k + m \<le> length xs" using k by simp
  have "counter_head (xs @ ys) = Inr ((c, n), k)" by (rule settled_Inr[OF settled_counter_head l c(1)])
  moreover have "group_body version (refusal c) (element_kind c) (frame_kind c) n (drop k xs @ ys) = Inr (g, m)"
    by (rule body_append[OF _ c(3)]) (use l in simp)
  ultimately show ?thesis using parse_iff[OF l] c(2) k m by (intro iffD2[OF parse_iff[OF l]]) (auto intro!: exI)
qed

lemma parse_take:
  assumes l: "length xs < usize_bound" and p: "parse xs = Some (Inr (g, rest))" and n: "length xs - length rest \<le> n" "n \<le> length xs"
  shows "parse (take n xs) = Some (Inr (g, take (n - (length xs - length rest)) rest))"
proof -
  obtain c i k m where c: "counter_head xs = Inr ((c, i), k)" "rest = drop (k + m) xs"
    "group_body version (refusal c) (element_kind c) (frame_kind c) i (drop k xs) = Inr (g, m)"
    using p parse_iff[OF l] by blast
  have lt: "length (take n xs) < usize_bound" "length (drop k xs) < usize_bound" using l by auto
  have k: "k \<le> length xs" using counter_head_size[OF l c(1)] by simp
  have "m \<le> length (drop k xs)" by (rule body_bound[OF c(3) lt(2)])
  then have m: "k + m \<le> length xs" using k by simp
  then have r: "length xs - length rest = k + m" using c(2) by simp
  then have km: "k \<le> n" "m \<le> n - k" using n by auto
  have "counter_head (take n xs) = Inr ((c, i), k)" by (rule counter_head_take[OF l c(1) km(1)])
  moreover have "group_body version (refusal c) (element_kind c) (frame_kind c) i (take (n - k) (drop k xs)) = Inr (g, m)"
    by (rule body_take[OF lt(2) c(3) km(2)])
  ultimately show ?thesis unfolding parse_iff[OF lt(1)] r using c(2)
    by (intro exI[of _ c] exI[of _ i] exI[of _ k] exI[of _ m]) (simp add: drop_take)
qed

text \<open>Writing: the counter of the family's own code, then the raw bytes.\<close>

lemma encode_parse:
  assumes e: "encode g [] = Inr w" and ok: "group_ok version g" and l: "length (w @ ys) < usize_bound"
    and code: "\<And>e. g = ElementGroup e \<Longrightarrow> kind_code (gr_kind e) \<noteq> None" "\<And>f q. g = FrameGroup f q \<Longrightarrow> frame_code f \<noteq> None"
  shows "parse (w @ ys) = Some (Inr (g, ys))"
proof -
  obtain c n where c: "w = counter_wire as_str soft_size c n @ group_raw g" "unat n < 64 ^ soft_size c"
    "group_body version (refusal c) (element_kind c) (frame_kind c) n (group_raw g) = Inr (g, length (group_raw g))"
  proof (cases g)
    case (ElementGroup x)
    then obtain c where "kind_code (gr_kind x) = Some c" using code(1) by blast
    then show ?thesis using that[of c "gr_count x"] e ok ElementGroup kind_code_sound encode_element[of x c "[]"]
      by (auto simp: encode_count_eq group_body_def Group_new_def split: if_splits)
  next
    case (FrameGroup f q)
    then obtain c where c: "frame_code f = Some c" using code(2) by blast
    obtain n :: u32 where n: "length (q_input q) = 4 * unat n" "q = QuadletGroup_new (q_input q) version"
      using ok FrameGroup by auto
    have "frame_quadlet_count (q_input q) = Inr n"
      using unsigned_less[of n, where 'a = nat] by (simp add: frame_quadlet_count_def n(1))
    then show ?thesis using that[of c n] e n FrameGroup frame_code_sound[OF c] encode_frame[OF c, of q "[]"]
      by (auto simp: encode_count_eq group_body_def split: if_splits)
  qed
  let ?w = "counter_wire as_str soft_size c n"
  have "counter_head (w @ ys) = Inr ((c, n), full_size c)" using counter_head_iff[OF l] c(1,2) by auto
  moreover have "drop (full_size c) (w @ ys) = group_raw g @ ys" using c(1) by (simp add: length_counter_wire)
  moreover have "group_body version (refusal c) (element_kind c) (frame_kind c) n (group_raw g @ ys) = Inr (g, length (group_raw g))"
    by (rule body_append[OF _ c(3)]) (use l c(1) in simp)
  moreover have "drop (full_size c + length (group_raw g)) (w @ ys) = ys" using c(1) by (simp add: length_counter_wire)
  ultimately show ?thesis unfolding parse_iff[OF l]
    by (intro exI[of _ c] exI[of _ n] exI[of _ "full_size c"] exI[of _ "length (group_raw g)"]) simp
qed

lemma parse_coded:
  assumes l: "length xs < usize_bound" and p: "parse xs = Some (Inr (g, rest))"
  shows "g = ElementGroup e \<Longrightarrow> kind_code (gr_kind e) \<noteq> None" "g = FrameGroup f q \<Longrightarrow> frame_code f \<noteq> None"
proof -
  obtain c i k m where c: "group_body version (refusal c) (element_kind c) (frame_kind c) i (drop k xs) = Inr (g, m)"
    using p parse_iff[OF l] by blast
  show "g = ElementGroup e \<Longrightarrow> kind_code (gr_kind e) \<noteq> None"
    using c kind_code_total[of c] by (auto simp: group_body_def Group_new_def split: option.splits if_splits)
  show "g = FrameGroup f q \<Longrightarrow> frame_code f \<noteq> None"
    using c frame_code_total[of c] by (auto simp: group_body_def split: option.splits if_splits)
qed

text \<open>A parsed group is refused by the writer only for a count its small code cannot carry.\<close>

lemma parse_encode:
  assumes l: "length xs < usize_bound" and p: "parse xs = Some (Inr (g, rest))"
  shows "if group_count g < 4096 then \<exists>w. encode g [] = Inr w \<and> (\<forall>ys. length (w @ ys) < usize_bound \<longrightarrow> parse (w @ ys) = Some (Inr (g, ys)))
    else \<exists>n cap. encode g [] = Inl (CountExceedsCapacity n cap)"
proof -
  obtain h where ok: "group_ok version g" using parse_shape[OF l p] by blast
  have cap: "(64 :: nat) ^ 2 = 4096" by simp
  have "if group_count g < 4096 then \<exists>w. encode g [] = Inr w else \<exists>n cap. encode g [] = Inl (CountExceedsCapacity n cap)"
  proof (cases g)
    case (ElementGroup x)
    then obtain c where "kind_code (gr_kind x) = Some c" using parse_coded(1)[OF l p] by blast
    then show ?thesis using ElementGroup kind_code_sound[of "gr_kind x" c] encode_element[of x c "[]"]
      by (simp add: encode_count_eq cap)
  next
    case (FrameGroup f q)
    then obtain c where c: "frame_code f = Some c" using parse_coded(2)[OF l p] by blast
    obtain n :: u32 where n: "length (q_input q) = 4 * unat n" using ok FrameGroup by auto
    have "frame_quadlet_count (q_input q) = Inr n"
      using unsigned_less[of n, where 'a = nat] by (simp add: frame_quadlet_count_def n)
    then show ?thesis using FrameGroup n frame_code_sound[OF c] encode_frame[OF c, of q "[]"]
      by (simp add: encode_count_eq cap)
  qed
  then show ?thesis using encode_parse[OF _ ok _ parse_coded[OF l p]] by auto
qed

end

end
