(* ===== verification/Stream_Group_Tables.thy ===== *)
theory Stream_Group_Tables
  imports Stream_Group_Table
begin

text \<open>
  The group tables of both versions satisfy the contract, for the public parsers and for the
  inner ones over shared buffers; iterating a stream of groups and the elements of a group;
  the round trip of a list of indexed signatures.
\<close>

section \<open>The parsers\<close>

lemma parse_bytes_eq:
  assumes l: "length xs < usize_bound"
  shows "parse_bytes xs = Some (res_bind (v1.counter_head xs) (\<lambda>((c, n), k).
      res_bind (group_body V1 GenusVersionNotAGroup (v1_element_kind c) (v1_frame_kind c) n (drop k xs))
        (\<lambda>(g, m). Inr (g, drop (k + m) xs))))"
    "parse_bytes_v2 xs = Some (res_bind (v2.counter_head xs) (\<lambda>((c, n), k).
      res_bind (group_body V2 (v2_refusal c) (v2_element_kind c) (v2_frame_kind c) n (drop k xs))
        (\<lambda>(g, m). Inr (g, drop (k + m) xs))))"
proof -
  show "parse_bytes xs = Some (res_bind (v1.counter_head xs) (\<lambda>((c, n), k).
      res_bind (group_body V1 GenusVersionNotAGroup (v1_element_kind c) (v1_frame_kind c) n (drop k xs))
        (\<lambda>(g, m). Inr (g, drop (k + m) xs))))"
  proof (cases "read_counter_v1 (TextStream_new xs)")
    case (Inr r)
    obtain c n ts where r: "r = ((c, n), ts)" by (cases r) auto
    have h: "v1.counter_head xs = Inr ((c, n), ts_pos ts)" using Inr r by (simp add: read_counter_heads)
    have k: "ts_pos ts \<le> length xs" using v1.counter_head_size[OF l h] by simp
    then have "ts_pos ts < usize_bound" using l by simp
    then show ?thesis using Inr r h dispatch_v1_eq[OF l k, of c n]
      by (simp add: parse_bytes_def parse_bytes_at_def slice_from_def usize_add_def)
  qed (simp add: parse_bytes_def parse_bytes_at_def slice_from_def read_counter_heads)
  show "parse_bytes_v2 xs = Some (res_bind (v2.counter_head xs) (\<lambda>((c, n), k).
      res_bind (group_body V2 (v2_refusal c) (v2_element_kind c) (v2_frame_kind c) n (drop k xs))
        (\<lambda>(g, m). Inr (g, drop (k + m) xs))))"
  proof (cases "read_counter_v2 (TextStream_new xs)")
    case (Inr r)
    obtain c n ts where r: "r = ((c, n), ts)" by (cases r) auto
    have h: "v2.counter_head xs = Inr ((c, n), ts_pos ts)" using Inr r by (simp add: read_counter_heads)
    have k: "ts_pos ts \<le> length xs" using v2.counter_head_size[OF l h] by simp
    then have "ts_pos ts < usize_bound" using l by simp
    then show ?thesis using Inr r h dispatch_v2_eq[OF l k, of c n]
      by (simp add: parse_bytes_v2_def parse_bytes_v2_at_def slice_from_def usize_add_def)
  qed (simp add: parse_bytes_v2_def parse_bytes_v2_at_def slice_from_def read_counter_heads)
qed

lemma parse_bytes_iff:
  assumes l: "length xs < usize_bound"
  shows "parse_bytes xs = Some (Inr (g, rest)) \<longleftrightarrow> (\<exists>c n k m. v1.counter_head xs = Inr ((c, n), k) \<and> rest = drop (k + m) xs \<and>
      group_body V1 GenusVersionNotAGroup (v1_element_kind c) (v1_frame_kind c) n (drop k xs) = Inr (g, m))"
    "parse_bytes_v2 xs = Some (Inr (g, rest)) \<longleftrightarrow> (\<exists>c n k m. v2.counter_head xs = Inr ((c, n), k) \<and> rest = drop (k + m) xs \<and>
      group_body V2 (v2_refusal c) (v2_element_kind c) (v2_frame_kind c) n (drop k xs) = Inr (g, m))"
  by (auto simp: parse_bytes_eq[OF l])

lemma v1_kind_code: "GroupKind_CODE_V1 k = Some c \<Longrightarrow> v1_element_kind c = Some k \<and> CounterCodeV1_soft_size c = 2"
  by (cases k) (auto simp: v1_element_kind_def CounterCodeV1_soft_size_def CounterCodeV1_bigs_def)

lemma v1_frame_code: "FrameKind_CODE_V1 f = Some c \<Longrightarrow>
    v1_element_kind c = None \<and> v1_frame_kind c = Some f \<and> CounterCodeV1_soft_size c = 2"
  by (cases f) (auto simp: v1_element_kind_def v1_frame_kind_def CounterCodeV1_soft_size_def CounterCodeV1_bigs_def)

lemma v1_codes_total: "v1_element_kind c = Some k \<Longrightarrow> GroupKind_CODE_V1 k \<noteq> None"
  "v1_frame_kind c = Some f \<Longrightarrow> FrameKind_CODE_V1 f \<noteq> None"
  by (auto simp: v1_element_kind_def v1_frame_kind_def split: if_splits)

lemma v2_kind_code: "v2_element_kind (GroupKind_CODE_V2 k) = Some k \<and> CounterCodeV2_soft_size (GroupKind_CODE_V2 k) = 2"
  by (cases k) (auto simp: v2_element_kind_def CounterCodeV2_soft_size_def CounterCodeV2_bigs_def)

lemma v2_frame_code: "v2_element_kind (FrameKind_CODE_V2 f) = None \<and> v2_frame_kind (FrameKind_CODE_V2 f) = Some f \<and>
    CounterCodeV2_soft_size (FrameKind_CODE_V2 f) = 2"
  by (cases f) (auto simp: v2_element_kind_def v2_frame_kind_def CounterCodeV2_soft_size_def CounterCodeV2_bigs_def)

lemmas encode_defs = Group_encode_V1_def Frame_encode_V1_def Group_encode_V2_def Frame_encode_V2_def
  CounterCodeV1_encode_count_into_def CounterCodeV2_encode_count_into_def

interpretation b1: group_table CounterCodeV1_as_str CounterCodeV1_from_hard CounterCodeV1_hard_size CounterCodeV1_soft_size
  CounterCodeV1_full_size CounterCodeV1_to_big V1 v1_element_kind v1_frame_kind GroupKind_CODE_V1 FrameKind_CODE_V1
  "\<lambda>_. GenusVersionNotAGroup" parse_bytes CesrGroup_encode_V1
  by unfold_locales
    (auto simp: parse_bytes_eq(1) encode_defs v1_kind_code v1_frame_code v1_codes_total intro: parse_bytes_iff(1))

interpretation b2: group_table CounterCodeV2_as_str CounterCodeV2_from_hard CounterCodeV2_hard_size CounterCodeV2_soft_size
  CounterCodeV2_full_size CounterCodeV2_to_big V2 v2_element_kind v2_frame_kind "\<lambda>k. Some (GroupKind_CODE_V2 k)" "\<lambda>f. Some (FrameKind_CODE_V2 f)"
  v2_refusal parse_bytes_v2 CesrGroup_encode_V2
  by unfold_locales (auto simp: parse_bytes_eq(2) encode_defs v2_kind_code v2_frame_code)

text \<open>The public parsers copy the framed bytes and parse the copy.\<close>

lemma v1_head_letters:
  assumes "length xs < usize_bound" "v1.counter_head xs = Inr ((c, n), k)"
  shows "take 2 xs = str_bytes ''-A'' \<longleftrightarrow> c = CounterCodeV1.ControllerIdxSigs"
    "take 2 xs = str_bytes ''-B'' \<longleftrightarrow> c = CounterCodeV1.WitnessIdxSigs"
proof -
  obtain rest where "xs = counter_wire CounterCodeV1_as_str CounterCodeV1_soft_size c n @ rest"
    using assms v1.counter_head_iff by blast
  then have t: "take 2 xs = take 2 (str_bytes (CounterCodeV1_as_str c))"
    using v1.sizes[of c] v1.str_size[of c] by (auto simp: counter_wire_def str_bytes_def)
  show "take 2 xs = str_bytes ''-A'' \<longleftrightarrow> c = CounterCodeV1.ControllerIdxSigs"
    "take 2 xs = str_bytes ''-B'' \<longleftrightarrow> c = CounterCodeV1.WitnessIdxSigs"
    unfolding t by (cases c; simp add: str_bytes_def)+
qed

lemma cursor_new_v1_head:
  assumes "cursor_new_v1 xs = Inr cur" "v1.counter_head xs = Inr ((c, n), k)" "v1_element_kind c = Some kind"
  shows "gf_end cur = k \<and> gf_count cur = n"
  using assms by (auto simp: cursor_new_v1_def Let_def read_counter_heads cursor_elements_def)

lemma CesrGroup_parse_bytes:
  assumes l: "length xs < usize_bound"
  shows "CesrGroup_parse xs \<noteq> None" "CesrGroup_parse xs = Some (Inr r) \<longleftrightarrow> parse_bytes xs = Some (Inr r)"
proof -
  have "CesrGroup_parse xs \<noteq> None \<and> (CesrGroup_parse xs = Some (Inr r) \<longleftrightarrow> parse_bytes xs = Some (Inr r))"
  proof (cases "framed_v1 xs")
    case (Inl e)
    then have "CesrGroup_parse xs = Some (Inl e)"
      by (cases "cursor_new_v1 xs") (simp_all add: CesrGroup_parse_def framed_v1_def Let_def)
    moreover have "parse_bytes xs \<noteq> Some (Inr r)"
      using framed_v1_iff[OF l] Inl parse_bytes_iff(1)[OF l, of "fst r" "snd r"] by (metis prod.collapse sum.distinct(1))
    ultimately show ?thesis by simp
  next
    case (Inr len)
    then obtain c n k g m where c: "v1.counter_head xs = Inr ((c, n), k)" "len = k + m"
      "group_body V1 GenusVersionNotAGroup (v1_element_kind c) (v1_frame_kind c) n (drop k xs) = Inr (g, m)"
      using framed_v1_iff[OF l] by blast
    have p: "parse_bytes xs = Some (Inr (g, drop len xs))" using c by (simp add: parse_bytes_eq[OF l])
    obtain cur where cur: "cursor_new_v1 xs = Inr cur" "fst (cursor_advance cur xs) = Inr len"
      using Inr by (auto simp: framed_v1_def)
    have "k \<le> length xs" using v1.counter_head_size[OF l c(1)] by simp
    moreover have "m \<le> length (drop k xs)" by (rule body_bound[OF c(3)]) (use l in simp)
    ultimately have m: "len \<le> length xs" "k \<le> len" using c(2) by simp_all
    have "CesrGroup_parse xs = Some (Inr (g, drop len xs))"
    proof (cases "c = CounterCodeV1.ControllerIdxSigs \<or> c = CounterCodeV1.WitnessIdxSigs")
      case True
      then have e: "v1_element_kind c = Some (if c = CounterCodeV1.ControllerIdxSigs then ControllerIdxSig else WitnessIdxSig)"
        by (auto simp: v1_element_kind_def)
      then have g: "g = ElementGroup (Group_new (if c = CounterCodeV1.ControllerIdxSigs then ControllerIdxSig else WitnessIdxSig) (take m (drop k xs)) n V1)"
        using c(3) by (auto simp: group_body_def)
      show ?thesis
        using True cur m g c(2) v1_head_letters[OF l c(1)] cursor_new_v1_head[OF cur(1) c(1) e]
        by (auto simp: CesrGroup_parse_def Let_def)
    next
      case False
      then have h: "take 2 xs \<noteq> str_bytes ''-A''" "take 2 xs \<noteq> str_bytes ''-B''" using v1_head_letters[OF l c(1)] by simp_all
      have "length xs - length (drop len xs) = len" using m by simp
      then have "parse_bytes (take len xs) = Some (Inr (g, []))"
        using b1.parse_take[OF l p, of len] m by simp
      then show ?thesis using h cur m by (simp add: CesrGroup_parse_def Let_def)
    qed
    then show ?thesis using p by auto
  qed
  then show "CesrGroup_parse xs \<noteq> None" "CesrGroup_parse xs = Some (Inr r) \<longleftrightarrow> parse_bytes xs = Some (Inr r)" by blast+
qed

lemma CesrGroup_parse_v2_bytes:
  assumes l: "length xs < usize_bound"
  shows "CesrGroup_parse_v2 xs \<noteq> None" "CesrGroup_parse_v2 xs = Some (Inr r) \<longleftrightarrow> parse_bytes_v2 xs = Some (Inr r)"
proof -
  have "CesrGroup_parse_v2 xs \<noteq> None \<and> (CesrGroup_parse_v2 xs = Some (Inr r) \<longleftrightarrow> parse_bytes_v2 xs = Some (Inr r))"
  proof (cases "frame_len_v2 xs")
    case (Inl e)
    have "parse_bytes_v2 xs \<noteq> Some (Inr r)"
      using framed_v2_iff[OF l] Inl parse_bytes_iff(2)[OF l, of "fst r" "snd r"] by (metis prod.collapse sum.distinct(1))
    then show ?thesis using Inl by (simp add: CesrGroup_parse_v2_def)
  next
    case (Inr len)
    then obtain c n k g m where c: "v2.counter_head xs = Inr ((c, n), k)" "len = k + m"
      "group_body V2 (v2_refusal c) (v2_element_kind c) (v2_frame_kind c) n (drop k xs) = Inr (g, m)"
      using framed_v2_iff[OF l] by blast
    have p: "parse_bytes_v2 xs = Some (Inr (g, drop len xs))" using c by (simp add: parse_bytes_eq[OF l])
    have "k \<le> length xs" using v2.counter_head_size[OF l c(1)] by simp
    moreover have "m \<le> length (drop k xs)" by (rule body_bound[OF c(3)]) (use l in simp)
    ultimately have m: "len \<le> length xs" using c(2) by simp
    have "length xs - length (drop len xs) = len" using m by simp
    then have "parse_bytes_v2 (take len xs) = Some (Inr (g, []))"
      using b2.parse_take[OF l p, of len] m by simp
    then show ?thesis using p m Inr by (auto simp: CesrGroup_parse_v2_def)
  qed
  then show "CesrGroup_parse_v2 xs \<noteq> None" "CesrGroup_parse_v2 xs = Some (Inr r) \<longleftrightarrow> parse_bytes_v2 xs = Some (Inr r)" by blast+
qed

interpretation g1: group_table CounterCodeV1_as_str CounterCodeV1_from_hard CounterCodeV1_hard_size CounterCodeV1_soft_size
  CounterCodeV1_full_size CounterCodeV1_to_big V1 v1_element_kind v1_frame_kind GroupKind_CODE_V1 FrameKind_CODE_V1
  "\<lambda>_. GenusVersionNotAGroup" CesrGroup_parse CesrGroup_encode_V1
  by unfold_locales
    (simp_all only: CesrGroup_parse_bytes b1.parse_iff b1.encode_element b1.encode_frame b1.kind_code_sound
      b1.frame_code_sound b1.kind_code_total b1.frame_code_total not_False_eq_True simp_thms)

interpretation g2: group_table CounterCodeV2_as_str CounterCodeV2_from_hard CounterCodeV2_hard_size CounterCodeV2_soft_size
  CounterCodeV2_full_size CounterCodeV2_to_big V2 v2_element_kind v2_frame_kind "\<lambda>k. Some (GroupKind_CODE_V2 k)" "\<lambda>f. Some (FrameKind_CODE_V2 f)"
  v2_refusal CesrGroup_parse_v2 CesrGroup_encode_V2
  by unfold_locales (auto simp: CesrGroup_parse_v2_bytes b2.parse_iff encode_defs v2_kind_code v2_frame_code)

end
