(* ===== verification/Stream_Unwrap.thy ===== *)
theory Stream_Unwrap
  imports Stream_Group_Tables
begin

text \<open>
  \<^verbatim>\<open>group/unwrap.rs\<close>: the lazy unwrapping of a generic group into its constituent groups,
  with genus-version switching. The loop of \<^verbatim>\<open>next\<close> is a partial function, so that a call
  that panicked or did not return would be None; the main lemma is that it always returns,
  with a strictly smaller rest.
\<close>

definition MAX_DEPTH :: nat where
  "MAX_DEPTH = 8"

record UnwrapGeneric =
  uw_stack :: "(CesrVersion \<times> bytes \<times> nat) list"
  uw_version :: CesrVersion
  uw_data :: bytes
  uw_depth :: nat
  uw_done :: bool

definition unwrap_generic :: "QuadletGroup \<Rightarrow> CesrVersion \<Rightarrow> UnwrapGeneric" where
  "unwrap_generic q version =
     \<lparr>uw_stack = [], uw_version = version, uw_data = q_input q, uw_depth = 0, uw_done = False\<rparr>"

definition decode_genus_version :: "bytes \<Rightarrow> ParseError + CesrVersion" where
  "decode_genus_version soft =
     res_bind (ensure (from_utf8_ok soft) (InvalidUtf8 ''genus version'')) (\<lambda>_.
     res_bind (map_err parse_error_of_base64 (decode_int soft)) (\<lambda>value :: u32.
     let major = drop_bit 12 value in
     if major = 1 then Inr V1 else if major = 2 then Inr V2 else Inl (UnsupportedGenusVersion major)))"

definition check_genus_version_offset :: "bytes \<Rightarrow> CesrVersion \<Rightarrow> ParseError + (CesrVersion \<times> nat)" where
  "check_genus_version_offset input dflt =
     (if take 2 input = str_bytes ''-_'' \<and> length input < 8 then Inl (NeedBytes (8 - length input))
      else if length input < 8 then Inr (dflt, 0)
      else if input ! 0 = of_char CHR ''-'' \<and> input ! 1 = of_char CHR ''_'' then
        (case read_counter_v2 (TextStream_new input) of
           Inr ((code, _), ts) \<Rightarrow>
             (if code = CounterCodeV2.KERIACDCGenusVersion then
                (let genus_size = ts_pos ts; soft_bytes = take 3 (drop 5 input) in
                 res_bind (decode_genus_version soft_bytes) (\<lambda>version. Inr (version, genus_size)))
              else Inr (dflt, 0))
         | Inl _ \<Rightarrow> Inr (dflt, 0))
      else Inr (dflt, 0))"

partial_function (option) unwrap_next_loop ::
    "UnwrapGeneric \<Rightarrow> ((ParseError + CesrGroup) option \<times> UnwrapGeneric) option" where
  "unwrap_next_loop u =
     (if uw_data u = [] then
        (case uw_stack u of
           (prev_version, prev_data, prev_depth) # stack \<Rightarrow>
             unwrap_next_loop (u\<lparr>uw_stack := stack, uw_version := prev_version, uw_data := prev_data, uw_depth := prev_depth\<rparr>)
         | [] \<Rightarrow> Some (None, u\<lparr>uw_done := True\<rparr>))
      else
        Option.bind (case uw_version u of V1 \<Rightarrow> parse_bytes (uw_data u) | V2 \<Rightarrow> parse_bytes_v2 (uw_data u)) (\<lambda>parsed.
        case parsed of
          Inl e \<Rightarrow> Some (Some (Inl e), u\<lparr>uw_done := True\<rparr>)
        | Inr (g, rest) \<Rightarrow>
            (case g of
               FrameGroup kind q \<Rightarrow>
                 (if kind = Generic then
                    (if MAX_DEPTH \<le> uw_depth u then Some (Some (Inl (DepthExceeded MAX_DEPTH)), u\<lparr>uw_done := True\<rparr>)
                     else
                       (case check_genus_version_offset (q_input q) (uw_version u) of
                          Inl e \<Rightarrow> Some (Some (Inl e), u\<lparr>uw_done := True\<rparr>)
                        | Inr (inner_version, genus_size) \<Rightarrow>
                            Option.bind (slice_from (q_input q) genus_size) (\<lambda>inner_bytes.
                            unwrap_next_loop (u\<lparr>
                              uw_stack := (if rest \<noteq> [] then (uw_version u, rest, uw_depth u) # uw_stack u else uw_stack u),
                              uw_version := inner_version, uw_data := inner_bytes, uw_depth := uw_depth u + 1\<rparr>))))
                  else Some (Some (Inr g), u\<lparr>uw_data := rest\<rparr>))
             | ElementGroup _ \<Rightarrow> Some (Some (Inr g), u\<lparr>uw_data := rest\<rparr>))))"

definition UnwrapGeneric_next :: "UnwrapGeneric \<Rightarrow> ((ParseError + CesrGroup) option \<times> UnwrapGeneric) option" where
  "UnwrapGeneric_next u = (if uw_done u then Some (None, u) else unwrap_next_loop u)"

section \<open>The genus selector\<close>

lemma check_genus_bound:
  assumes l: "length xs < usize_bound" and c: "check_genus_version_offset xs d = Inr (v, n)"
  shows "n \<le> length xs"
proof -
  have "read_counter_v2 (TextStream_new xs) = Inr ((c, k), ts) \<Longrightarrow> ts_pos ts \<le> length xs" for c k ts
    using v2.counter_head_size[OF l, of "(c, k)" "ts_pos ts"] by (simp add: read_counter_heads)
  then show ?thesis using c
    by (auto simp: check_genus_version_offset_def Let_def split: if_splits sum.splits)
qed

section \<open>Termination\<close>

text \<open>The bytes still to be unwrapped, and the states with indices in range.\<close>

definition unwrap_left :: "UnwrapGeneric \<Rightarrow> nat" where
  "unwrap_left u = length (uw_data u) + sum_list (map (\<lambda>(v, d, k). length d) (uw_stack u))"

definition unwrap_ok :: "UnwrapGeneric \<Rightarrow> bool" where
  "unwrap_ok u \<longleftrightarrow> unwrap_left u < usize_bound \<and> uw_depth u \<le> MAX_DEPTH \<and>
     list_all (\<lambda>(v, d, k). k \<le> MAX_DEPTH) (uw_stack u)"

text \<open>
  One call: it returns; a group it yields is not a generic group and leaves fewer bytes, an
  error or the end closes the iterator.
\<close>

definition unwrap_result :: "UnwrapGeneric \<Rightarrow> ((ParseError + CesrGroup) option \<times> UnwrapGeneric) option \<Rightarrow> bool" where
  "unwrap_result u out \<longleftrightarrow>
     (\<exists>item u'. out = Some (item, u') \<and> unwrap_ok u' \<and>
        (case item of
           Some (Inr g) \<Rightarrow> (\<forall>q. g \<noteq> FrameGroup Generic q) \<and> unwrap_left u' < unwrap_left u
         | _ \<Rightarrow> uw_done u'))"

lemma unwrap_result_mono:
  assumes r: "unwrap_result v out" and l: "unwrap_left v \<le> unwrap_left u"
  shows "unwrap_result u out"
proof -
  obtain item u' where "out = Some (item, u')" "unwrap_ok u'"
    "case item of Some (Inr g) \<Rightarrow> (\<forall>q. g \<noteq> FrameGroup Generic q) \<and> unwrap_left u' < unwrap_left v | _ \<Rightarrow> uw_done u'"
    using r by (auto simp: unwrap_result_def)
  then show ?thesis using l by (auto simp: unwrap_result_def split: option.splits sum.splits)
qed

lemma unwrap_next_loop_total:
  "unwrap_ok u \<Longrightarrow> unwrap_result u (unwrap_next_loop u)"
proof (induction u rule: measure_induct_rule[of "\<lambda>u. unwrap_left u + length (uw_stack u)"])
  case (less u)
  note ok = less.prems
  show ?case
  proof (cases "uw_data u = []")
    case True
    show ?thesis
    proof (cases "uw_stack u")
      case Nil
      then show ?thesis using True ok
        by (simp add: unwrap_next_loop.simps[of u] unwrap_result_def unwrap_ok_def unwrap_left_def)
    next
      case (Cons top stack)
      obtain v d k where top: "top = (v, d, k)" by (cases top)
      let ?u = "u\<lparr>uw_stack := stack, uw_version := v, uw_data := d, uw_depth := k\<rparr>"
      have dec: "unwrap_left ?u + length (uw_stack ?u) < unwrap_left u + length (uw_stack u)"
        and "unwrap_ok ?u" and eq: "unwrap_left ?u = unwrap_left u"
        using ok True Cons top by (simp_all add: unwrap_ok_def unwrap_left_def)
      then have "unwrap_result ?u (unwrap_next_loop ?u)" using less.IH by blast
      moreover have "unwrap_next_loop u = unwrap_next_loop ?u" using True Cons top by (simp add: unwrap_next_loop.simps[of u])
      ultimately show ?thesis using unwrap_result_mono[of ?u _ u] eq by simp
    qed
  next
    case False
    let ?d = "uw_data u"
    let ?p = "case uw_version u of V1 \<Rightarrow> parse_bytes ?d | V2 \<Rightarrow> parse_bytes_v2 ?d"
    have l: "length ?d < usize_bound" using ok by (simp add: unwrap_ok_def unwrap_left_def)
    have "?p \<noteq> None" using b1.parse_total[OF l] b2.parse_total[OF l] by (cases "uw_version u") simp_all
    then obtain parsed where p: "?p = Some parsed" by blast
    show ?thesis
    proof (cases parsed)
      case (Inl e)
      then show ?thesis using False ok p
        by (simp add: unwrap_next_loop.simps[of u] unwrap_result_def unwrap_ok_def unwrap_left_def)
    next
      case (Inr gr)
      obtain g rest where gr: "gr = (g, rest)" by (cases gr)
      have shape: "\<exists>h. ?d = h @ group_raw g @ rest \<and> 4 \<le> length h"
      proof (cases "uw_version u")
        case V1
        then have "parse_bytes ?d = Some (Inr (g, rest))" using p Inr gr by simp
        then show ?thesis by (rule b1.parse_shape[OF l]) blast
      next
        case V2
        then have "parse_bytes_v2 ?d = Some (Inr (g, rest))" using p Inr gr by simp
        then show ?thesis by (rule b2.parse_shape[OF l]) blast
      qed
      then have len: "length (group_raw g) + length rest + 4 \<le> length ?d" by auto
      have yield: "unwrap_result u (Some (Some (Inr g), u\<lparr>uw_data := rest\<rparr>))" if "\<And>q. g \<noteq> FrameGroup Generic q"
        using that ok len by (simp add: unwrap_result_def unwrap_ok_def unwrap_left_def)
      show ?thesis
      proof (cases "\<exists>q. g = FrameGroup Generic q")
        case no: False
        then have "unwrap_next_loop u = Some (Some (Inr g), u\<lparr>uw_data := rest\<rparr>)"
          using False p Inr gr by (simp add: unwrap_next_loop.simps[of u] split: CesrGroup.splits)
        then show ?thesis using yield no by simp
      next
        case True
        then obtain q where q: "g = FrameGroup Generic q" by blast
        show ?thesis
        proof (cases "MAX_DEPTH \<le> uw_depth u")
          case True
          then show ?thesis using False ok p Inr gr q
            by (simp add: unwrap_next_loop.simps[of u] unwrap_result_def unwrap_ok_def unwrap_left_def)
        next
          case depth: False
          show ?thesis
          proof (cases "check_genus_version_offset (q_input q) (uw_version u)")
            case (Inl e)
            then show ?thesis using False ok p Inr gr q depth \<open>parsed = Inr gr\<close>
              by (simp add: unwrap_next_loop.simps[of u] unwrap_result_def unwrap_ok_def unwrap_left_def)
          next
            case (Inr vn)
            obtain v n where vn: "vn = (v, n)" by (cases vn)
            have "length (q_input q) < usize_bound" using len q l by simp
            then have n: "n \<le> length (q_input q)" by (rule check_genus_bound) (use Inr vn in simp)
            let ?u = "u\<lparr>uw_stack := (if rest \<noteq> [] then (uw_version u, rest, uw_depth u) # uw_stack u else uw_stack u),
              uw_version := v, uw_data := drop n (q_input q), uw_depth := uw_depth u + 1\<rparr>"
            have "unwrap_left ?u + 4 \<le> unwrap_left u" using len q by (auto simp: unwrap_left_def)
            moreover have "length (uw_stack ?u) \<le> length (uw_stack u) + 1" by simp
            ultimately have dec: "unwrap_left ?u + length (uw_stack ?u) < unwrap_left u + length (uw_stack u)"
              "unwrap_left ?u < unwrap_left u" by linarith+
            have "unwrap_ok ?u" using ok depth dec(2) by (simp add: unwrap_ok_def)
            moreover have "unwrap_next_loop u = unwrap_next_loop ?u"
              using False p \<open>parsed = Inr gr\<close> gr q depth Inr vn n
              by (simp add: unwrap_next_loop.simps[of u] slice_from_def)
            ultimately show ?thesis using less.IH[OF dec(1)] unwrap_result_mono[of ?u _ u] dec(2) by simp
          qed
        qed
      qed
    qed
  qed
qed

text \<open>The first \<^verbatim>\<open>n\<close> items, and whether the iterator ended within them; None is a panic or divergence.\<close>

primrec unwrap_items :: "nat \<Rightarrow> UnwrapGeneric \<Rightarrow> ((ParseError + CesrGroup) list \<times> bool) option" where
  "unwrap_items 0 u = Some ([], False)"
| "unwrap_items (Suc n) u =
     (case UnwrapGeneric_next u of
        None \<Rightarrow> None
      | Some (None, _) \<Rightarrow> Some ([], True)
      | Some (Some item, u) \<Rightarrow> map_option (\<lambda>(items, ended). (item # items, ended)) (unwrap_items n u))"

lemma unwrap_items_total:
  "unwrap_ok u \<Longrightarrow> unwrap_left u + 2 \<le> n \<Longrightarrow>
   \<exists>items. unwrap_items n u = Some (items, True) \<and> (\<forall>item \<in> set (butlast items). is_ok item) \<and>
     (\<forall>q. Inr (FrameGroup Generic q) \<notin> set items)"
proof (induction n arbitrary: u)
  case (Suc n)
  show ?case
  proof (cases "uw_done u")
    case True
    then show ?thesis by (simp add: UnwrapGeneric_next_def)
  next
    case False
    then have nx: "UnwrapGeneric_next u = unwrap_next_loop u" by (simp add: UnwrapGeneric_next_def)
    obtain item u' where o: "unwrap_next_loop u = Some (item, u')" "unwrap_ok u'"
      "case item of Some (Inr g) \<Rightarrow> (\<forall>q. g \<noteq> FrameGroup Generic q) \<and> unwrap_left u' < unwrap_left u | _ \<Rightarrow> uw_done u'"
      using unwrap_next_loop_total[OF Suc.prems(1)] by (auto simp: unwrap_result_def)
    show ?thesis
    proof (cases item)
      case None
      then show ?thesis using nx o by simp
    next
      case (Some r)
      show ?thesis
      proof (cases r)
        case (Inl e)
        obtain m where "n = Suc m" using Suc.prems(2) by (cases n) auto
        then show ?thesis using nx o Some Inl by (simp add: UnwrapGeneric_next_def)
      next
        case (Inr g)
        then have "unwrap_left u' + 2 \<le> n" using o(3) Some Suc.prems(2) by simp
        then obtain items where "unwrap_items n u' = Some (items, True)" "\<forall>item \<in> set (butlast items). is_ok item"
          "\<forall>q. Inr (FrameGroup Generic q) \<notin> set items" using Suc.IH[OF o(2)] by blast
        then show ?thesis using nx o Some Inr by auto
      qed
    qed
  qed
qed simp

text \<open>
  C35: Unwrapping a generic group ends and never panics, whatever its payload: after at most
  as many items as the payload has bytes, and two calls more, the iterator has ended. Every
  item but the last is a group, and no item is itself a generic group.
\<close>

theorem unwrap_generic_total:
  assumes "length (q_input q) < usize_bound" "length (q_input q) + 2 \<le> n"
  shows "\<exists>items. unwrap_items n (unwrap_generic q v) = Some (items, True) \<and>
    (\<forall>item \<in> set (butlast items). is_ok item) \<and> (\<forall>r. Inr (FrameGroup Generic r) \<notin> set items)"
  by (rule unwrap_items_total)
    (use assms in \<open>simp_all add: unwrap_ok_def unwrap_left_def unwrap_generic_def\<close>)

lemma unwrap_generic_total_witness:
  "\<exists>items. unwrap_items 10 (unwrap_generic (QuadletGroup_new (str_bytes ''-AAA-AAA'') V1) V1) = Some (items, True)"
  using unwrap_generic_total[of "QuadletGroup_new (str_bytes ''-AAA-AAA'') V1" 10 V1]
  by (auto simp: QuadletGroup_new_def str_bytes_def)

end
