(* ===== verification/Stream_Message.thy ===== *)
theory Stream_Message
  imports Stream_Error
begin

text \<open>
  \<^verbatim>\<open>message.rs\<close>: finding the version string of a serialized body from its first bytes, and
  the event size it declares. JSON is scanned by a resumable state machine, CBOR and
  MessagePack by their length headers. The main lemmas say that a size once found does not
  change when more bytes arrive, and that the JSON scan resumes.
\<close>

section \<open>Binary heads\<close>

definition first_field_prefix :: "bytes \<Rightarrow> nat \<Rightarrow> bytes \<Rightarrow> ParseError + nat" where
  "first_field_prefix input start expected =
     res_bind (ok_or (NeedBytes 1) (slice_from input start)) (\<lambda>available.
     let compared = min (length available) (length expected) in
     if take compared available \<noteq> take compared expected then Inl MissingVersionString
     else if length available < length expected then Inl (NeedBytes (length expected - length available))
     else usize_add (Overflow EventSize) start (length expected))"

definition binary_map_header :: "ColdCode \<Rightarrow> byte \<Rightarrow> nat option" where
  "binary_map_header cold b =
     (case cold of
        Cbor \<Rightarrow>
          (if 0xa1 \<le> b \<and> b \<le> 0xb7 \<or> b = 0xbf then Some 1 else if b = 0xb8 then Some 2
           else if b = 0xb9 then Some 3 else if b = 0xba then Some 5 else if b = 0xbb then Some 9 else None)
      | MessagePack \<Rightarrow>
          (if 0x81 \<le> b \<and> b \<le> 0x8f then Some 1 else if b = 0xde then Some 3 else if b = 0xdf then Some 5 else None)
      | _ \<Rightarrow> None)"

definition binary_map_start :: "bytes \<Rightarrow> ColdCode \<Rightarrow> ParseError + nat" where
  "binary_map_start input cold =
     res_bind (ok_or (NeedBytes 1) (slice_get input 0)) (\<lambda>b.
     res_bind (ok_or MissingVersionString (binary_map_header cold b)) (\<lambda>header.
     res_bind (ok_or (NeedBytes (header - length input)) (slice_range input 0 header)) (\<lambda>head.
     if 1 < header \<and> list_all (\<lambda>b. b = 0) (drop 1 head) then Inl MissingVersionString else Inr header)))"

text \<open>A text header: its short length, and the width of its extended length.\<close>

definition binary_text_header :: "ColdCode \<Rightarrow> byte \<Rightarrow> (u64 \<times> nat) option" where
  "binary_text_header cold b =
     (case cold of
        Cbor \<Rightarrow>
          (if 0x60 \<le> b \<and> b \<le> 0x77 then Some (ucast (b - 0x60), 0) else if b = 0x78 then Some (0, 1)
           else if b = 0x79 then Some (0, 2) else if b = 0x7a then Some (0, 4) else if b = 0x7b then Some (0, 8) else None)
      | MessagePack \<Rightarrow>
          (if b = 0xd9 then Some (0, 1) else if b = 0xda then Some (0, 2) else if b = 0xdb then Some (0, 4)
           else if 0xa0 \<le> b \<and> b \<le> 0xbf then Some (ucast (b - 0xa0), 0) else None)
      | _ \<Rightarrow> None)"

definition binary_text_start :: "bytes \<Rightarrow> nat \<Rightarrow> ColdCode \<Rightarrow> nat \<Rightarrow> ParseError + nat" where
  "binary_text_start input start cold expected =
     res_bind (ok_or (NeedBytes 1) (slice_get input start)) (\<lambda>b.
     res_bind (ok_or MissingVersionString (binary_text_header cold b)) (\<lambda>(short_len, width).
     res_bind (usize_add (Overflow EventSize) start (1 + width)) (\<lambda>end.
     res_bind (if width = 0 then Inr short_len
               else res_bind (ok_or (NeedBytes (end - length input)) (slice_range input (start + 1) end)) (\<lambda>header.
                    Inr (foldl (\<lambda>len byte. push_bit 8 len OR ucast byte) 0 header))) (\<lambda>len.
     if len \<noteq> word_of_nat expected then Inl MissingVersionString else Inr end))))"

definition binary_version_offset :: "bytes \<Rightarrow> ColdCode \<Rightarrow> ParseError + nat" where
  "binary_version_offset input cold =
     res_bind (binary_map_start input cold) (\<lambda>start.
     res_bind (binary_text_start input start cold 1) (\<lambda>key_start.
     res_bind (first_field_prefix input key_start (str_bytes ''v'')) (\<lambda>value_start.
     binary_text_start input value_start cold VERSION_STRING_LEN)))"

section \<open>The JSON head\<close>

datatype JsonHeadState = BeforeKey | KeyV | KeyClose | BeforeColon | BeforeValue | Complete

record JsonVersionHead =
  jh_offset :: nat
  jh_state :: JsonHeadState

definition JsonVersionHead_new :: JsonVersionHead where
  "JsonVersionHead_new = \<lparr>jh_offset = 1, jh_state = BeforeKey\<rparr>"

definition is_json_whitespace :: "byte \<Rightarrow> bool" where
  "is_json_whitespace b \<longleftrightarrow> b = 0x20 \<or> b = 0x09 \<or> b = 0x0a \<or> b = 0x0d"

definition json_step :: "JsonHeadState \<Rightarrow> byte \<Rightarrow> JsonHeadState option" where
  "json_step state b =
     (if state = BeforeKey \<and> b = 0x22 then Some KeyV
      else if state = KeyV \<and> b = of_char CHR ''v'' then Some KeyClose
      else if state = KeyClose \<and> b = 0x22 then Some BeforeColon
      else if state = BeforeColon \<and> b = of_char CHR '':'' then Some BeforeValue
      else if state = BeforeValue \<and> b = 0x22 then Some Complete
      else if state \<in> {BeforeKey, BeforeColon, BeforeValue} \<and> is_json_whitespace b then Some state
      else None)"

function json_head_loop :: "JsonVersionHead \<Rightarrow> bytes \<Rightarrow> (ParseError + nat) \<times> JsonVersionHead" where
  "json_head_loop h input =
     (if jh_state h = Complete then (Inr (jh_offset h), h)
      else case slice_get input (jh_offset h) of
             None \<Rightarrow> (Inl (NeedBytes 1), h)
           | Some b \<Rightarrow>
               (case json_step (jh_state h) b of
                  None \<Rightarrow> (Inl MissingVersionString, h)
                | Some state \<Rightarrow>
                    (case usize_add (Overflow EventSize) (jh_offset h) 1 of
                       Inl e \<Rightarrow> (Inl e, h\<lparr>jh_state := state\<rparr>)
                     | Inr offset \<Rightarrow> json_head_loop (h\<lparr>jh_state := state, jh_offset := offset\<rparr>) input)))"
  by pat_completeness auto
termination
  by (relation "measure (\<lambda>(h, input). length input - jh_offset h)") (auto simp: slice_get_def split: if_splits)

declare json_head_loop.simps [simp del]

definition json_head_advance :: "JsonVersionHead \<Rightarrow> bytes \<Rightarrow> (ParseError + nat) \<times> JsonVersionHead" where
  "json_head_advance h input =
     (if length input < jh_offset h then (Inl (Truncated (jh_offset h - length input)), h)
      else json_head_loop h input)"

section \<open>The event size\<close>

text \<open>The head of a version 2 string that is not complete yet.\<close>

definition partial_v2_head :: "bytes \<Rightarrow> bool" where
  "partial_v2_head tail \<longleftrightarrow>
     length tail < VERSION_STRING_V2_LEN \<and> slice_get tail 4 = Some (of_char CHR ''C'') \<and>
     slice_get tail 7 = Some (of_char CHR ''C'') \<and>
     (case slice_range tail 10 14 of
        None \<Rightarrow> False
      | Some kind \<Rightarrow> list_ex (\<lambda>k. kind = str_bytes (SerializationKind_as_str k))
          [SerializationKind.Json, SerializationKind.Cbor, SerializationKind.Mgpk, SerializationKind.Cesr])"

definition event_size_at :: "bytes \<Rightarrow> nat \<Rightarrow> ColdCode \<Rightarrow> ParseError + nat" where
  "event_size_at input vs_offset cold =
     res_bind (ok_or (Truncated (vs_offset - length input)) (slice_from input vs_offset)) (\<lambda>tail.
     res_bind (case VersionString_parse tail of
         Inr (vs, _) \<Rightarrow> Inr vs
       | Inl v1_error \<Rightarrow>
           (if is_ok (VersionStringV2_parse tail) then Inl (UnsupportedVersion V2)
            else if partial_v2_head tail then Inl (NeedBytes (VERSION_STRING_V2_LEN - length tail))
            else Inl (parse_error_of_version v1_error))) (\<lambda>vs.
     if \<not> (cold = Json \<and> vs_kind vs = SerializationKind.Json \<or> cold = Cbor \<and> vs_kind vs = SerializationKind.Cbor \<or>
           cold = MessagePack \<and> vs_kind vs = SerializationKind.Mgpk)
     then Inl (VersionKindMismatch cold (vs_kind vs))
     else
       (let sz = unat (vs_size vs) in
        res_bind (usize_add (Overflow EventSize) vs_offset VERSION_STRING_LEN) (\<lambda>minimum.
        if sz < minimum then Inl (InvalidEventSize sz minimum) else Inr sz))))"

definition event_size :: "bytes \<Rightarrow> ColdCode \<Rightarrow> ParseError + nat" where
  "event_size input cold =
     res_bind (if cold = Json then fst (json_head_advance JsonVersionHead_new input) else binary_version_offset input cold)
       (\<lambda>vs_offset. event_size_at input vs_offset cold)"

section \<open>More bytes do not change what was found\<close>

definition sticky :: "(bytes \<Rightarrow> 'e + 'a) \<Rightarrow> bool" where
  "sticky f \<longleftrightarrow> (\<forall>xs ys r. f xs = Inr r \<longrightarrow> f (xs @ ys) = Inr r)"

lemma stickyD: "sticky f \<Longrightarrow> f xs = Inr r \<Longrightarrow> f (xs @ ys) = Inr r"
  by (simp add: sticky_def)

lemma sticky_bind: "sticky f \<Longrightarrow> (\<And>r. sticky (g r)) \<Longrightarrow> sticky (\<lambda>xs. res_bind (f xs) (\<lambda>r. g r xs))"
  by (fastforce simp: sticky_def)

lemma sticky_const [intro, simp]: "sticky (\<lambda>_. r)"
  by (simp add: sticky_def)

lemma slice_append:
  "slice_get xs i = Some b \<Longrightarrow> slice_get (xs @ ys) i = Some b"
  "slice_range xs i j = Some s \<Longrightarrow> slice_range (xs @ ys) i j = Some s"
  by (auto simp: slice_get_def slice_range_def nth_append split: if_splits)

lemma sticky_bind2: "sticky f \<Longrightarrow> (\<And>a b. sticky (g a b)) \<Longrightarrow> sticky (\<lambda>xs. res_bind (f xs) (\<lambda>(a, b). g a b xs))"
  by (fastforce simp: sticky_def)

lemma sticky_if: "sticky f \<Longrightarrow> sticky g \<Longrightarrow> sticky (\<lambda>xs. if c then f xs else g xs)"
  by (simp add: sticky_def)

lemma sticky_slices [intro]:
  "sticky (\<lambda>xs. ok_or (e xs) (slice_get xs i))" "sticky (\<lambda>xs. ok_or (e xs) (slice_range xs i j))"
  by (auto simp: sticky_def slice_append)

lemma sticky_map_start: "sticky (\<lambda>xs. binary_map_start xs cold)"
  unfolding binary_map_start_def
  by (intro sticky_bind sticky_slices sticky_const)

lemma sticky_text_start: "sticky (\<lambda>xs. binary_text_start xs start cold expected)"
  unfolding binary_text_start_def
  by (intro sticky_bind sticky_bind2 sticky_if sticky_slices sticky_const)

lemma sticky_field_prefix: "sticky (\<lambda>xs. first_field_prefix xs start expected)"
  by (auto simp: sticky_def first_field_prefix_def Let_def min_absorb2 split: if_splits)

lemma sticky_version_offset: "sticky (\<lambda>xs. binary_version_offset xs cold)"
  unfolding binary_version_offset_def
  by (intro sticky_bind sticky_map_start sticky_text_start sticky_field_prefix)

lemma VersionString_parse_append:
  "VersionString_parse xs = Inr (vs, rest) \<Longrightarrow> VersionString_parse (xs @ ys) = Inr (vs, rest @ ys)"
  by (auto simp: VersionString_parse_def split_frame_Inr Let_def)

lemma sticky_event_size_at: "sticky (\<lambda>xs. event_size_at xs offset cold)"
  unfolding sticky_def
proof (intro allI impI)
  fix xs ys r assume s: "event_size_at xs offset cold = Inr r"
  then obtain vs rest where v: "offset \<le> length xs" "VersionString_parse (drop offset xs) = Inr (vs, rest)"
    by (auto simp: event_size_at_def split: sum.splits if_splits)
  note a = VersionString_parse_append[OF v(2), of ys]
  show "event_size_at (xs @ ys) offset cold = Inr r"
    using s v a by (simp add: event_size_at_def slice_from_def)
qed

lemma json_head_loop_append:
  "json_head_loop h xs = (Inr n, h') \<Longrightarrow> json_head_loop h (xs @ ys) = (Inr n, h') \<and> jh_state h' = Complete \<and> jh_offset h' = n"
proof (induction h xs rule: json_head_loop.induct)
  case (1 h xs)
  show ?case
  proof (cases "jh_state h = Complete")
    case True
    then have "\<And>zs. json_head_loop h zs = (Inr (jh_offset h), h)" by (simp add: json_head_loop.simps[of h])
    then show ?thesis using "1.prems" True by auto
  next
    case False
    then obtain b where b: "slice_get xs (jh_offset h) = Some b"
      using "1.prems" by (cases "slice_get xs (jh_offset h)") (simp_all add: json_head_loop.simps[of h])
    obtain s where s: "json_step (jh_state h) b = Some s"
      using "1.prems" False b by (cases "json_step (jh_state h) b") (simp_all add: json_head_loop.simps[of h])
    obtain k where k: "usize_add (Overflow EventSize) (jh_offset h) 1 = Inr k"
      using "1.prems" False b s by (cases "usize_add (Overflow EventSize) (jh_offset h) 1") (simp_all add: json_head_loop.simps[of h])
    let ?h = "h\<lparr>jh_state := s, jh_offset := k\<rparr>"
    have "json_head_loop ?h xs = (Inr n, h')" using "1.prems" False b s k
      by (auto simp: json_head_loop.simps[of h] usize_add_def split: if_splits)
    from "1.IH"[OF False b s k this] show ?thesis
      using False b s k slice_append(1)[OF b, of ys] by (simp add: json_head_loop.simps[of h] usize_add_def)
  qed
qed

lemma json_head_loop_resume:
  "jh_offset h \<le> length xs \<Longrightarrow> json_head_loop h xs = (Inl (NeedBytes n), h') \<Longrightarrow>
   json_head_loop h' (xs @ ys) = json_head_loop h (xs @ ys) \<and> jh_offset h' \<le> length xs"
proof (induction h xs rule: json_head_loop.induct)
  case (1 h xs)
  have False': "jh_state h \<noteq> Complete" using "1.prems"(2) by (auto simp: json_head_loop.simps[of h])
  show ?case
  proof (cases "slice_get xs (jh_offset h)")
    case None
    then have "h' = h" using "1.prems"(2) False' by (simp add: json_head_loop.simps[of h])
    then show ?thesis using "1.prems"(1) by simp
  next
    case b: (Some b)
    obtain s where s: "json_step (jh_state h) b = Some s"
      using "1.prems"(2) False' b by (cases "json_step (jh_state h) b") (simp_all add: json_head_loop.simps[of h])
    obtain k where k: "usize_add (Overflow EventSize) (jh_offset h) 1 = Inr k"
      using "1.prems"(2) False' b s
      by (cases "usize_add (Overflow EventSize) (jh_offset h) 1") (simp_all add: json_head_loop.simps[of h] usize_add_def split: if_splits)
    let ?h = "h\<lparr>jh_state := s, jh_offset := k\<rparr>"
    have n: "json_head_loop ?h xs = (Inl (NeedBytes n), h')" using "1.prems"(2) False' b s k
      by (auto simp: json_head_loop.simps[of h] usize_add_def split: if_splits)
    have "jh_offset ?h \<le> length xs" using b k by (auto simp: slice_get_def split: if_splits)
    from "1.IH"[OF False' b s k this n] show ?thesis
      using False' b s k slice_append(1)[OF b, of ys] by (simp add: json_head_loop.simps[of h] usize_add_def)
  qed
qed

lemma json_head_append:
  "json_head_advance h xs = (Inr n, h') \<Longrightarrow>
   json_head_advance h (xs @ ys) = (Inr n, h') \<and> jh_state h' = Complete \<and> jh_offset h' = n"
  using json_head_loop_append[of h xs n h' ys] by (auto simp: json_head_advance_def split: if_splits)

lemma json_head_resume:
  "json_head_advance h xs = (Inl (NeedBytes n), h') \<Longrightarrow> json_head_advance h' (xs @ ys) = json_head_advance h (xs @ ys)"
  using json_head_loop_resume[of h xs n h' ys] by (auto simp: json_head_advance_def split: if_splits)

lemma json_head_complete:
  "jh_state h = Complete \<Longrightarrow> jh_offset h \<le> length xs \<Longrightarrow> json_head_advance h xs = (Inr (jh_offset h), h)"
  by (simp add: json_head_advance_def json_head_loop.simps)

lemma sticky_event_size: "sticky (\<lambda>xs. event_size xs cold)"
proof -
  have "sticky (\<lambda>xs. fst (json_head_advance h xs))" for h
    unfolding sticky_def
  proof (intro allI impI)
    fix xs ys r assume "fst (json_head_advance h xs) = Inr r"
    then show "fst (json_head_advance h (xs @ ys)) = Inr r"
      using json_head_append[of h xs r _ ys] by (cases "json_head_advance h xs") auto
  qed
  then show ?thesis unfolding event_size_def
    by (cases "cold = Json") (auto intro!: sticky_bind sticky_event_size_at sticky_version_offset)
qed

text \<open>A declared size always covers the version string it was declared in.\<close>

lemma event_size_min: "event_size xs cold = Inr n \<Longrightarrow> VERSION_STRING_LEN \<le> n"
proof -
  assume "event_size xs cold = Inr n"
  then obtain k where "event_size_at xs k cold = Inr n" by (auto simp: event_size_def)
  then show ?thesis by (auto simp: event_size_at_def Let_def split: sum.splits if_splits)
qed

end
