(* ===== verification/Stream_Framing.thy ===== *)
theory Stream_Framing
  imports Stream_Unwrap Stream_Message
begin

text \<open>
  \<^verbatim>\<open>framing.rs\<close>: the incremental framer of one message over a growing prefix, its limits,
  and the bounded walk of universal enclosures. A step returns its result with the state it
  leaves, also when it fails; None is a slice out of range.
\<close>

section \<open>Limits\<close>

record FrameLimits =
  fl_body_bytes :: nat
  fl_attachment_bytes :: nat
  fl_attachment_groups :: nat
  fl_group_elements :: nat
  fl_signatures :: nat
  fl_nested_groups :: nat
  fl_nesting_depth :: nat

definition check_elements :: "FrameLimits \<Rightarrow> GroupFrameCursor \<Rightarrow> ParseError + unit" where
  "check_elements limits c =
     (case element_count c of
        None \<Rightarrow> Inr ()
      | Some declared \<Rightarrow>
          (if fl_group_elements limits < unat declared
           then Inl (LimitExceeded GroupElements (fl_group_elements limits) (unat declared)) else Inr ()))"

definition check_pending_attachment :: "FrameLimits \<Rightarrow> nat \<Rightarrow> nat \<Rightarrow> nat \<Rightarrow> ParseError + unit" where
  "check_pending_attachment limits used available missing =
     (let buffered = saturating_add used available in
      if fl_attachment_bytes limits \<le> buffered
      then Inl (LimitExceeded AttachmentBytes (fl_attachment_bytes limits) (saturating_add buffered missing)) else Inr ())"

definition enter_nested_group :: "FrameLimits \<Rightarrow> nat \<Rightarrow> ParseError + nat" where
  "enter_nested_group limits count =
     (let count = saturating_add count 1 in
      if fl_nested_groups limits < count then Inl (LimitExceeded NestedGroups (fl_nested_groups limits) count) else Inr count)"

text \<open>Inside a complete enclosure, bytes that are missing are truncation.\<close>

fun starved :: "ParseError \<Rightarrow> ParseError" where
  "starved (NeedBytes missing) = Truncated missing"
| "starved other = other"

definition enclosed_version :: "bytes \<Rightarrow> CesrVersion \<Rightarrow> ParseError + (CesrVersion \<times> nat)" where
  "enclosed_version payload version = map_err starved (check_genus_version_offset payload version)"

definition skip_enclosed_atom :: "FrameLimits \<Rightarrow> bytes \<Rightarrow> ParseError + (nat \<times> nat)" where
  "skip_enclosed_atom limits input =
     res_bind (ok_or (NeedBytes 1) (slice_get input 0)) (\<lambda>b.
     res_bind (ColdCode_detect b) (\<lambda>cold.
     case cold of
       CesrBinary \<Rightarrow> Inl (UnsupportedColdStart cold)
     | CesrBase64 \<Rightarrow>
         res_bind (map_err parse_error_of_parsing (from_base64_stream input)) (\<lambda>code.
         res_bind (skip_matter (TextStream_new input)) (\<lambda>primitive.
         Inr (ts_pos primitive, if is_ok (SignatureCode_try_from code) then 1 else 0)))
     | _ \<Rightarrow>
         res_bind (event_size input cold) (\<lambda>n.
         if fl_body_bytes limits < n then Inl (LimitExceeded BodyBytes (fl_body_bytes limits) n)
         else if length input < n then Inl (Truncated (n - length input)) else Inr (n, 0))))"

section \<open>Walking an enclosure\<close>

text \<open>One child group of an enclosure: its cursor after the walk, and its span.\<close>

definition scan_child :: "FrameLimits \<Rightarrow> nat \<Rightarrow> bytes \<Rightarrow> CesrVersion \<Rightarrow> ParseError + (GroupFrameCursor \<times> nat)" where
  "scan_child limits signatures tail version =
     res_bind (map_err starved (case version of V1 \<Rightarrow> cursor_new_v1 tail | V2 \<Rightarrow> cursor_new_v2 tail)) (\<lambda>c.
     res_bind (check_elements limits c) (\<lambda>_.
     let (result, c) = advance_limited c tail usize_max (fl_group_elements limits) (fl_signatures limits - signatures) in
     res_bind (map_err (\<lambda>e. case e of
         LimitExceeded kind _ actual \<Rightarrow>
           (if kind = Signatures then LimitExceeded Signatures (fl_signatures limits) (saturating_add signatures actual) else e)
       | _ \<Rightarrow> starved e) result) (\<lambda>end. Inr (c, end))))"

lemma read_counter_pos:
  "read_counter f h full ts = Inr ((c, n), ts') \<Longrightarrow> ts_pos ts' = ts_pos ts + full c"
  by (auto simp: read_counter_def Let_def take_span_def)

lemma cursor_new_start:
  "cursor_new_v1 xs = Inr c \<Longrightarrow> 4 \<le> gf_end c \<and> (\<forall>k. gf_payload_start c = Some k \<longrightarrow> 4 \<le> k)"
  "cursor_new_v2 xs = Inr c \<Longrightarrow> 4 \<le> gf_end c \<and> (\<forall>k. gf_payload_start c = Some k \<longrightarrow> 4 \<le> k)"
proof -
  have full1: "read_counter_v1 (TextStream_new xs) = Inr ((code, n), ts) \<Longrightarrow> 4 \<le> ts_pos ts" for code n ts
    using read_counter_pos[of _ _ CounterCodeV1_full_size "TextStream_new xs" code n ts] v1.full_bounds[of code]
    by (auto simp: read_counter_v1_def)
  have full2: "read_counter_v2 (TextStream_new xs) = Inr ((code, n), ts) \<Longrightarrow> 4 \<le> ts_pos ts" for code n ts
    using read_counter_pos[of _ _ CounterCodeV2_full_size "TextStream_new xs" code n ts] v2.full_bounds[of code]
    by (auto simp: read_counter_v2_def)
  show "cursor_new_v1 xs = Inr c \<Longrightarrow> 4 \<le> gf_end c \<and> (\<forall>k. gf_payload_start c = Some k \<longrightarrow> 4 \<le> k)"
    by (auto simp: cursor_new_v1_def Let_def cursor_elements_def cursor_quadlets_def dest!: full1 split: option.splits if_splits)
  show "cursor_new_v2 xs = Inr c \<Longrightarrow> 4 \<le> gf_end c \<and> (\<forall>k. gf_payload_start c = Some k \<longrightarrow> 4 \<le> k)"
    by (auto simp: cursor_new_v2_def Let_def v2_elements_def cursor_elements_def cursor_quadlets_def dest!: full2 split: if_splits)
qed

lemma frame_element_fields:
  "frame_element c kind xs mb me ms = (r, d) \<Longrightarrow> gf_end c \<le> gf_end d \<and> gf_payload_start d = gf_payload_start c \<and>
     gf_enclosing d = gf_enclosing c \<and> gf_attachment_envelope d = gf_attachment_envelope c \<and> gf_count d = gf_count c \<and> gf_skip d = gf_skip c"
  by (auto simp: frame_element_def Let_def split: option.splits prod.splits sum.splits if_splits dest!: next_size_frame)

lemma frame_loop_fields:
  "frame_loop c kind xs mb me ms = (r, d) \<Longrightarrow> gf_end c \<le> gf_end d \<and> gf_payload_start d = gf_payload_start c \<and>
     gf_enclosing d = gf_enclosing c \<and> gf_attachment_envelope d = gf_attachment_envelope c \<and> gf_count d = gf_count c \<and> gf_skip d = gf_skip c"
proof (induction c kind xs mb me ms rule: frame_loop.induct)
  case (1 c kind xs mb me ms)
  show ?case
  proof (cases "gf_remaining c = 0")
    case True
    then show ?thesis using "1.prems" by (simp add: frame_loop.simps[of c])
  next
    case False
    obtain s e where f: "frame_element c kind xs mb me ms = (s, e)" by (cases "frame_element c kind xs mb me ms")
    note g = frame_element_fields[OF f]
    show ?thesis
    proof (cases s)
      case (Inl err)
      then show ?thesis using "1.prems" False f g by (simp add: frame_loop.simps[of c])
    next
      case (Inr u)
      then have "frame_loop e kind xs mb me ms = (r, d)" using "1.prems" False f by (simp add: frame_loop.simps[of c])
      from "1.IH"[OF False f[symmetric] Inr this] show ?thesis using g by simp
    qed
  qed
qed

lemma advance_fields:
  "advance_limited c xs mb me ms = (r, d) \<Longrightarrow> gf_end c \<le> gf_end d \<and> gf_payload_start d = gf_payload_start c \<and>
     gf_enclosing d = gf_enclosing c \<and> gf_attachment_envelope d = gf_attachment_envelope c \<and> gf_count d = gf_count c \<and> gf_skip d = gf_skip c"
  by (auto simp: advance_limited_def split: if_splits option.splits prod.splits sum.splits dest!: frame_loop_fields)

lemma advance_end: "advance_limited c xs mb me ms = (Inr n, d) \<Longrightarrow> n = gf_end d \<and> n \<le> length xs"
  by (auto simp: advance_limited_def frame_end_def split: if_splits option.splits prod.splits sum.splits)

text \<open>A child makes progress, and what it encloses is smaller than its span.\<close>

lemma scan_child_progress:
  assumes "scan_child limits s tail v = Inr (c, n)"
  shows "4 \<le> n" "n \<le> length tail" "enclosing_payload c tail = Inr (Some inner) \<Longrightarrow> length inner + 4 \<le> n"
proof -
  obtain c0 where c0: "(case v of V1 \<Rightarrow> cursor_new_v1 tail | V2 \<Rightarrow> cursor_new_v2 tail) = Inr c0"
    "advance_limited c0 tail usize_max (fl_group_elements limits) (fl_signatures limits - s) = (Inr n, c)"
  proof -
    obtain c0 where c0: "(case v of V1 \<Rightarrow> cursor_new_v1 tail | V2 \<Rightarrow> cursor_new_v2 tail) = Inr c0"
      using assms by (auto simp: scan_child_def)
    obtain r d where "advance_limited c0 tail usize_max (fl_group_elements limits) (fl_signatures limits - s) = (r, d)"
      by (cases "advance_limited c0 tail usize_max (fl_group_elements limits) (fl_signatures limits - s)")
    then show thesis using assms c0 that by (auto simp: scan_child_def)
  qed
  have st: "4 \<le> gf_end c0" "\<And>k. gf_payload_start c0 = Some k \<Longrightarrow> 4 \<le> k"
    using c0(1) cursor_new_start by (cases v; auto)+
  note f = advance_fields[OF c0(2)] and e = advance_end[OF c0(2)]
  show "4 \<le> n" "n \<le> length tail" using st f e by simp_all
  show "enclosing_payload c tail = Inr (Some inner) \<Longrightarrow> length inner + 4 \<le> n"
    using st(2) f e by (auto simp: enclosing_payload_def slice_range_def split: if_splits)
qed

lemma skip_enclosed_atom_pos: "skip_enclosed_atom limits xs = Inr (n, a) \<Longrightarrow> 0 < n"
proof -
  have m: "skip_matter (TextStream_new xs) = Inr ts \<Longrightarrow> 0 < ts_pos ts" for ts
    using frame_size_pos[of xs] by (auto simp: skip_matter_def take_span_def split: if_splits)
  have e: "event_size xs cold = Inr k \<Longrightarrow> 0 < k" for cold k
    using event_size_min[of xs cold k] by (simp add: VERSION_STRING_LEN_def)
  assume s: "skip_enclosed_atom limits xs = Inr (n, a)"
  then obtain b cold where c: "slice_get xs 0 = Some b" "ColdCode_detect b = Inr cold"
    by (auto simp: skip_enclosed_atom_def)
  show "0 < n" using s c m e by (cases cold) (auto simp: skip_enclosed_atom_def split: if_splits)
qed

function scan_loop ::
    "FrameLimits \<Rightarrow> (bytes \<times> nat \<times> nat \<times> CesrVersion) list \<Rightarrow> nat \<Rightarrow> nat \<Rightarrow> ParseError + nat" where
  "scan_loop limits [] nested_groups signatures = Inr signatures"
| "scan_loop limits ((input, cursor, depth, level_version) # stack) nested_groups signatures =
     (if cursor = length input then scan_loop limits stack nested_groups signatures
      else case slice_from input cursor of
        None \<Rightarrow> Inl (Overflow GroupSpan)
      | Some tail \<Rightarrow>
        if slice_get tail 0 \<noteq> Some (of_char CHR ''-'') then
          (case skip_enclosed_atom limits tail of
             Inl e \<Rightarrow> Inl e
           | Inr (consumed, atom_signatures) \<Rightarrow>
               (let signatures = saturating_add signatures atom_signatures in
                if fl_signatures limits < signatures
                then Inl (LimitExceeded Signatures (fl_signatures limits) signatures)
                else scan_loop limits ((input, cursor + consumed, depth, level_version) # stack) nested_groups signatures))
        else case enter_nested_group limits nested_groups of
          Inl e \<Rightarrow> Inl e
        | Inr nested_groups \<Rightarrow>
          (case scan_child limits signatures tail level_version of
             Inl e \<Rightarrow> Inl e
           | Inr (c, end) \<Rightarrow>
               (let signatures = saturating_add signatures (gf_signature_total c);
                    stack = (input, cursor + end, depth, level_version) # stack
                in case enclosing_payload c tail of
                     Inl e \<Rightarrow> Inl e
                   | Inr None \<Rightarrow> scan_loop limits stack nested_groups signatures
                   | Inr (Some inner) \<Rightarrow>
                       (let next_depth = saturating_add depth 1 in
                        if fl_nesting_depth limits < next_depth
                        then Inl (LimitExceeded NestingDepth (fl_nesting_depth limits) next_depth)
                        else case enclosed_version inner level_version of
                               Inl e \<Rightarrow> Inl e
                             | Inr (inner_version, inner_offset) \<Rightarrow>
                                 scan_loop limits ((inner, inner_offset, next_depth, inner_version) # stack)
                                   nested_groups signatures))))"
  by pat_completeness auto
termination
proof (relation "measure (\<lambda>(_, stack, _). sum_list (map (\<lambda>(xs, i, _). Suc (length xs - i)) stack))", goal_cases)
  case (3 limits input cursor depth v stack nested s tail cs consumed a x)
  then show ?case using skip_enclosed_atom_pos[of limits tail consumed a] by (auto simp: le_less)
next
  case (4 limits input cursor depth v stack nested s tail n cc c en x xa p)
  then show ?case using scan_child_progress[of limits s tail v c en] by (auto simp: le_less)
next
  case (5 limits input cursor depth v stack nested s tail n cc c en x xa p inner nd vo iv io)
  then show ?case using scan_child_progress(1,2)[of limits s tail v c en] scan_child_progress(3)[of limits s tail v c en inner]
    by (auto simp: le_less)
qed auto

declare scan_loop.simps(2) [simp del]

definition scan_enclosure :: "FrameLimits \<Rightarrow> bytes \<Rightarrow> nat \<Rightarrow> CesrVersion \<Rightarrow> ParseError + nat" where
  "scan_enclosure limits payload prior_signatures version =
     (if fl_nesting_depth limits = 0 then Inl (LimitExceeded NestingDepth 0 1)
      else
        res_bind (enclosed_version payload version) (\<lambda>(initial_version, initial_offset).
        res_bind (scan_loop limits [(payload, initial_offset, 1, initial_version)] 0 prior_signatures) (\<lambda>signatures.
        Inr (signatures - prior_signatures))))"

definition scan_group_v1 :: "FrameLimits \<Rightarrow> bytes \<Rightarrow> ParseError + (nat \<times> nat)" where
  "scan_group_v1 limits input =
     res_bind (cursor_new_v1 input) (\<lambda>c.
     res_bind (check_elements limits c) (\<lambda>_.
     let (result, c) = advance_limited c input (fl_attachment_bytes limits) (fl_group_elements limits) (fl_signatures limits) in
     res_bind result (\<lambda>len.
     let direct = gf_signature_total c in
     res_bind (enclosing_payload c input) (\<lambda>payload.
     res_bind (case payload of Some p \<Rightarrow> scan_enclosure limits p direct V1 | None \<Rightarrow> Inr 0) (\<lambda>nested.
     Inr (len, saturating_add direct nested))))))"

section \<open>The framer\<close>

record FrameSpan =
  fs_body_len :: "nat option"
  fs_total_len :: nat

record EventProgress =
  ep_body_len :: nat
  ep_cursor :: nat
  ep_groups :: nat
  ep_signatures :: nat
  ep_group :: "GroupFrameCursor option"

datatype State = Event EventProgress | Bare GroupFrameCursor

record MessageFramer =
  mf_limits :: FrameLimits
  mf_state :: "State option"
  mf_json_head :: JsonVersionHead

definition MessageFramer_new :: "FrameLimits \<Rightarrow> MessageFramer" where
  "MessageFramer_new limits = \<lparr>mf_limits = limits, mf_state = None, mf_json_head = JsonVersionHead_new\<rparr>"

text \<open>How a failed cursor ends a step: pending, truncated at the end of the input, or the error.\<close>

definition group_failure :: "FrameLimits \<Rightarrow> nat \<Rightarrow> bool \<Rightarrow> ParseError \<Rightarrow> ParseError + 'a option" where
  "group_failure limits signatures end_of_input e =
     (case e of
        LimitExceeded kind _ actual \<Rightarrow>
          (if kind = Signatures
           then Inl (LimitExceeded Signatures (fl_signatures limits) (saturating_add signatures actual)) else Inl e)
      | NeedBytes missing \<Rightarrow> (if end_of_input then Inl (Truncated missing) else Inr None)
      | _ \<Rightarrow> Inl e)"

definition advance_group ::
    "EventProgress \<Rightarrow> bytes \<Rightarrow> bool \<Rightarrow> FrameLimits \<Rightarrow> ((ParseError + bool option) \<times> EventProgress) option" where
  "advance_group ep input end_of_input limits =
     (case ep_group ep of
        None \<Rightarrow> Some (Inr None, ep)
      | Some c \<Rightarrow>
        let used = ep_cursor ep - ep_body_len ep in
        if fl_attachment_bytes limits < used
        then Some (Inl (LimitExceeded AttachmentBytes (fl_attachment_bytes limits) used), ep)
        else Option.bind (slice_from input (ep_cursor ep)) (\<lambda>tail.
          let (result, c) = advance_limited c tail (fl_attachment_bytes limits - used) (fl_group_elements limits)
                              (fl_signatures limits - ep_signatures ep);
              ep = ep\<lparr>ep_group := Some c\<rparr>
          in case result of
               Inl e \<Rightarrow> Some (group_failure limits (ep_signatures ep) end_of_input e, ep)
             | Inr end \<Rightarrow>
                 (let envelope = gf_attachment_envelope c; direct = gf_signature_total c in
                  case enclosing_payload c tail of
                    Inl e \<Rightarrow> Some (Inl e, ep)
                  | Inr payload \<Rightarrow>
                      (case (case payload of
                          Some p \<Rightarrow> scan_enclosure limits p (saturating_add (ep_signatures ep) direct) V1
                        | None \<Rightarrow> Inr 0) of
                         Inl e \<Rightarrow> Some (Inl e, ep)
                       | Inr nested \<Rightarrow>
                           if ep_signatures ep + direct + nested < usize_bound
                           then Some (Inr (Some envelope),
                                  ep\<lparr>ep_signatures := ep_signatures ep + direct + nested, ep_cursor := ep_cursor ep + end,
                                     ep_groups := ep_groups ep + 1, ep_group := None\<rparr>)
                           else Some (Inl (LimitExceeded Signatures (fl_signatures limits) usize_max), ep)))))"

definition begin_group ::
    "EventProgress \<Rightarrow> bytes \<Rightarrow> bool \<Rightarrow> FrameLimits \<Rightarrow> (ParseError + bool) \<times> EventProgress" where
  "begin_group ep input end_of_input limits =
     (if fl_attachment_groups limits \<le> ep_groups ep
      then (Inl (LimitExceeded AttachmentGroups (fl_attachment_groups limits) (ep_groups ep + 1)), ep)
      else case slice_from input (ep_cursor ep) of
        None \<Rightarrow> (Inl (Truncated (ep_cursor ep - length input)), ep)
      | Some tail \<Rightarrow>
        (case cursor_new_v1 tail of
           Inl e \<Rightarrow>
             (case e of
                NeedBytes missing \<Rightarrow>
                  (case check_pending_attachment limits (ep_cursor ep - ep_body_len ep) (length tail) missing of
                     Inl e \<Rightarrow> (Inl e, ep)
                   | Inr _ \<Rightarrow> (if end_of_input then (Inl (Truncated missing), ep) else (Inr False, ep)))
              | _ \<Rightarrow> (Inl e, ep))
         | Inr c \<Rightarrow>
             (case check_elements limits c of
                Inl e \<Rightarrow> (Inl e, ep)
              | Inr _ \<Rightarrow> (Inr True, ep\<lparr>ep_group := Some c\<rparr>))))"

definition event_span :: "EventProgress \<Rightarrow> FrameSpan" where
  "event_span ep = \<lparr>fs_body_len = Some (ep_body_len ep), fs_total_len = ep_cursor ep\<rparr>"

lemma advance_group_done:
  "advance_group ep input eof limits = Some (Inr (Some b), ep') \<Longrightarrow>
     ep_group ep \<noteq> None \<and> ep_group ep' = None \<and> ep_groups ep' = ep_groups ep + 1"
  by (auto simp: advance_group_def group_failure_def Let_def Option.bind_eq_Some_conv
      split: option.splits if_splits prod.splits sum.splits ParseError.splits)

lemma begin_group_done:
  "begin_group ep input eof limits = (Inr True, ep') \<Longrightarrow>
     ep_group ep' \<noteq> None \<and> ep_groups ep' = ep_groups ep \<and> ep_groups ep < fl_attachment_groups limits"
  by (auto simp: begin_group_def split: option.splits if_splits sum.splits ParseError.splits)

function event_loop ::
    "EventProgress \<Rightarrow> bytes \<Rightarrow> bool \<Rightarrow> FrameLimits \<Rightarrow> ((ParseError + FrameSpan option) \<times> EventProgress) option" where
  "event_loop ep input end_of_input limits =
     (if ep_group ep \<noteq> None then
        (case advance_group ep input end_of_input limits of
           None \<Rightarrow> None
         | Some (Inl e, ep) \<Rightarrow> Some (Inl e, ep)
         | Some (Inr None, ep) \<Rightarrow> Some (Inr None, ep)
         | Some (Inr (Some envelope), ep) \<Rightarrow>
             (if envelope then Some (Inr (Some (event_span ep)), ep) else event_loop ep input end_of_input limits))
      else case slice_get input (ep_cursor ep) of
        None \<Rightarrow> Some (Inr (if end_of_input then Some (event_span ep) else None), ep)
      | Some b \<Rightarrow>
        (case ColdCode_detect b of
           Inl e \<Rightarrow> Some (Inl e, ep)
         | Inr cold \<Rightarrow>
             (case cold of
                CesrBase64 \<Rightarrow>
                  (case begin_group ep input end_of_input limits of
                     (Inl e, ep) \<Rightarrow> Some (Inl e, ep)
                   | (Inr started, ep) \<Rightarrow>
                       (if started then event_loop ep input end_of_input limits else Some (Inr None, ep)))
              | CesrBinary \<Rightarrow> Some (Inl (UnsupportedColdStart cold), ep)
              | _ \<Rightarrow> Some (Inr (Some (event_span ep)), ep))))"
  by pat_completeness auto
termination
  by (relation "measure (\<lambda>(ep, input, eof, limits).
      if ep_groups ep < fl_attachment_groups limits
      then 2 * (fl_attachment_groups limits - ep_groups ep) - (if ep_group ep = None then 0 else 1)
      else if ep_group ep = None then 0 else 1)")
    (auto dest!: advance_group_done begin_group_done[OF sym])

declare event_loop.simps [simp del]

definition event_advance ::
    "EventProgress \<Rightarrow> bytes \<Rightarrow> bool \<Rightarrow> FrameLimits \<Rightarrow> ((ParseError + FrameSpan option) \<times> EventProgress) option" where
  "event_advance ep input end_of_input limits =
     (if length input < ep_body_len ep then
        Some (if end_of_input then Inl (Truncated (ep_body_len ep - length input)) else Inr None, ep)
      else if length input < ep_cursor ep then Some (Inl (Truncated (ep_cursor ep - length input)), ep)
      else event_loop ep input end_of_input limits)"

text \<open>\<^verbatim>\<open>start\<close>: the state of a new message, once its size or its counter is known.\<close>

definition framer_start :: "MessageFramer \<Rightarrow> bytes \<Rightarrow> bool \<Rightarrow> (ParseError + State option) \<times> MessageFramer" where
  "framer_start f input end_of_input =
     (let limits = mf_limits f in
      case slice_get input 0 of
        None \<Rightarrow> (Inr None, f)
      | Some b \<Rightarrow>
        (case ColdCode_detect b of
           Inl e \<Rightarrow> (Inl e, f)
         | Inr cold \<Rightarrow>
           (case cold of
              CesrBinary \<Rightarrow> (Inl (UnsupportedColdStart cold), f)
            | CesrBase64 \<Rightarrow>
                (case cursor_new_v1 input of
                   Inl e \<Rightarrow>
                     (case e of
                        NeedBytes missing \<Rightarrow>
                          (case check_pending_attachment limits 0 (length input) missing of
                             Inl e \<Rightarrow> (Inl e, f)
                           | Inr _ \<Rightarrow> (if end_of_input then (Inl (Truncated missing), f) else (Inr None, f)))
                      | _ \<Rightarrow> (Inl e, f))
                 | Inr c \<Rightarrow>
                     (case check_elements limits c of
                        Inl e \<Rightarrow> (Inl e, f)
                      | Inr _ \<Rightarrow> (Inr (Some (Bare c)), f)))
            | _ \<Rightarrow>
                (let (declared, f) =
                       (if cold = Json then
                          (let (offset, head) = json_head_advance (mf_json_head f) input in
                           (res_bind offset (\<lambda>offset. event_size_at input offset cold), f\<lparr>mf_json_head := head\<rparr>))
                        else (event_size input cold, f))
                 in case declared of
                      Inr body_len \<Rightarrow>
                        (if fl_body_bytes limits < body_len
                         then (Inl (LimitExceeded BodyBytes (fl_body_bytes limits) body_len), f)
                         else (Inr (Some (Event \<lparr>ep_body_len = body_len, ep_cursor = body_len, ep_groups = 0,
                                 ep_signatures = 0, ep_group = None\<rparr>)), f))
                    | Inl e \<Rightarrow>
                        (case e of
                           NeedBytes missing \<Rightarrow>
                             (if fl_body_bytes limits \<le> length input
                              then (Inl (LimitExceeded BodyBytes (fl_body_bytes limits) (saturating_add (length input) missing)), f)
                              else if end_of_input then (Inl (Truncated missing), f) else (Inr None, f))
                         | _ \<Rightarrow> (Inl e, f))))))"

definition bare_advance ::
    "GroupFrameCursor \<Rightarrow> bytes \<Rightarrow> bool \<Rightarrow> FrameLimits \<Rightarrow> (ParseError + FrameSpan option) \<times> GroupFrameCursor" where
  "bare_advance c input end_of_input limits =
     (let (result, c) = advance_limited c input (fl_attachment_bytes limits) (fl_group_elements limits) (fl_signatures limits) in
      (case result of
         Inr total_len \<Rightarrow>
           res_bind (enclosing_payload c input) (\<lambda>payload.
           res_bind (case payload of Some p \<Rightarrow> scan_enclosure limits p (gf_signature_total c) V1 | None \<Rightarrow> Inr 0) (\<lambda>_.
           Inr (Some \<lparr>fs_body_len = None, fs_total_len = total_len\<rparr>)))
       | Inl e \<Rightarrow>
           (case e of
              NeedBytes missing \<Rightarrow> (if end_of_input then Inl (Truncated missing) else Inr None)
            | _ \<Rightarrow> Inl e), c))"

definition framer_step :: "MessageFramer \<Rightarrow> State \<Rightarrow> bytes \<Rightarrow> bool \<Rightarrow> ((ParseError + FrameSpan option) \<times> MessageFramer) option" where
  "framer_step f state input end_of_input =
     map_option (\<lambda>(result, state).
       case result of
         Inr (Some span) \<Rightarrow> (result, f\<lparr>mf_state := None, mf_json_head := JsonVersionHead_new\<rparr>)
       | _ \<Rightarrow> (result, f\<lparr>mf_state := Some state\<rparr>))
     (case state of
        Event ep \<Rightarrow> map_option (\<lambda>(r, ep). (r, Event ep)) (event_advance ep input end_of_input (mf_limits f))
      | Bare c \<Rightarrow> Some (let (r, c) = bare_advance c input end_of_input (mf_limits f) in (r, Bare c)))"

definition MessageFramer_advance ::
    "MessageFramer \<Rightarrow> bytes \<Rightarrow> bool \<Rightarrow> ((ParseError + FrameSpan option) \<times> MessageFramer) option" where
  "MessageFramer_advance f input end_of_input =
     (case mf_state f of
        Some state \<Rightarrow> framer_step f state input end_of_input
      | None \<Rightarrow>
          (case framer_start f input end_of_input of
             (Inl e, f) \<Rightarrow> Some (Inl e, f)
           | (Inr None, f) \<Rightarrow> Some (Inr None, f)
           | (Inr (Some state), f) \<Rightarrow> framer_step f state input end_of_input))"

end
