(* ===== verification/Stream_Framing_Laws.thy ===== *)
theory Stream_Framing_Laws
  imports Stream_Framing
begin

text \<open>
  The framer's laws: it resumes on a longer prefix as if it had had the bytes from the start,
  a span once given stays, it never slices out of range, and every span and every count
  respects the caller's limits.
\<close>

section \<open>Group cursors\<close>

definition frame_ok :: "GroupFrameCursor \<Rightarrow> bytes \<Rightarrow> nat \<Rightarrow> bool" where
  "frame_ok c xs mb \<longleftrightarrow> (gf_skip c = None \<longrightarrow> gf_nested c = None) \<and> (gf_end c \<le> mb \<longrightarrow> cursor_ok c xs mb)"

lemma frame_ok_append: "frame_ok c xs mb \<Longrightarrow> frame_ok c (xs @ ys) mb"
proof (cases "gf_skip c")
  case None
  moreover assume "frame_ok c xs mb"
  ultimately show ?thesis by (simp add: frame_ok_def cursor_ok_def)
next
  case (Some k)
  moreover assume "frame_ok c xs mb"
  ultimately show ?thesis using cursor_ok_append[of c xs mb ys] by (simp add: frame_ok_def)
qed

lemma cursor_elements_ok:
  "k \<le> length xs \<Longrightarrow> frame_ok (cursor_elements kind k n v\<lparr>gf_attachment_envelope := a, gf_enclosing := b\<rparr>) xs mb"
  by (auto simp: frame_ok_def cursor_ok_def cursor_elements_def) (simp add: NestedSigCursor_new_def)

lemma cursor_quadlets_ok:
  "cursor_quadlets k n v = Inr c \<Longrightarrow> frame_ok (c\<lparr>gf_attachment_envelope := a, gf_enclosing := b\<rparr>) xs mb"
  by (auto simp: frame_ok_def cursor_ok_def cursor_quadlets_def)

lemma frame_ok_new_v1:
  assumes l: "length xs < usize_bound" and n: "cursor_new_v1 xs = Inr c"
  shows "frame_ok c xs mb"
proof -
  obtain code n ts where r: "read_counter_v1 (TextStream_new xs) = Inr ((code, n), ts)"
    using assms by (auto simp: cursor_new_v1_def)
  then have k: "ts_pos ts \<le> length xs" using v1.counter_head_size[OF l, of "(code, n)" "ts_pos ts"] by (simp add: read_counter_heads)
  show ?thesis using n r cursor_elements_ok[OF k] cursor_quadlets_ok
    by (auto simp: cursor_new_v1_def Let_def split: option.splits if_splits)
qed

lemma cursor_plain_ok:
  "k \<le> length xs \<Longrightarrow> frame_ok (cursor_elements kind k n v\<lparr>gf_enclosing := b\<rparr>) xs mb"
  "cursor_quadlets k n v = Inr c \<Longrightarrow> frame_ok (c\<lparr>gf_enclosing := b\<rparr>) xs mb"
  by (auto simp: frame_ok_def cursor_ok_def cursor_elements_def cursor_quadlets_def) (simp add: NestedSigCursor_new_def)

lemma frame_ok_new_v2:
  assumes l: "length xs < usize_bound" and n: "cursor_new_v2 xs = Inr c"
  shows "frame_ok c xs mb"
proof -
  obtain code n ts where r: "read_counter_v2 (TextStream_new xs) = Inr ((code, n), ts)"
    using assms by (auto simp: cursor_new_v2_def)
  then have k: "ts_pos ts \<le> length xs" using v2.counter_head_size[OF l, of "(code, n)" "ts_pos ts"] by (simp add: read_counter_heads)
  show ?thesis
    using n r cursor_plain_ok(1)[OF k] cursor_plain_ok(2)
    by (auto simp: cursor_new_v2_def Let_def v2_elements_def split: if_splits)
qed

lemma cursor_new_v1_append:
  assumes l: "length (xs @ ys) < usize_bound" and n: "cursor_new_v1 xs = Inr c"
  shows "cursor_new_v1 (xs @ ys) = Inr c"
proof -
  have l': "length xs < usize_bound" using l by simp
  obtain code n ts where r: "read_counter_v1 (TextStream_new xs) = Inr ((code, n), ts)"
    using assms by (auto simp: cursor_new_v1_def)
  then have "v1.counter_head xs = Inr ((code, n), ts_pos ts)" by (simp add: read_counter_heads)
  then have "v1.counter_head (xs @ ys) = Inr ((code, n), ts_pos ts)" by (rule settled_Inr[OF v1.settled_counter_head l])
  then obtain ts' where "read_counter_v1 (TextStream_new (xs @ ys)) = Inr ((code, n), ts')" "ts_pos ts' = ts_pos ts"
    by (auto simp: read_counter_heads)
  then show ?thesis using n r by (simp add: cursor_new_v1_def)
qed

lemma frame_ok_resume:
  assumes l: "length (xs @ ys) < usize_bound" and ok: "frame_ok c xs mb"
    and s: "advance_limited c xs mb me ms = (Inl (NeedBytes k), c')"
  shows "advance_limited c' (xs @ ys) mb me ms = advance_limited c (xs @ ys) mb me ms \<and> frame_ok c' xs mb"
proof -
  have "gf_end c \<le> mb" using s by (auto simp: advance_limited_def split: if_splits)
  then have c: "cursor_ok c xs mb" using ok by (simp add: frame_ok_def)
  note r = advance_resume[OF l c s]
  have "gf_skip c = None \<Longrightarrow> c' = c" using s by (auto simp: advance_limited_def split: if_splits)
  then have "gf_skip c' = None \<longrightarrow> gf_nested c' = None" using r ok by (auto simp: frame_ok_def)
  then show ?thesis using r by (simp add: frame_ok_def)
qed

lemma frame_ok_done:
  assumes l: "length (xs @ ys) < usize_bound" and ok: "frame_ok c xs mb"
    and s: "advance_limited c xs mb me ms = (Inr n, c')"
  shows "advance_limited c (xs @ ys) mb me ms = (Inr n, c')" "n = gf_end c'" "n \<le> length xs" "n \<le> mb"
    "gf_signature_total c' \<le> ms"
proof -
  have "gf_end c \<le> mb" using s by (auto simp: advance_limited_def split: if_splits)
  then have c: "cursor_ok c xs mb" using ok by (simp add: frame_ok_def)
  show "advance_limited c (xs @ ys) mb me ms = (Inr n, c')" "n = gf_end c'" "n \<le> length xs" "n \<le> mb"
    "gf_signature_total c' \<le> ms"
    using advance_append[OF l c s] by blast+
qed

lemma enclosing_payload_append:
  "gf_end c \<le> length xs \<Longrightarrow> enclosing_payload c (xs @ ys) = enclosing_payload c xs"
  by (cases "gf_payload_start c") (auto simp: enclosing_payload_def slice_range_def)

lemma enclosing_payload_length: "enclosing_payload c xs = Inr (Some p) \<Longrightarrow> length p \<le> length xs"
  by (auto simp: enclosing_payload_def slice_range_def split: if_splits)

section \<open>Enclosures\<close>

lemma saturating_bounds: "a < usize_bound \<Longrightarrow> a \<le> saturating_add a b" "saturating_add a b \<le> a + b"
  by (simp_all add: saturating_add_def)

lemma scan_child_limit:
  assumes l: "length tail < usize_bound" and s: "scan_child limits s tail v = Inr (c, n)"
  shows "gf_signature_total c \<le> fl_signatures limits - s"
proof -
  obtain c0 where c0: "(case v of V1 \<Rightarrow> cursor_new_v1 tail | V2 \<Rightarrow> cursor_new_v2 tail) = Inr c0"
    using s by (auto simp: scan_child_def)
  then have ok: "frame_ok c0 tail usize_max" using frame_ok_new_v1[OF l] frame_ok_new_v2[OF l] by (cases v) simp_all
  obtain r d where "advance_limited c0 tail usize_max (fl_group_elements limits) (fl_signatures limits - s) = (r, d)"
    by (cases "advance_limited c0 tail usize_max (fl_group_elements limits) (fl_signatures limits - s)")
  then have "advance_limited c0 tail usize_max (fl_group_elements limits) (fl_signatures limits - s) = (Inr n, c)"
    using s c0 by (auto simp: scan_child_def)
  then show ?thesis using frame_ok_done(5)[OF _ ok, of "[]"] l by simp
qed

lemma scan_loop_limit:
  "fl_signatures limits < usize_bound \<Longrightarrow> list_all (\<lambda>(xs, _). length xs < usize_bound) stack \<Longrightarrow>
   s \<le> fl_signatures limits \<Longrightarrow> scan_loop limits stack nested s = Inr t \<Longrightarrow> s \<le> t \<and> t \<le> fl_signatures limits"
proof (induction limits stack nested s rule: scan_loop.induct)
  case (2 limits input cursor depth v stack nested s)
  show ?case
  proof (cases "cursor = length input")
    case True
    then show ?thesis using "2.prems" "2.IH"(1) by (simp add: scan_loop.simps(2))
  next
    case c: False
    obtain tail where tail: "slice_from input cursor = Some tail"
      using "2.prems"(4) c by (cases "slice_from input cursor") (simp_all add: scan_loop.simps(2))
    have lt: "length tail < usize_bound" using tail "2.prems"(2) by auto
    have s: "s < usize_bound" using "2.prems"(1,3) by linarith
    show ?thesis
    proof (cases "slice_get tail 0 \<noteq> Some (of_char CHR ''-'')")
      case atom: True
      obtain n a where a: "skip_enclosed_atom limits tail = Inr (n, a)"
        using "2.prems"(4) c tail atom by (cases "skip_enclosed_atom limits tail") (auto simp: scan_loop.simps(2))
      let ?s = "saturating_add s a"
      have le: "?s \<le> fl_signatures limits"
        and t: "scan_loop limits ((input, cursor + n, depth, v) # stack) nested ?s = Inr t"
        using "2.prems"(4) c tail atom a by (auto simp: scan_loop.simps(2)[of limits input cursor] Let_def split: if_splits)
      have "?s \<le> t \<and> t \<le> fl_signatures limits"
        using "2.IH"(2)[OF c tail atom a refl refl _ _ _ le t] "2.prems" le by (simp add: not_less)
      then show ?thesis using saturating_bounds(1)[OF s, of a] by linarith
    next
      case group: False
      obtain nested' where n: "enter_nested_group limits nested = Inr nested'"
        using "2.prems"(4) c tail group by (cases "enter_nested_group limits nested") (auto simp: scan_loop.simps(2))
      obtain g en where g: "scan_child limits s tail v = Inr (g, en)"
        using "2.prems"(4) c tail group n by (cases "scan_child limits s tail v") (auto simp: scan_loop.simps(2))
      let ?s = "saturating_add s (gf_signature_total g)" and ?stack = "(input, cursor + en, depth, v) # stack"
      have le: "?s \<le> fl_signatures limits"
        using scan_child_limit[OF lt g] saturating_bounds(2)[of s "gf_signature_total g"] "2.prems"(3) by linarith
      obtain p where p: "enclosing_payload g tail = Inr p"
        using "2.prems"(4) c tail group n g by (cases "enclosing_payload g tail") (auto simp: scan_loop.simps(2) Let_def)
      have "?s \<le> t \<and> t \<le> fl_signatures limits"
      proof (cases p)
        case None
        then have t: "scan_loop limits ?stack nested' ?s = Inr t"
          using "2.prems"(4) c tail group n g p by (simp add: scan_loop.simps(2)[of limits input cursor] Let_def)
        show ?thesis using "2.IH"(3)[OF c tail group n g refl refl refl p None _ _ le t] "2.prems" by simp
      next
        case (Some inner)
        obtain iv io where i: "enclosed_version inner v = Inr (iv, io)" "\<not> fl_nesting_depth limits < saturating_add depth 1"
          using "2.prems"(4) c tail group n g p Some
          by (cases "enclosed_version inner v") (auto simp: scan_loop.simps(2)[of limits input cursor] Let_def split: if_splits)
        then have t: "scan_loop limits ((inner, io, saturating_add depth 1, iv) # ?stack) nested' ?s = Inr t"
          using "2.prems"(4) c tail group n g p Some by (simp add: scan_loop.simps(2)[of limits input cursor] Let_def)
        have "length inner < usize_bound" using enclosing_payload_length[of g tail inner] p Some lt by simp
        then show ?thesis using "2.IH"(4)[OF c tail group n g refl refl refl p Some refl i(2) i(1) refl _ _ le t] "2.prems" by simp
      qed
      then show ?thesis using saturating_bounds(1)[OF s, of "gf_signature_total g"] by linarith
    qed
  qed
qed simp

lemma scan_enclosure_limit:
  assumes "fl_signatures limits < usize_bound" "length p < usize_bound" "s \<le> fl_signatures limits" "scan_enclosure limits p s v = Inr n"
  shows "s + n \<le> fl_signatures limits"
proof -
  obtain iv io t where t: "scan_loop limits [(p, io, 1, iv)] 0 s = Inr t" "n = t - s"
    using assms(4) by (auto simp: scan_enclosure_def split: if_splits)
  then show ?thesis using scan_loop_limit[OF assms(1) _ assms(3) t(1)] assms(2) by simp
qed

section \<open>The progress of one message\<close>

definition limits_ok :: "FrameLimits \<Rightarrow> bool" where
  "limits_ok limits \<longleftrightarrow> fl_signatures limits < usize_bound"

definition event_ok :: "EventProgress \<Rightarrow> bytes \<Rightarrow> FrameLimits \<Rightarrow> bool" where
  "event_ok ep xs limits \<longleftrightarrow>
     ep_body_len ep \<le> ep_cursor ep \<and> ep_body_len ep \<le> fl_body_bytes limits \<and>
     ep_cursor ep - ep_body_len ep \<le> fl_attachment_bytes limits \<and> ep_signatures ep \<le> fl_signatures limits \<and>
     (ep_cursor ep \<le> length xs \<or> ep_cursor ep = ep_body_len ep \<and> ep_group ep = None) \<and>
     (\<forall>c. ep_group ep = Some c \<longrightarrow>
        frame_ok c (drop (ep_cursor ep) xs) (fl_attachment_bytes limits - (ep_cursor ep - ep_body_len ep)))"

lemma event_ok_append: "event_ok ep xs limits \<Longrightarrow> event_ok ep (xs @ ys) limits"
  by (auto simp: event_ok_def frame_ok_append)

lemma advance_group_stable:
  assumes l: "length (xs @ ys) < usize_bound" and lim: "limits_ok limits" and ok: "event_ok ep xs limits"
    and s: "advance_group ep xs e1 limits = Some (Inr (Some b), ep')"
  shows "advance_group ep (xs @ ys) e2 limits = Some (Inr (Some b), ep')" "event_ok ep' xs limits" "ep_cursor ep' \<le> length xs"
proof -
  obtain c where c: "ep_group ep = Some c" using advance_group_done[OF s] by auto
  let ?used = "ep_cursor ep - ep_body_len ep" and ?tail = "drop (ep_cursor ep) xs"
  let ?ms = "fl_signatures limits - ep_signatures ep"
  have cur: "ep_cursor ep \<le> length xs" "?used \<le> fl_attachment_bytes limits"
    and fo: "frame_ok c ?tail (fl_attachment_bytes limits - ?used)"
    using ok c by (auto simp: event_ok_def)
  obtain r d where a: "advance_limited c ?tail (fl_attachment_bytes limits - ?used) (fl_group_elements limits) ?ms = (r, d)"
    by (cases "advance_limited c ?tail (fl_attachment_bytes limits - ?used) (fl_group_elements limits) ?ms")
  obtain n where n: "r = Inr n"
    using s c cur a by (cases r) (auto simp: advance_group_def Let_def slice_from_def group_failure_def
      split: ParseError.splits if_splits)
  have lt: "length (?tail @ ys) < usize_bound" using l by auto
  note f = frame_ok_done[OF lt fo a[unfolded n]]
  obtain p where p: "enclosing_payload d ?tail = Inr p"
    using s c cur a n by (cases "enclosing_payload d ?tail") (simp_all add: advance_group_def Let_def slice_from_def)
  then have p2: "enclosing_payload d (?tail @ ys) = Inr p" using enclosing_payload_append[of d ?tail ys] f(2,3) by simp
  let ?scan = "case p of Some q \<Rightarrow> scan_enclosure limits q (saturating_add (ep_signatures ep) (gf_signature_total d)) V1 | None \<Rightarrow> Inr 0"
  obtain k where k: "?scan = Inr k"
  proof (cases p)
    case (Some q)
    then show ?thesis using s c cur a n p that
      by (cases "scan_enclosure limits q (saturating_add (ep_signatures ep) (gf_signature_total d)) V1")
        (simp_all add: advance_group_def Let_def slice_from_def)
  qed simp
  let ?ep = "ep\<lparr>ep_signatures := ep_signatures ep + gf_signature_total d + k, ep_cursor := ep_cursor ep + n,
      ep_groups := ep_groups ep + 1, ep_group := None\<rparr>"
  have e: "ep' = ?ep" "b = gf_attachment_envelope d" "ep_signatures ep + gf_signature_total d + k < usize_bound"
    using s c cur a n p k by (cases p; auto simp: advance_group_def Let_def slice_from_def split: if_splits)+
  show "advance_group ep (xs @ ys) e2 limits = Some (Inr (Some b), ep')"
    using c cur f(1) n p2 k e by (cases p) (simp_all add: advance_group_def Let_def slice_from_def)
  have sg: "ep_signatures ep + gf_signature_total d \<le> fl_signatures limits" using f(5) ok by (auto simp: event_ok_def)
  have "ep_signatures ep + gf_signature_total d + k \<le> fl_signatures limits"
  proof (cases p)
    case None
    then show ?thesis using k sg by simp
  next
    case (Some q)
    have sat: "saturating_add (ep_signatures ep) (gf_signature_total d) = ep_signatures ep + gf_signature_total d"
      using sg lim by (simp add: saturating_add_def limits_ok_def)
    have "length q < usize_bound" using enclosing_payload_length[of d ?tail q] p Some l by simp
    moreover have "scan_enclosure limits q (ep_signatures ep + gf_signature_total d) V1 = Inr k" using k Some sat by simp
    ultimately show ?thesis using scan_enclosure_limit[OF _ _ sg] lim by (simp add: limits_ok_def)
  qed
  then show "event_ok ep' xs limits" "ep_cursor ep' \<le> length xs"
    using e ok cur f(3,4) by (auto simp: event_ok_def)
qed

lemma advance_group_resume:
  assumes l: "length (xs @ ys) < usize_bound" and ok: "event_ok ep xs limits" and c: "ep_group ep \<noteq> None"
    and s: "advance_group ep xs False limits = Some (Inr None, ep')"
  shows "advance_group ep' (xs @ ys) e limits = advance_group ep (xs @ ys) e limits" "event_ok ep' xs limits"
    "ep_group ep' \<noteq> None" "ep_cursor ep' = ep_cursor ep" "ep_body_len ep' = ep_body_len ep"
proof -
  obtain c where c: "ep_group ep = Some c" using c by auto
  let ?used = "ep_cursor ep - ep_body_len ep" and ?tail = "drop (ep_cursor ep) xs"
  let ?ms = "fl_signatures limits - ep_signatures ep"
  have cur: "ep_cursor ep \<le> length xs" "?used \<le> fl_attachment_bytes limits"
    and fo: "frame_ok c ?tail (fl_attachment_bytes limits - ?used)"
    using ok c by (auto simp: event_ok_def)
  obtain r d where a: "advance_limited c ?tail (fl_attachment_bytes limits - ?used) (fl_group_elements limits) ?ms = (r, d)"
    by (cases "advance_limited c ?tail (fl_attachment_bytes limits - ?used) (fl_group_elements limits) ?ms")
  obtain m where m: "r = Inl (NeedBytes m)" "ep' = ep\<lparr>ep_group := Some d\<rparr>"
    using s c cur a by (auto simp: advance_group_def Let_def slice_from_def group_failure_def
      split: ParseError.splits if_splits sum.splits)
  have lt: "length (?tail @ ys) < usize_bound" using l by auto
  note f = frame_ok_resume[OF lt fo a[unfolded m(1)]]
  show "advance_group ep' (xs @ ys) e limits = advance_group ep (xs @ ys) e limits"
    using f m(2) c cur by (simp add: advance_group_def Let_def slice_from_def)
  show "event_ok ep' xs limits" "ep_group ep' \<noteq> None" "ep_cursor ep' = ep_cursor ep" "ep_body_len ep' = ep_body_len ep"
    using f m(2) ok c cur by (auto simp: event_ok_def)
qed

lemma advance_group_total: "ep_cursor ep \<le> length xs \<Longrightarrow> advance_group ep xs e limits \<noteq> None"
  by (auto simp: advance_group_def Let_def slice_from_def split: option.splits prod.splits sum.splits)

lemma begin_group_stable:
  assumes l: "length (xs @ ys) < usize_bound" and ok: "event_ok ep xs limits" "ep_cursor ep \<le> length xs"
    and s: "begin_group ep xs e1 limits = (Inr True, ep')"
  shows "begin_group ep (xs @ ys) e2 limits = (Inr True, ep')" "event_ok ep' xs limits" "ep_cursor ep' = ep_cursor ep"
    "ep_group ep' \<noteq> None"
proof -
  let ?tail = "drop (ep_cursor ep) xs"
  have lt: "length (?tail @ ys) < usize_bound" using l by auto
  then have lt': "length ?tail < usize_bound" by simp
  obtain c where c: "cursor_new_v1 ?tail = Inr c" "check_elements limits c = Inr ()" "ep' = ep\<lparr>ep_group := Some c\<rparr>"
    "\<not> fl_attachment_groups limits \<le> ep_groups ep"
    using s ok(2) by (auto simp: begin_group_def slice_from_def split: sum.splits ParseError.splits if_splits)
  show "begin_group ep (xs @ ys) e2 limits = (Inr True, ep')"
    using cursor_new_v1_append[OF lt c(1)] c ok(2) by (simp add: begin_group_def slice_from_def)
  show "event_ok ep' xs limits" "ep_cursor ep' = ep_cursor ep" "ep_group ep' \<noteq> None"
    using ok c(3) frame_ok_new_v1[OF lt' c(1)] by (auto simp: event_ok_def)
qed

lemma begin_group_pending: "begin_group ep xs e limits = (Inr False, ep') \<Longrightarrow> ep' = ep"
  by (auto simp: begin_group_def split: option.splits sum.splits ParseError.splits if_splits)

text \<open>The loop returns, and what it leaves respects the limits.\<close>

lemma event_loop_total:
  "length xs < usize_bound \<Longrightarrow> limits_ok limits \<Longrightarrow> event_ok ep xs limits \<Longrightarrow> ep_cursor ep \<le> length xs \<Longrightarrow>
   \<exists>r ep'. event_loop ep xs eof limits = Some (r, ep') \<and>
     (\<forall>span. r = Inr (Some span) \<longrightarrow> span = event_span ep' \<and> event_ok ep' xs limits \<and> ep_cursor ep' \<le> length xs)"
proof (induction ep xs eof limits rule: event_loop.induct)
  case (1 ep xs eof limits)
  note prems = "1.prems"
  have l: "length (xs @ []) < usize_bound" using prems(1) by simp
  show ?case
  proof (cases "ep_group ep = None")
    case False
    obtain r ep1 where a: "advance_group ep xs eof limits = Some (r, ep1)"
      using advance_group_total[OF prems(4), of eof limits] by auto
    show ?thesis
    proof (cases "\<exists>b. r = Inr (Some b)")
      case no: False
      then have "event_loop ep xs eof limits = Some (case r of Inl e \<Rightarrow> Inl e | Inr _ \<Rightarrow> Inr None, ep1)"
        using False a by (auto simp: event_loop.simps[of ep] split: sum.splits option.splits)
      then show ?thesis by (auto split: sum.splits)
    next
      case True
      then obtain b where b: "r = Inr (Some b)" by blast
      note s = advance_group_stable[OF l prems(2,3) a[unfolded b]]
      show ?thesis
      proof (cases b)
        case True
        then show ?thesis using False a b s(2,3) by (simp add: event_loop.simps[of ep])
      next
        case nb: False
        have "event_loop ep xs eof limits = event_loop ep1 xs eof limits"
          using False a b nb by (simp add: event_loop.simps[of ep])
        then show ?thesis using "1.IH"(1)[OF _ a refl b refl] False nb prems s(2,3) by simp
      qed
    qed
  next
    case True
    show ?thesis
    proof (cases "slice_get xs (ep_cursor ep)")
      case None
      then show ?thesis using True prems by (auto simp: event_loop.simps[of ep])
    next
      case (Some w)
      show ?thesis
      proof (cases "ColdCode_detect w")
        case (Inl e)
        then show ?thesis using True Some by (simp add: event_loop.simps[of ep])
      next
        case (Inr cold)
        show ?thesis
        proof (cases "cold = CesrBase64")
          case False
          then show ?thesis using True Some Inr prems by (cases cold) (simp_all add: event_loop.simps[of ep])
        next
          case b64: True
          obtain r ep1 where b: "begin_group ep xs eof limits = (r, ep1)" by (cases "begin_group ep xs eof limits")
          show ?thesis
          proof (cases "r = Inr True")
            case False
            have "event_loop ep xs eof limits = Some (case r of Inl e \<Rightarrow> Inl e | Inr _ \<Rightarrow> Inr None, ep1)"
              using True Some Inr b64 b False by (cases r) (simp_all add: event_loop.simps[of ep])
            then show ?thesis by (auto split: sum.splits)
          next
            case started: True
            note s = begin_group_stable[OF l prems(3,4) b[unfolded started]]
            have e: "event_loop ep xs eof limits = event_loop ep1 xs eof limits"
              using True Some Inr b64 b started by (simp add: event_loop.simps[of ep])
            show ?thesis unfolding e
              using "1.IH"(2)[OF _ Some Inr b64 b[symmetric] started TrueI] True prems s(2,3) by simp
          qed
        qed
      qed
    qed
  qed
qed

lemma event_loop_resume:
  "length (xs @ ys) < usize_bound \<Longrightarrow> limits_ok limits \<Longrightarrow> event_ok ep xs limits \<Longrightarrow> ep_cursor ep \<le> length xs \<Longrightarrow>
   event_loop ep xs eof limits = Some (r, ep') \<Longrightarrow> \<not> eof \<Longrightarrow>
   (r = Inr None \<longrightarrow> event_loop ep' (xs @ ys) e limits = event_loop ep (xs @ ys) e limits \<and> event_ok ep' xs limits \<and>
      ep_cursor ep' \<le> length xs \<and> ep_body_len ep' = ep_body_len ep) \<and>
   (\<forall>span. r = Inr (Some span) \<longrightarrow> event_loop ep (xs @ ys) e limits = Some (r, ep'))"
proof (induction ep xs eof limits arbitrary: r ep' rule: event_loop.induct)
  case (1 ep xs eof limits)
  note prems = "1.prems"
  have eof: "eof = False" using prems(6) by simp
  show ?case
  proof (cases "ep_group ep = None")
    case False
    obtain ra ep1 where a: "advance_group ep xs eof limits = Some (ra, ep1)"
      using advance_group_total[OF prems(4), of eof limits] by auto
    show ?thesis
    proof (cases ra)
      case (Inl err)
      then show ?thesis using False a prems(5) by (auto simp: event_loop.simps[of ep])
    next
      case (Inr o')
      show ?thesis
      proof (cases o')
        case None
        note s = advance_group_resume[OF prems(1,3) False a[unfolded Inr None eof]]
        have "ep' = ep1" "r = Inr None" using False a Inr None prems(5) by (simp_all add: event_loop.simps[of ep])
        then show ?thesis using s prems(4) False by (simp add: event_loop.simps[of ep] event_loop.simps[of ep1])
      next
        case (Some b)
        note s = advance_group_stable[OF prems(1,2,3) a[unfolded Inr Some]]
        show ?thesis
        proof (cases b)
          case True
          then show ?thesis using False a Inr Some prems(5) s(1)[of e] by (auto simp: event_loop.simps[of ep])
        next
          case nb: False
          have body: "ep_body_len ep1 = ep_body_len ep"
            using a Inr Some by (auto simp: advance_group_def Let_def Option.bind_eq_Some_conv group_failure_def
              split: option.splits prod.splits sum.splits if_splits ParseError.splits)
          have "event_loop ep1 xs eof limits = Some (r, ep')"
            using False a Inr Some nb prems(5) by (simp add: event_loop.simps[of ep])
          note IH = "1.IH"(1)[OF _ a refl Inr Some _ prems(1,2) s(2,3) this prems(6)]
          have "event_loop ep (xs @ ys) e limits = event_loop ep1 (xs @ ys) e limits"
            using False s(1)[of e] nb by (simp add: event_loop.simps[of ep])
          then show ?thesis using IH False nb body by simp
        qed
      qed
    qed
  next
    case True
    show ?thesis
    proof (cases "slice_get xs (ep_cursor ep)")
      case None
      then show ?thesis using True prems eof by (auto simp: event_loop.simps[of ep])
    next
      case (Some w)
      note w = slice_append(1)[OF Some, of ys]
      show ?thesis
      proof (cases "ColdCode_detect w")
        case (Inl e')
        then show ?thesis using True Some prems(5) by (auto simp: event_loop.simps[of ep])
      next
        case (Inr cold)
        show ?thesis
        proof (cases "cold = CesrBase64")
          case False
          then show ?thesis using True Some w Inr prems by (cases cold) (auto simp: event_loop.simps[of ep] event_loop.simps[of ep'])
        next
          case b64: True
          obtain rb ep1 where b: "begin_group ep xs eof limits = (rb, ep1)" by (cases "begin_group ep xs eof limits")
          show ?thesis
          proof (cases "rb = Inr True")
            case False
            then have "rb = Inr False \<Longrightarrow> ep1 = ep" using b begin_group_pending by simp
            then show ?thesis using True Some Inr b64 b False prems
              by (cases rb) (auto simp: event_loop.simps[of ep])
          next
            case started: True
            note s = begin_group_stable[OF prems(1,3,4) b[unfolded started]]
            have body: "ep_body_len ep1 = ep_body_len ep"
              using b started by (auto simp: begin_group_def split: option.splits sum.splits ParseError.splits if_splits)
            have "event_loop ep1 xs eof limits = Some (r, ep')"
              using True Some Inr b64 b started prems(5) by (simp add: event_loop.simps[of ep])
            note IH = "1.IH"(2)[OF _ Some Inr b64 b[symmetric] started TrueI prems(1,2) s(2) _ this prems(6)]
            have "event_loop ep (xs @ ys) e limits = event_loop ep1 (xs @ ys) e limits"
              using True w Inr b64 s(1)[of e] by (simp add: event_loop.simps[of ep])
            then show ?thesis using IH True s(3) prems(4) body by simp
          qed
        qed
      qed
    qed
  qed
qed

end
