(* ===== verification/Stream_Framing_Steps.thy ===== *)
theory Stream_Framing_Steps
  imports Stream_Framing_Laws
begin

text \<open>
  The message framer as its caller sees it: however the bytes of a stream are cut into
  deliveries, the framer gives the same answers; it never panics; a span it gives lies in the
  input, within the limits, and stays when more bytes follow.
\<close>

section \<open>One step\<close>

fun state_ok :: "State \<Rightarrow> bytes \<Rightarrow> FrameLimits \<Rightarrow> bool" where
  "state_ok (Event ep) xs limits \<longleftrightarrow> event_ok ep xs limits"
| "state_ok (Bare c) xs limits \<longleftrightarrow> frame_ok c xs (fl_attachment_bytes limits)"

definition framer_ok :: "MessageFramer \<Rightarrow> bytes \<Rightarrow> bool" where
  "framer_ok f xs \<longleftrightarrow> limits_ok (mf_limits f) \<and> (\<forall>st. mf_state f = Some st \<longrightarrow> state_ok st xs (mf_limits f))"

lemma framer_ok_append: "framer_ok f xs \<Longrightarrow> framer_ok f (xs @ ys)"
proof -
  have "state_ok st xs limits \<Longrightarrow> state_ok st (xs @ ys) limits" for st limits
    by (cases st) (simp_all add: event_ok_append frame_ok_append)
  then show "framer_ok f xs \<Longrightarrow> framer_ok f (xs @ ys)" by (simp add: framer_ok_def)
qed

lemma event_advance_total:
  assumes "length xs < usize_bound" "limits_ok limits" "event_ok ep xs limits"
  shows "\<exists>r ep'. event_advance ep xs eof limits = Some (r, ep') \<and>
    (\<forall>span. r = Inr (Some span) \<longrightarrow> span = event_span ep' \<and> event_ok ep' xs limits \<and> ep_cursor ep' \<le> length xs)"
  using event_loop_total[OF assms, of eof] by (auto simp: event_advance_def not_less)

lemma event_advance_resume:
  assumes "length (xs @ ys) < usize_bound" "limits_ok limits" "event_ok ep xs limits"
    "event_advance ep xs False limits = Some (r, ep')"
  shows "(r = Inr None \<longrightarrow> event_advance ep' (xs @ ys) e limits = event_advance ep (xs @ ys) e limits \<and> event_ok ep' xs limits) \<and>
    (\<forall>span. r = Inr (Some span) \<longrightarrow> event_advance ep (xs @ ys) e limits = Some (r, ep'))"
proof (cases "length xs < ep_body_len ep \<or> length xs < ep_cursor ep")
  case True
  then show ?thesis using assms by (auto simp: event_advance_def split: if_splits)
next
  case False
  then have "event_loop ep xs False limits = Some (r, ep')" "ep_cursor ep \<le> length xs"
    using assms(4) by (simp_all add: event_advance_def)
  note l = event_loop_resume[OF assms(1,2,3) this(2,1), where e = e]
  then show ?thesis using False by (auto simp: event_advance_def not_less)
qed

lemma framer_step_total:
  assumes l: "length xs < usize_bound" and lim: "limits_ok (mf_limits f)" and ok: "state_ok st xs (mf_limits f)"
  shows "\<exists>r f'. framer_step f st xs eof = Some (r, f') \<and> (\<forall>span. r = Inr (Some span) \<longrightarrow>
    fs_total_len span \<le> length xs \<and>
    (case fs_body_len span of
       None \<Rightarrow> fs_total_len span \<le> fl_attachment_bytes (mf_limits f)
     | Some b \<Rightarrow> b \<le> fs_total_len span \<and> b \<le> fl_body_bytes (mf_limits f) \<and>
         fs_total_len span - b \<le> fl_attachment_bytes (mf_limits f)))"
proof (cases st)
  case (Event ep)
  then have "event_ok ep xs (mf_limits f)" using ok by simp
  from event_advance_total[OF l lim this, of eof] obtain r ep'
    where e: "event_advance ep xs eof (mf_limits f) = Some (r, ep')"
      "\<forall>span. r = Inr (Some span) \<longrightarrow> span = event_span ep' \<and> event_ok ep' xs (mf_limits f) \<and> ep_cursor ep' \<le> length xs"
    by blast
  then show ?thesis using Event
    by (cases r) (auto simp: framer_step_def event_ok_def event_span_def split: option.splits)
next
  case (Bare c)
  let ?L = "mf_limits f"
  obtain r d where a: "advance_limited c xs (fl_attachment_bytes ?L) (fl_group_elements ?L) (fl_signatures ?L) = (r, d)"
    by (cases "advance_limited c xs (fl_attachment_bytes ?L) (fl_group_elements ?L) (fl_signatures ?L)")
  have fo: "frame_ok c xs (fl_attachment_bytes ?L)" using ok Bare by simp
  have n: "r = Inr n \<Longrightarrow> n \<le> length xs \<and> n \<le> fl_attachment_bytes ?L" for n
    using frame_ok_done(3,4)[OF _ fo, of "[]"] a l by simp
  obtain out where out: "bare_advance c xs eof ?L = (out, d)" by (simp add: bare_advance_def a)
  have "out = Inr (Some span) \<Longrightarrow> fs_body_len span = None \<and> fs_total_len span \<le> length xs \<and>
      fs_total_len span \<le> fl_attachment_bytes ?L" for span
    using out n by (cases r) (auto simp: bare_advance_def a split: ParseError.splits if_splits)
  then show ?thesis using Bare out by (cases out) (auto simp: framer_step_def split: option.splits)
qed

lemma framer_step_resume:
  assumes l: "length (xs @ ys) < usize_bound" and lim: "limits_ok (mf_limits f)" and ok: "state_ok st xs (mf_limits f)"
    and s: "framer_step f st xs False = Some (r, f')"
  shows "(r = Inr None \<longrightarrow> MessageFramer_advance f' (xs @ ys) e = framer_step f st (xs @ ys) e \<and> framer_ok f' xs) \<and>
    (\<forall>span. r = Inr (Some span) \<longrightarrow> framer_step f st (xs @ ys) e = Some (r, f'))"
proof (cases st)
  case (Event ep)
  then obtain ra ep' where a: "event_advance ep xs False (mf_limits f) = Some (ra, ep')"
    using s by (cases "event_advance ep xs False (mf_limits f)") (auto simp: framer_step_def)
  have ok': "event_ok ep xs (mf_limits f)" using ok Event by simp
  note res = event_advance_resume[OF l lim ok' a, of e]
  have "ra = r" using s Event a by (auto simp: framer_step_def split: sum.splits option.splits)
  then show ?thesis using s Event a res lim
    by (auto simp: framer_step_def MessageFramer_advance_def framer_ok_def option.map_comp comp_def
      split: sum.splits option.splits intro!: option.map_cong0)
next
  case (Bare c)
  let ?L = "mf_limits f"
  obtain ra d where a: "advance_limited c xs (fl_attachment_bytes ?L) (fl_group_elements ?L) (fl_signatures ?L) = (ra, d)"
    by (cases "advance_limited c xs (fl_attachment_bytes ?L) (fl_group_elements ?L) (fl_signatures ?L)")
  have fo: "frame_ok c xs (fl_attachment_bytes ?L)" using ok Bare by simp
  obtain out where out: "bare_advance c xs False ?L = (out, d)" by (simp add: bare_advance_def a)
  have o: "out = r" using s Bare out by (auto simp: framer_step_def split: sum.splits option.splits)
  show ?thesis
  proof (intro conjI impI allI)
    assume none: "r = Inr None"
    then obtain m where m: "ra = Inl (NeedBytes m)"
      using out o a by (cases ra) (auto simp: bare_advance_def split: ParseError.splits)
    have f': "f' = f\<lparr>mf_state := Some (Bare d)\<rparr>" using s Bare out o none by (simp add: framer_step_def)
    note res = frame_ok_resume[OF l fo a[unfolded m]]
    have "bare_advance d (xs @ ys) e ?L = bare_advance c (xs @ ys) e ?L" using res by (simp add: bare_advance_def)
    then show "MessageFramer_advance f' (xs @ ys) e = framer_step f st (xs @ ys) e"
      using f' Bare by (auto simp: MessageFramer_advance_def framer_step_def split: prod.splits sum.splits option.splits)
    show "framer_ok f' xs" using res f' lim by (simp add: framer_ok_def)
  next
    fix span assume some: "r = Inr (Some span)"
    then obtain n where n: "ra = Inr n"
      using out o a by (cases ra) (auto simp: bare_advance_def split: ParseError.splits)
    note res = frame_ok_done[OF l fo a[unfolded n]]
    have "enclosing_payload d (xs @ ys) = enclosing_payload d xs" using res(2,3) by (intro enclosing_payload_append) simp
    then have "bare_advance c (xs @ ys) e ?L = bare_advance c xs False ?L" using res(1) a n by (simp add: bare_advance_def)
    then show "framer_step f st (xs @ ys) e = Some (r, f')" using s Bare by (simp add: framer_step_def)
  qed
qed

section \<open>Starting a message\<close>

lemma framer_start_state:
  assumes l: "length (xs @ ys) < usize_bound" and s: "framer_start f xs e1 = (Inr (Some st), f')"
  shows "framer_start f (xs @ ys) e2 = (Inr (Some st), f')" "state_ok st xs (mf_limits f)" "mf_limits f' = mf_limits f"
proof -
  have lx: "length xs < usize_bound" using l by simp
  obtain b cold where b: "slice_get xs 0 = Some b" "ColdCode_detect b = Inr cold"
    using s by (auto simp: framer_start_def Let_def split: option.splits sum.splits)
  note b' = slice_append(1)[OF b(1), of ys]
  have *: "framer_start f (xs @ ys) e2 = (Inr (Some st), f') \<and> state_ok st xs (mf_limits f) \<and> mf_limits f' = mf_limits f"
  proof (cases "cold = CesrBase64 \<or> cold = CesrBinary")
    case True
    then have cold: "cold = CesrBase64" using s b by (auto simp: framer_start_def)
    then obtain c where c: "cursor_new_v1 xs = Inr c" "check_elements (mf_limits f) c = Inr ()" "st = Bare c" "f' = f"
      using s b by (auto simp: framer_start_def Let_def split: sum.splits ParseError.splits if_splits)
    then show ?thesis using cold b b' cursor_new_v1_append[OF l c(1)] frame_ok_new_v1[OF lx c(1)]
      by (simp add: framer_start_def)
  next
    case False
    obtain n where n: "st = Event \<lparr>ep_body_len = n, ep_cursor = n, ep_groups = 0, ep_signatures = 0, ep_group = None\<rparr>"
      "n \<le> fl_body_bytes (mf_limits f)"
      using s b False
      by (cases cold) (auto simp: framer_start_def Let_def not_less split: sum.splits ParseError.splits if_splits prod.splits)
    have ok: "state_ok st xs (mf_limits f)" using n by (simp add: event_ok_def)
    show ?thesis
    proof (cases "cold = Json")
      case True
      obtain off h where h: "json_head_advance (mf_json_head f) xs = (off, h)" by (cases "json_head_advance (mf_json_head f) xs")
      have "res_bind off (\<lambda>offset. event_size_at xs offset Json) = Inr n" and f': "f' = f\<lparr>mf_json_head := h\<rparr>"
        using s b True h n by (auto simp: framer_start_def Let_def split: sum.splits ParseError.splits if_splits)
      then obtain k where k: "off = Inr k" "event_size_at xs k Json = Inr n" by auto
      then show ?thesis using ok b b' True h n f' json_head_append[of "mf_json_head f" xs k h ys]
          stickyD[OF sticky_event_size_at k(2), of ys]
        by (simp add: framer_start_def Let_def not_less)
    next
      case nj: False
      then have "event_size xs cold = Inr n" "f' = f"
        using s b False n by (cases cold; auto simp: framer_start_def Let_def split: sum.splits ParseError.splits if_splits)+
      then show ?thesis using ok b b' False nj n stickyD[OF sticky_event_size, of xs cold n ys]
        by (cases cold) (simp_all add: framer_start_def Let_def not_less)
    qed
  qed
  then show "framer_start f (xs @ ys) e2 = (Inr (Some st), f')" "state_ok st xs (mf_limits f)" "mf_limits f' = mf_limits f"
    by blast+
qed

lemma framer_start_pending:
  assumes s: "framer_start f xs False = (Inr None, f')"
  shows "framer_start f' (xs @ ys) e = framer_start f (xs @ ys) e" "mf_limits f' = mf_limits f" "mf_state f' = mf_state f"
proof -
  have *: "framer_start f' (xs @ ys) e = framer_start f (xs @ ys) e \<and> mf_limits f' = mf_limits f \<and> mf_state f' = mf_state f"
  proof (cases "f' = f")
    case False
    obtain b cold where b: "slice_get xs 0 = Some b" "ColdCode_detect b = Inr cold"
      using s False by (auto simp: framer_start_def Let_def split: option.splits sum.splits)
    note b' = slice_append(1)[OF b(1), of ys]
    have cold: "cold = Json"
      using s b False by (cases cold) (auto simp: framer_start_def Let_def split: sum.splits ParseError.splits if_splits)
    obtain off h where h: "json_head_advance (mf_json_head f) xs = (off, h)" by (cases "json_head_advance (mf_json_head f) xs")
    then have f': "f' = f\<lparr>mf_json_head := h\<rparr>"
      using s b cold by (auto simp: framer_start_def Let_def split: sum.splits ParseError.splits if_splits)
    have "json_head_advance h (xs @ ys) = json_head_advance (mf_json_head f) (xs @ ys)"
    proof (cases off)
      case (Inl err)
      then obtain k where "err = NeedBytes k"
        using s b cold h by (auto simp: framer_start_def Let_def split: ParseError.splits if_splits)
      then show ?thesis using json_head_resume[of "mf_json_head f" xs k h ys] h Inl by simp
    next
      case (Inr k)
      note a = json_head_append[of "mf_json_head f" xs k h ys]
      have "k \<le> length xs"
        using s b cold h Inr by (cases "k \<le> length xs")
          (auto simp: framer_start_def Let_def event_size_at_def slice_from_def)
      then show ?thesis using a h Inr json_head_complete[of h "xs @ ys"] by simp
    qed
    then show ?thesis using f' b b' cold by (simp add: framer_start_def Let_def)
  qed simp
  then show "framer_start f' (xs @ ys) e = framer_start f (xs @ ys) e" "mf_limits f' = mf_limits f" "mf_state f' = mf_state f"
    by blast+
qed

section \<open>The framer\<close>

lemma framer_advance_total:
  assumes l: "length xs < usize_bound" and ok: "framer_ok f xs"
  shows "\<exists>r f'. MessageFramer_advance f xs eof = Some (r, f') \<and> (\<forall>span. r = Inr (Some span) \<longrightarrow>
    fs_total_len span \<le> length xs \<and>
    (case fs_body_len span of
       None \<Rightarrow> fs_total_len span \<le> fl_attachment_bytes (mf_limits f)
     | Some b \<Rightarrow> b \<le> fs_total_len span \<and> b \<le> fl_body_bytes (mf_limits f) \<and>
         fs_total_len span - b \<le> fl_attachment_bytes (mf_limits f)))"
proof (cases "mf_state f")
  case (Some st)
  then show ?thesis using framer_step_total[OF l, of f st eof] ok by (simp add: MessageFramer_advance_def framer_ok_def)
next
  case None
  obtain o1 f1 where s: "framer_start f xs eof = (o1, f1)" by (cases "framer_start f xs eof")
  show ?thesis
  proof (cases "\<exists>st. o1 = Inr (Some st)")
    case True
    then obtain st where st: "o1 = Inr (Some st)" by blast
    have l': "length (xs @ []) < usize_bound" using l by simp
    note a = framer_start_state[OF l' s[unfolded st]]
    show ?thesis using framer_step_total[OF l, of f1 st eof, unfolded a(3)] a(2) ok None s st
      by (simp add: MessageFramer_advance_def framer_ok_def)
  next
    case False
    then have "MessageFramer_advance f xs eof = Some (case o1 of Inl e \<Rightarrow> Inl e | Inr _ \<Rightarrow> Inr None, f1)"
      using None s by (auto simp: MessageFramer_advance_def split: sum.splits option.splits)
    then show ?thesis by (auto split: sum.splits)
  qed
qed

lemma framer_advance_resume:
  assumes l: "length (xs @ ys) < usize_bound" and ok: "framer_ok f xs"
    and s: "MessageFramer_advance f xs False = Some (r, f')"
  shows "r = Inr None \<Longrightarrow> MessageFramer_advance f' (xs @ ys) e = MessageFramer_advance f (xs @ ys) e \<and> framer_ok f' xs"
    "r = Inr (Some span) \<Longrightarrow> MessageFramer_advance f (xs @ ys) e = Some (r, f')"
proof -
  have lim: "limits_ok (mf_limits f)" using ok by (simp add: framer_ok_def)
  have "(r = Inr None \<longrightarrow> MessageFramer_advance f' (xs @ ys) e = MessageFramer_advance f (xs @ ys) e \<and> framer_ok f' xs) \<and>
      (\<forall>span. r = Inr (Some span) \<longrightarrow> MessageFramer_advance f (xs @ ys) e = Some (r, f'))"
  proof (cases "mf_state f")
    case (Some st)
    then have "framer_step f st xs False = Some (r, f')" "state_ok st xs (mf_limits f)"
      using s ok by (simp_all add: MessageFramer_advance_def framer_ok_def)
    from framer_step_resume[OF l lim this(2,1), where e = e] show ?thesis using Some by (simp add: MessageFramer_advance_def)
  next
    case None
    obtain o1 f1 where st: "framer_start f xs False = (o1, f1)" by (cases "framer_start f xs False")
    show ?thesis
    proof (cases o1)
      case (Inl err)
      then show ?thesis using None s st by (auto simp: MessageFramer_advance_def)
    next
      case (Inr o2)
      show ?thesis
      proof (cases o2)
        case none: None
        note p = framer_start_pending[OF st[unfolded Inr none]]
        have "r = Inr None" "f' = f1" using s st Inr none None by (simp_all add: MessageFramer_advance_def)
        then show ?thesis using p None lim by (simp add: MessageFramer_advance_def framer_ok_def)
      next
        case (Some sta)
        note a = framer_start_state[OF l st[unfolded Inr Some]]
        have "framer_step f1 sta xs False = Some (r, f')" using s st Inr Some None by (simp add: MessageFramer_advance_def)
        from framer_step_resume[OF l _ _ this, where e = e] show ?thesis using a lim None by (simp add: MessageFramer_advance_def)
      qed
    qed
  qed
  then show "r = Inr None \<Longrightarrow> MessageFramer_advance f' (xs @ ys) e = MessageFramer_advance f (xs @ ys) e \<and> framer_ok f' xs"
    "r = Inr (Some span) \<Longrightarrow> MessageFramer_advance f (xs @ ys) e = Some (r, f')" by blast+
qed

end
