(* ===== verification/Stream_Group_Props.thy ===== *)
theory Stream_Group_Props
  imports Stream_Group_Tables
begin

text \<open>
  The properties of the groups: a parsed group is written back and read back unchanged, a
  stream of written groups is iterated group by group, the lazy iterator over the elements of
  a group neither panics nor loses alignment, and a list of indexed signatures survives the
  whole way.
\<close>

section \<open>Streams of groups\<close>

text \<open>The first \<^verbatim>\<open>n\<close> items of the iterator; None is a panic.\<close>

primrec Groups_items :: "nat \<Rightarrow> Groups \<Rightarrow> (ParseError + CesrGroup) list option" where
  "Groups_items 0 gs = Some []"
| "Groups_items (Suc n) gs =
     (case Groups_next gs of
        None \<Rightarrow> None
      | Some (None, _) \<Rightarrow> Some []
      | Some (Some item, gs) \<Rightarrow> map_option (\<lambda>items. item # items) (Groups_items n gs))"

primrec QuadletGroup_items :: "nat \<Rightarrow> QuadletGroup \<Rightarrow> (ParseError + CesrGroup) list option" where
  "QuadletGroup_items 0 q = Some []"
| "QuadletGroup_items (Suc n) q =
     (case QuadletGroup_next q of
        None \<Rightarrow> None
      | Some (None, _) \<Rightarrow> Some []
      | Some (Some item, q) \<Rightarrow> map_option (\<lambda>items. item # items) (QuadletGroup_items n q))"

context group_table
begin

definition written :: "CesrGroup \<Rightarrow> bytes \<Rightarrow> bool" where
  "written g w \<longleftrightarrow> encode g [] = Inr w \<and> group_ok version g \<and>
     (\<forall>e. g = ElementGroup e \<longrightarrow> kind_code (gr_kind e) \<noteq> None) \<and> (\<forall>f q. g = FrameGroup f q \<longrightarrow> frame_code f \<noteq> None)"

lemma written_parse: "written g w \<Longrightarrow> length (w @ ys) < usize_bound \<Longrightarrow> parse (w @ ys) = Some (Inr (g, ys))"
  by (rule encode_parse) (auto simp: written_def)

lemma written_pos: "written g w \<Longrightarrow> length w < usize_bound \<Longrightarrow> 4 \<le> length w"
  using written_parse[of g w "[]"] parse_shape[of w g "[]"] by force

lemma parse_written:
  "length xs < usize_bound \<Longrightarrow> parse xs = Some (Inr (g, rest)) \<Longrightarrow> encode g [] = Inr w \<Longrightarrow> written g w"
  using parse_shape[of xs g rest] parse_coded[of xs g rest] unfolding written_def by metis

text \<open>A stepper that parses at its cursor and moves past what it parsed walks a written stream.\<close>

lemma items_written:
  assumes step: "\<And>pre tail. length (pre @ tail) < usize_bound \<Longrightarrow> tail \<noteq> [] \<Longrightarrow>
      next (st (pre @ tail) (length pre)) = (case parse tail of
        None \<Rightarrow> None
      | Some (Inl e) \<Rightarrow> Some (Some (Inl e), dead pre tail)
      | Some (Inr (g, rest)) \<Rightarrow> Some (Some (Inr g), st (pre @ tail) (length pre + (length tail - length rest))))"
    and stop: "\<And>xs. next (st xs (length xs)) = Some (None, st xs (length xs))"
    and items: "\<And>s. items 0 s = Some []"
      "\<And>n s. items (Suc n) s = (case next s of
          None \<Rightarrow> None
        | Some (None, _) \<Rightarrow> Some []
        | Some (Some item, s) \<Rightarrow> map_option (\<lambda>items. item # items) (items n s))"
    and w: "list_all2 written gs ws" and l: "length (pre @ concat ws) < usize_bound" and n: "length gs < n"
  shows "items n (st (pre @ concat ws) (length pre)) = Some (map Inr gs)"
  using w l n
proof (induction gs ws arbitrary: pre n rule: list_all2_induct)
  case Nil
  then obtain k where "n = Suc k" by (cases n) auto
  then show ?case using stop[of pre] by (simp add: items(2))
next
  case (Cons g gs w ws)
  obtain k where k: "n = Suc k" "length gs < k" using Cons.prems(2) by (cases n) auto
  have lw: "length (w @ concat ws) < usize_bound" "length w < usize_bound" using Cons.prems(1) by auto
  have p: "parse (w @ concat ws) = Some (Inr (g, concat ws))" by (rule written_parse[OF Cons.hyps(1) lw(1)])
  have "w \<noteq> []" using written_pos[OF Cons.hyps(1) lw(2)] by auto
  then have s: "next (st (pre @ (w @ concat ws)) (length pre)) = Some (Some (Inr g), st (pre @ (w @ concat ws)) (length (pre @ w)))"
    using step[of pre "w @ concat ws"] Cons.prems(1) p by simp
  have "items k (st ((pre @ w) @ concat ws) (length (pre @ w))) = Some (map Inr gs)"
    by (rule Cons.IH[OF _ k(2)]) (use Cons.prems(1) in simp)
  then show ?case using s k(1) by (simp add: items(2))
qed

end

lemma Groups_next_eq:
  assumes "length (pre @ tail) < usize_bound" "tail \<noteq> []"
  shows "Groups_next \<lparr>gs_input = pre @ tail, gs_cursor = length pre, gs_version = V1\<rparr> =
      (case CesrGroup_parse tail of
        None \<Rightarrow> None
      | Some (Inl e) \<Rightarrow> Some (Some (Inl e), \<lparr>gs_input = pre @ tail, gs_cursor = length (pre @ tail), gs_version = V1\<rparr>)
      | Some (Inr (g, rest)) \<Rightarrow> Some (Some (Inr g),
          \<lparr>gs_input = pre @ tail, gs_cursor = length pre + (length tail - length rest), gs_version = V1\<rparr>))"
    "Groups_next \<lparr>gs_input = pre @ tail, gs_cursor = length pre, gs_version = V2\<rparr> =
      (case CesrGroup_parse_v2 tail of
        None \<Rightarrow> None
      | Some (Inl e) \<Rightarrow> Some (Some (Inl e), \<lparr>gs_input = pre @ tail, gs_cursor = length (pre @ tail), gs_version = V2\<rparr>)
      | Some (Inr (g, rest)) \<Rightarrow> Some (Some (Inr g),
          \<lparr>gs_input = pre @ tail, gs_cursor = length pre + (length tail - length rest), gs_version = V2\<rparr>))"
  using assms by (auto simp: Groups_next_def slice_from_def split: option.splits sum.splits)

lemma QuadletGroup_next_eq:
  assumes "length (pre @ tail) < usize_bound" "tail \<noteq> []"
  shows "QuadletGroup_next \<lparr>q_input = pre @ tail, q_cursor = length pre, q_errored = False, q_parser = V1\<rparr> =
      (case parse_bytes tail of
        None \<Rightarrow> None
      | Some (Inl e) \<Rightarrow> Some (Some (Inl e), \<lparr>q_input = pre @ tail, q_cursor = length pre, q_errored = True, q_parser = V1\<rparr>)
      | Some (Inr (g, rest)) \<Rightarrow> Some (Some (Inr g),
          \<lparr>q_input = pre @ tail, q_cursor = length pre + (length tail - length rest), q_errored = False, q_parser = V1\<rparr>))"
    "QuadletGroup_next \<lparr>q_input = pre @ tail, q_cursor = length pre, q_errored = False, q_parser = V2\<rparr> =
      (case parse_bytes_v2 tail of
        None \<Rightarrow> None
      | Some (Inl e) \<Rightarrow> Some (Some (Inl e), \<lparr>q_input = pre @ tail, q_cursor = length pre, q_errored = True, q_parser = V2\<rparr>)
      | Some (Inr (g, rest)) \<Rightarrow> Some (Some (Inr g),
          \<lparr>q_input = pre @ tail, q_cursor = length pre + (length tail - length rest), q_errored = False, q_parser = V2\<rparr>))"
proof -
  have r1: "length rest \<le> length tail" if "parse_bytes tail = Some (Inr (g, rest))" for g rest
    using b1.parse_shape[OF _ that] assms(1) by force
  have r2: "length rest \<le> length tail" if "parse_bytes_v2 tail = Some (Inr (g, rest))" for g rest
    using b2.parse_shape[OF _ that] assms(1) by force
  show "QuadletGroup_next \<lparr>q_input = pre @ tail, q_cursor = length pre, q_errored = False, q_parser = V1\<rparr> =
      (case parse_bytes tail of
        None \<Rightarrow> None
      | Some (Inl e) \<Rightarrow> Some (Some (Inl e), \<lparr>q_input = pre @ tail, q_cursor = length pre, q_errored = True, q_parser = V1\<rparr>)
      | Some (Inr (g, rest)) \<Rightarrow> Some (Some (Inr g),
          \<lparr>q_input = pre @ tail, q_cursor = length pre + (length tail - length rest), q_errored = False, q_parser = V1\<rparr>))"
    using assms r1 by (auto simp: QuadletGroup_next_def slice_from_def split: option.splits sum.splits)
  show "QuadletGroup_next \<lparr>q_input = pre @ tail, q_cursor = length pre, q_errored = False, q_parser = V2\<rparr> =
      (case parse_bytes_v2 tail of
        None \<Rightarrow> None
      | Some (Inl e) \<Rightarrow> Some (Some (Inl e), \<lparr>q_input = pre @ tail, q_cursor = length pre, q_errored = True, q_parser = V2\<rparr>)
      | Some (Inr (g, rest)) \<Rightarrow> Some (Some (Inr g),
          \<lparr>q_input = pre @ tail, q_cursor = length pre + (length tail - length rest), q_errored = False, q_parser = V2\<rparr>))"
    using assms r2 by (auto simp: QuadletGroup_next_def slice_from_def split: option.splits sum.splits)
qed

section \<open>The elements of a group\<close>

lemma collect_elements_total:
  "length raw < usize_bound \<Longrightarrow> cursor \<le> length raw \<Longrightarrow>
   kind.span k n (drop cursor raw) v = Inr m \<Longrightarrow>
   \<exists>r. collect_elements dec \<lparr>es_kind = k, es_raw = raw, es_cursor = cursor, es_remaining = n, es_version = v, es_errored = False\<rparr> = Some r \<and>
     (\<forall>xs. r = Inr xs \<longrightarrow> length xs = n)"
proof (induction n arbitrary: cursor m)
  case 0
  then show ?case by (simp add: collect_elements.simps Elements_next_def)
next
  case (Suc n)
  let ?w = "drop cursor raw"
  have lw: "length ?w < usize_bound" using Suc.prems(1) by simp
  obtain a b where a: "GroupKind_skip k ?w v = Inr a" "kind.span k n (drop a ?w) v = Inr b" using Suc.prems(3) by auto
  have ab: "cursor + a \<le> length raw" using kind.skip_bound[OF lw a(1)] Suc.prems(2) by auto
  show ?case
  proof (cases "GroupKind_element dec k ?w v")
    case (Inl e)
    then show ?thesis using Suc.prems(2)
      by (simp add: collect_elements.simps[of _ "\<lparr>es_kind = k, es_raw = raw, es_cursor = cursor, es_remaining = Suc n, es_version = v, es_errored = False\<rparr>"]
        Elements_next_def slice_from_def Let_def)
  next
    case (Inr xm)
    then obtain x where x: "GroupKind_element dec k ?w v = Inr (x, a)"
      using kind.element_span[OF lw a(1)] by (cases xm) metis
    have d: "drop a ?w = drop (cursor + a) raw" by (simp add: add.commute)
    obtain r where r: "collect_elements dec \<lparr>es_kind = k, es_raw = raw, es_cursor = cursor + a, es_remaining = n, es_version = v, es_errored = False\<rparr> = Some r"
      "\<forall>xs. r = Inr xs \<longrightarrow> length xs = n"
      using Suc.IH[OF Suc.prems(1) ab, of b] a(2) d by auto
    have "cursor + a < usize_bound" using ab Suc.prems(1) by simp
    then show ?thesis using Suc.prems(2) x r
      by (cases r) (simp_all add: collect_elements.simps[of _ "\<lparr>es_kind = k, es_raw = raw, es_cursor = cursor, es_remaining = Suc n, es_version = v, es_errored = False\<rparr>"]
        Elements_next_def slice_from_def usize_add_def Let_def)
  qed
qed

lemma into_vec_total:
  assumes "group_ok v (ElementGroup g)" "length (gr_raw g) < usize_bound"
  shows "\<exists>r. Group_into_vec dec g = Some r \<and> (\<forall>xs. r = Inr xs \<longrightarrow> length xs = unat (gr_count g))"
  using collect_elements_total[of "gr_raw g" 0 "gr_kind g" "unat (gr_count g)" "gr_version g"] assms
  by (simp add: Group_into_vec_def Group_iter_def)

section \<open>Lists of indexed signatures\<close>

lemma siger_frame:
  assumes "b64_engine enc dec" "indexer_ok ix" "length (indexer_frame ix @ rest) < usize_bound"
  shows "GroupKind_skip ControllerIdxSig (indexer_frame ix @ rest) v = Inr (length (indexer_frame ix))"
    "GroupKind_element dec ControllerIdxSig (indexer_frame ix @ rest) v = Inr (SigerElement ix, length (indexer_frame ix))"
proof -
  note p = indexer_parse_frame[OF assms(1,2), of rest]
  then have s: "indexer_size (indexer_frame ix @ rest) = Inr (length (indexer_frame ix))"
    using Indexer_from_qb64_size[OF p] by (simp add: indexer_size_Inr)
  then show "GroupKind_skip ControllerIdxSig (indexer_frame ix @ rest) v = Inr (length (indexer_frame ix))"
    using assms(3) by (simp add: GroupKind_skip_plain kind_cursor_def)
  have "indexer_frame ix @ rest \<noteq> []" using sizer_bound[OF sizer_sizes(2) s] by auto
  then show "GroupKind_element dec ControllerIdxSig (indexer_frame ix @ rest) v = Inr (SigerElement ix, length (indexer_frame ix))"
    using assms(3) p take_span_eq[of "TextStream_new (indexer_frame ix @ rest)" "length (indexer_frame ix)"]
    by (simp add: element_defs read_siger_def read_indexer_def Let_def)
qed

lemma sigers_span:
  "b64_engine enc dec \<Longrightarrow> list_all indexer_ok sigers \<Longrightarrow> length (concat (map indexer_frame sigers)) < usize_bound \<Longrightarrow>
   kind.span ControllerIdxSig (length sigers) (concat (map indexer_frame sigers)) v = Inr (length (concat (map indexer_frame sigers)))"
proof (induction sigers)
  case (Cons ix sigers)
  then show ?case using siger_frame(1)[of enc dec ix "concat (map indexer_frame sigers)" v] by simp
qed simp

lemma sigers_collect:
  "b64_engine enc dec \<Longrightarrow> list_all indexer_ok sigers \<Longrightarrow> length (pre @ concat (map indexer_frame sigers)) < usize_bound \<Longrightarrow>
   collect_elements dec \<lparr>es_kind = ControllerIdxSig, es_raw = pre @ concat (map indexer_frame sigers), es_cursor = length pre,
     es_remaining = length sigers, es_version = v, es_errored = False\<rparr> = Some (Inr (map SigerElement sigers))"
proof (induction sigers arbitrary: pre)
  case Nil
  then show ?case by (simp add: collect_elements.simps Elements_next_def)
next
  case (Cons ix sigers)
  let ?tail = "concat (map indexer_frame sigers)" and ?f = "indexer_frame ix"
  let ?st = "\<lambda>xs i n. \<lparr>es_kind = ControllerIdxSig, es_raw = xs, es_cursor = i, es_remaining = n, es_version = v, es_errored = False\<rparr>"
  have l: "length (?f @ ?tail) < usize_bound" "length pre + length ?f < usize_bound" using Cons.prems(3) by auto
  have e: "GroupKind_element dec ControllerIdxSig (?f @ ?tail) v = Inr (SigerElement ix, length ?f)"
    using siger_frame(2)[OF Cons.prems(1) _ l(1)] Cons.prems(2) by simp
  have "Elements_next dec (?st (pre @ ?f @ ?tail) (length pre) (Suc (length sigers))) =
      Some (Some (Inr (SigerElement ix)), ?st (pre @ ?f @ ?tail) (length (pre @ ?f)) (length sigers))"
    using e l(2) by (simp add: Elements_next_def slice_from_def usize_add_def Let_def)
  moreover have "collect_elements dec (?st ((pre @ ?f) @ ?tail) (length (pre @ ?f)) (length sigers)) = Some (Inr (map SigerElement sigers))"
    by (rule Cons.IH[OF Cons.prems(1)]) (use Cons.prems(2,3) in simp_all)
  ultimately show ?case
    by (simp add: collect_elements.simps[of _ "?st (pre @ ?f @ ?tail) (length pre) (Suc (length sigers))"])
qed

lemma concat_all_frames:
  "b64_engine enc dec \<Longrightarrow> list_all indexer_ok sigers \<Longrightarrow>
   concat_all (Indexer_to_qb64 enc) sigers = Some (concat (map indexer_frame sigers))"
  by (induction sigers) (simp_all add: Indexer_to_qb64_def indexer_append_frame)

section \<open>Properties\<close>

text \<open>
  C31: Writing is the inverse of reading a group, in both versions: a group the parser
  returned is encoded, unless its count needs the big code, and whatever follows, the
  parser reads the encoding back as the same group and leaves exactly what follows. A
  count of 4096 or more, which only a big code carries, is refused with an error.
\<close>

theorem group_reparse:
  assumes "length xs < usize_bound"
  shows "(CesrGroup_parse xs = Some (Inr (g, rest)) \<longrightarrow>
      (if group_count g < 4096
       then \<exists>w. CesrGroup_encode_V1 g [] = Inr w \<and>
         (\<forall>ys. length (w @ ys) < usize_bound \<longrightarrow> CesrGroup_parse (w @ ys) = Some (Inr (g, ys)))
       else \<exists>n cap. CesrGroup_encode_V1 g [] = Inl (CountExceedsCapacity n cap))) \<and>
    (CesrGroup_parse_v2 xs = Some (Inr (g, rest)) \<longrightarrow>
      (if group_count g < 4096
       then \<exists>w. CesrGroup_encode_V2 g [] = Inr w \<and>
         (\<forall>ys. length (w @ ys) < usize_bound \<longrightarrow> CesrGroup_parse_v2 (w @ ys) = Some (Inr (g, ys)))
       else \<exists>n cap. CesrGroup_encode_V2 g [] = Inl (CountExceedsCapacity n cap)))"
  using g1.parse_encode[OF assms] g2.parse_encode[OF assms] by blast

text \<open>
  A stream of written groups is iterated group by group, and so is the payload of a
  frame that holds them: both iterators yield exactly the groups that were written, in
  order, then end, without an error and without a panic.
\<close>

theorem group_stream_items:
  assumes "length (concat ws) < usize_bound" "length gs < n"
  shows "(list_all2 (\<lambda>g w. group_ok V1 g \<and> CesrGroup_encode_V1 g [] = Inr w) gs ws \<longrightarrow>
      Groups_items n (Groups_over V1 (concat ws)) = Some (map Inr gs) \<and>
      QuadletGroup_items n (QuadletGroup_new (concat ws) V1) = Some (map Inr gs)) \<and>
    (list_all2 (\<lambda>g w. group_ok V2 g \<and> CesrGroup_encode_V2 g [] = Inr w) gs ws \<longrightarrow>
      Groups_items n (Groups_over V2 (concat ws)) = Some (map Inr gs) \<and>
      QuadletGroup_items n (QuadletGroup_new (concat ws) V2) = Some (map Inr gs))"
proof (intro conjI impI)
  have l: "length ([] @ concat ws) < usize_bound" using assms(1) by simp
  note stream = Groups_over_def QuadletGroup_new_def
  {
    assume "list_all2 (\<lambda>g w. group_ok V1 g \<and> CesrGroup_encode_V1 g [] = Inr w) gs ws"
    then have w: "list_all2 g1.written gs ws" "list_all2 b1.written gs ws"
      by (auto elim!: list_all2_mono simp: g1.written_def b1.written_def encode_defs split: option.splits)
    show "Groups_items n (Groups_over V1 (concat ws)) = Some (map Inr gs)"
      using g1.items_written[OF Groups_next_eq(1) _ Groups_items.simps w(1) l assms(2)]
      by (simp add: stream Groups_next_def)
    show "QuadletGroup_items n (QuadletGroup_new (concat ws) V1) = Some (map Inr gs)"
      using b1.items_written[OF QuadletGroup_next_eq(1) _ QuadletGroup_items.simps w(2) l assms(2)]
      by (simp add: stream QuadletGroup_next_def)
  }
  assume "list_all2 (\<lambda>g w. group_ok V2 g \<and> CesrGroup_encode_V2 g [] = Inr w) gs ws"
  then have w: "list_all2 g2.written gs ws" "list_all2 b2.written gs ws"
    by (auto elim!: list_all2_mono simp: g2.written_def b2.written_def)
  show "Groups_items n (Groups_over V2 (concat ws)) = Some (map Inr gs)"
    using g2.items_written[OF Groups_next_eq(2) _ Groups_items.simps w(1) l assms(2)]
    by (simp add: stream Groups_next_def)
  show "QuadletGroup_items n (QuadletGroup_new (concat ws) V2) = Some (map Inr gs)"
    using b2.items_written[OF QuadletGroup_next_eq(2) _ QuadletGroup_items.simps w(2) l assms(2)]
    by (simp add: stream QuadletGroup_next_def)
qed

text \<open>
  Parsing a group from untrusted bytes and decoding its elements never panics: no
  slice is out of range, whatever the input. Decoding stops at the first ill-typed element
  or yields as many elements as the counter declared.
\<close>

theorem group_never_panics:
  assumes "length xs < usize_bound"
  shows "CesrGroup_parse xs \<noteq> None \<and> CesrGroup_parse_v2 xs \<noteq> None \<and>
    (CesrGroup_parse xs = Some (Inr (ElementGroup g, rest)) \<or> CesrGroup_parse_v2 xs = Some (Inr (ElementGroup g, rest)) \<longrightarrow>
      (\<exists>r. Group_into_vec dec g = Some r \<and> (\<forall>es. r = Inr es \<longrightarrow> length es = unat (gr_count g))))"
proof (intro conjI impI)
  show "CesrGroup_parse xs \<noteq> None" "CesrGroup_parse_v2 xs \<noteq> None" using g1.parse_total g2.parse_total assms by blast+
  assume "CesrGroup_parse xs = Some (Inr (ElementGroup g, rest)) \<or> CesrGroup_parse_v2 xs = Some (Inr (ElementGroup g, rest))"
  then obtain h v where "xs = h @ gr_raw g @ rest" "group_ok v (ElementGroup g)"
    using g1.parse_shape[OF assms, of "ElementGroup g" rest] g2.parse_shape[OF assms, of "ElementGroup g" rest]
    by (metis group_raw.simps(1))
  then show "\<exists>r. Group_into_vec dec g = Some r \<and> (\<forall>es. r = Inr es \<longrightarrow> length es = unat (gr_count g))"
    using into_vec_total[of v g dec] assms by simp
qed

text \<open>
  C36: Fewer than 4096 well-formed indexed signatures, written as a controller group,
  encoded and followed by anything, are parsed back as the same group, and its elements
  decode to the same signatures in the same order.
\<close>

theorem signature_group_roundtrip:
  assumes "b64_engine enc dec" "list_all indexer_ok sigers" "length sigers < 4096"
    and "length (concat (map indexer_frame sigers)) + 4 + length ys < usize_bound"
  shows "\<exists>g w. ControllerIdxSigs_from_indexed_signatures enc sigers = Some (Inr g) \<and>
    CesrGroup_encode_V1 (ElementGroup g) [] = Inr w \<and>
    CesrGroup_parse (w @ ys) = Some (Inr (ElementGroup g, ys)) \<and>
    Group_into_vec dec g = Some (Inr (map SigerElement sigers))"
proof -
  let ?raw = "concat (map indexer_frame sigers)" and ?n = "word_of_nat (length sigers) :: u32"
  define g where "g = Group_new ControllerIdxSig ?raw ?n V1"
  have n: "unat ?n = length sigers" using assms(3) by (simp add: unat_of_nat)
  have from_sigs: "ControllerIdxSigs_from_indexed_signatures enc sigers = Some (Inr g)"
    using assms(3) concat_all_frames[OF assms(1,2)]
    by (simp add: ControllerIdxSigs_from_indexed_signatures_def from_indexed_signatures_def encode_sigers_def u32_of_len_def g_def)
  have ok: "group_ok V1 (ElementGroup g)"
    using sigers_span[OF assms(1,2), of V1] assms(4) n by (simp add: g_def Group_new_def)
  let ?w = "counter_wire CounterCodeV1_as_str CounterCodeV1_soft_size CounterCodeV1.ControllerIdxSigs ?n @ ?raw"
  have "(64 :: nat) ^ 2 = 4096" by simp
  then have w: "CesrGroup_encode_V1 (ElementGroup g) [] = Inr ?w"
    using assms(3) n by (simp add: encode_defs g_def Group_new_def v1.encode_count_eq CounterCodeV1_soft_size_def CounterCodeV1_bigs_def)
  have "length ?w = 4 + length ?raw"
    using v1.length_counter_wire[of CounterCodeV1.ControllerIdxSigs ?n]
    by (simp add: CounterCodeV1_full_size_def CounterCodeV1_hard_size_def CounterCodeV1_soft_size_def CounterCodeV1_bigs_def)
  then have "length (?w @ ys) < usize_bound" using assms(4) by simp
  then have "CesrGroup_parse (?w @ ys) = Some (Inr (ElementGroup g, ys))"
    by (rule g1.encode_parse[OF w ok]) (simp_all add: g_def Group_new_def)
  moreover have "Group_into_vec dec g = Some (Inr (map SigerElement sigers))"
    using sigers_collect[OF assms(1,2), of "[]" V1] assms(4) n by (simp add: Group_into_vec_def Group_iter_def g_def Group_new_def)
  ultimately show ?thesis using from_sigs w by blast
qed

section \<open>Witnesses\<close>

lemma empty_sigs_wire:
  "CesrGroup_encode_V1 (ElementGroup (Group_new ControllerIdxSig [] 0 V1)) [] = Inr (str_bytes ''-AAA'')"
  "CesrGroup_encode_V1 (FrameGroup Attachment (QuadletGroup_new (str_bytes ''-AAA'') V1)) [] = Inr (str_bytes ''-VAB-AAA'')"
proof -
  have d: "b64_digits 2 0 = str_bytes ''AA''" "b64_digits 2 (Suc 0) = str_bytes ''AB''"
    by (simp_all add: b64_digits_def B64_ALPHABET_eval str_bytes_def upt_rec)
  show "CesrGroup_encode_V1 (ElementGroup (Group_new ControllerIdxSig [] 0 V1)) [] = Inr (str_bytes ''-AAA'')"
    by (simp add: encode_defs v1.encode_count_eq counter_wire_def Group_new_def CounterCodeV1_soft_size_def CounterCodeV1_bigs_def d)
      (simp add: str_bytes_def)
  have "frame_quadlet_count (str_bytes ''-AAA'') = Inr 1" by (simp add: frame_quadlet_count_def str_bytes_def)
  then show "CesrGroup_encode_V1 (FrameGroup Attachment (QuadletGroup_new (str_bytes ''-AAA'') V1)) [] = Inr (str_bytes ''-VAB-AAA'')"
    by (simp add: encode_defs v1.encode_count_eq counter_wire_def QuadletGroup_new_def CounterCodeV1_soft_size_def CounterCodeV1_bigs_def d)
      (simp add: str_bytes_def)
qed

lemma empty_sigs_ok:
  "group_ok V1 (ElementGroup (Group_new ControllerIdxSig [] 0 V1))"
  "group_ok V1 (FrameGroup Attachment (QuadletGroup_new (str_bytes ''-AAA'') V1))"
  by (auto simp: Group_new_def QuadletGroup_new_def str_bytes_def intro!: exI[of _ 1])

lemma empty_sigs_parse:
  "CesrGroup_parse (str_bytes ''-VAB-AAA'' @ []) = Some (Inr (FrameGroup Attachment (QuadletGroup_new (str_bytes ''-AAA'') V1), []))"
  "CesrGroup_parse (str_bytes ''-AAA'' @ []) = Some (Inr (ElementGroup (Group_new ControllerIdxSig [] 0 V1), []))"
  by (rule g1.encode_parse[OF empty_sigs_wire(2) empty_sigs_ok(2)] g1.encode_parse[OF empty_sigs_wire(1) empty_sigs_ok(1)];
      simp add: str_bytes_def Group_new_def)+

lemma group_reparse_witness:
  "\<exists>w. CesrGroup_encode_V1 (FrameGroup Attachment (QuadletGroup_new (str_bytes ''-AAA'') V1)) [] = Inr w \<and>
     CesrGroup_parse (w @ [45]) = Some (Inr (FrameGroup Attachment (QuadletGroup_new (str_bytes ''-AAA'') V1), [45]))"
  using group_reparse[of "str_bytes ''-VAB-AAA'' @ []" "FrameGroup Attachment (QuadletGroup_new (str_bytes ''-AAA'') V1)" "[]"]
    empty_sigs_parse(1) empty_sigs_wire(2)
  by (auto simp: QuadletGroup_new_def str_bytes_def)

lemma group_stream_items_witness:
  "Groups_items 3 (Groups_over V1 (str_bytes ''-VAB-AAA-AAA'')) =
     Some [Inr (FrameGroup Attachment (QuadletGroup_new (str_bytes ''-AAA'') V1)), Inr (ElementGroup (Group_new ControllerIdxSig [] 0 V1))]"
proof -
  let ?gs = "[FrameGroup Attachment (QuadletGroup_new (str_bytes ''-AAA'') V1), ElementGroup (Group_new ControllerIdxSig [] 0 V1)]"
  let ?ws = "[str_bytes ''-VAB-AAA'', str_bytes ''-AAA'']"
  have "list_all2 (\<lambda>g w. group_ok V1 g \<and> CesrGroup_encode_V1 g [] = Inr w) ?gs ?ws"
    using empty_sigs_wire empty_sigs_ok by (simp del: group_ok.simps CesrGroup_encode_V1.simps)
  moreover have "concat ?ws = str_bytes ''-VAB-AAA-AAA''" by (simp add: str_bytes_def)
  moreover have "length (str_bytes ''-VAB-AAA-AAA'') < usize_bound" by (simp add: str_bytes_def)
  ultimately show ?thesis using group_stream_items[of ?ws ?gs 3] by (simp del: concat.simps)
qed

lemma group_never_panics_witness:
  "\<exists>r. Group_into_vec own_b64_decode (Group_new ControllerIdxSig [] 0 V1) = Some r"
  using group_never_panics[of "str_bytes ''-AAA'' @ []" "Group_new ControllerIdxSig [] 0 V1" "[]" own_b64_decode] empty_sigs_parse(2)
  by (auto simp: str_bytes_def)

lemma signature_group_roundtrip_witness:
  "\<exists>g w. ControllerIdxSigs_from_indexed_signatures qb2_chars [Indexer_new Ed448Big 5 (Some 70) (replicate 114 7)] = Some (Inr g) \<and>
    CesrGroup_encode_V1 (ElementGroup g) [] = Inr w \<and>
    CesrGroup_parse (w @ [45]) = Some (Inr (ElementGroup g, [45])) \<and>
    Group_into_vec own_b64_decode g = Some (Inr (map SigerElement [Indexer_new Ed448Big 5 (Some 70) (replicate 114 7)]))"
proof -
  let ?ix = "Indexer_new Ed448Big 5 (Some 70) (replicate 114 7)"
  have "Indexer_with_indices Ed448Big 5 70 = Inr (Ed448Big, 5, Some 70)" "Indexer_with_raw (Ed448Big, 5, Some 70) (replicate 114 7) = Inr ?ix"
    by (simp_all add: Indexer_with_indices_def IndexedSigCode_mode_def max_index_def max_ondex_def get_xizage_def
       Xizage_new_def Indexer_with_raw_def IndexedSigCode_raw_size_def)
  then have ok: "indexer_ok ?ix" using builder_ok by blast
  have "length (indexer_frame ?ix) = 160"
    by (simp add: indexer_frame_def Let_def Indexer_new_def get_xizage_def Xizage_new_def xz_cs_def length_qb2_chars
      write_index_def str_bytes_def IndexedSigCode_as_str_def)
  then show ?thesis
    by (intro signature_group_roundtrip[OF own_b64.b64_engine_axioms]) (use ok in simp_all)
qed

end
