(* ===== verification/Stream_Framing_Props.thy ===== *)
theory Stream_Framing_Props
  imports Stream_Framing_Steps Stream_Group_Props
begin

text \<open>
  The message framer as its caller sees it: however the bytes of a stream are cut into
  deliveries, the framer gives the same answers; it never panics; a span it gives lies in the
  input, within the limits, and stays when more bytes follow; and a bare group it frames is
  the group the parser reads.
\<close>

section \<open>A bounded frame is an unbounded one\<close>

lemma nested_advance_unlimited:
  assumes a: "nested_advance_bounded c xs v me ms = (Inr n, c')"
  shows "nested_advance c xs v = (Inr n, c')"
proof -
  have u: "unat (k :: u32) \<le> usize_max" for k
    using unsigned_less[of k, where 'a = nat] by (simp add: usize_max_def)
  have k: "nested_counter d xs v me ms = (Inr (), e) \<Longrightarrow> nested_counter d xs v usize_max usize_max = (Inr (), e)" for d e
    using u by (auto simp: nested_counter_def Let_def slice_from_def usize_add_def split: if_splits sum.splits)
  from a show ?thesis
  proof (cases rule: nested_advance_cases)
    case (Sigs c1 c2 s)
    then show ?thesis using k[OF Sigs(2)] by (cases s) (simp_all add: nested_advance_def nested_advance_bounded_def)
  qed simp_all
qed

lemma frame_element_span:
  assumes l: "length xs < usize_bound" and ok: "cursor_ok c xs mb" "gf_skip c \<noteq> None"
    and k: "gf_nested c = kind_cursor kind" "\<not> gf_nested_counted c"
    and s: "frame_element c kind xs mb me ms = (Inr (), c')"
  obtains n where "GroupKind_skip kind (drop (gf_end c) xs) (gf_version c) = Inr n" "gf_end c' = gf_end c + n"
    "gf_remaining c' = gf_remaining c - 1" "gf_version c' = gf_version c" "gf_skip c' = gf_skip c"
    "gf_nested c' = kind_cursor kind" "\<not> gf_nested_counted c'" "cursor_ok c' xs mb"
proof -
  have e: "gf_end c \<le> length xs" "gf_end c \<le> mb" using ok by (auto simp: cursor_ok_def)
  let ?w = "window c xs mb"
  have d: "drop (gf_end c) xs = ?w @ drop (min (length xs) mb - gf_end c) (drop (gf_end c) xs)"
    by (simp add: window_def del: drop_drop)
  obtain r c1 where n: "next_size c kind ?w me ms = (r, c1)" by (cases "next_size c kind ?w me ms")
  obtain n where rn: "r = Inr n" using s frame_element_window[OF e] n
    by (cases r) (auto simp: frame_element_def past_limit_def Let_def split: ParseError.splits if_splits)
  have n': "gf_end c + n < usize_bound" "n \<noteq> 0"
    "c' = c1\<lparr>gf_end := gf_end c1 + n, gf_remaining := gf_remaining c1 - 1, gf_nested := map_option nested_reset (gf_nested c1),
       gf_nested_counted := (gf_nested c1 = None \<and> gf_nested_counted c1)\<rparr>"
    using s n rn frame_element_window[OF e] next_size_frame[OF n]
    by (auto simp: frame_element_def past_limit_def Let_def not_less usize_add_def split: if_splits)
  note f = next_size_frame[OF n]
  have sk: "GroupKind_skip kind ?w (gf_version c) = Inr n \<and> map_option nested_reset (gf_nested c1) = kind_cursor kind \<and>
      \<not> (gf_nested c1 = None \<and> gf_nested_counted c1)"
  proof (cases "kind_cursor kind")
    case None
    then show ?thesis using n rn k by (auto simp: next_size_def)
  next
    case (Some m)
    obtain out m' where a: "nested_advance_bounded m ?w (gf_version c) me (ms - gf_signature_total c) = (out, m')"
      by (cases "nested_advance_bounded m ?w (gf_version c) me (ms - gf_signature_total c)")
    have o: "out = Inr n" "gf_nested c1 = Some m'"
      using n rn k Some a by (auto simp: next_size_def Let_def split: option.splits if_splits sum.splits)
    have "GroupKind_skip kind ?w (gf_version c) = Inr n"
      using kind_skip_nested[OF Some] nested_advance_unlimited[OF a[unfolded o(1)]] by simp
    moreover have "nested_reset m' = m" using nested_advance_outers[OF a] kind_cursor_new[OF Some] by simp
    ultimately show ?thesis using o(2) Some by simp
  qed
  have "length (?w @ drop (min (length xs) mb - gf_end c) (drop (gf_end c) xs)) < usize_bound"
    unfolding d[symmetric] using l by simp
  then have "GroupKind_skip kind (drop (gf_end c) xs) (gf_version c) = Inr n"
    using kind.skip_append[of ?w] sk d by metis
  moreover have "cursor_ok c' xs mb" using frame_element_append[of xs "[]", OF _ ok s] l by simp
  ultimately show thesis using that n'(3) f sk by simp
qed

lemma frame_loop_span:
  "length xs < usize_bound \<Longrightarrow> cursor_ok c xs mb \<Longrightarrow> gf_skip c \<noteq> None \<Longrightarrow> gf_nested c = kind_cursor kind \<Longrightarrow>
   \<not> gf_nested_counted c \<Longrightarrow> frame_loop c kind xs mb me ms = (Inr (), c') \<Longrightarrow>
   \<exists>m. kind.span kind (gf_remaining c) (drop (gf_end c) xs) (gf_version c) = Inr m \<and> gf_end c' = gf_end c + m"
proof (induction c kind xs mb me ms rule: frame_loop.induct)
  case (1 c kind xs mb me ms)
  note prems = "1.prems"
  show ?case
  proof (cases "gf_remaining c = 0")
    case True
    then show ?thesis using prems(6) by (simp add: frame_loop.simps[of c])
  next
    case False
    obtain r d where f: "frame_element c kind xs mb me ms = (r, d)" by (cases "frame_element c kind xs mb me ms")
    then have r: "r = Inr ()" and d: "frame_loop d kind xs mb me ms = (Inr (), c')"
      using prems(6) False by (cases r; simp add: frame_loop.simps[of c])+
    obtain n where n: "GroupKind_skip kind (drop (gf_end c) xs) (gf_version c) = Inr n" "gf_end d = gf_end c + n"
      "gf_remaining d = gf_remaining c - 1" "gf_version d = gf_version c" "gf_skip d = gf_skip c"
      "gf_nested d = kind_cursor kind" "\<not> gf_nested_counted d" "cursor_ok d xs mb"
      using frame_element_span[OF prems(1-5) f[unfolded r]] by blast
    have "\<exists>m. kind.span kind (gf_remaining d) (drop (gf_end d) xs) (gf_version d) = Inr m \<and> gf_end c' = gf_end d + m"
      by (rule "1.IH"[OF False f[symmetric] r prems(1) n(8) _ n(6,7) d]) (use n(5) prems(3) in simp)
    then obtain m where m: "kind.span kind (gf_remaining c - 1) (drop n (drop (gf_end c) xs)) (gf_version c) = Inr m"
      "gf_end c' = gf_end c + n + m" using n by (auto simp: add.commute)
    obtain j where j: "gf_remaining c = Suc j" using False by (cases "gf_remaining c") auto
    then show ?thesis using n(1) m by (simp del: drop_drop)
  qed
qed

text \<open>A cursor as its constructors leave it.\<close>

definition new_cursor :: "GroupFrameCursor \<Rightarrow> bool" where
  "new_cursor c \<longleftrightarrow> gf_signature_total c \<le> usize_max \<and> (\<forall>kind. gf_skip c = Some kind \<longrightarrow> fresh_cursor c kind)"

lemma new_cursor_elements: "new_cursor (cursor_elements kind k n v\<lparr>gf_attachment_envelope := a, gf_enclosing := b\<rparr>)"
  "new_cursor (cursor_elements kind k n v\<lparr>gf_enclosing := b\<rparr>)"
  using cursor_elements_fresh[where kind = kind and k = k and n = n and v = v and a = a and b = b]
  by (auto simp: new_cursor_def cursor_elements_def saturating_mul_def usize_max_def fresh_cursor_def)

lemma new_cursor_quadlets:
  "cursor_quadlets k n v = Inr c \<Longrightarrow> new_cursor (c\<lparr>gf_attachment_envelope := a, gf_enclosing := b\<rparr>) \<and> new_cursor (c\<lparr>gf_enclosing := b\<rparr>)"
  by (auto simp: new_cursor_def cursor_quadlets_def)

lemma cursor_new_fresh: "cursor_new_v1 xs = Inr c \<Longrightarrow> new_cursor c" "cursor_new_v2 xs = Inr c \<Longrightarrow> new_cursor c"
  using new_cursor_elements new_cursor_quadlets
  by (auto simp: cursor_new_v1_def cursor_new_v2_def v2_elements_def Let_def split: option.splits if_splits)

lemma bounded_advance:
  assumes l: "length xs < usize_bound" and n: "new_cursor c" and f: "frame_ok c xs mb"
    and a: "advance_limited c xs mb me ms = (Inr n, d)"
  shows "fst (cursor_advance c xs) = Inr n"
proof -
  have mb: "gf_end c \<le> mb" using a by (auto simp: advance_limited_def split: if_splits)
  then have ok: "cursor_ok c xs mb" using f by (simp add: frame_ok_def)
  have l': "length (xs @ []) < usize_bound" using l by simp
  note e = frame_ok_done[OF l' f a]
  have t: "\<not> usize_max < gf_signature_total c" using n by (simp add: new_cursor_def)
  have "gf_end c \<le> n" using advance_fields[OF a] e(2) by simp
  then have gx: "gf_end c \<le> length xs" "\<not> usize_max < gf_end c" using e(3) l by (simp_all add: usize_max_def)
  show ?thesis
  proof (cases "gf_skip c")
    case None
    then have "frame_end c xs = Inr n" using a by (auto simp: advance_limited_def split: if_splits)
    then show ?thesis using None t gx by (simp add: cursor_advance_def advance_bounded_def advance_limited_def)
  next
    case (Some kind)
    then have fr: "fresh_cursor c kind" using n by (simp add: new_cursor_def)
    then have g: "gf_nested c = kind_cursor kind" "\<not> gf_nested_counted c" by (simp_all add: fresh_cursor_def)
    have lo: "frame_loop c kind xs mb me ms = (Inr (), d)"
      using a Some by (auto simp: advance_limited_def split: if_splits prod.splits sum.splits)
    have "gf_skip c \<noteq> None" using Some by simp
    from frame_loop_span[OF l ok this g lo]
    obtain m where m: "kind.span kind (gf_remaining c) (drop (gf_end c) xs) (gf_version c) = Inr m" "gf_end d = gf_end c + m"
      by blast
    then obtain c' where "frame_loop c kind xs usize_max usize_max usize_max = (Inr (), c')" "gf_end c' = n"
      using frame_loop_unbounded[OF l gx(1) fr] e(2) by auto
    then show ?thesis using Some t gx e(3)
      by (simp add: cursor_advance_def advance_bounded_def advance_limited_def frame_end_def)
  qed
qed

lemma bounded_frame:
  assumes l: "length xs < usize_bound" and n: "cursor_new_v1 xs = Inr c" and a: "advance_limited c xs mb me ms = (Inr n, d)"
  shows "framed_v1 xs = Inr n"
  using bounded_advance[OF l cursor_new_fresh(1)[OF n] frame_ok_new_v1[OF l n] a] n by (simp add: framed_v1_def)

lemma bounded_frame_v2:
  assumes l: "length xs < usize_bound" and n: "cursor_new_v2 xs = Inr c" and a: "advance_limited c xs mb me ms = (Inr n, d)"
  shows "frame_len_v2 xs = Inr n"
  using bounded_advance[OF l cursor_new_fresh(2)[OF n] frame_ok_new_v2[OF l n] a] n by (simp add: frame_len_v2_def)

lemma framed_parse:
  assumes l: "length xs < usize_bound" and f: "framed_v1 xs = Inr n"
  shows "\<exists>g. CesrGroup_parse xs = Some (Inr (g, drop n xs))"
proof -
  obtain c k i g m where "v1.counter_head xs = Inr ((c, k), i)" "n = i + m"
    "group_body V1 GenusVersionNotAGroup (v1_element_kind c) (v1_frame_kind c) k (drop i xs) = Inr (g, m)"
    using f framed_v1_iff[OF l] by blast
  then have "parse_bytes xs = Some (Inr (g, drop n xs))" by (simp add: parse_bytes_eq[OF l])
  then show ?thesis using CesrGroup_parse_bytes(2)[OF l] by blast
qed

section \<open>Deliveries\<close>

text \<open>A framer that has been fed a prefix in deliveries, each of them pending.\<close>

inductive fed :: "FrameLimits \<Rightarrow> bytes \<Rightarrow> MessageFramer \<Rightarrow> bool" for limits where
  fed_new: "fed limits [] (MessageFramer_new limits)"
| fed_more: "fed limits xs f \<Longrightarrow> MessageFramer_advance f (xs @ ys) False = Some (Inr None, f') \<Longrightarrow> fed limits (xs @ ys) f'"

lemma framer_new_ok: "limits_ok limits \<Longrightarrow> framer_ok (MessageFramer_new limits) xs"
  by (simp add: framer_ok_def MessageFramer_new_def)

lemma fed_same:
  "fed limits xs f \<Longrightarrow> limits_ok limits \<Longrightarrow> length (xs @ ys) < usize_bound \<Longrightarrow>
     framer_ok f xs \<and> MessageFramer_advance f (xs @ ys) eof = MessageFramer_advance (MessageFramer_new limits) (xs @ ys) eof"
proof (induction arbitrary: ys eof rule: fed.induct)
  case fed_new
  then show ?case by (simp add: framer_new_ok)
next
  case (fed_more xs f zs f')
  have l: "length ((xs @ zs) @ ys) < usize_bound" "length (xs @ (zs @ ys)) < usize_bound" using fed_more.prems(2) by simp_all
  note IH = fed_more.IH[OF fed_more.prems(1) l(2), of eof]
  have "framer_ok f (xs @ zs)" using IH framer_ok_append by blast
  note r = framer_advance_resume(1)[OF l(1) this fed_more.hyps(2) refl, of eof]
  then show ?case using IH by simp
qed

section \<open>Properties\<close>

text \<open>
  C32: Framing does not depend on how the stream is delivered: a framer that was fed any
  prefix in any number of pending deliveries answers, on the whole input and at the end of
  the stream or not, exactly as a fresh framer that sees the whole input at once: the same
  span or error, and the same state.
\<close>

theorem framer_chunking:
  assumes "fed limits xs f" "limits_ok limits" "length (xs @ ys) < usize_bound"
  shows "MessageFramer_advance f (xs @ ys) eof = MessageFramer_advance (MessageFramer_new limits) (xs @ ys) eof"
  using fed_same[OF assms] by blast

text \<open>
  C33: Framing untrusted bytes always returns and never slices out of range. A span it
  gives lies within the input; its body is within the body limit and its attachments, or
  the bare group, within the attachment limit. On an open stream the span is final: it is
  the same whatever bytes follow.
\<close>

theorem framer_span_bounds:
  assumes "limits_ok limits" "length (xs @ ys) < usize_bound"
  shows "\<exists>r f. MessageFramer_advance (MessageFramer_new limits) xs eof = Some (r, f) \<and>
    (\<forall>span. r = Inr (Some span) \<longrightarrow>
       fs_total_len span \<le> length xs \<and>
       (case fs_body_len span of
          None \<Rightarrow> fs_total_len span \<le> fl_attachment_bytes limits
        | Some b \<Rightarrow> b \<le> fs_total_len span \<and> b \<le> fl_body_bytes limits \<and>
            fs_total_len span - b \<le> fl_attachment_bytes limits) \<and>
       (\<not> eof \<longrightarrow> MessageFramer_advance (MessageFramer_new limits) (xs @ ys) e = Some (r, f)))"
proof -
  let ?f = "MessageFramer_new limits"
  have ok: "framer_ok ?f xs" by (rule framer_new_ok[OF assms(1)])
  have l: "length xs < usize_bound" using assms(2) by simp
  have lim: "mf_limits ?f = limits" by (simp add: MessageFramer_new_def)
  obtain r f where a: "MessageFramer_advance ?f xs eof = Some (r, f)" "\<forall>span. r = Inr (Some span) \<longrightarrow>
      fs_total_len span \<le> length xs \<and>
      (case fs_body_len span of
         None \<Rightarrow> fs_total_len span \<le> fl_attachment_bytes limits
       | Some b \<Rightarrow> b \<le> fs_total_len span \<and> b \<le> fl_body_bytes limits \<and> fs_total_len span - b \<le> fl_attachment_bytes limits)"
    using framer_advance_total[OF l ok, of eof, unfolded lim] by blast
  have "\<not> eof \<Longrightarrow> r = Inr (Some span) \<Longrightarrow> MessageFramer_advance ?f (xs @ ys) e = Some (r, f)" for span
    using framer_advance_resume(2)[OF assms(2) ok, of r f span e] a(1) by (cases eof) simp_all
  then show ?thesis using a by blast
qed

text \<open>
  The framer and the parser agree on bare groups: what the framer emits without a body
  is a group the parser accepts, and the parser leaves exactly the bytes after the span.
\<close>

theorem framer_bare_parses:
  assumes "limits_ok limits" "length xs < usize_bound"
    and "MessageFramer_advance (MessageFramer_new limits) xs eof = Some (Inr (Some span), f)" "fs_body_len span = None"
  shows "\<exists>g. CesrGroup_parse xs = Some (Inr (g, drop (fs_total_len span) xs))"
proof -
  let ?f = "MessageFramer_new limits"
  have f: "mf_state ?f = None" "mf_limits ?f = limits" by (simp_all add: MessageFramer_new_def)
  obtain st f1 where s: "framer_start ?f xs eof = (Inr (Some st), f1)" "framer_step f1 st xs eof = Some (Inr (Some span), f)"
    using assms(3) f by (auto simp: MessageFramer_advance_def split: prod.splits sum.splits option.splits)
  have l': "length (xs @ []) < usize_bound" using assms(2) by simp
  note st = framer_start_state[OF l' s(1)]
  show ?thesis
  proof (cases st)
    case (Event ep)
    then obtain ra ep' where ea: "event_advance ep xs eof limits = Some (ra, ep')"
      using s(2) st(3) f by (cases "event_advance ep xs eof limits") (auto simp: framer_step_def)
    then have ra: "ra = Inr (Some span)"
      using s(2) st(3) f Event by (auto simp: framer_step_def split: sum.splits option.splits)
    have "event_ok ep xs limits" using st(2) Event f by simp
    then have "span = event_span ep'"
      using event_advance_total[OF assms(2,1), of ep eof] ea ra by auto
    then show ?thesis using assms(4) by (simp add: event_span_def)
  next
    case (Bare c)
    obtain ra d where a: "advance_limited c xs (fl_attachment_bytes limits) (fl_group_elements limits) (fl_signatures limits) = (ra, d)"
      by (cases "advance_limited c xs (fl_attachment_bytes limits) (fl_group_elements limits) (fl_signatures limits)")
    then obtain out where out: "bare_advance c xs eof limits = (out, d)" by (simp add: bare_advance_def)
    then have "out = Inr (Some span)"
      using s(2) st(3) f Bare by (auto simp: framer_step_def split: sum.splits option.splits)
    then obtain n where n: "ra = Inr n" "fs_total_len span = n"
      using out a by (cases ra) (auto simp: bare_advance_def split: ParseError.splits if_splits)
    have "cursor_new_v1 xs = Inr c"
      using s(1) Bare by (auto simp: framer_start_def Let_def split: option.splits sum.splits ColdCode.splits ParseError.splits if_splits prod.splits)
    from bounded_frame[OF assms(2) this a[unfolded n(1)]] show ?thesis using framed_parse[OF assms(2)] n(2) by simp
  qed
qed

section \<open>Witnesses\<close>

definition small_limits :: FrameLimits where
  "small_limits =
     \<lparr>fl_body_bytes = 4096, fl_attachment_bytes = 4096, fl_attachment_groups = 4, fl_group_elements = 4,
      fl_signatures = 4, fl_nested_groups = 8, fl_nesting_depth = 2\<rparr>"

lemma small_limits_ok: "limits_ok small_limits"
  by (simp add: limits_ok_def small_limits_def)

definition empty_cursor :: GroupFrameCursor where
  "empty_cursor = cursor_elements ControllerIdxSig 4 0 V1\<lparr>gf_attachment_envelope := False, gf_enclosing := False\<rparr>"

lemma empty_cursor_new: "cursor_new_v1 (str_bytes ''-AAA'') = Inr empty_cursor"
proof -
  have d: "b64_digits 2 0 = str_bytes ''AA''" by (simp add: b64_digits_def B64_ALPHABET_eval str_bytes_def upt_rec)
  have w: "str_bytes ''-AAA'' = counter_wire CounterCodeV1_as_str CounterCodeV1_soft_size CounterCodeV1.ControllerIdxSigs 0 @ []"
    by (simp add: counter_wire_def CounterCodeV1_soft_size_def CounterCodeV1_bigs_def d) (simp add: str_bytes_def)
  have f: "CounterCodeV1_full_size CounterCodeV1.ControllerIdxSigs = 4"
    by (simp add: CounterCodeV1_full_size_def CounterCodeV1_hard_size_def CounterCodeV1_soft_size_def CounterCodeV1_bigs_def)
  have "read_counter_v1 (TextStream_new (str_bytes ''-AAA'')) = Inr ((CounterCodeV1.ControllerIdxSigs, 0), after (TextStream_new (str_bytes ''-AAA'')) 4)"
    using v1.read_counter_iff[of "TextStream_new (str_bytes ''-AAA'')" CounterCodeV1.ControllerIdxSigs 0] w f
    by (auto simp: read_counter_v1_def CounterCodeV1_from_base64_stream_def[abs_def] str_bytes_def)
  then show ?thesis
    by (simp add: cursor_new_v1_def v1_element_kind_def v1_enclosing_codes_def empty_cursor_def)
qed

lemma empty_cursor_advance:
  "advance_limited empty_cursor (str_bytes ''-AAA'') 4096 4 4 = (Inr 4, empty_cursor)"
  by (simp add: advance_limited_def empty_cursor_def cursor_elements_def frame_loop.simps frame_end_def saturating_mul_def str_bytes_def)

lemma empty_group_framed:
  "MessageFramer_advance (MessageFramer_new small_limits) (str_bytes ''-AAA'') False =
     Some (Inr (Some \<lparr>fs_body_len = None, fs_total_len = 4\<rparr>), MessageFramer_new small_limits)"
proof -
  have hd: "slice_get (str_bytes ''-AAA'') 0 = Some (of_char CHR ''-'')" by (simp add: slice_get_def str_bytes_def)
  have el: "check_elements small_limits empty_cursor = Inr ()"
    by (simp add: check_elements_def element_count_def empty_cursor_def cursor_elements_def)
  have st: "framer_start (MessageFramer_new small_limits) (str_bytes ''-AAA'') False =
      (Inr (Some (Bare empty_cursor)), MessageFramer_new small_limits)"
    using hd el cold_counter by (simp add: framer_start_def empty_cursor_new MessageFramer_new_def)
  have "enclosing_payload empty_cursor (str_bytes ''-AAA'') = Inr None"
    by (simp add: enclosing_payload_def empty_cursor_def)
  then have "bare_advance empty_cursor (str_bytes ''-AAA'') False small_limits = (Inr (Some \<lparr>fs_body_len = None, fs_total_len = 4\<rparr>), empty_cursor)"
    by (simp add: bare_advance_def small_limits_def empty_cursor_advance)
  then show ?thesis using st
    by (simp add: MessageFramer_advance_def framer_step_def MessageFramer_new_def)
qed

lemma framer_chunking_witness:
  "MessageFramer_advance ((MessageFramer_new small_limits)\<lparr>mf_json_head := \<lparr>jh_offset = 2, jh_state = KeyV\<rparr>\<rparr>) ([0x7b, 0x22] @ [118, 34]) False =
   MessageFramer_advance (MessageFramer_new small_limits) ([0x7b, 0x22] @ [118, 34]) False"
proof (rule framer_chunking[OF _ small_limits_ok])
  have cold: "ColdCode_detect 0x7b = Inr Json" by code_simp
  have step: "json_step BeforeKey 34 = Some KeyV" by (simp add: json_step_def)
  have "json_head_advance JsonVersionHead_new [0x7b, 0x22] = (Inl (NeedBytes 1), \<lparr>jh_offset = 2, jh_state = KeyV\<rparr>)"
    by (simp add: json_head_advance_def JsonVersionHead_new_def json_head_loop.simps slice_get_def step usize_add_def)
  then have "MessageFramer_advance (MessageFramer_new small_limits) ([] @ [0x7b, 0x22]) False =
      Some (Inr None, (MessageFramer_new small_limits)\<lparr>mf_json_head := \<lparr>jh_offset = 2, jh_state = KeyV\<rparr>\<rparr>)"
    by (simp add: MessageFramer_advance_def framer_start_def MessageFramer_new_def slice_get_def cold small_limits_def)
  from fed_more[OF fed_new this]
  show "fed small_limits [0x7b, 0x22] ((MessageFramer_new small_limits)\<lparr>mf_json_head := \<lparr>jh_offset = 2, jh_state = KeyV\<rparr>\<rparr>)" by simp
qed simp

lemma framer_span_bounds_witness:
  "MessageFramer_advance (MessageFramer_new small_limits) (str_bytes ''-AAA'' @ [0x7b]) True =
     Some (Inr (Some \<lparr>fs_body_len = None, fs_total_len = 4\<rparr>), MessageFramer_new small_limits)"
proof -
  have "length (str_bytes ''-AAA'' @ [0x7b]) < usize_bound" by (simp add: str_bytes_def)
  from framer_span_bounds[OF small_limits_ok this, of False True] show ?thesis by (simp add: empty_group_framed)
qed

lemma framer_bare_parses_witness: "\<exists>g. CesrGroup_parse (str_bytes ''-AAA'') = Some (Inr (g, drop 4 (str_bytes ''-AAA'')))"
proof -
  have "length (str_bytes ''-AAA'') < usize_bound" by (simp add: str_bytes_def)
  from framer_bare_parses[OF small_limits_ok this empty_group_framed] show ?thesis by simp
qed

end
