(* ===== verification/Stream_Codec.thy ===== *)
theory Stream_Codec
  imports Stream_Framing_Props
begin

text \<open>
  \<^verbatim>\<open>codec.rs\<close>: the decoders over a growing buffer, \<^verbatim>\<open>CesrCodec\<close> for groups and
  \<^verbatim>\<open>MessageCodec\<close> for messages. A call returns its item with the codec and the buffer it
  leaves; None is a panic. The async runtime that calls them is not modelled.
\<close>

record CesrCodec =
  cc_version :: CesrVersion
  cc_cursor :: "GroupFrameCursor option"
  cc_limits :: FrameLimits

definition CesrCodec_new :: "CesrVersion \<Rightarrow> FrameLimits \<Rightarrow> CesrCodec" where
  "CesrCodec_new version limits = \<lparr>cc_version = version, cc_cursor = None, cc_limits = limits\<rparr>"

definition cursor_of_version :: "CesrVersion \<Rightarrow> bytes \<Rightarrow> ParseError + GroupFrameCursor" where
  "cursor_of_version version input = (case version of V1 \<Rightarrow> cursor_new_v1 input | V2 \<Rightarrow> cursor_new_v2 input)"

definition parse_of_version :: "CesrVersion \<Rightarrow> bytes \<Rightarrow> (ParseError + (CesrGroup \<times> bytes)) option" where
  "parse_of_version version buf = (case version of V1 \<Rightarrow> parse_bytes buf | V2 \<Rightarrow> parse_bytes_v2 buf)"

text \<open>The cursor of the group at the head of the buffer, if its counter has arrived.\<close>

definition codec_cursor :: "CesrCodec \<Rightarrow> bytes \<Rightarrow> ParseError + GroupFrameCursor option" where
  "codec_cursor c buf =
     (case cc_cursor c of
        Some cursor \<Rightarrow> Inr (Some cursor)
      | None \<Rightarrow>
          (case cursor_of_version (cc_version c) buf of
             Inr cursor \<Rightarrow> res_bind (check_elements (cc_limits c) cursor) (\<lambda>_. Inr (Some cursor))
           | Inl e \<Rightarrow>
               (case e of
                  NeedBytes missing \<Rightarrow>
                    res_bind (check_pending_attachment (cc_limits c) 0 (length buf) missing) (\<lambda>_. Inr None)
                | _ \<Rightarrow> Inl e)))"

text \<open>The rest of a call, from a cursor on: the frame's length, its limits, its parse.\<close>

definition codec_step ::
    "CesrCodec \<Rightarrow> GroupFrameCursor \<Rightarrow> bytes \<Rightarrow> ((ParseError + CesrGroup option) \<times> CesrCodec \<times> bytes) option" where
  "codec_step c cursor buf =
     (let limits = cc_limits c;
          (result, cursor) = advance_limited cursor buf (fl_attachment_bytes limits) (fl_group_elements limits)
                               (fl_signatures limits);
          c = c\<lparr>cc_cursor := Some cursor\<rparr>
      in case result of
           Inl e \<Rightarrow> (case e of NeedBytes _ \<Rightarrow> Some (Inr None, c, buf) | _ \<Rightarrow> Some (Inl e, c, buf))
         | Inr n \<Rightarrow>
             (case res_bind (enclosing_payload cursor buf) (\<lambda>payload.
                 case payload of
                   Some p \<Rightarrow> scan_enclosure limits p (gf_signature_total cursor) (cc_version c)
                 | None \<Rightarrow> Inr 0) of
                Inl e \<Rightarrow> Some (Inl e, c, buf)
              | Inr _ \<Rightarrow>
                  Option.bind (slice_range buf 0 n) (\<lambda>framed.
                  let rest = drop n buf; c = c\<lparr>cc_cursor := None\<rparr> in
                  Option.bind (parse_of_version (cc_version c) framed) (\<lambda>parsed.
                  case parsed of
                    Inl e \<Rightarrow> Some (Inl e, c, rest)
                  | Inr (g, _) \<Rightarrow> Some (Inr (Some g), c, rest)))))"

definition codec_decode ::
    "CesrCodec \<Rightarrow> bytes \<Rightarrow> ((ParseError + CesrGroup option) \<times> CesrCodec \<times> bytes) option" where
  "codec_decode c buf =
     (if buf = [] then Some (Inr None, c, buf)
      else case codec_cursor c buf of
        Inl e \<Rightarrow> Some (Inl e, c, buf)
      | Inr None \<Rightarrow> Some (Inr None, c, buf)
      | Inr (Some cursor) \<Rightarrow> codec_step c cursor buf)"

definition codec_decode_eof ::
    "CesrCodec \<Rightarrow> bytes \<Rightarrow> ((ParseError + CesrGroup option) \<times> CesrCodec \<times> bytes) option" where
  "codec_decode_eof c buf =
     Option.bind (codec_decode c buf) (\<lambda>(r, c, buf).
     case r of
       Inl e \<Rightarrow> Some (Inl e, c, buf)
     | Inr (Some g) \<Rightarrow> Some (Inr (Some g), c, buf)
     | Inr None \<Rightarrow>
         (if buf = [] then Some (Inr None, c, buf)
          else
            (let limits = cc_limits c;
                 advance = (\<lambda>cursor. advance_limited cursor buf (fl_attachment_bytes limits) (fl_group_elements limits)
                              (fl_signatures limits));
                 (result, c) =
                   (case cc_cursor c of
                      None \<Rightarrow>
                        (res_bind (cursor_of_version (cc_version c) buf) (\<lambda>cursor.
                         res_bind (check_elements limits cursor) (\<lambda>_. fst (advance cursor))), c)
                    | Some cursor \<Rightarrow> (let (result, cursor) = advance cursor in (result, c\<lparr>cc_cursor := Some cursor\<rparr>)))
             in Some (case result of
                        Inl e \<Rightarrow> (case e of NeedBytes missing \<Rightarrow> Inl (Truncated missing) | _ \<Rightarrow> Inl e)
                      | Inr _ \<Rightarrow> Inr None, c, buf))))"

definition codec_encode :: "CesrCodec \<Rightarrow> CesrGroup \<Rightarrow> bytes \<Rightarrow> ParseError + bytes" where
  "codec_encode c item dst =
     (case cc_version c of V1 \<Rightarrow> CesrGroup_encode_V1 item dst | V2 \<Rightarrow> CesrGroup_encode_V2 item dst)"

text \<open>\<^verbatim>\<open>MessageCodec\<close> holds a framer; both of its calls take the span off the buffer.\<close>

definition message_decode ::
    "bool \<Rightarrow> MessageFramer \<Rightarrow> bytes \<Rightarrow> ((ParseError + bytes option) \<times> MessageFramer \<times> bytes) option" where
  "message_decode end_of_input framer buf =
     Option.bind (MessageFramer_advance framer buf end_of_input) (\<lambda>(r, framer).
     case r of
       Inl e \<Rightarrow> Some (Inl e, framer, buf)
     | Inr None \<Rightarrow> Some (Inr None, framer, buf)
     | Inr (Some span) \<Rightarrow>
         Option.bind (slice_range buf 0 (fs_total_len span)) (\<lambda>wire.
         Some (Inr (Some wire), framer, drop (fs_total_len span) buf)))"

section \<open>Laws\<close>

lemma cursor_new_v2_append:
  assumes l: "length (xs @ ys) < usize_bound" and n: "cursor_new_v2 xs = Inr c"
  shows "cursor_new_v2 (xs @ ys) = Inr c"
proof -
  obtain code n ts where r: "read_counter_v2 (TextStream_new xs) = Inr ((code, n), ts)"
    using assms by (auto simp: cursor_new_v2_def)
  then have "v2.counter_head xs = Inr ((code, n), ts_pos ts)" by (simp add: read_counter_heads)
  then have "v2.counter_head (xs @ ys) = Inr ((code, n), ts_pos ts)" by (rule settled_Inr[OF v2.settled_counter_head l])
  then obtain ts' where "read_counter_v2 (TextStream_new (xs @ ys)) = Inr ((code, n), ts')" "ts_pos ts' = ts_pos ts"
    by (auto simp: read_counter_heads)
  then show ?thesis using n r by (simp add: cursor_new_v2_def)
qed

lemma cursor_of_version_laws:
  assumes l: "length (xs @ ys) < usize_bound" and n: "cursor_of_version v xs = Inr c"
  shows "cursor_of_version v (xs @ ys) = Inr c" "frame_ok c xs mb" "new_cursor c"
proof -
  have "length xs < usize_bound" using l by simp
  then show "cursor_of_version v (xs @ ys) = Inr c" "frame_ok c xs mb" "new_cursor c"
    using n cursor_new_v1_append[OF l] cursor_new_v2_append[OF l] frame_ok_new_v1 frame_ok_new_v2 cursor_new_fresh
    by (cases v; simp add: cursor_of_version_def)+
qed

lemma framed_of_version:
  assumes l: "length xs < usize_bound" and n: "cursor_of_version v xs = Inr c"
    and a: "advance_limited c xs mb me ms = (Inr n, d)"
  shows "n \<le> length xs" "\<exists>g. parse_of_version v xs = Some (Inr (g, drop n xs)) \<and> parse_of_version v (take n xs) = Some (Inr (g, []))"
proof -
  have l': "length (xs @ []) < usize_bound" using l by simp
  show n': "n \<le> length xs" by (rule advance_end[OF a, THEN conjunct2])
  have ln: "length xs - length (drop n xs) = n" using n' by simp
  show "\<exists>g. parse_of_version v xs = Some (Inr (g, drop n xs)) \<and> parse_of_version v (take n xs) = Some (Inr (g, []))"
  proof (cases v)
    case V1
    then have "framed_v1 xs = Inr n" using bounded_frame[OF l _ a] n by (simp add: cursor_of_version_def)
    then obtain g where g: "parse_bytes xs = Some (Inr (g, drop n xs))"
      using framed_parse[OF l] CesrGroup_parse_bytes(2)[OF l] by blast
    then show ?thesis using b1.parse_take[OF l g, of n] ln n' V1 by (simp add: parse_of_version_def)
  next
    case V2
    then have "frame_len_v2 xs = Inr n" using bounded_frame_v2[OF l _ a] n by (simp add: cursor_of_version_def)
    then obtain c k i g m where "v2.counter_head xs = Inr ((c, k), i)" "n = i + m"
      "group_body V2 (v2_refusal c) (v2_element_kind c) (v2_frame_kind c) k (drop i xs) = Inr (g, m)"
      using framed_v2_iff[OF l] by blast
    then have g: "parse_bytes_v2 xs = Some (Inr (g, drop n xs))" by (simp add: parse_bytes_eq[OF l])
    then show ?thesis using b2.parse_take[OF l g, of n] ln n' V2 by (simp add: parse_of_version_def)
  qed
qed

text \<open>
  The codec after a pending prefix: its cursor frames the rest of the buffer as a fresh one
  would frame the whole.
\<close>

definition codec_ok :: "CesrCodec \<Rightarrow> bytes \<Rightarrow> bool" where
  "codec_ok c buf \<longleftrightarrow> (\<forall>cur. cc_cursor c = Some cur \<longrightarrow>
     frame_ok cur buf (fl_attachment_bytes (cc_limits c)) \<and>
     (\<exists>cur0. cursor_of_version (cc_version c) buf = Inr cur0 \<and> check_elements (cc_limits c) cur0 = Inr () \<and>
        (\<forall>ys. length (buf @ ys) < usize_bound \<longrightarrow>
          advance_limited cur (buf @ ys) (fl_attachment_bytes (cc_limits c)) (fl_group_elements (cc_limits c)) (fl_signatures (cc_limits c)) =
          advance_limited cur0 (buf @ ys) (fl_attachment_bytes (cc_limits c)) (fl_group_elements (cc_limits c)) (fl_signatures (cc_limits c)))))"

lemma codec_ok_append:
  assumes "codec_ok c buf" "length (buf @ ys) < usize_bound"
  shows "codec_ok c (buf @ ys)"
  using assms frame_ok_append cursor_of_version_laws(1)[OF assms(2)]
  unfolding codec_ok_def by (metis append_assoc)

lemma codec_same:
  assumes l: "length buf < usize_bound" and ok: "codec_ok c buf" and ne: "buf \<noteq> []"
  shows "codec_decode c buf = codec_decode (CesrCodec_new (cc_version c) (cc_limits c)) buf"
proof (cases "cc_cursor c")
  case None
  then have "c = CesrCodec_new (cc_version c) (cc_limits c)" by (simp add: CesrCodec_new_def)
  then show ?thesis by simp
next
  case (Some cur)
  let ?c0 = "CesrCodec_new (cc_version c) (cc_limits c)"
  obtain cur0 where c0: "cursor_of_version (cc_version c) buf = Inr cur0" "check_elements (cc_limits c) cur0 = Inr ()"
    "advance_limited cur (buf @ []) (fl_attachment_bytes (cc_limits c)) (fl_group_elements (cc_limits c)) (fl_signatures (cc_limits c)) =
     advance_limited cur0 (buf @ []) (fl_attachment_bytes (cc_limits c)) (fl_group_elements (cc_limits c)) (fl_signatures (cc_limits c))"
    using ok Some l unfolding codec_ok_def by (metis append_Nil2)
  have e: "codec_cursor c buf = Inr (Some cur)" "codec_cursor ?c0 buf = Inr (Some cur0)"
    using Some c0 by (simp_all add: codec_cursor_def CesrCodec_new_def)
  have "codec_step c cur buf = codec_step ?c0 cur0 buf"
    using c0(3) by (cases c) (simp add: codec_step_def Let_def CesrCodec_new_def)
  then show ?thesis using e ne by (simp add: codec_decode_def)
qed

lemma codec_cursor_ok:
  assumes l: "length buf < usize_bound" and ok: "codec_ok c buf" and d: "codec_cursor c buf = Inr (Some cur)"
  shows "codec_ok (c\<lparr>cc_cursor := Some cur\<rparr>) buf"
proof (cases "cc_cursor c")
  case None
  have l': "length (buf @ []) < usize_bound" using l by simp
  have "cursor_of_version (cc_version c) buf = Inr cur \<and> check_elements (cc_limits c) cur = Inr ()"
    using d None by (auto simp: codec_cursor_def res_bind_Inr split: sum.splits ParseError.splits)
  then show ?thesis using cursor_of_version_laws(2)[OF l'] by (auto simp: codec_ok_def)
next
  case (Some x)
  then have "c\<lparr>cc_cursor := Some cur\<rparr> = c" using d by (simp add: codec_cursor_def)
  then show ?thesis using ok by simp
qed

lemma codec_step_pending:
  assumes "codec_step c cur buf = Some (Inr None, c', rest)"
  obtains k e where "advance_limited cur buf (fl_attachment_bytes (cc_limits c)) (fl_group_elements (cc_limits c))
      (fl_signatures (cc_limits c)) = (Inl (NeedBytes k), e)" "rest = buf" "c' = c\<lparr>cc_cursor := Some e\<rparr>"
  using assms
  by (auto simp: codec_step_def Let_def bind_eq_Some_conv split: sum.splits ParseError.splits prod.splits)
    (metis old.sum.exhaust surj_pair)

lemma codec_pending:
  assumes l: "length buf < usize_bound" and ok: "codec_ok c buf" and d: "codec_decode c buf = Some (Inr None, c', rest)"
  shows "rest = buf \<and> codec_ok c' buf \<and> cc_version c' = cc_version c \<and> cc_limits c' = cc_limits c"
proof (cases "buf = [] \<or> codec_cursor c buf = Inr None")
  case True
  then have "c' = c \<and> rest = buf" using d by (auto simp: codec_decode_def split: if_splits)
  then show ?thesis using ok by simp
next
  case False
  then obtain cur where cur: "codec_cursor c buf = Inr (Some cur)"
    using d by (auto simp: codec_decode_def split: sum.splits option.splits)
  let ?L = "cc_limits c"
  have st: "codec_step c cur buf = Some (Inr None, c', rest)" using d False cur by (simp add: codec_decode_def)
  then obtain k e where a: "advance_limited cur buf (fl_attachment_bytes ?L) (fl_group_elements ?L) (fl_signatures ?L) =
      (Inl (NeedBytes k), e)" and k: "rest = buf" "c' = c\<lparr>cc_cursor := Some e\<rparr>"
    by (rule codec_step_pending)
  from codec_cursor_ok[OF l ok cur] obtain cur0 where c0: "frame_ok cur buf (fl_attachment_bytes ?L)"
    "cursor_of_version (cc_version c) buf = Inr cur0" "check_elements ?L cur0 = Inr ()"
    "\<And>ys. length (buf @ ys) < usize_bound \<Longrightarrow>
       advance_limited cur (buf @ ys) (fl_attachment_bytes ?L) (fl_group_elements ?L) (fl_signatures ?L) =
       advance_limited cur0 (buf @ ys) (fl_attachment_bytes ?L) (fl_group_elements ?L) (fl_signatures ?L)"
    by (auto simp: codec_ok_def)
  have "length (buf @ []) < usize_bound" using l by simp
  from frame_ok_resume[OF this c0(1) a] have "frame_ok e buf (fl_attachment_bytes ?L)" by simp
  moreover have "advance_limited e (buf @ ys) (fl_attachment_bytes ?L) (fl_group_elements ?L) (fl_signatures ?L) =
      advance_limited cur0 (buf @ ys) (fl_attachment_bytes ?L) (fl_group_elements ?L) (fl_signatures ?L)"
    if "length (buf @ ys) < usize_bound" for ys
    using frame_ok_resume[OF that c0(1) a] c0(4)[OF that] by simp
  ultimately show ?thesis using k c0(2,3) by (auto simp: codec_ok_def)
qed

text \<open>The codecs that a stream of pending polls reaches, over a buffer that only grows.\<close>

inductive codec_fed :: "CesrVersion \<Rightarrow> FrameLimits \<Rightarrow> bytes \<Rightarrow> CesrCodec \<Rightarrow> bool" for version limits where
  codec_fed_new: "codec_fed version limits [] (CesrCodec_new version limits)"
| codec_fed_more: "codec_fed version limits xs c \<Longrightarrow> codec_decode c (xs @ ys) = Some (Inr None, c', rest) \<Longrightarrow>
    codec_fed version limits (xs @ ys) c'"

lemma codec_fed_ok:
  "codec_fed v limits xs c \<Longrightarrow> length xs < usize_bound \<Longrightarrow>
     codec_ok c xs \<and> cc_version c = v \<and> cc_limits c = limits \<and> (xs = [] \<longrightarrow> c = CesrCodec_new v limits)"
proof (induction rule: codec_fed.induct)
  case codec_fed_new
  then show ?case by (simp add: codec_ok_def CesrCodec_new_def)
next
  case (codec_fed_more xs c ys c' rest)
  have "length xs < usize_bound" using codec_fed_more.prems by simp
  then have "codec_ok c (xs @ ys)" using codec_fed_more.IH codec_fed_more.prems by (auto intro: codec_ok_append)
  note p = codec_pending[OF codec_fed_more.prems this codec_fed_more.hyps(2)]
  have IH: "cc_version c = v" "cc_limits c = limits" "xs = [] \<longrightarrow> c = CesrCodec_new v limits"
    using codec_fed_more.IH \<open>length xs < usize_bound\<close> by simp_all
  have "c' = c" if "xs @ ys = []" using codec_fed_more.hyps(2) that by (simp add: codec_decode_def)
  then show ?case using p IH by simp
qed

lemma codec_new_group:
  assumes l: "length buf < usize_bound"
  shows "\<exists>r c rest. codec_decode (CesrCodec_new v limits) buf = Some (r, c, rest) \<and>
    (\<forall>g. r = Inr (Some g) \<longrightarrow> c = CesrCodec_new v limits \<and> parse_of_version v buf = Some (Inr (g, rest)))"
proof (cases "\<exists>cur. buf \<noteq> [] \<and> codec_cursor (CesrCodec_new v limits) buf = Inr (Some cur)")
  case False
  then show ?thesis by (auto simp: codec_decode_def split: sum.splits option.splits)
next
  case True
  let ?c = "CesrCodec_new v limits"
  obtain cur where cur: "buf \<noteq> []" "codec_cursor ?c buf = Inr (Some cur)" using True by blast
  then have n: "cursor_of_version v buf = Inr cur"
    by (auto simp: codec_cursor_def CesrCodec_new_def res_bind_Inr split: sum.splits ParseError.splits)
  obtain r e where a: "advance_limited cur buf (fl_attachment_bytes limits) (fl_group_elements limits) (fl_signatures limits) = (r, e)"
    by (cases "advance_limited cur buf (fl_attachment_bytes limits) (fl_group_elements limits) (fl_signatures limits)")
  have step: "codec_decode ?c buf = codec_step ?c cur buf" using cur by (simp add: codec_decode_def)
  show ?thesis
  proof (cases r)
    case (Inl x)
    then show ?thesis using a step by (cases x) (auto simp: codec_step_def Let_def CesrCodec_new_def)
  next
    case (Inr m)
    note f = framed_of_version[OF l n a[unfolded Inr]]
    then obtain g where "parse_of_version v buf = Some (Inr (g, drop m buf))"
      "parse_of_version v (take m buf) = Some (Inr (g, []))" by blast
    then show ?thesis using step a Inr f(1)
      by (auto simp: codec_step_def Let_def CesrCodec_new_def slice_range_def split: sum.splits)
  qed
qed

section \<open>Property\<close>

text \<open>
  C37: The group decoder does not depend on how the stream is cut into reads. After any
  number of polls that returned no group, decoding the buffer gives what a fresh codec gives
  on the whole of it, without a panic; a group it returns is the one the version's parser
  reads at the head of the buffer, exactly its bytes are taken off, and the codec is fresh
  again.
\<close>

theorem codec_groups:
  assumes "codec_fed v limits xs c" "length (xs @ ys) < usize_bound"
  shows "\<exists>r c' rest. codec_decode c (xs @ ys) = Some (r, c', rest) \<and>
    codec_decode (CesrCodec_new v limits) (xs @ ys) = Some (r, c', rest) \<and>
    (\<forall>g. r = Inr (Some g) \<longrightarrow> c' = CesrCodec_new v limits \<and> parse_of_version v (xs @ ys) = Some (Inr (g, rest)))"
proof -
  have "length xs < usize_bound" using assms(2) by simp
  note ok = codec_fed_ok[OF assms(1) this]
  have "codec_decode c (xs @ ys) = codec_decode (CesrCodec_new v limits) (xs @ ys)"
  proof (cases "xs @ ys = []")
    case True
    then show ?thesis using ok by simp
  next
    case False
    then show ?thesis using codec_same[OF assms(2) codec_ok_append[OF _ assms(2)]] ok by simp
  qed
  then show ?thesis using codec_new_group[OF assms(2)] by simp
qed

lemma codec_groups_witness:
  "\<exists>r c' rest. codec_decode (CesrCodec_new V1 small_limits) (str_bytes ''-A'' @ str_bytes ''AA'') = Some (r, c', rest)"
proof -
  have "cursor_new_v1 (str_bytes ''-A'') = Inl (NeedBytes 2)" by code_simp
  then have "codec_decode (CesrCodec_new V1 small_limits) ([] @ str_bytes ''-A'') =
      Some (Inr None, CesrCodec_new V1 small_limits, str_bytes ''-A'')"
    by (simp add: codec_decode_def codec_cursor_def CesrCodec_new_def cursor_of_version_def
        check_pending_attachment_def small_limits_def str_bytes_def saturating_add_def Let_def)
  from codec_fed_more[OF codec_fed_new this]
  have "codec_fed V1 small_limits (str_bytes ''-A'') (CesrCodec_new V1 small_limits)" by simp
  moreover have "length (str_bytes ''-A'' @ str_bytes ''AA'') < usize_bound" by (simp add: str_bytes_def)
  ultimately show ?thesis using codec_groups by meson
qed

end
