(* ===== verification/Stream_Framing_Count.thy ===== *)
theory Stream_Framing_Count
  imports Stream_Framing_Props
begin

text \<open>
  What the bounded scan counts: the signatures of a group and of everything its enclosures
  hold, said over the bytes alone. A cursor keeps a running total under limits; here a group's
  signatures are counted element by element, with no limit and no state.
\<close>

section \<open>The signatures of one group\<close>

text \<open>An element is a signature, carries one, or ends in a counted list of them.\<close>

definition element_signatures :: "GroupKind \<Rightarrow> CesrVersion \<Rightarrow> bytes \<Rightarrow> nat" where
  "element_signatures kind v w =
     (case kind_cursor kind of
        None \<Rightarrow>
          (if kind \<in> {ControllerIdxSig, WitnessIdxSig, NonTransReceiptCouple, TransReceiptQuadruple} then 1 else 0)
      | Some n \<Rightarrow>
          (case sizes (replicate (ns_matters_left n) matter_size) w of
             Inl _ \<Rightarrow> 0
           | Inr i \<Rightarrow> (case count_head n v (drop i w) of Inl _ \<Rightarrow> 0 | Inr (count, _) \<Rightarrow> unat count)))"

fun elements_signatures :: "GroupKind \<Rightarrow> CesrVersion \<Rightarrow> nat \<Rightarrow> bytes \<Rightarrow> nat" where
  "elements_signatures kind v 0 w = 0"
| "elements_signatures kind v (Suc m) w =
     (case GroupKind_skip kind w v of
        Inl _ \<Rightarrow> 0
      | Inr n \<Rightarrow> element_signatures kind v w + elements_signatures kind v m (drop n w))"

definition cursor_signatures :: "GroupFrameCursor \<Rightarrow> bytes \<Rightarrow> nat" where
  "cursor_signatures c xs =
     (case gf_skip c of
        None \<Rightarrow> 0
      | Some kind \<Rightarrow> elements_signatures kind (gf_version c) (gf_remaining c) (drop (gf_end c) xs))"

lemma nested_sigs_declared: "nested_sigs d xs = (s, d') \<Longrightarrow> ns_declared_sigs d' = ns_declared_sigs d"
proof (induction d xs rule: nested_sigs.induct)
  case (1 d xs)
  then show ?case by (force simp: nested_sigs.simps[of d xs] split: option.splits nat.splits sum.splits)
qed

lemma element_signatures_nested:
  assumes k: "kind_cursor kind = Some c" and l: "length xs < usize_bound" and a: "nested_advance c xs v = (Inr n, c')"
  shows "ns_declared_sigs c' = Some (element_signatures kind v xs)"
proof -
  obtain m a' b where cn: "c = NestedSigCursor_new m a' b" using kind_cursor_new[OF k] by blast
  then have c: "ns_pos c = 0" "ns_sigs_left c = None" by (simp_all add: NestedSigCursor_new_def)
  from a[unfolded nested_advance_def] obtain c1 c2 s where s: "nested_matters c xs = (Inr (), c1)"
    "nested_counter c1 xs v usize_max usize_max = (Inr (), c2)" "nested_sigs c2 xs = (s, c')"
    by (cases rule: nested_advance_cases) auto
  obtain i where i: "sizes (replicate (ns_matters_left c) matter_size) xs = Inr i" "c1 = c\<lparr>ns_pos := i, ns_matters_left := 0\<rparr>"
    using nested_matters_size[OF l, of c] c s(1) by (cases "sizes (replicate (ns_matters_left c) matter_size) xs") auto
  have il: "i \<le> length xs" using sizes_bound[OF _ i(1)] by auto
  have h: "count_head c1 = count_head c" by (rule count_head_cong) (simp_all add: i(2))
  obtain count j where "count_head c v (drop i xs) = Inr (count, j)" "ns_declared_sigs c2 = Some (unat count)"
    using nested_counter_eq[of c1 xs v usize_max usize_max] s(2) il l c i(2) h
    by (auto split: sum.splits if_splits)
  then show ?thesis using nested_sigs_declared[OF s(3)] i(1) k by (simp add: element_signatures_def)
qed

text \<open>A total of new cursors: what it starts with, for elements that are or carry one signature.\<close>

lemma signatures_per_element_plain:
  "kind_cursor kind = None \<Longrightarrow> element_signatures kind v w = signatures_per_element kind"
  "kind_cursor kind \<noteq> None \<Longrightarrow> signatures_per_element kind = 0"
  by (cases kind; simp add: element_signatures_def kind_cursor_def)+

definition pending_signatures :: "GroupKind \<Rightarrow> CesrVersion \<Rightarrow> nat \<Rightarrow> bytes \<Rightarrow> nat" where
  "pending_signatures kind v m w = (if kind_cursor kind = None then 0 else elements_signatures kind v m w)"

lemma next_size_total:
  assumes n: "next_size c kind w me ms = (Inr k, d)" and f: "gf_nested c = kind_cursor kind" "\<not> gf_nested_counted c"
    and l: "length w < usize_bound"
  shows "gf_signature_total d =
    gf_signature_total c + (if kind_cursor kind = None then 0 else element_signatures kind (gf_version c) w)"
proof (cases "kind_cursor kind")
  case None
  then show ?thesis using n f by (auto simp: next_size_def)
next
  case (Some m)
  obtain out m' where a: "nested_advance_bounded m w (gf_version c) me (ms - gf_signature_total c) = (out, m')"
    by (cases "nested_advance_bounded m w (gf_version c) me (ms - gf_signature_total c)")
  have o: "out = Inr k" using n f Some a by (auto simp: next_size_def Let_def split: option.splits if_splits sum.splits)
  note e = element_signatures_nested[OF Some l nested_advance_unlimited[OF a[unfolded o]]]
  then show ?thesis using n f Some a o by (auto simp: next_size_def Let_def usize_add_def split: if_splits)
qed

text \<open>The count of an element does not depend on what follows it.\<close>

lemma element_signatures_append:
  assumes "kind_cursor kind = Some c" "length (w @ zs) < usize_bound" "nested_advance c w v = (Inr n, c')"
  shows "element_signatures kind v (w @ zs) = element_signatures kind v w"
proof -
  have lw: "length w < usize_bound" using assms(2) by simp
  have a: "nested_advance c (w @ zs) v = (Inr n, c')"
    using nested_success(1)[OF assms(2) _ assms(3)[unfolded nested_advance_def]] kind_cursor_new[OF assms(1)]
    by (simp add: nested_advance_def)
  have "ns_declared_sigs c' = Some (element_signatures kind v w)"
    by (rule element_signatures_nested[OF assms(1) lw assms(3)])
  moreover have "ns_declared_sigs c' = Some (element_signatures kind v (w @ zs))"
    by (rule element_signatures_nested[OF assms(1,2) a])
  ultimately show ?thesis by simp
qed

lemma frame_element_total:
  assumes l: "length xs < usize_bound" and ok: "cursor_ok c xs mb" "gf_skip c \<noteq> None"
    and k: "gf_nested c = kind_cursor kind" "\<not> gf_nested_counted c"
    and s: "frame_element c kind xs mb me ms = (Inr (), c')"
  shows "gf_signature_total c' = gf_signature_total c +
    (if kind_cursor kind = None then 0 else element_signatures kind (gf_version c) (drop (gf_end c) xs))"
proof -
  have e: "gf_end c \<le> length xs" "gf_end c \<le> mb" using ok by (auto simp: cursor_ok_def)
  let ?w = "window c xs mb" and ?z = "drop (min (length xs) mb - gf_end c) (drop (gf_end c) xs)"
  have d: "drop (gf_end c) xs = ?w @ ?z" by (simp add: window_def del: drop_drop)
  have lw: "length (?w @ ?z) < usize_bound" unfolding d[symmetric] using l by simp
  obtain r c1 where n: "next_size c kind ?w me ms = (r, c1)" by (cases "next_size c kind ?w me ms")
  obtain n where rn: "r = Inr n" using s frame_element_window[OF e] n
    by (cases r) (auto simp: frame_element_def past_limit_def Let_def split: ParseError.splits if_splits)
  have t: "gf_signature_total c' = gf_signature_total c1"
    using s n rn frame_element_window[OF e] by (auto simp: frame_element_def past_limit_def Let_def usize_add_def split: if_splits)
  have lw': "length ?w < usize_bound" using lw by simp
  note m = next_size_total[OF n[unfolded rn] k lw']
  show ?thesis
  proof (cases "kind_cursor kind")
    case None
    then show ?thesis using m t by simp
  next
    case (Some q)
    obtain out m' where a: "nested_advance_bounded q ?w (gf_version c) me (ms - gf_signature_total c) = (out, m')"
      by (cases "nested_advance_bounded q ?w (gf_version c) me (ms - gf_signature_total c)")
    have o: "out = Inr n" using n rn k Some a by (auto simp: next_size_def Let_def split: option.splits if_splits sum.splits)
    have "element_signatures kind (gf_version c) (drop (gf_end c) xs) = element_signatures kind (gf_version c) ?w"
      by (subst d) (rule element_signatures_append[OF Some lw nested_advance_unlimited[OF a[unfolded o]]])
    then show ?thesis using m t Some by simp
  qed
qed

lemma frame_loop_total:
  "length xs < usize_bound \<Longrightarrow> cursor_ok c xs mb \<Longrightarrow> gf_skip c \<noteq> None \<Longrightarrow> gf_nested c = kind_cursor kind \<Longrightarrow>
   \<not> gf_nested_counted c \<Longrightarrow> frame_loop c kind xs mb me ms = (Inr (), c') \<Longrightarrow>
   gf_signature_total c' = gf_signature_total c + pending_signatures kind (gf_version c) (gf_remaining c) (drop (gf_end c) xs) \<and>
   (\<exists>n. kind.span kind (gf_remaining c) (drop (gf_end c) xs) (gf_version c) = Inr n)"
proof (induction c kind xs mb me ms rule: frame_loop.induct)
  case (1 c kind xs mb me ms)
  note prems = "1.prems"
  show ?case
  proof (cases "gf_remaining c = 0")
    case True
    then show ?thesis using prems(6) by (simp add: frame_loop.simps[of c] pending_signatures_def)
  next
    case False
    obtain r d where f: "frame_element c kind xs mb me ms = (r, d)" by (cases "frame_element c kind xs mb me ms")
    then have r: "r = Inr ()" and d: "frame_loop d kind xs mb me ms = (Inr (), c')"
      using prems(6) False by (cases r; simp add: frame_loop.simps[of c])+
    obtain n where n: "GroupKind_skip kind (drop (gf_end c) xs) (gf_version c) = Inr n" "gf_end d = gf_end c + n"
      "gf_remaining d = gf_remaining c - 1" "gf_version d = gf_version c" "gf_skip d = gf_skip c"
      "gf_nested d = kind_cursor kind" "\<not> gf_nested_counted d" "cursor_ok d xs mb"
      using frame_element_span[OF prems(1-5) f[unfolded r]] by blast
    have I: "gf_signature_total c' = gf_signature_total d +
        pending_signatures kind (gf_version d) (gf_remaining d) (drop (gf_end d) xs) \<and>
        (\<exists>n. kind.span kind (gf_remaining d) (drop (gf_end d) xs) (gf_version d) = Inr n)"
      by (rule "1.IH"[OF False f[symmetric] r prems(1) n(8) _ n(6,7) d]) (use n(5) prems(3) in simp)
    note t = frame_element_total[OF prems(1-5) f[unfolded r]]
    obtain j where j: "gf_remaining c = Suc j" using False by (cases "gf_remaining c") auto
    have dd: "drop (gf_end d) xs = drop n (drop (gf_end c) xs)" by (simp add: n(2) add.commute)
    show ?thesis using I t n(1,3,4) j unfolding dd by (auto simp: pending_signatures_def simp del: drop_drop)
  qed
qed

lemma plain_signatures:
  "kind_cursor kind = None \<Longrightarrow> kind.span kind m w v = Inr n \<Longrightarrow>
     elements_signatures kind v m w = m * signatures_per_element kind"
proof (induction m arbitrary: w n)
  case (Suc m)
  then obtain k j where "GroupKind_skip kind w v = Inr k" "kind.span kind m (drop k w) v = Inr j" by (auto split: sum.splits)
  with Suc show ?case by (simp add: signatures_per_element_plain)
qed simp

definition counted_cursor :: "GroupFrameCursor \<Rightarrow> bool" where
  "counted_cursor c \<longleftrightarrow>
     gf_signature_total c = (case gf_skip c of None \<Rightarrow> 0 | Some kind \<Rightarrow> gf_remaining c * signatures_per_element kind)"

lemma spe_le: "signatures_per_element kind \<le> 1"
  by (cases kind) simp_all

lemma counted_cursor_new: "cursor_new_v1 xs = Inr c \<Longrightarrow> counted_cursor c" "cursor_new_v2 xs = Inr c \<Longrightarrow> counted_cursor c"
proof -
  have m: "saturating_mul (unat (n :: u32)) (signatures_per_element kind) = unat n * signatures_per_element kind" for n kind
  proof -
    have "unat n * signatures_per_element kind \<le> unat n * 1" by (rule mult_le_mono2[OF spe_le])
    moreover have "unat n < 2 ^ 32" using unsigned_less[of n, where 'a = nat] by simp
    moreover have "(2 :: nat) ^ 32 \<le> usize_bound - 1" by simp
    ultimately have "unat n * signatures_per_element kind \<le> usize_bound - 1" by linarith
    then show ?thesis unfolding saturating_mul_def by (rule min_absorb1)
  qed
  have e: "counted_cursor (cursor_elements kind k n v\<lparr>gf_attachment_envelope := a, gf_enclosing := b\<rparr>)"
    "counted_cursor (cursor_elements kind k n v\<lparr>gf_enclosing := b\<rparr>)" for kind k n v a b
    by (simp_all add: counted_cursor_def cursor_elements_def m)
  have q: "cursor_quadlets k n v = Inr d \<Longrightarrow> counted_cursor (d\<lparr>gf_attachment_envelope := a, gf_enclosing := b\<rparr>)"
    "cursor_quadlets k n v = Inr d \<Longrightarrow> counted_cursor (d\<lparr>gf_enclosing := b\<rparr>)" for k n v d a b
    by (auto simp: counted_cursor_def cursor_quadlets_def)
  show "cursor_new_v1 xs = Inr c \<Longrightarrow> counted_cursor c" "cursor_new_v2 xs = Inr c \<Longrightarrow> counted_cursor c"
    using e q by (auto simp: cursor_new_v1_def cursor_new_v2_def v2_elements_def Let_def split: option.splits if_splits)
qed

text \<open>The total of a cursor that has framed its group is the number of its signatures.\<close>

lemma advance_total:
  assumes l: "length xs < usize_bound" and n: "new_cursor c" "counted_cursor c" and f: "frame_ok c xs mb"
    and a: "advance_limited c xs mb me ms = (Inr n, d)"
  shows "gf_signature_total d = cursor_signatures c xs"
proof (cases "gf_skip c")
  case None
  then have "d = c" using a by (auto simp: advance_limited_def split: if_splits)
  then show ?thesis using None n(2) by (simp add: cursor_signatures_def counted_cursor_def)
next
  case (Some kind)
  have "gf_end c \<le> mb" using a by (auto simp: advance_limited_def split: if_splits)
  then have ok: "cursor_ok c xs mb" using f by (simp add: frame_ok_def)
  have fr: "gf_nested c = kind_cursor kind" "\<not> gf_nested_counted c" using n Some by (simp_all add: new_cursor_def fresh_cursor_def)
  have lo: "frame_loop c kind xs mb me ms = (Inr (), d)"
    using a Some by (auto simp: advance_limited_def split: if_splits prod.splits sum.splits)
  have sk: "gf_skip c \<noteq> None" using Some by simp
  note t = frame_loop_total[OF l ok sk fr lo]
  show ?thesis
  proof (cases "kind_cursor kind = None")
    case True
    then show ?thesis using t Some n(2) plain_signatures[OF True]
      by (auto simp: cursor_signatures_def counted_cursor_def pending_signatures_def)
  next
    case False
    have "gf_signature_total c = 0" using Some n(2) signatures_per_element_plain(2)[OF False] by (simp add: counted_cursor_def)
    moreover have "pending_signatures kind (gf_version c) (gf_remaining c) (drop (gf_end c) xs) = cursor_signatures c xs"
      using False Some unfolding pending_signatures_def cursor_signatures_def by (simp only: if_False option.case)
    ultimately show ?thesis using t by simp
  qed
qed

section \<open>What an enclosure holds\<close>

text \<open>
  One group at the head of the bytes: its length, the signatures of its own elements, and the
  bytes it encloses, when its code encloses any.
\<close>

definition cursor_at :: "CesrVersion \<Rightarrow> bytes \<Rightarrow> ParseError + GroupFrameCursor" where
  "cursor_at v xs = (case v of V1 \<Rightarrow> cursor_new_v1 xs | V2 \<Rightarrow> cursor_new_v2 xs)"

definition enclosed_bytes :: "GroupFrameCursor \<Rightarrow> nat \<Rightarrow> bytes \<Rightarrow> bytes option" where
  "enclosed_bytes c n xs =
     (if gf_enclosing c then map_option (\<lambda>k. take (n - k) (drop k xs)) (gf_payload_start c) else None)"

definition group_at :: "CesrVersion \<Rightarrow> bytes \<Rightarrow> nat \<Rightarrow> nat \<Rightarrow> bytes option \<Rightarrow> bool" where
  "group_at v xs n t inner \<longleftrightarrow>
     (\<exists>c. cursor_at v xs = Inr c \<and> fst (cursor_advance c xs) = Inr n \<and> t = cursor_signatures c xs \<and>
        inner = enclosed_bytes c n xs)"

text \<open>An item that is no group: a primitive, which is a signature or is not, or a whole message body.\<close>

definition atom_at :: "bytes \<Rightarrow> nat \<Rightarrow> nat \<Rightarrow> bool" where
  "atom_at xs n k \<longleftrightarrow>
     (\<exists>cold. xs \<noteq> [] \<and> ColdCode_detect (hd xs) = Inr cold \<and>
        (cold = CesrBase64 \<and>
           (\<exists>code ts. from_base64_stream xs = Inr code \<and> skip_matter (TextStream_new xs) = Inr ts \<and> n = ts_pos ts \<and>
              k = (if is_ok (SignatureCode_try_from code) then 1 else 0)) \<or>
         cold \<notin> {CesrBase64, CesrBinary} \<and> event_size xs cold = Inr n \<and> n \<le> length xs \<and> k = 0))"

text \<open>
  The signatures of a sequence of items and of one group: its own, and those of everything it
  encloses, read under the version its payload declares.
\<close>

inductive holds :: "CesrVersion \<Rightarrow> bytes \<Rightarrow> nat \<Rightarrow> bool"
  and group_holds :: "CesrVersion \<Rightarrow> bytes \<Rightarrow> nat \<Rightarrow> nat \<Rightarrow> bool" where
  holds_nothing: "holds v [] 0"
| holds_atom: "xs \<noteq> [] \<Longrightarrow> hd xs \<noteq> of_char CHR ''-'' \<Longrightarrow> atom_at xs n k \<Longrightarrow> holds v (drop n xs) m \<Longrightarrow> holds v xs (k + m)"
| holds_group: "xs \<noteq> [] \<Longrightarrow> hd xs = of_char CHR ''-'' \<Longrightarrow> group_holds v xs n g \<Longrightarrow> holds v (drop n xs) m \<Longrightarrow>
    holds v xs (g + m)"
| group_plain: "group_at v xs n t None \<Longrightarrow> group_holds v xs n t"
| group_enclosing: "group_at v xs n t (Some inner) \<Longrightarrow> enclosed_version inner v = Inr (v', i) \<Longrightarrow>
    holds v' (drop i inner) m \<Longrightarrow> group_holds v xs n (t + m)"

inductive_cases holdsE: "holds v xs s"
inductive_cases group_holdsE: "group_holds v xs n s"

text \<open>The bytes decide the count.\<close>

lemma group_at_unique: "group_at v xs n t inner \<Longrightarrow> group_at v xs n' t' inner' \<Longrightarrow> n = n' \<and> t = t' \<and> inner = inner'"
  by (auto simp: group_at_def)

lemma atom_at_unique: "atom_at xs n k \<Longrightarrow> atom_at xs n' k' \<Longrightarrow> n = n' \<and> k = k'"
  by (auto simp: atom_at_def)

lemma holds_unique:
  "holds v xs s \<Longrightarrow> holds v xs s' \<Longrightarrow> s = s'"
  "group_holds v xs n s \<Longrightarrow> group_holds v xs n' s' \<Longrightarrow> n = n' \<and> s = s'"
proof (induction arbitrary: s' and n' s' rule: holds_group_holds.inducts)
  case (holds_nothing v)
  then show ?case by (auto elim: holdsE)
next
  case (holds_atom xs n k v m)
  from holds_atom.prems obtain n2 k2 m2 where "atom_at xs n2 k2" "holds v (drop n2 xs) m2" "s' = k2 + m2"
    using holds_atom.hyps(1,2) by (auto elim: holdsE)
  moreover from this have "n2 = n" "k2 = k" using atom_at_unique[OF holds_atom.hyps(3)] by blast+
  ultimately show ?case using holds_atom.IH by blast
next
  case (holds_group xs v n g m)
  from holds_group.prems obtain n2 g2 m2 where "group_holds v xs n2 g2" "holds v (drop n2 xs) m2" "s' = g2 + m2"
    using holds_group.hyps(1,2) by (auto elim: holdsE)
  then show ?case using holds_group.IH by blast
next
  case (group_plain v xs n t)
  from group_plain.prems show ?case
    by (rule group_holdsE) (use group_at_unique[OF group_plain.hyps] in blast)+
next
  case (group_enclosing v xs n t inner v' i m)
  from group_enclosing.prems obtain t2 inner2 v2 i2 m2 where 2: "group_at v xs n' t2 (Some inner2)"
      "enclosed_version inner2 v = Inr (v2, i2)" "holds v2 (drop i2 inner2) m2" "s' = t2 + m2"
    by (rule group_holdsE) (use group_at_unique[OF group_enclosing.hyps(1)] in blast)+
  from group_at_unique[OF group_enclosing.hyps(1) 2(1)] have "n = n'" "t = t2" "inner = inner2" by simp_all
  with 2 group_enclosing.hyps(2) group_enclosing.IH show ?case by auto
qed

section \<open>A count never exceeds the bytes\<close>

lemma sizes_count: "\<forall>f \<in> set fs. sizer f \<Longrightarrow> sizes fs xs = Inr n \<Longrightarrow> length fs \<le> n"
proof (induction fs arbitrary: xs n)
  case (Cons f fs)
  then obtain k m where k: "f xs = Inr k" "sizes fs (drop k xs) = Inr m" "n = k + m" by auto
  then show ?case using Cons.IH[of "drop k xs" m] sizer_bound[of f xs k] Cons.prems(1) by auto
qed simp

lemma element_signatures_le:
  assumes l: "length w < usize_bound" and n: "GroupKind_skip kind w v = Inr n"
  shows "element_signatures kind v w \<le> n"
proof (cases "kind_cursor kind")
  case None
  then show ?thesis using kind.skip_bound[OF l n] by (simp add: element_signatures_def)
next
  case (Some c)
  obtain m a b where c: "c = NestedSigCursor_new m a b" using kind_cursor_new[OF Some] by blast
  then have p: "ns_pos c = 0" "ns_sigs_left c = None" by (simp_all add: NestedSigCursor_new_def)
  have "nested_size c v w = Inr n" using n kind_skip_nested[OF Some] nested_advance_size[OF l p] by simp
  then obtain i count j k where s: "sizes (replicate (ns_matters_left c) matter_size) w = Inr i"
      "count_head c v (drop i w) = Inr (count, j)" "sizes (replicate (unat count) indexer_size) (drop j (drop i w)) = Inr k"
      "n = i + (j + k)"
    by (auto simp: nested_size_def simp del: drop_drop)
  have "unat count \<le> k" using sizes_count[OF _ s(3)] by auto
  then show ?thesis using s Some by (simp add: element_signatures_def)
qed

lemma elements_signatures_le:
  "length w < usize_bound \<Longrightarrow> kind.span kind m w v = Inr n \<Longrightarrow> elements_signatures kind v m w \<le> n"
proof (induction m arbitrary: w n)
  case (Suc m)
  then obtain k j where k: "GroupKind_skip kind w v = Inr k" "kind.span kind m (drop k w) v = Inr j" "n = k + j" by auto
  have "length (drop k w) < usize_bound" using Suc.prems(1) by auto
  with Suc.IH[OF this k(2)] k element_signatures_le[OF Suc.prems(1) k(1)] show ?case by simp
qed simp

text \<open>What a code encloses is counted in quadlets, so such a group has no elements.\<close>

lemma cursor_at_enclosing: "cursor_at v xs = Inr c \<Longrightarrow> gf_enclosing c \<Longrightarrow> gf_skip c = None"
  by (cases v)
     (auto simp: cursor_at_def cursor_new_v1_def cursor_new_v2_def v2_elements_def Let_def cursor_quadlets_def
       v1_enclosing_codes_def v1_element_kind_def v2_enclosing_codes_def v2_element_kind_def v2_quadlet_codes_def
       split: option.splits if_splits)

lemma cursor_at_laws:
  assumes "length xs < usize_bound" "cursor_at v xs = Inr c"
  shows "frame_ok c xs mb" "new_cursor c" "counted_cursor c" "4 \<le> gf_end c" "gf_payload_start c = Some k \<Longrightarrow> 4 \<le> k"
  using assms frame_ok_new_v1 frame_ok_new_v2 cursor_new_fresh counted_cursor_new cursor_new_start
  by (cases v; force simp: cursor_at_def)+

lemma group_at_bound:
  assumes l: "length xs < usize_bound" and g: "group_at v xs n t inner"
  shows "t \<le> n" "n \<le> length xs" "inner = Some q \<Longrightarrow> t + length q \<le> n"
proof -
  obtain c where c: "cursor_at v xs = Inr c" "fst (cursor_advance c xs) = Inr n" "t = cursor_signatures c xs"
    "inner = enclosed_bytes c n xs"
    using g by (auto simp: group_at_def)
  note laws = cursor_at_laws[OF l c(1)]
  obtain d where a: "advance_limited c xs usize_max usize_max usize_max = (Inr n, d)"
    using c(2) by (cases "cursor_advance c xs") (simp add: cursor_advance_def advance_bounded_def)
  have e: "n = gf_end d" "n \<le> length xs" "gf_end c \<le> gf_end d" using advance_end[OF a] advance_fields[OF a] by simp_all
  show "n \<le> length xs" by (rule e(2))
  show t: "t \<le> n"
  proof (cases "gf_skip c")
    case None
    then show ?thesis using c(3) by (simp add: cursor_signatures_def)
  next
    case (Some kind)
    have "gf_end c \<le> usize_max" using a by (auto simp: advance_limited_def split: if_splits)
    then have ok: "cursor_ok c xs usize_max" using laws(1) by (simp add: frame_ok_def)
    have fr: "gf_nested c = kind_cursor kind" "\<not> gf_nested_counted c"
      using laws(2) Some by (simp_all add: new_cursor_def fresh_cursor_def)
    have lo: "frame_loop c kind xs usize_max usize_max usize_max = (Inr (), d)"
      using a Some by (auto simp: advance_limited_def split: if_splits prod.splits sum.splits)
    have sk: "gf_skip c \<noteq> None" using Some by simp
    from frame_loop_span[OF l ok sk fr lo] obtain m where
      m: "kind.span kind (gf_remaining c) (drop (gf_end c) xs) (gf_version c) = Inr m" "gf_end d = gf_end c + m" by blast
    have "length (drop (gf_end c) xs) < usize_bound" using l by auto
    from elements_signatures_le[OF this m(1)] m(2) e(1) c(3) Some show ?thesis by (simp add: cursor_signatures_def)
  qed
  show "t + length q \<le> n" if "inner = Some q"
  proof -
    have "gf_skip c = None" using cursor_at_enclosing[OF c(1)] c(4) that by (auto simp: enclosed_bytes_def split: if_splits)
    moreover have "length q \<le> n"
      using c(4) that by (cases "gf_payload_start c") (auto simp: enclosed_bytes_def split: if_splits)
    ultimately show ?thesis using c(3) by (simp add: cursor_signatures_def)
  qed
qed

lemma atom_at_bound:
  assumes "atom_at xs n k"
  shows "0 < n" "n \<le> length xs" "k \<le> 1"
proof -
  have m: "skip_matter (TextStream_new xs) = Inr ts \<Longrightarrow> 0 < ts_pos ts \<and> ts_pos ts \<le> length xs" for ts
    using frame_size_pos[of xs] by (auto simp: skip_matter_def take_span_def Let_def split: if_splits)
  have e: "event_size xs cold = Inr j \<Longrightarrow> 0 < j" for cold j
    using event_size_min[of xs cold j] by (simp add: VERSION_STRING_LEN_def)
  show "0 < n" "n \<le> length xs" "k \<le> 1" using assms m e by (auto simp: atom_at_def)
qed

lemma holds_bound:
  "holds v xs s \<Longrightarrow> length xs < usize_bound \<Longrightarrow> s \<le> length xs"
  "group_holds v xs n g \<Longrightarrow> length xs < usize_bound \<Longrightarrow> g \<le> n \<and> n \<le> length xs"
proof (induction rule: holds_group_holds.inducts)
  case (holds_atom xs n k v m)
  have "m \<le> length xs - n" using holds_atom.IH holds_atom.prems by simp
  then show ?case using atom_at_bound[OF holds_atom.hyps(3)] by linarith
next
  case (holds_group xs v n g m)
  have "m \<le> length xs - n" "g \<le> n \<and> n \<le> length xs" using holds_group.IH holds_group.prems by simp_all
  then show ?case by linarith
next
  case (group_plain v xs n t)
  then show ?case using group_at_bound by blast
next
  case (group_enclosing v xs n t inner v' i m)
  note b = group_at_bound[OF group_enclosing.prems group_enclosing.hyps(1)]
  have "length inner \<le> n" using b(3)[OF refl] by simp
  then have "m \<le> length inner - i" using group_enclosing.IH b(2) group_enclosing.prems by simp
  with b(3)[OF refl] b(2) show ?case by linarith
qed simp

section \<open>The scan computes it\<close>

lemma advance_group_at:
  assumes l: "length xs < usize_bound" and c: "cursor_at v xs = Inr c"
    and a: "advance_limited c xs mb me ms = (Inr n, d)" and p: "enclosing_payload d xs = Inr inner"
  shows "group_at v xs n (gf_signature_total d) inner"
proof -
  note laws = cursor_at_laws[OF l c]
  have "inner = enclosed_bytes c n xs"
    using p advance_fields[OF a] advance_end[OF a]
    by (auto simp: enclosing_payload_def enclosed_bytes_def slice_range_def split: if_splits)
  then show ?thesis
    using c bounded_advance[OF l laws(2,1) a] advance_total[OF l laws(2,3,1) a] by (auto simp: group_at_def)
qed

lemma scan_child_group:
  assumes l: "length tail < usize_bound" and s: "scan_child limits s tail v = Inr (c, n)"
    and p: "enclosing_payload c tail = Inr inner"
  shows "group_at v tail n (gf_signature_total c) inner"
proof -
  obtain c0 where c0: "cursor_at v tail = Inr c0" using s by (auto simp: scan_child_def cursor_at_def)
  obtain r d where a: "advance_limited c0 tail usize_max (fl_group_elements limits) (fl_signatures limits - s) = (r, d)"
    by (cases "advance_limited c0 tail usize_max (fl_group_elements limits) (fl_signatures limits - s)")
  then have "r = Inr n" "d = c" using s c0 by (auto simp: scan_child_def cursor_at_def)
  then show ?thesis using advance_group_at[OF l c0 a[unfolded \<open>r = Inr n\<close>]] p by simp
qed

lemma skip_enclosed_atom_at:
  assumes "skip_enclosed_atom limits xs = Inr (n, k)"
  shows "atom_at xs n k"
proof -
  obtain cold where c: "xs \<noteq> []" "ColdCode_detect (hd xs) = Inr cold"
    using assms by (cases xs) (auto simp: skip_enclosed_atom_def slice_get_def)
  then have g: "slice_get xs 0 = Some (hd xs)" by (simp add: slice_get_def hd_conv_nth)
  show ?thesis
    unfolding atom_at_def by (rule exI[of _ cold], use assms c g in \<open>cases cold\<close>)
      (auto simp: skip_enclosed_atom_def not_less split: if_splits)
qed

text \<open>
  A stack of open enclosures holds what each of them still has to read. A running total only
  saturates, so it is the sum or the largest value there is.
\<close>

definition level_holds :: "bytes \<times> nat \<times> nat \<times> CesrVersion \<Rightarrow> nat \<Rightarrow> bool" where
  "level_holds level m \<longleftrightarrow> (case level of (xs, i, d, v) \<Rightarrow> holds v (drop i xs) m)"

lemma level_holds_simp [simp]: "level_holds (xs, i, d, v) m \<longleftrightarrow> holds v (drop i xs) m"
  by (simp add: level_holds_def)

lemma saturating_assoc: "saturating_add (saturating_add s a) b = saturating_add s (a + b)"
  by (auto simp: saturating_add_def)

lemma list_all2_front: "list_all2 P (x # xs) ms \<longleftrightarrow> (\<exists>m ns. ms = m # ns \<and> P x m \<and> list_all2 P xs ns)"
  by (auto simp: list_all2_Cons1)

lemma scan_loop_holds:
  "list_all (\<lambda>(xs, _). length xs < usize_bound) stack \<Longrightarrow> s < usize_bound \<Longrightarrow> scan_loop limits stack nested s = Inr t \<Longrightarrow>
   \<exists>ms. list_all2 level_holds stack ms \<and> t = saturating_add s (sum_list ms)"
proof (induction limits stack nested s rule: scan_loop.induct)
  case (1 limits nested s)
  then show ?case by (simp add: saturating_add_def)
next
  case (2 limits input cursor depth v stack nested s)
  show ?case
  proof (cases "cursor = length input")
    case True
    then obtain ms where "list_all2 level_holds stack ms" "t = saturating_add s (sum_list ms)"
      using "2.prems" "2.IH"(1) by (auto simp: scan_loop.simps(2))
    then show ?thesis using True by (intro exI[of _ "0 # ms"]) (simp add: holds_nothing)
  next
    case c: False
    obtain tail where tail: "slice_from input cursor = Some tail"
      using "2.prems"(3) c by (cases "slice_from input cursor") (simp_all add: scan_loop.simps(2))
    then have ct: "tail = drop cursor input" "cursor \<le> length input" "tail \<noteq> []" using c by auto
    then have hd: "slice_get tail 0 = Some (hd tail)" by (simp add: slice_get_def hd_conv_nth)
    have lt: "length tail < usize_bound" using ct(1) "2.prems"(1) by auto
    have sat: "saturating_add s a < usize_bound" for a by (simp add: saturating_add_def)
    show ?thesis
    proof (cases "slice_get tail 0 \<noteq> Some (of_char CHR ''-'')")
      case atom: True
      obtain n a where a: "skip_enclosed_atom limits tail = Inr (n, a)"
        using "2.prems"(3) c tail atom by (cases "skip_enclosed_atom limits tail") (auto simp: scan_loop.simps(2))
      let ?s = "saturating_add s a"
      have le: "?s \<le> fl_signatures limits"
        and t: "scan_loop limits ((input, cursor + n, depth, v) # stack) nested ?s = Inr t"
        using "2.prems"(3) c tail atom a by (auto simp: scan_loop.simps(2)[of limits input cursor] Let_def split: if_splits)
      obtain ms where ms: "list_all2 level_holds ((input, cursor + n, depth, v) # stack) ms" "t = saturating_add ?s (sum_list ms)"
        using "2.IH"(2)[OF c tail atom a refl refl _ _ sat t] "2.prems" le by (auto simp: not_less)
      then obtain m ns where m: "ms = m # ns" "holds v (drop (cursor + n) input) m" "list_all2 level_holds stack ns"
        by (auto simp: list_all2_front)
      have "holds v tail (a + m)"
        by (rule holds_atom[OF ct(3) _ skip_enclosed_atom_at[OF a]])
          (use atom hd m(2) ct(1) in \<open>simp_all add: add.commute\<close>)
      then show ?thesis
        using m ms(2) ct(1) by (intro exI[of _ "(a + m) # ns"]) (simp add: saturating_assoc add.assoc)
    next
      case group: False
      obtain nested' where n: "enter_nested_group limits nested = Inr nested'"
        using "2.prems"(3) c tail group by (cases "enter_nested_group limits nested") (auto simp: scan_loop.simps(2))
      obtain g en where g: "scan_child limits s tail v = Inr (g, en)"
        using "2.prems"(3) c tail group n by (cases "scan_child limits s tail v") (auto simp: scan_loop.simps(2))
      let ?t = "gf_signature_total g"
      let ?s = "saturating_add s ?t" and ?stack = "(input, cursor + en, depth, v) # stack"
      obtain p where p: "enclosing_payload g tail = Inr p"
        using "2.prems"(3) c tail group n g by (cases "enclosing_payload g tail") (auto simp: scan_loop.simps(2) Let_def)
      note at = scan_child_group[OF lt g p]
      have "\<exists>k m ns. group_holds v tail en k \<and> holds v (drop (cursor + en) input) m \<and> list_all2 level_holds stack ns \<and>
          t = saturating_add s (k + m + sum_list ns)"
      proof (cases p)
        case None
        then have t: "scan_loop limits ?stack nested' ?s = Inr t"
          using "2.prems"(3) c tail group n g p by (simp add: scan_loop.simps(2)[of limits input cursor] Let_def)
        obtain ms where ms: "list_all2 level_holds ?stack ms" "t = saturating_add ?s (sum_list ms)"
          using "2.IH"(3)[OF c tail group n g refl refl refl p None _ sat t] "2.prems" by auto
        then obtain m ns where "holds v (drop (cursor + en) input) m" "list_all2 level_holds stack ns" "ms = m # ns"
          by (auto simp: list_all2_front)
        with group_plain[OF at[unfolded None]] ms(2) show ?thesis
          by (intro exI[of _ ?t] exI[of _ m] exI[of _ ns]) (simp add: saturating_assoc add.assoc)
      next
        case (Some inner)
        obtain iv io where i: "enclosed_version inner v = Inr (iv, io)" "\<not> fl_nesting_depth limits < saturating_add depth 1"
          using "2.prems"(3) c tail group n g p Some
          by (cases "enclosed_version inner v") (auto simp: scan_loop.simps(2)[of limits input cursor] Let_def split: if_splits)
        then have t: "scan_loop limits ((inner, io, saturating_add depth 1, iv) # ?stack) nested' ?s = Inr t"
          using "2.prems"(3) c tail group n g p Some by (simp add: scan_loop.simps(2)[of limits input cursor] Let_def)
        have "length inner < usize_bound" using enclosing_payload_length[of g tail inner] p Some lt by simp
        then obtain ms where ms: "list_all2 level_holds ((inner, io, saturating_add depth 1, iv) # ?stack) ms"
            "t = saturating_add ?s (sum_list ms)"
          using "2.IH"(4)[OF c tail group n g refl refl refl p Some refl i(2) i(1) refl _ sat t] "2.prems" by auto
        then obtain k m ns where k: "holds iv (drop io inner) k" "holds v (drop (cursor + en) input) m"
            "list_all2 level_holds stack ns" "ms = k # m # ns"
          by (auto simp: list_all2_front)
        with group_enclosing[OF at[unfolded Some] i(1) k(1)] ms(2) show ?thesis
          by (intro exI[of _ "?t + k"] exI[of _ m] exI[of _ ns]) (simp add: saturating_assoc add.assoc)
      qed
      then obtain k m ns where k: "group_holds v tail en k" "holds v (drop (cursor + en) input) m"
          "list_all2 level_holds stack ns" "t = saturating_add s (k + m + sum_list ns)" by blast
      have "holds v tail (k + m)"
        by (rule holds_group[OF ct(3) _ k(1)]) (use group hd k(2) ct(1) in \<open>simp_all add: add.commute\<close>)
      then show ?thesis using k(3,4) ct(1) by (intro exI[of _ "(k + m) # ns"]) simp
    qed
  qed
qed

lemma scan_enclosure_holds:
  assumes l: "length p < usize_bound" and s: "s < usize_bound" and e: "scan_enclosure limits p s v = Inr n"
  obtains v' i m where "enclosed_version p v = Inr (v', i)" "holds v' (drop i p) m" "n = saturating_add s m - s"
proof -
  obtain v' i t where t: "enclosed_version p v = Inr (v', i)" "scan_loop limits [(p, i, 1, v')] 0 s = Inr t" "n = t - s"
    using e by (auto simp: scan_enclosure_def split: if_splits)
  from scan_loop_holds[OF _ s t(2)] l obtain m where "holds v' (drop i p) m" "t = saturating_add s m"
    by (auto simp: list_all2_front)
  with t that show thesis by blast
qed

section \<open>Properties\<close>

text \<open>
  C34: A group admitted by the bounded scan lies in the input and within the attachment
  limit, and its count is exact and within the signature limit: it is the number of
  signatures the bytes hold, those of the group's elements, of its nested lists, and of every
  group and lone primitive in its enclosures at any depth.
\<close>

theorem scan_group_limits:
  assumes "limits_ok limits" "length xs < usize_bound" "scan_group_v1 limits xs = Inr (n, s)"
  shows "n \<le> length xs \<and> n \<le> fl_attachment_bytes limits \<and> s \<le> fl_signatures limits \<and>
    (group_holds V1 xs n' s' \<longleftrightarrow> n' = n \<and> s' = s)"
proof -
  obtain c where c: "cursor_new_v1 xs = Inr c" using assms(3) by (auto simp: scan_group_v1_def)
  obtain r d where a: "advance_limited c xs (fl_attachment_bytes limits) (fl_group_elements limits) (fl_signatures limits) = (r, d)"
    by (cases "advance_limited c xs (fl_attachment_bytes limits) (fl_group_elements limits) (fl_signatures limits)")
  let ?t = "gf_signature_total d"
  obtain p k where p: "r = Inr n" "enclosing_payload d xs = Inr p"
    "(case p of Some q \<Rightarrow> scan_enclosure limits q ?t V1 | None \<Rightarrow> Inr 0) = Inr k" "s = saturating_add ?t k"
    using assms(3) c a by (auto simp: scan_group_v1_def Let_def)
  have l': "length (xs @ []) < usize_bound" using assms(2) by simp
  have c': "cursor_at V1 xs = Inr c" using c by (simp add: cursor_at_def)
  note f = frame_ok_done[OF l' frame_ok_new_v1[OF assms(2) c] a[unfolded p(1)]]
  note at = advance_group_at[OF assms(2) c' a[unfolded p(1)] p(2)]
  have tb: "?t < usize_bound" using f(5) assms(1) by (simp add: limits_ok_def)
  have "group_holds V1 xs n s \<and> s \<le> fl_signatures limits"
  proof (cases p)
    case None
    then have "s = ?t" using p(3,4) tb by (simp add: saturating_add_def)
    then show ?thesis using group_plain[OF at[unfolded None]] f(5) by simp
  next
    case (Some q)
    have q: "length q < usize_bound" using enclosing_payload_length[of d xs q] p(2) Some assms(2) by simp
    have e: "scan_enclosure limits q ?t V1 = Inr k" using p(3) Some by simp
    obtain v' i m where m: "enclosed_version q V1 = Inr (v', i)" "holds v' (drop i q) m" "k = saturating_add ?t m - ?t"
      by (rule scan_enclosure_holds[OF q tb e])
    note h = group_enclosing[OF at[unfolded Some] m(1,2)]
    have "?t + m < usize_bound" using holds_bound(2)[OF h assms(2)] assms(2) by linarith
    then have "k = m" "s = ?t + m" using m(3) p(4) by (simp_all add: saturating_add_def)
    then show ?thesis
      using h scan_enclosure_limit[OF _ q f(5) e] assms(1) by (simp add: limits_ok_def)
  qed
  then show ?thesis using f(3,4) holds_unique(2) by blast
qed

section \<open>Witnesses\<close>

lemma scan_group_limits_witness:
  "scan_group_v1 small_limits (str_bytes ''-AAA'') = Inr (4, 0) \<and> 4 \<le> fl_attachment_bytes small_limits \<and>
   group_holds V1 (str_bytes ''-AAA'') 4 0"
proof -
  have l: "length (str_bytes ''-AAA'') < usize_bound" by (simp add: str_bytes_def)
  have s: "scan_group_v1 small_limits (str_bytes ''-AAA'') = Inr (4, 0)"
    using empty_cursor_new empty_cursor_advance
    by (simp add: scan_group_v1_def small_limits_def check_elements_def element_count_def enclosing_payload_def)
      (simp add: empty_cursor_def cursor_elements_def saturating_add_def saturating_mul_def)
  from scan_group_limits[OF small_limits_ok l s, of 4 0] s show ?thesis by simp
qed

end
