(* ===== verification/Codec_Error.thy ===== *)
theory Codec_Error
  imports Stream_Error Cesr_Crypto Keri_Key_Events
begin

text \<open>
  The error vocabulary of \<^verbatim>\<open>crates/keri-codec/src/error.rs\<close>: one type per failure domain and
  their union \<^verbatim>\<open>CodecError\<close>. Prose is dropped; the offending bytes, offsets and field names
  are kept. The check of a body's first bytes, before any parse, closes the theory.
\<close>

datatype VersionGrammarError =
    GrammarVersion VersionError
  | InvalidVersionString
  | UnsupportedSerializationKind SerializationKind
  | UnsupportedProtocolVersion Protocol byte byte
  | UnsupportedCesrVersion CesrVersion

datatype SaidError =
    SaidMismatch bytes bytes
  | SaidDigest DigestError
  | MissingDigestiveField bytes
  | InvalidSlotWidth bytes nat nat

datatype OpaqueScanError =
    FieldLimit nat nat
  | DepthLimit nat nat
  | NotAnObject
  | UnexpectedByte nat
  | OpaqueTruncated
  | ControlCharacter nat
  | InvalidEscape nat
  | DuplicateKey nat
  | OffsetOverflow

datatype DeserializeError =
    JsonFieldLimit nat nat
  | JsonDepthLimit nat nat
  | MemberSetRefused MemberSetError
  | InceptionIdentityRefused InceptionIdentityError
  | DelegatedPrefixNotDigestive
  | UnknownEventType bytes
  | TelSequenceDomain MessageType u128
  | BackerThresholdOutOfRange string ToadError
  | RegistryIdentifierMismatch
  | ReceiptNotKeyEvent
  | MissingField string
  | UnexpectedField string
  | InvalidPrimitive string ValidationError
  | UnparseablePrimitive string ParsingError
  | InvalidAnchor nat OpaqueScanError
  | NonCanonical nat string "byte option"
  | ThresholdOutOfRange string SigningThresholdError

datatype BuilderError =
    AcdcAlternateAttributes
  | MembersRefused MemberSetError
  | DelegatedPrefixNotDigest
  | ToadRefused ToadError
  | EmptyKeys string
  | DuplicatePrefixes string
  | CutNotPriorWitness
  | AddAlreadyWitness
  | NonEventBackerAnchor
  | BackersRefused
  | WitnessCountOverflow
  | SnBelowMinimum string
  | SigningThresholdRefused string SigningThresholdError
  | MajorityOverflow nat
  | BuilderPlaceholder ValidationError
  | MixedThresholdForms string
  | IntegerFormOverflow u64

datatype InternalError =
    EventLayout string
  | PlaceholderPrimitive ValidationError

datatype CodecError =
    CodecVersion VersionGrammarError
  | CodecSaid SaidError
  | CodecDeserialize DeserializeError
  | CodecBuilder BuilderError
  | CodecInternal InternalError

section \<open>The check of a body's head\<close>

definition check_json_body :: "bytes \<Rightarrow> VersionGrammarError + unit" where
  "check_json_body raw =
     (case Option.bind (slice_get raw 0) (\<lambda>b. case ColdCode_detect b of Inr c \<Rightarrow> Some c | Inl _ \<Rightarrow> None) of
        Some ColdCode.Cbor \<Rightarrow> Inl (UnsupportedSerializationKind SerializationKind.Cbor)
      | Some ColdCode.MessagePack \<Rightarrow> Inl (UnsupportedSerializationKind SerializationKind.Mgpk)
      | Some ColdCode.CesrBinary \<Rightarrow> Inl (UnsupportedSerializationKind SerializationKind.Cesr)
      | _ \<Rightarrow>
          (let lead = str_bytes [CHR ''{'', CHR 0x22, CHR ''v'', CHR 0x22, CHR '':'', CHR 0x22] in
           if take (length lead) raw = lead \<and>
              (case slice_from raw 6 of None \<Rightarrow> False | Some head \<Rightarrow> is_ok (VersionStringV2_parse head))
           then Inl (UnsupportedCesrVersion V2) else Inr ()))"

end
