(* ===== verification/Codec_Scanner.thy ===== *)
theory Codec_Scanner
  imports Codec_Error
begin

text \<open>
  The strict canonical-JSON reader, \<^verbatim>\<open>codec/scanner.rs\<close>, and the string writer
  \<^verbatim>\<open>JsonWriter\<close> of \<^verbatim>\<open>codec.rs\<close>. A reader is a function of the scanner that returns its value
  with the scanner it leaves; a failed reader leaves none, as every caller either gives up
  or starts again from a copy. Fixed tokens are written with a backquote for the JSON
  quotation mark. The conversions into the union of errors are applied where an error is
  made.
\<close>

definition quoted :: "string \<Rightarrow> string" where
  "quoted s = map (\<lambda>c. if c = CHR 0x60 then CHR 0x22 else c) s"

definition wire :: "string \<Rightarrow> bytes" where
  "wire s = str_bytes (quoted s)"

section \<open>Budget\<close>

record JsonBudget =
  jb_max_fields :: nat
  jb_max_depth :: nat
  jb_fields :: nat
  jb_depth :: nat

record JsonLimits =
  jl_max_fields :: nat
  jl_max_depth :: nat

definition JsonBudget_new :: "nat \<Rightarrow> nat \<Rightarrow> JsonBudget" where
  "JsonBudget_new max_fields max_depth =
     \<lparr>jb_max_fields = max_fields, jb_max_depth = max_depth, jb_fields = 0, jb_depth = 0\<rparr>"

definition JsonBudget_unlimited :: JsonBudget where
  "JsonBudget_unlimited = JsonBudget_new usize_max usize_max"

definition JsonBudget_of_limits :: "JsonLimits \<Rightarrow> JsonBudget" where
  "JsonBudget_of_limits limits = JsonBudget_new (jl_max_fields limits) (jl_max_depth limits)"

text \<open>None is the refusal of the budget.\<close>

definition budget_field :: "JsonBudget \<Rightarrow> JsonBudget option" where
  "budget_field b = (if jb_max_fields b \<le> jb_fields b then None else Some (b\<lparr>jb_fields := jb_fields b + 1\<rparr>))"

definition budget_enter :: "JsonBudget \<Rightarrow> JsonBudget option" where
  "budget_enter b = (if jb_max_depth b \<le> jb_depth b then None else Some (b\<lparr>jb_depth := jb_depth b + 1\<rparr>))"

definition budget_leave :: "JsonBudget \<Rightarrow> JsonBudget" where
  "budget_leave b = b\<lparr>jb_depth := jb_depth b - 1\<rparr>"

section \<open>The cursor\<close>

record Scanner =
  sc_input :: bytes
  sc_pos :: nat
  sc_budget :: JsonBudget

text \<open>\<^verbatim>\<open>Spanned\<close>: a string value and where it stands.\<close>

record Spanned =
  sp_value :: bytes
  sp_start :: nat
  sp_end :: nat

type_synonym 'a reader = "Scanner \<Rightarrow> CodecError + ('a \<times> Scanner)"

definition then_read :: "'a reader \<Rightarrow> ('a \<Rightarrow> 'b reader) \<Rightarrow> 'b reader" where
  "then_read p k sc = res_bind (p sc) (\<lambda>(x, sc). k x sc)"

definition give :: "'a \<Rightarrow> 'a reader" where
  "give x sc = Inr (x, sc)"

definition Scanner_with_budget :: "bytes \<Rightarrow> JsonBudget \<Rightarrow> Scanner" where
  "Scanner_with_budget input budget = \<lparr>sc_input = input, sc_pos = 0, sc_budget = budget\<rparr>"

definition Scanner_new :: "bytes \<Rightarrow> Scanner" where
  "Scanner_new input = Scanner_with_budget input JsonBudget_unlimited"

definition err_at :: "Scanner \<Rightarrow> nat \<Rightarrow> string \<Rightarrow> CodecError" where
  "err_at sc offset expected = CodecDeserialize (NonCanonical offset expected (slice_get (sc_input sc) offset))"

definition err :: "Scanner \<Rightarrow> string \<Rightarrow> CodecError" where
  "err sc expected = err_at sc (sc_pos sc) expected"

definition peek :: "Scanner \<Rightarrow> byte option" where
  "peek sc = slice_get (sc_input sc) (sc_pos sc)"

text \<open>A literal pays for the containers it opens and for the keys it holds.\<close>

fun charge_literal :: "Scanner \<Rightarrow> nat \<Rightarrow> bytes \<Rightarrow> JsonBudget \<Rightarrow> CodecError + JsonBudget" where
  "charge_literal sc offset [] b = Inr b"
| "charge_literal sc offset (x # xs) b =
     (if x = of_char CHR ''{'' \<or> x = of_char CHR ''['' then
        (case budget_enter b of
           None \<Rightarrow> Inl (CodecDeserialize (JsonDepthLimit offset (jb_max_depth b)))
         | Some b \<Rightarrow> charge_literal sc (saturating_add offset 1) xs b)
      else if x = of_char CHR ''}'' \<or> x = of_char CHR '']'' then
        (if jb_depth b = 0 then Inl (err_at sc offset ''balanced JSON container'')
         else charge_literal sc (saturating_add offset 1) xs (budget_leave b))
      else if x = 0x22 \<and> slice_get xs 0 = Some (of_char CHR '':'') then
        (case budget_field b of
           None \<Rightarrow> Inl (CodecDeserialize (JsonFieldLimit offset (jb_max_fields b)))
         | Some b \<Rightarrow> charge_literal sc (saturating_add offset 1) xs b)
      else charge_literal sc (saturating_add offset 1) xs b)"

definition take_lit :: "string \<Rightarrow> bool reader" where
  "take_lit lit sc =
     (let bs = wire lit; end = sc_pos sc + length bs in
      if end < usize_bound \<and> slice_range (sc_input sc) (sc_pos sc) end = Some bs then
        res_bind (charge_literal sc (sc_pos sc) bs (sc_budget sc)) (\<lambda>b.
        Inr (True, sc\<lparr>sc_pos := end, sc_budget := b\<rparr>))
      else Inr (False, sc))"

definition expect :: "string \<Rightarrow> unit reader" where
  "expect lit sc = res_bind (take_lit lit sc) (\<lambda>(taken, sc). if taken then Inr ((), sc) else Inl (err sc (quoted lit)))"

definition advance :: "nat \<Rightarrow> string \<Rightarrow> unit reader" where
  "advance by' expected sc =
     (if sc_pos sc + by' < usize_bound then Inr ((), sc\<lparr>sc_pos := sc_pos sc + by'\<rparr>) else Inl (err sc expected))"


section \<open>Readers move forward\<close>

text \<open>The bytes left, what every loop of the reader counts down.\<close>

definition sc_left :: "Scanner \<Rightarrow> nat" where
  "sc_left sc = length (sc_input sc) - sc_pos sc"

definition onward :: "Scanner \<Rightarrow> Scanner \<Rightarrow> bool" where
  "onward sc sc' \<longleftrightarrow> sc_input sc' = sc_input sc \<and> sc_pos sc \<le> sc_pos sc'"

lemma onward_refl [simp]: "onward sc sc"
  by (simp add: onward_def)

lemma onward_trans: "onward a b \<Longrightarrow> onward b c \<Longrightarrow> onward a c"
  by (auto simp: onward_def)

lemma onward_left: "onward a b \<Longrightarrow> sc_left b \<le> sc_left a"
  by (auto simp: onward_def sc_left_def)

lemma peek_Some: "peek sc = Some b \<longleftrightarrow> sc_pos sc < length (sc_input sc) \<and> sc_input sc ! sc_pos sc = b"
  by (simp add: peek_def slice_get_Some)

lemma advance_Inr [simp]:
  "advance n e sc = Inr (u, sc') \<longleftrightarrow> sc_pos sc + n < usize_bound \<and> sc' = sc\<lparr>sc_pos := sc_pos sc + n\<rparr>"
  by (auto simp: advance_def)

lemma sc_left_step: "peek sc = Some b \<Longrightarrow> sc_left (sc\<lparr>sc_pos := Suc (sc_pos sc)\<rparr>) < sc_left sc"
  unfolding sc_left_def by (simp add: peek_Some diff_less_mono2)

lemma onward_step: "onward (sc\<lparr>sc_pos := Suc (sc_pos sc)\<rparr>) sc' \<Longrightarrow> onward sc sc'"
  by (simp add: onward_def)

lemma advance_left:
  "advance n e sc = Inr (u, sc') \<Longrightarrow> sc_pos sc < length (sc_input sc) \<Longrightarrow> 0 < n \<Longrightarrow> sc_left sc' < sc_left sc"
  by (auto simp: sc_left_def)

lemma advance_onward: "advance n e sc = Inr (u, sc') \<Longrightarrow> onward sc sc'"
  by (auto simp: onward_def)

lemma take_lit_onward: "take_lit lit sc = Inr (b, sc') \<Longrightarrow> onward sc sc'"
  by (auto simp: take_lit_def onward_def Let_def split: if_splits)

lemma wire_Nil [simp]: "wire lit = [] \<longleftrightarrow> lit = []"
  by (simp add: wire_def str_bytes_def quoted_def)

lemma take_lit_taken:
  assumes "take_lit lit sc = Inr (True, sc')" "lit \<noteq> []"
  shows "sc_left sc' < sc_left sc"
proof -
  have "wire lit \<noteq> []" using assms(2) by simp
  then have "0 < length (wire lit)" by blast
  moreover have "sc_pos sc + length (wire lit) \<le> length (sc_input sc)" "sc_pos sc' = sc_pos sc + length (wire lit)"
    "sc_input sc' = sc_input sc"
    using assms(1) by (auto simp: take_lit_def Let_def slice_range_Some split: if_splits)
  ultimately show ?thesis by (simp only: sc_left_def)
qed

lemma expect_onward: "expect lit sc = Inr (u, sc') \<Longrightarrow> onward sc sc'"
  by (auto simp: expect_def split: if_splits dest: take_lit_onward)

lemma expect_left: "expect lit sc = Inr (u, sc') \<Longrightarrow> lit \<noteq> [] \<Longrightarrow> sc_left sc' < sc_left sc"
  by (auto simp: expect_def split: if_splits dest: take_lit_taken)

lemma then_read_Inr [simp]:
  "then_read p k sc = Inr (y, sc') \<longleftrightarrow> (\<exists>x sc1. p sc = Inr (x, sc1) \<and> k x sc1 = Inr (y, sc'))"
  by (auto simp: then_read_def)

lemma give_Inr [simp]: "give x sc = Inr (y, sc') \<longleftrightarrow> y = x \<and> sc' = sc"
  by (auto simp: give_def)

section \<open>Strings\<close>

text \<open>Up to the closing quotation mark, without escapes.\<close>

definition closing_quote :: string where
  "closing_quote = quoted (''closing '' @ [CHR 0x27, CHR 0x60, CHR 0x27])"

function string_end :: "unit reader" where
  "string_end sc =
     (case peek sc of
        None \<Rightarrow> Inl (err sc closing_quote)
      | Some b \<Rightarrow>
          (if b = 0x22 then Inr ((), sc)
           else if b = 0x5c then Inl (err sc ''unescaped string byte (canonical values never require escaping)'')
           else if b < 0x20 then Inl (err sc ''unescaped string byte (no control characters)'')
           else res_bind (advance 1 ''string byte'' sc) (\<lambda>(_, sc). string_end sc)))"
  by pat_completeness auto
termination
  by (relation "measure sc_left") (auto simp: peek_Some sc_left_def)

declare string_end.simps [simp del]

text \<open>\<^verbatim>\<open>Utf8Error::valid_up_to\<close>: the longest prefix that is valid.\<close>

definition utf8_valid_up_to :: "bytes \<Rightarrow> nat" where
  "utf8_valid_up_to bs = last (filter (\<lambda>n. from_utf8_ok (take n bs)) [0..<Suc (length bs)])"

definition utf8_offset_error :: "Scanner \<Rightarrow> nat \<Rightarrow> bytes \<Rightarrow> string \<Rightarrow> CodecError" where
  "utf8_offset_error sc start bs expected =
     (if start + utf8_valid_up_to bs < usize_bound then err_at sc (start + utf8_valid_up_to bs) expected
      else CodecInternal (EventLayout ''UTF-8 error offset overflow''))"

definition json_plain :: "Spanned reader" where
  "json_plain =
     then_read (expect ''`'') (\<lambda>_ opened.
     then_read string_end (\<lambda>_ sc.
       let start = sc_pos opened in
       res_bind (ok_or (CodecInternal (EventLayout ''string span out of bounds''))
         (slice_range (sc_input sc) start (sc_pos sc))) (\<lambda>bs.
       res_bind (ensure (from_utf8_ok bs) (utf8_offset_error sc start bs ''UTF-8 string value'')) (\<lambda>_.
       then_read (expect ''`'') (\<lambda>_. give \<lparr>sp_value = bs, sp_start = start, sp_end = sc_pos sc\<rparr>) sc)))
     opened)"

definition plain_value :: "bytes reader" where
  "plain_value = then_read json_plain (\<lambda>v. give (sp_value v))"

definition hex_value :: "byte \<Rightarrow> byte option" where
  "hex_value b =
     (if of_char CHR ''0'' \<le> b \<and> b \<le> of_char CHR ''9'' then Some (b - of_char CHR ''0'')
      else if of_char CHR ''a'' \<le> b \<and> b \<le> of_char CHR ''f'' then Some (b - of_char CHR ''a'' + 10)
      else None)"

definition scan_hex_digit :: "byte reader" where
  "scan_hex_digit sc =
     res_bind (ok_or (err sc ''lowercase JSON hex digit'') (Option.bind (peek sc) hex_value)) (\<lambda>v.
     then_read (advance 1 ''JSON hex digit'') (\<lambda>_. give v) sc)"

text \<open>An escape in the form the writer uses, after its backslash.\<close>

definition json_control :: "unit reader" where
  "json_control =
     then_read (expect ''00'') (\<lambda>_.
     then_read scan_hex_digit (\<lambda>high.
     then_read scan_hex_digit (\<lambda>low sc.
       let control = push_bit 4 high OR low in
       if 0x20 \<le> control \<or> control \<in> {0x08, 0x09, 0x0a, 0x0c, 0x0d}
       then Inl (err_at sc (sc_pos sc - 4) ''writer-form JSON control escape'') else Inr ((), sc))))"

definition json_escape :: "unit reader" where
  "json_escape sc =
     (case peek sc of
        Some b \<Rightarrow>
          (if b \<in> set (wire [CHR 0x60, CHR 0x5c, CHR ''b'', CHR ''f'', CHR ''n'', CHR ''r'', CHR ''t''])
           then advance 1 ''JSON escape'' sc
           else if b = of_char CHR ''u'' then then_read (advance 1 ''JSON control escape'') (\<lambda>_. json_control) sc
           else Inl (err sc ''writer-form JSON escape''))
      | None \<Rightarrow> Inl (err sc ''writer-form JSON escape''))"

lemma scan_hex_digit_onward: "scan_hex_digit sc = Inr (v, sc') \<Longrightarrow> onward sc sc'"
  by (auto simp: scan_hex_digit_def onward_def)

lemma json_control_onward: "json_control sc = Inr (u, sc') \<Longrightarrow> onward sc sc'"
  by (auto simp: json_control_def Let_def split: if_splits
      dest!: expect_onward scan_hex_digit_onward intro: onward_trans)

lemma json_escape_onward: "json_escape sc = Inr (u, sc') \<Longrightarrow> onward sc sc'"
  by (auto simp: json_escape_def split: option.splits if_splits
      dest!: json_control_onward intro: onward_trans simp: onward_def)

function json_string_end :: "unit reader" where
  "json_string_end sc =
     (case peek sc of
        None \<Rightarrow> Inl (err sc closing_quote)
      | Some b \<Rightarrow>
          (if b = 0x22 then Inr ((), sc)
           else if b = 0x5c then
             res_bind (advance 1 ''JSON escape'' sc) (\<lambda>(_, sc1).
             res_bind (json_escape sc1) (\<lambda>(_, sc2). json_string_end sc2))
           else if b < 0x20 then Inl (err sc ''escaped JSON control'')
           else res_bind (advance 1 ''JSON string byte'' sc) (\<lambda>(_, sc). json_string_end sc)))"
  by pat_completeness auto
termination
proof (relation "measure sc_left", goal_cases)
  case (2 sc b x u sc1 y v sc2)
  then have "sc_left sc1 < sc_left sc" by (auto simp: peek_Some sc_left_def)
  moreover have "sc_left sc2 \<le> sc_left sc1" using 2 by (intro onward_left json_escape_onward) auto
  ultimately show ?case by simp
qed (auto simp: peek_Some sc_left_def)

declare json_string_end.simps [simp del]

definition json_string :: "Spanned reader" where
  "json_string =
     then_read (expect ''`'') (\<lambda>_ opened.
     then_read json_string_end (\<lambda>_ sc.
       let start = sc_pos opened in
       res_bind (ok_or (CodecInternal (EventLayout ''JSON string span out of bounds''))
         (slice_range (sc_input sc) start (sc_pos sc))) (\<lambda>bs.
       res_bind (ensure (from_utf8_ok bs)
         (err_at sc (saturating_add start (utf8_valid_up_to bs)) ''UTF-8 JSON string'')) (\<lambda>_.
       then_read (expect ''`'') (\<lambda>_. give \<lparr>sp_value = bs, sp_start = start, sp_end = sc_pos sc\<rparr>) sc)))
     opened)"


lemma string_end_onward: "string_end sc = Inr (u, sc') \<Longrightarrow> onward sc sc'"
proof (induction "sc_left sc" arbitrary: sc rule: less_induct)
  case less
  show ?case
  proof (cases "peek sc")
    case (Some b)
    note IH = less.hyps[OF sc_left_step[OF Some]]
    show ?thesis using less.prems[unfolded string_end.simps[of sc] Some option.case] onward_step[OF IH]
      by (auto split: if_splits)
  qed (use less.prems in \<open>simp add: string_end.simps\<close>)
qed

lemma json_string_end_onward: "json_string_end sc = Inr (u, sc') \<Longrightarrow> onward sc sc'"
proof (induction "sc_left sc" arbitrary: sc rule: less_induct)
  case less
  show ?case
  proof (cases "peek sc")
    case (Some b)
    note IH = less.hyps[OF sc_left_step[OF Some]]
    have esc: "onward sc sc'"
      if "json_escape (sc\<lparr>sc_pos := Suc (sc_pos sc)\<rparr>) = Inr (v, sc2)" "json_string_end sc2 = Inr (u, sc')" for v sc2
    proof -
      have o: "onward (sc\<lparr>sc_pos := Suc (sc_pos sc)\<rparr>) sc2" using that(1) by (rule json_escape_onward)
      then have "sc_left sc2 < sc_left sc" using onward_left sc_left_step[OF Some] by fastforce
      then have "onward sc2 sc'" using that(2) by (rule less.hyps)
      with o show ?thesis by (blast intro: onward_step onward_trans)
    qed
    note step = less.prems[unfolded json_string_end.simps[of sc] Some option.case]
    consider "b = 0x22" | "b = 0x5c" | "b \<noteq> 0x22" "b \<noteq> 0x5c" by blast
    then show ?thesis
    proof cases
      case 1
      then show ?thesis using step by simp
    next
      case 2
      then show ?thesis using step esc by auto
    next
      case 3
      then have "json_string_end (sc\<lparr>sc_pos := Suc (sc_pos sc)\<rparr>) = Inr (u, sc')" using step by (auto split: if_splits)
      from IH[OF this] show ?thesis by (rule onward_step)
    qed
  qed (use less.prems in \<open>simp add: json_string_end.simps\<close>)
qed

text \<open>A reader that takes a quoted string moves past it.\<close>

lemma quoted_forward:
  assumes "expect lit sc = Inr (u, sc1)" "lit \<noteq> []" "onward sc1 sc2" "expect lit' sc2 = Inr (u', sc')"
  shows "onward sc sc' \<and> sc_left sc' < sc_left sc"
  using expect_left[OF assms(1,2)] onward_left[OF assms(3)] expect_onward[OF assms(1)] expect_onward[OF assms(4)]
    onward_left[OF expect_onward[OF assms(4)]] assms(3) by (auto intro: onward_trans)

lemma json_plain_onward: "json_plain sc = Inr (v, sc') \<Longrightarrow> onward sc sc' \<and> sc_left sc' < sc_left sc"
  by (auto simp: json_plain_def Let_def dest!: string_end_onward dest: quoted_forward)

lemma plain_value_onward: "plain_value sc = Inr (v, sc') \<Longrightarrow> onward sc sc' \<and> sc_left sc' < sc_left sc"
  by (auto simp: plain_value_def dest: json_plain_onward)

lemma json_string_onward: "json_string sc = Inr (v, sc') \<Longrightarrow> onward sc sc' \<and> sc_left sc' < sc_left sc"
  by (auto simp: json_string_def Let_def dest!: json_string_end_onward dest: quoted_forward)

end
