(* ===== verification/Codec_Values.thy ===== *)
theory Codec_Values
  imports Codec_Scanner
begin

text \<open>
  Numbers, integers, arrays and whole values of the strict reader (\<^verbatim>\<open>codec/scanner.rs\<close>), and
  the decoding of an escaped text. A whole value is skipped by a walk with one entry per
  open container on an explicit stack, the innermost first here; it never recurses.
\<close>

section \<open>Readers that move on\<close>

definition moves_on :: "'a reader \<Rightarrow> bool" where
  "moves_on p \<longleftrightarrow> (\<forall>sc x sc'. p sc = Inr (x, sc') \<longrightarrow> onward sc sc')"

lemma moves_onD: "moves_on p \<Longrightarrow> p sc = Inr (x, sc') \<Longrightarrow> onward sc sc'"
  by (auto simp: moves_on_def)

lemma moves_on_then: "moves_on p \<Longrightarrow> (\<And>x. moves_on (k x)) \<Longrightarrow> moves_on (then_read p k)"
  unfolding moves_on_def by (fastforce intro: onward_trans)

lemma moves_on_give [simp]: "moves_on (give x)"
  by (simp add: moves_on_def)

lemma moves_on_plain [simp]: "moves_on plain_value" "moves_on json_plain"
  by (auto simp: moves_on_def dest: plain_value_onward json_plain_onward)

lemma moves_on_lit [simp]: "moves_on (expect l)" "moves_on (take_lit l)"
  by (auto simp: moves_on_def dest: expect_onward take_lit_onward)

lemma moves_on_if [simp]: "moves_on p \<Longrightarrow> moves_on q \<Longrightarrow> moves_on (if b then p else q)"
  by simp

section \<open>Numbers\<close>

definition is_digit :: "byte \<Rightarrow> bool" where
  "is_digit b \<longleftrightarrow> of_char CHR ''0'' \<le> b \<and> b \<le> of_char CHR ''9''"

definition at_digit :: "Scanner \<Rightarrow> bool" where
  "at_digit sc \<longleftrightarrow> (case peek sc of Some b \<Rightarrow> is_digit b | None \<Rightarrow> False)"

function skip_digits :: "string \<Rightarrow> unit reader" where
  "skip_digits what sc =
     (if at_digit sc then res_bind (advance 1 what sc) (\<lambda>(_, sc). skip_digits what sc) else Inr ((), sc))"
  by pat_completeness auto
termination
  by (relation "measure (\<lambda>(_, sc). sc_left sc)")
    (auto simp: at_digit_def sc_left_step split: option.splits)

declare skip_digits.simps [simp del]

text \<open>The part before the point: a zero alone, or digits that start with none.\<close>

definition whole_digits :: "string \<Rightarrow> string \<Rightarrow> string \<Rightarrow> unit reader" where
  "whole_digits what zero none sc =
     (case peek sc of
        Some b \<Rightarrow>
          (if b = of_char CHR ''0'' then
             then_read (advance 1 what) (\<lambda>_ sc. if at_digit sc then Inl (err sc zero) else Inr ((), sc)) sc
           else if is_digit b then then_read (advance 1 what) (\<lambda>_. skip_digits what) sc
           else Inl (err sc none))
      | None \<Rightarrow> Inl (err sc none))"

definition span_since :: "nat \<Rightarrow> string \<Rightarrow> string \<Rightarrow> bytes reader" where
  "span_since start gone ascii sc =
     res_bind (ok_or (CodecInternal (EventLayout gone)) (slice_range (sc_input sc) start (sc_pos sc))) (\<lambda>bs.
     res_bind (ensure (from_utf8_ok bs) (err_at sc start ascii)) (\<lambda>_. Inr (bs, sc)))"

definition one_or_more_digits :: "string \<Rightarrow> unit reader" where
  "one_or_more_digits what sc = (if at_digit sc then skip_digits what sc else Inl (err sc what))"

definition json_exponent :: "unit reader" where
  "json_exponent =
     then_read (take_lit ''e'') (\<lambda>lower.
     then_read (if lower then give True else take_lit ''E'') (\<lambda>taken.
     if \<not> taken then give () else
       then_read (take_lit ''+'') (\<lambda>plus.
       then_read (if plus then give True else take_lit ''-'') (\<lambda>_.
       one_or_more_digits ''exponent digit''))))"

definition json_number :: "bytes reader" where
  "json_number sc0 =
     then_read (take_lit ''-'') (\<lambda>minus sc.
       if minus \<and> peek sc = None then Inl (err sc ''JSON number digit'') else
       then_read (whole_digits ''JSON number digit'' ''no leading zero in JSON number'' ''JSON number digit'') (\<lambda>_.
       then_read (take_lit ''.'') (\<lambda>point.
       then_read (if point then one_or_more_digits ''fraction digit'' else give ()) (\<lambda>_.
       then_read json_exponent (\<lambda>_.
       span_since (sc_pos sc0) ''JSON number span out of bounds'' ''ASCII JSON number'')))) sc) sc0"

definition json_integer :: "bytes reader" where
  "json_integer sc0 =
     then_read (whole_digits ''digit'' ''no leading zeros in canonical integer'' ''digit'') (\<lambda>_.
     span_since (sc_pos sc0) ''integer span out of bounds'' ''ASCII integer'') sc0"

definition finish :: "unit reader" where
  "finish sc = (if sc_pos sc = length (sc_input sc) then Inr ((), sc) else Inl (err sc ''end of input''))"

lemma skip_digits_onward: "skip_digits what sc = Inr (u, sc') \<Longrightarrow> onward sc sc'"
proof (induction "sc_left sc" arbitrary: sc rule: less_induct)
  case less
  show ?case
  proof (cases "at_digit sc")
    case True
    then obtain b where p: "peek sc = Some b" by (auto simp: at_digit_def split: option.splits)
    show ?thesis using less.prems True less.hyps[OF sc_left_step[OF p]] onward_step
      by (auto simp: skip_digits.simps[of what sc] split: if_splits)
  next
    case False
    then show ?thesis using less.prems by (simp add: skip_digits.simps[of what sc])
  qed
qed

lemma whole_digits_onward:
  assumes "whole_digits w z n sc = Inr (u, sc')"
  shows "onward sc sc' \<and> sc_left sc' < sc_left sc"
proof -
  from assms obtain b where b: "peek sc = Some b" by (auto simp: whole_digits_def split: option.splits)
  have "onward (sc\<lparr>sc_pos := Suc (sc_pos sc)\<rparr>) sc'"
    using assms b by (auto simp: whole_digits_def split: if_splits intro: skip_digits_onward)
  then show ?thesis using sc_left_step[OF b] onward_left onward_step by fastforce
qed

lemma one_or_more_onward: "one_or_more_digits w sc = Inr (u, sc') \<Longrightarrow> onward sc sc'"
  by (auto simp: one_or_more_digits_def split: if_splits intro: skip_digits_onward)

lemma json_exponent_onward: "json_exponent sc = Inr (u, sc') \<Longrightarrow> onward sc sc'"
proof -
  have "moves_on (one_or_more_digits w)" for w by (auto simp: moves_on_def one_or_more_onward)
  then have "moves_on json_exponent" unfolding json_exponent_def by (intro moves_on_then moves_on_lit moves_on_if moves_on_give)
  then show "json_exponent sc = Inr (u, sc') \<Longrightarrow> onward sc sc'" by (rule moves_onD)
qed

lemma span_since_same: "span_since s g a sc = Inr (v, sc') \<Longrightarrow> sc' = sc"
  by (auto simp: span_since_def)

lemma forward_between:
  assumes "onward a b" "onward b c \<and> sc_left c < sc_left b" "onward c d"
  shows "onward a d \<and> sc_left d < sc_left a"
  using assms onward_left[of a b] onward_left[of c d] by (auto intro: onward_trans)

lemma json_number_onward:
  assumes "json_number sc = Inr (v, sc')"
  shows "onward sc sc' \<and> sc_left sc' < sc_left sc"
proof -
  from assms obtain m sc1 u sc2 p sc3 u2 sc4 u3 where
    "take_lit ''-'' sc = Inr (m, sc1)" "whole_digits ''JSON number digit'' ''no leading zero in JSON number'' ''JSON number digit'' sc1 = Inr (u, sc2)"
    "take_lit ''.'' sc2 = Inr (p, sc3)"
    "(if p then one_or_more_digits ''fraction digit'' else give ()) sc3 = Inr (u2, sc4)"
    "json_exponent sc4 = Inr (u3, sc')"
    by (auto simp: json_number_def split: if_splits dest: span_since_same)
  then have "onward sc sc1" "onward sc1 sc2 \<and> sc_left sc2 < sc_left sc1" "onward sc2 sc'"
    by (auto dest!: take_lit_onward whole_digits_onward one_or_more_onward json_exponent_onward
        intro: onward_trans split: if_splits)
  then show ?thesis by (rule forward_between)
qed

lemma json_integer_onward: "json_integer sc = Inr (v, sc') \<Longrightarrow> onward sc sc' \<and> sc_left sc' < sc_left sc"
  by (auto simp: json_integer_def dest!: span_since_same whole_digits_onward)

section \<open>Arrays\<close>

text \<open>
  The items after the first. An item that moved the cursor back could keep the loop
  running; no item reader of the codec does, and for one that moves on the loop is the
  one of the source (\<^verbatim>\<open>list_items_loop\<close>).
\<close>

function list_items :: "'a reader \<Rightarrow> 'a list \<Rightarrow> 'a list reader" where
  "list_items item items sc =
     res_bind (take_lit '']'' sc) (\<lambda>(closed, sc1).
     if closed then Inr (items, sc1) else
     res_bind (expect '','' sc1) (\<lambda>(_, sc2).
     res_bind (item sc2) (\<lambda>(x, sc3).
     if sc_left sc3 < sc_left sc then list_items item (items @ [x]) sc3
     else Inl (err sc3 ''item''))))"
  by pat_completeness auto
termination
  by (relation "measure (\<lambda>(_, _, sc). sc_left sc)") auto

declare list_items.simps [simp del]

definition tail_list :: "'a reader \<Rightarrow> 'a list reader" where
  "tail_list item = then_read item (\<lambda>x. list_items item [x])"

definition delimited_list :: "'a reader \<Rightarrow> 'a list reader" where
  "delimited_list item =
     then_read (expect ''['') (\<lambda>_.
     then_read (take_lit '']'') (\<lambda>closed.
     if closed then give [] else tail_list item))"

definition string_array :: "bytes list reader" where
  "string_array = delimited_list plain_value"

lemma list_items_loop:
  assumes "moves_on item"
  shows "list_items item items =
     then_read (take_lit '']'') (\<lambda>closed.
     if closed then give items else
     then_read (expect '','') (\<lambda>_.
     then_read item (\<lambda>x. list_items item (items @ [x]))))"
proof
  fix sc
  have left: "sc_left sc3 < sc_left sc"
    if "take_lit '']'' sc = Inr (False, sc1)" "expect '','' sc1 = Inr (u, sc2)" "item sc2 = Inr (x, sc3)" for sc1 u sc2 x sc3
    using onward_left[OF take_lit_onward[OF that(1)]] expect_left[OF that(2)] onward_left[OF moves_onD[OF assms that(3)]]
    by simp
  show "list_items item items sc = then_read (take_lit '']'') (\<lambda>closed.
     if closed then give items else
     then_read (expect '','') (\<lambda>_.
     then_read item (\<lambda>x. list_items item (items @ [x])))) sc"
    by (subst list_items.simps)
      (auto simp: then_read_def give_def left split: prod.splits intro!: res_bind_cong)
qed

lemma list_items_onward:
  assumes "moves_on item"
  shows "list_items item items sc = Inr (xs, sc') \<Longrightarrow> onward sc sc'"
proof (induction "sc_left sc" arbitrary: sc items rule: less_induct)
  case less
  from less.prems consider "take_lit '']'' sc = Inr (True, sc')"
    | sc1 u sc2 x sc3 where "take_lit '']'' sc = Inr (False, sc1)" "expect '','' sc1 = Inr (u, sc2)"
        "item sc2 = Inr (x, sc3)" "sc_left sc3 < sc_left sc" "list_items item (items @ [x]) sc3 = Inr (xs, sc')"
    by (subst (asm) list_items.simps) (auto split: if_splits)
  then show ?case
  proof cases
    case 2
    then show ?thesis
      using take_lit_onward[OF 2(1)] expect_onward[OF 2(2)] moves_onD[OF assms 2(3)] less.hyps[OF 2(4,5)]
      by (blast intro: onward_trans)
  qed (rule take_lit_onward)
qed

lemma moves_on_lists [simp]:
  assumes "moves_on item"
  shows "moves_on (list_items item xs)" "moves_on (tail_list item)" "moves_on (delimited_list item)"
proof -
  show l: "moves_on (list_items item xs)" for xs using list_items_onward[OF assms] by (auto simp: moves_on_def)
  show t: "moves_on (tail_list item)" unfolding tail_list_def by (intro moves_on_then assms l)
  show "moves_on (delimited_list item)" unfolding delimited_list_def by (intro moves_on_then moves_on_lit moves_on_if moves_on_give t)
qed

lemma moves_on_string_array [simp]: "moves_on string_array"
  by (simp add: string_array_def)

section \<open>Whole values\<close>

definition then_peek :: "(byte option \<Rightarrow> 'a reader) \<Rightarrow> 'a reader" where
  "then_peek k sc = k (peek sc) sc"

definition refuse :: "string \<Rightarrow> 'a reader" where
  "refuse expected sc = Inl (err sc expected)"

datatype value_state = VFirstMember | VNextMember | VValue | VFirstItem | VAfterValue

text \<open>Where the walk stands: its state, the open containers and the keys seen in each.\<close>

type_synonym walk = "value_state \<times> bool list \<times> bytes list list"

definition json_key :: "bytes list list \<Rightarrow> bytes list list reader" where
  "json_key keys sc =
     (case budget_field (sc_budget sc) of
        None \<Rightarrow> Inl (CodecDeserialize (JsonFieldLimit (sc_pos sc) (jb_max_fields (sc_budget sc))))
      | Some budget \<Rightarrow>
          then_read json_string (\<lambda>key sc.
            (case keys of
               [] \<Rightarrow> Inl (CodecInternal (EventLayout ''JSON object key without container''))
             | current # outer \<Rightarrow>
                 if sp_value key \<in> set current then Inl (err_at sc (sp_start key) ''unique JSON key'')
                 else Inr ((sp_value key # current) # outer, sc))) (sc\<lparr>sc_budget := budget\<rparr>))"

definition member_then_value :: "bool list \<Rightarrow> bytes list list \<Rightarrow> walk option reader" where
  "member_then_value containers keys =
     then_read (json_key keys) (\<lambda>keys.
     then_read (expect '':'') (\<lambda>_. give (Some (VValue, containers, keys))))"

definition close_container :: "string \<Rightarrow> bool list \<Rightarrow> bytes list list \<Rightarrow> walk option reader" where
  "close_container closer containers keys =
     then_read (expect closer) (\<lambda>_.
     give (if tl containers = [] then None else Some (VAfterValue, tl containers, tl keys)))"

definition bare_literal :: "bool reader" where
  "bare_literal =
     then_read (take_lit ''true'') (\<lambda>t.
     then_read (if t then give True else take_lit ''false'') (\<lambda>f.
     if f then give True else take_lit ''null''))"

definition canonical_value_start :: "bool list \<Rightarrow> bytes list list \<Rightarrow> walk reader" where
  "canonical_value_start containers keys =
     then_peek (\<lambda>b.
       if b = Some 0x22 then then_read json_string (\<lambda>_. give (VAfterValue, containers, keys))
       else if b = Some (of_char CHR ''-'') \<or> (\<exists>d. b = Some d \<and> is_digit d)
       then then_read json_number (\<lambda>_. give (VAfterValue, containers, keys))
       else if b = Some (of_char CHR ''{'')
       then then_read (expect ''{'') (\<lambda>_. give (VFirstMember, True # containers, [] # keys))
       else if b = Some (of_char CHR ''['')
       then then_read (expect ''['') (\<lambda>_. give (VFirstItem, False # containers, [] # keys))
       else
         then_read bare_literal (\<lambda>taken.
         if taken then give (VAfterValue, containers, keys) else refuse ''a canonical JSON value''))"

definition after_value :: "bool list \<Rightarrow> bytes list list \<Rightarrow> walk option reader" where
  "after_value containers keys =
     (case containers of
        [] \<Rightarrow> give None
      | in_object # _ \<Rightarrow>
          then_peek (\<lambda>b.
            if b = Some (of_char CHR '','') then
              then_read (expect '','') (\<lambda>_. give (Some (if in_object then VNextMember else VValue, containers, keys)))
            else if b = Some (of_char CHR ''}'') \<and> in_object then close_container ''}'' containers keys
            else if b = Some (of_char CHR '']'') \<and> \<not> in_object then close_container '']'' containers keys
            else refuse (quoted [CHR 0x27, CHR '','', CHR 0x27] @ '' or the container'' @ [CHR 0x27] @ ''s closer'')))"

definition walk_step :: "walk \<Rightarrow> walk option reader" where
  "walk_step w =
     (case w of (state, containers, keys) \<Rightarrow>
       (case state of
          VValue \<Rightarrow> then_read (canonical_value_start containers keys) (\<lambda>w. give (Some w))
        | VFirstMember \<Rightarrow>
            then_peek (\<lambda>b.
              if b = Some (of_char CHR ''}'') then close_container ''}'' containers keys
              else if b = Some 0x22 then member_then_value containers keys
              else refuse ''key string'')
        | VNextMember \<Rightarrow>
            then_peek (\<lambda>b. if b = Some 0x22 then member_then_value containers keys else refuse ''key string'')
        | VFirstItem \<Rightarrow>
            then_peek (\<lambda>b.
              if b = Some (of_char CHR '']'') then close_container '']'' containers keys
              else give (Some (VValue, containers, keys)))
        | VAfterValue \<Rightarrow> after_value containers keys))"

definition walk_size :: "walk \<Rightarrow> Scanner \<Rightarrow> nat" where
  "walk_size w sc = 2 * sc_left sc + (if fst w = VFirstItem then 1 else 0)"

lemma then_peek_Inr [simp]: "then_peek k sc = Inr r \<longleftrightarrow> k (peek sc) sc = Inr r"
  by (simp add: then_peek_def)

lemma refuse_Inr [simp]: "refuse e sc = Inr r \<longleftrightarrow> False"
  by (simp add: refuse_def)

lemma json_key_onward:
  assumes "json_key keys sc = Inr (ks, sc')"
  shows "onward sc sc' \<and> sc_left sc' < sc_left sc"
proof -
  from assms obtain b v where "json_string (sc\<lparr>sc_budget := b\<rparr>) = Inr (v, sc')"
    by (cases keys) (auto simp: json_key_def split: option.splits if_splits)
  from json_string_onward[OF this] show ?thesis unfolding onward_def sc_left_def by auto
qed

lemma close_container_forward:
  "close_container l cs ks sc = Inr (w, sc') \<Longrightarrow> l \<noteq> [] \<Longrightarrow> onward sc sc' \<and> sc_left sc' < sc_left sc"
  by (auto simp: close_container_def dest: expect_onward expect_left)

lemma member_forward: "member_then_value cs ks sc = Inr (w, sc') \<Longrightarrow> onward sc sc' \<and> sc_left sc' < sc_left sc"
  by (auto simp: member_then_value_def
      dest!: json_key_onward expect_onward dest: onward_left intro: onward_trans le_less_trans)

lemma taken_forward: "take_lit l sc = Inr (True, sc') \<Longrightarrow> l \<noteq> [] \<Longrightarrow> onward sc sc' \<and> sc_left sc' < sc_left sc"
  by (simp add: take_lit_onward take_lit_taken)

lemma after_forward: "onward a b \<Longrightarrow> onward b c \<and> sc_left c < sc_left b \<Longrightarrow> onward a c \<and> sc_left c < sc_left a"
  using onward_left[of a b] by (auto intro: onward_trans)

lemma or_literal:
  assumes "(if t then give True else p) sc = Inr (b, sc')" "moves_on p"
    "\<And>sc1. p sc = Inr (True, sc1) \<Longrightarrow> onward sc sc1 \<and> sc_left sc1 < sc_left sc"
  shows "onward sc sc' \<and> (b \<longrightarrow> t \<or> sc_left sc' < sc_left sc)"
  using assms by (cases t; cases b) (auto dest: moves_onD)

lemma bare_literal_taken:
  assumes "bare_literal sc = Inr (True, sc')"
  shows "onward sc sc' \<and> sc_left sc' < sc_left sc"
proof -
  from assms obtain t sc1 f sc2 where t: "take_lit ''true'' sc = Inr (t, sc1)"
    and f: "(if t then give True else take_lit ''false'') sc1 = Inr (f, sc2)"
    and n: "(if f then give True else take_lit ''null'') sc2 = Inr (True, sc')"
    unfolding bare_literal_def by auto
  have "onward sc sc1 \<and> (t \<longrightarrow> sc_left sc1 < sc_left sc)"
    using take_lit_onward[OF t] taken_forward[of "''true''" sc sc1] t by (cases t) auto
  moreover have "onward sc1 sc2 \<and> (f \<longrightarrow> t \<or> sc_left sc2 < sc_left sc1)"
    by (rule or_literal[OF f moves_on_lit(2)]) (erule taken_forward, simp)
  moreover have "onward sc2 sc' \<and> (True \<longrightarrow> f \<or> sc_left sc' < sc_left sc2)"
    by (rule or_literal[OF n moves_on_lit(2)]) (erule taken_forward, simp)
  ultimately show ?thesis
    using onward_left[of sc sc1] onward_left[of sc1 sc2] onward_left[of sc2 sc'] by (auto intro: onward_trans)
qed

lemma value_start_forward:
  assumes "canonical_value_start cs ks sc = Inr (w, sc')"
  shows "onward sc sc' \<and> sc_left sc' < sc_left sc"
proof -
  show ?thesis using assms
    by (auto simp: canonical_value_start_def split: if_splits
        dest: json_string_onward json_number_onward expect_onward expect_left bare_literal_taken)
qed

lemma after_value_forward: "after_value cs ks sc = Inr (Some w, sc') \<Longrightarrow> onward sc sc' \<and> sc_left sc' < sc_left sc"
  by (auto simp: after_value_def split: list.splits if_splits
      dest: close_container_forward expect_onward expect_left)

lemma walk_step_size: "walk_step w sc = Inr (Some w', sc') \<Longrightarrow> walk_size w' sc' < walk_size w sc"
proof -
  assume a: "walk_step w sc = Inr (Some w', sc')"
  obtain st cs ks where w: "w = (st, cs, ks)" by (cases w)
  have "sc_left sc' < sc_left sc \<or> st = VFirstItem \<and> fst w' = VValue \<and> sc' = sc"
    using a unfolding w walk_step_def
    by (cases st) (auto split: if_splits
        dest: close_container_forward member_forward value_start_forward after_value_forward)
  then show ?thesis by (auto simp: walk_size_def w)
qed

lemma walk_step_onward: "walk_step w sc = Inr (w', sc') \<Longrightarrow> onward sc sc'"
proof -
  assume a: "walk_step w sc = Inr (w', sc')"
  obtain st cs ks where w: "w = (st, cs, ks)" by (cases w)
  have "onward sc sc'" if "after_value cs ks sc = Inr (w', sc')"
    using that by (cases w') (auto simp: after_value_def split: list.splits if_splits
      dest: close_container_forward expect_onward)
  then show ?thesis
    using a unfolding w walk_step_def
    by (cases st) (auto split: if_splits dest: close_container_forward member_forward value_start_forward)
qed

function canonical_walk :: "walk \<Rightarrow> unit reader" where
  "canonical_walk w sc =
     res_bind (walk_step w sc) (\<lambda>(next, sc).
     case next of None \<Rightarrow> Inr ((), sc) | Some w \<Rightarrow> canonical_walk w sc)"
  by pat_completeness auto
termination
  by (relation "measure (\<lambda>(w, sc). walk_size w sc)") (auto simp: walk_step_size)

declare canonical_walk.simps [simp del]

text \<open>The caller's scratch stack is empty at every call, as the walk leaves it.\<close>

definition canonical_value :: "unit reader" where
  "canonical_value = canonical_walk (VValue, [], [])"

definition value_span :: "(nat \<times> nat) reader" where
  "value_span sc0 = then_read canonical_value (\<lambda>_ sc. Inr ((sc_pos sc0, sc_pos sc), sc)) sc0"

definition object_value_span :: "(nat \<times> nat) reader" where
  "object_value_span sc =
     (if peek sc \<noteq> Some (of_char CHR ''{'') then Inl (err sc ''JSON object'') else value_span sc)"

lemma canonical_walk_onward: "canonical_walk w sc = Inr (u, sc') \<Longrightarrow> onward sc sc'"
proof (induction "walk_size w sc" arbitrary: w sc rule: less_induct)
  case less
  from less.prems obtain next1 sc1 where s: "walk_step w sc = Inr (next1, sc1)"
    and n: "(case next1 of None \<Rightarrow> Inr ((), sc1) | Some w \<Rightarrow> canonical_walk w sc1) = Inr (u, sc')"
    by (subst (asm) canonical_walk.simps) auto
  show ?case
  proof (cases next1)
    case None
    then show ?thesis using s n walk_step_onward by auto
  next
    case (Some w1)
    then have "onward sc1 sc'" using n s by (intro less.hyps[OF walk_step_size]) auto
    then show ?thesis using walk_step_onward[OF s] by (blast intro: onward_trans)
  qed
qed

lemma canonical_value_onward: "canonical_value sc = Inr (u, sc') \<Longrightarrow> onward sc sc'"
  by (simp add: canonical_value_def canonical_walk_onward)

section \<open>Decoded texts\<close>

text \<open>A character below 256 pushed onto a string, in UTF-8.\<close>

definition push_latin :: "byte \<Rightarrow> bytes" where
  "push_latin v = (if v < 0x80 then [v] else [0xC0 OR drop_bit 6 v, 0x80 OR (v AND 0x3F)])"

definition layout :: "string \<Rightarrow> CodecError" where
  "layout what = CodecInternal (EventLayout what)"

definition json_escape_value :: "bytes \<Rightarrow> nat \<Rightarrow> byte \<Rightarrow> CodecError + (bytes \<times> nat)" where
  "json_escape_value tail i escape =
     (case map_of (zip (wire [CHR 0x60, CHR 0x5c, CHR ''b'', CHR ''f'', CHR ''n'', CHR ''r'', CHR ''t''])
                       [0x22, 0x5c, 0x08, 0x0c, 0x0a, 0x0d, 0x09]) escape of
        Some value \<Rightarrow> Inr ([value], 2)
      | None \<Rightarrow>
          (if escape = of_char CHR ''u'' then
             res_bind (ok_or (layout ''validated control escape was truncated'') (slice_range tail (i + 4) (i + 6))) (\<lambda>hex.
             res_bind (ok_or (layout ''validated control escape has invalid hex'') (hex_value (hex ! 0))) (\<lambda>high.
             res_bind (ok_or (layout ''validated control escape has invalid hex'') (hex_value (hex ! 1))) (\<lambda>low.
             Inr (push_latin (push_bit 4 high OR low), 6))))
           else Inl (layout ''invalid validated JSON escape'')))"

function json_unescape :: "bytes \<Rightarrow> bytes \<Rightarrow> CodecError + bytes" where
  "json_unescape decoded tail =
     (case position (\<lambda>b. b = 0x5c) tail of
        None \<Rightarrow> Inr (decoded @ tail)
      | Some i \<Rightarrow>
          res_bind (ok_or (layout ''validated JSON escape was truncated'') (slice_get tail (i + 1))) (\<lambda>escape.
          res_bind (json_escape_value tail i escape) (\<lambda>(value, width).
          res_bind (ok_or (layout ''validated JSON escape width exceeds string'') (slice_from tail (i + width))) (\<lambda>rest.
          json_unescape (decoded @ take i tail @ value) rest))))"
  by pat_completeness auto
termination
proof (relation "measure (\<lambda>(_, tail). length tail)", goal_cases)
  case (2 decoded tail i escape r v width rest)
  then have "0 < width" by (auto simp: json_escape_value_def split: option.splits if_splits)
  moreover have "i < length tail" using 2 by (simp add: position_Some)
  ultimately show ?case using 2 by auto
qed simp

declare json_unescape.simps [simp del]

definition json_text :: "bytes reader" where
  "json_text =
     then_read json_string (\<lambda>encoded sc.
       if 0x5c \<notin> set (sp_value encoded) then Inr (sp_value encoded, sc)
       else res_bind (json_unescape [] (sp_value encoded)) (\<lambda>decoded. Inr (decoded, sc)))"

end
