(* ===== verification/Codec_Reads.thy ===== *)
theory Codec_Reads
  imports Codec_Values
begin

text \<open>
  What it means that a reader takes a text: from any scanner that stands at the text, with
  room in its budget, it returns the value and stands behind the text. The rules follow the
  combinators, so that the reader of a whole event is checked by walking along its text.
  The writers of \<^verbatim>\<open>codec.rs\<close>, which append to a buffer, and the texts they append are here
  too.
\<close>

section \<open>Writers\<close>

text \<open>A writer appends to a buffer; None is a panic of a primitive's writer.\<close>

type_synonym writer = "bytes \<Rightarrow> bytes option"

definition put :: "bytes \<Rightarrow> writer" where
  "put bs out = Some (out @ bs)"

definition then_write :: "writer \<Rightarrow> writer \<Rightarrow> writer" where
  "then_write w v out = Option.bind (w out) v"

text \<open>\<^verbatim>\<open>JsonWriter::write_str\<close>.\<close>

definition HEX :: bytes where
  "HEX = str_bytes ''0123456789abcdef''"

definition write_str_byte :: "byte \<Rightarrow> bytes" where
  "write_str_byte b =
     (if b = 0x22 then wire [CHR 0x5c, CHR 0x60]
      else if b = 0x5c then wire [CHR 0x5c, CHR 0x5c]
      else if b = 0x08 then wire [CHR 0x5c, CHR ''b'']
      else if b = 0x09 then wire [CHR 0x5c, CHR ''t'']
      else if b = 0x0A then wire [CHR 0x5c, CHR ''n'']
      else if b = 0x0C then wire [CHR 0x5c, CHR ''f'']
      else if b = 0x0D then wire [CHR 0x5c, CHR ''r'']
      else if b < 0x20 then wire (CHR 0x5c # ''u00'') @ [HEX ! unat (drop_bit 4 b), HEX ! unat (b AND 0x0F)]
      else [b])"

definition str_json :: "bytes \<Rightarrow> bytes" where
  "str_json s = 0x22 # concat (map write_str_byte s) @ [0x22]"

definition write_str :: "bytes \<Rightarrow> writer" where
  "write_str s = put (str_json s)"

text \<open>A slice of encodable values, with its index.\<close>

fun write_items :: "('b \<Rightarrow> writer) \<Rightarrow> nat \<Rightarrow> 'b list \<Rightarrow> writer" where
  "write_items w idx [] out = Some out"
| "write_items w idx (x # xs) out =
     then_write (if idx > 0 then put (wire '','') else Some) (then_write (w x) (write_items w (Suc idx) xs)) out"

definition write_array :: "('b \<Rightarrow> writer) \<Rightarrow> 'b list \<Rightarrow> writer" where
  "write_array w xs = then_write (put (wire ''['')) (then_write (write_items w 0 xs) (put (wire '']'')))"

definition writes :: "writer \<Rightarrow> bytes \<Rightarrow> bool" where
  "writes w tx \<longleftrightarrow> (\<forall>out. w out = Some (out @ tx))"

lemma writes_put [intro]: "writes (put bs) bs"
  by (simp add: writes_def put_def)

lemma writes_then [intro]: "writes w a \<Longrightarrow> writes v b \<Longrightarrow> writes (then_write w v) (a @ b)"
  by (simp add: writes_def then_write_def)

lemma writesD: "writes w a \<Longrightarrow> w out = Some (out @ a)"
  by (simp add: writes_def)

text \<open>The text of an array, from the texts of its items.\<close>

fun json_items :: "bytes list \<Rightarrow> bytes" where
  "json_items [] = []"
| "json_items (t # ts) = wire '','' @ t @ json_items ts"

definition json_array :: "bytes list \<Rightarrow> bytes" where
  "json_array ts = wire ''['' @ (case ts of [] \<Rightarrow> [] | t # ts \<Rightarrow> t @ json_items ts) @ wire '']''"

lemma write_items_later:
  assumes "\<And>x. x \<in> set xs \<Longrightarrow> writes (w x) (tx x)"
  shows "write_items w (Suc idx) xs out = Some (out @ json_items (map tx xs))"
  using assms
proof (induction xs arbitrary: idx out)
  case (Cons x xs)
  then show ?case using Cons.prems[of x] by (simp add: then_write_def put_def writes_def)
qed simp

lemma writes_array:
  assumes "\<And>x. x \<in> set xs \<Longrightarrow> writes (w x) (tx x)"
  shows "writes (write_array w xs) (json_array (map tx xs))"
proof -
  have "write_items w 0 xs out = Some (out @ (case map tx xs of [] \<Rightarrow> [] | t # ts \<Rightarrow> t @ json_items ts))" for out
  proof (cases xs)
    case (Cons x ys)
    then show ?thesis using assms[of x] write_items_later[of ys w tx 0] assms
      by (simp add: then_write_def writes_def)
  qed simp
  then show ?thesis by (simp add: writes_def write_array_def then_write_def put_def json_array_def)
qed

section \<open>Texts without escapes\<close>

definition plain_text :: "bytes \<Rightarrow> bool" where
  "plain_text s \<longleftrightarrow> list_all (\<lambda>b. 0x20 \<le> b \<and> b < 0x80 \<and> b \<noteq> 0x22 \<and> b \<noteq> 0x5c) s"

definition quote :: "bytes \<Rightarrow> bytes" where
  "quote s = 0x22 # s @ [0x22]"

lemma plain_text_append [simp]: "plain_text (a @ b) \<longleftrightarrow> plain_text a \<and> plain_text b"
  by (simp add: plain_text_def)

lemma plain_text_utf8: "plain_text s \<Longrightarrow> from_utf8_ok s"
  by (rule from_utf8_ok_ascii) (auto simp: plain_text_def list_all_iff)

lemma str_json_plain:
  assumes "plain_text s"
  shows "str_json s = quote s"
proof -
  have "b \<in> {b. 0x20 \<le> b \<and> b < 0x80 \<and> b \<noteq> 0x22 \<and> b \<noteq> 0x5c} \<Longrightarrow> write_str_byte b = [b]" for b
    by (auto simp: write_str_byte_def)
  then have "concat (map write_str_byte s) = s"
    using assms unfolding plain_text_def by (induction s) auto
  then show ?thesis by (simp add: str_json_def quote_def)
qed

lemma writes_str [intro]: "plain_text s \<Longrightarrow> writes (write_str s) (quote s)"
  by (simp add: write_str_def writes_put str_json_plain)

section \<open>Readers\<close>

text \<open>What a literal costs at a depth, when no more than three containers are open.\<close>

fun lit_cost :: "nat \<Rightarrow> bytes \<Rightarrow> (nat \<times> nat) option" where
  "lit_cost d [] = Some (d, 0)"
| "lit_cost d (x # xs) =
     (if x = of_char CHR ''{'' \<or> x = of_char CHR ''['' then (if 3 \<le> d then None else lit_cost (Suc d) xs)
      else if x = of_char CHR ''}'' \<or> x = of_char CHR '']'' then (if d = 0 then None else lit_cost (d - 1) xs)
      else if x = 0x22 \<and> slice_get xs 0 = Some (of_char CHR '':'')
      then map_option (\<lambda>(d, f). (d, Suc f)) (lit_cost d xs)
      else lit_cost d xs)"

definition roomy :: "JsonBudget \<Rightarrow> nat \<Rightarrow> bool" where
  "roomy b f \<longleftrightarrow> 3 \<le> jb_max_depth b \<and> jb_fields b + f \<le> jb_max_fields b"

definition spend :: "JsonBudget \<Rightarrow> nat \<Rightarrow> nat \<Rightarrow> JsonBudget" where
  "spend b f d = b\<lparr>jb_fields := jb_fields b + f, jb_depth := d\<rparr>"

lemma spend_simps [simp]:
  "jb_depth (spend b f d) = d" "jb_fields (spend b f d) = jb_fields b + f"
  "jb_max_depth (spend b f d) = jb_max_depth b" "jb_max_fields (spend b f d) = jb_max_fields b"
  "spend (spend b f d) g e = spend b (f + g) e"
  by (simp_all add: spend_def add.assoc)

lemma spend_same [simp]: "jb_depth b = d \<Longrightarrow> spend b 0 d = b"
  by (cases b) (simp add: spend_def)

lemma charge_literal_cost:
  "lit_cost (jb_depth b) bs = Some (d, f) \<Longrightarrow> roomy b f \<Longrightarrow> charge_literal sc offset bs b = Inr (spend b f d)"
proof (induction bs arbitrary: b offset f)
  case (Cons x xs)
  consider (opens) "x = of_char CHR ''{'' \<or> x = of_char CHR ''[''"
    | (closes) "x = of_char CHR ''}'' \<or> x = of_char CHR '']''"
    | (key) "x = 0x22" "slice_get xs 0 = Some (of_char CHR '':'')"
    | (other) "\<not> (x = of_char CHR ''{'' \<or> x = of_char CHR ''['')" "\<not> (x = of_char CHR ''}'' \<or> x = of_char CHR '']'')"
        "\<not> (x = 0x22 \<and> slice_get xs 0 = Some (of_char CHR '':''))"
    by blast
  then show ?case
  proof cases
    case opens
    let ?b = "b\<lparr>jb_depth := jb_depth b + 1\<rparr>"
    have "jb_depth b < 3" "lit_cost (jb_depth ?b) xs = Some (d, f)"
      using Cons.prems(1) opens by (auto split: if_splits)
    moreover have "roomy ?b f" using Cons.prems(2) by (simp add: roomy_def)
    ultimately have "charge_literal sc (saturating_add offset 1) xs ?b = Inr (spend ?b f d)" by (intro Cons.IH)
    moreover have "budget_enter b = Some ?b"
      using \<open>jb_depth b < 3\<close> Cons.prems(2) by (simp add: budget_enter_def roomy_def)
    ultimately show ?thesis using opens by (auto simp: spend_def)
  next
    case closes
    let ?b = "b\<lparr>jb_depth := jb_depth b - 1\<rparr>"
    have "jb_depth b \<noteq> 0" "lit_cost (jb_depth ?b) xs = Some (d, f)"
      using Cons.prems(1) closes by (auto split: if_splits)
    moreover have "roomy ?b f" using Cons.prems(2) by (simp add: roomy_def)
    ultimately have "charge_literal sc (saturating_add offset 1) xs ?b = Inr (spend ?b f d)" by (intro Cons.IH)
    then show ?thesis using closes \<open>jb_depth b \<noteq> 0\<close> by (auto simp: budget_leave_def spend_def)
  next
    case key
    let ?b = "b\<lparr>jb_fields := jb_fields b + 1\<rparr>"
    from Cons.prems(1) key obtain g where g: "f = Suc g" "lit_cost (jb_depth ?b) xs = Some (d, g)" by auto
    moreover have "roomy ?b g" using Cons.prems(2) g(1) by (simp add: roomy_def)
    ultimately have "charge_literal sc (saturating_add offset 1) xs ?b = Inr (spend ?b g d)" by (intro Cons.IH)
    moreover have "budget_field b = Some ?b"
      using Cons.prems(2) g(1) by (simp add: budget_field_def roomy_def)
    ultimately show ?thesis using key g(1) by (simp add: spend_def)
  next
    case other
    then have "lit_cost (jb_depth b) xs = Some (d, f)" using Cons.prems(1) by (simp split: if_splits)
    from Cons.IH[OF this Cons.prems(2)] show ?thesis using other by auto
  qed
qed simp

definition no_digit :: "bytes \<Rightarrow> bool" where
  "no_digit rest \<longleftrightarrow> (case rest of [] \<Rightarrow> True | b # _ \<Rightarrow> \<not> is_digit b)"

text \<open>
  \<^verbatim>\<open>reads p stop n tx x d d' f\<close>: from offset n at depth d the reader p takes tx, returns x
  and leaves depth d' with f more fields charged; stop says that no digit may follow.
\<close>

definition reads :: "'a reader \<Rightarrow> bool \<Rightarrow> nat \<Rightarrow> bytes \<Rightarrow> 'a \<Rightarrow> nat \<Rightarrow> nat \<Rightarrow> nat \<Rightarrow> bool" where
  "reads p stop n tx x d d' f \<longleftrightarrow>
     (\<forall>(sc :: Scanner) rest. sc_pos sc = n \<and> n \<le> length (sc_input sc) \<and> drop n (sc_input sc) = tx @ rest \<and>
        length (sc_input sc) < usize_bound \<and> (stop \<longrightarrow> no_digit rest) \<and>
        jb_depth (sc_budget sc) = d \<and> roomy (sc_budget sc) f \<longrightarrow>
        p sc = Inr (x, sc\<lparr>sc_pos := n + length tx, sc_budget := spend (sc_budget sc) f d'\<rparr>))"

lemma readsI:
  assumes "\<And>(sc :: Scanner) rest. sc_pos sc = n \<Longrightarrow> n \<le> length (sc_input sc) \<Longrightarrow> drop n (sc_input sc) = tx @ rest \<Longrightarrow>
    length (sc_input sc) < usize_bound \<Longrightarrow> (stop \<Longrightarrow> no_digit rest) \<Longrightarrow>
    jb_depth (sc_budget sc) = d \<Longrightarrow> roomy (sc_budget sc) f \<Longrightarrow>
    p sc = Inr (x, sc\<lparr>sc_pos := n + length tx, sc_budget := spend (sc_budget sc) f d'\<rparr>)"
  shows "reads p stop n tx x d d' f"
  using assms by (auto simp: reads_def)

lemma reads_result:
  fixes sc :: Scanner
  assumes "reads p stop n tx x d d' f" "sc_pos sc = n" "n \<le> length (sc_input sc)" "drop n (sc_input sc) = tx @ rest"
    "length (sc_input sc) < usize_bound" "stop \<Longrightarrow> no_digit rest" "jb_depth (sc_budget sc) = d" "roomy (sc_budget sc) f"
  shows "p sc = Inr (x, sc\<lparr>sc_pos := n + length tx, sc_budget := spend (sc_budget sc) f d'\<rparr>)"
  using assms unfolding reads_def by blast

lemma drop_split: "n \<le> length xs \<Longrightarrow> drop n xs = a @ b \<Longrightarrow> n + length a \<le> length xs \<and> drop (n + length a) xs = b"
  by (metis add.commute append_eq_conv_conj drop_drop length_append length_drop le_add1 le_add_diff_inverse2
      nat_add_left_cancel_le)

lemma reads_then:
  assumes p: "reads p s n a x d d1 f" and nd: "s \<longrightarrow> b \<noteq> [] \<and> no_digit b" and q: "reads (q x) s' (n + length a) b y d1 d2 g"
  shows "reads (then_read p q) s' n (a @ b) y d d2 (f + g)"
proof (rule readsI)
  fix sc :: Scanner and rest
  assume h: "sc_pos sc = n" "n \<le> length (sc_input sc)" "drop n (sc_input sc) = (a @ b) @ rest"
    "length (sc_input sc) < usize_bound" "s' \<Longrightarrow> no_digit rest" "jb_depth (sc_budget sc) = d" "roomy (sc_budget sc) (f + g)"
  let ?sc = "sc\<lparr>sc_pos := n + length a, sc_budget := spend (sc_budget sc) f d1\<rparr>"
  have "p sc = Inr (x, ?sc)"
    by (rule reads_result[OF p h(1,2) _ h(4) _ h(6), of "b @ rest"])
      (use h nd in \<open>auto simp: roomy_def no_digit_def split: list.splits\<close>)
  moreover have d: "n + length a \<le> length (sc_input sc)" "drop (n + length a) (sc_input sc) = b @ rest"
    using drop_split[of n "sc_input sc" a "b @ rest"] h(2,3) by auto
  have "q x ?sc = Inr (y, ?sc\<lparr>sc_pos := n + length a + length b, sc_budget := spend (sc_budget ?sc) g d2\<rparr>)"
    by (rule reads_result[OF q, of _ rest]) (use h d in \<open>auto simp: roomy_def\<close>)
  ultimately show "then_read p q sc = Inr (y, sc\<lparr>sc_pos := n + length (a @ b), sc_budget := spend (sc_budget sc) (f + g) d2\<rparr>)"
    by (simp add: then_read_def add.assoc)
qed

lemma reads_give: "reads (give x) False n [] x d d 0"
  by (rule readsI) (simp add: give_def)

lemma reads_map:
  assumes "reads p s n a x d d' f"
  shows "reads (then_read p (\<lambda>x. give (h x))) s n a (h x) d d' f"
proof (rule readsI, goal_cases)
  case (1 sc rest)
  from reads_result[OF assms 1] show ?case by (simp add: then_read_def give_def)
qed

lemma take_lit_hit:
  assumes "sc_pos sc = n" "n \<le> length (sc_input sc)" "drop n (sc_input sc) = wire l @ rest" "length (sc_input sc) < usize_bound"
    "lit_cost (jb_depth (sc_budget sc)) (wire l) = Some (d', f)" "roomy (sc_budget sc) f"
  shows "take_lit l sc = Inr (True, sc\<lparr>sc_pos := n + length (wire l), sc_budget := spend (sc_budget sc) f d'\<rparr>)"
proof -
  have e: "n + length (wire l) \<le> length (sc_input sc)" using drop_split[OF assms(2,3)] by simp
  then have "slice_range (sc_input sc) n (n + length (wire l)) = Some (wire l)"
    using assms(3) by (simp add: slice_range_def)
  moreover have "n + length (wire l) < usize_bound" using e assms(4) by simp
  ultimately show ?thesis
    using assms(1) charge_literal_cost[OF assms(5,6)] by (simp add: take_lit_def Let_def)
qed

lemma reads_take: "lit_cost d (wire l) = Some (d', f) \<Longrightarrow> reads (take_lit l) False n (wire l) True d d' f"
  by (rule readsI) (simp add: take_lit_hit)

lemma reads_lit:
  assumes "lit_cost d (wire l) = Some (d', f)"
  shows "reads (expect l) False n (wire l) () d d' f"
proof (rule readsI, goal_cases)
  case (1 sc rest)
  from reads_result[OF reads_take[OF assms] 1] show ?case by (simp add: expect_def)
qed

text \<open>Two texts that part at some byte.\<close>

fun differs :: "bytes \<Rightarrow> bytes \<Rightarrow> bool" where
  "differs (a # as) (b # bs) \<longleftrightarrow> a \<noteq> b \<or> differs as bs"
| "differs _ _ \<longleftrightarrow> False"

lemma differs_take: "differs l s \<Longrightarrow> take (length l) (s @ rest) \<noteq> l"
  by (induction l s rule: differs.induct) auto

lemma take_lit_miss:
  assumes "differs (wire l) tx" "drop (sc_pos sc) (sc_input sc) = tx @ rest"
  shows "take_lit l sc = Inr (False, sc)"
  using differs_take[OF assms(1), of rest] assms(2)
  by (auto simp: take_lit_def Let_def slice_range_Some)

lemma reads_miss:
  assumes "differs (wire l) tx" "reads (k False) s n tx x d d' f"
  shows "reads (then_read (take_lit l) k) s n tx x d d' f"
proof (rule readsI, goal_cases)
  case (1 sc rest)
  have "take_lit l sc = Inr (False, sc)" using 1(1,3) by (intro take_lit_miss[OF assms(1)]) simp
  with reads_result[OF assms(2) 1] show ?case by (simp add: then_read_def)
qed

lemma peek_at:
  assumes "sc_pos sc = n" "n \<le> length (sc_input sc)" "drop n (sc_input sc) = b # t"
  shows "peek sc = Some b"
proof -
  have "n < length (sc_input sc)" using assms(3) by (metis drop_eq_Nil linorder_not_less list.distinct(1))
  then show ?thesis using assms by (auto simp: peek_Some nth_via_drop)
qed

lemma reads_peek:
  assumes "reads (k (Some b)) s n (b # t) x d d' f"
  shows "reads (then_peek k) s n (b # t) x d d' f"
proof (rule readsI, goal_cases)
  case (1 sc rest)
  have "peek sc = Some b" using 1(1,2,3) by (auto intro: peek_at)
  with reads_result[OF assms 1] show ?case by (simp add: then_peek_def)
qed

section \<open>Strings\<close>

lemma drop_Cons_nth: "drop n xs = b # t \<Longrightarrow> n \<le> length xs \<Longrightarrow> n < length xs \<and> xs ! n = b \<and> drop (Suc n) xs = t"
  by (metis Suc_le_eq drop_Suc drop_eq_Nil le_neq_implies_less list.distinct(1) list.sel(3) nth_via_drop order_refl tl_drop)

lemma string_end_plain:
  "drop (sc_pos sc) (sc_input sc) = v @ 0x22 # rest \<Longrightarrow> sc_pos sc \<le> length (sc_input sc) \<Longrightarrow> plain_text v \<Longrightarrow>
   length (sc_input sc) < usize_bound \<Longrightarrow> string_end sc = Inr ((), sc\<lparr>sc_pos := sc_pos sc + length v\<rparr>)"
proof (induction v arbitrary: sc)
  case Nil
  then have "peek sc = Some 0x22" using peek_at[of sc "sc_pos sc" "0x22" rest] by simp
  then show ?case by (simp add: string_end.simps[of sc])
next
  case (Cons b v)
  have d: "sc_pos sc < length (sc_input sc)" "drop (Suc (sc_pos sc)) (sc_input sc) = v @ 0x22 # rest"
    using drop_Cons_nth[of "sc_pos sc" "sc_input sc" b "v @ 0x22 # rest"] Cons.prems(1,2) by auto
  have p: "peek sc = Some b" using Cons.prems(1,2) by (intro peek_at[of sc "sc_pos sc" b]) auto
  have b: "b \<noteq> 0x22" "b \<noteq> 0x5c" "\<not> b < 0x20" using Cons.prems(3) by (auto simp: plain_text_def)
  let ?sc = "sc\<lparr>sc_pos := Suc (sc_pos sc)\<rparr>"
  have "string_end ?sc = Inr ((), ?sc\<lparr>sc_pos := sc_pos ?sc + length v\<rparr>)"
    by (rule Cons.IH) (use d Cons.prems in \<open>auto simp: plain_text_def\<close>)
  moreover have "Suc (sc_pos sc) < usize_bound" using d(1) Cons.prems(4) by simp
  ultimately show ?case
    unfolding string_end.simps[of sc] p option.case using b by (simp add: advance_def)
qed

lemma expect_quote:
  assumes "sc_pos sc = n" "n \<le> length (sc_input sc)" "drop n (sc_input sc) = 0x22 # rest" "length (sc_input sc) < usize_bound"
    "roomy (sc_budget sc) 0"
  shows "expect ''`'' sc = Inr ((), sc\<lparr>sc_pos := Suc n\<rparr>)"
proof -
  have w: "wire ''`'' = [0x22]" by (simp add: wire_def quoted_def str_bytes_def)
  have "take_lit ''`'' sc = Inr (True, sc\<lparr>sc_pos := n + length (wire ''`''), sc_budget := spend (sc_budget sc) 0 (jb_depth (sc_budget sc))\<rparr>)"
    by (rule take_lit_hit[OF assms(1,2) _ assms(4) _ assms(5)]) (use assms(3) in \<open>simp_all add: w slice_get_def\<close>)
  then show ?thesis by (simp add: expect_def w)
qed

lemma reads_plain:
  assumes v: "plain_text v"
  shows "reads json_plain False n (quote v) \<lparr>sp_value = v, sp_start = Suc n, sp_end = Suc n + length v\<rparr> d d 0"
proof (rule readsI, goal_cases)
  case (1 sc rest)
  have dr: "drop n (sc_input sc) = 0x22 # v @ 0x22 # rest" using 1(3) by (simp add: quote_def)
  let ?open = "sc\<lparr>sc_pos := Suc n\<rparr>" and ?close = "sc\<lparr>sc_pos := Suc n + length v\<rparr>"
  have d1: "Suc n \<le> length (sc_input sc)" "drop (Suc n) (sc_input sc) = v @ 0x22 # rest"
    using drop_Cons_nth[OF dr 1(2)] by auto
  have d2: "Suc n + length v \<le> length (sc_input sc)" "drop (Suc n + length v) (sc_input sc) = 0x22 # rest"
    using drop_split[OF d1] by auto
  have e: "expect ''`'' sc = Inr ((), ?open)"
    using 1 dr by (intro expect_quote) (auto simp: roomy_def)
  have m: "string_end ?open = Inr ((), ?close)"
    using string_end_plain[of ?open v rest] d1 v 1(4) by simp
  have c: "expect ''`'' ?close = Inr ((), ?close\<lparr>sc_pos := Suc (Suc n + length v)\<rparr>)"
    using 1 d2 by (intro expect_quote) (auto simp: roomy_def)
  have s: "slice_range (sc_input sc) (Suc n) (Suc n + length v) = Some v"
    using d1 d2 by (simp add: slice_range_def)
  show ?case
    using e m c s plain_text_utf8[OF v] 1(6)
    by (simp add: json_plain_def then_read_def Let_def give_def quote_def)
qed

lemma reads_value:
  assumes "plain_text v"
  shows "reads plain_value False n (quote v) v d d 0"
  using reads_map[OF reads_plain[OF assms], where h = sp_value] by (simp add: plain_value_def)

section \<open>Integers\<close>

definition decimal :: "bytes \<Rightarrow> bool" where
  "decimal v \<longleftrightarrow> v \<noteq> [] \<and> list_all is_digit v \<and> (hd v = of_char CHR ''0'' \<longrightarrow> tl v = [])"

lemma at_digit_at:
  assumes "sc_pos sc \<le> length (sc_input sc)" "drop (sc_pos sc) (sc_input sc) = rest"
  shows "at_digit sc \<longleftrightarrow> \<not> no_digit rest"
proof (cases rest)
  case Nil
  then show ?thesis using assms by (auto simp: at_digit_def no_digit_def peek_Some split: option.splits)
next
  case (Cons b t)
  then have "peek sc = Some b" using assms by (auto intro: peek_at)
  then show ?thesis by (simp add: at_digit_def no_digit_def Cons)
qed

lemma skip_digits_over:
  "drop (sc_pos sc) (sc_input sc) = v @ rest \<Longrightarrow> sc_pos sc \<le> length (sc_input sc) \<Longrightarrow> list_all is_digit v \<Longrightarrow>
   length (sc_input sc) < usize_bound \<Longrightarrow> no_digit rest \<Longrightarrow>
   skip_digits what sc = Inr ((), sc\<lparr>sc_pos := sc_pos sc + length v\<rparr>)"
proof (induction v arbitrary: sc)
  case Nil
  then show ?case by (simp add: skip_digits.simps[of what sc] at_digit_at)
next
  case (Cons b v)
  have d: "sc_pos sc < length (sc_input sc)" "drop (Suc (sc_pos sc)) (sc_input sc) = v @ rest"
    using drop_Cons_nth[of "sc_pos sc" "sc_input sc" b "v @ rest"] Cons.prems(1,2) by auto
  let ?sc = "sc\<lparr>sc_pos := Suc (sc_pos sc)\<rparr>"
  have "skip_digits what ?sc = Inr ((), ?sc\<lparr>sc_pos := sc_pos ?sc + length v\<rparr>)"
    by (rule Cons.IH) (use d Cons.prems in auto)
  moreover have "at_digit sc" using Cons.prems by (simp add: at_digit_at no_digit_def)
  moreover have "Suc (sc_pos sc) < usize_bound" using d(1) Cons.prems(4) by simp
  ultimately show ?case by (simp add: skip_digits.simps[of what sc] advance_def)
qed

lemma reads_integer:
  assumes v: "decimal v"
  shows "reads json_integer True n v v d d 0"
proof (rule readsI, goal_cases)
  case (1 sc rest)
  obtain b t where bt: "v = b # t" using v by (cases v) (auto simp: decimal_def)
  have p: "peek sc = Some b" using 1 bt by (intro peek_at[of sc n b]) auto
  have b: "is_digit b" "list_all is_digit t" using v bt by (auto simp: decimal_def)
  have dr: "n < length (sc_input sc)" "drop (Suc n) (sc_input sc) = t @ rest"
    using drop_Cons_nth[of n "sc_input sc" b "t @ rest"] 1(2,3) bt by auto
  have lt: "Suc n < usize_bound" using dr(1) 1(4) by simp
  let ?e = "sc\<lparr>sc_pos := n + length v\<rparr>"
  have w: "whole_digits ''digit'' ''no leading zeros in canonical integer'' ''digit'' sc = Inr ((), ?e)"
  proof (cases "b = of_char CHR ''0''")
    case True
    then have "t = []" using v bt by (auto simp: decimal_def)
    then have "\<not> at_digit (sc\<lparr>sc_pos := Suc n\<rparr>)" using 1(5) dr by (simp add: at_digit_at)
    then show ?thesis using True p bt \<open>t = []\<close> lt 1(1)
      by (simp add: whole_digits_def then_read_def advance_def)
  next
    case False
    have "skip_digits ''digit'' (sc\<lparr>sc_pos := Suc n\<rparr>) = Inr ((), sc\<lparr>sc_pos := Suc n + length t\<rparr>)"
      using skip_digits_over[of "sc\<lparr>sc_pos := Suc n\<rparr>" t rest "''digit''"] dr b(2) 1(4,5) by simp
    then show ?thesis using False p bt b(1) lt 1(1) by (simp add: whole_digits_def then_read_def advance_def)
  qed
  have s: "slice_range (sc_input sc) n (n + length v) = Some v"
    using drop_split[OF 1(2,3)] 1(3) by (simp add: slice_range_def)
  have u: "from_utf8_ok v"
  proof (rule from_utf8_ok_ascii, rule ballI)
    fix c assume "c \<in> set v"
    then have "c \<le> 0x39" using v by (auto simp: decimal_def list_all_iff is_digit_def)
    then show "c < 0x80" by (rule le_less_trans) simp
  qed
  show ?case using w s u 1(1,6) by (simp add: json_integer_def then_read_def span_since_def)
qed

section \<open>Arrays\<close>

lemma wire_punct [simp]:
  "wire '','' = [0x2c]" "wire ''['' = [0x5b]" "wire '']'' = [0x5d]" "wire ''{'' = [0x7b]" "wire ''}'' = [0x7d]" "wire ''`'' = [0x22]"
  by (simp_all add: wire_def quoted_def str_bytes_def)

lemma reads_list_items:
  assumes m: "moves_on item"
    and it: "\<And>y n. y \<in> set ys \<Longrightarrow> reads item False n (tx y) (vl y) (Suc d) (Suc d) (c y)"
  shows "reads (list_items item acc) False n (json_items (map tx ys) @ wire '']'') (acc @ map vl ys) (Suc d) d (sum_list (map c ys))"
  using it
proof (induction ys arbitrary: acc n)
  case Nil
  have "reads (then_read (take_lit '']'') (\<lambda>closed. if closed then give acc else
      then_read (expect '','') (\<lambda>_. then_read item (\<lambda>x. list_items item (acc @ [x]))))) False n
      (wire '']'' @ []) acc (Suc d) d (0 + 0)"
    by (rule reads_then[OF reads_take[where d' = d and f = 0]]) (simp_all add: reads_give)
  then show ?case by (subst list_items_loop[OF m]) simp
next
  case (Cons y ys)
  have "reads (then_read (expect '','') (\<lambda>_. then_read item (\<lambda>x. list_items item (acc @ [x])))) False n
      (wire '','' @ tx y @ (json_items (map tx ys) @ wire '']'')) ((acc @ [vl y]) @ map vl ys) (Suc d) d
      (0 + (c y + sum_list (map c ys)))"
    by (rule reads_then[OF reads_lit], simp, simp, rule reads_then[OF Cons.prems _ Cons.IH[OF Cons.prems]]) simp_all
  then have "reads (then_read (take_lit '']'') (\<lambda>closed. if closed then give acc else
      then_read (expect '','') (\<lambda>_. then_read item (\<lambda>x. list_items item (acc @ [x]))))) False n
      (wire '','' @ tx y @ (json_items (map tx ys) @ wire '']'')) ((acc @ [vl y]) @ map vl ys) (Suc d) d
      (0 + (c y + sum_list (map c ys)))"
    by (intro reads_miss) simp_all
  then show ?case by (subst list_items_loop[OF m]) simp
qed

lemma reads_tail_list:
  assumes "moves_on item" and it: "\<And>y n. y \<in> set (y0 # ys) \<Longrightarrow> reads item False n (tx y) (vl y) (Suc d) (Suc d) (c y)"
  shows "reads (tail_list item) False n (tx y0 @ json_items (map tx ys) @ wire '']'') (map vl (y0 # ys)) (Suc d) d
    (sum_list (map c (y0 # ys)))"
proof -
  have "reads (then_read item (\<lambda>x. list_items item [x])) False n (tx y0 @ (json_items (map tx ys) @ wire '']''))
      ([vl y0] @ map vl ys) (Suc d) d (c y0 + sum_list (map c ys))"
    by (rule reads_then[OF it _ reads_list_items[OF assms(1) it]]) simp_all
  then show ?thesis by (simp add: tail_list_def)
qed

text \<open>An item that does not start with the bracket that closes the array.\<close>

definition starts_item :: "bytes \<Rightarrow> bool" where
  "starts_item s \<longleftrightarrow> s \<noteq> [] \<and> hd s \<noteq> of_char CHR '']''"

lemma differs_item: "starts_item s \<Longrightarrow> differs (wire '']'') (s @ r)"
  by (cases s) (auto simp: starts_item_def)

lemma starts_item_quote [simp]: "starts_item (quote v)"
  by (simp add: starts_item_def quote_def)

lemma reads_delimited:
  assumes m: "moves_on item" and it: "\<And>y n. y \<in> set ys \<Longrightarrow> reads item False n (tx y) (vl y) (Suc d) (Suc d) (c y)"
    and st: "\<And>y. y \<in> set ys \<Longrightarrow> starts_item (tx y)" and d: "d < 3"
  shows "reads (delimited_list item) False n (json_array (map tx ys)) (map vl ys) d d (sum_list (map c ys))"
proof -
  have tail: "reads (then_read (take_lit '']'') (\<lambda>closed. if closed then give [] else tail_list item)) False m'
      ((case map tx ys of [] \<Rightarrow> [] | t # ts \<Rightarrow> t @ json_items ts) @ wire '']'') (map vl ys) (Suc d) d (sum_list (map c ys))" for m'
  proof (cases ys)
    case Nil
    have "reads (then_read (take_lit '']'') (\<lambda>closed. if closed then give [] else tail_list item)) False m'
        (wire '']'' @ []) [] (Suc d) d (0 + 0)"
      by (rule reads_then[OF reads_take[where d' = d and f = 0]]) (simp_all add: reads_give)
    then show ?thesis by (simp add: Nil)
  next
    case (Cons y zs)
    have "reads (then_read (take_lit '']'') (\<lambda>closed. if closed then give [] else tail_list item)) False m'
        (tx y @ json_items (map tx zs) @ wire '']'') (map vl (y # zs)) (Suc d) d (sum_list (map c (y # zs)))"
      by (rule reads_miss[OF differs_item]) (use Cons st reads_tail_list[OF m it, of y zs] in simp_all)
    then show ?thesis by (simp add: Cons)
  qed
  have "reads (delimited_list item) False n (wire ''['' @ ((case map tx ys of [] \<Rightarrow> [] | t # ts \<Rightarrow> t @ json_items ts) @ wire '']''))
      (map vl ys) d d (0 + sum_list (map c ys))"
    unfolding delimited_list_def by (rule reads_then[OF reads_lit _ tail]) (use d in simp_all)
  then show ?thesis by (simp add: json_array_def)
qed

lemma reads_string_array:
  assumes "list_all plain_text vs" "d < 3"
  shows "reads string_array False n (json_array (map quote vs)) vs d d 0"
proof -
  have "reads (delimited_list plain_value) False n (json_array (map quote vs)) (map (\<lambda>v. v) vs) d d (sum_list (map (\<lambda>_. 0) vs))"
    by (rule reads_delimited) (use assms in \<open>auto intro: reads_value simp: list_all_iff\<close>)
  then show ?thesis by (simp add: string_array_def)
qed

end
