(* ===== verification/Codec_Field.thy ===== *)
theory Codec_Field
  imports Codec_Reads
begin

text \<open>
  The text of one field in both directions: the encoders of \<^verbatim>\<open>codec.rs\<close> for primitives,
  identifiers and configuration traits, and the lifts \<^verbatim>\<open>FromWire\<close> of \<^verbatim>\<open>codec/field.rs\<close>,
  with the integer parser of the standard library they call. Each encoder writes a text
  that its lift reads back.
\<close>

section \<open>Encoders\<close>

definition matter_encode :: "(bytes \<Rightarrow> bytes) \<Rightarrow> ('c \<Rightarrow> MatterCode) \<Rightarrow> 'c Matter \<Rightarrow> writer" where
  "matter_encode enc to_mc m = then_write (put [0x22]) (then_write (append_qb64 enc to_mc m) (put [0x22]))"

abbreviation key_encode :: "(bytes \<Rightarrow> bytes) \<Rightarrow> VerKeyCode Matter \<Rightarrow> writer" where
  "key_encode enc \<equiv> matter_encode enc VerKeyCode_to_matter_code"

abbreviation digest_encode :: "(bytes \<Rightarrow> bytes) \<Rightarrow> DigestCode Matter \<Rightarrow> writer" where
  "digest_encode enc \<equiv> matter_encode enc DigestCode_to_matter_code"

primrec identifier_encode :: "(bytes \<Rightarrow> bytes) \<Rightarrow> Identifier \<Rightarrow> writer" where
  "identifier_encode enc (Basic p) = key_encode enc p"
| "identifier_encode enc (SelfAddressing s) = digest_encode enc s"

definition config_encode :: "ConfigTrait list \<Rightarrow> writer" where
  "config_encode cs = write_array (\<lambda>c. write_str (ConfigTrait_code c)) cs"

text \<open>\<^verbatim>\<open>Ordinal::numh\<close>: the shortest lower-case hexadecimal text.\<close>

definition numh :: "Number \<Rightarrow> bytes" where
  "numh n = hex_digits (unat (num_value n))"

section \<open>Integers of the standard library\<close>

text \<open>
  \<^verbatim>\<open>uN::from_str_radix\<close> and \<^verbatim>\<open>str::parse\<close> (radix ten): a plus sign is allowed before at least
  one digit, digits have either case, and the value has to fit. The errors are all mapped
  away by the callers.
\<close>

definition radix_digit :: "nat \<Rightarrow> byte \<Rightarrow> nat option" where
  "radix_digit r b =
     (case decode_hex_digit b of None \<Rightarrow> None | Some d \<Rightarrow> if unat d < r then Some (unat d) else None)"

fun radix_value :: "nat \<Rightarrow> nat \<Rightarrow> bytes \<Rightarrow> nat option" where
  "radix_value r acc [] = Some acc"
| "radix_value r acc (b # bs) =
     (case radix_digit r b of None \<Rightarrow> None | Some d \<Rightarrow> radix_value r (acc * r + d) bs)"

definition from_str_radix :: "nat \<Rightarrow> bytes \<Rightarrow> 'a::len word option" where
  "from_str_radix r s =
     (let ds = (case s of b # t \<Rightarrow> if b = of_char CHR ''+'' \<and> t \<noteq> [] then t else s | [] \<Rightarrow> []) in
      if ds = [] then None else
      Option.bind (radix_value r 0 ds) (\<lambda>v. if v < 2 ^ LENGTH('a) then Some (word_of_nat v) else None))"

section \<open>Lifts\<close>

definition map_qb64_error :: "string \<Rightarrow> MatterBuildError \<Rightarrow> DeserializeError" where
  "map_qb64_error field e =
     (case e of Validation source \<Rightarrow> InvalidPrimitive field source
              | Parsing source \<Rightarrow> UnparseablePrimitive field source)"

definition matter_from_wire ::
    "(bytes \<Rightarrow> bytes option) \<Rightarrow> (MatterCode \<Rightarrow> ValidationError + 'c) \<Rightarrow> string \<Rightarrow> bytes \<Rightarrow> DeserializeError + 'c Matter" where
  "matter_from_wire dec try_from field s =
     res_bind (map_err (map_qb64_error field) (from_qualified_base64 dec s)) (\<lambda>m.
     map_err (InvalidPrimitive field) (narrow try_from m))"

abbreviation key_from_wire :: "(bytes \<Rightarrow> bytes option) \<Rightarrow> string \<Rightarrow> bytes \<Rightarrow> DeserializeError + VerKeyCode Matter" where
  "key_from_wire dec \<equiv> matter_from_wire dec VerKeyCode_try_from"

abbreviation digest_from_wire :: "(bytes \<Rightarrow> bytes option) \<Rightarrow> string \<Rightarrow> bytes \<Rightarrow> DeserializeError + DigestCode Matter" where
  "digest_from_wire dec \<equiv> matter_from_wire dec DigestCode_try_from"

definition identifier_from_wire :: "(bytes \<Rightarrow> bytes option) \<Rightarrow> string \<Rightarrow> bytes \<Rightarrow> DeserializeError + Identifier" where
  "identifier_from_wire dec field s =
     (case key_from_wire dec field s of
        Inr basic \<Rightarrow> Inr (Basic basic)
      | Inl _ \<Rightarrow> res_bind (digest_from_wire dec field s) (\<lambda>digest. Inr (SelfAddressing digest)))"

definition number_from_wire :: "string \<Rightarrow> bytes \<Rightarrow> DeserializeError + Number" where
  "number_from_wire field s =
     res_bind (ok_or (InvalidPrimitive field (ValidationError.UnknownCode s)) (from_str_radix 16 s)) (\<lambda>n. Inr (Number_new n))"

definition config_from_wire :: "string \<Rightarrow> bytes \<Rightarrow> DeserializeError + ConfigTrait" where
  "config_from_wire field s = map_err (\<lambda>_. UnknownEventType s) (ConfigTrait_from_code s)"

text \<open>A list field stops at the first item that does not lift.\<close>

definition each_from_wire :: "(string \<Rightarrow> 'w \<Rightarrow> DeserializeError + 'a) \<Rightarrow> string \<Rightarrow> 'w list \<Rightarrow> DeserializeError + 'a list" where
  "each_from_wire lift field items = traverse (lift field) items"

section \<open>Integers read back\<close>

lemma radix_value_append:
  "radix_value r acc (a @ b) = Option.bind (radix_value r acc a) (\<lambda>v. radix_value r v b)"
  by (induction a arbitrary: acc) (auto split: option.splits)

lemma radix_digit_hex: "d < 16 \<Longrightarrow> radix_digit 16 (hex_digit d) = Some d"
  by (simp add: radix_digit_def decode_hex_digit_hex unat_of_nat)

lemma radix_value_hex: "radix_value 16 0 (hex_digits n) = Some n"
proof (induction n rule: hex_digits.induct)
  case (1 n)
  show ?case
  proof (cases "n < 16")
    case True
    then show ?thesis by (simp add: hex_digits.simps[of n] radix_digit_hex)
  next
    case False
    then show ?thesis using "1.IH"[OF False]
      by (simp add: hex_digits.simps[of n] radix_value_append radix_digit_hex)
  qed
qed

lemma radix_digit_dec: "d < 10 \<Longrightarrow> radix_digit 10 (word_of_nat (48 + d)) = Some d"
proof -
  have "list_all (\<lambda>d. radix_digit 10 (word_of_nat (48 + d)) = Some d) [0..<10]" by code_simp
  then show "d < 10 \<Longrightarrow> ?thesis" by (simp add: list_all_iff)
qed

lemma radix_value_dec: "radix_value 10 0 (nat_to_string n) = Some n"
proof (induction n rule: nat_to_string.induct)
  case (1 n)
  show ?case
  proof (cases "n < 10")
    case True
    then show ?thesis by (simp only: nat_to_string.simps[of n] if_True radix_value.simps radix_digit_dec) simp
  next
    case False
    have "radix_digit 10 (word_of_nat (48 + n mod 10)) = Some (n mod 10)" by (rule radix_digit_dec) simp
    then show ?thesis using "1.IH"[OF False] False
      by (simp only: nat_to_string.simps[of n] if_False radix_value_append bind.simps radix_value.simps option.case) simp
  qed
qed

lemma radix_value_no_plus: "radix_value r acc s = Some v \<Longrightarrow> s = b # t \<Longrightarrow> b \<noteq> of_char CHR ''+''"
proof
  assume "radix_value r acc s = Some v" "s = b # t" "b = of_char CHR ''+''"
  moreover have "decode_hex_digit (of_char CHR ''+'') = None" by code_simp
  ultimately show False by (simp add: radix_digit_def)
qed

lemma from_str_radix_value:
  fixes w :: "'a::len word"
  assumes "radix_value r 0 s = Some (unat w)" "s \<noteq> []"
  shows "from_str_radix r s = Some w"
proof -
  have "(case s of b # t \<Rightarrow> if b = of_char CHR ''+'' \<and> t \<noteq> [] then t else s | [] \<Rightarrow> []) = s"
    using radix_value_no_plus[OF assms(1)] by (cases s) auto
  moreover have "unat w < 2 ^ LENGTH('a)" by (rule unsigned_less)
  ultimately show ?thesis using assms by (simp add: from_str_radix_def Let_def)
qed

lemma hex_digits_ne [simp]: "hex_digits n \<noteq> []"
  by (subst hex_digits.simps) simp

lemma nat_to_string_ne [simp]: "nat_to_string n \<noteq> []"
  by (subst nat_to_string.simps) simp

lemma parse_hex: "from_str_radix 16 (hex_digits (unat w)) = Some w"
  by (rule from_str_radix_value) (simp_all add: radix_value_hex)

lemma parse_dec: "from_str_radix 10 (nat_to_string (unat w)) = Some w"
  by (rule from_str_radix_value) (simp_all add: radix_value_dec)

lemma radix_digit_plain: "radix_digit r b = Some d \<Longrightarrow> plain_text [b]"
proof -
  have "list_all (\<lambda>n. decode_hex_digit (word_of_nat n) = None \<or> plain_text [word_of_nat n]) [0..<256]" by code_simp
  then have "decode_hex_digit b = None \<or> plain_text [b]"
    using byte_less[of b] by (auto simp: list_all_iff dest!: bspec[of _ _ "unat b"])
  then show "radix_digit r b = Some d \<Longrightarrow> plain_text [b]" by (auto simp: radix_digit_def)
qed

lemma radix_value_plain: "radix_value r acc s = Some v \<Longrightarrow> plain_text s"
  by (induction s arbitrary: acc) (auto split: option.splits dest: radix_digit_plain simp: plain_text_def)

lemma plain_hex [simp]: "plain_text (hex_digits n)"
  by (rule radix_value_plain[OF radix_value_hex])

lemma plain_dec [simp]: "plain_text (nat_to_string n)"
  by (rule radix_value_plain[OF radix_value_dec])

lemma number_from_numh: "number_from_wire field (numh n) = Inr (Number_new (num_value n))"
  by (simp add: number_from_wire_def numh_def parse_hex)

section \<open>Primitives read back\<close>

definition matter_text :: "('c \<Rightarrow> MatterCode) \<Rightarrow> 'c Matter \<Rightarrow> bytes" where
  "matter_text to_mc m = frame_bytes (to_mc (m_code m)) (m_soft m) (raw_chars (to_mc (m_code m)) (m_raw m))"

text \<open>A primitive that fits its code and whose soft part is text of the alphabet.\<close>

definition wire_ok :: "('c \<Rightarrow> MatterCode) \<Rightarrow> 'c Matter \<Rightarrow> bool" where
  "wire_ok to_mc m \<longleftrightarrow> matter_ok (widen to_mc m) \<and> is_b64_url_safe_charset (m_soft m)"

lemma charset_plain: "is_b64_url_safe_charset s \<Longrightarrow> plain_text s"
proof -
  have "list_all (\<lambda>n. is_b64_url_safe_charset [word_of_nat n] \<longrightarrow> plain_text [word_of_nat n]) [0..<256]" by code_simp
  then have "is_b64_url_safe_charset [b] \<Longrightarrow> plain_text [b]" for b
    using byte_less[of b] by (auto simp: list_all_iff dest!: bspec[of _ _ "unat b"])
  then show "is_b64_url_safe_charset s \<Longrightarrow> plain_text s"
    by (auto simp: is_b64_url_safe_charset_def plain_text_def list_all_iff)
qed

lemma plain_code: "plain_text (MatterCode_to_string c)"
  by (cases c) (simp_all add: MatterCode_to_string_def str_bytes_def plain_text_def)

lemma matter_writes:
  assumes "b64_engine enc dec" "wire_ok to_mc m"
  shows "writes (matter_encode enc to_mc m) (quote (matter_text to_mc m))"
proof -
  have "append_qb64 enc to_mc m out = Some (out @ matter_text to_mc m)" for out
    using append_qb64_frame[OF assms(1), of "widen to_mc m"] assms(2)
    by (simp add: wire_ok_def append_qb64_widen[of enc to_mc] matter_text_def widen_def Matter_new_def)
  then show ?thesis by (simp add: writes_def matter_encode_def then_write_def put_def quote_def)
qed

lemma matter_text_parse:
  assumes "b64_engine enc dec" "wire_ok to_mc m"
  shows "from_qualified_base64 dec (matter_text to_mc m) = Inr (widen to_mc m)"
  using parse_frame[OF assms(1), of "widen to_mc m" "[]"] assms(2)
  by (simp add: wire_ok_def matter_text_def widen_def Matter_new_def)

lemma matter_text_plain:
  assumes "wire_ok to_mc m"
  shows "plain_text (matter_text to_mc m)"
proof -
  have al: "(sz_ls (get_sizage (to_mc (m_code m))) + code_ps (to_mc (m_code m)) + length (m_raw m)) mod 3 = 0"
    using matter_ok_sizes(1)[of "widen to_mc m"] assms by (simp add: wire_ok_def widen_def Matter_new_def)
  then have "plain_text (qb2_chars (replicate (sz_ls (get_sizage (to_mc (m_code m))) + code_ps (to_mc (m_code m))) 0 @ m_raw m))"
    by (intro charset_plain qb2_charset) simp
  then have "plain_text (raw_chars (to_mc (m_code m)) (m_raw m))"
    unfolding raw_chars_props(1)[OF al] by simp
  moreover have "plain_text (replicate k PAD)" for k by (auto simp: plain_text_def list_all_iff PAD_def)
  ultimately show ?thesis
    using assms by (simp add: matter_text_def frame_bytes_def plain_code charset_plain wire_ok_def)
qed

lemma key_text_lift:
  assumes "b64_engine enc dec" "wire_ok VerKeyCode_to_matter_code k"
  shows "key_from_wire dec field (matter_text VerKeyCode_to_matter_code k) = Inr k"
  using matter_text_parse[OF assms] verkey_code.narrow_iff by (simp add: matter_from_wire_def)

lemma digest_text_lift:
  assumes "b64_engine enc dec" "wire_ok DigestCode_to_matter_code k"
  shows "digest_from_wire dec field (matter_text DigestCode_to_matter_code k) = Inr k"
  using matter_text_parse[OF assms] digest_code.narrow_iff by (simp add: matter_from_wire_def)

primrec identifier_text :: "Identifier \<Rightarrow> bytes" where
  "identifier_text (Basic p) = matter_text VerKeyCode_to_matter_code p"
| "identifier_text (SelfAddressing s) = matter_text DigestCode_to_matter_code s"

primrec identifier_wire_ok :: "Identifier \<Rightarrow> bool" where
  "identifier_wire_ok (Basic p) = wire_ok VerKeyCode_to_matter_code p"
| "identifier_wire_ok (SelfAddressing s) = wire_ok DigestCode_to_matter_code s"

text \<open>No digest code is a key code, so the first attempt decides.\<close>

lemma digest_not_key: "VerKeyCode_try_from (DigestCode_to_matter_code c) \<noteq> Inr k"
  using verkey_code.try_from_only[of "DigestCode_to_matter_code c" k] by (cases c; cases k) auto

lemma identifier_text_lift:
  assumes "b64_engine enc dec" "identifier_wire_ok i"
  shows "identifier_from_wire dec field (identifier_text i) = Inr i"
proof (cases i)
  case (Basic p)
  then show ?thesis using key_text_lift[OF assms(1)] assms(2) by (simp add: identifier_from_wire_def)
next
  case (SelfAddressing s)
  then have ok: "wire_ok DigestCode_to_matter_code s" using assms(2) by simp
  have "narrow VerKeyCode_try_from (widen DigestCode_to_matter_code s) \<noteq> Inr k" for k
    by (auto simp: narrow_def widen_def Matter_new_def digest_not_key)
  then obtain e where "key_from_wire dec field (matter_text DigestCode_to_matter_code s) = Inl e"
    using matter_text_parse[OF assms(1) ok]
    by (cases "narrow VerKeyCode_try_from (widen DigestCode_to_matter_code s)") (auto simp: matter_from_wire_def)
  then show ?thesis using digest_text_lift[OF assms(1) ok] by (simp add: identifier_from_wire_def SelfAddressing)
qed

lemma identifier_writes:
  "b64_engine enc dec \<Longrightarrow> identifier_wire_ok i \<Longrightarrow> writes (identifier_encode enc i) (quote (identifier_text i))"
  by (cases i) (simp_all add: matter_writes)

lemma identifier_plain: "identifier_wire_ok i \<Longrightarrow> plain_text (identifier_text i)"
  by (cases i) (simp_all add: matter_text_plain)

lemma config_plain: "plain_text (ConfigTrait_code c)"
  by (cases c) (simp_all add: str_bytes_def plain_text_def)

lemma config_lift [simp]: "config_from_wire field (ConfigTrait_code c) = Inr c"
  by (simp add: config_from_wire_def config_trait.from_code_code)

lemma each_lift:
  assumes "\<And>x. x \<in> set xs \<Longrightarrow> lift field (tx x) = Inr (vl x)"
  shows "each_from_wire lift field (map tx xs) = Inr (map vl xs)"
  using assms unfolding each_from_wire_def by (induction xs) auto

end
