(* ===== verification/Codec_Threshold.thy ===== *)
theory Codec_Threshold
  imports Codec_Field
begin

text \<open>
  Signing thresholds and witness counts on the wire, \<^verbatim>\<open>codec/threshold.rs\<close>: a hexadecimal
  string, an integer, or one or several arrays of fractions. What is written is read back
  and lifts to the same threshold, when every fraction is in the form the writer keeps.
\<close>

section \<open>Writing\<close>

definition weight_to_string :: "u64 \<Rightarrow> u64 \<Rightarrow> bytes" where
  "weight_to_string num den =
     (if den \<noteq> 0 \<and> (num = 0 \<or> num = den) then nat_to_string (unat (num div den))
      else nat_to_string (unat num) @ wire ''/'' @ nat_to_string (unat den))"

definition weight_clause :: "(u64 \<times> u64) list \<Rightarrow> writer" where
  "weight_clause clause = write_array (\<lambda>(num, den). write_str (weight_to_string num den)) clause"

text \<open>The debug assertion on an integer form above \<^verbatim>\<open>u32::MAX\<close> is left out, as in a release build.\<close>

definition threshold_encode :: "ThresholdForm \<Rightarrow> SigningThreshold \<Rightarrow> writer" where
  "threshold_encode form t =
     (case t of
        Simple n \<Rightarrow>
          (case form of
             HexString \<Rightarrow> write_str (hex_digits (unat n))
           | Integer \<Rightarrow> put (nat_to_string (unat n)))
      | Weighted w \<Rightarrow>
          (case clauses w of
             [single] \<Rightarrow> weight_clause single
           | first # second # rest \<Rightarrow>
               then_write (put (wire ''['')) (then_write (weight_clause first)
               (then_write (put (wire '','')) (then_write (weight_clause second)
               (then_write (foldr (\<lambda>clause. then_write (then_write (put (wire '','')) (weight_clause clause))) rest (put []))
                 (put (wire '']''))))))
           | [] \<Rightarrow> put (wire ''[]'')))"

definition count_encode :: "ThresholdForm \<Rightarrow> Toad \<Rightarrow> writer" where
  "count_encode form toad =
     (case form of
        HexString \<Rightarrow> write_str (hex_digits (unat toad))
      | Integer \<Rightarrow> put (nat_to_string (unat toad)))"

section \<open>Reading\<close>

datatype ParsedTholder = TholderHex bytes | TholderNumber bytes | TholderWeighted "bytes list list"

datatype ParsedCount = CountHex bytes | CountNumber bytes

definition tholder_weighted :: "ParsedTholder reader" where
  "tholder_weighted =
     then_read (expect ''['') (\<lambda>_.
     then_read (take_lit '']'') (\<lambda>closed.
     if closed then give (TholderWeighted []) else
     then_peek (\<lambda>b.
       if b = Some 0x22 then then_read (tail_list plain_value) (\<lambda>clause. give (TholderWeighted [clause]))
       else if b = Some 0x5b then then_read (tail_list string_array) (\<lambda>clauses. give (TholderWeighted clauses))
       else refuse ''weight fraction string or clause array'')))"

definition tholder_decode :: "ParsedTholder reader" where
  "tholder_decode =
     then_peek (\<lambda>b.
       if b = Some 0x22 then then_read plain_value (\<lambda>s. give (TholderHex s))
       else if (\<exists>d. b = Some d \<and> is_digit d) then then_read json_integer (\<lambda>s. give (TholderNumber s))
       else if b = Some 0x5b then tholder_weighted
       else refuse ''threshold (hex string, integer, or weighted array)'')"

definition count_decode :: "ParsedCount reader" where
  "count_decode =
     then_peek (\<lambda>b.
       if b = Some 0x22 then then_read plain_value (\<lambda>s. give (CountHex s))
       else if (\<exists>d. b = Some d \<and> is_digit d) then then_read json_integer (\<lambda>s. give (CountNumber s))
       else refuse ''count (hex string or integer)'')"

section \<open>Lifting\<close>

definition threshold_num_err :: "string \<Rightarrow> bytes \<Rightarrow> DeserializeError" where
  "threshold_num_err field s = InvalidPrimitive field (ValidationError.UnknownCode s)"

definition parse_u64 :: "string \<Rightarrow> bytes \<Rightarrow> bytes \<Rightarrow> DeserializeError + u64" where
  "parse_u64 field whole s = ok_or (threshold_num_err field whole) (from_str_radix 10 s)"

definition parse_weight :: "string \<Rightarrow> bytes \<Rightarrow> DeserializeError + (u64 \<times> u64)" where
  "parse_weight field s =
     (case position (\<lambda>b. b = of_char CHR ''/'') s of
        Some i \<Rightarrow>
          res_bind (parse_u64 field s (take i s)) (\<lambda>num.
          res_bind (parse_u64 field s (drop (Suc i) s)) (\<lambda>den.
          if den = 0 then Inl (threshold_num_err field s) else Inr (num, den)))
      | None \<Rightarrow> res_bind (parse_u64 field s s) (\<lambda>num. Inr (num, 1)))"

definition threshold_from_wire :: "string \<Rightarrow> ParsedTholder \<Rightarrow> DeserializeError + SigningThreshold" where
  "threshold_from_wire field t =
     (case t of
        TholderHex s \<Rightarrow> res_bind (ok_or (threshold_num_err field s) (from_str_radix 16 s)) (\<lambda>n. Inr (Simple n))
      | TholderNumber s \<Rightarrow> res_bind (parse_u64 field s s) (\<lambda>n. Inr (Simple n))
      | TholderWeighted cs \<Rightarrow>
          res_bind (traverse (traverse (parse_weight field)) cs) (\<lambda>nested.
          map_err (ThresholdOutOfRange field) (res_bind (from_nested nested) (\<lambda>w. Inr (Weighted w)))))"

definition count_from_wire :: "string \<Rightarrow> ParsedCount \<Rightarrow> DeserializeError + u32" where
  "count_from_wire field c =
     (let s = (case c of CountHex s \<Rightarrow> s | CountNumber s \<Rightarrow> s);
          count_err = InvalidPrimitive field (ValidationError.UnknownCode s)
      in res_bind (ok_or count_err (from_str_radix (case c of CountHex _ \<Rightarrow> 16 | CountNumber _ \<Rightarrow> 10) s)) (\<lambda>n :: u128.
         if unat n < 2 ^ 32 then Inr (ucast n) else Inl count_err))"

section \<open>Round trips\<close>

text \<open>A fraction as the writer keeps it: zero is 0/1, one is 1/1.\<close>

definition weight_canonical :: "u64 \<times> u64 \<Rightarrow> bool" where
  "weight_canonical w \<longleftrightarrow> snd w \<noteq> 0 \<and> (fst w = 0 \<or> fst w = snd w \<longrightarrow> snd w = 1)"

definition weighted_text :: "(u64 \<times> u64) list list \<Rightarrow> bytes" where
  "weighted_text cs =
     (let clause = (\<lambda>c. json_array (map (\<lambda>(n, d). quote (weight_to_string n d)) c)) in
      case cs of [single] \<Rightarrow> clause single | _ \<Rightarrow> json_array (map clause cs))"

definition threshold_text :: "ThresholdForm \<Rightarrow> SigningThreshold \<Rightarrow> bytes" where
  "threshold_text form t =
     (case t of
        Simple n \<Rightarrow> (case form of HexString \<Rightarrow> quote (hex_digits (unat n)) | Integer \<Rightarrow> nat_to_string (unat n))
      | Weighted w \<Rightarrow> weighted_text (clauses w))"

definition threshold_parsed :: "ThresholdForm \<Rightarrow> SigningThreshold \<Rightarrow> ParsedTholder" where
  "threshold_parsed form t =
     (case t of
        Simple n \<Rightarrow> (case form of HexString \<Rightarrow> TholderHex (hex_digits (unat n)) | Integer \<Rightarrow> TholderNumber (nat_to_string (unat n)))
      | Weighted w \<Rightarrow> TholderWeighted (map (map (\<lambda>(n, d). weight_to_string n d)) (clauses w)))"

text \<open>
  A threshold the text keeps: an integer form fits the width the reader allows, a weighted
  one was made by \<^verbatim>\<open>from_nested\<close> from canonical fractions, without an empty clause.
\<close>

definition threshold_wire_ok :: "ThresholdForm \<Rightarrow> SigningThreshold \<Rightarrow> bool" where
  "threshold_wire_ok form t \<longleftrightarrow>
     (case t of
        Simple n \<Rightarrow> form = Integer \<longrightarrow> unat n < 2 ^ 32
      | Weighted w \<Rightarrow>
          from_nested (clauses w) = Inr w \<and> list_all (\<lambda>c. c \<noteq> [] \<and> list_all weight_canonical c) (clauses w))"

lemma plain_slash [simp]: "plain_text (wire ''/'')"
  by (simp add: wire_def quoted_def str_bytes_def plain_text_def)

lemma plain_weight [simp]: "plain_text (weight_to_string n d)"
  by (simp add: weight_to_string_def)

lemma writes_clause: "writes (weight_clause c) (json_array (map (\<lambda>(n, d). quote (weight_to_string n d)) c))"
  unfolding weight_clause_def by (rule writes_array) auto

lemma writes_more_clauses:
  "writes (foldr (\<lambda>clause. then_write (then_write (put (wire '','')) (weight_clause clause))) rest (put []))
     (json_items (map (\<lambda>c. json_array (map (\<lambda>(n, d). quote (weight_to_string n d)) c)) rest))"
proof (induction rest)
  case (Cons c rest)
  show ?case using writes_then[OF writes_then[OF writes_put writes_clause[of c]] Cons, of "wire '',''"] by simp
qed (simp add: writes_put)

lemma threshold_writes: "writes (threshold_encode form t) (threshold_text form t)"
proof (cases t)
  case (Simple n)
  then show ?thesis by (cases form) (auto simp: threshold_encode_def threshold_text_def)
next
  case (Weighted w)
  consider "clauses w = []" | c where "clauses w = [c]" | c1 c2 cs where "clauses w = c1 # c2 # cs"
    by (cases "clauses w" rule: remdups_adj.cases) auto
  then show ?thesis
  proof cases
    case 1
    then show ?thesis using writes_put[of "wire ''[]''"]
      by (simp add: threshold_encode_def threshold_text_def Weighted weighted_text_def json_array_def)
        (simp add: wire_def quoted_def str_bytes_def)
  next
    case 2
    then show ?thesis using writes_clause
      by (simp add: threshold_encode_def threshold_text_def Weighted weighted_text_def)
  next
    case 3
    show ?thesis
      using writes_then[OF writes_put[of "wire ''[''"] writes_then[OF writes_clause[of c1]
        writes_then[OF writes_put[of "wire '',''"] writes_then[OF writes_clause[of c2]
        writes_then[OF writes_more_clauses[of cs] writes_put[of "wire '']''"]]]]]]
      by (simp add: threshold_encode_def threshold_text_def Weighted weighted_text_def 3 json_array_def Let_def)
  qed
qed

lemma count_writes: "writes (count_encode form c) (case form of HexString \<Rightarrow> quote (hex_digits (unat c)) | Integer \<Rightarrow> nat_to_string (unat c))"
  by (cases form) (auto simp: count_encode_def)

lemma reads_stop: "reads p False n s x d d' f \<Longrightarrow> reads p True n s x d d' f"
  by (simp add: reads_def)

lemma is_digit_char: "d < 10 \<Longrightarrow> is_digit (word_of_nat (48 + d))" "d < 10 \<Longrightarrow> word_of_nat (48 + d) = (0x30 :: byte) \<longleftrightarrow> d = 0"
proof -
  have "list_all (\<lambda>d. is_digit (word_of_nat (48 + d)) \<and> (word_of_nat (48 + d) = (0x30 :: byte) \<longleftrightarrow> d = 0)) [0..<10]"
    by code_simp
  then show "d < 10 \<Longrightarrow> is_digit (word_of_nat (48 + d))" "d < 10 \<Longrightarrow> word_of_nat (48 + d) = (0x30 :: byte) \<longleftrightarrow> d = 0"
    by (auto simp: list_all_iff simp del: of_nat_add)
qed

lemma nat_to_string_digits: "list_all is_digit (nat_to_string n)" "0 < n \<Longrightarrow> hd (nat_to_string n) \<noteq> 0x30"
proof (induction n rule: nat_to_string.induct)
  case (1 n)
  have m: "n mod 10 < 10" by simp
  { case 1
    show ?case
    proof (cases "n < 10")
      case True
      then show ?thesis by (simp only: nat_to_string.simps[of n] if_True list.pred_inject is_digit_char)
    next
      case False
      then show ?thesis using "1.IH"(1)[OF False] is_digit_char(1)[OF m]
        by (simp only: nat_to_string.simps[of n] if_False list_all_append list.pred_inject)
    qed }
  { case 2
    show ?case
    proof (cases "n < 10")
      case True
      then show ?thesis using 2 is_digit_char(2)[OF True] by (simp only: nat_to_string.simps[of n] if_True list.sel)
    next
      case False
      then have "hd (nat_to_string (n div 10)) \<noteq> 0x30" by (intro "1.IH"(2)) auto
      then show ?thesis using False by (simp only: nat_to_string.simps[of n] if_False hd_append2[OF nat_to_string_ne] not_False_eq_True)
    qed }
qed

lemma decimal_nat_to_string: "decimal (nat_to_string n)"
proof (cases "n = 0")
  case True
  then show ?thesis using nat_to_string_digits(1)[of 0] by (simp add: decimal_def) (simp add: nat_to_string.simps)
next
  case False
  then show ?thesis using nat_to_string_digits[of n] by (simp add: decimal_def)
qed

lemma digit_not_quote: "is_digit b \<Longrightarrow> b \<noteq> 0x22 \<and> b \<noteq> 0x5b \<and> b \<noteq> of_char CHR ''/''"
  by (auto simp: is_digit_def)

lemma reads_number_choice:
  assumes "decimal v"
  shows "reads (then_peek (\<lambda>b. if b = Some 0x22 then p else if (\<exists>d. b = Some d \<and> is_digit d)
      then then_read json_integer (\<lambda>s. give (h s)) else q b)) True n v (h v) d d 0"
proof -
  obtain b s where v: "v = b # s" "is_digit b" using assms by (cases v) (auto simp: decimal_def)
  have "reads (then_read json_integer (\<lambda>s. give (h s))) True n v (h v) d d 0"
    by (rule reads_map[OF reads_integer[OF assms]])
  then show ?thesis using v digit_not_quote[OF v(2)] by (auto intro!: reads_peek)
qed

lemma reads_string_choice:
  assumes "plain_text v"
  shows "reads (then_peek (\<lambda>b. if b = Some 0x22 then then_read plain_value (\<lambda>s. give (h s)) else q b)) True n (quote v) (h v) d d 0"
proof -
  have "reads (then_read plain_value (\<lambda>s. give (h s))) True n (quote v) (h v) d d 0"
    by (rule reads_stop[OF reads_map[OF reads_value[OF assms]]])
  then show ?thesis by (auto intro!: reads_peek simp: quote_def)
qed

lemma clause_reads:
  "d < 3 \<Longrightarrow> reads string_array False n (json_array (map (\<lambda>(n, d). quote (weight_to_string n d)) c))
     (map (\<lambda>(n, d). weight_to_string n d) c) d d 0"
  using reads_string_array[of "map (\<lambda>(n, d). weight_to_string n d) c" d n]
  by (simp add: list_all_iff comp_def case_prod_unfold)

lemma weighted_reads:
  assumes cs: "list_all (\<lambda>c. c \<noteq> []) cs" and d: "d < 2"
  shows "reads tholder_weighted False n (weighted_text cs) (TholderWeighted (map (map (\<lambda>(n, d). weight_to_string n d)) cs)) d d 0"
proof -
  let ?w = "\<lambda>(n, d). weight_to_string n d" and ?q = "\<lambda>(n, d). quote (weight_to_string n d)"
  let ?body = "then_read (take_lit '']'') (\<lambda>closed.
     if closed then give (TholderWeighted []) else
     then_peek (\<lambda>b.
       if b = Some 0x22 then then_read (tail_list plain_value) (\<lambda>clause. give (TholderWeighted [clause]))
       else if b = Some 0x5b then then_read (tail_list string_array) (\<lambda>clauses. give (TholderWeighted clauses))
       else refuse ''weight fraction string or clause array''))"
  have opens: "reads tholder_weighted False n (wire ''['' @ s) r d d (0 + 0)" if "reads ?body False (n + length (wire ''['')) s r (Suc d) d 0" for s r
    unfolding tholder_weighted_def
    by (rule reads_then[OF reads_lit], use d in simp, simp, rule that)
  consider "cs = []" | c where "cs = [c]" | c1 c2 rest where "cs = c1 # c2 # rest"
    by (cases cs rule: remdups_adj.cases) auto
  then show ?thesis
  proof cases
    case 1
    have "reads ?body False m (wire '']'' @ []) (TholderWeighted []) (Suc d) d (0 + 0)" for m
      by (rule reads_then[OF reads_take[where d' = d and f = 0]]) (simp_all add: reads_give)
    then have "reads ?body False m (wire '']'') (TholderWeighted []) (Suc d) d 0" for m by simp
    from opens[OF this] show ?thesis by (simp add: 1 weighted_text_def json_array_def)
  next
    case 2
    then obtain y ys where c: "c = y # ys" using cs by (cases c) auto
    have t: "reads (tail_list plain_value) False m (?q y @ json_items (map ?q ys) @ wire '']'') (map ?w (y # ys)) (Suc d) d
        (sum_list (map (\<lambda>_. 0) (y # ys)))" for m
      by (rule reads_tail_list) (auto intro: reads_value)
    have "reads ?body False m (?q y @ json_items (map ?q ys) @ wire '']'') (TholderWeighted [map ?w (y # ys)]) (Suc d) d 0" for m
      by (rule reads_miss)
        (use reads_map[OF t[of m], where h = "\<lambda>clause. TholderWeighted [clause]"] in
          \<open>auto intro!: reads_peek simp: quote_def case_prod_unfold\<close>)
    from opens[OF this] show ?thesis by (simp add: 2 c weighted_text_def json_array_def Let_def)
  next
    case 3
    let ?j = "\<lambda>c. json_array (map ?q c)"
    have t: "reads (tail_list string_array) False m (?j c1 @ json_items (map ?j (c2 # rest)) @ wire '']'')
        (map (map ?w) (c1 # c2 # rest)) (Suc d) d (sum_list (map (\<lambda>_. 0) (c1 # c2 # rest)))" for m
      by (rule reads_tail_list) (use d in \<open>auto intro: clause_reads\<close>)
    have "reads ?body False m (?j c1 @ json_items (map ?j (c2 # rest)) @ wire '']'')
        (TholderWeighted (map (map ?w) (c1 # c2 # rest))) (Suc d) d 0" for m
      by (rule reads_miss)
        (use reads_map[OF t[of m], where h = TholderWeighted] in \<open>auto intro!: reads_peek simp: json_array_def\<close>)
    from opens[OF this] show ?thesis by (simp add: 3 weighted_text_def json_array_def Let_def)
  qed
qed

lemma weighted_text_Cons: "\<exists>s. weighted_text cs = 0x5b # s"
  by (simp add: weighted_text_def json_array_def Let_def split: list.splits)

lemma threshold_reads:
  assumes ok: "threshold_wire_ok form t" and d: "d < 2"
  shows "reads tholder_decode True n (threshold_text form t) (threshold_parsed form t) d d 0"
proof (cases t)
  case (Simple v)
  show ?thesis
  proof (cases form)
    case HexString
    show ?thesis
      unfolding tholder_decode_def threshold_text_def threshold_parsed_def Simple SigningThreshold.case HexString ThresholdForm.case
      by (rule reads_string_choice) simp
  next
    case Integer
    show ?thesis
      unfolding tholder_decode_def threshold_text_def threshold_parsed_def Simple SigningThreshold.case Integer ThresholdForm.case
      by (rule reads_number_choice[OF decimal_nat_to_string])
  qed
next
  case (Weighted w)
  have "list_all (\<lambda>c. c \<noteq> []) (clauses w)" using ok by (simp add: threshold_wire_ok_def Weighted list_all_iff)
  from weighted_reads[OF this d]
  have r: "reads tholder_weighted True n (threshold_text form t) (threshold_parsed form t) d d 0"
    by (simp add: reads_stop threshold_text_def threshold_parsed_def Weighted)
  obtain s where "threshold_text form t = 0x5b # s"
    using weighted_text_Cons[of "clauses w"] by (auto simp: threshold_text_def Weighted)
  then show ?thesis using r unfolding tholder_decode_def by (auto intro!: reads_peek simp: is_digit_def)
qed

definition count_text :: "ThresholdForm \<Rightarrow> u32 \<Rightarrow> bytes" where
  "count_text form c = (case form of HexString \<Rightarrow> quote (hex_digits (unat c)) | Integer \<Rightarrow> nat_to_string (unat c))"

definition count_parsed :: "ThresholdForm \<Rightarrow> u32 \<Rightarrow> ParsedCount" where
  "count_parsed form c = (case form of HexString \<Rightarrow> CountHex (hex_digits (unat c)) | Integer \<Rightarrow> CountNumber (nat_to_string (unat c)))"

lemma count_reads: "reads count_decode True n (count_text form c) (count_parsed form c) d d 0"
proof (cases form)
  case HexString
  show ?thesis unfolding count_decode_def count_text_def count_parsed_def HexString ThresholdForm.case by (rule reads_string_choice) simp
next
  case Integer
  show ?thesis unfolding count_decode_def count_text_def count_parsed_def Integer ThresholdForm.case by (rule reads_number_choice[OF decimal_nat_to_string])
qed

lemma count_lift: "count_from_wire field (count_parsed form c) = Inr c"
proof -
  have b: "unat c < 2 ^ 32" using unsigned_less[of c, where 'a = nat] by simp
  have "unat (ucast c :: u128) = take_bit LENGTH(128) (unat c)" by (rule unsigned_ucast_eq)
  also have "\<dots> = unat c" by (rule take_bit_nat_eq_self) (use b in simp)
  finally have u: "unat (ucast c :: u128) = unat c" .
  have "from_str_radix 16 (hex_digits (unat c)) = Some (ucast c :: u128)"
    "from_str_radix 10 (nat_to_string (unat c)) = Some (ucast c :: u128)"
    using parse_hex[of "ucast c :: u128"] parse_dec[of "ucast c :: u128"] by (simp_all only: u)
  moreover have "ucast (ucast c :: u128) = c"
  proof (rule word_unat_eq_iff[THEN iffD2])
    have "unat (ucast (ucast c :: u128) :: u32) = take_bit LENGTH(32) (unat (ucast c :: u128))" by (rule unsigned_ucast_eq)
    also have "\<dots> = unat c" unfolding u by (rule take_bit_nat_eq_self) (use b in simp)
    finally show "unat (ucast (ucast c :: u128) :: u32) = unat c" .
  qed
  moreover have "unat (ucast c :: u128) < 2 ^ 32" using b by (simp only: u)
  ultimately show ?thesis
    by (cases form) (simp_all add: count_from_wire_def count_parsed_def Let_def del: unsigned_ucast_eq)
qed

lemma position_past: "\<forall>x \<in> set a. \<not> p x \<Longrightarrow> p b \<Longrightarrow> position p (a @ b # s) = Some (length a)"
  by (induction a) auto

lemma parse_u64_dec: "parse_u64 field whole (nat_to_string (unat w)) = Inr w"
  by (simp add: parse_u64_def parse_dec)

lemma parse_weight_canonical:
  assumes "weight_canonical (n, d)"
  shows "parse_weight field (weight_to_string n d) = Inr (n, d)"
proof -
  have no: "\<forall>x \<in> set (nat_to_string k). x \<noteq> of_char CHR ''/''" for k
    using nat_to_string_digits(1)[of k] digit_not_quote by (auto simp: list_all_iff)
  have w: "wire ''/'' = [0x2f]" by (simp add: wire_def quoted_def str_bytes_def)
  show ?thesis
  proof (cases "n = 0 \<or> n = d")
    case True
    then have d: "d = 1" and n: "n div d = n" using assms by (auto simp: weight_canonical_def)
    have "position (\<lambda>b. b = of_char CHR ''/'') (nat_to_string (unat n)) = None"
      using no by (simp add: position_None)
    then show ?thesis using True d n parse_u64_dec[of field "nat_to_string (unat n)" n]
      by (simp add: parse_weight_def weight_to_string_def)
  next
    case False
    have d: "d \<noteq> 0" using assms by (simp add: weight_canonical_def)
    have "position (\<lambda>b. b = of_char CHR ''/'') (nat_to_string (unat n) @ 0x2f # nat_to_string (unat d)) = Some (length (nat_to_string (unat n)))"
      using no by (intro position_past) auto
    then show ?thesis using False d
      by (simp add: parse_weight_def weight_to_string_def w parse_u64_dec)
  qed
qed

lemma weights_lift:
  assumes "list_all (\<lambda>c. c \<noteq> [] \<and> list_all weight_canonical c) cs"
  shows "traverse (traverse (parse_weight field)) (map (map (\<lambda>(n, d). weight_to_string n d)) cs) = Inr cs"
proof -
  have "traverse (parse_weight field) (map (\<lambda>(n, d). weight_to_string n d) c) = Inr c" if "list_all weight_canonical c" for c
    using that by (induction c) (auto simp: parse_weight_canonical)
  then show ?thesis using assms by (induction cs) auto
qed

lemma threshold_lift:
  assumes "threshold_wire_ok form t"
  shows "threshold_from_wire field (threshold_parsed form t) = Inr t"
proof (cases t)
  case (Simple v)
  then show ?thesis
    by (cases form) (simp_all add: threshold_from_wire_def threshold_parsed_def parse_hex parse_u64_dec)
next
  case (Weighted w)
  then show ?thesis using assms weights_lift[of "clauses w" field]
    by (simp add: threshold_from_wire_def threshold_parsed_def threshold_wire_ok_def)
qed

end
