(* ===== verification/Codec_Opaque.thy ===== *)
theory Codec_Opaque
  imports Codec_Values
begin

text \<open>
  The scan of an opaque anchor, \<^verbatim>\<open>deserialize/opaque_scan.rs\<close>: how long the JSON object at
  the head of the input is, with the caller's budget charged for its keys and containers.
  The stacks are lists with the innermost container first. The scan stops on every input.
\<close>

unbundle bit_operations_syntax

section \<open>Tokens\<close>

definition bump :: "nat \<Rightarrow> OpaqueScanError + nat" where
  "bump pos = (if pos + 1 < usize_bound then Inr (pos + 1) else Inl OffsetOverflow)"

fun hex4_loop :: "nat \<Rightarrow> bytes \<Rightarrow> nat \<Rightarrow> u32 \<Rightarrow> OpaqueScanError + (nat \<times> u32)" where
  "hex4_loop 0 input pos u = Inr (pos, u)"
| "hex4_loop (Suc k) input pos u =
     res_bind (ok_or OpaqueTruncated (slice_get input pos)) (\<lambda>b.
     res_bind (ok_or (InvalidEscape pos) (decode_hex_digit b)) (\<lambda>digit.
     res_bind (bump pos) (\<lambda>pos. hex4_loop k input pos (push_bit 4 u OR ucast digit))))"

definition scan_hex4 :: "bytes \<Rightarrow> nat \<Rightarrow> OpaqueScanError + (nat \<times> u32)" where
  "scan_hex4 input start = hex4_loop 4 input start 0"

definition high_surrogate :: "u32 \<Rightarrow> bool" where
  "high_surrogate u \<longleftrightarrow> 0xD800 \<le> u \<and> u \<le> 0xDBFF"

definition low_surrogate :: "u32 \<Rightarrow> bool" where
  "low_surrogate u \<longleftrightarrow> 0xDC00 \<le> u \<and> u \<le> 0xDFFF"

definition scan_unicode_escape :: "bytes \<Rightarrow> nat \<Rightarrow> OpaqueScanError + nat" where
  "scan_unicode_escape input u_at =
     res_bind (bump u_at) (\<lambda>start.
     res_bind (scan_hex4 input start) (\<lambda>(after_high, u).
     if low_surrogate u then Inl (InvalidEscape u_at)
     else if \<not> high_surrogate u then Inr after_high
     else if slice_get input after_high \<noteq> Some 0x5c then Inl (InvalidEscape after_high)
     else
       res_bind (bump after_high) (\<lambda>low_u_at.
       if slice_get input low_u_at \<noteq> Some (of_char CHR ''u'') then Inl (InvalidEscape low_u_at) else
       res_bind (bump low_u_at) (\<lambda>low_start.
       res_bind (scan_hex4 input low_start) (\<lambda>(after_low, low).
       if low_surrogate low then Inr after_low else Inl (InvalidEscape low_u_at))))))"

definition simple_escapes :: bytes where
  "simple_escapes = wire [CHR 0x60, CHR 0x5c, CHR ''/'', CHR ''b'', CHR ''f'', CHR ''n'', CHR ''r'', CHR ''t'']"

definition scan_escape :: "bytes \<Rightarrow> nat \<Rightarrow> OpaqueScanError + nat" where
  "scan_escape input pos =
     res_bind (bump pos) (\<lambda>esc_at.
     res_bind (ok_or OpaqueTruncated (slice_get input esc_at)) (\<lambda>esc.
     if esc \<in> set simple_escapes then bump esc_at
     else if esc = of_char CHR ''u'' then scan_unicode_escape input esc_at
     else Inl (InvalidEscape esc_at)))"

lemma bump_Inr [simp]: "bump pos = Inr p \<longleftrightarrow> p = Suc pos \<and> Suc pos < usize_bound"
  by (auto simp: bump_def)

lemma hex4_loop_pos: "hex4_loop k input pos u = Inr (p, v) \<Longrightarrow> p = pos + k"
proof (induction k arbitrary: pos u)
  case (Suc k)
  then obtain u' where "hex4_loop k input (Suc pos) u' = Inr (p, v)" by auto
  from Suc.IH[OF this] show ?case by simp
qed simp

lemma scan_hex4_pos: "scan_hex4 input pos = Inr (p, v) \<Longrightarrow> p = pos + 4"
  by (auto simp: scan_hex4_def dest: hex4_loop_pos)

lemma scan_unicode_escape_pos: "scan_unicode_escape input u_at = Inr p \<Longrightarrow> u_at < p"
  by (auto simp: scan_unicode_escape_def split: if_splits dest!: scan_hex4_pos)

lemma scan_escape_pos: "scan_escape input pos = Inr p \<Longrightarrow> pos < p"
  by (auto simp: scan_escape_def split: if_splits dest: scan_unicode_escape_pos)

function scan_string_loop :: "bytes \<Rightarrow> nat \<Rightarrow> nat \<Rightarrow> OpaqueScanError + nat" where
  "scan_string_loop input start pos =
     (case slice_get input pos of
        None \<Rightarrow> Inl OpaqueTruncated
      | Some b \<Rightarrow>
          (if b = 0x22 then
             res_bind (bump start) (\<lambda>content_start.
             res_bind (ok_or OpaqueTruncated (slice_range input content_start pos)) (\<lambda>content.
             res_bind (ensure (from_utf8_ok content)
               (UnexpectedByte (saturating_add content_start (utf8_valid_up_to content)))) (\<lambda>_.
             bump pos)))
           else if b = 0x5c then res_bind (scan_escape input pos) (\<lambda>pos. scan_string_loop input start pos)
           else if b < 0x20 then Inl (ControlCharacter pos)
           else res_bind (bump pos) (\<lambda>pos. scan_string_loop input start pos)))"
  by pat_completeness auto
termination
  by (relation "measure (\<lambda>(input, _, pos). length input - pos)")
    (auto simp: slice_get_Some dest: scan_escape_pos intro!: diff_less_mono2)

declare scan_string_loop.simps [simp del]

definition scan_string :: "bytes \<Rightarrow> nat \<Rightarrow> OpaqueScanError + nat" where
  "scan_string input start = res_bind (bump start) (\<lambda>pos. scan_string_loop input start pos)"

lemma scan_string_loop_pos: "scan_string_loop input start pos = Inr p \<Longrightarrow> pos < p"
proof (induction "length input - pos" arbitrary: pos rule: less_induct)
  case less
  show ?case
  proof (cases "slice_get input pos")
    case (Some b)
    note step = less.prems[unfolded scan_string_loop.simps[of input start pos] Some option.case]
    have in_range: "pos < length input" using Some by (simp add: slice_get_Some)
    have IH: "q < p" if "pos < q" "scan_string_loop input start q = Inr p" for q
      using less.hyps[of q] that in_range by (simp add: diff_less_mono2)
    show ?thesis
    proof (cases "b = 0x22")
      case True
      then show ?thesis using step by auto
    next
      case quoted: False
      show ?thesis
      proof (cases "b = 0x5c")
        case True
        then obtain q where "scan_escape input pos = Inr q" "scan_string_loop input start q = Inr p"
          using step quoted by auto
        then show ?thesis using scan_escape_pos IH by (metis less_trans)
      next
        case False
        then have "scan_string_loop input start (Suc pos) = Inr p" using step quoted by (auto split: if_splits)
        then show ?thesis using IH[of "Suc pos"] by simp
      qed
    qed
  qed (use less.prems in \<open>simp add: scan_string_loop.simps\<close>)
qed

lemma scan_string_pos: "scan_string input start = Inr p \<Longrightarrow> Suc start < p"
  by (auto simp: scan_string_def dest: scan_string_loop_pos)

section \<open>Keys\<close>

text \<open>A character pushed onto a string, in UTF-8.\<close>

definition push_char :: "u32 \<Rightarrow> bytes" where
  "push_char c =
     (if c < 0x80 then [ucast c]
      else if c < 0x800 then [0xC0 OR ucast (drop_bit 6 c), 0x80 OR ucast (c AND 0x3F)]
      else if c < 0x10000 then
        [0xE0 OR ucast (drop_bit 12 c), 0x80 OR ucast (drop_bit 6 c AND 0x3F), 0x80 OR ucast (c AND 0x3F)]
      else [0xF0 OR ucast (drop_bit 18 c), 0x80 OR ucast (drop_bit 12 c AND 0x3F),
            0x80 OR ucast (drop_bit 6 c AND 0x3F), 0x80 OR ucast (c AND 0x3F)])"

text \<open>\<^verbatim>\<open>char::from_u32\<close>.\<close>

definition char_ok :: "u32 \<Rightarrow> bool" where
  "char_ok c \<longleftrightarrow> c < 0xD800 \<or> 0xDFFF < c \<and> c < 0x110000"

definition decode_unicode_escape :: "bytes \<Rightarrow> nat \<Rightarrow> OpaqueScanError + (bytes \<times> nat)" where
  "decode_unicode_escape input esc_at =
     res_bind (bump esc_at) (\<lambda>start.
     res_bind (scan_hex4 input start) (\<lambda>(after_high, high).
     res_bind (if high_surrogate high then
         res_bind (if after_high + 2 < usize_bound then Inr (after_high + 2) else Inl OffsetOverflow) (\<lambda>low_start.
         res_bind (scan_hex4 input low_start) (\<lambda>(after_low, low).
         if \<not> low_surrogate low then Inl (InvalidEscape esc_at)
         else Inr (0x10000 + push_bit 10 (high - 0xd800) + (low - 0xdc00), after_low)))
       else Inr (high, after_high)) (\<lambda>(code_point, after).
     if char_ok code_point then Inr (push_char code_point, after) else Inl (InvalidEscape esc_at))))"

definition decode_key_escape :: "bytes \<Rightarrow> nat \<Rightarrow> byte \<Rightarrow> OpaqueScanError + (bytes \<times> nat)" where
  "decode_key_escape input esc_at esc =
     (case map_of (zip simple_escapes [0x22, 0x5c, 0x2f, 0x08, 0x0c, 0x0a, 0x0d, 0x09]) esc of
        Some decoded \<Rightarrow> res_bind (bump esc_at) (\<lambda>after. Inr ([decoded], after))
      | None \<Rightarrow>
          (if esc = of_char CHR ''u'' then decode_unicode_escape input esc_at else Inl (InvalidEscape esc_at)))"

definition key_chunk :: "bytes \<Rightarrow> nat \<Rightarrow> nat \<Rightarrow> OpaqueScanError + bytes" where
  "key_chunk input chunk_start pos =
     res_bind (ok_or OpaqueTruncated (slice_range input chunk_start pos)) (\<lambda>chunk.
     res_bind (ensure (from_utf8_ok chunk) (UnexpectedByte chunk_start)) (\<lambda>_. Inr chunk))"

lemma decode_unicode_escape_pos: "decode_unicode_escape input e = Inr (ds, after) \<Longrightarrow> e < after"
  by (auto simp: decode_unicode_escape_def split: if_splits dest!: scan_hex4_pos)

lemma decode_key_escape_pos: "decode_key_escape input e b = Inr (ds, after) \<Longrightarrow> e < after"
  by (auto simp: decode_key_escape_def split: option.splits if_splits dest: decode_unicode_escape_pos)

function decode_key_loop :: "bytes \<Rightarrow> nat \<Rightarrow> bytes \<Rightarrow> nat \<Rightarrow> nat \<Rightarrow> OpaqueScanError + bytes" where
  "decode_key_loop input content_end result chunk_start pos =
     (if pos < content_end then
        (if slice_get input pos \<noteq> Some 0x5c then
           res_bind (bump pos) (\<lambda>pos. decode_key_loop input content_end result chunk_start pos)
         else
           res_bind (key_chunk input chunk_start pos) (\<lambda>chunk.
           res_bind (bump pos) (\<lambda>esc_at.
           res_bind (ok_or OpaqueTruncated (slice_get input esc_at)) (\<lambda>esc.
           res_bind (decode_key_escape input esc_at esc) (\<lambda>(decoded, after).
           decode_key_loop input content_end (result @ chunk @ decoded) after after)))))
      else res_bind (key_chunk input chunk_start content_end) (\<lambda>chunk. Inr (result @ chunk)))"
  by pat_completeness auto
termination
  by (relation "measure (\<lambda>(_, content_end, _, _, pos). content_end - pos)")
    (auto dest!: decode_key_escape_pos intro!: diff_less_mono2)

declare decode_key_loop.simps [simp del]

definition decode_key :: "bytes \<Rightarrow> nat \<Rightarrow> nat \<Rightarrow> OpaqueScanError + bytes" where
  "decode_key input start end' =
     res_bind (bump start) (\<lambda>content_start.
     res_bind (if 1 \<le> end' then Inr (end' - 1) else Inl OpaqueTruncated) (\<lambda>content_end.
     decode_key_loop input content_end [] content_start content_start))"

definition scan_member_key ::
    "bytes \<Rightarrow> nat \<Rightarrow> bytes list list \<Rightarrow> JsonBudget \<Rightarrow> OpaqueScanError + (nat \<times> bytes list list \<times> JsonBudget)" where
  "scan_member_key input pos keys budget =
     res_bind (ok_or (FieldLimit pos (jb_max_fields budget)) (budget_field budget)) (\<lambda>budget.
     res_bind (scan_string input pos) (\<lambda>after_key.
     res_bind (decode_key input pos after_key) (\<lambda>key.
     case keys of
       [] \<Rightarrow> Inl OpaqueTruncated
     | seen # outer \<Rightarrow>
         (if key \<in> set seen then Inl (DuplicateKey pos)
          else if slice_get input after_key \<noteq> Some (of_char CHR '':'') then Inl (UnexpectedByte after_key)
          else res_bind (bump after_key) (\<lambda>pos. Inr (pos, (key # seen) # outer, budget))))))"

section \<open>Scalars\<close>

definition digit_at :: "bytes \<Rightarrow> nat \<Rightarrow> bool" where
  "digit_at input pos \<longleftrightarrow> (case slice_get input pos of Some b \<Rightarrow> is_digit b | None \<Rightarrow> False)"

function skip_digits_at :: "bytes \<Rightarrow> nat \<Rightarrow> OpaqueScanError + nat" where
  "skip_digits_at input pos =
     (if digit_at input pos then res_bind (bump pos) (\<lambda>pos. skip_digits_at input pos) else Inr pos)"
  by pat_completeness auto
termination
  by (relation "measure (\<lambda>(input, pos). length input - pos)")
    (auto simp: digit_at_def slice_get_Some split: option.splits intro!: diff_less_mono2)

declare skip_digits_at.simps [simp del]

definition digits_at :: "bytes \<Rightarrow> nat \<Rightarrow> OpaqueScanError + nat" where
  "digits_at input pos = (if digit_at input pos then skip_digits_at input pos else Inl (UnexpectedByte pos))"

definition scan_fraction :: "bytes \<Rightarrow> nat \<Rightarrow> OpaqueScanError + nat" where
  "scan_fraction input pos =
     (if slice_get input pos = Some (of_char CHR ''.'') then res_bind (bump pos) (\<lambda>pos. digits_at input pos) else Inr pos)"

definition scan_exponent :: "bytes \<Rightarrow> nat \<Rightarrow> OpaqueScanError + nat" where
  "scan_exponent input pos =
     (if slice_get input pos \<in> {Some (of_char CHR ''e''), Some (of_char CHR ''E'')} then
       res_bind (bump pos) (\<lambda>pos.
       res_bind (if slice_get input pos \<in> {Some (of_char CHR ''+''), Some (of_char CHR ''-'')} then bump pos else Inr pos) (\<lambda>pos.
       digits_at input pos))
     else Inr pos)"

definition scan_number :: "bytes \<Rightarrow> nat \<Rightarrow> OpaqueScanError + nat" where
  "scan_number input start =
     res_bind (if slice_get input start = Some (of_char CHR ''-'') then bump start else Inr start) (\<lambda>pos.
     res_bind (if slice_get input pos = Some (of_char CHR ''0'') then bump pos else digits_at input pos) (\<lambda>pos.
     res_bind (scan_fraction input pos) (\<lambda>pos. scan_exponent input pos)))"

definition scan_lit :: "bytes \<Rightarrow> nat \<Rightarrow> bytes \<Rightarrow> OpaqueScanError + nat" where
  "scan_lit input pos lit =
     (let end' = pos + length lit in
      if end' < usize_bound then
        (case slice_range input pos end' of
           Some bs \<Rightarrow> if bs = lit then Inr end' else Inl (UnexpectedByte pos)
         | None \<Rightarrow> Inl OpaqueTruncated)
      else Inl OffsetOverflow)"

section \<open>The object\<close>

datatype ScanState = OFirstKey | ONextKey | OValue | OFirstValue | OAfterValue

record ObjectScan =
  os_pos :: nat
  os_state :: ScanState
  os_containers :: "bool list"
  os_keys :: "bytes list list"
  os_budget :: JsonBudget

definition open_container :: "bool \<Rightarrow> ScanState \<Rightarrow> ObjectScan \<Rightarrow> OpaqueScanError + ObjectScan" where
  "open_container object state s =
     res_bind (ok_or (DepthLimit (os_pos s) (jb_max_depth (os_budget s))) (budget_enter (os_budget s))) (\<lambda>budget.
     res_bind (bump (os_pos s)) (\<lambda>pos.
     Inr \<lparr>os_pos = pos, os_state = state, os_containers = object # os_containers s, os_keys = [] # os_keys s,
          os_budget = budget\<rparr>))"

definition scan_value_start :: "bytes \<Rightarrow> ObjectScan \<Rightarrow> OpaqueScanError + ObjectScan" where
  "scan_value_start input s =
     (let pos = os_pos s; scalar = (\<lambda>r. res_bind r (\<lambda>pos. Inr (s\<lparr>os_pos := pos, os_state := OAfterValue\<rparr>))) in
      case slice_get input pos of
        None \<Rightarrow> Inl OpaqueTruncated
      | Some b \<Rightarrow>
          (if b = of_char CHR ''{'' then open_container True OFirstKey s
           else if b = of_char CHR ''['' then open_container False OFirstValue s
           else if b = 0x22 then scalar (scan_string input pos)
           else if b = of_char CHR ''-'' \<or> is_digit b then scalar (scan_number input pos)
           else if b = of_char CHR ''t'' then scalar (scan_lit input pos (wire ''true''))
           else if b = of_char CHR ''f'' then scalar (scan_lit input pos (wire ''false''))
           else if b = of_char CHR ''n'' then scalar (scan_lit input pos (wire ''null''))
           else Inl (UnexpectedByte pos)))"

text \<open>One round of the loop: the end of the object with the budget left, or where the scan goes on.\<close>

definition scan_close :: "ObjectScan \<Rightarrow> OpaqueScanError + (nat \<times> JsonBudget + ObjectScan)" where
  "scan_close s =
     res_bind (bump (os_pos s)) (\<lambda>pos.
     let outer = tl (os_containers s); budget = budget_leave (os_budget s) in
     if outer = [] then Inr (Inl (pos, budget))
     else Inr (Inr \<lparr>os_pos = pos, os_state = OAfterValue, os_containers = outer, os_keys = tl (os_keys s), os_budget = budget\<rparr>))"

definition scan_key_state :: "bytes \<Rightarrow> ObjectScan \<Rightarrow> OpaqueScanError + (nat \<times> JsonBudget + ObjectScan)" where
  "scan_key_state input s =
     (case slice_get input (os_pos s) of
        None \<Rightarrow> Inl OpaqueTruncated
      | Some b \<Rightarrow>
          (if b = of_char CHR ''}'' \<and> os_state s = OFirstKey then scan_close s
           else if b = 0x22 then
             res_bind (scan_member_key input (os_pos s) (os_keys s) (os_budget s)) (\<lambda>(pos, keys, budget).
             Inr (Inr (s\<lparr>os_pos := pos, os_keys := keys, os_budget := budget, os_state := OValue\<rparr>)))
           else Inl (UnexpectedByte (os_pos s))))"

definition scan_after_value :: "bytes \<Rightarrow> ObjectScan \<Rightarrow> OpaqueScanError + (nat \<times> JsonBudget + ObjectScan)" where
  "scan_after_value input s =
     res_bind (ok_or OpaqueTruncated (slice_get input (os_pos s))) (\<lambda>b.
     case os_containers s of
       [] \<Rightarrow> Inl OpaqueTruncated
     | in_object # _ \<Rightarrow>
         (if b = of_char CHR '','' then
            res_bind (bump (os_pos s)) (\<lambda>pos.
            Inr (Inr (s\<lparr>os_pos := pos, os_state := (if in_object then ONextKey else OValue)\<rparr>)))
          else if b = of_char CHR ''}'' \<and> in_object \<or> b = of_char CHR '']'' \<and> \<not> in_object then scan_close s
          else Inl (UnexpectedByte (os_pos s))))"

definition scan_round :: "bytes \<Rightarrow> ObjectScan \<Rightarrow> OpaqueScanError + (nat \<times> JsonBudget + ObjectScan)" where
  "scan_round input s =
     (case os_state s of
        OFirstKey \<Rightarrow> scan_key_state input s
      | ONextKey \<Rightarrow> scan_key_state input s
      | OValue \<Rightarrow> res_bind (scan_value_start input s) (\<lambda>s. Inr (Inr s))
      | OFirstValue \<Rightarrow>
          (case slice_get input (os_pos s) of
             None \<Rightarrow> Inl OpaqueTruncated
           | Some b \<Rightarrow> if b = of_char CHR '']'' then scan_close s else Inr (Inr (s\<lparr>os_state := OValue\<rparr>)))
      | OAfterValue \<Rightarrow> scan_after_value input s)"

definition scan_left :: "bytes \<Rightarrow> ObjectScan \<Rightarrow> nat" where
  "scan_left input s = 2 * (length input - os_pos s) + (if os_state s = OFirstValue then 1 else 0)"

lemma scan_member_key_pos: "scan_member_key input pos keys b = Inr (p, r) \<Longrightarrow> pos < p"
  by (cases keys) (auto simp: scan_member_key_def split: if_splits dest!: scan_string_pos)

lemma skip_digits_at_pos: "skip_digits_at input pos = Inr p \<Longrightarrow> pos \<le> p \<and> (digit_at input pos \<longrightarrow> pos < p)"
proof (induction "length input - pos" arbitrary: pos rule: less_induct)
  case less
  show ?case
  proof (cases "digit_at input pos")
    case True
    then have "pos < length input" by (auto simp: digit_at_def slice_get_Some split: option.splits)
    moreover have "skip_digits_at input (Suc pos) = Inr p"
      using less.prems True by (auto simp: skip_digits_at.simps[of input pos])
    ultimately show ?thesis using less.hyps[of "Suc pos"] by (auto simp: diff_less_mono2)
  qed (use less.prems in \<open>simp add: skip_digits_at.simps[of input pos]\<close>)
qed

lemma digits_at_pos: "digits_at input pos = Inr p \<Longrightarrow> pos < p"
  by (auto simp: digits_at_def split: if_splits dest: skip_digits_at_pos)

lemma scan_fraction_pos: "scan_fraction input pos = Inr p \<Longrightarrow> pos \<le> p"
  by (auto simp: scan_fraction_def split: if_splits dest!: digits_at_pos)

lemma scan_exponent_pos: "scan_exponent input pos = Inr p \<Longrightarrow> pos \<le> p"
  by (auto simp: scan_exponent_def split: if_split_asm dest!: digits_at_pos)

lemma scan_number_pos: "scan_number input pos = Inr p \<Longrightarrow> pos < p"
proof -
  assume "scan_number input pos = Inr p"
  then obtain a b c where
    s: "(if slice_get input pos = Some (of_char CHR ''-'') then bump pos else Inr pos) = Inr a"
    and w: "(if slice_get input a = Some (of_char CHR ''0'') then bump a else digits_at input a) = Inr b"
    and "scan_fraction input b = Inr c" "scan_exponent input c = Inr p"
    unfolding scan_number_def res_bind_Inr by blast
  moreover have "pos \<le> a" using s by (simp split: if_split_asm)
  moreover have "a < b" using w digits_at_pos[of input a b] by (simp split: if_split_asm)
  ultimately show "pos < p" using scan_fraction_pos scan_exponent_pos by (meson le_less_trans less_le_trans)
qed

lemma scan_lit_pos: "scan_lit input pos lit = Inr p \<Longrightarrow> lit \<noteq> [] \<Longrightarrow> pos < p"
  by (auto simp: scan_lit_def Let_def split: if_splits option.splits)

lemma open_container_pos: "open_container ob st s = Inr s' \<Longrightarrow> os_pos s < os_pos s'"
  by (auto simp: open_container_def)

lemma scan_value_start_pos: "scan_value_start input s = Inr s' \<Longrightarrow> os_pos s < os_pos s' \<and> os_pos s < length input"
  by (auto simp: scan_value_start_def Let_def slice_get_Some split: option.splits if_splits
      dest: open_container_pos scan_number_pos scan_lit_pos dest!: scan_string_pos)

lemma scan_close_pos: "scan_close s = Inr (Inr s') \<Longrightarrow> os_pos s < os_pos s'"
  by (auto simp: scan_close_def Let_def split: if_splits)

lemma scan_round_pos:
  assumes "scan_round input s = Inr (Inr s')"
  shows "os_pos s < os_pos s' \<and> os_pos s < length input \<or> os_state s = OFirstValue \<and> os_state s' = OValue \<and> os_pos s' = os_pos s"
  using assms
  by (cases "os_state s")
    (auto simp: scan_round_def scan_key_state_def scan_after_value_def slice_get_Some
      split: option.splits if_splits list.splits
      dest: scan_value_start_pos scan_close_pos scan_member_key_pos)

lemma scan_round_left: "scan_round input s = Inr (Inr s') \<Longrightarrow> scan_left input s' < scan_left input s"
  using scan_round_pos[of input s s'] by (auto simp: scan_left_def)

function object_loop :: "bytes \<Rightarrow> ObjectScan \<Rightarrow> OpaqueScanError + (nat \<times> JsonBudget)" where
  "object_loop input s =
     res_bind (scan_round input s) (\<lambda>r. case r of Inl done' \<Rightarrow> Inr done' | Inr s \<Rightarrow> object_loop input s)"
  by pat_completeness auto
termination
  by (relation "measure (\<lambda>(input, s). scan_left input s)") (auto simp: scan_round_left)

declare object_loop.simps [simp del]

definition object_len :: "bytes \<Rightarrow> JsonBudget \<Rightarrow> OpaqueScanError + (nat \<times> JsonBudget)" where
  "object_len input budget =
     (if slice_get input 0 \<noteq> Some (of_char CHR ''{'') then Inl NotAnObject else
      res_bind (ok_or (DepthLimit 0 (jb_max_depth budget)) (budget_enter budget)) (\<lambda>budget.
      object_loop input \<lparr>os_pos = 1, os_state = OFirstKey, os_containers = [True], os_keys = [[]], os_budget = budget\<rparr>))"

end
