(* ===== verification/Codec_Seal.thy ===== *)
theory Codec_Seal
  imports Codec_Threshold Codec_Opaque
begin

text \<open>
  Seals on the wire, \<^verbatim>\<open>codec/seal.rs\<close>: the closed codex of seven shapes, told apart by their
  first key, and the verbatim object that is none of them.
\<close>

section \<open>Operations\<close>

datatype ParsedSeal =
    PDigest bytes
  | PRoot bytes
  | PSource bytes bytes
  | PEvent bytes bytes bytes
  | PLast bytes
  | PBack bytes bytes
  | PKind bytes bytes
  | POpaque bytes

text \<open>A run of writers.\<close>

definition write_all :: "writer list \<Rightarrow> writer" where
  "write_all ws = foldr then_write ws (put [])"

definition lit :: "string \<Rightarrow> writer" where
  "lit s = put (wire s)"

primrec seal_encode :: "(bytes \<Rightarrow> bytes) \<Rightarrow> Seal \<Rightarrow> writer" where
  "seal_encode enc (DigestSeal d) = write_all [lit ''{`d`:'', digest_encode enc d, lit ''}'']"
| "seal_encode enc (RootSeal rd) = write_all [lit ''{`rd`:'', digest_encode enc rd, lit ''}'']"
| "seal_encode enc (SourceSeal s d) =
     write_all [lit ''{`s`:'', write_str (numh s), lit '',`d`:'', digest_encode enc d, lit ''}'']"
| "seal_encode enc (EventSeal i s d) =
     write_all [lit ''{`i`:'', identifier_encode enc i, lit '',`s`:'', write_str (numh s), lit '',`d`:'',
       digest_encode enc d, lit ''}'']"
| "seal_encode enc (LastSeal i) = write_all [lit ''{`i`:'', identifier_encode enc i, lit ''}'']"
| "seal_encode enc (BackSeal bi d) =
     write_all [lit ''{`bi`:'', key_encode enc bi, lit '',`d`:'', digest_encode enc d, lit ''}'']"
| "seal_encode enc (KindSeal t d) =
     write_all [lit ''{`t`:'', matter_encode enc VerserCode_to_matter_code t, lit '',`d`:'', digest_encode enc d, lit ''}'']"
| "seal_encode enc (OpaqueSeal raw) = put raw"

text \<open>The last key and the closing brace, after the values before it.\<close>

definition last_value :: "(bytes \<Rightarrow> ParsedSeal) \<Rightarrow> ParsedSeal reader" where
  "last_value seal = then_read plain_value (\<lambda>d. then_read (expect ''}'') (\<lambda>_. give (seal d)))"

definition then_digest :: "(bytes \<Rightarrow> ParsedSeal) \<Rightarrow> ParsedSeal reader" where
  "then_digest seal = then_read (expect '',`d`:'') (\<lambda>_. last_value seal)"

definition seal_codex_i :: "ParsedSeal reader" where
  "seal_codex_i =
     then_read plain_value (\<lambda>i.
     then_read (take_lit ''}'') (\<lambda>closed.
     if closed then give (PLast i) else
     then_read (expect '',`s`:'') (\<lambda>_.
     then_read plain_value (\<lambda>s. then_digest (PEvent i s)))))"

definition seal_codex :: "ParsedSeal reader" where
  "seal_codex =
     then_read (expect ''{'') (\<lambda>_.
     then_read (take_lit ''`d`:'') (\<lambda>k. if k then last_value PDigest else
     then_read (take_lit ''`rd`:'') (\<lambda>k. if k then last_value PRoot else
     then_read (take_lit ''`s`:'') (\<lambda>k. if k then then_read plain_value (\<lambda>s. then_digest (PSource s)) else
     then_read (take_lit ''`i`:'') (\<lambda>k. if k then seal_codex_i else
     then_read (take_lit ''`bi`:'') (\<lambda>k. if k then then_read plain_value (\<lambda>bi. then_digest (PBack bi)) else
     then_read (take_lit ''`t`:'') (\<lambda>k. if k then then_read plain_value (\<lambda>t. then_digest (PKind t)) else
     refuse (quoted ''seal object key (`d`, `rd`, `s`, `i`, `bi`, or `t`)''))))))))"

definition seal_opaque :: "ParsedSeal reader" where
  "seal_opaque sc =
     (let start = sc_pos sc in
      res_bind (ok_or (layout ''anchor span out of bounds'') (slice_from (sc_input sc) start)) (\<lambda>rest.
      res_bind (map_err (\<lambda>source. CodecDeserialize (InvalidAnchor start source)) (object_len rest (sc_budget sc))) (\<lambda>(len, budget).
      res_bind (if start + len < usize_bound then Inr (start + len) else Inl (layout ''anchor span overflow'')) (\<lambda>end'.
      res_bind (ok_or (layout ''anchor span out of bounds'') (slice_range (sc_input sc) start end')) (\<lambda>raw.
      res_bind (ensure (from_utf8_ok raw) (utf8_offset_error sc start raw ''UTF-8 anchor object'')) (\<lambda>_.
      Inr (POpaque raw, sc\<lparr>sc_pos := end', sc_budget := budget\<rparr>)))))))"

text \<open>A refusal for lack of budget is final; any other sends the reader back to the start.\<close>

definition seal_decode :: "ParsedSeal reader" where
  "seal_decode sc =
     (case seal_codex sc of
        Inr r \<Rightarrow> Inr r
      | Inl e \<Rightarrow>
          (case e of
             CodecDeserialize (JsonFieldLimit _ _) \<Rightarrow> Inl e
           | CodecDeserialize (JsonDepthLimit _ _) \<Rightarrow> Inl e
           | _ \<Rightarrow> seal_opaque sc))"

fun seal_from_wire :: "(bytes \<Rightarrow> bytes option) \<Rightarrow> string \<Rightarrow> ParsedSeal \<Rightarrow> DeserializeError + Seal" where
  "seal_from_wire dec field (PDigest d) = res_bind (digest_from_wire dec ''d'' d) (\<lambda>d. Inr (DigestSeal d))"
| "seal_from_wire dec field (PRoot rd) = res_bind (digest_from_wire dec ''rd'' rd) (\<lambda>rd. Inr (RootSeal rd))"
| "seal_from_wire dec field (PSource s d) =
     res_bind (number_from_wire ''s'' s) (\<lambda>s. res_bind (digest_from_wire dec ''d'' d) (\<lambda>d. Inr (SourceSeal s d)))"
| "seal_from_wire dec field (PEvent i s d) =
     res_bind (identifier_from_wire dec ''i'' i) (\<lambda>i. res_bind (number_from_wire ''s'' s) (\<lambda>s.
     res_bind (digest_from_wire dec ''d'' d) (\<lambda>d. Inr (EventSeal i s d))))"
| "seal_from_wire dec field (PLast i) = res_bind (identifier_from_wire dec ''i'' i) (\<lambda>i. Inr (LastSeal i))"
| "seal_from_wire dec field (PBack bi d) =
     res_bind (key_from_wire dec ''bi'' bi) (\<lambda>bi. res_bind (digest_from_wire dec ''d'' d) (\<lambda>d. Inr (BackSeal bi d)))"
| "seal_from_wire dec field (PKind t d) =
     res_bind (matter_from_wire dec VerserCode_try_from ''t'' t) (\<lambda>t.
     res_bind (digest_from_wire dec ''d'' d) (\<lambda>d. Inr (KindSeal t d)))"
| "seal_from_wire dec field (POpaque raw) = Inr (OpaqueSeal raw)"

section \<open>The reader moves on\<close>

lemma moves_on_refuse [simp]: "moves_on (refuse e)"
  by (simp add: moves_on_def)

lemma moves_on_last_value [simp]: "moves_on (last_value h)" "moves_on (then_digest h)"
  unfolding then_digest_def last_value_def by (intro moves_on_then moves_on_plain moves_on_lit moves_on_give)+

lemma moves_on_codex: "moves_on seal_codex"
  unfolding seal_codex_def seal_codex_i_def
  by (intro moves_on_then moves_on_plain moves_on_lit moves_on_give moves_on_if moves_on_last_value moves_on_refuse)

lemma moves_on_opaque: "moves_on seal_opaque"
  by (auto simp: moves_on_def seal_opaque_def Let_def onward_def split: if_splits)

lemma moves_on_seal [simp]: "moves_on seal_decode"
proof -
  have "onward sc sc'" if "seal_decode sc = Inr (x, sc')" for sc x sc'
  proof (cases "seal_codex sc")
    case (Inl e)
    then have "seal_opaque sc = Inr (x, sc')"
      using that by (auto simp: seal_decode_def split: CodecError.splits DeserializeError.splits)
    then show ?thesis by (rule moves_onD[OF moves_on_opaque])
  next
    case (Inr r)
    then show ?thesis using that by (simp add: seal_decode_def moves_onD[OF moves_on_codex])
  qed
  then show ?thesis by (simp add: moves_on_def)
qed

section \<open>Walking along a text\<close>

lemma reads_conv: "reads p s n t x d d' f \<Longrightarrow> t = t' \<Longrightarrow> f = f' \<Longrightarrow> reads p s n t' x d d' f'"
  by simp

lemma reads_key:
  assumes "lit_cost d (wire l) = Some (d1, f)" "reads k s (n + length (wire l)) b y d1 d2 g"
  shows "reads (then_read (expect l) (\<lambda>_. k)) s n (wire l @ b) y d d2 (f + g)"
  by (rule reads_then[OF reads_lit[OF assms(1)]]) (use assms(2) in simp_all)

lemma reads_took:
  assumes "lit_cost d (wire l) = Some (d1, f)" "reads (k True) s (n + length (wire l)) b y d1 d2 g"
  shows "reads (then_read (take_lit l) k) s n (wire l @ b) y d d2 (f + g)"
  by (rule reads_then[OF reads_take[OF assms(1)]]) (use assms(2) in simp_all)

lemma reads_skip:
  assumes "differs (wire l) tx" "reads q s n tx x d d' f"
  shows "reads (then_read (take_lit l) (\<lambda>k. if k then p else q)) s n tx x d d' f"
  by (rule reads_miss[OF assms(1)]) (use assms(2) in simp)

lemma reads_pick:
  assumes "lit_cost d (wire l) = Some (d1, f)" "reads p s (n + length (wire l)) b y d1 d2 g"
  shows "reads (then_read (take_lit l) (\<lambda>k. if k then p else q)) s n (wire l @ b) y d d2 (f + g)"
  by (rule reads_took[OF assms(1)]) (use assms(2) in simp)

lemma reads_then_value:
  assumes "plain_text v" "reads (k v) s (n + length (quote v)) b y d d2 g"
  shows "reads (then_read plain_value k) s n (quote v @ b) y d d2 (0 + g)"
  by (rule reads_then[OF reads_value[OF assms(1)]]) (use assms(2) in simp_all)

lemma reads_last_value:
  assumes "plain_text v" "d < 3"
  shows "reads (last_value h) False n (quote v @ wire ''}'') (h v) (Suc d) d 0"
proof -
  have "reads (last_value h) False n (quote v @ wire ''}'' @ []) (h v) (Suc d) d (0 + (0 + 0))"
    unfolding last_value_def by (rule reads_then_value[OF assms(1) reads_key[OF _ reads_give]]) simp
  then show ?thesis by simp
qed

lemmas wire_eval = wire_def quoted_def str_bytes_def slice_get_def

lemma reads_then_digest:
  assumes "plain_text v" "d < 3"
  shows "reads (then_digest h) False n (wire '',`d`:'' @ quote v @ wire ''}'') (h v) (Suc d) d 1"
proof -
  have "reads (then_digest h) False n (wire '',`d`:'' @ quote v @ wire ''}'') (h v) (Suc d) d (1 + 0)"
    unfolding then_digest_def by (rule reads_key[OF _ reads_last_value[OF assms]]) (simp add: wire_eval)
  then show ?thesis by simp
qed

section \<open>Round trip\<close>

abbreviation digest_text :: "DigestCode Matter \<Rightarrow> bytes" where
  "digest_text \<equiv> matter_text DigestCode_to_matter_code"

abbreviation key_text :: "VerKeyCode Matter \<Rightarrow> bytes" where
  "key_text \<equiv> matter_text VerKeyCode_to_matter_code"

primrec seal_parsed :: "Seal \<Rightarrow> ParsedSeal" where
  "seal_parsed (DigestSeal d) = PDigest (digest_text d)"
| "seal_parsed (RootSeal rd) = PRoot (digest_text rd)"
| "seal_parsed (SourceSeal s d) = PSource (numh s) (digest_text d)"
| "seal_parsed (EventSeal i s d) = PEvent (identifier_text i) (numh s) (digest_text d)"
| "seal_parsed (LastSeal i) = PLast (identifier_text i)"
| "seal_parsed (BackSeal bi d) = PBack (key_text bi) (digest_text d)"
| "seal_parsed (KindSeal t d) = PKind (matter_text VerserCode_to_matter_code t) (digest_text d)"
| "seal_parsed (OpaqueSeal raw) = POpaque raw"

text \<open>The text of a seal after its opening brace, as the reader meets it.\<close>

fun seal_rest :: "ParsedSeal \<Rightarrow> bytes" where
  "seal_rest (PDigest d) = wire ''`d`:'' @ quote d @ wire ''}''"
| "seal_rest (PRoot rd) = wire ''`rd`:'' @ quote rd @ wire ''}''"
| "seal_rest (PSource s d) = wire ''`s`:'' @ quote s @ wire '',`d`:'' @ quote d @ wire ''}''"
| "seal_rest (PEvent i s d) =
     wire ''`i`:'' @ quote i @ wire '',`s`:'' @ quote s @ wire '',`d`:'' @ quote d @ wire ''}''"
| "seal_rest (PLast i) = wire ''`i`:'' @ quote i @ wire ''}''"
| "seal_rest (PBack bi d) = wire ''`bi`:'' @ quote bi @ wire '',`d`:'' @ quote d @ wire ''}''"
| "seal_rest (PKind t d) = wire ''`t`:'' @ quote t @ wire '',`d`:'' @ quote d @ wire ''}''"
| "seal_rest (POpaque raw) = tl raw"

definition seal_text :: "Seal \<Rightarrow> bytes" where
  "seal_text seal = wire ''{'' @ seal_rest (seal_parsed seal)"

text \<open>The fields a seal charges.\<close>

fun seal_fields :: "ParsedSeal \<Rightarrow> nat" where
  "seal_fields (PDigest d) = 1"
| "seal_fields (PRoot rd) = 1"
| "seal_fields (PSource s d) = 2"
| "seal_fields (PEvent i s d) = 3"
| "seal_fields (PLast i) = 1"
| "seal_fields (PBack bi d) = 2"
| "seal_fields (PKind t d) = 2"
| "seal_fields (POpaque raw) = 0"

fun parsed_plain :: "ParsedSeal \<Rightarrow> bool" where
  "parsed_plain (PDigest d) \<longleftrightarrow> plain_text d"
| "parsed_plain (PRoot rd) \<longleftrightarrow> plain_text rd"
| "parsed_plain (PSource s d) \<longleftrightarrow> plain_text s \<and> plain_text d"
| "parsed_plain (PEvent i s d) \<longleftrightarrow> plain_text i \<and> plain_text s \<and> plain_text d"
| "parsed_plain (PLast i) \<longleftrightarrow> plain_text i"
| "parsed_plain (PBack bi d) \<longleftrightarrow> plain_text bi \<and> plain_text d"
| "parsed_plain (PKind t d) \<longleftrightarrow> plain_text t \<and> plain_text d"
| "parsed_plain (POpaque raw) \<longleftrightarrow> False"

lemma codex_i_last:
  assumes "plain_text i" "d < 3"
  shows "reads seal_codex_i False n (quote i @ wire ''}'') (PLast i) (Suc d) d 0"
proof -
  have "reads seal_codex_i False n (quote i @ wire ''}'' @ []) (PLast i) (Suc d) d (0 + (0 + 0))"
    unfolding seal_codex_i_def
    by (rule reads_then_value[OF assms(1)], rule reads_took[where ?d1.0 = d]) (simp_all add: reads_give)
  then show ?thesis by simp
qed

lemma codex_i_event:
  assumes "plain_text i" "plain_text s" "plain_text v" "d < 3"
  shows "reads seal_codex_i False n (quote i @ wire '',`s`:'' @ quote s @ wire '',`d`:'' @ quote v @ wire ''}'')
    (PEvent i s v) (Suc d) d 2"
proof -
  have "reads seal_codex_i False n (quote i @ wire '',`s`:'' @ quote s @ wire '',`d`:'' @ quote v @ wire ''}'')
    (PEvent i s v) (Suc d) d (0 + (1 + (0 + 1)))"
    unfolding seal_codex_i_def
    by (rule reads_then_value[OF assms(1)], rule reads_skip, simp add: wire_eval,
        rule reads_key, simp add: wire_eval, rule reads_then_value[OF assms(2)], rule reads_then_digest[OF assms(3,4)])
  moreover have "(0 + (1 + (0 + 1)) :: nat) = 2" by simp
  ultimately show ?thesis by (simp only:)
qed

lemma codex_two_values:
  assumes "plain_text s" "plain_text v" "d < 3"
  shows "reads (then_read plain_value (\<lambda>s. then_digest (h s))) False n (quote s @ wire '',`d`:'' @ quote v @ wire ''}'')
    (h s v) (Suc d) d 1"
  using reads_then_value[OF assms(1), where k = "\<lambda>s. then_digest (h s)", OF reads_then_digest[OF assms(2,3)]] by simp

lemma codex_rest_reads:
  assumes p: "parsed_plain p" and d: "d < 3"
  shows "reads (then_read (take_lit ''`d`:'') (\<lambda>k. if k then last_value PDigest else
     then_read (take_lit ''`rd`:'') (\<lambda>k. if k then last_value PRoot else
     then_read (take_lit ''`s`:'') (\<lambda>k. if k then then_read plain_value (\<lambda>s. then_digest (PSource s)) else
     then_read (take_lit ''`i`:'') (\<lambda>k. if k then seal_codex_i else
     then_read (take_lit ''`bi`:'') (\<lambda>k. if k then then_read plain_value (\<lambda>bi. then_digest (PBack bi)) else
     then_read (take_lit ''`t`:'') (\<lambda>k. if k then then_read plain_value (\<lambda>t. then_digest (PKind t)) else
     refuse m))))))) False n (seal_rest p) p (Suc d) d (seal_fields p)"
proof (cases p)
  case (PDigest v)
  have "plain_text v" using p PDigest by simp
  then show ?thesis unfolding PDigest seal_rest.simps
    by (intro reads_conv[OF reads_pick[OF _ reads_last_value[OF _ d]]]) (simp_all add: wire_eval)
next
  case (PRoot v)
  have "plain_text v" using p PRoot by simp
  note r = reads_last_value[OF this d]
  show ?thesis unfolding PRoot seal_rest.simps
    by (rule reads_skip, simp add: wire_eval, rule reads_conv, rule reads_pick[OF _ r], simp add: wire_eval, rule refl, simp)
next
  case (PSource s v)
  have "plain_text s" "plain_text v" using p PSource by simp_all
  note r = codex_two_values[OF this d]
  show ?thesis unfolding PSource seal_rest.simps
    by ((rule reads_skip, (simp add: wire_eval; fail))+, rule reads_conv, rule reads_pick[OF _ r], simp add: wire_eval, rule refl, simp)
next
  case (PEvent i s v)
  have "plain_text i" "plain_text s" "plain_text v" using p PEvent by simp_all
  note r = codex_i_event[OF this d]
  show ?thesis unfolding PEvent seal_rest.simps
    by ((rule reads_skip, (simp add: wire_eval; fail))+, rule reads_conv, rule reads_pick[OF _ r], simp add: wire_eval, rule refl, simp)
next
  case (PLast i)
  have "plain_text i" using p PLast by simp
  note r = codex_i_last[OF this d]
  show ?thesis unfolding PLast seal_rest.simps
    by ((rule reads_skip, (simp add: wire_eval; fail))+, rule reads_conv, rule reads_pick[OF _ r], simp add: wire_eval, rule refl, simp)
next
  case (PBack s v)
  have "plain_text s" "plain_text v" using p PBack by simp_all
  note r = codex_two_values[OF this d]
  show ?thesis unfolding PBack seal_rest.simps
    by ((rule reads_skip, (simp add: wire_eval; fail))+, rule reads_conv, rule reads_pick[OF _ r], simp add: wire_eval, rule refl, simp)
next
  case (PKind s v)
  have "plain_text s" "plain_text v" using p PKind by simp_all
  note r = codex_two_values[OF this d]
  show ?thesis unfolding PKind seal_rest.simps
    by ((rule reads_skip, (simp add: wire_eval; fail))+, rule reads_conv, rule reads_pick[OF _ r], simp add: wire_eval, rule refl, simp)
qed (use p in simp)

lemma codex_reads:
  assumes "parsed_plain p" "d < 3"
  shows "reads seal_decode False n (wire ''{'' @ seal_rest p) p d d (seal_fields p)"
proof -
  have r: "reads seal_codex False n (wire ''{'' @ seal_rest p) p d d (0 + seal_fields p)"
    unfolding seal_codex_def by (rule reads_key[OF _ codex_rest_reads[OF assms]]) (use assms(2) in simp)
  show ?thesis
  proof (rule readsI, goal_cases)
    case (1 sc rest)
    from reads_result[OF r 1(1-6)] 1(7) show ?case by (simp add: seal_decode_def)
  qed
qed

text \<open>A seal of the codex whose primitives fit their codes; numbers as the reader makes them.\<close>

definition sn_ok :: "Number \<Rightarrow> bool" where
  "sn_ok n \<longleftrightarrow> n = Number_new (num_value n)"

abbreviation digest_ok :: "DigestCode Matter \<Rightarrow> bool" where
  "digest_ok \<equiv> wire_ok DigestCode_to_matter_code"

abbreviation key_ok :: "VerKeyCode Matter \<Rightarrow> bool" where
  "key_ok \<equiv> wire_ok VerKeyCode_to_matter_code"

primrec seal_wire_ok :: "Seal \<Rightarrow> bool" where
  "seal_wire_ok (DigestSeal d) \<longleftrightarrow> digest_ok d"
| "seal_wire_ok (RootSeal rd) \<longleftrightarrow> digest_ok rd"
| "seal_wire_ok (SourceSeal s d) \<longleftrightarrow> sn_ok s \<and> digest_ok d"
| "seal_wire_ok (EventSeal i s d) \<longleftrightarrow> identifier_wire_ok i \<and> sn_ok s \<and> digest_ok d"
| "seal_wire_ok (LastSeal i) \<longleftrightarrow> identifier_wire_ok i"
| "seal_wire_ok (BackSeal bi d) \<longleftrightarrow> key_ok bi \<and> digest_ok d"
| "seal_wire_ok (KindSeal t d) \<longleftrightarrow> wire_ok VerserCode_to_matter_code t \<and> digest_ok d"
| "seal_wire_ok (OpaqueSeal raw) \<longleftrightarrow> False"

lemma writes_all: "list_all2 writes ws ts \<Longrightarrow> writes (write_all ws) (concat ts)"
  by (induction rule: list_all2_induct) (auto simp: write_all_def)

lemma writes_lit [intro]: "writes (lit s) (wire s)"
  by (simp add: lit_def writes_put)

lemma number_lift: "sn_ok n \<Longrightarrow> number_from_wire field (numh n) = Inr n"
  by (simp add: number_from_numh sn_ok_def)

lemma plain_numh [simp]: "plain_text (numh n)"
  by (simp add: numh_def)

lemma verser_text_lift:
  assumes "b64_engine enc dec" "wire_ok VerserCode_to_matter_code k"
  shows "matter_from_wire dec VerserCode_try_from field (matter_text VerserCode_to_matter_code k) = Inr k"
  using matter_text_parse[OF assms] verser_code.narrow_iff by (simp add: matter_from_wire_def)

lemma seal_parsed_plain: "seal_wire_ok s \<Longrightarrow> parsed_plain (seal_parsed s)"
  by (cases s) (simp_all add: matter_text_plain identifier_plain)

lemma seal_reads:
  "seal_wire_ok s \<Longrightarrow> d < 3 \<Longrightarrow> reads seal_decode False n (seal_text s) (seal_parsed s) d d (seal_fields (seal_parsed s))"
  by (simp add: seal_text_def codex_reads[OF seal_parsed_plain] del: wire_punct)

lemma seal_lift:
  assumes "b64_engine enc dec" "seal_wire_ok s"
  shows "seal_from_wire dec field (seal_parsed s) = Inr s"
  using assms(2)
  by (cases s) (simp_all add: digest_text_lift[OF assms(1)] key_text_lift[OF assms(1)]
      identifier_text_lift[OF assms(1)] verser_text_lift[OF assms(1)] number_lift)

lemma seal_writes:
  assumes "b64_engine enc dec" "seal_wire_ok s"
  shows "writes (seal_encode enc s) (seal_text s)"
proof -
  note w = matter_writes[OF assms(1)] identifier_writes[OF assms(1)]
  have c: "writes (write_all ws) t" if "list_all2 writes ws ts" "concat ts = t" for ws ts t
    using writes_all[OF that(1)] that(2) by simp
  show ?thesis using assms(2)
    by (cases s) (auto simp: seal_text_def wire_eval intro!: w writes_lit writes_str
        c[of "[_, _, _]" "[wire _, _, wire _]"] c[of "[_, _, _, _, _]" "[wire _, _, wire _, _, wire _]"]
        c[of "[_, _, _, _, _, _, _]" "[wire _, _, wire _, _, wire _, _, wire _]"])
qed

lemma starts_seal [simp]: "starts_item (seal_text s)"
  by (simp add: seal_text_def starts_item_def)

end
