(* ===== verification/Codec_Event.thy ===== *)
theory Codec_Event
  imports Codec_Seal
begin

text \<open>
  The canonical grammar of the five key events and of the receipt, reading side:
  \<^verbatim>\<open>codec/event.rs\<close> and \<^verbatim>\<open>codec/receipt.rs\<close>. The fields stand in a fixed order; a parsed
  event keeps the texts of its fields, and where the two self-addressing ones stand.
\<close>

section \<open>Parsed events\<close>

record ParsedIcp =
  pi_said :: Spanned
  pi_prefix :: Spanned
  pi_sn :: bytes
  pi_threshold :: ParsedTholder
  pi_keys :: "bytes list"
  pi_next_threshold :: ParsedTholder
  pi_next_keys :: "bytes list"
  pi_witness_threshold :: ParsedCount
  pi_witnesses :: "bytes list"
  pi_config :: "bytes list"
  pi_anchors :: "ParsedSeal list"

record ParsedDip =
  pd_icp :: ParsedIcp
  pd_delegator :: bytes

record ParsedRot =
  pr_said :: Spanned
  pr_prefix :: bytes
  pr_sn :: bytes
  pr_prior :: bytes
  pr_threshold :: ParsedTholder
  pr_keys :: "bytes list"
  pr_next_threshold :: ParsedTholder
  pr_next_keys :: "bytes list"
  pr_witness_threshold :: ParsedCount
  pr_witness_removals :: "bytes list"
  pr_witness_additions :: "bytes list"
  pr_anchors :: "ParsedSeal list"

record ParsedIxn =
  px_said :: Spanned
  px_prefix :: bytes
  px_sn :: bytes
  px_prior :: bytes
  px_anchors :: "ParsedSeal list"

datatype ParsedEvent =
    ParsedInception ParsedIcp
  | ParsedRotation ParsedRot
  | ParsedInteraction ParsedIxn
  | ParsedDelegatedInception ParsedDip
  | ParsedDelegatedRotation ParsedRot

record ParsedRct =
  pc_said :: bytes
  pc_prefix :: bytes
  pc_sn :: bytes

section \<open>The head\<close>

definition grammar :: "VersionGrammarError \<Rightarrow> CodecError" where
  "grammar = CodecVersion"

definition check_head_version :: "VersionString \<Rightarrow> nat \<Rightarrow> VersionGrammarError + unit" where
  "check_head_version vs raw_len =
     (if vs_proto vs \<noteq> ProtoKeri then Inl InvalidVersionString
      else if vs_major vs \<noteq> 1 \<or> vs_minor vs \<noteq> 0 then Inl (UnsupportedProtocolVersion (vs_proto vs) (vs_major vs) (vs_minor vs))
      else if vs_kind vs \<noteq> SerializationKind.Json then Inl InvalidVersionString
      else if unat (vs_size vs) \<noteq> raw_len then Inl InvalidVersionString
      else Inr ())"

definition head_rest :: "Spanned reader" where
  "head_rest = then_read (expect ''`,`t`:'') (\<lambda>_. json_plain)"

definition event_head :: "bytes \<Rightarrow> JsonLimits \<Rightarrow> CodecError + (Spanned \<times> Scanner)" where
  "event_head raw limits =
     then_read (expect ''{`v`:`'') (\<lambda>_ sc.
       let vs_start = sc_pos sc in
       res_bind (if vs_start + VERSION_STRING_LEN < usize_bound then Inr (vs_start + VERSION_STRING_LEN)
                 else Inl (layout ''version span overflow'')) (\<lambda>vs_end.
       res_bind (ok_or (err sc ''17-byte version string'') (slice_range raw vs_start vs_end)) (\<lambda>vs_bytes.
       res_bind (map_err (\<lambda>e. grammar (GrammarVersion e)) (VersionString_parse vs_bytes)) (\<lambda>(vs, _).
       res_bind (map_err grammar (check_head_version vs (length raw))) (\<lambda>_.
       head_rest (sc\<lparr>sc_pos := vs_end\<rparr>))))))
     (Scanner_with_budget raw (JsonBudget_of_limits limits))"

section \<open>Bodies\<close>

definition icp_lists :: "(bytes list \<Rightarrow> bytes list \<Rightarrow> ParsedSeal list \<Rightarrow> 'a) \<Rightarrow> 'a reader" where
  "icp_lists mk =
     then_read (expect '',`b`:'') (\<lambda>_. then_read string_array (\<lambda>witnesses.
     then_read (expect '',`c`:'') (\<lambda>_. then_read string_array (\<lambda>config.
     then_read (expect '',`a`:'') (\<lambda>_. then_read (delimited_list seal_decode) (\<lambda>anchors.
     give (mk witnesses config anchors)))))))"

text \<open>The fields from \<^verbatim>\<open>kt\<close> to \<^verbatim>\<open>bt\<close>, the same in both establishment events.\<close>

definition key_fields ::
    "(ParsedTholder \<Rightarrow> bytes list \<Rightarrow> ParsedTholder \<Rightarrow> bytes list \<Rightarrow> ParsedCount \<Rightarrow> 'a reader) \<Rightarrow> 'a reader" where
  "key_fields k =
     then_read (expect '',`kt`:'') (\<lambda>_. then_read tholder_decode (\<lambda>threshold.
     then_read (expect '',`k`:'') (\<lambda>_. then_read string_array (\<lambda>keys.
     then_read (expect '',`nt`:'') (\<lambda>_. then_read tholder_decode (\<lambda>next_threshold.
     then_read (expect '',`n`:'') (\<lambda>_. then_read string_array (\<lambda>next_keys.
     then_read (expect '',`bt`:'') (\<lambda>_. then_read count_decode (\<lambda>witness_threshold.
     k threshold keys next_threshold next_keys witness_threshold))))))))))"

definition icp_fields :: "ParsedIcp reader" where
  "icp_fields =
     then_read (expect '',`d`:'') (\<lambda>_. then_read json_plain (\<lambda>said.
     then_read (expect '',`i`:'') (\<lambda>_. then_read json_plain (\<lambda>prefix.
     then_read (expect '',`s`:'') (\<lambda>_. then_read plain_value (\<lambda>sn.
     key_fields (\<lambda>threshold keys next_threshold next_keys witness_threshold.
     icp_lists (\<lambda>witnesses config anchors.
       \<lparr>pi_said = said, pi_prefix = prefix, pi_sn = sn, pi_threshold = threshold, pi_keys = keys,
        pi_next_threshold = next_threshold, pi_next_keys = next_keys, pi_witness_threshold = witness_threshold,
        pi_witnesses = witnesses, pi_config = config, pi_anchors = anchors\<rparr>))))))))"

text \<open>The closing brace of the body and the end of the input.\<close>

definition body_end :: "'a \<Rightarrow> 'a reader" where
  "body_end x = then_read (expect ''}'') (\<lambda>_. then_read finish (\<lambda>_. give x))"

definition icp_body :: "ParsedIcp reader" where
  "icp_body = then_read icp_fields body_end"

definition dip_fields :: "ParsedDip reader" where
  "dip_fields =
     then_read icp_fields (\<lambda>icp. then_read (expect '',`di`:'') (\<lambda>_. then_read plain_value (\<lambda>delegator.
     give \<lparr>pd_icp = icp, pd_delegator = delegator\<rparr>)))"

definition dip_body :: "ParsedDip reader" where
  "dip_body = then_read dip_fields body_end"

definition rot_lists :: "(bytes list \<Rightarrow> bytes list \<Rightarrow> ParsedSeal list \<Rightarrow> 'a) \<Rightarrow> 'a reader" where
  "rot_lists mk =
     then_read (expect '',`br`:'') (\<lambda>_. then_read string_array (\<lambda>removals.
     then_read (expect '',`ba`:'') (\<lambda>_. then_read string_array (\<lambda>additions.
     then_read (expect '',`a`:'') (\<lambda>_. then_read (delimited_list seal_decode) (\<lambda>anchors.
     give (mk removals additions anchors)))))))"

text \<open>The fields from \<^verbatim>\<open>d\<close> to \<^verbatim>\<open>p\<close>, the same in every event after the first.\<close>

definition chain_fields :: "(Spanned \<Rightarrow> bytes \<Rightarrow> bytes \<Rightarrow> bytes \<Rightarrow> 'a reader) \<Rightarrow> 'a reader" where
  "chain_fields k =
     then_read (expect '',`d`:'') (\<lambda>_. then_read json_plain (\<lambda>said.
     then_read (expect '',`i`:'') (\<lambda>_. then_read plain_value (\<lambda>prefix.
     then_read (expect '',`s`:'') (\<lambda>_. then_read plain_value (\<lambda>sn.
     then_read (expect '',`p`:'') (\<lambda>_. then_read plain_value (\<lambda>prior.
     k said prefix sn prior))))))))"

definition rot_fields :: "ParsedRot reader" where
  "rot_fields =
     chain_fields (\<lambda>said prefix sn prior.
     key_fields (\<lambda>threshold keys next_threshold next_keys witness_threshold.
     rot_lists (\<lambda>removals additions anchors.
       \<lparr>pr_said = said, pr_prefix = prefix, pr_sn = sn, pr_prior = prior, pr_threshold = threshold, pr_keys = keys,
        pr_next_threshold = next_threshold, pr_next_keys = next_keys, pr_witness_threshold = witness_threshold,
        pr_witness_removals = removals, pr_witness_additions = additions, pr_anchors = anchors\<rparr>)))"

definition rot_body :: "ParsedRot reader" where
  "rot_body = then_read rot_fields body_end"

definition ixn_fields :: "ParsedIxn reader" where
  "ixn_fields =
     chain_fields (\<lambda>said prefix sn prior.
     then_read (expect '',`a`:'') (\<lambda>_. then_read (delimited_list seal_decode) (\<lambda>anchors.
     give \<lparr>px_said = said, px_prefix = prefix, px_sn = sn, px_prior = prior, px_anchors = anchors\<rparr>)))"

definition ixn_body :: "ParsedIxn reader" where
  "ixn_body = then_read ixn_fields body_end"

definition rct_fields :: "ParsedRct reader" where
  "rct_fields =
     then_read (expect '',`d`:'') (\<lambda>_. then_read plain_value (\<lambda>said.
     then_read (expect '',`i`:'') (\<lambda>_. then_read plain_value (\<lambda>prefix.
     then_read (expect '',`s`:'') (\<lambda>_. then_read plain_value (\<lambda>sn.
     give \<lparr>pc_said = said, pc_prefix = prefix, pc_sn = sn\<rparr>))))))"

definition rct_body :: "ParsedRct reader" where
  "rct_body = then_read rct_fields body_end"

section \<open>Whole events\<close>

definition run :: "'a reader \<Rightarrow> Scanner \<Rightarrow> CodecError + 'a" where
  "run body sc = res_bind (body sc) (\<lambda>(x, _). Inr x)"

definition require_message_type :: "Scanner \<Rightarrow> Spanned \<Rightarrow> string \<Rightarrow> CodecError + unit" where
  "require_message_type sc message_type expected =
     (if sp_value message_type = str_bytes expected then Inr () else Inl (err_at sc (sp_start message_type) expected))"

definition parse_as :: "string \<Rightarrow> 'a reader \<Rightarrow> bytes \<Rightarrow> JsonLimits \<Rightarrow> CodecError + 'a" where
  "parse_as expected body raw limits =
     res_bind (event_head raw limits) (\<lambda>(message_type, sc).
     res_bind (require_message_type sc message_type expected) (\<lambda>_. run body sc))"

definition ParsedIcp_parse :: "bytes \<Rightarrow> JsonLimits \<Rightarrow> CodecError + ParsedIcp" where
  "ParsedIcp_parse = parse_as ''icp'' icp_body"

definition ParsedRot_parse :: "bytes \<Rightarrow> JsonLimits \<Rightarrow> CodecError + ParsedRot" where
  "ParsedRot_parse = parse_as ''rot'' rot_body"

definition ParsedIxn_parse :: "bytes \<Rightarrow> JsonLimits \<Rightarrow> CodecError + ParsedIxn" where
  "ParsedIxn_parse = parse_as ''ixn'' ixn_body"

definition ParsedDip_parse :: "bytes \<Rightarrow> JsonLimits \<Rightarrow> CodecError + ParsedDip" where
  "ParsedDip_parse = parse_as ''dip'' dip_body"

definition ParsedRot_parse_delegated :: "bytes \<Rightarrow> JsonLimits \<Rightarrow> CodecError + ParsedRot" where
  "ParsedRot_parse_delegated = parse_as ''drt'' rot_body"

definition ParsedRct_parse :: "bytes \<Rightarrow> JsonLimits \<Rightarrow> CodecError + ParsedRct" where
  "ParsedRct_parse = parse_as ''rct'' rct_body"

definition ParsedEvent_parse :: "bytes \<Rightarrow> JsonLimits \<Rightarrow> CodecError + ParsedEvent" where
  "ParsedEvent_parse raw limits =
     res_bind (event_head raw limits) (\<lambda>(message_type, sc).
     let t = sp_value message_type in
     if t = str_bytes ''icp'' then res_bind (run icp_body sc) (\<lambda>p. Inr (ParsedInception p))
     else if t = str_bytes ''rot'' then res_bind (run rot_body sc) (\<lambda>p. Inr (ParsedRotation p))
     else if t = str_bytes ''ixn'' then res_bind (run ixn_body sc) (\<lambda>p. Inr (ParsedInteraction p))
     else if t = str_bytes ''dip'' then res_bind (run dip_body sc) (\<lambda>p. Inr (ParsedDelegatedInception p))
     else if t = str_bytes ''drt'' then res_bind (run rot_body sc) (\<lambda>p. Inr (ParsedDelegatedRotation p))
     else if t = str_bytes ''rct'' then Inl (CodecDeserialize ReceiptNotKeyEvent)
     else Inl (CodecDeserialize (UnknownEventType t)))"

definition peek_message_type :: "bytes \<Rightarrow> JsonLimits \<Rightarrow> CodecError + MessageType" where
  "peek_message_type raw limits =
     res_bind (event_head raw limits) (\<lambda>(message_type, _).
     map_err (\<lambda>_. CodecDeserialize (UnknownEventType (sp_value message_type)))
       (MessageType_from_code (sp_value message_type)))"

end
