(* ===== verification/Codec_Event_Text.thy ===== *)
theory Codec_Event_Text
  imports Codec_Event
begin

text \<open>
  The texts of the events of the grammar, and that the readers of \<^verbatim>\<open>Codec_Event\<close> take them:
  every field comes back as the text that was put in its place.
\<close>

section \<open>Fields shared by the events\<close>

definition keys_text :: "VerKeyCode Matter list \<Rightarrow> bytes" where
  "keys_text ks = json_array (map quote (map key_text ks))"

definition digests_text :: "DigestCode Matter list \<Rightarrow> bytes" where
  "digests_text ds = json_array (map quote (map digest_text ds))"

definition seals_text :: "Seal list \<Rightarrow> bytes" where
  "seals_text as = json_array (map seal_text as)"

definition seals_fields :: "Seal list \<Rightarrow> nat" where
  "seals_fields as = sum_list (map (\<lambda>a. seal_fields (seal_parsed a)) as)"

lemma reads_keys:
  assumes "list_all key_ok ks" "d < 3"
  shows "reads string_array False n (keys_text ks) (map key_text ks) d d 0"
  unfolding keys_text_def using assms by (intro reads_string_array) (auto simp: list_all_iff matter_text_plain)

lemma reads_digests:
  assumes "list_all digest_ok ds" "d < 3"
  shows "reads string_array False n (digests_text ds) (map digest_text ds) d d 0"
  unfolding digests_text_def using assms by (intro reads_string_array) (auto simp: list_all_iff matter_text_plain)

lemma reads_seals:
  assumes "list_all seal_wire_ok as" "d < 2"
  shows "reads (delimited_list seal_decode) False n (seals_text as) (map seal_parsed as) d d (seals_fields as)"
  unfolding seals_text_def seals_fields_def
  by (rule reads_delimited) (use assms in \<open>auto simp: list_all_iff intro: seal_reads\<close>)

text \<open>The next field, after a comma.\<close>

lemmas next_key = wire_eval no_digit_def is_digit_def

lemma reads_thens:
  assumes "reads p s n a x d d1 f" "b \<noteq> [] \<and> no_digit b" "\<And>m. reads (q x) s' m b y d1 d2 g"
  shows "reads (then_read p q) s' n (a @ b) y d d2 (f + g)"
  using reads_then[of p s n a x d d1 f b q s' y d2 g] assms by blast

lemma reads_keys_then:
  assumes "lit_cost d (wire l) = Some (d1, f)" "\<And>m. reads k s m b y d1 d2 g"
  shows "reads (then_read (expect l) (\<lambda>_. k)) s n (wire l @ b) y d d2 (f + g)"
  by (rule reads_key[OF assms])

lemma reads_thenF:
  assumes "reads p False n a x d d1 f" "\<And>m. reads (q x) s' m b y d1 d2 g"
  shows "reads (then_read p q) s' n (a @ b) y d d2 (f + g)"
  using reads_then[of p False n a x d d1 f b q s' y d2 g] assms by blast

definition key_fields_text ::
    "ThresholdForm \<Rightarrow> SigningThreshold \<Rightarrow> VerifyingKey list \<Rightarrow> SigningThreshold \<Rightarrow> Digest list \<Rightarrow> Toad \<Rightarrow> bytes" where
  "key_fields_text form t ks nt nks bt =
     wire '',`kt`:'' @ threshold_text form t @ wire '',`k`:'' @ keys_text ks @ wire '',`nt`:'' @ threshold_text form nt @
     wire '',`n`:'' @ digests_text nks @ wire '',`bt`:'' @ count_text form bt"

lemma key_fields_reads:
  assumes ok: "threshold_wire_ok form t" "list_all key_ok ks" "threshold_wire_ok form nt" "list_all digest_ok nks"
    and b: "b \<noteq> [] \<and> no_digit b"
    and k: "\<And>m. reads (k (threshold_parsed form t) (map key_text ks) (threshold_parsed form nt) (map digest_text nks)
        (count_parsed form bt)) s m b y (Suc 0) d2 g"
  shows "reads (key_fields k) s n (key_fields_text form t ks nt nks bt @ b) y (Suc 0) d2 (5 + g)"
proof -
  have "reads (key_fields k) s n (wire '',`kt`:'' @ threshold_text form t @ wire '',`k`:'' @ keys_text ks @
     wire '',`nt`:'' @ threshold_text form nt @ wire '',`n`:'' @ digests_text nks @ wire '',`bt`:'' @ count_text form bt @ b) y (Suc 0) d2
     (1 + (0 + (1 + (0 + (1 + (0 + (1 + (0 + (1 + (0 + g))))))))))"
    unfolding key_fields_def
    by (rule reads_keys_then, simp add: wire_eval, rule reads_thens[OF threshold_reads[OF ok(1)]], simp, simp add: next_key,
        rule reads_keys_then, simp add: wire_eval, rule reads_thenF[OF reads_keys[OF ok(2)]], simp,
        rule reads_keys_then, simp add: wire_eval, rule reads_thens[OF threshold_reads[OF ok(3)]], simp, simp add: next_key,
        rule reads_keys_then, simp add: wire_eval, rule reads_thenF[OF reads_digests[OF ok(4)]], simp,
        rule reads_keys_then, simp add: wire_eval, rule reads_thens[OF count_reads], rule b, rule k)
  moreover have "(1 + (0 + (1 + (0 + (1 + (0 + (1 + (0 + (1 + (0 + g)))))))))) = 5 + g" by simp
  ultimately show ?thesis by (simp only: key_fields_text_def append_assoc)
qed

section \<open>Inceptions\<close>

definition spanned :: "nat \<Rightarrow> bytes \<Rightarrow> Spanned" where
  "spanned n v = \<lparr>sp_value = v, sp_start = Suc n, sp_end = Suc n + length v\<rparr>"

lemma reads_spanned: "plain_text v \<Longrightarrow> reads json_plain False n (quote v) (spanned n v) d d 0"
  unfolding spanned_def by (rule reads_plain)

text \<open>What the text of an inception keeps: all its primitives, numbers and thresholds are writable.\<close>

definition icp_wire_ok :: "InceptionEvent \<Rightarrow> bool" where
  "icp_wire_ok e \<longleftrightarrow>
     sn_ok (icp_sn e) \<and> list_all key_ok (icp_keys e) \<and> list_all digest_ok (icp_next_keys e) \<and>
     list_all key_ok (icp_witnesses e) \<and> list_all seal_wire_ok (icp_anchors e) \<and>
     threshold_wire_ok (icp_threshold_form e) (icp_threshold e) \<and>
     threshold_wire_ok (icp_threshold_form e) (icp_next_threshold e)"

definition configs_text :: "ConfigTrait list \<Rightarrow> bytes" where
  "configs_text cs = json_array (map quote (map ConfigTrait_code cs))"

lemma reads_configs: "d < 3 \<Longrightarrow> reads string_array False n (configs_text cs) (map ConfigTrait_code cs) d d 0"
  unfolding configs_text_def by (rule reads_string_array) (auto simp: list_all_iff config_plain)

definition icp_lists_text :: "InceptionEvent \<Rightarrow> bytes" where
  "icp_lists_text e =
     wire '',`b`:'' @ keys_text (icp_witnesses e) @ wire '',`c`:'' @ configs_text (icp_config e) @
     wire '',`a`:'' @ seals_text (icp_anchors e)"

definition icp_tail_text :: "InceptionEvent \<Rightarrow> bytes" where
  "icp_tail_text e =
     wire '',`s`:'' @ quote (numh (icp_sn e)) @
     key_fields_text (icp_threshold_form e) (icp_threshold e) (icp_keys e) (icp_next_threshold e) (icp_next_keys e)
       (icp_witness_threshold e) @ icp_lists_text e"

definition icp_text :: "bytes \<Rightarrow> bytes \<Rightarrow> InceptionEvent \<Rightarrow> bytes" where
  "icp_text said pre e = wire '',`d`:'' @ quote said @ wire '',`i`:'' @ quote pre @ icp_tail_text e"

definition icp_cost :: "InceptionEvent \<Rightarrow> nat" where
  "icp_cost e = 11 + seals_fields (icp_anchors e)"

definition icp_parsed :: "nat \<Rightarrow> bytes \<Rightarrow> bytes \<Rightarrow> InceptionEvent \<Rightarrow> ParsedIcp" where
  "icp_parsed n said pre e =
     \<lparr>pi_said = spanned (n + 5) said, pi_prefix = spanned (n + 5 + (length said + 2) + 5) pre, pi_sn = numh (icp_sn e),
      pi_threshold = threshold_parsed (icp_threshold_form e) (icp_threshold e), pi_keys = map key_text (icp_keys e),
      pi_next_threshold = threshold_parsed (icp_threshold_form e) (icp_next_threshold e),
      pi_next_keys = map digest_text (icp_next_keys e),
      pi_witness_threshold = count_parsed (icp_threshold_form e) (icp_witness_threshold e),
      pi_witnesses = map key_text (icp_witnesses e), pi_config = map ConfigTrait_code (icp_config e),
      pi_anchors = map seal_parsed (icp_anchors e)\<rparr>"

lemma icp_lists_reads:
  assumes "list_all key_ok (icp_witnesses e)" "list_all seal_wire_ok (icp_anchors e)"
  shows "reads (icp_lists mk) False n (icp_lists_text e)
    (mk (map key_text (icp_witnesses e)) (map ConfigTrait_code (icp_config e)) (map seal_parsed (icp_anchors e)))
    (Suc 0) (Suc 0) (3 + seals_fields (icp_anchors e))"
proof -
  have "reads (icp_lists mk) False n (wire '',`b`:'' @ keys_text (icp_witnesses e) @ wire '',`c`:'' @ configs_text (icp_config e) @
     wire '',`a`:'' @ seals_text (icp_anchors e) @ [])
    (mk (map key_text (icp_witnesses e)) (map ConfigTrait_code (icp_config e)) (map seal_parsed (icp_anchors e)))
    (Suc 0) (Suc 0) (1 + (0 + (1 + (0 + (1 + (seals_fields (icp_anchors e) + 0))))))"
    unfolding icp_lists_def
    by (rule reads_keys_then, simp add: wire_eval, rule reads_thenF[OF reads_keys[OF assms(1)]], simp,
        rule reads_keys_then, simp add: wire_eval, rule reads_thenF[OF reads_configs], simp,
        rule reads_keys_then, simp add: wire_eval, rule reads_thenF[OF reads_seals[OF assms(2)]], simp, rule reads_give)
  then show ?thesis by (simp only: icp_lists_text_def append_Nil2) (simp add: numeral_3_eq_3)
qed

lemma key_lit: "wire (CHR '','' # l) @ b \<noteq> [] \<and> no_digit (wire (CHR '','' # l) @ b)"
  by (simp add: next_key)

lemma icp_fields_reads:
  assumes ok: "icp_wire_ok e" and p: "plain_text said" "plain_text pre"
  shows "reads icp_fields False n (icp_text said pre e) (icp_parsed n said pre e) (Suc 0) (Suc 0) (icp_cost e)"
proof -
  have ok': "threshold_wire_ok (icp_threshold_form e) (icp_threshold e)" "list_all key_ok (icp_keys e)"
    "threshold_wire_ok (icp_threshold_form e) (icp_next_threshold e)" "list_all digest_ok (icp_next_keys e)"
    "list_all key_ok (icp_witnesses e)" "list_all seal_wire_ok (icp_anchors e)"
    using ok by (simp_all add: icp_wire_ok_def)
  have nd: "icp_lists_text e \<noteq> [] \<and> no_digit (icp_lists_text e)"
    unfolding icp_lists_text_def by (rule key_lit)
  have l: "length (wire '',`d`:'') = 5" "length (wire '',`i`:'') = 5" "length (quote v) = length v + 2" for v
    by (simp_all add: wire_eval quote_def)
  have "reads icp_fields False n (wire '',`d`:'' @ quote said @ wire '',`i`:'' @ quote pre @ wire '',`s`:'' @ quote (numh (icp_sn e)) @
     key_fields_text (icp_threshold_form e) (icp_threshold e) (icp_keys e) (icp_next_threshold e) (icp_next_keys e)
       (icp_witness_threshold e) @ icp_lists_text e) (icp_parsed n said pre e) (Suc 0) (Suc 0)
     (1 + (0 + (1 + (0 + (1 + (0 + (5 + (3 + seals_fields (icp_anchors e)))))))))"
    unfolding icp_fields_def icp_parsed_def
    by (rule reads_key, simp add: wire_eval, rule reads_then[OF reads_spanned[OF p(1)]], simp,
        rule reads_key, simp add: wire_eval, unfold l, rule reads_then[OF reads_spanned[OF p(2)]], simp,
        rule reads_keys_then, simp add: wire_eval, rule reads_thenF[OF reads_value[OF plain_numh]],
        rule key_fields_reads[OF ok'(1-4) nd], rule icp_lists_reads[OF ok'(5,6)])
  then show ?thesis by (simp only: icp_text_def icp_tail_text_def) (simp add: icp_cost_def)
qed

definition dip_text :: "bytes \<Rightarrow> bytes \<Rightarrow> DelegatedInceptionEvent \<Rightarrow> bytes" where
  "dip_text said pre e =
     icp_text said pre (dip_inception e) @ wire '',`di`:'' @ quote (identifier_text (dip_delegator e))"

definition dip_parsed :: "nat \<Rightarrow> bytes \<Rightarrow> bytes \<Rightarrow> DelegatedInceptionEvent \<Rightarrow> ParsedDip" where
  "dip_parsed n said pre e =
     \<lparr>pd_icp = icp_parsed n said pre (dip_inception e), pd_delegator = identifier_text (dip_delegator e)\<rparr>"

lemma dip_fields_reads:
  assumes "icp_wire_ok (dip_inception e)" "identifier_wire_ok (dip_delegator e)" "plain_text said" "plain_text pre"
  shows "reads dip_fields False n (dip_text said pre e) (dip_parsed n said pre e) (Suc 0) (Suc 0)
    (icp_cost (dip_inception e) + 1)"
proof -
  have "reads dip_fields False n (icp_text said pre (dip_inception e) @ wire '',`di`:'' @
      quote (identifier_text (dip_delegator e)) @ []) (dip_parsed n said pre e) (Suc 0) (Suc 0)
    (icp_cost (dip_inception e) + (1 + (0 + 0)))"
    unfolding dip_fields_def dip_parsed_def
    by (rule reads_thenF[OF icp_fields_reads[OF assms(1,3,4)]], rule reads_keys_then, simp add: wire_eval,
        rule reads_then_value[OF identifier_plain[OF assms(2)]], rule reads_give)
  then show ?thesis by (simp only: dip_text_def append_assoc append_Nil2) simp
qed

section \<open>Rotations and interactions\<close>

definition chain_text :: "bytes \<Rightarrow> Identifier \<Rightarrow> Number \<Rightarrow> Said \<Rightarrow> bytes" where
  "chain_text said i sn prior =
     wire '',`d`:'' @ quote said @ wire '',`i`:'' @ quote (identifier_text i) @ wire '',`s`:'' @ quote (numh sn) @
     wire '',`p`:'' @ quote (digest_text prior)"

lemma chain_fields_reads:
  assumes p: "plain_text said" "identifier_wire_ok i" "digest_ok prior"
    and k: "\<And>m. reads (k (spanned (n + 5) said) (identifier_text i) (numh sn) (digest_text prior)) False m b y (Suc 0) d2 g"
  shows "reads (chain_fields k) False n (chain_text said i sn prior @ b) y (Suc 0) d2 (4 + g)"
proof -
  have l: "length (wire '',`d`:'') = 5" by (simp add: wire_eval)
  have "reads (chain_fields k) False n (wire '',`d`:'' @ quote said @ wire '',`i`:'' @ quote (identifier_text i) @
     wire '',`s`:'' @ quote (numh sn) @ wire '',`p`:'' @ quote (digest_text prior) @ b) y (Suc 0) d2
     (1 + (0 + (1 + (0 + (1 + (0 + (1 + (0 + g))))))))"
    unfolding chain_fields_def
    by (rule reads_key, simp add: wire_eval, unfold l, rule reads_thenF[OF reads_spanned[OF p(1)]],
        rule reads_keys_then, simp add: wire_eval, rule reads_thenF[OF reads_value[OF identifier_plain[OF p(2)]]],
        rule reads_keys_then, simp add: wire_eval, rule reads_thenF[OF reads_value[OF plain_numh]],
        rule reads_keys_then, simp add: wire_eval, rule reads_thenF[OF reads_value[OF matter_text_plain[OF p(3)]]], rule k)
  moreover have "(1 + (0 + (1 + (0 + (1 + (0 + (1 + (0 + g)))))))) = 4 + g" by simp
  ultimately show ?thesis by (simp only: chain_text_def append_assoc)
qed

definition rot_wire_ok :: "RotationEvent \<Rightarrow> bool" where
  "rot_wire_ok e \<longleftrightarrow>
     identifier_wire_ok (rot_prefix e) \<and> sn_ok (rot_sn e) \<and> digest_ok (rot_prior e) \<and> list_all key_ok (rot_keys e) \<and>
     list_all digest_ok (rot_next_keys e) \<and> list_all key_ok (rot_witness_additions e) \<and>
     list_all key_ok (rot_witness_removals e) \<and> list_all seal_wire_ok (rot_anchors e) \<and>
     threshold_wire_ok (rot_threshold_form e) (rot_threshold e) \<and>
     threshold_wire_ok (rot_threshold_form e) (rot_next_threshold e)"

definition rot_lists_text :: "RotationEvent \<Rightarrow> bytes" where
  "rot_lists_text e =
     wire '',`br`:'' @ keys_text (rot_witness_removals e) @ wire '',`ba`:'' @ keys_text (rot_witness_additions e) @
     wire '',`a`:'' @ seals_text (rot_anchors e)"

definition rot_text :: "bytes \<Rightarrow> RotationEvent \<Rightarrow> bytes" where
  "rot_text said e =
     chain_text said (rot_prefix e) (rot_sn e) (rot_prior e) @
     key_fields_text (rot_threshold_form e) (rot_threshold e) (rot_keys e) (rot_next_threshold e) (rot_next_keys e)
       (rot_witness_threshold e) @ rot_lists_text e"

definition rot_cost :: "RotationEvent \<Rightarrow> nat" where
  "rot_cost e = 12 + seals_fields (rot_anchors e)"

definition rot_parsed :: "nat \<Rightarrow> bytes \<Rightarrow> RotationEvent \<Rightarrow> ParsedRot" where
  "rot_parsed n said e =
     \<lparr>pr_said = spanned (n + 5) said, pr_prefix = identifier_text (rot_prefix e), pr_sn = numh (rot_sn e),
      pr_prior = digest_text (rot_prior e),
      pr_threshold = threshold_parsed (rot_threshold_form e) (rot_threshold e), pr_keys = map key_text (rot_keys e),
      pr_next_threshold = threshold_parsed (rot_threshold_form e) (rot_next_threshold e),
      pr_next_keys = map digest_text (rot_next_keys e),
      pr_witness_threshold = count_parsed (rot_threshold_form e) (rot_witness_threshold e),
      pr_witness_removals = map key_text (rot_witness_removals e),
      pr_witness_additions = map key_text (rot_witness_additions e),
      pr_anchors = map seal_parsed (rot_anchors e)\<rparr>"

lemma rot_lists_reads:
  assumes "list_all key_ok (rot_witness_removals e)" "list_all key_ok (rot_witness_additions e)" "list_all seal_wire_ok (rot_anchors e)"
  shows "reads (rot_lists mk) False n (rot_lists_text e)
    (mk (map key_text (rot_witness_removals e)) (map key_text (rot_witness_additions e)) (map seal_parsed (rot_anchors e)))
    (Suc 0) (Suc 0) (3 + seals_fields (rot_anchors e))"
proof -
  have "reads (rot_lists mk) False n (wire '',`br`:'' @ keys_text (rot_witness_removals e) @ wire '',`ba`:'' @
     keys_text (rot_witness_additions e) @ wire '',`a`:'' @ seals_text (rot_anchors e) @ [])
    (mk (map key_text (rot_witness_removals e)) (map key_text (rot_witness_additions e)) (map seal_parsed (rot_anchors e)))
    (Suc 0) (Suc 0) (1 + (0 + (1 + (0 + (1 + (seals_fields (rot_anchors e) + 0))))))"
    unfolding rot_lists_def
    by (rule reads_keys_then, simp add: wire_eval, rule reads_thenF[OF reads_keys[OF assms(1)]], simp,
        rule reads_keys_then, simp add: wire_eval, rule reads_thenF[OF reads_keys[OF assms(2)]], simp,
        rule reads_keys_then, simp add: wire_eval, rule reads_thenF[OF reads_seals[OF assms(3)]], simp, rule reads_give)
  then show ?thesis by (simp only: rot_lists_text_def append_Nil2) (simp add: numeral_3_eq_3)
qed

lemma rot_fields_reads:
  assumes ok: "rot_wire_ok e" and p: "plain_text said"
  shows "reads rot_fields False n (rot_text said e) (rot_parsed n said e) (Suc 0) (Suc 0) (rot_cost e)"
proof -
  have ok': "identifier_wire_ok (rot_prefix e)" "digest_ok (rot_prior e)"
    "threshold_wire_ok (rot_threshold_form e) (rot_threshold e)" "list_all key_ok (rot_keys e)"
    "threshold_wire_ok (rot_threshold_form e) (rot_next_threshold e)" "list_all digest_ok (rot_next_keys e)"
    "list_all key_ok (rot_witness_removals e)" "list_all key_ok (rot_witness_additions e)" "list_all seal_wire_ok (rot_anchors e)"
    using ok by (simp_all add: rot_wire_ok_def)
  have nd: "rot_lists_text e \<noteq> [] \<and> no_digit (rot_lists_text e)"
    unfolding rot_lists_text_def by (rule key_lit)
  have "reads rot_fields False n (rot_text said e) (rot_parsed n said e) (Suc 0) (Suc 0)
     (4 + (5 + (3 + seals_fields (rot_anchors e))))"
    unfolding rot_fields_def rot_parsed_def rot_text_def
    by (rule chain_fields_reads[OF p ok'(1,2)], rule key_fields_reads[OF ok'(3-6) nd], rule rot_lists_reads[OF ok'(7-9)])
  then show ?thesis by (simp add: rot_cost_def)
qed

definition ixn_wire_ok :: "InteractionEvent \<Rightarrow> bool" where
  "ixn_wire_ok e \<longleftrightarrow>
     identifier_wire_ok (ixn_prefix e) \<and> sn_ok (ixn_sn e) \<and> digest_ok (ixn_prior e) \<and> list_all seal_wire_ok (ixn_anchors e)"

definition ixn_text :: "bytes \<Rightarrow> InteractionEvent \<Rightarrow> bytes" where
  "ixn_text said e =
     chain_text said (ixn_prefix e) (ixn_sn e) (ixn_prior e) @ wire '',`a`:'' @ seals_text (ixn_anchors e)"

definition ixn_parsed :: "nat \<Rightarrow> bytes \<Rightarrow> InteractionEvent \<Rightarrow> ParsedIxn" where
  "ixn_parsed n said e =
     \<lparr>px_said = spanned (n + 5) said, px_prefix = identifier_text (ixn_prefix e), px_sn = numh (ixn_sn e),
      px_prior = digest_text (ixn_prior e), px_anchors = map seal_parsed (ixn_anchors e)\<rparr>"

lemma ixn_fields_reads:
  assumes ok: "ixn_wire_ok e" and p: "plain_text said"
  shows "reads ixn_fields False n (ixn_text said e) (ixn_parsed n said e) (Suc 0) (Suc 0) (5 + seals_fields (ixn_anchors e))"
proof -
  have ok': "identifier_wire_ok (ixn_prefix e)" "digest_ok (ixn_prior e)" "list_all seal_wire_ok (ixn_anchors e)"
    using ok by (simp_all add: ixn_wire_ok_def)
  have "reads ixn_fields False n (chain_text said (ixn_prefix e) (ixn_sn e) (ixn_prior e) @ wire '',`a`:'' @
      seals_text (ixn_anchors e) @ []) (ixn_parsed n said e) (Suc 0) (Suc 0)
     (4 + (1 + (seals_fields (ixn_anchors e) + 0)))"
    unfolding ixn_fields_def ixn_parsed_def
    by (rule chain_fields_reads[OF p ok'(1,2)], rule reads_keys_then, simp add: wire_eval,
        rule reads_thenF[OF reads_seals[OF ok'(3)]], simp, rule reads_give)
  then show ?thesis by (simp only: ixn_text_def append_Nil2) simp
qed

section \<open>Receipts\<close>

definition rct_wire_ok :: "Receipt \<Rightarrow> bool" where
  "rct_wire_ok r \<longleftrightarrow> identifier_wire_ok (rct_prefix r) \<and> sn_ok (rct_sn r) \<and> digest_ok (rct_said r)"

definition rct_text :: "Receipt \<Rightarrow> bytes" where
  "rct_text r =
     wire '',`d`:'' @ quote (digest_text (rct_said r)) @ wire '',`i`:'' @ quote (identifier_text (rct_prefix r)) @
     wire '',`s`:'' @ quote (numh (rct_sn r))"

definition rct_parsed :: "Receipt \<Rightarrow> ParsedRct" where
  "rct_parsed r =
     \<lparr>pc_said = digest_text (rct_said r), pc_prefix = identifier_text (rct_prefix r), pc_sn = numh (rct_sn r)\<rparr>"

lemma rct_fields_reads:
  assumes "rct_wire_ok r"
  shows "reads rct_fields False n (rct_text r) (rct_parsed r) (Suc 0) (Suc 0) 3"
proof -
  have ok: "digest_ok (rct_said r)" "identifier_wire_ok (rct_prefix r)" using assms by (simp_all add: rct_wire_ok_def)
  have "reads rct_fields False n (wire '',`d`:'' @ quote (digest_text (rct_said r)) @ wire '',`i`:'' @
      quote (identifier_text (rct_prefix r)) @ wire '',`s`:'' @ quote (numh (rct_sn r)) @ []) (rct_parsed r) (Suc 0) (Suc 0)
     (1 + (0 + (1 + (0 + (1 + (0 + 0))))))"
    unfolding rct_fields_def rct_parsed_def
    by (rule reads_keys_then, simp add: wire_eval, rule reads_thenF[OF reads_value[OF matter_text_plain[OF ok(1)]]],
        rule reads_keys_then, simp add: wire_eval, rule reads_thenF[OF reads_value[OF identifier_plain[OF ok(2)]]],
        rule reads_keys_then, simp add: wire_eval, rule reads_thenF[OF reads_value[OF plain_numh]], rule reads_give)
  then show ?thesis by (simp only: rct_text_def append_Nil2) (simp add: numeral_3_eq_3)
qed

section \<open>Heads and ends\<close>

text \<open>The head of an event whose version string is vs.\<close>

definition head_text :: "bytes \<Rightarrow> bytes \<Rightarrow> bytes" where
  "head_text vs t = wire ''{`v`:`'' @ vs @ wire ''`,`t`:'' @ quote t"

definition limits_allow :: "JsonLimits \<Rightarrow> nat \<Rightarrow> bool" where
  "limits_allow limits f \<longleftrightarrow> 3 \<le> jl_max_depth limits \<and> f \<le> jl_max_fields limits"

text \<open>A scanner behind some bytes of the raw input.\<close>

definition scanner_at :: "bytes \<Rightarrow> nat \<Rightarrow> JsonLimits \<Rightarrow> nat \<Rightarrow> nat \<Rightarrow> Scanner" where
  "scanner_at raw n limits f d =
     \<lparr>sc_input = raw, sc_pos = n, sc_budget = spend (JsonBudget_of_limits limits) f d\<rparr>"

lemma scanner_at_simps [simp]:
  "sc_input (scanner_at raw n limits f d) = raw" "sc_pos (scanner_at raw n limits f d) = n"
  "jb_depth (sc_budget (scanner_at raw n limits f d)) = d"
  by (simp_all add: scanner_at_def)

lemma roomy_scanner_at: "roomy (sc_budget (scanner_at raw n limits f d)) g \<longleftrightarrow> limits_allow limits (f + g)"
  by (auto simp: scanner_at_def roomy_def limits_allow_def JsonBudget_of_limits_def JsonBudget_new_def)

lemma reads_at:
  assumes "reads p s n a x d d' g" "drop n raw = a @ rest" "n \<le> length raw" "length raw < usize_bound"
    "limits_allow limits (f + g)" "s \<longrightarrow> no_digit rest"
  shows "p (scanner_at raw n limits f d) = Inr (x, scanner_at raw (n + length a) limits (f + g) d')"
proof -
  have "p (scanner_at raw n limits f d) =
     Inr (x, (scanner_at raw n limits f d)\<lparr>sc_pos := n + length a, sc_budget := spend (sc_budget (scanner_at raw n limits f d)) g d'\<rparr>)"
    by (rule reads_result[OF assms(1), of _ rest]) (use assms in \<open>auto simp: roomy_scanner_at\<close>)
  then show ?thesis by (simp add: scanner_at_def)
qed

lemma event_head_reads:
  assumes raw: "raw = head_text vs t @ rest" and len: "length raw < usize_bound" and lim: "limits_allow limits 2"
    and t: "plain_text t" and vs: "length vs = 17" "VersionString_parse vs = Inr (v, [])" "check_head_version v (length raw) = Inr ()"
  shows "event_head raw limits = Inr (spanned 29 t, scanner_at raw (length (head_text vs t)) limits 2 (Suc 0))"
proof -
  have l: "length (wire ''{`v`:`'') = 6" "length (wire ''`,`t`:'') = 6" by (simp_all add: wire_eval)
  have d: "drop 0 raw = wire ''{`v`:`'' @ vs @ wire ''`,`t`:'' @ quote t @ rest" by (simp add: raw head_text_def)
  have "reads (expect ''{`v`:`'') False 0 (wire ''{`v`:`'') () 0 (Suc 0) 1"
    by (rule reads_lit) (simp add: wire_eval)
  from reads_at[OF this d, of limits 0] len lim
  have e: "expect ''{`v`:`'' (scanner_at raw 0 limits 0 0) = Inr ((), scanner_at raw 6 limits 1 (Suc 0))"
    by (simp add: l limits_allow_def)
  have s: "slice_range raw 6 23 = Some vs"
    using d vs(1) by (simp add: slice_range_def l)
  have d2: "drop 23 raw = (wire ''`,`t`:'' @ quote t) @ rest"
    using d vs(1) by (simp add: l drop_append)
  have h: "reads head_rest False 23 (wire ''`,`t`:'' @ quote t) (spanned 29 t) (Suc 0) (Suc 0) (1 + 0)"
    unfolding head_rest_def
    by (rule reads_key) (use reads_spanned[OF t, of 29] in \<open>simp_all add: l wire_eval\<close>)
  have r: "head_rest (scanner_at raw 23 limits 1 (Suc 0)) =
      Inr (spanned 29 t, scanner_at raw (23 + length (wire ''`,`t`:'' @ quote t)) limits 2 (Suc 0))"
    using reads_at[OF h d2, of limits 1] len lim raw vs(1) by (simp add: head_text_def l limits_allow_def numeral_2_eq_2)
  have b: "Scanner_with_budget raw (JsonBudget_of_limits limits) = scanner_at raw 0 limits 0 0"
    by (simp add: Scanner_with_budget_def scanner_at_def JsonBudget_of_limits_def JsonBudget_new_def spend_def)
  have p: "(scanner_at raw n limits f d)\<lparr>sc_pos := m\<rparr> = scanner_at raw m limits f d" for n m f d
    by (simp add: scanner_at_def)
  show ?thesis
    unfolding event_head_def b
    using e s vs(2,3) r vs(1)
    by (simp add: then_read_def VERSION_STRING_LEN_def p head_text_def l)
qed

text \<open>A body read to the end of the input.\<close>

lemma run_body:
  assumes p: "reads p s n a x (Suc 0) (Suc 0) g" and raw: "raw = pre @ a @ wire ''}''" and n: "length pre = n"
    and len: "length raw < usize_bound" and lim: "limits_allow limits (f + g)"
  shows "run (then_read p body_end) (scanner_at raw n limits f (Suc 0)) = Inr x"
proof -
  have "p (scanner_at raw n limits f (Suc 0)) = Inr (x, scanner_at raw (n + length a) limits (f + g) (Suc 0))"
    by (rule reads_at[OF p, of _ "wire ''}''"]) (use raw n len lim in \<open>auto simp: no_digit_def is_digit_def\<close>)
  moreover have "reads (expect ''}'') False (n + length a) (wire ''}'') () (Suc 0) 0 0"
    by (rule reads_lit) (simp add: wire_eval)
  from reads_at[OF this, of raw "[]" limits "f + g"] raw n len lim
  have "expect ''}'' (scanner_at raw (n + length a) limits (f + g) (Suc 0)) = Inr ((), scanner_at raw (length raw) limits (f + g) 0)"
    by (simp add: limits_allow_def)
  ultimately show ?thesis by (simp add: run_def then_read_def body_end_def finish_def give_def)
qed

end
