(* ===== verification/Codec_Said.thy ===== *)
theory Codec_Said
  imports Codec_Event_Text Stream_Group
begin

text \<open>
  The self-addressing identifiers of an event, \<^verbatim>\<open>said.rs\<close>: the code of a digestive text, the
  check of every digestive field against the digest of the body with those fields dummied,
  and the patch of a slot. A digest of the body is accepted only where it is the text of
  the digest of exactly those bytes.
\<close>

section \<open>Operations\<close>

definition infer_digest_code :: "bytes \<Rightarrow> DeserializeError + DigestCode" where
  "infer_digest_code qb64_said =
     res_bind (map_err (\<lambda>_. InvalidPrimitive ''d'' (ValidationError.UnknownCode qb64_said)) (from_base64_stream qb64_said)) (\<lambda>c.
     map_err (InvalidPrimitive ''d'') (DigestCode_try_from c))"

definition probe_digest_code :: "bytes \<Rightarrow> DigestCode option" where
  "probe_digest_code qb64 =
     (case from_base64_stream qb64 of
        Inl _ \<Rightarrow> None
      | Inr c \<Rightarrow> if is_digest c then (case DigestCode_try_from c of Inr d \<Rightarrow> Some d | Inl _ \<Rightarrow> None) else None)"

definition fill_span :: "bytes \<Rightarrow> nat \<times> nat \<Rightarrow> CodecError + bytes" where
  "fill_span scratch slot =
     (case slice_range scratch (fst slot) (snd slot) of
        None \<Rightarrow> Inl (layout ''SAID span out of bounds'')
      | Some dst \<Rightarrow> Inr (overwrite (fst slot) (replicate (length dst) DUMMY_CHAR) scratch))"

definition sp_span :: "Spanned \<Rightarrow> nat \<times> nat" where
  "sp_span v = (sp_start v, sp_end v)"

fun fill_spans :: "bytes \<Rightarrow> (Spanned \<times> DigestCode) list \<Rightarrow> CodecError + bytes" where
  "fill_spans scratch [] = Inr scratch"
| "fill_spans scratch ((v, _) # slots) = res_bind (fill_span scratch (sp_span v)) (\<lambda>scratch. fill_spans scratch slots)"

definition said_qb64 :: "crypto \<Rightarrow> Said \<Rightarrow> bytes option" where
  "said_qb64 cr said = to_qb64b (b64_encode cr) DigestCode_to_matter_code said"

definition said_digest :: "crypto \<Rightarrow> DigestCode \<Rightarrow> bytes \<Rightarrow> CodecError + Said" where
  "said_digest cr code data = map_err (\<lambda>e. CodecSaid (SaidDigest e)) (diger_digest cr code data)"

fun check_saids :: "crypto \<Rightarrow> bytes \<Rightarrow> (Spanned \<times> DigestCode) list \<Rightarrow> (CodecError + unit) option" where
  "check_saids cr scratch [] = Some (Inr ())"
| "check_saids cr scratch ((v, code) # slots) =
     pan_bind (Some (said_digest cr code scratch)) (\<lambda>computed.
     pan_bind (map_option Inr (said_qb64 cr computed)) (\<lambda>computed_qb64.
     if sp_value v \<noteq> computed_qb64 then Some (Inl (CodecSaid (SaidMismatch (sp_value v) computed_qb64)))
     else check_saids cr scratch slots))"

definition verify_said_spans :: "crypto \<Rightarrow> bytes \<Rightarrow> (Spanned \<times> DigestCode) list \<Rightarrow> (CodecError + unit) option" where
  "verify_said_spans cr raw slots =
     pan_bind (Some (fill_spans raw slots)) (\<lambda>scratch. check_saids cr scratch slots)"

definition infer_code :: "bytes \<Rightarrow> CodecError + DigestCode" where
  "infer_code said = map_err CodecDeserialize (infer_digest_code said)"

definition ParsedIcp_verify_said :: "crypto \<Rightarrow> ParsedIcp \<Rightarrow> bytes \<Rightarrow> (CodecError + unit) option" where
  "ParsedIcp_verify_said cr p raw =
     pan_bind (Some (infer_code (sp_value (pi_said p)))) (\<lambda>d_code.
     case probe_digest_code (sp_value (pi_prefix p)) of
       None \<Rightarrow> verify_said_spans cr raw [(pi_said p, d_code)]
     | Some i_code \<Rightarrow> verify_said_spans cr raw [(pi_said p, d_code), (pi_prefix p, i_code)])"

definition verify_one_said :: "crypto \<Rightarrow> Spanned \<Rightarrow> bytes \<Rightarrow> (CodecError + unit) option" where
  "verify_one_said cr said raw =
     pan_bind (Some (infer_code (sp_value said))) (\<lambda>code. verify_said_spans cr raw [(said, code)])"

definition ParsedRot_verify_said :: "crypto \<Rightarrow> ParsedRot \<Rightarrow> bytes \<Rightarrow> (CodecError + unit) option" where
  "ParsedRot_verify_said cr p raw = verify_one_said cr (pr_said p) raw"

definition ParsedIxn_verify_said :: "crypto \<Rightarrow> ParsedIxn \<Rightarrow> bytes \<Rightarrow> (CodecError + unit) option" where
  "ParsedIxn_verify_said cr p raw = verify_one_said cr (px_said p) raw"

primrec ParsedEvent_verify_said :: "crypto \<Rightarrow> ParsedEvent \<Rightarrow> bytes \<Rightarrow> (CodecError + unit) option" where
  "ParsedEvent_verify_said cr (ParsedInception p) raw = ParsedIcp_verify_said cr p raw"
| "ParsedEvent_verify_said cr (ParsedDelegatedInception p) raw = ParsedIcp_verify_said cr (pd_icp p) raw"
| "ParsedEvent_verify_said cr (ParsedRotation p) raw = ParsedRot_verify_said cr p raw"
| "ParsedEvent_verify_said cr (ParsedDelegatedRotation p) raw = ParsedRot_verify_said cr p raw"
| "ParsedEvent_verify_said cr (ParsedInteraction p) raw = ParsedIxn_verify_said cr p raw"

definition patch_slot :: "bytes \<Rightarrow> nat \<times> nat \<Rightarrow> bytes \<Rightarrow> CodecError + bytes" where
  "patch_slot buf slot replacement =
     (case slice_range buf (fst slot) (snd slot) of
        None \<Rightarrow> Inl (layout ''slot out of bounds'')
      | Some dst \<Rightarrow>
          (if length dst \<noteq> length replacement then Inl (layout ''slot width does not match replacement'')
           else Inr (overwrite (fst slot) replacement buf)))"

section \<open>Slots\<close>

lemma slice_slot: "slice_range (a @ b @ c) (length a) (length a + length b) = Some b"
  by (simp add: slice_range_def)

lemma overwrite_slot: "length b' = length b \<Longrightarrow> overwrite (length a) b' (a @ b @ c) = a @ b' @ c"
  by (simp add: overwrite_def)

lemma patch_slot_at:
  "length b' = length b \<Longrightarrow> patch_slot (a @ b @ c) (length a, length a + length b) b' = Inr (a @ b' @ c)"
  by (simp add: patch_slot_def slice_slot overwrite_slot)

lemma fill_span_at: "fill_span (a @ b @ c) (length a, length a + length b) = Inr (a @ replicate (length b) DUMMY_CHAR @ c)"
  by (simp add: fill_span_def slice_slot overwrite_slot)

section \<open>The text of a digest\<close>

definition digest_of :: "crypto \<Rightarrow> DigestCode \<Rightarrow> bytes \<Rightarrow> Said" where
  "digest_of cr code data = Matter_new code (raw_digest cr code data) []"

text \<open>The environment the codec relies on: a base64 engine and hashes of the documented lengths.\<close>

definition codec_env :: "crypto \<Rightarrow> (bytes \<Rightarrow> bytes option) \<Rightarrow> bool" where
  "codec_env cr dec \<longleftrightarrow> b64_engine (b64_encode cr) dec \<and> hash_lengths_ok cr"

lemma said_digest_of: "codec_env cr dec \<Longrightarrow> said_digest cr code data = Inr (digest_of cr code data)"
  by (simp add: codec_env_def said_digest_def diger_digest_ok digest_of_def)

lemma digest_of_ok: "codec_env cr dec \<Longrightarrow> digest_ok (digest_of cr code data)"
  using digest_code_raw_size[of code]
  by (auto simp: codec_env_def hash_lengths_ok_def wire_ok_def matter_ok_def digest_of_def widen_def Matter_new_def
      is_b64_url_safe_charset_def Let_def)

lemma said_qb64_text:
  assumes "codec_env cr dec" "digest_ok s"
  shows "said_qb64 cr s = Some (digest_text s)"
  using append_qb64_frame[of "b64_encode cr" dec "widen DigestCode_to_matter_code s" "[]"] assms
  by (simp add: said_qb64_def to_qb64b_def append_qb64_widen[of _ DigestCode_to_matter_code] codec_env_def wire_ok_def
      matter_text_def widen_def Matter_new_def)

lemma infer_text: "infer_code (digest_text s) = Inr (m_code s)"
proof -
  have "from_base64_stream (digest_text s) = Inr (DigestCode_to_matter_code (m_code s))"
    by (simp add: from_base64_stream_iff matter_text_def frame_bytes_def)
  then show ?thesis by (simp add: infer_code_def infer_digest_code_def digest_code.try_from_to)
qed

lemma probe_digest_text: "probe_digest_code (digest_text s) = Some (m_code s)"
proof -
  have "from_base64_stream (digest_text s) = Inr (DigestCode_to_matter_code (m_code s))"
    by (simp add: from_base64_stream_iff matter_text_def frame_bytes_def)
  then show ?thesis by (simp add: probe_digest_code_def digest_codes_are_digests digest_code.try_from_to)
qed

lemma probe_key_text: "probe_digest_code (key_text k) = None"
proof -
  have "from_base64_stream (key_text k) = Inr (VerKeyCode_to_matter_code (m_code k))"
    by (simp add: from_base64_stream_iff matter_text_def frame_bytes_def)
  moreover have "\<not> is_digest (VerKeyCode_to_matter_code c)" for c by (cases c) (simp_all add: is_digest_def)
  ultimately show ?thesis by (simp add: probe_digest_code_def)
qed

text \<open>The placeholder of a code is as wide as any text of the code.\<close>

lemma placeholder_text:
  assumes "digest_ok s"
  shows "placeholder DigestCode_to_matter_code (m_code s) = Inr (replicate (length (digest_text s)) DUMMY_CHAR)"
proof -
  let ?m = "widen DigestCode_to_matter_code s" and ?c = "DigestCode_to_matter_code (m_code s)"
  have ok: "matter_ok ?m" using assms by (simp add: wire_ok_def)
  have al: "(sz_ls (get_sizage ?c) + code_ps ?c + length (m_raw s)) mod 3 = 0"
    using matter_ok_sizes(1)[OF ok] by (simp add: widen_def Matter_new_def)
  obtain v where v: "sz_fs (get_sizage ?c) = SizeType.Fixed v" using digest_code_raw_size[of "m_code s"] by blast
  have "full_size ?c (length (m_raw s)) = v" by (simp add: full_size_def v Let_def)
  then have "v = (sz_hs (get_sizage ?c) + sz_ss (get_sizage ?c) - code_ps ?c) +
      (sz_ls (get_sizage ?c) + code_ps ?c + length (m_raw s)) div 3 * 4"
    using matter_ok_sizes(2)[OF ok] by (simp add: widen_def Matter_new_def)
  moreover have "length (m_soft s) = 0" "sz_ss (get_sizage ?c) = 0" "sz_xs (get_sizage ?c) = 0"
    using ok digest_code_raw_size[of "m_code s"] sizage_bounds(1)[of ?c]
    by (simp_all add: matter_ok_def widen_def Matter_new_def Let_def)
  moreover have "32 \<le> length (m_raw s)"
    using ok v digest_code_raw_size[of "m_code s"]
    by (simp add: matter_ok_def widen_def Matter_new_def Let_def digest_size_def split: if_splits)
  then have "10 \<le> (sz_ls (get_sizage ?c) + code_ps ?c + length (m_raw s)) div 3" by linarith
  then have "code_ps ?c \<le> (sz_ls (get_sizage ?c) + code_ps ?c + length (m_raw s)) div 3 * 4"
    using code_ps_le[of ?c] by linarith
  moreover have "code_ps ?c \<le> sz_hs (get_sizage ?c)"
    by (simp add: code_ps_def calculation(3))
  ultimately have "length (digest_text s) = v"
    using raw_chars_props(2)[OF al] by (simp add: matter_text_def frame_bytes_def length_to_string)
  then show ?thesis by (simp add: placeholder_def v)
qed

end
