(* ===== verification/Codec_Serialize.thy ===== *)
theory Codec_Serialize
  imports Codec_Said
begin

text \<open>
  Writing an event: the renderers of \<^verbatim>\<open>codec/event.rs\<close> and \<^verbatim>\<open>codec/receipt.rs\<close>, and
  \<^verbatim>\<open>serialize\<close> of \<^verbatim>\<open>serialize.rs\<close>, which renders with placeholders, patches the size into the
  version string, digests the result and patches the digests in. What it returns is the
  text of the grammar with the digest of the dummied text in every digestive field. A
  borrowed \<^verbatim>\<open>EventRef\<close> is the event it refers to.
\<close>

section \<open>Rendering\<close>

record EventLayout =
  el_size :: "nat \<times> nat"
  el_said :: "nat \<times> nat"
  el_prefix :: "(nat \<times> nat) option"

definition write_head ::
    "bytes \<Rightarrow> MessageType \<Rightarrow> bytes \<Rightarrow> SerializationKind \<Rightarrow> CodecError + (bytes \<times> (nat \<times> nat) \<times> (nat \<times> nat))" where
  "write_head buf message_type place kind =
     res_bind (map_err (\<lambda>e. grammar (GrammarVersion e)) (VersionString_new ProtoKeri 1 0 kind 0)) (\<lambda>vs.
     let buf = buf @ wire ''{`v`:`''; vs_start = length buf; buf = buf @ VersionString_to_str vs in
     res_bind (if vs_start + 10 < usize_bound then Inr (vs_start + 10) else Inl (layout ''size slot offset overflow'')) (\<lambda>size_start.
     res_bind (if size_start + 6 < usize_bound then Inr (size_start + 6) else Inl (layout ''size slot offset overflow'')) (\<lambda>size_end.
     let buf = buf @ wire ''`,`t`:'' @ str_json (MessageType_code message_type) @ wire '',`d`:`'';
         d_start = length buf; buf = buf @ place; d_end = length buf in
     Inr (buf @ wire ''`'', (size_start, size_end), (d_start, d_end)))))"

text \<open>The fields from \<^verbatim>\<open>kt\<close> to \<^verbatim>\<open>bt\<close>, written alike by both renderers.\<close>

definition key_fields_encode ::
    "(bytes \<Rightarrow> bytes) \<Rightarrow> ThresholdForm \<Rightarrow> SigningThreshold \<Rightarrow> VerifyingKey list \<Rightarrow> SigningThreshold \<Rightarrow> Digest list \<Rightarrow> Toad \<Rightarrow> writer" where
  "key_fields_encode enc form t ks nt nks bt =
     write_all [lit '',`kt`:'', threshold_encode form t, lit '',`k`:'', write_array (key_encode enc) ks,
       lit '',`nt`:'', threshold_encode form nt, lit '',`n`:'', write_array (digest_encode enc) nks,
       lit '',`bt`:'', count_encode form bt]"

definition icp_tail_encode :: "(bytes \<Rightarrow> bytes) \<Rightarrow> InceptionEvent \<Rightarrow> Identifier option \<Rightarrow> writer" where
  "icp_tail_encode enc e delegator =
     write_all ([lit '',`s`:'', write_str (numh (icp_sn e)),
       key_fields_encode enc (icp_threshold_form e) (icp_threshold e) (icp_keys e) (icp_next_threshold e)
         (icp_next_keys e) (icp_witness_threshold e),
       lit '',`b`:'', write_array (key_encode enc) (icp_witnesses e), lit '',`c`:'', config_encode (icp_config e),
       lit '',`a`:'', write_array (seal_encode enc) (icp_anchors e)] @
       (case delegator of None \<Rightarrow> [] | Some di \<Rightarrow> [lit '',`di`:'', identifier_encode enc di]) @ [lit ''}''])"

definition render_icp ::
    "(bytes \<Rightarrow> bytes) \<Rightarrow> bytes \<Rightarrow> InceptionEvent \<Rightarrow> bytes \<Rightarrow> bytes option \<Rightarrow> MessageType \<Rightarrow> Identifier option \<Rightarrow>
       (CodecError + (bytes \<times> EventLayout)) option" where
  "render_icp enc buf e place prefix_place message_type delegator =
     pan_bind (Some (write_head buf message_type place SerializationKind.Json)) (\<lambda>(buf, size_slot, said_slot).
     pan_bind
       (case icp_prefix e of
          SelfAddressing _ \<Rightarrow>
            (case prefix_place of
               None \<Rightarrow> Some (Inl (layout ''self-addressing prefix without placeholder''))
             | Some prefix_ph \<Rightarrow>
                 (let buf = buf @ wire '',`i`:`''; i_start = length buf; buf = buf @ prefix_ph; slot = (i_start, length buf)
                  in Some (Inr (buf @ wire ''`'', Some slot))))
        | Basic p \<Rightarrow> map_option (\<lambda>buf. Inr (buf, None)) (write_all [lit '',`i`:'', key_encode enc p] buf)) (\<lambda>(buf, prefix_slot).
     pan_bind (map_option Inr (icp_tail_encode enc e delegator buf)) (\<lambda>buf.
     Some (Inr (buf, \<lparr>el_size = size_slot, el_said = said_slot, el_prefix = prefix_slot\<rparr>)))))"

definition chain_encode :: "(bytes \<Rightarrow> bytes) \<Rightarrow> Identifier \<Rightarrow> Number \<Rightarrow> Said \<Rightarrow> writer" where
  "chain_encode enc i sn prior =
     write_all [lit '',`i`:'', identifier_encode enc i, lit '',`s`:'', write_str (numh sn), lit '',`p`:'', digest_encode enc prior]"

definition rot_tail_encode :: "(bytes \<Rightarrow> bytes) \<Rightarrow> RotationEvent \<Rightarrow> writer" where
  "rot_tail_encode enc e =
     write_all [chain_encode enc (rot_prefix e) (rot_sn e) (rot_prior e),
       key_fields_encode enc (rot_threshold_form e) (rot_threshold e) (rot_keys e) (rot_next_threshold e)
         (rot_next_keys e) (rot_witness_threshold e),
       lit '',`br`:'', write_array (key_encode enc) (rot_witness_removals e),
       lit '',`ba`:'', write_array (key_encode enc) (rot_witness_additions e),
       lit '',`a`:'', write_array (seal_encode enc) (rot_anchors e), lit ''}'']"

definition ixn_tail_encode :: "(bytes \<Rightarrow> bytes) \<Rightarrow> InteractionEvent \<Rightarrow> writer" where
  "ixn_tail_encode enc e =
     write_all [chain_encode enc (ixn_prefix e) (ixn_sn e) (ixn_prior e),
       lit '',`a`:'', write_array (seal_encode enc) (ixn_anchors e), lit ''}'']"

text \<open>A head and a tail, for the events whose only digestive field is \<^verbatim>\<open>d\<close>.\<close>

definition render_plain :: "bytes \<Rightarrow> bytes \<Rightarrow> MessageType \<Rightarrow> writer \<Rightarrow> (CodecError + (bytes \<times> EventLayout)) option" where
  "render_plain buf place message_type tail =
     pan_bind (Some (write_head buf message_type place SerializationKind.Json)) (\<lambda>(buf, size_slot, said_slot).
     pan_bind (map_option Inr (tail buf)) (\<lambda>buf.
     Some (Inr (buf, \<lparr>el_size = size_slot, el_said = said_slot, el_prefix = None\<rparr>))))"

definition render_rot ::
    "(bytes \<Rightarrow> bytes) \<Rightarrow> bytes \<Rightarrow> RotationEvent \<Rightarrow> bytes \<Rightarrow> MessageType \<Rightarrow> (CodecError + (bytes \<times> EventLayout)) option" where
  "render_rot enc buf e place message_type = render_plain buf place message_type (rot_tail_encode enc e)"

definition render_ixn ::
    "(bytes \<Rightarrow> bytes) \<Rightarrow> bytes \<Rightarrow> InteractionEvent \<Rightarrow> bytes \<Rightarrow> (CodecError + (bytes \<times> EventLayout)) option" where
  "render_ixn enc buf e place = render_plain buf place Ixn (ixn_tail_encode enc e)"

definition event_render ::
    "(bytes \<Rightarrow> bytes) \<Rightarrow> KeriEvent \<Rightarrow> bytes \<Rightarrow> bytes option \<Rightarrow> bytes \<Rightarrow> (CodecError + (bytes \<times> EventLayout)) option" where
  "event_render enc ev place prefix_place buf =
     (case ev of
        Inception e \<Rightarrow> render_icp enc buf e place prefix_place Icp None
      | Rotation e \<Rightarrow> render_rot enc buf e place Rot
      | Interaction e \<Rightarrow> render_ixn enc buf e place
      | DelegatedInception e \<Rightarrow>
          render_icp enc buf (dip_inception e) place prefix_place Dip (Some (dip_delegator e))
      | DelegatedRotation e \<Rightarrow> render_rot enc buf (drt_rotation e) place Drt)"

definition render_body ::
    "(bytes \<Rightarrow> bytes) \<Rightarrow> SerializationKind \<Rightarrow> KeriEvent \<Rightarrow> bytes \<Rightarrow> bytes option \<Rightarrow> bytes \<Rightarrow>
       (CodecError + (bytes \<times> EventLayout)) option" where
  "render_body enc kind ev place prefix_place buf =
     (case kind of
        SerializationKind.Json \<Rightarrow> event_render enc ev place prefix_place buf
      | _ \<Rightarrow> Some (Inl (grammar (UnsupportedSerializationKind kind))))"

section \<open>Serialization\<close>

record SerializedEvent =
  se_raw :: bytes
  se_said :: Said
  se_prefix :: "Said option"
  se_message_type :: MessageType
  se_size :: nat

definition said_code :: "KeriEvent \<Rightarrow> DigestCode" where
  "said_code ev = m_code (ev_said ev)"

definition prefix_said_code :: "KeriEvent \<Rightarrow> DigestCode option" where
  "prefix_said_code ev =
     (case ev of
        Inception e \<Rightarrow> map_option m_code (as_saider (icp_prefix e))
      | DelegatedInception e \<Rightarrow> map_option m_code (as_saider (icp_prefix (dip_inception e)))
      | _ \<Rightarrow> None)"

definition is_double_said :: "KeriEvent \<Rightarrow> bool" where
  "is_double_said ev \<longleftrightarrow> prefix_said_code ev \<noteq> None"

definition code_placeholder :: "DigestCode \<Rightarrow> CodecError + bytes" where
  "code_placeholder c = map_err (\<lambda>e. CodecInternal (PlaceholderPrimitive e)) (placeholder DigestCode_to_matter_code c)"

definition option_result :: "('a \<Rightarrow> 'e + 'b) \<Rightarrow> 'a option \<Rightarrow> 'e + 'b option" where
  "option_result f x = (case x of None \<Rightarrow> Inr None | Some a \<Rightarrow> res_bind (f a) (\<lambda>b. Inr (Some b)))"

text \<open>The size of the body, in six hexadecimal digits.\<close>

definition size_field :: "nat \<Rightarrow> CodecError + bytes" where
  "size_field n =
     (if n < 2 ^ 32 \<and> n \<le> unat VERSION_SIZE_MAX then Inr (hex_pad 6 n)
      else Inl (grammar (GrammarVersion (FieldOverflow ''size'' VERSION_SIZE_MAX))))"

definition patch_prefix :: "crypto \<Rightarrow> bytes \<Rightarrow> (nat \<times> nat) option \<Rightarrow> Said option \<Rightarrow> (CodecError + bytes) option" where
  "patch_prefix cr buf slot prefix =
     (case (slot, prefix) of
        (Some slot, Some prefix_said) \<Rightarrow>
          pan_bind (map_option Inr (said_qb64 cr prefix_said)) (\<lambda>qb64. Some (patch_slot buf slot qb64))
      | (None, None) \<Rightarrow> Some (Inr buf)
      | _ \<Rightarrow> Some (Inl (layout ''prefix slot and prefix said code must be Some/None together'')))"

definition event_serialize :: "crypto \<Rightarrow> KeriEvent \<Rightarrow> (CodecError + SerializedEvent) option" where
  "event_serialize cr ev =
     (let digest_code = said_code ev; prefix_code = prefix_said_code ev in
      pan_bind (Some (code_placeholder digest_code)) (\<lambda>place.
      pan_bind (Some (option_result code_placeholder prefix_code)) (\<lambda>prefix_place.
      pan_bind (render_body (b64_encode cr) SerializationKind.Json ev place prefix_place []) (\<lambda>(buf, lay).
      let sz = length buf in
      pan_bind (Some (size_field sz)) (\<lambda>hex.
      pan_bind (Some (patch_slot buf (el_size lay) hex)) (\<lambda>buf.
      if (el_prefix lay \<noteq> None) \<noteq> (prefix_code \<noteq> None)
      then Some (Inl (layout ''prefix slot and prefix said code must be Some/None together'')) else
      pan_bind (Some (said_digest cr digest_code buf)) (\<lambda>said.
      pan_bind (Some (option_result (\<lambda>code. said_digest cr code buf) prefix_code)) (\<lambda>prefix.
      pan_bind (map_option Inr (said_qb64 cr said)) (\<lambda>qb64.
      pan_bind (Some (patch_slot buf (el_said lay) qb64)) (\<lambda>buf.
      pan_bind (patch_prefix cr buf (el_prefix lay) prefix) (\<lambda>buf.
      Some (Inr \<lparr>se_raw = buf, se_said = said, se_prefix = prefix, se_message_type = ev_message_type ev, se_size = sz\<rparr>))))))))))))"

section \<open>Receipts\<close>

record SerializedReceipt =
  sr_raw :: bytes
  sr_size :: nat

definition rct_tail_encode :: "(bytes \<Rightarrow> bytes) \<Rightarrow> Receipt \<Rightarrow> writer" where
  "rct_tail_encode enc r =
     write_all [lit '',`i`:'', identifier_encode enc (rct_prefix r), lit '',`s`:'', write_str (numh (rct_sn r)), lit ''}'']"

text \<open>The size is patched by hand, with errors of its own.\<close>

definition patch_receipt_size :: "bytes \<Rightarrow> nat \<times> nat \<Rightarrow> bytes \<Rightarrow> CodecError + bytes" where
  "patch_receipt_size buf slot hex =
     (case slice_range buf (fst slot) (snd slot) of
        None \<Rightarrow> Inl (layout ''size slot out of bounds'')
      | Some dst \<Rightarrow>
          (if length dst \<noteq> length hex then Inl (layout ''size slot width does not match'')
           else Inr (overwrite (fst slot) hex buf)))"

lemma patch_receipt_size_Inr: "patch_receipt_size buf slot hex = Inr x \<longleftrightarrow> patch_slot buf slot hex = Inr x"
  by (simp add: patch_receipt_size_def patch_slot_def split: option.splits)

definition SerializedReceipt_build :: "crypto \<Rightarrow> Receipt \<Rightarrow> (CodecError + SerializedReceipt) option" where
  "SerializedReceipt_build cr r =
     pan_bind (map_option Inr (said_qb64 cr (rct_said r))) (\<lambda>qb64.
     pan_bind (Some (write_head [] Rct qb64 SerializationKind.Json)) (\<lambda>(buf, size_slot, _).
     pan_bind (map_option Inr (rct_tail_encode (b64_encode cr) r buf)) (\<lambda>buf.
     let sz = length buf in
     pan_bind (Some (size_field sz)) (\<lambda>hex.
     pan_bind (Some (patch_receipt_size buf size_slot hex)) (\<lambda>buf.
     Some (Inr \<lparr>sr_raw = buf, sr_size = sz\<rparr>))))))"

end
