(* ===== verification/Codec_Deserialize.thy ===== *)
theory Codec_Deserialize
  imports Codec_Serialize
begin

text \<open>
  Reading an event: \<^verbatim>\<open>deserialize.rs\<close>. A body is checked for its serialization, parsed by the
  canonical grammar, its self-addressing fields are verified over the raw bytes, and the
  event is built field by field, under the laws an event has to keep. A value that borrows
  from the input and the one detached from it are the same value.
\<close>

section \<open>Checks across fields\<close>

definition validate_threshold :: "SigningThreshold \<Rightarrow> nat \<Rightarrow> string \<Rightarrow> BuilderError + unit" where
  "validate_threshold threshold key_count field =
     map_err (SigningThresholdRefused field) (check_well_formed threshold key_count)"

definition check_thresholds_well_formed ::
    "SigningThreshold \<Rightarrow> nat \<Rightarrow> SigningThreshold \<Rightarrow> nat \<Rightarrow> CodecError + unit" where
  "check_thresholds_well_formed threshold key_count next_threshold next_key_count =
     res_bind (map_err CodecBuilder (validate_threshold threshold key_count ''signing'')) (\<lambda>_.
     if next_key_count \<noteq> 0 then map_err CodecBuilder (validate_threshold next_threshold next_key_count ''next signing'')
     else Inr ())"

definition threshold_form_of :: "ParsedCount \<Rightarrow> ThresholdForm" where
  "threshold_form_of bt = (case bt of CountHex _ \<Rightarrow> HexString | CountNumber _ \<Rightarrow> Integer)"

definition check_form_consistency :: "string \<Rightarrow> ParsedTholder \<Rightarrow> ThresholdForm \<Rightarrow> BuilderError + unit" where
  "check_form_consistency field t form =
     (let consistent =
        (case t of
           TholderWeighted _ \<Rightarrow> True
         | TholderHex _ \<Rightarrow> form = HexString
         | TholderNumber s \<Rightarrow> form = Integer \<and> (from_str_radix 10 s :: u32 option) \<noteq> None)
      in if consistent then Inr () else Inl (MixedThresholdForms field))"

section \<open>Building the event\<close>

abbreviation lifted :: "(DeserializeError + 'a) \<Rightarrow> CodecError + 'a" where
  "lifted \<equiv> map_err CodecDeserialize"

definition build_receipt :: "(bytes \<Rightarrow> bytes option) \<Rightarrow> ParsedRct \<Rightarrow> CodecError + Receipt" where
  "build_receipt dec p =
     res_bind (lifted (identifier_from_wire dec ''i'' (pc_prefix p))) (\<lambda>prefix.
     res_bind (lifted (number_from_wire ''s'' (pc_sn p))) (\<lambda>sn.
     res_bind (lifted (digest_from_wire dec ''d'' (pc_said p))) (\<lambda>said.
     Inr \<lparr>rct_prefix = prefix, rct_sn = sn, rct_said = said\<rparr>)))"

definition build_inception :: "(bytes \<Rightarrow> bytes option) \<Rightarrow> ParsedIcp \<Rightarrow> CodecError + InceptionEvent" where
  "build_inception dec p =
     (let form = threshold_form_of (pi_witness_threshold p) in
      res_bind (map_err CodecBuilder (check_form_consistency ''kt'' (pi_threshold p) form)) (\<lambda>_.
      res_bind (map_err CodecBuilder (check_form_consistency ''nt'' (pi_next_threshold p) form)) (\<lambda>_.
      res_bind (lifted (each_from_wire (key_from_wire dec) ''b'' (pi_witnesses p))) (\<lambda>witnesses.
      res_bind (map_err (\<lambda>e. CodecDeserialize (MemberSetRefused e)) (check_witnesses witnesses ''witnesses'')) (\<lambda>_.
      res_bind (lifted (count_from_wire ''bt'' (pi_witness_threshold p))) (\<lambda>bt.
      res_bind (map_err (\<lambda>e. CodecBuilder (ToadRefused e)) (toad_exact bt (length witnesses))) (\<lambda>witness_threshold.
      res_bind (lifted (each_from_wire (key_from_wire dec) ''k'' (pi_keys p))) (\<lambda>ks.
      res_bind (lifted (threshold_from_wire ''kt'' (pi_threshold p))) (\<lambda>threshold.
      res_bind (lifted (each_from_wire (digest_from_wire dec) ''n'' (pi_next_keys p))) (\<lambda>next_keys.
      res_bind (lifted (threshold_from_wire ''nt'' (pi_next_threshold p))) (\<lambda>next_threshold.
      res_bind (check_thresholds_well_formed threshold (length ks) next_threshold (length next_keys)) (\<lambda>_.
      res_bind (lifted (identifier_from_wire dec ''i'' (sp_value (pi_prefix p)))) (\<lambda>prefix.
      res_bind (lifted (number_from_wire ''s'' (pi_sn p))) (\<lambda>sn.
      res_bind (lifted (digest_from_wire dec ''d'' (sp_value (pi_said p)))) (\<lambda>said.
      res_bind (lifted (each_from_wire config_from_wire ''c'' (pi_config p))) (\<lambda>config.
      res_bind (lifted (each_from_wire (seal_from_wire dec) ''a'' (pi_anchors p))) (\<lambda>anchors.
      let inception =
        \<lparr>icp_prefix = prefix, icp_sn = sn, icp_said = said, icp_keys = ks, icp_threshold = threshold,
         icp_next_keys = next_keys, icp_next_threshold = next_threshold, icp_witnesses = witnesses,
         icp_witness_threshold = witness_threshold, icp_config = config, icp_anchors = anchors,
         icp_threshold_form = form\<rparr>
      in res_bind (map_err (\<lambda>e. CodecDeserialize (InceptionIdentityRefused e)) (check_identity inception)) (\<lambda>_.
      Inr inception))))))))))))))))))"

definition self_addressing :: "Identifier \<Rightarrow> bool" where
  "self_addressing i = (case i of SelfAddressing _ \<Rightarrow> True | Basic _ \<Rightarrow> False)"

definition build_delegated_inception :: "(bytes \<Rightarrow> bytes option) \<Rightarrow> ParsedDip \<Rightarrow> CodecError + DelegatedInceptionEvent" where
  "build_delegated_inception dec p =
     res_bind (build_inception dec (pd_icp p)) (\<lambda>inception.
     if \<not> self_addressing (icp_prefix inception) then Inl (CodecDeserialize DelegatedPrefixNotDigestive) else
     res_bind (lifted (identifier_from_wire dec ''di'' (pd_delegator p))) (\<lambda>delegator.
     Inr \<lparr>dip_inception = inception, dip_delegator = delegator\<rparr>))"

definition build_rotation :: "(bytes \<Rightarrow> bytes option) \<Rightarrow> ParsedRot \<Rightarrow> CodecError + RotationEvent" where
  "build_rotation dec p =
     (let form = threshold_form_of (pr_witness_threshold p) in
      res_bind (map_err CodecBuilder (check_form_consistency ''kt'' (pr_threshold p) form)) (\<lambda>_.
      res_bind (map_err CodecBuilder (check_form_consistency ''nt'' (pr_next_threshold p) form)) (\<lambda>_.
      res_bind (lifted (each_from_wire (key_from_wire dec) ''k'' (pr_keys p))) (\<lambda>ks.
      res_bind (lifted (threshold_from_wire ''kt'' (pr_threshold p))) (\<lambda>threshold.
      res_bind (lifted (each_from_wire (digest_from_wire dec) ''n'' (pr_next_keys p))) (\<lambda>next_keys.
      res_bind (lifted (threshold_from_wire ''nt'' (pr_next_threshold p))) (\<lambda>next_threshold.
      res_bind (check_thresholds_well_formed threshold (length ks) next_threshold (length next_keys)) (\<lambda>_.
      res_bind (lifted (each_from_wire (key_from_wire dec) ''ba'' (pr_witness_additions p))) (\<lambda>additions.
      res_bind (lifted (each_from_wire (key_from_wire dec) ''br'' (pr_witness_removals p))) (\<lambda>removals.
      res_bind (map_err (\<lambda>e. CodecDeserialize (MemberSetRefused e))
        (check_witness_deltas removals additions ''witness removals'' ''witness additions'')) (\<lambda>_.
      res_bind (lifted (identifier_from_wire dec ''i'' (pr_prefix p))) (\<lambda>prefix.
      res_bind (lifted (number_from_wire ''s'' (pr_sn p))) (\<lambda>sn.
      res_bind (lifted (digest_from_wire dec ''d'' (sp_value (pr_said p)))) (\<lambda>said.
      res_bind (lifted (digest_from_wire dec ''p'' (pr_prior p))) (\<lambda>prior.
      res_bind (lifted (count_from_wire ''bt'' (pr_witness_threshold p))) (\<lambda>bt.
      res_bind (lifted (each_from_wire (seal_from_wire dec) ''a'' (pr_anchors p))) (\<lambda>anchors.
      Inr
        \<lparr>rot_prefix = prefix, rot_sn = sn, rot_said = said, rot_prior = prior, rot_keys = ks, rot_threshold = threshold,
         rot_next_keys = next_keys, rot_next_threshold = next_threshold, rot_witness_additions = additions,
         rot_witness_removals = removals, rot_witness_threshold = toad_from_wire bt, rot_anchors = anchors,
         rot_threshold_form = form\<rparr>)))))))))))))))))"

definition build_delegated_rotation :: "(bytes \<Rightarrow> bytes option) \<Rightarrow> ParsedRot \<Rightarrow> CodecError + DelegatedRotationEvent" where
  "build_delegated_rotation dec p =
     res_bind (build_rotation dec p) (\<lambda>rotation.
     if \<not> self_addressing (rot_prefix rotation) then Inl (CodecDeserialize DelegatedPrefixNotDigestive)
     else Inr \<lparr>drt_rotation = rotation\<rparr>)"

definition build_interaction :: "(bytes \<Rightarrow> bytes option) \<Rightarrow> ParsedIxn \<Rightarrow> CodecError + InteractionEvent" where
  "build_interaction dec p =
     res_bind (lifted (identifier_from_wire dec ''i'' (px_prefix p))) (\<lambda>prefix.
     res_bind (lifted (number_from_wire ''s'' (px_sn p))) (\<lambda>sn.
     res_bind (lifted (digest_from_wire dec ''d'' (sp_value (px_said p)))) (\<lambda>said.
     res_bind (lifted (digest_from_wire dec ''p'' (px_prior p))) (\<lambda>prior.
     res_bind (lifted (each_from_wire (seal_from_wire dec) ''a'' (px_anchors p))) (\<lambda>anchors.
     Inr \<lparr>ixn_prefix = prefix, ixn_sn = sn, ixn_said = said, ixn_prior = prior, ixn_anchors = anchors\<rparr>)))))"

primrec build_event :: "(bytes \<Rightarrow> bytes option) \<Rightarrow> ParsedEvent \<Rightarrow> CodecError + KeriEvent" where
  "build_event dec (ParsedInception p) = res_bind (build_inception dec p) (\<lambda>e. Inr (Inception e))"
| "build_event dec (ParsedRotation p) = res_bind (build_rotation dec p) (\<lambda>e. Inr (Rotation e))"
| "build_event dec (ParsedInteraction p) = res_bind (build_interaction dec p) (\<lambda>e. Inr (Interaction e))"
| "build_event dec (ParsedDelegatedInception p) = res_bind (build_delegated_inception dec p) (\<lambda>e. Inr (DelegatedInception e))"
| "build_event dec (ParsedDelegatedRotation p) = res_bind (build_delegated_rotation dec p) (\<lambda>e. Inr (DelegatedRotation e))"

section \<open>Deserialization\<close>

definition deserialize_event ::
    "crypto \<Rightarrow> (bytes \<Rightarrow> bytes option) \<Rightarrow> bytes \<Rightarrow> JsonLimits \<Rightarrow> (CodecError + KeriEvent) option" where
  "deserialize_event cr dec raw limits =
     pan_bind (Some (ParsedEvent_parse raw limits)) (\<lambda>parsed.
     pan_bind (ParsedEvent_verify_said cr parsed raw) (\<lambda>_. Some (build_event dec parsed)))"

definition deserialize_inception ::
    "crypto \<Rightarrow> (bytes \<Rightarrow> bytes option) \<Rightarrow> bytes \<Rightarrow> JsonLimits \<Rightarrow> (CodecError + InceptionEvent) option" where
  "deserialize_inception cr dec raw limits =
     pan_bind (Some (ParsedIcp_parse raw limits)) (\<lambda>parsed.
     pan_bind (ParsedIcp_verify_said cr parsed raw) (\<lambda>_. Some (build_inception dec parsed)))"

definition deserialize_rotation ::
    "crypto \<Rightarrow> (bytes \<Rightarrow> bytes option) \<Rightarrow> bytes \<Rightarrow> JsonLimits \<Rightarrow> (CodecError + RotationEvent) option" where
  "deserialize_rotation cr dec raw limits =
     pan_bind (Some (ParsedRot_parse raw limits)) (\<lambda>parsed.
     pan_bind (ParsedRot_verify_said cr parsed raw) (\<lambda>_. Some (build_rotation dec parsed)))"

definition deserialize_interaction ::
    "crypto \<Rightarrow> (bytes \<Rightarrow> bytes option) \<Rightarrow> bytes \<Rightarrow> JsonLimits \<Rightarrow> (CodecError + InteractionEvent) option" where
  "deserialize_interaction cr dec raw limits =
     pan_bind (Some (ParsedIxn_parse raw limits)) (\<lambda>parsed.
     pan_bind (ParsedIxn_verify_said cr parsed raw) (\<lambda>_. Some (build_interaction dec parsed)))"

definition deserialize_delegated_inception ::
    "crypto \<Rightarrow> (bytes \<Rightarrow> bytes option) \<Rightarrow> bytes \<Rightarrow> JsonLimits \<Rightarrow> (CodecError + DelegatedInceptionEvent) option" where
  "deserialize_delegated_inception cr dec raw limits =
     pan_bind (Some (ParsedDip_parse raw limits)) (\<lambda>parsed.
     pan_bind (ParsedIcp_verify_said cr (pd_icp parsed) raw) (\<lambda>_. Some (build_delegated_inception dec parsed)))"

definition deserialize_delegated_rotation ::
    "crypto \<Rightarrow> (bytes \<Rightarrow> bytes option) \<Rightarrow> bytes \<Rightarrow> JsonLimits \<Rightarrow> (CodecError + DelegatedRotationEvent) option" where
  "deserialize_delegated_rotation cr dec raw limits =
     pan_bind (Some (ParsedRot_parse_delegated raw limits)) (\<lambda>parsed.
     pan_bind (ParsedRot_verify_said cr parsed raw) (\<lambda>_. Some (build_delegated_rotation dec parsed)))"

definition deserialize_receipt :: "(bytes \<Rightarrow> bytes option) \<Rightarrow> bytes \<Rightarrow> JsonLimits \<Rightarrow> CodecError + Receipt" where
  "deserialize_receipt dec raw limits = res_bind (ParsedRct_parse raw limits) (build_receipt dec)"

text \<open>The public entries: the check of the serialization comes first.\<close>

definition checked :: "bytes \<Rightarrow> (CodecError + 'a) option \<Rightarrow> (CodecError + 'a) option" where
  "checked raw r = pan_bind (Some (map_err CodecVersion (check_json_body raw))) (\<lambda>_. r)"

definition KeriEvent_deserialize ::
    "crypto \<Rightarrow> (bytes \<Rightarrow> bytes option) \<Rightarrow> bytes \<Rightarrow> JsonLimits \<Rightarrow> (CodecError + KeriEvent) option" where
  "KeriEvent_deserialize cr dec raw limits = checked raw (deserialize_event cr dec raw limits)"

definition InceptionEvent_deserialize ::
    "crypto \<Rightarrow> (bytes \<Rightarrow> bytes option) \<Rightarrow> bytes \<Rightarrow> JsonLimits \<Rightarrow> (CodecError + InceptionEvent) option" where
  "InceptionEvent_deserialize cr dec raw limits = checked raw (deserialize_inception cr dec raw limits)"

definition RotationEvent_deserialize ::
    "crypto \<Rightarrow> (bytes \<Rightarrow> bytes option) \<Rightarrow> bytes \<Rightarrow> JsonLimits \<Rightarrow> (CodecError + RotationEvent) option" where
  "RotationEvent_deserialize cr dec raw limits = checked raw (deserialize_rotation cr dec raw limits)"

definition InteractionEvent_deserialize ::
    "crypto \<Rightarrow> (bytes \<Rightarrow> bytes option) \<Rightarrow> bytes \<Rightarrow> JsonLimits \<Rightarrow> (CodecError + InteractionEvent) option" where
  "InteractionEvent_deserialize cr dec raw limits = checked raw (deserialize_interaction cr dec raw limits)"

definition DelegatedInceptionEvent_deserialize ::
    "crypto \<Rightarrow> (bytes \<Rightarrow> bytes option) \<Rightarrow> bytes \<Rightarrow> JsonLimits \<Rightarrow> (CodecError + DelegatedInceptionEvent) option" where
  "DelegatedInceptionEvent_deserialize cr dec raw limits = checked raw (deserialize_delegated_inception cr dec raw limits)"

definition DelegatedRotationEvent_deserialize ::
    "crypto \<Rightarrow> (bytes \<Rightarrow> bytes option) \<Rightarrow> bytes \<Rightarrow> JsonLimits \<Rightarrow> (CodecError + DelegatedRotationEvent) option" where
  "DelegatedRotationEvent_deserialize cr dec raw limits = checked raw (deserialize_delegated_rotation cr dec raw limits)"

definition Receipt_deserialize :: "(bytes \<Rightarrow> bytes option) \<Rightarrow> bytes \<Rightarrow> JsonLimits \<Rightarrow> CodecError + Receipt" where
  "Receipt_deserialize dec raw limits =
     res_bind (map_err CodecVersion (check_json_body raw)) (\<lambda>_. deserialize_receipt dec raw limits)"

end
