(* ===== verification/Codec_Written.thy ===== *)
theory Codec_Written
  imports Codec_Deserialize
begin

text \<open>
  What the writers of \<^verbatim>\<open>Codec_Serialize\<close> put on the wire: the text of an event with its real
  size, and in every digestive field the digest of that text with the digestive fields
  dummied.
\<close>

section \<open>Tails\<close>

lemma writes_all_concat: "list_all2 writes ws ts \<Longrightarrow> concat ts = t \<Longrightarrow> writes (write_all ws) t"
  using writes_all by blast

lemma writes_close [simp]: "writes (lit ''}'') [0x7d]"
  using writes_lit[of "''}''"] by simp

lemma keys_writes:
  assumes "b64_engine enc dec" "list_all key_ok ks"
  shows "writes (write_array (key_encode enc) ks) (keys_text ks)"
proof -
  have "writes (write_array (key_encode enc) ks) (json_array (map (\<lambda>k. quote (key_text k)) ks))"
    by (rule writes_array) (use assms in \<open>auto simp: list_all_iff matter_writes\<close>)
  then show ?thesis by (simp add: keys_text_def comp_def)
qed

lemma digests_writes:
  assumes "b64_engine enc dec" "list_all digest_ok ks"
  shows "writes (write_array (digest_encode enc) ks) (digests_text ks)"
proof -
  have "writes (write_array (digest_encode enc) ks) (json_array (map (\<lambda>k. quote (digest_text k)) ks))"
    by (rule writes_array) (use assms in \<open>auto simp: list_all_iff matter_writes\<close>)
  then show ?thesis by (simp add: digests_text_def comp_def)
qed

lemma seals_writes:
  "b64_engine enc dec \<Longrightarrow> list_all seal_wire_ok as \<Longrightarrow> writes (write_array (seal_encode enc) as) (seals_text as)"
  unfolding seals_text_def by (rule writes_array) (auto simp: list_all_iff seal_writes)

lemma configs_writes: "writes (config_encode cs) (configs_text cs)"
proof -
  have "writes (config_encode cs) (json_array (map (\<lambda>c. quote (ConfigTrait_code c)) cs))"
    unfolding config_encode_def by (rule writes_array) (auto simp: config_plain)
  then show ?thesis by (simp add: configs_text_def comp_def)
qed

lemma key_fields_writes:
  assumes "b64_engine enc dec" "list_all key_ok ks" "list_all digest_ok nks"
  shows "writes (key_fields_encode enc form t ks nt nks bt) (key_fields_text form t ks nt nks bt)"
  unfolding key_fields_encode_def
  by (rule writes_all_concat[where ts = "[_, _, _, _, _, _, _, _, _, _]"])
    (simp_all add: writes_lit threshold_writes keys_writes[OF assms(1,2)] digests_writes[OF assms(1,3)]
      count_writes[of form bt, folded count_text_def] key_fields_text_def list_all2_Cons)

definition chain_tail_text :: "Identifier \<Rightarrow> Number \<Rightarrow> Said \<Rightarrow> bytes" where
  "chain_tail_text i sn prior =
     wire '',`i`:'' @ quote (identifier_text i) @ wire '',`s`:'' @ quote (numh sn) @ wire '',`p`:'' @ quote (digest_text prior)"

lemma chain_text_tail: "chain_text said i sn prior = wire '',`d`:'' @ quote said @ chain_tail_text i sn prior"
  by (simp add: chain_text_def chain_tail_text_def)

lemma chain_writes:
  assumes "b64_engine enc dec" "identifier_wire_ok i" "digest_ok prior"
  shows "writes (chain_encode enc i sn prior) (chain_tail_text i sn prior)"
  unfolding chain_encode_def
  by (rule writes_all_concat[where ts = "[_, _, _, _, _, _]"])
    (simp_all add: writes_lit writes_str identifier_writes[OF assms(1,2)] matter_writes[OF assms(1,3)] chain_tail_text_def)

text \<open>What follows the closing quote of the digest, from the text of the identifier.\<close>

primrec event_tail_text :: "bytes \<Rightarrow> KeriEvent \<Rightarrow> bytes" where
  "event_tail_text pre (Inception e) = wire '',`i`:'' @ quote pre @ icp_tail_text e @ wire ''}''"
| "event_tail_text pre (DelegatedInception e) =
     wire '',`i`:'' @ quote pre @ icp_tail_text (dip_inception e) @ wire '',`di`:'' @ quote (identifier_text (dip_delegator e)) @ wire ''}''"
| "event_tail_text pre (Rotation e) =
     chain_tail_text (rot_prefix e) (rot_sn e) (rot_prior e) @
     key_fields_text (rot_threshold_form e) (rot_threshold e) (rot_keys e) (rot_next_threshold e) (rot_next_keys e)
       (rot_witness_threshold e) @ rot_lists_text e @ wire ''}''"
| "event_tail_text pre (DelegatedRotation e) =
     chain_tail_text (rot_prefix (drt_rotation e)) (rot_sn (drt_rotation e)) (rot_prior (drt_rotation e)) @
     key_fields_text (rot_threshold_form (drt_rotation e)) (rot_threshold (drt_rotation e)) (rot_keys (drt_rotation e))
       (rot_next_threshold (drt_rotation e)) (rot_next_keys (drt_rotation e)) (rot_witness_threshold (drt_rotation e)) @
     rot_lists_text (drt_rotation e) @ wire ''}''"
| "event_tail_text pre (Interaction e) =
     chain_tail_text (ixn_prefix e) (ixn_sn e) (ixn_prior e) @ wire '',`a`:'' @ seals_text (ixn_anchors e) @ wire ''}''"

lemma icp_tail_writes:
  assumes "b64_engine enc dec" "icp_wire_ok e" "\<And>di. delegator = Some di \<Longrightarrow> identifier_wire_ok di"
  shows "writes (icp_tail_encode enc e delegator)
    (icp_tail_text e @ (case delegator of None \<Rightarrow> [] | Some di \<Rightarrow> wire '',`di`:'' @ quote (identifier_text di)) @ wire ''}'')"
proof -
  have ok: "list_all key_ok (icp_keys e)" "list_all digest_ok (icp_next_keys e)" "list_all key_ok (icp_witnesses e)"
    "list_all seal_wire_ok (icp_anchors e)" using assms(2) by (simp_all add: icp_wire_ok_def)
  note w = writes_lit writes_str key_fields_writes[OF assms(1) ok(1,2)] keys_writes[OF assms(1) ok(3)] configs_writes
    seals_writes[OF assms(1) ok(4)]
  show ?thesis
  proof (cases delegator)
    case None
    then show ?thesis unfolding icp_tail_encode_def
      by (intro writes_all_concat[where ts = "[_, _, _, _, _, _, _, _, _, _]"])
        (simp_all add: w icp_tail_text_def icp_lists_text_def)
  next
    case (Some di)
    then show ?thesis unfolding icp_tail_encode_def
      by (intro writes_all_concat[where ts = "[_, _, _, _, _, _, _, _, _, _, _, _]"])
        (simp_all add: w identifier_writes[OF assms(1) assms(3)] icp_tail_text_def icp_lists_text_def)
  qed
qed

lemma rot_tail_writes:
  assumes "b64_engine enc dec" "rot_wire_ok e"
  shows "writes (rot_tail_encode enc e) (event_tail_text pre (Rotation e))"
proof -
  have ok: "identifier_wire_ok (rot_prefix e)" "digest_ok (rot_prior e)" "list_all key_ok (rot_keys e)"
    "list_all digest_ok (rot_next_keys e)" "list_all key_ok (rot_witness_removals e)" "list_all key_ok (rot_witness_additions e)"
    "list_all seal_wire_ok (rot_anchors e)" using assms(2) by (simp_all add: rot_wire_ok_def)
  show ?thesis unfolding rot_tail_encode_def
    by (rule writes_all_concat[where ts = "[_, _, _, _, _, _, _, _, _]"])
      (simp_all add: writes_lit chain_writes[OF assms(1) ok(1,2)] key_fields_writes[OF assms(1) ok(3,4)]
        keys_writes[OF assms(1) ok(5)] keys_writes[OF assms(1) ok(6)] seals_writes[OF assms(1) ok(7)] rot_lists_text_def)
qed

lemma ixn_tail_writes:
  assumes "b64_engine enc dec" "ixn_wire_ok e"
  shows "writes (ixn_tail_encode enc e) (event_tail_text pre (Interaction e))"
proof -
  have ok: "identifier_wire_ok (ixn_prefix e)" "digest_ok (ixn_prior e)" "list_all seal_wire_ok (ixn_anchors e)"
    using assms(2) by (simp_all add: ixn_wire_ok_def)
  show ?thesis unfolding ixn_tail_encode_def
    by (rule writes_all_concat[where ts = "[_, _, _, _]"])
      (simp_all add: writes_lit chain_writes[OF assms(1) ok(1,2)] seals_writes[OF assms(1) ok(3)])
qed

section \<open>Bodies\<close>

definition version_text :: "nat \<Rightarrow> bytes" where
  "version_text n = str_bytes ''KERI10JSON'' @ hex_pad 6 n @ [V1_TERMINATOR]"

definition body_text :: "bytes \<Rightarrow> bytes \<Rightarrow> bytes \<Rightarrow> bytes \<Rightarrow> bytes" where
  "body_text vs t said rest = head_text vs t @ wire '',`d`:'' @ quote said @ rest"

definition size_fits :: "nat \<Rightarrow> bool" where
  "size_fits n \<longleftrightarrow> n \<le> 0xFFFFFF"

lemma hex_pad_length: "size_fits n \<Longrightarrow> length (hex_pad 6 n) = 6"
  using hex_pad_6(1)[of "word_of_nat n"]
  by (simp add: size_fits_def unat_of_nat)

lemma version_text_length: "size_fits n \<Longrightarrow> length (version_text n) = 17"
  by (simp add: version_text_def hex_pad_length str_bytes_def)

lemma size_field_fits: "size_fits n \<Longrightarrow> size_field n = Inr (hex_pad 6 n)"
  by (simp add: size_field_def size_fits_def VERSION_SIZE_MAX_def)

lemma quote_parts: "quote s = wire ''`'' @ s @ wire ''`''"
  by (simp add: quote_def wire_eval)

lemma patch_size:
  assumes "size_fits k" "size_fits n"
  shows "patch_slot (body_text (version_text k) t said rest) (16, 22) (hex_pad 6 n) = Inr (body_text (version_text n) t said rest)"
proof -
  let ?a = "wire ''{`v`:`'' @ str_bytes ''KERI10JSON''"
  let ?c = "[V1_TERMINATOR] @ wire ''`,`t`:'' @ quote t @ wire '',`d`:'' @ quote said @ rest"
  have b: "body_text (version_text m) t said rest = ?a @ hex_pad 6 m @ ?c" for m
    by (simp add: body_text_def head_text_def version_text_def)
  have a: "length ?a = 16" by (simp add: wire_eval)
  show ?thesis
    using patch_slot_at[of "hex_pad 6 n" "hex_pad 6 k" ?a ?c] hex_pad_length[OF assms(1)] hex_pad_length[OF assms(2)]
    unfolding b a by simp
qed

lemma patch_said:
  assumes "length vs = 17" "length t = 3" "length said' = length said"
  shows "patch_slot (body_text vs t said rest) (40, 40 + length said) said' = Inr (body_text vs t said' rest)"
proof -
  let ?a = "head_text vs t @ wire '',`d`:`''"
  have b: "body_text vs t s rest = ?a @ s @ wire ''`'' @ rest" for s
    by (simp add: body_text_def quote_parts wire_eval)
  have a: "length ?a = 40" using assms(1,2) by (simp add: head_text_def quote_def wire_eval)
  show ?thesis using patch_slot_at[OF assms(3), of ?a] unfolding b a .
qed

lemma patch_id:
  assumes "length vs = 17" "length t = 3" "length pre' = length pre"
  shows "patch_slot (body_text vs t said (wire '',`i`:'' @ quote pre @ rest)) (47 + length said, 47 + length said + length pre) pre' =
    Inr (body_text vs t said (wire '',`i`:'' @ quote pre' @ rest))"
proof -
  let ?a = "head_text vs t @ wire '',`d`:'' @ quote said @ wire '',`i`:`''"
  have b: "body_text vs t said (wire '',`i`:'' @ quote s @ rest) = ?a @ s @ wire ''`'' @ rest" for s
    by (simp add: body_text_def quote_parts wire_eval)
  have a: "length ?a = 47 + length said" using assms(1,2) by (simp add: head_text_def quote_def wire_eval)
  show ?thesis using patch_slot_at[OF assms(3), of ?a] unfolding b a .
qed

section \<open>Rendering\<close>

definition said_place :: "DigestCode \<Rightarrow> bytes" where
  "said_place c = (case placeholder DigestCode_to_matter_code c of Inr p \<Rightarrow> p | Inl _ \<Rightarrow> [])"

lemma code_placeholder_place: "code_placeholder c = Inr (said_place c)"
  using digest_code_raw_size[of c] by (auto simp: code_placeholder_def said_place_def placeholder_def)

lemma said_place_ok: "digest_ok s \<Longrightarrow> said_place (m_code s) = replicate (length (digest_text s)) DUMMY_CHAR"
  by (simp add: said_place_def placeholder_text)

lemma said_place_length: "digest_ok s \<Longrightarrow> length (digest_text s) = length (said_place (m_code s))"
  by (simp add: said_place_ok)

lemma message_type_plain [simp]: "plain_text (MessageType_code t)"
  by (cases t) (simp_all add: str_bytes_def plain_text_def)

lemma event_type_length [simp]: "length (MessageType_code (ev_message_type ev)) = 3"
  by (cases ev) (simp_all add: str_bytes_def)

lemma write_head_text:
  assumes "length (MessageType_code t) = 3"
  shows "write_head [] t place SerializationKind.Json =
    Inr (head_text (version_text 0) (MessageType_code t) @ wire '',`d`:'' @ quote place, (16, 22), (40, 40 + length place))"
proof -
  have v: "VersionString_new ProtoKeri 1 0 SerializationKind.Json 0 =
      Inr \<lparr>vs_proto = ProtoKeri, vs_major = 1, vs_minor = 0, vs_kind = SerializationKind.Json, vs_size = 0\<rparr>"
    by (simp add: VersionString_new_def VERSION_DIGIT_MAX_def VERSION_SIZE_MAX_def)
  have s: "VersionString_to_str \<lparr>vs_proto = ProtoKeri, vs_major = 1, vs_minor = 0, vs_kind = SerializationKind.Json, vs_size = 0\<rparr> = version_text 0"
    by (simp add: VersionString_to_str_def version_text_def str_bytes_def) code_simp
  have l: "length (version_text 0) = 17" by (simp add: version_text_length size_fits_def)
  show ?thesis using assms
    by (simp add: write_head_def v s l str_json_plain head_text_def quote_def wire_eval)
qed

text \<open>
  An event is writable when every primitive it writes fits its code. The digestive fields
  themselves are computed: of those only the code is used.
\<close>

definition prefix_writable :: "Identifier \<Rightarrow> bool" where
  "prefix_writable i \<longleftrightarrow> (case i of Basic p \<Rightarrow> key_ok p | SelfAddressing _ \<Rightarrow> True)"

primrec event_wire_ok :: "KeriEvent \<Rightarrow> bool" where
  "event_wire_ok (Inception e) \<longleftrightarrow> icp_wire_ok e \<and> prefix_writable (icp_prefix e)"
| "event_wire_ok (DelegatedInception e) \<longleftrightarrow>
     icp_wire_ok (dip_inception e) \<and> prefix_writable (icp_prefix (dip_inception e)) \<and> identifier_wire_ok (dip_delegator e)"
| "event_wire_ok (Rotation e) \<longleftrightarrow> rot_wire_ok e"
| "event_wire_ok (DelegatedRotation e) \<longleftrightarrow> rot_wire_ok (drt_rotation e)"
| "event_wire_ok (Interaction e) \<longleftrightarrow> ixn_wire_ok e"

lemma double_said_simps [simp]:
  "prefix_said_code (Rotation r) = None" "prefix_said_code (DelegatedRotation d) = None"
  "prefix_said_code (Interaction x) = None"
  "prefix_said_code (Inception e) = (case icp_prefix e of SelfAddressing s \<Rightarrow> Some (m_code s) | Basic _ \<Rightarrow> None)"
  "prefix_said_code (DelegatedInception de) = (case icp_prefix (dip_inception de) of SelfAddressing s \<Rightarrow> Some (m_code s) | Basic _ \<Rightarrow> None)"
  by (simp_all add: prefix_said_code_def as_saider_def split: Identifier.splits)

definition prefix_slot :: "nat \<Rightarrow> bytes option \<Rightarrow> (nat \<times> nat) option" where
  "prefix_slot n pp = map_option (\<lambda>p. (47 + n, 47 + n + length p)) pp"

definition prefix_written :: "KeriEvent \<Rightarrow> bytes option \<Rightarrow> bytes" where
  "prefix_written ev pp = (case pp of Some p \<Rightarrow> p | None \<Rightarrow> identifier_text (ev_prefix ev))"

lemma icp_render:
  assumes eng: "b64_engine enc dec" and ok: "icp_wire_ok e" "prefix_writable (icp_prefix e)"
    and di: "\<And>di. delegator = Some di \<Longrightarrow> identifier_wire_ok di" and t: "length (MessageType_code t) = 3"
    and pp: "pp = None \<longleftrightarrow> \<not> self_addressing (icp_prefix e)"
  shows "render_icp enc [] e place pp t delegator =
    Some (Inr (body_text (version_text 0) (MessageType_code t) place
      (wire '',`i`:'' @ quote (case pp of Some p \<Rightarrow> p | None \<Rightarrow> identifier_text (icp_prefix e)) @ icp_tail_text e @
       (case delegator of None \<Rightarrow> [] | Some di \<Rightarrow> wire '',`di`:'' @ quote (identifier_text di)) @ wire ''}''),
      \<lparr>el_size = (16, 22), el_said = (40, 40 + length place), el_prefix = prefix_slot (length place) pp\<rparr>))"
proof -
  have l: "length (version_text 0) = 17" by (simp add: version_text_length size_fits_def)
  note w = writesD[OF icp_tail_writes[OF eng ok(1) di]]
  show ?thesis
  proof (cases "icp_prefix e")
    case (Basic p)
    then have k: "key_ok p" and pp0: "pp = None" using ok(2) pp by (simp_all add: prefix_writable_def self_addressing_def)
    have "writes (write_all [lit '',`i`:'', key_encode enc p]) (wire '',`i`:'' @ quote (key_text p))"
      by (rule writes_all_concat[where ts = "[_, _]"]) (simp_all add: writes_lit matter_writes[OF eng k])
    from writesD[OF this] show ?thesis
      using Basic pp0 by (simp add: render_icp_def write_head_text[OF t] w body_text_def prefix_slot_def)
  next
    case (SelfAddressing s)
    then obtain p where p: "pp = Some p" using pp by (cases pp) (auto simp: self_addressing_def)
    show ?thesis
      using SelfAddressing p t l
      by (simp add: render_icp_def write_head_text[OF t] w body_text_def prefix_slot_def Let_def head_text_def quote_def wire_eval
          del: wire_punct)
  qed
qed

lemma event_render_text:
  assumes eng: "b64_engine enc dec" and ok: "event_wire_ok ev" and pp: "pp = None \<longleftrightarrow> prefix_said_code ev = None"
  shows "event_render enc ev place pp [] =
    Some (Inr (body_text (version_text 0) (MessageType_code (ev_message_type ev)) place (event_tail_text (prefix_written ev pp) ev),
      \<lparr>el_size = (16, 22), el_said = (40, 40 + length place), el_prefix = prefix_slot (length place) pp\<rparr>))"
proof (cases ev)
  case (Inception e)
  then show ?thesis
    using ok pp icp_render[OF eng, of e None Icp pp place] event_type_length[of ev]
    by (simp add: event_render_def prefix_written_def self_addressing_def split: Identifier.splits option.splits)
next
  case (DelegatedInception e)
  then show ?thesis
    using ok pp icp_render[OF eng, of "dip_inception e" "Some (dip_delegator e)" Dip pp place] event_type_length[of ev]
    by (simp add: event_render_def prefix_written_def self_addressing_def split: Identifier.splits option.splits)
next
  case (Rotation e)
  then show ?thesis
    using ok pp writesD[OF rot_tail_writes[OF eng, of e "[]"]] event_type_length[of ev]
    by (simp add: event_render_def render_rot_def render_plain_def write_head_text body_text_def prefix_slot_def)
next
  case (DelegatedRotation e)
  then show ?thesis
    using ok pp writesD[OF rot_tail_writes[OF eng, of "drt_rotation e" "[]"]] event_type_length[of ev]
    by (simp add: event_render_def render_rot_def render_plain_def write_head_text body_text_def prefix_slot_def)
next
  case (Interaction e)
  then show ?thesis
    using ok pp writesD[OF ixn_tail_writes[OF eng, of e "[]"]] event_type_length[of ev]
    by (simp add: event_render_def render_ixn_def render_plain_def write_head_text body_text_def prefix_slot_def)
qed

section \<open>The serialized event\<close>

text \<open>The text of an event with every digestive field dummied, at a given size.\<close>

definition dummied_at :: "nat \<Rightarrow> KeriEvent \<Rightarrow> bytes" where
  "dummied_at n ev =
     body_text (version_text n) (MessageType_code (ev_message_type ev)) (said_place (said_code ev))
       (event_tail_text (prefix_written ev (map_option said_place (prefix_said_code ev))) ev)"

definition event_size :: "KeriEvent \<Rightarrow> nat" where
  "event_size ev = length (dummied_at 0 ev)"

definition dummied_text :: "KeriEvent \<Rightarrow> bytes" where
  "dummied_text ev = dummied_at (event_size ev) ev"

definition computed_said :: "crypto \<Rightarrow> KeriEvent \<Rightarrow> Said" where
  "computed_said cr ev = digest_of cr (said_code ev) (dummied_text ev)"

definition computed_prefix :: "crypto \<Rightarrow> KeriEvent \<Rightarrow> Said option" where
  "computed_prefix cr ev = map_option (\<lambda>c. digest_of cr c (dummied_text ev)) (prefix_said_code ev)"

definition event_bytes :: "crypto \<Rightarrow> KeriEvent \<Rightarrow> bytes" where
  "event_bytes cr ev =
     body_text (version_text (event_size ev)) (MessageType_code (ev_message_type ev)) (digest_text (computed_said cr ev))
       (event_tail_text (prefix_written ev (map_option digest_text (computed_prefix cr ev))) ev)"

lemma digest_of_text_length: "codec_env cr dec \<Longrightarrow> length (digest_text (digest_of cr c data)) = length (said_place c)"
  using said_place_length[OF digest_of_ok, of cr dec c data] by (simp add: digest_of_def Matter_new_def)

lemma event_tail_prefix:
  "prefix_said_code ev \<noteq> None \<Longrightarrow> \<exists>rest. \<forall>pre. event_tail_text pre ev = wire '',`i`:'' @ quote pre @ rest"
  by (cases ev) simp_all

lemma patch_prefix_text:
  assumes env: "codec_env cr dec" and vs: "length vs = 17" and t: "length t = 3"
    and pp: "prefix = map_option (\<lambda>c. digest_of cr c data) (prefix_said_code ev)"
  shows "patch_prefix cr (body_text vs t said (event_tail_text (prefix_written ev (map_option said_place (prefix_said_code ev))) ev))
      (prefix_slot (length said) (map_option said_place (prefix_said_code ev))) prefix =
    Some (Inr (body_text vs t said (event_tail_text (prefix_written ev (map_option digest_text prefix)) ev)))"
proof (cases "prefix_said_code ev")
  case None
  then show ?thesis using pp by (simp add: patch_prefix_def prefix_slot_def)
next
  case (Some c)
  then obtain rest where r: "\<And>pre. event_tail_text pre ev = wire '',`i`:'' @ quote pre @ rest"
    using event_tail_prefix[of ev] by auto
  show ?thesis
    using Some pp patch_id[OF vs t digest_of_text_length[OF env], of said c rest data]
    by (simp add: patch_prefix_def prefix_slot_def prefix_written_def r said_qb64_text[OF env digest_of_ok[OF env]] del: wire_punct)
qed

lemma event_serialize_text:
  assumes env: "codec_env cr dec" and ok: "event_wire_ok ev" and sz: "size_fits (event_size ev)"
  shows "event_serialize cr ev =
    Some (Inr \<lparr>se_raw = event_bytes cr ev, se_said = computed_said cr ev, se_prefix = computed_prefix cr ev,
      se_message_type = ev_message_type ev, se_size = event_size ev\<rparr>)"
proof -
  let ?p = "map_option said_place (prefix_said_code ev)" and ?place = "said_place (said_code ev)"
  have eng: "b64_engine (b64_encode cr) dec" using env by (simp add: codec_env_def)
  have pl: "option_result code_placeholder (prefix_said_code ev) = Inr ?p"
    by (cases "prefix_said_code ev") (simp_all add: option_result_def code_placeholder_place)
  have r: "event_render (b64_encode cr) ev ?place ?p [] =
    Some (Inr (dummied_at 0 ev, \<lparr>el_size = (16, 22), el_said = (40, 40 + length ?place), el_prefix = prefix_slot (length ?place) ?p\<rparr>))"
    unfolding dummied_at_def by (rule event_render_text[OF eng ok]) simp
  have s: "patch_slot (dummied_at 0 ev) (16, 22) (hex_pad 6 (event_size ev)) = Inr (dummied_text ev)"
    unfolding dummied_text_def dummied_at_def by (rule patch_size) (use sz in \<open>simp_all add: size_fits_def\<close>)
  have c: "option_result (\<lambda>code. Inr (digest_of cr code (dummied_text ev))) (prefix_said_code ev) =
      (Inr (computed_prefix cr ev) :: CodecError + _)"
    by (cases "prefix_said_code ev") (simp_all add: option_result_def computed_prefix_def)
  have d: "patch_slot (dummied_text ev) (40, 40 + length ?place) (digest_text (computed_said cr ev)) =
     Inr (body_text (version_text (event_size ev)) (MessageType_code (ev_message_type ev)) (digest_text (computed_said cr ev))
       (event_tail_text (prefix_written ev ?p) ev))"
    unfolding dummied_text_def dummied_at_def computed_said_def
    by (rule patch_said) (use sz in \<open>simp_all add: version_text_length digest_of_text_length[OF env]\<close>)
  have w: "length ?place = length (digest_text (computed_said cr ev))"
    by (simp add: computed_said_def digest_of_text_length[OF env])
  have x: "patch_prefix cr (body_text (version_text (event_size ev)) (MessageType_code (ev_message_type ev)) (digest_text (computed_said cr ev))
       (event_tail_text (prefix_written ev ?p) ev)) (prefix_slot (length ?place) ?p) (computed_prefix cr ev) =
     Some (Inr (event_bytes cr ev))"
    unfolding event_bytes_def w
    by (rule patch_prefix_text[OF env]) (use sz in \<open>simp_all add: version_text_length computed_prefix_def\<close>)
  have slots: "(prefix_slot (length ?place) ?p \<noteq> None) = (prefix_said_code ev \<noteq> None)" by (simp add: prefix_slot_def)
  have q: "said_qb64 cr (computed_said cr ev) = Some (digest_text (computed_said cr ev))"
    unfolding computed_said_def by (rule said_qb64_text[OF env digest_of_ok[OF env]])
  show ?thesis
    unfolding event_serialize_def Let_def
    using slots by (simp add: code_placeholder_place pl render_body_def r s c d x q said_digest_of[OF env]
        size_field_fits[OF sz] flip: event_size_def computed_said_def)
qed

end
