(* ===== verification/Codec_Roundtrip.thy ===== *)
theory Codec_Roundtrip
  imports Codec_Written
begin

text \<open>
  A serialized event read back: the head is taken, the digestive fields verify, and the
  event built is the one that was written, with the digests put where they belong.
\<close>

section \<open>The head\<close>

lemma version_text_parse:
  assumes "size_fits n"
  shows "VersionString_parse (version_text n) =
    Inr (\<lparr>vs_proto = ProtoKeri, vs_major = 1, vs_minor = 0, vs_kind = SerializationKind.Json, vs_size = word_of_nat n\<rparr>, [])"
proof -
  let ?vs = "\<lparr>vs_proto = ProtoKeri, vs_major = 1, vs_minor = 0, vs_kind = SerializationKind.Json, vs_size = word_of_nat n\<rparr>"
  have u: "unat (word_of_nat n :: u32) = n" using assms by (simp add: size_fits_def unat_of_nat)
  have "vs_ok ?vs" using assms u
    by (simp add: vs_ok_def VERSION_DIGIT_MAX_def VERSION_SIZE_MAX_def word_le_nat_alt size_fits_def)
  moreover have "VersionString_to_str ?vs = version_text n"
    by (simp add: VersionString_to_str_def version_text_def u str_bytes_def) code_simp
  ultimately show ?thesis using version1_parse_write[of ?vs "[]"] by simp
qed

lemma body_length:
  assumes "size_fits n"
  shows "length (body_text (version_text n) t said rest) = 31 + 7 + length t + length said + length rest"
  using version_text_length[OF assms] by (simp add: body_text_def head_text_def quote_def wire_eval)

lemma check_json_body_text:
  assumes "size_fits n"
  shows "check_json_body (body_text (version_text n) t said rest) = Inr ()"
proof -
  let ?raw = "body_text (version_text n) t said rest"
  have s: "?raw = wire ''{`v`:`'' @ str_bytes ''KERI10JSON'' @ hex_pad 6 n @ [V1_TERMINATOR] @ wire ''`,`t`:'' @ quote t @
      wire '',`d`:'' @ quote said @ rest" (is "_ = _ @ _ @ ?tl")
    by (simp add: body_text_def head_text_def version_text_def)
  have "\<not> is_ok (VersionStringV2_parse (str_bytes ''KERI10JSON'' @ ?tl))"
  proof -
    have p: "Protocol_from_wire (str_bytes ''KERI'') = Inr ProtoKeri" by code_simp
    have d: "decode_b64_field [0x31] ''proto_major'' = Inr (53 :: byte)" by code_simp
    show ?thesis using p d
      by (simp add: VersionStringV2_parse_def split_frame_def VERSION_STRING_V2_LEN_def str_bytes_def ensure_def V2_MAJOR_def
          Let_def)
  qed
  moreover have "slice_from ?raw 6 = Some (str_bytes ''KERI10JSON'' @ ?tl)"
    by (simp add: s slice_from_def wire_eval)
  moreover have "?raw = 0x7b # tl ?raw" by (simp add: s wire_eval)
  then have "slice_get ?raw 0 = Some 0x7b" by (metis length_greater_0_conv list.distinct(1) nth_Cons_0 slice_get_def)
  moreover have "ColdCode_detect 0x7b = Inr ColdCode.Json" by code_simp
  ultimately show ?thesis by (simp add: check_json_body_def Let_def slice_from_def)
qed

section \<open>The event with its digests\<close>

primrec with_saids :: "Said \<Rightarrow> Said option \<Rightarrow> KeriEvent \<Rightarrow> KeriEvent" where
  "with_saids said pre (Inception e) =
     Inception (e\<lparr>icp_said := said, icp_prefix := (case pre of Some p \<Rightarrow> SelfAddressing p | None \<Rightarrow> icp_prefix e)\<rparr>)"
| "with_saids said pre (DelegatedInception e) =
     DelegatedInception (e\<lparr>dip_inception := (dip_inception e)\<lparr>icp_said := said,
       icp_prefix := (case pre of Some p \<Rightarrow> SelfAddressing p | None \<Rightarrow> icp_prefix (dip_inception e))\<rparr>\<rparr>)"
| "with_saids said pre (Rotation e) = Rotation (e\<lparr>rot_said := said\<rparr>)"
| "with_saids said pre (DelegatedRotation e) = DelegatedRotation (e\<lparr>drt_rotation := (drt_rotation e)\<lparr>rot_said := said\<rparr>\<rparr>)"
| "with_saids said pre (Interaction e) = Interaction (e\<lparr>ixn_said := said\<rparr>)"

definition stamped :: "crypto \<Rightarrow> KeriEvent \<Rightarrow> KeriEvent" where
  "stamped cr ev = with_saids (computed_said cr ev) (computed_prefix cr ev) ev"

text \<open>The laws an event keeps by itself, whatever log it belongs to.\<close>

definition thresholds_lawful :: "SigningThreshold \<Rightarrow> nat \<Rightarrow> SigningThreshold \<Rightarrow> nat \<Rightarrow> bool" where
  "thresholds_lawful t k nt n \<longleftrightarrow> check_well_formed t k = Inr () \<and> (n \<noteq> 0 \<longrightarrow> check_well_formed nt n = Inr ())"

definition icp_lawful :: "InceptionEvent \<Rightarrow> bool" where
  "icp_lawful e \<longleftrightarrow>
     witnesses_ok (icp_witnesses e) \<and>
     toad_exact (icp_witness_threshold e) (length (icp_witnesses e)) = Inr (icp_witness_threshold e) \<and>
     thresholds_lawful (icp_threshold e) (length (icp_keys e)) (icp_next_threshold e) (length (icp_next_keys e)) \<and>
     check_identity e = Inr ()"

definition rot_lawful :: "RotationEvent \<Rightarrow> bool" where
  "rot_lawful e \<longleftrightarrow>
     thresholds_lawful (rot_threshold e) (length (rot_keys e)) (rot_next_threshold e) (length (rot_next_keys e)) \<and>
     witnesses_ok (rot_witness_removals e) \<and> witnesses_ok (rot_witness_additions e) \<and>
     set (rot_witness_removals e) \<inter> set (rot_witness_additions e) = {}"

primrec event_lawful :: "KeriEvent \<Rightarrow> bool" where
  "event_lawful (Inception e) \<longleftrightarrow> icp_lawful e"
| "event_lawful (DelegatedInception e) \<longleftrightarrow> icp_lawful (dip_inception e) \<and> self_addressing (icp_prefix (dip_inception e))"
| "event_lawful (Rotation e) \<longleftrightarrow> rot_lawful e"
| "event_lawful (DelegatedRotation e) \<longleftrightarrow> rot_lawful (drt_rotation e) \<and> self_addressing (rot_prefix (drt_rotation e))"
| "event_lawful (Interaction e) \<longleftrightarrow> True"

section \<open>Building what was written\<close>

lemma check_thresholds_lawful:
  "check_thresholds_well_formed t k nt n = Inr () \<longleftrightarrow> thresholds_lawful t k nt n"
  by (auto simp: check_thresholds_well_formed_def validate_threshold_def thresholds_lawful_def split: sum.splits)

lemma threshold_form_of_parsed [simp]: "threshold_form_of (count_parsed form c) = form"
  by (cases form) (simp_all add: threshold_form_of_def count_parsed_def)

lemma form_consistent: "threshold_wire_ok form t \<Longrightarrow> check_form_consistency field (threshold_parsed form t) form = Inr ()"
proof (cases t)
  case (Simple v)
  assume ok: "threshold_wire_ok form t"
  show ?thesis
  proof (cases form)
    case Integer
    have p: "from_str_radix 10 (nat_to_string k) = Some (word_of_nat k :: u32)" if "k < 2 ^ 32" for k
      using parse_dec[of "word_of_nat k :: u32"] that by (simp add: unat_of_nat)
    have "unat v < 2 ^ 32" using ok Simple Integer by (simp add: threshold_wire_ok_def)
    then show ?thesis using Simple Integer p[of "unat v"]
      by (simp add: check_form_consistency_def threshold_parsed_def)
  qed (simp add: Simple check_form_consistency_def threshold_parsed_def)
qed (simp add: check_form_consistency_def threshold_parsed_def)

lemma keys_lift: "b64_engine enc dec \<Longrightarrow> list_all key_ok ks \<Longrightarrow> each_from_wire (key_from_wire dec) field (map key_text ks) = Inr ks"
  using each_lift[of ks "key_from_wire dec" field key_text "\<lambda>x. x"] by (simp add: list_all_iff key_text_lift)

lemma digests_lift:
  "b64_engine enc dec \<Longrightarrow> list_all digest_ok ks \<Longrightarrow> each_from_wire (digest_from_wire dec) field (map digest_text ks) = Inr ks"
  using each_lift[of ks "digest_from_wire dec" field digest_text "\<lambda>x. x"] by (simp add: list_all_iff digest_text_lift)

lemma seals_lift:
  "b64_engine enc dec \<Longrightarrow> list_all seal_wire_ok as \<Longrightarrow> each_from_wire (seal_from_wire dec) field (map seal_parsed as) = Inr as"
  using each_lift[of as "seal_from_wire dec" field seal_parsed "\<lambda>x. x"] by (simp add: list_all_iff seal_lift)

lemma configs_lift: "each_from_wire config_from_wire field (map ConfigTrait_code cs) = Inr cs"
  using each_lift[of cs config_from_wire field ConfigTrait_code "\<lambda>x. x"] by simp

lemma build_inception_text:
  assumes eng: "b64_engine enc dec" and ok: "icp_wire_ok e" and law: "icp_lawful (e\<lparr>icp_said := s, icp_prefix := i\<rparr>)"
    and si: "digest_ok s" "identifier_wire_ok i"
  shows "build_inception dec (icp_parsed n (digest_text s) (identifier_text i) e) = Inr (e\<lparr>icp_said := s, icp_prefix := i\<rparr>)"
proof -
  have ok': "sn_ok (icp_sn e)" "threshold_wire_ok (icp_threshold_form e) (icp_threshold e)" "list_all key_ok (icp_keys e)"
    "threshold_wire_ok (icp_threshold_form e) (icp_next_threshold e)" "list_all digest_ok (icp_next_keys e)"
    "list_all key_ok (icp_witnesses e)" "list_all seal_wire_ok (icp_anchors e)"
    using ok by (simp_all add: icp_wire_ok_def)
  have v: "sp_value (spanned k x) = x" for k x by (simp add: spanned_def)
  have law': "witnesses_ok (icp_witnesses e)"
    "toad_exact (icp_witness_threshold e) (length (icp_witnesses e)) = Inr (icp_witness_threshold e)"
    "check_thresholds_well_formed (icp_threshold e) (length (icp_keys e)) (icp_next_threshold e) (length (icp_next_keys e)) = Inr ()"
    "check_identity (e\<lparr>icp_said := s, icp_prefix := i\<rparr>) = Inr ()"
    using law by (simp_all add: icp_lawful_def check_thresholds_lawful)
  have w: "check_witnesses (icp_witnesses e) l = Inr ()" for l using law'(1) by simp
  note lifts = keys_lift[OF eng ok'(3)] keys_lift[OF eng ok'(6)] digests_lift[OF eng ok'(5)] seals_lift[OF eng ok'(7)] configs_lift
    threshold_lift[OF ok'(2)] threshold_lift[OF ok'(4)] count_lift number_lift[OF ok'(1)]
    form_consistent[OF ok'(2)] form_consistent[OF ok'(4)] digest_text_lift[OF eng si(1)] identifier_text_lift[OF eng si(2)]
  have r: "e\<lparr>icp_said := s, icp_prefix := i\<rparr> =
     \<lparr>icp_prefix = i, icp_sn = icp_sn e, icp_said = s, icp_keys = icp_keys e, icp_threshold = icp_threshold e,
      icp_next_keys = icp_next_keys e, icp_next_threshold = icp_next_threshold e, icp_witnesses = icp_witnesses e,
      icp_witness_threshold = icp_witness_threshold e, icp_config = icp_config e, icp_anchors = icp_anchors e,
      icp_threshold_form = icp_threshold_form e\<rparr>" by (cases e) simp
  show ?thesis using law'(4) unfolding r
    by (simp add: build_inception_def icp_parsed_def v lifts law'(2,3) w Let_def)
qed

lemma build_rotation_text:
  assumes eng: "b64_engine enc dec" and ok: "rot_wire_ok e" and law: "rot_lawful e" and s: "digest_ok s"
  shows "build_rotation dec (rot_parsed n (digest_text s) e) = Inr (e\<lparr>rot_said := s\<rparr>)"
proof -
  have ok': "sn_ok (rot_sn e)" "threshold_wire_ok (rot_threshold_form e) (rot_threshold e)" "list_all key_ok (rot_keys e)"
    "threshold_wire_ok (rot_threshold_form e) (rot_next_threshold e)" "list_all digest_ok (rot_next_keys e)"
    "list_all key_ok (rot_witness_additions e)" "list_all key_ok (rot_witness_removals e)" "list_all seal_wire_ok (rot_anchors e)"
    "identifier_wire_ok (rot_prefix e)" "digest_ok (rot_prior e)"
    using ok by (simp_all add: rot_wire_ok_def)
  have v: "sp_value (spanned k x) = x" for k x by (simp add: spanned_def)
  have t: "check_thresholds_well_formed (rot_threshold e) (length (rot_keys e)) (rot_next_threshold e) (length (rot_next_keys e)) = Inr ()"
    and w: "check_witness_deltas (rot_witness_removals e) (rot_witness_additions e) l l' = Inr ()" for l l'
    using law by (simp_all add: rot_lawful_def check_thresholds_lawful)
  note lifts = keys_lift[OF eng ok'(3)] keys_lift[OF eng ok'(6)] keys_lift[OF eng ok'(7)] digests_lift[OF eng ok'(5)]
    seals_lift[OF eng ok'(8)] threshold_lift[OF ok'(2)] threshold_lift[OF ok'(4)] count_lift number_lift[OF ok'(1)]
    form_consistent[OF ok'(2)] form_consistent[OF ok'(4)] digest_text_lift[OF eng s] digest_text_lift[OF eng ok'(10)]
    identifier_text_lift[OF eng ok'(9)]
  show ?thesis by (simp add: build_rotation_def rot_parsed_def v lifts t w toad_from_wire_def)
qed

lemma build_interaction_text:
  assumes eng: "b64_engine enc dec" and ok: "ixn_wire_ok e" and s: "digest_ok s"
  shows "build_interaction dec (ixn_parsed n (digest_text s) e) = Inr (e\<lparr>ixn_said := s\<rparr>)"
proof -
  have ok': "sn_ok (ixn_sn e)" "list_all seal_wire_ok (ixn_anchors e)" "identifier_wire_ok (ixn_prefix e)" "digest_ok (ixn_prior e)"
    using ok by (simp_all add: ixn_wire_ok_def)
  have v: "sp_value (spanned k x) = x" for k x by (simp add: spanned_def)
  note lifts = seals_lift[OF eng ok'(2)] number_lift[OF ok'(1)] digest_text_lift[OF eng s] digest_text_lift[OF eng ok'(4)]
    identifier_text_lift[OF eng ok'(3)]
  show ?thesis by (simp add: build_interaction_def ixn_parsed_def v lifts)
qed

section \<open>Parsing what was written\<close>

primrec event_parsed :: "bytes \<Rightarrow> bytes \<Rightarrow> KeriEvent \<Rightarrow> ParsedEvent" where
  "event_parsed said pre (Inception e) = ParsedInception (icp_parsed 34 said pre e)"
| "event_parsed said pre (DelegatedInception e) = ParsedDelegatedInception (dip_parsed 34 said pre e)"
| "event_parsed said pre (Rotation e) = ParsedRotation (rot_parsed 34 said e)"
| "event_parsed said pre (DelegatedRotation e) = ParsedDelegatedRotation (rot_parsed 34 said (drt_rotation e))"
| "event_parsed said pre (Interaction e) = ParsedInteraction (ixn_parsed 34 said e)"

text \<open>The JSON fields a body has; every object is charged one for each.\<close>

primrec event_cost :: "KeriEvent \<Rightarrow> nat" where
  "event_cost (Inception e) = 2 + icp_cost e"
| "event_cost (DelegatedInception e) = 2 + (icp_cost (dip_inception e) + 1)"
| "event_cost (Rotation e) = 2 + rot_cost e"
| "event_cost (DelegatedRotation e) = 2 + rot_cost (drt_rotation e)"
| "event_cost (Interaction e) = 2 + (5 + seals_fields (ixn_anchors e))"

lemma limits_allow_mono: "limits_allow limits f \<Longrightarrow> g \<le> f \<Longrightarrow> limits_allow limits g"
  by (simp add: limits_allow_def)

lemma head_text_length: "size_fits n \<Longrightarrow> length t = 3 \<Longrightarrow> length (head_text (version_text n) t) = 34"
  by (simp add: head_text_def version_text_length quote_def wire_eval)

lemma body_head:
  assumes raw: "raw = body_text (version_text n) t said rest" and n: "length raw = n" "size_fits n" and lim: "limits_allow limits 2"
    and t: "plain_text t" "length t = 3"
  shows "event_head raw limits = Inr (spanned 29 t, scanner_at raw 34 limits 2 (Suc 0))"
proof -
  have u: "unat (word_of_nat n :: u32) = n" using n(2) by (simp add: size_fits_def unat_of_nat)
  have "length raw < usize_bound" using n by (simp add: size_fits_def)
  from event_head_reads[OF _ this lim t(1) version_text_length[OF n(2)] version_text_parse[OF n(2)]] show ?thesis
    using raw n u head_text_length[OF n(2) t(2)] by (simp add: body_text_def check_head_version_def)
qed

lemma body_run:
  assumes raw: "raw = body_text (version_text n) t said rest" and n: "length raw = n" "size_fits n" and t: "length t = 3"
    and p: "Codec_Reads.reads p s 34 a x (Suc 0) (Suc 0) g" and lim: "limits_allow limits (2 + g)"
    and a: "wire '',`d`:'' @ quote said @ rest = a @ wire ''}''"
  shows "run (then_read p body_end) (scanner_at raw 34 limits 2 (Suc 0)) = Inr x"
  by (rule run_body[OF p, of raw "head_text (version_text n) t"])
    (use raw n t lim a head_text_length[OF n(2) t] in \<open>simp_all add: body_text_def size_fits_def\<close>)

lemma event_parse_text:
  assumes ok: "event_wire_ok ev" and pl: "plain_text said" "plain_text pre"
    and raw: "raw = body_text (version_text n) (MessageType_code (ev_message_type ev)) said (event_tail_text pre ev)"
    and n: "length raw = n" "size_fits n" and lim: "limits_allow limits (event_cost ev)"
  shows "ParsedEvent_parse raw limits = Inr (event_parsed said pre ev)"
proof -
  have l2: "limits_allow limits 2" by (rule limits_allow_mono[OF lim]) (cases ev; simp)
  note h = body_head[OF raw n l2 message_type_plain event_type_length]
  note r = body_run[OF raw n event_type_length]
  have v: "sp_value (spanned k x) = x" for k x by (simp add: spanned_def)
  show ?thesis
  proof (cases ev)
    case (Inception e)
    have "run icp_body (scanner_at raw 34 limits 2 (Suc 0)) = Inr (icp_parsed 34 said pre e)"
      unfolding icp_body_def
      by (rule r[OF icp_fields_reads[of e said pre 34]])
        (use Inception ok pl lim in \<open>simp_all add: icp_text_def\<close>)
    then show ?thesis using h Inception by (simp add: ParsedEvent_parse_def v Let_def)
  next
    case (DelegatedInception e)
    have "run dip_body (scanner_at raw 34 limits 2 (Suc 0)) = Inr (dip_parsed 34 said pre e)"
      unfolding dip_body_def
      by (rule r[OF dip_fields_reads[of e said pre 34]])
        (use DelegatedInception ok pl lim in \<open>simp_all add: dip_text_def icp_text_def\<close>)
    then show ?thesis using h DelegatedInception by (simp add: ParsedEvent_parse_def v Let_def str_bytes_def)
  next
    case (Rotation e)
    have "run rot_body (scanner_at raw 34 limits 2 (Suc 0)) = Inr (rot_parsed 34 said e)"
      unfolding rot_body_def
      by (rule r[OF rot_fields_reads[of e said 34]])
        (use Rotation ok pl lim in \<open>simp_all add: rot_text_def chain_text_tail\<close>)
    then show ?thesis using h Rotation by (simp add: ParsedEvent_parse_def v Let_def str_bytes_def)
  next
    case (DelegatedRotation e)
    have "run rot_body (scanner_at raw 34 limits 2 (Suc 0)) = Inr (rot_parsed 34 said (drt_rotation e))"
      unfolding rot_body_def
      by (rule r[OF rot_fields_reads[of "drt_rotation e" said 34]])
        (use DelegatedRotation ok pl lim in \<open>simp_all add: rot_text_def chain_text_tail\<close>)
    then show ?thesis using h DelegatedRotation by (simp add: ParsedEvent_parse_def v Let_def str_bytes_def)
  next
    case (Interaction e)
    have "run ixn_body (scanner_at raw 34 limits 2 (Suc 0)) = Inr (ixn_parsed 34 said e)"
      unfolding ixn_body_def
      by (rule r[OF ixn_fields_reads[of e said 34]])
        (use Interaction ok pl lim in \<open>simp_all add: ixn_text_def chain_text_tail\<close>)
    then show ?thesis using h Interaction by (simp add: ParsedEvent_parse_def v Let_def str_bytes_def)
  qed
qed

section \<open>Verifying what was written\<close>

definition written_prefix :: "crypto \<Rightarrow> KeriEvent \<Rightarrow> bytes" where
  "written_prefix cr ev = prefix_written ev (map_option digest_text (computed_prefix cr ev))"

lemma event_bytes_parts:
  "event_bytes cr ev = body_text (version_text (event_size ev)) (MessageType_code (ev_message_type ev))
     (digest_text (computed_said cr ev)) (event_tail_text (written_prefix cr ev) ev)"
  by (simp add: event_bytes_def written_prefix_def)

lemma event_tail_length:
  "length pre = length pre' \<Longrightarrow> length (event_tail_text pre ev) = length (event_tail_text pre' ev)"
  by (cases ev) (simp_all add: quote_def)

lemma computed_said_ok: "codec_env cr dec \<Longrightarrow> digest_ok (computed_said cr ev)" "m_code (computed_said cr ev) = said_code ev"
  by (simp_all add: computed_said_def digest_of_ok) (simp add: digest_of_def Matter_new_def)

lemma computed_prefix_ok:
  assumes "computed_prefix cr ev = Some p" "codec_env cr dec"
  shows "digest_ok p" "prefix_said_code ev = Some (m_code p)"
  using assms digest_of_ok[OF assms(2)] by (auto simp: computed_prefix_def digest_of_def Matter_new_def)

lemma event_bytes_length:
  assumes env: "codec_env cr dec" and sz: "size_fits (event_size ev)"
  shows "length (event_bytes cr ev) = event_size ev"
proof -
  have "length (written_prefix cr ev) = length (prefix_written ev (map_option said_place (prefix_said_code ev)))"
    using digest_of_text_length[OF env]
    by (cases "prefix_said_code ev") (simp_all add: written_prefix_def prefix_written_def computed_prefix_def)
  from event_tail_length[OF this, of ev] show ?thesis
    using body_length[OF sz] body_length[of 0] digest_of_text_length[OF env, of "said_code ev" "dummied_text ev"]
    by (simp add: event_bytes_parts event_size_def dummied_at_def computed_said_def size_fits_def)
qed

text \<open>A span filled is a slot patched with the dummy.\<close>

lemma fill_span_patch:
  "patch_slot b (i, i + l) (replicate l DUMMY_CHAR) = Inr x \<Longrightarrow> fill_span b (i, i + l) = Inr x"
  by (simp add: patch_slot_def fill_span_def split: option.splits if_splits)

lemma fill_said:
  assumes env: "codec_env cr dec" and vs: "length vs = 17" and t: "length t = 3"
  shows "fill_span (body_text vs t (digest_text (digest_of cr c data)) rest) (40, 40 + length (digest_text (digest_of cr c data))) =
    Inr (body_text vs t (said_place c) rest)"
proof (rule fill_span_patch)
  have "replicate (length (digest_text (digest_of cr c data))) DUMMY_CHAR = said_place c"
    using said_place_ok[OF digest_of_ok[OF env], of c data] by (simp add: digest_of_def Matter_new_def)
  then show "patch_slot (body_text vs t (digest_text (digest_of cr c data)) rest) (40, 40 + length (digest_text (digest_of cr c data)))
      (replicate (length (digest_text (digest_of cr c data))) DUMMY_CHAR) = Inr (body_text vs t (said_place c) rest)"
    using patch_said[OF vs t, of "said_place c" "digest_text (digest_of cr c data)" rest]
    by (simp add: digest_of_text_length[OF env])
qed

lemma fill_prefix:
  assumes env: "codec_env cr dec" and vs: "length vs = 17" and t: "length t = 3"
  shows "fill_span (body_text vs t said (wire '',`i`:'' @ quote (digest_text (digest_of cr c data)) @ rest))
      (47 + length said, 47 + length said + length (digest_text (digest_of cr c data))) =
    Inr (body_text vs t said (wire '',`i`:'' @ quote (said_place c) @ rest))"
proof (rule fill_span_patch)
  have "replicate (length (digest_text (digest_of cr c data))) DUMMY_CHAR = said_place c"
    using said_place_ok[OF digest_of_ok[OF env], of c data] by (simp add: digest_of_def Matter_new_def)
  then show "patch_slot (body_text vs t said (wire '',`i`:'' @ quote (digest_text (digest_of cr c data)) @ rest))
      (47 + length said, 47 + length said + length (digest_text (digest_of cr c data)))
      (replicate (length (digest_text (digest_of cr c data))) DUMMY_CHAR) =
    Inr (body_text vs t said (wire '',`i`:'' @ quote (said_place c) @ rest))"
    using patch_id[OF vs t, of "said_place c" "digest_text (digest_of cr c data)" said rest]
    by (simp add: digest_of_text_length[OF env])
qed

lemma check_said_hit:
  assumes "codec_env cr dec" "sp_value v = digest_text (digest_of cr c scratch)"
  shows "check_saids cr scratch ((v, c) # slots) = check_saids cr scratch slots"
  using assms by (simp add: said_digest_of said_qb64_text[OF assms(1) digest_of_ok[OF assms(1)]])

lemma digest_of_code [simp]: "m_code (digest_of cr c data) = c"
  by (simp add: digest_of_def Matter_new_def)

lemma spanned_simps [simp]:
  "sp_value (spanned n v) = v" "sp_span (spanned n v) = (Suc n, Suc n + length v)"
  by (simp_all add: sp_span_def spanned_def)

lemma verify_one_text:
  assumes env: "codec_env cr dec" and vs: "length vs = 17" and t: "length t = 3"
    and said: "s = digest_of cr c (body_text vs t (said_place c) rest)"
  shows "verify_one_said cr (spanned 39 (digest_text s)) (body_text vs t (digest_text s) rest) = Some (Inr ())"
proof -
  let ?v = "spanned 39 (digest_text s)"
  have f: "fill_spans (body_text vs t (digest_text s) rest) [(?v, c)] = Inr (body_text vs t (said_place c) rest)"
    using fill_said[OF env vs t, of c _ rest] by (simp add: said)
  have k: "check_saids cr (body_text vs t (said_place c) rest) [(?v, c)] = Some (Inr ())"
    by (subst check_said_hit[OF env]) (use said in \<open>simp_all only: spanned_simps check_saids.simps\<close>)
  have i: "infer_code (digest_text s) = Inr c" by (simp add: infer_text said)
  show ?thesis using f k by (simp add: verify_one_said_def verify_said_spans_def i)
qed

lemma verify_two_text:
  assumes env: "codec_env cr dec" and vs: "length vs = 17" and t: "length t = 3"
    and d: "dummy = body_text vs t (said_place c) (wire '',`i`:'' @ quote (said_place c') @ rest)"
    and said: "s = digest_of cr c dummy" "s' = digest_of cr c' dummy"
    and p: "pi_said p = spanned 39 (digest_text s)" "pi_prefix p = spanned (46 + length (digest_text s)) (digest_text s')"
  shows "ParsedIcp_verify_said cr p (body_text vs t (digest_text s) (wire '',`i`:'' @ quote (digest_text s') @ rest)) = Some (Inr ())"
proof -
  let ?raw = "body_text vs t (digest_text s) (wire '',`i`:'' @ quote (digest_text s') @ rest)"
  let ?slots = "[(pi_said p, c), (pi_prefix p, c')]"
  have w: "length (digest_text s) = length (said_place c)" unfolding said by (rule digest_of_text_length[OF env])
  have f1: "fill_span ?raw (40, 40 + length (digest_text s)) =
     Inr (body_text vs t (said_place c) (wire '',`i`:'' @ quote (digest_text s') @ rest))"
    unfolding said by (rule fill_said[OF env vs t])
  have f2: "fill_span (body_text vs t (said_place c) (wire '',`i`:'' @ quote (digest_text s') @ rest))
      (47 + length (digest_text s), 47 + length (digest_text s) + length (digest_text s')) = Inr dummy"
    unfolding w d unfolding said by (rule fill_prefix[OF env vs t])
  have f: "fill_spans ?raw ?slots = Inr dummy" using f1 f2 by (simp add: p)
  have k: "check_saids cr dummy ?slots = Some (Inr ())"
    by (subst check_said_hit[OF env], simp only: p spanned_simps said, subst check_said_hit[OF env])
      (simp_all only: p spanned_simps said check_saids.simps)
  have i: "infer_code (digest_text s) = Inr c" "probe_digest_code (digest_text s') = Some c'"
    by (simp_all add: infer_text probe_digest_text said)
  have v: "verify_said_spans cr ?raw ?slots = Some (Inr ())"
    unfolding verify_said_spans_def f pan_bind_simps by (rule k)
  show ?thesis
    unfolding ParsedIcp_verify_said_def by (simp only: p spanned_simps i pan_bind_simps option.case) (rule v[unfolded p])
qed

lemma verify_basic_text:
  assumes "pi_prefix p = spanned k (key_text i)"
  shows "ParsedIcp_verify_said cr p raw = verify_one_said cr (pi_said p) raw"
  by (simp add: ParsedIcp_verify_said_def verify_one_said_def probe_key_text assms)

lemma icp_verify_text:
  assumes env: "codec_env cr dec" and vs: "length vs = 17" and t: "length t = 3"
    and tail: "\<And>pre. event_tail_text pre ev = wire '',`i`:'' @ quote pre @ rest"
    and code: "prefix_said_code ev = (case ev_prefix ev of SelfAddressing s \<Rightarrow> Some (m_code s) | Basic _ \<Rightarrow> None)"
    and dummy: "dummied_text ev = body_text vs t (said_place (said_code ev))
      (event_tail_text (prefix_written ev (map_option said_place (prefix_said_code ev))) ev)"
    and p: "pi_said p = spanned 39 (digest_text (computed_said cr ev))"
      "pi_prefix p = spanned (46 + length (digest_text (computed_said cr ev))) (written_prefix cr ev)"
  shows "ParsedIcp_verify_said cr p (body_text vs t (digest_text (computed_said cr ev)) (event_tail_text (written_prefix cr ev) ev)) =
    Some (Inr ())"
proof (cases "ev_prefix ev")
  case (SelfAddressing s)
  let ?d = "dummied_text ev"
  have w: "written_prefix cr ev = digest_text (digest_of cr (m_code s) ?d)"
    using code SelfAddressing by (simp add: written_prefix_def prefix_written_def computed_prefix_def)
  have d: "?d = body_text vs t (said_place (said_code ev)) (wire '',`i`:'' @ quote (said_place (m_code s)) @ rest)"
    using dummy code SelfAddressing by (simp add: tail prefix_written_def del: wire_punct)
  show ?thesis unfolding tail w
    by (rule verify_two_text[OF env vs t d computed_said_def refl p(1) p(2)[unfolded w]])
next
  case (Basic b)
  have w: "written_prefix cr ev = key_text b"
    using code Basic by (simp add: written_prefix_def prefix_written_def computed_prefix_def)
  have d: "computed_said cr ev = digest_of cr (said_code ev) (body_text vs t (said_place (said_code ev)) (event_tail_text (written_prefix cr ev) ev))"
    using dummy code Basic w by (simp add: computed_said_def prefix_written_def)
  show ?thesis unfolding verify_basic_text[OF p(2)[unfolded w]] p(1)
    by (rule verify_one_text[OF env vs t d])
qed

lemma event_verify_text:
  assumes env: "codec_env cr dec" and sz: "size_fits (event_size ev)"
  shows "ParsedEvent_verify_said cr (event_parsed (digest_text (computed_said cr ev)) (written_prefix cr ev) ev) (event_bytes cr ev) =
    Some (Inr ())"
proof -
  let ?vs = "version_text (event_size ev)" and ?t = "MessageType_code (ev_message_type ev)"
  have vs: "length ?vs = 17" by (rule version_text_length[OF sz])
  have d: "dummied_text ev = body_text ?vs ?t (said_place (said_code ev))
      (event_tail_text (prefix_written ev (map_option said_place (prefix_said_code ev))) ev)"
    by (simp add: dummied_text_def dummied_at_def)
  have one: "verify_one_said cr (spanned 39 (digest_text (computed_said cr ev))) (event_bytes cr ev) = Some (Inr ())"
    if "prefix_said_code ev = None"
    unfolding event_bytes_parts
    by (rule verify_one_text[OF env vs event_type_length])
      (use that d in \<open>simp add: computed_said_def written_prefix_def computed_prefix_def\<close>)
  note two = icp_verify_text[OF env vs event_type_length _ _ d, folded event_bytes_parts]
  show ?thesis
  proof (cases ev)
    case (Inception e)
    have "ParsedIcp_verify_said cr (icp_parsed 34 (digest_text (computed_said cr ev)) (written_prefix cr ev) e) (event_bytes cr ev) = Some (Inr ())"
      by (rule two[where rest = "icp_tail_text e @ wire ''}''"]) (simp_all add: Inception icp_parsed_def)
    then show ?thesis by (simp add: Inception)
  next
    case (DelegatedInception e)
    have "ParsedIcp_verify_said cr (icp_parsed 34 (digest_text (computed_said cr ev)) (written_prefix cr ev) (dip_inception e)) (event_bytes cr ev) = Some (Inr ())"
      by (rule two[where rest = "icp_tail_text (dip_inception e) @ wire '',`di`:'' @ quote (identifier_text (dip_delegator e)) @ wire ''}''"])
        (simp_all add: DelegatedInception icp_parsed_def)
    then show ?thesis by (simp add: DelegatedInception dip_parsed_def)
  qed (use one in \<open>simp_all add: ParsedRot_verify_said_def ParsedIxn_verify_said_def rot_parsed_def ixn_parsed_def\<close>)
qed

section \<open>The event read back\<close>

lemma written_prefix_basic: "computed_prefix cr ev = None \<Longrightarrow> written_prefix cr ev = identifier_text (ev_prefix ev)"
  by (simp add: written_prefix_def prefix_written_def)

lemma written_prefix_said: "computed_prefix cr ev = Some p \<Longrightarrow> written_prefix cr ev = identifier_text (SelfAddressing p)"
  by (simp add: written_prefix_def prefix_written_def)

definition stamped_prefix :: "crypto \<Rightarrow> KeriEvent \<Rightarrow> Identifier" where
  "stamped_prefix cr ev = (case computed_prefix cr ev of Some p \<Rightarrow> SelfAddressing p | None \<Rightarrow> ev_prefix ev)"

lemma written_prefix_text: "written_prefix cr ev = identifier_text (stamped_prefix cr ev)"
  by (cases "computed_prefix cr ev") (simp_all add: stamped_prefix_def written_prefix_basic written_prefix_said)

lemma stamped_prefix_ok:
  assumes env: "codec_env cr dec"
    and code: "prefix_said_code ev = (case ev_prefix ev of SelfAddressing s \<Rightarrow> Some (m_code s) | Basic _ \<Rightarrow> None)"
    and ok: "prefix_writable (ev_prefix ev)"
  shows "identifier_wire_ok (stamped_prefix cr ev)" "self_addressing (stamped_prefix cr ev) = self_addressing (ev_prefix ev)"
    "\<not> self_addressing (ev_prefix ev) \<Longrightarrow> stamped_prefix cr ev = ev_prefix ev"
  using code ok digest_of_ok[OF env]
  by (cases "ev_prefix ev"; simp add: stamped_prefix_def computed_prefix_def prefix_writable_def self_addressing_def)+

lemma check_identity_stamp:
  assumes "check_identity e = Inr ()" "self_addressing i = self_addressing (icp_prefix e)"
    "\<not> self_addressing (icp_prefix e) \<Longrightarrow> i = icp_prefix e"
  shows "check_identity (e\<lparr>icp_said := s, icp_prefix := i\<rparr>) = Inr ()"
  using assms by (cases "icp_prefix e"; cases i) (auto simp: check_identity_def self_addressing_def split: if_splits)

lemma icp_lawful_stamp:
  "icp_lawful e \<Longrightarrow> self_addressing i = self_addressing (icp_prefix e) \<Longrightarrow> (\<not> self_addressing (icp_prefix e) \<Longrightarrow> i = icp_prefix e) \<Longrightarrow>
   icp_lawful (e\<lparr>icp_said := s, icp_prefix := i\<rparr>)"
  by (simp add: icp_lawful_def check_identity_stamp)

lemma stamped_simps:
  "stamped cr (Inception e) = Inception (e\<lparr>icp_said := computed_said cr (Inception e), icp_prefix := stamped_prefix cr (Inception e)\<rparr>)"
  "stamped cr (DelegatedInception d) = DelegatedInception (d\<lparr>dip_inception := (dip_inception d)\<lparr>icp_said := computed_said cr (DelegatedInception d),
     icp_prefix := stamped_prefix cr (DelegatedInception d)\<rparr>\<rparr>)"
  "stamped cr (Rotation r) = Rotation (r\<lparr>rot_said := computed_said cr (Rotation r)\<rparr>)"
  "stamped cr (DelegatedRotation x) = DelegatedRotation (x\<lparr>drt_rotation := (drt_rotation x)\<lparr>rot_said := computed_said cr (DelegatedRotation x)\<rparr>\<rparr>)"
  "stamped cr (Interaction y) = Interaction (y\<lparr>ixn_said := computed_said cr (Interaction y)\<rparr>)"
  by (simp_all add: stamped_def stamped_prefix_def cong: option.case_cong)

lemma build_event_text:
  assumes env: "codec_env cr dec" and ok: "event_wire_ok ev" and law: "event_lawful ev"
  shows "build_event dec (event_parsed (digest_text (computed_said cr ev)) (written_prefix cr ev) ev) = Inr (stamped cr ev)"
proof -
  have eng: "b64_engine (b64_encode cr) dec" using env by (simp add: codec_env_def)
  note s = computed_said_ok(1)[OF env, of ev]
  show ?thesis
  proof (cases ev)
    case (Inception e)
    note p = stamped_prefix_ok[OF env, of ev]
    have "build_inception dec (icp_parsed 34 (digest_text (computed_said cr ev)) (identifier_text (stamped_prefix cr ev)) e) =
        Inr (e\<lparr>icp_said := computed_said cr ev, icp_prefix := stamped_prefix cr ev\<rparr>)"
      by (rule build_inception_text[OF eng _ icp_lawful_stamp s]) (use Inception ok law p in simp_all)
    then show ?thesis by (simp add: Inception written_prefix_text stamped_simps)
  next
    case (DelegatedInception e)
    note p = stamped_prefix_ok[OF env, of ev]
    have "build_inception dec (icp_parsed 34 (digest_text (computed_said cr ev)) (identifier_text (stamped_prefix cr ev)) (dip_inception e)) =
        Inr ((dip_inception e)\<lparr>icp_said := computed_said cr ev, icp_prefix := stamped_prefix cr ev\<rparr>)"
      by (rule build_inception_text[OF eng _ icp_lawful_stamp s]) (use DelegatedInception ok law p in simp_all)
    then show ?thesis using DelegatedInception ok law p
      by (simp add: written_prefix_text stamped_simps build_delegated_inception_def dip_parsed_def identifier_text_lift[OF eng])
  next
    case (Rotation e)
    then show ?thesis using build_rotation_text[OF eng _ _ s, of e 34] ok law by (simp add: stamped_simps)
  next
    case (DelegatedRotation e)
    then show ?thesis using build_rotation_text[OF eng _ _ s, of "drt_rotation e" 34] ok law
      by (simp add: stamped_simps build_delegated_rotation_def)
  next
    case (Interaction e)
    then show ?thesis using build_interaction_text[OF eng _ s, of e 34] ok by (simp add: stamped_simps)
  qed
qed

lemma event_deserialize_bytes:
  assumes env: "codec_env cr dec" and ok: "event_wire_ok ev" and law: "event_lawful ev" and sz: "size_fits (event_size ev)"
    and lim: "limits_allow limits (event_cost ev)"
  shows "KeriEvent_deserialize cr dec (event_bytes cr ev) limits = Some (Inr (stamped cr ev))"
proof -
  have w: "plain_text (written_prefix cr ev)"
  proof (cases "computed_prefix cr ev")
    case (Some p)
    then show ?thesis using matter_text_plain[OF computed_prefix_ok(1)[OF Some env]] by (simp add: written_prefix_said)
  next
    case None
    then show ?thesis using ok unfolding written_prefix_basic[OF None]
      by (cases ev; cases "ev_prefix ev")
        (auto simp: computed_prefix_def prefix_writable_def matter_text_plain rot_wire_ok_def ixn_wire_ok_def identifier_plain)
  qed
  have p: "ParsedEvent_parse (event_bytes cr ev) limits =
      Inr (event_parsed (digest_text (computed_said cr ev)) (written_prefix cr ev) ev)"
    by (rule event_parse_text[OF ok _ w event_bytes_parts event_bytes_length[OF env sz] sz lim])
      (rule matter_text_plain[OF computed_said_ok(1)[OF env]])
  have c: "check_json_body (event_bytes cr ev) = Inr ()" unfolding event_bytes_parts by (rule check_json_body_text[OF sz])
  show ?thesis
    using event_verify_text[OF env sz] build_event_text[OF env ok law]
    by (simp add: KeriEvent_deserialize_def checked_def deserialize_event_def p c)
qed

text \<open>Stamping changes nothing that a digest covers.\<close>

lemma stamped_codes:
  "ev_message_type (stamped cr ev) = ev_message_type ev" "said_code (stamped cr ev) = said_code ev"
  "prefix_said_code (stamped cr ev) = prefix_said_code ev" "event_tail_text pre (stamped cr ev) = event_tail_text pre ev"
proof -
  have i: "icp_tail_text (e\<lparr>icp_said := s, icp_prefix := i\<rparr>) = icp_tail_text e" for e s i
    by (simp add: icp_tail_text_def icp_lists_text_def)
  have r: "rot_lists_text (e\<lparr>rot_said := s\<rparr>) = rot_lists_text e" for e s
    by (simp add: rot_lists_text_def)
  show "ev_message_type (stamped cr ev) = ev_message_type ev" by (cases ev) (simp_all add: stamped_simps)
  show "event_tail_text pre (stamped cr ev) = event_tail_text pre ev" by (cases ev) (simp_all add: stamped_simps i r)
  show "said_code (stamped cr ev) = said_code ev"
    by (cases ev) (simp_all add: stamped_simps computed_said_def said_code_def)
  show "prefix_said_code (stamped cr ev) = prefix_said_code ev"
    by (cases ev) (auto simp: stamped_simps stamped_prefix_def computed_prefix_def split: Identifier.splits option.splits)
qed

lemma stamped_prefix_kept: "prefix_said_code ev = None \<Longrightarrow> ev_prefix (stamped cr ev) = ev_prefix ev"
  by (cases ev) (simp_all add: stamped_simps stamped_prefix_def computed_prefix_def)

lemma dummied_stamped: "dummied_at n (stamped cr ev) = dummied_at n ev"
  by (cases "prefix_said_code ev") (simp_all add: dummied_at_def stamped_codes prefix_written_def stamped_prefix_kept)

lemma stamped_computed:
  "event_size (stamped cr ev) = event_size ev" "computed_said cr (stamped cr ev) = computed_said cr ev"
  "computed_prefix cr (stamped cr ev) = computed_prefix cr ev" "event_bytes cr (stamped cr ev) = event_bytes cr ev"
proof -
  show sz: "event_size (stamped cr ev) = event_size ev" by (simp add: event_size_def dummied_stamped)
  then show s: "computed_said cr (stamped cr ev) = computed_said cr ev"
    by (simp add: computed_said_def dummied_text_def stamped_codes dummied_stamped)
  show p: "computed_prefix cr (stamped cr ev) = computed_prefix cr ev"
    using sz by (simp add: computed_prefix_def dummied_text_def stamped_codes dummied_stamped)
  show "event_bytes cr (stamped cr ev) = event_bytes cr ev"
    using sz s p by (cases "prefix_said_code ev")
      (simp_all add: event_bytes_def stamped_codes prefix_written_def stamped_prefix_kept computed_prefix_def)
qed

lemma stamped_wire_ok:
  assumes "event_wire_ok ev" "codec_env cr dec"
  shows "event_wire_ok (stamped cr ev)"
proof -
  have i: "icp_wire_ok (e\<lparr>icp_said := s, icp_prefix := i\<rparr>) = icp_wire_ok e" for e s i by (simp add: icp_wire_ok_def)
  have r: "rot_wire_ok (e\<lparr>rot_said := s\<rparr>) = rot_wire_ok e" for e s by (simp add: rot_wire_ok_def)
  have x: "ixn_wire_ok (e\<lparr>ixn_said := s\<rparr>) = ixn_wire_ok e" for e s by (simp add: ixn_wire_ok_def)
  have w: "prefix_writable i \<Longrightarrow> prefix_writable (case p of Some p \<Rightarrow> SelfAddressing p | None \<Rightarrow> i)" for i p
    by (simp add: prefix_writable_def split: option.splits)
  show ?thesis using assms(1) by (cases ev) (simp_all add: stamped_simps stamped_prefix_def i r x w)
qed

end
