(* ===== verification/Codec_Accept.thy ===== *)
theory Codec_Accept
  imports Codec_Roundtrip
begin

text \<open>
  What an accepted body looks like. The first fields of a body stand at fixed offsets; the
  digest in \<^verbatim>\<open>d\<close>, and in \<^verbatim>\<open>i\<close> where the identifier is self-addressing, is the digest of the
  body with exactly those fields dummied.
\<close>

section \<open>What a reader took\<close>

definition took :: "Scanner \<Rightarrow> bytes \<Rightarrow> Scanner \<Rightarrow> bool" where
  "took sc t sc' \<longleftrightarrow>
     sc_input sc' = sc_input sc \<and> sc_pos sc' = sc_pos sc + length t \<and>
     drop (sc_pos sc) (sc_input sc) = t @ drop (sc_pos sc') (sc_input sc)"

lemma took_append: "took a s b \<Longrightarrow> took b t c \<Longrightarrow> took a (s @ t) c"
  by (simp add: took_def)

lemma slice_took: "slice_range xs a b = Some t \<Longrightarrow> a + length t = b \<and> drop a xs = t @ drop b xs"
  by (auto simp: slice_range_Some min_def) (metis append_take_drop_id drop_drop le_add_diff_inverse2)

lemma expect_took: "expect l sc = Inr (u, sc') \<Longrightarrow> took sc (wire l) sc'"
  by (auto simp: expect_def take_lit_def Let_def took_def dest: slice_took split: if_splits)

lemma string_end_quote: "string_end sc = Inr (u, sc') \<Longrightarrow> sc_input sc' = sc_input sc \<and> sc_pos sc \<le> sc_pos sc'"
  using string_end_onward by (simp add: onward_def)

lemma json_plain_took:
  assumes "json_plain sc = Inr (v, sc')"
  shows "took sc (quote (sp_value v)) sc' \<and> v = spanned (sc_pos sc) (sp_value v)"
proof -
  from assms obtain sc1 sc2 bs where e: "expect ''`'' sc = Inr ((), sc1)" "string_end sc1 = Inr ((), sc2)"
    and s: "slice_range (sc_input sc2) (sc_pos sc1) (sc_pos sc2) = Some bs" and c: "expect ''`'' sc2 = Inr ((), sc')"
    and v: "v = \<lparr>sp_value = bs, sp_start = sc_pos sc1, sp_end = sc_pos sc2\<rparr>"
    by (auto simp: json_plain_def Let_def)
  have w: "wire ''`'' = [0x22]" by (simp add: wire_eval)
  note t = expect_took[OF e(1), unfolded w] expect_took[OF c, unfolded w] string_end_quote[OF e(2)] slice_took[OF s]
  show ?thesis using t v by (simp add: took_def spanned_def quote_def)
qed

lemma plain_value_took: "plain_value sc = Inr (v, sc') \<Longrightarrow> took sc (quote v) sc'"
  by (auto simp: plain_value_def dest: json_plain_took)

section \<open>Heads\<close>

lemma event_head_took:
  assumes "event_head raw limits = Inr (mt, sc)"
  shows "\<exists>vs. length vs = 17 \<and> took \<lparr>sc_input = raw, sc_pos = 0, sc_budget = b\<rparr> (head_text vs (sp_value mt)) sc"
proof -
  let ?sc0 = "Scanner_with_budget raw (JsonBudget_of_limits limits)"
  from assms obtain sc1 vs v r where e: "expect ''{`v`:`'' ?sc0 = Inr ((), sc1)"
    and s: "slice_range raw (sc_pos sc1) (sc_pos sc1 + 17) = Some vs"
    and h: "head_rest (sc1\<lparr>sc_pos := sc_pos sc1 + 17\<rparr>) = Inr (mt, sc)"
    by (fastforce simp: event_head_def Let_def VERSION_STRING_LEN_def split: if_splits)
  have l: "length (wire ''{`v`:`'') = 6" by (simp add: wire_eval)
  have t1: "took ?sc0 (wire ''{`v`:`'') sc1" using e by (rule expect_took)
  have t2: "took (sc1\<lparr>sc_pos := sc_pos sc1 + 17\<rparr>) (wire ''`,`t`:'' @ quote (sp_value mt)) sc"
    using h by (auto simp: head_rest_def dest!: expect_took json_plain_took intro: took_append)
  have p0: "sc_pos sc1 = 6" "sc_input sc1 = raw" using t1 l by (simp_all add: took_def Scanner_with_budget_def)
  have "drop 0 raw = wire ''{`v`:`'' @ drop (sc_pos sc1) raw"
    using t1 unfolding took_def Scanner_with_budget_def by (simp only: Scanner.simps)
  then have p1: "sc_pos sc1 = 6" "sc_input sc1 = raw" "raw = wire ''{`v`:`'' @ drop 6 raw" using p0 by (simp_all only: drop_0)
  have p2: "length vs = 17" "drop 6 raw = vs @ drop 23 raw" using slice_took[OF s] p1(1) by simp_all
  have p3: "sc_input sc = raw" "drop 23 raw = (wire ''`,`t`:'' @ quote (sp_value mt)) @ drop (sc_pos sc) raw"
    "sc_pos sc = 23 + length (wire ''`,`t`:'' @ quote (sp_value mt))" using t2 p1 by (simp_all add: took_def)
  have "raw = head_text vs (sp_value mt) @ drop (sc_pos sc) raw"
    using p1(3)[unfolded p2(2), unfolded p3(2)] by (simp add: head_text_def)
  then have "took \<lparr>sc_input = raw, sc_pos = 0, sc_budget = b\<rparr> (head_text vs (sp_value mt)) sc"
    using p3 p2(1) l by (simp add: took_def head_text_def)
  with p2(1) show ?thesis by blast
qed

section \<open>First fields\<close>

lemma length_d: "length (wire '',`d`:'') = 5" "length (wire '',`i`:'') = 5" "length (quote v) = length v + 2"
  by (simp_all add: wire_eval quote_def)

lemma icp_fields_took:
  assumes "icp_fields sc = Inr (p, sc')"
  shows "\<exists>sc1. took sc (wire '',`d`:'' @ quote (sp_value (pi_said p)) @ wire '',`i`:'' @ quote (sp_value (pi_prefix p))) sc1 \<and>
    pi_said p = spanned (sc_pos sc + 5) (sp_value (pi_said p)) \<and>
    pi_prefix p = spanned (sc_pos sc + 12 + length (sp_value (pi_said p))) (sp_value (pi_prefix p))"
proof -
  from assms obtain sc1 sc2 sc3 sc4 where e: "expect '',`d`:'' sc = Inr ((), sc1)" "json_plain sc1 = Inr (pi_said p, sc2)"
    "expect '',`i`:'' sc2 = Inr ((), sc3)" "json_plain sc3 = Inr (pi_prefix p, sc4)"
    unfolding icp_fields_def key_fields_def icp_lists_def by fastforce
  note t = expect_took[OF e(1)] json_plain_took[OF e(2)] expect_took[OF e(3)] json_plain_took[OF e(4)]
  have "took sc (wire '',`d`:'' @ quote (sp_value (pi_said p)) @ wire '',`i`:'' @ quote (sp_value (pi_prefix p))) sc4"
    by (intro took_append[OF t(1)] took_append[OF conjunct1[OF t(2)]] took_append[OF t(3)] conjunct1[OF t(4)])
  moreover have "sc_pos sc1 = sc_pos sc + 5" "sc_pos sc3 = sc_pos sc + 12 + length (sp_value (pi_said p))"
    using t by (simp_all add: took_def length_d)
  ultimately show ?thesis using t(2,4) by auto
qed

lemma said_took:
  assumes "expect '',`d`:'' sc = Inr (u, sc1)" "json_plain sc1 = Inr (said, sc2)"
  shows "took sc (wire '',`d`:'' @ quote (sp_value said)) sc2 \<and> said = spanned (sc_pos sc + 5) (sp_value said)"
proof -
  note t = expect_took[OF assms(1)] json_plain_took[OF assms(2)]
  have "sc_pos sc1 = sc_pos sc + 5" using t by (simp add: took_def length_d)
  then show ?thesis using t by (auto intro: took_append)
qed

lemma rot_fields_took:
  assumes "rot_fields sc = Inr (p, sc')"
  shows "\<exists>sc1. took sc (wire '',`d`:'' @ quote (sp_value (pr_said p))) sc1 \<and> pr_said p = spanned (sc_pos sc + 5) (sp_value (pr_said p))"
proof -
  from assms obtain sc1 sc2 where "expect '',`d`:'' sc = Inr ((), sc1)" "json_plain sc1 = Inr (pr_said p, sc2)"
    unfolding rot_fields_def chain_fields_def key_fields_def rot_lists_def by fastforce
  from said_took[OF this] show ?thesis by blast
qed

lemma ixn_fields_took:
  assumes "ixn_fields sc = Inr (p, sc')"
  shows "\<exists>sc1. took sc (wire '',`d`:'' @ quote (sp_value (px_said p))) sc1 \<and> px_said p = spanned (sc_pos sc + 5) (sp_value (px_said p))"
proof -
  from assms obtain sc1 sc2 where "expect '',`d`:'' sc = Inr ((), sc1)" "json_plain sc1 = Inr (px_said p, sc2)"
    unfolding ixn_fields_def chain_fields_def by fastforce
  from said_took[OF this] show ?thesis by blast
qed

lemma run_fields: "run (then_read q body_end) sc = Inr p \<Longrightarrow> \<exists>sc'. q sc = Inr (p, sc')"
  by (auto simp: run_def body_end_def)

text \<open>A head and what follows it, as one text.\<close>

lemma head_body:
  assumes "took \<lparr>sc_input = raw, sc_pos = 0, sc_budget = b\<rparr> (head_text vs t) sc" "took sc a sc1"
  shows "\<exists>rest. raw = head_text vs t @ a @ rest"
  using took_append[OF assms] by (fastforce simp: took_def)

section \<open>What the check of the digests shows\<close>

lemma check_saids_accepts:
  assumes "codec_env cr dec" "check_saids cr scratch slots = Some (Inr ())" "(v, c) \<in> set slots"
  shows "sp_value v = digest_text (digest_of cr c scratch)"
  using assms(2,3)
proof (induction slots)
  case (Cons s slots)
  obtain v' c' where s: "s = (v', c')" by fastforce
  show ?case using Cons
    by (auto simp: s said_digest_of[OF assms(1)] said_qb64_text[OF assms(1) digest_of_ok[OF assms(1)]] split: if_splits)
qed simp

lemma fill_at:
  assumes "length vs = 17" "length t = 3"
  shows "fill_span (body_text vs t q rest) (40, 40 + length q) = Inr (body_text vs t (replicate (length q) DUMMY_CHAR) rest)"
    "fill_span (body_text vs t q (wire '',`i`:'' @ quote i @ zs)) (47 + length q, 47 + length q + length i) =
      Inr (body_text vs t q (wire '',`i`:'' @ quote (replicate (length i) DUMMY_CHAR) @ zs))"
  by (rule fill_span_patch, rule patch_said[OF assms], simp) (rule fill_span_patch, rule patch_id[OF assms], simp)

lemma overwrite_at:
  assumes "length vs = 17" "length t = 3"
  shows "length q' = length q \<Longrightarrow> overwrite 40 q' (body_text vs t q rest) = body_text vs t q' rest"
    "length i' = length i \<Longrightarrow> overwrite (47 + length q) i' (body_text vs t q (wire '',`i`:'' @ quote i @ zs)) =
      body_text vs t q (wire '',`i`:'' @ quote i' @ zs)"
proof -
  assume q: "length q' = length q"
  show "overwrite 40 q' (body_text vs t q rest) = body_text vs t q' rest"
    using patch_said[OF assms q, of rest] by (simp add: patch_slot_def split: option.splits if_splits)
next
  assume i: "length i' = length i"
  show "overwrite (47 + length q) i' (body_text vs t q (wire '',`i`:'' @ quote i @ zs)) = body_text vs t q (wire '',`i`:'' @ quote i' @ zs)"
    using patch_id[OF assms i, of q zs] by (simp add: patch_slot_def split: option.splits if_splits)
qed

lemma place_of_text:
  "codec_env cr dec \<Longrightarrow> q = digest_text (digest_of cr c data) \<Longrightarrow> replicate (length q) DUMMY_CHAR = said_place c"
  using said_place_ok[OF digest_of_ok, of cr dec c data] by simp

lemma one_accepts:
  assumes env: "codec_env cr dec" and vs: "length vs = 17" "length t = 3"
    and v: "verify_said_spans cr (body_text vs t q rest) [(spanned 39 q, c)] = Some (Inr ())"
  shows "q = digest_text (digest_of cr c (body_text vs t (said_place c) rest))"
proof -
  let ?d = "body_text vs t (replicate (length q) DUMMY_CHAR) rest"
  have f: "fill_spans (body_text vs t q rest) [(spanned 39 q, c)] = Inr ?d" using fill_at(1)[OF vs] by simp
  have k: "check_saids cr ?d [(spanned 39 q, c)] = Some (Inr ())" using v unfolding verify_said_spans_def f pan_bind_simps .
  have "q = digest_text (digest_of cr c ?d)" using check_saids_accepts[OF env k] by simp
  moreover from this have "replicate (length q) DUMMY_CHAR = said_place c" by (rule place_of_text[OF env])
  ultimately show ?thesis by simp
qed

lemma two_accepts:
  assumes env: "codec_env cr dec" and vs: "length vs = 17" "length t = 3"
    and v: "verify_said_spans cr (body_text vs t q (wire '',`i`:'' @ quote i @ zs)) [(spanned 39 q, c), (spanned (46 + length q) i, c')] = Some (Inr ())"
  shows "let dummy = body_text vs t (said_place c) (wire '',`i`:'' @ quote (said_place c') @ zs)
    in q = digest_text (digest_of cr c dummy) \<and> i = digest_text (digest_of cr c' dummy)"
proof -
  let ?b = "body_text vs t q (wire '',`i`:'' @ quote i @ zs)" and ?slots = "[(spanned 39 q, c), (spanned (46 + length q) i, c')]"
  let ?d = "body_text vs t (replicate (length q) DUMMY_CHAR) (wire '',`i`:'' @ quote (replicate (length i) DUMMY_CHAR) @ zs)"
  have f: "fill_spans ?b ?slots = Inr ?d"
    using fill_at(1)[OF vs, of q] fill_at(2)[OF vs, of "replicate (length q) DUMMY_CHAR" i] by simp
  have k: "check_saids cr ?d ?slots = Some (Inr ())" using v unfolding verify_said_spans_def f pan_bind_simps .
  have q: "q = digest_text (digest_of cr c ?d)" "i = digest_text (digest_of cr c' ?d)"
    using check_saids_accepts[OF env k, of "spanned 39 q" c] check_saids_accepts[OF env k, of "spanned (46 + length q) i" c'] by simp_all
  have r: "replicate (length q) DUMMY_CHAR = said_place c" "replicate (length i) DUMMY_CHAR = said_place c'"
    using place_of_text[OF env q(1)] place_of_text[OF env q(2)] .
  show ?thesis using q unfolding Let_def r by (rule conjI)
qed

section \<open>What building shows\<close>

lemma build_inception_Inr:
  assumes "build_inception dec p = Inr e"
  shows "digest_from_wire dec ''d'' (sp_value (pi_said p)) = Inr (icp_said e)"
    "identifier_from_wire dec ''i'' (sp_value (pi_prefix p)) = Inr (icp_prefix e)" "icp_lawful e"
  using assms
  by (auto simp: build_inception_def Let_def icp_lawful_def check_thresholds_lawful toad_exact_Inr)

lemma build_rotation_Inr:
  assumes "build_rotation dec p = Inr e"
  shows "digest_from_wire dec ''d'' (sp_value (pr_said p)) = Inr (rot_said e)" "rot_lawful e"
  using assms by (auto simp: build_rotation_def Let_def rot_lawful_def check_thresholds_lawful)

lemma build_interaction_Inr:
  "build_interaction dec p = Inr e \<Longrightarrow> digest_from_wire dec ''d'' (sp_value (px_said p)) = Inr (ixn_said e)"
  by (auto simp: build_interaction_def)

lemma identifier_cases:
  assumes "identifier_from_wire dec f s = Inr i"
  shows "(\<exists>k. i = Basic k \<and> key_from_wire dec f s = Inr k) \<or> (\<exists>d. i = SelfAddressing d \<and> digest_from_wire dec f s = Inr d)"
  using assms by (auto simp: identifier_from_wire_def split: sum.splits)

lemma matter_from_wire_code:
  assumes "matter_from_wire dec try_from f s = Inr m"
  shows "\<exists>c. from_base64_stream s = Inr c \<and> try_from c = Inr (m_code m)"
proof -
  from assms obtain w where w: "from_qualified_base64 dec s = Inr w" "narrow try_from w = Inr m"
    by (auto simp: matter_from_wire_def)
  then have "from_base64_stream s = Inr (m_code w)"
    by (auto simp: from_qualified_base64_iff from_base64_stream_iff frame_bytes_def)
  moreover have "try_from (m_code w) = Inr (m_code m)" using w(2) by (auto simp: narrow_def Matter_new_def)
  ultimately show ?thesis by blast
qed

lemma probe_of_digest: "digest_from_wire dec f s = Inr d \<Longrightarrow> probe_digest_code s = Some (m_code d)"
  using matter_from_wire_code[of dec DigestCode_try_from f s d] digest_code.try_from_only digest_codes_are_digests
  by (fastforce simp: probe_digest_code_def)

lemma digest_text_only:
  assumes "codec_env cr dec" "digest_from_wire dec f (digest_text (digest_of cr c data)) = Inr d"
  shows "d = digest_of cr c data"
  using assms digest_text_lift[of "b64_encode cr" dec "digest_of cr c data" f] digest_of_ok[OF assms(1)]
  by (simp add: codec_env_def)

text \<open>The identifier read from the text of a digest is self-addressing.\<close>

lemma identifier_of_digest:
  assumes "codec_env cr dec" "identifier_from_wire dec f (digest_text (digest_of cr c data)) = Inr i"
  shows "i = SelfAddressing (digest_of cr c data)"
  using assms identifier_text_lift[of "b64_encode cr" dec "SelfAddressing (digest_of cr c data)" f] digest_of_ok[OF assms(1)]
  by (simp add: codec_env_def)

section \<open>Accepted bodies\<close>

text \<open>The body with its digestive fields dummied; they stand at fixed offsets.\<close>

definition blanked :: "KeriEvent \<Rightarrow> bytes \<Rightarrow> bytes" where
  "blanked ev raw =
     (let place = said_place (said_code ev); b = overwrite 40 place raw in
      case prefix_said_code ev of
        None \<Rightarrow> b
      | Some c \<Rightarrow> overwrite (47 + length place) (said_place c) b)"

text \<open>A body that names its event's digests as those of the dummied body.\<close>

definition addressed :: "crypto \<Rightarrow> KeriEvent \<Rightarrow> bytes \<Rightarrow> bytes \<Rightarrow> bytes \<Rightarrow> bool" where
  "addressed cr ev vs rest raw \<longleftrightarrow>
     length vs = 17 \<and> raw = body_text vs (MessageType_code (ev_message_type ev)) (digest_text (ev_said ev)) rest \<and>
     ev_said ev = digest_of cr (said_code ev) (blanked ev raw) \<and>
     (\<forall>c. prefix_said_code ev = Some c \<longrightarrow>
        ev_prefix ev = SelfAddressing (digest_of cr c (blanked ev raw)) \<and>
        (\<exists>tail. rest = wire '',`i`:'' @ quote (identifier_text (ev_prefix ev)) @ tail))"

lemma addressed_one:
  assumes env: "codec_env cr dec" and vs: "length vs = 17" and t: "t = MessageType_code (ev_message_type ev)"
    and raw: "raw = body_text vs t q rest"
    and v: "verify_one_said cr (spanned 39 q) raw = Some (Inr ())"
    and d: "digest_from_wire dec ''d'' q = Inr (ev_said ev)" and p: "prefix_said_code ev = None"
  shows "addressed cr ev vs rest raw"
proof -
  from v obtain c where "verify_said_spans cr raw [(spanned 39 q, c)] = Some (Inr ())"
    by (auto simp: verify_one_said_def pan_bind_Inr)
  then have q: "q = digest_text (digest_of cr c (body_text vs t (said_place c) rest))"
    unfolding raw by (intro one_accepts[OF env vs]) (simp_all add: t)
  then have s: "ev_said ev = digest_of cr c (body_text vs t (said_place c) rest)"
    using d digest_text_only[OF env] by metis
  then have c: "said_code ev = c" by (simp add: said_code_def)
  have "blanked ev raw = body_text vs t (said_place c) rest"
    using overwrite_at(1)[OF vs, of t "said_place c" q rest] q p c t digest_of_text_length[OF env]
    by (simp add: blanked_def raw Let_def)
  then show ?thesis using vs raw t s c q p by (simp add: addressed_def)
qed

lemma addressed_two:
  assumes env: "codec_env cr dec" and vs: "length vs = 17" and t: "t = MessageType_code (ev_message_type ev)"
    and raw: "raw = body_text vs t (sp_value (pi_said p)) (wire '',`i`:'' @ quote (sp_value (pi_prefix p)) @ zs)"
    and sp: "pi_said p = spanned 39 (sp_value (pi_said p))"
      "pi_prefix p = spanned (46 + length (sp_value (pi_said p))) (sp_value (pi_prefix p))"
    and v: "ParsedIcp_verify_said cr p raw = Some (Inr ())"
    and d: "digest_from_wire dec ''d'' (sp_value (pi_said p)) = Inr (ev_said ev)"
    and i: "identifier_from_wire dec ''i'' (sp_value (pi_prefix p)) = Inr (ev_prefix ev)"
    and code: "prefix_said_code ev = (case ev_prefix ev of SelfAddressing s \<Rightarrow> Some (m_code s) | Basic _ \<Rightarrow> None)"
  shows "\<exists>rest. addressed cr ev vs rest raw"
proof (cases "probe_digest_code (sp_value (pi_prefix p))")
  case None
  then have "verify_one_said cr (pi_said p) raw = Some (Inr ())"
    using v by (simp add: ParsedIcp_verify_said_def verify_one_said_def)
  then have v': "verify_one_said cr (spanned 39 (sp_value (pi_said p))) raw = Some (Inr ())" using sp(1) by metis
  have "prefix_said_code ev = None"
    using identifier_cases[OF i] None probe_of_digest[of dec "''i''"] by (auto simp: code)
  then show ?thesis using addressed_one[OF env vs t raw v' d] by blast
next
  case (Some c')
  let ?q = "sp_value (pi_said p)" and ?i = "sp_value (pi_prefix p)"
  from v Some obtain c where "verify_said_spans cr raw [(pi_said p, c), (pi_prefix p, c')] = Some (Inr ())"
    by (auto simp: ParsedIcp_verify_said_def pan_bind_Inr)
  then have v': "verify_said_spans cr raw [(spanned 39 ?q, c), (spanned (46 + length ?q) ?i, c')] = Some (Inr ())"
    using sp by metis
  define dummy where "dummy = body_text vs t (said_place c) (wire '',`i`:'' @ quote (said_place c') @ zs)"
  have q: "?q = digest_text (digest_of cr c dummy)" "?i = digest_text (digest_of cr c' dummy)"
    using two_accepts[OF env vs _ v'[unfolded raw]] t by (simp_all add: dummy_def Let_def)
  have s: "ev_said ev = digest_of cr c dummy" "ev_prefix ev = SelfAddressing (digest_of cr c' dummy)"
    using d[unfolded q] i[unfolded q] digest_text_only[OF env] identifier_of_digest[OF env] by blast+
  then have c: "said_code ev = c" "prefix_said_code ev = Some c'" by (simp_all add: said_code_def code)
  have l: "length ?q = length (said_place c)" "length ?i = length (said_place c')"
    unfolding q by (rule digest_of_text_length[OF env])+
  have t3: "length t = 3" using t by simp
  have "blanked ev raw = dummy"
    using overwrite_at(1)[OF vs t3, of "said_place c" ?q] overwrite_at(2)[OF vs t3, of "said_place c'" ?i "said_place c" zs] l
    by (simp add: blanked_def c raw dummy_def Let_def)
  then show ?thesis using vs raw t s c q by (auto simp: addressed_def)
qed

lemma KeriEvent_deserialize_Inr:
  assumes "KeriEvent_deserialize cr dec raw limits = Some (Inr ev)"
  shows "\<exists>parsed. ParsedEvent_parse raw limits = Inr parsed \<and> ParsedEvent_verify_said cr parsed raw = Some (Inr ()) \<and>
    build_event dec parsed = Inr ev"
  using assms by (auto simp: KeriEvent_deserialize_def checked_def deserialize_event_def pan_bind_Inr)

text \<open>A parsed event: its head, and the reader that took its body.\<close>

definition body_of :: "ParsedEvent \<Rightarrow> bytes \<Rightarrow> Scanner \<Rightarrow> bool" where
  "body_of parsed t sc \<longleftrightarrow>
     (case parsed of
        ParsedInception p \<Rightarrow> t = str_bytes ''icp'' \<and> (\<exists>sc'. icp_fields sc = Inr (p, sc'))
      | ParsedRotation p \<Rightarrow> t = str_bytes ''rot'' \<and> (\<exists>sc'. rot_fields sc = Inr (p, sc'))
      | ParsedInteraction p \<Rightarrow> t = str_bytes ''ixn'' \<and> (\<exists>sc'. ixn_fields sc = Inr (p, sc'))
      | ParsedDelegatedInception p \<Rightarrow> t = str_bytes ''dip'' \<and> (\<exists>sc'. icp_fields sc = Inr (pd_icp p, sc'))
      | ParsedDelegatedRotation p \<Rightarrow> t = str_bytes ''drt'' \<and> (\<exists>sc'. rot_fields sc = Inr (p, sc')))"

lemma parse_body_of:
  assumes "ParsedEvent_parse raw limits = Inr parsed"
  shows "\<exists>mt sc. event_head raw limits = Inr (mt, sc) \<and> body_of parsed (sp_value mt) sc"
proof -
  obtain mt sc where h: "event_head raw limits = Inr (mt, sc)"
    using assms by (auto simp: ParsedEvent_parse_def)
  have dip: "\<exists>sc'. icp_fields sc = Inr (pd_icp p, sc')" if "run dip_body sc = Inr p" for p
    using run_fields[of dip_fields sc p] that by (auto simp: dip_body_def dip_fields_def)
  have "body_of parsed (sp_value mt) sc"
    using assms h run_fields[of icp_fields sc] run_fields[of rot_fields sc] run_fields[of ixn_fields sc] dip
    by (auto simp: ParsedEvent_parse_def Let_def body_of_def icp_body_def rot_body_def ixn_body_def split: if_splits)
  with h show ?thesis by blast
qed

lemma accepted_addressed:
  assumes env: "codec_env cr dec" and acc: "KeriEvent_deserialize cr dec raw limits = Some (Inr ev)"
  shows "\<exists>vs rest. addressed cr ev vs rest raw"
proof -
  from KeriEvent_deserialize_Inr[OF acc] obtain parsed where p: "ParsedEvent_parse raw limits = Inr parsed"
    and v: "ParsedEvent_verify_said cr parsed raw = Some (Inr ())" and b: "build_event dec parsed = Inr ev" by blast
  from parse_body_of[OF p] obtain mt sc where h: "event_head raw limits = Inr (mt, sc)" and bd: "body_of parsed (sp_value mt) sc" by blast
  let ?t = "sp_value mt"
  from event_head_took[OF h] obtain vs where vs: "length vs = 17"
    and th: "took \<lparr>sc_input = raw, sc_pos = 0, sc_budget = undefined\<rparr> (head_text vs ?t) sc" by blast
  have t3: "length ?t = 3" using bd by (auto simp: body_of_def str_bytes_def split: ParsedEvent.splits)
  have pos: "sc_pos sc = 34" using th vs t3 by (simp add: took_def head_text_def quote_def wire_eval)
  have one: "\<exists>vs rest. addressed cr ev vs rest raw"
    if "took sc (wire '',`d`:'' @ quote (sp_value s)) sc1 \<and> s = spanned (sc_pos sc + 5) (sp_value s)" "?t = MessageType_code (ev_message_type ev)"
      "verify_one_said cr s raw = Some (Inr ())" "digest_from_wire dec ''d'' (sp_value s) = Inr (ev_said ev)"
      "prefix_said_code ev = None" for s sc1
  proof -
    from head_body[OF th conjunct1[OF that(1)]] obtain rest where "raw = body_text vs ?t (sp_value s) rest"
      by (auto simp: body_text_def)
    moreover have s: "s = spanned 39 (sp_value s)" using that(1) pos by simp
    have "verify_one_said cr (spanned 39 (sp_value s)) raw = Some (Inr ())" using that(3) by (simp add: s[symmetric])
    ultimately show ?thesis using addressed_one[OF env vs that(2)] that(4,5) by blast
  qed
  have two: "\<exists>rest. addressed cr ev vs rest raw"
    if "icp_fields sc = Inr (p, sc')" "?t = MessageType_code (ev_message_type ev)" "ParsedIcp_verify_said cr p raw = Some (Inr ())"
      "digest_from_wire dec ''d'' (sp_value (pi_said p)) = Inr (ev_said ev)"
      "identifier_from_wire dec ''i'' (sp_value (pi_prefix p)) = Inr (ev_prefix ev)"
      "prefix_said_code ev = (case ev_prefix ev of SelfAddressing s \<Rightarrow> Some (m_code s) | Basic _ \<Rightarrow> None)" for p sc'
  proof -
    from icp_fields_took[OF that(1)] obtain sc1 where
      tk: "took sc (wire '',`d`:'' @ quote (sp_value (pi_said p)) @ wire '',`i`:'' @ quote (sp_value (pi_prefix p))) sc1"
      and sp: "pi_said p = spanned 39 (sp_value (pi_said p))"
        "pi_prefix p = spanned (46 + length (sp_value (pi_said p))) (sp_value (pi_prefix p))" using pos by auto
    from head_body[OF th tk] obtain zs where
      "raw = body_text vs ?t (sp_value (pi_said p)) (wire '',`i`:'' @ quote (sp_value (pi_prefix p)) @ zs)"
      by (auto simp: body_text_def)
    from addressed_two[OF env vs that(2) this sp that(3-6)] show ?thesis .
  qed
  show ?thesis
  proof (cases parsed)
    case (ParsedInception p)
    then obtain e where e: "build_inception dec p = Inr e" "ev = Inception e" using b by auto
    then show ?thesis using ParsedInception bd v two[of p] build_inception_Inr[OF e(1)] by (auto simp: body_of_def)
  next
    case (ParsedDelegatedInception p)
    then obtain i d where e: "build_inception dec (pd_icp p) = Inr i"
      "ev = DelegatedInception \<lparr>dip_inception = i, dip_delegator = d\<rparr>"
      using b by (auto simp: build_delegated_inception_def split: if_splits)
    then show ?thesis using ParsedDelegatedInception bd v two[of "pd_icp p"] build_inception_Inr[OF e(1)]
      by (auto simp: body_of_def)
  next
    case (ParsedRotation p)
    then obtain sc' e where f: "rot_fields sc = Inr (p, sc')" and e: "build_rotation dec p = Inr e" "ev = Rotation e"
      using bd b by (auto simp: body_of_def)
    from rot_fields_took[OF f] obtain sc1 where
      tk: "took sc (wire '',`d`:'' @ quote (sp_value (pr_said p))) sc1 \<and> pr_said p = spanned (sc_pos sc + 5) (sp_value (pr_said p))" ..
    show ?thesis by (intro exI one[OF tk])
      (use ParsedRotation bd v e build_rotation_Inr[OF e(1)] in \<open>simp_all add: body_of_def ParsedRot_verify_said_def\<close>)
  next
    case (ParsedDelegatedRotation p)
    then obtain sc' e where f: "rot_fields sc = Inr (p, sc')" and e: "build_rotation dec p = Inr e" "ev = DelegatedRotation \<lparr>drt_rotation = e\<rparr>"
      using bd b by (auto simp: body_of_def build_delegated_rotation_def split: if_splits)
    from rot_fields_took[OF f] obtain sc1 where
      tk: "took sc (wire '',`d`:'' @ quote (sp_value (pr_said p))) sc1 \<and> pr_said p = spanned (sc_pos sc + 5) (sp_value (pr_said p))" ..
    show ?thesis by (intro exI one[OF tk])
      (use ParsedDelegatedRotation bd v e build_rotation_Inr[OF e(1)] in \<open>simp_all add: body_of_def ParsedRot_verify_said_def\<close>)
  next
    case (ParsedInteraction p)
    then obtain sc' e where f: "ixn_fields sc = Inr (p, sc')" and e: "build_interaction dec p = Inr e" "ev = Interaction e"
      using bd b by (auto simp: body_of_def)
    from ixn_fields_took[OF f] obtain sc1 where
      tk: "took sc (wire '',`d`:'' @ quote (sp_value (px_said p))) sc1 \<and> px_said p = spanned (sc_pos sc + 5) (sp_value (px_said p))" ..
    show ?thesis by (intro exI one[OF tk])
      (use ParsedInteraction bd v e build_interaction_Inr[OF e(1)] in \<open>simp_all add: body_of_def ParsedIxn_verify_said_def\<close>)
  qed
qed

lemma accepted_lawful:
  assumes "KeriEvent_deserialize cr dec raw limits = Some (Inr ev)"
  shows "event_lawful ev"
proof -
  from KeriEvent_deserialize_Inr[OF assms] obtain parsed where "build_event dec parsed = Inr ev" by blast
  then show ?thesis
    by (cases parsed) (auto simp: build_delegated_inception_def build_delegated_rotation_def
        dest: build_inception_Inr build_rotation_Inr split: if_splits)
qed

text \<open>Nothing in a read can panic when the base64 engine is one.\<close>

lemma check_saids_total: "codec_env cr dec \<Longrightarrow> check_saids cr scratch slots \<noteq> None"
proof (induction slots)
  case (Cons s slots)
  then show ?case
    by (cases s) (auto simp: said_digest_of said_qb64_text[OF Cons.prems digest_of_ok[OF Cons.prems]] split: if_splits)
qed simp

lemma pan_bind_total: "r \<noteq> None \<Longrightarrow> (\<And>a. r = Some (Inr a) \<Longrightarrow> k a \<noteq> None) \<Longrightarrow> pan_bind r k \<noteq> None"
  by (cases r) (auto simp: pan_bind_def split: sum.splits)

lemma verify_spans_total: "codec_env cr dec \<Longrightarrow> verify_said_spans cr raw slots \<noteq> None"
  unfolding verify_said_spans_def by (rule pan_bind_total) (auto simp: check_saids_total)

lemma verify_said_total: "codec_env cr dec \<Longrightarrow> ParsedEvent_verify_said cr parsed raw \<noteq> None"
proof -
  assume env: "codec_env cr dec"
  have o: "verify_one_said cr s raw \<noteq> None" for s
    unfolding verify_one_said_def by (rule pan_bind_total) (use verify_spans_total[OF env] in auto)
  have i: "ParsedIcp_verify_said cr p raw \<noteq> None" for p
    unfolding ParsedIcp_verify_said_def by (rule pan_bind_total) (use verify_spans_total[OF env] in \<open>auto split: option.splits\<close>)
  show ?thesis using o i by (cases parsed) (simp_all add: ParsedRot_verify_said_def ParsedIxn_verify_said_def)
qed

text \<open>A dummied body, written out.\<close>

lemma blanked_text:
  assumes env: "codec_env cr dec" and a: "addressed cr ev vs rest raw"
  shows "prefix_said_code ev = None \<Longrightarrow> blanked ev raw = body_text vs (MessageType_code (ev_message_type ev)) (said_place (said_code ev)) rest"
    "prefix_said_code ev = Some c \<Longrightarrow> rest = wire '',`i`:'' @ quote (identifier_text (ev_prefix ev)) @ zs \<Longrightarrow>
     blanked ev raw = body_text vs (MessageType_code (ev_message_type ev)) (said_place (said_code ev)) (wire '',`i`:'' @ quote (said_place c) @ zs)"
proof -
  let ?t = "MessageType_code (ev_message_type ev)"
  have vs: "length vs = 17" and raw: "raw = body_text vs ?t (digest_text (ev_said ev)) rest"
    and s: "ev_said ev = digest_of cr (said_code ev) (blanked ev raw)"
    and i: "prefix_said_code ev = Some c \<Longrightarrow> ev_prefix ev = SelfAddressing (digest_of cr c (blanked ev raw))"
    using a unfolding addressed_def by blast+
  have l: "length (digest_text (ev_said ev)) = length (said_place (said_code ev))"
    by (subst s) (rule digest_of_text_length[OF env])
  show "prefix_said_code ev = None \<Longrightarrow> blanked ev raw = body_text vs ?t (said_place (said_code ev)) rest"
    using overwrite_at(1)[OF vs event_type_length l[symmetric]] by (simp add: blanked_def Let_def raw)
  assume c: "prefix_said_code ev = Some c" and rest: "rest = wire '',`i`:'' @ quote (identifier_text (ev_prefix ev)) @ zs"
  have l': "length (identifier_text (ev_prefix ev)) = length (said_place c)"
    by (subst i[OF c]) (simp add: digest_of_text_length[OF env])
  show "blanked ev raw = body_text vs ?t (said_place (said_code ev)) (wire '',`i`:'' @ quote (said_place c) @ zs)"
    using overwrite_at(1)[OF vs event_type_length l[symmetric]]
      overwrite_at(2)[OF vs event_type_length[of ev] l'[symmetric], of "said_place (said_code ev)" zs]
    by (simp add: blanked_def Let_def raw rest c)
qed

text \<open>The message type of a body stands at a fixed place.\<close>

lemma body_text_inject:
  assumes "length vs = 17" "length vs' = 17" "length t = 3" "length t' = 3" "length q = length q'"
  shows "body_text vs t q r = body_text vs' t' q' r' \<longleftrightarrow> vs = vs' \<and> t = t' \<and> q = q' \<and> r = r'"
  using assms by (simp add: body_text_def head_text_def quote_def)

lemma quote_inject: "length a = length b \<Longrightarrow> quote a @ xs = quote b @ ys \<longleftrightarrow> a = b \<and> xs = ys"
  by (simp add: quote_def)

lemma code_of_type: "MessageType_code t = MessageType_code t' \<Longrightarrow> t = t'"
  using message_type.from_code_code by (metis sum.inject(2))

lemma prefix_code_of:
  "ev_message_type e = ev_message_type e' \<Longrightarrow> ev_prefix e = ev_prefix e' \<Longrightarrow> prefix_said_code e = prefix_said_code e'"
  by (cases e; cases e') simp_all

lemma addressed_unblank:
  assumes env: "codec_env cr dec" and a1: "addressed cr e1 vs1 rest1 raw1" and a2: "addressed cr e2 vs2 rest2 raw2"
    and said: "ev_said e1 = ev_said e2" and prefix: "ev_prefix e1 = ev_prefix e2" and b: "blanked e1 raw1 = blanked e2 raw2"
  shows "raw1 = raw2"
proof -
  let ?t = "\<lambda>e. MessageType_code (ev_message_type e)"
  have c: "said_code e1 = said_code e2" using said by (simp add: said_code_def)
  have vs: "length vs1 = 17" "length vs2 = 17" using a1 a2 unfolding addressed_def by blast+
  have tx: "\<exists>r. blanked e raw = body_text vs (?t e) (said_place (said_code e)) r" if a: "addressed cr e vs rest raw" for e vs rest raw
  proof (cases "prefix_said_code e")
    case (Some c)
    then obtain zs where r: "rest = wire '',`i`:'' @ quote (identifier_text (ev_prefix e)) @ zs"
      using a unfolding addressed_def by blast
    from blanked_text(2)[OF env a Some r] show ?thesis by blast
  qed (use blanked_text(1)[OF env a] in blast)
  from tx[OF a1] tx[OF a2] obtain r1 r2 where
    "body_text vs1 (?t e1) (said_place (said_code e1)) r1 = body_text vs2 (?t e2) (said_place (said_code e1)) r2"
    using b c by metis
  then have t: "vs1 = vs2" "?t e1 = ?t e2" using body_text_inject[OF vs] by simp_all
  have p: "prefix_said_code e1 = prefix_said_code e2" using prefix_code_of[OF code_of_type[OF t(2)] prefix] .
  have "rest1 = rest2"
  proof (cases "prefix_said_code e1")
    case None
    then show ?thesis using b blanked_text(1)[OF env a1] blanked_text(1)[OF env a2] p c
        body_text_inject[OF vs event_type_length event_type_length] by auto
  next
    case (Some k)
    obtain z1 z2 where z: "rest1 = wire '',`i`:'' @ quote (identifier_text (ev_prefix e1)) @ z1"
      "rest2 = wire '',`i`:'' @ quote (identifier_text (ev_prefix e2)) @ z2"
      using a1 a2 Some p unfolding addressed_def by metis
    have "wire '',`i`:'' @ quote (said_place k) @ z1 = wire '',`i`:'' @ quote (said_place k) @ z2"
      using b blanked_text(2)[OF env a1 Some z(1)] blanked_text(2)[OF env a2 Some[unfolded p] z(2)] c
        body_text_inject[OF vs event_type_length event_type_length] by auto
    then show ?thesis using z prefix by (simp add: quote_def)
  qed
  moreover have "raw1 = body_text vs1 (?t e1) (digest_text (ev_said e1)) rest1" "raw2 = body_text vs2 (?t e2) (digest_text (ev_said e2)) rest2"
    using a1 a2 unfolding addressed_def by blast+
  ultimately show ?thesis using t said by simp
qed

end
