(* ===== verification/Codec_Props.thy ===== *)
theory Codec_Props
  imports Codec_Accept Keri_Example
begin

text \<open>
  The promises of the event codec: what is written reads back, what is read keeps the laws
  and is named by its bytes, and what the reader accepts is what the fold can start from.
\<close>

section \<open>An environment\<close>

lemma ex_codec_env: "codec_env ex_crypto own_b64_decode"
  using own_b64.b64_engine_axioms by (simp add: codec_env_def ex_crypto_lengths ex_crypto_def[THEN arg_cong[where f = b64_encode]])

definition ex_limits :: JsonLimits where
  "ex_limits = \<lparr>jl_max_fields = 64, jl_max_depth = 8\<rparr>"

lemma ex_matters_ok: "key_ok (ex_key n)" "key_ok (ex_witness n)" "digest_ok (ex_said n)"
  by (simp_all add: wire_ok_def matter_ok_def widen_def ex_key_def ex_witness_def ex_said_def Matter_new_def Sizage_new_def
      MatterCode_raw_size_def is_b64_url_safe_charset_def)

lemma ex_sn_ok: "sn_ok (Number_new n)"
  by (simp add: sn_ok_def Number_new_def)

lemma ex_event_ok: "event_wire_ok (Inception ex_icp)" "event_lawful (Inception ex_icp)"
  "limits_allow ex_limits (event_cost (Inception ex_icp))"
  by (simp_all add: ex_icp_def icp_wire_ok_def ex_matters_ok ex_sn_ok prefix_writable_def threshold_wire_ok_def icp_lawful_def
      witnesses_ok_def toad_exact_def thresholds_lawful_def check_well_formed_def check_identity_def Let_def limits_allow_def
      ex_limits_def icp_cost_def seals_fields_def)

lemma ex_text_lengths: "length (key_text (ex_key n)) = 44" "length (key_text (ex_witness n)) = 44" "length (digest_text (ex_said n)) = 44"
  using raw_chars_props(2)[of MatterCode.Ed25519 "replicate 32 n"] raw_chars_props(2)[of MatterCode.Ed25519N "replicate 32 n"]
    raw_chars_props(2)[of MatterCode.Blake3_256 "replicate 32 n"]
  by (simp_all add: matter_text_def frame_bytes_def ex_key_def ex_witness_def ex_said_def Matter_new_def code_ps_def Sizage_new_def
      length_to_string)

lemma ex_said_code [simp]: "m_code (ex_said n) = DigestCode.Blake3_256"
  by (simp add: ex_said_def Matter_new_def)

lemma ex_place_length: "length (said_place DigestCode.Blake3_256) = 44"
  using said_place_length[OF ex_matters_ok(3)] ex_text_lengths(3) by (simp add: ex_said_def Matter_new_def)

lemma ex_event_size: "size_fits (event_size (Inception ex_icp))"
  using ex_text_lengths ex_place_length
  by (simp add: event_size_def dummied_at_def ex_icp_def body_length size_fits_def icp_tail_text_def key_fields_text_def keys_text_def
      digests_text_def configs_text_def seals_text_def json_array_def threshold_text_def count_text_def numh_def icp_lists_text_def
      quote_def prefix_written_def said_code_def Number_new_def hex_digits.simps wire_eval)

section \<open>Round trips\<close>

text \<open>
  C5: an event that keeps its own laws and whose primitives fit their codes can be serialized, and
  the bytes read back, under any limits that allow its fields, as the same event with the
  computed digests in its SAID field (and in its prefix, where the identifier is self-addressing). Serializing
  that event again gives the same bytes.
\<close>

theorem event_round_trip:
  assumes "codec_env cr dec" "event_wire_ok ev" "event_lawful ev" "size_fits (event_size ev)" "limits_allow limits (event_cost ev)"
  shows "\<exists>out. event_serialize cr ev = Some (Inr out) \<and> se_size out = length (se_raw out) \<and>
    KeriEvent_deserialize cr dec (se_raw out) limits = Some (Inr (with_saids (se_said out) (se_prefix out) ev)) \<and>
    event_serialize cr (with_saids (se_said out) (se_prefix out) ev) = Some (Inr out)"
  using event_serialize_text[OF assms(1,2,4)] event_deserialize_bytes[OF assms(1-5)] event_bytes_length[OF assms(1,4)]
    event_serialize_text[OF assms(1) stamped_wire_ok[OF assms(2,1)]] assms(4)
  by (simp add: stamped_computed stamped_codes flip: stamped_def)

theorem event_round_trip_witness:
  "\<exists>out. event_serialize ex_crypto (Inception ex_icp) = Some (Inr out) \<and> se_size out = length (se_raw out) \<and>
    KeriEvent_deserialize ex_crypto own_b64_decode (se_raw out) ex_limits =
      Some (Inr (with_saids (se_said out) (se_prefix out) (Inception ex_icp))) \<and>
    event_serialize ex_crypto (with_saids (se_said out) (se_prefix out) (Inception ex_icp)) = Some (Inr out)"
  by (rule event_round_trip[OF ex_codec_env ex_event_ok(1,2) ex_event_size ex_event_ok(3)])

text \<open>A body accepted by the reader, for the witnesses below.\<close>

lemma ex_read_back:
  "KeriEvent_deserialize ex_crypto own_b64_decode (event_bytes ex_crypto (Inception ex_icp)) ex_limits =
     Some (Inr (stamped ex_crypto (Inception ex_icp)))"
  by (rule event_deserialize_bytes[OF ex_codec_env ex_event_ok(1,2) ex_event_size ex_event_ok(3)])

section \<open>Digests name bodies\<close>

text \<open>
  C6: the identifier of an accepted event is the digest of the very bytes it was read from:
  the text at offset 40 is that of the event's digest, which is the hash of the body with
  the digestive fields dummied; a self-addressing inception's prefix is that hash too.
\<close>

theorem accepted_body_addressed:
  assumes "codec_env cr dec" "KeriEvent_deserialize cr dec raw limits = Some (Inr ev)"
  shows "slice_range raw 40 (40 + length (digest_text (ev_said ev))) = Some (digest_text (ev_said ev)) \<and>
    ev_said ev = digest_of cr (said_code ev) (blanked ev raw) \<and>
    (\<forall>c. prefix_said_code ev = Some c \<longrightarrow> ev_prefix ev = SelfAddressing (digest_of cr c (blanked ev raw)))"
proof -
  from accepted_addressed[OF assms] obtain vs rest where a: "addressed cr ev vs rest raw" by blast
  let ?a = "head_text vs (MessageType_code (ev_message_type ev)) @ wire '',`d`:`''"
  have vs: "length vs = 17" and raw: "raw = body_text vs (MessageType_code (ev_message_type ev)) (digest_text (ev_said ev)) rest"
    using a unfolding addressed_def by blast+
  have "length ?a = 40" using vs by (simp add: head_text_def quote_def wire_eval)
  moreover have "raw = ?a @ digest_text (ev_said ev) @ wire ''`'' @ rest"
    by (subst raw) (simp add: body_text_def quote_parts wire_eval)
  ultimately have "slice_range raw 40 (40 + length (digest_text (ev_said ev))) = Some (digest_text (ev_said ev))"
    using slice_slot[of ?a] by metis
  then show ?thesis using a unfolding addressed_def by blast
qed

theorem accepted_body_addressed_witness:
  "ev_said (stamped ex_crypto (Inception ex_icp)) =
     digest_of ex_crypto (said_code (stamped ex_crypto (Inception ex_icp)))
       (blanked (stamped ex_crypto (Inception ex_icp)) (event_bytes ex_crypto (Inception ex_icp)))"
  using accepted_body_addressed[OF ex_codec_env ex_read_back] by blast

text \<open>
  C7: two accepted bodies of the same identifier that carry the same digest are the same bytes,
  unless their dummied forms are a collision of the hash. So a log that names its events by
  digest names the bytes that were signed.
\<close>

theorem same_said_same_body:
  assumes env: "codec_env cr dec"
    and r1: "KeriEvent_deserialize cr dec raw1 limits1 = Some (Inr e1)"
    and r2: "KeriEvent_deserialize cr dec raw2 limits2 = Some (Inr e2)"
    and said: "ev_said e1 = ev_said e2" and prefix: "ev_prefix e1 = ev_prefix e2"
    and no_collision: "raw_digest cr (said_code e1) (blanked e1 raw1) = raw_digest cr (said_code e1) (blanked e2 raw2) \<Longrightarrow>
      blanked e1 raw1 = blanked e2 raw2"
  shows "raw1 = raw2"
proof -
  from accepted_addressed[OF env r1] obtain vs1 rest1 where a1: "addressed cr e1 vs1 rest1 raw1" by blast
  from accepted_addressed[OF env r2] obtain vs2 rest2 where a2: "addressed cr e2 vs2 rest2 raw2" by blast
  have c: "said_code e1 = said_code e2" using said by (simp add: said_code_def)
  have b: "blanked e1 raw1 = blanked e2 raw2"
  proof (rule no_collision)
    have "digest_of cr (said_code e1) (blanked e1 raw1) = digest_of cr (said_code e1) (blanked e2 raw2)"
      using a1 a2 said c unfolding addressed_def by metis
    then show "raw_digest cr (said_code e1) (blanked e1 raw1) = raw_digest cr (said_code e1) (blanked e2 raw2)"
      by (simp add: digest_of_def Matter_new_def)
  qed
  show ?thesis using addressed_unblank[OF env a1 a2 said prefix b] .
qed

theorem same_said_same_body_witness:
  "event_bytes ex_crypto (Inception ex_icp) = event_bytes ex_crypto (Inception ex_icp)"
  by (rule same_said_same_body[OF ex_codec_env ex_read_back ex_read_back]) simp_all

section \<open>What is accepted\<close>

text \<open>
  C8: every event the reader returns keeps the laws of its kind: thresholds satisfiable by its keys,
  witnesses distinct and non-transferable, an exact witness threshold, the identity law of an
  inception, cuts and additions apart, a self-addressing prefix for a delegated event.
\<close>

theorem accepted_event_lawful:
  assumes "KeriEvent_deserialize cr dec raw limits = Some (Inr ev)"
  shows "event_lawful ev"
  by (rule accepted_lawful[OF assms])

theorem accepted_event_lawful_witness: "event_lawful (stamped ex_crypto (Inception ex_icp))"
  by (rule accepted_event_lawful[OF ex_read_back])

text \<open>
  reading never panics: whatever the bytes and the limits, the reader returns an event or an
  error.
\<close>

theorem read_never_panics:
  assumes "codec_env cr dec"
  shows "KeriEvent_deserialize cr dec raw limits \<noteq> None"
  unfolding KeriEvent_deserialize_def checked_def deserialize_event_def
  by (intro pan_bind_total) (simp_all add: verify_said_total[OF assms])

theorem read_never_panics_witness: "KeriEvent_deserialize ex_crypto own_b64_decode [0x7b, 0xff] ex_limits \<noteq> None"
  by (rule read_never_panics[OF ex_codec_env])

lemma parse_as_event:
  "ParsedIcp_parse raw limits = Inr p \<longleftrightarrow> ParsedEvent_parse raw limits = Inr (ParsedInception p)"
  "ParsedRot_parse raw limits = Inr q \<longleftrightarrow> ParsedEvent_parse raw limits = Inr (ParsedRotation q)"
  "ParsedIxn_parse raw limits = Inr x \<longleftrightarrow> ParsedEvent_parse raw limits = Inr (ParsedInteraction x)"
  "ParsedDip_parse raw limits = Inr d \<longleftrightarrow> ParsedEvent_parse raw limits = Inr (ParsedDelegatedInception d)"
  "ParsedRot_parse_delegated raw limits = Inr q \<longleftrightarrow> ParsedEvent_parse raw limits = Inr (ParsedDelegatedRotation q)"
  by (cases "event_head raw limits"; auto simp: ParsedIcp_parse_def ParsedRot_parse_def ParsedIxn_parse_def ParsedDip_parse_def ParsedRot_parse_delegated_def
      parse_as_def ParsedEvent_parse_def require_message_type_def Let_def str_bytes_def split: if_splits)+

lemma build_event_Inr:
  "build_event dec parsed = Inr (Inception e) \<longleftrightarrow> (\<exists>p. parsed = ParsedInception p \<and> build_inception dec p = Inr e)"
  "build_event dec parsed = Inr (Rotation r) \<longleftrightarrow> (\<exists>p. parsed = ParsedRotation p \<and> build_rotation dec p = Inr r)"
  "build_event dec parsed = Inr (Interaction x) \<longleftrightarrow> (\<exists>p. parsed = ParsedInteraction p \<and> build_interaction dec p = Inr x)"
  "build_event dec parsed = Inr (DelegatedInception d) \<longleftrightarrow>
     (\<exists>p. parsed = ParsedDelegatedInception p \<and> build_delegated_inception dec p = Inr d)"
  "build_event dec parsed = Inr (DelegatedRotation y) \<longleftrightarrow>
     (\<exists>p. parsed = ParsedDelegatedRotation p \<and> build_delegated_rotation dec p = Inr y)"
  by (cases parsed; auto)+

text \<open>
  C27: the reader of one kind of event returns an event exactly when the reader of any event returns
  that event under its kind.
\<close>

theorem typed_readers_agree:
  "(InceptionEvent_deserialize cr dec raw limits = Some (Inr e) \<longleftrightarrow> KeriEvent_deserialize cr dec raw limits = Some (Inr (Inception e))) \<and>
   (RotationEvent_deserialize cr dec raw limits = Some (Inr r) \<longleftrightarrow> KeriEvent_deserialize cr dec raw limits = Some (Inr (Rotation r))) \<and>
   (InteractionEvent_deserialize cr dec raw limits = Some (Inr x) \<longleftrightarrow>
     KeriEvent_deserialize cr dec raw limits = Some (Inr (Interaction x))) \<and>
   (DelegatedInceptionEvent_deserialize cr dec raw limits = Some (Inr d) \<longleftrightarrow>
     KeriEvent_deserialize cr dec raw limits = Some (Inr (DelegatedInception d))) \<and>
   (DelegatedRotationEvent_deserialize cr dec raw limits = Some (Inr y) \<longleftrightarrow>
     KeriEvent_deserialize cr dec raw limits = Some (Inr (DelegatedRotation y)))"
  by (auto simp: InceptionEvent_deserialize_def RotationEvent_deserialize_def InteractionEvent_deserialize_def
      DelegatedInceptionEvent_deserialize_def DelegatedRotationEvent_deserialize_def KeriEvent_deserialize_def checked_def
      deserialize_inception_def deserialize_rotation_def deserialize_interaction_def deserialize_delegated_inception_def
      deserialize_delegated_rotation_def deserialize_event_def pan_bind_Inr parse_as_event build_event_Inr)

section \<open>Receipts\<close>

definition receipt_bytes :: "nat \<Rightarrow> Receipt \<Rightarrow> bytes" where
  "receipt_bytes n r =
     body_text (version_text n) (MessageType_code Rct) (digest_text (rct_said r))
       (wire '',`i`:'' @ quote (identifier_text (rct_prefix r)) @ wire '',`s`:'' @ quote (numh (rct_sn r)) @ wire ''}'')"

lemma receipt_bytes_length: "size_fits n \<Longrightarrow> length (receipt_bytes n r) = length (receipt_bytes 0 r)"
  using version_text_length[of n] version_text_length[of 0]
  by (simp add: receipt_bytes_def body_text_def head_text_def size_fits_def)

lemma receipt_build_text:
  assumes env: "codec_env cr dec" and ok: "rct_wire_ok r" and sz: "size_fits (length (receipt_bytes 0 r))"
  shows "SerializedReceipt_build cr r =
    Some (Inr \<lparr>sr_raw = receipt_bytes (length (receipt_bytes 0 r)) r, sr_size = length (receipt_bytes 0 r)\<rparr>)"
proof -
  have eng: "b64_engine (b64_encode cr) dec" using env by (simp add: codec_env_def)
  have ok': "identifier_wire_ok (rct_prefix r)" "digest_ok (rct_said r)" using ok by (simp_all add: rct_wire_ok_def)
  have "writes (rct_tail_encode (b64_encode cr) r)
      (wire '',`i`:'' @ quote (identifier_text (rct_prefix r)) @ wire '',`s`:'' @ quote (numh (rct_sn r)) @ wire ''}'')"
    unfolding rct_tail_encode_def
    by (rule writes_all_concat[where ts = "[_, _, _, _, _]"]) (simp_all add: writes_lit writes_str identifier_writes[OF eng ok'(1)])
  from writesD[OF this, of "head_text (version_text 0) (MessageType_code Rct) @ wire '',`d`:'' @ quote (digest_text (rct_said r))"]
  have w: "rct_tail_encode (b64_encode cr) r (head_text (version_text 0) (MessageType_code Rct) @ wire '',`d`:'' @ quote (digest_text (rct_said r))) =
      Some (receipt_bytes 0 r)" by (simp add: receipt_bytes_def body_text_def)
  have p: "patch_receipt_size (receipt_bytes 0 r) (16, 22) (hex_pad 6 (length (receipt_bytes 0 r))) =
      Inr (receipt_bytes (length (receipt_bytes 0 r)) r)" unfolding patch_receipt_size_Inr
    using patch_size[of 0 "length (receipt_bytes 0 r)"] sz unfolding receipt_bytes_def by (simp add: size_fits_def)
  have t3: "length (MessageType_code Rct) = 3" by (simp add: str_bytes_def)
  show ?thesis unfolding SerializedReceipt_build_def
    using w by (simp only: said_qb64_text[OF env ok'(2)] option.map pan_bind_simps write_head_text[OF t3] prod.case Let_def
        size_field_fits[OF sz] p)
qed

lemma receipt_head:
  assumes raw: "raw = receipt_bytes (length raw) r" and sz: "size_fits (length raw)" and lim: "limits_allow limits 2"
  shows "event_head raw limits = Inr (spanned 29 (MessageType_code Rct), scanner_at raw 34 limits 2 (Suc 0))"
  by (rule body_head[OF raw[unfolded receipt_bytes_def] refl sz lim]) (simp_all add: str_bytes_def plain_text_def)

lemma receipt_parse:
  assumes raw: "raw = receipt_bytes (length raw) r" and sz: "size_fits (length raw)" and lim: "limits_allow limits 5"
    and ok: "rct_wire_ok r"
  shows "ParsedRct_parse raw limits = Inr (rct_parsed r)"
proof -
  have "run (then_read rct_fields body_end) (scanner_at raw 34 limits 2 (Suc 0)) = Inr (rct_parsed r)"
    by (rule body_run[OF raw[unfolded receipt_bytes_def] refl sz _ rct_fields_reads[OF ok]])
      (use lim in \<open>simp_all add: rct_text_def str_bytes_def\<close>)
  then show ?thesis
    using receipt_head[OF raw sz limits_allow_mono[OF lim]]
    by (simp add: ParsedRct_parse_def parse_as_def require_message_type_def rct_body_def)
qed

text \<open>
  C28: a receipt whose primitives fit their codes is written, read back as itself under any limits
  that allow five fields, and refused as a receipt by the reader of key events.
\<close>

theorem receipt_round_trip:
  assumes "codec_env cr dec" "rct_wire_ok r" "size_fits (length (receipt_bytes 0 r))" "limits_allow limits 5"
  shows "\<exists>out. SerializedReceipt_build cr r = Some (Inr out) \<and> sr_size out = length (sr_raw out) \<and>
    Receipt_deserialize dec (sr_raw out) limits = Inr r \<and>
    KeriEvent_deserialize cr dec (sr_raw out) limits = Some (Inl (CodecDeserialize ReceiptNotKeyEvent))"
proof -
  let ?raw = "receipt_bytes (length (receipt_bytes 0 r)) r"
  have raw: "?raw = receipt_bytes (length ?raw) r" and sz: "size_fits (length ?raw)"
    using assms(3) by (simp_all add: receipt_bytes_length)
  have eng: "b64_engine (b64_encode cr) dec" using assms(1) by (simp add: codec_env_def)
  have c: "check_json_body ?raw = Inr ()" using check_json_body_text[OF assms(3)] unfolding receipt_bytes_def .
  have ok: "identifier_wire_ok (rct_prefix r)" "digest_ok (rct_said r)" "sn_ok (rct_sn r)"
    using assms(2) by (simp_all add: rct_wire_ok_def)
  have "build_receipt dec (rct_parsed r) = Inr r"
    by (simp add: build_receipt_def rct_parsed_def identifier_text_lift[OF eng ok(1)] digest_text_lift[OF eng ok(2)] number_lift[OF ok(3)])
  then have "Receipt_deserialize dec ?raw limits = Inr r"
    using receipt_parse[OF raw sz assms(4,2)] by (simp add: Receipt_deserialize_def deserialize_receipt_def c)
  moreover have "KeriEvent_deserialize cr dec ?raw limits = Some (Inl (CodecDeserialize ReceiptNotKeyEvent))"
    using receipt_head[OF raw sz limits_allow_mono[OF assms(4)]]
    by (simp add: KeriEvent_deserialize_def checked_def deserialize_event_def ParsedEvent_parse_def c Let_def str_bytes_def)
  ultimately show ?thesis
    using receipt_build_text[OF assms(1-3)] receipt_bytes_length[OF assms(3), of r] by simp
qed

lemma ex_receipt_ok:
  "rct_wire_ok \<lparr>rct_prefix = SelfAddressing (ex_said 10), rct_sn = Number_new 0, rct_said = ex_said 10\<rparr>"
  "size_fits (length (receipt_bytes 0 \<lparr>rct_prefix = SelfAddressing (ex_said 10), rct_sn = Number_new 0, rct_said = ex_said 10\<rparr>))"
proof -
  show "rct_wire_ok \<lparr>rct_prefix = SelfAddressing (ex_said 10), rct_sn = Number_new 0, rct_said = ex_said 10\<rparr>"
    by (simp add: rct_wire_ok_def ex_matters_ok ex_sn_ok)
qed (simp add: ex_text_lengths receipt_bytes_def body_length size_fits_def numh_def Number_new_def hex_digits.simps quote_def wire_eval
    str_bytes_def)

theorem receipt_round_trip_witness:
  "\<exists>out. SerializedReceipt_build ex_crypto \<lparr>rct_prefix = SelfAddressing (ex_said 10), rct_sn = Number_new 0, rct_said = ex_said 10\<rparr> = Some (Inr out) \<and>
    sr_size out = length (sr_raw out) \<and>
    Receipt_deserialize own_b64_decode (sr_raw out) ex_limits =
      Inr \<lparr>rct_prefix = SelfAddressing (ex_said 10), rct_sn = Number_new 0, rct_said = ex_said 10\<rparr> \<and>
    KeriEvent_deserialize ex_crypto own_b64_decode (sr_raw out) ex_limits = Some (Inl (CodecDeserialize ReceiptNotKeyEvent))"
  by (rule receipt_round_trip[OF ex_codec_env ex_receipt_ok]) (simp add: limits_allow_def ex_limits_def)

section \<open>From the wire to the fold\<close>

text \<open>
  C9: an inception the reader accepts can fail to start a key state only for its sequence number or
  for missing signatures or receipts: every law of the event itself was checked by the reader.
\<close>

theorem read_inception_starts:
  assumes "KeriEvent_deserialize cr dec raw limits = Some (Inr (Inception icp))"
  shows "(\<exists>s. incept cr (from_host_asserted_parts (Inception icp) raw sigs wigs) = Inr s) \<longleftrightarrow>
    num_value (icp_sn icp) = 0 \<and>
    authenticated cr (icp_authority icp) (from_host_asserted_parts (Inception icp) raw sigs wigs) \<and>
    receipted cr (icp_witnesses icp) (icp_witness_threshold icp) (from_host_asserted_parts (Inception icp) raw sigs wigs)"
proof -
  have law: "icp_lawful icp" using accepted_lawful[OF assms] by simp
  have "icp_next_keys icp \<noteq> [] \<Longrightarrow> Identifier_is_transferable (icp_prefix icp)"
    using check_identity_nontrans[of icp] law by (auto simp: icp_lawful_def)
  then show ?thesis using law
    by (auto simp: incept_Inr inception_ok_def icp_lawful_def thresholds_lawful_def toad_law_def toad_exact_Inr from_host_asserted_parts_def)
qed

theorem read_inception_starts_witness:
  "let e = (ex_icp\<lparr>icp_said := computed_said ex_crypto (Inception ex_icp), icp_prefix := stamped_prefix ex_crypto (Inception ex_icp)\<rparr>);
       sd = from_host_asserted_parts (Inception e) (event_bytes ex_crypto (Inception ex_icp)) [ex_sig 0 1] []
   in (\<exists>s. incept ex_crypto sd = Inr s) = (num_value (icp_sn e) = 0 \<and> authenticated ex_crypto (icp_authority e) sd \<and>
      receipted ex_crypto (icp_witnesses e) (icp_witness_threshold e) sd)"
  unfolding Let_def by (rule read_inception_starts[OF ex_read_back[unfolded stamped_simps]])

section \<open>The language accepted\<close>

text \<open>
  C30: the texts of a field are not unique. What follows a primitive inside its string is ignored, so
  two texts read as the same key or digest; and a number is read in either case, with a sign
  or leading zeros, though it is written in one way only.
\<close>

theorem field_texts_not_unique:
  assumes "b64_engine enc dec" "key_ok k" "digest_ok d"
  shows "key_from_wire dec field (key_text k @ extra) = Inr k \<and> digest_from_wire dec field (digest_text d @ extra) = Inr d \<and>
    number_from_wire field (str_bytes ''+0A'') = Inr (Number_new 10) \<and> numh (Number_new 10) = str_bytes ''a''"
proof -
  have d: "decode_hex_digit 0x30 = Some 0" "decode_hex_digit 0x41 = Some 10" by code_simp+
  then have "radix_value 16 0 [0x30, 0x41] = Some 10" by (simp add: radix_digit_def)
  then have "from_str_radix 16 (str_bytes ''+0A'') = Some (10 :: u128)"
    by (simp add: from_str_radix_def str_bytes_def Let_def del: radix_value.simps)
  then have "number_from_wire field (str_bytes ''+0A'') = Inr (Number_new 10)" by (simp add: number_from_wire_def)
  moreover have "numh (Number_new 10) = str_bytes ''a''"
    by (simp add: numh_def Number_new_def hex_digits.simps str_bytes_def) code_simp
  ultimately show ?thesis
    using parse_frame[OF assms(1), of "widen VerKeyCode_to_matter_code k" extra] assms(2) verkey_code.narrow_iff
      parse_frame[OF assms(1), of "widen DigestCode_to_matter_code d" extra] assms(3) digest_code.narrow_iff
    by (simp add: matter_from_wire_def matter_text_def wire_ok_def widen_def Matter_new_def)
qed

theorem field_texts_not_unique_witness:
  "key_from_wire own_b64_decode ''k'' (key_text (ex_key 1) @ str_bytes ''!!'') = Inr (ex_key 1) \<and>
   digest_from_wire own_b64_decode ''k'' (digest_text (ex_said 2) @ str_bytes ''!!'') = Inr (ex_said 2) \<and>
   number_from_wire ''k'' (str_bytes ''+0A'') = Inr (Number_new 10) \<and> numh (Number_new 10) = str_bytes ''a''"
  by (rule field_texts_not_unique[OF own_b64.b64_engine_axioms ex_matters_ok(1,3)])

end
