(* ===== verification/Spec2Isabelle.thy ===== *)
theory Spec2Isabelle
  imports Keri_Credential Keri_Custody_Props Stream_Codec Stream_Framing_Count Codec_Props
begin

text \<open>
  A verification development of the cesr workspace: the CESR codec
  (\<^verbatim>\<open>crates/cesr\<close>), its streaming layer (\<^verbatim>\<open>crates/cesr-stream\<close>), the KERI event model
  (\<^verbatim>\<open>crates/keri-events\<close>), the codec of events (\<^verbatim>\<open>crates/keri-codec\<close>) and the validating engine (\<^verbatim>\<open>crates/keri\<close>). Every theory
  named here models one group of source files; a definition has the name of the function it
  translates, prefixed with its type where two types share a name.

  \<^bold>\<open>How the parts fit.\<close> The codec turns primitives (a code and raw bytes) into qb64 text or
  qb2 bytes and back. The streaming layer cuts a byte stream into messages: a serialized
  body followed by counted groups of primitives. The event codec (\<^verbatim>\<open>crates/keri-codec\<close>)
  reads and writes bodies as strict JSON, the event model gives a body its meaning, and the
  engine folds events, with the signatures found in the groups, into key states,
  registries and credential states, judges conflicts between events at one sequence number,
  and custody derives the keys that sign the next event.

  \<^bold>\<open>Conventions.\<close> Bytes are \<^verbatim>\<open>8 word\<close>, u16, u32, u64 and u128 are words of their width. A
  usize is a natural number below \<^verbatim>\<open>2 ^ 64\<close>: its checked and saturating operations are written
  out, and theorems assume inputs shorter than that. A \<^verbatim>\<open>Result\<close> is a sum, the error on the
  left; an \<^verbatim>\<open>Option\<close> around it stands for a panic, None being an index out of range or a
  failed \<^verbatim>\<open>expect\<close>. A method on \<^verbatim>\<open>&mut self\<close> returns its result with the state it leaves,
  also when it fails. A trait whose implementors are known is an enumeration with one
  function per trait item. Error texts keep the offending bytes, not the prose.

  \<^bold>\<open>The codec.\<close>
  \<^item> \<^verbatim>\<open>Cesr_Prelude\<close>: results, slices, checked arithmetic, shared lemmas and hints.
  \<^item> \<^verbatim>\<open>Cesr_B64\<close>, \<^verbatim>\<open>Cesr_Transcode\<close>: \<^verbatim>\<open>b64/\<close>: the alphabet, base64 integers, text and binary.
  \<^item> \<^verbatim>\<open>Cesr_Matter_Code\<close>, \<^verbatim>\<open>Cesr_Code_Stream\<close>, \<^verbatim>\<open>Cesr_Typed_Codes\<close>: \<^verbatim>\<open>core/matter/code/\<close>.
  \<^item> \<^verbatim>\<open>Cesr_Matter\<close>: \<^verbatim>\<open>core/matter/\<close>: primitives, their builder, parser and writer; the round
    trips in both directions for well-formed primitives.
  \<^item> \<^verbatim>\<open>Cesr_Indexer\<close>: \<^verbatim>\<open>core/indexer/\<close>; \<^verbatim>\<open>Cesr_Counter\<close>: \<^verbatim>\<open>core/counter/\<close>;
    \<^verbatim>\<open>Cesr_Version\<close>: \<^verbatim>\<open>core/version.rs\<close>, with the exactness of the version 2 parser.
  \<^item> \<^verbatim>\<open>Cesr_Crypto\<close>, \<^verbatim>\<open>Cesr_Keypair\<close>: \<^verbatim>\<open>crypto/\<close>: the dispatch on algorithms, key pairs and
    salts; signing then verifying.

  \<^bold>\<open>The streaming layer.\<close>
  \<^item> \<^verbatim>\<open>Stream_Error\<close>: \<^verbatim>\<open>error.rs\<close>, \<^verbatim>\<open>cold.rs\<close>; \<^verbatim>\<open>Stream_Text\<close>: the cursor of \<^verbatim>\<open>parse.rs\<close>;
    \<^verbatim>\<open>Stream_Count\<close>: \<^verbatim>\<open>encode.rs\<close>, a counter is read exactly where it was written.
  \<^item> \<^verbatim>\<open>Stream_Nested\<close>, \<^verbatim>\<open>Stream_Kinds\<close>, \<^verbatim>\<open>Stream_Cursor\<close>, \<^verbatim>\<open>Stream_Group\<close>, \<^verbatim>\<open>Stream_Unwrap\<close>:
    \<^verbatim>\<open>group/\<close>: the families of groups, the resumable cursor that frames one, parsing,
    iteration, encoding, and the unwrapping of generic groups. \<^verbatim>\<open>Stream_Scan\<close>,
    \<^verbatim>\<open>Stream_Kinds_Laws\<close>, \<^verbatim>\<open>Stream_Cursor_Laws\<close>, \<^verbatim>\<open>Stream_Cursor_Span\<close>, \<^verbatim>\<open>Stream_Exact\<close>,
    \<^verbatim>\<open>Stream_Group_Laws\<close>, \<^verbatim>\<open>Stream_Group_Table\<close> and \<^verbatim>\<open>Stream_Group_Tables\<close> hold their laws,
    \<^verbatim>\<open>Stream_Group_Props\<close> the properties. The key notion is a sizer: a function that
    measures what is at the head of its input, asks for more bytes when it cannot, and does
    not change its answer when more bytes follow.
  \<^item> \<^verbatim>\<open>Stream_Message\<close>: \<^verbatim>\<open>message.rs\<close>; \<^verbatim>\<open>Stream_Framing\<close>: \<^verbatim>\<open>framing.rs\<close>, whose laws,
    steps and properties are in the theories of that prefix; \<^verbatim>\<open>Stream_Codec\<close>: \<^verbatim>\<open>codec.rs\<close>.
    The properties: how a stream is cut into reads does not matter, nothing panics,
    spans and signature counts respect the caller's limits, framing agrees with parsing.
    \<^verbatim>\<open>Stream_Framing_Count\<close> says what is counted, over the bytes alone: the relation
    \<^verbatim>\<open>group_holds\<close> gives the signatures of a group and of all it encloses, and the bounded
    scan returns exactly that number.

  \<^bold>\<open>Events and engine.\<close>
  \<^item> \<^verbatim>\<open>Keri_Threshold\<close>, \<^verbatim>\<open>Keri_Events\<close>, \<^verbatim>\<open>Keri_Key_Events\<close>, \<^verbatim>\<open>Keri_Tel\<close>: \<^verbatim>\<open>crates/keri-events\<close>.
  \<^item> \<^verbatim>\<open>Keri_Error\<close>, \<^verbatim>\<open>Keri_Authority\<close>, \<^verbatim>\<open>Keri_State\<close>: \<^verbatim>\<open>error.rs\<close>, \<^verbatim>\<open>authority.rs\<close>,
    \<^verbatim>\<open>verification.rs\<close>, \<^verbatim>\<open>state.rs\<close>, \<^verbatim>\<open>delegation.rs\<close> of \<^verbatim>\<open>crates/keri\<close>. The record
    \<^verbatim>\<open>KeyState\<close> has the fields of the struct. \<^verbatim>\<open>Keri_State_Lemmas\<close> says what each
    operation accepts, \<^verbatim>\<open>Keri_Kel\<close> is the relation of accepted logs, \<^verbatim>\<open>Keri_Kel_Props\<close> and
    \<^verbatim>\<open>Keri_Kel_Safety\<close> its properties: refinement by the trusted fold, the hash chain,
    pre-rotation, authentication of every event from the first on, finality, delegation.
  \<^item> \<^verbatim>\<open>Keri_Duplicity\<close>: \<^verbatim>\<open>duplicity.rs\<close>, the judge against the rule of superseding recovery;
    \<^verbatim>\<open>Keri_Receipt\<close>: \<^verbatim>\<open>receipt.rs\<close>;
    \<^verbatim>\<open>Keri_Registry\<close>, \<^verbatim>\<open>Keri_Registry_Props\<close>: \<^verbatim>\<open>registry.rs\<close>, the fold against the replay of
    its log and the evidence each event rests on; \<^verbatim>\<open>Keri_Credential\<close>:
    \<^verbatim>\<open>credential.rs\<close> and \<^verbatim>\<open>acdc.rs\<close>; \<^verbatim>\<open>Keri_Custody\<close>, \<^verbatim>\<open>Keri_Custody_Props\<close>: \<^verbatim>\<open>custody.rs\<close>.
    \<^verbatim>\<open>Keri_Example\<close> and \<^verbatim>\<open>Keri_Registry_Example\<close> hold the concrete logs of the witnesses.

  \<^bold>\<open>The codec of events.\<close>
  \<^item> \<^verbatim>\<open>Codec_Error\<close>: \<^verbatim>\<open>error.rs\<close>; \<^verbatim>\<open>Codec_Scanner\<close>, \<^verbatim>\<open>Codec_Values\<close>: \<^verbatim>\<open>codec/scanner.rs\<close>. The
    record \<^verbatim>\<open>Scanner\<close> is the struct: input, position and budget of fields and depth. A reader
    takes the scanner and returns a value with the scanner it leaves, or an error.
    \<^verbatim>\<open>Codec_Reads\<close> holds the laws of readers: what it is to read exactly a text at some cost.
  \<^item> \<^verbatim>\<open>Codec_Field\<close>, \<^verbatim>\<open>Codec_Threshold\<close>, \<^verbatim>\<open>Codec_Opaque\<close>, \<^verbatim>\<open>Codec_Seal\<close>: the fields of a body,
    \<^verbatim>\<open>codec/field.rs\<close>, \<^verbatim>\<open>threshold.rs\<close>, \<^verbatim>\<open>deserialize/opaque_scan.rs\<close> and \<^verbatim>\<open>codec/seal.rs\<close>.
  \<^item> \<^verbatim>\<open>Codec_Event\<close>, \<^verbatim>\<open>Codec_Event_Text\<close>: \<^verbatim>\<open>codec/event.rs\<close> and \<^verbatim>\<open>receipt.rs\<close>, the grammar of each
    body, and the text that it reads.
  \<^item> \<^verbatim>\<open>Codec_Said\<close>: \<^verbatim>\<open>said.rs\<close>; \<^verbatim>\<open>Codec_Serialize\<close>, \<^verbatim>\<open>Codec_Written\<close>: \<^verbatim>\<open>serialize.rs\<close>, the
    rendering with dummied digests, the size and the digests patched in, and what the bytes
    are; \<^verbatim>\<open>Codec_Deserialize\<close>: \<^verbatim>\<open>deserialize.rs\<close>.
  \<^item> \<^verbatim>\<open>Codec_Roundtrip\<close>: written events are read back; \<^verbatim>\<open>Codec_Accept\<close>: what an accepted body
    is; \<^verbatim>\<open>Codec_Props\<close>: the properties, with an example of each kind.

  \<^bold>\<open>Interfaces.\<close> The laws that several tables or families share are locales, interpreted on
  the model: \<^verbatim>\<open>counter_table\<close> and \<^verbatim>\<open>group_table\<close> on both genus tables, \<^verbatim>\<open>group_grammar\<close> and
  \<^verbatim>\<open>exact_grammar\<close> on the kinds, and those of the code tables and of custody.

  \<^bold>\<open>Bounds and fuel.\<close> No modelled loop needs fuel, and each loop has its termination
  proof: a measure on the bytes that remain, or, for the unwrapping of generic groups, which
  is a partial function, the theorem that it returns. The iterators are run by functions
  with a number of calls, and the properties give the number that is enough: one call more
  than there are items, or, for unwrapping, the length of the payload and two.

  A body is at most \<^verbatim>\<open>0xFFFFFF\<close> bytes, the six digits of its size field (\<^verbatim>\<open>size_fits\<close>); reading
  it back needs limits of depth three at least and as many fields as the event has
  (\<^verbatim>\<open>limits_allow\<close>, \<^verbatim>\<open>event_cost\<close>).

  \<^bold>\<open>Parameters.\<close> Signature verification, signing, hashing, key stretching and the base64
  crate are not under \<^verbatim>\<open>crates/\<close>: they are arguments of the definitions, and what a
  theorem needs of them is a named hypothesis that its witness discharges with a concrete
  function.

  \<^bold>\<open>Not modelled.\<close> In \<^verbatim>\<open>crates/keri-codec\<close>, the codecs of registry events, credentials,
  schemas and exchange messages, the builders and the pairing of a body with its
  attachments (\<^verbatim>\<open>message.rs\<close>); the exchange vocabulary (\<^verbatim>\<open>ipex.rs\<close>), discovery and the wire adapters of \<^verbatim>\<open>crates/keri\<close>; random key generation and
  mnemonics; the async runtime behind the codecs; the test suites, benchmarks, fuzz targets
  and differential checks against the Python implementation.
\<close>

end
